(* ===== verification/Prelude.thy ===== *)
theory Prelude
  imports Main "HOL-Library.Word"
begin

text \<open>
  Shared vocabulary of the development: the machine integer types of the kernel, the constants of
  \<open>include/config.h\<close> and \<open>include/kerrno.h\<close>, and the generic facts about words, bits, lists and
  functions updated at a point that the component theories share.
\<close>

unbundle bit_operations_syntax

section \<open>Machine integers\<close>

type_synonym u8 = "8 word"
type_synonym u16 = "16 word"
type_synonym u32 = "32 word"
type_synonym u64 = "64 word"

section \<open>Constants of the kernel\<close>

text \<open>The memory layout (\<open>include/config.h\<close>).\<close>

abbreviation (input) USER_SPACE_END :: u32 where "USER_SPACE_END \<equiv> 0xBFFFFFFF"
abbreviation (input) KERNEL_SPACE_START :: u32 where "KERNEL_SPACE_START \<equiv> 0xC0000000"
abbreviation (input) LOWER_MEM_START :: u64 where "LOWER_MEM_START \<equiv> 0"
abbreviation (input) LOWER_MEM_END :: u64 where "LOWER_MEM_END \<equiv> 0x00100000"
abbreviation (input) PCI_MMIO_HOLE_START :: u32 where "PCI_MMIO_HOLE_START \<equiv> 0xE0000000"
abbreviation (input) PCI_MMIO_HOLE_END :: u32 where "PCI_MMIO_HOLE_END \<equiv> 0xFFFFFFFF"
abbreviation (input) USER_STACK_VIRT_TOP :: u32 where "USER_STACK_VIRT_TOP \<equiv> 0xBFFFF000"
abbreviation (input) USER_STACK_SIZE :: u32 where "USER_STACK_SIZE \<equiv> 65536"
abbreviation (input) USER_STACK_GUARD_SIZE :: u32 where "USER_STACK_GUARD_SIZE \<equiv> 4096"
abbreviation (input) USER_HEAP_START :: u32 where "USER_HEAP_START \<equiv> 0x10000000"
abbreviation (input) USER_HEAP_MAX_SIZE :: u32 where "USER_HEAP_MAX_SIZE \<equiv> 0x04000000"
abbreviation (input) KERNEL_HEAP_VIRT :: u32 where "KERNEL_HEAP_VIRT \<equiv> 0xD0000000"
abbreviation (input) KERNEL_HEAP_SIZE :: u32 where "KERNEL_HEAP_SIZE \<equiv> 0x08000000"
abbreviation (input) KERNEL_HEAP_END :: u32 where "KERNEL_HEAP_END \<equiv> 0xD8000000"
abbreviation (input) USER_MMAP_START :: u32 where "USER_MMAP_START \<equiv> 0x40000000"
abbreviation (input) USER_MMAP_MAX_SIZE :: u32 where "USER_MMAP_MAX_SIZE \<equiv> 0x40000000"
abbreviation (input) KERNEL_STACK_POOL_START :: u32 where "KERNEL_STACK_POOL_START \<equiv> 0xC8000000"
abbreviation (input) KERNEL_STACK_POOL_SIZE :: u32 where "KERNEL_STACK_POOL_SIZE \<equiv> 0x01000000"
abbreviation (input) KERNEL_STACK_SLOT_PAGES :: u32 where "KERNEL_STACK_SLOT_PAGES \<equiv> 5"

text \<open>Address translation through the direct map (\<open>VIRT_TO_PHYS\<close>, \<open>PHYS_TO_VIRT\<close>).\<close>

definition VIRT_TO_PHYS :: "u32 \<Rightarrow> u32" where
  "VIRT_TO_PHYS addr = (if addr \<ge> KERNEL_SPACE_START then addr - KERNEL_SPACE_START else addr)"

definition PHYS_TO_VIRT :: "u32 \<Rightarrow> u32" where
  "PHYS_TO_VIRT addr = addr + KERNEL_SPACE_START"

text \<open>Error numbers (\<open>include/kerrno.h\<close>); functions return them negated.\<close>

abbreviation (input) EPERM :: int where "EPERM \<equiv> 1"
abbreviation (input) ENOENT :: int where "ENOENT \<equiv> 2"
abbreviation (input) E2BIG :: int where "E2BIG \<equiv> 7"
abbreviation (input) ENOEXEC :: int where "ENOEXEC \<equiv> 8"
abbreviation (input) EBADF :: int where "EBADF \<equiv> 9"
abbreviation (input) ENOMEM :: int where "ENOMEM \<equiv> 12"
abbreviation (input) EACCES :: int where "EACCES \<equiv> 13"
abbreviation (input) EFAULT :: int where "EFAULT \<equiv> 14"
abbreviation (input) EEXIST :: int where "EEXIST \<equiv> 17"
abbreviation (input) ENOTDIR :: int where "ENOTDIR \<equiv> 20"
abbreviation (input) EINVAL :: int where "EINVAL \<equiv> 22"
abbreviation (input) EMFILE :: int where "EMFILE \<equiv> 24"
abbreviation (input) ENOTTY :: int where "ENOTTY \<equiv> 25"
abbreviation (input) ENOSPC :: int where "ENOSPC \<equiv> 28"
abbreviation (input) ENAMETOOLONG :: int where "ENAMETOOLONG \<equiv> 36"
abbreviation (input) ENOSYS :: int where "ENOSYS \<equiv> 38"
abbreviation (input) ENOTEMPTY :: int where "ENOTEMPTY \<equiv> 39"

section \<open>Page arithmetic\<close>

definition page_down :: "u32 \<Rightarrow> u32" where
  "page_down a = a AND 0xFFFFF000"

definition page_up :: "u32 \<Rightarrow> u32" where
  "page_up a = (a + 0xFFF) AND 0xFFFFF000"

abbreviation page_aligned :: "u32 \<Rightarrow> bool" where
  "page_aligned a \<equiv> unat a mod 4096 = 0"

lemma page_mask_eq: "(0xFFFFF000 :: u32) = NOT (mask 12)"
  by (simp add: mask_eq_exp_minus_1)

lemma unat_page_down: "unat (page_down a) = unat a - unat a mod 4096"
proof -
  have "unat (a AND NOT (mask 12)) = push_bit 12 (drop_bit 12 (unat a))"
    by (rule bit_eqI) (auto simp: bit_simps dest: bit_imp_le_length)
  also have "\<dots> = unat a div 4096 * 4096"
    by (simp add: push_bit_eq_mult drop_bit_eq_div)
  finally show ?thesis
    by (simp add: page_down_def page_mask_eq minus_mod_eq_div_mult)
qed

lemma page_aligned_page_down [simp]: "page_aligned (page_down a)"
  by (simp add: unat_page_down minus_mod_eq_div_mult)

lemma page_down_le: "page_down a \<le> a"
  by (simp add: word_le_nat_alt unat_page_down)

lemma page_down_aligned: "page_aligned a \<Longrightarrow> page_down a = a"
  by (simp add: word_unat_eq_iff unat_page_down)

lemma unat_page_up:
  assumes "unat a + 4095 < 2 ^ 32"
  shows "unat (page_up a) = (unat a + 4095) div 4096 * 4096"
proof -
  have "unat (a + 0xFFF) = unat a + 4095"
    using assms by (simp add: unat_word_ariths)
  moreover have "page_up a = page_down (a + 0xFFF)"
    by (simp add: page_up_def page_down_def)
  ultimately show ?thesis
    by (simp only: unat_page_down minus_mod_eq_div_mult)
qed

section \<open>Words as offsets\<close>

text \<open>
  A C pointer that is incremented wraps modulo \<open>2 ^ 32\<close>; the distance \<open>unat (a - p)\<close> from a base
  \<open>p\<close> says which iteration of a byte loop reaches the address \<open>a\<close>.
\<close>

lemma unat_minus_one_nonzero: "(d :: 'a::len word) \<noteq> 0 \<Longrightarrow> unat (d - 1) = unat d - 1"
  by (simp add: unat_minus_one)

lemma offset_Suc:
  fixes a p :: "'a::len word"
  assumes "n < 2 ^ LENGTH('a)"
  shows "unat (a - p) < Suc n \<longleftrightarrow> a = p \<or> unat (a - (p + 1)) < n"
proof (cases "a = p")
  case False
  then have d: "a - p \<noteq> 0" by simp
  have "a - (p + 1) = (a - p) - 1" by simp
  then have "unat (a - (p + 1)) = unat (a - p) - 1"
    using d by (metis unat_minus_one_nonzero)
  moreover have "0 < unat (a - p)"
    using d by (simp add: unat_gt_0)
  ultimately show ?thesis using False by auto
qed simp

lemma unat_lt_exp: "unat (w :: 'a::len word) < 2 ^ LENGTH('a)"
  by (rule unsigned_less)

lemma unat_u32_bound: "unat (w :: u32) < 4294967296"
  using unat_lt_exp [of w] by simp

lemma uint_eq_iff_word [simp]: "uint (a :: 'a::len word) = uint b \<longleftrightarrow> a = b"
  by (simp add: word_uint_eq_iff)

lemma uint_eq_zero_iff [simp]: "uint (a :: 'a::len word) = 0 \<longleftrightarrow> a = 0"
  by (simp add: word_uint_eq_iff)

lemma unat_minus_one_u32 [simp]: "unat (- 1 :: u32) = 4294967295"
  by (simp add: unsigned_minus_1_eq_mask mask_eq_exp_minus_1)

lemma unat_ucast_widen:
  "LENGTH('a) \<le> LENGTH('b) \<Longrightarrow> unat (ucast (w :: 'a::len word) :: 'b::len word) = unat w"
proof -
  assume le: "LENGTH('a) \<le> LENGTH('b)"
  have "unat w < 2 ^ LENGTH('a)" by (rule unat_lt_exp)
  also have "(2 :: nat) ^ LENGTH('a) \<le> 2 ^ LENGTH('b)" using le by simp
  finally show ?thesis by (simp add: unsigned_ucast_eq take_bit_nat_eq_self)
qed

lemma unat_ucast_narrow:
  "unat (ucast (w :: 'a::len word) :: 'b::len word) = unat w mod 2 ^ LENGTH('b)"
  by (simp add: unsigned_ucast_eq take_bit_eq_mod)

lemma mod_diff_self2: "(x - m) mod m = x mod m" for x m :: int
  using mod_add_self2 [of "x - m" m] by simp

lemma int_unat_uint: "int (unat (w :: 'a::len word)) = uint w"
  by simp

lemma mod_eq_if_lt_minus:
  "0 \<le> x \<Longrightarrow> x < 2 * m \<Longrightarrow> x mod m = (if x < m then x else x - m)" for x m :: int
  using mod_pos_pos_trivial [of x m] mod_pos_pos_trivial [of "x - m" m] mod_diff_self2 [of x m]
  by auto

lemma sint_u32: "sint (w :: u32) = (if uint w < 2147483648 then uint w else uint w - 4294967296)"
proof -
  have b: "0 \<le> uint w" "uint w < 4294967296" using unsigned_less [of w, where 'a = int] by auto
  have "sint w = (uint w + 2147483648) mod 4294967296 - 2147483648"
    by (simp add: sint_uint signed_take_bit_eq_take_bit_shift take_bit_eq_mod)
  then show ?thesis using b by (simp add: mod_eq_if_lt_minus)
qed

end
