(* ===== verification/Klib.thy ===== *)
theory Klib
  imports Prelude "HOL-Library.List_Lexorder"
begin

text \<open>
  The kernel's support library, \<open>klib.c\<close>. Memory is a total map from 32-bit addresses to bytes and
  the pointer increments of the loops wrap; a C string is the sequence of bytes from its address
  to the first zero byte (\<open>cstr\<close>). The number parsers and formatters work on the bytes of such a
  string (the end of the list is its NUL) and on an output cursor that counts the room left.
\<close>

unbundle bit_operations_syntax

section \<open>Raw memory: \<open>k_memset\<close>, \<open>k_memcpy\<close>, \<open>k_memcmp\<close>\<close>

type_synonym mem = "u32 \<Rightarrow> u8"

primrec memset_loop :: "mem \<Rightarrow> u32 \<Rightarrow> u8 \<Rightarrow> nat \<Rightarrow> mem" where
  "memset_loop m p v 0 = m"
| "memset_loop m p v (Suc n) = memset_loop (m(p := v)) (p + 1) v n"

definition k_memset :: "mem \<Rightarrow> u32 \<Rightarrow> u32 \<Rightarrow> u32 \<Rightarrow> mem" where
  "k_memset m ptr value num = memset_loop m ptr (ucast value) (unat num)"

primrec memcpy_loop :: "mem \<Rightarrow> u32 \<Rightarrow> u32 \<Rightarrow> nat \<Rightarrow> mem" where
  "memcpy_loop m d s 0 = m"
| "memcpy_loop m d s (Suc n) = memcpy_loop (m(d := m s)) (d + 1) (s + 1) n"

definition k_memcpy :: "mem \<Rightarrow> u32 \<Rightarrow> u32 \<Rightarrow> u32 \<Rightarrow> mem" where
  "k_memcpy m dest src num = memcpy_loop m dest src (unat num)"

primrec memcmp_loop :: "mem \<Rightarrow> u32 \<Rightarrow> u32 \<Rightarrow> nat \<Rightarrow> int" where
  "memcmp_loop m p1 p2 0 = 0"
| "memcmp_loop m p1 p2 (Suc n) =
     (if m p1 \<noteq> m p2 then uint (m p1) - uint (m p2) else memcmp_loop m (p1 + 1) (p2 + 1) n)"

definition k_memcmp :: "mem \<Rightarrow> u32 \<Rightarrow> u32 \<Rightarrow> u32 \<Rightarrow> int" where
  "k_memcmp m s1 s2 n = memcmp_loop m s1 s2 (unat n)"

lemma memset_loop_eq:
  "n \<le> 2 ^ 32 \<Longrightarrow> memset_loop m p v n = (\<lambda>a. if unat (a - p) < n then v else m a)"
proof (induction n arbitrary: m p)
  case (Suc n)
  have "n < 2 ^ LENGTH(32)" using Suc.prems by simp
  note off = offset_Suc [OF this, of _ p]
  show ?case using Suc by (auto simp: fun_eq_iff off)
qed simp

lemma memcpy_loop_snoc:
  "memcpy_loop m d s (Suc n) =
     (let m' = memcpy_loop m d s n in m'(d + of_nat n := m' (s + of_nat n)))"
proof (induction n arbitrary: m d s)
  case (Suc n)
  show ?case
    by (subst memcpy_loop.simps(2), subst Suc.IH) (simp add: Let_def algebra_simps)
qed simp

lemma memcpy_loop_eq:
  assumes "d \<noteq> s" and "n \<le> 2 ^ 32"
  shows "memcpy_loop m d s n =
    (\<lambda>a. if unat (a - d) < n then m (s + of_nat (unat (a - d) mod unat (d - s))) else m a)"
  using assms(2)
proof (induction n)
  case 0
  show ?case by simp
next
  case (Suc n)
  let ?k = "unat (d - s)"
  let ?m' = "memcpy_loop m d s n"
  have n32: "n < 2 ^ 32" using Suc.prems by simp
  have k0: "0 < ?k" using assms(1) by (simp add: unat_gt_0)
  have IH: "?m' = (\<lambda>a. if unat (a - d) < n then m (s + of_nat (unat (a - d) mod ?k)) else m a)"
    using Suc.IH n32 by simp
  have un: "unat (of_nat n :: u32) = n"
    using n32 by (simp add: unat_of_nat)
  have eq: "s + of_nat n - d = of_nat n - (d - s)"
    by (simp add: algebra_simps)
  have src: "?m' (s + of_nat n) = m (s + of_nat (n mod ?k))"
  proof (cases "n < ?k")
    case True
    then have "\<not> unat (s + of_nat n - d) < n"
      unfolding eq using un unat_u32_bound [of "d - s"] by (simp add: unat_sub_if')
    then show ?thesis using True by (simp add: IH)
  next
    case False
    then have "unat (s + of_nat n - d) = n - ?k"
      unfolding eq using un by (simp add: unat_sub_if')
    then show ?thesis using False k0 by (simp add: IH le_mod_geq)
  qed
  have "memcpy_loop m d s (Suc n) = ?m'(d + of_nat n := m (s + of_nat (n mod ?k)))"
    using src by (simp only: memcpy_loop_snoc Let_def)
  moreover have "a = d + of_nat n \<longleftrightarrow> unat (a - d) = n" for a
    using un by (metis add.commute diff_add_cancel word_unat_eq_iff add_diff_cancel_left')
  ultimately show ?case by (auto simp: fun_eq_iff IH less_Suc_eq)
qed

lemma memcmp_loop_zero_iff:
  "memcmp_loop m p q n = 0 \<longleftrightarrow> (\<forall>i<n. m (p + of_nat i) = m (q + of_nat i))"
proof (induction n arbitrary: p q)
  case (Suc n)
  have "(\<forall>i<Suc n. m (p + of_nat i) = m (q + of_nat i)) \<longleftrightarrow>
     m p = m q \<and> (\<forall>i<n. m (p + 1 + of_nat i) = m (q + 1 + of_nat i))"
    by (simp add: All_less_Suc2 add.assoc)
  then show ?case by (simp add: Suc.IH)
qed simp

section \<open>C strings\<close>

text \<open>\<open>cstr m p s\<close>: the bytes \<open>s\<close>, none of them zero, stand at \<open>p\<close> and are followed by a zero byte.\<close>

primrec cstr :: "mem \<Rightarrow> u32 \<Rightarrow> u8 list \<Rightarrow> bool" where
  "cstr m p [] \<longleftrightarrow> m p = 0"
| "cstr m p (c # cs) \<longleftrightarrow> m p = c \<and> c \<noteq> 0 \<and> cstr m (p + 1) cs"

text \<open>The scanning loops stop at a NUL only; \<open>None\<close> is a scan that never finds one.\<close>

partial_function (option) strlen_loop :: "mem \<Rightarrow> u32 \<Rightarrow> u32 \<Rightarrow> u32 option" where
  "strlen_loop m str len =
     (if m (str + len) = 0 then Some len else strlen_loop m str (len + 1))"

definition k_strlen :: "mem \<Rightarrow> u32 \<Rightarrow> u32 option" where
  "k_strlen m str = strlen_loop m str 0"

partial_function (option) k_strcmp :: "mem \<Rightarrow> u32 \<Rightarrow> u32 \<Rightarrow> int option" where
  "k_strcmp m s1 s2 =
     (if m s1 \<noteq> 0 \<and> m s1 = m s2 then k_strcmp m (s1 + 1) (s2 + 1)
      else Some (uint (m s1) - uint (m s2)))"

primrec strncmp_loop :: "mem \<Rightarrow> u32 \<Rightarrow> u32 \<Rightarrow> nat \<Rightarrow> int" where
  "strncmp_loop m s1 s2 0 = 0"
| "strncmp_loop m s1 s2 (Suc n) =
     (if m s1 \<noteq> 0 \<and> m s1 = m s2 then strncmp_loop m (s1 + 1) (s2 + 1) n
      else uint (m s1) - uint (m s2))"

definition k_strncmp :: "mem \<Rightarrow> u32 \<Rightarrow> u32 \<Rightarrow> u32 \<Rightarrow> int" where
  "k_strncmp m s1 s2 n = strncmp_loop m s1 s2 (unat n)"

text \<open>\<open>k_strncpy\<close>: the copying loop, which stops at the source's NUL, then the padding loop.\<close>

primrec strncpy_pad :: "mem \<Rightarrow> u32 \<Rightarrow> nat \<Rightarrow> mem" where
  "strncpy_pad m d 0 = m"
| "strncpy_pad m d (Suc n) = strncpy_pad (m(d := 0)) (d + 1) n"

primrec strncpy_loop :: "mem \<Rightarrow> u32 \<Rightarrow> u32 \<Rightarrow> nat \<Rightarrow> mem" where
  "strncpy_loop m d s 0 = m"
| "strncpy_loop m d s (Suc n) =
     (if m s \<noteq> 0 then strncpy_loop (m(d := m s)) (d + 1) (s + 1) n
      else strncpy_pad m d (Suc n))"

definition k_strncpy :: "mem \<Rightarrow> u32 \<Rightarrow> u32 \<Rightarrow> u32 \<Rightarrow> mem" where
  "k_strncpy m dest src n = strncpy_loop m dest src (unat n)"

lemma strlen_loop_cstr:
  "cstr m (str + len) s \<Longrightarrow> strlen_loop m str len = Some (len + of_nat (length s))"
proof (induction s arbitrary: len)
  case Nil
  then show ?case by (subst strlen_loop.simps) simp
next
  case (Cons c s)
  then have "strlen_loop m str (len + 1) = Some (len + 1 + of_nat (length s))"
    by (simp add: add.assoc)
  with Cons.prems show ?case
    by (subst strlen_loop.simps) (simp add: ac_simps)
qed

lemma k_strcmp_cstr:
  "cstr m p s \<Longrightarrow> cstr m q t \<Longrightarrow>
   \<exists>r. k_strcmp m p q = Some r \<and> (r = 0 \<longleftrightarrow> s = t) \<and> (r < 0 \<longleftrightarrow> s < t)"
proof (induction s arbitrary: p q t)
  case Nil
  then show ?case
    by (cases t) (subst k_strcmp.simps, auto simp: word_less_def word_neq_0_conv)+
next
  case (Cons c s)
  show ?case
  proof (cases t)
    case Nil
    with Cons.prems show ?thesis
      by (subst k_strcmp.simps) (auto simp: word_neq_0_conv word_less_def)
  next
    case (Cons d t')
    show ?thesis
    proof (cases "c = d")
      case True
      with Cons Cons.prems Cons.IH [of "p + 1" "q + 1" t'] show ?thesis
        by (subst k_strcmp.simps) auto
    next
      case False
      with Cons Cons.prems show ?thesis
        by (subst k_strcmp.simps) (auto simp: word_less_def)
    qed
  qed
qed

lemma strncmp_loop_cstr:
  "cstr m p s \<Longrightarrow> cstr m q t \<Longrightarrow> strncmp_loop m p q n = 0 \<longleftrightarrow> take n s = take n t"
proof (induction n arbitrary: p q s t)
  case (Suc n)
  show ?case
  proof (cases s)
    case Nil
    then show ?thesis using Suc.prems by (cases t) auto
  next
    case (Cons c s')
    then show ?thesis using Suc.prems Suc.IH [of "p + 1" s' "q + 1"] by (cases t) auto
  qed
qed simp

lemma cstr_update:
  "cstr m p s \<Longrightarrow> (\<forall>j\<le>length s. a \<noteq> p + of_nat j) \<Longrightarrow> cstr (m(a := v)) p s"
proof (induction s arbitrary: p)
  case (Cons c s)
  have "\<forall>j\<le>length s. a \<noteq> p + 1 + of_nat j"
  proof (intro allI impI)
    fix j assume "j \<le> length s"
    then show "a \<noteq> p + 1 + of_nat j"
      using Cons.prems(2) [rule_format, of "Suc j"] by (simp add: add.assoc)
  qed
  moreover have "a \<noteq> p" using Cons.prems(2) [rule_format, of 0] by simp
  ultimately show ?case using Cons by simp
qed simp

lemma strncpy_pad_eq:
  "n \<le> 2 ^ 32 \<Longrightarrow> strncpy_pad m d n = (\<lambda>a. if unat (a - d) < n then 0 else m a)"
proof (induction n arbitrary: m d)
  case (Suc n)
  have "n < 2 ^ LENGTH(32)" using Suc.prems by simp
  note off = offset_Suc [OF this, of _ d]
  show ?case using Suc by (auto simp: fun_eq_iff off)
qed simp

lemma strncpy_loop_eq:
  assumes "cstr m src s" and "n \<le> 2 ^ 32"
    and "\<forall>i<n. \<forall>j\<le>length s. dest + of_nat i \<noteq> src + of_nat j"
  shows "strncpy_loop m dest src n =
    (\<lambda>a. if unat (a - dest) < n
          then (if unat (a - dest) < length s then s ! unat (a - dest) else 0) else m a)"
  using assms
proof (induction n arbitrary: m dest src s)
  case (Suc n)
  have n32: "n < 2 ^ LENGTH(32)" using Suc.prems(2) by simp
  show ?case
  proof (cases s)
    case Nil
    with Suc.prems(1) have "m src = 0" by simp
    then have "strncpy_loop m dest src (Suc n) = strncpy_pad m dest (Suc n)"
      by simp
    then show ?thesis using Nil Suc.prems(2) by (simp only: strncpy_pad_eq) auto
  next
    case (Cons c s')
    have sep: "\<forall>i<n. \<forall>j\<le>length s'. dest + 1 + of_nat i \<noteq> src + 1 + of_nat j"
    proof (intro allI impI)
      fix i j assume "i < n" and "j \<le> length s'"
      then show "dest + 1 + of_nat i \<noteq> src + 1 + of_nat j"
        using Suc.prems(3) [rule_format, of "Suc i" "Suc j"] Cons by (simp add: add.assoc)
    qed
    have "cstr (m(dest := c)) (src + 1) s'"
    proof (rule cstr_update)
      show "cstr m (src + 1) s'" using Suc.prems(1) Cons by simp
      show "\<forall>j\<le>length s'. dest \<noteq> src + 1 + of_nat j"
      proof (intro allI impI)
        fix j assume "j \<le> length s'"
        then show "dest \<noteq> src + 1 + of_nat j"
          using Suc.prems(3) [rule_format, of 0 "Suc j"] Cons by (simp add: add.assoc)
      qed
    qed
    moreover have "n \<le> 2 ^ 32" using Suc.prems(2) by simp
    ultimately have IH: "strncpy_loop (m(dest := c)) (dest + 1) (src + 1) n =
      (\<lambda>a. if unat (a - (dest + 1)) < n
        then (if unat (a - (dest + 1)) < length s' then s' ! unat (a - (dest + 1)) else 0)
        else (m(dest := c)) a)"
      using sep by (rule Suc.IH [where m = "m(dest := c)"])
    have step: "unat (a - (dest + 1)) = unat (a - dest) - 1" if "a \<noteq> dest" for a
    proof -
      from that have "a - dest \<noteq> 0" by simp
      moreover have "a - (dest + 1) = (a - dest) - 1" by simp
      ultimately show ?thesis by (metis unat_minus_one_nonzero)
    qed
    have start: "\<not> unat (dest - (dest + 1)) < n"
      using n32 by simp
    have pos: "0 < unat (a - dest)" if "a \<noteq> dest" for a
      using that by (simp add: unat_gt_0)
    have loop: "strncpy_loop m dest src (Suc n) =
        strncpy_loop (m(dest := c)) (dest + 1) (src + 1) n"
      using Suc.prems(1) Cons by auto
    show ?thesis
    proof (rule ext)
      fix a
      show "strncpy_loop m dest src (Suc n) a =
        (if unat (a - dest) < Suc n
         then (if unat (a - dest) < length s then s ! unat (a - dest) else 0) else m a)"
      proof (cases "a = dest")
        case True
        then show ?thesis unfolding loop IH using Cons start by simp
      next
        case False
        from pos [OF False] obtain k where k: "unat (a - dest) = Suc k"
          by (cases "unat (a - dest)") auto
        then have "unat (a - (dest + 1)) = k" using step [OF False] by simp
        then show ?thesis unfolding loop IH using k Cons False by simp
      qed
    qed
  qed
qed simp

end
