(* ===== verification/Klib_Num.thy ===== *)
theory Klib_Num
  imports Klib
begin

text \<open>
  Number parsing and printing of \<open>klib.c\<close>: \<open>k_atoi\<close> and \<open>k_atoh\<close> against the value of the digits they
  read, the digit loop shared by every printer, and the round trips between the two.
\<close>

unbundle bit_operations_syntax

section \<open>Numbers: \<open>k_atoi\<close>, \<open>k_atoh\<close>, \<open>k_itoa\<close>, \<open>k_uitoa\<close>\<close>

text \<open>
  The parsers read the bytes of a C string; the end of the list is its NUL, at which every loop
  of the source stops. A NULL pointer is \<open>None\<close>. An \<open>int\<close> is its 32-bit pattern, read with \<open>sint\<close>.
\<close>

fun skip_spaces :: "u8 list \<Rightarrow> u8 list" where
  "skip_spaces (c # cs) = (if c = 0x20 then skip_spaces cs else c # cs)"
| "skip_spaces [] = []"

fun atoi_digits :: "u32 \<Rightarrow> u8 list \<Rightarrow> u32" where
  "atoi_digits uresult (c # cs) =
     (if 0x30 \<le> c \<and> c \<le> 0x39 then
        let digit = ucast (c - 0x30) in
        atoi_digits
          (if uresult > (0xFFFFFFFF - digit) div 10 then 0xFFFFFFFF else uresult * 10 + digit) cs
      else uresult)"
| "atoi_digits uresult [] = uresult"

definition atoi_sign :: "u8 list \<Rightarrow> bool \<times> u8 list" where
  "atoi_sign s = (case s of
     c # cs \<Rightarrow> if c = 0x2D then (True, cs) else if c = 0x2B then (False, cs) else (False, s)
   | [] \<Rightarrow> (False, []))"

definition k_atoi :: "u8 list option \<Rightarrow> u32" where
  "k_atoi str = (case str of None \<Rightarrow> 0 | Some s \<Rightarrow>
     let (negative, s') = atoi_sign (skip_spaces s);
         uresult = atoi_digits 0 s'
     in if negative then (if uresult \<le> 0x80000000 then 0 - uresult else 0x80000000)
        else (if uresult \<le> 0x7FFFFFFF then uresult else 0x7FFFFFFF))"

fun atoh_loop :: "u32 \<Rightarrow> u8 list \<Rightarrow> u32" where
  "atoh_loop result (c # cs) =
     (let result = push_bit 4 result in
      if 0x30 \<le> c \<and> c \<le> 0x39 then atoh_loop (result OR ucast (c - 0x30)) cs
      else if 0x61 \<le> c \<and> c \<le> 0x66 then atoh_loop (result OR ucast (c - 0x61 + 10)) cs
      else if 0x41 \<le> c \<and> c \<le> 0x46 then atoh_loop (result OR ucast (c - 0x41 + 10)) cs
      else result)"
| "atoh_loop result [] = result"

definition k_atoh :: "u8 list option \<Rightarrow> u32" where
  "k_atoh str = (case str of None \<Rightarrow> 0 | Some s \<Rightarrow>
     (case s of
        a # b # cs \<Rightarrow> if a = 0x30 \<and> (b = 0x78 \<or> b = 0x58) then atoh_loop 0 cs else atoh_loop 0 s
      | _ \<Rightarrow> atoh_loop 0 s))"

text \<open>
  The digit loop shared by \<open>k_itoa\<close>, \<open>k_uitoa\<close>, \<open>k_put_int\<close> and \<open>k_put_uint\<close>: least significant
  digit first, into \<open>char tmp[33]\<close>. \<open>room\<close> counts the free slots of \<open>tmp\<close>; \<open>None\<close> is a write past
  its end (base 1) or a division by zero (base 0).
\<close>

definition digit_char :: "u32 \<Rightarrow> u8" where
  "digit_char rem = (if rem <s 10 then ucast rem + 0x30 else ucast rem - 10 + 0x61)"

fun digit_loop :: "nat \<Rightarrow> u32 \<Rightarrow> u32 \<Rightarrow> u8 list option" where
  "digit_loop room base value =
     (if value = 0 then Some []
      else if room = 0 \<or> base = 0 then None
      else map_option (\<lambda>tmp. digit_char (value mod base) # tmp)
             (digit_loop (room - 1) base (value div base)))"

declare digit_loop.simps [simp del]

definition k_itoa :: "u32 \<Rightarrow> u32 \<Rightarrow> u8 list option" where
  "k_itoa value base =
     (if value = 0 then Some [0x30]
      else let negative = (value <s 0 \<and> base = 10);
               uvalue = (if negative then - value else value)
           in map_option (\<lambda>tmp. (if negative then [0x2D] else []) @ rev tmp)
                (digit_loop 33 base uvalue))"

definition k_uitoa :: "u32 \<Rightarrow> u32 \<Rightarrow> u8 list option" where
  "k_uitoa value base =
     (if value = 0 then Some [0x30] else map_option rev (digit_loop 33 base value))"

section \<open>What the parsers compute\<close>

text \<open>The value of the leading decimal digits, in unbounded arithmetic.\<close>

fun dec_val :: "nat \<Rightarrow> u8 list \<Rightarrow> nat" where
  "dec_val n (c # cs) = (if 0x30 \<le> c \<and> c \<le> 0x39 then dec_val (n * 10 + (unat c - 48)) cs else n)"
| "dec_val n [] = n"

definition signed_val :: "u8 list \<Rightarrow> int" where
  "signed_val s = (let (negative, s') = atoi_sign (skip_spaces s)
     in (if negative then - 1 else 1) * int (dec_val 0 s'))"

lemma atoi_digits_saturates:
  "unat u = min 4294967295 n \<Longrightarrow> unat (atoi_digits u s) = min 4294967295 (dec_val n s)"
proof (induction u s arbitrary: n rule: atoi_digits.induct)
  case (1 u c cs)
  show ?case
  proof (cases "0x30 \<le> c \<and> c \<le> 0x39")
    case True
    define d where "d = unat c - 48"
    have c: "48 \<le> unat c" "unat c \<le> 57" using True by (auto simp: word_le_nat_alt)
    then have ud: "unat (ucast (c - 0x30) :: u32) = d" and d9: "d \<le> 9"
      using True by (auto simp: d_def unat_sub word_le_nat_alt unat_ucast_widen)
    let ?dg = "ucast (c - 0x30) :: u32"
    have lim: "unat ((0xFFFFFFFF - ?dg) div 10) = (4294967295 - d) div 10"
    proof -
      have "?dg \<le> 0xFFFFFFFF" using ud d9 by (simp add: word_le_nat_alt)
      then show ?thesis using ud by (simp add: unat_div unat_sub)
    qed
    let ?u' = "if u > (0xFFFFFFFF - ?dg) div 10 then 0xFFFFFFFF else u * 10 + ?dg"
    have "unat ?u' = min 4294967295 (n * 10 + d)"
    proof (cases "u > (0xFFFFFFFF - ?dg) div 10")
      case True
      then have "(4294967295 - d) div 10 < unat u" by (simp add: word_less_nat_alt lim)
      then have "(4294967295 - d) div 10 < n" using "1.prems" by simp
      then have "4294967295 \<le> n * 10 + d" by (simp add: div_less_iff_less_mult)
      then show ?thesis using True by simp
    next
      case False
      then have le: "unat u \<le> (4294967295 - d) div 10" by (simp add: word_less_nat_alt lim)
      then have "unat u * 10 + d < 4294967296" using d9 by simp
      then have "unat (u * 10 + ?dg) = unat u * 10 + d"
        by (simp add: unat_word_ariths ud)
      moreover have "n = unat u" using le "1.prems" d9 by (simp split: if_splits)
      ultimately show ?thesis using False le d9 by simp
    qed
    from "1.IH" [OF True refl this] True show ?thesis
      by (simp add: Let_def d_def)
  next
    case False
    then show ?thesis using "1.prems" by auto
  qed
qed simp

lemma atoi_digits_value: "unat (atoi_digits 0 s) = min 4294967295 (dec_val 0 s)"
  by (rule atoi_digits_saturates) simp

lemma k_atoi_clamps:
  "sint (k_atoi (Some s)) = max (- 2147483648) (min 2147483647 (signed_val s))"
proof -
  obtain negative s' where sg: "atoi_sign (skip_spaces s) = (negative, s')"
    by (cases "atoi_sign (skip_spaces s)")
  let ?u = "atoi_digits 0 s'"
  have u: "uint ?u = min 4294967295 (int (dec_val 0 s'))"
    using arg_cong [OF atoi_digits_value [of s'], of int] by simp
  show ?thesis
  proof (cases negative)
    case True
    have "sint (0 - ?u) = - uint ?u" if "?u \<le> 0x80000000"
      using that by (auto simp: sint_u32 word_le_def uint_word_ariths zmod_zminus1_eq_if)
    then show ?thesis using True sg u
      by (auto simp: k_atoi_def signed_val_def word_le_def)
  next
    case False
    then show ?thesis using sg u
      by (auto simp: k_atoi_def signed_val_def word_le_def sint_u32)
  qed
qed

section \<open>The digit loop and the round trips\<close>

lemma digit_loop_total:
  "2 \<le> unat base \<Longrightarrow> unat x < 2 ^ k \<Longrightarrow> k \<le> room \<Longrightarrow>
   \<exists>tmp. digit_loop room base x = Some tmp \<and> length tmp \<le> k"
proof (induction k arbitrary: room x)
  case 0
  then have "x = 0" by (simp add: unat_eq_zero)
  then show ?case by (simp add: digit_loop.simps)
next
  case (Suc k)
  show ?case
  proof (cases "x = 0")
    case False
    have "unat (x div base) \<le> unat x div 2"
      using Suc.prems(1) by (simp add: unat_div div_le_mono2)
    then have "unat (x div base) < 2 ^ k" using Suc.prems(2) by simp
    with Suc.IH [of "x div base" "room - 1"] Suc.prems
    obtain tmp where "digit_loop (room - 1) base (x div base) = Some tmp" "length tmp \<le> k"
      by fastforce
    moreover have "base \<noteq> 0" using Suc.prems(1) by auto
    ultimately show ?thesis
      using False Suc.prems by (subst digit_loop.simps) auto
  qed (simp add: digit_loop.simps)
qed

lemma digit_loop_33:
  "2 \<le> unat base \<Longrightarrow> \<exists>tmp. digit_loop 33 base x = Some tmp \<and> length tmp \<le> 32"
  using digit_loop_total [of base x 32 33] unat_u32_bound [of x] by simp

lemma digit_char_decimal:
  assumes "unat rem < 10"
  shows "0x30 \<le> digit_char rem" and "digit_char rem \<le> 0x39"
    and "unat (digit_char rem) - 48 = unat rem"
proof -
  have "rem < 10" using assms by (simp add: word_less_nat_alt)
  then have "uint rem < 10" by (simp add: word_less_def)
  then have "rem <s 10" by (simp add: word_sless_alt sint_u32)
  then have "unat (digit_char rem) = unat rem + 48"
    using assms by (simp add: digit_char_def unat_word_ariths unat_ucast_narrow)
  then show "0x30 \<le> digit_char rem" and "digit_char rem \<le> 0x39"
    and "unat (digit_char rem) - 48 = unat rem"
    using assms by (simp_all add: word_le_nat_alt)
qed

lemma dec_val_append:
  "\<forall>c\<in>set xs. 0x30 \<le> c \<and> c \<le> 0x39 \<Longrightarrow> dec_val n (xs @ ys) = dec_val (dec_val n xs) ys"
  by (induction n xs rule: dec_val.induct) auto

lemma digit_loop_decimal:
  "digit_loop room 10 x = Some tmp \<Longrightarrow>
   (\<forall>c\<in>set tmp. 0x30 \<le> c \<and> c \<le> 0x39) \<and> dec_val 0 (rev tmp) = unat x"
proof (induction room arbitrary: x tmp)
  case 0
  then show ?case by (simp add: digit_loop.simps split: if_splits)
next
  case (Suc room)
  show ?case
  proof (cases "x = 0")
    case True
    then show ?thesis using Suc.prems by (simp add: digit_loop.simps)
  next
    case False
    with Suc.prems obtain tmp' where
      l: "digit_loop room 10 (x div 10) = Some tmp'" and
      t: "tmp = digit_char (x mod 10) # tmp'"
      by (subst (asm) digit_loop.simps) (auto split: if_splits)
    have m: "unat (x mod 10) < 10" by (simp add: unat_mod)
    show ?thesis
      using Suc.IH [OF l] digit_char_decimal [OF m] t
      by (auto simp: dec_val_append unat_div unat_mod)
  qed
qed

lemma skip_spaces_digit:
  "xs \<noteq> [] \<Longrightarrow> \<forall>c\<in>set xs. 0x30 \<le> c \<and> c \<le> 0x39 \<Longrightarrow> atoi_sign (skip_spaces xs) = (False, xs)"
  by (cases xs) (auto simp: atoi_sign_def)

lemma k_atoi_k_itoa: "\<exists>s. k_itoa x 10 = Some s \<and> k_atoi (Some s) = x"
proof (cases "x = 0")
  case True
  then show ?thesis by (simp add: k_itoa_def k_atoi_def atoi_sign_def)
next
  case False
  let ?neg = "x <s 0"
  let ?u = "if ?neg then - x else x"
  obtain tmp where tmp: "digit_loop 33 10 ?u = Some tmp"
    using digit_loop_33 [of 10 ?u] by auto
  from digit_loop_decimal [OF this]
  have dig: "\<forall>c\<in>set (rev tmp). 0x30 \<le> c \<and> c \<le> 0x39" and v: "dec_val 0 (rev tmp) = unat ?u"
    by auto
  have ad: "atoi_digits 0 (rev tmp) = ?u"
    using atoi_digits_value [of "rev tmp"] v unat_u32_bound [of ?u]
    by (simp add: word_unat_eq_iff del: if_split)
  have "?u \<noteq> 0" using False by simp
  then have ne: "rev tmp \<noteq> []" using v by (auto simp: unat_eq_0)
  show ?thesis
  proof (cases ?neg)
    case True
    then have "- x \<le> 0x80000000"
      using False by (auto simp: word_sless_alt sint_u32 word_le_def uint_word_ariths zmod_zminus1_eq_if
          split: if_splits)
    then show ?thesis
      using True False tmp ad by (simp add: k_itoa_def k_atoi_def atoi_sign_def)
  next
    case F: False
    then have "x \<le> 0x7FFFFFFF"
      using unsigned_less [of x, where 'a = int]
      by (auto simp: word_sless_alt sint_u32 word_le_def split: if_splits)
    then show ?thesis
      using F False tmp ad skip_spaces_digit [OF ne dig] by (simp add: k_itoa_def k_atoi_def)
  qed
qed

section \<open>Hexadecimal\<close>

lemma nibble_or: "d < 16 \<Longrightarrow> push_bit 4 r OR d = r * 16 + (d :: u32)"
proof -
  assume "d < 16"
  then have "take_bit 4 d = d"
    by (simp add: take_bit_eq_mod word_less_nat_alt word_unat_eq_iff unat_mod)
  then have "bit d n \<Longrightarrow> n < 4" for n by (metis bit_take_bit_iff)
  then have "push_bit 4 r + d = push_bit 4 r OR d"
    by (intro disjunctive_add) (metis bit_push_bit_iff leD)
  then show ?thesis by (simp add: push_bit_eq_mult)
qed

lemma digit_char_hex_cases:
  assumes "r < 16"
  shows "r = 0 \<or> r = 1 \<or> r = 2 \<or> r = 3 \<or> r = 4 \<or> r = 5 \<or> r = 6 \<or> r = 7 \<or> r = 8 \<or>
    r = 9 \<or> r = 10 \<or> r = 11 \<or> r = 12 \<or> r = 13 \<or> r = 14 \<or> r = (15 :: u32)"
proof -
  have "unat r < 16" using assms by (simp add: word_less_nat_alt)
  then have "unat r = 0 \<or> unat r = 1 \<or> unat r = 2 \<or> unat r = 3 \<or> unat r = 4 \<or> unat r = 5 \<or>
    unat r = 6 \<or> unat r = 7 \<or> unat r = 8 \<or> unat r = 9 \<or> unat r = 10 \<or> unat r = 11 \<or>
    unat r = 12 \<or> unat r = 13 \<or> unat r = 14 \<or> unat r = 15" by presburger
  then show ?thesis by (simp only: word_unat_eq_iff) simp
qed

lemma atoh_loop_digit:
  "r < 16 \<Longrightarrow> atoh_loop u (digit_char r # cs) = atoh_loop (u * 16 + r) cs"
  using nibble_or [of r u]
  by (drule_tac digit_char_hex_cases) (elim disjE, auto simp: digit_char_def word_sless_alt Let_def)

lemma atoh_loop_digits:
  "\<forall>r\<in>set ds. r < 16 \<Longrightarrow>
   atoh_loop u (map digit_char ds @ cs) = atoh_loop (fold (\<lambda>r u. u * 16 + r) ds u) cs"
  by (induction ds arbitrary: u) (simp_all add: atoh_loop_digit del: atoh_loop.simps)

lemma digit_loop_hex:
  "digit_loop room 16 x = Some tmp \<Longrightarrow>
   \<exists>ds. tmp = map digit_char ds \<and> (\<forall>r\<in>set ds. r < 16) \<and>
     fold (\<lambda>r u. u * 16 + r) (rev ds) 0 = x \<and> (x = 0 \<longleftrightarrow> ds = []) \<and> (x \<noteq> 0 \<longrightarrow> last ds \<noteq> 0)"
proof (induction room arbitrary: x tmp)
  case 0
  then show ?case by (simp add: digit_loop.simps split: if_splits)
next
  case (Suc room)
  show ?case
  proof (cases "x = 0")
    case True
    then show ?thesis using Suc.prems by (simp add: digit_loop.simps)
  next
    case False
    with Suc.prems obtain tmp' where
      l: "digit_loop room 16 (x div 16) = Some tmp'" and
      t: "tmp = digit_char (x mod 16) # tmp'"
      by (subst (asm) digit_loop.simps) (auto split: if_splits)
    from Suc.IH [OF l] obtain ds where ds: "tmp' = map digit_char ds" "\<forall>r\<in>set ds. r < 16"
      "fold (\<lambda>r u. u * 16 + r) (rev ds) 0 = x div 16" "x div 16 = 0 \<longleftrightarrow> ds = []"
      "x div 16 \<noteq> 0 \<longrightarrow> last ds \<noteq> 0"
      by blast
    have m: "x mod 16 < 16" by (simp add: word_less_nat_alt unat_mod)
    have e: "x div 16 * 16 + x mod 16 = x"
      by (rule div_mult_mod_eq)
    have "last ((x mod 16) # ds) \<noteq> 0"
    proof (cases "ds = []")
      case True
      then show ?thesis using ds(4) e False by (metis add_0 last.simps mult_zero_left)
    qed (use ds in auto)
    then show ?thesis
      using t ds(1-3) m e False by (intro exI [of _ "(x mod 16) # ds"]) auto
  qed
qed

lemma k_atoh_k_uitoa: "\<exists>s. k_uitoa x 16 = Some s \<and> k_atoh (Some s) = x"
proof (cases "x = 0")
  case True
  then show ?thesis by (simp add: k_uitoa_def k_atoh_def)
next
  case False
  obtain tmp where t: "digit_loop 33 16 x = Some tmp" using digit_loop_33 [of 16 x] by auto
  from digit_loop_hex [OF this] False obtain ds where ds: "tmp = map digit_char ds"
    "\<forall>r\<in>set ds. r < 16" "fold (\<lambda>r u. u * 16 + r) (rev ds) 0 = x" "ds \<noteq> []" "last ds \<noteq> 0"
    by auto
  have "hd (rev ds) \<noteq> 0" "hd (rev ds) < 16" using ds by (auto simp: hd_rev)
  then have "digit_char (hd (rev ds)) \<noteq> 0x30"
    using digit_char_hex_cases [of "hd (rev ds)"] by (auto simp: digit_char_def word_sless_alt)
  moreover obtain r rs where "rev ds = r # rs" using ds(4) by (cases "rev ds") auto
  ultimately have "k_atoh (Some (map digit_char (rev ds))) = atoh_loop 0 (map digit_char (rev ds))"
    by (simp add: k_atoh_def split: list.splits)
  then show ?thesis
    using t ds False atoh_loop_digits [of "rev ds" 0 "[]"] by (auto simp: k_uitoa_def rev_map)
qed
text \<open>A character that is not a digit ends the number, but only after the shift.\<close>

lemma k_atoh_stray_character: "k_atoh (Some [0x31, 0x67]) = 0x10"
  by (simp add: k_atoh_def Let_def)

section \<open>Properties\<close>

text \<open>
  \<open>k_atoi\<close> saturates: for every string its result is the signed decimal number at the front of
  the string (leading spaces and one sign skipped), clamped to the range of \<open>int\<close>, however long the
  string is.
\<close>

theorem k_atoi_saturating:
  "sint (k_atoi (Some s)) = max (- (2 ^ 31)) (min (2 ^ 31 - 1) (signed_val s))"
  using k_atoi_clamps [of s] by simp

text \<open>
  Printing then parsing is the identity on all 32-bit values: \<open>k_itoa\<close> in base 10 followed by
  \<open>k_atoi\<close> (INT_MIN included), and \<open>k_uitoa\<close> in base 16 followed by \<open>k_atoh\<close>; in both, the digits
  fit the 33-byte buffer.
\<close>

theorem number_round_trips:
  "\<exists>s t. k_itoa x 10 = Some s \<and> k_atoi (Some s) = x \<and>
         k_uitoa x 16 = Some t \<and> k_atoh (Some t) = x"
  using k_atoi_k_itoa [of x] k_atoh_k_uitoa [of x] by auto

end
