(* ===== verification/Klib_Printf.thy ===== *)
theory Klib_Printf
  imports Klib_Num
begin

text \<open>
  The formatter \<open>k_vsprintf\<close> of \<open>klib.c\<close> with its two number printers. The output buffer is the list
  of the bytes written since \<open>start\<close>; \<open>lim\<close> is \<open>end - start\<close>, the bound every store of the source
  tests (1023 in \<open>k_vsprintf\<close>). The format is the bytes of the string, the end of the list its NUL;
  \<open>int\<close> values are mathematical integers and \<open>None\<close> is undefined behaviour: a signed overflow, an
  argument of the wrong kind or none at all, a read past the NUL of the format.
\<close>

unbundle bit_operations_syntax

section \<open>Bounded stores\<close>

definition put :: "nat \<Rightarrow> u8 \<Rightarrow> u8 list \<Rightarrow> u8 list" where
  "put lim c out = (if length out < lim then out @ [c] else out)"

text \<open>\<open>while (n-- > 0 && *buf < end) *(*buf)++ = c\<close>.\<close>

fun put_n :: "nat \<Rightarrow> nat \<Rightarrow> u8 \<Rightarrow> u8 list \<Rightarrow> u8 list" where
  "put_n lim n c out = (if n > 0 \<and> length out < lim then put_n lim (n - 1) c (out @ [c]) else out)"

declare put_n.simps [simp del]

text \<open>A loop that copies bytes while there is room.\<close>

fun put_all :: "nat \<Rightarrow> u8 list \<Rightarrow> u8 list \<Rightarrow> u8 list" where
  "put_all lim (c # cs) out = (if length out < lim then put_all lim cs (out @ [c]) else out)"
| "put_all lim [] out = out"

definition int_max :: int where "int_max = 0x7FFFFFFF"

section \<open>The number printers\<close>

definition digits_of :: "u32 \<Rightarrow> u32 \<Rightarrow> u8 list option" where
  "digits_of base value = (if value = 0 then Some [0x30] else digit_loop 33 base value)"

text \<open>
  The tail the two printers share: padding on the left, the sign or prefix, the leading zeros, the
  digits, padding on the right.
\<close>

definition put_field ::
  "nat \<Rightarrow> u8 list \<Rightarrow> bool \<Rightarrow> int \<Rightarrow> u8 \<Rightarrow> u8 list \<Rightarrow> int \<Rightarrow> u8 list \<Rightarrow> u8 list" where
  "put_field lim buf left pad pad_char prefix leading_zeros digits =
     (let buf = (if \<not> left then put_n lim (nat pad) pad_char buf else buf);
          buf = put_all lim prefix buf;
          buf = put_n lim (nat leading_zeros) 0x30 buf;
          buf = put_all lim digits buf
      in if left then put_n lim (nat pad) 0x20 buf else buf)"

definition k_put_int ::
  "nat \<Rightarrow> u8 list \<Rightarrow> u32 \<Rightarrow> u32 \<Rightarrow> int \<Rightarrow> int \<Rightarrow> bool \<Rightarrow> bool \<Rightarrow> bool \<Rightarrow> bool \<Rightarrow> bool \<Rightarrow> u8 list option"
where
  "k_put_int lim buf x base width precision pad_zero is_signed left_align show_sign space_flag =
     (let negative = (is_signed \<and> x <s 0);
          uval = (if negative then 0 - x else x)
      in case digits_of base uval of None \<Rightarrow> None | Some tmp \<Rightarrow>
       let len = int (length tmp);
           num_digits = (if precision > len then precision else len);
           sign_len = (if negative then 1 else if show_sign then 1 else if space_flag then 1 else 0);
           total_len = num_digits + sign_len;
           pad = width - total_len;
           pad_char = (if pad_zero \<and> precision < 0 then 0x30 else 0x20)
       in if total_len > int_max then None
          else Some (put_field lim buf left_align pad pad_char
                 (if negative then [0x2D] else if show_sign then [0x2B]
                  else if space_flag then [0x20] else [])
                 (num_digits - len) (rev tmp)))"

text \<open>
  The digit loop of \<open>k_put_uint\<close> divides \<open>value\<close> itself down to zero, and the alternate-form tests
  after it read that variable (\<open>value'\<close>).
\<close>

definition k_put_uint ::
  "nat \<Rightarrow> u8 list \<Rightarrow> u32 \<Rightarrow> u32 \<Rightarrow> int \<Rightarrow> int \<Rightarrow> bool \<Rightarrow> bool \<Rightarrow> bool \<Rightarrow> u8 list option" where
  "k_put_uint lim buf x base width precision pad_zero left_align alt_form =
     (case digits_of base x of None \<Rightarrow> None | Some tmp \<Rightarrow>
       let value' = (0 :: u32);
           len = int (length tmp);
           num_digits = (if precision > len then precision else len);
           prefix_len = (if alt_form \<and> base = 16 \<and> value' \<noteq> 0 then 2
                         else if alt_form \<and> base = 8 \<and> value' \<noteq> 0 then 1 else 0);
           total_len = num_digits + prefix_len;
           pad = width - total_len;
           pad_char = (if pad_zero \<and> precision < 0 then 0x30 else 0x20)
       in if total_len > int_max then None
          else Some (put_field lim buf left_align pad pad_char
                 (if alt_form \<and> base = 16 \<and> value' \<noteq> 0 then [0x30, 0x78]
                  else if alt_form \<and> base = 8 \<and> value' \<noteq> 0 then [0x30] else [])
                 (num_digits - len) (rev tmp)))"

section \<open>Directives\<close>

record fmtflags =
  left_align :: bool
  show_sign :: bool
  space_flag :: bool
  pad_zero :: bool
  alt_form :: bool

text \<open>What \<open>va_arg\<close> delivers: an \<open>int\<close>-sized value, or a string (a NULL pointer is \<open>None\<close>).\<close>

datatype va = VInt u32 | VStr "u8 list option"

fun va_int :: "va list \<Rightarrow> (u32 \<times> va list) option" where
  "va_int (VInt w # args) = Some (w, args)"
| "va_int _ = None"

fun va_str :: "va list \<Rightarrow> (u8 list option \<times> va list) option" where
  "va_str (VStr s # args) = Some (s, args)"
| "va_str _ = None"

fun parse_flags :: "fmtflags \<Rightarrow> u8 list \<Rightarrow> fmtflags \<times> u8 list" where
  "parse_flags fl (c # cs) =
     (if c = 0x2D then parse_flags (fl\<lparr>left_align := True\<rparr>) cs
      else if c = 0x2B then parse_flags (fl\<lparr>show_sign := True\<rparr>) cs
      else if c = 0x20 then parse_flags (fl\<lparr>space_flag := True\<rparr>) cs
      else if c = 0x30 then parse_flags (fl\<lparr>pad_zero := True\<rparr>) cs
      else if c = 0x23 then parse_flags (fl\<lparr>alt_form := True\<rparr>) cs
      else (fl, c # cs))"
| "parse_flags fl [] = (fl, [])"

fun width_digits :: "int \<Rightarrow> u8 list \<Rightarrow> int \<times> u8 list" where
  "width_digits width (c # cs) =
     (if 0x30 \<le> c \<and> c \<le> 0x39 then
        let digit = uint (c - 0x30) in
        width_digits
          (if width > (0x7FFFFFFF - digit) div 10 then 0x7FFFFFFF else width * 10 + digit) cs
      else (width, c # cs))"
| "width_digits width [] = (width, [])"

definition parse_width ::
  "fmtflags \<Rightarrow> u8 list \<Rightarrow> va list \<Rightarrow> (fmtflags \<times> int \<times> u8 list \<times> va list) option" where
  "parse_width fl fmt args =
     (if fmt \<noteq> [] \<and> hd fmt = 0x2A then
        (case va_int args of None \<Rightarrow> None | Some (w, args) \<Rightarrow>
           if w <s 0 then
             let uw = 0 - w in
             Some (fl\<lparr>left_align := True\<rparr>,
                   if uw > 0x7FFFFFFF then 0x7FFFFFFF else uint uw, tl fmt, args)
           else Some (fl, sint w, tl fmt, args))
      else let (width, fmt) = width_digits 0 fmt in Some (fl, width, fmt, args))"

fun precision_digits :: "int \<Rightarrow> u8 list \<Rightarrow> (int \<times> u8 list) option" where
  "precision_digits precision (c # cs) =
     (if 0x30 \<le> c \<and> c \<le> 0x39 then
        let p = precision * 10 + uint (c - 0x30) in
        if p > int_max then None else precision_digits p cs
      else Some (precision, c # cs))"
| "precision_digits precision [] = Some (precision, [])"

definition parse_precision ::
  "u8 list \<Rightarrow> va list \<Rightarrow> (int \<times> u8 list \<times> va list) option" where
  "parse_precision fmt args =
     (if fmt \<noteq> [] \<and> hd fmt = 0x2E then
        let fmt = tl fmt in
        if fmt \<noteq> [] \<and> hd fmt = 0x2A then
          map_option (\<lambda>(w, args). (sint w, tl fmt, args)) (va_int args)
        else map_option (\<lambda>(p, fmt). (p, fmt, args)) (precision_digits 0 fmt)
      else Some (- 1, fmt, args))"

definition skip_length :: "u8 list \<Rightarrow> u8 list" where
  "skip_length fmt = (case fmt of
     c # cs \<Rightarrow>
       if c = 0x68 then (if cs \<noteq> [] \<and> hd cs = 0x68 then tl cs else cs)
       else if c = 0x6C then (if cs \<noteq> [] \<and> hd cs = 0x6C then tl cs else cs)
       else if c = 0x7A then cs
       else fmt
   | [] \<Rightarrow> [])"

text \<open>\<open>"(null)"\<close>, printed for a NULL string.\<close>

definition null_str :: "u8 list" where
  "null_str = [0x28, 0x6E, 0x75, 0x6C, 0x6C, 0x29]"

definition put_str :: "nat \<Rightarrow> u8 list \<Rightarrow> u8 list option \<Rightarrow> int \<Rightarrow> int \<Rightarrow> bool \<Rightarrow> u8 list" where
  "put_str lim buf str width precision left =
     (let str = (case str of None \<Rightarrow> null_str | Some s \<Rightarrow> s);
          slen = int (length str);
          slen = (if precision \<ge> 0 \<and> precision < slen then precision else slen);
          pad = width - slen;
          buf = (if \<not> left then put_n lim (nat pad) 0x20 buf else buf);
          buf = put_all lim (take (nat slen) str) buf
      in if left then put_n lim (nat pad) 0x20 buf else buf)"

text \<open>
  The conversion character and what it prints. \<open>%c\<close> fetches its argument only when there is room.
\<close>

definition put_conv ::
  "nat \<Rightarrow> fmtflags \<Rightarrow> int \<Rightarrow> int \<Rightarrow> u8 \<Rightarrow> va list \<Rightarrow> u8 list \<Rightarrow> (va list \<times> u8 list) option" where
  "put_conv lim fl width precision c args buf =
     (if c = 0x64 \<or> c = 0x69 then
        (case va_int args of None \<Rightarrow> None | Some (v, args) \<Rightarrow>
           map_option (Pair args)
             (k_put_int lim buf v 10 width precision (pad_zero fl) True (left_align fl)
                (show_sign fl) (space_flag fl)))
      else if c = 0x75 \<or> c = 0x78 \<or> c = 0x58 \<or> c = 0x6F then
        (case va_int args of None \<Rightarrow> None | Some (v, args) \<Rightarrow>
           map_option (Pair args)
             (k_put_uint lim buf v (if c = 0x75 then 10 else if c = 0x6F then 8 else 16)
                width precision (pad_zero fl) (left_align fl) (alt_form fl)))
      else if c = 0x70 then
        (case va_int args of None \<Rightarrow> None | Some (v, args) \<Rightarrow>
           map_option (Pair args)
             (k_put_uint lim (put lim 0x78 (put lim 0x30 buf)) v 16 8 (- 1) True False False))
      else if c = 0x73 then
        (case va_str args of None \<Rightarrow> None | Some (s, args) \<Rightarrow>
           Some (args, put_str lim buf s width precision (left_align fl)))
      else if c = 0x63 then
        (if length buf < lim then
           (case va_int args of None \<Rightarrow> None | Some (v, args) \<Rightarrow> Some (args, buf @ [ucast v]))
         else Some (args, buf))
      else if c = 0x25 then Some (args, put lim 0x25 buf)
      else Some (args, put lim c (put lim 0x25 buf)))"

text \<open>Everything between the \<open>%\<close> and the conversion character.\<close>

definition parse_spec ::
  "u8 list \<Rightarrow> va list \<Rightarrow> (fmtflags \<times> int \<times> int \<times> u8 list \<times> va list) option" where
  "parse_spec fmt args =
     (let (fl, fmt) = parse_flags
            \<lparr>left_align = False, show_sign = False, space_flag = False, pad_zero = False,
             alt_form = False\<rparr> fmt
      in case parse_width fl fmt args of None \<Rightarrow> None | Some (fl, width, fmt, args) \<Rightarrow>
        (case parse_precision fmt args of None \<Rightarrow> None | Some (precision, fmt, args) \<Rightarrow>
           Some (fl, width, precision, skip_length fmt, args)))"

lemma parse_flags_length: "parse_flags fl fmt = (fl', fmt') \<Longrightarrow> length fmt' \<le> length fmt"
  by (induction fl fmt rule: parse_flags.induct) (auto split: if_splits)

lemma width_digits_length: "width_digits w fmt = (w', fmt') \<Longrightarrow> length fmt' \<le> length fmt"
  by (induction w fmt rule: width_digits.induct) (auto simp: Let_def split: if_splits)

lemma precision_digits_length:
  "precision_digits p fmt = Some (p', fmt') \<Longrightarrow> length fmt' \<le> length fmt"
  by (induction p fmt rule: precision_digits.induct) (auto simp: Let_def split: if_splits)

lemma parse_width_length:
  "parse_width fl fmt args = Some (fl', w, fmt', args') \<Longrightarrow> length fmt' \<le> length fmt"
  by (auto simp: parse_width_def Let_def dest: width_digits_length
      split: if_splits option.splits prod.splits)

lemma parse_precision_length:
  "parse_precision fmt args = Some (p, fmt', args') \<Longrightarrow> length fmt' \<le> length fmt"
proof -
  have "length (tl fmt) \<le> length fmt" by simp
  then show "parse_precision fmt args = Some (p, fmt', args') \<Longrightarrow> length fmt' \<le> length fmt"
    by (auto simp: parse_precision_def Let_def dest!: precision_digits_length split: if_splits)
qed

lemma skip_length_length: "length (skip_length fmt) \<le> length fmt"
  by (cases fmt) (auto simp: skip_length_def le_SucI diff_le_self)

lemma parse_spec_length:
  assumes "parse_spec fmt args = Some (fl, w, p, fmt', args')"
  shows "length fmt' \<le> length fmt"
proof -
  obtain fl1 fmt1 w1 fmt2 args2 fmt3 where
    "parse_flags \<lparr>left_align = False, show_sign = False, space_flag = False, pad_zero = False,
             alt_form = False\<rparr> fmt = (fl1, fmt1)"
    "parse_width fl1 fmt1 args = Some (fl, w1, fmt2, args2)"
    "parse_precision fmt2 args2 = Some (p, fmt3, args')" "fmt' = skip_length fmt3"
    using assms by (auto simp: parse_spec_def split: option.splits prod.splits)
  from parse_flags_length [OF this(1)] parse_width_length [OF this(2)]
    parse_precision_length [OF this(3)] this(4)
  show ?thesis using skip_length_length [of fmt3] by simp
qed

function vsprintf_loop :: "nat \<Rightarrow> u8 list \<Rightarrow> va list \<Rightarrow> u8 list \<Rightarrow> u8 list option" where
  "vsprintf_loop lim [] args buf = Some buf"
| "vsprintf_loop lim (c # fmt) args buf =
     (if \<not> length buf < lim then Some buf
      else if c \<noteq> 0x25 then vsprintf_loop lim fmt args (buf @ [c])
      else case parse_spec fmt args of None \<Rightarrow> None
        | Some (fl, width, precision, fmt', args') \<Rightarrow>
            (case fmt' of [] \<Rightarrow> None
             | conv # fmt'' \<Rightarrow>
                 (case put_conv lim fl width precision conv args' buf of None \<Rightarrow> None
                  | Some (args'', buf') \<Rightarrow> vsprintf_loop lim fmt'' args'' buf')))"
  by pat_completeness auto
termination
  by (relation "measure (\<lambda>(lim, fmt, args, buf). length fmt)") (auto dest: parse_spec_length)

text \<open>The bytes before the final NUL; their number is the value returned.\<close>

definition k_vsprintf :: "u8 list \<Rightarrow> va list \<Rightarrow> u8 list option" where
  "k_vsprintf fmt args = vsprintf_loop 1023 fmt args []"

section \<open>The bound, and what is lost to it\<close>

lemma put_n_eq: "put_n lim n c out = out @ replicate (min n (lim - length out)) c"
proof (induction n arbitrary: out)
  case (Suc n)
  show ?case
  proof (cases "length out < lim")
    case True
    then have "min (Suc n) (lim - length out) = Suc (min n (lim - length (out @ [c])))" by simp
    then show ?thesis using True Suc by (simp add: put_n.simps [of lim "Suc n"])
  qed (simp add: put_n.simps)
qed (simp add: put_n.simps)

lemma put_all_eq: "put_all lim cs out = out @ take (lim - length out) cs"
proof (induction cs arbitrary: out)
  case (Cons c cs)
  then show ?case by (auto simp: take_Cons' Suc_diff_Suc simp flip: diff_Suc_eq_diff_pred)
qed simp

lemma put_take: "lim \<le> M \<Longrightarrow> put lim c (take lim buf) = take lim (put M c buf)"
  by (simp add: put_def)

lemma put_n_take: "lim \<le> M \<Longrightarrow> put_n lim n c (take lim buf) = take lim (put_n M n c buf)"
  by (cases "length buf < lim") (simp_all add: put_n_eq take_replicate min_def)

lemma put_all_take: "lim \<le> M \<Longrightarrow> put_all lim cs (take lim buf) = take lim (put_all M cs buf)"
  by (cases "length buf < lim") (simp_all add: put_all_eq min_def)

lemmas bounded_stores = put_take put_n_take put_all_take

lemma put_field_take:
  "lim \<le> M \<Longrightarrow> put_field lim (take lim buf) la pad pc px z ds =
     take lim (put_field M buf la pad pc px z ds)"
  by (simp add: put_field_def Let_def bounded_stores)

lemma k_put_int_take:
  "lim \<le> M \<Longrightarrow> k_put_int lim (take lim buf) x base w p pz sg la ss sf =
     map_option (take lim) (k_put_int M buf x base w p pz sg la ss sf)"
  by (simp add: k_put_int_def Let_def put_field_take del: if_split split: option.split)

lemma k_put_uint_take:
  "lim \<le> M \<Longrightarrow> k_put_uint lim (take lim buf) x base w p pz la af =
     map_option (take lim) (k_put_uint M buf x base w p pz la af)"
  by (simp add: k_put_uint_def Let_def put_field_take del: if_split split: option.split)

lemma put_str_take:
  assumes "lim \<le> M"
  shows "put_str lim (take lim buf) s w p la = take lim (put_str M buf s w p la)"
  using bounded_stores [OF assms] by (simp add: put_str_def Let_def)

text \<open>
  An argument that \<open>%c\<close> does not fetch for lack of room is never missed: the main loop stops at the
  same point.
\<close>

lemma put_conv_take:
  assumes "lim \<le> M" and "length buf < lim" and "put_conv M fl w p c args buf = Some (args', buf')"
  shows "put_conv lim fl w p c args buf = Some (args', take lim buf')"
proof -
  have tk: "take lim buf = buf" using assms(2) by simp
  note k = k_put_int_take [OF assms(1), where buf = buf, unfolded tk]
    k_put_uint_take [OF assms(1), where buf = buf, unfolded tk]
    k_put_uint_take [where buf = "put M 0x78 (put M 0x30 buf)", OF assms(1)]
    put_str_take [OF assms(1), where buf = buf, unfolded tk]
    put_take [OF assms(1), where buf = buf, unfolded tk]
    put_take [where buf = "put M 0x25 buf", OF assms(1)]
    put_take [where buf = "put M 0x30 buf", OF assms(1)]
  have "length buf < M" using assms(1,2) by simp
  then show ?thesis
    using assms(2,3) unfolding put_conv_def
    by (auto simp: k split: if_splits option.splits)
qed

lemma vsprintf_loop_full: "lim \<le> length buf \<Longrightarrow> vsprintf_loop lim fmt args buf = Some buf"
  by (cases fmt) auto

lemma put_field_mono: "\<exists>xs. put_field M buf la pad pc px z ds = buf @ xs"
  by (simp add: put_field_def Let_def put_n_eq put_all_eq)

lemma k_put_int_mono:
  "k_put_int M buf x base w p pz sg la ss sf = Some r \<Longrightarrow> \<exists>xs. r = buf @ xs"
  unfolding k_put_int_def Let_def
  by (split option.splits, simp only: option.distinct simp_thms)
    (metis option.distinct(1) option.inject put_field_mono)

lemma k_put_uint_mono:
  "k_put_uint M buf x base w p pz la af = Some r \<Longrightarrow> \<exists>xs. r = buf @ xs"
  unfolding k_put_uint_def Let_def
  by (split option.splits, simp only: option.distinct simp_thms)
    (metis option.distinct(1) option.inject put_field_mono)

lemma put_str_mono: "\<exists>xs. put_str M buf s w p la = buf @ xs"
  by (cases la) (simp_all add: put_str_def Let_def put_n_eq put_all_eq)

lemma put_conv_mono:
  "put_conv M fl w p c args buf = Some (args', buf') \<Longrightarrow> \<exists>xs. buf' = buf @ xs"
  by (auto simp: put_conv_def put_def intro: put_str_mono dest!: k_put_int_mono k_put_uint_mono
      split: if_splits option.splits)

lemma vsprintf_loop_mono:
  "vsprintf_loop M fmt args buf = Some full \<Longrightarrow> \<exists>xs. full = buf @ xs"
proof (induction M fmt args buf rule: vsprintf_loop.induct)
  case (2 lim c fmt args buf)
  then show ?case
    by (fastforce split: if_splits option.splits prod.splits list.splits dest: put_conv_mono)
qed simp

lemma vsprintf_loop_take:
  "vsprintf_loop M fmt args buf = Some full \<Longrightarrow> lim \<le> M \<Longrightarrow>
   vsprintf_loop lim fmt args (take lim buf) = Some (take lim full)"
proof (induction M fmt args buf rule: vsprintf_loop.induct)
  case (1 M args buf)
  then show ?case by simp
next
  case (2 M c fmt args buf)
  show ?case
  proof (cases "length buf < lim")
    case False
    then have "vsprintf_loop lim (c # fmt) args (take lim buf) = Some (take lim buf)"
      by (simp add: vsprintf_loop_full)
    moreover obtain xs where "full = buf @ xs" using vsprintf_loop_mono [OF "2.prems"(1)] by auto
    ultimately show ?thesis using False by simp
  next
    case True
    then have M: "length buf < M" and tk: "take lim buf = buf" using "2.prems"(2) by auto
    show ?thesis
    proof (cases "c = 0x25")
      case False
      then have "vsprintf_loop lim fmt args (take lim (buf @ [c])) = Some (take lim full)"
        using "2.IH"(1) "2.prems" M by simp
      then show ?thesis using False True tk by simp
    next
      case c: True
      from "2.prems"(1) M c obtain fl w p conv fmt2 args2 args3 buf3 where
        s: "parse_spec fmt args = Some (fl, w, p, conv # fmt2, args2)"
        "put_conv M fl w p conv args2 buf = Some (args3, buf3)"
        "vsprintf_loop M fmt2 args3 buf3 = Some full"
        by (auto split: option.splits list.splits)
      have "vsprintf_loop lim fmt2 args3 (take lim buf3) = Some (take lim full)"
        using "2.IH"(2) M c s "2.prems"(2) by simp
      then show ?thesis
        using put_conv_take [OF "2.prems"(2) True s(2)] s c True tk by simp
    qed
  qed
qed

lemma put_conv_bound:
  assumes "put_conv lim fl w p c args buf = Some (args', buf')" and "length buf < lim"
  shows "length buf' \<le> lim"
proof -
  have "buf' = take lim buf'"
    using put_conv_take [OF le_refl assms(2,1)] assms(1) by simp
  then show ?thesis by (metis length_take min.cobounded2)
qed

lemma vsprintf_loop_bound:
  assumes "vsprintf_loop lim fmt args buf = Some out" and "length buf \<le> lim"
  shows "length out \<le> lim"
proof -
  have "take lim buf = buf" using assms(2) by simp
  then have "out = take lim out"
    using vsprintf_loop_take [OF assms(1) le_refl] assms(1) by simp
  then show ?thesis by (metis length_take min.cobounded2)
qed

section \<open>What the directives print\<close>

lemma digits_of_decimal: "digits_of 10 x = map_option rev (k_uitoa x 10)"
  by (simp add: digits_of_def k_uitoa_def option.map_comp comp_def option.map_ident)

lemma digits_of_10: "\<exists>tmp. digits_of 10 x = Some tmp \<and> length tmp \<le> 32"
  using digit_loop_33 [of 10 x] by (auto simp: digits_of_def)

lemma k_put_int_plain:
  "k_put_int lim buf x 10 0 (- 1) pz True la False False =
     Some (put_all lim (the (k_itoa x 10)) buf)"
proof -
  let ?neg = "x <s 0"
  obtain tmp where t: "digits_of 10 (if ?neg then - x else x) = Some tmp" "length tmp \<le> 32"
    using digits_of_10 by blast
  have z: "\<not> (0 :: u32) <s 0" by simp
  have "k_itoa x 10 = Some ((if ?neg then [0x2D] else []) @ rev tmp)"
  proof (cases "x = 0")
    case True
    then show ?thesis using t by (auto simp: k_itoa_def digits_of_def)
  next
    case False
    then show ?thesis using t by (auto simp: k_itoa_def digits_of_def Let_def split: if_splits)
  qed
  then show ?thesis
    using t by (cases "length buf < lim") (auto simp: put_all_eq k_put_int_def put_field_def Let_def int_max_def put_n_eq)
qed

text \<open>
  Two departures from the C formatter the source imitates: zero padding is emitted before the sign,
  and the \<open>#\<close> flag never has an effect on \<open>%x\<close> and \<open>%o\<close>.
\<close>

lemma zero_padding_before_sign:
  "k_vsprintf [0x25, 0x30, 0x35, 0x64] [VInt (- 42)] = Some [0x30, 0x30, 0x2D, 0x34, 0x32]"
  by code_simp

lemma alt_form_ignored:
  "k_put_uint lim buf x base w p pz la True = k_put_uint lim buf x base w p pz la False"
  by (simp add: k_put_uint_def Let_def split: option.split)

section \<open>Properties\<close>

text \<open>
  \<open>k_vsprintf\<close> truncates and does nothing else to the text: when formatting into an unbounded
  buffer (any limit \<open>lim\<close> at least 1023) is defined and gives \<open>full\<close>, the 1024-byte buffer receives the
  first 1023 bytes of \<open>full\<close>, so that the closing NUL fits.
\<close>

theorem k_vsprintf_truncates:
  assumes "vsprintf_loop lim fmt args [] = Some full" and "1023 \<le> lim"
  shows "k_vsprintf fmt args = Some (take 1023 full)"
  using vsprintf_loop_take [OF assms] by (simp add: k_vsprintf_def)

theorem k_vsprintf_truncates_witness:
  "k_vsprintf [0x25, 0x33, 0x75, 0x21] [VInt 7] = Some (take 1023 [0x20, 0x20, 0x37, 0x21])"
proof (rule k_vsprintf_truncates [of 2000])
  show "vsprintf_loop 2000 [0x25, 0x33, 0x75, 0x21] [VInt 7] [] = Some [0x20, 0x20, 0x37, 0x21]"
    by code_simp
qed simp

text \<open>
  Whatever the format and the arguments, the bytes stored by \<open>k_vsprintf\<close> before the NUL are at
  most 1023: \<open>char buf[1024]\<close> of \<open>k_printf\<close> is never overrun.
\<close>

theorem k_vsprintf_bound:
  "pred_option (\<lambda>out. length out \<le> 1023) (k_vsprintf fmt args)"
  by (auto simp: k_vsprintf_def pred_option_def dest: vsprintf_loop_bound)

end
