(* ===== verification/Pmm.thy ===== *)
theory Pmm
  imports Prelude
begin

text \<open>
  The physical memory manager, \<open>pmm.c\<close>: a bitmap with one bit per 4 KiB frame (set = in use or
  reserved), a reference counter per frame for copy-on-write, and the accounting counters. Frames
  are addressed by their index; the functions of the API take physical addresses, as in C. The
  critical sections (\<open>pushf; cli ... popf\<close>) make each operation atomic, which is how the model
  has it, and the messages on the serial port are left out.
\<close>

unbundle bit_operations_syntax

section \<open>State\<close>

abbreviation (input) PMM_PAGE_SIZE :: u32 where "PMM_PAGE_SIZE \<equiv> 4096"
abbreviation (input) PMM_MAX_PAGES :: u32 where "PMM_MAX_PAGES \<equiv> 1048576"
abbreviation (input) MAX_E820_ENTRIES :: nat where "MAX_E820_ENTRIES \<equiv> 64"

record e820_entry =
  e_addr :: u64
  e_len :: u64
  e_type :: u32

record pmm_state =
  pmm_bitmap :: "nat \<Rightarrow> u8"
  pmm_refcounts :: "nat \<Rightarrow> u16"
  total_available_pages :: u32
  used_pages :: u32
  pmm_max_page :: u32
  pmm_total_allocs :: u32
  pmm_total_frees :: u32
  e820_map :: "e820_entry list"

section \<open>The bitmap\<close>

definition bitmap_set :: "nat \<Rightarrow> pmm_state \<Rightarrow> pmm_state" where
  "bitmap_set i s = s\<lparr>pmm_bitmap :=
     (pmm_bitmap s)(i div 8 := pmm_bitmap s (i div 8) OR push_bit (i mod 8) 1)\<rparr>"

definition bitmap_clear :: "nat \<Rightarrow> pmm_state \<Rightarrow> pmm_state" where
  "bitmap_clear i s = s\<lparr>pmm_bitmap :=
     (pmm_bitmap s)(i div 8 := pmm_bitmap s (i div 8) AND NOT (push_bit (i mod 8) 1))\<rparr>"

definition bitmap_test :: "pmm_state \<Rightarrow> nat \<Rightarrow> bool" where
  "bitmap_test s i = (pmm_bitmap s (i div 8) AND push_bit (i mod 8) 1 \<noteq> 0)"

text \<open>The bitmap read and written as little-endian 32-bit words, as \<open>pmm_alloc_page\<close> does.\<close>

definition bitmap_word :: "(nat \<Rightarrow> u8) \<Rightarrow> nat \<Rightarrow> u32" where
  "bitmap_word bm w =
     ucast (bm (4 * w)) OR push_bit 8 (ucast (bm (4 * w + 1)))
     OR push_bit 16 (ucast (bm (4 * w + 2))) OR push_bit 24 (ucast (bm (4 * w + 3)))"

definition set_bitmap_word :: "(nat \<Rightarrow> u8) \<Rightarrow> nat \<Rightarrow> u32 \<Rightarrow> (nat \<Rightarrow> u8)" where
  "set_bitmap_word bm w v =
     bm(4 * w := ucast v, 4 * w + 1 := ucast (drop_bit 8 v),
        4 * w + 2 := ucast (drop_bit 16 v), 4 * w + 3 := ucast (drop_bit 24 v))"

text \<open>\<open>__builtin_ctz\<close>: the number of trailing zero bits of a non-zero word.\<close>

function ctz_from :: "nat \<Rightarrow> u32 \<Rightarrow> nat" where
  "ctz_from n x = (if n \<ge> 32 \<or> bit x n then n else ctz_from (n + 1) x)"
  by pat_completeness auto
termination by (relation "measure (\<lambda>(n, x). 32 - n)") auto

declare ctz_from.simps [simp del]

definition ctz :: "u32 \<Rightarrow> nat" where
  "ctz x = ctz_from 0 x"

section \<open>Regions\<close>

definition free_one :: "nat \<Rightarrow> pmm_state \<Rightarrow> pmm_state" where
  "free_one i s =
     (if bitmap_test s i
      then let s = bitmap_clear i s in s\<lparr>total_available_pages := total_available_pages s + 1\<rparr>
      else s)"

definition pmm_free_region :: "u64 \<Rightarrow> u64 \<Rightarrow> pmm_state \<Rightarrow> pmm_state" where
  "pmm_free_region base len s =
     (let align_base = (base + 4096 - 1) AND NOT 0xFFF;
          align_end = (base + len) AND NOT 0xFFF
      in if align_base \<ge> align_end then s
         else let start_page = (ucast (align_base div 4096) :: u32);
                  end_page = (ucast (align_end div 4096) :: u32)
              in if start_page \<ge> pmm_max_page s then s
                 else let end_page = (if end_page > pmm_max_page s then pmm_max_page s else end_page)
                      in fold free_one [unat start_page ..< unat end_page] s)"

definition reserve_one :: "nat \<Rightarrow> pmm_state \<Rightarrow> pmm_state" where
  "reserve_one i s =
     (if \<not> bitmap_test s i
      then let s = bitmap_set i s
           in if total_available_pages s > 0
              then s\<lparr>total_available_pages := total_available_pages s - 1\<rparr> else s
      else s)"

definition pmm_reserve_region :: "u64 \<Rightarrow> u64 \<Rightarrow> pmm_state \<Rightarrow> pmm_state" where
  "pmm_reserve_region base endp s =
     (if endp \<le> base then s
      else let start_page = (ucast (base div 4096) :: u32);
               end_page = (ucast ((endp + 4096 - 1) div 4096) :: u32)
           in if start_page \<ge> pmm_max_page s then s
              else let end_page = (if end_page > pmm_max_page s then pmm_max_page s else end_page)
                   in fold reserve_one [unat start_page ..< unat end_page] s)"

section \<open>Initialisation\<close>

text \<open>
  What the boot loader passes. \<open>mb_mmap\<close> are the entries the pointer \<open>mmap\<close> visits on its way from
  \<open>mmap_addr\<close> to \<open>mmap_end\<close>, \<open>mb_mods\<close> the \<open>(mod_start, mod_end)\<close> pairs of the module array.
\<close>

record multiboot_info =
  mb_addr :: u32
  mb_flags :: u32
  mb_mmap_length :: u32
  mb_mmap :: "e820_entry list"
  mb_mods :: "(u32 \<times> u32) list"

abbreviation (input) MULTIBOOT_INFO_MODS :: u32 where "MULTIBOOT_INFO_MODS \<equiv> 0x8"
abbreviation (input) MULTIBOOT_INFO_MEM_MAP :: u32 where "MULTIBOOT_INFO_MEM_MAP \<equiv> 0x40"
abbreviation (input) MULTIBOOT_MEMORY_AVAILABLE :: u32 where "MULTIBOOT_MEMORY_AVAILABLE \<equiv> 1"
abbreviation (input) MULTIBOOT_INFO_SIZE :: u32 where "MULTIBOOT_INFO_SIZE \<equiv> 110"

definition pmm_reset :: "pmm_state \<Rightarrow> pmm_state" where
  "pmm_reset s = s\<lparr>pmm_bitmap := (\<lambda>_. 0xFF), pmm_refcounts := (\<lambda>_. 0),
     total_available_pages := 0, used_pages := 0, pmm_max_page := 0,
     pmm_total_allocs := 0, pmm_total_frees := 0, e820_map := []\<rparr>"

definition record_e820 :: "e820_entry list \<Rightarrow> e820_entry list" where
  "record_e820 mmap = take MAX_E820_ENTRIES mmap"

definition max_addr_step :: "e820_entry \<Rightarrow> u64 \<Rightarrow> u64" where
  "max_addr_step e max_addr =
     (if e_type e = MULTIBOOT_MEMORY_AVAILABLE \<and> e_addr e + e_len e > max_addr
      then e_addr e + e_len e else max_addr)"

definition free_entry :: "e820_entry \<Rightarrow> pmm_state \<Rightarrow> pmm_state" where
  "free_entry e s =
     (if e_type e = MULTIBOOT_MEMORY_AVAILABLE then pmm_free_region (e_addr e) (e_len e) s else s)"

definition pmm_init_map :: "multiboot_info option \<Rightarrow> pmm_state \<Rightarrow> pmm_state" where
  "pmm_init_map info s =
     (case info of
        Some mb \<Rightarrow>
          if mb_flags mb AND MULTIBOOT_INFO_MEM_MAP \<noteq> 0 then
            let max_addr = fold max_addr_step (mb_mmap mb) 0;
                max_addr = (if max_addr > 0xFFFFFFFF then 0xFFFFFFFF else max_addr);
                max_page = (ucast (max_addr div 4096) :: u32);
                max_page = (if max_page > PMM_MAX_PAGES then PMM_MAX_PAGES else max_page);
                s = s\<lparr>e820_map := record_e820 (mb_mmap mb), pmm_max_page := max_page\<rparr>
            in fold free_entry (mb_mmap mb) s
          else pmm_free_region 0x00100000 (256 * 1024 * 1024)
                 (s\<lparr>pmm_max_page := (256 * 1024 * 1024) div PMM_PAGE_SIZE\<rparr>)
      | None \<Rightarrow> pmm_free_region 0x00100000 (256 * 1024 * 1024)
                 (s\<lparr>pmm_max_page := (256 * 1024 * 1024) div PMM_PAGE_SIZE\<rparr>))"

text \<open>The reservations, in the order of the code.\<close>

definition reserve_pair :: "u64 \<times> u64 \<Rightarrow> pmm_state \<Rightarrow> pmm_state" where
  "reserve_pair r s = pmm_reserve_region (fst r) (snd r) s"

definition multiboot_ranges :: "multiboot_info \<Rightarrow> (u64 \<times> u64) list" where
  "multiboot_ranges mb =
     (let mb_phys_start = VIRT_TO_PHYS (mb_addr mb);
          mb_phys_end = mb_phys_start + MULTIBOOT_INFO_SIZE + mb_mmap_length mb
      in [(ucast mb_phys_start, ucast mb_phys_end)]
         @ (if mb_flags mb AND MULTIBOOT_INFO_MODS \<noteq> 0
            then map (\<lambda>(a, b). (ucast a, ucast b)) (mb_mods mb) else []))"

definition boot_ranges :: "u32 \<Rightarrow> u32 \<Rightarrow> multiboot_info option \<Rightarrow> u32 \<Rightarrow> (u64 \<times> u64) list" where
  "boot_ranges kernel_start kernel_end info max_page =
     [(LOWER_MEM_START, LOWER_MEM_END),
      (ucast (VIRT_TO_PHYS kernel_start), ucast (VIRT_TO_PHYS kernel_end))]
     @ (case info of Some mb \<Rightarrow> multiboot_ranges mb | None \<Rightarrow> [])
     @ (if max_page > PCI_MMIO_HOLE_START div PMM_PAGE_SIZE
        then [(ucast PCI_MMIO_HOLE_START, ucast PCI_MMIO_HOLE_END)] else [])"

definition pmm_init ::
  "u32 \<Rightarrow> u32 \<Rightarrow> multiboot_info option \<Rightarrow> pmm_state \<Rightarrow> pmm_state" where
  "pmm_init kernel_start kernel_end info s =
     (let s = pmm_init_map info (pmm_reset s)
      in fold reserve_pair (boot_ranges kernel_start kernel_end info (pmm_max_page s)) s)"

section \<open>Allocation\<close>

text \<open>The scan over the bitmap words; \<open>0\<close> is the failure value of the C function.\<close>

function alloc_scan :: "nat \<Rightarrow> nat \<Rightarrow> pmm_state \<Rightarrow> pmm_state \<times> u32" where
  "alloc_scan w word_count s =
     (if w < word_count then
        let word = bitmap_word (pmm_bitmap s) w
        in if word = 0xFFFFFFFF then alloc_scan (w + 1) word_count s
           else let b = ctz (NOT word);
                    bit_index = (push_bit 5 (of_nat w) + of_nat b :: u32)
                in if bit_index \<ge> pmm_max_page s then (s, 0)
                   else (s\<lparr>pmm_bitmap := set_bitmap_word (pmm_bitmap s) w (word OR push_bit b 1),
                           used_pages := used_pages s + 1,
                           pmm_total_allocs := pmm_total_allocs s + 1,
                           pmm_refcounts := (pmm_refcounts s)(unat bit_index := 1)\<rparr>,
                         bit_index * PMM_PAGE_SIZE)
      else (s, 0))"
  by pat_completeness auto
termination by (relation "measure (\<lambda>(w, word_count, s). word_count - w)") auto

declare alloc_scan.simps [simp del]

definition pmm_alloc_page :: "pmm_state \<Rightarrow> pmm_state \<times> u32" where
  "pmm_alloc_page s = alloc_scan 0 (unat ((pmm_max_page s + 31) div 32)) s"

definition pmm_free_page :: "u32 \<Rightarrow> pmm_state \<Rightarrow> pmm_state" where
  "pmm_free_page phys_addr s =
     (if phys_addr mod PMM_PAGE_SIZE \<noteq> 0 then s
      else let page_index = phys_addr div PMM_PAGE_SIZE
           in if page_index \<ge> pmm_max_page s then s
              else if \<not> bitmap_test s (unat page_index) then s
              else let s = bitmap_clear (unat page_index) s;
                       s = (if used_pages s > 0 then s\<lparr>used_pages := used_pages s - 1\<rparr> else s)
                   in s\<lparr>pmm_total_frees := pmm_total_frees s + 1,
                        pmm_refcounts := (pmm_refcounts s)(unat page_index := 0)\<rparr>)"

section \<open>Reference counts\<close>

definition pmm_inc_ref :: "u32 \<Rightarrow> pmm_state \<Rightarrow> pmm_state" where
  "pmm_inc_ref phys_addr s =
     (if phys_addr mod PMM_PAGE_SIZE \<noteq> 0 then s
      else let page_index = phys_addr div PMM_PAGE_SIZE
           in if page_index \<ge> pmm_max_page s then s
              else if pmm_refcounts s (unat page_index) < 0xFFFF
              then s\<lparr>pmm_refcounts := (pmm_refcounts s)
                       (unat page_index := pmm_refcounts s (unat page_index) + 1)\<rparr>
              else s)"

definition pmm_dec_ref :: "u32 \<Rightarrow> pmm_state \<Rightarrow> pmm_state" where
  "pmm_dec_ref phys_addr s =
     (if phys_addr mod PMM_PAGE_SIZE \<noteq> 0 then s
      else let page_index = phys_addr div PMM_PAGE_SIZE
           in if page_index \<ge> pmm_max_page s then s
              else if pmm_refcounts s (unat page_index) > 0
              then let s = s\<lparr>pmm_refcounts := (pmm_refcounts s)
                       (unat page_index := pmm_refcounts s (unat page_index) - 1)\<rparr>
                   in if pmm_refcounts s (unat page_index) = 0 then pmm_free_page phys_addr s else s
              else s)"

definition pmm_get_refcount :: "pmm_state \<Rightarrow> u32 \<Rightarrow> u16" where
  "pmm_get_refcount s phys_addr =
     (if phys_addr mod PMM_PAGE_SIZE \<noteq> 0 then 0
      else let page_index = phys_addr div PMM_PAGE_SIZE
           in if page_index \<ge> pmm_max_page s then 0 else pmm_refcounts s (unat page_index))"

section \<open>Statistics\<close>

definition pmm_get_free_pages :: "pmm_state \<Rightarrow> u32" where
  "pmm_get_free_pages s = total_available_pages s - used_pages s"

definition pmm_check_balance :: "pmm_state \<Rightarrow> int" where
  "pmm_check_balance s = sint (pmm_total_allocs s - pmm_total_frees s)"

section \<open>The bitmap as a set of bits\<close>

lemma bitmap_test_bit: "bitmap_test s i \<longleftrightarrow> bit (pmm_bitmap s (i div 8)) (i mod 8)"
  by (simp add: bitmap_test_def bit_iff_and_push_bit_not_eq_0)

lemma div_mod_eq_iff: "i div (n :: nat) = j div n \<and> i mod n = j mod n \<longleftrightarrow> i = j"
  by (metis div_mult_mod_eq)

lemma bit_exp_u8: "k < 8 \<Longrightarrow> bit (2 ^ n :: u8) k \<longleftrightarrow> k = n"
  by (auto simp: bit_simps)

lemma bit_exp_u32: "k < 32 \<Longrightarrow> bit (2 ^ n :: u32) k \<longleftrightarrow> k = n"
  by (auto simp: bit_simps)

lemma bitmap_test_set [simp]: "bitmap_test (bitmap_set i s) j \<longleftrightarrow> j = i \<or> bitmap_test s j"
  using div_mod_eq_iff [of i 8 j]
  by (auto simp: bitmap_test_bit bitmap_set_def bit_or_iff bit_exp_u8)

lemma bitmap_test_clear [simp]:
  "bitmap_test (bitmap_clear i s) j \<longleftrightarrow> j \<noteq> i \<and> bitmap_test s j"
  using div_mod_eq_iff [of i 8 j]
  by (auto simp: bitmap_test_bit bitmap_clear_def bit_and_iff bit_not_iff bit_exp_u8)

lemma bitmap_eqI:
  assumes "\<And>j. bit (f (j div 8)) (j mod 8) \<longleftrightarrow> bit (g (j div 8)) (j mod 8)"
  shows "f = (g :: nat \<Rightarrow> u8)"
proof
  fix k
  show "f k = g k"
  proof (rule bit_word_eqI)
    fix n assume "n < LENGTH(8)"
    then show "bit (f k) n = bit (g k) n" using assms [of "8 * k + n"] by simp
  qed
qed

lemma nat_lt_4_cases: "(n :: nat) < 4 \<Longrightarrow> n = 0 \<or> n = 1 \<or> n = 2 \<or> n = 3"
  by presburger

lemma word_of_bit:
  "j div 32 = j div 8 div 4" "j mod 32 = 8 * (j div 8 mod 4) + j mod (8 :: nat)"
  using div_mult2_eq [of j 8 4] mod_mult2_eq [of j 8 4] by simp_all

lemma bit_bitmap_word:
  "k < 4 \<Longrightarrow> m < 8 \<Longrightarrow> bit (bitmap_word bm w) (8 * k + m) \<longleftrightarrow> bit (bm (4 * w + k)) m"
  by (drule nat_lt_4_cases, elim disjE)
    (auto simp: bitmap_word_def bit_simps numeral_2_eq_2 numeral_3_eq_3 dest: bit_imp_le_length)

lemma bit_bitmap_word_index:
  "bit (bitmap_word bm (j div 32)) (j mod 32) \<longleftrightarrow> bit (bm (j div 8)) (j mod 8)"
  unfolding word_of_bit by (subst bit_bitmap_word) simp_all

lemma bit_set_bitmap_word:
  "bit (set_bitmap_word bm w v (j div 8)) (j mod 8) =
     (if j div 32 = w then bit v (j mod 32) else bit (bm (j div 8)) (j mod 8))"
proof -
  define k where "k = j div 8"
  define m where "m = j mod 8"
  have m: "m < 8" by (simp add: m_def)
  have "j div 32 = k div 4" "j mod 32 = 8 * (k mod 4) + m"
    unfolding k_def m_def by (rule word_of_bit)+
  moreover obtain q r where k: "k = 4 * q + r" "r = 0 \<or> r = 1 \<or> r = 2 \<or> r = 3"
    using nat_lt_4_cases [of "k mod 4"] by (metis mod_less_divisor mult_div_mod_eq zero_less_numeral)
  ultimately have w: "j div 32 = q" "j mod 32 = 8 * r + m" by auto
  have ne: "4 * q + r \<noteq> 4 * w + r'" if "q \<noteq> w" "r' < 4" for r'
    using that k(2) by presburger
  from k(2) show ?thesis
    unfolding w k_def [symmetric] m_def [symmetric] k(1)
    using m ne [of 0] ne [of 1] ne [of 2] ne [of 3]
    by (elim disjE; cases "q = w"; simp add: set_bitmap_word_def bit_simps del: add_Suc_right)
qed

lemma set_bitmap_word_bit:
  assumes "b < 32"
  shows "set_bitmap_word (pmm_bitmap s) w (bitmap_word (pmm_bitmap s) w OR push_bit b 1) =
         pmm_bitmap (bitmap_set (32 * w + b) s)"
proof (rule bitmap_eqI)
  fix j
  have 1: "bit (pmm_bitmap (bitmap_set (32 * w + b) s) (j div 8)) (j mod 8) \<longleftrightarrow>
     j = 32 * w + b \<or> bit (pmm_bitmap s (j div 8)) (j mod 8)"
    by (simp flip: bitmap_test_bit)
  show "bit (set_bitmap_word (pmm_bitmap s) w
          (bitmap_word (pmm_bitmap s) w OR push_bit b 1) (j div 8)) (j mod 8) =
        bit (pmm_bitmap (bitmap_set (32 * w + b) s) (j div 8)) (j mod 8)"
  proof (cases "j div 32 = w")
    case True
    then have j: "j = 32 * w + j mod 32" by presburger
    have m: "j mod 32 < 32" by simp
    have "bit (bitmap_word (pmm_bitmap s) w) (j mod 32) \<longleftrightarrow>
        bit (pmm_bitmap s (j div 8)) (j mod 8)"
      using bit_bitmap_word_index [of "pmm_bitmap s" j] True by simp
    moreover have "bit (2 ^ b :: u32) (j mod 32) \<longleftrightarrow> j mod 32 = b"
      using m by (rule bit_exp_u32)
    moreover have "j mod 32 = b \<longleftrightarrow> j = 32 * w + b" using j assms by auto
    ultimately show ?thesis using True 1 by (auto simp: bit_set_bitmap_word bit_or_iff)
  next
    case False
    then have "j \<noteq> 32 * w + b" using assms by auto
    then show ?thesis using False 1 by (simp add: bit_set_bitmap_word)
  qed
qed

lemma ctz_from_spec:
  "\<exists>k\<ge>n. bit x k \<and> k < 32 \<Longrightarrow>
   bit x (ctz_from n x) \<and> ctz_from n x < 32 \<and> (\<forall>k. n \<le> k \<longrightarrow> k < ctz_from n x \<longrightarrow> \<not> bit x k)"
proof (induction n x rule: ctz_from.induct)
  case (1 n x)
  show ?case
  proof (cases "n \<ge> 32 \<or> bit x n")
    case True
    then have "ctz_from n x = n" by (simp add: ctz_from.simps)
    then show ?thesis using "1.prems" True by auto
  next
    case False
    then have eq: "ctz_from n x = ctz_from (n + 1) x" by (subst ctz_from.simps) simp
    have "\<exists>k\<ge>n + 1. bit x k \<and> k < 32"
      using "1.prems" False by (metis Suc_eq_plus1 Suc_leI le_neq_implies_less)
    from "1.IH" [OF False this] False show ?thesis unfolding eq
      by (metis Suc_eq_plus1 Suc_leI le_neq_implies_less)
  qed
qed

lemma ctz_spec:
  assumes "x \<noteq> 0"
  shows "bit x (ctz x)" and "ctz x < 32" and "\<And>k. k < ctz x \<Longrightarrow> \<not> bit x k"
proof -
  obtain k where "bit x k" using assms by (metis bit_eq_iff bit_0_eq bot_apply bot_bool_def)
  then have "\<exists>k\<ge>0. bit x k \<and> k < 32" using bit_imp_le_length by fastforce
  from ctz_from_spec [OF this]
  show "bit x (ctz x)" and "ctz x < 32" and "\<And>k. k < ctz x \<Longrightarrow> \<not> bit x k"
    by (simp_all add: ctz_def)
qed
section \<open>Free frames and the accounting invariant\<close>

definition free_frame :: "pmm_state \<Rightarrow> nat \<Rightarrow> bool" where
  "free_frame s i \<longleftrightarrow> i < unat (pmm_max_page s) \<and> \<not> bitmap_test s i"

definition free_frames :: "pmm_state \<Rightarrow> nat set" where
  "free_frames s = Collect (free_frame s)"

lemma finite_free_frames [simp]: "finite (free_frames s)"
  by (rule finite_subset [of _ "{..<unat (pmm_max_page s)}"]) (auto simp: free_frames_def free_frame_def)

definition frame_ref :: "pmm_state \<Rightarrow> nat \<Rightarrow> nat" where
  "frame_ref s i = (if i < unat (pmm_max_page s) then unat (pmm_refcounts s i) else 0)"

definition live_frames :: "pmm_state \<Rightarrow> nat set" where
  "live_frames s = {i. frame_ref s i \<noteq> 0}"

text \<open>
  The invariant: \<open>used_pages\<close> counts the frames that carry references, \<open>total_available_pages\<close>
  these and the free ones, no free frame carries a reference, and frame 0, whose address is the
  failure value of the allocator, is neither free nor referenced.
\<close>

definition pmm_inv :: "pmm_state \<Rightarrow> bool" where
  "pmm_inv s \<longleftrightarrow>
     unat (pmm_max_page s) \<le> 1048576 \<and>
     unat (used_pages s) = card (live_frames s) \<and>
     unat (total_available_pages s) = card (live_frames s) + card (free_frames s) \<and>
     live_frames s \<inter> free_frames s = {} \<and> 0 \<notin> free_frames s \<and> 0 \<notin> live_frames s"

lemma finite_live_frames [simp]: "finite (live_frames s)"
  by (rule finite_subset [of _ "{..<unat (pmm_max_page s)}"])
    (auto simp: live_frames_def frame_ref_def)

lemma card_free_frames: "card (free_frames s) \<le> unat (pmm_max_page s)"
proof -
  have "free_frames s \<subseteq> {..<unat (pmm_max_page s)}"
    by (auto simp: free_frames_def free_frame_def)
  from card_mono [OF _ this] show ?thesis by simp
qed

section \<open>Allocation takes the lowest free frame\<close>

definition take_frame :: "nat \<Rightarrow> pmm_state \<Rightarrow> pmm_state" where
  "take_frame i s = (bitmap_set i s)\<lparr>used_pages := used_pages s + 1,
     pmm_total_allocs := pmm_total_allocs s + 1, pmm_refcounts := (pmm_refcounts s)(i := 1)\<rparr>"

lemma full_word: "x = 0xFFFFFFFF \<longleftrightarrow> (\<forall>b<32. bit (x :: u32) b)"
proof -
  have "(0xFFFFFFFF :: u32) = mask 32" by (simp add: mask_eq_exp_minus_1)
  then show ?thesis by (auto simp: bit_eq_iff bit_simps)
qed

lemma of_nat_u32: "n < 2 ^ 32 \<Longrightarrow> unat (of_nat n :: u32) = n"
  by (simp add: unat_of_nat)

lemma alloc_scan_spec:
  assumes "unat (pmm_max_page s) \<le> 1048576" and "word_count = (unat (pmm_max_page s) + 31) div 32"
    and "\<forall>i<32 * w. \<not> free_frame s i"
  shows "alloc_scan w word_count s =
    (if free_frames s = {} then (s, 0)
     else let i = Min (free_frames s) in (take_frame i s, of_nat i * 4096))"
  using assms
proof (induction w word_count s rule: alloc_scan.induct)
  case (1 w word_count s)
  let ?word = "bitmap_word (pmm_bitmap s) w"
  show ?case
  proof (cases "w < word_count")
    case False
    then have "unat (pmm_max_page s) \<le> 32 * w" using "1.prems"(2) by linarith
    then have "free_frames s = {}" using "1.prems"(3) by (auto simp: free_frames_def free_frame_def)
    then show ?thesis using False by (simp add: alloc_scan.simps)
  next
    case w: True
    have test: "bit ?word b \<longleftrightarrow> bitmap_test s (32 * w + b)" if "b < 32" for b
      using bit_bitmap_word_index [of "pmm_bitmap s" "32 * w + b"] that
      by (simp add: bitmap_test_bit)
    show ?thesis
    proof (cases "?word = 0xFFFFFFFF")
      case True
      then have "\<forall>b<32. bitmap_test s (32 * w + b)" using test full_word by simp
      moreover have "i < 32 * w \<or> (\<exists>b<32. i = 32 * w + b)" if "i < 32 * (w + 1)" for i
        using that by (cases "i < 32 * w") (auto intro: exI [of _ "i - 32 * w"])
      ultimately have "\<forall>i<32 * (w + 1). \<not> free_frame s i"
        using "1.prems"(3) by (metis free_frame_def)
      from "1.IH" [OF w refl True "1.prems"(1,2) this] True w show ?thesis
        by (subst alloc_scan.simps) simp
    next
      case word: False
      define b where "b = ctz (NOT ?word)"
      have "NOT ?word \<noteq> 0"
      proof
        assume "NOT ?word = 0"
        then have "\<not> bit (NOT ?word) b" for b by simp
        then show False using word by (auto simp: full_word bit_not_iff)
      qed
      note ctz = ctz_spec [OF this, folded b_def]
      have b: "b < 32" "\<not> bitmap_test s (32 * w + b)"
        using ctz(1,2) test by (auto simp: bit_not_iff)
      have least: "bitmap_test s (32 * w + k)" if "k < b" for k
        using ctz(3) [OF that] test [of k] that b(1) by (auto simp: bit_not_iff)
      have w20: "w < 32768" using w "1.prems" by linarith
      then have idx: "unat (push_bit 5 (of_nat w) + of_nat b :: u32) = 32 * w + b"
        using b(1) by (simp add: push_bit_eq_mult unat_word_ariths of_nat_u32)
      have low: "\<not> free_frame s i" if "i < 32 * w + b" for i
        using that "1.prems"(3) least [of "i - 32 * w"] by (cases "i < 32 * w") (auto simp: free_frame_def)
      show ?thesis
      proof (cases "32 * w + b < unat (pmm_max_page s)")
        case False
        then have "i < 32 * w + b" if "free_frame s i" for i
          using that by (simp add: free_frame_def)
        then have "free_frames s = {}" using low by (auto simp: free_frames_def)
        moreover have "pmm_max_page s \<le> push_bit 5 (of_nat w) + of_nat b"
          using False idx by (simp add: word_le_nat_alt)
        ultimately show ?thesis using w word
          by (subst alloc_scan.simps) (simp add: b_def [symmetric] Let_def)
      next
        case True
        then have fr: "free_frame s (32 * w + b)" using b by (simp add: free_frame_def)
        then have "Min (free_frames s) = 32 * w + b"
          using low by (intro Min_eqI finite_free_frames) (auto simp: free_frames_def not_less [symmetric])
        moreover have "free_frames s \<noteq> {}" using fr by (auto simp: free_frames_def)
        moreover have "\<not> pmm_max_page s \<le> push_bit 5 (of_nat w) + of_nat b"
          using True idx by (simp add: word_le_nat_alt)
        moreover have "of_nat (32 * w + b) = (push_bit 5 (of_nat w) + of_nat b :: u32)"
          by (simp add: push_bit_eq_mult)
        ultimately show ?thesis using w word idx set_bitmap_word_bit [OF b(1), of s w]
          by (subst alloc_scan.simps)
            (simp add: b_def [symmetric] Let_def take_frame_def bitmap_set_def)
      qed
    qed
  qed
qed


lemma pmm_alloc_page_eq:
  assumes "unat (pmm_max_page s) \<le> 1048576"
  shows "pmm_alloc_page s =
    (if free_frames s = {} then (s, 0)
     else let i = Min (free_frames s) in (take_frame i s, of_nat i * 4096))"
proof -
  have "unat ((pmm_max_page s + 31) div 32) = (unat (pmm_max_page s) + 31) div 32"
    using assms by (simp add: unat_div unat_word_ariths)
  from alloc_scan_spec [OF assms this, of 0] show ?thesis by (simp add: pmm_alloc_page_def)
qed

lemma take_frame_simps [simp]:
  "pmm_max_page (take_frame i s) = pmm_max_page s"
  "pmm_refcounts (take_frame i s) = (pmm_refcounts s)(i := 1)"
  "used_pages (take_frame i s) = used_pages s + 1"
  "total_available_pages (take_frame i s) = total_available_pages s"
  by (simp_all add: take_frame_def bitmap_set_def)

lemma bitmap_test_take_frame [simp]:
  "bitmap_test (take_frame i s) j \<longleftrightarrow> j = i \<or> bitmap_test s j"
proof -
  have "bitmap_test (take_frame i s) j = bitmap_test (bitmap_set i s) j"
    by (simp add: bitmap_test_def take_frame_def)
  then show ?thesis by simp
qed

lemma free_frames_take: "free_frames (take_frame i s) = free_frames s - {i}"
  by (auto simp: free_frames_def free_frame_def)

lemma frame_ref_take:
  "i \<in> free_frames s \<Longrightarrow> frame_ref (take_frame i s) = (frame_ref s)(i := 1)"
  by (auto simp: frame_ref_def free_frames_def free_frame_def fun_eq_iff)

lemma live_frames_take: "i \<in> free_frames s \<Longrightarrow> live_frames (take_frame i s) = insert i (live_frames s)"
  by (auto simp: live_frames_def frame_ref_take)

lemma unat_suc_u32: "unat (x :: u32) < 4294967295 \<Longrightarrow> unat (x + 1) = unat x + 1"
  by (simp add: unat_word_ariths)

lemma card_free_live: 
  assumes "live_frames s \<inter> free_frames s = {}"
  shows "card (live_frames s) + card (free_frames s) \<le> unat (pmm_max_page s)"
proof -
  have "live_frames s \<union> free_frames s \<subseteq> {..<unat (pmm_max_page s)}"
    by (auto simp: live_frames_def frame_ref_def free_frames_def free_frame_def split: if_splits)
  from card_mono [OF _ this] show ?thesis using assms by (simp add: card_Un_disjoint)
qed

lemma pmm_inv_take:
  assumes "pmm_inv s" and "i \<in> free_frames s"
  shows "pmm_inv (take_frame i s)"
proof -
  have "i \<notin> live_frames s" "i \<noteq> 0" using assms by (auto simp: pmm_inv_def)
  moreover have "unat (used_pages s + 1) = unat (used_pages s) + 1"
    using assms card_free_live [of s] by (intro unat_suc_u32) (auto simp: pmm_inv_def)
  moreover have "0 < card (free_frames s)" using assms(2) by (auto simp: card_gt_0_iff)
  ultimately show ?thesis
    using assms unfolding pmm_inv_def live_frames_take [OF assms(2)] free_frames_take
    by (auto simp: card_Diff_singleton)
qed

section \<open>Freeing and reference counts\<close>

lemma frame_addr:
  assumes "unat (p :: u32) = 4096 * i"
  shows "p mod 4096 = 0" and "unat (p div 4096) = i"
  using assms by (simp_all add: word_unat_eq_iff unat_mod unat_div)

definition drop_frame :: "nat \<Rightarrow> pmm_state \<Rightarrow> pmm_state" where
  "drop_frame i s = (bitmap_clear i s)\<lparr>
     used_pages := (if used_pages s > 0 then used_pages s - 1 else used_pages s),
     pmm_total_frees := pmm_total_frees s + 1, pmm_refcounts := (pmm_refcounts s)(i := 0)\<rparr>"

lemma pmm_free_page_eq:
  assumes "unat p = 4096 * i"
  shows "pmm_free_page p s =
    (if i < unat (pmm_max_page s) \<and> bitmap_test s i then drop_frame i s else s)"
  using frame_addr [OF assms]
  by (auto simp: pmm_free_page_def Let_def drop_frame_def bitmap_clear_def word_le_nat_alt)

lemma pmm_dec_ref_eq:
  assumes "unat p = 4096 * i"
  shows "pmm_dec_ref p s =
    (if frame_ref s i = 0 then s
     else let s' = s\<lparr>pmm_refcounts := (pmm_refcounts s)(i := pmm_refcounts s i - 1)\<rparr>
          in if frame_ref s i = 1 then pmm_free_page p s' else s')"
proof -
  have "(x :: u16) - 1 = 0 \<longleftrightarrow> x = 1" for x by simp
  then have "(x :: u16) - 1 = 0 \<longleftrightarrow> unat x = 1" for x by (simp only: word_unat_eq_iff) simp
  moreover have "0 < (x :: u16) \<longleftrightarrow> unat x \<noteq> 0" for x by (simp add: word_less_nat_alt)
  ultimately show ?thesis
    using frame_addr [OF assms]
    by (simp add: pmm_dec_ref_def Let_def frame_ref_def word_le_nat_alt)
qed

lemma pmm_inc_ref_eq:
  assumes "unat p = 4096 * i"
  shows "pmm_inc_ref p s =
    (if i < unat (pmm_max_page s) \<and> frame_ref s i < 65535
     then s\<lparr>pmm_refcounts := (pmm_refcounts s)(i := pmm_refcounts s i + 1)\<rparr> else s)"
  using frame_addr [OF assms]
  by (auto simp: pmm_inc_ref_def Let_def frame_ref_def word_le_nat_alt word_less_nat_alt)


lemma drop_frame_simps [simp]:
  "pmm_max_page (drop_frame i s) = pmm_max_page s"
  "pmm_refcounts (drop_frame i s) = (pmm_refcounts s)(i := 0)"
  "total_available_pages (drop_frame i s) = total_available_pages s"
  "used_pages (drop_frame i s) = (if used_pages s > 0 then used_pages s - 1 else used_pages s)"
  by (simp_all add: drop_frame_def bitmap_clear_def)

lemma bitmap_test_drop_frame [simp]:
  "bitmap_test (drop_frame i s) j \<longleftrightarrow> j \<noteq> i \<and> bitmap_test s j"
proof -
  have "bitmap_test (drop_frame i s) j = bitmap_test (bitmap_clear i s) j"
    by (simp add: bitmap_test_def drop_frame_def)
  then show ?thesis by simp
qed

lemma free_frames_drop:
  "i < unat (pmm_max_page s) \<Longrightarrow> free_frames (drop_frame i s) = insert i (free_frames s)"
  by (auto simp: free_frames_def free_frame_def)

lemma frame_ref_drop: "frame_ref (drop_frame i s) = (frame_ref s)(i := 0)"
  by (auto simp: frame_ref_def fun_eq_iff)

lemma live_frames_drop: "live_frames (drop_frame i s) = live_frames s - {i}"
  by (auto simp: live_frames_def frame_ref_drop)

lemma live_frame_lt: "i \<in> live_frames s \<Longrightarrow> i < unat (pmm_max_page s)"
  by (simp add: live_frames_def frame_ref_def split: if_splits)

lemma pmm_inv_drop:
  assumes "pmm_inv s" and "i \<in> live_frames s"
  shows "pmm_inv (drop_frame i s)"
proof -
  have i: "i < unat (pmm_max_page s)" using assms(2) by (rule live_frame_lt)
  have "i \<notin> free_frames s" "i \<noteq> 0" using assms by (auto simp: pmm_inv_def)
  moreover have c: "0 < card (live_frames s)" using assms(2) by (auto simp: card_gt_0_iff)
  moreover have u: "used_pages s \<noteq> 0" using assms(1) c by (auto simp: pmm_inv_def)
  moreover have "used_pages s > 0" using u by (simp add: word_neq_0_conv)
  moreover have "unat (used_pages s - 1) = unat (used_pages s) - 1"
    using u by (rule unat_minus_one_nonzero)
  ultimately show ?thesis
    using assms unfolding pmm_inv_def live_frames_drop free_frames_drop [OF i]
    by (auto simp: card_Diff_singleton)
qed

lemma free_frames_refcounts [simp]: "free_frames (s\<lparr>pmm_refcounts := f\<rparr>) = free_frames s"
  by (auto simp: free_frames_def free_frame_def bitmap_test_def)

lemma pmm_inv_refcounts:
  "pmm_inv s \<Longrightarrow> live_frames (s\<lparr>pmm_refcounts := f\<rparr>) = live_frames s \<Longrightarrow>
   pmm_inv (s\<lparr>pmm_refcounts := f\<rparr>)"
  by (simp add: pmm_inv_def)

lemma drop_frame_refcounts [simp]:
  "drop_frame i (s\<lparr>pmm_refcounts := (pmm_refcounts s)(i := x)\<rparr>) = drop_frame i s"
  by (simp add: drop_frame_def bitmap_clear_def)

text \<open>The two reference operations on a live frame, as the clients see them.\<close>

lemma pmm_dec_ref_live:
  assumes "pmm_inv s" and "unat p = 4096 * i" and "i \<in> live_frames s"
  shows "pmm_inv (pmm_dec_ref p s)"
    and "frame_ref (pmm_dec_ref p s) = (frame_ref s)(i := frame_ref s i - 1)"
    and "free_frames (pmm_dec_ref p s) =
           (if frame_ref s i = 1 then insert i (free_frames s) else free_frames s)"
proof -
  have i: "i < unat (pmm_max_page s)" using assms(3) by (rule live_frame_lt)
  have r0: "frame_ref s i \<noteq> 0" using assms(3) by (simp add: live_frames_def)
  have "i \<notin> free_frames s" using assms(1,3) by (auto simp: pmm_inv_def)
  then have t: "bitmap_test s i" using i by (simp add: free_frames_def free_frame_def)
  let ?s = "s\<lparr>pmm_refcounts := (pmm_refcounts s)(i := pmm_refcounts s i - 1)\<rparr>"
  have eq: "pmm_dec_ref p s = (if frame_ref s i = 1 then drop_frame i s else ?s)"
    using r0 i t by (simp add: pmm_dec_ref_eq [OF assms(2)] pmm_free_page_eq [OF assms(2)] Let_def
        bitmap_test_def)
  have "unat (pmm_refcounts s i - 1) = frame_ref s i - 1"
    using r0 i by (simp add: frame_ref_def unat_minus_one_nonzero unat_eq_0)
  then have ref: "frame_ref ?s = (frame_ref s)(i := frame_ref s i - 1)"
    using i by (auto simp: frame_ref_def fun_eq_iff)
  then have live: "frame_ref s i \<noteq> 1 \<Longrightarrow> live_frames ?s = live_frames s"
    using r0 by (auto simp: live_frames_def)
  show "pmm_inv (pmm_dec_ref p s)"
    using eq pmm_inv_drop [OF assms(1,3)] pmm_inv_refcounts [OF assms(1) live] by simp
  show "frame_ref (pmm_dec_ref p s) = (frame_ref s)(i := frame_ref s i - 1)"
    using eq ref by (simp add: frame_ref_drop)
  show "free_frames (pmm_dec_ref p s) =
           (if frame_ref s i = 1 then insert i (free_frames s) else free_frames s)"
    using eq free_frames_drop [OF i] by simp
qed

lemma pmm_inc_ref_live:
  assumes "pmm_inv s" and "unat p = 4096 * i" and "i \<in> live_frames s" and "frame_ref s i < 65535"
  shows "pmm_inv (pmm_inc_ref p s)"
    and "frame_ref (pmm_inc_ref p s) = (frame_ref s)(i := frame_ref s i + 1)"
    and "free_frames (pmm_inc_ref p s) = free_frames s"
proof -
  have i: "i < unat (pmm_max_page s)" using assms(3) by (rule live_frame_lt)
  let ?s = "s\<lparr>pmm_refcounts := (pmm_refcounts s)(i := pmm_refcounts s i + 1)\<rparr>"
  have eq: "pmm_inc_ref p s = ?s" using i assms(4) by (simp add: pmm_inc_ref_eq [OF assms(2)])
  have "unat (pmm_refcounts s i + 1) = frame_ref s i + 1"
    using assms(4) i by (simp add: frame_ref_def unat_word_ariths)
  then have ref: "frame_ref ?s = (frame_ref s)(i := frame_ref s i + 1)"
    using i by (auto simp: frame_ref_def fun_eq_iff)
  then have "live_frames ?s = live_frames s"
    using assms(3) by (auto simp: live_frames_def)
  then show "pmm_inv (pmm_inc_ref p s)"
    and "frame_ref (pmm_inc_ref p s) = (frame_ref s)(i := frame_ref s i + 1)"
    and "free_frames (pmm_inc_ref p s) = free_frames s"
    using eq ref pmm_inv_refcounts [OF assms(1)] by simp_all
qed

section \<open>Regions as sets of frames\<close>

text \<open>Frame \<open>i\<close> lies inside the bytes from \<open>base\<close> of length \<open>len\<close>; it meets the bytes from \<open>base\<close> to \<open>endp\<close>.\<close>

definition covers :: "u64 \<Rightarrow> u64 \<Rightarrow> nat \<Rightarrow> bool" where
  "covers base len i \<longleftrightarrow> unat base \<le> 4096 * i \<and> 4096 * (i + 1) \<le> unat base + unat len"

definition touches :: "u64 \<Rightarrow> u64 \<Rightarrow> nat \<Rightarrow> bool" where
  "touches base endp i \<longleftrightarrow>
     unat base < unat endp \<and> unat base < 4096 * (i + 1) \<and> 4096 * i < unat endp"

definition init_inv :: "pmm_state \<Rightarrow> bool" where
  "init_inv s \<longleftrightarrow>
     unat (pmm_max_page s) \<le> 1048576 \<and> used_pages s = 0 \<and> (\<forall>i. pmm_refcounts s i = 0) \<and>
     unat (total_available_pages s) = card (free_frames s)"

lemma bitmap_clear_simps [simp]:
  "pmm_max_page (bitmap_clear i s) = pmm_max_page s"
  "pmm_refcounts (bitmap_clear i s) = pmm_refcounts s"
  "total_available_pages (bitmap_clear i s) = total_available_pages s"
  "used_pages (bitmap_clear i s) = used_pages s"
  by (simp_all add: bitmap_clear_def)

lemma bitmap_set_simps [simp]:
  "pmm_max_page (bitmap_set i s) = pmm_max_page s"
  "pmm_refcounts (bitmap_set i s) = pmm_refcounts s"
  "total_available_pages (bitmap_set i s) = total_available_pages s"
  "used_pages (bitmap_set i s) = used_pages s"
  by (simp_all add: bitmap_set_def)

lemma bitmap_test_total [simp]:
  "bitmap_test (s\<lparr>total_available_pages := x\<rparr>) i = bitmap_test s i"
  by (simp add: bitmap_test_def)

lemma init_inv_card:
  "init_inv s \<Longrightarrow> unat (total_available_pages s) \<le> 1048576"
  using card_free_frames [of s] by (simp add: init_inv_def)

lemma free_one_spec:
  assumes "init_inv s" and "i < unat (pmm_max_page s)"
  shows "init_inv (free_one i s)" and "free_frames (free_one i s) = insert i (free_frames s)"
    and "pmm_max_page (free_one i s) = pmm_max_page s"
proof -
  show f: "free_frames (free_one i s) = insert i (free_frames s)"
    using assms(2) by (auto simp: free_one_def Let_def free_frames_def free_frame_def)
  show "pmm_max_page (free_one i s) = pmm_max_page s" by (simp add: free_one_def Let_def)
  have "unat (total_available_pages s + 1) = unat (total_available_pages s) + 1"
    using init_inv_card [OF assms(1)] by (intro unat_suc_u32) simp
  moreover have "i \<in> free_frames s \<longleftrightarrow> \<not> bitmap_test s i"
    using assms(2) by (simp add: free_frames_def free_frame_def)
  ultimately show "init_inv (free_one i s)"
    using assms(1) unfolding init_inv_def f by (auto simp: free_one_def Let_def insert_absorb)
qed

lemma reserve_one_spec:
  assumes "init_inv s" and "i < unat (pmm_max_page s)"
  shows "init_inv (reserve_one i s)" and "free_frames (reserve_one i s) = free_frames s - {i}"
    and "pmm_max_page (reserve_one i s) = pmm_max_page s"
proof -
  show f: "free_frames (reserve_one i s) = free_frames s - {i}"
    by (auto simp: reserve_one_def Let_def free_frames_def free_frame_def)
  show "pmm_max_page (reserve_one i s) = pmm_max_page s" by (simp add: reserve_one_def Let_def)
  show "init_inv (reserve_one i s)"
  proof (cases "bitmap_test s i")
    case True
    then have "i \<notin> free_frames s" by (simp add: free_frames_def free_frame_def)
    then show ?thesis using True assms(1) unfolding init_inv_def f by (simp add: reserve_one_def)
  next
    case False
    then have i: "i \<in> free_frames s" using assms(2) by (simp add: free_frames_def free_frame_def)
    then have "0 < card (free_frames s)" by (auto simp: card_gt_0_iff)
    then have t: "total_available_pages s \<noteq> 0" using assms(1) by (auto simp: init_inv_def)
    moreover have "unat (total_available_pages s - 1) = unat (total_available_pages s) - 1"
      using t by (rule unat_minus_one_nonzero)
    ultimately show ?thesis
      using False i assms(1) unfolding init_inv_def f
      by (auto simp: reserve_one_def Let_def word_neq_0_conv card_Diff_singleton)
  qed
qed

lemma fold_free_one:
  "init_inv s \<Longrightarrow> b \<le> unat (pmm_max_page s) \<Longrightarrow>
   init_inv (fold free_one [a..<b] s) \<and>
   free_frames (fold free_one [a..<b] s) = free_frames s \<union> {a..<b} \<and>
   pmm_max_page (fold free_one [a..<b] s) = pmm_max_page s"
proof (induction b)
  case (Suc b)
  then show ?case
    using free_one_spec [of "fold free_one [a..<b] s" b] by (auto simp: atLeastLessThanSuc)
qed simp

lemma fold_reserve_one:
  "init_inv s \<Longrightarrow> b \<le> unat (pmm_max_page s) \<Longrightarrow>
   init_inv (fold reserve_one [a..<b] s) \<and>
   free_frames (fold reserve_one [a..<b] s) = free_frames s - {a..<b} \<and>
   pmm_max_page (fold reserve_one [a..<b] s) = pmm_max_page s"
proof (induction b)
  case (Suc b)
  then show ?case
    using reserve_one_spec [of "fold reserve_one [a..<b] s" b] by (auto simp: atLeastLessThanSuc)
qed simp

lemma unat_and_not_mask:
  "unat ((x :: u64) AND NOT 0xFFF) = unat x div 4096 * 4096"
proof -
  have m: "(0xFFF :: u64) = mask 12" by (simp add: mask_eq_exp_minus_1)
  have "unat (x AND NOT (mask 12)) = push_bit 12 (drop_bit 12 (unat x))"
    by (rule bit_eqI) (auto simp: bit_simps dest: bit_imp_le_length)
  then show ?thesis unfolding m by (simp add: push_bit_eq_mult drop_bit_eq_div)
qed

lemma free_frames_lt: "i \<in> free_frames s \<Longrightarrow> i < unat (pmm_max_page s)"
  by (simp add: free_frames_def free_frame_def)

lemma clip_range:
  "i < unat (if e > m then m else e :: u32) \<longleftrightarrow> i < unat e \<and> i < unat m"
  by (auto simp: word_less_nat_alt)

lemma pmm_free_region_spec:
  assumes "init_inv s" and "unat base + unat len < 2 ^ 44 - 4096"
  shows "init_inv (pmm_free_region base len s) \<and>
    free_frames (pmm_free_region base len s) =
      free_frames s \<union> {i. i < unat (pmm_max_page s) \<and> covers base len i} \<and>
    pmm_max_page (pmm_free_region base len s) = pmm_max_page s"
proof -
  define ab ae where "ab = (base + 4096 - 1) AND NOT 0xFFF" and "ae = (base + len) AND NOT 0xFFF"
  define sp ep :: u32 where "sp = ucast (ab div 4096)" and "ep = ucast (ae div 4096)"
  have eq: "base + 4096 - 1 = base + 4095" by simp
  have ab: "unat ab = (unat base + 4095) div 4096 * 4096"
    unfolding ab_def eq unat_and_not_mask using assms(2) by (simp add: unat_word_ariths)
  have ae: "unat ae = (unat base + unat len) div 4096 * 4096"
    unfolding ae_def unat_and_not_mask using assms(2) by (simp add: unat_word_ariths)
  have sp: "unat sp = (unat base + 4095) div 4096"
    using ab assms(2) by (simp add: sp_def unat_ucast_narrow unat_div)
  have ep: "unat ep = (unat base + unat len) div 4096"
    using ae assms(2) by (simp add: ep_def unat_ucast_narrow unat_div)
  have cov: "covers base len i \<longleftrightarrow> unat sp \<le> i \<and> i < unat ep" for i
    unfolding covers_def sp ep by auto
  have le: "ab \<ge> ae \<longleftrightarrow> unat ep \<le> unat sp"
    unfolding word_le_nat_alt ab ae sp ep by simp
  define lim where "lim = (if ep > pmm_max_page s then pmm_max_page s else ep)"
  have lim: "unat lim \<le> unat (pmm_max_page s)" and lim2: "unat lim \<le> unat ep"
    by (simp_all add: lim_def word_less_nat_alt)
  have clip: "i < unat lim \<longleftrightarrow> i < unat ep \<and> i < unat (pmm_max_page s)" for i
    unfolding lim_def by (rule clip_range)
  have main: "pmm_free_region base len s = (if unat ep \<le> unat sp then s
      else if unat (pmm_max_page s) \<le> unat sp then s
      else fold free_one [unat sp ..< unat lim] s)"
    unfolding pmm_free_region_def Let_def ab_def [symmetric] ae_def [symmetric] le
      sp_def [symmetric] ep_def [symmetric] lim_def [symmetric]
    by (simp only: word_le_nat_alt)
  have pages: "{i. i < unat (pmm_max_page s) \<and> covers base len i} = {unat sp..<unat lim}"
    by (auto simp: cov clip)
  have skip: "{unat sp..<unat lim} = {}" if "unat ep \<le> unat sp \<or> unat (pmm_max_page s) \<le> unat sp"
    using that lim lim2 by auto
  show ?thesis
    unfolding main pages using fold_free_one [OF assms(1) lim, of "unat sp"] assms(1) skip
    by (cases "unat ep \<le> unat sp"; cases "unat (pmm_max_page s) \<le> unat sp"; simp)
qed

lemma pmm_reserve_region_spec:
  assumes "init_inv s" and "unat endp < 2 ^ 44 - 4096"
  shows "init_inv (pmm_reserve_region base endp s) \<and>
    free_frames (pmm_reserve_region base endp s) = free_frames s - Collect (touches base endp) \<and>
    pmm_max_page (pmm_reserve_region base endp s) = pmm_max_page s"
proof (cases "endp \<le> base")
  case True
  then show ?thesis using assms by (auto simp: pmm_reserve_region_def touches_def word_le_nat_alt)
next
  case False
  then have lt: "unat base < unat endp" by (simp add: word_le_nat_alt)
  define sp ep :: u32
    where "sp = ucast (base div 4096)" and "ep = ucast ((endp + 4096 - 1) div 4096)"
  have eq: "endp + 4096 - 1 = endp + 4095" by simp
  have sp: "unat sp = unat base div 4096"
    using lt assms(2) by (simp add: sp_def unat_ucast_narrow unat_div)
  have ep: "unat ep = (unat endp + 4095) div 4096"
    unfolding ep_def eq using assms(2) by (simp add: unat_ucast_narrow unat_div unat_word_ariths)
  have cov: "touches base endp i \<longleftrightarrow> unat sp \<le> i \<and> i < unat ep" for i
    unfolding touches_def sp ep using lt by auto
  define lim where "lim = (if ep > pmm_max_page s then pmm_max_page s else ep)"
  have lim: "unat lim \<le> unat (pmm_max_page s)" and lim2: "unat lim \<le> unat ep"
    by (simp_all add: lim_def word_less_nat_alt)
  have clip: "i < unat lim \<longleftrightarrow> i < unat ep \<and> i < unat (pmm_max_page s)" for i
    unfolding lim_def by (rule clip_range)
  have main: "pmm_reserve_region base endp s =
      (if unat (pmm_max_page s) \<le> unat sp then s
       else fold reserve_one [unat sp ..< unat lim] s)"
    unfolding pmm_reserve_region_def Let_def sp_def [symmetric] ep_def [symmetric]
      lim_def [symmetric]
    using False by (simp add: word_le_nat_alt)
  have pages: "free_frames s - Collect (touches base endp) = free_frames s - {unat sp..<unat lim}"
    by (auto simp: cov clip dest: free_frames_lt)
  have skip: "{unat sp..<unat lim} = {}" if "unat (pmm_max_page s) \<le> unat sp"
    using that lim lim2 by auto
  show ?thesis
    unfolding main pages using fold_reserve_one [OF assms(1) lim, of "unat sp"] assms(1) skip
    by (cases "unat (pmm_max_page s) \<le> unat sp"; simp)
qed

section \<open>What initialisation makes available\<close>

definition boot_free_ranges :: "multiboot_info option \<Rightarrow> (u64 \<times> u64) list" where
  "boot_free_ranges info = (case info of
     Some mb \<Rightarrow> if mb_flags mb AND MULTIBOOT_INFO_MEM_MAP \<noteq> 0
       then map (\<lambda>e. (e_addr e, e_len e)) (filter (\<lambda>e. e_type e = MULTIBOOT_MEMORY_AVAILABLE) (mb_mmap mb))
       else [(0x00100000, 256 * 1024 * 1024)]
   | None \<Rightarrow> [(0x00100000, 256 * 1024 * 1024)])"

lemma free_frames_reset: "bitmap_test (pmm_reset s) i"
proof -
  have m: "(0xFF :: u8) = mask 8" by (simp add: mask_eq_exp_minus_1)
  have "bit (mask 8 :: u8) (i mod 8)" by (simp add: bit_simps)
  then show ?thesis unfolding bitmap_test_bit pmm_reset_def by (simp flip: m)
qed

lemma fold_free_entry:
  assumes "\<forall>e\<in>set mmap. e_type e = MULTIBOOT_MEMORY_AVAILABLE \<longrightarrow>
      unat (e_addr e) + unat (e_len e) < 2 ^ 44 - 4096" and "init_inv s"
  shows "init_inv (fold free_entry mmap s) \<and>
    free_frames (fold free_entry mmap s) = free_frames s \<union>
      {i. i < unat (pmm_max_page s) \<and>
        (\<exists>e\<in>set mmap. e_type e = MULTIBOOT_MEMORY_AVAILABLE \<and> covers (e_addr e) (e_len e) i)} \<and>
    pmm_max_page (fold free_entry mmap s) = pmm_max_page s"
  using assms
proof (induction mmap arbitrary: s)
  case (Cons e mmap)
  show ?case
  proof (cases "e_type e = MULTIBOOT_MEMORY_AVAILABLE")
    case True
    have "init_inv (free_entry e s) \<and>
        free_frames (free_entry e s) =
          free_frames s \<union> {i. i < unat (pmm_max_page s) \<and> covers (e_addr e) (e_len e) i} \<and>
        pmm_max_page (free_entry e s) = pmm_max_page s"
      using pmm_free_region_spec [OF Cons.prems(2), of "e_addr e" "e_len e"] Cons.prems(1) True
      by (simp add: free_entry_def)
    then show ?thesis using Cons.IH [of "free_entry e s"] Cons.prems(1) True by auto
  next
    case False
    then show ?thesis using Cons by (simp add: free_entry_def)
  qed
qed simp

lemma fold_reserve_pair:
  assumes "\<forall>r\<in>set rs. unat (snd r) < 2 ^ 44 - 4096" and "init_inv s"
  shows "init_inv (fold reserve_pair rs s) \<and>
    free_frames (fold reserve_pair rs s) =
      free_frames s - {i. \<exists>r\<in>set rs. touches (fst r) (snd r) i} \<and>
    pmm_max_page (fold reserve_pair rs s) = pmm_max_page s"
  using assms
proof (induction rs arbitrary: s)
  case (Cons r rs)
  from pmm_reserve_region_spec [OF Cons.prems(2), of "snd r" "fst r"] Cons.prems(1)
    Cons.IH [of "reserve_pair r s"] show ?case
    by (auto simp: reserve_pair_def)
qed simp

lemma max_page_bound:
  fixes m :: u32
  shows "unat (if m > PMM_MAX_PAGES then PMM_MAX_PAGES else m) \<le> 1048576"
  by (simp add: word_less_nat_alt)

lemma init_inv_reset:
  assumes "unat m \<le> 1048576"
  shows "init_inv ((pmm_reset s)\<lparr>e820_map := l, pmm_max_page := m\<rparr>)"
    and "free_frames ((pmm_reset s)\<lparr>e820_map := l, pmm_max_page := m\<rparr>) = {}"
proof -
  have "bitmap_test ((pmm_reset s)\<lparr>e820_map := l, pmm_max_page := m\<rparr>) i" for i
    using free_frames_reset [of s i] by (simp add: bitmap_test_def)
  then show f: "free_frames ((pmm_reset s)\<lparr>e820_map := l, pmm_max_page := m\<rparr>) = {}"
    by (auto simp: free_frames_def free_frame_def)
  show "init_inv ((pmm_reset s)\<lparr>e820_map := l, pmm_max_page := m\<rparr>)"
    unfolding init_inv_def f using assms by (simp add: pmm_reset_def)
qed

lemma pmm_init_map_spec:
  assumes "\<forall>r\<in>set (boot_free_ranges info). unat (fst r) + unat (snd r) < 2 ^ 44 - 4096"
  shows "init_inv (pmm_init_map info (pmm_reset s)) \<and>
    free_frames (pmm_init_map info (pmm_reset s)) =
      {i. i < unat (pmm_max_page (pmm_init_map info (pmm_reset s))) \<and>
          (\<exists>r\<in>set (boot_free_ranges info). covers (fst r) (snd r) i)}"
proof -
  have no_map: ?thesis
    if "pmm_init_map info (pmm_reset s) = pmm_free_region 0x00100000 (256 * 1024 * 1024)
          ((pmm_reset s)\<lparr>pmm_max_page := (256 * 1024 * 1024) div PMM_PAGE_SIZE\<rparr>)"
      and "boot_free_ranges info = [(0x00100000, 256 * 1024 * 1024)]"
  proof -
    define s1 where "s1 = (pmm_reset s)\<lparr>pmm_max_page := 65536\<rparr>"
    have eq: "pmm_init_map info (pmm_reset s) = pmm_free_region 0x00100000 268435456 s1"
      unfolding that(1) s1_def by simp
    have "s1 = (pmm_reset s)\<lparr>e820_map := e820_map (pmm_reset s), pmm_max_page := 65536\<rparr>"
      by (simp add: s1_def)
    with init_inv_reset [where m = 65536 and s = s and l = "e820_map (pmm_reset s)"]
    have s1: "init_inv s1" "free_frames s1 = {}" by simp_all
    have "unat (0x00100000 :: u64) + unat (268435456 :: u64) < 2 ^ 44 - 4096" by simp
    from pmm_free_region_spec [OF s1(1) this] s1(2) show ?thesis unfolding eq that(2) by simp
  qed
  show ?thesis
  proof (cases info)
    case None
    then show ?thesis by (intro no_map) (simp_all add: pmm_init_map_def boot_free_ranges_def)
  next
    case (Some mb)
    show ?thesis
    proof (cases "mb_flags mb AND MULTIBOOT_INFO_MEM_MAP = 0")
      case True
      then show ?thesis using Some
        by (intro no_map) (simp_all add: pmm_init_map_def boot_free_ranges_def)
    next
      case False
      obtain m where m: "unat m \<le> 1048576"
        "pmm_init_map info (pmm_reset s) = fold free_entry (mb_mmap mb)
           ((pmm_reset s)\<lparr>e820_map := record_e820 (mb_mmap mb), pmm_max_page := m\<rparr>)"
        using max_page_bound False Some by (simp add: pmm_init_map_def Let_def) blast
      have r: "\<forall>e\<in>set (mb_mmap mb). e_type e = MULTIBOOT_MEMORY_AVAILABLE \<longrightarrow>
          unat (e_addr e) + unat (e_len e) < 2 ^ 44 - 4096"
        using assms False Some by (auto simp: boot_free_ranges_def)
      from fold_free_entry [OF r init_inv_reset(1) [OF m(1)]] init_inv_reset(2) [OF m(1)] m(2)
      show ?thesis using False Some by (auto simp: boot_free_ranges_def)
    qed
  qed
qed

lemma boot_ranges_bound: "r \<in> set (boot_ranges ks ke info m) \<Longrightarrow> unat (snd r) < 2 ^ 44 - 4096"
proof -
  have u: "unat (ucast (x :: u32) :: u64) < 17592186040320" for x
    using unat_u32_bound [of x] by (simp add: unat_ucast_widen)
  show "r \<in> set (boot_ranges ks ke info m) \<Longrightarrow> unat (snd r) < 2 ^ 44 - 4096"
    using u by (auto simp: boot_ranges_def multiboot_ranges_def Let_def split: option.splits if_splits)
qed

lemma pmm_init_spec:
  fixes s :: pmm_state and ks ke :: u32
  assumes "\<forall>r\<in>set (boot_free_ranges info). unat (fst r) + unat (snd r) < 2 ^ 44 - 4096"
  defines "s' \<equiv> pmm_init ks ke info s"
  shows "init_inv s'" and "free_frames s' =
    {i. i < unat (pmm_max_page s') \<and>
        (\<exists>r\<in>set (boot_free_ranges info). covers (fst r) (snd r) i) \<and>
        (\<forall>r\<in>set (boot_ranges ks ke info (pmm_max_page s')). \<not> touches (fst r) (snd r) i)}"
proof -
  note m = pmm_init_map_spec [OF assms(1), of s]
  let ?s = "pmm_init_map info (pmm_reset s)"
  have b: "\<forall>r\<in>set (boot_ranges ks ke info (pmm_max_page ?s)). unat (snd r) < 2 ^ 44 - 4096"
    using boot_ranges_bound by blast
  note f = fold_reserve_pair [OF b conjunct1 [OF m]]
  have eq: "s' = fold reserve_pair (boot_ranges ks ke info (pmm_max_page ?s)) ?s"
    by (simp add: s'_def pmm_init_def Let_def)
  show "init_inv s'" and "free_frames s' =
    {i. i < unat (pmm_max_page s') \<and>
        (\<exists>r\<in>set (boot_free_ranges info). covers (fst r) (snd r) i) \<and>
        (\<forall>r\<in>set (boot_ranges ks ke info (pmm_max_page s')). \<not> touches (fst r) (snd r) i)}"
    unfolding eq using f m by auto
qed

lemma pmm_inv_init:
  assumes "\<forall>r\<in>set (boot_free_ranges info). unat (fst r) + unat (snd r) < 2 ^ 44 - 4096"
  shows "pmm_inv (pmm_init ks ke info s)"
proof -
  note i = pmm_init_spec [OF assms, of ks ke s]
  have "live_frames (pmm_init ks ke info s) = {}"
    using i(1) by (auto simp: live_frames_def frame_ref_def init_inv_def)
  moreover have "touches LOWER_MEM_START LOWER_MEM_END 0" by (simp add: touches_def)
  then have "0 \<notin> free_frames (pmm_init ks ke info s)"
    unfolding i(2) by (auto simp: boot_ranges_def)
  ultimately show ?thesis using i(1) by (simp add: pmm_inv_def init_inv_def)
qed

section \<open>The contract of a frame allocator\<close>

text \<open>
  What the page-table code relies on: \<open>free\<close> is the set of free frames, \<open>ref\<close> the references of
  each frame. \<open>alloc\<close> takes a free frame or reports failure by address 0; \<open>inc\<close> and \<open>dec\<close> count the
  sharers of a live frame and the last \<open>dec\<close> frees it.
\<close>

locale frame_allocator =
  fixes inv :: "'s \<Rightarrow> bool" and free :: "'s \<Rightarrow> nat set" and ref :: "'s \<Rightarrow> nat \<Rightarrow> nat"
    and alloc :: "'s \<Rightarrow> 's \<times> u32" and inc :: "u32 \<Rightarrow> 's \<Rightarrow> 's" and dec :: "u32 \<Rightarrow> 's \<Rightarrow> 's"
  assumes free_unreferenced: "inv s \<Longrightarrow> i \<in> free s \<Longrightarrow> ref s i = 0"
    and alloc_none: "inv s \<Longrightarrow> free s = {} \<Longrightarrow> alloc s = (s, 0)"
    and alloc_some: "inv s \<Longrightarrow> free s \<noteq> {} \<Longrightarrow> alloc s = (s', p) \<Longrightarrow>
      \<exists>i. i \<in> free s \<and> p \<noteq> 0 \<and> unat p = 4096 * i \<and> inv s' \<and> free s' = free s - {i} \<and>
          ref s' = (ref s)(i := 1)"
    and inc_live: "inv s \<Longrightarrow> unat p = 4096 * i \<Longrightarrow> 0 < ref s i \<Longrightarrow> ref s i < 65535 \<Longrightarrow>
      inv (inc p s) \<and> free (inc p s) = free s \<and> ref (inc p s) = (ref s)(i := ref s i + 1)"
    and dec_live: "inv s \<Longrightarrow> unat p = 4096 * i \<Longrightarrow> 0 < ref s i \<Longrightarrow>
      inv (dec p s) \<and> ref (dec p s) = (ref s)(i := ref s i - 1) \<and>
      free (dec p s) = (if ref s i = 1 then insert i (free s) else free s)"
begin

lemma alloc_zero: "inv s \<Longrightarrow> alloc s = (s', 0) \<longleftrightarrow> free s = {} \<and> s' = s"
proof (cases "free s = {}")
  case False
  assume "inv s"
  from alloc_some [OF this False] False show ?thesis by blast
qed (use alloc_none in auto)

text \<open>Allocating repeatedly never hands out a frame twice, nor one that is in use.\<close>

lemma alloc_fresh:
  assumes "inv s" and "alloc s = (s', p)" and "p \<noteq> 0"
  obtains i where "unat p = 4096 * i" and "i \<in> free s" and "ref s i = 0" and "inv s'"
    and "free s' = free s - {i}" and "ref s' = (ref s)(i := 1)"
proof -
  have "free s \<noteq> {}" using alloc_none assms by auto
  from alloc_some [OF assms(1) this assms(2)] free_unreferenced [OF assms(1)] that
  show thesis by blast
qed

lemma alloc_dec:
  assumes "inv s" and "alloc s = (s', p)" and "p \<noteq> 0"
  shows "inv (dec p s')" and "free (dec p s') = free s" and "ref (dec p s') = ref s"
proof -
  obtain i where i: "unat p = 4096 * i" "i \<in> free s" "ref s i = 0" "inv s'"
    "free s' = free s - {i}" "ref s' = (ref s)(i := 1)" using alloc_fresh [OF assms] .
  then have "0 < ref s' i" by simp
  from dec_live [OF i(4,1) this] i
  show "inv (dec p s')" and "free (dec p s') = free s" and "ref (dec p s') = ref s"
    by auto
qed

lemma inc_dec:
  assumes "inv s" and "unat p = 4096 * i" and "0 < ref s i" and "ref s i < 65535"
  shows "inv (dec p (inc p s)) \<and> free (dec p (inc p s)) = free s \<and> ref (dec p (inc p s)) = ref s"
proof -
  have i: "inv (inc p s)" "free (inc p s) = free s" "ref (inc p s) = (ref s)(i := ref s i + 1)"
    using inc_live [OF assms] by auto
  then have "0 < ref (inc p s) i" by simp
  from dec_live [OF i(1) assms(2) this] i assms(3) show ?thesis by auto
qed

end

lemma live_frame_ref: "i \<in> live_frames s \<longleftrightarrow> 0 < frame_ref s i"
  by (simp add: live_frames_def)

interpretation pmm: frame_allocator pmm_inv free_frames frame_ref pmm_alloc_page pmm_inc_ref pmm_dec_ref
proof
  fix s :: pmm_state and i assume "pmm_inv s" "i \<in> free_frames s"
  then show "frame_ref s i = 0" by (auto simp: pmm_inv_def live_frames_def)
next
  fix s :: pmm_state assume "pmm_inv s" "free_frames s = {}"
  then show "pmm_alloc_page s = (s, 0)" by (simp add: pmm_alloc_page_eq pmm_inv_def)
next
  fix s s' :: pmm_state and p
  assume a: "pmm_inv s" "free_frames s \<noteq> {}" "pmm_alloc_page s = (s', p)"
  define i where "i = Min (free_frames s)"
  have i: "i \<in> free_frames s" using a(2) by (simp add: i_def)
  have max: "unat (pmm_max_page s) \<le> 1048576" using a(1) by (simp add: pmm_inv_def)
  have s': "s' = take_frame i s" "p = of_nat i * 4096"
    using a pmm_alloc_page_eq [OF max] by (simp_all add: Let_def i_def)
  have "i < 1048576" using free_frames_lt [OF i] max by simp
  then have p: "unat p = 4096 * i" by (simp add: s' unat_word_ariths of_nat_u32)
  moreover have "i \<noteq> 0" using a(1) i by (auto simp: pmm_inv_def)
  then have "p \<noteq> 0" using p by auto
  ultimately show "\<exists>i. i \<in> free_frames s \<and> p \<noteq> 0 \<and> unat p = 4096 * i \<and> pmm_inv s' \<and>
      free_frames s' = free_frames s - {i} \<and> frame_ref s' = (frame_ref s)(i := 1)"
    using i s'(1) pmm_inv_take [OF a(1) i] free_frames_take frame_ref_take [OF i] by auto
next
  fix s :: pmm_state and p :: u32 and i
  assume "pmm_inv s" "unat p = 4096 * i" "0 < frame_ref s i" "frame_ref s i < 65535"
  then show "pmm_inv (pmm_inc_ref p s) \<and> free_frames (pmm_inc_ref p s) = free_frames s \<and>
      frame_ref (pmm_inc_ref p s) = (frame_ref s)(i := frame_ref s i + 1)"
    using pmm_inc_ref_live by (simp add: live_frame_ref)
next
  fix s :: pmm_state and p :: u32 and i
  assume "pmm_inv s" "unat p = 4096 * i" "0 < frame_ref s i"
  then show "pmm_inv (pmm_dec_ref p s) \<and>
      frame_ref (pmm_dec_ref p s) = (frame_ref s)(i := frame_ref s i - 1) \<and>
      free_frames (pmm_dec_ref p s) =
        (if frame_ref s i = 1 then insert i (free_frames s) else free_frames s)"
    using pmm_dec_ref_live by (simp add: live_frame_ref)
qed

text \<open>
  \<open>pmm_free_page\<close>, unlike \<open>pmm_dec_ref\<close>, does not look at the reference count: called on a shared
  frame, it frees the frame under its other owners.
\<close>

lemma pmm_free_page_ignores_references:
  assumes "pmm_inv s" and "unat p = 4096 * i" and "0 < frame_ref s i"
  shows "pmm_inv (pmm_free_page p s)" and "i \<in> free_frames (pmm_free_page p s)"
    and "free_frames (pmm_free_page p s) = insert i (free_frames s)"
    and "frame_ref (pmm_free_page p s) = (frame_ref s)(i := 0)"
proof -
  have i: "i \<in> live_frames s" using assms(3) by (simp add: live_frames_def)
  then have lt: "i < unat (pmm_max_page s)" and "i \<notin> free_frames s"
    using assms(1) live_frame_lt by (auto simp: pmm_inv_def)
  then have "bitmap_test s i" by (simp add: free_frames_def free_frame_def)
  then have eq: "pmm_free_page p s = drop_frame i s"
    using lt by (simp add: pmm_free_page_eq [OF assms(2)])
  show "pmm_inv (pmm_free_page p s)" unfolding eq using assms(1) i by (rule pmm_inv_drop)
  show "i \<in> free_frames (pmm_free_page p s)"
    and "free_frames (pmm_free_page p s) = insert i (free_frames s)"
    and "frame_ref (pmm_free_page p s) = (frame_ref s)(i := 0)"
    using eq free_frames_drop [OF lt] frame_ref_drop by simp_all
qed

section \<open>Properties\<close>

text \<open>A small state for the witnesses: eight frames, of which only frame 1 is free.\<close>

definition pmm_demo :: pmm_state where
  "pmm_demo = \<lparr>pmm_bitmap = (\<lambda>_. 0xFD), pmm_refcounts = (\<lambda>_. 0), total_available_pages = 1,
     used_pages = 0, pmm_max_page = 8, pmm_total_allocs = 0, pmm_total_frees = 0, e820_map = []\<rparr>"

lemma nat_lt_8_cases:
  "(i :: nat) < 8 \<Longrightarrow> i = 0 \<or> i = 1 \<or> i = 2 \<or> i = 3 \<or> i = 4 \<or> i = 5 \<or> i = 6 \<or> i = 7"
  by presburger

lemma free_frames_demo [simp]: "free_frames pmm_demo = {1}"
proof -
  have "free_frame pmm_demo i \<longleftrightarrow> i = 1" for i
  proof (cases "i < 8")
    case True
    from nat_lt_8_cases [OF True] show ?thesis
      by (elim disjE) (simp_all add: free_frame_def pmm_demo_def bitmap_test_def)
  next
    case False
    then show ?thesis by (auto simp: free_frame_def pmm_demo_def)
  qed
  then show ?thesis by (auto simp: free_frames_def)
qed

lemma frame_ref_demo [simp]: "frame_ref pmm_demo = (\<lambda>_. 0)"
  by (auto simp: frame_ref_def pmm_demo_def)

lemma pmm_inv_demo [simp]: "pmm_inv pmm_demo"
proof -
  have "live_frames pmm_demo = {}" by (simp add: live_frames_def)
  then show ?thesis by (simp add: pmm_inv_def) (simp add: pmm_demo_def)
qed

text \<open>
  C1. \<open>pmm_alloc_page\<close> hands out the lowest free frame: when the invariant holds and frame \<open>i\<close> is the
  lowest free one, it returns the address of \<open>i\<close>, takes exactly \<open>i\<close> from the free frames, gives it one
  reference, leaves all other references alone and keeps the invariant.
\<close>

theorem pmm_alloc_page_lowest:
  assumes "pmm_inv s" and "i \<in> free_frames s" and "\<forall>j \<in> free_frames s. i \<le> j"
  shows "\<exists>s' p. pmm_alloc_page s = (s', p) \<and> unat p = 4096 * i \<and> pmm_inv s' \<and>
    free_frames s' = free_frames s - {i} \<and> frame_ref s' = (frame_ref s)(i := 1)"
proof -
  have "Min (free_frames s) = i" using assms by (intro Min_eqI) auto
  then have "pmm_alloc_page s = (take_frame i s, of_nat i * 4096)"
    using assms pmm_alloc_page_eq [of s] by (auto simp: pmm_inv_def Let_def)
  moreover have "i < 1048576" using free_frames_lt [OF assms(2)] assms(1) by (simp add: pmm_inv_def)
  ultimately show ?thesis
    using pmm_inv_take [OF assms(1,2)] frame_ref_take [OF assms(2)]
    by (auto simp: free_frames_take unat_word_ariths of_nat_u32)
qed

theorem pmm_alloc_page_lowest_witness:
  "\<exists>s' p. pmm_alloc_page pmm_demo = (s', p) \<and> unat p = 4096 * 1 \<and> pmm_inv s' \<and>
    free_frames s' = {1} - {1} \<and> frame_ref s' = (\<lambda>_. 0)(1 := 1)"
  using pmm_alloc_page_lowest [of pmm_demo 1] by simp

text \<open>
  The allocator reports failure (address 0) exactly when no frame is free, and then changes
  nothing.
\<close>

theorem pmm_alloc_page_out_of_memory:
  assumes "pmm_inv s"
  shows "(snd (pmm_alloc_page s) = 0) = (free_frames s = {}) \<and>
    (free_frames s = {} \<longrightarrow> pmm_alloc_page s = (s, 0))"
  using pmm.alloc_zero [OF assms] pmm.alloc_none [OF assms]
  by (metis prod.collapse snd_conv)

theorem pmm_alloc_page_out_of_memory_witness:
  "snd (pmm_alloc_page pmm_demo) \<noteq> 0"
  using pmm_alloc_page_out_of_memory [of pmm_demo] by simp

text \<open>
  C26. Reference counting frees a frame with its last reference and not before: on a live frame
  \<open>pmm_dec_ref\<close> removes one reference, the frame joins the free ones exactly when that was the last,
  and the accounting of used and available frames stays exact.
\<close>

theorem pmm_dec_ref_frees_last:
  assumes "pmm_inv s" and "unat p = 4096 * i" and "0 < frame_ref s i"
  shows "pmm_inv (pmm_dec_ref p s) \<and>
    frame_ref (pmm_dec_ref p s) = (frame_ref s)(i := frame_ref s i - 1) \<and>
    free_frames (pmm_dec_ref p s) =
      (if frame_ref s i = 1 then insert i (free_frames s) else free_frames s)"
  using pmm.dec_live [OF assms] .

theorem pmm_dec_ref_frees_last_witness:
  "\<exists>s. pmm_inv s \<and> free_frames s = {} \<and> free_frames (pmm_dec_ref 4096 s) = {1}"
proof -
  let ?s = "fst (pmm_alloc_page pmm_demo)"
  have s: "pmm_inv ?s" "free_frames ?s = {}" "frame_ref ?s = (\<lambda>_. 0)(1 := 1)"
    using pmm.alloc_some [OF pmm_inv_demo _ prod.collapse [symmetric]] by auto
  have a: "unat (4096 :: u32) = 4096 * 1" by simp
  have "free_frames (pmm_dec_ref 4096 ?s) = {1}"
    using pmm_dec_ref_frees_last [OF s(1) a] s by simp
  then show ?thesis using s by blast
qed

text \<open>
  What \<open>pmm_init\<close> makes allocatable, for every boot-loader memory map whose available regions end
  below 16 TiB: a frame is free afterwards exactly when it is below the detected limit, lies wholly
  inside an available region and meets none of the reserved ranges (low memory, kernel image,
  multiboot data, modules, PCI hole), and the allocator's invariant holds.
\<close>

theorem pmm_init_availability:
  assumes "\<forall>r \<in> set (boot_free_ranges info). unat (fst r) + unat (snd r) < 2 ^ 44 - 4096"
  shows "pmm_inv (pmm_init ks ke info s) \<and>
    (free_frame (pmm_init ks ke info s) i \<longleftrightarrow>
      i < unat (pmm_max_page (pmm_init ks ke info s)) \<and>
      (\<exists>r \<in> set (boot_free_ranges info). covers (fst r) (snd r) i) \<and>
      (\<forall>r \<in> set (boot_ranges ks ke info (pmm_max_page (pmm_init ks ke info s))).
         \<not> touches (fst r) (snd r) i))"
proof -
  have "free_frame (pmm_init ks ke info s) i \<longleftrightarrow> i \<in> free_frames (pmm_init ks ke info s)"
    by (simp add: free_frames_def)
  then show ?thesis
    unfolding pmm_init_spec(2) [OF assms] using pmm_inv_init [OF assms] by simp
qed

theorem pmm_init_availability_witness:
  "\<not> free_frame (pmm_init 0xC0100000 0xC0200000 None pmm_demo) 300"
proof -
  have h: "\<forall>r \<in> set (boot_free_ranges None). unat (fst r) + unat (snd r) < 2 ^ 44 - 4096"
    by (simp add: boot_free_ranges_def)
  have "(ucast (VIRT_TO_PHYS 0xC0100000), ucast (VIRT_TO_PHYS 0xC0200000))
      \<in> set (boot_ranges 0xC0100000 0xC0200000 None m)" for m
    by (simp add: boot_ranges_def)
  moreover have "touches (ucast (VIRT_TO_PHYS 0xC0100000)) (ucast (VIRT_TO_PHYS 0xC0200000)) 300"
    by (simp add: touches_def VIRT_TO_PHYS_def)
  ultimately show ?thesis
    using pmm_init_availability [OF h, of "0xC0100000" "0xC0200000" pmm_demo 300] by fastforce
qed

end
