(* ===== verification/Heap.thy ===== *)
theory Heap
  imports Prelude "HOL-Library.Sublist"
begin

text \<open>
  The kernel heap, \<open>heap.c\<close>: a buddy system over the 128 MB window at \<open>KERNEL_HEAP_VIRT\<close>. The state of
  the blocks is an implicit binary tree in an array (node \<open>n\<close> has the children \<open>2 n\<close> and \<open>2 n + 1\<close>; a
  node at level \<open>l\<close> stands for a block of \<open>4096 * 2 ^ l\<close> bytes); each allocated block starts with a
  header of its size and a magic number. The header words are part of the heap's own memory:
  \<open>hdr_size\<close> and \<open>hdr_magic\<close> give, for every address, what a header read there would show.
\<close>

unbundle bit_operations_syntax

section \<open>State\<close>

abbreviation (input) HEAP_START :: u32 where "HEAP_START \<equiv> KERNEL_HEAP_VIRT"
abbreviation (input) HEAP_SIZE :: u32 where "HEAP_SIZE \<equiv> KERNEL_HEAP_SIZE"
abbreviation (input) HEAP_END :: u32 where "HEAP_END \<equiv> KERNEL_HEAP_END"
abbreviation (input) MAX_ORDER :: nat where "MAX_ORDER \<equiv> 15"
abbreviation (input) TREE_SIZE :: nat where "TREE_SIZE \<equiv> 65536"
abbreviation (input) HEADER_MAGIC :: u32 where "HEADER_MAGIC \<equiv> 0xDEADBEEF"
abbreviation (input) HEADER_BYTES :: u32 where "HEADER_BYTES \<equiv> 8"

datatype node = NODE_UNUSED | NODE_FREE | NODE_ALLOC | NODE_SPLIT

type_synonym tree = "nat \<Rightarrow> node"

record heap_state =
  tree :: tree
  heap_total_allocs :: u32
  heap_total_frees :: u32
  hdr_size :: "u32 \<Rightarrow> u32"
  hdr_magic :: "u32 \<Rightarrow> u32"

section \<open>Operations\<close>

text \<open>\<open>__builtin_clz\<close> of a 32-bit value through the number of its significant bits.\<close>

fun bit_width :: "nat \<Rightarrow> nat" where
  "bit_width n = (if n = 0 then 0 else Suc (bit_width (n div 2)))"

declare bit_width.simps [simp del]

definition get_depth :: "nat \<Rightarrow> nat" where
  "get_depth n = (if n = 0 then 0 else 31 - (32 - bit_width n))"

text \<open>
  The leftmost free node at or above the target level; \<open>None\<close> is \<open>-1\<close>. The search starts at
  \<open>MAX_ORDER \<ge> target_level\<close> and never descends past the target, so level 0 has no children to visit.
\<close>

fun find_free :: "tree \<Rightarrow> nat \<Rightarrow> nat \<Rightarrow> nat \<Rightarrow> nat option" where
  "find_free T n current_level target_level =
     (case T n of
        NODE_ALLOC \<Rightarrow> None
      | NODE_FREE \<Rightarrow> Some n
      | NODE_SPLIT \<Rightarrow>
          (if current_level = target_level then None
           else if current_level = 0 then None
           else case find_free T (n * 2) (current_level - 1) target_level of
                  Some left \<Rightarrow> Some left
                | None \<Rightarrow> find_free T (n * 2 + 1) (current_level - 1) target_level)
      | NODE_UNUSED \<Rightarrow> None)"

declare find_free.simps [simp del]

definition heap_init :: "heap_state \<Rightarrow> heap_state" where
  "heap_init h = h\<lparr>tree := (\<lambda>_. NODE_UNUSED)(1 := NODE_FREE),
     heap_total_allocs := 0, heap_total_frees := 0\<rparr>"

text \<open>The size class: \<open>block_size\<close> doubles from one page until it holds the request.\<close>

function size_class :: "u32 \<Rightarrow> u32 \<Rightarrow> nat \<Rightarrow> u32 \<times> nat" where
  "size_class req_size block_size target_level =
     (if block_size < req_size \<and> target_level < MAX_ORDER
      then size_class req_size (push_bit 1 block_size) (target_level + 1)
      else (block_size, target_level))"
  by pat_completeness auto
termination by (relation "measure (\<lambda>(_, _, l). 15 - l)") auto

declare size_class.simps [simp del]

text \<open>The loop that splits a free block down to the target level, going left.\<close>

fun split_loop :: "tree \<Rightarrow> nat \<Rightarrow> nat \<Rightarrow> tree \<times> nat" where
  "split_loop T cur 0 = (T, cur)"
| "split_loop T cur (Suc k) =
     split_loop (T(cur := NODE_SPLIT, cur * 2 + 1 := NODE_FREE)) (cur * 2) k"

definition node_addr :: "nat \<Rightarrow> u32 \<Rightarrow> u32" where
  "node_addr cur block_size =
     (let curr_depth = get_depth cur;
          block_index = cur - 2 ^ curr_depth;
          offset = of_nat block_index * block_size
      in HEAP_START + offset)"

definition kmalloc :: "u32 \<Rightarrow> heap_state \<Rightarrow> heap_state \<times> u32" where
  "kmalloc sz h =
     (if sz = 0 \<or> sz > HEAP_SIZE then (h, 0)
      else let req_size = sz + HEADER_BYTES;
               (block_size, target_level) = size_class req_size 4096 0
           in if block_size < req_size then (h, 0)
              else case find_free (tree h) 1 MAX_ORDER target_level of
                None \<Rightarrow> (h, 0)
              | Some n \<Rightarrow>
                  let depth = get_depth n;
                      curr_level = MAX_ORDER - depth;
                      (T, cur) = split_loop (tree h) n (curr_level - target_level);
                      virt_addr = node_addr cur block_size
                  in (h\<lparr>tree := T(cur := NODE_ALLOC),
                        heap_total_allocs := heap_total_allocs h + 1,
                        hdr_size := (hdr_size h)(virt_addr := block_size),
                        hdr_magic := (hdr_magic h)(virt_addr := HEADER_MAGIC)\<rparr>,
                      virt_addr + HEADER_BYTES))"

text \<open>
  \<open>kfree\<close> trusts the size in the header. \<open>None\<close> is what a corrupted header leads to: a loop whose
  \<open>temp_size\<close> shifts to zero, a division by zero, a negative shift, an index outside \<open>tree\<close>.
\<close>

function level_of_size :: "u32 \<Rightarrow> u32 \<Rightarrow> nat \<Rightarrow> nat option" where
  "level_of_size block_size temp_size target_level =
     (if temp_size < block_size
      then (if target_level \<ge> 32 then None
            else level_of_size block_size (push_bit 1 temp_size) (target_level + 1))
      else Some target_level)"
  by pat_completeness auto
termination by (relation "measure (\<lambda>(_, _, l). 32 - l)") auto

declare level_of_size.simps [simp del]

text \<open>The coalescing loop.\<close>

fun merge_loop :: "tree \<Rightarrow> nat \<Rightarrow> tree" where
  "merge_loop T cur =
     (if cur > 1 then
        let buddy = cur XOR 1;
            parent = cur div 2
        in if T buddy = NODE_FREE
           then merge_loop (T(cur := NODE_UNUSED, buddy := NODE_UNUSED, parent := NODE_FREE)) parent
           else T
      else T)"

declare merge_loop.simps [simp del]

definition kfree :: "u32 \<Rightarrow> heap_state \<Rightarrow> heap_state option" where
  "kfree ptr h =
     (if ptr = 0 then Some h
      else let virt_addr = ptr - HEADER_BYTES
           in if virt_addr < HEAP_START \<or> virt_addr \<ge> HEAP_END then Some h
              else if hdr_magic h virt_addr \<noteq> HEADER_MAGIC then Some h
              else let block_size = hdr_size h virt_addr;
                       offset = virt_addr - HEAP_START
                   in case level_of_size block_size 4096 0 of
                        None \<Rightarrow> None
                      | Some target_level \<Rightarrow>
                          if target_level > MAX_ORDER \<or> block_size = 0 then None
                          else let depth = MAX_ORDER - target_level;
                                   block_index = unat (offset div block_size);
                                   cur = 2 ^ depth + block_index
                               in if cur \<ge> TREE_SIZE then None
                                  else Some (h\<lparr>
                                    tree := merge_loop ((tree h)(cur := NODE_FREE)) cur,
                                    hdr_magic := (hdr_magic h)(virt_addr := 0),
                                    heap_total_frees := heap_total_frees h + 1\<rparr>))"

definition heap_check_balance :: "heap_state \<Rightarrow> int" where
  "heap_check_balance h = sint (heap_total_allocs h - heap_total_frees h)"

text \<open>The totals of \<open>heap_print_status\<close>, over all nodes of the array.\<close>

definition heap_bytes :: "node \<Rightarrow> tree \<Rightarrow> u32" where
  "heap_bytes kind T =
     fold (\<lambda>i n. if T i = kind then n + push_bit (MAX_ORDER - get_depth i) 4096 else n)
       [1..<TREE_SIZE] 0"

definition heap_print_status :: "heap_state \<Rightarrow> u32 \<times> u32" where
  "heap_print_status h =
     (heap_bytes NODE_FREE (tree h) div 1024, heap_bytes NODE_ALLOC (tree h) div 1024)"

section \<open>Nodes as paths\<close>

text \<open>
  A node is the path from it to the root (\<open>True\<close> for a right child, the node's own step first); the
  array becomes a function on paths.
\<close>

primrec idx :: "bool list \<Rightarrow> nat" where
  "idx [] = 1"
| "idx (d # ds) = idx ds * 2 + of_bool d"

lemma idx_pos [simp]: "0 < idx ds"
  by (induction ds) auto

lemma idx_ge_1: "1 \<le> idx ds"
  using idx_pos [of ds] by linarith

lemma idx_eq_1 [simp]: "idx ds = Suc 0 \<longleftrightarrow> ds = []" "Suc 0 = idx ds \<longleftrightarrow> ds = []"
proof -
  show "idx ds = Suc 0 \<longleftrightarrow> ds = []"
  proof (cases ds)
    case (Cons d es)
    then show ?thesis using idx_ge_1 [of es] by simp
  qed simp
  then show "Suc 0 = idx ds \<longleftrightarrow> ds = []" by auto
qed

lemma idx_inj [simp]: "idx ds = idx es \<longleftrightarrow> ds = es"
proof (induction ds arbitrary: es)
  case Nil
  then show ?case by auto
next
  case (Cons d ds)
  show ?case
  proof (cases es)
    case Nil
    then show ?thesis using idx_pos [of ds] by (auto simp del: idx_pos)
  next
    case (Cons e es')
    have "idx ds * 2 + of_bool d = idx es' * 2 + of_bool e \<longleftrightarrow> idx ds = idx es' \<and> d = e"
      by (cases d; cases e; simp; presburger)
    then show ?thesis using Cons Cons.IH by auto
  qed
qed

lemma idx_bounds: "2 ^ length ds \<le> idx ds \<and> idx ds < 2 ^ Suc (length ds)"
  by (induction ds) auto

lemma bit_width_idx [simp]: "bit_width (idx ds) = Suc (length ds)"
proof (induction ds)
  case Nil
  then show ?case by (simp add: bit_width.simps)
next
  case (Cons d ds)
  have "idx (d # ds) div 2 = idx ds" by (cases d) auto
  then show ?case using Cons by (subst bit_width.simps) auto
qed

lemma get_depth_idx: "length ds \<le> 31 \<Longrightarrow> get_depth (idx ds) = length ds"
  using idx_ge_1 [of ds] by (simp add: get_depth_def)

type_synonym ptree = "bool list \<Rightarrow> node"

definition pt :: "tree \<Rightarrow> ptree" where
  "pt T ds = T (idx ds)"

lemma pt_update [simp]: "pt (T(idx ds := x)) = (pt T)(ds := x)"
  by (auto simp: fun_eq_iff pt_def)

lemma append_Cons_neq [simp]: "es @ d # ds \<noteq> ds" "ds \<noteq> es @ d # ds"
  using arg_cong [of "es @ d # ds" ds length] by auto

section \<open>Well-formed trees\<close>

text \<open>All nodes strictly below a path are unused, down to the leaves.\<close>

fun below :: "ptree \<Rightarrow> bool list \<Rightarrow> nat \<Rightarrow> bool" where
  "below F ds 0 \<longleftrightarrow> True"
| "below F ds (Suc l) \<longleftrightarrow>
     F (False # ds) = NODE_UNUSED \<and> F (True # ds) = NODE_UNUSED \<and>
     below F (False # ds) l \<and> below F (True # ds) l"

text \<open>
  A subtree is a leaf, free or allocated, with nothing below it, or it is split into two
  well-formed halves that are not both free (they would have been merged).
\<close>

fun tree_ok :: "ptree \<Rightarrow> bool list \<Rightarrow> nat \<Rightarrow> bool" where
  "tree_ok F ds 0 \<longleftrightarrow> F ds = NODE_FREE \<or> F ds = NODE_ALLOC"
| "tree_ok F ds (Suc l) \<longleftrightarrow>
     (F ds = NODE_FREE \<or> F ds = NODE_ALLOC) \<and> below F ds (Suc l) \<or>
     F ds = NODE_SPLIT \<and> tree_ok F (False # ds) l \<and> tree_ok F (True # ds) l \<and>
     \<not> (F (False # ds) = NODE_FREE \<and> F (True # ds) = NODE_FREE)"

text \<open>The surroundings of a node: every ancestor is split and every sibling subtree well-formed.\<close>

fun ctx :: "ptree \<Rightarrow> nat \<Rightarrow> bool list \<Rightarrow> bool" where
  "ctx F l [] \<longleftrightarrow> True"
| "ctx F l (d # ds) \<longleftrightarrow> F ds = NODE_SPLIT \<and> tree_ok F ((\<not> d) # ds) l \<and> ctx F (Suc l) ds"

definition coalesced :: "ptree \<Rightarrow> bool list \<Rightarrow> bool" where
  "coalesced F ds \<longleftrightarrow> (case ds of [] \<Rightarrow> True
     | d # es \<Rightarrow> \<not> (F (d # es) = NODE_FREE \<and> F ((\<not> d) # es) = NODE_FREE))"

lemma tree_ok_leaf:
  "F ds = NODE_FREE \<or> F ds = NODE_ALLOC \<Longrightarrow> tree_ok F ds l \<longleftrightarrow> below F ds l"
  by (cases l) auto

lemma below_cong:
  "(\<And>es. es \<noteq> [] \<Longrightarrow> F (es @ ds) = G (es @ ds)) \<Longrightarrow> below F ds l = below G ds l"
proof (induction l arbitrary: ds)
  case (Suc l)
  have "F (es @ d # ds) = G (es @ d # ds)" for es d using Suc.prems [of "es @ [d]"] by simp
  moreover have "F (d # ds) = G (d # ds)" for d using Suc.prems [of "[d]"] by simp
  ultimately show ?case using Suc.IH by simp
qed simp

lemma tree_ok_cong:
  "(\<And>es. F (es @ ds) = G (es @ ds)) \<Longrightarrow> tree_ok F ds l = tree_ok G ds l"
proof (induction l arbitrary: ds)
  case 0
  then show ?case using "0" [of "[]"] by simp
next
  case (Suc l)
  have "F (es @ d # ds) = G (es @ d # ds)" for es d using Suc.prems [of "es @ [d]"] by simp
  note IH = Suc.IH [OF this, simplified]
  have "F ds = G ds" "F (d # ds) = G (d # ds)" for d
    using Suc.prems [of "[]"] Suc.prems [of "[d]"] by simp_all
  moreover have "below F ds (Suc l) = below G ds (Suc l)" by (rule below_cong) (rule Suc.prems)
  ultimately show ?case using IH by simp
qed

lemma sibling_disjoint: "es @ d # ds \<noteq> es' @ (\<not> d) # ds"
proof
  assume eq: "es @ d # ds = es' @ (\<not> d) # ds"
  then have "length es = length es'" by (metis add_right_cancel length_Cons length_append)
  with eq show False by simp
qed

lemma ctx_update [simp]: "ctx (F(es @ ds := x)) l ds = ctx F l ds"
proof (induction ds arbitrary: es l)
  case (Cons d ds)
  have "ctx (F(es @ d # ds := x)) (Suc l) ds = ctx F (Suc l) ds"
    using Cons.IH [of "es @ [d]" "Suc l"] by (simp only: append_assoc append_Cons append_Nil)
  moreover have "tree_ok (F(es @ d # ds := x)) ((\<not> d) # ds) l = tree_ok F ((\<not> d) # ds) l"
    using sibling_disjoint [of es d ds] by (intro tree_ok_cong) auto
  ultimately show ?case by (simp del: fun_upd_apply add: fun_upd_other)
qed simp

lemma ctx_update_self [simp]: "ctx (F(ds := x)) l ds = ctx F l ds"
  using ctx_update [of F "[]"] by simp

lemma ctx_update_child [simp]: "ctx (F(d # ds := x)) l ds = ctx F l ds"
  using ctx_update [of F "[d]"] by simp

lemma below_update_self [simp]: "below (F(ds := x)) ds l = below F ds l"
  by (rule below_cong) auto

lemma assemble:
  "ctx F l ds \<Longrightarrow> tree_ok F ds l \<Longrightarrow> coalesced F ds \<Longrightarrow> tree_ok F [] (l + length ds)"
proof (induction ds arbitrary: l)
  case (Cons d ds)
  then have "tree_ok F ds (Suc l)" by (cases d) (auto simp: coalesced_def)
  moreover have "coalesced F ds" using Cons.prems(1) by (cases ds) (auto simp: coalesced_def)
  ultimately show ?case using Cons.IH [of "Suc l"] Cons.prems(1) by simp
qed simp

lemma decompose_aux:
  assumes "tree_ok F [] H"
  shows "length ds \<le> H \<Longrightarrow>
    ctx F (H - length ds) ds \<and> tree_ok F ds (H - length ds) \<and> coalesced F ds \<or>
    F ds = NODE_UNUSED \<and> below F ds (H - length ds)"
proof (induction ds)
  case Nil
  then show ?case using assms by (simp add: coalesced_def)
next
  case (Cons d ds)
  then obtain l where l: "H - length ds = Suc l" "H - length (d # ds) = l"
    by (metis Suc_diff_Suc Suc_le_eq length_Cons)
  from Cons have "ctx F (Suc l) ds \<and> tree_ok F ds (Suc l) \<and> coalesced F ds \<or>
    F ds = NODE_UNUSED \<and> below F ds (Suc l)" using l by simp
  then show ?case unfolding l(2) by (cases d) (auto simp: coalesced_def)
qed

lemma decompose:
  assumes "tree_ok F [] H" and "length ds \<le> H" and "F ds \<noteq> NODE_UNUSED"
  shows "ctx F (H - length ds) ds" and "tree_ok F ds (H - length ds)" and "coalesced F ds"
  using decompose_aux [OF assms(1,2)] assms(3) by auto


section \<open>Searching, splitting and merging\<close>

lemma find_free_path:
  "find_free T (idx ds) l t = (case pt T ds of
     NODE_ALLOC \<Rightarrow> None
   | NODE_FREE \<Rightarrow> Some (idx ds)
   | NODE_UNUSED \<Rightarrow> None
   | NODE_SPLIT \<Rightarrow> (if l = t then None else if l = 0 then None
       else case find_free T (idx (False # ds)) (l - 1) t of
              Some left \<Rightarrow> Some left
            | None \<Rightarrow> find_free T (idx (True # ds)) (l - 1) t))"
  by (subst find_free.simps) (cases "T (idx ds)"; simp add: pt_def split: option.split)

lemma find_free_some:
  "find_free T (idx ds) l t = Some n \<Longrightarrow> t \<le> l \<Longrightarrow>
   \<exists>es. n = idx (es @ ds) \<and> length es \<le> l - t \<and> pt T (es @ ds) = NODE_FREE"
proof (induction l arbitrary: ds)
  case 0
  then show ?case by (subst (asm) find_free_path) (auto split: node.splits if_splits)
next
  case (Suc l)
  show ?case
  proof (cases "pt T ds = NODE_SPLIT \<and> Suc l \<noteq> t")
    case True
    then obtain d where "find_free T (idx (d # ds)) l t = Some n"
      using Suc.prems(1) by (subst (asm) find_free_path) (auto split: option.splits simp del: idx.simps)
    from Suc.IH [OF this] True Suc.prems(2) obtain es where
      "n = idx (es @ d # ds)" "length es \<le> l - t" "pt T (es @ d # ds) = NODE_FREE" by auto
    then show ?thesis using True Suc.prems(2) by (intro exI [of _ "es @ [d]"]) auto
  next
    case False
    then have "n = idx ds \<and> pt T ds = NODE_FREE"
      using Suc.prems(1) by (subst (asm) find_free_path) (auto split: node.splits)
    then show ?thesis by (intro exI [of _ "[]"]) simp
  qed
qed

lemma below_unused: "below F ds k \<Longrightarrow> length xs < k \<Longrightarrow> F (xs @ d # ds) = NODE_UNUSED"
proof (induction k arbitrary: xs d ds)
  case (Suc k)
  then show ?case
  proof (cases xs rule: rev_cases)
    case Nil
    then show ?thesis using Suc.prems by (cases d) auto
  next
    case (snoc ys e)
    then show ?thesis using Suc.prems Suc.IH [of "d # ds" ys e] by (cases d) auto
  qed
qed simp

lemma find_free_none:
  "find_free T (idx ds) l t = None \<Longrightarrow> t \<le> l \<Longrightarrow> tree_ok (pt T) ds l \<Longrightarrow>
   length es \<le> l - t \<Longrightarrow> pt T (es @ ds) \<noteq> NODE_FREE"
proof (induction l arbitrary: ds es)
  case 0
  then show ?case by (subst (asm) find_free_path) (auto split: node.splits)
next
  case (Suc l)
  have nf: "pt T ds \<noteq> NODE_FREE"
    using Suc.prems(1) by (subst (asm) find_free_path) (auto split: node.splits)
  show ?case
  proof (cases es rule: rev_cases)
    case Nil
    then show ?thesis using nf by simp
  next
    case (snoc es' d)
    then have t: "t \<le> l" "length es' \<le> l - t" "Suc l \<noteq> t" using Suc.prems(2,4) by auto
    show ?thesis
    proof (cases "pt T ds = NODE_SPLIT")
      case True
      then have "find_free T (idx (d # ds)) l t = None"
        using Suc.prems(1) t by (subst (asm) find_free_path)
          (cases d; auto split: option.splits simp del: idx.simps)
      moreover have "tree_ok (pt T) (d # ds) l" using Suc.prems(3) True by (cases d) auto
      ultimately show ?thesis using Suc.IH [of "d # ds" es'] t snoc by simp
    next
      case False
      have "below (pt T) ds (Suc l)" using Suc.prems(3) False by auto
      from below_unused [OF this, of es' d] show ?thesis using t snoc by simp
    qed
  qed
qed

text \<open>Splitting walks \<open>k\<close> steps to the left; whatever the start node held is overwritten.\<close>

lemma split_loop_spec:
  "split_loop T (idx ds) k = (T', n) \<Longrightarrow> ctx (pt T) (l + k) ds \<Longrightarrow> below (pt T) ds (l + k) \<Longrightarrow>
   n = idx (replicate k False @ ds) \<and> ctx (pt T') l (replicate k False @ ds) \<and>
   below (pt T') (replicate k False @ ds) l \<and>
   (\<forall>es. (\<nexists>x. es = x @ ds) \<longrightarrow> pt T' es = pt T es) \<and>
   (\<forall>es. pt T' es = NODE_ALLOC \<longrightarrow> pt T es = NODE_ALLOC) \<and>
   (k \<noteq> 0 \<longrightarrow> pt T' ((True # replicate (k - 1) False) @ ds) = NODE_FREE)"
proof (induction k arbitrary: T ds)
  case 0
  then show ?case by simp
next
  case (Suc k)
  define T1 where "T1 = T(idx ds := NODE_SPLIT, idx (True # ds) := NODE_FREE)"
  have s: "split_loop T1 (idx (False # ds)) k = (T', n)" using Suc.prems(1) by (simp add: T1_def)
  have b: "below (pt T) ds (Suc (l + k))" using Suc.prems(3) by simp
  have eq: "pt T1 = (pt T)(ds := NODE_SPLIT, True # ds := NODE_FREE)"
    by (simp only: pt_update T1_def)
  have "below (pt T1) (True # ds) (l + k) = below (pt T) (True # ds) (l + k)"
    unfolding eq by (intro below_cong) auto
  then have "tree_ok (pt T1) (True # ds) (l + k)"
    using b by (subst tree_ok_leaf) (auto simp: eq)
  moreover have "ctx (pt T1) (Suc (l + k)) ds" using Suc.prems(2) by (simp add: eq)
  ultimately have c: "ctx (pt T1) (l + k) (False # ds)" by (simp add: eq)
  have "below (pt T1) (False # ds) (l + k) = below (pt T) (False # ds) (l + k)"
    unfolding eq using sibling_disjoint [of _ False ds] by (intro below_cong) auto
  then have "below (pt T1) (False # ds) (l + k)" using b by simp
  note IH = Suc.IH [OF s c this]
  have rep: "replicate (Suc k) False @ ds = replicate k False @ False # ds"
    by (metis append.assoc append_Cons append_Nil replicate_Suc replicate_append_same)
  have "pt T' es = pt T es" if "\<nexists>x. es = x @ ds" for es
  proof -
    have "\<nexists>x. es = x @ False # ds" using that by (metis append.assoc append_Cons append_Nil)
    moreover have "es \<noteq> ds" "es \<noteq> True # ds" using that by (metis append_Nil, metis append_Cons append_Nil)
    ultimately show ?thesis using IH by (simp add: eq)
  qed
  moreover have "pt T es = NODE_ALLOC" if "pt T' es = NODE_ALLOC" for es
  proof -
    have "((pt T)(ds := NODE_SPLIT, True # ds := NODE_FREE)) es = NODE_ALLOC"
      using IH that unfolding eq by blast
    then show ?thesis by (metis fun_upd_other fun_upd_same node.distinct(7,11))
  qed
  moreover have "pt T' ((True # replicate (Suc k - 1) False) @ ds) = NODE_FREE"
  proof (cases k)
    case 0
    then have "T' = T1" using s by simp
    then show ?thesis using 0 by (simp add: eq)
  next
    case (Suc j)
    have "replicate k False @ ds = replicate j False @ False # ds"
      by (simp add: Suc) (metis append.assoc append_Cons append_Nil replicate_Suc replicate_append_same)
    then show ?thesis using IH Suc by simp
  qed
  ultimately show ?case unfolding rep using IH by blast
qed

text \<open>
  Freeing what a split produced merges it back to the start node: the loop reaches the start node
  with the tree as it was.
\<close>

lemma merge_loop_path:
  "merge_loop T (idx ds) = (case ds of [] \<Rightarrow> T
   | d # es \<Rightarrow> if pt T ((\<not> d) # es) = NODE_FREE
       then merge_loop (T(idx (d # es) := NODE_UNUSED, idx ((\<not> d) # es) := NODE_UNUSED,
              idx es := NODE_FREE)) (idx es)
       else T)"
proof (cases ds)
  case Nil
  then show ?thesis by (subst merge_loop.simps) simp
next
  case (Cons d es)
  have x: "idx (d # es) XOR 1 = idx ((\<not> d) # es)" 
    using xor_one_eq [of "idx (d # es)"] by (cases d) auto
  have h: "idx (d # es) div 2 = idx es" by (cases d) auto
  have "1 < idx (d # es)" using idx_ge_1 [of es] by auto
  then show ?thesis unfolding Cons by (subst merge_loop.simps) (simp only: x h Let_def pt_def if_True list.case)
qed

lemma merge_split:
  "split_loop T (idx ds) k = (T', n) \<Longrightarrow> below (pt T) ds (l + k) \<Longrightarrow>
   merge_loop (T'(n := NODE_FREE)) n = merge_loop (T(idx ds := NODE_FREE)) (idx ds)"
proof (induction k arbitrary: T ds)
  case 0
  then show ?case by simp
next
  case (Suc k)
  define T1 where "T1 = T(idx ds := NODE_SPLIT, idx (True # ds) := NODE_FREE)"
  have s: "split_loop T1 (idx (False # ds)) k = (T', n)"
    using Suc.prems(1) by (simp add: T1_def)
  have b: "below (pt T) ds (Suc (l + k))" using Suc.prems(2) by simp
  have eq: "pt T1 = (pt T)(ds := NODE_SPLIT, True # ds := NODE_FREE)"
    by (simp only: pt_update T1_def)
  have "below (pt T1) (False # ds) (l + k) = below (pt T) (False # ds) (l + k)"
    unfolding eq using sibling_disjoint [of _ False ds] by (intro below_cong) auto
  then have "below (pt T1) (False # ds) (l + k)" using b by simp
  note IH = Suc.IH [OF s this]
  let ?T = "T1(idx (False # ds) := NODE_FREE)"
  have "pt ?T (True # ds) = NODE_FREE" by (simp only: pt_update eq) simp
  then have step: "merge_loop ?T (idx (False # ds)) =
      merge_loop (?T(idx (False # ds) := NODE_UNUSED, idx (True # ds) := NODE_UNUSED,
        idx ds := NODE_FREE)) (idx ds)"
    by (subst merge_loop_path) (simp only: list.case not_False_eq_True if_True refl simp_thms)
  have "T (idx (False # ds)) = NODE_UNUSED" "T (idx (True # ds)) = NODE_UNUSED"
    using b by (simp_all add: pt_def)
  then have "?T(idx (False # ds) := NODE_UNUSED, idx (True # ds) := NODE_UNUSED,
        idx ds := NODE_FREE) = T(idx ds := NODE_FREE)"
    unfolding T1_def by (auto simp: fun_eq_iff simp del: idx.simps)
  then show ?case by (simp only: IH step)
qed


text \<open>A well-formed surrounding of a free node becomes a well-formed tree by merging upwards.\<close>

lemma merge_loop_ok:
  "ctx (pt T) l ds \<Longrightarrow> pt T ds = NODE_FREE \<Longrightarrow> below (pt T) ds l \<Longrightarrow>
   tree_ok (pt (merge_loop T (idx ds))) [] (l + length ds) \<and>
   (\<forall>es. pt (merge_loop T (idx ds)) es = NODE_ALLOC \<longleftrightarrow> pt T es = NODE_ALLOC)"
proof (induction ds arbitrary: T l)
  case Nil
  then show ?case by (subst (1 2) merge_loop_path) (simp add: tree_ok_leaf)
next
  case (Cons d ds)
  have tok: "tree_ok (pt T) (d # ds) l" using Cons.prems by (simp add: tree_ok_leaf)
  show ?case
  proof (cases "pt T ((\<not> d) # ds) = NODE_FREE")
    case False
    then have "coalesced (pt T) (d # ds)" by (simp add: coalesced_def)
    then show ?thesis
      using False assemble [OF Cons.prems(1) tok] by (subst (1 2) merge_loop_path) simp
  next
    case True
    define T1 where "T1 = T(idx (d # ds) := NODE_UNUSED, idx ((\<not> d) # ds) := NODE_UNUSED,
            idx ds := NODE_FREE)"
    have eq: "pt T1 = (pt T)(d # ds := NODE_UNUSED, (\<not> d) # ds := NODE_UNUSED, ds := NODE_FREE)"
      by (simp only: pt_update T1_def)
    have m: "merge_loop T (idx (d # ds)) = merge_loop T1 (idx ds)"
      using True by (subst merge_loop_path) (simp only: list.case if_True T1_def refl)
    have "below (pt T) ((\<not> d) # ds) l"
      using Cons.prems(1) True by (simp add: tree_ok_leaf)
    moreover have bel: "below (pt T1) (e # ds) l = below (pt T) (e # ds) l" for e
    proof (rule below_cong)
      fix es :: "bool list" assume "es \<noteq> []"
      then have "length (es @ e # ds) \<noteq> length (b # ds)" for b :: bool by simp
      then have n: "es @ e # ds \<noteq> b # ds" for b by metis
      show "pt T1 (es @ e # ds) = pt T (es @ e # ds)"
        by (simp only: eq fun_upd_apply n append_Cons_neq if_False)
    qed
    ultimately have "below (pt T1) (d # ds) l" "below (pt T1) ((\<not> d) # ds) l"
      using Cons.prems(3) by (simp_all only: bel)
    then have b: "below (pt T1) ds (Suc l)" by (cases d) (auto simp: eq)
    have c: "ctx (pt T1) (Suc l) ds" using Cons.prems(1) by (simp add: eq)
    have f: "pt T1 ds = NODE_FREE" by (simp add: eq)
    note IH = Cons.IH [OF c f b]
    have "pt T1 es = NODE_ALLOC \<longleftrightarrow> pt T es = NODE_ALLOC" for es
      using True Cons.prems(1,2) by (auto simp: eq)
    moreover have "Suc l + length ds = l + length (d # ds)" by simp
    ultimately show ?thesis unfolding m using IH by metis
  qed
qed

lemma merge_loop_coalesced:
  "coalesced (pt T) ds \<Longrightarrow> pt T ds = NODE_FREE \<Longrightarrow> merge_loop T (idx ds) = T"
  by (subst merge_loop_path) (auto simp: coalesced_def split: list.splits)

section \<open>Blocks, addresses and the invariant\<close>

definition path_level :: "bool list \<Rightarrow> nat" where
  "path_level ds = MAX_ORDER - length ds"

definition block_bytes :: "bool list \<Rightarrow> nat" where
  "block_bytes ds = 4096 * 2 ^ path_level ds"

text \<open>The offset of a block inside the heap window.\<close>

definition block_offset :: "bool list \<Rightarrow> nat" where
  "block_offset ds = (idx ds - 2 ^ length ds) * block_bytes ds"

definition block_addr :: "bool list \<Rightarrow> u32" where
  "block_addr ds = HEAP_START + of_nat (block_offset ds)"

definition allocated :: "heap_state \<Rightarrow> bool list set" where
  "allocated h = {ds. length ds \<le> MAX_ORDER \<and> pt (tree h) ds = NODE_ALLOC}"

definition heap_inv :: "heap_state \<Rightarrow> bool" where
  "heap_inv h \<longleftrightarrow> tree_ok (pt (tree h)) [] MAX_ORDER \<and>
     (\<forall>ds \<in> allocated h. unat (hdr_size h (block_addr ds)) = block_bytes ds \<and>
                         hdr_magic h (block_addr ds) = HEADER_MAGIC)"

lemma block_bytes_Cons:
  "length ds < MAX_ORDER \<Longrightarrow> block_bytes ds = 2 * block_bytes (d # ds)"
proof -
  assume "length ds < MAX_ORDER"
  then have "MAX_ORDER - length ds = Suc (MAX_ORDER - length (d # ds))" by simp
  then show ?thesis unfolding block_bytes_def path_level_def by (simp only: power_Suc)
qed

lemma block_offset_Cons:
  assumes "length ds < MAX_ORDER"
  shows "block_offset (d # ds) = block_offset ds + of_bool d * block_bytes (d # ds)"
proof -
  have "2 ^ length ds \<le> idx ds" using idx_bounds by simp
  then have "idx (d # ds) - 2 ^ length (d # ds) = (idx ds - 2 ^ length ds) * 2 + of_bool d"
    by (cases d) auto
  then show ?thesis
    unfolding block_offset_def block_bytes_Cons [OF assms, of d]
    by (simp add: algebra_simps)
qed

lemma block_bytes_pos [simp]: "0 < block_bytes ds"
  by (simp add: block_bytes_def)

lemma block_within:
  "length (es @ ds) \<le> MAX_ORDER \<Longrightarrow>
   block_offset ds \<le> block_offset (es @ ds) \<and>
   block_offset (es @ ds) + block_bytes (es @ ds) \<le> block_offset ds + block_bytes ds"
proof (induction es)
  case (Cons e es)
  then have l: "length (es @ ds) < MAX_ORDER" by simp
  from Cons block_offset_Cons [OF l, of e] block_bytes_Cons [OF l, of e] show ?case
    by (cases e) auto
qed simp

lemma block_bounds:
  "length ds \<le> MAX_ORDER \<Longrightarrow> block_offset ds + block_bytes ds \<le> 134217728"
  using block_within [of ds "[]"] by (simp add: block_offset_def block_bytes_def path_level_def)

text \<open>Two blocks neither of which contains the other share no byte.\<close>

lemma block_disjoint:
  assumes "length ds \<le> MAX_ORDER" and "length es \<le> MAX_ORDER"
    and "\<nexists>x. es = x @ ds" and "\<nexists>x. ds = x @ es"
  shows "block_offset ds + block_bytes ds \<le> block_offset es \<or>
         block_offset es + block_bytes es \<le> block_offset ds"
proof -
  have "\<not> prefix (rev ds) (rev es)" "\<not> prefix (rev es) (rev ds)"
    using assms(3,4) by (auto simp: prefix_def) (metis rev_append rev_rev_ident)+
  then have "parallel (rev ds) (rev es)" by (simp add: parallel_def)
  from parallel_decomp [OF this] obtain as b bs c cs where
    "b \<noteq> c" "rev ds = as @ b # bs" "rev es = as @ c # cs" by auto
  moreover have "ds = rev (rev ds)" "es = rev (rev es)" "c = (\<not> b)" using \<open>b \<noteq> c\<close> by auto
  ultimately have d: "ds = rev bs @ b # rev as" and e: "es = rev cs @ (\<not> b) # rev as"
    by simp_all
  have l: "length (rev as) < MAX_ORDER" using assms(1) d by simp
  note d1 = block_within [of "rev bs" "b # rev as"] and e1 = block_within [of "rev cs" "(\<not> b) # rev as"]
  show ?thesis
    using d1 e1 assms(1,2) block_offset_Cons [OF l] block_bytes_Cons [OF l, of True]
      block_bytes_Cons [OF l, of False] unfolding d e
    by (cases b) auto
qed


section \<open>kmalloc\<close>

lemma size_class_spec:
  "b = 4096 * 2 ^ t \<Longrightarrow> t \<le> MAX_ORDER \<Longrightarrow> (t = 0 \<or> 4096 * 2 ^ (t - 1) < unat r) \<Longrightarrow>
   \<exists>l. size_class r b t = (4096 * 2 ^ l, l) \<and> l \<le> MAX_ORDER \<and>
       (unat r \<le> 4096 * 2 ^ MAX_ORDER \<longleftrightarrow> unat r \<le> 4096 * 2 ^ l) \<and>
       (l = 0 \<or> 4096 * 2 ^ (l - 1) < unat r)"
proof (induction r b t rule: size_class.induct)
  case (1 r b t)
  have ub: "unat b = 4096 * 2 ^ t"
  proof -
    have "(4096 :: nat) * 2 ^ t \<le> 4096 * 2 ^ 15" using "1.prems"(2) by (intro mult_left_mono power_increasing) auto
    then have "unat (of_nat (4096 * 2 ^ t) :: u32) = 4096 * 2 ^ t" by (simp only: unat_of_nat) simp
    then show ?thesis using "1.prems"(1) by simp
  qed
  show ?case
  proof (cases "b < r \<and> t < MAX_ORDER")
    case True
    have "4096 * 2 ^ (t + 1 - 1) < unat r" using True ub by (simp add: word_less_nat_alt)
    moreover have "push_bit 1 b = 4096 * 2 ^ (t + 1)" using "1.prems"(1) by simp
    ultimately obtain l where "size_class r (push_bit 1 b) (t + 1) = (4096 * 2 ^ l, l)"
      "l \<le> MAX_ORDER" "unat r \<le> 4096 * 2 ^ MAX_ORDER \<longleftrightarrow> unat r \<le> 4096 * 2 ^ l"
      "l = 0 \<or> 4096 * 2 ^ (l - 1) < unat r"
      using "1.IH" [OF True] True by auto
    then show ?thesis using True by (subst size_class.simps) auto
  next
    case False
    then have "size_class r b t = (b, t)" by (subst size_class.simps) auto
    moreover have "unat r \<le> 4096 * 2 ^ MAX_ORDER \<longleftrightarrow> unat r \<le> 4096 * 2 ^ t"
    proof (cases "t = MAX_ORDER")
      case F: False
      then have "unat r \<le> 4096 * 2 ^ t" using False "1.prems"(2) ub by (simp add: not_less word_le_nat_alt)
      moreover have "(4096 :: nat) * 2 ^ t \<le> 4096 * 2 ^ 15"
        using "1.prems"(2) by (intro mult_left_mono power_increasing) auto
      ultimately show ?thesis by auto
    qed simp
    ultimately show ?thesis using "1.prems" by auto
  qed
qed

lemma unat_block_size: "l \<le> 15 \<Longrightarrow> unat (4096 * 2 ^ l :: u32) = 4096 * 2 ^ l"
proof -
  assume "l \<le> 15"
  then have "(4096 :: nat) * 2 ^ l \<le> 4096 * 2 ^ 15" by (intro mult_left_mono power_increasing) auto
  then have "unat (of_nat (4096 * 2 ^ l) :: u32) = 4096 * 2 ^ l" by (simp only: unat_of_nat) simp
  then show ?thesis by simp
qed

lemma unat_block_addr:
  assumes "length ds \<le> MAX_ORDER"
  shows "unat (block_addr ds) = 3489660928 + block_offset ds"
proof -
  have "block_offset ds < 134217728" using block_bounds [OF assms] block_bytes_pos [of ds] by linarith
  then show ?thesis by (simp add: block_addr_def unat_word_ariths unat_of_nat)
qed

lemma node_addr_eq:
  assumes "length ds \<le> MAX_ORDER"
  shows "node_addr (idx ds) (4096 * 2 ^ path_level ds) = block_addr ds"
proof -
  have "of_nat (block_offset ds) = of_nat (idx ds - 2 ^ length ds) * (4096 * 2 ^ path_level ds :: u32)"
    by (simp add: block_offset_def block_bytes_def)
  then show ?thesis using assms by (simp add: node_addr_def Let_def get_depth_idx block_addr_def)
qed

text \<open>Distinct allocated nodes are never one inside the other.\<close>

lemma leaf_below:
  assumes "tree_ok (pt T) [] MAX_ORDER" and "pt T ds = NODE_ALLOC \<or> pt T ds = NODE_FREE"
    and "length (x @ ds) \<le> MAX_ORDER" and "x \<noteq> []"
  shows "pt T (x @ ds) = NODE_UNUSED"
proof -
  have "tree_ok (pt T) ds (MAX_ORDER - length ds)"
    using assms by (intro decompose(2) [OF assms(1)]) auto
  then have b: "below (pt T) ds (MAX_ORDER - length ds)" using assms(2) tree_ok_leaf by blast
  obtain y d where x: "x = y @ [d]" using assms(4) by (cases x rule: rev_cases) auto
  have "length y < MAX_ORDER - length ds" using assms(3) x by simp
  from below_unused [OF b this] show ?thesis by (simp add: x)
qed

lemma allocated_incomparable:
  assumes "heap_inv h" and "ds \<in> allocated h" and "es \<in> allocated h" and "ds \<noteq> es"
  shows "\<nexists>x. es = x @ ds"
proof
  assume "\<exists>x. es = x @ ds"
  then obtain x where x: "es = x @ ds" by blast
  then have "pt (tree h) es = NODE_UNUSED"
    using assms leaf_below [of "tree h" ds x] by (auto simp: heap_inv_def allocated_def)
  then show False using assms(3) by (simp add: allocated_def)
qed

lemma allocated_disjoint:
  assumes "heap_inv h" and "ds \<in> allocated h" and "es \<in> allocated h" and "ds \<noteq> es"
  shows "block_offset ds + block_bytes ds \<le> block_offset es \<or>
         block_offset es + block_bytes es \<le> block_offset ds"
  using assms allocated_incomparable [OF assms] allocated_incomparable [OF assms(1,3,2)]
  by (intro block_disjoint) (auto simp: allocated_def)

lemma block_addr_inj:
  assumes "heap_inv h" and "ds \<in> allocated h" and "es \<in> allocated h" and "ds \<noteq> es"
  shows "block_addr ds \<noteq> block_addr es"
proof
  assume "block_addr ds = block_addr es"
  then have "block_offset ds = block_offset es"
    using assms(2,3) unat_block_addr [of ds] unat_block_addr [of es] by (simp add: allocated_def)
  then show False
    using allocated_disjoint [OF assms] block_bytes_pos [of ds] block_bytes_pos [of es] by linarith
qed

lemma kmalloc_cases:
  assumes "heap_inv h"
  obtains (none) "kmalloc sz h = (h, 0)"
      "sz = 0 \<or> unat sz + 8 > 134217728 \<or>
       (\<forall>ds. length ds \<le> MAX_ORDER \<longrightarrow> pt (tree h) ds = NODE_FREE \<longrightarrow> block_bytes ds < unat sz + 8)"
  | (some) ds T where "sz \<noteq> 0" "length ds \<le> MAX_ORDER" "unat sz + 8 \<le> block_bytes ds"
      "kmalloc sz h = (h\<lparr>tree := T(idx ds := NODE_ALLOC),
          heap_total_allocs := heap_total_allocs h + 1,
          hdr_size := (hdr_size h)(block_addr ds := of_nat (block_bytes ds)),
          hdr_magic := (hdr_magic h)(block_addr ds := HEADER_MAGIC)\<rparr>, block_addr ds + 8)"
      "ds \<notin> allocated h"
      "tree_ok (pt (T(idx ds := NODE_ALLOC))) [] MAX_ORDER"
      "\<And>es. length es \<le> MAX_ORDER \<Longrightarrow> es \<noteq> ds \<Longrightarrow> pt T es = NODE_ALLOC \<longleftrightarrow> pt (tree h) es = NODE_ALLOC"
      "merge_loop (T(idx ds := NODE_FREE)) (idx ds) = tree h"
proof (cases "sz = 0 \<or> sz > HEAP_SIZE")
  case True
  then have "kmalloc sz h = (h, 0)" by (simp add: kmalloc_def)
  moreover have "sz = 0 \<or> unat sz + 8 > 134217728" using True by (auto simp: word_less_nat_alt)
  ultimately show thesis by (intro none) auto
next
  case sz: False
  then have s27: "unat sz \<le> 134217728" by (simp add: word_less_nat_alt not_less)
  then have req: "unat (sz + 8) = unat sz + 8" by (simp add: unat_word_ariths)
  obtain t where t: "size_class (sz + 8) 4096 0 = (4096 * 2 ^ t, t)" "t \<le> MAX_ORDER"
    "unat (sz + 8) \<le> 4096 * 2 ^ MAX_ORDER \<longleftrightarrow> unat (sz + 8) \<le> 4096 * 2 ^ t"
    "t = 0 \<or> 4096 * 2 ^ (t - 1) < unat (sz + 8)"
    using size_class_spec [of 4096 0 "sz + 8"] by auto
  have ut: "unat (4096 * 2 ^ t :: u32) = 4096 * 2 ^ t" using t(2) by (rule unat_block_size)
  note kd = kmalloc_def [of sz h] 
  show thesis
  proof (cases "4096 * 2 ^ t < sz + 8")
    case True
    then have "unat sz + 8 > 134217728" using t(3) ut req by (simp add: word_less_nat_alt)
    moreover have "kmalloc sz h = (h, 0)" using True sz t(1) by (simp add: kd Let_def)
    ultimately show thesis by (intro none) auto
  next
    case fits: False
    then have fit: "unat sz + 8 \<le> 4096 * 2 ^ t" using ut req by (simp add: word_less_nat_alt not_less)
    have tok: "tree_ok (pt (tree h)) [] MAX_ORDER" using assms by (simp add: heap_inv_def)
    have root: "find_free (tree h) 1 MAX_ORDER t = find_free (tree h) (idx []) MAX_ORDER t" by simp
    show thesis
    proof (cases "find_free (tree h) 1 MAX_ORDER t")
      case None
      have "block_bytes ds < unat sz + 8"
        if "length ds \<le> MAX_ORDER" "pt (tree h) ds = NODE_FREE" for ds
      proof -
        have "\<not> length ds \<le> MAX_ORDER - t"
          using find_free_none [OF None [unfolded root] t(2) tok, of ds] that(2) by auto
        then have "path_level ds \<le> t - 1" "t \<noteq> 0" using that(1) by (auto simp: path_level_def)
        then have "(4096 :: nat) * 2 ^ path_level ds \<le> 4096 * 2 ^ (t - 1)"
          by (intro mult_left_mono power_increasing) auto
        moreover have "4096 * 2 ^ (t - 1) < unat sz + 8" using t(4) \<open>t \<noteq> 0\<close> req by simp
        ultimately show ?thesis unfolding block_bytes_def by linarith
      qed
      moreover have "kmalloc sz h = (h, 0)" using None fits sz t(1) by (simp add: kd Let_def)
      ultimately show thesis by (intro none) auto
    next
      case (Some n)
      from find_free_some [OF Some [unfolded root] t(2)] obtain es where
        es: "n = idx es" "length es \<le> MAX_ORDER - t" "pt (tree h) es = NODE_FREE" by auto
      define k where "k = MAX_ORDER - length es - t"
      define ds where "ds = replicate k False @ es"
      have len: "length es \<le> MAX_ORDER" "length ds = MAX_ORDER - t" using es(2) t(2) by (auto simp: ds_def k_def)
      have lk: "t + k = MAX_ORDER - length es" using es(2) t(2) by (simp add: k_def)
      have bb: "block_bytes ds = 4096 * 2 ^ t" "path_level ds = t"
        using len t(2) by (auto simp: block_bytes_def path_level_def)
      obtain T n' where sp: "split_loop (tree h) (idx es) k = (T, n')" by (cases "split_loop (tree h) (idx es) k")
      have dec: "ctx (pt (tree h)) (t + k) es" "tree_ok (pt (tree h)) es (t + k)" "coalesced (pt (tree h)) es"
        using decompose [OF tok len(1)] es(3) unfolding lk by auto
      have bel: "below (pt (tree h)) es (t + k)" using dec(2) es(3) by (simp add: tree_ok_leaf)
      from split_loop_spec [OF sp dec(1) bel] have
        n': "n' = idx ds" and c: "ctx (pt T) t ds" and b: "below (pt T) ds t" and
        keep: "\<And>q. (\<nexists>x. q = x @ es) \<Longrightarrow> pt T q = pt (tree h) q" and
        al: "\<And>q. pt T q = NODE_ALLOC \<Longrightarrow> pt (tree h) q = NODE_ALLOC"
        unfolding ds_def by auto
      have ext: "pt (tree h) (x @ es) \<noteq> NODE_ALLOC" if "length (x @ es) \<le> MAX_ORDER" for x
        using leaf_below [OF tok _ that] es(3) by (cases "x = []") auto
      have "ds \<notin> allocated h" using ext [of "replicate k False"] by (auto simp: allocated_def ds_def)
      moreover have "tree_ok (pt (T(idx ds := NODE_ALLOC))) [] MAX_ORDER"
      proof -
        have "ctx (pt (T(idx ds := NODE_ALLOC))) t ds" using c by simp
        moreover have "tree_ok (pt (T(idx ds := NODE_ALLOC))) ds t" using b by (simp add: tree_ok_leaf)
        moreover have "coalesced (pt (T(idx ds := NODE_ALLOC))) ds"
          by (simp add: coalesced_def split: list.split)
        ultimately have "tree_ok (pt (T(idx ds := NODE_ALLOC))) [] (t + length ds)" by (rule assemble)
        then show ?thesis using len t(2) by simp
      qed
      moreover have "pt T q = NODE_ALLOC \<longleftrightarrow> pt (tree h) q = NODE_ALLOC"
        if "length q \<le> MAX_ORDER" "q \<noteq> ds" for q
        using al keep [of q] ext that(1) by metis
      moreover have "merge_loop (T(idx ds := NODE_FREE)) (idx ds) = tree h"
      proof -
        have "(tree h)(idx es := NODE_FREE) = tree h" using es(3) by (auto simp: fun_eq_iff pt_def)
        then show ?thesis
          using merge_split [OF sp bel] merge_loop_coalesced [OF dec(3) es(3)] n' by simp
      qed
      moreover have "kmalloc sz h = (h\<lparr>tree := T(idx ds := NODE_ALLOC),
          heap_total_allocs := heap_total_allocs h + 1,
          hdr_size := (hdr_size h)(block_addr ds := of_nat (block_bytes ds)),
          hdr_magic := (hdr_magic h)(block_addr ds := HEADER_MAGIC)\<rparr>, block_addr ds + 8)"
      proof -
        have "get_depth n = length es" using es(1) len(1) by (simp add: get_depth_idx)
        moreover have "node_addr (idx ds) (4096 * 2 ^ t) = block_addr ds"
          using node_addr_eq [of ds] len t(2) bb by simp
        ultimately show ?thesis using sz t(1) fits Some es(1) sp n' bb(1)
          by (simp add: kd Let_def k_def)
      qed
      ultimately show thesis using sz len fit bb by (intro some [of ds T]) auto
    qed
  qed
qed


section \<open>kfree\<close>

lemma level_of_size_spec:
  "t \<le> l \<Longrightarrow> l \<le> 15 \<Longrightarrow> b = 4096 * 2 ^ l \<Longrightarrow> x = 4096 * 2 ^ t \<Longrightarrow>
   level_of_size b x t = Some l"
proof (induction b x t rule: level_of_size.induct)
  case (1 b x t)
  have ub: "unat b = 4096 * 2 ^ l" "unat x = 4096 * 2 ^ t"
    using "1.prems" unat_block_size [of l] unat_block_size [of t] by auto
  show ?case
  proof (cases "t = l")
    case True
    then show ?thesis using "1.prems" by (subst level_of_size.simps) simp
  next
    case False
    then have lt: "t < l" using "1.prems" by simp
    then have "(2 :: nat) ^ t < 2 ^ l" by (intro power_strict_increasing) auto
    then have "x < b" using ub by (simp add: word_less_nat_alt)
    moreover have "push_bit 1 x = 4096 * 2 ^ (t + 1)" using "1.prems"(4) by simp
    ultimately show ?thesis using "1.IH" lt "1.prems" by (subst level_of_size.simps) simp
  qed
qed

lemma block_addr_back: "block_addr ds + 8 - 8 = block_addr ds"
  by simp

lemma kfree_eq:
  assumes "heap_inv h" and "ds \<in> allocated h"
  shows "kfree (block_addr ds + 8) h = Some (h\<lparr>
      tree := merge_loop ((tree h)(idx ds := NODE_FREE)) (idx ds),
      hdr_magic := (hdr_magic h)(block_addr ds := 0),
      heap_total_frees := heap_total_frees h + 1\<rparr>)"
proof -
  have len: "length ds \<le> MAX_ORDER" using assms(2) by (simp add: allocated_def)
  let ?l = "path_level ds"
  have l: "?l \<le> MAX_ORDER" by (simp add: path_level_def)
  have hs: "unat (hdr_size h (block_addr ds)) = block_bytes ds" and
    hm: "hdr_magic h (block_addr ds) = HEADER_MAGIC" using assms by (auto simp: heap_inv_def)
  have bs: "hdr_size h (block_addr ds) = 4096 * 2 ^ ?l"
    using hs unat_block_size [OF l] by (simp add: word_unat_eq_iff block_bytes_def)
  have lvl: "level_of_size (4096 * 2 ^ ?l) 4096 0 = Some ?l"
    using level_of_size_spec [of 0 ?l] l by simp
  note ua = unat_block_addr [OF len]
  have off: "block_offset ds < 134217728" using block_bounds [OF len] block_bytes_pos [of ds] by linarith
  have inside: "\<not> block_addr ds < HEAP_START" "\<not> HEAP_END \<le> block_addr ds" "block_addr ds + 8 \<noteq> 0"
    using ua off by (auto simp: word_less_nat_alt word_le_nat_alt word_unat_eq_iff unat_word_ariths)
  have "unat (block_addr ds - HEAP_START) = block_offset ds"
    using ua off by (simp add: unat_sub_if')
  then have "unat ((block_addr ds - HEAP_START) div (4096 * 2 ^ ?l)) = idx ds - 2 ^ length ds"
    using unat_block_size [OF l] by (simp add: unat_div block_offset_def block_bytes_def)
  moreover have "MAX_ORDER - ?l = length ds" using len by (simp add: path_level_def)
  moreover have "2 ^ length ds + (idx ds - 2 ^ length ds) = idx ds" using idx_bounds [of ds] by simp
  moreover have "idx ds < 65536"
  proof -
    have "(2 :: nat) ^ Suc (length ds) \<le> 2 ^ 16" using len by (intro power_increasing) auto
    then show ?thesis using idx_bounds [of ds] by simp
  qed
  moreover have "(4096 * 2 ^ ?l :: u32) \<noteq> 0" using unat_block_size [OF l] by auto
  ultimately show ?thesis
    using inside hm bs lvl l unfolding kfree_def Let_def block_addr_back
    by (simp add: not_le)
qed

lemma kfree_spec:
  assumes "heap_inv h" and "ds \<in> allocated h"
  obtains h' where "kfree (block_addr ds + 8) h = Some h'" "heap_inv h'"
    "allocated h' = allocated h - {ds}"
    "tree h' = merge_loop ((tree h)(idx ds := NODE_FREE)) (idx ds)"
proof -
  let ?T = "(tree h)(idx ds := NODE_FREE)"
  let ?h = "h\<lparr>tree := merge_loop ?T (idx ds), hdr_magic := (hdr_magic h)(block_addr ds := 0),
      heap_total_frees := heap_total_frees h + 1\<rparr>"
  have len: "length ds \<le> MAX_ORDER" and al: "pt (tree h) ds = NODE_ALLOC"
    using assms(2) by (auto simp: allocated_def)
  have tok: "tree_ok (pt (tree h)) [] MAX_ORDER" using assms(1) by (simp add: heap_inv_def)
  have dec: "ctx (pt (tree h)) (MAX_ORDER - length ds) ds"
    "tree_ok (pt (tree h)) ds (MAX_ORDER - length ds)"
    using decompose [OF tok len] al by auto
  then have "below (pt (tree h)) ds (MAX_ORDER - length ds)" using al tree_ok_leaf by blast
  then have "below (pt ?T) ds (MAX_ORDER - length ds)" "pt ?T ds = NODE_FREE" by simp_all
  moreover have "ctx (pt ?T) (MAX_ORDER - length ds) ds" using dec(1) by simp
  ultimately have m: "tree_ok (pt (merge_loop ?T (idx ds))) [] MAX_ORDER"
    "\<forall>es. pt (merge_loop ?T (idx ds)) es = NODE_ALLOC \<longleftrightarrow> pt ?T es = NODE_ALLOC"
    using merge_loop_ok [of ?T "MAX_ORDER - length ds" ds] len by auto
  then have a: "allocated ?h = allocated h - {ds}" by (auto simp: allocated_def)
  have i: "heap_inv ?h"
    unfolding heap_inv_def a
  proof (intro conjI ballI)
    show "tree_ok (pt (tree ?h)) [] MAX_ORDER" using m(1) by simp
    fix es assume es: "es \<in> allocated h - {ds}"
    then have "block_addr es \<noteq> block_addr ds" using block_addr_inj [OF assms(1) _ assms(2)] by auto
    then show "unat (hdr_size ?h (block_addr es)) = block_bytes es"
      and "hdr_magic ?h (block_addr es) = HEADER_MAGIC"
      using es assms(1) by (auto simp: heap_inv_def)
  qed
  show thesis by (rule that [OF kfree_eq [OF assms] i a]) simp
qed

lemma kmalloc_some:
  assumes "heap_inv h" and "kmalloc sz h = (h', p)" and "p \<noteq> 0"
  obtains ds where "p = block_addr ds + 8" "length ds \<le> MAX_ORDER" "ds \<notin> allocated h" "heap_inv h'"
    "allocated h' = insert ds (allocated h)" "unat sz + 8 \<le> block_bytes ds"
    "merge_loop ((tree h')(idx ds := NODE_FREE)) (idx ds) = tree h"
proof (cases rule: kmalloc_cases [OF assms(1), of sz])
  case 1
  then show thesis using assms by simp
next
  case some: (2 ds T)
  then have h': "h' = h\<lparr>tree := T(idx ds := NODE_ALLOC),
          heap_total_allocs := heap_total_allocs h + 1,
          hdr_size := (hdr_size h)(block_addr ds := of_nat (block_bytes ds)),
          hdr_magic := (hdr_magic h)(block_addr ds := HEADER_MAGIC)\<rparr>" "p = block_addr ds + 8"
    using assms(2) by simp_all
  have a: "allocated h' = insert ds (allocated h)"
    using some(2,7) by (auto simp: h'(1) allocated_def)
  have inc: "\<nexists>x. es = x @ ds" "\<nexists>x. ds = x @ es" if "es \<in> allocated h" for es
  proof -
    have e: "es \<noteq> ds" "pt (tree h') es = NODE_ALLOC" "length es \<le> MAX_ORDER"
      using that some(5,7) by (auto simp: h'(1) allocated_def)
    have d: "pt (tree h') ds = NODE_ALLOC" by (simp add: h'(1))
    have t: "tree_ok (pt (tree h')) [] MAX_ORDER" using some(6) by (simp add: h'(1))
    show "\<nexists>x. es = x @ ds" using leaf_below [OF t, of ds] d e by fastforce
    show "\<nexists>x. ds = x @ es" using leaf_below [OF t, of es] d e some(2) by fastforce
  qed
  have ne: "block_addr es \<noteq> block_addr ds" if "es \<in> allocated h" for es
  proof -
    have l: "length es \<le> MAX_ORDER" using that by (simp add: allocated_def)
    from block_disjoint [OF some(2) l inc [OF that]] have "block_offset ds \<noteq> block_offset es"
      using block_bytes_pos [of ds] block_bytes_pos [of es] by linarith
    then show ?thesis using unat_block_addr [OF l] unat_block_addr [OF some(2)] by auto
  qed
  have "unat (of_nat (block_bytes ds) :: u32) = block_bytes ds"
    using unat_block_size [of "path_level ds"] by (simp add: block_bytes_def path_level_def)
  then have "heap_inv h'"
    using assms(1) some(6) ne unfolding heap_inv_def a by (auto simp: h'(1))
  with h' a some show thesis by (intro that) auto
qed

section \<open>The contract of a memory allocator\<close>

text \<open>
  What the clients of the heap rely on: \<open>live\<close> are the pointers handed out and not yet released,
  \<open>room\<close> the bytes usable behind a pointer. A release of a live pointer succeeds.
\<close>

locale memory_allocator =
  fixes inv :: "'s \<Rightarrow> bool" and live :: "'s \<Rightarrow> u32 set"
    and alloc :: "u32 \<Rightarrow> 's \<Rightarrow> 's \<times> u32" and release :: "u32 \<Rightarrow> 's \<Rightarrow> 's option"
  assumes live_nonnull: "inv s \<Longrightarrow> p \<in> live s \<Longrightarrow> p \<noteq> 0"
    and alloc_null: "inv s \<Longrightarrow> alloc n s = (s', 0) \<Longrightarrow> s' = s"
    and alloc_live: "inv s \<Longrightarrow> alloc n s = (s', p) \<Longrightarrow> p \<noteq> 0 \<Longrightarrow>
      inv s' \<and> p \<notin> live s \<and> live s' = insert p (live s)"
    and release_null: "release 0 s = Some s"
    and release_live: "inv s \<Longrightarrow> p \<in> live s \<Longrightarrow>
      \<exists>s'. release p s = Some s' \<and> inv s' \<and> live s' = live s - {p}"
begin

lemma alloc_inv: "inv s \<Longrightarrow> inv (fst (alloc n s))"
  using alloc_null [of s n] alloc_live [of s n] by (cases "alloc n s"; cases "snd (alloc n s) = 0") auto

lemma alloc_release:
  assumes "inv s" and "alloc n s = (s', p)"
  shows "\<exists>s''. release p s' = Some s'' \<and> inv s'' \<and> live s'' = live s"
proof (cases "p = 0")
  case True
  then show ?thesis using alloc_null [of s n s'] release_null assms by auto
next
  case False
  from alloc_live [OF assms False] release_live [of s' p] show ?thesis by auto
qed

text \<open>Releasing a list of distinct live pointers never fails and removes exactly these.\<close>

primrec release_all :: "u32 list \<Rightarrow> 's \<Rightarrow> 's option" where
  "release_all [] s = Some s"
| "release_all (p # ps) s = (case release p s of None \<Rightarrow> None | Some s' \<Rightarrow> release_all ps s')"

lemma release_all_live:
  "inv s \<Longrightarrow> set ps \<subseteq> live s \<Longrightarrow> distinct ps \<Longrightarrow>
   \<exists>s'. release_all ps s = Some s' \<and> inv s' \<and> live s' = live s - set ps"
proof (induction ps arbitrary: s)
  case (Cons p ps)
  then obtain s1 where "release p s = Some s1" "inv s1" "live s1 = live s - {p}"
    using release_live [of s p] by auto
  with Cons show ?case using Cons.IH [of s1] by fastforce
qed simp

end

definition live_pointers :: "heap_state \<Rightarrow> u32 set" where
  "live_pointers h = (\<lambda>ds. block_addr ds + 8) ` allocated h"

lemma block_pointer_nonnull:
  assumes "length ds \<le> MAX_ORDER" shows "block_addr ds + 8 \<noteq> 0"
proof -
  have "block_offset ds < 134217728" using block_bounds [OF assms] block_bytes_pos [of ds] by linarith
  then have "unat (block_addr ds + 8) \<noteq> 0"
    using unat_block_addr [OF assms] by (simp add: unat_word_ariths)
  then show ?thesis by auto
qed

lemma live_pointers_Diff:
  assumes "heap_inv h" and "ds \<in> allocated h"
  shows "(\<lambda>ds. block_addr ds + 8) ` (allocated h - {ds}) = live_pointers h - {block_addr ds + 8}"
  using block_addr_inj [OF assms(1) _ assms(2)] by (auto simp: live_pointers_def)

interpretation heap: memory_allocator heap_inv live_pointers kmalloc kfree
proof
  fix s p assume "heap_inv s" "p \<in> live_pointers s"
  then show "p \<noteq> 0" using block_pointer_nonnull by (auto simp: live_pointers_def allocated_def)
next
  fix s n s' assume a: "heap_inv s" "kmalloc n s = (s', 0)"
  show "s' = s"
    by (rule kmalloc_cases [OF a(1), of n]) (use a(2) block_pointer_nonnull in auto)
next
  fix s n s' p assume a: "heap_inv s" "kmalloc n s = (s', p)" "p \<noteq> 0"
  obtain ds where ds: "p = block_addr ds + 8" "ds \<notin> allocated s" "heap_inv s'"
    "allocated s' = insert ds (allocated s)" using kmalloc_some [OF a] by metis
  then have "block_addr ds \<noteq> block_addr es" if "es \<in> allocated s" for es
    using block_addr_inj [OF ds(3), of ds es] that by auto
  then show "heap_inv s' \<and> p \<notin> live_pointers s \<and> live_pointers s' = insert p (live_pointers s)"
    using ds by (auto simp: live_pointers_def)
next
  show "kfree 0 s = Some s" for s by (simp add: kfree_def)
next
  fix s p assume a: "heap_inv s" "p \<in> live_pointers s"
  then obtain ds where ds: "p = block_addr ds + 8" "ds \<in> allocated s" by (auto simp: live_pointers_def)
  obtain h' where "kfree p s = Some h'" "heap_inv h'" "allocated h' = allocated s - {ds}"
    using kfree_spec [OF a(1) ds(2)] ds(1) by metis
  then show "\<exists>s'. kfree p s = Some s' \<and> heap_inv s' \<and> live_pointers s' = live_pointers s - {p}"
    using live_pointers_Diff [OF a(1) ds(2)] ds(1) by (auto simp: live_pointers_def)
qed

section \<open>Properties\<close>

lemma pt_heap_init: "pt (tree (heap_init h)) = (\<lambda>_. NODE_UNUSED)([] := NODE_FREE)"
  by (auto simp: heap_init_def pt_def fun_eq_iff)

lemma heap_inv_init [simp]: "heap_inv (heap_init h)" and allocated_init [simp]: "allocated (heap_init h) = {}"
proof -
  have b: "below (pt (tree (heap_init h))) ds l" for ds l
    by (induction l arbitrary: ds) (simp_all add: pt_heap_init)
  show a: "allocated (heap_init h) = {}" by (auto simp: allocated_def pt_heap_init)
  have "tree_ok (pt (tree (heap_init h))) [] MAX_ORDER"
  proof -
    have "pt (tree (heap_init h)) [] = NODE_FREE" by (simp add: pt_heap_init)
    then show ?thesis using b tree_ok_leaf by blast
  qed
  then show "heap_inv (heap_init h)" unfolding heap_inv_def a by simp
qed

text \<open>A concrete heap for the witnesses: freshly initialised.\<close>

definition heap_demo :: heap_state where
  "heap_demo = heap_init \<lparr>tree = (\<lambda>_. NODE_UNUSED), heap_total_allocs = 0, heap_total_frees = 0,
     hdr_size = (\<lambda>_. 0), hdr_magic = (\<lambda>_. 0)\<rparr>"

lemma heap_inv_demo [simp]: "heap_inv heap_demo" and allocated_demo [simp]: "allocated heap_demo = {}"
  by (simp_all add: heap_demo_def)

lemma kmalloc_demo_small:
  assumes "n \<noteq> 0" and "unat n + 8 \<le> 4096"
  shows "snd (kmalloc n heap_demo) \<noteq> 0"
proof (cases rule: kmalloc_cases [OF heap_inv_demo, of n])
  case 1
  have "pt (tree heap_demo) [] = NODE_FREE" by (simp add: heap_demo_def pt_heap_init)
  moreover have "\<not> block_bytes [] < unat n + 8"
    using assms by (simp add: block_bytes_def path_level_def)
  ultimately have False using 1(2) assms by auto
  then show ?thesis ..
next
  case (2 ds T)
  then show ?thesis using block_pointer_nonnull by simp
qed

lemma kmalloc_demo: "snd (kmalloc 100 heap_demo) \<noteq> 0"
  by (rule kmalloc_demo_small) simp_all

lemma kmalloc_demo_fails: "snd (kmalloc 0x8000000 heap_demo) = 0"
  by code_simp

text \<open>
  C3. A block \<open>kmalloc\<close> returns is fresh and large enough, and the state stays well-formed: the
  tree gains exactly one allocated block, it has room for the header and the request, lies in the
  heap window, and shares no byte with any block allocated before.
\<close>

theorem kmalloc_fresh_block:
  assumes "heap_inv h" and "kmalloc sz h = (h', p)" and "p \<noteq> 0"
  shows "\<exists>ds. p = block_addr ds + 8 \<and> ds \<notin> allocated h \<and> heap_inv h' \<and>
    allocated h' = insert ds (allocated h) \<and> unat sz + 8 \<le> block_bytes ds \<and>
    block_offset ds + block_bytes ds \<le> unat HEAP_SIZE \<and>
    (\<forall>es \<in> allocated h. block_offset ds + block_bytes ds \<le> block_offset es \<or>
                        block_offset es + block_bytes es \<le> block_offset ds)"
proof -
  obtain ds where ds: "p = block_addr ds + 8" "length ds \<le> MAX_ORDER" "ds \<notin> allocated h" "heap_inv h'"
    "allocated h' = insert ds (allocated h)" "unat sz + 8 \<le> block_bytes ds"
    using kmalloc_some [OF assms] by metis
  then have "block_offset ds + block_bytes ds \<le> block_offset es \<or>
      block_offset es + block_bytes es \<le> block_offset ds" if "es \<in> allocated h" for es
    using allocated_disjoint [OF ds(4), of ds es] that by auto
  then show ?thesis using ds block_bounds [OF ds(2)] by auto
qed

theorem kmalloc_fresh_block_witness:
  "\<exists>ds. snd (kmalloc 100 heap_demo) = block_addr ds + 8 \<and> 108 \<le> block_bytes ds \<and>
        allocated (fst (kmalloc 100 heap_demo)) = {ds}"
  using kmalloc_fresh_block [OF heap_inv_demo prod.collapse [symmetric] kmalloc_demo] by auto

text \<open>
  \<open>kmalloc\<close> fails only when it must: it returns NULL for a zero request, for one that does not
  fit the whole pool with its header, and otherwise exactly when no free block of the tree is large
  enough; the state is then unchanged.
\<close>

theorem kmalloc_complete:
  assumes "heap_inv h" and "kmalloc sz h = (h', 0)"
  shows "h' = h \<and> (sz = 0 \<or> unat HEAP_SIZE < unat sz + 8 \<or>
    (\<forall>ds. length ds \<le> MAX_ORDER \<longrightarrow> pt (tree h) ds = NODE_FREE \<longrightarrow> block_bytes ds < unat sz + 8))"
  by (rule kmalloc_cases [OF assms(1), of sz]) (use assms(2) block_pointer_nonnull in auto)

theorem kmalloc_complete_witness:
  "fst (kmalloc 0x8000000 heap_demo) = heap_demo"
  using kmalloc_complete [OF heap_inv_demo, of "0x8000000" "fst (kmalloc 0x8000000 heap_demo)"]
    kmalloc_demo_fails by (metis prod.collapse)

text \<open>
  C35. Freeing undoes allocating: \<open>kfree\<close> of the pointer just returned succeeds, keeps the invariant
  and restores the buddy tree node for node (all splits are merged back).
\<close>

theorem kfree_kmalloc_restores:
  assumes "heap_inv h" and "kmalloc sz h = (h', p)" and "p \<noteq> 0"
  shows "\<exists>h''. kfree p h' = Some h'' \<and> heap_inv h'' \<and> tree h'' = tree h"
proof -
  obtain ds where ds: "p = block_addr ds + 8" "heap_inv h'" "allocated h' = insert ds (allocated h)"
    "merge_loop ((tree h')(idx ds := NODE_FREE)) (idx ds) = tree h"
    using kmalloc_some [OF assms] by metis
  then have "ds \<in> allocated h'" by simp
  from kfree_spec [OF ds(2) this] ds show ?thesis by metis
qed

theorem kfree_kmalloc_restores_witness:
  "\<exists>h''. kfree (snd (kmalloc 100 heap_demo)) (fst (kmalloc 100 heap_demo)) = Some h'' \<and>
     heap_inv h'' \<and> tree h'' = tree heap_demo"
  using kfree_kmalloc_restores [OF heap_inv_demo prod.collapse [symmetric] kmalloc_demo] .

text \<open>
  Freeing any live block, in any order, removes that block and no other and leaves a fully
  merged, well-formed tree.
\<close>

theorem kfree_live_block:
  assumes "heap_inv h" and "ds \<in> allocated h"
  shows "\<exists>h'. kfree (block_addr ds + 8) h = Some h' \<and> heap_inv h' \<and> allocated h' = allocated h - {ds}"
  using kfree_spec [OF assms] by metis

theorem kfree_live_block_witness:
  "\<exists>h ds h'. heap_inv h \<and> ds \<in> allocated h \<and> kfree (block_addr ds + 8) h = Some h' \<and>
     allocated h' = {}"
proof -
  let ?h = "fst (kmalloc 100 heap_demo)"
  obtain ds where h: "heap_inv ?h" "allocated ?h = {ds}"
    using kmalloc_some [OF heap_inv_demo prod.collapse [symmetric] kmalloc_demo] by auto
  then show ?thesis using kfree_live_block [of ?h ds] by auto
qed

end
