(* ===== verification/Vma.thy ===== *)
theory Vma
  imports Heap
begin

text \<open>
  The virtual memory areas of a task, \<open>vma.c\<close>: a list of \<open>[start, end)\<close> ranges with access flags,
  sorted by address, whose nodes come from the kernel heap. The singly linked list behind
  \<open>task->vma_head\<close> is modelled by the list of its nodes; a node keeps the address \<open>kmalloc\<close> gave it,
  so that every allocation and release of the code is one of the model. The functions are given
  the list of an existing task (the source's test for a NULL task is the caller's). \<open>None\<close> is a
  heap whose block headers have been destroyed (see \<open>kfree\<close>).
\<close>

unbundle bit_operations_syntax

section \<open>State\<close>

abbreviation (input) VMA_READ :: u32 where "VMA_READ \<equiv> 0x01"
abbreviation (input) VMA_WRITE :: u32 where "VMA_WRITE \<equiv> 0x02"
abbreviation (input) VMA_EXEC :: u32 where "VMA_EXEC \<equiv> 0x04"
abbreviation (input) VMA_COW :: u32 where "VMA_COW \<equiv> 0x08"

record vma_node =
  v_addr :: u32
  v_start :: u32
  v_end :: u32
  v_flags :: u32

abbreviation (input) VMA_NODE_SIZE :: u32 where "VMA_NODE_SIZE \<equiv> 16"

type_synonym vmas = "vma_node list"

text \<open>A return code with the heap and the list the operation leaves behind.\<close>

type_synonym vma_result = "(int \<times> heap_state \<times> vmas) option"

definition keep :: "vma_node \<Rightarrow> vma_result \<Rightarrow> vma_result" where
  "keep v r = map_option (\<lambda>(ret, h, vs). (ret, h, v # vs)) r"

section \<open>Lookup\<close>

fun vma_intersects :: "vmas \<Rightarrow> u32 \<Rightarrow> u32 \<Rightarrow> u32 \<Rightarrow> bool" where
  "vma_intersects [] s e ignore_vma = False"
| "vma_intersects (v # vs) s e ignore_vma =
     (if v_addr v = ignore_vma then vma_intersects vs s e ignore_vma
      else if s < v_end v \<and> e > v_start v then True
      else if v_start v \<ge> e then False
      else vma_intersects vs s e ignore_vma)"

fun find_loop :: "u32 \<Rightarrow> vmas \<Rightarrow> vma_node option" where
  "find_loop page_addr [] = None"
| "find_loop page_addr (v # vs) =
     (if page_addr \<ge> v_start v \<and> page_addr < v_end v then Some v
      else if v_start v > page_addr then None
      else find_loop page_addr vs)"

definition vma_find :: "vmas \<Rightarrow> u32 \<Rightarrow> vma_node option" where
  "vma_find vs addr = find_loop (page_down addr) vs"

fun free_area_loop :: "u32 \<Rightarrow> u32 \<Rightarrow> vmas \<Rightarrow> u32" where
  "free_area_loop current_addr sz [] =
     (if current_addr + sz \<le> USER_MMAP_START + USER_MMAP_MAX_SIZE then current_addr else 0)"
| "free_area_loop current_addr sz (v # vs) =
     (if v_end v \<le> USER_MMAP_START then free_area_loop current_addr sz vs
      else if v_start v > current_addr \<and> v_start v - current_addr \<ge> sz then current_addr
      else free_area_loop (v_end v) sz vs)"

definition vma_find_free_area :: "vmas \<Rightarrow> u32 \<Rightarrow> u32" where
  "vma_find_free_area vs sz = free_area_loop USER_MMAP_START sz vs"

section \<open>Insertion\<close>

fun insert_walk :: "vma_node \<Rightarrow> vmas \<Rightarrow> vmas" where
  "insert_walk n [] = [n]"
| "insert_walk n (v # vs) = (if v_start v < v_start n then v # insert_walk n vs else n # v # vs)"

definition vma_insert :: "vma_node \<Rightarrow> vmas \<Rightarrow> vmas" where
  "vma_insert n vs = (case vs of [] \<Rightarrow> [n]
     | v # vs' \<Rightarrow> if v_start v > v_start n then n # vs else v # insert_walk n vs')"

definition vma_add :: "heap_state \<Rightarrow> vmas \<Rightarrow> u32 \<Rightarrow> u32 \<Rightarrow> u32 \<Rightarrow> int \<times> heap_state \<times> vmas" where
  "vma_add h vs s e fl =
     (if s \<ge> KERNEL_SPACE_START \<or> e > KERNEL_SPACE_START then (- EINVAL, h, vs)
      else let (h, p) = kmalloc VMA_NODE_SIZE h
           in if p = 0 then (- ENOMEM, h, vs)
              else (0, h, vma_insert \<lparr>v_addr = p, v_start = page_down s, v_end = page_up e,
                                      v_flags = fl\<rparr> vs))"

section \<open>Removal of a range\<close>

fun vma_unmap_range :: "heap_state \<Rightarrow> vmas \<Rightarrow> u32 \<Rightarrow> u32 \<Rightarrow> vma_result" where
  "vma_unmap_range h [] s e = Some (0, h, [])"
| "vma_unmap_range h (v # vs) s e =
     (if v_end v \<le> s \<or> v_start v \<ge> e then keep v (vma_unmap_range h vs s e)
      else if v_start v \<ge> s \<and> v_end v \<le> e then
        (case kfree (v_addr v) h of None \<Rightarrow> None | Some h \<Rightarrow> vma_unmap_range h vs s e)
      else if s \<le> v_start v \<and> e > v_start v \<and> e < v_end v then
        keep (v\<lparr>v_start := e\<rparr>) (vma_unmap_range h vs s e)
      else if s > v_start v \<and> s < v_end v \<and> e \<ge> v_end v then
        keep (v\<lparr>v_end := s\<rparr>) (vma_unmap_range h vs s e)
      else if s > v_start v \<and> e < v_end v then
        (let (h, p) = kmalloc VMA_NODE_SIZE h
         in if p = 0 then Some (- ENOMEM, h, v # vs)
            else keep (v\<lparr>v_end := s\<rparr>)
                   (keep \<lparr>v_addr = p, v_start = e, v_end = v_end v, v_flags = v_flags v\<rparr>
                     (vma_unmap_range h vs s e)))
      else keep v (vma_unmap_range h vs s e))"

section \<open>Change of the protection of a range\<close>

definition protect_flags :: "u32 \<Rightarrow> u32 \<Rightarrow> u32" where
  "protect_flags new_flags old = (old AND VMA_COW) OR new_flags"

fun vma_protect_range :: "heap_state \<Rightarrow> vmas \<Rightarrow> u32 \<Rightarrow> u32 \<Rightarrow> u32 \<Rightarrow> vma_result" where
  "vma_protect_range h [] s e nf = Some (0, h, [])"
| "vma_protect_range h (v # vs) s e nf =
     (if v_end v \<le> s \<or> v_start v \<ge> e then keep v (vma_protect_range h vs s e nf)
      else if v_start v \<ge> s \<and> v_end v \<le> e then
        keep (v\<lparr>v_flags := protect_flags nf (v_flags v)\<rparr>) (vma_protect_range h vs s e nf)
      else if s \<le> v_start v \<and> e < v_end v then
        (let (h, p) = kmalloc VMA_NODE_SIZE h
         in if p = 0 then Some (- ENOMEM, h, v # vs)
            else keep (v\<lparr>v_end := e, v_flags := protect_flags nf (v_flags v)\<rparr>)
                   (keep \<lparr>v_addr = p, v_start = e, v_end = v_end v, v_flags = v_flags v\<rparr>
                     (vma_protect_range h vs s e nf)))
      else if s > v_start v \<and> e \<ge> v_end v then
        (let (h, p) = kmalloc VMA_NODE_SIZE h
         in if p = 0 then Some (- ENOMEM, h, v # vs)
            else keep (v\<lparr>v_end := s\<rparr>)
                   (keep \<lparr>v_addr = p, v_start = s, v_end = v_end v,
                          v_flags = protect_flags nf (v_flags v)\<rparr>
                     (vma_protect_range h vs s e nf)))
      else if s > v_start v \<and> e < v_end v then
        (let (h, mid) = kmalloc VMA_NODE_SIZE h
         in if mid = 0 then Some (- ENOMEM, h, v # vs)
            else let (h, tail) = kmalloc VMA_NODE_SIZE h
                 in if tail = 0
                    then (case kfree mid h of None \<Rightarrow> None | Some h \<Rightarrow> Some (- ENOMEM, h, v # vs))
                    else keep (v\<lparr>v_end := s\<rparr>)
                      (keep \<lparr>v_addr = mid, v_start = s, v_end = e,
                             v_flags = protect_flags nf (v_flags v)\<rparr>
                        (keep \<lparr>v_addr = tail, v_start = e, v_end = v_end v, v_flags = v_flags v\<rparr>
                          (vma_protect_range h vs s e nf))))
      else keep v (vma_protect_range h vs s e nf))"

section \<open>Destruction and cloning\<close>

fun vma_destroy_all :: "heap_state \<Rightarrow> vmas \<Rightarrow> heap_state option" where
  "vma_destroy_all h [] = Some h"
| "vma_destroy_all h (v # vs) =
     (case kfree (v_addr v) h of None \<Rightarrow> None | Some h \<Rightarrow> vma_destroy_all h vs)"

fun clone_loop :: "heap_state \<Rightarrow> vmas \<Rightarrow> vmas \<Rightarrow> vma_result" where
  "clone_loop h child [] = Some (0, h, child)"
| "clone_loop h child (v # vs) =
     (let (ret, h, child) = vma_add h child (v_start v) (v_end v) (v_flags v)
      in if ret < 0 then
           (case vma_destroy_all h child of None \<Rightarrow> None | Some h \<Rightarrow> Some (- ENOMEM, h, []))
         else clone_loop h child vs)"

definition vma_clone :: "heap_state \<Rightarrow> vmas \<Rightarrow> vma_result" where
  "vma_clone h parent = clone_loop h [] parent"

section \<open>What the list means\<close>

text \<open>The flags of the area an address lies in, the abstract content of the list.\<close>

fun flags_at :: "vmas \<Rightarrow> u32 \<Rightarrow> u32 option" where
  "flags_at [] a = None"
| "flags_at (v # vs) a = (if v_start v \<le> a \<and> a < v_end v then Some (v_flags v) else flags_at vs a)"

text \<open>Non-empty areas in ascending order, from \<open>lo\<close> on, none reaching into kernel space.\<close>

fun chain :: "u32 \<Rightarrow> vmas \<Rightarrow> bool" where
  "chain lo [] \<longleftrightarrow> True"
| "chain lo (v # vs) \<longleftrightarrow> lo \<le> v_start v \<and> v_start v < v_end v \<and> v_end v \<le> KERNEL_SPACE_START \<and>
     chain (v_end v) vs"

definition owned :: "vmas \<Rightarrow> u32 set" where
  "owned vs = v_addr ` set vs"

text \<open>The list and the heap together: the nodes are live heap blocks, each at its own address.\<close>

definition vma_ok :: "heap_state \<Rightarrow> u32 \<Rightarrow> vmas \<Rightarrow> bool" where
  "vma_ok h lo vs \<longleftrightarrow> heap_inv h \<and> chain lo vs \<and> distinct (map v_addr vs) \<and> owned vs \<subseteq> live_pointers h"

text \<open>
  An operation leads from one well-formed list to another and neither leaks nor touches a heap
  block of anybody else.
\<close>

definition vma_step :: "heap_state \<Rightarrow> vmas \<Rightarrow> u32 \<Rightarrow> heap_state \<Rightarrow> vmas \<Rightarrow> bool" where
  "vma_step h vs lo h' vs' \<longleftrightarrow>
     vma_ok h' lo vs' \<and> live_pointers h' - owned vs' = live_pointers h - owned vs"

lemma owned_simps [simp]: "owned [] = {}" "owned (v # vs) = insert (v_addr v) (owned vs)"
  by (simp_all add: owned_def)

lemma chain_mono: "chain lo vs \<Longrightarrow> lo' \<le> lo \<Longrightarrow> chain lo' vs"
  by (cases vs) auto

lemma flags_at_below: "chain lo vs \<Longrightarrow> a < lo \<Longrightarrow> flags_at vs a = None"
proof (induction vs arbitrary: lo)
  case (Cons v vs)
  then have "a < v_start v" "a < v_end v" by auto
  with Cons show ?case by auto
qed simp

lemma vma_ok_tail: "vma_ok h lo (v # vs) \<Longrightarrow> vma_ok h (v_end v) vs"
  by (auto simp: vma_ok_def)

lemma vma_step_refl: "vma_ok h lo vs \<Longrightarrow> vma_step h vs lo h vs"
  by (simp add: vma_step_def)

lemma vma_step_keep:
  assumes "vma_ok h lo (v # vs)" and "vma_step h vs (v_end v) h' vs'"
    and "v_addr v' = v_addr v" and "lo \<le> v_start v'" and "v_start v' < v_end v'" and "v_end v' \<le> v_end v"
  shows "vma_step h (v # vs) lo h' (v' # vs')"
proof -
  have c: "chain (v_end v') vs'" using assms(2,6) chain_mono by (auto simp: vma_step_def vma_ok_def)
  have k: "v_end v' \<le> KERNEL_SPACE_START" using assms(1,6) by (auto simp: vma_ok_def)
  have live: "v_addr v \<in> live_pointers h - owned vs"
    using assms(1) by (auto simp: vma_ok_def owned_def)
  then have "v_addr v \<in> live_pointers h'" "v_addr v \<notin> owned vs'"
    using assms(2) by (auto simp: vma_step_def)
  then show ?thesis using assms c k by (auto simp: vma_step_def vma_ok_def owned_def)
qed

lemma kmalloc_node:
  assumes "vma_ok h lo vs" and "kmalloc n h = (h1, p)" and "p \<noteq> 0"
  shows "vma_ok h1 lo vs" and "p \<notin> live_pointers h" and "p \<notin> owned vs"
    and "live_pointers h1 = insert p (live_pointers h)"
  using heap.alloc_live [of h n h1 p] assms by (auto simp: vma_ok_def)

text \<open>A fresh node put in front of the rest of the list.\<close>

lemma vma_step_new:
  assumes "vma_ok h lo vs" and "kmalloc n h = (h1, p)" and "p \<noteq> 0"
    and "vma_step h1 vs hi h' vs'" and "v_addr v = p" and "lo \<le> v_start v" and "v_start v < v_end v"
    and "v_end v \<le> hi" and "hi \<le> KERNEL_SPACE_START"
  shows "vma_step h vs lo h' (v # vs')"
proof -
  note k = kmalloc_node [OF assms(1-3)]
  have "p \<in> live_pointers h1 - owned vs" using k by auto
  then have "p \<in> live_pointers h'" "p \<notin> owned vs'" using assms(4) by (auto simp: vma_step_def)
  moreover have "chain (v_end v) vs'" using assms(4,8) chain_mono by (auto simp: vma_step_def vma_ok_def)
  moreover have "live_pointers h' - owned vs' = insert p (live_pointers h - owned vs)"
    using assms(4) k by (auto simp: vma_step_def)
  ultimately show ?thesis
    using assms k by (auto simp: vma_step_def vma_ok_def owned_def)
qed

lemma vma_step_drop:
  assumes "vma_ok h lo (v # vs)" and "kfree (v_addr v) h = Some h1" and "heap_inv h1"
    and "live_pointers h1 = live_pointers h - {v_addr v}" and "vma_step h1 vs (v_end v) h' vs'"
  shows "vma_step h (v # vs) lo h' vs'"
proof -
  have "lo \<le> v_end v" using assms(1) by (auto simp: vma_ok_def)
  then have "chain lo vs'" using assms(5) chain_mono by (auto simp: vma_step_def vma_ok_def)
  then show ?thesis using assms by (auto simp: vma_step_def vma_ok_def)
qed

lemma kfree_node:
  assumes "vma_ok h lo (v # vs)"
  obtains h1 where "kfree (v_addr v) h = Some h1" "heap_inv h1"
    "live_pointers h1 = live_pointers h - {v_addr v}" "vma_ok h1 (v_end v) vs"
proof -
  have v: "heap_inv h" "v_addr v \<in> live_pointers h" using assms by (auto simp: vma_ok_def)
  from heap.release_live [OF v] obtain h1 where h1: "kfree (v_addr v) h = Some h1" "heap_inv h1"
    "live_pointers h1 = live_pointers h - {v_addr v}" by blast
  moreover have "v_addr v \<notin> owned vs" using assms by (simp add: vma_ok_def owned_def)
  then have "vma_ok h1 (v_end v) vs" using assms h1 by (simp add: vma_ok_def) blast
  ultimately show thesis by (rule that)
qed

section \<open>Unmapping\<close>

lemma vma_unmap_spec:
  assumes "vma_ok h lo vs" and "s \<le> e"
  shows "\<exists>ret h' vs'. vma_unmap_range h vs s e = Some (ret, h', vs') \<and>
    (s \<le> lo \<longrightarrow> ret = 0) \<and>
    (ret \<noteq> 0 \<longrightarrow> ret = - ENOMEM \<and> h' = h \<and> vs' = vs) \<and>
    (ret = 0 \<longrightarrow> vma_step h vs lo h' vs' \<and>
       (\<forall>a. flags_at vs' a = (if s \<le> a \<and> a < e then None else flags_at vs a)))"
  using assms(1)
proof (induction vs arbitrary: h lo)
  case Nil
  then show ?case using vma_step_refl by auto
next
  case (Cons v vs)
  let ?v1 = "v\<lparr>v_end := s\<rparr>" and ?v2 = "v\<lparr>v_start := e\<rparr>"
  have tail: "vma_ok h (v_end v) vs" using Cons.prems by (rule vma_ok_tail)
  have rng: "lo \<le> v_start v" "v_start v < v_end v" "v_end v \<le> KERNEL_SPACE_START" "chain (v_end v) vs"
    using Cons.prems by (auto simp: vma_ok_def)
  have out: "flags_at vs a = None" if "a < v_end v" for a
    using flags_at_below [OF rng(4) that] .
  consider (apart) "v_end v \<le> s \<or> v_start v \<ge> e"
    | (inside) "v_start v \<ge> s" "v_end v \<le> e" "\<not> (v_end v \<le> s \<or> v_start v \<ge> e)"
    | (front) "s \<le> v_start v" "e > v_start v" "e < v_end v"
    | (rear) "s > v_start v" "s < v_end v" "e \<ge> v_end v"
    | (middle) "s > v_start v" "e < v_end v" "s < v_end v" "e > v_start v"
    by atomize_elim (auto simp: word_le_nat_alt word_less_nat_alt)
  then show ?case
  proof cases
    case apart
    from Cons.IH [OF tail] obtain ret h' vs' where r: "vma_unmap_range h vs s e = Some (ret, h', vs')"
      "s \<le> v_end v \<longrightarrow> ret = 0" "ret \<noteq> 0 \<longrightarrow> ret = - ENOMEM \<and> h' = h \<and> vs' = vs"
      "ret = 0 \<longrightarrow> vma_step h vs (v_end v) h' vs' \<and>
       (\<forall>a. flags_at vs' a = (if s \<le> a \<and> a < e then None else flags_at vs a))" by metis
    have "s \<le> lo \<Longrightarrow> s \<le> v_end v" using rng by order
    moreover have "ret = 0 \<Longrightarrow> vma_step h (v # vs) lo h' (v # vs')"
      using vma_step_keep [OF Cons.prems, of h' vs' v] r(4) rng by auto
    moreover have "ret = 0 \<Longrightarrow> flags_at (v # vs') a =
        (if s \<le> a \<and> a < e then None else flags_at (v # vs) a)" for a
      using r(4) apart by auto
    ultimately show ?thesis using r apart by (auto simp: keep_def)
  next
    case inside
    obtain h1 where h1: "kfree (v_addr v) h = Some h1" "heap_inv h1"
      "live_pointers h1 = live_pointers h - {v_addr v}" "vma_ok h1 (v_end v) vs"
      using kfree_node [OF Cons.prems] .
    have "s \<le> v_end v" using inside rng by order
    with Cons.IH [OF h1(4)] obtain h' vs' where r: "vma_unmap_range h1 vs s e = Some (0, h', vs')"
      "vma_step h1 vs (v_end v) h' vs'"
      "\<forall>a. flags_at vs' a = (if s \<le> a \<and> a < e then None else flags_at vs a)" by metis
    have "flags_at vs' a = (if s \<le> a \<and> a < e then None else flags_at (v # vs) a)" for a
      using r(3) inside by auto
    then show ?thesis
      using r h1 inside vma_step_drop [OF Cons.prems h1(1,2,3) r(2)] by auto
  next
    case front
    have "s \<le> v_end v" using front rng by order
    with Cons.IH [OF tail] obtain h' vs' where r: "vma_unmap_range h vs s e = Some (0, h', vs')"
      "vma_step h vs (v_end v) h' vs'"
      "\<forall>a. flags_at vs' a = (if s \<le> a \<and> a < e then None else flags_at vs a)" by metis
    have "vma_step h (v # vs) lo h' (?v2 # vs')"
      using front rng by (intro vma_step_keep [OF Cons.prems r(2)]) auto
    moreover have "flags_at (?v2 # vs') a =
        (if s \<le> a \<and> a < e then None else flags_at (v # vs) a)" for a
      using r(3) front out [of a] by auto
    ultimately show ?thesis using r front by (auto simp: keep_def)
  next
    case rear
    have "s \<le> v_end v" using rear by order
    with Cons.IH [OF tail] obtain h' vs' where r: "vma_unmap_range h vs s e = Some (0, h', vs')"
      "vma_step h vs (v_end v) h' vs'"
      "\<forall>a. flags_at vs' a = (if s \<le> a \<and> a < e then None else flags_at vs a)" by metis
    have "vma_step h (v # vs) lo h' (?v1 # vs')"
      using rear rng by (intro vma_step_keep [OF Cons.prems r(2)]) auto
    moreover have "flags_at (?v1 # vs') a =
        (if s \<le> a \<and> a < e then None else flags_at (v # vs) a)" for a
      using r(3) rear out [of a] by auto
    ultimately show ?thesis using r rear by (auto simp: keep_def)
  next
    case middle
    obtain h1 p where k: "kmalloc VMA_NODE_SIZE h = (h1, p)" by (cases "kmalloc VMA_NODE_SIZE h")
    show ?thesis
    proof (cases "p = 0")
      case True
      then have "h1 = h" using heap.alloc_null [of h VMA_NODE_SIZE h1] k Cons.prems by (auto simp: vma_ok_def)
      moreover have "\<not> s \<le> lo" using middle rng by order
      ultimately show ?thesis using True k middle by auto
    next
      case False
      let ?n = "\<lparr>v_addr = p, v_start = e, v_end = v_end v, v_flags = v_flags v\<rparr>"
      note k1 = kmalloc_node [OF tail k False]
      have "s \<le> v_end v" using middle assms(2) by order
      with Cons.IH [OF k1(1)] obtain h' vs' where r: "vma_unmap_range h1 vs s e = Some (0, h', vs')"
        "vma_step h1 vs (v_end v) h' vs'"
        "\<forall>a. flags_at vs' a = (if s \<le> a \<and> a < e then None else flags_at vs a)" by metis
      have se: "s \<le> e" by (rule assms(2))
      have ok: "vma_ok h s vs" using tail \<open>s \<le> v_end v\<close> chain_mono by (auto simp: vma_ok_def)
      have "vma_step h vs s h' (?n # vs')"
        using middle rng se by (intro vma_step_new [OF ok k False r(2)]) auto
      moreover have okv: "vma_ok h lo (?v1 # vs)"
        using Cons.prems middle rng chain_mono by (auto simp: vma_ok_def)
      ultimately have "vma_step h (?v1 # vs) lo h' (?v1 # ?n # vs')"
        using middle rng by (intro vma_step_keep [OF okv]) auto
      then have "vma_step h (v # vs) lo h' (?v1 # ?n # vs')" by (simp add: vma_step_def)
      moreover have "flags_at (?v1 # ?n # vs') a =
          (if s \<le> a \<and> a < e then None else flags_at (v # vs) a)" for a
        using r(3) middle out [of a] se by auto
      ultimately show ?thesis using r k False middle by (auto simp: keep_def)
    qed
  qed
qed

section \<open>Changing protection\<close>

lemma vma_ok_mid: "vma_ok h lo vs \<Longrightarrow> x \<le> lo \<Longrightarrow> vma_ok h x vs"
  using chain_mono by (auto simp: vma_ok_def)

lemma vma_step_cut:
  assumes "vma_ok h lo (v # vs)" and "vma_step h vs m h' vs'" and "v_addr v' = v_addr v"
    and "lo \<le> v_start v'" and "v_start v' < v_end v'" and "v_end v' \<le> m" and "m \<le> v_end v"
  shows "vma_step h (v # vs) lo h' (v' # vs')"
proof -
  have live: "v_addr v \<in> live_pointers h - owned vs"
    using assms(1) by (auto simp: vma_ok_def owned_def)
  then have "v_addr v \<in> live_pointers h'" "v_addr v \<notin> owned vs'"
    using assms(2) by (auto simp: vma_step_def)
  moreover have "chain (v_end v') vs'" using assms(2,6) chain_mono by (auto simp: vma_step_def vma_ok_def)
  moreover have "v_end v' \<le> KERNEL_SPACE_START" using assms(1,6,7) by (auto simp: vma_ok_def)
  ultimately show ?thesis using assms by (auto simp: vma_step_def vma_ok_def owned_def)
qed

lemma kmalloc_node_fail:
  "vma_ok h lo vs \<Longrightarrow> kmalloc n h = (h1, 0) \<Longrightarrow> h1 = h"
  using heap.alloc_null by (auto simp: vma_ok_def)

lemma vma_protect_spec:
  assumes "vma_ok h lo vs" and "s < e"
  shows "\<exists>ret h' vs'. vma_protect_range h vs s e nf = Some (ret, h', vs') \<and>
    vma_step h vs lo h' vs' \<and> (ret = 0 \<or> ret = - ENOMEM) \<and>
    (\<forall>a. flags_at vs' a = None \<longleftrightarrow> flags_at vs a = None) \<and>
    (ret = 0 \<longrightarrow> (\<forall>a. flags_at vs' a =
       map_option (if s \<le> a \<and> a < e then protect_flags nf else id) (flags_at vs a)))"
  using assms(1)
proof (induction vs arbitrary: h lo)
  case Nil
  then show ?case using vma_step_refl by auto
next
  case (Cons v vs)
  have tail: "vma_ok h (v_end v) vs" using Cons.prems by (rule vma_ok_tail)
  have rng: "lo \<le> v_start v" "v_start v < v_end v" "v_end v \<le> KERNEL_SPACE_START" "chain (v_end v) vs"
    using Cons.prems by (auto simp: vma_ok_def)
  have out: "flags_at vs a = None" if "a < v_end v" for a
    using flags_at_below [OF rng(4) that] .
  have finish: ?case if "vma_protect_range h (v # vs) s e nf = Some (ret, h', vs')"
    "vma_step h (v # vs) lo h' vs'" "ret = 0 \<or> ret = - ENOMEM"
    "\<And>a. ret = 0 \<Longrightarrow> flags_at vs' a =
       map_option (if s \<le> a \<and> a < e then protect_flags nf else id) (flags_at (v # vs) a)"
    "\<And>a. flags_at vs' a = None \<longleftrightarrow> flags_at (v # vs) a = None" for ret h' vs'
    using that by blast
  have fail: ?case if "vma_protect_range h (v # vs) s e nf = Some (- ENOMEM, h', v # vs)"
    "vma_step h (v # vs) lo h' (v # vs)" for h' using that by auto
  consider (apart) "v_end v \<le> s \<or> v_start v \<ge> e"
    | (inside) "v_start v \<ge> s" "v_end v \<le> e" "\<not> (v_end v \<le> s \<or> v_start v \<ge> e)"
    | (front) "s \<le> v_start v" "e > v_start v" "e < v_end v" "s < v_end v"
    | (rear) "s > v_start v" "s < v_end v" "e \<ge> v_end v"
    | (middle) "s > v_start v" "e < v_end v" "s < v_end v" "e > v_start v"
    by atomize_elim (auto simp: word_le_nat_alt word_less_nat_alt)
  then show ?case
  proof cases
    case apart
    from Cons.IH [OF tail] obtain ret h' vs' where r: "vma_protect_range h vs s e nf = Some (ret, h', vs')"
      "vma_step h vs (v_end v) h' vs'" "ret = 0 \<or> ret = - ENOMEM"
      "\<forall>a. flags_at vs' a = None \<longleftrightarrow> flags_at vs a = None"
      "ret = 0 \<longrightarrow> (\<forall>a. flags_at vs' a =
         map_option (if s \<le> a \<and> a < e then protect_flags nf else id) (flags_at vs a))" by blast
    have st: "vma_step h (v # vs) lo h' (v # vs')" using rng by (intro vma_step_keep [OF Cons.prems r(2)]) auto
    have fl: "ret = 0 \<Longrightarrow> flags_at (v # vs') a =
        map_option (if s \<le> a \<and> a < e then protect_flags nf else id) (flags_at (v # vs) a)" for a
      using r(5) apart by auto
    have no: "flags_at (v # vs') a = None \<longleftrightarrow> flags_at (v # vs) a = None" for a using r(4) by auto
    show ?thesis by (rule finish [OF _ st r(3) fl no]) (use r(1) apart in \<open>auto simp: keep_def\<close>)
  next
    case inside
    let ?v = "v\<lparr>v_flags := protect_flags nf (v_flags v)\<rparr>"
    from Cons.IH [OF tail] obtain ret h' vs' where r: "vma_protect_range h vs s e nf = Some (ret, h', vs')"
      "vma_step h vs (v_end v) h' vs'" "ret = 0 \<or> ret = - ENOMEM"
      "\<forall>a. flags_at vs' a = None \<longleftrightarrow> flags_at vs a = None"
      "ret = 0 \<longrightarrow> (\<forall>a. flags_at vs' a =
         map_option (if s \<le> a \<and> a < e then protect_flags nf else id) (flags_at vs a))" by blast
    have st: "vma_step h (v # vs) lo h' (?v # vs')" using rng by (intro vma_step_keep [OF Cons.prems r(2)]) auto
    have fl: "ret = 0 \<Longrightarrow> flags_at (?v # vs') a =
        map_option (if s \<le> a \<and> a < e then protect_flags nf else id) (flags_at (v # vs) a)" for a
      using r(5) inside by auto
    have no: "flags_at (?v # vs') a = None \<longleftrightarrow> flags_at (v # vs) a = None" for a using r(4) by auto
    show ?thesis by (rule finish [OF _ st r(3) fl no]) (use r(1) inside in \<open>auto simp: keep_def\<close>)
  next
    case front
    obtain h1 p where k: "kmalloc VMA_NODE_SIZE h = (h1, p)" by (cases "kmalloc VMA_NODE_SIZE h")
    let ?v = "v\<lparr>v_end := e, v_flags := protect_flags nf (v_flags v)\<rparr>"
    let ?n = "\<lparr>v_addr = p, v_start = e, v_end = v_end v, v_flags = v_flags v\<rparr>"
    have eq: "vma_protect_range h (v # vs) s e nf = (if p = 0 then Some (- ENOMEM, h1, v # vs)
        else keep ?v (keep ?n (vma_protect_range h1 vs s e nf)))"
      using front k by auto
    show ?thesis
    proof (cases "p = 0")
      case True
      then show ?thesis using fail [of h] eq kmalloc_node_fail [OF tail, of VMA_NODE_SIZE h1] k
          vma_step_refl [OF Cons.prems] by simp
    next
      case False
      from Cons.IH [OF kmalloc_node(1) [OF tail k False]] obtain ret h' vs' where
        r: "vma_protect_range h1 vs s e nf = Some (ret, h', vs')"
        "vma_step h1 vs (v_end v) h' vs'" "ret = 0 \<or> ret = - ENOMEM"
        "\<forall>a. flags_at vs' a = None \<longleftrightarrow> flags_at vs a = None"
        "ret = 0 \<longrightarrow> (\<forall>a. flags_at vs' a =
           map_option (if s \<le> a \<and> a < e then protect_flags nf else id) (flags_at vs a))" by blast
      have "vma_step h vs e h' (?n # vs')"
        using front rng by (intro vma_step_new [OF vma_ok_mid [OF tail] k False r(2)]) auto
      then have st: "vma_step h (v # vs) lo h' (?v # ?n # vs')"
        using front rng by (intro vma_step_cut [OF Cons.prems]) auto
      have fl: "ret = 0 \<Longrightarrow> flags_at (?v # ?n # vs') a =
          map_option (if s \<le> a \<and> a < e then protect_flags nf else id) (flags_at (v # vs) a)" for a
        using r(5) front out [of a] by auto
      have no: "flags_at (?v # ?n # vs') a = None \<longleftrightarrow> flags_at (v # vs) a = None" for a
        using r(4) front by auto
      show ?thesis by (rule finish [OF _ st r(3) fl no]) (simp add: eq keep_def r(1) False del: vma_protect_range.simps)
    qed
  next
    case rear
    obtain h1 p where k: "kmalloc VMA_NODE_SIZE h = (h1, p)" by (cases "kmalloc VMA_NODE_SIZE h")
    let ?v = "v\<lparr>v_end := s\<rparr>"
    let ?n = "\<lparr>v_addr = p, v_start = s, v_end = v_end v, v_flags = protect_flags nf (v_flags v)\<rparr>"
    have eq: "vma_protect_range h (v # vs) s e nf = (if p = 0 then Some (- ENOMEM, h1, v # vs)
        else keep ?v (keep ?n (vma_protect_range h1 vs s e nf)))"
      using rear k assms(2) by auto
    show ?thesis
    proof (cases "p = 0")
      case True
      then show ?thesis using fail [of h] eq kmalloc_node_fail [OF tail, of VMA_NODE_SIZE h1] k
          vma_step_refl [OF Cons.prems] by simp
    next
      case False
      from Cons.IH [OF kmalloc_node(1) [OF tail k False]] obtain ret h' vs' where
        r: "vma_protect_range h1 vs s e nf = Some (ret, h', vs')"
        "vma_step h1 vs (v_end v) h' vs'" "ret = 0 \<or> ret = - ENOMEM"
        "\<forall>a. flags_at vs' a = None \<longleftrightarrow> flags_at vs a = None"
        "ret = 0 \<longrightarrow> (\<forall>a. flags_at vs' a =
           map_option (if s \<le> a \<and> a < e then protect_flags nf else id) (flags_at vs a))" by blast
      have "vma_step h vs s h' (?n # vs')"
        using rear rng by (intro vma_step_new [OF vma_ok_mid [OF tail] k False r(2)]) auto
      then have st: "vma_step h (v # vs) lo h' (?v # ?n # vs')"
        using rear rng by (intro vma_step_cut [OF Cons.prems]) auto
      have fl: "ret = 0 \<Longrightarrow> flags_at (?v # ?n # vs') a =
          map_option (if s \<le> a \<and> a < e then protect_flags nf else id) (flags_at (v # vs) a)" for a
        using r(5) rear out [of a] by auto
      have no: "flags_at (?v # ?n # vs') a = None \<longleftrightarrow> flags_at (v # vs) a = None" for a
        using r(4) rear by auto
      show ?thesis by (rule finish [OF _ st r(3) fl no]) (simp add: eq keep_def r(1) False del: vma_protect_range.simps)
    qed
  next
    case middle
    obtain h1 p where k: "kmalloc VMA_NODE_SIZE h = (h1, p)" by (cases "kmalloc VMA_NODE_SIZE h")
    obtain h2 q where k2: "kmalloc VMA_NODE_SIZE h1 = (h2, q)" by (cases "kmalloc VMA_NODE_SIZE h1")
    let ?v = "v\<lparr>v_end := s\<rparr>"
    let ?m = "\<lparr>v_addr = p, v_start = s, v_end = e, v_flags = protect_flags nf (v_flags v)\<rparr>"
    let ?n = "\<lparr>v_addr = q, v_start = e, v_end = v_end v, v_flags = v_flags v\<rparr>"
    have eq: "vma_protect_range h (v # vs) s e nf = (if p = 0 then Some (- ENOMEM, h1, v # vs)
        else if q = 0 then (case kfree p h2 of None \<Rightarrow> None | Some h \<Rightarrow> Some (- ENOMEM, h, v # vs))
        else keep ?v (keep ?m (keep ?n (vma_protect_range h2 vs s e nf))))"
      using middle k k2 assms(2) by auto
    show ?thesis
    proof (cases "p = 0")
      case True
      then show ?thesis using fail [of h] eq kmalloc_node_fail [OF tail, of VMA_NODE_SIZE h1] k
          vma_step_refl [OF Cons.prems] by simp
    next
      case p: False
      note k1 = kmalloc_node [OF tail k p]
      show ?thesis
      proof (cases "q = 0")
        case True
        then have "h2 = h1" using kmalloc_node_fail [OF k1(1)] k2 by simp
        moreover obtain h3 where h3: "kfree p h1 = Some h3" "heap_inv h3" "live_pointers h3 = live_pointers h"
          using heap.alloc_release [OF _ k] Cons.prems by (auto simp: vma_ok_def)
        moreover have "vma_step h (v # vs) lo h3 (v # vs)"
          using Cons.prems h3 by (auto simp: vma_step_def vma_ok_def)
        ultimately show ?thesis using fail [of h3] eq p True by simp
      next
        case False
        from Cons.IH [OF kmalloc_node(1) [OF k1(1) k2 False]] obtain ret h' vs' where
          r: "vma_protect_range h2 vs s e nf = Some (ret, h', vs')"
          "vma_step h2 vs (v_end v) h' vs'" "ret = 0 \<or> ret = - ENOMEM"
          "\<forall>a. flags_at vs' a = None \<longleftrightarrow> flags_at vs a = None"
          "ret = 0 \<longrightarrow> (\<forall>a. flags_at vs' a =
             map_option (if s \<le> a \<and> a < e then protect_flags nf else id) (flags_at vs a))" by blast
        have "vma_step h1 vs e h' (?n # vs')"
          using middle rng by (intro vma_step_new [OF vma_ok_mid [OF k1(1)] k2 False r(2)]) auto
        then have "vma_step h vs s h' (?m # ?n # vs')"
          using middle rng assms(2) by (intro vma_step_new [OF vma_ok_mid [OF tail] k p, where hi = e]) auto
        then have st: "vma_step h (v # vs) lo h' (?v # ?m # ?n # vs')"
          using middle rng by (intro vma_step_cut [OF Cons.prems]) auto
        have fl: "ret = 0 \<Longrightarrow> flags_at (?v # ?m # ?n # vs') a =
            map_option (if s \<le> a \<and> a < e then protect_flags nf else id) (flags_at (v # vs) a)" for a
          using r(5) middle out [of a] assms(2) by auto
        have no: "flags_at (?v # ?m # ?n # vs') a = None \<longleftrightarrow> flags_at (v # vs) a = None" for a
          using r(4) middle assms(2) by auto
        show ?thesis by (rule finish [OF _ st r(3) fl no]) (simp add: eq keep_def r(1) p False del: vma_protect_range.simps)
      qed
    qed
  qed
qed

section \<open>Lookup and search against the content\<close>

definition apart :: "u32 \<Rightarrow> u32 \<Rightarrow> vma_node \<Rightarrow> bool" where
  "apart s e v \<longleftrightarrow> v_end v \<le> s \<or> e \<le> v_start v"

lemma chain_apart: "chain lo vs \<Longrightarrow> e \<le> lo \<Longrightarrow> v \<in> set vs \<Longrightarrow> e \<le> v_start v"
proof (induction vs arbitrary: lo)
  case (Cons w vs)
  have "e \<le> v_end w" "e \<le> v_start w" using Cons.prems by auto
  then show ?case using Cons by auto
qed simp

lemma chain_bounds:
  "chain lo vs \<Longrightarrow> v \<in> set vs \<Longrightarrow> lo \<le> v_start v \<and> v_start v < v_end v \<and> v_end v \<le> KERNEL_SPACE_START"
proof (induction vs arbitrary: lo)
  case (Cons w vs)
  show ?case
  proof (cases "v = w")
    case False
    then have "v_end w \<le> v_start v \<and> v_start v < v_end v \<and> v_end v \<le> KERNEL_SPACE_START"
      using Cons by auto
    then show ?thesis using Cons.prems by auto
  qed (use Cons.prems in auto)
qed simp

lemma vma_intersects_iff:
  "chain lo vs \<Longrightarrow> 0 \<notin> owned vs \<Longrightarrow> vma_intersects vs s e 0 \<longleftrightarrow> (\<exists>v \<in> set vs. \<not> apart s e v)"
proof (induction vs arbitrary: lo)
  case (Cons v vs)
  have IH: "vma_intersects vs s e 0 \<longleftrightarrow> (\<exists>v \<in> set vs. \<not> apart s e v)" using Cons by auto
  show ?case
  proof (cases "e \<le> v_start v")
    case True
    have c: "chain (v_end v) vs" "v_start v < v_end v" using Cons.prems(1) by auto
    then have "e \<le> v_end v" using True by auto
    then have "apart s e w" if "w \<in> set vs" for w
      using chain_apart [OF c(1)] that by (auto simp: apart_def)
    then show ?thesis using Cons.prems True by (auto simp: apart_def)
  next
    case False
    then show ?thesis using Cons.prems IH by (auto simp: apart_def)
  qed
qed simp

lemma flags_at_apart:
  "chain lo vs \<Longrightarrow> s < e \<Longrightarrow> (\<forall>v \<in> set vs. apart s e v) \<longleftrightarrow> (\<forall>a. s \<le> a \<and> a < e \<longrightarrow> flags_at vs a = None)"
proof (induction vs arbitrary: lo)
  case (Cons v vs)
  have v: "v_start v < v_end v" "chain (v_end v) vs" using Cons.prems by auto
  note IH = Cons.IH [OF v(2) Cons.prems(2)]
  show ?case
  proof
    assume "\<forall>w\<in>set (v # vs). apart s e w"
    then show "\<forall>a. s \<le> a \<and> a < e \<longrightarrow> flags_at (v # vs) a = None"
      using IH by (auto simp: apart_def)
  next
    assume n: "\<forall>a. s \<le> a \<and> a < e \<longrightarrow> flags_at (v # vs) a = None"
    have "apart s e v"
    proof (rule ccontr)
      assume "\<not> apart s e v"
      then have "s \<le> max s (v_start v) \<and> max s (v_start v) < e \<and>
          v_start v \<le> max s (v_start v) \<and> max s (v_start v) < v_end v"
        using v(1) Cons.prems(2) by (auto simp: apart_def max_def)
      then show False using n by (metis flags_at.simps(2) option.distinct(1))
    qed
    moreover have "\<forall>a. s \<le> a \<and> a < e \<longrightarrow> flags_at vs a = None"
      using n by (metis flags_at.simps(2) option.distinct(1))
    ultimately show "\<forall>w\<in>set (v # vs). apart s e w" using IH by simp
  qed
qed simp

lemma find_loop_some:
  "find_loop a vs = Some v \<Longrightarrow> v \<in> set vs \<and> v_start v \<le> a \<and> a < v_end v"
  by (induction a vs rule: find_loop.induct) (auto split: if_splits)

lemma find_loop_flags:
  "chain lo vs \<Longrightarrow> map_option v_flags (find_loop a vs) = flags_at vs a"
proof (induction vs arbitrary: lo)
  case (Cons v vs)
  have c: "chain (v_end v) vs" using Cons.prems by simp
  have "flags_at vs a = None" if "a < v_start v"
    using flags_at_below [OF c, of a] Cons.prems that by auto
  then show ?case using Cons.IH [OF c] by auto
qed simp

lemma free_area_loop_spec:
  "chain lo vs \<Longrightarrow> free_area_loop cur sz vs = r \<Longrightarrow> r \<noteq> 0 \<Longrightarrow> USER_MMAP_START \<le> cur \<Longrightarrow>
   cur = USER_MMAP_START \<or> cur \<le> lo \<Longrightarrow>
   cur \<le> r \<and> (\<forall>v \<in> set vs. v_end v \<le> r \<or> uint r + uint sz \<le> uint (v_start v))"
proof (induction vs arbitrary: lo cur)
  case Nil
  then show ?case by (auto split: if_splits)
next
  case (Cons v vs)
  have v: "lo \<le> v_start v" "v_start v < v_end v" "chain (v_end v) vs" using Cons.prems by auto
  consider (low) "v_end v \<le> USER_MMAP_START"
    | (hole) "USER_MMAP_START < v_end v" "v_start v > cur" "v_start v - cur \<ge> sz"
    | (skip) "USER_MMAP_START < v_end v" "\<not> (v_start v > cur \<and> v_start v - cur \<ge> sz)"
    by atomize_elim auto
  then show ?case
  proof cases
    case low
    then have "cur \<le> r \<and> (\<forall>v \<in> set vs. v_end v \<le> r \<or> uint r + uint sz \<le> uint (v_start v))"
      using Cons.IH [OF v(3), of cur] Cons.prems v by auto
    moreover have "v_end v \<le> r" using low Cons.prems(4) calculation by auto
    ultimately show ?thesis by auto
  next
    case hole
    then have r: "r = cur" using Cons.prems(2) by auto
    have "uint (v_start v - cur) = uint (v_start v) - uint cur"
      using hole(2) by (simp add: uint_sub_if' word_less_def)
    then have le: "uint r + uint sz \<le> uint (v_start v)" using hole(3) r by (simp add: word_le_def)
    have "v_start v \<le> v_start w" if "w \<in> set vs" for w
      using chain_apart [OF v(3), of "v_start v" w] v(2) that by auto
    then show ?thesis using le r by (fastforce simp: word_le_def)
  next
    case skip
    then have "free_area_loop (v_end v) sz vs = r" using Cons.prems(2) by auto
    then have "v_end v \<le> r \<and> (\<forall>v \<in> set vs. v_end v \<le> r \<or> uint r + uint sz \<le> uint (v_start v))"
      using Cons.IH [OF v(3), of "v_end v"] Cons.prems skip by auto
    moreover have "cur \<le> v_end v" using Cons.prems(5) v skip by auto
    ultimately show ?thesis by auto
  qed
qed

section \<open>Insertion, destruction, cloning\<close>

lemma insert_walk_chain:
  "chain lo vs \<Longrightarrow> \<forall>v \<in> set vs. apart (v_start n) (v_end n) v \<Longrightarrow> lo \<le> v_start n \<Longrightarrow>
   v_start n < v_end n \<Longrightarrow> v_end n \<le> KERNEL_SPACE_START \<Longrightarrow> chain lo (insert_walk n vs)"
proof (induction vs arbitrary: lo)
  case (Cons v vs)
  show ?case
  proof (cases "v_start v < v_start n")
    case True
    then have "v_end v \<le> v_start n" using Cons.prems by (auto simp: apart_def)
    then show ?thesis using True Cons by auto
  next
    case False
    then have "v_end n \<le> v_start v" using Cons.prems by (auto simp: apart_def)
    then show ?thesis using False Cons.prems by auto
  qed
qed simp

lemma insert_walk_flags:
  "\<forall>v \<in> set vs. apart (v_start n) (v_end n) v \<Longrightarrow> flags_at (insert_walk n vs) a =
     (if v_start n \<le> a \<and> a < v_end n then Some (v_flags n) else flags_at vs a)"
  by (induction n vs rule: insert_walk.induct) (auto simp: apart_def)

lemma insert_walk_set [simp]: "set (insert_walk n vs) = insert n (set vs)"
  by (induction n vs rule: insert_walk.induct) auto

lemma insert_walk_distinct:
  "distinct (map v_addr (insert_walk n vs)) \<longleftrightarrow> v_addr n \<notin> owned vs \<and> distinct (map v_addr vs)"
  by (induction n vs rule: insert_walk.induct) (auto simp: owned_def)

lemma vma_insert_eq:
  assumes "chain lo vs" and "\<forall>v \<in> set vs. apart (v_start n) (v_end n) v" and "v_start n < v_end n"
  shows "vma_insert n vs = insert_walk n vs"
proof (cases vs)
  case (Cons v vs')
  then have "v_start v \<noteq> v_start n" using assms by (auto simp: apart_def)
  then show ?thesis using Cons by (auto simp: vma_insert_def)
qed (simp add: vma_insert_def)

lemma page_up_kernel:
  assumes "e \<le> KERNEL_SPACE_START"
  shows "page_up e \<le> KERNEL_SPACE_START" and "e \<le> page_up e"
proof -
  have e: "unat e \<le> 3221225472" using assms by (simp add: word_le_nat_alt)
  then have u: "unat (page_up e) = (unat e + 4095) div 4096 * 4096" by (intro unat_page_up) simp
  show "page_up e \<le> KERNEL_SPACE_START" using u e by (simp add: word_le_nat_alt)
  show "e \<le> page_up e" using u by (simp add: word_le_nat_alt)
qed

lemma page_down_less: "s < e \<Longrightarrow> e \<le> KERNEL_SPACE_START \<Longrightarrow> page_down s < page_up e"
  by (rule le_less_trans [OF page_down_le less_le_trans [OF _ page_up_kernel(2)]])

lemma vma_add_spec:
  assumes "vma_ok h 0 vs" and "s < e" and "e \<le> KERNEL_SPACE_START"
    and "\<forall>v \<in> set vs. apart (page_down s) (page_up e) v"
  shows "\<exists>ret h' vs'. vma_add h vs s e fl = (ret, h', vs') \<and>
    (ret \<noteq> 0 \<longrightarrow> ret = - ENOMEM \<and> h' = h \<and> vs' = vs) \<and>
    (ret = 0 \<longrightarrow> vma_step h vs 0 h' vs' \<and>
       (\<exists>p. vs' = insert_walk \<lparr>v_addr = p, v_start = page_down s, v_end = page_up e, v_flags = fl\<rparr> vs))"
proof -
  obtain h1 p where k: "kmalloc VMA_NODE_SIZE h = (h1, p)" by (cases "kmalloc VMA_NODE_SIZE h")
  have guard: "\<not> (s \<ge> KERNEL_SPACE_START \<or> e > KERNEL_SPACE_START)" using assms(2,3) by auto
  show ?thesis
  proof (cases "p = 0")
    case True
    then have "h1 = h" using kmalloc_node_fail [OF assms(1)] k by simp
    then show ?thesis using True k guard by (simp add: vma_add_def)
  next
    case False
    let ?n = "\<lparr>v_addr = p, v_start = page_down s, v_end = page_up e, v_flags = fl\<rparr>"
    note k1 = kmalloc_node [OF assms(1) k False]
    have c: "chain 0 vs" using assms(1) by (simp add: vma_ok_def)
    have lt: "page_down s < page_up e" using assms(2,3) by (rule page_down_less)
    have eq: "vma_insert ?n vs = insert_walk ?n vs"
      using assms(4) lt by (intro vma_insert_eq [OF c]) auto
    have "chain 0 (insert_walk ?n vs)"
      using assms(4) lt page_up_kernel(1) [OF assms(3)] by (intro insert_walk_chain [OF c]) auto
    moreover have "distinct (map v_addr (insert_walk ?n vs))"
      using k1(3) assms(1) by (simp add: insert_walk_distinct vma_ok_def)
    moreover have "owned (insert_walk ?n vs) = insert p (owned vs)" by (simp add: owned_def)
    ultimately have "vma_step h vs 0 h1 (insert_walk ?n vs)"
      using k1 by (auto simp: vma_step_def vma_ok_def)
    then show ?thesis using k False guard eq by (auto simp: vma_add_def)
  qed
qed

lemma vma_destroy_release: "vma_destroy_all h vs = heap.release_all (map v_addr vs) h"
  by (induction h vs rule: vma_destroy_all.induct) (auto split: option.splits)

lemma vma_destroy_spec:
  assumes "vma_ok h lo vs"
  obtains h' where "vma_destroy_all h vs = Some h'" "heap_inv h'" "live_pointers h' = live_pointers h - owned vs"
  using heap.release_all_live [of h "map v_addr vs"] assms that
  by (auto simp: vma_destroy_release vma_ok_def owned_def)


text \<open>The ranges and flags of a list, without the addresses of its nodes.\<close>

definition areas :: "vmas \<Rightarrow> (u32 \<times> u32 \<times> u32) list" where
  "areas vs = map (\<lambda>v. (v_start v, v_end v, v_flags v)) vs"

definition page_grained :: "vmas \<Rightarrow> bool" where
  "page_grained vs \<longleftrightarrow> (\<forall>v \<in> set vs. page_aligned (v_start v) \<and> page_aligned (v_end v))"

lemma page_up_aligned: "page_aligned e \<Longrightarrow> e \<le> KERNEL_SPACE_START \<Longrightarrow> page_up e = e"
proof -
  assume a: "page_aligned e" "e \<le> KERNEL_SPACE_START"
  then have "unat (page_up e) = (unat e + 4095) div 4096 * 4096"
    by (intro unat_page_up) (simp add: word_le_nat_alt)
  also have "\<dots> = unat e" using a(1) by (auto elim!: dvdE simp: dvd_eq_mod_eq_0 [symmetric])
  finally show ?thesis by (simp add: word_unat_eq_iff)
qed

lemma insert_walk_last:
  "\<forall>v \<in> set vs. v_start v < v_start n \<Longrightarrow> insert_walk n vs = vs @ [n]"
  by (induction n vs rule: insert_walk.induct) auto

lemma clone_loop_spec:
  assumes "chain lo vs" and "page_grained vs" and "vma_ok h 0 child" and "\<forall>c \<in> set child. v_end c \<le> lo"
  shows "\<exists>ret h' child'. clone_loop h child vs = Some (ret, h', child') \<and> (ret = 0 \<or> ret = - ENOMEM) \<and>
    vma_step h child 0 h' child' \<and> (ret = 0 \<longrightarrow> areas child' = areas child @ areas vs) \<and>
    (ret \<noteq> 0 \<longrightarrow> child' = [])"
  using assms
proof (induction vs arbitrary: lo h child)
  case Nil
  then show ?case using vma_step_refl by (auto simp: areas_def)
next
  case (Cons v vs)
  have v: "v_start v < v_end v" "v_end v \<le> KERNEL_SPACE_START" "lo \<le> v_start v" "chain (v_end v) vs"
    "page_aligned (v_start v)" "page_aligned (v_end v)" "page_grained vs"
    using Cons.prems(1,2) by (auto simp: page_grained_def)
  have pg: "page_down (v_start v) = v_start v" "page_up (v_end v) = v_end v"
    using v page_down_aligned page_up_aligned by auto
  have below: "\<forall>c \<in> set child. v_end c \<le> v_start v" using Cons.prems(4) v(3) by auto
  then have ap: "\<forall>c \<in> set child. apart (page_down (v_start v)) (page_up (v_end v)) c"
    by (auto simp: apart_def pg)
  from vma_add_spec [OF Cons.prems(3) v(1,2) ap, of "v_flags v"] obtain ret h1 child1 where
    a: "vma_add h child (v_start v) (v_end v) (v_flags v) = (ret, h1, child1)"
    "ret \<noteq> 0 \<longrightarrow> ret = - ENOMEM \<and> h1 = h \<and> child1 = child"
    "ret = 0 \<longrightarrow> vma_step h child 0 h1 child1 \<and>
       (\<exists>p. child1 = insert_walk \<lparr>v_addr = p, v_start = v_start v, v_end = v_end v, v_flags = v_flags v\<rparr> child)"
    unfolding pg by blast
  show ?case
  proof (cases "ret = 0")
    case False
    obtain h2 where h2: "vma_destroy_all h child = Some h2" "heap_inv h2"
      "live_pointers h2 = live_pointers h - owned child" using vma_destroy_spec [OF Cons.prems(3)] .
    then have "vma_step h child 0 h2 []" by (auto simp: vma_step_def vma_ok_def)
    moreover have "clone_loop h child (v # vs) = Some (- ENOMEM, h2, [])"
      using a(1,2) False h2(1) by simp
    ultimately show ?thesis by auto
  next
    case True
    then obtain p where p: "vma_step h child 0 h1 child1"
      "child1 = insert_walk \<lparr>v_addr = p, v_start = v_start v, v_end = v_end v, v_flags = v_flags v\<rparr> child"
      using a(3) by auto
    have "v_start c < v_start v" if "c \<in> set child" for c
      using chain_bounds [of 0 child c] below that Cons.prems(3) by (auto simp: vma_ok_def)
    then have child1: "child1 = child @ [\<lparr>v_addr = p, v_start = v_start v, v_end = v_end v, v_flags = v_flags v\<rparr>]"
      unfolding p(2) by (intro insert_walk_last) auto
    have ok: "vma_ok h1 0 child1" using p(1) by (simp add: vma_step_def)
    have "\<forall>c \<in> set child1. v_end c \<le> v_end v" using below v(1) by (auto simp: child1)
    from Cons.IH [OF v(4,7) ok this] obtain ret' h' child' where
      r: "clone_loop h1 child1 vs = Some (ret', h', child')" "ret' = 0 \<or> ret' = - ENOMEM"
      "vma_step h1 child1 0 h' child'" "ret' = 0 \<longrightarrow> areas child' = areas child1 @ areas vs"
      "ret' \<noteq> 0 \<longrightarrow> child' = []" by blast
    moreover have "vma_step h child 0 h' child'" using p(1) r(3) by (simp add: vma_step_def)
    moreover have "clone_loop h child (v # vs) = Some (ret', h', child')" using a(1) True r(1) by simp
    moreover have "areas child1 @ areas vs = areas child @ areas (v # vs)" by (simp add: areas_def child1)
    ultimately show ?thesis by auto
  qed
qed

text \<open>
  The search bounds its last candidate by the end of the mmap zone, but not a hole in front of an
  area that lies above the zone (such as the stack).
\<close>

lemma free_area_ignores_zone_end:
  "vma_find_free_area [\<lparr>v_addr = 8, v_start = 0xBFFEF000, v_end = 0xBFFFF000, v_flags = 3\<rparr>] 0x60000000
     = USER_MMAP_START"
  by (simp add: vma_find_free_area_def)

section \<open>Properties\<close>

text \<open>A concrete list for the witnesses: one area of three pages.\<close>

definition vma_demo_heap :: heap_state where
  "vma_demo_heap = fst (kmalloc 100 heap_demo)"

definition vma_demo :: vmas where
  "vma_demo = [\<lparr>v_addr = snd (kmalloc 100 heap_demo), v_start = 0x1000, v_end = 0x4000, v_flags = 3\<rparr>]"

lemma vma_ok_demo [simp]: "vma_ok vma_demo_heap 0 vma_demo"
proof -
  from heap.alloc_live [OF heap_inv_demo prod.collapse [symmetric] kmalloc_demo]
  have "heap_inv vma_demo_heap" "snd (kmalloc 100 heap_demo) \<in> live_pointers vma_demo_heap"
    by (auto simp: vma_demo_heap_def)
  then show ?thesis by (simp add: vma_ok_def vma_demo_def)
qed

lemma flags_at_demo: "flags_at vma_demo a = (if 0x1000 \<le> a \<and> a < 0x4000 then Some 3 else None)"
  by (simp add: vma_demo_def)

lemma vma_ok_empty [simp]: "vma_ok heap_demo 0 []"
  by (simp add: vma_ok_def)

text \<open>
  C6. \<open>vma_unmap_range\<close> removes exactly the range: whatever areas it cuts, trims or splits, afterwards
  no address of \<open>[s, e)\<close> belongs to an area and every other address belongs to the same flags as
  before; the list stays sorted and disjoint and no heap block leaks. When the allocation for a
  split fails it returns \<open>-ENOMEM\<close> and nothing has changed.
\<close>

theorem vma_unmap_range_exact:
  assumes "vma_ok h 0 vs" and "s \<le> e"
  shows "\<exists>ret h' vs'. vma_unmap_range h vs s e = Some (ret, h', vs') \<and>
    (ret = 0 \<and> vma_step h vs 0 h' vs' \<and>
       flags_at vs' = (\<lambda>a. if s \<le> a \<and> a < e then None else flags_at vs a) \<or>
     ret = - ENOMEM \<and> h' = h \<and> vs' = vs)"
proof -
  from vma_unmap_spec [OF assms] obtain ret h' vs' where
    r: "vma_unmap_range h vs s e = Some (ret, h', vs')"
    "ret \<noteq> 0 \<longrightarrow> ret = - ENOMEM \<and> h' = h \<and> vs' = vs"
    "ret = 0 \<longrightarrow> vma_step h vs 0 h' vs' \<and>
       (\<forall>a. flags_at vs' a = (if s \<le> a \<and> a < e then None else flags_at vs a))" by blast
  then show ?thesis by (cases "ret = 0") (auto simp: fun_eq_iff)
qed

theorem vma_unmap_range_exact_witness:
  "\<exists>ret h' vs'. vma_unmap_range vma_demo_heap vma_demo 0x2000 0x4000 = Some (ret, h', vs') \<and>
    (ret = 0 \<and> vma_step vma_demo_heap vma_demo 0 h' vs' \<and>
       flags_at vs' = (\<lambda>a. if 0x2000 \<le> a \<and> a < 0x4000 then None else flags_at vma_demo a) \<or>
     ret = - ENOMEM \<and> h' = vma_demo_heap \<and> vs' = vma_demo)"
  by (rule vma_unmap_range_exact) simp_all

text \<open>
  C36. \<open>vma_protect_range\<close> changes the protection of exactly the range: on success every mapped address
  in \<open>[s, e)\<close> carries the new flags (with its copy-on-write mark kept) and every other address its
  old flags. On success and on \<open>-ENOMEM\<close> alike the set of mapped addresses is unchanged, the list
  stays sorted and disjoint, and no heap block leaks.
\<close>

theorem vma_protect_range_exact:
  assumes "vma_ok h 0 vs" and "s < e"
  shows "\<exists>ret h' vs'. vma_protect_range h vs s e nf = Some (ret, h', vs') \<and>
    vma_step h vs 0 h' vs' \<and> (ret = 0 \<or> ret = - ENOMEM) \<and> dom (flags_at vs') = dom (flags_at vs) \<and>
    (ret = 0 \<longrightarrow> flags_at vs' = (\<lambda>a.
       map_option (if s \<le> a \<and> a < e then protect_flags nf else id) (flags_at vs a)))"
proof -
  from vma_protect_spec [OF assms, of nf] obtain ret h' vs' where
    r: "vma_protect_range h vs s e nf = Some (ret, h', vs')"
    "vma_step h vs 0 h' vs'" "ret = 0 \<or> ret = - ENOMEM"
    "\<forall>a. flags_at vs' a = None \<longleftrightarrow> flags_at vs a = None"
    "ret = 0 \<longrightarrow> (\<forall>a. flags_at vs' a =
       map_option (if s \<le> a \<and> a < e then protect_flags nf else id) (flags_at vs a))" by blast
  moreover have "dom (flags_at vs') = dom (flags_at vs)" using r(4) by (simp add: dom_def)
  ultimately show ?thesis by (intro exI [of _ ret] exI [of _ h'] exI [of _ vs']) (auto simp: fun_eq_iff)
qed

theorem vma_protect_range_exact_witness:
  "\<exists>ret h' vs'. vma_protect_range vma_demo_heap vma_demo 0x1000 0x4000 1 = Some (ret, h', vs') \<and>
    dom (flags_at vs') = dom (flags_at vma_demo)"
  using vma_protect_range_exact [of vma_demo_heap vma_demo "0x1000" "0x4000" 1] by auto

text \<open>
  \<open>vma_add\<close> of a non-empty user range whose pages are unmapped adds exactly these pages with the
  given flags and changes nothing else; the list stays sorted and disjoint. When the heap is
  exhausted it returns \<open>-ENOMEM\<close> and nothing has changed.
\<close>

theorem vma_add_exact:
  assumes "vma_ok h 0 vs" and "s < e" and "e \<le> KERNEL_SPACE_START"
    and "\<forall>a. page_down s \<le> a \<and> a < page_up e \<longrightarrow> flags_at vs a = None"
  shows "\<exists>ret h' vs'. vma_add h vs s e fl = (ret, h', vs') \<and>
    (ret = 0 \<and> vma_step h vs 0 h' vs' \<and>
       flags_at vs' = (\<lambda>a. if page_down s \<le> a \<and> a < page_up e then Some fl else flags_at vs a) \<or>
     ret = - ENOMEM \<and> h' = h \<and> vs' = vs)"
proof -
  have c: "chain 0 vs" using assms(1) by (simp add: vma_ok_def)
  have ap: "\<forall>v \<in> set vs. apart (page_down s) (page_up e) v"
    using flags_at_apart [OF c page_down_less [OF assms(2,3)]] assms(4) by simp
  from vma_add_spec [OF assms(1-3) ap, of fl] obtain ret h' vs' where
    r: "vma_add h vs s e fl = (ret, h', vs')" "ret \<noteq> 0 \<longrightarrow> ret = - ENOMEM \<and> h' = h \<and> vs' = vs"
    "ret = 0 \<longrightarrow> vma_step h vs 0 h' vs' \<and>
       (\<exists>p. vs' = insert_walk \<lparr>v_addr = p, v_start = page_down s, v_end = page_up e, v_flags = fl\<rparr> vs)"
    by blast
  then show ?thesis using ap by (cases "ret = 0") (auto simp: fun_eq_iff insert_walk_flags)
qed

theorem vma_add_exact_witness:
  "\<exists>ret h' vs'. vma_add heap_demo [] 0x1234 0x3000 3 = (ret, h', vs') \<and>
    (ret = 0 \<and> vma_step heap_demo [] 0 h' vs' \<and>
       flags_at vs' = (\<lambda>a. if page_down 0x1234 \<le> a \<and> a < page_up 0x3000 then Some 3 else flags_at [] a) \<or>
     ret = - ENOMEM \<and> h' = heap_demo \<and> vs' = [])"
  by (rule vma_add_exact) simp_all

text \<open>
  The early exits of the searches lose nothing: on a well-formed list \<open>vma_find\<close> returns an area
  containing the page of the address whenever there is one, and \<open>vma_intersects\<close> is true exactly when
  some address of the range is mapped.
\<close>

theorem vma_lookup_exact:
  assumes "vma_ok h 0 vs" and "s < e"
  shows "map_option v_flags (vma_find vs a) = flags_at vs (page_down a) \<and>
    vma_intersects vs s e 0 = (\<exists>x. s \<le> x \<and> x < e \<and> flags_at vs x \<noteq> None)"
proof -
  have c: "chain 0 vs" and z: "0 \<notin> owned vs"
    using assms(1) heap.live_nonnull by (auto simp: vma_ok_def)
  show ?thesis
    using find_loop_flags [OF c] vma_intersects_iff [OF c z] flags_at_apart [OF c assms(2)]
    by (auto simp: vma_find_def)
qed

theorem vma_lookup_exact_witness:
  "map_option v_flags (vma_find vma_demo 0x2345) = flags_at vma_demo (page_down 0x2345) \<and>
   vma_intersects vma_demo 0x3000 0x5000 0 =
     (\<exists>x. 0x3000 \<le> x \<and> x < 0x5000 \<and> flags_at vma_demo x \<noteq> None)"
  by (rule vma_lookup_exact [OF vma_ok_demo]) simp

text \<open>
  \<open>vma_find_free_area\<close> never proposes a range that is in use: a non-zero result lies at or above
  the mmap base, and every area of the list ends at or below it or begins at or behind the end of
  the proposed range (computed without wrap-around).
\<close>

theorem vma_find_free_area_free:
  assumes "vma_ok h 0 vs" and "vma_find_free_area vs sz = r" and "r \<noteq> 0"
  shows "USER_MMAP_START \<le> r \<and>
    (\<forall>v \<in> set vs. v_end v \<le> r \<or> uint r + uint sz \<le> uint (v_start v))"
  using free_area_loop_spec [of 0 vs USER_MMAP_START sz r] assms
  by (auto simp: vma_ok_def vma_find_free_area_def)

theorem vma_find_free_area_free_witness:
  "USER_MMAP_START \<le> vma_find_free_area vma_demo 0x1000"
proof -
  have r: "vma_find_free_area vma_demo 0x1000 = USER_MMAP_START"
    by (simp add: vma_demo_def vma_find_free_area_def)
  from vma_find_free_area_free [OF vma_ok_demo r] show ?thesis by (simp add: r)
qed

text \<open>
  \<open>vma_clone\<close> copies the areas of a page-grained list one for one, or, when the heap is exhausted
  half-way, releases every node it made and leaves the child with an empty list; in both cases the
  other blocks of the heap, the parent's nodes among them, are untouched.
\<close>

theorem vma_clone_exact:
  assumes "vma_ok h 0 parent" and "page_grained parent"
  shows "\<exists>ret h' child. vma_clone h parent = Some (ret, h', child) \<and> vma_ok h' 0 child \<and>
    live_pointers h' - owned child = live_pointers h \<and>
    (ret = 0 \<and> areas child = areas parent \<or> ret = - ENOMEM \<and> child = [])"
proof -
  have ok: "vma_ok h 0 []" and c: "chain 0 parent" using assms(1) by (auto simp: vma_ok_def)
  have "\<forall>c \<in> set []. v_end c \<le> 0" by simp
  from clone_loop_spec [OF c assms(2) ok this] show ?thesis
    by (auto simp: vma_clone_def vma_step_def areas_def)
qed

theorem vma_clone_exact_witness:
  "\<exists>ret h' child. vma_clone vma_demo_heap vma_demo = Some (ret, h', child) \<and> vma_ok h' 0 child"
proof -
  have "page_grained vma_demo" by (simp add: page_grained_def vma_demo_def)
  from vma_clone_exact [OF vma_ok_demo this] show ?thesis by blast
qed

end
