(* ===== verification/Paging.thy ===== *)
theory Paging
  imports Pmm Vma
begin

text \<open>
  The page tables, \<open>paging.c\<close>: mapping, unmapping and protection of pages, creation, copy-on-write
  cloning and destruction of address spaces, the kernel stack pool and the page fault handler.

  Physical memory is seen as frames of 1024 words (\<open>pmem frame i\<close>); a page directory or table is
  such a frame. The source reaches every frame through the direct map at \<open>PHYS_TO_VIRT\<close>; here a
  pointer to a directory is the physical address of its frame, and NULL is 0. Instructions that
  flush the TLB have no counterpart. \<open>None\<close> is the endless \<open>cli; hlt\<close> loop of a fatal error.
\<close>

unbundle bit_operations_syntax

section \<open>State\<close>

abbreviation (input) PAGE_PRESENT :: u32 where "PAGE_PRESENT \<equiv> 0x001"
abbreviation (input) PAGE_WRITE :: u32 where "PAGE_WRITE \<equiv> 0x002"
abbreviation (input) PAGE_USER :: u32 where "PAGE_USER \<equiv> 0x004"
abbreviation (input) PAGE_PWT :: u32 where "PAGE_PWT \<equiv> 0x008"
abbreviation (input) PAGE_PCD :: u32 where "PAGE_PCD \<equiv> 0x010"
abbreviation (input) PAGE_PS :: u32 where "PAGE_PS \<equiv> 0x080"
abbreviation (input) PAGE_GLOBAL :: u32 where "PAGE_GLOBAL \<equiv> 0x100"
abbreviation (input) PAGE_COW :: u32 where "PAGE_COW \<equiv> 0x200"

abbreviation (input) KERNEL_STACK_SLOTS :: nat where "KERNEL_STACK_SLOTS \<equiv> 819"

record vm_state =
  vm_pmm :: pmm_state
  pmem :: "u32 \<Rightarrow> nat \<Rightarrow> u32"
  boot_page_directory :: u32
  kstack_bitmap :: "nat \<Rightarrow> u8"

definition dir_index :: "u32 \<Rightarrow> nat" where
  "dir_index virt = unat (drop_bit 22 virt)"

definition table_index :: "u32 \<Rightarrow> nat" where
  "table_index virt = unat (drop_bit 12 virt AND 0x3FF)"

definition set_entry :: "u32 \<Rightarrow> nat \<Rightarrow> u32 \<Rightarrow> vm_state \<Rightarrow> vm_state" where
  "set_entry frame i x m = m\<lparr>pmem := (pmem m)(frame := (pmem m frame)(i := x))\<rparr>"

text \<open>\<open>k_memset(page, 0, 4096)\<close> and \<open>k_memcpy(dst, src, 4096)\<close> on whole frames.\<close>

definition zero_page :: "u32 \<Rightarrow> vm_state \<Rightarrow> vm_state" where
  "zero_page frame m = m\<lparr>pmem := (pmem m)(frame := (\<lambda>_. 0))\<rparr>"

definition copy_page :: "u32 \<Rightarrow> u32 \<Rightarrow> vm_state \<Rightarrow> vm_state" where
  "copy_page dst src m = m\<lparr>pmem := (pmem m)(dst := pmem m src)\<rparr>"

text \<open>The allocator's operations on the whole state.\<close>

definition alloc_page :: "vm_state \<Rightarrow> vm_state \<times> u32" where
  "alloc_page m = (let (s, p) = pmm_alloc_page (vm_pmm m) in (m\<lparr>vm_pmm := s\<rparr>, p))"

definition free_page :: "u32 \<Rightarrow> vm_state \<Rightarrow> vm_state" where
  "free_page p m = m\<lparr>vm_pmm := pmm_free_page p (vm_pmm m)\<rparr>"

definition inc_ref :: "u32 \<Rightarrow> vm_state \<Rightarrow> vm_state" where
  "inc_ref p m = m\<lparr>vm_pmm := pmm_inc_ref p (vm_pmm m)\<rparr>"

definition dec_ref :: "u32 \<Rightarrow> vm_state \<Rightarrow> vm_state" where
  "dec_ref p m = m\<lparr>vm_pmm := pmm_dec_ref p (vm_pmm m)\<rparr>"

section \<open>Mapping and unmapping\<close>

text \<open>The directory entry of a new page table.\<close>

definition new_pde :: "u32 \<Rightarrow> u32" where
  "new_pde p = p OR PAGE_PRESENT OR PAGE_WRITE OR PAGE_USER"

definition vmm_map_page :: "u32 \<Rightarrow> u32 \<Rightarrow> u32 \<Rightarrow> vm_state \<Rightarrow> vm_state option" where
  "vmm_map_page virt phys flags m =
     (let pd = boot_page_directory m;
          m' = (if pmem m pd (dir_index virt) AND PAGE_PRESENT = 0 then
                  (let (m, new_pt) = alloc_page m
                   in if new_pt = 0 then None
                      else Some (set_entry pd (dir_index virt)
                             (new_pde new_pt) (zero_page new_pt m)))
                else Some m)
      in case m' of None \<Rightarrow> None
         | Some m \<Rightarrow> Some (set_entry (page_down (pmem m pd (dir_index virt))) (table_index virt)
                            (phys OR flags) m))"

definition vmm_map_page_in_pd :: "u32 \<Rightarrow> u32 \<Rightarrow> u32 \<Rightarrow> u32 \<Rightarrow> vm_state \<Rightarrow> (int \<times> vm_state) option" where
  "vmm_map_page_in_pd pd virt phys flags m =
     (let pde = pmem m pd (dir_index virt)
      in if pde AND PAGE_PS \<noteq> 0 then None
         else let (ok, m) =
                    (if pde AND PAGE_PRESENT = 0 then
                       (let (m, new_pt) = alloc_page m
                        in if new_pt = 0 then (False, m)
                           else (True, set_entry pd (dir_index virt)
                                  (new_pde new_pt) (zero_page new_pt m)))
                     else (True, m))
              in if \<not> ok then Some (- 1, m)
                 else let ptab = page_down (pmem m pd (dir_index virt));
                          pte = pmem m ptab (table_index virt);
                          m = (if pte AND PAGE_PRESENT \<noteq> 0 then free_page (page_down pte) m else m)
                      in Some (0, set_entry ptab (table_index virt) (phys OR flags) m))"

definition vmm_unmap_page_in_pd :: "u32 \<Rightarrow> u32 \<Rightarrow> vm_state \<Rightarrow> vm_state" where
  "vmm_unmap_page_in_pd pd virt m =
     (let pde = pmem m pd (dir_index virt)
      in if pde AND PAGE_PRESENT = 0 then m
         else let ptab = page_down pde
              in if pmem m ptab (table_index virt) AND PAGE_PRESENT \<noteq> 0
                 then set_entry ptab (table_index virt) 0 m else m)"

definition vmm_unmap_and_free_page_in_pd :: "u32 \<Rightarrow> u32 \<Rightarrow> vm_state \<Rightarrow> vm_state" where
  "vmm_unmap_and_free_page_in_pd pd virt m =
     (let pde = pmem m pd (dir_index virt)
      in if pde AND PAGE_PRESENT = 0 then m
         else let ptab = page_down pde;
                  pte = pmem m ptab (table_index virt)
              in if pte AND PAGE_PRESENT \<noteq> 0
                 then set_entry ptab (table_index virt) 0 (free_page (page_down pte) m) else m)"

text \<open>The new entry of \<open>vmm_protect_page_in_pd\<close>.\<close>

definition protect_pte :: "u32 \<Rightarrow> u32 \<Rightarrow> u32" where
  "protect_pte flags pte =
     (let phys = page_down pte;
          old_flags = pte AND 0xFFF;
          cow_preserved = old_flags AND PAGE_COW;
          hw_preserved = old_flags AND (PAGE_PWT OR PAGE_PCD OR PAGE_GLOBAL);
          flags = (if cow_preserved \<noteq> 0 then flags AND NOT PAGE_WRITE else flags)
      in phys OR flags OR cow_preserved OR hw_preserved)"

definition vmm_protect_page_in_pd :: "u32 \<Rightarrow> u32 \<Rightarrow> u32 \<Rightarrow> vm_state \<Rightarrow> vm_state" where
  "vmm_protect_page_in_pd pd virt flags m =
     (let pde = pmem m pd (dir_index virt)
      in if pde AND PAGE_PRESENT = 0 then m
         else let ptab = page_down pde;
                  pte = pmem m ptab (table_index virt)
              in if pte AND PAGE_PRESENT \<noteq> 0
                 then set_entry ptab (table_index virt) (protect_pte flags pte) m else m)"

section \<open>Address spaces\<close>

definition clone_kernel_half :: "u32 \<Rightarrow> vm_state \<Rightarrow> vm_state" where
  "clone_kernel_half pd m =
     fold (\<lambda>i m. set_entry pd i (pmem m (boot_page_directory m) i) m) [768..<1024] m"

definition vmm_create_address_space :: "vm_state \<Rightarrow> vm_state \<times> u32" where
  "vmm_create_address_space m =
     (let (m, phys_pd) = alloc_page m
      in if phys_pd = 0 then (m, 0)
         else (clone_kernel_half phys_pd (zero_page phys_pd m), phys_pd))"

text \<open>\<open>pmm_dec_ref\<close> on what an entry of a table, or a whole directory entry, refers to.\<close>

definition release_pte :: "u32 \<Rightarrow> nat \<Rightarrow> vm_state \<Rightarrow> vm_state" where
  "release_pte ptab j m =
     (if pmem m ptab j AND PAGE_PRESENT \<noteq> 0 then dec_ref (page_down (pmem m ptab j)) m else m)"

definition release_pde :: "u32 \<Rightarrow> nat \<Rightarrow> vm_state \<Rightarrow> vm_state" where
  "release_pde pd i m =
     (let pde = pmem m pd i
      in if pde AND PAGE_PRESENT = 0 then m
         else let m = (if pde AND PAGE_PS \<noteq> 0 then
                         fold (\<lambda>p. dec_ref ((pde AND 0xFFC00000) + of_nat p * 4096)) [0..<1024] m
                       else dec_ref (page_down pde) (fold (release_pte (page_down pde)) [0..<1024] m))
              in set_entry pd i 0 m)"

definition vmm_destroy_address_space :: "u32 \<Rightarrow> vm_state \<Rightarrow> vm_state" where
  "vmm_destroy_address_space pd m =
     (if pd = 0 \<or> pd = boot_page_directory m then m
      else free_page pd (fold (release_pde pd) [0..<768] m))"

text \<open>Sharing one page between parent and child: both entries become read-only and copy-on-write.\<close>

definition cow_pte :: "u32 \<Rightarrow> u32" where
  "cow_pte pte = page_down pte OR ((pte AND 0xFFF) AND NOT PAGE_WRITE OR PAGE_COW)"

definition share_pte :: "u32 \<Rightarrow> u32 \<Rightarrow> nat \<Rightarrow> vm_state \<Rightarrow> vm_state" where
  "share_pte parent_pt child_pt j m =
     (let pte = pmem m parent_pt j
      in if pte AND PAGE_PRESENT = 0 then m
         else set_entry parent_pt j (cow_pte pte)
                (set_entry child_pt j (cow_pte pte) (inc_ref (page_down pte) m)))"

fun clone_pdes :: "u32 \<Rightarrow> u32 \<Rightarrow> nat list \<Rightarrow> vm_state \<Rightarrow> bool \<times> vm_state" where
  "clone_pdes parent child [] m = (True, m)"
| "clone_pdes parent child (i # is) m =
     (let pde = pmem m parent i
      in if pde AND PAGE_PRESENT = 0 then clone_pdes parent child is m
         else if pde AND PAGE_PS \<noteq> 0 then
           clone_pdes parent child is
             (fold (\<lambda>p. inc_ref ((pde AND 0xFFC00000) + of_nat p * 4096)) [0..<1024]
               (set_entry child i pde m))
         else let (m, ptab) = alloc_page m
              in if ptab = 0 then (False, m)
                 else clone_pdes parent child is
                        (set_entry child i (new_pde ptab)
                          (fold (share_pte (page_down pde) ptab) [0..<1024] (zero_page ptab m))))"

definition vmm_clone_address_space :: "u32 \<Rightarrow> vm_state \<Rightarrow> vm_state \<times> u32" where
  "vmm_clone_address_space parent m =
     (if parent = 0 then (m, 0)
      else let (m, child) = alloc_page m
           in if child = 0 then (m, 0)
              else let (ok, m) = clone_pdes parent child [0..<768]
                                   (clone_kernel_half child (zero_page child m))
                   in if ok then (m, child) else (vmm_destroy_address_space child m, 0))"

section \<open>The kernel stack pool\<close>

definition kstack_test :: "vm_state \<Rightarrow> nat \<Rightarrow> bool" where
  "kstack_test m i = (kstack_bitmap m (i div 8) AND push_bit (i mod 8) 1 \<noteq> 0)"

definition kstack_set :: "nat \<Rightarrow> vm_state \<Rightarrow> vm_state" where
  "kstack_set i m = m\<lparr>kstack_bitmap :=
     (kstack_bitmap m)(i div 8 := kstack_bitmap m (i div 8) OR push_bit (i mod 8) 1)\<rparr>"

definition kstack_clear :: "nat \<Rightarrow> vm_state \<Rightarrow> vm_state" where
  "kstack_clear i m = m\<lparr>kstack_bitmap :=
     (kstack_bitmap m)(i div 8 := kstack_bitmap m (i div 8) AND NOT (push_bit (i mod 8) 1))\<rparr>"

definition kstack_drop_page :: "u32 \<Rightarrow> vm_state \<Rightarrow> vm_state" where
  "kstack_drop_page v m =
     (let ptab = page_down (pmem m (boot_page_directory m) (dir_index v));
          pte = pmem m ptab (table_index v)
      in if pte AND PAGE_PRESENT \<noteq> 0
         then set_entry ptab (table_index v) 0 (free_page (page_down pte) m) else m)"

fun kstack_map :: "u32 \<Rightarrow> nat \<Rightarrow> nat list \<Rightarrow> vm_state \<Rightarrow> (bool \<times> vm_state) option" where
  "kstack_map base_virt i [] m = Some (True, m)"
| "kstack_map base_virt i (p # ps) m =
     (let (m, phys) = alloc_page m
      in if phys = 0 then
           Some (False, kstack_clear i
             (fold (\<lambda>q. kstack_drop_page (base_virt + of_nat q * 4096)) [1..<p] m))
         else case vmm_map_page (base_virt + of_nat p * 4096) phys (PAGE_PRESENT OR PAGE_WRITE) m of
                None \<Rightarrow> None
              | Some m \<Rightarrow> kstack_map base_virt i ps m)"

fun kstack_scan :: "nat list \<Rightarrow> vm_state \<Rightarrow> (vm_state \<times> u32) option" where
  "kstack_scan [] m = Some (m, 0)"
| "kstack_scan (i # is) m =
     (if \<not> kstack_test m i then
        let base_virt = KERNEL_STACK_POOL_START + of_nat i * (KERNEL_STACK_SLOT_PAGES * 4096);
            m = vmm_unmap_page_in_pd (boot_page_directory m) base_virt (kstack_set i m)
        in case kstack_map base_virt i [1..<5] m of
             None \<Rightarrow> None
           | Some (ok, m) \<Rightarrow>
               Some (m, if ok then base_virt + KERNEL_STACK_SLOT_PAGES * 4096 else 0)
      else kstack_scan is m)"

definition vmm_alloc_kernel_stack :: "vm_state \<Rightarrow> (vm_state \<times> u32) option" where
  "vmm_alloc_kernel_stack m = kstack_scan [0..<KERNEL_STACK_SLOTS] m"

definition vmm_free_kernel_stack :: "u32 \<Rightarrow> vm_state \<Rightarrow> vm_state" where
  "vmm_free_kernel_stack stack_top m =
     (if stack_top = 0 then m
      else let base_virt = stack_top - KERNEL_STACK_SLOT_PAGES * 4096;
               i = (base_virt - KERNEL_STACK_POOL_START) div (KERNEL_STACK_SLOT_PAGES * 4096)
           in if sint i < 0 \<or> sint i \<ge> int KERNEL_STACK_SLOTS then m
              else fold (\<lambda>p m. let v = base_virt + of_nat p * 4096
                               in if pmem m (boot_page_directory m) (dir_index v) AND PAGE_PRESENT \<noteq> 0
                                  then kstack_drop_page v m else m)
                     [1..<5] (kstack_clear (unat i) m))"

section \<open>Write faults: copy-on-write\<close>

abbreviation (input) PF_RESOLVED :: int where "PF_RESOLVED \<equiv> 1"
abbreviation (input) PF_NOT_HANDLED :: int where "PF_NOT_HANDLED \<equiv> 0"
abbreviation (input) PF_ERR_NO_VMA :: int where "PF_ERR_NO_VMA \<equiv> - 1"
abbreviation (input) PF_ERR_PERM :: int where "PF_ERR_PERM \<equiv> - 2"
abbreviation (input) PF_ERR_OOM :: int where "PF_ERR_OOM \<equiv> - 3"
abbreviation (input) PF_ERR_BADPD :: int where "PF_ERR_BADPD \<equiv> - 4"

text \<open>
  What the handlers read of a task: its page directory (0 when it has none) and its areas.
\<close>

record fault_task =
  pdir :: u32
  vma_head :: vmas

text \<open>The copy-on-write case and the entry it leaves: private and writable.\<close>

definition private_flags :: "u32 \<Rightarrow> u32" where
  "private_flags pte = ((pte AND 0xFFF) AND NOT PAGE_COW) OR PAGE_WRITE"

definition resolve_cow :: "u32 \<Rightarrow> nat \<Rightarrow> vm_state \<Rightarrow> int \<times> vm_state" where
  "resolve_cow ptab j m =
     (let pte = pmem m ptab j; old_phys = page_down pte
      in if pmm_get_refcount (vm_pmm m) old_phys \<le> 1
         then (PF_RESOLVED, set_entry ptab j (old_phys OR private_flags pte) m)
         else let (m, new_phys) = alloc_page m
              in if new_phys = 0 then (PF_ERR_OOM, m)
                 else (PF_RESOLVED, set_entry ptab j (new_phys OR private_flags pte)
                        (dec_ref old_phys (copy_page new_phys old_phys m))))"

definition vmm_handle_user_write_fault :: "fault_task \<Rightarrow> u32 \<Rightarrow> vm_state \<Rightarrow> int \<times> vm_state" where
  "vmm_handle_user_write_fault task addr m =
     (if pdir task = 0 then (PF_ERR_BADPD, m)
      else if addr \<ge> KERNEL_SPACE_START then (PF_ERR_PERM, m)
      else if pdir task = boot_page_directory m then (PF_ERR_BADPD, m)
      else case vma_find (vma_head task) addr of None \<Rightarrow> (PF_ERR_NO_VMA, m)
      | Some vma \<Rightarrow>
        if v_flags vma AND VMA_READ = 0 then (PF_ERR_PERM, m)
        else if v_flags vma AND VMA_WRITE = 0 then (PF_ERR_PERM, m)
        else if v_flags vma AND VMA_WRITE \<noteq> 0 \<and> v_flags vma AND VMA_EXEC \<noteq> 0 then (PF_ERR_PERM, m)
        else let pde = pmem m (pdir task) (dir_index addr)
          in if pde AND PAGE_PRESENT = 0 then (PF_NOT_HANDLED, m)
             else if pde AND PAGE_PS \<noteq> 0 then (PF_ERR_BADPD, m)
             else let ptab = page_down pde
          in if ptab = 0 then (PF_ERR_BADPD, m)
             else let pte = pmem m ptab (table_index addr)
          in if pte AND PAGE_PRESENT = 0 then (PF_NOT_HANDLED, m)
             else if pte AND PAGE_USER = 0 then (PF_ERR_PERM, m)
             else let old_phys = page_down pte
          in if old_phys = 0 then (PF_ERR_BADPD, m)
             else if pte AND PAGE_COW \<noteq> 0 then resolve_cow ptab (table_index addr) m
             else if pte AND PAGE_WRITE = 0 then
               (if pmm_get_refcount (vm_pmm m) old_phys \<le> 1
                then (PF_RESOLVED, set_entry ptab (table_index addr)
                        (old_phys OR ((pte AND 0xFFF) OR PAGE_WRITE)) m)
                else (PF_ERR_PERM, m))
             else (PF_RESOLVED, m))"

section \<open>The page fault handler\<close>

text \<open>
  How interrupt 14 ends: the faulting instruction is resumed, the current task is killed with a
  reason, or the kernel stops in an endless \<open>cli; hlt\<close> loop. (After \<open>task_kill_current\<close> the source
  also loops, waiting to be scheduled away.)
\<close>

datatype fault_outcome = Resume | Killed string | Halted

text \<open>
  Demand paging of a page not present: the reasons for an access outside the areas, to an
  unreadable area, for a write to a read-only one and for a writable and executable one differ
  between kernel and user mode and are given as arguments.
\<close>

definition demand_map :: "fault_task \<Rightarrow> vma_node \<Rightarrow> u32 \<Rightarrow> vm_state \<Rightarrow> fault_outcome \<times> vm_state" where
  "demand_map task vma addr m =
     (let (m, phys) = alloc_page m
      in if phys = 0 then (Killed ''Out of Memory (OOM Kill)'', m)
         else let flags = PAGE_PRESENT OR PAGE_USER;
                  flags = (if v_flags vma AND VMA_WRITE \<noteq> 0 then flags OR PAGE_WRITE else flags)
              in case vmm_map_page_in_pd (pdir task) (page_down addr) phys flags (zero_page phys m) of
                   None \<Rightarrow> (Halted, m)
                 | Some (ret, m) \<Rightarrow>
                     if ret \<noteq> 0 then (Killed ''Out of Memory (VMM PT Alloc Failed)'', free_page phys m)
                     else (Resume, m))"

definition demand_page :: "string \<Rightarrow> string \<Rightarrow> string \<Rightarrow> string \<Rightarrow> bool \<Rightarrow> fault_task \<Rightarrow> u32 \<Rightarrow>
    vm_state \<Rightarrow> fault_outcome \<times> vm_state" where
  "demand_page no_vma no_read no_write wx rw task addr m =
     (case vma_find (vma_head task) addr of None \<Rightarrow> (Killed no_vma, m)
      | Some vma \<Rightarrow>
        if v_flags vma AND VMA_READ = 0 then (Killed no_read, m)
        else if rw \<and> v_flags vma AND VMA_WRITE = 0 then (Killed no_write, m)
        else if v_flags vma AND VMA_WRITE \<noteq> 0 \<and> v_flags vma AND VMA_EXEC \<noteq> 0 then (Killed wx, m)
        else demand_map task vma addr m)"

definition kernel_fault :: "bool \<Rightarrow> bool \<Rightarrow> bool \<Rightarrow> fault_task \<Rightarrow> u32 \<Rightarrow> vm_state \<Rightarrow> fault_outcome \<times> vm_state" where
  "kernel_fault present rw reserved task addr m =
     (if addr \<ge> KERNEL_STACK_POOL_START \<and> addr < KERNEL_STACK_POOL_START + KERNEL_STACK_POOL_SIZE
      then (Killed ''Kernel Stack Overflow'', m)
      else if \<not> present \<and> \<not> reserved \<and> addr \<ge> KERNEL_HEAP_VIRT \<and> addr < KERNEL_HEAP_END then
        (let (m, phys) = alloc_page m
         in if phys = 0 then (Halted, m)
            else case vmm_map_page (page_down addr) phys (PAGE_PRESENT OR PAGE_WRITE) (zero_page phys m) of
                   None \<Rightarrow> (Halted, m) | Some m \<Rightarrow> (Resume, m))
      else if addr < KERNEL_SPACE_START then
        (if pdir task = boot_page_directory m then (Killed ''Ring 0 user access with boot PD'', m)
         else if present \<and> rw then
           (let (rc, m) = vmm_handle_user_write_fault task addr m
            in if rc = PF_RESOLVED then (Resume, m)
               else if rc = PF_ERR_NO_VMA then (Killed ''Kernel write to unmapped user memory'', m)
               else if rc = PF_ERR_OOM then (Killed ''Out of Memory (CoW Failed)'', m)
               else if rc = PF_ERR_PERM then (Killed ''Kernel write permission violation'', m)
               else (Killed ''Kernel write to invalid user page'', m))
         else if \<not> present then
           demand_page ''Kernel accessed unmapped user memory'' ''Kernel read from non-readable VMA''
             ''Kernel write to read-only user memory'' ''W^X violation in kernel user access''
             rw task addr m
         else (Killed ''Kernel access to protected user memory'', m))
      else (Halted, m))"

definition user_fault :: "bool \<Rightarrow> bool \<Rightarrow> fault_task \<Rightarrow> u32 \<Rightarrow> vm_state \<Rightarrow> fault_outcome \<times> vm_state" where
  "user_fault present rw task addr m =
     (if pdir task = boot_page_directory m then (Killed ''Ring 3 with boot address space'', m)
      else if present \<and> rw then
        (let (rc, m) = vmm_handle_user_write_fault task addr m
         in if rc = PF_RESOLVED then (Resume, m)
            else if rc = PF_ERR_NO_VMA then (Killed ''Write to unmapped memory (No VMA)'', m)
            else if rc = PF_ERR_OOM then (Killed ''Out of Memory (CoW Failed)'', m)
            else (Killed ''Write permission violation (W^X)'', m))
      else if \<not> present then
        demand_page ''Access to unmapped memory (No VMA)'' ''Access to non-readable VMA''
          ''Write to Read-Only memory (W^X violation)'' ''W^X violation'' rw task addr m
      else (Killed ''Access to protected memory'', m))"

definition page_fault_handler :: "u32 \<Rightarrow> u32 \<Rightarrow> fault_task option \<Rightarrow> vm_state \<Rightarrow> fault_outcome \<times> vm_state" where
  "page_fault_handler err_code addr current_task m =
     (let present = err_code AND 0x1 \<noteq> 0;
          rw = err_code AND 0x2 \<noteq> 0;
          us = err_code AND 0x4 \<noteq> 0;
          reserved = err_code AND 0x8 \<noteq> 0
      in case current_task of None \<Rightarrow> (Halted, m)
         | Some task \<Rightarrow>
           if addr < 0x1000 then (if us then Killed ''NULL Pointer Dereference'' else Halted, m)
           else if reserved then (if us then Killed ''Reserved bit corruption'' else Halted, m)
           else if pdir task = 0 then (if us then Killed ''Invalid address space'' else Halted, m)
           else if addr \<ge> KERNEL_SPACE_START \<and> us then (Killed ''Attempted access to Kernel Space'', m)
           else if \<not> us then kernel_fault present rw reserved task addr m
           else user_fault present rw task addr m)"

section \<open>Initialisation\<close>

text \<open>
  The places of the kernel's own structures come from the linker script and are arguments:
  \<open>(first, end)\<close> physical addresses of the directory, the two groups of page tables, the
  framebuffer's table and the boot stack, as \<open>paging_init\<close> reserves them.
\<close>

fun map_run :: "u32 \<Rightarrow> u32 \<Rightarrow> u32 \<Rightarrow> nat list \<Rightarrow> vm_state \<Rightarrow> vm_state option" where
  "map_run virt phys flags [] m = Some m"
| "map_run virt phys flags (i # is) m =
     (case vmm_map_page (virt + of_nat i * 4096) (phys + of_nat i * 4096) flags m of
        None \<Rightarrow> None | Some m \<Rightarrow> map_run virt phys flags is m)"

abbreviation (input) FB_PHYS_BASE :: u32 where "FB_PHYS_BASE \<equiv> 0xFD000000"
abbreviation (input) FB_VIRT_BASE :: u32 where "FB_VIRT_BASE \<equiv> 0xFD000000"

definition paging_init :: "(u32 \<times> u32) list \<Rightarrow> vm_state \<Rightarrow> vm_state option" where
  "paging_init structures m =
     (let m = m\<lparr>vm_pmm := fold (\<lambda>(first, past). pmm_reserve_region (ucast first) (ucast past)) structures
                          (pmm_reserve_region 0x00100000 0x01000000 (vm_pmm m))\<rparr>
      in case map_run KERNEL_SPACE_START 0 (PAGE_PRESENT OR PAGE_WRITE) [0..<131072] m of
           None \<Rightarrow> None
         | Some m \<Rightarrow> map_run FB_VIRT_BASE FB_PHYS_BASE (PAGE_PRESENT OR PAGE_WRITE OR PAGE_PCD OR PAGE_USER)
                      [0..<4096] m)"

section \<open>Entries and addresses\<close>

lemma bit_page_down [simp]: "bit (page_down a) k \<longleftrightarrow> bit a k \<and> 12 \<le> k"
proof -
  have "bit a k \<Longrightarrow> k < 32" using bit_imp_le_length [of a k] by simp
  then show ?thesis by (auto simp: page_down_def page_mask_eq bit_simps)
qed

lemma page_down_idem [simp]: "page_down (page_down a) = page_down a"
  by (rule bit_word_eqI) simp

lemma dir_index_lt: "dir_index v < 1024"
  using unat_u32_bound [of v] by (simp add: dir_index_def drop_bit_eq_div unat_div)

lemma table_index_eq: "table_index v = unat v div 4096 mod 1024"
proof -
  have "table_index v = unat (take_bit 10 (drop_bit 12 v))"
    by (simp add: table_index_def take_bit_eq_mask mask_eq_exp_minus_1)
  also have "\<dots> = take_bit 10 (unat v div 4096)"
    unfolding unsigned_take_bit_eq by (simp add: drop_bit_eq_div unat_div)
  finally show ?thesis by (simp add: take_bit_eq_mod)
qed

lemma table_index_lt: "table_index v < 1024"
  by (simp add: table_index_eq)

lemma dir_index_eq: "dir_index v = unat v div 4194304"
  by (simp add: dir_index_def drop_bit_eq_div unat_div)

lemma same_page: "dir_index v = dir_index w \<and> table_index v = table_index w \<longleftrightarrow> page_down v = page_down w"
proof -
  have "page_down v = page_down w \<longleftrightarrow> unat v div 4096 = unat w div 4096"
  proof -
    have "unat (page_down x) = 4096 * (unat x div 4096)" for x
      by (simp add: unat_page_down minus_mod_eq_mult_div)
    then show ?thesis by (simp add: word_unat_eq_iff)
  qed
  moreover have "n div 4096 = 1024 * (n div 4194304) + n div 4096 mod 1024" for n :: nat
    using div_mult2_eq [of n 4096 1024] by simp
  moreover have "n div 4194304 = n div 4096 div 1024" for n :: nat
    using div_mult2_eq [of n 4096 1024] by simp
  ultimately show ?thesis unfolding dir_index_eq table_index_eq by (metis)
qed

lemma page_down_or: "page_aligned p \<Longrightarrow> unat f < 4096 \<Longrightarrow> page_down (p OR f) = p"
proof (rule bit_word_eqI)
  fix n assume p: "page_aligned p" and f: "unat f < 4096"
  have "\<not> bit f n" if "12 \<le> n"
  proof -
    have "unat (take_bit 12 f) = unat f"
      unfolding unsigned_take_bit_eq using f by (simp add: take_bit_eq_mod)
    then have "take_bit 12 f = f" by (simp only: word_unat_eq_iff)
    then show ?thesis using that bit_take_bit_iff [of 12 f n] by simp
  qed
  moreover have "bit p n \<Longrightarrow> 12 \<le> n"
    using page_down_aligned [OF p] bit_page_down [of p n] by auto
  ultimately show "bit (page_down (p OR f)) n = bit p n" by (auto simp: bit_simps)
qed

section \<open>The translation an address space defines\<close>

text \<open>
  \<open>pte_of m pd v\<close> is the page-table entry the processor finds for \<open>v\<close>, 0 when there is no table.
  \<open>tables_ok\<close> holds of a directory whose tables are frames of their own: allocated, different from
  the directory and from each other, with no 4 MB entries.
\<close>

definition pte_of :: "vm_state \<Rightarrow> u32 \<Rightarrow> u32 \<Rightarrow> u32" where
  "pte_of m pd v =
     (let pde = pmem m pd (dir_index v)
      in if pde AND PAGE_PRESENT = 0 then 0 else pmem m (page_down pde) (table_index v))"

definition in_use :: "vm_state \<Rightarrow> u32 \<Rightarrow> bool" where
  "in_use m p \<longleftrightarrow> page_aligned p \<and> unat p div 4096 \<notin> free_frames (vm_pmm m)"

definition tables_ok :: "vm_state \<Rightarrow> u32 \<Rightarrow> bool" where
  "tables_ok m pd \<longleftrightarrow> pmm_inv (vm_pmm m) \<and> in_use m pd \<and>
     (\<forall>i<1024. pmem m pd i AND PAGE_PS = 0) \<and>
     (\<forall>i<1024. pmem m pd i AND PAGE_PRESENT \<noteq> 0 \<longrightarrow>
        in_use m (page_down (pmem m pd i)) \<and>
        page_down (pmem m pd i) \<noteq> pd \<and>
        (\<forall>j<1024. pmem m pd j AND PAGE_PRESENT \<noteq> 0 \<longrightarrow> j \<noteq> i \<longrightarrow>
           page_down (pmem m pd j) \<noteq> page_down (pmem m pd i)))"

text \<open>The frames that hold the directory and its tables.\<close>

definition structure_frames :: "vm_state \<Rightarrow> u32 \<Rightarrow> u32 set" where
  "structure_frames m pd =
     insert pd {page_down (pmem m pd i) | i. i < 1024 \<and> pmem m pd i AND PAGE_PRESENT \<noteq> 0}"

lemma vm_state_ops [simp]:
  "vm_pmm (set_entry f i x m) = vm_pmm m" "vm_pmm (zero_page f m) = vm_pmm m"
  "vm_pmm (copy_page f g m) = vm_pmm m"
  "pmem (set_entry f i x m) = (pmem m)(f := (pmem m f)(i := x))"
  "pmem (zero_page f m) = (pmem m)(f := (\<lambda>_. 0))"
  "pmem (copy_page f g m) = (pmem m)(f := pmem m g)"
  "pmem (free_page p m) = pmem m" "pmem (dec_ref p m) = pmem m" "pmem (inc_ref p m) = pmem m"
  "vm_pmm (free_page p m) = pmm_free_page p (vm_pmm m)"
  "vm_pmm (dec_ref p m) = pmm_dec_ref p (vm_pmm m)"
  "vm_pmm (inc_ref p m) = pmm_inc_ref p (vm_pmm m)"
  "boot_page_directory (set_entry f i x m) = boot_page_directory m"
  "boot_page_directory (zero_page f m) = boot_page_directory m"
  "boot_page_directory (copy_page f g m) = boot_page_directory m"
  "boot_page_directory (free_page p m) = boot_page_directory m"
  "boot_page_directory (dec_ref p m) = boot_page_directory m"
  "boot_page_directory (inc_ref p m) = boot_page_directory m"
  by (simp_all add: set_entry_def zero_page_def copy_page_def free_page_def dec_ref_def inc_ref_def)

lemma alloc_page_zero:
  assumes "pmm_inv (vm_pmm m)" and "alloc_page m = (m', 0)"
  shows "m' = m" and "free_frames (vm_pmm m) = {}"
proof -
  obtain s where s: "pmm_alloc_page (vm_pmm m) = (s, 0)" and m': "m' = m\<lparr>vm_pmm := s\<rparr>"
    using assms(2) by (auto simp: alloc_page_def split: prod.splits)
  show "m' = m" and "free_frames (vm_pmm m) = {}"
    using pmm.alloc_zero [OF assms(1), of s] s m' by simp_all
qed

lemma alloc_page_fresh:
  assumes "pmm_inv (vm_pmm m)" and "alloc_page m = (m', p)" and "p \<noteq> 0"
  obtains i where "unat p = 4096 * i" and "page_aligned p" and "i \<in> free_frames (vm_pmm m)"
    and "frame_ref (vm_pmm m) i = 0" and "pmm_inv (vm_pmm m')"
    and "free_frames (vm_pmm m') = free_frames (vm_pmm m) - {i}"
    and "frame_ref (vm_pmm m') = (frame_ref (vm_pmm m))(i := 1)"
    and "pmem m' = pmem m" and "boot_page_directory m' = boot_page_directory m"
    and "\<forall>f. in_use m f \<longrightarrow> f \<noteq> p"
proof -
  obtain s where s: "pmm_alloc_page (vm_pmm m) = (s, p)" and m': "m' = m\<lparr>vm_pmm := s\<rparr>"
    using assms(2) by (auto simp: alloc_page_def split: prod.splits)
  obtain i where i: "unat p = 4096 * i" "i \<in> free_frames (vm_pmm m)" "frame_ref (vm_pmm m) i = 0"
    "pmm_inv s" "free_frames s = free_frames (vm_pmm m) - {i}"
    "frame_ref s = (frame_ref (vm_pmm m))(i := 1)"
    using pmm.alloc_fresh [OF assms(1) s assms(3)] .
  show thesis
  proof (rule that)
    show "\<forall>f. in_use m f \<longrightarrow> f \<noteq> p"
      using i(2) unfolding in_use_def by (auto simp: i(1))
  qed (use i m' in simp_all)
qed

lemma tables_okD:
  assumes "tables_ok m pd" and "pmem m pd (dir_index v) AND PAGE_PRESENT \<noteq> 0"
  shows "pmem m pd (dir_index v) AND PAGE_PS = 0" and "in_use m (page_down (pmem m pd (dir_index v)))"
    and "page_down (pmem m pd (dir_index v)) \<noteq> pd"
    and "\<And>w. pmem m pd (dir_index w) AND PAGE_PRESENT \<noteq> 0 \<Longrightarrow> dir_index w \<noteq> dir_index v \<Longrightarrow>
      page_down (pmem m pd (dir_index w)) \<noteq> page_down (pmem m pd (dir_index v))"
  using assms dir_index_lt unfolding tables_ok_def by blast+

text \<open>Writing one entry of the table of \<open>virt\<close> changes one translation.\<close>

lemma pte_of_set_entry:
  assumes "tables_ok m pd" and "pmem m pd (dir_index virt) AND PAGE_PRESENT \<noteq> 0"
    and "pmem m' = pmem (set_entry (page_down (pmem m pd (dir_index virt))) (table_index virt) x m)"
  shows "pte_of m' pd v = (if page_down v = page_down virt then x else pte_of m pd v)"
proof -
  note t = tables_okD [OF assms(1,2)]
  have "pmem m' pd = pmem m pd" using t(3) assms(3) by simp
  moreover have "page_down v = page_down virt \<longleftrightarrow> dir_index v = dir_index virt \<and> table_index v = table_index virt"
    using same_page by simp
  ultimately show ?thesis
    using assms(2,3) t(4) [of v] by (auto simp: pte_of_def Let_def)
qed

lemma new_pde: 
  assumes "page_aligned p"
  shows "page_down (new_pde p) = p" and "new_pde p AND PAGE_PRESENT \<noteq> 0" and "new_pde p AND PAGE_PS = 0"
proof -
  have e: "new_pde p = p OR 7" by (simp add: new_pde_def or.assoc)
  show "page_down (new_pde p) = p" unfolding e using assms by (rule page_down_or) simp
  have b: "\<not> bit p 7"
    using page_down_aligned [OF assms] bit_page_down [of p 7] by auto
  have "bit (new_pde p AND PAGE_PRESENT) 0" by (simp add: e bit_simps)
  then show "new_pde p AND PAGE_PRESENT \<noteq> 0" by force
  have "PAGE_PS = 2 ^ 7" by simp
  show "new_pde p AND PAGE_PS = 0"
  proof (rule bit_word_eqI)
    fix n assume n: "n < LENGTH(32)"
    have "bit (0x80 :: u32) n \<Longrightarrow> n = 7" using bit_exp_u32 [of n 7] n by simp
    moreover have "\<not> bit (7 :: u32) 7" by (simp add: bit_iff_odd)
    ultimately show "bit (new_pde p AND PAGE_PS) n = bit (0 :: u32) n"
      using b by (auto simp: e bit_simps)
  qed
qed

lemma new_table:
  assumes "tables_ok m pd" and "pmem m pd (dir_index virt) AND PAGE_PRESENT = 0"
    and "alloc_page m = (m1, p)" and "p \<noteq> 0"
    and "m2 = set_entry pd (dir_index virt) (new_pde p) (zero_page p m1)"
  shows "tables_ok m2 pd" and "pte_of m2 pd v = pte_of m pd v"
    and "pmem m2 pd (dir_index virt) = new_pde p"
    and "in_use m f \<Longrightarrow> f \<noteq> pd \<Longrightarrow> pmem m2 f = pmem m f"
    and "in_use m f \<Longrightarrow> in_use m2 f"
    and "pte_of m pd virt = 0"
proof -
  obtain i where a: "unat p = 4096 * i" "page_aligned p" "i \<in> free_frames (vm_pmm m)"
    "pmm_inv (vm_pmm m1)" "free_frames (vm_pmm m1) = free_frames (vm_pmm m) - {i}"
    "pmem m1 = pmem m" and fresh: "\<And>f. in_use m f \<Longrightarrow> f \<noteq> p"
    using alloc_page_fresh [OF _ assms(3,4)] assms(1) unfolding tables_ok_def by (metis (no_types))
  have pd: "p \<noteq> pd" using fresh assms(1) by (auto simp: tables_ok_def)
  have mem: "pmem m2 pd = (pmem m pd)(dir_index virt := new_pde p)" "pmem m2 p = (\<lambda>_. 0)"
    "f \<noteq> p \<Longrightarrow> f \<noteq> pd \<Longrightarrow> pmem m2 f = pmem m f" for f
    using pd a(6) by (simp_all add: assms(5))
  have use: "in_use m f \<Longrightarrow> in_use m2 f" for f
    using a(5) by (simp add: in_use_def assms(5))
  have usep: "in_use m2 p" using a(1,2,5) by (simp add: in_use_def assms(5))
  note n = new_pde [OF a(2)]
  show "tables_ok m2 pd"
    unfolding tables_ok_def
  proof (intro conjI allI impI)
    show "pmm_inv (vm_pmm m2)" using a(4) assms(5) by simp
    show "in_use m2 pd" using use assms(1) by (simp add: tables_ok_def)
    show "pmem m2 pd i AND PAGE_PS = 0" if "i < 1024" for i
      using that assms(1) n by (auto simp: mem tables_ok_def)
    fix i assume i: "i < 1024" "pmem m2 pd i AND PAGE_PRESENT \<noteq> 0"
    show "in_use m2 (page_down (pmem m2 pd i))" "page_down (pmem m2 pd i) \<noteq> pd"
      using i assms(1) n usep use pd by (auto simp: mem tables_ok_def split: if_splits)
    fix j assume "j < 1024" "pmem m2 pd j AND PAGE_PRESENT \<noteq> 0" "j \<noteq> i"
    then show "page_down (pmem m2 pd j) \<noteq> page_down (pmem m2 pd i)"
      using i assms(1) n fresh unfolding tables_ok_def by (auto simp: mem split: if_splits; metis)
  qed
  show "pmem m2 pd (dir_index virt) = new_pde p" by (simp add: mem)
  show "in_use m f \<Longrightarrow> f \<noteq> pd \<Longrightarrow> pmem m2 f = pmem m f" using mem(3) fresh by blast
  show "in_use m f \<Longrightarrow> in_use m2 f" by (rule use)
  show "pte_of m pd virt = 0" using assms(2) by (simp add: pte_of_def)
  show "pte_of m2 pd v = pte_of m pd v"
  proof (cases "dir_index v = dir_index virt")
    case True
    then show ?thesis using n mem assms(2) by (simp add: pte_of_def)
  next
    case False
    then show ?thesis
      using mem tables_okD(2,3) [OF assms(1), of v] fresh [of "page_down (pmem m pd (dir_index v))"]
      by (simp add: pte_of_def Let_def)
  qed
qed

text \<open>What \<open>vmm_map_page_in_pd\<close> does, on every branch.\<close>

lemma map_in_pd_fail:
  assumes "tables_ok m pd"
  shows "vmm_map_page_in_pd pd virt phys flags m = Some (- 1, m') \<longleftrightarrow>
    m' = m \<and> free_frames (vm_pmm m) = {} \<and> pmem m pd (dir_index virt) AND PAGE_PRESENT = 0 \<and>
    pmem m pd (dir_index virt) AND PAGE_PS = 0"
proof -
  have inv: "pmm_inv (vm_pmm m)" using assms by (simp add: tables_ok_def)
  obtain m1 p where a: "alloc_page m = (m1, p)" by fastforce
  have "p = 0 \<longleftrightarrow> free_frames (vm_pmm m) = {}"
    using alloc_page_zero(2) [OF inv] alloc_page_fresh [OF inv a] a by blast
  moreover have "p = 0 \<Longrightarrow> m1 = m" using alloc_page_zero(1) [OF inv] a by blast
  ultimately show ?thesis
    by (auto simp: vmm_map_page_in_pd_def Let_def a)
qed

lemma map_in_pd_ok:
  assumes t: "tables_ok m pd" and r: "vmm_map_page_in_pd pd virt phys flags m = Some (ret, m')" and "ret \<noteq> - 1"
  shows "ret = 0"
    and "pte_of m' pd v = (if page_down v = page_down virt then phys OR flags else pte_of m pd v)"
    and "in_use m f \<Longrightarrow> f \<notin> structure_frames m pd \<Longrightarrow> pmem m' f = pmem m f"
    and "pte_of m pd virt AND PAGE_PRESENT = 0 \<Longrightarrow> tables_ok m' pd"
proof -
  let ?i = "dir_index virt"
  obtain m1 p where a: "alloc_page m = (m1, p)" by fastforce
  define m2 where "m2 = (if pmem m pd ?i AND PAGE_PRESENT = 0
    then set_entry pd ?i (new_pde p) (zero_page p m1) else m)"
  have inv: "pmm_inv (vm_pmm m)" using t by (simp add: tables_ok_def)
  let ?tab = "page_down (pmem m2 pd ?i)"
  let ?old = "pmem m2 ?tab (table_index virt)"
  let ?m3 = "if ?old AND PAGE_PRESENT \<noteq> 0 then free_page (page_down ?old) m2 else m2"
  have A: "ret = 0 \<and> m' = set_entry ?tab (table_index virt) (phys OR flags) ?m3 \<and>
      (pmem m pd ?i AND PAGE_PRESENT = 0 \<longrightarrow> p \<noteq> 0)"
    using r assms(3)
    by (auto simp: vmm_map_page_in_pd_def Let_def a m2_def simp del: vm_state_ops split: if_splits)
  have B: "tables_ok m2 pd \<and> pmem m2 pd ?i AND PAGE_PRESENT \<noteq> 0 \<and> pte_of m2 pd v = pte_of m pd v \<and>
    (in_use m f \<longrightarrow> f \<noteq> pd \<longrightarrow> pmem m2 f = pmem m f)" for v f
  proof (cases "pmem m pd ?i AND PAGE_PRESENT = 0")
    case True
    then have p: "p \<noteq> 0" using A by simp
    then have "page_aligned p" using alloc_page_fresh [OF inv a] by blast
    then show ?thesis
      using new_table [OF t True a p, of m2] True new_pde(2) by (simp add: m2_def)
  qed (use t m2_def in simp)
  show "ret = 0" using A by simp
  show "pte_of m' pd v = (if page_down v = page_down virt then phys OR flags else pte_of m pd v)"
  proof -
    have "pte_of m' pd v = (if page_down v = page_down virt then phys OR flags else pte_of m2 pd v)"
      by (rule pte_of_set_entry [of m2]) (use A B in simp_all)
    then show ?thesis using B by simp
  qed
  have pd: "?tab \<noteq> pd" using tables_okD(3) [of m2 pd virt] B by blast
  then have pd': "pmem m' pd = pmem m2 pd" using A by simp
  show "pmem m' f = pmem m f" if f: "in_use m f" "f \<notin> structure_frames m pd"
  proof -
    have "f \<noteq> ?tab"
    proof (cases "pmem m pd ?i AND PAGE_PRESENT = 0")
      case True
      then have p: "p \<noteq> 0" using A by simp
      then have "page_aligned p" "f \<noteq> p" using alloc_page_fresh [OF inv a] f(1) by blast+
      then show ?thesis using True new_pde(1) by (simp add: m2_def)
    next
      case False
      then show ?thesis using f(2) dir_index_lt by (auto simp: structure_frames_def m2_def)
    qed
    then show ?thesis using B f A by (simp add: structure_frames_def)
  qed
  assume "pte_of m pd virt AND PAGE_PRESENT = 0"
  then have "pte_of m2 pd virt AND PAGE_PRESENT = 0" using B by simp
  then have "?old AND PAGE_PRESENT = 0" using B by (simp add: pte_of_def Let_def)
  then have m': "m' = set_entry ?tab (table_index virt) (phys OR flags) m2" using A by simp
  have "in_use m' = in_use m2" by (simp add: m' in_use_def fun_eq_iff)
  moreover have "vm_pmm m' = vm_pmm m2" by (simp add: m')
  ultimately show "tables_ok m' pd" using B pd' unfolding tables_ok_def by simp
qed

lemma unmap_exact:
  assumes "tables_ok m pd"
  shows "pte_of (vmm_unmap_page_in_pd pd virt m) pd v =
      (if page_down v = page_down virt \<and> pte_of m pd virt AND PAGE_PRESENT \<noteq> 0 then 0 else pte_of m pd v)"
proof (cases "pmem m pd (dir_index virt) AND PAGE_PRESENT = 0")
  case False
  note pte_of_set_entry [OF assms False refl, of 0]
  moreover have "pte_of m pd virt = pmem m (page_down (pmem m pd (dir_index virt))) (table_index virt)"
    using False by (simp add: pte_of_def)
  ultimately show ?thesis using False by (simp add: vmm_unmap_page_in_pd_def Let_def)
qed (simp add: vmm_unmap_page_in_pd_def pte_of_def)

lemma protect_exact:
  assumes "tables_ok m pd"
  shows "pte_of (vmm_protect_page_in_pd pd virt flags m) pd v =
      (if page_down v = page_down virt \<and> pte_of m pd virt AND PAGE_PRESENT \<noteq> 0
       then protect_pte flags (pte_of m pd virt) else pte_of m pd v)"
proof (cases "pmem m pd (dir_index virt) AND PAGE_PRESENT = 0")
  case False
  note pte_of_set_entry [OF assms False refl, of "protect_pte flags (pte_of m pd virt)"]
  moreover have "pte_of m pd virt = pmem m (page_down (pmem m pd (dir_index virt))) (table_index virt)"
    using False by (simp add: pte_of_def)
  ultimately show ?thesis using False by (simp add: vmm_protect_page_in_pd_def Let_def)
qed (simp add: vmm_protect_page_in_pd_def pte_of_def)

lemma pte_of_cong: "pmem m = pmem m' \<Longrightarrow> pte_of m = pte_of m'"
  by (simp add: pte_of_def fun_eq_iff Let_def)

lemma unmap_and_free_exact:
  assumes "tables_ok m pd"
  shows "pte_of (vmm_unmap_and_free_page_in_pd pd virt m) pd v =
      (if page_down v = page_down virt \<and> pte_of m pd virt AND PAGE_PRESENT \<noteq> 0 then 0 else pte_of m pd v)"
    and "vm_pmm (vmm_unmap_and_free_page_in_pd pd virt m) =
      (if pte_of m pd virt AND PAGE_PRESENT \<noteq> 0 then pmm_free_page (page_down (pte_of m pd virt)) (vm_pmm m)
       else vm_pmm m)"
proof -
  have "pmem (vmm_unmap_and_free_page_in_pd pd virt m) = pmem (vmm_unmap_page_in_pd pd virt m)"
    by (simp add: vmm_unmap_and_free_page_in_pd_def vmm_unmap_page_in_pd_def Let_def)
  then have "pte_of (vmm_unmap_and_free_page_in_pd pd virt m) = pte_of (vmm_unmap_page_in_pd pd virt m)"
    by (rule pte_of_cong)
  then show "pte_of (vmm_unmap_and_free_page_in_pd pd virt m) pd v =
      (if page_down v = page_down virt \<and> pte_of m pd virt AND PAGE_PRESENT \<noteq> 0 then 0 else pte_of m pd v)"
    using unmap_exact [OF assms, of virt v] by simp
  show "vm_pmm (vmm_unmap_and_free_page_in_pd pd virt m) =
      (if pte_of m pd virt AND PAGE_PRESENT \<noteq> 0 then pmm_free_page (page_down (pte_of m pd virt)) (vm_pmm m)
       else vm_pmm m)"
    by (simp add: vmm_unmap_and_free_page_in_pd_def pte_of_def Let_def)
qed

text \<open>The bits of a protected entry.\<close>

lemma and_flag: "(x :: u32) AND 2 ^ k \<noteq> 0 \<longleftrightarrow> bit x k"
  by (simp add: and_exp_eq_0_iff_not_bit)

lemma bit_flag: "bit (2 ^ k :: u32) n \<longleftrightarrow> n = k \<and> k < 32"
  by (auto simp: bit_exp_iff possible_bit_def)

lemma bit_low: "unat (f :: u32) < 2 ^ k \<Longrightarrow> k \<le> n \<Longrightarrow> \<not> bit f n"
proof -
  assume "unat f < 2 ^ k" "k \<le> n"
  then have "unat (take_bit k f) = unat f"
    unfolding unsigned_take_bit_eq by (simp add: take_bit_eq_mod)
  then have "take_bit k f = f" by (simp only: word_unat_eq_iff)
  then show "\<not> bit f n" using \<open>k \<le> n\<close> bit_take_bit_iff [of k f n] by simp
qed

lemma protect_pte_bits:
  assumes "unat flags < 4096"
  shows "page_down (protect_pte flags pte) = page_down pte"
    and "protect_pte flags pte AND PAGE_COW \<noteq> 0 \<longleftrightarrow> pte AND PAGE_COW \<noteq> 0 \<or> flags AND PAGE_COW \<noteq> 0"
    and "protect_pte flags pte AND PAGE_WRITE \<noteq> 0 \<longleftrightarrow> flags AND PAGE_WRITE \<noteq> 0 \<and> pte AND PAGE_COW = 0"
proof -
  note f [simp] = and_flag [of _ 9, simplified] and_flag [of _ 1, simplified]
    and_exp_eq_0_iff_not_bit [of _ 9, simplified]
  have low: "12 \<le> n \<Longrightarrow> \<not> bit flags n" for n using bit_low [of flags 12] assms by simp
  have c: "bit (0xFFF :: u32) n \<longleftrightarrow> n < 12" "bit (0x200 :: u32) n \<longleftrightarrow> n = 9"
    "bit (2 :: u32) n \<longleftrightarrow> n = 1" "bit (0x118 :: u32) n \<longrightarrow> n < 12 \<and> n \<noteq> 1 \<and> n \<noteq> 9" for n
  proof -
    have m: "(0xFFF :: u32) = mask 12" by (simp add: mask_eq_exp_minus_1)
    show "bit (0xFFF :: u32) n \<longleftrightarrow> n < 12" unfolding m by (auto simp: bit_mask_iff possible_bit_def)
    show "bit (0x200 :: u32) n \<longleftrightarrow> n = 9" using bit_flag [of 9 n] by simp
    show "bit (2 :: u32) n \<longleftrightarrow> n = 1" using bit_flag [of 1 n] by simp
    have "bit (0x118 :: u32) n \<Longrightarrow> n < 12" using bit_low [of "0x118" 12 n] by fastforce
    moreover have "\<not> bit (0x118 :: u32) 1" "\<not> bit (0x118 :: u32) 9" by simp_all
    ultimately show "bit (0x118 :: u32) n \<longrightarrow> n < 12 \<and> n \<noteq> 1 \<and> n \<noteq> 9" by blast
  qed
  show "page_down (protect_pte flags pte) = page_down pte"
    by (rule bit_word_eqI) (use low c in \<open>auto simp: protect_pte_def Let_def bit_simps\<close>)
  show "protect_pte flags pte AND PAGE_COW \<noteq> 0 \<longleftrightarrow> pte AND PAGE_COW \<noteq> 0 \<or> flags AND PAGE_COW \<noteq> 0"
    using c by (auto simp: protect_pte_def Let_def bit_simps)
  show "protect_pte flags pte AND PAGE_WRITE \<noteq> 0 \<longleftrightarrow> flags AND PAGE_WRITE \<noteq> 0 \<and> pte AND PAGE_COW = 0"
    using c by (auto simp: protect_pte_def Let_def bit_simps)
qed

lemma unat_refcount: "unat p = 4096 * i \<Longrightarrow> unat (pmm_get_refcount s p) = frame_ref s i"
  using frame_addr [of p i] by (simp add: pmm_get_refcount_def Let_def frame_ref_def word_le_nat_alt)

lemma resolve_cow_shared:
  assumes t: "tables_ok m pd" and pde: "pmem m pd (dir_index addr) AND PAGE_PRESENT \<noteq> 0"
    and r: "resolve_cow (page_down (pmem m pd (dir_index addr))) (table_index addr) m = (PF_RESOLVED, m')"
    and p: "unat (page_down (pte_of m pd addr)) = 4096 * i" and i: "1 < frame_ref (vm_pmm m) i"
  obtains q j where "unat q = 4096 * j" and "j \<in> free_frames (vm_pmm m)"
    and "\<And>v. pte_of m' pd v = (if page_down v = page_down addr
      then q OR private_flags (pte_of m pd addr) else pte_of m pd v)"
    and "pmem m' q = pmem m (page_down (pte_of m pd addr))"
    and "frame_ref (vm_pmm m') = (frame_ref (vm_pmm m))(i := frame_ref (vm_pmm m) i - 1, j := 1)"
    and "\<And>f. in_use m f \<Longrightarrow> f \<noteq> page_down (pmem m pd (dir_index addr)) \<Longrightarrow> pmem m' f = pmem m f"
    and "tables_ok m' pd"
proof -
  let ?tab = "page_down (pmem m pd (dir_index addr))"
  let ?old = "page_down (pte_of m pd addr)"
  have inv: "pmm_inv (vm_pmm m)" using t by (simp add: tables_ok_def)
  have pte: "pte_of m pd addr = pmem m ?tab (table_index addr)" using pde by (simp add: pte_of_def Let_def)
  obtain m1 q where a: "alloc_page m = (m1, q)" by fastforce
  have "\<not> pmm_get_refcount (vm_pmm m) ?old \<le> 1"
    using i unat_refcount [OF p] by (simp add: word_le_nat_alt)
  then have q: "q \<noteq> 0" and m': "m' = set_entry ?tab (table_index addr) (q OR private_flags (pte_of m pd addr))
      (dec_ref ?old (copy_page q ?old m1))"
    using r by (auto simp: resolve_cow_def Let_def a pte split: if_splits)
  obtain j where j: "unat q = 4096 * j" "page_aligned q" "j \<in> free_frames (vm_pmm m)"
    "frame_ref (vm_pmm m) j = 0"
    "pmm_inv (vm_pmm m1)" "free_frames (vm_pmm m1) = free_frames (vm_pmm m) - {j}"
    "frame_ref (vm_pmm m1) = (frame_ref (vm_pmm m))(j := 1)" "pmem m1 = pmem m"
    "boot_page_directory m1 = boot_page_directory m"
    and fresh: "\<forall>f. in_use m f \<longrightarrow> f \<noteq> q"
    using alloc_page_fresh [OF inv a q] .
  have ij: "i \<noteq> j" using i j(4) by auto
  have "0 < frame_ref (vm_pmm m1) i" using i ij j(7) by simp
  note dl = pmm.dec_live [OF j(5) p this]
  have fi: "frame_ref (vm_pmm m1) i = frame_ref (vm_pmm m) i" using ij j(7) by simp
  have "vm_pmm m' = pmm_dec_ref ?old (vm_pmm m1)" by (simp add: m')
  then have d: "pmm_inv (vm_pmm m')" "frame_ref (vm_pmm m') = (frame_ref (vm_pmm m))(i := frame_ref (vm_pmm m) i - 1, j := 1)"
    "free_frames (vm_pmm m') = free_frames (vm_pmm m) - {j}"
    using dl ij i by (simp_all add: fi) (auto simp: j(6,7) fun_eq_iff)
  have qtab: "q \<noteq> ?tab" using fresh tables_okD(2) [OF t pde] by blast
  have qpd: "q \<noteq> pd" using fresh t by (auto simp: tables_ok_def)
  let ?m = "copy_page q ?old m1"
  have memq: "f \<noteq> q \<Longrightarrow> pmem ?m f = pmem m f" for f by (simp add: j(8))
  have use: "in_use m f \<Longrightarrow> in_use m' f" for f using d(3) by (simp add: in_use_def)
  show thesis
  proof (rule that [OF j(1,3) _ _ d(2)])
    show "pmem m' q = pmem m ?old" using qtab by (simp add: m' j(8))
    show "pmem m' f = pmem m f" if "in_use m f" "f \<noteq> ?tab" for f
      using that fresh by (simp add: m' j(8))
    have pd': "pmem m' pd = pmem m pd" using qpd tables_okD(3) [OF t pde] by (simp add: m' j(8))
    show "tables_ok m' pd"
      using t d(1) use unfolding tables_ok_def pd' by blast
    fix v
    have tab: "pmem m pd (dir_index v) AND PAGE_PRESENT \<noteq> 0 \<Longrightarrow> page_down (pmem m pd (dir_index v)) \<noteq> q"
      using fresh tables_okD(2) [OF t] by blast
    show "pte_of m' pd v = (if page_down v = page_down addr
      then q OR private_flags (pte_of m pd addr) else pte_of m pd v)"
      using same_page [of v addr] tab tables_okD(4) [OF t pde, of v] pde
      by (auto simp: pte_of_def Let_def pd') (auto simp: m' j(8) pte_of_def Let_def)
  qed
qed

lemma resolve_cow_sole:
  assumes t: "tables_ok m pd" and pde: "pmem m pd (dir_index addr) AND PAGE_PRESENT \<noteq> 0"
    and p: "unat (page_down (pte_of m pd addr)) = 4096 * i" and i: "frame_ref (vm_pmm m) i \<le> 1"
  shows "resolve_cow (page_down (pmem m pd (dir_index addr))) (table_index addr) m = (PF_RESOLVED, m') \<Longrightarrow>
    vm_pmm m' = vm_pmm m \<and> (\<forall>v. pte_of m' pd v = (if page_down v = page_down addr
      then page_down (pte_of m pd addr) OR private_flags (pte_of m pd addr) else pte_of m pd v))"
proof -
  assume r: "resolve_cow (page_down (pmem m pd (dir_index addr))) (table_index addr) m = (PF_RESOLVED, m')"
  let ?tab = "page_down (pmem m pd (dir_index addr))"
  have pte: "pte_of m pd addr = pmem m ?tab (table_index addr)" using pde by (simp add: pte_of_def Let_def)
  have "pmm_get_refcount (vm_pmm m) (page_down (pte_of m pd addr)) \<le> 1"
    using i unat_refcount [OF p] by (simp add: word_le_nat_alt)
  then have "m' = set_entry ?tab (table_index addr)
      (page_down (pte_of m pd addr) OR private_flags (pte_of m pd addr)) m"
    using r by (simp add: resolve_cow_def Let_def pte)
  then show ?thesis using pte_of_set_entry [OF t pde] by simp
qed

text \<open>When a write fault is resolved, the address was in a writable, non-executable area of the task.\<close>

lemma write_fault_guards:
  assumes "vmm_handle_user_write_fault task addr m = (PF_RESOLVED, m')"
  shows "pdir task \<noteq> 0" and "addr < KERNEL_SPACE_START" and "pdir task \<noteq> boot_page_directory m"
    and "\<exists>vma. vma_find (vma_head task) addr = Some vma \<and> v_flags vma AND VMA_READ \<noteq> 0 \<and>
      v_flags vma AND VMA_WRITE \<noteq> 0 \<and> v_flags vma AND VMA_EXEC = 0"
    and "pmem m (pdir task) (dir_index addr) AND PAGE_PRESENT \<noteq> 0"
    and "pte_of m (pdir task) addr AND PAGE_PRESENT \<noteq> 0"
    and "pte_of m (pdir task) addr AND PAGE_USER \<noteq> 0"
    and "pte_of m (pdir task) addr AND PAGE_COW \<noteq> 0 \<Longrightarrow>
      resolve_cow (page_down (pmem m (pdir task) (dir_index addr))) (table_index addr) m = (PF_RESOLVED, m')"
  using assms unfolding vmm_handle_user_write_fault_def pte_of_def
  by (auto simp: Let_def not_le split: if_splits option.splits)

end
