(* ===== verification/Paging_Spec.thy ===== *)
theory Paging_Spec
  imports Paging
begin

text \<open>
  What the page-table code guarantees: mapping and protection change exactly one translation, a
  copy-on-write fault gives the faulting task a private copy, demand paging hands out zeroed
  frames, and no user-mode access outside the task's areas is ever resumed.
\<close>

unbundle bit_operations_syntax

section \<open>A small machine\<close>

text \<open>
  Eight frames: 1 is free, 3 is a page directory, 4 its first page table, 5 a page shared
  copy-on-write by two owners and mapped at \<open>0x1000\<close>; a task whose only area is \<open>[0x1000, 0x4000)\<close>.
\<close>

definition vm_demo_pmm :: pmm_state where
  "vm_demo_pmm = pmm_demo\<lparr>pmm_refcounts := (\<lambda>_. 0)(3 := 1, 4 := 1, 5 := 2), used_pages := 3,
     total_available_pages := 4\<rparr>"

definition vm_demo :: vm_state where
  "vm_demo = \<lparr>vm_pmm = vm_demo_pmm,
     pmem = (\<lambda>_ _. 0)(0x3000 := (\<lambda>_. 0)(0 := 0x4007), 0x4000 := (\<lambda>_. 0)(1 := 0x5205)),
     boot_page_directory = 0x2000, kstack_bitmap = (\<lambda>_. 0)\<rparr>"

definition task_demo :: fault_task where
  "task_demo = \<lparr>pdir = 0x3000, vma_head = vma_demo\<rparr>"

lemma free_frames_vm_demo [simp]: "free_frames vm_demo_pmm = {1}"
proof -
  have "free_frames vm_demo_pmm = free_frames pmm_demo"
    by (auto simp: vm_demo_pmm_def free_frames_def free_frame_def bitmap_test_def)
  then show ?thesis by simp
qed

lemma frame_ref_vm_demo [simp]: "frame_ref vm_demo_pmm = (\<lambda>_. 0)(3 := 1, 4 := 1, 5 := 2)"
  by (auto simp: frame_ref_def vm_demo_pmm_def pmm_demo_def fun_eq_iff)

lemma pmm_inv_vm_demo [simp]: "pmm_inv vm_demo_pmm"
proof -
  have "live_frames vm_demo_pmm = {3, 4, 5}" by (auto simp: live_frames_def)
  then show ?thesis by (simp add: pmm_inv_def) (simp add: vm_demo_pmm_def pmm_demo_def)
qed

lemma vm_pmm_demo [simp]: "vm_pmm vm_demo = vm_demo_pmm"
  by (simp add: vm_demo_def)

lemma tables_ok_demo [simp]: "tables_ok vm_demo 0x3000"
proof -
  have m: "pmem vm_demo 0x3000 i = (if i = 0 then 0x4007 else 0)" for i by (simp add: vm_demo_def)
  have "page_down 0x4007 = 0x4000" by (simp add: page_down_def)
  then show ?thesis by (simp add: tables_ok_def m in_use_def)
qed

lemma pte_of_demo: "pte_of vm_demo 0x3000 0x1000 = 0x5205"
  by (simp add: pte_of_def vm_demo_def dir_index_def table_index_def page_down_def)

section \<open>Mapping, unmapping, protection\<close>

text \<open>
  C25. \<open>vmm_map_page_in_pd\<close> changes exactly one translation. In a directory whose tables are frames of
  their own it never stops the kernel; on success the page of \<open>virt\<close> translates to \<open>phys | flags\<close>,
  every other address translates as before and no frame in use is touched except the directory and
  its tables; on failure (\<open>-1\<close>), which happens only when a table is needed and no frame is free,
  nothing has changed. If the page was not mapped before, the tables are well-formed again.
\<close>

theorem vmm_map_page_in_pd_exact:
  assumes "tables_ok m pd"
  shows "\<exists>ret m'. vmm_map_page_in_pd pd virt phys flags m = Some (ret, m') \<and>
    (ret = 0 \<and>
       (\<forall>v. pte_of m' pd v = (if page_down v = page_down virt then phys OR flags else pte_of m pd v)) \<and>
       (\<forall>f. in_use m f \<and> f \<notin> structure_frames m pd \<longrightarrow> pmem m' f = pmem m f) \<and>
       (pte_of m pd virt AND PAGE_PRESENT = 0 \<longrightarrow> tables_ok m' pd) \<or>
     ret = - 1 \<and> m' = m \<and> free_frames (vm_pmm m) = {} \<and>
       pmem m pd (dir_index virt) AND PAGE_PRESENT = 0)"
proof (cases "vmm_map_page_in_pd pd virt phys flags m")
  case None
  have "pmem m pd (dir_index virt) AND PAGE_PS \<noteq> 0"
    using None by (auto simp: vmm_map_page_in_pd_def Let_def split: if_splits prod.splits)
  then show ?thesis using assms dir_index_lt by (auto simp: tables_ok_def)
next
  case (Some r)
  obtain ret m' where r: "r = (ret, m')" by fastforce
  show ?thesis
  proof (cases "ret = - 1")
    case True
    then show ?thesis using map_in_pd_fail [OF assms, of virt phys flags m'] Some r by blast
  next
    case False
    then show ?thesis using map_in_pd_ok [OF assms, of virt phys flags ret m'] Some r by blast
  qed
qed

theorem vmm_map_page_in_pd_exact_witness:
  "\<exists>ret m'. vmm_map_page_in_pd 0x3000 0x2000 0x1000 7 vm_demo = Some (ret, m') \<and>
     (ret = 0 \<and> pte_of m' 0x3000 0x2ABC = 0x1007 \<and> pte_of m' 0x3000 0x1000 = 0x5205 \<or> ret = - 1)"
proof -
  have "page_down 0x2ABC = page_down 0x2000" "page_down 0x1000 \<noteq> page_down 0x2000"
    by (simp_all add: page_down_def)
  then show ?thesis
    using vmm_map_page_in_pd_exact [OF tables_ok_demo, of "0x2000" "0x1000" 7]
    by (auto simp: pte_of_demo)
qed

text \<open>
  C39. \<open>vmm_protect_page_in_pd\<close> changes the access rights of one mapped page and nothing else: the
  page keeps its frame, it stays copy-on-write if it was, and it is writable afterwards exactly when
  that was asked for and the page is not copy-on-write; unmapped pages stay unmapped.
\<close>

theorem vmm_protect_page_in_pd_exact:
  assumes "tables_ok m pd" and "unat flags < 4096"
  shows "let m' = vmm_protect_page_in_pd pd virt flags m; old = pte_of m pd virt; new = pte_of m' pd virt
    in (page_down v = page_down virt \<or> pte_of m' pd v = pte_of m pd v) \<and>
       (if old AND PAGE_PRESENT = 0 then new = old
        else page_down new = page_down old \<and>
          (new AND PAGE_COW \<noteq> 0) = (old AND PAGE_COW \<noteq> 0 \<or> flags AND PAGE_COW \<noteq> 0) \<and>
          (new AND PAGE_WRITE \<noteq> 0) = (flags AND PAGE_WRITE \<noteq> 0 \<and> old AND PAGE_COW = 0))"
  using protect_exact [OF assms(1), of virt flags] protect_pte_bits [OF assms(2), of "pte_of m pd virt"]
  by (simp add: Let_def)

theorem vmm_protect_page_in_pd_exact_witness:
  "pte_of (vmm_protect_page_in_pd 0x3000 0x1000 7 vm_demo) 0x3000 0x1000 AND PAGE_WRITE = 0"
  using vmm_protect_page_in_pd_exact [OF tables_ok_demo, of 7 "0x1000" 0] by (simp add: Let_def pte_of_demo)

text \<open>
  Unmapping with release frees the frame whatever its reference count: on a page shared
  copy-on-write the other owner keeps a translation to a frame the allocator will hand out again.
\<close>

lemma unmap_and_free_ignores_sharing:
  "free_frames (vm_pmm (vmm_unmap_and_free_page_in_pd 0x3000 0x1000 vm_demo)) = {1, 5}"
proof -
  have "vm_pmm (vmm_unmap_and_free_page_in_pd 0x3000 0x1000 vm_demo) = pmm_free_page 0x5000 vm_demo_pmm"
    using unmap_and_free_exact(2) [OF tables_ok_demo, of "0x1000"] by (simp add: pte_of_demo page_down_def)
  moreover have "unat (0x5000 :: u32) = 4096 * 5" by simp
  moreover have "bitmap_test vm_demo_pmm 5" "unat (pmm_max_page vm_demo_pmm) = 8"
    by (simp_all add: vm_demo_pmm_def pmm_demo_def bitmap_test_def)
  ultimately show ?thesis
    using free_frames_drop [of 5 vm_demo_pmm] by (auto simp: pmm_free_page_eq)
qed

section \<open>Copy-on-write faults\<close>

text \<open>
  C2. A resolved write fault on a page shared copy-on-write gives the task a private copy: a frame that
  was free now holds the old content, the page translates to it writable and no longer
  copy-on-write, the old frame has lost exactly one reference, no other translation and no other
  frame in use (the page's table apart) has changed, and the tables are well-formed again.
\<close>

theorem cow_fault_private_copy:
  assumes "tables_ok m (pdir task)"
    and "vmm_handle_user_write_fault task addr m = (PF_RESOLVED, m')"
    and "pte_of m (pdir task) addr AND PAGE_COW \<noteq> 0"
    and "unat (page_down (pte_of m (pdir task) addr)) = 4096 * i"
    and "1 < frame_ref (vm_pmm m) i"
  shows "\<exists>q j. unat q = 4096 * j \<and> j \<in> free_frames (vm_pmm m) \<and>
    (\<forall>v. pte_of m' (pdir task) v = (if page_down v = page_down addr
        then q OR private_flags (pte_of m (pdir task) addr) else pte_of m (pdir task) v)) \<and>
    pmem m' q = pmem m (page_down (pte_of m (pdir task) addr)) \<and>
    frame_ref (vm_pmm m') = (frame_ref (vm_pmm m))(i := frame_ref (vm_pmm m) i - 1, j := 1) \<and>
    (\<forall>f. in_use m f \<and> f \<noteq> page_down (pmem m (pdir task) (dir_index addr)) \<longrightarrow> pmem m' f = pmem m f) \<and>
    tables_ok m' (pdir task)"
proof -
  note g = write_fault_guards [OF assms(2)]
  obtain q j where "unat q = 4096 * j" "j \<in> free_frames (vm_pmm m)"
    "\<And>v. pte_of m' (pdir task) v = (if page_down v = page_down addr
        then q OR private_flags (pte_of m (pdir task) addr) else pte_of m (pdir task) v)"
    "pmem m' q = pmem m (page_down (pte_of m (pdir task) addr))"
    "frame_ref (vm_pmm m') = (frame_ref (vm_pmm m))(i := frame_ref (vm_pmm m) i - 1, j := 1)"
    "\<And>f. in_use m f \<Longrightarrow> f \<noteq> page_down (pmem m (pdir task) (dir_index addr)) \<Longrightarrow> pmem m' f = pmem m f"
    "tables_ok m' (pdir task)"
    by (rule resolve_cow_shared [OF assms(1) g(5) g(8) [OF assms(3)] assms(4,5)]) blast
  then show ?thesis by blast
qed


text \<open>The demo task's shared page.\<close>

lemma vma_find_demo: "vma_find vma_demo 0x1234 = Some (hd vma_demo)"
  by (simp add: vma_find_def vma_demo_def page_down_def)

theorem cow_fault_private_copy_witness:
  "\<exists>m' q. vmm_handle_user_write_fault task_demo 0x1234 vm_demo = (PF_RESOLVED, m') \<and>
     pte_of m' 0x3000 0x1000 = q OR 0x007 \<and> frame_ref (vm_pmm m') 5 = 1"
proof -
  have p: "pte_of vm_demo 0x3000 0x1234 = 0x5205" and pt: "pdir task_demo = 0x3000"
    by (simp_all add: task_demo_def pte_of_def vm_demo_def dir_index_def table_index_def page_down_def)
  have mem: "pmem vm_demo 0x3000 (dir_index 0x1234) = 0x4007" "pmem vm_demo 0x4000 (table_index 0x1234) = 0x5205"
    by (simp_all add: vm_demo_def dir_index_def table_index_def)
  have pd: "page_down 0x4007 = 0x4000" "page_down 0x5205 = 0x5000" "page_down 0x1234 = page_down 0x1000"
    by (simp_all add: page_down_def)
  have i: "unat (0x5000 :: u32) = 4096 * 5" by simp
  obtain m1 q where a: "alloc_page vm_demo = (m1, q)" by fastforce
  have "q \<noteq> 0" using alloc_page_zero(2) [of vm_demo m1] a by auto
  moreover have "\<not> pmm_get_refcount (vm_pmm vm_demo) 0x5000 \<le> 1"
    using unat_refcount [OF i, of vm_demo_pmm] by (simp add: word_le_nat_alt)
  ultimately obtain m' where r: "resolve_cow 0x4000 (table_index 0x1234) vm_demo = (PF_RESOLVED, m')"
    by (simp add: resolve_cow_def Let_def mem pd a)
  then have h: "vmm_handle_user_write_fault task_demo 0x1234 vm_demo = (PF_RESOLVED, m')"
    using mem pd by (simp add: vmm_handle_user_write_fault_def task_demo_def vma_find_demo Let_def)
      (simp add: vma_demo_def vm_demo_def)
  have f: "private_flags 0x5205 = 7" by (simp add: private_flags_def)
  have t: "tables_ok vm_demo (pdir task_demo)" using pt by simp
  have c: "pte_of vm_demo (pdir task_demo) 0x1234 AND PAGE_COW \<noteq> 0"
    "unat (page_down (pte_of vm_demo (pdir task_demo) 0x1234)) = 4096 * 5"
    "1 < frame_ref (vm_pmm vm_demo) 5" by (simp_all add: p pt pd)
  obtain q j where "j \<in> free_frames (vm_pmm vm_demo)"
    "\<forall>v. pte_of m' 0x3000 v = (if page_down v = page_down 0x1234 then q OR 7 else pte_of vm_demo 0x3000 v)"
    "frame_ref (vm_pmm m') = (frame_ref (vm_pmm vm_demo))(5 := frame_ref (vm_pmm vm_demo) 5 - 1, j := 1)"
    using cow_fault_private_copy [OF t h c] unfolding pt p f by blast
  then show ?thesis using h pd(3) by auto
qed

text \<open>A write to the unmapped page at \<open>0x2000\<close> finds a free frame and is resumed.\<close>

lemma page_fault_demo: "\<exists>m'. page_fault_handler 0x6 0x2000 (Some task_demo) vm_demo = (Resume, m')"
proof -
  have m: "pmem vm_demo 0x3000 (dir_index 0x2000) = 0x4007" "pmem vm_demo 0x4000 (table_index 0x2000) = 0"
    and p: "page_down 0x2000 = 0x2000" "page_down 0x4007 = 0x4000"
    by (simp_all add: vm_demo_def dir_index_def table_index_def page_down_def)
  have v: "vma_find vma_demo 0x2000 = Some (hd vma_demo)" "v_flags (hd vma_demo) = 3"
    by (simp_all add: vma_find_def vma_demo_def page_down_def)
  obtain m1 q where a: "alloc_page vm_demo = (m1, q)" by fastforce
  have q: "q \<noteq> 0" using alloc_page_zero(2) [of vm_demo m1] a by auto
  then have inv: "pmm_inv (vm_pmm m1)" "pmem m1 = pmem vm_demo" "\<forall>f. in_use vm_demo f \<longrightarrow> f \<noteq> q"
    using alloc_page_fresh [OF _ a q] by auto
  have n: "0x3000 \<noteq> q" "0x4000 \<noteq> q" using inv(3) by (auto simp: in_use_def)
  then have "fst (demand_map task_demo (hd vma_demo) 0x2000 vm_demo) = Resume"
    using q m p by (simp add: demand_map_def a Let_def task_demo_def vmm_map_page_in_pd_def inv(2))
  moreover have "page_fault_handler 0x6 0x2000 (Some task_demo) vm_demo =
      demand_map task_demo (hd vma_demo) 0x2000 vm_demo"
    by (simp add: page_fault_handler_def user_fault_def demand_page_def v task_demo_def)
      (simp add: vm_demo_def)
  ultimately show ?thesis by (metis prod.collapse)
qed

text \<open>
  C23. The page fault handler lets a user-mode access continue only when the task's areas allow it: the
  address is outside the NULL page and below the kernel, the task has an address space of its own,
  and the area that holds the address is readable, writable if the access is a write, and not both
  writable and executable. In every other case the task is killed or the kernel stops.
\<close>

theorem user_fault_authorised:
  assumes "page_fault_handler err addr (Some task) m = (Resume, m')" and "err AND 0x4 \<noteq> 0"
  shows "0x1000 \<le> addr \<and> addr < KERNEL_SPACE_START \<and> pdir task \<noteq> 0 \<and> pdir task \<noteq> boot_page_directory m \<and>
    (err AND 0x1 = 0 \<or> err AND 0x2 \<noteq> 0) \<and>
    (\<exists>vma. vma_find (vma_head task) addr = Some vma \<and> v_flags vma AND VMA_READ \<noteq> 0 \<and>
       (err AND 0x2 = 0 \<or> v_flags vma AND VMA_WRITE \<noteq> 0) \<and>
       (v_flags vma AND VMA_WRITE = 0 \<or> v_flags vma AND VMA_EXEC = 0))"
proof -
  have u: "user_fault (err AND 0x1 \<noteq> 0) (err AND 0x2 \<noteq> 0) task addr m = (Resume, m')"
    and g: "0x1000 \<le> addr" "addr < KERNEL_SPACE_START" "pdir task \<noteq> 0"
    using assms unfolding page_fault_handler_def by (auto simp: Let_def not_less not_le split: if_splits)
  show ?thesis
  proof (cases "err AND 0x1 \<noteq> 0 \<and> err AND 0x2 \<noteq> 0")
    case True
    then obtain m'' where "vmm_handle_user_write_fault task addr m = (PF_RESOLVED, m'')"
      using u by (auto simp: user_fault_def split: if_splits prod.splits)
    from write_fault_guards(3,4) [OF this] g True show ?thesis by blast
  next
    case False
    then show ?thesis using u g unfolding user_fault_def demand_page_def
      by (auto split: if_splits option.splits)
  qed
qed


theorem user_fault_authorised_witness:
  "\<exists>m'. page_fault_handler 0x6 0x2000 (Some task_demo) vm_demo = (Resume, m') \<and> pdir task_demo \<noteq> 0"
proof -
  obtain m' where "page_fault_handler 0x6 0x2000 (Some task_demo) vm_demo = (Resume, m')"
    using page_fault_demo by blast
  with user_fault_authorised [OF this] show ?thesis by simp
qed

lemma err_bits: "(err :: u32) AND 0x5 = 0x4 \<Longrightarrow> err AND 0x4 \<noteq> 0 \<and> err AND 0x1 = 0"
proof -
  assume e: "err AND 0x5 = 0x4"
  have "err AND 0x4 = (err AND 0x5) AND 0x4" "err AND 0x1 = (err AND 0x5) AND 0x1"
    by (simp_all add: and.assoc)
  then show ?thesis by (simp add: e)
qed

text \<open>
  C37. Demand paging: when a user-mode access to a page that is not present is resumed, the page is
  mapped, user-accessible and writable exactly when its area is, to a frame that was free and now
  holds zeros only; no other translation and no page of the task or of anyone else has changed.
\<close>

theorem demand_page_maps_zeros:
  assumes "tables_ok m (pdir task)" and "pte_of m (pdir task) addr AND PAGE_PRESENT = 0"
    and "page_fault_handler err addr (Some task) m = (Resume, m')" and "err AND 0x5 = 0x4"
  shows "\<exists>q j vma. unat q = 4096 * j \<and> j \<in> free_frames (vm_pmm m) \<and> vma_find (vma_head task) addr = Some vma \<and>
    (\<forall>v. pte_of m' (pdir task) v = (if page_down v = page_down addr
        then q OR (if v_flags vma AND VMA_WRITE \<noteq> 0 then 7 else 5) else pte_of m (pdir task) v)) \<and>
    pmem m' q = (\<lambda>_. 0) \<and>
    (\<forall>f. in_use m f \<and> f \<notin> structure_frames m (pdir task) \<longrightarrow> pmem m' f = pmem m f) \<and>
    tables_ok m' (pdir task)"
proof -
  let ?pd = "pdir task"
  have e: "err AND 0x4 \<noteq> 0" "err AND 0x1 = 0" using err_bits [OF assms(4)] by simp_all
  obtain vma where v: "vma_find (vma_head task) addr = Some vma"
    and d: "demand_map task vma addr m = (Resume, m')"
    using assms(3) e unfolding page_fault_handler_def user_fault_def demand_page_def
    by (auto simp: Let_def split: if_splits option.splits)
  obtain m1 q where a: "alloc_page m = (m1, q)" by fastforce
  define fl :: u32 where "fl = (if v_flags vma AND VMA_WRITE \<noteq> 0 then 7 else 5)"
  have q: "q \<noteq> 0" and map: "vmm_map_page_in_pd ?pd (page_down addr) q fl (zero_page q m1) = Some (0, m')"
    using d by (auto simp: demand_map_def a fl_def Let_def split: if_splits option.splits)
  have inv: "pmm_inv (vm_pmm m)" using assms(1) by (simp add: tables_ok_def)
  obtain j where j: "unat q = 4096 * j" "page_aligned q" "j \<in> free_frames (vm_pmm m)"
    "frame_ref (vm_pmm m) j = 0"
    "pmm_inv (vm_pmm m1)" "free_frames (vm_pmm m1) = free_frames (vm_pmm m) - {j}"
    "frame_ref (vm_pmm m1) = (frame_ref (vm_pmm m))(j := 1)" "pmem m1 = pmem m"
    "boot_page_directory m1 = boot_page_directory m"
    and fresh: "\<forall>f. in_use m f \<longrightarrow> f \<noteq> q"
    using alloc_page_fresh [OF inv a q] .
  let ?m = "zero_page q m1"
  have use: "in_use m f \<Longrightarrow> in_use ?m f" for f using j(6) by (simp add: in_use_def)
  have useq: "in_use ?m q" using j(1,2,6) by (simp add: in_use_def)
  have same: "in_use m f \<Longrightarrow> pmem ?m f = pmem m f" for f using fresh by (auto simp: j(8))
  have pd: "pmem ?m ?pd = pmem m ?pd" using same assms(1) by (simp add: tables_ok_def)
  have sf: "structure_frames ?m ?pd = structure_frames m ?pd" by (simp only: structure_frames_def pd)
  have t: "tables_ok ?m ?pd"
    using assms(1) use j(5) unfolding tables_ok_def pd by simp
  have q': "q \<notin> structure_frames m ?pd"
    using fresh assms(1) unfolding structure_frames_def tables_ok_def by blast
  have pte: "pte_of ?m ?pd v = pte_of m ?pd v" for v
  proof (cases "pmem m ?pd (dir_index v) AND PAGE_PRESENT = 0")
    case False
    then have "pmem ?m (page_down (pmem m ?pd (dir_index v))) = pmem m (page_down (pmem m ?pd (dir_index v)))"
      using same tables_okD(2) [OF assms(1)] by blast
    then show ?thesis by (simp only: pte_of_def Let_def pd)
  qed (simp only: pte_of_def Let_def pd simp_thms if_True)
  note ok = map_in_pd_ok [OF t map]
  have "\<forall>v. pte_of m' ?pd v = (if page_down v = page_down addr then q OR fl else pte_of m ?pd v)"
    using ok(2) pte by simp
  moreover have "pmem m' q = (\<lambda>_. 0)" using ok(3) [OF _ useq] q' sf by simp
  moreover have "\<forall>f. in_use m f \<and> f \<notin> structure_frames m ?pd \<longrightarrow> pmem m' f = pmem m f"
    using ok(3) use same sf by auto
  moreover have "page_down (page_down addr) = page_down addr" by simp
  then have "dir_index (page_down addr) = dir_index addr" "table_index (page_down addr) = table_index addr"
    using same_page [of "page_down addr" addr] by simp_all
  then have "pte_of ?m ?pd (page_down addr) = pte_of ?m ?pd addr" by (simp only: pte_of_def)
  then have "tables_ok m' ?pd" using ok(4) pte assms(2) by simp
  ultimately show ?thesis using j(1,3) v unfolding fl_def by blast
qed


theorem demand_page_maps_zeros_witness:
  "\<exists>m' q. page_fault_handler 0x6 0x2000 (Some task_demo) vm_demo = (Resume, m') \<and>
     pte_of m' 0x3000 0x2000 = q OR 7 \<and> pmem m' q = (\<lambda>_. 0)"
proof -
  obtain m' where r: "page_fault_handler 0x6 0x2000 (Some task_demo) vm_demo = (Resume, m')"
    using page_fault_demo by blast
  have t: "tables_ok vm_demo (pdir task_demo)" and p: "pdir task_demo = 0x3000"
    and n: "pte_of vm_demo (pdir task_demo) 0x2000 AND PAGE_PRESENT = 0"
  proof -
    have "pte_of vm_demo 0x3000 0x2000 = 0"
      by (simp add: pte_of_def vm_demo_def dir_index_def table_index_def page_down_def)
    then show "tables_ok vm_demo (pdir task_demo)" and "pdir task_demo = 0x3000"
      and "pte_of vm_demo (pdir task_demo) 0x2000 AND PAGE_PRESENT = 0" by (simp_all add: task_demo_def)
  qed
  have v: "vma_find (vma_head task_demo) 0x2000 = Some (hd vma_demo)" "v_flags (hd vma_demo) = 3"
    by (simp_all add: vma_find_def vma_demo_def page_down_def task_demo_def)
  show ?thesis using demand_page_maps_zeros [OF t n r] unfolding p v(1) by (auto simp: v r)
qed

end
