(* ===== verification/Console.thy ===== *)
theory Console
  imports Prelude
begin

text \<open>
  The console device of \<open>devfs.c\<close>: the ANSI escape parser behind writes to \<open>/dev/console\<close>, the raw
  reads from the keyboard and the exclusive open. What the driver does to the screen and the serial
  port is recorded as a list of events, in order; the drivers themselves (\<open>k_putchar\<close>,
  \<open>k_clear\<close>, \<open>k_set_cursor\<close>, \<open>k_set_color\<close>, \<open>serial_putc\<close>, \<open>fb_flush\<close>) are I/O. The
  \<open>serial_printf\<close> debug line of the cursor command is left out. An \<open>int\<close> is a 32-bit word read signed.
\<close>

section \<open>State\<close>

datatype ansi_state = ANSI_IDLE | ANSI_ESCAPE | ANSI_COLLECTING

datatype console_event =
    Serial_putc u8
  | K_putchar u8
  | K_clear
  | K_set_cursor u32 u32
  | K_set_color u8 u8
  | Fb_flush

record console =
  ansi :: ansi_state
  ansi_buffer :: "nat \<Rightarrow> u8"
  ansi_pos :: nat
  current_fg :: u8
  current_bg :: u8
  console_open_count :: u32
  fb_available :: bool
  events :: "console_event list"

abbreviation (input) K_COLOR_BLACK :: u8 where "K_COLOR_BLACK \<equiv> 0"
abbreviation (input) K_COLOR_BROWN :: u8 where "K_COLOR_BROWN \<equiv> 6"
abbreviation (input) K_COLOR_LIGHT_GREY :: u8 where "K_COLOR_LIGHT_GREY \<equiv> 7"
abbreviation (input) K_COLOR_YELLOW :: u8 where "K_COLOR_YELLOW \<equiv> 14"

definition ansi_fg_map :: "u8 list" where
  "ansi_fg_map = [0, 4, 2, 6, 1, 5, 3, 7]"

definition ansi_fg_bright_map :: "u8 list" where
  "ansi_fg_bright_map = [8, 12, 10, 14, 9, 13, 11, 15]"

definition emit :: "console_event list \<Rightarrow> console \<Rightarrow> console" where
  "emit es c = c\<lparr>events := events c @ es\<rparr>"

section \<open>The CSI commands\<close>

definition is_digit :: "u8 \<Rightarrow> bool" where
  "is_digit c \<longleftrightarrow> 0x30 \<le> c \<and> c \<le> 0x39"

text \<open>The digit loops: from position \<open>i\<close> below \<open>limit\<close>, the value read on top of \<open>v\<close> and the next position.\<close>

function csi_digits :: "(nat \<Rightarrow> u8) \<Rightarrow> nat \<Rightarrow> nat \<Rightarrow> u32 \<Rightarrow> u32 \<times> nat" where
  "csi_digits buf limit i v =
     (if i < limit \<and> is_digit (buf i) then csi_digits buf limit (Suc i) (v * 10 + ucast (buf i - 0x30))
      else (v, i))"
  by pat_completeness auto
termination by (relation "measure (\<lambda>(buf, limit, i, v). limit - i)") auto

function skip_blanks :: "(nat \<Rightarrow> u8) \<Rightarrow> nat \<Rightarrow> nat \<Rightarrow> nat" where
  "skip_blanks buf limit i = (if i < limit \<and> buf i = 0x20 then skip_blanks buf limit (Suc i) else i)"
  by pat_completeness auto
termination by (relation "measure (\<lambda>(buf, limit, i). limit - i)") auto

declare csi_digits.simps [simp del] skip_blanks.simps [simp del]

definition csi_erase :: "console \<Rightarrow> console" where
  "csi_erase c =
     (let mode = (if ansi_pos c > 1 \<and> is_digit (ansi_buffer c 0) then ansi_buffer c 0 - 0x30 else 0)
      in if mode = 2 \<or> mode = 3 \<or> ansi_pos c = 1 then emit [K_clear, K_set_cursor 0 0] c else c)"

definition csi_cursor :: "console \<Rightarrow> console" where
  "csi_cursor c =
     (let limit = ansi_pos c - 1;
          (row, i) = csi_digits (ansi_buffer c) limit 0 1;
          i = (if i < limit \<and> ansi_buffer c i = 0x3B then Suc i else i);
          (col, i) = csi_digits (ansi_buffer c) limit i 0;
          col = (if col = 0 then 1 else col);
          row = (if sint row < 1 then 1 else row)
      in emit [K_set_cursor (row - 1) (col - 1)] c)"

text \<open>One numeric parameter of the colour command, with the \<open>bold\<close> flag.\<close>

definition sgr_apply :: "u32 \<Rightarrow> bool \<Rightarrow> console \<Rightarrow> bool \<times> console" where
  "sgr_apply num bold c =
     (if num = 0 then (False, c\<lparr>current_fg := K_COLOR_LIGHT_GREY, current_bg := K_COLOR_BLACK\<rparr>)
      else if num = 1 then (True, c)
      else if sint num \<ge> 30 \<and> sint num \<le> 37 then
        (let fg = ansi_fg_map ! unat (num - 30);
             fg = (if bold then if fg = K_COLOR_BROWN then K_COLOR_YELLOW
                                else if fg < 8 then fg + 8 else fg
                   else fg)
         in (bold, c\<lparr>current_fg := fg\<rparr>))
      else if sint num \<ge> 40 \<and> sint num \<le> 47 then (bold, c\<lparr>current_bg := ansi_fg_map ! unat (num - 40)\<rparr>)
      else if sint num \<ge> 90 \<and> sint num \<le> 97 then (bold, c\<lparr>current_fg := ansi_fg_bright_map ! unat (num - 90)\<rparr>)
      else (bold, c))"

text \<open>
  The parameter loop. A byte that is neither a blank, a digit nor a separator is read again for ever;
  \<open>None\<close> is that endless loop. The collector lets one such byte in: \<open>?\<close>.
\<close>

function sgr_loop :: "nat \<Rightarrow> nat \<Rightarrow> bool \<Rightarrow> console \<Rightarrow> console option" where
  "sgr_loop limit i bold c =
     (if i < limit then
        (let i1 = skip_blanks (ansi_buffer c) limit i;
             (num, i2) = csi_digits (ansi_buffer c) limit i1 0;
             (bold', c') = (if i2 > i1 then sgr_apply num bold c else (bold, c));
             i3 = (if i2 < limit \<and> ansi_buffer c i2 = 0x3B then Suc i2 else i2)
         in if i3 \<le> i then None else sgr_loop limit i3 bold' c')
      else Some c)"
  by pat_completeness auto
termination by (relation "measure (\<lambda>(limit, i, bold, c). limit - i)") auto

declare sgr_loop.simps [simp del]

definition csi_sgr :: "console \<Rightarrow> console option" where
  "csi_sgr c =
     (let c' = (if ansi_pos c = 1
                then Some (c\<lparr>current_fg := K_COLOR_LIGHT_GREY, current_bg := K_COLOR_BLACK\<rparr>)
                else sgr_loop (ansi_pos c - 1) 0 False c)
      in map_option (\<lambda>c. emit [K_set_color (current_fg c) (current_bg c)] c) c')"

definition process_ansi_csi :: "console \<Rightarrow> console option" where
  "process_ansi_csi c =
     (if ansi_pos c = 0 then Some c
      else if ansi_buffer c 0 = 0x3F then Some (c\<lparr>ansi := ANSI_IDLE, ansi_pos := 0\<rparr>)
      else let final_char = ansi_buffer c (ansi_pos c - 1);
               c' = (if final_char = 0x4A then Some (csi_erase c)
                     else if final_char = 0x48 \<or> final_char = 0x66 then Some (csi_cursor c)
                     else if final_char = 0x6D then csi_sgr c
                     else Some c)
           in map_option (\<lambda>c. c\<lparr>ansi := ANSI_IDLE, ansi_pos := 0\<rparr>) c')"

section \<open>Writing\<close>

definition loggable :: "u8 \<Rightarrow> bool" where
  "loggable c \<longleftrightarrow> c = 0x0A \<or> c = 0x0D \<or> c = 0x09 \<or> (c \<ge> 32 \<and> c < 127)"

definition serial_log :: "u8 \<Rightarrow> console_event list" where
  "serial_log c = (if loggable c then [Serial_putc c] else [])"

definition collect :: "u8 \<Rightarrow> console \<Rightarrow> console" where
  "collect b c = (if ansi_pos c < 31
     then c\<lparr>ansi_buffer := (ansi_buffer c)(ansi_pos c := b), ansi_pos := Suc (ansi_pos c)\<rparr> else c)"

definition console_byte :: "u8 \<Rightarrow> console \<Rightarrow> console option" where
  "console_byte b c =
     (case ansi c of
        ANSI_IDLE \<Rightarrow>
          (if b = 0x1B then Some (c\<lparr>ansi := ANSI_ESCAPE\<rparr>) else Some (emit (serial_log b @ [K_putchar b]) c))
      | ANSI_ESCAPE \<Rightarrow>
          (if b = 0x5B then Some (c\<lparr>ansi := ANSI_COLLECTING, ansi_pos := 0\<rparr>)
           else Some ((emit ([Serial_putc 0x1B] @ serial_log b @ [K_putchar 0x1B, K_putchar b]) c)
                        \<lparr>ansi := ANSI_IDLE\<rparr>))
      | ANSI_COLLECTING \<Rightarrow>
          (if is_digit b \<or> b = 0x3B \<or> b = 0x20 \<or> b = 0x3F then Some (collect b c)
           else if b \<ge> 0x40 \<and> b \<le> 0x7E then
             map_option (\<lambda>c. c\<lparr>ansi := ANSI_IDLE, ansi_pos := 0\<rparr>) (process_ansi_csi (collect b c))
           else Some (c\<lparr>ansi := ANSI_IDLE, ansi_pos := 0\<rparr>)))"

fun console_bytes :: "u8 list \<Rightarrow> console \<Rightarrow> console option" where
  "console_bytes [] c = Some c"
| "console_bytes (b # bs) c = (case console_byte b c of None \<Rightarrow> None | Some c \<Rightarrow> console_bytes bs c)"

definition devfs_console_write :: "u8 list \<Rightarrow> console \<Rightarrow> (u32 \<times> console) option" where
  "devfs_console_write buffer c =
     (case console_bytes buffer c of None \<Rightarrow> None
      | Some c \<Rightarrow> Some (of_nat (length buffer), if fb_available c then emit [Fb_flush] c else c))"

section \<open>Opening, closing, reading\<close>

definition devfs_console_open :: "console \<Rightarrow> int \<times> console" where
  "devfs_console_open c =
     (if console_open_count c > 0 then (- 1, c)
      else (0, c\<lparr>console_open_count := console_open_count c + 1\<rparr>))"

definition devfs_console_close :: "console \<Rightarrow> console" where
  "devfs_console_close c =
     (if console_open_count c > 0 then c\<lparr>console_open_count := console_open_count c - 1\<rparr> else c)"

text \<open>
  Raw reads: \<open>keys\<close> are the results of the successive calls of \<open>k_getchar\<close>, 0 when no key is waiting;
  the task yields while it has nothing. \<open>None\<close>: the keys given do not suffice and the task still waits.
\<close>

fun console_read_loop :: "u8 list \<Rightarrow> nat \<Rightarrow> u8 list \<Rightarrow> (u8 list \<times> u8 list) option" where
  "console_read_loop got n keys =
     (if length got \<ge> n then Some (got, keys)
      else case keys of [] \<Rightarrow> None
           | c # keys \<Rightarrow> if c \<noteq> 0 then console_read_loop (got @ [c]) n keys
                         else if got \<noteq> [] then Some (got, keys)
                         else console_read_loop got n keys)"

declare console_read_loop.simps [simp del]

definition devfs_console_read :: "u32 \<Rightarrow> u8 list \<Rightarrow> (u8 list \<times> u8 list) option" where
  "devfs_console_read count keys = console_read_loop [] (unat count) keys"

section \<open>The parser's invariant\<close>

definition param_byte :: "u8 \<Rightarrow> bool" where
  "param_byte b \<longleftrightarrow> is_digit b \<or> b = 0x3B \<or> b = 0x20"

text \<open>At most 31 bytes are collected, all of them parameters.\<close>

definition console_ok :: "console \<Rightarrow> bool" where
  "console_ok c \<longleftrightarrow> ansi_pos c \<le> 31 \<and> (\<forall>i<ansi_pos c. param_byte (ansi_buffer c i))"

lemma csi_digits_next:
  "i \<le> snd (csi_digits buf limit i v) \<and>
   (i < limit \<and> is_digit (buf i) \<longrightarrow> i < snd (csi_digits buf limit i v)) \<and>
   (snd (csi_digits buf limit i v) < limit \<longrightarrow> \<not> is_digit (buf (snd (csi_digits buf limit i v))))"
proof (induction buf limit i v rule: csi_digits.induct)
  case (1 buf limit i v)
  show ?case
  proof (cases "i < limit \<and> is_digit (buf i)")
    case True
    then have "csi_digits buf limit i v = csi_digits buf limit (Suc i) (v * 10 + ucast (buf i - 0x30))"
      by (subst csi_digits.simps) simp
    with 1 [OF True] show ?thesis by simp
  next
    case False
    then have "csi_digits buf limit i v = (v, i)" by (subst csi_digits.simps) auto
    with False show ?thesis by auto
  qed
qed

lemma skip_blanks_next:
  "i \<le> skip_blanks buf limit i \<and> (i < limit \<and> buf i = 0x20 \<longrightarrow> i < skip_blanks buf limit i) \<and>
   (skip_blanks buf limit i < limit \<longrightarrow> buf (skip_blanks buf limit i) \<noteq> 0x20)"
proof (induction buf limit i rule: skip_blanks.induct)
  case (1 buf limit i)
  show ?case
  proof (cases "i < limit \<and> buf i = 0x20")
    case True
    then have "skip_blanks buf limit i = skip_blanks buf limit (Suc i)" by (subst skip_blanks.simps) simp
    with 1 [OF True] show ?thesis by simp
  next
    case False
    then have "skip_blanks buf limit i = i" by (subst skip_blanks.simps) auto
    with False show ?thesis by auto
  qed
qed

text \<open>What a command may change: colours and events, and it prints nothing.\<close>

definition quiet :: "console \<Rightarrow> console \<Rightarrow> bool" where
  "quiet c c' \<longleftrightarrow> (\<exists>es. events c' = events c @ es \<and> (\<forall>b. K_putchar b \<notin> set es \<and> Serial_putc b \<notin> set es)) \<and>
     console_open_count c' = console_open_count c \<and> fb_available c' = fb_available c"

lemma quiet_refl [simp]: "quiet c c"
  by (auto simp: quiet_def)

lemma quiet_trans: "quiet a b \<Longrightarrow> quiet b c \<Longrightarrow> quiet a c"
  unfolding quiet_def by force

lemma quiet_emit:
  "(\<forall>b. K_putchar b \<notin> set es \<and> Serial_putc b \<notin> set es) \<Longrightarrow> quiet c (emit es c)"
  by (auto simp: quiet_def emit_def)

lemma sgr_apply_frame:
  "sgr_apply num bold c = (bold', c') \<Longrightarrow>
   ansi_buffer c' = ansi_buffer c \<and> ansi_pos c' = ansi_pos c \<and> quiet c c'"
  by (auto simp: sgr_apply_def quiet_def Let_def split: if_splits)

text \<open>The colour loop ends: every parameter byte is consumed.\<close>

lemma sgr_loop_total:
  assumes "\<forall>j. i \<le> j \<and> j < limit \<longrightarrow> param_byte (ansi_buffer c j)"
  shows "\<exists>c'. sgr_loop limit i bold c = Some c' \<and> ansi_buffer c' = ansi_buffer c \<and>
    ansi_pos c' = ansi_pos c \<and> quiet c c'"
  using assms
proof (induction limit i bold c rule: sgr_loop.induct)
  case (1 limit i bold c)
  show ?case
  proof (cases "i < limit")
    case True
    define i1 where "i1 = skip_blanks (ansi_buffer c) limit i"
    obtain num i2 where d: "csi_digits (ansi_buffer c) limit i1 0 = (num, i2)" by fastforce
    obtain bold' c' where b: "(if i2 > i1 then sgr_apply num bold c else (bold, c)) = (bold', c')" by fastforce
    define i3 where "i3 = (if i2 < limit \<and> ansi_buffer c i2 = 0x3B then Suc i2 else i2)"
    have s: "i \<le> i1" "i < limit \<and> ansi_buffer c i = 0x20 \<longrightarrow> i < i1"
      using skip_blanks_next [of i "ansi_buffer c" limit] by (simp_all add: i1_def)
    have n: "i1 \<le> i2" "i1 < limit \<and> is_digit (ansi_buffer c i1) \<longrightarrow> i1 < i2"
      using csi_digits_next [of i1 "ansi_buffer c" limit 0] by (simp_all add: d)
    have "param_byte (ansi_buffer c i)" using 1(2) True by simp
    have lt: "i < i3"
    proof (cases "i < i2")
      case False
      then have "i1 = i" "i2 = i" using s(1) n(1) by simp_all
      then show ?thesis using \<open>param_byte (ansi_buffer c i)\<close> s(2) n(2) True by (auto simp: i3_def param_byte_def)
    qed (simp add: i3_def)
    have eq: "sgr_loop limit i bold c = sgr_loop limit i3 bold' c'"
      using True lt b d by (subst sgr_loop.simps) (simp add: Let_def i1_def [symmetric] i3_def [symmetric])
    have f: "ansi_buffer c' = ansi_buffer c \<and> ansi_pos c' = ansi_pos c \<and> quiet c c'"
      using b sgr_apply_frame by (auto split: if_splits)
    have "\<exists>c''. sgr_loop limit i3 bold' c' = Some c'' \<and> ansi_buffer c'' = ansi_buffer c' \<and>
        ansi_pos c'' = ansi_pos c' \<and> quiet c' c''"
      by (rule 1(1) [OF True i1_def d [symmetric] refl b [symmetric] refl i3_def]) (use 1(2) lt f in auto)
    then show ?thesis using eq f quiet_trans by (metis (no_types))
  next
    case False
    then have "sgr_loop limit i bold c = Some c" by (subst sgr_loop.simps) simp
    then show ?thesis by simp
  qed
qed


lemma csi_erase_frame: "quiet c (csi_erase c)"
  by (auto simp: csi_erase_def Let_def intro!: quiet_emit)

lemma csi_cursor_frame: "quiet c (csi_cursor c)"
  by (auto simp: csi_cursor_def Let_def intro!: quiet_emit split: prod.split)

lemma csi_sgr_total:
  assumes "\<forall>i<ansi_pos c - 1. param_byte (ansi_buffer c i)"
  shows "\<exists>c'. csi_sgr c = Some c' \<and> quiet c c'"
proof (cases "ansi_pos c = 1")
  case True
  then show ?thesis by (auto simp: csi_sgr_def quiet_def emit_def)
next
  case False
  obtain c1 where c1: "sgr_loop (ansi_pos c - 1) 0 False c = Some c1" "quiet c c1"
    using sgr_loop_total [of 0 "ansi_pos c - 1" c False] assms by auto
  have "quiet c1 (emit [K_set_color (current_fg c1) (current_bg c1)] c1)" by (rule quiet_emit) simp
  then show ?thesis using False c1 quiet_trans by (auto simp: csi_sgr_def)
qed

lemma process_ansi_csi_total:
  assumes "\<forall>i<ansi_pos c - 1. param_byte (ansi_buffer c i)" and "ansi_pos c \<noteq> 0"
  shows "\<exists>c'. process_ansi_csi c = Some c' \<and> quiet c c' \<and> ansi c' = ANSI_IDLE \<and> ansi_pos c' = 0"
proof -
  have q: "quiet a (b\<lparr>ansi := s, ansi_pos := n\<rparr>) \<longleftrightarrow> quiet a b" for a b s n by (simp add: quiet_def)
  obtain c1 where "csi_sgr c = Some c1" "quiet c c1" using csi_sgr_total [OF assms(1)] by blast
  then show ?thesis
    using assms(2) csi_erase_frame csi_cursor_frame by (simp add: process_ansi_csi_def Let_def q)
qed

text \<open>One byte: the parser neither hangs nor overruns its buffer, as long as the byte is not \<open>?\<close>.\<close>

lemma console_byte_ok:
  assumes "console_ok c" and "b \<noteq> 0x3F"
  shows "\<exists>c'. console_byte b c = Some c' \<and> console_ok c'"
proof -
  have ok: "console_ok (c'\<lparr>ansi := s, ansi_pos := 0\<rparr>)" for c' s by (simp add: console_ok_def)
  show ?thesis
  proof (cases "ansi c = ANSI_COLLECTING \<and> b \<ge> 0x40 \<and> b \<le> 0x7E \<and> \<not> is_digit b \<and> b \<noteq> 0x3B \<and> b \<noteq> 0x20")
    case True
    have "\<forall>i<ansi_pos (collect b c) - 1. param_byte (ansi_buffer (collect b c) i)"
      "ansi_pos (collect b c) \<noteq> 0"
      using assms(1) by (auto simp: collect_def console_ok_def)
    from process_ansi_csi_total [OF this] True assms(2) show ?thesis
      by (auto simp: console_byte_def ok)
  next
    case False
    then show ?thesis using assms
      by (cases "ansi c") (auto simp: console_byte_def console_ok_def collect_def emit_def param_byte_def
          less_Suc_eq)
  qed
qed

lemma console_bytes_ok:
  "console_ok c \<Longrightarrow> 0x3F \<notin> set bs \<Longrightarrow> \<exists>c'. console_bytes bs c = Some c' \<and> console_ok c'"
proof (induction bs arbitrary: c)
  case (Cons b bs)
  then obtain c1 where "console_byte b c = Some c1" "console_ok c1"
    using console_byte_ok [of c b] by auto
  with Cons show ?case by auto
qed simp

lemma console_bytes_append:
  "console_bytes (xs @ ys) c = (case console_bytes xs c of None \<Rightarrow> None | Some c \<Rightarrow> console_bytes ys c)"
  by (induction xs arbitrary: c) (auto split: option.split)

definition console_demo :: console where
  "console_demo = \<lparr>ansi = ANSI_IDLE, ansi_buffer = (\<lambda>_. 0), ansi_pos = 0, current_fg = 7, current_bg = 0,
     console_open_count = 0, fb_available = False, events = []\<rparr>"

lemma console_ok_demo [simp]: "console_ok console_demo"
  by (simp add: console_ok_def console_demo_def)

text \<open>The bytes \<open>ESC [ 1 ? m\<close> make the driver loop for ever.\<close>

lemma console_write_hangs: "devfs_console_write [0x1B, 0x5B, 0x31, 0x3F, 0x6D] console_demo = None"
  by (simp add: devfs_console_write_def console_byte_def console_demo_def collect_def is_digit_def
      process_ansi_csi_def csi_sgr_def sgr_loop.simps csi_digits.simps skip_blanks.simps sgr_apply_def
      emit_def Let_def)

text \<open>The cursor command reads its row starting from 1: row 5, column 3 moves to row 15.\<close>

lemma csi_cursor_row_off:
  "map_option (\<lambda>(n, c). events c) (devfs_console_write [0x1B, 0x5B, 0x35, 0x3B, 0x33, 0x48] console_demo) =
     Some [K_set_cursor 14 2]"
  by (simp add: devfs_console_write_def console_byte_def console_demo_def collect_def is_digit_def
      process_ansi_csi_def csi_cursor_def csi_digits.simps emit_def Let_def)

text \<open>
  C40. A write to the console that contains no \<open>?\<close> always returns the number of bytes, whatever the bytes
  and in whatever state earlier writes left the parser, and never stores more than 31 bytes of an
  escape sequence: the parser neither hangs nor overruns its buffer.
\<close>

theorem console_write_returns:
  assumes "console_ok c" and "0x3F \<notin> set bs"
  shows "\<exists>c'. devfs_console_write bs c = Some (of_nat (length bs), c') \<and> console_ok c' \<and> ansi_pos c' < 32"
proof -
  obtain c1 where "console_bytes bs c = Some c1" "console_ok c1" using console_bytes_ok [OF assms] by blast
  moreover have "console_ok (emit es c1) = console_ok c1" for es by (simp add: console_ok_def emit_def)
  ultimately show ?thesis by (auto simp: devfs_console_write_def console_ok_def emit_def)
qed

theorem console_write_returns_witness:
  "\<exists>c'. devfs_console_write [0x1B, 0x5B, 0x33, 0x31, 0x6D, 0x41] console_demo = Some (6, c') \<and> ansi_pos c' < 32"
  using console_write_returns [of console_demo "[0x1B, 0x5B, 0x33, 0x31, 0x6D, 0x41]"] by auto

lemma console_params:
  "ansi c = ANSI_COLLECTING \<Longrightarrow> console_ok c \<Longrightarrow> \<forall>b\<in>set ps. param_byte b \<Longrightarrow>
   \<exists>c'. console_bytes ps c = Some c' \<and> ansi c' = ANSI_COLLECTING \<and> console_ok c' \<and> quiet c c'"
proof (induction ps arbitrary: c)
  case (Cons b ps)
  then have "console_byte b c = Some (collect b c)" by (auto simp: console_byte_def param_byte_def)
  moreover have "ansi (collect b c) = ANSI_COLLECTING" "console_ok (collect b c)" "quiet c (collect b c)"
    using Cons(2-4) by (auto simp: collect_def console_ok_def quiet_def less_Suc_eq)
  ultimately show ?case using Cons.IH [of "collect b c"] Cons(4) quiet_trans by fastforce
qed simp

text \<open>
  A complete escape sequence \<open>ESC [ parameters command\<close> of any length prints nothing: the driver
  consumes it without sending a character to the screen or the serial port and is back in its idle
  state, ready for text.
\<close>

theorem escape_sequence_silent:
  assumes "console_ok c" and "ansi c = ANSI_IDLE" and "\<forall>b\<in>set params. param_byte b"
    and "0x40 \<le> final" and "final \<le> 0x7E"
  shows "\<exists>c'. console_bytes ([0x1B, 0x5B] @ params @ [final]) c = Some c' \<and> ansi c' = ANSI_IDLE \<and>
    (\<exists>es. events c' = events c @ es \<and> (\<forall>b. K_putchar b \<notin> set es \<and> Serial_putc b \<notin> set es))"
proof -
  let ?c = "c\<lparr>ansi := ANSI_COLLECTING, ansi_pos := 0\<rparr>"
  have a: "console_bytes [0x1B, 0x5B] c = Some ?c" using assms(2) by (simp add: console_byte_def)
  have "ansi ?c = ANSI_COLLECTING" "console_ok ?c" by (simp_all add: console_ok_def)
  from console_params [OF this assms(3)] obtain c1 where
    c1: "console_bytes params ?c = Some c1" "ansi c1 = ANSI_COLLECTING" "console_ok c1" "quiet ?c c1" by blast
  have "\<forall>i<ansi_pos (collect final c1) - 1. param_byte (ansi_buffer (collect final c1) i)"
    "ansi_pos (collect final c1) \<noteq> 0"
    using c1(3) by (auto simp: collect_def console_ok_def)
  from process_ansi_csi_total [OF this] obtain c2 where
    c2: "process_ansi_csi (collect final c1) = Some c2" "quiet (collect final c1) c2" by blast
  have "final \<noteq> 0x3F" "\<not> is_digit final" "final \<noteq> 0x3B" "final \<noteq> 0x20"
    using assms(4) by (auto simp: is_digit_def word_le_nat_alt)
  then have "console_bytes [final] c1 = Some (c2\<lparr>ansi := ANSI_IDLE, ansi_pos := 0\<rparr>)"
    using c1(2) c2(1) assms(4,5) by (simp add: console_byte_def)
  moreover have "quiet ?c c2"
  proof -
    have "quiet c1 (collect final c1)" by (simp add: collect_def quiet_def)
    then show ?thesis using c1(4) c2(2) quiet_trans by blast
  qed
  ultimately show ?thesis
    using a c1(1) by (simp add: console_bytes_append quiet_def del: append_Cons append_Nil)
qed

theorem escape_sequence_silent_witness:
  "\<exists>c'. console_bytes [0x1B, 0x5B, 0x33, 0x31, 0x6D] console_demo = Some c' \<and> ansi c' = ANSI_IDLE"
  using escape_sequence_silent [of console_demo "[0x33, 0x31]" "0x6D"]
  by (auto simp: console_demo_def console_ok_def param_byte_def is_digit_def)

text \<open>
  Text without escape characters reaches the screen byte by byte, in order and complete; the
  serial log gets the same text without its unprintable bytes; nothing else happens.
\<close>

theorem console_text_verbatim:
  assumes "ansi c = ANSI_IDLE" and "0x1B \<notin> set bs"
  shows "\<exists>c'. console_bytes bs c = Some c' \<and> ansi c' = ANSI_IDLE \<and>
    events c' = events c @ concat (map (\<lambda>b. serial_log b @ [K_putchar b]) bs)"
  using assms
proof (induction bs arbitrary: c)
  case (Cons b bs)
  let ?c = "emit (serial_log b @ [K_putchar b]) c"
  have "console_byte b c = Some ?c" "ansi ?c = ANSI_IDLE"
    using Cons.prems by (simp_all add: console_byte_def emit_def)
  with Cons.IH [of ?c] Cons.prems show ?case by (auto simp: emit_def)
qed simp

theorem console_text_verbatim_witness:
  "map_option events (console_bytes [0x48, 0x69] console_demo) =
     Some [Serial_putc 0x48, K_putchar 0x48, Serial_putc 0x69, K_putchar 0x69]"
  using console_text_verbatim [of console_demo "[0x48, 0x69]"]
  by (auto simp: console_demo_def serial_log_def loggable_def)

end
