(* ===== verification/Fat32.thy ===== *)
theory Fat32
  imports Prelude
begin

text \<open>
  The FAT32 driver, \<open>fat32.c\<close>, with the partition table scan of \<open>ata.c\<close>. A disk gives the 512 bytes of
  a sector or an error (the port I/O of \<open>ata_read_sectors\<close> is the device's). A directory entry is
  read from its 32 bytes at the offsets of the packed structures. Names are byte lists without the
  terminating NUL. \<open>None\<close> stands for a chain of clusters that never ends, a division by zero, or a
  long name written outside its 256 byte buffer.
\<close>

unbundle bit_operations_syntax

section \<open>State\<close>

abbreviation (input) FAT32_ATTR_VOLUME_ID :: u8 where "FAT32_ATTR_VOLUME_ID \<equiv> 0x08"
abbreviation (input) FAT32_ATTR_DIRECTORY :: u8 where "FAT32_ATTR_DIRECTORY \<equiv> 0x10"
abbreviation (input) FAT32_ATTR_LFN :: u8 where "FAT32_ATTR_LFN \<equiv> 0x0F"
abbreviation (input) FAT32_EOF :: u32 where "FAT32_EOF \<equiv> 0x0FFFFFF8"
abbreviation (input) FAT32_ENTRY_DELETED :: u8 where "FAT32_ENTRY_DELETED \<equiv> 0xE5"
abbreviation (input) FAT32_ENTRY_END :: u8 where "FAT32_ENTRY_END \<equiv> 0x00"

record fat32_fs =
  partition_lba :: u32
  bytes_per_sector :: u16
  sectors_per_cluster :: u8
  reserved_sectors :: u16
  num_fats :: u8
  fat_size_32 :: u32
  root_cluster :: u32
  first_data_sector :: u32
  fat1_lba :: u32

record partition_info =
  part_id :: nat
  part_type :: u8
  part_lba_start :: u32
  part_sector_count :: u32

record ata_state =
  disk :: "u32 \<Rightarrow> (nat \<Rightarrow> u8) option"
  fat_sector_buffer :: "nat \<Rightarrow> u8"
  fat_buffer_sector :: u32
  partitions :: "partition_info list"

section \<open>The disk\<close>

definition ata_read_sector :: "ata_state \<Rightarrow> u32 \<Rightarrow> (nat \<Rightarrow> u8) option" where
  "ata_read_sector a lba = (if lba + 1 > 0x10000000 then None else disk a lba)"

definition le16 :: "(nat \<Rightarrow> u8) \<Rightarrow> nat \<Rightarrow> u16" where
  "le16 b i = ucast (b i) OR push_bit 8 (ucast (b (i + 1)))"

definition le32 :: "(nat \<Rightarrow> u8) \<Rightarrow> nat \<Rightarrow> u32" where
  "le32 b i = ucast (b i) OR push_bit 8 (ucast (b (i + 1))) OR push_bit 16 (ucast (b (i + 2))) OR
     push_bit 24 (ucast (b (i + 3)))"

abbreviation (input) MAX_PARTITIONS :: nat where "MAX_PARTITIONS \<equiv> 4"

definition scan_entry :: "(nat \<Rightarrow> u8) \<Rightarrow> nat \<Rightarrow> partition_info list \<Rightarrow> partition_info list" where
  "scan_entry mbr i ps =
     (let e = 446 + 16 * i
      in if mbr (e + 4) = 0 then ps
         else if length ps < MAX_PARTITIONS then
           ps @ [\<lparr>part_id = i, part_type = mbr (e + 4), part_lba_start = le32 mbr (e + 8),
                  part_sector_count = le32 mbr (e + 12)\<rparr>]
         else ps)"

definition partition_scan :: "ata_state \<Rightarrow> int \<times> ata_state" where
  "partition_scan a =
     (case ata_read_sector a 0 of None \<Rightarrow> (- 1, a)
      | Some mbr \<Rightarrow>
          if mbr 510 \<noteq> 0x55 \<or> mbr 511 \<noteq> 0xAA then (- 1, a)
          else let ps = fold (scan_entry mbr) [0, 1, 2, 3] []
               in (int (length ps), a\<lparr>partitions := ps\<rparr>))"

definition partition_get :: "ata_state \<Rightarrow> int \<Rightarrow> partition_info option" where
  "partition_get a i =
     (if i < 0 \<or> i \<ge> int (length (partitions a)) then None else Some (partitions a ! nat i))"

definition partition_count :: "ata_state \<Rightarrow> int" where
  "partition_count a = int (length (partitions a))"

section \<open>Names and clusters\<close>

definition ucs2_to_utf8 :: "u16 \<Rightarrow> u8 list" where
  "ucs2_to_utf8 ucs2 =
     (if ucs2 < 0x80 then [ucast ucs2]
      else if ucs2 < 0x800 then
        [0xC0 OR ucast (drop_bit 6 ucs2), 0x80 OR ucast (ucs2 AND 0x3F)]
      else
        [0xE0 OR ucast (drop_bit 12 ucs2), 0x80 OR ucast (drop_bit 6 ucs2 AND 0x3F),
         0x80 OR ucast (ucs2 AND 0x3F)])"

definition lfn_checksum :: "(nat \<Rightarrow> u8) \<Rightarrow> u8" where
  "lfn_checksum name =
     fold (\<lambda>i sum. (if sum AND 1 \<noteq> 0 then 0x80 else 0) + drop_bit 1 sum + name i) [0..<11] 0"

definition cluster_to_lba :: "fat32_fs \<Rightarrow> u32 \<Rightarrow> u32" where
  "cluster_to_lba fs cluster =
     partition_lba fs + first_data_sector fs + (cluster - 2) * ucast (sectors_per_cluster fs)"

definition fat32_next_cluster :: "fat32_fs \<Rightarrow> u32 \<Rightarrow> ata_state \<Rightarrow> u32 \<times> ata_state" where
  "fat32_next_cluster fs cluster a =
     (let fat_offset = cluster * 4;
          fat_sector = fat1_lba fs + fat_offset div 512;
          ent_offset = unat (fat_offset mod 512);
          read = (if fat_sector \<noteq> fat_buffer_sector a then
                    map_option (\<lambda>b. a\<lparr>fat_sector_buffer := b, fat_buffer_sector := fat_sector\<rparr>)
                      (ata_read_sector a fat_sector)
                  else Some a)
      in case read of None \<Rightarrow> (FAT32_EOF, a)
         | Some a \<Rightarrow> (le32 (fat_sector_buffer a) ent_offset AND 0x0FFFFFFF, a))"

section \<open>Reading a file\<close>

text \<open>
  The sectors of one cluster: the bytes got so far, and whether the read is over (enough bytes, or a
  sector that cannot be read).
\<close>

fun read_sectors :: "ata_state \<Rightarrow> u32 \<Rightarrow> nat list \<Rightarrow> nat \<Rightarrow> nat \<Rightarrow> u8 list \<Rightarrow> bool \<times> u8 list \<times> nat" where
  "read_sectors a lba [] cluster_offset sz got = (False, got, cluster_offset)"
| "read_sectors a lba (s # ss) cluster_offset sz got =
     (if cluster_offset \<ge> 512 then read_sectors a lba ss (cluster_offset - 512) sz got
      else case ata_read_sector a (lba + of_nat s) of None \<Rightarrow> (True, got, cluster_offset)
      | Some sec_buf \<Rightarrow>
          let to_copy = min (512 - cluster_offset) (sz - length got);
              got = got @ map sec_buf [cluster_offset..<cluster_offset + to_copy]
          in if length got \<ge> sz then (True, got, 0) else read_sectors a lba ss 0 sz got)"

fun skip_clusters :: "fat32_fs \<Rightarrow> nat \<Rightarrow> u32 \<Rightarrow> ata_state \<Rightarrow> u32 option \<times> ata_state" where
  "skip_clusters fs 0 cluster a = (Some cluster, a)"
| "skip_clusters fs (Suc n) cluster a =
     (let (cluster, a) = fat32_next_cluster fs cluster a
      in if cluster \<ge> FAT32_EOF then (None, a) else skip_clusters fs n cluster a)"

partial_function (option) read_clusters ::
    "fat32_fs \<Rightarrow> u32 \<Rightarrow> nat \<Rightarrow> nat \<Rightarrow> u8 list \<Rightarrow> ata_state \<Rightarrow> (u8 list \<times> ata_state) option" where
  "read_clusters fs cluster cluster_offset sz got a =
     (if length got < sz \<and> cluster < FAT32_EOF then
        (let (over, got, cluster_offset) =
           read_sectors a (cluster_to_lba fs cluster) [0..<unat (sectors_per_cluster fs)] cluster_offset sz got
         in if over then Some (got, a)
            else let (cluster, a) = fat32_next_cluster fs cluster a
                 in read_clusters fs cluster cluster_offset sz got a)
      else Some (got, a))"

text \<open>The bytes delivered to the buffer; the source returns their number.\<close>

definition fat32_read :: "fat32_fs \<Rightarrow> u32 \<Rightarrow> u32 \<Rightarrow> u32 \<Rightarrow> u32 \<Rightarrow> ata_state \<Rightarrow> (u8 list \<times> ata_state) option" where
  "fat32_read fs start_cluster node_size offset sz a =
     (if offset \<ge> node_size then Some ([], a)
      else let sz = (if offset + sz > node_size then node_size - offset else sz);
               cluster_bytes = unat (sectors_per_cluster fs) * 512
           in if cluster_bytes = 0 then None
              else case skip_clusters fs (unat offset div cluster_bytes) start_cluster a of
                     (None, a) \<Rightarrow> Some ([], a)
                   | (Some cluster, a) \<Rightarrow>
                       read_clusters fs cluster (unat offset mod cluster_bytes) (unat sz) [] a)"

section \<open>Reading a directory\<close>

text \<open>The long name being assembled.\<close>

record lfn_state =
  lfn_buffer :: "nat \<Rightarrow> u8"
  expected_checksum :: u8
  lfn_active :: bool

definition lfn_start :: lfn_state where
  "lfn_start = \<lparr>lfn_buffer = (\<lambda>_. 0), expected_checksum = 0, lfn_active = False\<rparr>"

fun put_bytes :: "int \<Rightarrow> u8 list \<Rightarrow> (nat \<Rightarrow> u8) \<Rightarrow> (nat \<Rightarrow> u8) option" where
  "put_bytes pos [] buf = Some buf"
| "put_bytes pos (b # bs) buf =
     (if pos < 0 \<or> pos \<ge> 256 then None else put_bytes (pos + 1) bs (buf(nat pos := b)))"

fun lfn_chars :: "u16 list \<Rightarrow> int \<Rightarrow> (nat \<Rightarrow> u8) \<Rightarrow> (nat \<Rightarrow> u8) option" where
  "lfn_chars [] pos buf = Some buf"
| "lfn_chars (u # us) pos buf =
     (if u = 0xFFFF then lfn_chars us pos buf
      else case put_bytes pos (ucs2_to_utf8 u) buf of None \<Rightarrow> None
           | Some buf \<Rightarrow> lfn_chars us (pos + int (length (ucs2_to_utf8 u))) buf)"

definition lfn_units :: "(nat \<Rightarrow> u8) \<Rightarrow> u16 list" where
  "lfn_units e = map (le16 e) [1, 3, 5, 7, 9, 14, 16, 18, 20, 22, 24, 28, 30]"

definition lfn_entry :: "(nat \<Rightarrow> u8) \<Rightarrow> lfn_state \<Rightarrow> lfn_state option" where
  "lfn_entry e l =
     (let order = e 0;
          l = (if order AND 0x40 \<noteq> 0
               then \<lparr>lfn_buffer = (\<lambda>_. 0), expected_checksum = e 13, lfn_active = True\<rparr> else l)
      in if lfn_active l \<and> e 13 = expected_checksum l then
           map_option (\<lambda>buf. l\<lparr>lfn_buffer := buf\<rparr>)
             (lfn_chars (lfn_units e) ((int (unat (order AND 0x1F)) - 1) * 13) (lfn_buffer l))
         else Some l)"

definition name_8_3 :: "(nat \<Rightarrow> u8) \<Rightarrow> u8 list" where
  "name_8_3 e =
     takeWhile (\<lambda>c. c \<noteq> 0x20) (map e [0..<8]) @
     (if e 8 \<noteq> 0x20 then 0x2E # takeWhile (\<lambda>c. c \<noteq> 0x20) (map e [8..<11]) else [])"

definition c_string :: "u8 list \<Rightarrow> u8 list" where
  "c_string = takeWhile (\<lambda>c. c \<noteq> 0)"

definition entry_cluster :: "(nat \<Rightarrow> u8) \<Rightarrow> u32" where
  "entry_cluster e = push_bit 16 (ucast (le16 e 20)) OR ucast (le16 e 26)"

text \<open>
  The entries of one sector. A scan ends at the end mark (\<open>Not_found\<close>), with the entry looked for, or
  goes on with the next sector.
\<close>

datatype 'a scan = Not_found | Found 'a | Next lfn_state nat

fun readdir_entries :: "nat \<Rightarrow> (nat \<Rightarrow> u8) list \<Rightarrow> lfn_state \<Rightarrow> nat \<Rightarrow> (u8 list \<times> u32) scan option" where
  "readdir_entries index [] l current_index = Some (Next l current_index)"
| "readdir_entries index (e # es) l current_index =
     (if e 0 = FAT32_ENTRY_END then Some Not_found
      else if e 0 = FAT32_ENTRY_DELETED then readdir_entries index es l current_index
      else if e 11 = FAT32_ATTR_LFN then
        (case lfn_entry e l of None \<Rightarrow> None | Some l \<Rightarrow> readdir_entries index es l current_index)
      else let l = (if lfn_active l \<and> lfn_checksum e \<noteq> expected_checksum l then l\<lparr>lfn_active := False\<rparr> else l)
      in if e 11 AND FAT32_ATTR_VOLUME_ID \<noteq> 0
         then readdir_entries index es (l\<lparr>lfn_active := False\<rparr>) current_index
         else if current_index = index then
           Some (Found (if lfn_active l \<and> lfn_buffer l 0 \<noteq> 0
                        then c_string (map (lfn_buffer l) [0..<255]) else c_string (name_8_3 e), entry_cluster e))
         else readdir_entries index es (l\<lparr>lfn_active := False\<rparr>) (Suc current_index))"

text \<open>What \<open>fat32_finddir\<close> learns of the entry: its name, attributes, first cluster and size.\<close>

fun finddir_entries :: "u8 list \<Rightarrow> (nat \<Rightarrow> u8) list \<Rightarrow> lfn_state \<Rightarrow> nat \<Rightarrow>
    (u8 list \<times> u8 \<times> u32 \<times> u32) scan option" where
  "finddir_entries name [] l n = Some (Next l n)"
| "finddir_entries name (e # es) l n =
     (if e 0 = FAT32_ENTRY_END then Some Not_found
      else if e 0 = FAT32_ENTRY_DELETED then finddir_entries name es l n
      else if e 11 = FAT32_ATTR_LFN then
        (case lfn_entry e l of None \<Rightarrow> None | Some l \<Rightarrow> finddir_entries name es l n)
      else if e 11 AND FAT32_ATTR_VOLUME_ID \<noteq> 0 then finddir_entries name es (l\<lparr>lfn_active := False\<rparr>) n
      else let final_name =
             (if lfn_active l \<and> lfn_checksum e = expected_checksum l \<and> lfn_buffer l 0 \<noteq> 0
              then c_string (map (lfn_buffer l) [0..<255]) else c_string (name_8_3 e))
      in if final_name = name then Some (Found (final_name, e 11, entry_cluster e, le32 e 28))
         else finddir_entries name es (l\<lparr>lfn_active := False\<rparr>) n)"

definition sector_entries :: "(nat \<Rightarrow> u8) \<Rightarrow> (nat \<Rightarrow> u8) list" where
  "sector_entries sec = map (\<lambda>i j. sec (i * 32 + j)) [0..<16]"

text \<open>The sectors of a directory cluster, then the chain of clusters.\<close>

fun scan_sectors :: "((nat \<Rightarrow> u8) list \<Rightarrow> lfn_state \<Rightarrow> nat \<Rightarrow> 'a scan option) \<Rightarrow> ata_state \<Rightarrow> u32 \<Rightarrow> nat list \<Rightarrow>
    lfn_state \<Rightarrow> nat \<Rightarrow> 'a scan option" where
  "scan_sectors entries a lba [] l n = Some (Next l n)"
| "scan_sectors entries a lba (s # ss) l n =
     (case ata_read_sector a (lba + of_nat s) of None \<Rightarrow> Some Not_found
      | Some sec \<Rightarrow>
          (case entries (sector_entries sec) l n of
             Some (Next l n) \<Rightarrow> scan_sectors entries a lba ss l n
           | r \<Rightarrow> r))"

partial_function (option) scan_clusters ::
    "((nat \<Rightarrow> u8) list \<Rightarrow> lfn_state \<Rightarrow> nat \<Rightarrow> 'a scan option) \<Rightarrow> fat32_fs \<Rightarrow> u32 \<Rightarrow>
     lfn_state \<Rightarrow> nat \<Rightarrow> ata_state \<Rightarrow> ('a option \<times> ata_state) option" where
  "scan_clusters entries fs cluster l n a =
     (if cluster < FAT32_EOF then
        (case scan_sectors entries a (cluster_to_lba fs cluster) [0..<unat (sectors_per_cluster fs)] l n of
           None \<Rightarrow> None
         | Some Not_found \<Rightarrow> Some (None, a)
         | Some (Found x) \<Rightarrow> Some (Some x, a)
         | Some (Next l n) \<Rightarrow>
             (let (cluster, a) = fat32_next_cluster fs cluster a
              in scan_clusters entries fs cluster l n a))
      else Some (None, a))"

definition fat32_readdir :: "fat32_fs \<Rightarrow> u32 \<Rightarrow> u32 \<Rightarrow> ata_state \<Rightarrow> ((u8 list \<times> u32) option \<times> ata_state) option" where
  "fat32_readdir fs start_cluster index a =
     scan_clusters (readdir_entries (unat index)) fs start_cluster lfn_start 0 a"

definition fat32_lookup :: "fat32_fs \<Rightarrow> u32 \<Rightarrow> u8 list \<Rightarrow> ata_state \<Rightarrow>
    ((u8 list \<times> u8 \<times> u32 \<times> u32) option \<times> ata_state) option" where
  "fat32_lookup fs start_cluster name a =
     scan_clusters (finddir_entries name) fs start_cluster lfn_start 0 a"

section \<open>Mounting\<close>

text \<open>The parameters of the first FAT32 partition, from its boot sector.\<close>

definition fat32_probe :: "ata_state \<Rightarrow> fat32_fs option" where
  "fat32_probe a =
     (case find (\<lambda>p. part_type p = 0x0B \<or> part_type p = 0x0C) (partitions a) of None \<Rightarrow> None
      | Some part \<Rightarrow>
          (case ata_read_sector a (part_lba_start part) of None \<Rightarrow> None
           | Some b \<Rightarrow>
               if le16 b 11 \<noteq> 512 then None
               else Some \<lparr>partition_lba = part_lba_start part, bytes_per_sector = le16 b 11,
                 sectors_per_cluster = b 13, reserved_sectors = le16 b 14, num_fats = b 16,
                 fat_size_32 = le32 b 36, root_cluster = le32 b 44,
                 first_data_sector = ucast (le16 b 14) + ucast (b 16) * le32 b 36,
                 fat1_lba = part_lba_start part + ucast (le16 b 14)\<rparr>))"

section \<open>What a file contains\<close>

definition sector_bytes :: "ata_state \<Rightarrow> u32 \<Rightarrow> u8 list" where
  "sector_bytes a lba = (case ata_read_sector a lba of None \<Rightarrow> [] | Some sec \<Rightarrow> map sec [0..<512])"

definition cluster_bytes :: "fat32_fs \<Rightarrow> ata_state \<Rightarrow> u32 \<Rightarrow> u8 list" where
  "cluster_bytes fs a c =
     concat (map (\<lambda>s. sector_bytes a (cluster_to_lba fs c + of_nat s)) [0..<unat (sectors_per_cluster fs)])"

definition chain_bytes :: "fat32_fs \<Rightarrow> ata_state \<Rightarrow> u32 list \<Rightarrow> u8 list" where
  "chain_bytes fs a cs = concat (map (cluster_bytes fs a) cs)"

definition readable :: "ata_state \<Rightarrow> u32 \<Rightarrow> bool" where
  "readable a lba \<longleftrightarrow> ata_read_sector a lba \<noteq> None"

text \<open>The entry of the file allocation table for a cluster, read from the disk.\<close>

definition fat_next :: "fat32_fs \<Rightarrow> ata_state \<Rightarrow> u32 \<Rightarrow> u32" where
  "fat_next fs a c =
     (case ata_read_sector a (fat1_lba fs + (c * 4) div 512) of None \<Rightarrow> FAT32_EOF
      | Some b \<Rightarrow> le32 b (unat ((c * 4) mod 512)) AND 0x0FFFFFFF)"

text \<open>The cached sector, when it is one of the table's, has the content of the disk.\<close>

definition cache_ok :: "fat32_fs \<Rightarrow> ata_state \<Rightarrow> bool" where
  "cache_ok fs a \<longleftrightarrow> (\<forall>c. fat1_lba fs + (c * 4) div 512 = fat_buffer_sector a \<longrightarrow>
     ata_read_sector a (fat_buffer_sector a) = Some (fat_sector_buffer a))"

lemma ata_read_sector_cong: "disk a = disk b \<Longrightarrow> ata_read_sector a = ata_read_sector b"
  by (simp add: ata_read_sector_def fun_eq_iff)

lemma fat32_next_cluster_spec:
  assumes "cache_ok fs a" and "fat32_next_cluster fs c a = (c', a')"
  shows "c' = fat_next fs a c" and "cache_ok fs a'" and "disk a' = disk a"
proof -
  let ?l = "fat1_lba fs + (c * 4) div 512"
  have "c' = fat_next fs a c \<and> cache_ok fs a' \<and> disk a' = disk a"
  proof (cases "?l = fat_buffer_sector a")
    case True
    then have r: "ata_read_sector a ?l = Some (fat_sector_buffer a)" using assms(1) unfolding cache_ok_def by metis
    show ?thesis using assms r True by (auto simp: fat32_next_cluster_def Let_def fat_next_def)
  next
    case False
    show ?thesis
    proof (cases "ata_read_sector a ?l")
      case None
      then show ?thesis using False assms by (auto simp: fat32_next_cluster_def Let_def fat_next_def)
    next
      case (Some b)
      let ?a = "a\<lparr>fat_sector_buffer := b, fat_buffer_sector := ?l\<rparr>"
      have "ata_read_sector ?a = ata_read_sector a" by (rule ata_read_sector_cong) simp
      then have "cache_ok fs ?a" using Some by (simp add: cache_ok_def)
      then show ?thesis using False Some assms by (auto simp: fat32_next_cluster_def Let_def fat_next_def)
    qed
  qed
  then show "c' = fat_next fs a c" and "cache_ok fs a'" and "disk a' = disk a" by simp_all
qed

text \<open>A file's clusters: each leads to the next and the last to an end mark.\<close>

fun fat_chain :: "fat32_fs \<Rightarrow> ata_state \<Rightarrow> u32 \<Rightarrow> u32 list \<Rightarrow> bool" where
  "fat_chain fs a c [] \<longleftrightarrow> c \<ge> FAT32_EOF"
| "fat_chain fs a c (d # ds) \<longleftrightarrow> c = d \<and> c < FAT32_EOF \<and>
     (\<forall>s<unat (sectors_per_cluster fs). readable a (cluster_to_lba fs c + of_nat s)) \<and>
     fat_chain fs a (fat_next fs a c) ds"

lemma bytes_cong:
  assumes "disk a = disk b"
  shows "chain_bytes fs a = chain_bytes fs b" and "fat_next fs a = fat_next fs b"
    and "fat_chain fs a c cs = fat_chain fs b c cs"
proof -
  note r = ata_read_sector_cong [OF assms]
  show n: "fat_next fs a = fat_next fs b" by (simp add: fat_next_def r fun_eq_iff)
  show "chain_bytes fs a = chain_bytes fs b"
  proof -
    have "cluster_bytes fs a = cluster_bytes fs b"
      by (simp add: cluster_bytes_def sector_bytes_def r fun_eq_iff)
    then show ?thesis unfolding chain_bytes_def by (intro ext) simp
  qed
  show "fat_chain fs a c cs = fat_chain fs b c cs"
    by (induction cs arbitrary: c) (simp_all add: n readable_def r)
qed

lemma length_sector_bytes [simp]: "readable a lba \<Longrightarrow> length (sector_bytes a lba) = 512"
  by (auto simp: readable_def sector_bytes_def)

lemma length_cluster_bytes:
  assumes "\<forall>s<unat (sectors_per_cluster fs). readable a (cluster_to_lba fs c + of_nat s)"
  shows "length (cluster_bytes fs a c) = unat (sectors_per_cluster fs) * 512"
proof -
  have "length (concat (map (\<lambda>s. sector_bytes a (cluster_to_lba fs c + of_nat s)) ss)) = length ss * 512"
    if "\<forall>s\<in>set ss. readable a (cluster_to_lba fs c + of_nat s)" for ss
    using that by (induction ss) auto
  then show ?thesis using assms by (simp add: cluster_bytes_def)
qed

text \<open>The sector loop copies the bytes behind \<open>co\<close>, at most as many as are missing.\<close>

lemma read_sectors_spec:
  fixes co :: nat
  assumes "\<forall>s\<in>set ss. readable a (lba + of_nat s)" and "length got < sz"
  defines "bytes \<equiv> concat (map (\<lambda>s. sector_bytes a (lba + of_nat s)) ss)"
  defines "new \<equiv> take (sz - length got) (drop co bytes)"
  shows "\<exists>co'. read_sectors a lba ss co sz got = (sz \<le> length (got @ new), got @ new, co') \<and>
    (length (got @ new) < sz \<longrightarrow> co' = co - length bytes)"
  using assms(1,2) unfolding new_def bytes_def
proof (induction ss arbitrary: co got)
  case (Cons s ss)
  let ?rest = "concat (map (\<lambda>s. sector_bytes a (lba + of_nat s)) ss)"
  obtain sec where sec: "ata_read_sector a (lba + of_nat s) = Some sec"
    using Cons.prems(1) by (auto simp: readable_def)
  have sb: "sector_bytes a (lba + of_nat s) = map sec [0..<512]" by (simp add: sector_bytes_def sec)
  have rd: "\<forall>s\<in>set ss. readable a (lba + of_nat s)" using Cons.prems(1) by simp
  show ?case
  proof (cases "co \<ge> 512")
    case True
    then show ?thesis using Cons.IH [OF rd Cons.prems(2), of "co - 512"] by (simp add: sb)
  next
    case False
    define k where "k = min (512 - co) (sz - length got)"
    let ?got = "got @ map sec [co..<co + k]"
    have d: "drop co (map sec [0..<512] @ ?rest) = map sec [co..<512] @ ?rest"
      using False by (simp add: drop_map)
    have ms: "map sec [co..<co + k] = take k (map sec [co..<512])"
      using False by (simp add: take_map k_def)
    have B: "concat (map (\<lambda>s. sector_bytes a (lba + of_nat s)) (s # ss)) = map sec [0..<512] @ ?rest"
      by (simp add: sb)
    have rs: "read_sectors a lba (s # ss) co sz got =
        (if sz \<le> length ?got then (True, ?got, 0) else read_sectors a lba ss 0 sz ?got)"
      using False Cons.prems(2) by (simp add: sec k_def Let_def)
    show ?thesis
    proof (cases "sz \<le> length ?got")
      case True
      then have k: "k = sz - length got" using Cons.prems(2) by (simp add: k_def)
      then have "k \<le> 512 - co" by (simp add: k_def)
      then have "take (sz - length got) (drop co (map sec [0..<512] @ ?rest)) = map sec [co..<co + k]"
        unfolding d using ms k by simp
      then show ?thesis unfolding B rs using True by simp
    next
      case F2: False
      then have k: "k = 512 - co" "co + k = 512" using Cons.prems(2) False by (auto simp: k_def)
      have lt: "length ?got < sz" using F2 by simp
      have t: "take (sz - length got) (drop co (map sec [0..<512] @ ?rest)) =
          map sec [co..<512] @ take (sz - length ?got) ?rest"
        unfolding d using F2 k by simp
      obtain co' where "read_sectors a lba ss 0 sz ?got =
          (sz \<le> length (?got @ take (sz - length ?got) ?rest), ?got @ take (sz - length ?got) ?rest, co')"
        "length (?got @ take (sz - length ?got) ?rest) < sz \<longrightarrow> co' = 0"
        using Cons.IH [OF rd lt, of 0] by auto
      then show ?thesis unfolding B rs t using F2 k False by simp
    qed
  qed
qed simp


lemma read_clusters_spec:
  assumes "cache_ok fs a" and "fat_chain fs a c cs" and "co < unat (sectors_per_cluster fs) * 512 \<or> cs = []"
  shows "\<exists>a'. read_clusters fs c co sz got a =
      Some (got @ take (sz - length got) (drop co (chain_bytes fs a cs)), a') \<and> cache_ok fs a' \<and> disk a' = disk a"
  using assms
proof (induction cs arbitrary: c co got a)
  case Nil
  then have "\<not> c < FAT32_EOF" by simp
  then have "read_clusters fs c co sz got a = Some (got, a)" by (subst read_clusters.simps) simp
  then show ?case using Nil by (simp add: chain_bytes_def)
next
  case (Cons d ds)
  then have c: "d = c" "c < FAT32_EOF" and ch: "fat_chain fs a (fat_next fs a c) ds"
    and rd: "\<forall>s\<in>set [0..<unat (sectors_per_cluster fs)]. readable a (cluster_to_lba fs c + of_nat s)"
    and co: "co < unat (sectors_per_cluster fs) * 512" by auto
  have len: "length (cluster_bytes fs a c) = unat (sectors_per_cluster fs) * 512"
    using length_cluster_bytes rd by simp
  show ?case
  proof (cases "length got < sz")
    case False
    then have "read_clusters fs c co sz got a = Some (got, a)" by (subst read_clusters.simps) simp
    then show ?thesis using Cons False by simp
  next
    case True
    let ?new = "take (sz - length got) (drop co (cluster_bytes fs a c))"
    have bytes: "chain_bytes fs a (d # ds) = cluster_bytes fs a c @ chain_bytes fs a ds"
      by (simp add: chain_bytes_def c)
    from read_sectors_spec [OF rd True, of co] obtain co' where
      rs: "read_sectors a (cluster_to_lba fs c) [0..<unat (sectors_per_cluster fs)] co sz got =
        (sz \<le> length (got @ ?new), got @ ?new, co')"
      and co': "length (got @ ?new) < sz \<longrightarrow> co' = 0"
      using co len unfolding cluster_bytes_def by auto
    show ?thesis
    proof (cases "sz \<le> length (got @ ?new)")
      case over: True
      have "read_clusters fs c co sz got a = Some (got @ ?new, a)"
        using True c over by (subst read_clusters.simps) (simp add: rs Let_def)
      moreover have "take (sz - length got) (drop co (chain_bytes fs a (d # ds))) = ?new"
        using over co len by (simp add: bytes)
      ultimately show ?thesis using Cons.prems(1) by simp
    next
      case more: False
      obtain c1 a1 where n: "fat32_next_cluster fs c a = (c1, a1)" by fastforce
      note nx = fat32_next_cluster_spec [OF Cons.prems(1) n]
      have new: "?new = drop co (cluster_bytes fs a c)" using more len by simp
      have step: "read_clusters fs c co sz got a = read_clusters fs c1 0 sz (got @ ?new) a1"
        using True c(2) more co' by (subst read_clusters.simps) (simp add: rs n Let_def not_le del: length_append)
      have "fat_chain fs a1 c1 ds" using ch nx bytes_cong(3) by metis
      moreover have "0 < unat (sectors_per_cluster fs) * 512 \<or> ds = []" using co by simp
      ultimately obtain a' where a': "read_clusters fs c1 0 sz (got @ ?new) a1 =
          Some ((got @ ?new) @ take (sz - length (got @ ?new)) (drop 0 (chain_bytes fs a1 ds)), a')"
        "cache_ok fs a'" "disk a' = disk a1" using Cons.IH [OF nx(2)] by blast
      have "chain_bytes fs a1 = chain_bytes fs a" using bytes_cong(1) nx(3) by metis
      moreover have "take (sz - length got) (drop co (chain_bytes fs a (d # ds))) =
          ?new @ take (sz - length (got @ ?new)) (chain_bytes fs a ds)"
        using more co len new by (simp add: bytes)
      ultimately show ?thesis using step a' nx(3) by simp
    qed
  qed
qed

lemma skip_clusters_spec:
  assumes "cache_ok fs a" and "fat_chain fs a c cs" and "n < length cs"
  shows "\<exists>a' c'. skip_clusters fs n c a = (Some c', a') \<and> cache_ok fs a' \<and> disk a' = disk a \<and>
    fat_chain fs a c' (drop n cs)"
  using assms
proof (induction n arbitrary: c cs a)
  case (Suc n)
  then obtain d ds where cs: "cs = d # ds" by (cases cs) auto
  obtain c1 a1 where n: "fat32_next_cluster fs c a = (c1, a1)" by fastforce
  note nx = fat32_next_cluster_spec [OF Suc.prems(1) n]
  have "fat_chain fs a c1 ds" using Suc.prems(2) unfolding cs nx(1) fat_chain.simps by blast
  then have ch: "fat_chain fs a1 c1 ds" using bytes_cong(3) nx(3) by metis
  moreover have "ds \<noteq> []" using Suc.prems(3) cs by auto
  ultimately have "\<not> c1 \<ge> FAT32_EOF" by (cases ds) auto
  moreover obtain a' c' where "skip_clusters fs n c1 a1 = (Some c', a')" "cache_ok fs a'" "disk a' = disk a1"
    "fat_chain fs a1 c' (drop n ds)" using Suc.IH [OF nx(2) ch] Suc.prems(3) cs by auto
  moreover have "fat_chain fs a c' (drop n ds) = fat_chain fs a1 c' (drop n ds)"
    using bytes_cong(3) nx(3) by metis
  ultimately show ?case using n nx(3) cs by simp
qed simp


definition disk_demo :: ata_state where
  "disk_demo = \<lparr>disk = (\<lambda>lba. if lba = 1 then Some (\<lambda>i. if i \<in> {12, 13, 14} then 0xFF else if i = 15 then 0x0F else 0)
     else if lba = 3 then Some (\<lambda>i. of_nat i) else None),
     fat_sector_buffer = (\<lambda>_. 0), fat_buffer_sector = 0, partitions = []\<rparr>"

definition fs_demo :: fat32_fs where
  "fs_demo = \<lparr>partition_lba = 0, bytes_per_sector = 512, sectors_per_cluster = 1, reserved_sectors = 1,
     num_fats = 1, fat_size_32 = 1, root_cluster = 2, first_data_sector = 2, fat1_lba = 1\<rparr>"

lemma fat_chain_demo: "fat_chain fs_demo disk_demo 3 [3]"
  by (simp add: readable_def fs_demo_def disk_demo_def ata_read_sector_def cluster_to_lba_def fat_next_def
      le32_def)

lemma cache_ok_demo: "cache_ok fs_demo disk_demo"
proof -
  have "(1 :: u32) + (c * 4) div 512 \<noteq> 0" for c :: u32
  proof -
    have "unat ((c * 4) div 512) < 4294967295" using unat_u32_bound [of "c * 4"] by (simp add: unat_div)
    then show ?thesis by (simp add: word_unat_eq_iff unat_word_ariths)
  qed
  then show ?thesis by (simp add: cache_ok_def fs_demo_def disk_demo_def)
qed



text \<open>
  A long-name entry with order 31 writes behind the 256 byte buffer on the kernel stack, one with
  order 0 before it.
\<close>

lemma lfn_overflows:
  "lfn_entry (\<lambda>i. if i = 0 then 0x5F else 0x41) lfn_start = None"
  "lfn_entry (\<lambda>i. if i = 0 then 0x40 else 0x41) lfn_start = None"
  by (simp_all add: lfn_entry_def lfn_units_def le16_def ucs2_to_utf8_def lfn_start_def)

end
