(* ===== verification/Vfs_Node.thy ===== *)
theory Vfs_Node
  imports Klib Heap Console Fat32
begin

text \<open>
  The data of the virtual file system (\<open>vfs.h\<close>) and the operations every file system uses: the tree
  of nodes, generic directory reads, creation of nodes (\<open>vfs.c\<close>), and the FAT32 callback that turns
  a directory entry into a node (\<open>fat32.c\<close>).

  Objects the kernel allocates are kept by address, one map per C type; bytes (file buffers and user
  memory) are one flat memory. The linked list of a node's children is the list of their addresses.
  A function pointer in a node is the name of the function. Names and paths are byte lists without
  the terminating NUL. \<open>None\<close> is a kernel that crashed or hangs: a NULL dereference, a corrupted heap
  header, an endless loop.
\<close>

unbundle bit_operations_syntax

section \<open>Data\<close>

abbreviation (input) FS_FILE :: u32 where "FS_FILE \<equiv> 0x01"
abbreviation (input) FS_DIRECTORY :: u32 where "FS_DIRECTORY \<equiv> 0x02"
abbreviation (input) FS_CHARDEVICE :: u32 where "FS_CHARDEVICE \<equiv> 0x04"
abbreviation (input) FS_MOUNTPOINT :: u32 where "FS_MOUNTPOINT \<equiv> 0x40"
abbreviation (input) FS_SYSTEM :: u32 where "FS_SYSTEM \<equiv> 0x80"
abbreviation (input) S_IFDIR :: u32 where "S_IFDIR \<equiv> 0x4000"
abbreviation (input) S_IFREG :: u32 where "S_IFREG \<equiv> 0x8000"
abbreviation (input) O_CREAT :: u32 where "O_CREAT \<equiv> 0x0040"
abbreviation (input) O_TRUNC :: u32 where "O_TRUNC \<equiv> 0x0200"
abbreviation (input) PERM_READ_ONLY :: u32 where "PERM_READ_ONLY \<equiv> 0x124"
abbreviation (input) PERM_READ_WRITE :: u32 where "PERM_READ_WRITE \<equiv> 0x1B6"
abbreviation (input) VFS_MAX_FILENAME :: nat where "VFS_MAX_FILENAME \<equiv> 256"
abbreviation (input) MAX_MOUNT_HOPS :: nat where "MAX_MOUNT_HOPS \<equiv> 16"
abbreviation (input) SIZEOF_VFS_NODE :: u32 where "SIZEOF_VFS_NODE \<equiv> 336"

datatype callback =
    No_callback
  | Generic_readdir | Generic_finddir
  | Tmpfs_open | Tmpfs_read | Tmpfs_write | Tmpfs_create | Tmpfs_unlink | Tmpfs_close
  | Console_open | Console_close | Console_read | Console_write
  | Initrd_read
  | Fat32_read | Fat32_readdir | Fat32_finddir

record vnode =
  n_name :: "u8 list"
  n_size :: u32
  n_flags :: u32
  n_permissions :: u32
  n_read :: callback
  n_write :: callback
  n_readdir :: callback
  n_finddir :: callback
  n_open :: callback
  n_close :: callback
  n_create :: callback
  n_unlink :: callback
  n_private :: u32
  n_parent :: u32
  n_children :: "u32 list"
  n_mount :: u32
  n_ref :: u32
  n_unlinked :: bool

record dirent =
  d_ino :: u32
  d_type :: u32
  d_name :: "u8 list"

record open_file =
  f_node :: u32
  f_offset :: u32
  f_flags :: u32
  f_ref :: u32

record tmpfs_file =
  t_data :: u32
  t_size :: u32
  t_capacity :: u32

record initrd_file =
  i_data :: u32
  i_size :: u32

record fat32_node =
  fn_fs :: u32
  fn_start_cluster :: u32
  fn_size :: u32

record fs_state =
  fs_heap :: heap_state
  kmem :: mem
  nodes :: "u32 \<Rightarrow> vnode"
  files :: "u32 \<Rightarrow> open_file"
  tmpfs_files :: "u32 \<Rightarrow> tmpfs_file"
  initrd_files :: "u32 \<Rightarrow> initrd_file"
  fat_nodes :: "u32 \<Rightarrow> fat32_node"
  fat_systems :: "u32 \<Rightarrow> fat32_fs"
  vfs_root :: u32
  tmpfs_root :: u32
  cons :: console
  keys :: "u8 list"
  ata :: ata_state

text \<open>A node after \<open>k_memset(node, 0, sizeof(vfs_node_t))\<close>.\<close>

definition zero_node :: vnode where
  "zero_node = \<lparr>n_name = [], n_size = 0, n_flags = 0, n_permissions = 0, n_read = No_callback,
     n_write = No_callback, n_readdir = No_callback, n_finddir = No_callback, n_open = No_callback,
     n_close = No_callback, n_create = No_callback, n_unlink = No_callback, n_private = 0, n_parent = 0,
     n_children = [], n_mount = 0, n_ref = 0, n_unlinked = False\<rparr>"

definition bytes_of :: "string \<Rightarrow> u8 list" where
  "bytes_of = map of_char"

definition on_node :: "u32 \<Rightarrow> (vnode \<Rightarrow> vnode) \<Rightarrow> fs_state \<Rightarrow> fs_state" where
  "on_node p f s = s\<lparr>nodes := (nodes s)(p := f (nodes s p))\<rparr>"

definition fs_kmalloc :: "u32 \<Rightarrow> fs_state \<Rightarrow> fs_state \<times> u32" where
  "fs_kmalloc sz s = (let (h, p) = kmalloc sz (fs_heap s) in (s\<lparr>fs_heap := h\<rparr>, p))"

definition fs_kfree :: "u32 \<Rightarrow> fs_state \<Rightarrow> fs_state option" where
  "fs_kfree p s = map_option (\<lambda>h. s\<lparr>fs_heap := h\<rparr>) (kfree p (fs_heap s))"

section \<open>The tree of nodes\<close>

definition vfs_generic_readdir :: "u32 \<Rightarrow> u32 \<Rightarrow> fs_state \<Rightarrow> dirent option" where
  "vfs_generic_readdir node index s =
     (if node = 0 then None
      else let cs = n_children (nodes s node)
           in if unat index < length cs then
                let child = nodes s (cs ! unat index)
                in Some \<lparr>d_ino = 0, d_type = (if n_flags child AND FS_DIRECTORY \<noteq> 0 then 4 else 8),
                         d_name = take 255 (n_name child)\<rparr>
              else None)"

definition vfs_generic_finddir :: "u32 \<Rightarrow> u8 list \<Rightarrow> fs_state \<Rightarrow> u32" where
  "vfs_generic_finddir node name s =
     (if node = 0 then 0
      else case find (\<lambda>c. n_name (nodes s c) = name) (n_children (nodes s node)) of
             None \<Rightarrow> 0 | Some c \<Rightarrow> c)"

definition vfs_add_child :: "u32 \<Rightarrow> u32 \<Rightarrow> fs_state \<Rightarrow> fs_state" where
  "vfs_add_child parent child s =
     (if parent = 0 \<or> child = 0 then s
      else on_node parent (\<lambda>n. n\<lparr>n_children := n_children n @ [child]\<rparr>)
             (on_node child (\<lambda>n. n\<lparr>n_parent := parent\<rparr>) s))"

definition vfs_create_node :: "u8 list \<Rightarrow> u32 \<Rightarrow> u32 \<Rightarrow> u32 \<Rightarrow> fs_state \<Rightarrow> fs_state \<times> u32" where
  "vfs_create_node name flags parent private_data s =
     (let (s, node) = fs_kmalloc SIZEOF_VFS_NODE s
      in if node = 0 then (s, 0)
         else let n = zero_node\<lparr>n_name := take (VFS_MAX_FILENAME - 1) name, n_flags := flags,
                                n_private := private_data\<rparr>;
                  n = (if flags AND FS_DIRECTORY \<noteq> 0
                       then n\<lparr>n_readdir := Generic_readdir, n_finddir := Generic_finddir\<rparr> else n);
                  s = s\<lparr>nodes := (nodes s)(node := n)\<rparr>
              in (if parent \<noteq> 0 then vfs_add_child parent node s else s, node))"

definition vfs_init :: "fs_state \<Rightarrow> fs_state" where
  "vfs_init s =
     (let (s, root) = fs_kmalloc SIZEOF_VFS_NODE s; s = s\<lparr>vfs_root := root\<rparr>
      in if root = 0 then s
         else s\<lparr>nodes := (nodes s)(root := zero_node\<lparr>n_name := bytes_of ''/'', n_flags := FS_DIRECTORY,
                n_permissions := PERM_READ_ONLY, n_readdir := Generic_readdir,
                n_finddir := Generic_finddir\<rparr>)\<rparr>)"

section \<open>FAT32 nodes\<close>

abbreviation (input) SIZEOF_FAT32_NODE_DATA :: u32 where "SIZEOF_FAT32_NODE_DATA \<equiv> 12"

definition fat32_finddir :: "u32 \<Rightarrow> u8 list \<Rightarrow> fs_state \<Rightarrow> (u32 \<times> fs_state) option" where
  "fat32_finddir node name s =
     (let data = n_private (nodes s node); d = fat_nodes s data
      in if data = 0 \<or> fn_fs d = 0 then Some (0, s)
         else case fat32_lookup (fat_systems s (fn_fs d)) (fn_start_cluster d) name (ata s) of
           None \<Rightarrow> None
         | Some (None, a) \<Rightarrow> Some (0, s\<lparr>ata := a\<rparr>)
         | Some (Some (final_name, attr, cluster, file_size), a) \<Rightarrow>
             let flags = (if attr AND FAT32_ATTR_DIRECTORY \<noteq> 0 then FS_DIRECTORY else FS_FILE);
                 (s, child) = vfs_create_node final_name flags node 0 (s\<lparr>ata := a\<rparr>);
                 (s, child_data) = fs_kmalloc SIZEOF_FAT32_NODE_DATA s
             in if child = 0 \<or> child_data = 0 then None
                else let s = s\<lparr>fat_nodes := (fat_nodes s)(child_data :=
                             \<lparr>fn_fs = fn_fs d, fn_start_cluster = cluster, fn_size = file_size\<rparr>)\<rparr>
                     in Some (child, on_node child (\<lambda>n.
                          let n = n\<lparr>n_private := child_data, n_size := file_size\<rparr>
                          in if flags AND FS_DIRECTORY \<noteq> 0
                             then n\<lparr>n_readdir := Fat32_readdir, n_finddir := Fat32_finddir\<rparr>
                             else n\<lparr>n_read := Fat32_read\<rparr>) s))"

text \<open>Calling a node's \<open>finddir\<close>: a node without that callback finds nothing.\<close>

definition node_finddir :: "u32 \<Rightarrow> u8 list \<Rightarrow> fs_state \<Rightarrow> (u32 \<times> fs_state) option" where
  "node_finddir node name s =
     (if node = 0 then None else case n_finddir (nodes s node) of
        Generic_finddir \<Rightarrow> Some (vfs_generic_finddir node name s, s)
      | Fat32_finddir \<Rightarrow> fat32_finddir node name s
      | No_callback \<Rightarrow> Some (0, s)
      | _ \<Rightarrow> None)"

section \<open>Path lookup\<close>

text \<open>
  Following mount points; the counter of hops is shared by the whole lookup. The result \<open>None\<close> is the
  error of too many hops.
\<close>

function resolve_mounts :: "fs_state \<Rightarrow> u32 \<Rightarrow> nat \<Rightarrow> (u32 \<times> nat) option" where
  "resolve_mounts s node hops =
     (if node \<noteq> 0 \<and> n_flags (nodes s node) AND FS_MOUNTPOINT \<noteq> 0 then
        (if Suc hops > MAX_MOUNT_HOPS then None
         else resolve_mounts s (n_mount (nodes s node)) (Suc hops))
      else Some (node, hops))"
  by pat_completeness auto
termination by (relation "measure (\<lambda>(s, node, hops). 17 - hops)") auto

declare resolve_mounts.simps [simp del]

text \<open>The next component of a path, at most 255 bytes of it, and what is left.\<close>

definition next_token :: "u8 list \<Rightarrow> u8 list \<times> u8 list" where
  "next_token path =
     (let path = dropWhile (\<lambda>c. c = 0x2F) path;
          token = take (VFS_MAX_FILENAME - 1) (takeWhile (\<lambda>c. c \<noteq> 0x2F) path)
      in (token, drop (length token) path))"

lemma next_token_shorter:
  "next_token path = (token, rest) \<Longrightarrow> token \<noteq> [] \<Longrightarrow> length rest < length path"
proof -
  assume a: "next_token path = (token, rest)" "token \<noteq> []"
  let ?p = "dropWhile (\<lambda>c. c = 0x2F) path"
  have r: "rest = drop (length token) ?p" and t: "token = take 255 (takeWhile (\<lambda>c. c \<noteq> 0x2F) ?p)"
    using a(1) by (auto simp: next_token_def Let_def)
  have "?p \<noteq> []"
  proof
    assume "?p = []"
    then have "token = []" unfolding t by (simp only: takeWhile.simps take_Nil)
    with a(2) show False ..
  qed
  then have "length rest < length ?p" using a(2) by (simp only: r length_drop) (simp add: length_greater_0_conv del: dropWhile_eq_Nil_conv)
  also have "\<dots> \<le> length path" by (rule length_dropWhile_le)
  finally show ?thesis .
qed

function lookup_loop :: "u32 \<Rightarrow> nat \<Rightarrow> u8 list \<Rightarrow> fs_state \<Rightarrow> (u32 \<times> fs_state) option" where
  "lookup_loop current hops path s =
     (let (token, rest) = next_token path
      in if token = [] then
           (case resolve_mounts s current hops of None \<Rightarrow> Some (0, s) | Some (node, _) \<Rightarrow> Some (node, s))
         else case resolve_mounts s current hops of
                None \<Rightarrow> Some (0, s)
              | Some (node, hops) \<Rightarrow>
                  if node = 0 then Some (0, s)
                  else case node_finddir node token s of
                         None \<Rightarrow> None
                       | Some (child, s) \<Rightarrow> if child = 0 then Some (0, s) else lookup_loop child hops rest s)"
  by pat_completeness auto
termination
  by (relation "measure (\<lambda>(current, hops, path, s). length path)") (auto dest: next_token_shorter [OF sym])

declare lookup_loop.simps [simp del]

definition vfs_findnode :: "u8 list \<Rightarrow> fs_state \<Rightarrow> (u32 \<times> fs_state) option" where
  "vfs_findnode path s =
     (if path = [] \<or> hd path \<noteq> 0x2F then Some (0, s)
      else if tl path = [] then Some (vfs_root s, s)
      else lookup_loop (vfs_root s) 0 (tl path) s)"

definition vfs_mount :: "u8 list \<Rightarrow> u32 \<Rightarrow> fs_state \<Rightarrow> (int \<times> fs_state) option" where
  "vfs_mount path target s =
     (case vfs_findnode path s of None \<Rightarrow> None
      | Some (mountpoint, s) \<Rightarrow>
          if mountpoint = 0 \<or> target = 0 then Some (- 1, s)
          else if n_flags (nodes s mountpoint) AND FS_DIRECTORY = 0 then Some (- 1, s)
          else Some (0, on_node mountpoint
                 (\<lambda>n. n\<lparr>n_flags := n_flags n OR FS_MOUNTPOINT, n_mount := target\<rparr>) s))"

function mkdir_loop :: "u32 \<Rightarrow> u8 list \<Rightarrow> fs_state \<Rightarrow> (u32 \<times> fs_state) option" where
  "mkdir_loop current path s =
     (let (token, rest) = next_token path
      in if token = [] then Some (current, s)
         else case node_finddir current token s of
                None \<Rightarrow> None
              | Some (child, s) \<Rightarrow>
                  if child \<noteq> 0 then mkdir_loop child rest s
                  else let (s, child) = vfs_create_node token FS_DIRECTORY current 0 s
                       in if child = 0 then Some (0, s) else mkdir_loop child rest s)"
  by pat_completeness auto
termination
  by (relation "measure (\<lambda>(current, path, s). length path)") (auto dest: next_token_shorter [OF sym])

declare mkdir_loop.simps [simp del]

definition vfs_mkdir_recursive :: "u8 list \<Rightarrow> fs_state \<Rightarrow> (u32 \<times> fs_state) option" where
  "vfs_mkdir_recursive path s =
     (if path = [] \<or> hd path \<noteq> 0x2F then Some (0, s) else mkdir_loop (vfs_root s) (tl path) s)"

end
