(* ===== verification/Tmpfs.thy ===== *)
theory Tmpfs
  imports Vfs_Node
begin

text \<open>
  The writable file system in memory, \<open>tmpfs.c\<close>: callbacks for opening, reading, writing, creating,
  unlinking and closing, and its mount at \<open>/tmp\<close>. A file's bytes are one heap block that grows.
\<close>

unbundle bit_operations_syntax

abbreviation (input) TMPFS_MAX_FILE_SIZE :: u32 where "TMPFS_MAX_FILE_SIZE \<equiv> 26214400"
abbreviation (input) SIZEOF_TMPFS_FILE_DATA :: u32 where "SIZEOF_TMPFS_FILE_DATA \<equiv> 12"

definition on_file_data :: "u32 \<Rightarrow> (tmpfs_file \<Rightarrow> tmpfs_file) \<Rightarrow> fs_state \<Rightarrow> fs_state" where
  "on_file_data p f s = s\<lparr>tmpfs_files := (tmpfs_files s)(p := f (tmpfs_files s p))\<rparr>"

definition tmpfs_open :: "u32 \<Rightarrow> u32 \<Rightarrow> fs_state \<Rightarrow> int \<times> fs_state" where
  "tmpfs_open node flags s =
     (let fdata = n_private (nodes s node)
      in if flags AND O_TRUNC \<noteq> 0 \<and> fdata \<noteq> 0 then
           (0, on_node node (\<lambda>n. n\<lparr>n_size := 0\<rparr>) (on_file_data fdata (\<lambda>f. f\<lparr>t_size := 0\<rparr>) s))
         else (0, s))"

definition tmpfs_read :: "u32 \<Rightarrow> u32 \<Rightarrow> u32 \<Rightarrow> u32 \<Rightarrow> fs_state \<Rightarrow> int \<times> fs_state" where
  "tmpfs_read node offset sz buffer s =
     (let fdata = n_private (nodes s node); f = tmpfs_files s fdata
      in if fdata = 0 \<or> t_data f = 0 then (0, s)
         else if offset \<ge> t_size f then (0, s)
         else let sz = (if offset + sz > t_size f then t_size f - offset else sz)
              in (sint sz, s\<lparr>kmem := k_memcpy (kmem s) buffer (t_data f + offset) sz\<rparr>))"

text \<open>\<open>while (new_capacity < new_size) new_capacity <<= 1\<close>; 32 doublings pass every 32-bit size.\<close>

primrec double_until :: "nat \<Rightarrow> u32 \<Rightarrow> u32 \<Rightarrow> u32" where
  "double_until 0 new_capacity new_size = new_capacity"
| "double_until (Suc k) new_capacity new_size =
     (if new_capacity < new_size then double_until k (push_bit 1 new_capacity) new_size else new_capacity)"

definition grown_capacity :: "u32 \<Rightarrow> u32" where
  "grown_capacity new_size =
     (let c = (if new_size < 1048576 then double_until 32 1 new_size else new_size + new_size div 4)
      in if c > TMPFS_MAX_FILE_SIZE then TMPFS_MAX_FILE_SIZE else c)"

text \<open>The growth step: \<open>Some\<close> of an error code or of the state with a large enough buffer.\<close>

definition tmpfs_grow :: "u32 \<Rightarrow> u32 \<Rightarrow> fs_state \<Rightarrow> (int \<times> fs_state) option" where
  "tmpfs_grow fdata new_size s =
     (let f = tmpfs_files s fdata
      in if new_size > t_capacity f then
           (let (s, new_data) = fs_kmalloc (grown_capacity new_size) s
            in if new_data = 0 then Some (- ENOMEM, s)
               else let s = (if t_data f \<noteq> 0 \<and> t_size f > 0
                             then s\<lparr>kmem := k_memcpy (kmem s) new_data (t_data f) (t_size f)\<rparr> else s)
                    in case (if t_data f \<noteq> 0 then fs_kfree (t_data f) s else Some s) of
                         None \<Rightarrow> None
                       | Some s \<Rightarrow> Some (0, on_file_data fdata
                           (\<lambda>f. f\<lparr>t_data := new_data, t_capacity := grown_capacity new_size\<rparr>) s))
         else Some (0, s))"

definition tmpfs_write :: "u32 \<Rightarrow> u32 \<Rightarrow> u32 \<Rightarrow> u32 \<Rightarrow> fs_state \<Rightarrow> (int \<times> fs_state) option" where
  "tmpfs_write node offset sz buffer s =
     (let fdata = n_private (nodes s node); new_size = offset + sz
      in if fdata = 0 then Some (- 1, s)
         else if new_size > TMPFS_MAX_FILE_SIZE then Some (- ENOSPC, s)
         else case tmpfs_grow fdata new_size s of None \<Rightarrow> None
         | Some (ret, s) \<Rightarrow>
             if ret \<noteq> 0 then Some (ret, s)
             else let f = tmpfs_files s fdata;
                      s = (if offset > t_size f
                           then s\<lparr>kmem := k_memset (kmem s) (t_data f + t_size f) 0 (offset - t_size f)\<rparr> else s);
                      s = s\<lparr>kmem := k_memcpy (kmem s) (t_data f + offset) buffer sz\<rparr>;
                      s = (if new_size > t_size f then on_node node (\<lambda>n. n\<lparr>n_size := new_size\<rparr>)
                             (on_file_data fdata (\<lambda>f. f\<lparr>t_size := new_size\<rparr>) s) else s)
                  in Some (sint sz, s))"

definition tmpfs_create :: "u32 \<Rightarrow> u8 list \<Rightarrow> u32 \<Rightarrow> fs_state \<Rightarrow> (u32 \<times> fs_state) option" where
  "tmpfs_create parent name mode s =
     (let (s, new_node) = fs_kmalloc SIZEOF_VFS_NODE s
      in if new_node = 0 then Some (0, s)
         else let n = zero_node\<lparr>n_name := take (VFS_MAX_FILENAME - 1) name,
                                n_permissions := mode AND 0xFFF, n_parent := parent\<rparr>;
                  link = (\<lambda>s. on_node parent (\<lambda>p. p\<lparr>n_children := n_children p @ [new_node]\<rparr>) s)
              in if mode AND S_IFDIR \<noteq> 0 then
                   Some (new_node, link (s\<lparr>nodes := (nodes s)(new_node :=
                     n\<lparr>n_flags := FS_DIRECTORY, n_readdir := Generic_readdir, n_finddir := Generic_finddir,
                       n_create := Tmpfs_create, n_unlink := Tmpfs_unlink, n_open := Tmpfs_open,
                       n_close := Tmpfs_close\<rparr>)\<rparr>))
                 else let (s, fdata) = fs_kmalloc SIZEOF_TMPFS_FILE_DATA s
                      in if fdata = 0 then map_option (\<lambda>s. (0, s)) (fs_kfree new_node s)
                         else Some (new_node, link (s\<lparr>nodes := (nodes s)(new_node :=
                                n\<lparr>n_flags := FS_FILE, n_private := fdata, n_read := Tmpfs_read,
                                  n_write := Tmpfs_write, n_open := Tmpfs_open, n_close := Tmpfs_close\<rparr>),
                                tmpfs_files := (tmpfs_files s)(fdata :=
                                  \<lparr>t_data = 0, t_size = 0, t_capacity = 0\<rparr>)\<rparr>)))"

definition tmpfs_close :: "u32 \<Rightarrow> fs_state \<Rightarrow> fs_state option" where
  "tmpfs_close node s =
     (if n_unlinked (nodes s node) then
        (let fdata = n_private (nodes s node)
         in case (if fdata \<noteq> 0 then
                    (case (if t_data (tmpfs_files s fdata) \<noteq> 0 then fs_kfree (t_data (tmpfs_files s fdata)) s
                           else Some s) of
                       None \<Rightarrow> None | Some s \<Rightarrow> fs_kfree fdata s)
                  else Some s) of
              None \<Rightarrow> None
            | Some s \<Rightarrow> Some (on_node node (\<lambda>n. n\<lparr>n_private := 0\<rparr>) s))
      else Some s)"

definition tmpfs_unlink :: "u32 \<Rightarrow> u8 list \<Rightarrow> fs_state \<Rightarrow> int \<times> fs_state" where
  "tmpfs_unlink parent name s =
     (case find (\<lambda>c. n_name (nodes s c) = name) (n_children (nodes s parent)) of
        None \<Rightarrow> (- ENOENT, s)
      | Some cur \<Rightarrow>
          if n_flags (nodes s cur) AND FS_DIRECTORY \<noteq> 0 \<and> n_children (nodes s cur) \<noteq> [] then (- ENOTEMPTY, s)
          else (0, on_node cur (\<lambda>n. n\<lparr>n_parent := 0, n_unlinked := True\<rparr>)
                 (on_node parent (\<lambda>p. p\<lparr>n_children := remove1 cur (n_children p)\<rparr>) s)))"

definition tmpfs_init :: "fs_state \<Rightarrow> fs_state option" where
  "tmpfs_init s =
     (let (s, root) = fs_kmalloc SIZEOF_VFS_NODE s; s = s\<lparr>tmpfs_root := root\<rparr>
      in if root = 0 then Some s
         else let s = s\<lparr>nodes := (nodes s)(root := zero_node\<lparr>n_name := bytes_of ''tmpfs_root'',
                        n_flags := FS_DIRECTORY, n_create := Tmpfs_create, n_unlink := Tmpfs_unlink,
                        n_readdir := Generic_readdir, n_finddir := Generic_finddir, n_close := Tmpfs_close\<rparr>)\<rparr>
              in case vfs_findnode (bytes_of ''/tmp'') s of None \<Rightarrow> None
                 | Some (tmp_dir, s) \<Rightarrow>
                     (let (s, tmp_dir) = (if tmp_dir = 0
                                          then vfs_create_node (bytes_of ''tmp'') FS_DIRECTORY (vfs_root s) 0 s
                                          else (s, tmp_dir))
                      in if tmp_dir = 0 then map_option (\<lambda>s. s\<lparr>tmpfs_root := 0\<rparr>) (fs_kfree root s)
                         else map_option snd (vfs_mount (bytes_of ''/tmp'') root s)))"

end
