(* ===== verification/Initrd.thy ===== *)
theory Initrd
  imports Vfs_Node
begin

text \<open>
  The boot archive, \<open>initrd.c\<close>: the UStar parser that fills the tree with the files of the first boot
  module, and the read callback. The archive's bytes are in memory at their addresses; a file's data
  stays in the archive. The C buffers are large enough for what is put into them (155 + 1 + 100 bytes
  of path), and names are byte lists.
\<close>

unbundle bit_operations_syntax

abbreviation (input) SIZEOF_INITRD_FILE :: u32 where "SIZEOF_INITRD_FILE \<equiv> 8"

definition initrd_read :: "u32 \<Rightarrow> u32 \<Rightarrow> u32 \<Rightarrow> u32 \<Rightarrow> fs_state \<Rightarrow> int \<times> fs_state" where
  "initrd_read node offset sz buffer s =
     (let file = initrd_files s (n_private (nodes s node))
      in if node = 0 \<or> n_private (nodes s node) = 0 \<or> buffer = 0 then (- 1, s)
         else if offset \<ge> i_size file then (0, s)
         else let to_read = (if offset + sz > i_size file then i_size file - offset else sz)
              in (sint to_read, s\<lparr>kmem := k_memcpy (kmem s) buffer (i_data file + offset) to_read\<rparr>))"

text \<open>The bytes of a header field, and the C string in it, at most \<open>n - 1\<close> bytes.\<close>

definition field :: "mem \<Rightarrow> u32 \<Rightarrow> nat \<Rightarrow> u8 list" where
  "field m a n = map (\<lambda>i. m (a + of_nat i)) [0..<n]"

definition initrd_strncpy :: "u8 list \<Rightarrow> nat \<Rightarrow> u8 list" where
  "initrd_strncpy src n = take (n - 1) (c_string src)"

definition parse_octal :: "u8 list \<Rightarrow> u32" where
  "parse_octal str =
     fold (\<lambda>c res. push_bit 3 res + ucast (c - 0x30))
       (takeWhile (\<lambda>c. 0x30 \<le> c \<and> c \<le> 0x37) str) 0"

abbreviation (input) TAR_NAME :: u32 where "TAR_NAME \<equiv> 0"
abbreviation (input) TAR_SIZE :: u32 where "TAR_SIZE \<equiv> 124"
abbreviation (input) TAR_TYPEFLAG :: u32 where "TAR_TYPEFLAG \<equiv> 156"
abbreviation (input) TAR_MAGIC :: u32 where "TAR_MAGIC \<equiv> 257"
abbreviation (input) TAR_PREFIX :: u32 where "TAR_PREFIX \<equiv> 345"

definition ustar :: "mem \<Rightarrow> u32 \<Rightarrow> bool" where
  "ustar m header \<longleftrightarrow> field m (header + TAR_MAGIC) 5 = bytes_of ''ustar''"

text \<open>The path of an entry: prefix and name joined, a leading \<open>./\<close> and a trailing slash removed.\<close>

definition tar_path :: "mem \<Rightarrow> u32 \<Rightarrow> u8 list" where
  "tar_path m header =
     (let prefix = initrd_strncpy (field m (header + TAR_PREFIX) 155) 155;
          prefix = (if prefix \<noteq> [] \<and> last prefix \<noteq> 0x2F then prefix @ [0x2F] else prefix);
          full_path = prefix @ initrd_strncpy (field m (header + TAR_NAME) 100) 100;
          clean_path = (if length full_path \<ge> 2 \<and> full_path ! 0 = 0x2E \<and> full_path ! 1 = 0x2F
                        then drop 2 full_path else full_path)
      in if clean_path \<noteq> [] \<and> last clean_path = 0x2F then butlast clean_path else clean_path)"

definition get_or_create_dir :: "u32 \<Rightarrow> u8 list \<Rightarrow> fs_state \<Rightarrow> u32 \<times> fs_state" where
  "get_or_create_dir parent name s =
     (case find (\<lambda>c. n_name (nodes s c) = name) (n_children (nodes s parent)) of
        Some c \<Rightarrow> (c, s)
      | None \<Rightarrow>
          let flags = (if n_flags (nodes s parent) AND FS_SYSTEM \<noteq> 0 then FS_DIRECTORY OR FS_SYSTEM else FS_DIRECTORY);
              (s, node) = vfs_create_node name flags parent 0 s
          in (node, s))"

text \<open>
  The directories of a path, created as needed; the result is the last directory and the component
  after the last slash. A directory that could not be created is a NULL dereference in the next step.
\<close>

lemma takeWhile_shorter:
  "length (takeWhile P path) \<noteq> length path \<Longrightarrow> length path - Suc n < length path"
  by (cases path) auto

function walk_dirs :: "u32 \<Rightarrow> u8 list \<Rightarrow> fs_state \<Rightarrow> (u32 \<times> u8 list \<times> fs_state) option" where
  "walk_dirs parent path s =
     (let token = takeWhile (\<lambda>c. c \<noteq> 0x2F) path
      in if length token = length path then Some (parent, take (VFS_MAX_FILENAME - 1) path, s)
         else let rest = drop (Suc (length token)) path
              in if token = [] then walk_dirs parent rest s
                 else if parent = 0 then None
                 else let (dir, s) = get_or_create_dir parent (take (VFS_MAX_FILENAME - 1) token) s
                      in walk_dirs dir rest s)"
  by pat_completeness auto
termination
  by (relation "measure (\<lambda>(parent, path, s). length path)") (auto simp: takeWhile_shorter)

declare walk_dirs.simps [simp del]

text \<open>
  The entries, in order. The header has passed the checks of the loop; a file keeps a pointer into the
  archive. \<open>typeflag\<close> 5 is a directory, 0 (the digit or NUL) a file; others are skipped.
\<close>

definition initrd_entry :: "u32 \<Rightarrow> u32 \<Rightarrow> fs_state \<Rightarrow> fs_state option" where
  "initrd_entry root header s =
     (let path = tar_path (kmem s) header;
          sz = parse_octal (field (kmem s) (header + TAR_SIZE) 12);
          typeflag = kmem s (header + TAR_TYPEFLAG)
      in if path = [] then Some s
         else case walk_dirs root path s of None \<Rightarrow> None
         | Some (parent, filename, s) \<Rightarrow>
             if typeflag = 0x35 then
               (if parent = 0 then None
                else let (dir, s) = get_or_create_dir parent filename s
                in if parent = root \<and> filename = bytes_of ''boot'' then
                     (if dir = 0 then None
                      else Some (on_node dir (\<lambda>n. n\<lparr>n_flags := n_flags n OR FS_SYSTEM\<rparr>) s))
                   else Some s)
             else if typeflag = 0x30 \<or> typeflag = 0 then
               (let (s, ctx) = fs_kmalloc SIZEOF_INITRD_FILE s
                in if ctx = 0 then Some s
                   else if parent = 0 then None
                   else let s = s\<lparr>initrd_files := (initrd_files s)(ctx := \<lparr>i_data = header + 512, i_size = sz\<rparr>)\<rparr>;
                            flags = (if n_flags (nodes s parent) AND FS_SYSTEM \<noteq> 0 then FS_FILE OR FS_SYSTEM else FS_FILE);
                            (s, file) = vfs_create_node filename flags parent ctx s
                        in if file = 0 then fs_kfree ctx s
                           else Some (on_node file (\<lambda>n. n\<lparr>n_size := sz, n_read := Initrd_read\<rparr>) s))
             else Some s)"

definition next_header :: "mem \<Rightarrow> u32 \<Rightarrow> u32" where
  "next_header m header =
     (let empty = m (header + TAR_NAME) = 0;
          sz = (if empty then 0 else parse_octal (field m (header + TAR_SIZE) 12))
      in header + 512 + (sz + 511) div 512 * 512)"

text \<open>
  The loop over the archive. A size field near \<open>2 ^ 32\<close> sends the header back, so the loop need not
  end: \<open>None\<close>.
\<close>

partial_function (option) initrd_loop :: "u32 \<Rightarrow> u32 \<Rightarrow> u32 \<Rightarrow> fs_state \<Rightarrow> fs_state option" where
  "initrd_loop root tar_end header s =
     (if header \<ge> PHYS_TO_VIRT tar_end then Some s
      else if kmem s (header + TAR_NAME) = 0 then
        (if kmem s (header + TAR_MAGIC) = 0 then Some s
         else initrd_loop root tar_end (next_header (kmem s) header) s)
      else if \<not> ustar (kmem s) header then Some s
      else case initrd_entry root header s of None \<Rightarrow> None
           | Some s' \<Rightarrow> initrd_loop root tar_end (next_header (kmem s) header) s')"

text \<open>The search for the first header, in the first 8 KiB of the module.\<close>

fun find_header :: "mem \<Rightarrow> u32 \<Rightarrow> nat list \<Rightarrow> u32 \<Rightarrow> u32" where
  "find_header m tar_end [] header = header"
| "find_header m tar_end (i # is) header =
     (if header < PHYS_TO_VIRT tar_end \<and> \<not> ustar m header then find_header m tar_end is (header + 512)
      else header)"

text \<open>The argument is the first boot module, if the boot loader reports one.\<close>

definition initrd_init :: "(u32 \<times> u32) option \<Rightarrow> fs_state \<Rightarrow> fs_state option" where
  "initrd_init module0 s =
     (case module0 of None \<Rightarrow> Some s
      | Some (tar_start, tar_end) \<Rightarrow>
      if tar_start = 0 \<or> tar_end \<le> tar_start then Some s
      else let header = find_header (kmem s) tar_end [0..<16] (PHYS_TO_VIRT tar_start)
           in if \<not> ustar (kmem s) header then Some s
              else if vfs_root s = 0 then Some s
              else initrd_loop (vfs_root s) tar_end header s)"

end
