(* ===== verification/Vfs.thy ===== *)
theory Vfs
  imports Tmpfs Initrd
begin

text \<open>
  File descriptors and the file system calls of \<open>vfs.c\<close>, over the callbacks of the file systems.
  A task's descriptor table is a map from descriptors to open files, 0 for a free entry.
\<close>

unbundle bit_operations_syntax

abbreviation (input) TASK_MAX_OPEN_FILES :: nat where "TASK_MAX_OPEN_FILES \<equiv> 256"
abbreviation (input) SIZEOF_OPEN_FILE :: u32 where "SIZEOF_OPEN_FILE \<equiv> 16"

type_synonym fd_table = "nat \<Rightarrow> u32"

section \<open>The callbacks\<close>

definition load_bytes :: "mem \<Rightarrow> u32 \<Rightarrow> u32 \<Rightarrow> u8 list" where
  "load_bytes m a n = map (\<lambda>i. m (a + of_nat i)) [0..<unat n]"

fun store_bytes :: "u32 \<Rightarrow> u8 list \<Rightarrow> mem \<Rightarrow> mem" where
  "store_bytes a [] m = m"
| "store_bytes a (b # bs) m = store_bytes (a + 1) bs (m(a := b))"

definition node_read :: "u32 \<Rightarrow> u32 \<Rightarrow> u32 \<Rightarrow> u32 \<Rightarrow> fs_state \<Rightarrow> (int \<times> fs_state) option" where
  "node_read node offset sz buffer s =
     (case n_read (nodes s node) of
        Tmpfs_read \<Rightarrow> Some (tmpfs_read node offset sz buffer s)
      | Initrd_read \<Rightarrow> Some (initrd_read node offset sz buffer s)
      | Console_read \<Rightarrow>
          (case devfs_console_read sz (keys s) of None \<Rightarrow> None
           | Some (bs, ks) \<Rightarrow>
               Some (sint (of_nat (length bs) :: u32), s\<lparr>keys := ks, kmem := store_bytes buffer bs (kmem s)\<rparr>))
      | Fat32_read \<Rightarrow>
          (let data = n_private (nodes s node); d = fat_nodes s data
           in if data = 0 \<or> fn_fs d = 0 then Some (0, s)
              else case fat32_read (fat_systems s (fn_fs d)) (fn_start_cluster d) (n_size (nodes s node))
                          offset sz (ata s) of
                     None \<Rightarrow> None
                   | Some (bs, a) \<Rightarrow> Some (sint (of_nat (length bs) :: u32),
                       s\<lparr>ata := a, kmem := store_bytes buffer bs (kmem s)\<rparr>))
      | No_callback \<Rightarrow> Some (- 1, s)
      | _ \<Rightarrow> None)"

definition node_write :: "u32 \<Rightarrow> u32 \<Rightarrow> u32 \<Rightarrow> u32 \<Rightarrow> fs_state \<Rightarrow> (int \<times> fs_state) option" where
  "node_write node offset sz buffer s =
     (case n_write (nodes s node) of
        Tmpfs_write \<Rightarrow> tmpfs_write node offset sz buffer s
      | Console_write \<Rightarrow>
          (case devfs_console_write (load_bytes (kmem s) buffer sz) (cons s) of None \<Rightarrow> None
           | Some (n, c) \<Rightarrow> Some (sint n, s\<lparr>cons := c\<rparr>))
      | No_callback \<Rightarrow> Some (- 1, s)
      | _ \<Rightarrow> None)"

definition node_readdir :: "u32 \<Rightarrow> u32 \<Rightarrow> fs_state \<Rightarrow> (dirent option \<times> fs_state) option" where
  "node_readdir node index s =
     (case n_readdir (nodes s node) of
        Generic_readdir \<Rightarrow> Some (vfs_generic_readdir node index s, s)
      | Fat32_readdir \<Rightarrow>
          (let data = n_private (nodes s node); d = fat_nodes s data
           in if data = 0 \<or> fn_fs d = 0 then Some (None, s)
              else case fat32_readdir (fat_systems s (fn_fs d)) (fn_start_cluster d) index (ata s) of
                     None \<Rightarrow> None
                   | Some (e, a) \<Rightarrow>
                       Some (map_option (\<lambda>(name, ino). \<lparr>d_ino = ino, d_type = 0, d_name = name\<rparr>) e, s\<lparr>ata := a\<rparr>))
      | No_callback \<Rightarrow> Some (None, s)
      | _ \<Rightarrow> None)"

definition node_open :: "u32 \<Rightarrow> u32 \<Rightarrow> fs_state \<Rightarrow> (int \<times> fs_state) option" where
  "node_open node flags s =
     (case n_open (nodes s node) of
        Tmpfs_open \<Rightarrow> Some (tmpfs_open node flags s)
      | Console_open \<Rightarrow> (let (ret, c) = devfs_console_open (cons s) in Some (ret, s\<lparr>cons := c\<rparr>))
      | No_callback \<Rightarrow> Some (0, s)
      | _ \<Rightarrow> None)"

definition node_close :: "u32 \<Rightarrow> fs_state \<Rightarrow> fs_state option" where
  "node_close node s =
     (case n_close (nodes s node) of
        Tmpfs_close \<Rightarrow> tmpfs_close node s
      | Console_close \<Rightarrow> Some (s\<lparr>cons := devfs_console_close (cons s)\<rparr>)
      | No_callback \<Rightarrow> Some s
      | _ \<Rightarrow> None)"

definition node_create :: "u32 \<Rightarrow> u8 list \<Rightarrow> u32 \<Rightarrow> fs_state \<Rightarrow> (u32 \<times> fs_state) option" where
  "node_create parent name mode s =
     (case n_create (nodes s parent) of
        Tmpfs_create \<Rightarrow> tmpfs_create parent name mode s
      | _ \<Rightarrow> None)"

definition node_unlink :: "u32 \<Rightarrow> u8 list \<Rightarrow> fs_state \<Rightarrow> (int \<times> fs_state) option" where
  "node_unlink parent name s =
     (case n_unlink (nodes s parent) of
        Tmpfs_unlink \<Rightarrow> Some (tmpfs_unlink parent name s)
      | _ \<Rightarrow> None)"

definition vfs_read :: "u32 \<Rightarrow> u32 \<Rightarrow> u32 \<Rightarrow> u32 \<Rightarrow> fs_state \<Rightarrow> (int \<times> fs_state) option" where
  "vfs_read node offset sz buffer s = (if node = 0 then Some (- 1, s) else node_read node offset sz buffer s)"

definition vfs_write :: "u32 \<Rightarrow> u32 \<Rightarrow> u32 \<Rightarrow> u32 \<Rightarrow> fs_state \<Rightarrow> (int \<times> fs_state) option" where
  "vfs_write node offset sz buffer s = (if node = 0 then Some (- 1, s) else node_write node offset sz buffer s)"

section \<open>Opening and closing\<close>

text \<open>A path split at its last slash: the parent directory and the name in it.\<close>

definition split_path :: "u8 list \<Rightarrow> (u8 list \<times> u8 list) option" where
  "split_path path =
     (if path = [] \<or> hd path \<noteq> 0x2F then None
      else let name = rev (takeWhile (\<lambda>c. c \<noteq> 0x2F) (rev path));
               last_slash = length path - length name - 1
           in Some (if last_slash = 0 then [0x2F] else take last_slash path, take 255 name))"

text \<open>\<open>while (parent && (parent->flags & FS_MOUNTPOINT)) parent = parent->mountpoint_node\<close>\<close>

partial_function (option) through_mounts :: "fs_state \<Rightarrow> u32 \<Rightarrow> u32 option" where
  "through_mounts s parent =
     (if parent \<noteq> 0 \<and> n_flags (nodes s parent) AND FS_MOUNTPOINT \<noteq> 0
      then through_mounts s (n_mount (nodes s parent)) else Some parent)"

text \<open>The directory that holds the last component; an error code when there is none to use.\<close>

definition parent_dir :: "u8 list \<Rightarrow> fs_state \<Rightarrow> ((int + u32 \<times> u8 list) \<times> fs_state) option" where
  "parent_dir path s =
     (case split_path path of None \<Rightarrow> Some (Inl (- ENOENT), s)
      | Some (parent_path, name) \<Rightarrow>
          (case vfs_findnode parent_path s of None \<Rightarrow> None
           | Some (parent, s) \<Rightarrow>
               if parent = 0 then Some (Inl (- ENOENT), s)
               else case through_mounts s parent of None \<Rightarrow> None
               | Some parent \<Rightarrow>
                   if parent = 0 then Some (Inl (- ENOENT), s)
                   else if n_flags (nodes s parent) AND FS_DIRECTORY = 0 then Some (Inl (- EACCES), s)
                   else Some (Inr (parent, name), s)))"

definition open_create :: "u8 list \<Rightarrow> u32 \<Rightarrow> fs_state \<Rightarrow> ((int + u32) \<times> fs_state) option" where
  "open_create path mode s =
     (case parent_dir path s of None \<Rightarrow> None
      | Some (Inl e, s) \<Rightarrow> Some (Inl e, s)
      | Some (Inr (parent, name), s) \<Rightarrow>
          if n_create (nodes s parent) = No_callback then Some (Inl (- EACCES), s)
          else case node_create parent name mode s of None \<Rightarrow> None
               | Some (node, s) \<Rightarrow> Some (if node = 0 then Inl (- ENOMEM) else Inr node, s))"

definition free_fd :: "fd_table \<Rightarrow> nat option" where
  "free_fd fds = find (\<lambda>i. fds i = 0) [0..<TASK_MAX_OPEN_FILES]"

definition open_node :: "u32 \<Rightarrow> u32 \<Rightarrow> fd_table \<Rightarrow> fs_state \<Rightarrow> (int \<times> fd_table \<times> fs_state) option" where
  "open_node node flags fds s =
     (if n_flags (nodes s node) AND FS_SYSTEM \<noteq> 0 \<and> n_flags (nodes s node) AND FS_DIRECTORY = 0
      then Some (- EACCES, fds, s)
      else case node_open node flags s of None \<Rightarrow> None
      | Some (ret, s) \<Rightarrow>
          if ret \<noteq> 0 then Some (- EACCES, fds, s)
          else let s = on_node node (\<lambda>n. n\<lparr>n_ref := n_ref n + 1\<rparr>) s;
                   (s, opened) = fs_kmalloc SIZEOF_OPEN_FILE s
               in if opened = 0 then Some (- ENOMEM, fds, on_node node (\<lambda>n. n\<lparr>n_ref := n_ref n - 1\<rparr>) s)
                  else let s = s\<lparr>files := (files s)(opened :=
                             \<lparr>f_node = node, f_offset = 0, f_flags = flags, f_ref = 1\<rparr>)\<rparr>
                       in case free_fd fds of
                            Some i \<Rightarrow> Some (int i, fds(i := opened), s)
                          | None \<Rightarrow>
                              (case fs_kfree opened s of None \<Rightarrow> None
                               | Some s \<Rightarrow> Some (- ENOMEM, fds, on_node node (\<lambda>n. n\<lparr>n_ref := n_ref n - 1\<rparr>) s)))"

definition sys_open :: "u8 list \<Rightarrow> u32 \<Rightarrow> u32 \<Rightarrow> fd_table \<Rightarrow> fs_state \<Rightarrow> (int \<times> fd_table \<times> fs_state) option" where
  "sys_open path flags mode fds s =
     (case vfs_findnode path s of None \<Rightarrow> None
      | Some (node, s) \<Rightarrow>
          if node \<noteq> 0 then open_node node flags fds s
          else if flags AND O_CREAT = 0 then Some (- ENOENT, fds, s)
          else case open_create path mode s of None \<Rightarrow> None
               | Some (Inl e, s) \<Rightarrow> Some (e, fds, s)
               | Some (Inr node, s) \<Rightarrow> open_node node flags fds s)"

definition valid_fd :: "int \<Rightarrow> bool" where
  "valid_fd fd \<longleftrightarrow> 0 \<le> fd \<and> fd < int TASK_MAX_OPEN_FILES"

text \<open>Freeing the node behind the last descriptor of an unlinked file.\<close>

definition release_node :: "u32 \<Rightarrow> fs_state \<Rightarrow> fs_state option" where
  "release_node node s =
     (case node_close node s of None \<Rightarrow> None
      | Some s \<Rightarrow>
          (case (if n_private (nodes s node) \<noteq> 0
                 then map_option (on_node node (\<lambda>n. n\<lparr>n_private := 0\<rparr>)) (fs_kfree (n_private (nodes s node)) s)
                 else Some s) of
             None \<Rightarrow> None | Some s \<Rightarrow> fs_kfree node s))"

definition vfs_close_fd :: "int \<Rightarrow> fd_table \<Rightarrow> fs_state \<Rightarrow> (int \<times> fd_table \<times> fs_state) option" where
  "vfs_close_fd fd fds s =
     (if \<not> valid_fd fd then Some (- EBADF, fds, s)
      else let opened = fds (nat fd)
           in if opened = 0 then Some (- EBADF, fds, s)
              else let fds = fds(nat fd := 0);
                       s = s\<lparr>files := (files s)(opened := (files s opened)\<lparr>f_ref := f_ref (files s opened) - 1\<rparr>)\<rparr>
                   in if f_ref (files s opened) \<noteq> 0 then Some (0, fds, s)
                      else let node = f_node (files s opened)
                           in case (if node = 0 then Some s
                                    else let s = on_node node (\<lambda>n. n\<lparr>n_ref := n_ref n - 1\<rparr>) s
                                         in if n_ref (nodes s node) = 0 \<and> n_unlinked (nodes s node)
                                            then release_node node s else Some s) of
                                None \<Rightarrow> None
                              | Some s \<Rightarrow> map_option (\<lambda>s. (0, fds, s)) (fs_kfree opened s))"

definition sys_unlink :: "u8 list \<Rightarrow> fs_state \<Rightarrow> (int \<times> fs_state) option" where
  "sys_unlink path s =
     (case parent_dir path s of None \<Rightarrow> None
      | Some (Inl e, s) \<Rightarrow> Some (e, s)
      | Some (Inr (parent, name), s) \<Rightarrow>
          if n_unlink (nodes s parent) = No_callback then Some (- EACCES, s)
          else case node_finddir parent name s of None \<Rightarrow> None
          | Some (target, s) \<Rightarrow>
              if target = 0 then Some (- ENOENT, s)
              else case node_unlink parent name s of None \<Rightarrow> None
              | Some (ret, s) \<Rightarrow>
                  if ret \<noteq> 0 then Some (ret, s)
                  else let s = on_node target (\<lambda>n. n\<lparr>n_unlinked := True\<rparr>) s
                       in if n_ref (nodes s target) = 0 then
                            (case node_close target s of None \<Rightarrow> None
                             | Some s \<Rightarrow> map_option (\<lambda>s. (ret, s)) (fs_kfree target s))
                          else Some (ret, s))"

section \<open>Reading and writing\<close>

definition advance :: "u32 \<Rightarrow> int \<Rightarrow> fs_state \<Rightarrow> fs_state" where
  "advance opened bytes s =
     (if bytes > 0 then s\<lparr>files := (files s)(opened :=
        (files s opened)\<lparr>f_offset := f_offset (files s opened) + of_int bytes\<rparr>)\<rparr> else s)"

definition sys_read :: "int \<Rightarrow> u32 \<Rightarrow> u32 \<Rightarrow> fd_table \<Rightarrow> fs_state \<Rightarrow> (int \<times> fs_state) option" where
  "sys_read fd buf count fds s =
     (if \<not> valid_fd fd \<or> buf = 0 then Some (- 1, s)
      else let opened = fds (nat fd); f = files s opened
           in if opened = 0 \<or> f_node f = 0 \<or> n_read (nodes s (f_node f)) = No_callback then Some (- 1, s)
              else case node_read (f_node f) (f_offset f) count buf s of None \<Rightarrow> None
                   | Some (bytes, s) \<Rightarrow> Some (bytes, advance opened bytes s))"

definition sys_write :: "int \<Rightarrow> u32 \<Rightarrow> u32 \<Rightarrow> fd_table \<Rightarrow> fs_state \<Rightarrow> (int \<times> fs_state) option" where
  "sys_write fd buf count fds s =
     (if \<not> valid_fd fd \<or> buf = 0 then Some (- 1, s)
      else let opened = fds (nat fd); f = files s opened
           in if opened = 0 \<or> f_node f = 0 \<or> n_write (nodes s (f_node f)) = No_callback then Some (- 1, s)
              else case node_write (f_node f) (f_offset f) count buf s of None \<Rightarrow> None
                   | Some (bytes, s) \<Rightarrow> Some (bytes, advance opened bytes s))"

definition sys_readdir :: "int \<Rightarrow> u32 \<Rightarrow> fd_table \<Rightarrow> fs_state \<Rightarrow> (dirent option \<times> fs_state) option" where
  "sys_readdir fd index fds s =
     (if \<not> valid_fd fd then Some (None, s)
      else let opened = fds (nat fd); node = f_node (files s opened)
           in if opened = 0 \<or> node = 0 then Some (None, s)
              else if n_flags (nodes s node) AND FS_DIRECTORY = 0 then Some (None, s)
              else if n_readdir (nodes s node) = No_callback then Some (None, s)
              else node_readdir node index s)"

section \<open>Device nodes and the FAT32 mount\<close>

definition devfs_init :: "fs_state \<Rightarrow> fs_state option" where
  "devfs_init s =
     (case vfs_mkdir_recursive (bytes_of ''/dev'') s of None \<Rightarrow> None
      | Some (root, s) \<Rightarrow>
          if root = 0 then Some s
          else let (s, console_node) = vfs_create_node (bytes_of ''console'') FS_CHARDEVICE root 0 s
               in if console_node = 0 then Some s
                  else Some (on_node console_node (\<lambda>n. n\<lparr>n_read := Console_read, n_write := Console_write,
                         n_open := Console_open, n_close := Console_close, n_permissions := PERM_READ_WRITE\<rparr>) s))"

abbreviation (input) SIZEOF_FAT32_FS :: u32 where "SIZEOF_FAT32_FS \<equiv> 28"

definition fat32_init :: "fs_state \<Rightarrow> fs_state option" where
  "fat32_init s =
     (case fat32_probe (ata s) of None \<Rightarrow> Some s
      | Some fs \<Rightarrow>
          let (s, fsp) = fs_kmalloc SIZEOF_FAT32_FS s
          in if fsp = 0 then None
             else let s = s\<lparr>fat_systems := (fat_systems s)(fsp := fs)\<rparr>;
                      (s, root) = vfs_create_node (bytes_of ''fat32_root'') FS_DIRECTORY 0 0 s;
                      (s, data) = fs_kmalloc SIZEOF_FAT32_NODE_DATA s
                  in if data = 0 \<or> root = 0 then None
                     else let s = s\<lparr>fat_nodes := (fat_nodes s)(data :=
                                \<lparr>fn_fs = fsp, fn_start_cluster = root_cluster fs, fn_size = 0\<rparr>)\<rparr>;
                              s = on_node root (\<lambda>n. n\<lparr>n_private := data, n_readdir := Fat32_readdir,
                                n_finddir := Fat32_finddir\<rparr>) s
                          in case vfs_findnode (bytes_of ''/mnt/c'') s of None \<Rightarrow> None
                             | Some (mnt_c, s) \<Rightarrow>
                                 Some (if mnt_c = 0 then s
                                       else on_node mnt_c
                                         (\<lambda>n. n\<lparr>n_flags := n_flags n OR FS_MOUNTPOINT, n_mount := root\<rparr>) s))"

end
