(* ===== verification/Syscall_File.thy ===== *)
theory Syscall_File
  imports Vfs
begin

text \<open>
  The system calls on files, \<open>syscall.c\<close>: the checks of user pointers, the copying of paths, and one
  handler per call over the registers of the trap frame. Interrupts are off where the code touches
  reference counts, so a handler is one step.
\<close>

unbundle bit_operations_syntax

section \<open>The trap frame and the constants\<close>

record regs =
  r_gs :: u32
  r_fs :: u32
  r_es :: u32
  r_ds :: u32
  edi :: u32
  esi :: u32
  ebp :: u32
  esp :: u32
  ebx :: u32
  edx :: u32
  ecx :: u32
  eax :: u32
  int_no :: u32
  err_code :: u32
  eip :: u32
  r_cs :: u32
  eflags :: u32
  useresp :: u32
  r_ss :: u32

abbreviation (input) SEEK_SET :: int where "SEEK_SET \<equiv> 0"
abbreviation (input) SEEK_CUR :: int where "SEEK_CUR \<equiv> 1"
abbreviation (input) SEEK_END :: int where "SEEK_END \<equiv> 2"
abbreviation (input) TIOCGWINSZ :: u32 where "TIOCGWINSZ \<equiv> 0x5413"
abbreviation (input) UTSNAME_LENGTH :: nat where "UTSNAME_LENGTH \<equiv> 65"
abbreviation (input) SIZEOF_STAT :: u32 where "SIZEOF_STAT \<equiv> 52"
abbreviation (input) SIZEOF_WINSIZE :: u32 where "SIZEOF_WINSIZE \<equiv> 8"
abbreviation (input) SIZEOF_DIRENT :: u32 where "SIZEOF_DIRENT \<equiv> 264"
abbreviation (input) SIZEOF_TIMEVAL :: u32 where "SIZEOF_TIMEVAL \<equiv> 8"
abbreviation (input) SIZEOF_UTSNAME :: u32 where "SIZEOF_UTSNAME \<equiv> 325"
abbreviation (input) SIZEOF_SYSINFO :: u32 where "SIZEOF_SYSINFO \<equiv> 44"

text \<open>What a handler returns: its result, the table of descriptors and the state.\<close>

type_synonym fd_result = "(int \<times> fd_table \<times> fs_state) option"

section \<open>User pointers and strings\<close>

definition is_user_pointer :: "u32 \<Rightarrow> u32 \<Rightarrow> bool" where
  "is_user_pointer ptr sz \<longleftrightarrow>
     ptr \<noteq> 0 \<and> \<not> ptr \<ge> KERNEL_SPACE_START \<and> (sz = 0 \<or> \<not> ptr > USER_SPACE_END - sz + 1)"

text \<open>The loop with \<open>max_len - 1 - copied\<close> bytes to go; the result is the code and the bytes copied.\<close>

fun copy_loop :: "mem \<Rightarrow> u32 \<Rightarrow> nat \<Rightarrow> u8 list \<Rightarrow> int \<times> u8 list" where
  "copy_loop m src 0 dest = (- ENAMETOOLONG, dest)"
| "copy_loop m src (Suc k) dest =
     (if src \<ge> KERNEL_SPACE_START then (- EFAULT, dest)
      else if m src = 0 then (0, dest)
      else copy_loop m (src + 1) k (dest @ [m src]))"

definition copy_string_from_user :: "mem \<Rightarrow> u32 \<Rightarrow> nat \<Rightarrow> int \<times> u8 list" where
  "copy_string_from_user m user_src max_len =
     (if user_src = 0 then (- EFAULT, [])
      else if user_src \<ge> KERNEL_SPACE_START then (- EFAULT, [])
      else copy_loop m user_src (max_len - 1) [])"

text \<open>The bytes of a little-endian integer.\<close>

definition bytes32 :: "u32 \<Rightarrow> u8 list" where
  "bytes32 w = map (\<lambda>i. ucast (drop_bit (8 * i) w)) [0..<4]"

definition bytes16 :: "u16 \<Rightarrow> u8 list" where
  "bytes16 w = map (\<lambda>i. ucast (drop_bit (8 * i) w)) [0..<2]"

definition copy_to_user :: "u32 \<Rightarrow> u8 list \<Rightarrow> fs_state \<Rightarrow> fs_state" where
  "copy_to_user dest bs s = s\<lparr>kmem := store_bytes dest bs (kmem s)\<rparr>"

section \<open>Reading, writing, opening, closing\<close>

definition sys_write_handler :: "regs \<Rightarrow> fd_table \<Rightarrow> fs_state \<Rightarrow> fd_result" where
  "sys_write_handler r fds s =
     (if \<not> is_user_pointer (ecx r) (edx r) then Some (- EFAULT, fds, s)
      else map_option (\<lambda>(ret, s). (ret, fds, s)) (sys_write (sint (ebx r)) (ecx r) (edx r) fds s))"

definition sys_read_handler :: "regs \<Rightarrow> fd_table \<Rightarrow> fs_state \<Rightarrow> fd_result" where
  "sys_read_handler r fds s =
     (if \<not> is_user_pointer (ecx r) (edx r) then Some (- EFAULT, fds, s)
      else map_option (\<lambda>(ret, s). (ret, fds, s)) (sys_read (sint (ebx r)) (ecx r) (edx r) fds s))"

definition sys_unlink_handler :: "regs \<Rightarrow> fd_table \<Rightarrow> fs_state \<Rightarrow> fd_result" where
  "sys_unlink_handler r fds s =
     (let (ret, path) = copy_string_from_user (kmem s) (ebx r) 256
      in if ret < 0 then Some (ret, fds, s)
         else map_option (\<lambda>(ret, s). (ret, fds, s)) (sys_unlink path s))"

definition sys_open_handler :: "regs \<Rightarrow> fd_table \<Rightarrow> fs_state \<Rightarrow> fd_result" where
  "sys_open_handler r fds s =
     (let flags = ecx r; mode = edx r; (ret, path) = copy_string_from_user (kmem s) (ebx r) 256
      in if ret < 0 then Some (ret, fds, s)
         else let mode = (if flags AND O_CREAT \<noteq> 0 then (mode AND 0xFFF) OR S_IFREG else mode)
              in sys_open path flags mode fds s)"

definition sys_close_handler :: "regs \<Rightarrow> fd_table \<Rightarrow> fs_state \<Rightarrow> fd_result" where
  "sys_close_handler r fds s =
     (let fd = sint (ebx r)
      in if \<not> valid_fd fd then Some (- EBADF, fds, s) else vfs_close_fd fd fds s)"

section \<open>Positions and metadata\<close>

definition sys_lseek_handler :: "regs \<Rightarrow> fd_table \<Rightarrow> fs_state \<Rightarrow> fd_result" where
  "sys_lseek_handler r fds s =
     (let fd = sint (ebx r); offset = ecx r; whence = sint (edx r)
      in if \<not> valid_fd fd then Some (- EBADF, fds, s)
         else let file = fds (nat fd); f = files s file
              in if file = 0 then Some (- EBADF, fds, s)
                 else if f_node f = 0 then Some (- EBADF, fds, s)
                 else let file_size = n_size (nodes s (f_node f))
                      in if whence \<notin> {SEEK_SET, SEEK_CUR, SEEK_END} then Some (- EINVAL, fds, s)
                         else let new_offset = (if whence = SEEK_SET then offset
                                else if whence = SEEK_CUR then f_offset f + offset
                                else file_size + offset)
                              in if sint new_offset < 0 then Some (- EINVAL, fds, s)
                                 else Some (sint new_offset, fds,
                                        s\<lparr>files := (files s)(file := f\<lparr>f_offset := new_offset\<rparr>)\<rparr>))"

definition stat_mode :: "u32 \<Rightarrow> u32" where
  "stat_mode flags =
     (if flags AND FS_DIRECTORY \<noteq> 0 then S_IFDIR OR 0x1ED
      else if flags AND FS_FILE \<noteq> 0 then S_IFREG OR 0x1A4
      else if flags AND FS_MOUNTPOINT \<noteq> 0 then S_IFDIR OR 0x1ED
      else S_IFREG OR 0x1A4)"

text \<open>The bytes of \<open>stat_t\<close>, in the order of its fields.\<close>

definition stat_bytes :: "u32 \<Rightarrow> u32 \<Rightarrow> u8 list" where
  "stat_bytes st_mode st_size =
     concat (map bytes32 [0, 0, st_mode, 1, 0, 0, 0, st_size, 4096, (st_size + 511) div 512, 0, 0, 0])"

definition sys_fstat_handler :: "regs \<Rightarrow> fd_table \<Rightarrow> fs_state \<Rightarrow> fd_result" where
  "sys_fstat_handler r fds s =
     (let fd = sint (ebx r)
      in if \<not> valid_fd fd then Some (- EBADF, fds, s)
         else let file = fds (nat fd); node = f_node (files s file)
              in if file = 0 then Some (- EBADF, fds, s)
                 else if node = 0 then Some (- EBADF, fds, s)
                 else if \<not> is_user_pointer (ecx r) SIZEOF_STAT then Some (- EFAULT, fds, s)
                 else Some (0, fds, copy_to_user (ecx r)
                        (stat_bytes (stat_mode (n_flags (nodes s node))) (n_size (nodes s node))) s))"

text \<open>\<open>fb\<close> tells whether the frame buffer is available.\<close>

definition winsize_bytes :: "bool \<Rightarrow> u8 list" where
  "winsize_bytes fb = concat (map bytes16 (if fb then [48, 128, 1024, 768] else [50, 80, 640, 400]))"

definition sys_ioctl_handler :: "bool \<Rightarrow> regs \<Rightarrow> fd_table \<Rightarrow> fs_state \<Rightarrow> fd_result" where
  "sys_ioctl_handler fb r fds s =
     (let fd = sint (ebx r); request = ecx r; argp = edx r
      in if \<not> valid_fd fd then Some (- EBADF, fds, s)
         else if fds (nat fd) = 0 then Some (- EBADF, fds, s)
         else if request = TIOCGWINSZ then
           (if fd \<noteq> 1 \<and> fd \<noteq> 2 then Some (- ENOTTY, fds, s)
            else if \<not> is_user_pointer argp SIZEOF_WINSIZE then Some (- EFAULT, fds, s)
            else Some (0, fds, copy_to_user argp (winsize_bytes fb) s))
         else Some (- ENOTTY, fds, s))"

definition dirent_bytes :: "dirent \<Rightarrow> u8 list" where
  "dirent_bytes e = bytes32 (d_ino e) @ bytes32 (d_type e) @ take 256 (d_name e @ replicate 256 0)"

definition sys_readdir_handler :: "regs \<Rightarrow> fd_table \<Rightarrow> fs_state \<Rightarrow> fd_result" where
  "sys_readdir_handler r fds s =
     (let fd = sint (ebx r); index = ecx r; user_entry = edx r
      in if \<not> is_user_pointer user_entry SIZEOF_DIRENT then Some (- EFAULT, fds, s)
         else if \<not> valid_fd fd then Some (- EBADF, fds, s)
         else let opened = fds (nat fd); node = f_node (files s opened)
              in if opened = 0 \<or> node = 0 then Some (- EBADF, fds, s)
                 else if n_flags (nodes s node) AND FS_DIRECTORY = 0 then Some (- EINVAL, fds, s)
                 else if n_readdir (nodes s node) = No_callback then Some (- ENOSYS, fds, s)
                 else case node_readdir node index s of None \<Rightarrow> None
                      | Some (None, s) \<Rightarrow> Some (- 1, fds, s)
                      | Some (Some e, s) \<Rightarrow> Some (0, fds, copy_to_user user_entry (dirent_bytes e) s))"

section \<open>Duplicating descriptors\<close>

text \<open>One more descriptor for an open file: the counts of the file and of its node go up.\<close>

definition share_file :: "u32 \<Rightarrow> fs_state \<Rightarrow> fs_state" where
  "share_file opened s =
     (let s = s\<lparr>files := (files s)(opened := (files s opened)\<lparr>f_ref := f_ref (files s opened) + 1\<rparr>)\<rparr>;
          node = f_node (files s opened)
      in if node \<noteq> 0 then on_node node (\<lambda>n. n\<lparr>n_ref := n_ref n + 1\<rparr>) s else s)"

definition sys_dup_handler :: "regs \<Rightarrow> fd_table \<Rightarrow> fs_state \<Rightarrow> fd_result" where
  "sys_dup_handler r fds s =
     (let old_fd = sint (ebx r)
      in if \<not> valid_fd old_fd then Some (- EBADF, fds, s)
         else let opened = fds (nat old_fd)
              in if opened = 0 then Some (- EBADF, fds, s)
                 else case free_fd fds of None \<Rightarrow> Some (- EMFILE, fds, s)
                      | Some i \<Rightarrow> Some (int i, fds(i := opened), share_file opened s))"

definition sys_dup2_handler :: "regs \<Rightarrow> fd_table \<Rightarrow> fs_state \<Rightarrow> fd_result" where
  "sys_dup2_handler r fds s =
     (let old_fd = sint (ebx r); new_fd = sint (ecx r)
      in if \<not> valid_fd old_fd then Some (- EBADF, fds, s)
         else if \<not> valid_fd new_fd then Some (- EBADF, fds, s)
         else let opened = fds (nat old_fd)
              in if opened = 0 then Some (- EBADF, fds, s)
                 else if old_fd = new_fd then Some (new_fd, fds, s)
                 else case (if fds (nat new_fd) \<noteq> 0 then vfs_close_fd new_fd fds s else Some (0, fds, s)) of
                        None \<Rightarrow> None
                      | Some (_, fds, s) \<Rightarrow> Some (new_fd, fds(nat new_fd := opened), share_file opened s))"

section \<open>Directories\<close>

definition sys_mkdir_handler :: "regs \<Rightarrow> fd_table \<Rightarrow> fs_state \<Rightarrow> fd_result" where
  "sys_mkdir_handler r fds s =
     (let mode = ecx r; (ret, path) = copy_string_from_user (kmem s) (ebx r) 256
      in if ret < 0 then Some (ret, fds, s)
         else if path = [] \<or> 256 \<le> length path then Some (- EINVAL, fds, s)
         else if 0x2F \<notin> set path then Some (- EINVAL, fds, s)
         else let name = rev (takeWhile (\<lambda>c. c \<noteq> 0x2F) (rev path));
                  last_slash = length path - length name - 1
              in if name = [] then Some (- EINVAL, fds, s)
                 else case vfs_findnode (if last_slash = 0 then [0x2F] else take last_slash path) s of
                   None \<Rightarrow> None
                 | Some (parent, s) \<Rightarrow>
                   if parent = 0 then Some (- ENOENT, fds, s)
                   else if n_flags (nodes s parent) AND FS_DIRECTORY = 0 then Some (- ENOTDIR, fds, s)
                   else if n_flags (nodes s parent) AND FS_SYSTEM \<noteq> 0 then Some (- EACCES, fds, s)
                   else if n_create (nodes s parent) = No_callback then Some (- EPERM, fds, s)
                   else case node_finddir parent name s of None \<Rightarrow> None
                   | Some (found, s) \<Rightarrow>
                     if found \<noteq> 0 then Some (- EEXIST, fds, s)
                     else case node_create parent name ((mode AND 0xFFF) OR S_IFDIR) s of None \<Rightarrow> None
                     | Some (new_dir, s) \<Rightarrow> Some (if new_dir = 0 then - ENOMEM else 0, fds, s))"

section \<open>Time and system information\<close>

text \<open>Ticks and frequency of the timer are arguments.\<close>

definition sys_gettimeofday_handler :: "u32 \<Rightarrow> u32 \<Rightarrow> regs \<Rightarrow> fd_table \<Rightarrow> fs_state \<Rightarrow> fd_result" where
  "sys_gettimeofday_handler ticks freq r fds s =
     (if \<not> is_user_pointer (ebx r) SIZEOF_TIMEVAL then Some (- EFAULT, fds, s)
      else let freq = (if freq = 0 then 1000 else freq)
           in Some (0, fds, copy_to_user (ebx r)
                (bytes32 (ticks div freq) @ bytes32 (ticks mod freq * 1000000 div freq)) s))"

definition uts_field :: "string \<Rightarrow> u8 list" where
  "uts_field str = take UTSNAME_LENGTH (bytes_of str @ replicate UTSNAME_LENGTH 0)"

definition sys_uname_handler :: "regs \<Rightarrow> fd_table \<Rightarrow> fs_state \<Rightarrow> fd_result" where
  "sys_uname_handler r fds s =
     (if \<not> is_user_pointer (ebx r) SIZEOF_UTSNAME then Some (- EFAULT, fds, s)
      else Some (0, fds, copy_to_user (ebx r)
             (concat (map uts_field [''Enclave OS'', ''localhost'', ''Alpha 0.5-rc1'', ''Day 32 Build'', ''i686''])) s))"

definition sys_sysinfo_handler :: "u32 \<Rightarrow> u32 \<Rightarrow> u32 \<Rightarrow> u32 \<Rightarrow> u32 \<Rightarrow> regs \<Rightarrow> fd_table \<Rightarrow> fs_state \<Rightarrow> fd_result" where
  "sys_sysinfo_handler ticks freq total_pages free_pages procs r fds s =
     (if \<not> is_user_pointer (ebx r) SIZEOF_SYSINFO then Some (- EFAULT, fds, s)
      else let freq = (if freq = 0 then 1000 else freq)
           in Some (0, fds, copy_to_user (ebx r)
                (concat (map bytes32 [ticks div freq, total_pages * 4096, free_pages * 4096, 0, 0, 0, 0]) @
                 bytes16 (ucast procs) @ bytes16 0 @ concat (map bytes32 [0, 0, 1])) s))"

end
