(* ===== verification/Syscall_Mem.thy ===== *)
theory Syscall_Mem
  imports Syscall_File Paging
begin

text \<open>
  The system calls on memory, \<open>syscall.c\<close>: \<open>brk\<close>, \<open>mmap\<close>, \<open>munmap\<close> and \<open>mprotect\<close>, over the current
  task's areas, its page tables and the kernel heap that holds the areas' nodes. \<open>None\<close> is a kernel
  that crashed on a corrupted heap.
\<close>

unbundle bit_operations_syntax

abbreviation (input) PROT_READ :: u32 where "PROT_READ \<equiv> 0x1"
abbreviation (input) PROT_WRITE :: u32 where "PROT_WRITE \<equiv> 0x2"
abbreviation (input) PROT_EXEC :: u32 where "PROT_EXEC \<equiv> 0x4"
abbreviation (input) MAP_PRIVATE :: u32 where "MAP_PRIVATE \<equiv> 0x02"
abbreviation (input) MAP_ANONYMOUS :: u32 where "MAP_ANONYMOUS \<equiv> 0x20"

text \<open>What these calls change: the heap, the machine's memory and the areas of the current task.\<close>

record mm =
  mm_heap :: heap_state
  mm_vm :: vm_state
  mm_pdir :: u32
  mm_vmas :: vmas

type_synonym mm_result = "(int \<times> mm) option"

definition keep_areas :: "mm \<Rightarrow> vma_result \<Rightarrow> mm_result" where
  "keep_areas m r = map_option (\<lambda>(ret, h, vs). (ret, m\<lparr>mm_heap := h, mm_vmas := vs\<rparr>)) r"

section \<open>The heap of a process\<close>

definition heap_area :: "vmas \<Rightarrow> vma_node option" where
  "heap_area vs = find (\<lambda>v. v_start v = USER_HEAP_START) vs"

fun set_heap_end :: "u32 \<Rightarrow> vmas \<Rightarrow> vmas" where
  "set_heap_end new_brk [] = []"
| "set_heap_end new_brk (v # vs) =
     (if v_start v = USER_HEAP_START then v\<lparr>v_end := new_brk\<rparr> # vs else v # set_heap_end new_brk vs)"

definition sys_brk_handler :: "regs \<Rightarrow> mm \<Rightarrow> mm_result" where
  "sys_brk_handler r m =
     (let new_brk = ebx r
      in if new_brk = 0 then
           Some (sint (case heap_area (mm_vmas m) of None \<Rightarrow> USER_HEAP_START | Some v \<Rightarrow> v_end v), m)
         else if new_brk > USER_HEAP_START + USER_HEAP_MAX_SIZE then Some (- ENOMEM, m)
         else case heap_area (mm_vmas m) of
           None \<Rightarrow>
             (let (ret, h, vs) = vma_add (mm_heap m) (mm_vmas m) USER_HEAP_START new_brk (VMA_READ OR VMA_WRITE)
              in Some (if ret < 0 then - ENOMEM else 0, m\<lparr>mm_heap := h, mm_vmas := vs\<rparr>))
         | Some v \<Rightarrow>
             if new_brk > v_end v then
               (if vma_intersects (mm_vmas m) (v_end v) new_brk (v_addr v) then Some (- ENOMEM, m)
                else if (new_brk - v_end v + 0xFFF) div 0x1000 > pmm_get_free_pages (vm_pmm (mm_vm m)) div 2
                then Some (- ENOMEM, m)
                else Some (0, m\<lparr>mm_vmas := set_heap_end new_brk (mm_vmas m)\<rparr>))
             else if new_brk < v_end v then Some (0, m\<lparr>mm_vmas := set_heap_end new_brk (mm_vmas m)\<rparr>)
             else Some (0, m))"

section \<open>Mapping and unmapping\<close>

definition prot_flags :: "u32 \<Rightarrow> u32" where
  "prot_flags prot =
     (let f = (if prot AND PROT_READ \<noteq> 0 then VMA_READ else 0);
          f = (if prot AND PROT_WRITE \<noteq> 0 then f OR VMA_WRITE else f)
      in if prot AND PROT_EXEC \<noteq> 0 then f OR VMA_EXEC else f)"

definition sys_mmap_handler :: "regs \<Rightarrow> mm \<Rightarrow> mm_result" where
  "sys_mmap_handler r m =
     (let addr = ebx r; len = ecx r; prot = edx r; flags = esi r
      in if len = 0 \<or> len > USER_MMAP_MAX_SIZE then Some (- EINVAL, m)
         else if prot AND PROT_WRITE \<noteq> 0 \<and> prot AND PROT_EXEC \<noteq> 0 then Some (- EPERM, m)
         else if flags AND MAP_ANONYMOUS = 0 \<or> flags AND MAP_PRIVATE = 0 then Some (- ENOSYS, m)
         else let aligned_len = page_up len;
                  map_addr = (if addr = 0 then vma_find_free_area (mm_vmas m) aligned_len else page_down addr)
              in if addr = 0 \<and> map_addr = 0 then Some (- ENOMEM, m)
                 else if addr \<noteq> 0 \<and> vma_intersects (mm_vmas m) map_addr (map_addr + aligned_len) 0
                 then Some (- EINVAL, m)
                 else let (ret, h, vs) = vma_add (mm_heap m) (mm_vmas m) map_addr (map_addr + aligned_len) (prot_flags prot);
                          m = m\<lparr>mm_heap := h, mm_vmas := vs\<rparr>
                      in Some (if ret < 0 then - ENOMEM else sint map_addr, m))"

text \<open>\<open>for (p = start; p < end; p += 0x1000)\<close>, for page-aligned bounds.\<close>

definition pages_between :: "u32 \<Rightarrow> u32 \<Rightarrow> u32 list" where
  "pages_between s e = (if s < e then map (\<lambda>i. s + of_nat i * 0x1000) [0..<unat (e - s) div 0x1000] else [])"

definition sys_munmap_handler :: "regs \<Rightarrow> mm \<Rightarrow> mm_result" where
  "sys_munmap_handler r m =
     (let addr = ebx r; len = ecx r
      in if len = 0 then Some (- EINVAL, m)
         else let aligned_addr = page_down addr; end = aligned_addr + page_up len
              in case keep_areas m (vma_unmap_range (mm_heap m) (mm_vmas m) aligned_addr end) of
                   None \<Rightarrow> None
                 | Some (ret, m) \<Rightarrow>
                     if ret < 0 then Some (ret, m)
                     else Some (0, m\<lparr>mm_vm := fold (vmm_unmap_and_free_page_in_pd (mm_pdir m))
                            (pages_between aligned_addr end) (mm_vm m)\<rparr>))"

definition sys_mprotect_handler :: "regs \<Rightarrow> mm \<Rightarrow> mm_result" where
  "sys_mprotect_handler r m =
     (let addr = ebx r; len = ecx r; prot = edx r
      in if len = 0 then Some (- EINVAL, m)
         else if prot AND PROT_WRITE \<noteq> 0 \<and> prot AND PROT_EXEC \<noteq> 0 then Some (- EPERM, m)
         else let aligned_addr = page_down addr; end = aligned_addr + page_up len
              in if aligned_addr \<ge> KERNEL_SPACE_START \<or> end > USER_SPACE_END + 1 then Some (- EINVAL, m)
                 else if \<not> vma_intersects (mm_vmas m) aligned_addr end 0 then Some (- ENOMEM, m)
                 else let vma_flags = prot_flags prot
                      in case keep_areas m (vma_protect_range (mm_heap m) (mm_vmas m) aligned_addr end vma_flags) of
                           None \<Rightarrow> None
                         | Some (ret, m) \<Rightarrow>
                             if ret < 0 then Some (ret, m)
                             else let pte_flags = PAGE_PRESENT OR PAGE_USER;
                                      pte_flags = (if vma_flags AND VMA_WRITE \<noteq> 0 then pte_flags OR PAGE_WRITE else pte_flags)
                                  in Some (0, m\<lparr>mm_vm := fold (\<lambda>p. vmm_protect_page_in_pd (mm_pdir m) p pte_flags)
                                         (pages_between aligned_addr end) (mm_vm m)\<rparr>))"

end
