(* ===== verification/Elf.thy ===== *)
theory Elf
  imports Syscall_Mem
begin

text \<open>
  The program loader, \<open>elf.c\<close>: it reads the headers of an ELF file through the virtual file system,
  makes an area and zeroed pages for every loadable segment and copies the segment's bytes into them.

  The loader writes a page through the direct map. A frame's words and the bytes of the flat memory at
  its direct-map address are the same memory; after a read into a frame, the bytes are stored into the
  frame's words. \<open>None\<close> is a kernel that crashed inside the file system or the page tables.
\<close>

unbundle bit_operations_syntax

abbreviation (input) ELF_MAGIC :: u32 where "ELF_MAGIC \<equiv> 0x464C457F"
abbreviation (input) ET_EXEC :: u16 where "ET_EXEC \<equiv> 2"
abbreviation (input) EM_386 :: u16 where "EM_386 \<equiv> 3"
abbreviation (input) PT_LOAD :: u32 where "PT_LOAD \<equiv> 1"
abbreviation (input) PF_X :: u32 where "PF_X \<equiv> 0x1"
abbreviation (input) PF_W :: u32 where "PF_W \<equiv> 0x2"
abbreviation (input) PF_R :: u32 where "PF_R \<equiv> 0x4"
abbreviation (input) SIZEOF_ELF32_HEADER :: u32 where "SIZEOF_ELF32_HEADER \<equiv> 52"
abbreviation (input) SIZEOF_ELF32_PHDR :: u32 where "SIZEOF_ELF32_PHDR \<equiv> 32"

text \<open>The fields of the two headers that the loader reads.\<close>

record elf32_header =
  e_magic :: u32
  e_type :: u16
  e_machine :: u16
  e_entry :: u32
  e_phoff :: u32
  e_phentsize :: u16
  e_phnum :: u16

record elf32_phdr =
  p_type :: u32
  p_offset :: u32
  p_vaddr :: u32
  p_filesz :: u32
  p_memsz :: u32
  p_flags :: u32

definition elf_header :: "u8 list \<Rightarrow> elf32_header" where
  "elf_header bs = (let b = nth bs in
     \<lparr>e_magic = le32 b 0, e_type = le16 b 16, e_machine = le16 b 18, e_entry = le32 b 24,
      e_phoff = le32 b 28, e_phentsize = le16 b 42, e_phnum = le16 b 44\<rparr>)"

definition program_header :: "u8 list \<Rightarrow> elf32_phdr" where
  "program_header bs = (let b = nth bs in
     \<lparr>p_type = le32 b 0, p_offset = le32 b 4, p_vaddr = le32 b 8, p_filesz = le32 b 16,
      p_memsz = le32 b 20, p_flags = le32 b 24\<rparr>)"

text \<open>What the loader works on: the file system with the kernel heap, physical memory, the new areas.\<close>

record load_state =
  l_fs :: fs_state
  l_vm :: vm_state
  l_vmas :: vmas

text \<open>\<open>vfs_read\<close> into a kernel buffer, and the bytes that are then in the buffer.\<close>

definition read_file :: "u32 \<Rightarrow> u32 \<Rightarrow> u32 \<Rightarrow> u32 \<Rightarrow> load_state \<Rightarrow> (int \<times> u8 list \<times> load_state) option" where
  "read_file node offset sz buf l =
     (case vfs_read node offset sz buf (l_fs l) of None \<Rightarrow> None
      | Some (ret, s) \<Rightarrow> Some (ret, load_bytes (kmem s) buf sz, l\<lparr>l_fs := s\<rparr>))"

section \<open>Pages of a segment\<close>

definition set_byte :: "u32 \<Rightarrow> nat \<Rightarrow> u8 \<Rightarrow> vm_state \<Rightarrow> vm_state" where
  "set_byte frame i b m =
     (let sh = 8 * (i mod 4)
      in set_entry frame (i div 4)
           ((pmem m frame (i div 4) AND NOT (push_bit sh 0xFF)) OR push_bit sh (ucast b)) m)"

fun store_frame :: "u32 \<Rightarrow> nat \<Rightarrow> u8 list \<Rightarrow> vm_state \<Rightarrow> vm_state" where
  "store_frame frame i [] m = m"
| "store_frame frame i (b # bs) m = store_frame frame (Suc i) bs (set_byte frame i b m)"

text \<open>\<open>False\<close> is the early return of the loader.\<close>

fun load_pages :: "u32 \<Rightarrow> u32 \<Rightarrow> u32 list \<Rightarrow> vm_state \<Rightarrow> (bool \<times> vm_state) option" where
  "load_pages pd pte_flags [] m = Some (True, m)"
| "load_pages pd pte_flags (addr # addrs) m =
     (let (m, phys) = alloc_page m
      in if phys = 0 then Some (False, m)
         else case vmm_map_page_in_pd pd addr phys pte_flags (zero_page phys m) of None \<Rightarrow> None
              | Some (ret, m) \<Rightarrow>
                  if ret \<noteq> 0 then Some (False, free_page phys m) else load_pages pd pte_flags addrs m)"

text \<open>The number of bytes up to the end of the page, at most \<open>n\<close>.\<close>

definition chunk :: "u32 \<Rightarrow> u32 \<Rightarrow> u32" where
  "chunk dest_addr n = (let c = 4096 - (dest_addr AND 0xFFF) in if c > n then n else c)"

lemma chunk_bounds: "n \<noteq> 0 \<Longrightarrow> chunk dest_addr n \<noteq> 0" "chunk dest_addr n \<le> n"
proof -
  have "unat (dest_addr AND 0xFFF) \<le> 4095"
    using word_and_le1 [of dest_addr "0xFFF"] by (simp add: word_le_nat_alt)
  then have "4096 - (dest_addr AND 0xFFF) \<noteq> 0" by auto
  then show "n \<noteq> 0 \<Longrightarrow> chunk dest_addr n \<noteq> 0" by (simp add: chunk_def Let_def)
  show "chunk dest_addr n \<le> n" by (auto simp: chunk_def Let_def)
qed

lemma chunk_less: "n \<noteq> 0 \<Longrightarrow> unat (n - chunk dest_addr n) < unat n"
  using chunk_bounds(1) [of n dest_addr] chunk_bounds(2) [of dest_addr n] unat_gt_0 [of "chunk dest_addr n"]
  by (simp add: unat_sub word_le_nat_alt)

function copy_segment :: "u32 \<Rightarrow> u32 \<Rightarrow> u32 \<Rightarrow> u32 \<Rightarrow> u32 \<Rightarrow> load_state \<Rightarrow> (bool \<times> load_state) option" where
  "copy_segment node pd offset_in_file dest_addr bytes_to_copy l =
     (if bytes_to_copy = 0 then Some (True, l)
      else let page_offset = dest_addr AND 0xFFF; chunk_size = chunk dest_addr bytes_to_copy;
               pde = pmem (l_vm l) pd (dir_index dest_addr)
           in if pde AND PAGE_PRESENT = 0 then Some (False, l)
              else let pte = pmem (l_vm l) (page_down pde) (table_index dest_addr)
                   in if pte AND PAGE_PRESENT = 0 then Some (False, l)
                      else case read_file node offset_in_file chunk_size
                                 (PHYS_TO_VIRT (page_down pte) + page_offset) l of None \<Rightarrow> None
                      | Some (ret, bs, l) \<Rightarrow>
                          let l = l\<lparr>l_vm := store_frame (page_down pte) (unat page_offset) bs (l_vm l)\<rparr>
                          in if ret \<noteq> sint chunk_size then Some (False, l)
                             else copy_segment node pd (offset_in_file + chunk_size) (dest_addr + chunk_size)
                                    (bytes_to_copy - chunk_size) l)"
  by pat_completeness auto
termination
  by (relation "measure (\<lambda>(node, pd, off, dest, n, l). unat n)") (auto simp: chunk_less)

declare copy_segment.simps [simp del]

section \<open>Segments and the file\<close>

definition segment_flags :: "u32 \<Rightarrow> u32" where
  "segment_flags fl =
     (let f = (if fl AND PF_R \<noteq> 0 then VMA_READ else 0);
          f = (if fl AND PF_W \<noteq> 0 then f OR VMA_WRITE else f)
      in if fl AND PF_X \<noteq> 0 then f OR VMA_EXEC else f)"

definition load_segment :: "u32 \<Rightarrow> u32 \<Rightarrow> elf32_phdr \<Rightarrow> load_state \<Rightarrow> (bool \<times> load_state) option" where
  "load_segment node pd ph l =
     (let (ret, h, vs) = vma_add (fs_heap (l_fs l)) (l_vmas l) (p_vaddr ph) (p_vaddr ph + p_memsz ph)
            (segment_flags (p_flags ph));
          l = l\<lparr>l_fs := (l_fs l)\<lparr>fs_heap := h\<rparr>, l_vmas := vs\<rparr>
      in if ret \<noteq> 0 then Some (False, l)
         else let pte_flags = PAGE_PRESENT OR PAGE_USER;
                  pte_flags = (if p_flags ph AND PF_W \<noteq> 0 then pte_flags OR PAGE_WRITE else pte_flags)
              in case load_pages pd pte_flags
                        (pages_between (page_down (p_vaddr ph)) (page_up (p_vaddr ph + p_memsz ph))) (l_vm l) of
                   None \<Rightarrow> None
                 | Some (False, m) \<Rightarrow> Some (False, l\<lparr>l_vm := m\<rparr>)
                 | Some (True, m) \<Rightarrow>
                     copy_segment node pd (p_offset ph) (p_vaddr ph)
                       (if p_filesz ph > p_memsz ph then p_memsz ph else p_filesz ph) (l\<lparr>l_vm := m\<rparr>))"

fun load_headers :: "u32 \<Rightarrow> u32 \<Rightarrow> u32 \<Rightarrow> elf32_header \<Rightarrow> nat list \<Rightarrow> load_state \<Rightarrow> (bool \<times> load_state) option" where
  "load_headers node pd buf eh [] l = Some (True, l)"
| "load_headers node pd buf eh (i # is) l =
     (case read_file node (e_phoff eh + of_nat i * ucast (e_phentsize eh)) SIZEOF_ELF32_PHDR buf l of None \<Rightarrow> None
      | Some (ret, bs, l) \<Rightarrow>
          if ret \<noteq> sint SIZEOF_ELF32_PHDR then Some (False, l)
          else if p_type (program_header bs) \<noteq> PT_LOAD then load_headers node pd buf eh is l
          else case load_segment node pd (program_header bs) l of None \<Rightarrow> None
               | Some (ok, l) \<Rightarrow> if ok then load_headers node pd buf eh is l else Some (False, l))"

text \<open>
  \<open>buf\<close> is the address of the header buffers on the kernel stack. The result is the entry point, 0 for
  a file that could not be loaded.
\<close>

definition elf_load :: "u32 \<Rightarrow> u32 \<Rightarrow> u32 \<Rightarrow> load_state \<Rightarrow> (u32 \<times> load_state) option" where
  "elf_load node pd buf l =
     (if node = 0 \<or> pd = 0 then Some (0, l)
      else case read_file node 0 SIZEOF_ELF32_HEADER buf l of None \<Rightarrow> None
      | Some (ret, bs, l) \<Rightarrow>
          let eh = elf_header bs
          in if ret \<noteq> sint SIZEOF_ELF32_HEADER then Some (0, l)
             else if e_magic eh \<noteq> ELF_MAGIC then Some (0, l)
             else if e_type eh \<noteq> ET_EXEC then Some (0, l)
             else if e_machine eh \<noteq> EM_386 then Some (0, l)
             else case load_headers node pd buf eh [0..<unat (e_phnum eh)] l of None \<Rightarrow> None
                  | Some (ok, l) \<Rightarrow> Some (if ok then e_entry eh else 0, l))"

end
