(* ===== verification/Task.thy ===== *)
theory Task
  imports Elf
begin

text \<open>
  Tasks, \<open>task.c\<close>: the ring of tasks and the scheduler, creation, exit, fork, wait, the respawn of the
  first task, the reaper and the lazy switching of the FPU.

  A task is known by the address of its control block. The ring keeps the \<open>next\<close> and \<open>prev\<close> pointers of
  the source; the children of a task and the reaper's queue are the lists of their addresses. Interrupts
  are off in the critical sections, so each function is one step. \<open>switch_context\<close> is the change of the
  current task; the registers it saves on the kernel stacks are not part of the state. \<open>None\<close> is a kernel
  that halted or crashed.
\<close>

unbundle bit_operations_syntax

section \<open>State\<close>

datatype task_state = TASK_RUNNING | TASK_READY | TASK_SLEEPING | TASK_ZOMBIE | TASK_DEAD

record task =
  fpu_state :: "u8 list"
  fpu_initialized :: bool
  t_pid :: u32
  t_name :: "u8 list"
  t_state :: task_state
  t_pdir :: u32
  kernel_stack_virt :: u32
  t_vmas :: vmas
  t_esp :: u32
  t_fds :: fd_table
  t_parent :: u32
  t_children :: "u32 list"
  t_exit_code :: int
  orphan_on_exit :: bool
  monitor_children :: bool
  t_next :: u32
  t_prev :: u32
  sleep_until :: u32

record kernel =
  k_fs :: fs_state
  k_vm :: vm_state
  tasks :: "u32 \<Rightarrow> task"
  current_task :: u32
  init_task :: u32
  next_pid :: u32
  task_count :: u32
  dead_tasks :: "u32 list"
  fpu_owner :: u32
  fpu_regs :: "u8 list"
  task_switched :: bool
  tss_esp0 :: u32
  tick_count :: u32
  pit_frequency :: u32

text \<open>
  What the linker, the processor and the boot fix: the addresses of three functions that are put on new
  stacks, the header buffers of the loader on the kernel stack, the FPU's state after \<open>fninit\<close>, and
  whether there is a frame buffer.
\<close>

record machine =
  addr_task_exit :: u32
  addr_trampoline :: u32
  addr_ret_from_fork :: u32
  addr_elf_buffers :: u32
  fninit_state :: "u8 list"
  fb_available :: bool

abbreviation (input) KERNEL_STACK_USABLE_SIZE :: u32 where "KERNEL_STACK_USABLE_SIZE \<equiv> 16384"
abbreviation (input) SIZEOF_REGS :: u32 where "SIZEOF_REGS \<equiv> 76"
abbreviation (input) REGS_EAX :: u32 where "REGS_EAX \<equiv> 44"
abbreviation (input) WNOHANG :: u32 where "WNOHANG \<equiv> 1"

text \<open>A control block after \<open>k_memset(task, 0, sizeof(task_t))\<close>.\<close>

definition zero_task :: task where
  "zero_task = \<lparr>fpu_state = replicate 512 0, fpu_initialized = False, t_pid = 0, t_name = [],
     t_state = TASK_RUNNING, t_pdir = 0, kernel_stack_virt = 0, t_vmas = [], t_esp = 0, t_fds = (\<lambda>_. 0),
     t_parent = 0, t_children = [], t_exit_code = 0, orphan_on_exit = False, monitor_children = False,
     t_next = 0, t_prev = 0, sleep_until = 0\<rparr>"

definition on_task :: "u32 \<Rightarrow> (task \<Rightarrow> task) \<Rightarrow> kernel \<Rightarrow> kernel" where
  "on_task p f k = k\<lparr>tasks := (tasks k)(p := f (tasks k p))\<rparr>"

definition put_word :: "u32 \<Rightarrow> u32 \<Rightarrow> kernel \<Rightarrow> kernel" where
  "put_word a w k = k\<lparr>k_fs := (k_fs k)\<lparr>kmem := store_bytes a (bytes32 w) (kmem (k_fs k))\<rparr>\<rparr>"

text \<open>Pushing words onto a stack: each at four bytes below the last.\<close>

fun push_words :: "u32 \<Rightarrow> u32 list \<Rightarrow> kernel \<Rightarrow> u32 \<times> kernel" where
  "push_words stack_ptr [] k = (stack_ptr, k)"
| "push_words stack_ptr (w # ws) k = push_words (stack_ptr - 4) ws (put_word (stack_ptr - 4) w k)"

section \<open>The FPU\<close>

text \<open>Interrupt 7: an FPU instruction while the task-switched flag is set.\<close>

definition device_not_available_handler :: "machine \<Rightarrow> kernel \<Rightarrow> kernel" where
  "device_not_available_handler mc k =
     (let k = k\<lparr>task_switched := False\<rparr>; cur = current_task k;
          k = (if fpu_owner k \<noteq> 0 \<and> fpu_owner k \<noteq> cur
               then on_task (fpu_owner k) (\<lambda>t. t\<lparr>fpu_state := fpu_regs k\<rparr>) k else k);
          k = (if fpu_initialized (tasks k cur) then k\<lparr>fpu_regs := fpu_state (tasks k cur)\<rparr>
               else on_task cur (\<lambda>t. t\<lparr>fpu_state := fninit_state mc, fpu_initialized := True\<rparr>)
                      (k\<lparr>fpu_regs := fninit_state mc\<rparr>))
      in k\<lparr>fpu_owner := cur\<rparr>)"

definition fpu_release_ownership :: "u32 \<Rightarrow> kernel \<Rightarrow> kernel" where
  "fpu_release_ownership task k = (if fpu_owner k = task then k\<lparr>fpu_owner := 0\<rparr> else k)"

section \<open>The ring of tasks\<close>

definition task_queue_add :: "u32 \<Rightarrow> kernel \<Rightarrow> kernel" where
  "task_queue_add task k =
     (if current_task k = 0 then on_task task (\<lambda>t. t\<lparr>t_next := task, t_prev := task\<rparr>) (k\<lparr>current_task := task\<rparr>)
      else let cur = current_task k;
               k = on_task task (\<lambda>t. t\<lparr>t_next := t_next (tasks k cur), t_prev := cur\<rparr>) k;
               k = on_task (t_next (tasks k cur)) (\<lambda>t. t\<lparr>t_prev := task\<rparr>) k
           in on_task cur (\<lambda>t. t\<lparr>t_next := task\<rparr>) k)"

text \<open>Taking a task out of the ring.\<close>

definition ring_unlink :: "u32 \<Rightarrow> kernel \<Rightarrow> kernel" where
  "ring_unlink p k =
     (let k = on_task (t_prev (tasks k p)) (\<lambda>t. t\<lparr>t_next := t_next (tasks k p)\<rparr>) k
      in on_task (t_next (tasks k p)) (\<lambda>t. t\<lparr>t_prev := t_prev (tasks k p)\<rparr>) k)"

definition ring_leave :: "u32 \<Rightarrow> kernel \<Rightarrow> kernel" where
  "ring_leave p k =
     (let t = tasks k p
      in if t_next t \<noteq> 0 \<and> t_prev t \<noteq> 0 \<and> t_next t \<noteq> p
         then on_task p (\<lambda>t. t\<lparr>t_next := p, t_prev := p\<rparr>) (ring_unlink p k) else k)"

definition tasking_init :: "kernel \<Rightarrow> kernel option" where
  "tasking_init k =
     (let (m, pcb_phys) = alloc_page (k_vm k); k = k\<lparr>k_vm := m, task_count := 0\<rparr>
      in if pcb_phys = 0 then None
         else let main = PHYS_TO_VIRT pcb_phys
              in Some (k\<lparr>tasks := (tasks k)(main := zero_task\<lparr>t_pid := next_pid k, t_state := TASK_RUNNING,
                     t_name := bytes_of ''main'', t_next := main, t_prev := main, orphan_on_exit := True\<rparr>),
                   next_pid := next_pid k + 1, current_task := main, init_task := main, task_count := 1\<rparr>))"

section \<open>Creation\<close>

text \<open>The stack of a new task: what the first switch to it pops.\<close>

definition initial_stack :: "machine \<Rightarrow> u32 \<Rightarrow> bool \<Rightarrow> u32 \<Rightarrow> u32 list" where
  "initial_stack mc user_esp is_user_mode entry_point =
     [user_esp, if is_user_mode then 1 else 0, entry_point, addr_task_exit mc, addr_trampoline mc, 0, 0, 0, 0]"

definition task_create :: "machine \<Rightarrow> u8 list \<Rightarrow> u32 \<Rightarrow> bool \<Rightarrow> u32 \<Rightarrow> u32 \<Rightarrow> kernel \<Rightarrow> (u32 \<times> kernel) option" where
  "task_create mc name entry_point is_user_mode user_esp custom_pdir k =
     (case vmm_alloc_kernel_stack (k_vm k) of None \<Rightarrow> None
      | Some (m, stack_top) \<Rightarrow>
        if stack_top = 0 then Some (0, k\<lparr>k_vm := m\<rparr>)
        else let (m, pcb_phys) = alloc_page m
             in if pcb_phys = 0 then Some (0, k\<lparr>k_vm := vmm_free_kernel_stack stack_top m\<rparr>)
                else let new_task = PHYS_TO_VIRT pcb_phys; new_pid = next_pid k; k = k\<lparr>next_pid := next_pid k + 1\<rparr>;
                         (m, pdir) = (if is_user_mode
                           then (if custom_pdir \<noteq> 0 then (m, custom_pdir) else vmm_create_address_space m)
                           else (m, boot_page_directory m))
                     in if is_user_mode \<and> pdir = 0
                        then Some (0, k\<lparr>k_vm := free_page pcb_phys (vmm_free_kernel_stack stack_top m)\<rparr>)
                        else let (esp, k) = push_words stack_top (initial_stack mc user_esp is_user_mode entry_point) (k\<lparr>k_vm := m\<rparr>);
                                 k = k\<lparr>tasks := (tasks k)(new_task := zero_task\<lparr>t_pid := new_pid, t_state := TASK_READY,
                                   t_name := take 31 name, t_pdir := pdir, kernel_stack_virt := stack_top, t_esp := esp,
                                   t_parent := current_task k, orphan_on_exit := True\<rparr>)\<rparr>;
                                 k = (if current_task k \<noteq> 0
                                      then on_task (current_task k) (\<lambda>t. t\<lparr>t_children := new_task # t_children t\<rparr>) k else k);
                                 k = task_queue_add new_task k
                             in Some (new_task, k\<lparr>task_count := task_count k + 1\<rparr>))"

text \<open>
  \<open>respawn_init_task\<close>: every failure stops the kernel. The two areas added here are the user stack and
  the empty heap area.
\<close>

definition add_areas :: "(u32 \<times> u32) list \<Rightarrow> heap_state \<Rightarrow> vmas \<Rightarrow> bool \<times> heap_state \<times> vmas" where
  "add_areas rs h vs =
     fold (\<lambda>(s, e) (ok, h, vs). if ok then (let (ret, h, vs) = vma_add h vs s e (VMA_READ OR VMA_WRITE)
                                            in (\<not> ret < 0, h, vs)) else (ok, h, vs))
       rs (True, h, vs)"

definition respawn_init_task :: "machine \<Rightarrow> kernel \<Rightarrow> kernel option" where
  "respawn_init_task mc k =
     (case vfs_findnode (bytes_of ''/sbin/init.elf'') (k_fs k) of None \<Rightarrow> None
      | Some (init_node, s) \<Rightarrow>
        let (m, new_pdir) = vmm_create_address_space (k_vm k)
        in if init_node = 0 \<or> new_pdir = 0 then None
           else case elf_load init_node new_pdir (addr_elf_buffers mc) \<lparr>l_fs = s, l_vm = m, l_vmas = []\<rparr> of None \<Rightarrow> None
           | Some (entry, l) \<Rightarrow>
             if entry = 0 then None
             else let (ok, h, vs) = add_areas [(USER_STACK_VIRT_TOP - USER_STACK_SIZE, USER_STACK_VIRT_TOP),
                          (USER_HEAP_START, USER_HEAP_START)] (fs_heap (l_fs l)) (l_vmas l);
                      k = k\<lparr>k_fs := (l_fs l)\<lparr>fs_heap := h\<rparr>, k_vm := l_vm l\<rparr>
                  in if \<not> ok then None
                     else case task_create mc (bytes_of ''/sbin/init.elf'') entry True (USER_STACK_VIRT_TOP - 16) new_pdir k of
                       None \<Rightarrow> None
                     | Some (new_init, k) \<Rightarrow>
                       if new_init = 0 then None
                       else let k = on_task new_init (\<lambda>t. t\<lparr>t_vmas := vs, t_pid := 1, orphan_on_exit := False,
                                  monitor_children := True\<rparr>) k;
                                k = (if current_task k \<noteq> 0
                                     then on_task (current_task k) (\<lambda>t. t\<lparr>t_children := remove1 new_init (t_children t)\<rparr>) k
                                     else k);
                                k = on_task new_init (\<lambda>t. t\<lparr>t_parent := 0\<rparr>) k
                            in Some (k\<lparr>init_task := new_init\<rparr>))"

section \<open>The scheduler\<close>

text \<open>The reaper: the stack and the control block of every dead task are freed.\<close>

fun reap :: "machine \<Rightarrow> u32 list \<Rightarrow> kernel \<Rightarrow> kernel option" where
  "reap mc [] k = Some k"
| "reap mc (dead # rest) k =
     (let k = k\<lparr>dead_tasks := rest\<rparr>
      in case (if t_pid (tasks k dead) = 1 then respawn_init_task mc k else Some k) of None \<Rightarrow> None
         | Some k \<Rightarrow>
           let m = (if kernel_stack_virt (tasks k dead) \<noteq> 0
                    then vmm_free_kernel_stack (kernel_stack_virt (tasks k dead)) (k_vm k) else k_vm k)
           in reap mc rest (k\<lparr>k_vm := free_page (VIRT_TO_PHYS dead) m, task_count := task_count k - 1\<rparr>))"

definition runnable :: "task_state \<Rightarrow> bool" where
  "runnable st \<longleftrightarrow> st \<notin> {TASK_SLEEPING, TASK_ZOMBIE, TASK_DEAD}"

text \<open>The next task to run: around the ring from \<open>new_task\<close>, up to \<open>old_task\<close>.\<close>

partial_function (option) pick_next :: "(u32 \<Rightarrow> task) \<Rightarrow> u32 \<Rightarrow> u32 \<Rightarrow> u32 option" where
  "pick_next ts old_task new_task =
     (if new_task \<noteq> old_task \<and> \<not> runnable (t_state (ts new_task))
      then pick_next ts old_task (t_next (ts new_task)) else Some new_task)"

definition switch_to :: "u32 \<Rightarrow> kernel \<Rightarrow> kernel" where
  "switch_to new_task k =
     (let old_task = current_task k;
          k = (if t_state (tasks k old_task) = TASK_RUNNING
               then on_task old_task (\<lambda>t. t\<lparr>t_state := TASK_READY\<rparr>) k else k);
          k = on_task new_task (\<lambda>t. t\<lparr>t_state := TASK_RUNNING\<rparr>) k;
          k = k\<lparr>current_task := new_task, task_switched := True\<rparr>
      in if kernel_stack_virt (tasks k new_task) \<noteq> 0
         then k\<lparr>tss_esp0 := kernel_stack_virt (tasks k new_task)\<rparr> else k)"

definition schedule :: "machine \<Rightarrow> kernel \<Rightarrow> kernel option" where
  "schedule mc k =
     (case reap mc (dead_tasks k) k of None \<Rightarrow> None
      | Some k \<Rightarrow>
          if current_task k = 0 \<or> t_next (tasks k (current_task k)) = 0 then Some k
          else case pick_next (tasks k) (current_task k) (t_next (tasks k (current_task k))) of None \<Rightarrow> None
               | Some new_task \<Rightarrow> Some (if new_task = current_task k then k else switch_to new_task k))"

section \<open>The timer\<close>

definition wake :: "u32 \<Rightarrow> task \<Rightarrow> task" where
  "wake now t =
     (if t_state t = TASK_SLEEPING \<and> sleep_until t > 0 \<and> now \<ge> sleep_until t
      then t\<lparr>t_state := TASK_READY, sleep_until := 0\<rparr> else t)"

partial_function (option) wake_loop :: "u32 \<Rightarrow> kernel \<Rightarrow> kernel option" where
  "wake_loop p k =
     (let k = on_task p (wake (tick_count k)) k; p = t_next (tasks k p)
      in if p = current_task k then Some k else wake_loop p k)"

definition wake_sleepers :: "kernel \<Rightarrow> kernel option" where
  "wake_sleepers k = (if current_task k = 0 then Some k else wake_loop (current_task k) k)"

definition task_timer_tick :: "machine \<Rightarrow> u32 \<Rightarrow> kernel \<Rightarrow> kernel option" where
  "task_timer_tick mc tick k =
     (case wake_sleepers k of None \<Rightarrow> None
      | Some k \<Rightarrow> if tick mod 10 = 0 then schedule mc k else Some k)"

text \<open>The interrupt of the timer, \<open>timer.c\<close>.\<close>

definition pit_handler :: "machine \<Rightarrow> kernel \<Rightarrow> kernel option" where
  "pit_handler mc k = (let k = k\<lparr>tick_count := tick_count k + 1\<rparr> in task_timer_tick mc (tick_count k) k)"


section \<open>Exit\<close>

fun close_all :: "nat list \<Rightarrow> fd_table \<Rightarrow> fs_state \<Rightarrow> (fd_table \<times> fs_state) option" where
  "close_all [] fds s = Some (fds, s)"
| "close_all (i # is) fds s =
     (if fds i = 0 then close_all is fds s
      else case vfs_close_fd (int i) fds s of None \<Rightarrow> None | Some (_, fds, s) \<Rightarrow> close_all is fds s)"

definition close_files :: "u32 \<Rightarrow> kernel \<Rightarrow> kernel option" where
  "close_files p k =
     map_option (\<lambda>(fds, s). on_task p (\<lambda>t. t\<lparr>t_fds := fds\<rparr>) (k\<lparr>k_fs := s\<rparr>))
       (close_all [0..<TASK_MAX_OPEN_FILES] (t_fds (tasks k p)) (k_fs k))"

text \<open>The areas and the address space of a task.\<close>

definition release_memory :: "u32 \<Rightarrow> kernel \<Rightarrow> kernel option" where
  "release_memory p k =
     (case vma_destroy_all (fs_heap (k_fs k)) (t_vmas (tasks k p)) of None \<Rightarrow> None
      | Some h \<Rightarrow>
          let k = on_task p (\<lambda>t. t\<lparr>t_vmas := []\<rparr>) (k\<lparr>k_fs := (k_fs k)\<lparr>fs_heap := h\<rparr>\<rparr>); pdir = t_pdir (tasks k p)
          in Some (if pdir \<noteq> 0 \<and> pdir \<noteq> boot_page_directory (k_vm k)
                   then on_task p (\<lambda>t. t\<lparr>t_pdir := 0\<rparr>) (k\<lparr>k_vm := vmm_destroy_address_space pdir (k_vm k)\<rparr>) else k))"

definition push_dead :: "u32 \<Rightarrow> kernel \<Rightarrow> kernel" where
  "push_dead p k = k\<lparr>dead_tasks := p # dead_tasks k\<rparr>"

definition bury_child :: "u32 \<Rightarrow> kernel \<Rightarrow> kernel" where
  "bury_child child k =
     push_dead child (ring_leave child (on_task child (\<lambda>t. t\<lparr>t_state := TASK_DEAD, t_exit_code := - 1\<rparr>) k))"

text \<open>\<open>task_cleanup_children_on_exit\<close>, on the list of the children that are left.\<close>

partial_function (option) cleanup_children :: "u32 list \<Rightarrow> kernel \<Rightarrow> kernel option" where
  "cleanup_children cs k =
     (case cs of [] \<Rightarrow> Some k
      | child # rest \<Rightarrow>
          if t_state (tasks k child) = TASK_DEAD then cleanup_children rest k
          else Option.bind
            (if t_state (tasks k child) = TASK_ZOMBIE then Some k
             else Option.bind
               (if t_children (tasks k child) = [] then Some k
                else Option.bind (cleanup_children (t_children (tasks k child)) k)
                       (\<lambda>k. Some (on_task child (\<lambda>t. t\<lparr>t_children := []\<rparr>) k)))
               (\<lambda>k. Option.bind (close_files child (fpu_release_ownership child k)) (release_memory child)))
            (\<lambda>k. cleanup_children rest (bury_child child k)))"

definition task_cleanup_children_on_exit :: "u32 \<Rightarrow> kernel \<Rightarrow> kernel option" where
  "task_cleanup_children_on_exit p k =
     (if p = 0 then Some k
      else map_option (on_task p (\<lambda>t. t\<lparr>t_children := []\<rparr>)) (cleanup_children (t_children (tasks k p)) k))"

text \<open>Giving the children, one after the other, to the first task.\<close>

definition adopt_child :: "u32 \<Rightarrow> kernel \<Rightarrow> kernel" where
  "adopt_child child k =
     (if init_task k \<noteq> 0 \<and> init_task k \<noteq> current_task k
      then on_task (init_task k) (\<lambda>t. t\<lparr>t_children := child # t_children t\<rparr>)
             (on_task child (\<lambda>t. t\<lparr>t_parent := init_task k\<rparr>) k)
      else on_task child (\<lambda>t. t\<lparr>t_parent := 0\<rparr>) k)"

definition adopt_children :: "u32 \<Rightarrow> kernel \<Rightarrow> kernel" where
  "adopt_children p k =
     fold adopt_child (t_children (tasks k p)) (on_task p (\<lambda>t. t\<lparr>t_children := []\<rparr>) k)"

text \<open>The policy of the process tree, by the flags of the task that ends.\<close>

definition leave_children :: "u32 \<Rightarrow> kernel \<Rightarrow> kernel option" where
  "leave_children p k =
     (let t = tasks k p
      in if t_pid t = 1 then task_cleanup_children_on_exit p k
         else if orphan_on_exit t then Some (adopt_children p k)
         else if monitor_children t then task_cleanup_children_on_exit p k
         else Some k)"

definition wake_parent :: "u32 \<Rightarrow> kernel \<Rightarrow> kernel" where
  "wake_parent p k =
     (let parent = t_parent (tasks k p)
      in if parent \<noteq> 0 \<and> t_state (tasks k parent) = TASK_SLEEPING
         then on_task parent (\<lambda>t. t\<lparr>t_state := TASK_READY, sleep_until := 0\<rparr>) k else k)"

text \<open>
  What \<open>task_exit\<close> and \<open>task_kill_current\<close> do to the current task, up to their call of the scheduler.
\<close>

definition end_current :: "int \<Rightarrow> kernel \<Rightarrow> kernel option" where
  "end_current code k =
     (let p = current_task k
      in case close_files p (fpu_release_ownership p k) of None \<Rightarrow> None
         | Some k \<Rightarrow>
           (case leave_children p k of None \<Rightarrow> None
            | Some k \<Rightarrow>
              (case release_memory p k of None \<Rightarrow> None
               | Some k \<Rightarrow>
                   let k = on_task p (\<lambda>t. t\<lparr>t_state := TASK_ZOMBIE, t_exit_code := code\<rparr>) k;
                       k = wake_parent p k
                   in Some (if t_pid (tasks k p) = 1
                            then push_dead p (on_task p (\<lambda>t. t\<lparr>t_state := TASK_DEAD\<rparr>) (ring_leave p k))
                            else k))))"

text \<open>A task that is still current after the scheduler stays in an endless \<open>cli; hlt\<close> loop.\<close>

definition leave_cpu :: "machine \<Rightarrow> u32 \<Rightarrow> kernel \<Rightarrow> kernel option" where
  "leave_cpu mc p k =
     (case schedule mc k of None \<Rightarrow> None | Some k \<Rightarrow> if current_task k = p then None else Some k)"

definition task_exit :: "machine \<Rightarrow> int \<Rightarrow> kernel \<Rightarrow> kernel option" where
  "task_exit mc code k =
     (case end_current code k of None \<Rightarrow> None | Some k' \<Rightarrow> leave_cpu mc (current_task k) k')"

definition task_kill_current :: "machine \<Rightarrow> kernel \<Rightarrow> kernel option" where
  "task_kill_current mc k =
     (if current_task k = 0 \<or> t_pid (tasks k (current_task k)) = 0 then None
      else case end_current (- 1) k of None \<Rightarrow> None | Some k' \<Rightarrow> leave_cpu mc (current_task k) k')"

section \<open>Fork\<close>

text \<open>The child's descriptors: the parent's, each open file shared once more.\<close>

definition inherit_files :: "fd_table \<Rightarrow> fs_state \<Rightarrow> fs_state" where
  "inherit_files fds s =
     fold (\<lambda>i s. if fds i \<noteq> 0 then share_file (fds i) s else s) [0..<TASK_MAX_OPEN_FILES] s"

text \<open>
  The child's kernel stack: a copy of the parent's, with the trap frame moved down by 32 bytes, its \<open>eax\<close>
  cleared and the frame of the first switch pushed below it. \<open>r\<close> is the address of the parent's frame.
\<close>

definition forge_stack :: "machine \<Rightarrow> u32 \<Rightarrow> u32 \<Rightarrow> u32 \<Rightarrow> kernel \<Rightarrow> u32 \<times> kernel" where
  "forge_stack mc r stack_top parent_top k =
     (let parent_base = parent_top - KERNEL_STACK_USABLE_SIZE; child_base = stack_top - KERNEL_STACK_USABLE_SIZE;
          original = child_base + (r - parent_base); child_r = original - 32;
          m = k_memcpy (kmem (k_fs k)) child_base parent_base KERNEL_STACK_USABLE_SIZE;
          m = k_memcpy m child_r original SIZEOF_REGS;
          k = put_word (child_r + REGS_EAX) 0 (k\<lparr>k_fs := (k_fs k)\<lparr>kmem := m\<rparr>\<rparr>)
      in push_words child_r [child_r, addr_ret_from_fork mc, 0, 0, 0, 0] k)"

definition task_fork :: "machine \<Rightarrow> u32 \<Rightarrow> kernel \<Rightarrow> (int \<times> kernel) option" where
  "task_fork mc r k =
     (let cur = current_task k; parent = tasks k cur
      in case vmm_alloc_kernel_stack (k_vm k) of None \<Rightarrow> None
         | Some (m, stack_top) \<Rightarrow>
           if stack_top = 0 then Some (- ENOMEM, k\<lparr>k_vm := m\<rparr>)
           else let (m, pcb_phys) = alloc_page m
                in if pcb_phys = 0 then Some (- ENOMEM, k\<lparr>k_vm := vmm_free_kernel_stack stack_top m\<rparr>)
                   else let child = PHYS_TO_VIRT pcb_phys; child_pid = next_pid k; k = k\<lparr>next_pid := next_pid k + 1\<rparr>;
                            (m, pdir) = vmm_clone_address_space (t_pdir parent) m
                        in if pdir = 0
                           then Some (- ENOMEM, k\<lparr>k_vm := free_page pcb_phys (vmm_free_kernel_stack stack_top m)\<rparr>)
                           else case vma_clone (fs_heap (k_fs k)) (t_vmas parent) of None \<Rightarrow> None
                           | Some (ret, h, vs) \<Rightarrow>
                             if ret < 0
                             then Some (- ENOMEM, k\<lparr>k_fs := (k_fs k)\<lparr>fs_heap := h\<rparr>, k_vm := free_page pcb_phys
                                    (vmm_free_kernel_stack stack_top (vmm_destroy_address_space pdir m))\<rparr>)
                             else let k = k\<lparr>k_vm := m, k_fs := inherit_files (t_fds parent) ((k_fs k)\<lparr>fs_heap := h\<rparr>)\<rparr>;
                                      (esp, k) = forge_stack mc r stack_top (kernel_stack_virt parent) k;
                                      k = k\<lparr>tasks := (tasks k)(child := zero_task\<lparr>fpu_state := fpu_state parent,
                                        fpu_initialized := fpu_initialized parent, t_pid := child_pid,
                                        t_name := t_name parent, t_state := TASK_READY, t_pdir := pdir,
                                        kernel_stack_virt := stack_top, t_vmas := vs, t_esp := esp,
                                        t_fds := (\<lambda>i. if i < TASK_MAX_OPEN_FILES then t_fds parent i else 0),
                                        t_parent := cur, orphan_on_exit := orphan_on_exit parent,
                                        monitor_children := monitor_children parent\<rparr>)\<rparr>;
                                      k = on_task cur (\<lambda>t. t\<lparr>t_children := child # t_children t\<rparr>) k;
                                      k = task_queue_add child k
                                  in Some (sint child_pid, k\<lparr>task_count := task_count k + 1\<rparr>))"

section \<open>Waiting and sleeping\<close>

definition find_zombie :: "int \<Rightarrow> kernel \<Rightarrow> u32 option" where
  "find_zombie pid k =
     find (\<lambda>c. t_state (tasks k c) = TASK_ZOMBIE \<and> (pid = - 1 \<or> t_pid (tasks k c) = of_int pid))
       (t_children (tasks k (current_task k)))"

definition reap_zombie :: "u32 \<Rightarrow> kernel \<Rightarrow> kernel" where
  "reap_zombie zombie k =
     (let k = on_task (current_task k) (\<lambda>t. t\<lparr>t_children := remove1 zombie (t_children t)\<rparr>) k;
          k = (if t_next (tasks k zombie) \<noteq> zombie then ring_unlink zombie k else k)
      in push_dead zombie (on_task zombie (\<lambda>t. t\<lparr>t_state := TASK_DEAD\<rparr>) k))"

text \<open>
  One round of the loop of \<open>task_waitpid\<close>. \<open>Returned\<close> is its result; after \<open>Blocked\<close> the caller sleeps, the
  scheduler has run, and the loop goes on when the caller runs again.
\<close>

datatype wait_result = Returned int | Blocked

definition task_waitpid :: "machine \<Rightarrow> int \<Rightarrow> u32 \<Rightarrow> u32 \<Rightarrow> kernel \<Rightarrow> (wait_result \<times> kernel) option" where
  "task_waitpid mc pid status options k =
     (case find_zombie pid k of
        Some zombie \<Rightarrow>
          let k' = (if status \<noteq> 0 then put_word status (of_int (t_exit_code (tasks k zombie))) k else k)
          in Some (Returned (sint (t_pid (tasks k zombie))), reap_zombie zombie k')
      | None \<Rightarrow>
          if options AND WNOHANG \<noteq> 0 then Some (Returned 0, k)
          else map_option (Pair Blocked)
                 (schedule mc (on_task (current_task k) (\<lambda>t. t\<lparr>t_state := TASK_SLEEPING, sleep_until := 0\<rparr>) k)))"

definition sys_sleep_handler :: "machine \<Rightarrow> regs \<Rightarrow> kernel \<Rightarrow> kernel option" where
  "sys_sleep_handler mc r k =
     (let ms = ebx r
      in if ms = 0 then schedule mc k
         else schedule mc (on_task (current_task k)
                (\<lambda>t. t\<lparr>sleep_until := tick_count k + ms, t_state := TASK_SLEEPING\<rparr>) k))"

end
