(* ===== verification/Syscall.thy ===== *)
theory Syscall
  imports Task
begin

text \<open>
  The dispatcher of the system calls and the calls on tasks, \<open>syscall.c\<close>. A call that switches to another
  task delivers its result into the caller's trap frame when the caller runs again. The user part of the
  flat memory is the address space of the current task.
\<close>

unbundle bit_operations_syntax

abbreviation (input) MAX_SYSCALLS :: u32 where "MAX_SYSCALLS \<equiv> 256"
abbreviation (input) EXEC_MAX_ARGS :: nat where "EXEC_MAX_ARGS \<equiv> 64"
abbreviation (input) EXEC_MAX_ARG_LEN :: nat where "EXEC_MAX_ARG_LEN \<equiv> 256"

section \<open>exec\<close>

definition word_at :: "mem \<Rightarrow> u32 \<Rightarrow> u32" where
  "word_at m a = le32 (\<lambda>i. m (a + of_nat i)) 0"

text \<open>The strings of the user's argument vector; one that cannot be copied becomes empty.\<close>

fun exec_args :: "mem \<Rightarrow> u32 \<Rightarrow> nat list \<Rightarrow> u8 list list" where
  "exec_args m user_argv [] = []"
| "exec_args m user_argv (i # is) =
     (let slot = user_argv + of_nat i * 4
      in if \<not> is_user_pointer slot 4 then []
         else if word_at m slot = 0 then []
         else let (ret, arg) = copy_string_from_user m (word_at m slot) EXEC_MAX_ARG_LEN
              in (if ret < 0 then [] else arg) # exec_args m user_argv is)"

definition exec_argv :: "mem \<Rightarrow> u32 \<Rightarrow> u8 list list" where
  "exec_argv m user_argv =
     (if user_argv \<noteq> 0 \<and> is_user_pointer user_argv 4 then exec_args m user_argv [0..<EXEC_MAX_ARGS] else [])"

definition args_size :: "u8 list list \<Rightarrow> u32" where
  "args_size args = of_nat (sum_list (map (\<lambda>a. length a + 1) args) + (length args + 1) * 4 + 4 + 64)"

text \<open>
  The initial user stack: the strings, the last one highest, then a zero word, the vector of their
  addresses with its terminating zero, and their number.
\<close>

fun push_strings :: "u32 \<Rightarrow> u8 list list \<Rightarrow> kernel \<Rightarrow> u32 \<times> u32 list \<times> kernel" where
  "push_strings stack_ptr [] k = (stack_ptr, [], k)"
| "push_strings stack_ptr (a # as) k =
     (let (stack_ptr, ptrs, k) = push_strings stack_ptr as k; stack_ptr = stack_ptr - of_nat (length a + 1)
      in (stack_ptr, stack_ptr # ptrs,
          k\<lparr>k_fs := (k_fs k)\<lparr>kmem := store_bytes stack_ptr (a @ [0]) (kmem (k_fs k))\<rparr>\<rparr>))"

definition user_stack :: "u8 list list \<Rightarrow> kernel \<Rightarrow> u32 \<times> kernel" where
  "user_stack args k =
     (let (stack_ptr, ptrs, k) = push_strings USER_STACK_VIRT_TOP args k
      in push_words (stack_ptr AND NOT 3) ([0] @ rev (ptrs @ [0]) @ [of_nat (length args)]) k)"

text \<open>Replacing the image of the current task once the new one is loaded.\<close>

definition replace_image :: "u32 \<Rightarrow> vmas \<Rightarrow> u8 list \<Rightarrow> kernel \<Rightarrow> kernel option" where
  "replace_image new_pdir vs filename k =
     (let cur = current_task k; t = tasks k cur
      in case vma_destroy_all (fs_heap (k_fs k)) (t_vmas t) of None \<Rightarrow> None
         | Some h \<Rightarrow>
             let m = (if t_pdir t \<noteq> 0 \<and> t_pdir t \<noteq> new_pdir then vmm_destroy_address_space (t_pdir t) (k_vm k) else k_vm k);
                 k = on_task cur (\<lambda>t. t\<lparr>t_pdir := new_pdir, t_vmas := vs, t_name := take 32 filename\<rparr>)
                       (k\<lparr>k_fs := (k_fs k)\<lparr>fs_heap := h\<rparr>, k_vm := m\<rparr>)
             in Some (on_task cur (\<lambda>t. t\<lparr>fpu_initialized := False, sleep_until := 0\<rparr>) (fpu_release_ownership cur k)))"

definition free_buf :: "u32 \<Rightarrow> kernel \<Rightarrow> kernel option" where
  "free_buf buf k = map_option (\<lambda>s. k\<lparr>k_fs := s\<rparr>) (fs_kfree buf (k_fs k))"

definition exec_fail :: "int \<Rightarrow> u32 \<Rightarrow> regs \<Rightarrow> kernel \<Rightarrow> (int \<times> regs \<times> kernel) option" where
  "exec_fail e buf r k = map_option (\<lambda>k. (e, r, k)) (free_buf buf k)"

definition exec_load :: "machine \<Rightarrow> u32 \<Rightarrow> u8 list \<Rightarrow> u8 list list \<Rightarrow> u32 \<Rightarrow> regs \<Rightarrow> kernel \<Rightarrow>
    (int \<times> regs \<times> kernel) option" where
  "exec_load mc buf filename args file_node r k =
     (let (m, pd) = vmm_create_address_space (k_vm k); k = k\<lparr>k_vm := m\<rparr>
      in if pd = 0 then exec_fail (- ENOMEM) buf r k
         else case elf_load file_node pd (addr_elf_buffers mc) \<lparr>l_fs = k_fs k, l_vm = k_vm k, l_vmas = []\<rparr> of None \<Rightarrow> None
         | Some (entry, l) \<Rightarrow>
           let k = k\<lparr>k_fs := l_fs l, k_vm := l_vm l\<rparr>
           in if entry = 0 then
                (case free_buf buf k of None \<Rightarrow> None
                 | Some k \<Rightarrow> (case vma_destroy_all (fs_heap (k_fs k)) (l_vmas l) of None \<Rightarrow> None
                   | Some h \<Rightarrow> Some (- ENOEXEC, r, k\<lparr>k_fs := (k_fs k)\<lparr>fs_heap := h\<rparr>,
                                      k_vm := vmm_destroy_address_space pd (k_vm k)\<rparr>)))
              else case replace_image pd (l_vmas l) filename k of None \<Rightarrow> None
              | Some k \<Rightarrow>
                let (ok, h, vs) = add_areas [(USER_STACK_VIRT_TOP - USER_STACK_SIZE, USER_STACK_VIRT_TOP),
                      (USER_HEAP_START, USER_HEAP_START)] (fs_heap (k_fs k)) (t_vmas (tasks k (current_task k)));
                    k = on_task (current_task k) (\<lambda>t. t\<lparr>t_vmas := vs\<rparr>) (k\<lparr>k_fs := (k_fs k)\<lparr>fs_heap := h\<rparr>\<rparr>)
                in if \<not> ok then exec_fail (- ENOMEM) buf r k
                   else let (stack_ptr, k) = user_stack args k
                        in map_option (\<lambda>k. (0, r\<lparr>esp := stack_ptr, useresp := stack_ptr, eip := entry, eax := 0\<rparr>, k))
                             (free_buf buf k))"

definition sys_exec_handler :: "machine \<Rightarrow> regs \<Rightarrow> kernel \<Rightarrow> (int \<times> regs \<times> kernel) option" where
  "sys_exec_handler mc r k =
     (let (ret, filename) = copy_string_from_user (kmem (k_fs k)) (ebx r) 256
      in if ret < 0 then Some (ret, r, k)
         else let (s, buf) = fs_kmalloc (of_nat (EXEC_MAX_ARGS * EXEC_MAX_ARG_LEN)) (k_fs k); k = k\<lparr>k_fs := s\<rparr>
              in if buf = 0 then Some (- ENOMEM, r, k)
                 else let args = exec_argv (kmem (k_fs k)) (ecx r)
                      in if args_size args > USER_STACK_SIZE - USER_STACK_GUARD_SIZE then exec_fail (- E2BIG) buf r k
                         else case vfs_findnode filename (k_fs k) of None \<Rightarrow> None
                         | Some (file_node, s) \<Rightarrow>
                           let k = k\<lparr>k_fs := s\<rparr>
                           in if file_node = 0 then exec_fail (- ENOENT) buf r k
                              else if n_flags (nodes s file_node) AND FS_FILE = 0 then exec_fail (- EACCES) buf r k
                              else exec_load mc buf filename args file_node r k)"

section \<open>The calls on tasks\<close>

definition sys_exit_handler :: "machine \<Rightarrow> regs \<Rightarrow> kernel \<Rightarrow> kernel option" where
  "sys_exit_handler mc r k = task_exit mc (sint (ebx r)) k"

definition sys_yield_handler :: "machine \<Rightarrow> kernel \<Rightarrow> kernel option" where
  "sys_yield_handler mc k = schedule mc k"

definition sys_getpid_handler :: "kernel \<Rightarrow> int" where
  "sys_getpid_handler k = sint (t_pid (tasks k (current_task k)))"

definition sys_waitpid_handler :: "machine \<Rightarrow> regs \<Rightarrow> kernel \<Rightarrow> (wait_result \<times> kernel) option" where
  "sys_waitpid_handler mc r k =
     (if ecx r \<noteq> 0 \<and> \<not> is_user_pointer (ecx r) 4 then Some (Returned (- EFAULT), k)
      else task_waitpid mc (sint (ebx r)) (ecx r) (edx r) k)"

section \<open>The dispatcher\<close>

text \<open>How a call ends: with a value for \<open>eax\<close>, not yet (the caller sleeps), or never.\<close>

datatype outcome = Value int | Later | Never

definition file_call :: "(regs \<Rightarrow> fd_table \<Rightarrow> fs_state \<Rightarrow> fd_result) \<Rightarrow> regs \<Rightarrow> kernel \<Rightarrow> (outcome \<times> regs \<times> kernel) option" where
  "file_call h r k =
     (case h r (t_fds (tasks k (current_task k))) (k_fs k) of None \<Rightarrow> None
      | Some (ret, fds, s) \<Rightarrow> Some (Value ret, r, on_task (current_task k) (\<lambda>t. t\<lparr>t_fds := fds\<rparr>) (k\<lparr>k_fs := s\<rparr>)))"

definition memory_call :: "(regs \<Rightarrow> mm \<Rightarrow> mm_result) \<Rightarrow> regs \<Rightarrow> kernel \<Rightarrow> (outcome \<times> regs \<times> kernel) option" where
  "memory_call h r k =
     (let t = tasks k (current_task k)
      in case h r \<lparr>mm_heap = fs_heap (k_fs k), mm_vm = k_vm k, mm_pdir = t_pdir t, mm_vmas = t_vmas t\<rparr> of None \<Rightarrow> None
         | Some (ret, m) \<Rightarrow> Some (Value ret, r, on_task (current_task k) (\<lambda>t. t\<lparr>t_vmas := mm_vmas m\<rparr>)
                (k\<lparr>k_fs := (k_fs k)\<lparr>fs_heap := mm_heap m\<rparr>, k_vm := mm_vm m\<rparr>)))"

definition task_call :: "regs \<Rightarrow> outcome \<Rightarrow> kernel option \<Rightarrow> (outcome \<times> regs \<times> kernel) option" where
  "task_call r ret k = map_option (\<lambda>k. (ret, r, k)) k"

text \<open>\<open>frame\<close> is the address of the trap frame \<open>r\<close> on the caller's kernel stack.\<close>

definition syscall_table :: "machine \<Rightarrow> u32 \<Rightarrow> u32 \<Rightarrow> (regs \<Rightarrow> kernel \<Rightarrow> (outcome \<times> regs \<times> kernel) option) option" where
  "syscall_table mc frame n =
     (if n = 1 then Some (\<lambda>r k. task_call r Never (sys_exit_handler mc r k))
      else if n = 2 then Some (\<lambda>r k. map_option (\<lambda>(ret, k). (Value ret, r, k)) (task_fork mc frame k))
      else if n = 3 then Some (file_call sys_read_handler)
      else if n = 4 then Some (file_call sys_write_handler)
      else if n = 5 then Some (file_call sys_open_handler)
      else if n = 6 then Some (file_call sys_close_handler)
      else if n = 7 then Some (\<lambda>r k. map_option (\<lambda>(w, k). (case w of Returned ret \<Rightarrow> Value ret | Blocked \<Rightarrow> Later, r, k))
             (sys_waitpid_handler mc r k))
      else if n = 10 then Some (file_call sys_unlink_handler)
      else if n = 11 then Some (\<lambda>r k. map_option (\<lambda>(ret, r, k). (Value ret, r, k)) (sys_exec_handler mc r k))
      else if n = 19 then Some (file_call sys_lseek_handler)
      else if n = 28 then Some (file_call sys_fstat_handler)
      else if n = 39 then Some (file_call sys_mkdir_handler)
      else if n = 41 then Some (file_call sys_dup_handler)
      else if n = 45 then Some (memory_call sys_brk_handler)
      else if n = 54 then Some (file_call (sys_ioctl_handler (fb_available mc)))
      else if n = 63 then Some (file_call sys_dup2_handler)
      else if n = 78 then Some (\<lambda>r k. file_call (sys_gettimeofday_handler (tick_count k) (pit_frequency k)) r k)
      else if n = 90 then Some (memory_call sys_mmap_handler)
      else if n = 91 then Some (memory_call sys_munmap_handler)
      else if n = 116 then Some (\<lambda>r k. file_call (sys_sysinfo_handler (tick_count k) (pit_frequency k)
             (total_available_pages (vm_pmm (k_vm k))) (pmm_get_free_pages (vm_pmm (k_vm k))) (task_count k)) r k)
      else if n = 122 then Some (\<lambda>r k. Some (Value (sys_getpid_handler k), r, k))
      else if n = 125 then Some (memory_call sys_mprotect_handler)
      else if n = 141 then Some (file_call sys_readdir_handler)
      else if n = 158 then Some (\<lambda>r k. task_call r (Value 0) (sys_yield_handler mc k))
      else if n = 164 then Some (file_call sys_uname_handler)
      else if n = 230 then Some (\<lambda>r k. task_call r (Value 0) (sys_sleep_handler mc r k))
      else None)"

definition syscall_dispatcher :: "machine \<Rightarrow> u32 \<Rightarrow> regs \<Rightarrow> kernel \<Rightarrow> (outcome \<times> regs \<times> kernel) option" where
  "syscall_dispatcher mc frame r k =
     (if eax r \<ge> MAX_SYSCALLS then Some (Value (- ENOSYS), r\<lparr>eax := of_int (- ENOSYS)\<rparr>, k)
      else case syscall_table mc frame (eax r) of
             None \<Rightarrow> Some (Value (- ENOSYS), r\<lparr>eax := of_int (- ENOSYS)\<rparr>, k)
           | Some h \<Rightarrow>
               map_option (\<lambda>(out, r, k). (out, case out of Value ret \<Rightarrow> r\<lparr>eax := of_int ret\<rparr> | _ \<Rightarrow> r, k)) (h r k))"

end
