(* ===== verification/Syscall_Spec.thy ===== *)
theory Syscall_Spec
  imports Syscall
begin

text \<open>
  System calls with arguments that user code must not pass: a buffer that is not wholly in user
  space, a path that is not a string there, a descriptor that is not open. Sizes above three gigabytes
  are outside this: the check of the code accepts them (\<open>huge_count_accepted\<close>).
\<close>

unbundle bit_operations_syntax

section \<open>User ranges\<close>

text \<open>The bytes \<open>[p, p + n)\<close> lie in user space and do not start at the null pointer.\<close>

definition user_range :: "u32 \<Rightarrow> u32 \<Rightarrow> bool" where
  "user_range p n \<longleftrightarrow> 0 < unat p \<and> unat p < 0xC0000000 \<and> unat p + unat n \<le> 0xC0000000"

lemma is_user_pointer_range:
  assumes "unat n \<le> 0xC0000000"
  shows "is_user_pointer p n \<longleftrightarrow> user_range p n"
proof -
  have "unat (USER_SPACE_END - n + 1) = 0xC0000000 - unat n" if "n \<noteq> 0"
  proof -
    have n: "0 < unat n" using that by (simp add: unat_gt_0)
    then have "n \<le> 0xC0000000" using assms by (simp add: word_le_nat_alt)
    moreover have "(USER_SPACE_END - n + 1 :: u32) = 0xC0000000 - n" by simp
    ultimately show ?thesis by (simp add: unat_sub)
  qed
  then show ?thesis using assms
    by (cases "n = 0") (auto simp: is_user_pointer_def user_range_def word_less_nat_alt word_le_nat_alt not_le unat_gt_0)
qed

text \<open>
  A size of more than three gigabytes makes the limit of the check wrap around, so that the buffer is
  accepted wherever it starts, although no such buffer lies in user space.
\<close>

lemma huge_count_accepted:
  assumes "unat n > 0xC0000000" and "p \<noteq> 0" and "p < KERNEL_SPACE_START"
  shows "is_user_pointer p n" and "\<not> user_range p n"
proof -
  have "unat (USER_SPACE_END - n + 1) = 2 ^ 32 + 0xC0000000 - unat n"
  proof -
    have "unat (0xC0000000 - n) = 2 ^ 32 + 0xC0000000 - unat n"
      using assms(1) unat_sub_if_size [of "0xC0000000" n] by (simp add: word_size)
    moreover have "(USER_SPACE_END - n + 1 :: u32) = 0xC0000000 - n" by simp
    ultimately show ?thesis by simp
  qed
  moreover have "unat p < 0xC0000000" using assms(3) by (simp add: word_less_nat_alt)
  ultimately have "unat p < unat (USER_SPACE_END - n + 1)" using unat_u32_bound [of n] by simp
  then show "is_user_pointer p n"
    using assms(2,3) by (simp add: is_user_pointer_def word_less_nat_alt word_le_nat_alt not_less)
  show "\<not> user_range p n" using assms(1) by (simp add: user_range_def)
qed

section \<open>User strings\<close>

text \<open>A string of at most 254 bytes that ends inside user space.\<close>

definition user_string :: "mem \<Rightarrow> u32 \<Rightarrow> bool" where
  "user_string m p \<longleftrightarrow> p \<noteq> 0 \<and> (\<exists>n < 255. unat p + n < 0xC0000000 \<and> m (p + of_nat n) = 0)"

lemma copy_loop_refused:
  assumes "\<forall>n < k. unat src + n < 0xC0000000 \<longrightarrow> m (src + of_nat n) \<noteq> 0"
  shows "fst (copy_loop m src k dest) \<in> {- EFAULT, - ENAMETOOLONG}"
  using assms
proof (induction m src k dest rule: copy_loop.induct)
  case (2 m src k dest)
  show ?case
  proof (cases "src \<ge> KERNEL_SPACE_START")
    case False
    then have b: "unat src < 0xC0000000" by (simp add: word_le_nat_alt)
    then have u: "unat (src + 1) = unat src + 1" by (simp add: unat_word_ariths)
    have "m src \<noteq> 0" using "2.prems" b by (auto dest: spec [of _ 0])
    moreover have "\<forall>n < k. unat (src + 1) + n < 0xC0000000 \<longrightarrow> m (src + 1 + of_nat n) \<noteq> 0"
    proof (intro allI impI)
      fix n assume n: "n < k" "unat (src + 1) + n < 0xC0000000"
      have e: "src + 1 + of_nat n = src + of_nat (Suc n)" by simp
      show "m (src + 1 + of_nat n) \<noteq> 0"
        unfolding e by (rule "2.prems" [rule_format]) (use n u in simp_all)
    qed
    ultimately show ?thesis using "2.IH" False by simp
  qed simp
qed simp

lemma copy_string_refused:
  assumes "\<not> user_string m p"
  obtains e dest where "copy_string_from_user m p 256 = (e, dest)" and "e \<in> {- EFAULT, - ENAMETOOLONG}"
proof (cases "p = 0 \<or> p \<ge> KERNEL_SPACE_START")
  case True
  then show thesis using that by (auto simp: copy_string_from_user_def)
next
  case False
  then have "\<forall>n < 255. unat p + n < 0xC0000000 \<longrightarrow> m (p + of_nat n) \<noteq> 0" using assms by (auto simp: user_string_def)
  then show thesis
    using that copy_loop_refused [of 255 p m "[]"] False by (simp add: copy_string_from_user_def prod_eq_iff)
qed

section \<open>What a call refers to\<close>

definition call_range :: "regs \<Rightarrow> (u32 \<times> u32) option" where
  "call_range r =
     (if eax r = 3 \<or> eax r = 4 then Some (ecx r, edx r)
      else if eax r = 7 then (if ecx r = 0 then None else Some (ecx r, 4))
      else if eax r = 28 then Some (ecx r, SIZEOF_STAT)
      else if eax r = 78 then Some (ebx r, SIZEOF_TIMEVAL)
      else if eax r = 116 then Some (ebx r, SIZEOF_SYSINFO)
      else if eax r = 141 then Some (edx r, SIZEOF_DIRENT)
      else if eax r = 164 then Some (ebx r, SIZEOF_UTSNAME)
      else if eax r = 54 then Some (edx r, SIZEOF_WINSIZE)
      else None)"

definition call_path :: "regs \<Rightarrow> u32 option" where
  "call_path r = (if eax r \<in> {5, 10, 11, 39} then Some (ebx r) else None)"

definition call_descriptor :: "regs \<Rightarrow> int option" where
  "call_descriptor r =
     (if eax r \<in> {3, 4, 6, 19, 28, 41, 54, 63, 141} then Some (sint (ebx r)) else None)"

text \<open>A buffer that is not wholly in user space; a size above three gigabytes; a path and a descriptor that do not exist.\<close>

definition bad_range :: "regs \<Rightarrow> bool" where
  "bad_range r \<longleftrightarrow> (\<exists>p n. call_range r = Some (p, n) \<and> \<not> user_range p n)"

definition huge_count :: "regs \<Rightarrow> bool" where
  "huge_count r \<longleftrightarrow> (\<exists>p n. call_range r = Some (p, n) \<and> unat n > 0xC0000000)"

definition bad_path :: "mem \<Rightarrow> regs \<Rightarrow> bool" where
  "bad_path m r \<longleftrightarrow> (\<exists>p. call_path r = Some p \<and> \<not> user_string m p)"

definition bad_descriptor :: "regs \<Rightarrow> fd_table \<Rightarrow> bool" where
  "bad_descriptor r fds \<longleftrightarrow> (\<exists>fd. call_descriptor r = Some fd \<and> (\<not> valid_fd fd \<or> fds (nat fd) = 0))"

lemma file_call_refused:
  assumes "h r (t_fds (tasks k (current_task k))) (k_fs k) =
     Some (ret, t_fds (tasks k (current_task k)), k_fs k)"
  shows "file_call h r k = Some (Value ret, r, k)"
  using assms by (simp add: file_call_def on_task_def)

definition bad_argument_errors :: "int set" where
  "bad_argument_errors = {- EPERM, - EBADF, - EFAULT, - ENOTTY, - ENAMETOOLONG}"

definition refused :: "(regs \<Rightarrow> fd_table \<Rightarrow> fs_state \<Rightarrow> fd_result) \<Rightarrow> regs \<Rightarrow> fd_table \<Rightarrow> fs_state \<Rightarrow> bool" where
  "refused h r fds s \<longleftrightarrow>
     (\<exists>ret. h r fds s = Some (ret, fds, s) \<and> ret \<in> bad_argument_errors)"

lemma refusedI: "h r fds s = Some (ret, fds, s) \<Longrightarrow> ret \<in> bad_argument_errors \<Longrightarrow> refused h r fds s"
  by (auto simp: refused_def)

lemma dispatch_refused:
  assumes "refused h r (t_fds (tasks k (current_task k))) (k_fs k)" and "eax r < MAX_SYSCALLS"
    and "syscall_table mc frame (eax r) = Some (file_call h) \<or>
         syscall_table mc frame (eax r) = Some (\<lambda>r k. file_call (g k) r k) \<and> h = g k"
  shows "\<exists>ret \<in> bad_argument_errors.
    syscall_dispatcher mc frame r k = Some (Value ret, r\<lparr>eax := of_int ret\<rparr>, k)"
proof -
  obtain ret where h: "h r (t_fds (tasks k (current_task k))) (k_fs k) =
     Some (ret, t_fds (tasks k (current_task k)), k_fs k)" "ret \<in> bad_argument_errors"
    using assms(1) by (auto simp: refused_def)
  note c = file_call_refused [of h, OF h(1)]
  have "syscall_dispatcher mc frame r k = Some (Value ret, r\<lparr>eax := of_int ret\<rparr>, k)"
    using assms(2,3) c by (auto simp: syscall_dispatcher_def not_le)
  then show ?thesis using h(2) by blast
qed

lemmas handler_defs = sys_read_handler_def sys_write_handler_def sys_fstat_handler_def
  sys_readdir_handler_def sys_ioctl_handler_def sys_gettimeofday_handler_def sys_uname_handler_def
  sys_sysinfo_handler_def sys_close_handler_def sys_lseek_handler_def sys_dup_handler_def
  sys_dup2_handler_def vfs_close_fd_def sys_read_def sys_write_def

lemma bad_range_refused:
  assumes "bad_range r" and "\<not> huge_count r"
  shows "eax r = 3 \<Longrightarrow> refused sys_read_handler r fds s"
    and "eax r = 4 \<Longrightarrow> refused sys_write_handler r fds s"
    and "eax r = 7 \<Longrightarrow> sys_waitpid_handler mc r k = Some (Returned (- EFAULT), k)"
    and "eax r = 28 \<Longrightarrow> refused sys_fstat_handler r fds s"
    and "eax r = 54 \<Longrightarrow> refused (sys_ioctl_handler fb) r fds s"
    and "eax r = 78 \<Longrightarrow> refused (sys_gettimeofday_handler t f) r fds s"
    and "eax r = 116 \<Longrightarrow> refused (sys_sysinfo_handler t f a b c) r fds s"
    and "eax r = 141 \<Longrightarrow> refused sys_readdir_handler r fds s"
    and "eax r = 164 \<Longrightarrow> refused sys_uname_handler r fds s"
proof -
  obtain p n where p: "call_range r = Some (p, n)" "\<not> user_range p n" "unat n \<le> 0xC0000000"
    using assms by (auto simp: bad_range_def huge_count_def)
  note d = p(1,2) is_user_pointer_range [OF p(3), of p]
  show "eax r = 3 \<Longrightarrow> refused sys_read_handler r fds s" "eax r = 4 \<Longrightarrow> refused sys_write_handler r fds s"
    "eax r = 28 \<Longrightarrow> refused sys_fstat_handler r fds s" "eax r = 54 \<Longrightarrow> refused (sys_ioctl_handler fb) r fds s"
    "eax r = 78 \<Longrightarrow> refused (sys_gettimeofday_handler t f) r fds s"
    "eax r = 116 \<Longrightarrow> refused (sys_sysinfo_handler t f a b c) r fds s"
    "eax r = 141 \<Longrightarrow> refused sys_readdir_handler r fds s" "eax r = 164 \<Longrightarrow> refused sys_uname_handler r fds s"
    using d by (auto simp: call_range_def handler_defs refused_def bad_argument_errors_def Let_def split: if_splits)
  show "eax r = 7 \<Longrightarrow> sys_waitpid_handler mc r k = Some (Returned (- EFAULT), k)"
    using d by (auto simp: call_range_def sys_waitpid_handler_def split: if_splits)
qed

lemma bad_path_refused:
  assumes "bad_path (kmem s) r"
  shows "eax r = 5 \<Longrightarrow> refused sys_open_handler r fds s"
    and "eax r = 10 \<Longrightarrow> refused sys_unlink_handler r fds s"
    and "eax r = 11 \<Longrightarrow> k_fs k = s \<Longrightarrow> \<exists>ret \<in> bad_argument_errors. sys_exec_handler mc r k = Some (ret, r, k)"
    and "eax r = 39 \<Longrightarrow> refused sys_mkdir_handler r fds s"
proof -
  obtain p where p: "call_path r = Some p" "\<not> user_string (kmem s) p" using assms by (auto simp: bad_path_def)
  obtain e dest where c: "copy_string_from_user (kmem s) p 256 = (e, dest)" "e \<in> {- EFAULT, - ENAMETOOLONG}"
    using copy_string_refused [OF p(2)] .
  have b: "ebx r = p" using p(1) by (auto simp: call_path_def split: if_splits)
  have e: "e < 0" "e \<in> bad_argument_errors" using c(2) by (auto simp: bad_argument_errors_def)
  show "eax r = 5 \<Longrightarrow> refused sys_open_handler r fds s" "eax r = 10 \<Longrightarrow> refused sys_unlink_handler r fds s"
    "eax r = 39 \<Longrightarrow> refused sys_mkdir_handler r fds s"
    "eax r = 11 \<Longrightarrow> k_fs k = s \<Longrightarrow> \<exists>ret \<in> bad_argument_errors. sys_exec_handler mc r k = Some (ret, r, k)"
    using b c(1) e by (simp_all add: refused_def sys_open_handler_def sys_unlink_handler_def sys_mkdir_handler_def
        sys_exec_handler_def)
qed

lemma bad_descriptor_refused:
  assumes "bad_descriptor r fds"
  shows "eax r = 3 \<Longrightarrow> refused sys_read_handler r fds s"
    and "eax r = 4 \<Longrightarrow> refused sys_write_handler r fds s"
    and "eax r = 6 \<Longrightarrow> refused sys_close_handler r fds s"
    and "eax r = 19 \<Longrightarrow> refused sys_lseek_handler r fds s"
    and "eax r = 28 \<Longrightarrow> refused sys_fstat_handler r fds s"
    and "eax r = 41 \<Longrightarrow> refused sys_dup_handler r fds s"
    and "eax r = 54 \<Longrightarrow> refused (sys_ioctl_handler fb) r fds s"
    and "eax r = 63 \<Longrightarrow> refused sys_dup2_handler r fds s"
    and "eax r = 141 \<Longrightarrow> refused sys_readdir_handler r fds s"
  using assms
  by (auto simp: bad_descriptor_def call_descriptor_def handler_defs refused_def bad_argument_errors_def Let_def)

definition regs_zero :: regs where
  "regs_zero = \<lparr>r_gs = 0, r_fs = 0, r_es = 0, r_ds = 0, edi = 0, esi = 0, ebp = 0, esp = 0, ebx = 0,
     edx = 0, ecx = 0, eax = 0, int_no = 0, err_code = 0, eip = 0, r_cs = 0, eflags = 0, useresp = 0, r_ss = 0\<rparr>"

text \<open>C13. A system call with a buffer that leaves user space, its size being at most three gigabytes, with a
  path that is not a string of at most 254 bytes there, or with a descriptor that is not open, returns an error code
  and has no other effect: the kernel's state and the other registers of the caller are as before. The calls are those
  that take a buffer (\<open>read\<close>, \<open>write\<close>, \<open>waitpid\<close>, \<open>fstat\<close>, \<open>ioctl\<close>, \<open>gettimeofday\<close>, \<open>sysinfo\<close>, \<open>readdir\<close>, \<open>uname\<close>),
  a path (\<open>open\<close>, \<open>unlink\<close>, \<open>exec\<close>, \<open>mkdir\<close>) or a descriptor. A larger size is not refused
  (\<open>huge_count_accepted\<close>), nor is a bad argument vector of \<open>exec\<close>, which counts as empty.\<close>

theorem bad_argument_refused:
  assumes "bad_range r \<and> \<not> huge_count r \<or> bad_path (kmem (k_fs k)) r \<or>
    bad_descriptor r (t_fds (tasks k (current_task k)))"
  shows "\<exists>ret \<in> bad_argument_errors.
    syscall_dispatcher mc frame r k = Some (Value ret, r\<lparr>eax := of_int ret\<rparr>, k)"
proof -
  let ?fds = "t_fds (tasks k (current_task k))" and ?s = "k_fs k"
  have calls: "eax r \<in> {3, 4, 5, 6, 7, 10, 11, 19, 28, 39, 41, 54, 63, 78, 116, 141, 164}"
    using assms by (auto simp: bad_range_def bad_path_def bad_descriptor_def call_range_def call_path_def
        call_descriptor_def split: if_splits)
  have none: "bad_range r \<Longrightarrow> eax r \<notin> {5, 6, 10, 11, 19, 39, 41, 63}"
    "bad_path (kmem ?s) r \<Longrightarrow> eax r \<in> {5, 10, 11, 39}"
    "bad_descriptor r ?fds \<Longrightarrow> eax r \<in> {3, 4, 6, 19, 28, 41, 54, 63, 141}"
    by (auto simp: bad_range_def bad_path_def bad_descriptor_def call_range_def call_path_def call_descriptor_def
        split: if_splits)
  have lt: "eax r < MAX_SYSCALLS" using calls by auto
  note R = bad_range_refused [of r] and P = bad_path_refused [of ?s r] and D = bad_descriptor_refused [of r ?fds]
  have T: "refused h r ?fds ?s \<Longrightarrow> syscall_table mc frame (eax r) = Some (file_call h) \<Longrightarrow> ?thesis" for h
    using dispatch_refused [OF _ lt] by blast
  have T2: "refused (g k) r ?fds ?s \<Longrightarrow> syscall_table mc frame (eax r) = Some (\<lambda>r k. file_call (g k) r k) \<Longrightarrow> ?thesis"
    for g using dispatch_refused [OF _ lt] by blast
  note t = syscall_table_def
  have "eax r = 3 \<Longrightarrow> ?thesis" by (rule T [of sys_read_handler]) (use assms none R D in \<open>auto simp: t\<close>)
  moreover have "eax r = 4 \<Longrightarrow> ?thesis" by (rule T [of sys_write_handler]) (use assms none R D in \<open>auto simp: t\<close>)
  moreover have "eax r = 5 \<Longrightarrow> ?thesis" by (rule T [of sys_open_handler]) (use assms none P in \<open>auto simp: t\<close>)
  moreover have "eax r = 6 \<Longrightarrow> ?thesis" by (rule T [of sys_close_handler]) (use assms none D in \<open>auto simp: t\<close>)
  moreover have "eax r = 10 \<Longrightarrow> ?thesis" by (rule T [of sys_unlink_handler]) (use assms none P in \<open>auto simp: t\<close>)
  moreover have "eax r = 19 \<Longrightarrow> ?thesis" by (rule T [of sys_lseek_handler]) (use assms none D in \<open>auto simp: t\<close>)
  moreover have "eax r = 28 \<Longrightarrow> ?thesis" by (rule T [of sys_fstat_handler]) (use assms none R D in \<open>auto simp: t\<close>)
  moreover have "eax r = 39 \<Longrightarrow> ?thesis" by (rule T [of sys_mkdir_handler]) (use assms none P in \<open>auto simp: t\<close>)
  moreover have "eax r = 41 \<Longrightarrow> ?thesis" by (rule T [of sys_dup_handler]) (use assms none D in \<open>auto simp: t\<close>)
  moreover have "eax r = 54 \<Longrightarrow> ?thesis"
    by (rule T [of "sys_ioctl_handler (fb_available mc)"]) (use assms none R D in \<open>auto simp: t\<close>)
  moreover have "eax r = 63 \<Longrightarrow> ?thesis" by (rule T [of sys_dup2_handler]) (use assms none D in \<open>auto simp: t\<close>)
  moreover have "eax r = 78 \<Longrightarrow> ?thesis"
    by (rule T2 [of "\<lambda>k. sys_gettimeofday_handler (tick_count k) (pit_frequency k)"]) (use assms none R in \<open>auto simp: t\<close>)
  moreover have "eax r = 116 \<Longrightarrow> ?thesis"
    by (rule T2 [of "\<lambda>k. sys_sysinfo_handler (tick_count k) (pit_frequency k) (total_available_pages (vm_pmm (k_vm k)))
         (pmm_get_free_pages (vm_pmm (k_vm k))) (task_count k)"]) (use assms none R in \<open>auto simp: t\<close>)
  moreover have "eax r = 141 \<Longrightarrow> ?thesis" by (rule T [of sys_readdir_handler]) (use assms none R D in \<open>auto simp: t\<close>)
  moreover have "eax r = 164 \<Longrightarrow> ?thesis" by (rule T [of sys_uname_handler]) (use assms none R in \<open>auto simp: t\<close>)
  moreover have "?thesis" if a: "eax r = 7"
  proof -
    have "sys_waitpid_handler mc r k = Some (Returned (- EFAULT), k)" using assms none R(3) a by auto
    then have "syscall_dispatcher mc frame r k = Some (Value (- EFAULT), r\<lparr>eax := of_int (- EFAULT)\<rparr>, k)"
      by (simp add: syscall_dispatcher_def t a)
    then show ?thesis by (intro bexI [of _ "- EFAULT"]) (simp_all add: bad_argument_errors_def)
  qed
  moreover have "?thesis" if a: "eax r = 11"
  proof -
    obtain ret where "ret \<in> bad_argument_errors" "sys_exec_handler mc r k = Some (ret, r, k)"
      using assms none P(3) a by auto
    then show ?thesis by (intro bexI [of _ ret]) (simp_all add: syscall_dispatcher_def t a)
  qed
  ultimately show ?thesis using calls by blast
qed

lemma bad_argument_refused_witness:
  "\<forall>mc frame k. \<exists>ret \<in> bad_argument_errors.
    syscall_dispatcher mc frame (regs_zero\<lparr>eax := 4, ebx := 1, ecx := 0xBFFFFFFF, edx := 2\<rparr>) k =
    Some (Value ret, regs_zero\<lparr>eax := 4, ebx := 1, ecx := 0xBFFFFFFF, edx := 2, eax := of_int ret\<rparr>, k)"
proof (intro allI)
  fix mc frame and k :: kernel
  let ?r = "regs_zero\<lparr>eax := 4, ebx := 1, ecx := 0xBFFFFFFF, edx := 2\<rparr>"
  have "bad_range ?r \<and> \<not> huge_count ?r" by (auto simp: bad_range_def huge_count_def call_range_def user_range_def)
  then have "bad_range ?r \<and> \<not> huge_count ?r \<or> bad_path (kmem (k_fs k)) ?r \<or>
    bad_descriptor ?r (t_fds (tasks k (current_task k)))" by blast
  from bad_argument_refused [OF this, where mc = mc and frame = frame]
  show "\<exists>ret \<in> bad_argument_errors. syscall_dispatcher mc frame ?r k =
    Some (Value ret, regs_zero\<lparr>eax := 4, ebx := 1, ecx := 0xBFFFFFFF, edx := 2, eax := of_int ret\<rparr>, k)" by simp
qed

end
