(* ===== verification/Blocks.thy ===== *)
theory Blocks
  imports Klib Heap
begin

text \<open>
  Bytes inside heap blocks: what \<open>k_memcpy\<close> and \<open>k_memset\<close> do to a block and to everything else, and
  the contract of an allocator whose blocks have room and do not overlap, provided by \<open>kmalloc\<close> and
  \<open>kfree\<close>.
\<close>

section \<open>Ranges of addresses\<close>

definition separate :: "u32 \<Rightarrow> nat \<Rightarrow> u32 \<Rightarrow> nat \<Rightarrow> bool" where
  "separate p n q k \<longleftrightarrow> unat p + n \<le> unat q \<or> unat q + k \<le> unat p"

definition peek :: "mem \<Rightarrow> u32 \<Rightarrow> nat \<Rightarrow> u8 list" where
  "peek m p n = map (\<lambda>i. m (p + of_nat i)) [0..<n]"

lemma length_peek [simp]: "length (peek m p n) = n"
  by (simp add: peek_def)

lemma nth_peek [simp]: "i < n \<Longrightarrow> peek m p n ! i = m (p + of_nat i)"
  by (simp add: peek_def)

lemma separate_sym: "separate p n q k \<longleftrightarrow> separate q k p n"
  by (auto simp: separate_def)

lemma separate_sub: "separate p n q k \<Longrightarrow> n' \<le> n \<Longrightarrow> k' \<le> k \<Longrightarrow> separate p n' q k'"
  by (auto simp: separate_def)

lemma unat_offset: "unat (p :: u32) + i < 2 ^ 32 \<Longrightarrow> unat (p + of_nat i) = unat p + i"
  by (simp add: unat_word_ariths unat_of_nat)

lemma memcpy_loop_self: "memcpy_loop m d d n = m"
proof (induction n arbitrary: d)
  case (Suc n)
  then show ?case by simp
qed simp

lemma memcpy_other:
  assumes "unat d + n \<le> 2 ^ 32" and "unat a < unat d \<or> unat d + n \<le> unat a"
  shows "memcpy_loop m d s n a = m a"
proof (cases "d = s")
  case False
  have "\<not> unat (a - d) < n" using assms unat_u32_bound [of d] by (auto simp: unat_sub_if')
  then show ?thesis using assms(1) by (simp add: memcpy_loop_eq [OF False])
qed (simp add: memcpy_loop_self)

lemma memcpy_inside:
  assumes "unat d + n \<le> 2 ^ 32" and "separate d n s n" and "i < n" and "unat s + n \<le> 2 ^ 32"
  shows "memcpy_loop m d s n (d + of_nat i) = m (s + of_nat i)"
proof -
  have ds: "d \<noteq> s" using assms(2,3) by (auto simp: separate_def)
  have u: "unat (d + of_nat i - d) = i" using assms(1,3) by (simp add: unat_of_nat)
  have "n \<le> unat (d - s)"
    using assms(1,2,4) unat_u32_bound [of d] by (auto simp: separate_def unat_sub_if')
  then have "i mod unat (d - s) = i" using assms(3) by simp
  then show ?thesis using assms u by (simp add: memcpy_loop_eq [OF ds])
qed

lemma memset_other:
  assumes "unat d + n \<le> 2 ^ 32" and "unat a < unat d \<or> unat d + n \<le> unat a"
  shows "memset_loop m d v n a = m a"
proof -
  have "\<not> unat (a - d) < n" using assms unat_u32_bound [of d] by (auto simp: unat_sub_if')
  then show ?thesis using assms(1) by (simp add: memset_loop_eq)
qed

lemma memset_inside:
  assumes "unat d + n \<le> 2 ^ 32" and "i < n"
  shows "memset_loop m d v n (d + of_nat i) = v"
proof -
  have "unat (d + of_nat i - d) = i" using assms by (simp add: unat_of_nat)
  then show ?thesis using assms by (simp add: memset_loop_eq)
qed

lemma peek_memcpy_other:
  assumes "unat d + n \<le> 2 ^ 32" and "unat q + k \<le> 2 ^ 32" and "separate d n q k"
  shows "peek (memcpy_loop m d s n) q k = peek m q k"
  unfolding peek_def
  by (rule map_cong [OF refl], rule memcpy_other)
    (use assms in \<open>auto simp: separate_def unat_offset\<close>)

lemma peek_memset_other:
  assumes "unat d + n \<le> 2 ^ 32" and "unat q + k \<le> 2 ^ 32" and "separate d n q k"
  shows "peek (memset_loop m d v n) q k = peek m q k"
  unfolding peek_def
  by (rule map_cong [OF refl], rule memset_other)
    (use assms in \<open>auto simp: separate_def unat_offset\<close>)

lemma peek_memcpy_same:
  "unat d + n \<le> 2 ^ 32 \<Longrightarrow> separate d n s n \<Longrightarrow> unat s + n \<le> 2 ^ 32 \<Longrightarrow> peek (memcpy_loop m d s n) d n = peek m s n"
  by (rule nth_equalityI) (simp_all add: memcpy_inside)

text \<open>Writing inside a block at an offset replaces that part of its bytes.\<close>

lemma peek_memcpy_part:
  assumes "unat p + N \<le> 2 ^ 32" and "off + n \<le> N" and "separate p N s n" and "unat s + n \<le> 2 ^ 32"
  shows "peek (memcpy_loop m (p + of_nat off) s n) p N =
    take off (peek m p N) @ peek m s n @ drop (off + n) (peek m p N)"
proof (rule nth_equalityI)
  show "length (peek (memcpy_loop m (p + of_nat off) s n) p N) =
      length (take off (peek m p N) @ peek m s n @ drop (off + n) (peek m p N))"
    using assms(2) by simp
  fix i assume "i < length (peek (memcpy_loop m (p + of_nat off) s n) p N)"
  then have i: "i < N" by simp
  have d: "n \<noteq> 0 \<Longrightarrow> unat (p + of_nat off) = unat p + off" using assms(1,2) by (intro unat_offset) auto
  consider "i < off" | "off \<le> i" "i < off + n" | "off + n \<le> i" by linarith
  then show "peek (memcpy_loop m (p + of_nat off) s n) p N ! i =
      (take off (peek m p N) @ peek m s n @ drop (off + n) (peek m p N)) ! i"
  proof cases
    case 2
    then have n: "n \<noteq> 0" by auto
    have "separate (p + of_nat off) n s n"
      using assms(2,3) d [OF n] by (auto simp: separate_def)
    then have "memcpy_loop m (p + of_nat off) s n ((p + of_nat off) + of_nat (i - off)) = m (s + of_nat (i - off))"
      using 2 d [OF n] assms(1,2,4) by (intro memcpy_inside) auto
    moreover have "(p + of_nat off) + of_nat (i - off) = p + of_nat i" using 2(1) by (simp add: of_nat_diff)
    moreover have "i - off < n" using 2 by linarith
    ultimately show ?thesis using 2 i assms(2) by (simp add: nth_append)
  next
    case 1
    have "memcpy_loop m (p + of_nat off) s n (p + of_nat i) = m (p + of_nat i)"
    proof (cases "n = 0")
      case False
      then show ?thesis
        using 1 d assms(1,2) i by (intro memcpy_other) (auto simp: unat_offset)
    qed simp
    then show ?thesis using 1 i assms(2) by (simp add: nth_append)
  next
    case 3
    have "memcpy_loop m (p + of_nat off) s n (p + of_nat i) = m (p + of_nat i)"
    proof (cases "n = 0")
      case False
      then show ?thesis
        using 3 d assms(1,2) i by (intro memcpy_other) (auto simp: unat_offset)
    qed simp
    moreover have "\<not> i - off < n" using 3 by linarith
    ultimately show ?thesis using 3 i assms(2) by (auto simp: nth_append)
  qed
qed

lemma peek_memset_part:
  assumes "unat p + N \<le> 2 ^ 32" and "off + n \<le> N"
  shows "peek (memset_loop m (p + of_nat off) v n) p N =
    take off (peek m p N) @ replicate n v @ drop (off + n) (peek m p N)"
proof (rule nth_equalityI)
  show "length (peek (memset_loop m (p + of_nat off) v n) p N) =
      length (take off (peek m p N) @ replicate n v @ drop (off + n) (peek m p N))"
    using assms(2) by simp
  fix i assume "i < length (peek (memset_loop m (p + of_nat off) v n) p N)"
  then have i: "i < N" by simp
  have d: "n \<noteq> 0 \<Longrightarrow> unat (p + of_nat off) = unat p + off" using assms(1,2) by (intro unat_offset) auto
  have "memset_loop m (p + of_nat off) v n (p + of_nat i) =
      (if off \<le> i \<and> i < off + n then v else m (p + of_nat i))"
  proof (cases "off \<le> i \<and> i < off + n")
    case True
    then have n: "n \<noteq> 0" by auto
    have "memset_loop m (p + of_nat off) v n ((p + of_nat off) + of_nat (i - off)) = v"
      using True d [OF n] assms by (intro memset_inside) auto
    moreover have "(p + of_nat off) + of_nat (i - off) = p + of_nat i" using True by (simp add: of_nat_diff)
    ultimately show ?thesis using True by simp
  next
    case False
    show ?thesis
    proof (cases "n = 0")
      case n: False
      then have "memset_loop m (p + of_nat off) v n (p + of_nat i) = m (p + of_nat i)"
        using False d assms i by (intro memset_other) (auto simp: unat_offset)
      then show ?thesis using False by auto
    next
      case True
      then show ?thesis using False by auto
    qed
  qed
  then show "peek (memset_loop m (p + of_nat off) v n) p N ! i =
      (take off (peek m p N) @ replicate n v @ drop (off + n) (peek m p N)) ! i"
    using i assms(2) by (auto simp: nth_append min_def)
qed

lemma take_peek: "n \<le> N \<Longrightarrow> take n (peek m p N) = peek m p n"
  by (simp add: peek_def take_map)

lemma drop_peek: "drop k (peek m p N) = peek m (p + of_nat k) (N - k)"
  by (rule nth_equalityI) (simp_all add: add.assoc)

section \<open>The contract of blocks that have room\<close>

locale block_allocator = memory_allocator inv live alloc release
  for inv :: "'s \<Rightarrow> bool" and live alloc release +
  fixes room :: "'s \<Rightarrow> u32 \<Rightarrow> nat"
  assumes room_alloc: "inv s \<Longrightarrow> alloc n s = (s', p) \<Longrightarrow> p \<noteq> 0 \<Longrightarrow>
      unat n \<le> room s' p \<and> (\<forall>q\<in>live s. room s' q = room s q)"
    and room_release: "inv s \<Longrightarrow> p \<in> live s \<Longrightarrow> release p s = Some s' \<Longrightarrow> q \<in> live s \<Longrightarrow> q \<noteq> p \<Longrightarrow>
      room s' q = room s q"
    and room_window: "inv s \<Longrightarrow> p \<in> live s \<Longrightarrow>
      unat KERNEL_SPACE_START \<le> unat p \<and> unat p + room s p \<le> unat KERNEL_HEAP_END"
    and room_separate: "inv s \<Longrightarrow> p \<in> live s \<Longrightarrow> q \<in> live s \<Longrightarrow> p \<noteq> q \<Longrightarrow> separate p (room s p) q (room s q)"
begin

lemma block_bound: "inv s \<Longrightarrow> p \<in> live s \<Longrightarrow> n \<le> room s p \<Longrightarrow> unat p + n \<le> 2 ^ 32"
  using room_window [of s p] by simp

text \<open>Copying into a block leaves the bytes of every other block, and of user memory, as they are.\<close>

lemma copy_keeps_block:
  assumes "inv s" and "p \<in> live s" and "q \<in> live s" and "p \<noteq> q"
    and "off + n \<le> room s p" and "k \<le> room s q"
  shows "peek (memcpy_loop m (p + of_nat off) src n) q k = peek m q k"
    and "peek (memset_loop m (p + of_nat off) v n) q k = peek m q k"
proof -
  have p: "unat p + (off + n) \<le> 2 ^ 32" using block_bound [OF assms(1,2,5)] .
  have q: "unat q + k \<le> 2 ^ 32" using block_bound [OF assms(1,3,6)] .
  have "peek (memcpy_loop m (p + of_nat off) src n) q k = peek m q k \<and>
      peek (memset_loop m (p + of_nat off) v n) q k = peek m q k"
  proof (cases "n = 0")
    case False
    then have d: "unat (p + of_nat off) = unat p + off" using p by (intro unat_offset) auto
    have "separate (p + of_nat off) n q k"
      using room_separate [OF assms(1-4)] assms(5,6) by (auto simp: separate_def d)
    then show ?thesis using peek_memcpy_other peek_memset_other d p q by auto
  qed simp
  then show "peek (memcpy_loop m (p + of_nat off) src n) q k = peek m q k"
    and "peek (memset_loop m (p + of_nat off) v n) q k = peek m q k" by simp_all
qed

lemma user_separate:
  "inv s \<Longrightarrow> p \<in> live s \<Longrightarrow> unat b + n \<le> unat KERNEL_SPACE_START \<Longrightarrow> separate p k b n"
  using room_window [of s p] by (simp add: separate_def)

end

definition heap_room :: "heap_state \<Rightarrow> u32 \<Rightarrow> nat" where
  "heap_room h p = unat (hdr_size h (p - HEADER_BYTES)) - 8"

lemma heap_room_block:
  "heap_inv h \<Longrightarrow> ds \<in> allocated h \<Longrightarrow> heap_room h (block_addr ds + 8) = block_bytes ds - 8"
  by (simp add: heap_room_def heap_inv_def)

lemma live_block:
  assumes "p \<in> live_pointers h"
  obtains ds where "p = block_addr ds + 8" and "ds \<in> allocated h"
  using assms by (auto simp: live_pointers_def)

lemma unat_block_pointer:
  assumes "length ds \<le> MAX_ORDER" shows "unat (block_addr ds + 8) = 3489660936 + block_offset ds"
proof -
  have "block_offset ds < 134217728" using block_bounds [OF assms] block_bytes_pos [of ds] by linarith
  then show ?thesis using unat_block_addr [OF assms] by (simp add: unat_word_ariths)
qed

interpretation hblocks: block_allocator heap_inv live_pointers kmalloc kfree heap_room
proof
  fix s n s' p assume a: "heap_inv s" "kmalloc n s = (s', p)" "p \<noteq> 0"
  obtain ds where ds: "p = block_addr ds + 8" "ds \<notin> allocated s" "heap_inv s'"
    "allocated s' = insert ds (allocated s)" "unat n + 8 \<le> block_bytes ds"
    using kmalloc_some [OF a] by metis
  have "heap_room s' p = block_bytes ds - 8" using heap_room_block [OF ds(3)] ds(1,4) by simp
  moreover have "heap_room s' q = heap_room s q" if "q \<in> live_pointers s" for q
    using that heap_room_block [OF a(1)] heap_room_block [OF ds(3)] ds(4) by (auto elim!: live_block)
  ultimately show "unat n \<le> heap_room s' p \<and> (\<forall>q\<in>live_pointers s. heap_room s' q = heap_room s q)"
    using ds(5) by simp
next
  fix s p s' q assume a: "heap_inv s" "p \<in> live_pointers s" "kfree p s = Some s'" "q \<in> live_pointers s" "q \<noteq> p"
  obtain ds es where ds: "p = block_addr ds + 8" "ds \<in> allocated s" "q = block_addr es + 8" "es \<in> allocated s"
    using a(2,4) by (auto elim!: live_block)
  obtain h' where "kfree p s = Some h'" "heap_inv h'" "allocated h' = allocated s - {ds}"
    using kfree_spec [OF a(1) ds(2)] ds(1) by metis
  moreover have "es \<noteq> ds" using a(5) ds by auto
  ultimately show "heap_room s' q = heap_room s q"
    using a(1,3) ds heap_room_block by auto
next
  fix s p assume a: "heap_inv s" "p \<in> live_pointers s"
  then obtain ds where ds: "p = block_addr ds + 8" "ds \<in> allocated s" by (auto elim!: live_block)
  then have l: "length ds \<le> MAX_ORDER" by (simp add: allocated_def)
  have "8 \<le> block_bytes ds" by (simp add: block_bytes_def)
  then show "unat KERNEL_SPACE_START \<le> unat p \<and> unat p + heap_room s p \<le> unat KERNEL_HEAP_END"
    using heap_room_block [OF a(1) ds(2)] unat_block_pointer [OF l] block_bounds [OF l] block_bytes_pos [of ds]
    by (simp add: ds(1))
next
  fix s p q assume a: "heap_inv s" "p \<in> live_pointers s" "q \<in> live_pointers s" "p \<noteq> q"
  obtain ds es where ds: "p = block_addr ds + 8" "ds \<in> allocated s" "q = block_addr es + 8" "es \<in> allocated s"
    using a(2,3) by (auto elim!: live_block)
  have ne: "ds \<noteq> es" using a(4) ds by auto
  have l: "length ds \<le> MAX_ORDER" "length es \<le> MAX_ORDER" using ds by (auto simp: allocated_def)
  show "separate p (heap_room s p) q (heap_room s q)"
    using allocated_disjoint [OF a(1) ds(2,4) ne] unat_block_pointer [OF l(1)] unat_block_pointer [OF l(2)]
      heap_room_block [OF a(1) ds(2)] heap_room_block [OF a(1) ds(4)]
    by (auto simp: separate_def ds)
qed

end
