(* ===== verification/Tmpfs_Spec.thy ===== *)
theory Tmpfs_Spec
  imports Vfs Blocks
begin

text \<open>
  Files in memory as lists of bytes: writing and reading through \<open>tmpfs\<close> and through descriptors
  refines overwriting and slicing a list. The files' buffers are blocks of the kernel heap, so the proofs
  rest on the contract of the heap's blocks.
\<close>

unbundle bit_operations_syntax

section \<open>Contents as a list of bytes\<close>

definition overwrite :: "u8 list \<Rightarrow> nat \<Rightarrow> u8 list \<Rightarrow> u8 list" where
  "overwrite old off new =
     take off (old @ replicate (off - length old) 0) @ new @ drop (off + length new) old"

lemma length_overwrite [simp]: "length (overwrite old off new) = max (length old) (off + length new)"
  by (simp add: overwrite_def)

lemma overwrite_read: "take (length new) (drop off (overwrite old off new)) = new"
  by (simp add: overwrite_def)

lemma peek_overwrite:
  fixes m :: mem
  assumes "unat p + N \<le> 2 ^ 32" and "k \<le> N" and "off + n \<le> N"
    and "separate p N b n" and "unat b + n \<le> 2 ^ 32"
  defines "m1 \<equiv> if k < off then memset_loop m (p + of_nat k) 0 (off - k) else m"
  shows "peek (memcpy_loop m1 (p + of_nat off) b n) p (max k (off + n)) =
    overwrite (peek m p k) off (peek m b n)"
proof -
  let ?L = "peek m p N" and ?B = "peek m b n"
  have pk: "peek m p k = take k ?L" using assms(2) by (simp add: take_peek)
  have L1: "peek m1 p N = (if k < off then take k ?L @ replicate (off - k) 0 @ drop off ?L else ?L)"
    using peek_memset_part [OF assms(1), of k "off - k" m 0] assms(3) by (simp add: m1_def)
  have B: "peek m1 b n = ?B"
  proof (cases "k < off")
    case True
    then have u: "unat (p + of_nat k) = unat p + k" using assms(1,3) by (intro unat_offset) auto
    have "separate (p + of_nat k) (off - k) b n"
      using assms(3,4) True by (auto simp: separate_def u)
    moreover have "unat (p + of_nat k) + (off - k) \<le> 2 ^ 32" using u assms(1,3) True by simp
    ultimately show ?thesis using True assms(5) peek_memset_other by (simp add: m1_def)
  qed (simp add: m1_def)
  have le: "max k (off + n) \<le> N" using assms(2,3) by simp
  have "peek (memcpy_loop m1 (p + of_nat off) b n) p (max k (off + n)) =
      take (max k (off + n)) (take off (peek m1 p N) @ ?B @ drop (off + n) (peek m1 p N))"
    using peek_memcpy_part [OF assms(1,3,4,5), of m1] B take_peek [OF le, symmetric] by simp
  also have "\<dots> = overwrite (take k ?L) off ?B"
  proof (cases "k < off")
    case True
    then show ?thesis using assms(2,3) by (auto simp: L1 overwrite_def min_def max_def)
  next
    case False
    then have "take (max k (off + n)) (take off ?L @ ?B @ drop (off + n) ?L) =
        take off ?L @ ?B @ take (max k (off + n) - (off + n)) (drop (off + n) ?L)"
      using assms(2,3) by simp
    also have "take (max k (off + n) - (off + n)) (drop (off + n) ?L) = drop (off + n) (take k ?L)"
    proof -
      have "max k (off + n) - (off + n) = k - (off + n)" by (simp add: max_def)
      then show ?thesis by (simp add: drop_take)
    qed
    finally show ?thesis using False assms(2,3) by (simp add: L1 overwrite_def min_def)
  qed
  finally show ?thesis by (simp add: pk)
qed

lemma take_peek_min: "take k (peek m p N) = peek m p (min k N)"
  by (cases "k \<le> N") (simp_all add: take_peek min_def)

lemma double_until_bounds:
  "unat n \<le> 2 ^ 20 \<Longrightarrow> unat c \<le> 2 ^ 21 \<Longrightarrow> unat n \<le> unat c * 2 ^ k \<Longrightarrow>
   n \<le> double_until k c n \<and> unat (double_until k c n) \<le> 2 ^ 21"
proof (induction k arbitrary: c)
  case 0
  then show ?case by (simp add: word_le_nat_alt)
next
  case (Suc k)
  show ?case
  proof (cases "c < n")
    case True
    then have "unat c < 2 ^ 20" using Suc.prems(1) by (simp add: word_less_nat_alt)
    then have "unat (push_bit 1 c) = 2 * unat c"
      by (simp add: push_bit_eq_mult unat_word_ariths mult.commute)
    then show ?thesis
      using Suc.IH [of "push_bit 1 c"] Suc.prems True \<open>unat c < 2 ^ 20\<close> by (simp add: mult.assoc mult.left_commute)
  next
    case False
    then show ?thesis using Suc.prems by simp
  qed
qed

lemma grown_capacity_bounds:
  assumes "n \<le> TMPFS_MAX_FILE_SIZE"
  shows "n \<le> grown_capacity n" and "grown_capacity n \<le> TMPFS_MAX_FILE_SIZE"
proof -
  have "n \<le> (if n < 1048576 then double_until 32 1 n else n + n div 4)"
  proof (cases "n < 1048576")
    case True
    then show ?thesis using double_until_bounds [of n 1 32] by (simp add: word_less_nat_alt)
  next
    case False
    have "unat (n + n div 4) = unat n + unat n div 4"
      using assms by (simp add: unat_word_ariths unat_div word_le_nat_alt)
    then show ?thesis using False by (simp add: word_le_nat_alt)
  qed
  then show "n \<le> grown_capacity n" using assms by (simp add: grown_capacity_def Let_def)
  show "grown_capacity n \<le> TMPFS_MAX_FILE_SIZE" by (auto simp: grown_capacity_def Let_def)
qed


section \<open>The invariant of the files\<close>

definition contents :: "fs_state \<Rightarrow> u32 \<Rightarrow> u8 list" where
  "contents s fp = peek (kmem s) (t_data (tmpfs_files s fp)) (unat (t_size (tmpfs_files s fp)))"

definition file_ok :: "heap_state \<Rightarrow> tmpfs_file \<Rightarrow> bool" where
  "file_ok h f \<longleftrightarrow> t_size f \<le> t_capacity f \<and> t_capacity f \<le> TMPFS_MAX_FILE_SIZE \<and>
     (if t_data f = 0 then t_capacity f = 0
      else t_data f \<in> live_pointers h \<and> unat (t_capacity f) \<le> heap_room h (t_data f))"

text \<open>
  \<open>F\<close> is the set of the addresses of the file objects. Each file's buffer is a live heap block with
  room for its capacity, and no two files have the same buffer.
\<close>

definition tmpfs_ok :: "u32 set \<Rightarrow> fs_state \<Rightarrow> bool" where
  "tmpfs_ok F s \<longleftrightarrow> heap_inv (fs_heap s) \<and> (\<forall>fp\<in>F. file_ok (fs_heap s) (tmpfs_files s fp)) \<and>
     (\<forall>p\<in>F. \<forall>q\<in>F. p \<noteq> q \<longrightarrow> t_data (tmpfs_files s p) \<noteq> 0 \<longrightarrow> t_data (tmpfs_files s p) \<noteq> t_data (tmpfs_files s q))"

definition user_memory_same :: "fs_state \<Rightarrow> fs_state \<Rightarrow> bool" where
  "user_memory_same s s' \<longleftrightarrow> (\<forall>a < KERNEL_SPACE_START. kmem s' a = kmem s a)"

lemma peek_user_same:
  assumes "user_memory_same s s'" and "unat b + n \<le> unat KERNEL_SPACE_START"
  shows "peek (kmem s') b n = peek (kmem s) b n"
proof (rule nth_equalityI)
  fix i assume "i < length (peek (kmem s') b n)"
  then have i: "i < n" by simp
  then have "unat (b + of_nat i) = unat b + i" using assms(2) by (intro unat_offset) simp
  then have "b + of_nat i < KERNEL_SPACE_START" using i assms(2) by (simp add: word_less_nat_alt)
  then show "peek (kmem s') b n ! i = peek (kmem s) b n ! i"
    using assms(1) i by (simp add: user_memory_same_def)
qed simp

lemma copy_user_same:
  assumes "heap_inv h" and "p \<in> live_pointers h" and "off + n \<le> heap_room h p" and "a < KERNEL_SPACE_START"
  shows "memcpy_loop m (p + of_nat off) src n a = m a" and "memset_loop m (p + of_nat off) v n a = m a"
proof -
  have w: "unat KERNEL_SPACE_START \<le> unat p" "unat p + heap_room h p \<le> unat KERNEL_HEAP_END"
    using hblocks.room_window [OF assms(1,2)] by auto
  have "memcpy_loop m (p + of_nat off) src n a = m a \<and> memset_loop m (p + of_nat off) v n a = m a"
  proof (cases "n = 0")
    case False
    then have "unat (p + of_nat off) = unat p + off" using w assms(3) by (intro unat_offset) simp
    then show ?thesis
      using w assms(3,4) by (intro conjI memcpy_other memset_other) (auto simp: word_less_nat_alt)
  qed simp
  then show "memcpy_loop m (p + of_nat off) src n a = m a" and "memset_loop m (p + of_nat off) v n a = m a"
    by simp_all
qed

lemma file_okD:
  assumes "tmpfs_ok F s" and "fp \<in> F"
  shows "t_size (tmpfs_files s fp) \<le> t_capacity (tmpfs_files s fp)"
    and "t_capacity (tmpfs_files s fp) \<le> TMPFS_MAX_FILE_SIZE"
    and "t_data (tmpfs_files s fp) = 0 \<Longrightarrow> t_capacity (tmpfs_files s fp) = 0"
    and "t_data (tmpfs_files s fp) \<noteq> 0 \<Longrightarrow> t_data (tmpfs_files s fp) \<in> live_pointers (fs_heap s) \<and>
      unat (t_capacity (tmpfs_files s fp)) \<le> heap_room (fs_heap s) (t_data (tmpfs_files s fp))"
  using assms by (auto simp: tmpfs_ok_def file_ok_def split: if_splits)

lemma size_room:
  assumes "tmpfs_ok F s" and "fp \<in> F" and "t_data (tmpfs_files s fp) \<noteq> 0"
  shows "unat (t_size (tmpfs_files s fp)) \<le> heap_room (fs_heap s) (t_data (tmpfs_files s fp))"
  using file_okD [OF assms(1,2)] assms(3) by (auto simp: word_le_nat_alt)

lemma empty_file: "tmpfs_ok F s \<Longrightarrow> fp \<in> F \<Longrightarrow> t_data (tmpfs_files s fp) = 0 \<Longrightarrow> t_size (tmpfs_files s fp) = 0"
  using file_okD [of F s fp] by auto

text \<open>Copying into a live block that is not a file's buffer keeps the file's contents.\<close>

lemma contents_kept:
  assumes "tmpfs_ok F s" and "q \<in> F" and "heap_inv (fs_heap s)" and "p \<in> live_pointers (fs_heap s)"
    and "off + n \<le> heap_room (fs_heap s) p" and "t_data (tmpfs_files s q) \<noteq> p"
  shows "peek (memcpy_loop m (p + of_nat off) src n) (t_data (tmpfs_files s q)) (unat (t_size (tmpfs_files s q))) =
      peek m (t_data (tmpfs_files s q)) (unat (t_size (tmpfs_files s q)))"
    and "peek (memset_loop m (p + of_nat off) v n) (t_data (tmpfs_files s q)) (unat (t_size (tmpfs_files s q))) =
      peek m (t_data (tmpfs_files s q)) (unat (t_size (tmpfs_files s q)))"
proof -
  let ?f = "tmpfs_files s q"
  have "peek (memcpy_loop m (p + of_nat off) src n) (t_data ?f) (unat (t_size ?f)) = peek m (t_data ?f) (unat (t_size ?f)) \<and>
      peek (memset_loop m (p + of_nat off) v n) (t_data ?f) (unat (t_size ?f)) = peek m (t_data ?f) (unat (t_size ?f))"
  proof (cases "t_data ?f = 0")
    case True
    then show ?thesis using empty_file [OF assms(1,2)] by (simp add: peek_def)
  next
    case False
    then show ?thesis
      using hblocks.copy_keeps_block [OF assms(3,4) _ assms(6) [symmetric] assms(5) size_room [OF assms(1,2) False]]
        file_okD(4) [OF assms(1,2) False] by blast
  qed
  then show "peek (memcpy_loop m (p + of_nat off) src n) (t_data ?f) (unat (t_size ?f)) =
      peek m (t_data ?f) (unat (t_size ?f))"
    and "peek (memset_loop m (p + of_nat off) v n) (t_data ?f) (unat (t_size ?f)) =
      peek m (t_data ?f) (unat (t_size ?f))" by simp_all
qed


section \<open>Growing\<close>

lemma tmpfs_grow_same: "new_size \<le> t_capacity (tmpfs_files s fp) \<Longrightarrow> tmpfs_grow fp new_size s = Some (0, s)"
  by (simp add: tmpfs_grow_def Let_def leD)

lemma tmpfs_ok_alloc:
  assumes "tmpfs_ok F s" and "kmalloc n (fs_heap s) = (h, p)"
  shows "tmpfs_ok F (s\<lparr>fs_heap := h\<rparr>)"
proof (cases "p = 0")
  case True
  then show ?thesis using assms heap.alloc_null [of "fs_heap s" n h] by (auto simp: tmpfs_ok_def)
next
  case False
  have "heap_inv (fs_heap s)" using assms(1) by (simp add: tmpfs_ok_def)
  then show ?thesis
    using assms heap.alloc_live [of "fs_heap s" n h p] hblocks.room_alloc [of "fs_heap s" n h p] False
    by (auto simp: tmpfs_ok_def file_ok_def)
qed

lemma fresh_file_buffer:
  assumes "tmpfs_ok F s" and "fp \<in> F" and "new_data \<noteq> 0" and "new_data \<notin> live_pointers (fs_heap s)"
    and "unat cap \<le> heap_room h new_data" and "cap \<le> TMPFS_MAX_FILE_SIZE" and "t_size (tmpfs_files s fp) \<le> cap"
    and "heap_inv h"
    and "live_pointers h = insert new_data (live_pointers (fs_heap s)) - {t_data (tmpfs_files s fp)}"
    and "\<forall>q\<in>live_pointers (fs_heap s). q \<noteq> t_data (tmpfs_files s fp) \<longrightarrow> heap_room h q = heap_room (fs_heap s) q"
  shows "tmpfs_ok F (on_file_data fp (\<lambda>f. f\<lparr>t_data := new_data, t_capacity := cap\<rparr>) (s\<lparr>kmem := m, fs_heap := h\<rparr>))"
proof -
  let ?f = "tmpfs_files s fp"
  have d: "new_data \<noteq> t_data ?f"
    using file_okD(4) [OF assms(1,2)] assms(3,4) by auto
  have old: "file_ok h (tmpfs_files s q)" if q: "q \<in> F" "q \<noteq> fp" for q
  proof (cases "t_data (tmpfs_files s q) = 0")
    case True
    then show ?thesis using file_okD [OF assms(1) q(1)] by (simp add: file_ok_def)
  next
    case False
    then have ne: "t_data (tmpfs_files s q) \<noteq> t_data ?f" using assms(1,2) q by (auto simp: tmpfs_ok_def)
    then show ?thesis
      using file_okD [OF assms(1) q(1)] False assms(9,10) by (auto simp: file_ok_def)
  qed
  moreover have "file_ok h (?f\<lparr>t_data := new_data, t_capacity := cap\<rparr>)"
    using assms(3,5,6,7,9) d by (simp add: file_ok_def)
  moreover have "t_data (tmpfs_files s q) \<noteq> new_data" if "q \<in> F" for q
    using file_okD(4) [OF assms(1) that] assms(3,4) by auto
  ultimately show ?thesis
    using assms(1,8) by (auto simp: tmpfs_ok_def on_file_data_def)
qed

lemma tmpfs_grow_spec:
  assumes ok: "tmpfs_ok F s" and fp: "fp \<in> F" and n: "new_size \<le> TMPFS_MAX_FILE_SIZE"
  shows "tmpfs_grow fp new_size s = Some (- ENOMEM, s) \<or>
    (\<exists>s'. tmpfs_grow fp new_size s = Some (0, s') \<and> tmpfs_ok F s' \<and>
       new_size \<le> t_capacity (tmpfs_files s' fp) \<and> t_size (tmpfs_files s' fp) = t_size (tmpfs_files s fp) \<and>
       (\<forall>q\<in>F. contents s' q = contents s q) \<and> user_memory_same s s' \<and>
       (\<forall>q. q \<noteq> fp \<longrightarrow> tmpfs_files s' q = tmpfs_files s q) \<and>
       (\<exists>h m t. s' = s\<lparr>fs_heap := h, kmem := m, tmpfs_files := t\<rparr>))"
proof (cases "new_size \<le> t_capacity (tmpfs_files s fp)")
  case True
  have "s = s\<lparr>fs_heap := fs_heap s, kmem := kmem s, tmpfs_files := tmpfs_files s\<rparr>" by simp
  then have "\<exists>h m t. s = s\<lparr>fs_heap := h, kmem := m, tmpfs_files := t\<rparr>" by blast
  then show ?thesis using True ok tmpfs_grow_same [OF True] by (auto simp: user_memory_same_def)
next
  case False
  let ?f = "tmpfs_files s fp" and ?c = "grown_capacity new_size"
  have hi: "heap_inv (fs_heap s)" using ok by (simp add: tmpfs_ok_def)
  obtain h1 p where k: "kmalloc ?c (fs_heap s) = (h1, p)" by fastforce
  show ?thesis
  proof (cases "p = 0")
    case True
    then have "h1 = fs_heap s" using heap.alloc_null [OF hi] k by auto
    then have "tmpfs_grow fp new_size s = Some (- ENOMEM, s)"
      using False k True by (simp add: tmpfs_grow_def fs_kmalloc_def Let_def)
    then show ?thesis ..
  next
    case p0: False
    note live1 = heap.alloc_live [OF hi k p0] and room1 = hblocks.room_alloc [OF hi k p0]
    let ?copy = "t_data ?f \<noteq> 0 \<and> t_size ?f > 0"
    let ?m = "if ?copy then k_memcpy (kmem s) p (t_data ?f) (t_size ?f) else kmem s"
    have cap: "unat (t_size ?f) \<le> unat ?c"
      using file_okD(1) [OF ok fp] False grown_capacity_bounds(1) [OF n] by (auto simp: word_le_nat_alt)
    obtain h2 where h2: "(if t_data ?f \<noteq> 0 then kfree (t_data ?f) h1 else Some h1) = Some h2"
      "heap_inv h2" "live_pointers h2 = live_pointers h1 - {t_data ?f}"
      "\<forall>q\<in>live_pointers h1. q \<noteq> t_data ?f \<longrightarrow> heap_room h2 q = heap_room h1 q"
    proof (cases "t_data ?f = 0")
      case True
      then show thesis using that [of h1] live1 heap.live_nonnull [of h1] by auto
    next
      case nz: False
      then have l: "t_data ?f \<in> live_pointers h1" using live1 file_okD(4) [OF ok fp] by auto
      then obtain h2 where "kfree (t_data ?f) h1 = Some h2" "heap_inv h2"
        "live_pointers h2 = live_pointers h1 - {t_data ?f}" using heap.release_live live1 by blast
      then show thesis using that [of h2] nz hblocks.room_release [of h1 "t_data ?f" h2] live1 l by auto
    qed
    let ?s' = "on_file_data fp (\<lambda>f. f\<lparr>t_data := p, t_capacity := ?c\<rparr>) (s\<lparr>kmem := ?m, fs_heap := h2\<rparr>)"
    have g: "tmpfs_grow fp new_size s = Some (0, ?s')"
      using False k p0 h2(1)
      by (auto simp: tmpfs_grow_def fs_kmalloc_def fs_kfree_def on_file_data_def Let_def split: if_splits)
    have ne: "p \<noteq> t_data ?f" using live1 file_okD(4) [OF ok fp] p0 by auto
    have "heap_room h2 p = heap_room h1 p" using h2(4) live1 ne by simp
    then have ok': "tmpfs_ok F ?s'"
      using live1 room1 h2 ne cap grown_capacity_bounds [OF n]
      by (intro fresh_file_buffer [OF ok fp p0]) (auto simp: word_le_nat_alt)
    have room: "unat (t_size ?f) \<le> heap_room h1 p" using cap room1 by simp
    have ok1: "tmpfs_ok F (s\<lparr>fs_heap := h1\<rparr>)" by (rule tmpfs_ok_alloc [OF ok k])
    have cs: "contents ?s' q = contents s q" if q: "q \<in> F" for q
    proof (cases "q = fp")
      case True
      show ?thesis
      proof (cases ?copy)
        case c: True
        then have l: "t_data ?f \<in> live_pointers h1" using live1 file_okD(4) [OF ok fp] by auto
        have "separate p (heap_room h1 p) (t_data ?f) (heap_room h1 (t_data ?f))"
          using hblocks.room_separate [OF _ _ l ne] live1 by auto
        moreover have r: "unat (t_size ?f) \<le> heap_room h1 (t_data ?f)" using size_room [OF ok1 fp] c by simp
        ultimately have "separate p (unat (t_size ?f)) (t_data ?f) (unat (t_size ?f))"
          using room separate_sub by blast
        moreover have "unat p + unat (t_size ?f) \<le> 2 ^ 32" using hblocks.block_bound live1 room by auto
        moreover have "unat (t_data ?f) + unat (t_size ?f) \<le> 2 ^ 32" using hblocks.block_bound live1 l r by auto
        ultimately have "peek (memcpy_loop (kmem s) p (t_data ?f) (unat (t_size ?f))) p (unat (t_size ?f)) =
            peek (kmem s) (t_data ?f) (unat (t_size ?f))" by (intro peek_memcpy_same)
        then show ?thesis using True c by (simp add: contents_def on_file_data_def k_memcpy_def)
      next
        case c: False
        then have "t_size ?f = 0" using empty_file [OF ok fp] by (auto simp: word_gt_0)
        then show ?thesis using True by (simp add: contents_def on_file_data_def peek_def)
      qed
    next
      case False
      have "t_data (tmpfs_files s q) \<noteq> p" using live1 file_okD(4) [OF ok q] p0 by auto
      then show ?thesis
        using contents_kept(1) [OF ok1 q, of p 0 "unat (t_size ?f)"] live1 room False
        by (simp add: contents_def on_file_data_def k_memcpy_def)
    qed
    have "user_memory_same s ?s'"
      using copy_user_same(1) [of h1 p 0 "unat (t_size ?f)"] live1 room
      by (auto simp: user_memory_same_def on_file_data_def k_memcpy_def)
    moreover have "\<exists>h m t. ?s' = s\<lparr>fs_heap := h, kmem := m, tmpfs_files := t\<rparr>"
      by (intro exI [of _ h2] exI [of _ ?m] exI [of _ "tmpfs_files ?s'"], rule fs_state.equality)
        (simp_all add: on_file_data_def)
    ultimately show ?thesis
      using g ok' cs grown_capacity_bounds(1) [OF n] by (intro disjI2 exI [of _ ?s']) (simp add: on_file_data_def)
  qed
qed


section \<open>Writing and reading\<close>

lemma sint_small: "unat (n :: u32) < 2 ^ 31 \<Longrightarrow> sint n = int (unat n)"
proof -
  assume "unat n < 2 ^ 31"
  then have a: "unat n < 2147483648" by simp
  have "int (unat n) = uint n" by simp
  moreover from this have "uint n < 2147483648" using a by linarith
  ultimately show ?thesis by (simp add: sint_u32)
qed

text \<open>The bytes put into the buffer once it is large enough.\<close>

definition store_part :: "u32 \<Rightarrow> u32 \<Rightarrow> u32 \<Rightarrow> u32 \<Rightarrow> fs_state \<Rightarrow> mem" where
  "store_part fp off sz buf s =
     (let f = tmpfs_files s fp
      in k_memcpy (if off > t_size f then k_memset (kmem s) (t_data f + t_size f) 0 (off - t_size f) else kmem s)
           (t_data f + off) buf sz)"

lemma store_part_spec:
  assumes ok: "tmpfs_ok F s" and fp: "fp \<in> F" and fits: "unat off + unat sz \<le> unat (t_capacity (tmpfs_files s fp))"
    and buf: "unat buf + unat sz \<le> unat KERNEL_SPACE_START"
  shows "peek (store_part fp off sz buf s) (t_data (tmpfs_files s fp))
      (max (unat (t_size (tmpfs_files s fp))) (unat off + unat sz)) =
      overwrite (contents s fp) (unat off) (peek (kmem s) buf (unat sz))"
    and "q \<in> F \<Longrightarrow> q \<noteq> fp \<Longrightarrow> peek (store_part fp off sz buf s) (t_data (tmpfs_files s q))
      (unat (t_size (tmpfs_files s q))) = contents s q"
    and "a < KERNEL_SPACE_START \<Longrightarrow> store_part fp off sz buf s a = kmem s a"
proof -
  let ?f = "tmpfs_files s fp" and ?k = "unat (t_size (tmpfs_files s fp))"
  let ?m1 = "if ?k < unat off then memset_loop (kmem s) (t_data ?f + of_nat ?k) 0 (unat off - ?k) else kmem s"
  have m: "store_part fp off sz buf s = memcpy_loop ?m1 (t_data ?f + of_nat (unat off)) buf (unat sz)"
    by (simp add: store_part_def Let_def k_memcpy_def k_memset_def word_less_nat_alt unat_sub_if')
  have hi: "heap_inv (fs_heap s)" using ok by (simp add: tmpfs_ok_def)
  have kc: "?k \<le> unat (t_capacity ?f)" using file_okD(1) [OF ok fp] by (simp add: word_le_nat_alt)
  show "peek (store_part fp off sz buf s) (t_data ?f) (max ?k (unat off + unat sz)) =
      overwrite (contents s fp) (unat off) (peek (kmem s) buf (unat sz))"
  proof (cases "t_data ?f = 0")
    case True
    then have "t_capacity ?f = 0" by (rule file_okD(3) [OF ok fp])
    then show ?thesis using fits kc by (simp add: contents_def overwrite_def peek_def)
  next
    case False
    note l = file_okD(4) [OF ok fp False]
    let ?N = "heap_room (fs_heap s) (t_data ?f)"
    have "unat (t_data ?f) + ?N \<le> 2 ^ 32" using hblocks.block_bound [OF hi] l by auto
    moreover have "separate (t_data ?f) ?N buf (unat sz)" using hblocks.user_separate [OF hi _ buf] l by auto
    moreover have "?k \<le> ?N" "unat off + unat sz \<le> ?N" using kc fits l by auto
    moreover have "unat buf + unat sz \<le> 2 ^ 32" using buf by simp
    ultimately show ?thesis
      unfolding m contents_def using peek_overwrite [of "t_data ?f" ?N ?k "unat off" "unat sz" buf "kmem s"] by simp
  qed
  have zero: "t_data ?f = 0 \<Longrightarrow> store_part fp off sz buf s = kmem s"
    using file_okD(3) [OF ok fp] fits kc by (simp add: m)
  show "peek (store_part fp off sz buf s) (t_data (tmpfs_files s q)) (unat (t_size (tmpfs_files s q))) = contents s q"
    if q: "q \<in> F" "q \<noteq> fp"
  proof (cases "t_data ?f = 0")
    case False
    note l = file_okD(4) [OF ok fp False]
    have ne: "t_data (tmpfs_files s q) \<noteq> t_data ?f" using ok fp q False unfolding tmpfs_ok_def by metis
    have "unat off + unat sz \<le> heap_room (fs_heap s) (t_data ?f)"
      and "?k < unat off \<Longrightarrow> ?k + (unat off - ?k) \<le> heap_room (fs_heap s) (t_data ?f)"
      using fits l by auto
    then show ?thesis
      unfolding m contents_def using contents_kept(1) [OF ok q(1) hi, of "t_data ?f" "unat off" "unat sz"]
        contents_kept(2) [OF ok q(1) hi, of "t_data ?f" ?k "unat off - ?k"] l ne by auto
  qed (simp add: zero contents_def)
  show "store_part fp off sz buf s a = kmem s a" if a: "a < KERNEL_SPACE_START"
  proof (cases "t_data ?f = 0")
    case False
    note l = file_okD(4) [OF ok fp False]
    have "unat off + unat sz \<le> heap_room (fs_heap s) (t_data ?f)"
      and "?k < unat off \<Longrightarrow> ?k + (unat off - ?k) \<le> heap_room (fs_heap s) (t_data ?f)"
      using fits l by auto
    then show ?thesis unfolding m using copy_user_same(1) [OF hi _ _ a, of "t_data ?f" "unat off" "unat sz"]
        copy_user_same(2) [OF hi _ _ a, of "t_data ?f" ?k "unat off - ?k"] l by auto
  qed (simp add: zero)
qed


definition synced :: "fs_state \<Rightarrow> u32 \<Rightarrow> bool" where
  "synced s node \<longleftrightarrow> n_size (nodes s node) = t_size (tmpfs_files s (n_private (nodes s node)))"

lemma tmpfs_write_spec:
  assumes ok: "tmpfs_ok F s" and node: "n_private (nodes s node) \<in> F" "n_private (nodes s node) \<noteq> 0"
    and nowrap: "unat off + unat sz < 2 ^ 32" and buf: "unat buf + unat sz \<le> unat KERNEL_SPACE_START"
  shows "\<exists>ret s'. tmpfs_write node off sz buf s = Some (ret, s') \<and> tmpfs_ok F s' \<and> user_memory_same s s' \<and>
    (\<forall>q\<in>F. q \<noteq> n_private (nodes s node) \<longrightarrow> contents s' q = contents s q) \<and> files s' = files s \<and>
    (\<exists>z. nodes s' = (nodes s)(node := (nodes s node)\<lparr>n_size := z\<rparr>)) \<and> (synced s node \<longrightarrow> synced s' node) \<and>
    (if unat off + unat sz > 26214400 then ret = - ENOSPC \<and> s' = s
     else ret = - ENOMEM \<and> s' = s \<or>
       ret = int (unat sz) \<and>
       contents s' (n_private (nodes s node)) =
         overwrite (contents s (n_private (nodes s node))) (unat off) (peek (kmem s) buf (unat sz)))"
proof -
  let ?fp = "n_private (nodes s node)"
  have u: "unat (off + sz) = unat off + unat sz" using nowrap by (simp add: unat_word_ariths)
  have "nodes s = (nodes s)(node := (nodes s node)\<lparr>n_size := n_size (nodes s node)\<rparr>)" by simp
  then have same: "\<exists>z. nodes s = (nodes s)(node := (nodes s node)\<lparr>n_size := z\<rparr>)" by blast
  show ?thesis
  proof (cases "off + sz > TMPFS_MAX_FILE_SIZE")
    case True
    then show ?thesis
      using ok node(2) u same by (simp add: tmpfs_write_def Let_def word_less_nat_alt user_memory_same_def)
  next
    case False
    then have n: "off + sz \<le> TMPFS_MAX_FILE_SIZE" by simp
    have small: "\<not> unat off + unat sz > 26214400" using n u by (simp add: word_le_nat_alt)
    from tmpfs_grow_spec [OF ok node(1) n] show ?thesis
    proof (elim disjE exE conjE)
      assume "tmpfs_grow ?fp (off + sz) s = Some (- ENOMEM, s)"
      then show ?thesis
        using ok node(2) small False same by (simp add: tmpfs_write_def Let_def user_memory_same_def)
    next
      fix s1 h m t
      assume g: "tmpfs_grow ?fp (off + sz) s = Some (0, s1)" "tmpfs_ok F s1"
        "off + sz \<le> t_capacity (tmpfs_files s1 ?fp)" "t_size (tmpfs_files s1 ?fp) = t_size (tmpfs_files s ?fp)"
        "\<forall>q\<in>F. contents s1 q = contents s q" "user_memory_same s s1"
        "s1 = s\<lparr>fs_heap := h, kmem := m, tmpfs_files := t\<rparr>"
      have fits: "unat off + unat sz \<le> unat (t_capacity (tmpfs_files s1 ?fp))"
        using g(3) u by (simp add: word_le_nat_alt)
      let ?s2 = "s1\<lparr>kmem := store_part ?fp off sz buf s1\<rparr>"
      let ?s3 = "if off + sz > t_size (tmpfs_files s1 ?fp) then on_node node (\<lambda>n. n\<lparr>n_size := off + sz\<rparr>)
        (on_file_data ?fp (\<lambda>f. f\<lparr>t_size := off + sz\<rparr>) ?s2) else ?s2"
      have w: "tmpfs_write node off sz buf s = Some (sint sz, ?s3)"
        using g(1) node(2) False
        by (simp add: tmpfs_write_def store_part_def Let_def)
      have sint: "sint sz = int (unat sz)"
        using small by (intro sint_small) auto
      note sp = store_part_spec [OF g(2) node(1) fits buf]
      have ok3: "tmpfs_ok F ?s3"
        using g(2,3) by (auto simp: tmpfs_ok_def file_ok_def on_node_def on_file_data_def)
      have size3: "unat (t_size (tmpfs_files ?s3 ?fp)) = max (unat (t_size (tmpfs_files s1 ?fp))) (unat off + unat sz)"
        using u by (auto simp: on_node_def on_file_data_def word_less_nat_alt max_def)
      have eq3: "t_data (tmpfs_files ?s3 q) = t_data (tmpfs_files s1 q)"
        "q \<noteq> ?fp \<Longrightarrow> tmpfs_files ?s3 q = tmpfs_files s1 q" "kmem ?s3 = kmem ?s2" for q
        by (simp_all add: on_node_def on_file_data_def)
      have "contents ?s3 ?fp = overwrite (contents s1 ?fp) (unat off) (peek (kmem s1) buf (unat sz))"
        unfolding contents_def [of ?s3] size3 eq3 using sp(1) by simp
      then have c3: "contents ?s3 ?fp = overwrite (contents s ?fp) (unat off) (peek (kmem s) buf (unat sz))"
        using g(5) node(1) peek_user_same [OF g(6) buf] by simp
      have o3: "contents ?s3 q = contents s q" if "q \<in> F" "q \<noteq> ?fp" for q
        using sp(2) [OF that] g(5) that unfolding contents_def [of ?s3] eq3(1,3) eq3(2) [OF that(2)] by simp
      have "user_memory_same s ?s3"
        using g(6) sp(3) unfolding user_memory_same_def eq3(3) by simp
      moreover have "\<exists>z. nodes ?s3 = (nodes s)(node := (nodes s node)\<lparr>n_size := z\<rparr>)"
        using same g(7) by (auto simp: on_node_def on_file_data_def)
      moreover have "files ?s3 = files s" using g(7) by (auto simp: on_node_def on_file_data_def)
      moreover have "synced s node \<longrightarrow> synced ?s3 node"
        using g(4,7) by (auto simp: synced_def on_node_def on_file_data_def)
      ultimately show ?thesis
        using w ok3 c3 o3 small by (simp only: sint if_False) blast
    qed
  qed
qed


lemma tmpfs_read_spec:
  assumes ok: "tmpfs_ok F s" and node: "n_private (nodes s node) \<in> F" "n_private (nodes s node) \<noteq> 0"
    and nowrap: "unat off + unat sz < 2 ^ 32" and buf: "unat buf + unat sz \<le> unat KERNEL_SPACE_START"
  shows "\<exists>n s'. tmpfs_read node off sz buf s = (int n, s') \<and> tmpfs_ok F s' \<and>
    n = min (unat sz) (length (contents s (n_private (nodes s node))) - unat off) \<and>
    peek (kmem s') buf n = take (unat sz) (drop (unat off) (contents s (n_private (nodes s node)))) \<and>
    (\<forall>q\<in>F. contents s' q = contents s q) \<and>
    (\<forall>a. a < buf \<or> unat buf + n \<le> unat a \<longrightarrow> kmem s' a = kmem s a)"
proof -
  let ?fp = "n_private (nodes s node)"
  let ?f = "tmpfs_files s ?fp"
  show ?thesis
  proof (cases "t_data ?f = 0 \<or> off \<ge> t_size ?f")
    case True
    then have z: "unat (t_size ?f) \<le> unat off"
      using empty_file [OF ok node(1)] by (auto simp: word_le_nat_alt)
    have "tmpfs_read node off sz buf s = (0, s)"
      using True node(2) by (auto simp: tmpfs_read_def Let_def)
    then show ?thesis using ok z by (intro exI [of _ 0] exI [of _ s]) (simp add: contents_def peek_def)
  next
    case False
    then have nz: "t_data ?f \<noteq> 0" and lt: "unat off < unat (t_size ?f)" by (auto simp: word_le_nat_alt)
    let ?sz = "if off + sz > t_size ?f then t_size ?f - off else sz"
    have u: "unat (off + sz) = unat off + unat sz" using nowrap by (simp add: unat_word_ariths)
    have n: "unat ?sz = min (unat sz) (unat (t_size ?f) - unat off)"
      using u lt by (auto simp: word_less_nat_alt unat_sub_if')
    have small: "unat (t_size ?f) \<le> 26214400"
      using file_okD(1,2) [OF ok node(1)] by (simp add: word_le_nat_alt)
    have r: "tmpfs_read node off sz buf s = (int (unat ?sz), s\<lparr>kmem := k_memcpy (kmem s) buf (t_data ?f + off) ?sz\<rparr>)"
      using False node(2) small n sint_small [of ?sz] by (simp only: tmpfs_read_def Let_def) auto
    have hi: "heap_inv (fs_heap s)" using ok by (simp add: tmpfs_ok_def)
    let ?n = "unat ?sz" and ?s' = "s\<lparr>kmem := k_memcpy (kmem s) buf (t_data ?f + off) ?sz\<rparr>"
    note l = file_okD(4) [OF ok node(1) nz]
    have room: "unat off + ?n \<le> heap_room (fs_heap s) (t_data ?f)"
      using size_room [OF ok node(1) nz] lt n by linarith
    have b: "unat buf + ?n \<le> unat KERNEL_SPACE_START" using buf n by linarith
    have bb: "unat buf + ?n \<le> 2 ^ 32" using b by simp
    have w: "unat KERNEL_SPACE_START \<le> unat (t_data ?f)"
      "unat (t_data ?f) + heap_room (fs_heap s) (t_data ?f) \<le> unat KERNEL_HEAP_END"
      using hblocks.room_window [OF hi] l by auto
    have src: "unat (t_data ?f + off) = unat (t_data ?f) + unat off"
      using unat_offset [of "t_data ?f" "unat off"] w room by simp
    have sep: "separate buf ?n q k" if "unat KERNEL_SPACE_START \<le> unat q" for q k
      using b that by (simp add: separate_def)
    have cs: "contents ?s' q = contents s q" if q: "q \<in> F" for q
    proof (cases "t_data (tmpfs_files s q) = 0")
      case True
      then show ?thesis using empty_file [OF ok q] by (simp add: contents_def peek_def)
    next
      case False
      note lq = file_okD(4) [OF ok q False]
      have "unat KERNEL_SPACE_START \<le> unat (t_data (tmpfs_files s q))"
        using hblocks.room_window [OF hi] lq by auto
      moreover have "unat (t_data (tmpfs_files s q)) + unat (t_size (tmpfs_files s q)) \<le> 2 ^ 32"
        using hblocks.block_bound [OF hi] lq size_room [OF ok q False] by auto
      ultimately show ?thesis
        using peek_memcpy_other [OF bb _ sep] by (simp add: contents_def k_memcpy_def)
    qed
    have "peek (kmem ?s') buf ?n = peek (kmem s) (t_data ?f + off) ?n"
      using peek_memcpy_same [OF bb sep] src w room by (simp add: k_memcpy_def)
    also have "\<dots> = take (unat sz) (drop (unat off) (contents s ?fp))"
      unfolding contents_def drop_peek n by (simp add: take_peek_min)
    finally have p: "peek (kmem ?s') buf ?n = take (unat sz) (drop (unat off) (contents s ?fp))" .
    have "kmem ?s' a = kmem s a" if "a < buf \<or> unat buf + ?n \<le> unat a" for a
      using memcpy_other [OF bb] that by (simp add: k_memcpy_def word_less_nat_alt)
    then show ?thesis
      using r ok p cs n
      by (intro exI [of _ ?n] exI [of _ ?s'] conjI) (simp_all add: contents_def tmpfs_ok_def)
  qed
qed


section \<open>Through descriptors\<close>

definition fs_demo_node :: "vnode" where
  "fs_demo_node = zero_node\<lparr>n_flags := FS_FILE, n_private := 0x300, n_read := Tmpfs_read, n_write := Tmpfs_write,
     n_open := Tmpfs_open, n_close := Tmpfs_close, n_ref := 2\<rparr>"

text \<open>A tree with one empty file, open twice.\<close>

definition vfs_demo :: fs_state where
  "vfs_demo = \<lparr>fs_heap = heap_demo, kmem = (\<lambda>a. ucast a),
     nodes = (\<lambda>_. zero_node)(0x200 := fs_demo_node),
     files = (\<lambda>_. \<lparr>f_node = 0x200, f_offset = 0, f_flags = 2, f_ref = 1\<rparr>),
     tmpfs_files = (\<lambda>_. \<lparr>t_data = 0, t_size = 0, t_capacity = 0\<rparr>),
     initrd_files = (\<lambda>_. \<lparr>i_data = 0, i_size = 0\<rparr>),
     fat_nodes = (\<lambda>_. \<lparr>fn_fs = 0, fn_start_cluster = 0, fn_size = 0\<rparr>),
     fat_systems = (\<lambda>_. fs_demo), vfs_root = 0x100, tmpfs_root = 0, cons = console_demo, keys = [], ata = disk_demo\<rparr>"

definition fds_demo :: fd_table where
  "fds_demo = (\<lambda>_. 0)(3 := 0x400, 4 := 0x500)"

lemma tmpfs_ok_demo [simp]: "tmpfs_ok {0x300} vfs_demo"
  by (simp add: tmpfs_ok_def file_ok_def vfs_demo_def)

text \<open>A descriptor open on a file of \<open>tmpfs\<close>.\<close>

definition tmpfs_fd :: "u32 set \<Rightarrow> fs_state \<Rightarrow> fd_table \<Rightarrow> int \<Rightarrow> bool" where
  "tmpfs_fd F s fds fd \<longleftrightarrow> valid_fd fd \<and> fds (nat fd) \<noteq> 0 \<and>
     (let node = f_node (files s (fds (nat fd))) in node \<noteq> 0 \<and> n_private (nodes s node) \<in> F \<and>
        n_private (nodes s node) \<noteq> 0 \<and> n_read (nodes s node) = Tmpfs_read \<and> n_write (nodes s node) = Tmpfs_write)"

abbreviation fd_node :: "fs_state \<Rightarrow> fd_table \<Rightarrow> int \<Rightarrow> u32" where
  "fd_node s fds fd \<equiv> f_node (files s (fds (nat fd)))"

abbreviation fd_file :: "fs_state \<Rightarrow> fd_table \<Rightarrow> int \<Rightarrow> u32" where
  "fd_file s fds fd \<equiv> n_private (nodes s (fd_node s fds fd))"

abbreviation fd_offset :: "fs_state \<Rightarrow> fd_table \<Rightarrow> int \<Rightarrow> u32" where
  "fd_offset s fds fd \<equiv> f_offset (files s (fds (nat fd)))"

lemma advance_nonneg:
  "advance opened (int (unat n)) s =
    s\<lparr>files := (files s)(opened := (files s opened)\<lparr>f_offset := f_offset (files s opened) + n\<rparr>)\<rparr>"
proof (cases "n = 0")
  case False
  then have "uint n \<noteq> 0" by (simp add: uint_0_iff)
  moreover have "0 \<le> uint n" by simp
  ultimately have "0 < uint n" by linarith
  then show ?thesis by (simp add: advance_def)
qed (simp add: advance_def)

lemma sys_write_tmpfs:
  assumes ok: "tmpfs_ok F s" and fd: "tmpfs_fd F s fds fd" and b0: "buf \<noteq> 0"
    and nowrap: "unat (fd_offset s fds fd) + unat sz < 2 ^ 32" and buf: "unat buf + unat sz \<le> unat KERNEL_SPACE_START"
  shows "\<exists>ret s'. sys_write fd buf sz fds s = Some (ret, s') \<and> tmpfs_ok F s' \<and> tmpfs_fd F s' fds fd \<and>
    user_memory_same s s' \<and> (\<forall>q\<in>F. q \<noteq> fd_file s fds fd \<longrightarrow> contents s' q = contents s q) \<and>
    (\<forall>o'. o' \<noteq> fds (nat fd) \<longrightarrow> files s' o' = files s o') \<and> (\<forall>n. f_node (files s' n) = f_node (files s n)) \<and>
    (\<exists>z. nodes s' = (nodes s)(fd_node s fds fd := (nodes s (fd_node s fds fd))\<lparr>n_size := z\<rparr>)) \<and>
    (synced s (fd_node s fds fd) \<longrightarrow> synced s' (fd_node s fds fd)) \<and>
    (if unat (fd_offset s fds fd) + unat sz > 26214400 then ret = - ENOSPC \<and> s' = s
     else ret = - ENOMEM \<and> s' = s \<or>
       ret = int (unat sz) \<and> fd_offset s' fds fd = fd_offset s fds fd + sz \<and>
       contents s' (fd_file s fds fd) =
         overwrite (contents s (fd_file s fds fd)) (unat (fd_offset s fds fd)) (peek (kmem s) buf (unat sz)))"
proof -
  let ?o = "fds (nat fd)" and ?n = "fd_node s fds fd" and ?off = "fd_offset s fds fd"
  have d: "valid_fd fd" "?o \<noteq> 0" "?n \<noteq> 0" "fd_file s fds fd \<in> F" "fd_file s fds fd \<noteq> 0"
    "n_read (nodes s ?n) = Tmpfs_read" "n_write (nodes s ?n) = Tmpfs_write"
    using fd by (auto simp: tmpfs_fd_def Let_def)
  obtain ret s1 z where w: "tmpfs_write ?n ?off sz buf s = Some (ret, s1)" "tmpfs_ok F s1" "user_memory_same s s1"
    "\<forall>q\<in>F. q \<noteq> fd_file s fds fd \<longrightarrow> contents s1 q = contents s q" "files s1 = files s"
    "nodes s1 = (nodes s)(?n := (nodes s ?n)\<lparr>n_size := z\<rparr>)" "synced s ?n \<longrightarrow> synced s1 ?n"
    "if unat ?off + unat sz > 26214400 then ret = - ENOSPC \<and> s1 = s
     else ret = - ENOMEM \<and> s1 = s \<or> ret = int (unat sz) \<and>
       contents s1 (fd_file s fds fd) = overwrite (contents s (fd_file s fds fd)) (unat ?off) (peek (kmem s) buf (unat sz))"
    using tmpfs_write_spec [OF ok d(4,5) nowrap buf] by (elim exE conjE) (rule that)
  have r: "sys_write fd buf sz fds s = Some (ret, advance ?o ret s1)"
    using d b0 w(1) by (simp add: sys_write_def node_write_def Let_def)
  let ?big = "unat ?off + unat sz > 26214400"
  show ?thesis
  proof (cases "ret < 0")
    case True
    have e: "if ?big then ret = - ENOSPC \<and> s1 = s else ret = - ENOMEM \<and> s1 = s \<or>
        ret = int (unat sz) \<and> fd_offset s1 fds fd = ?off + sz \<and>
        contents s1 (fd_file s fds fd) = overwrite (contents s (fd_file s fds fd)) (unat ?off) (peek (kmem s) buf (unat sz))"
    proof (cases ?big)
      case False
      moreover have "ret \<noteq> int (unat sz)" using True by linarith
      ultimately show ?thesis using w(8) by (simp only: if_False) blast
    qed (use w(8) in \<open>simp only: if_True\<close>)
    have "advance ?o ret s1 = s1" using True by (simp add: advance_def)
    then have r: "sys_write fd buf sz fds s = Some (ret, s1)" by (simp only: r)
    have fd1: "tmpfs_fd F s1 fds fd" using fd by (auto simp: tmpfs_fd_def Let_def w(5,6))
    have f1: "\<forall>o'. o' \<noteq> ?o \<longrightarrow> files s1 o' = files s o'" "\<forall>n. f_node (files s1 n) = f_node (files s n)"
      by (simp_all add: w(5))
    show ?thesis by (intro exI conjI) (fact r fd1 f1 w(2-4,6,7) e)+
  next
    case False
    have big: "\<not> ?big" and ret: "ret = int (unat sz)" and c: "contents s1 (fd_file s fds fd) =
        overwrite (contents s (fd_file s fds fd)) (unat ?off) (peek (kmem s) buf (unat sz))"
      using w(8) False by (auto split: if_splits)
    let ?s2 = "s1\<lparr>files := (files s)(?o := (files s ?o)\<lparr>f_offset := ?off + sz\<rparr>)\<rparr>"
    have "advance ?o ret s1 = ?s2" by (simp only: ret advance_nonneg w(5))
    then have r: "sys_write fd buf sz fds s = Some (ret, ?s2)" by (simp only: r)
    have cs: "contents ?s2 q = contents s1 q" for q by (simp add: contents_def)
    have ok2: "tmpfs_ok F ?s2" using w(2) by (simp add: tmpfs_ok_def)
    have fd2: "tmpfs_fd F ?s2 fds fd" using fd by (auto simp: tmpfs_fd_def Let_def w(6))
    have u2: "user_memory_same s ?s2" using w(3) by (simp add: user_memory_same_def)
    have sy: "synced s ?n \<longrightarrow> synced ?s2 ?n" using w(7) by (simp add: synced_def)
    have o2: "\<forall>q\<in>F. q \<noteq> fd_file s fds fd \<longrightarrow> contents ?s2 q = contents s q" using w(4) by (simp only: cs simp_thms)
    have f2: "\<forall>o'. o' \<noteq> ?o \<longrightarrow> files ?s2 o' = files s o'" "\<forall>n. f_node (files ?s2 n) = f_node (files s n)" by simp_all
    have n2: "nodes ?s2 = (nodes s)(?n := (nodes s ?n)\<lparr>n_size := z\<rparr>)" by (simp add: w(6))
    have e: "if ?big then ret = - ENOSPC \<and> ?s2 = s else ret = - ENOMEM \<and> ?s2 = s \<or>
        ret = int (unat sz) \<and> fd_offset ?s2 fds fd = ?off + sz \<and>
        contents ?s2 (fd_file s fds fd) = overwrite (contents s (fd_file s fds fd)) (unat ?off) (peek (kmem s) buf (unat sz))"
      using big by (simp add: ret cs c)
    show ?thesis by (intro exI conjI) (fact r ok2 fd2 u2 o2 f2 n2 sy e)+
  qed
qed

lemma tmpfs_read_files: "files (snd (tmpfs_read node off sz buf s)) = files s"
  by (simp add: tmpfs_read_def Let_def)

lemma sys_read_tmpfs:
  assumes ok: "tmpfs_ok F s" and fd: "tmpfs_fd F s fds fd" and b0: "buf \<noteq> 0"
    and nowrap: "unat (fd_offset s fds fd) + unat sz < 2 ^ 32" and buf: "unat buf + unat sz \<le> unat KERNEL_SPACE_START"
  shows "\<exists>n s'. sys_read fd buf sz fds s = Some (int n, s') \<and> tmpfs_ok F s' \<and>
    n = min (unat sz) (length (contents s (fd_file s fds fd)) - unat (fd_offset s fds fd)) \<and>
    peek (kmem s') buf n = take (unat sz) (drop (unat (fd_offset s fds fd)) (contents s (fd_file s fds fd))) \<and>
    fd_offset s' fds fd = fd_offset s fds fd + of_nat n \<and>
    (\<forall>q\<in>F. contents s' q = contents s q) \<and>
    (\<forall>a. a < buf \<or> unat buf + n \<le> unat a \<longrightarrow> kmem s' a = kmem s a)"
proof -
  let ?o = "fds (nat fd)" and ?n = "fd_node s fds fd" and ?off = "fd_offset s fds fd"
  have d: "valid_fd fd" "?o \<noteq> 0" "?n \<noteq> 0" "fd_file s fds fd \<in> F" "fd_file s fds fd \<noteq> 0"
    "n_read (nodes s ?n) = Tmpfs_read" "n_write (nodes s ?n) = Tmpfs_write"
    using fd by (auto simp: tmpfs_fd_def Let_def)
  obtain n s1 where w: "tmpfs_read ?n ?off sz buf s = (int n, s1)" "tmpfs_ok F s1"
    "n = min (unat sz) (length (contents s (fd_file s fds fd)) - unat ?off)"
    "peek (kmem s1) buf n = take (unat sz) (drop (unat ?off) (contents s (fd_file s fds fd)))"
    "\<forall>q\<in>F. contents s1 q = contents s q"
    "\<forall>a. a < buf \<or> unat buf + n \<le> unat a \<longrightarrow> kmem s1 a = kmem s a"
    using tmpfs_read_spec [OF ok d(4,5) nowrap buf] by (elim exE conjE) (rule that)
  have f: "files s1 = files s" using tmpfs_read_files [of ?n ?off sz buf s] by (simp only: w(1) snd_conv)
  have r: "sys_read fd buf sz fds s = Some (int n, advance ?o (int n) s1)"
    using d b0 w(1) by (simp add: sys_read_def node_read_def Let_def)
  have "n < 2 ^ 32" using w(3) unat_u32_bound [of sz] by simp
  then have "int n = int (unat (of_nat n :: u32))" by (simp add: unat_of_nat)
  then have a: "advance ?o (int n) s1 = s1\<lparr>files := (files s)(?o := (files s ?o)\<lparr>f_offset := ?off + of_nat n\<rparr>)\<rparr>"
    using advance_nonneg [of ?o "of_nat n" s1] f by simp
  let ?s2 = "s1\<lparr>files := (files s)(?o := (files s ?o)\<lparr>f_offset := ?off + of_nat n\<rparr>)\<rparr>"
  have r2: "sys_read fd buf sz fds s = Some (int n, ?s2)" by (simp only: r a)
  have ok2: "tmpfs_ok F ?s2" using w(2) by (simp add: tmpfs_ok_def)
  have p2: "peek (kmem ?s2) buf n = take (unat sz) (drop (unat ?off) (contents s (fd_file s fds fd)))"
    using w(4) by simp
  have o2: "fd_offset ?s2 fds fd = ?off + of_nat n" by simp
  have c2: "\<forall>q\<in>F. contents ?s2 q = contents s q" using w(5) by (simp add: contents_def)
  have m2: "\<forall>a. a < buf \<or> unat buf + n \<le> unat a \<longrightarrow> kmem ?s2 a = kmem s a" using w(6) by simp
  show ?thesis by (intro exI conjI) (fact r2 ok2 w(3) p2 o2 c2 m2)+
qed

section \<open>The abstract file\<close>

text \<open>A file and a position in it, and what writing and reading mean for them.\<close>

type_synonym afile = "u8 list \<times> nat"

definition abs_write :: "u8 list \<Rightarrow> afile \<Rightarrow> afile" where
  "abs_write data f = (overwrite (fst f) (snd f) data, snd f + length data)"

definition abs_read :: "nat \<Rightarrow> afile \<Rightarrow> u8 list \<times> afile" where
  "abs_read n f = (take n (drop (snd f) (fst f)), fst f, snd f + min n (length (fst f) - snd f))"

definition view :: "fs_state \<Rightarrow> fd_table \<Rightarrow> int \<Rightarrow> afile" where
  "view s fds fd = (contents s (fd_file s fds fd), unat (fd_offset s fds fd))"

lemma tmpfs_fd_demo [simp]:
  "tmpfs_fd {0x300} vfs_demo fds_demo 3" "tmpfs_fd {0x300} vfs_demo fds_demo 4"
  by (simp_all add: tmpfs_fd_def valid_fd_def fds_demo_def vfs_demo_def fs_demo_node_def)

section \<open>Properties\<close>



text \<open>C28. A read through a descriptor of a tmpfs file delivers the bytes of the file from the descriptor's position,
  as many as asked for or as are left, advances the position by that number, and changes no file and no memory
  outside the buffer.\<close>

theorem sys_read_refines:
  assumes "tmpfs_ok F s" and "tmpfs_fd F s fds fd" and "buf \<noteq> 0"
    and "unat (fd_offset s fds fd) + unat sz < 2 ^ 32" and "unat buf + unat sz \<le> unat KERNEL_SPACE_START"
  shows "\<exists>n s'. sys_read fd buf sz fds s = Some (int n, s') \<and> tmpfs_ok F s' \<and> n \<le> unat sz \<and>
    abs_read (unat sz) (view s fds fd) = (peek (kmem s') buf n, contents s' (fd_file s fds fd), unat (fd_offset s' fds fd)) \<and>
    (\<forall>q\<in>F. contents s' q = contents s q) \<and>
    (\<forall>a. a < buf \<or> unat buf + n \<le> unat a \<longrightarrow> kmem s' a = kmem s a)"
proof -
  have fp: "fd_file s fds fd \<in> F" using assms(2) by (auto simp: tmpfs_fd_def Let_def)
  obtain n s' where w: "sys_read fd buf sz fds s = Some (int n, s')" "tmpfs_ok F s'"
    and n: "n = min (unat sz) (length (contents s (fd_file s fds fd)) - unat (fd_offset s fds fd))"
    and p: "peek (kmem s') buf n = take (unat sz) (drop (unat (fd_offset s fds fd)) (contents s (fd_file s fds fd)))"
    and o: "fd_offset s' fds fd = fd_offset s fds fd + of_nat n"
    and c: "\<forall>q\<in>F. contents s' q = contents s q"
    and m: "\<forall>a. a < buf \<or> unat buf + n \<le> unat a \<longrightarrow> kmem s' a = kmem s a"
    using sys_read_tmpfs [OF assms] by (elim exE conjE) (rule that)
  have "unat (fd_offset s' fds fd) = unat (fd_offset s fds fd) + n"
    unfolding o using assms(4) by (intro unat_offset) (unfold n, linarith)
  then have "abs_read (unat sz) (view s fds fd) =
      (peek (kmem s') buf n, contents s' (fd_file s fds fd), unat (fd_offset s' fds fd))"
    using p n c fp by (simp add: abs_read_def view_def)
  moreover have "n \<le> unat sz" using n by simp
  ultimately show ?thesis using w c m by blast
qed

lemma sys_read_refines_witness:
  "\<exists>n s'. sys_read 4 0x2000 16 fds_demo vfs_demo = Some (int n, s') \<and> n \<le> 16 \<and> contents s' 0x300 = []"
proof -
  have "contents vfs_demo 0x300 = []" and "fd_offset vfs_demo fds_demo 4 = 0"
    by (simp_all add: contents_def peek_def vfs_demo_def)
  then show ?thesis
    using sys_read_refines [OF tmpfs_ok_demo tmpfs_fd_demo(2), of "0x2000" 16] by fastforce
qed

lemma write_demo: "\<exists>s'. sys_write 3 0x1000 5 fds_demo vfs_demo = Some (5, s')"
proof -
  have c: "grown_capacity 5 = 8" by code_simp
  obtain h p where k: "kmalloc 8 heap_demo = (h, p)" by fastforce
  moreover have "p \<noteq> 0" using kmalloc_demo_small [of 8] k by simp
  ultimately have "\<exists>s'. tmpfs_write 0x200 0 5 0x1000 vfs_demo = Some (5, s')"
    by (simp add: tmpfs_write_def tmpfs_grow_def fs_kmalloc_def vfs_demo_def fs_demo_node_def c Let_def on_file_data_def)
  then obtain s' where w: "tmpfs_write 0x200 0 5 0x1000 vfs_demo = Some (5, s')" ..
  have "files vfs_demo x = \<lparr>f_node = 0x200, f_offset = 0, f_flags = 2, f_ref = 1\<rparr>"
    "n_write (nodes vfs_demo 0x200) = Tmpfs_write" for x by (simp_all add: vfs_demo_def fs_demo_node_def)
  then show ?thesis
    using w by (simp add: sys_write_def node_write_def valid_fd_def fds_demo_def Let_def)
qed

end
