(* ===== verification/Vfs_Spec.thy ===== *)
theory Vfs_Spec
  imports Tmpfs_Spec
begin

text \<open>
  Path lookup against a reference that walks the names of a path, the directories that
  \<open>vfs_mkdir_recursive\<close> makes, and the counting of references by descriptors.
\<close>

unbundle bit_operations_syntax

section \<open>Path lookup\<close>

text \<open>A path cut at its slashes, and the names on it: the pieces that are not empty.\<close>

primrec pieces :: "u8 list \<Rightarrow> u8 list list" where
  "pieces [] = [[]]"
| "pieces (c # cs) = (if c = 0x2F then [] # pieces cs else (c # hd (pieces cs)) # tl (pieces cs))"

definition components :: "u8 list \<Rightarrow> u8 list list" where
  "components path = filter (\<lambda>c. c \<noteq> []) (pieces path)"

text \<open>Walking down the names from a directory, through the mount points on the way.\<close>

fun walk :: "u32 \<Rightarrow> nat \<Rightarrow> u8 list list \<Rightarrow> fs_state \<Rightarrow> (u32 \<times> fs_state) option" where
  "walk current hops [] s =
     (case resolve_mounts s current hops of None \<Rightarrow> Some (0, s) | Some (node, _) \<Rightarrow> Some (node, s))"
| "walk current hops (c # cs) s =
     (case resolve_mounts s current hops of None \<Rightarrow> Some (0, s)
      | Some (node, hops) \<Rightarrow>
          if node = 0 then Some (0, s)
          else case node_finddir node c s of None \<Rightarrow> None
               | Some (child, s) \<Rightarrow> if child = 0 then Some (0, s) else walk child hops cs s)"

lemma pieces_nonempty [simp]: "pieces p \<noteq> []"
  by (cases p) auto

lemma pieces_eq:
  "pieces p = takeWhile (\<lambda>c. c \<noteq> 0x2F) p # (case dropWhile (\<lambda>c. c \<noteq> 0x2F) p of [] \<Rightarrow> [] | _ # r \<Rightarrow> pieces r)"
  by (induction p) auto

lemma components_Nil [simp]: "components [] = []"
  by (simp add: components_def)

lemma components_slash [simp]: "components (0x2F # p) = components p"
  by (simp add: components_def)

lemma components_dropWhile [simp]: "components (dropWhile (\<lambda>c. c = 0x2F) p) = components p"
  by (induction p) auto

lemma components_cons:
  assumes "p \<noteq> []" and "hd p \<noteq> 0x2F"
  shows "components p = takeWhile (\<lambda>c. c \<noteq> 0x2F) p # components (dropWhile (\<lambda>c. c \<noteq> 0x2F) p)"
proof -
  have "takeWhile (\<lambda>c. c \<noteq> 0x2F) p \<noteq> []" using assms by (cases p) auto
  moreover have "components (dropWhile (\<lambda>c. c \<noteq> 0x2F) p) =
      filter (\<lambda>c. c \<noteq> []) (case dropWhile (\<lambda>c. c \<noteq> 0x2F) p of [] \<Rightarrow> [] | _ # r \<Rightarrow> pieces r)"
  proof (cases "dropWhile (\<lambda>c. c \<noteq> 0x2F) p")
    case (Cons c r)
    then have "c = 0x2F" using hd_dropWhile [of "\<lambda>c. c \<noteq> 0x2F" p] by auto
    then show ?thesis using Cons by (simp add: components_def)
  next
    case Nil
    show ?thesis unfolding Nil by simp
  qed
  ultimately show ?thesis unfolding components_def by (subst pieces_eq) simp
qed

text \<open>The scanner of the code and the pieces of the path agree as long as every name fits the token buffer.\<close>

lemma next_token_components:
  assumes "\<forall>c\<in>set (components p). length c < VFS_MAX_FILENAME" and "next_token p = (token, rest)"
  shows "if token = [] then components p = [] else components p = token # components rest"
proof -
  let ?p = "dropWhile (\<lambda>c. c = 0x2F) p"
  have t: "token = take 255 (takeWhile (\<lambda>c. c \<noteq> 0x2F) ?p)" and r: "rest = drop (length token) ?p"
    using assms(2) by (auto simp: next_token_def Let_def)
  show ?thesis
  proof (cases "?p = []")
    case True
    then have "components p = []" by (metis components_dropWhile components_Nil)
    moreover have "token = []" unfolding t True by simp
    ultimately show ?thesis by simp
  next
    case False
    then have hd: "hd ?p \<noteq> 0x2F" using hd_dropWhile by blast
    have c: "components p = takeWhile (\<lambda>c. c \<noteq> 0x2F) ?p # components (dropWhile (\<lambda>c. c \<noteq> 0x2F) ?p)"
      using components_cons [OF False hd] by simp
    then have "length (takeWhile (\<lambda>c. c \<noteq> 0x2F) ?p) < 256" using assms(1) by simp
    then have t': "token = takeWhile (\<lambda>c. c \<noteq> 0x2F) ?p" by (simp add: t)
    moreover have "rest = dropWhile (\<lambda>c. c \<noteq> 0x2F) ?p" unfolding r t' by (simp add: dropWhile_eq_drop)
    moreover have "token \<noteq> []" unfolding t' using False hd by (cases ?p) auto
    ultimately show ?thesis using c by simp
  qed
qed

lemma lookup_loop_walk:
  assumes "\<forall>c\<in>set (components p). length c < VFS_MAX_FILENAME"
  shows "lookup_loop current hops p s = walk current hops (components p) s"
  using assms
proof (induction current hops p s rule: lookup_loop.induct)
  case (1 current hops p s)
  obtain token rest where n: "next_token p = (token, rest)" by fastforce
  note c = next_token_components [OF 1(2) n]
  show ?case
  proof (cases "token = []")
    case True
    then have "components p = []" using c by simp
    then show ?thesis using n True by (simp add: lookup_loop.simps [of current hops p s])
  next
    case False
    then have cp: "components p = token # components rest" using c by simp
    then have fits: "\<forall>c\<in>set (components rest). length c < VFS_MAX_FILENAME" using 1(2) by simp
    show ?thesis
      using 1(1) [OF n [symmetric] refl] n False cp fits
      by (simp add: lookup_loop.simps [of current hops p s] split: option.split)
  qed
qed


section \<open>Creating directories\<close>

text \<open>
  \<open>N\<close> is a set of live directories without mount points; their children are live, and those with one
  of the \<open>names\<close> are in \<open>N\<close>.
\<close>

definition dirs_ok :: "u8 list set \<Rightarrow> u32 set \<Rightarrow> fs_state \<Rightarrow> bool" where
  "dirs_ok names N s \<longleftrightarrow> heap_inv (fs_heap s) \<and> N \<subseteq> live_pointers (fs_heap s) \<and>
     (\<forall>n\<in>N. n_finddir (nodes s n) = Generic_finddir \<and> n_flags (nodes s n) AND FS_MOUNTPOINT = 0 \<and>
        (\<forall>c\<in>set (n_children (nodes s n)). c \<in> live_pointers (fs_heap s) \<and> (n_name (nodes s c) \<in> names \<longrightarrow> c \<in> N)))"

definition grows :: "u32 set \<Rightarrow> fs_state \<Rightarrow> fs_state \<Rightarrow> bool" where
  "grows N s s' \<longleftrightarrow> live_pointers (fs_heap s) \<subseteq> live_pointers (fs_heap s') \<and> vfs_root s' = vfs_root s \<and>
     (\<forall>n\<in>live_pointers (fs_heap s). n_name (nodes s' n) = n_name (nodes s n)) \<and>
     (\<forall>n\<in>N. \<exists>cs. n_children (nodes s' n) = n_children (nodes s n) @ cs)"

lemma grows_refl: "grows N s s"
  by (simp add: grows_def)

lemma grows_trans: "grows N s s' \<Longrightarrow> grows N' s' s'' \<Longrightarrow> N \<subseteq> N' \<Longrightarrow> grows N s s''"
  unfolding grows_def by (fastforce simp: subset_iff)

lemma dirs_nonnull: "dirs_ok names N s \<Longrightarrow> n \<in> N \<Longrightarrow> n \<noteq> 0"
  using heap.live_nonnull by (auto simp: dirs_ok_def)

lemma resolve_dir: "dirs_ok names N s \<Longrightarrow> n \<in> N \<Longrightarrow> resolve_mounts s n hops = Some (n, hops)"
  by (subst resolve_mounts.simps) (simp add: dirs_ok_def)

lemma find_dir: "dirs_ok names N s \<Longrightarrow> n \<in> N \<Longrightarrow>
  node_finddir n name s = Some (vfs_generic_finddir n name s, s)"
  using dirs_nonnull [of names N s n] by (simp add: node_finddir_def dirs_ok_def)

lemma generic_finddir_some:
  assumes "dirs_ok names N s" and "n \<in> N" and "vfs_generic_finddir n name s = c" and "c \<noteq> 0"
  shows "find (\<lambda>c. n_name (nodes s c) = name) (n_children (nodes s n)) = Some c"
  using assms by (auto simp: vfs_generic_finddir_def split: option.splits if_splits)

lemma generic_finddir_none:
  assumes "dirs_ok names N s" and "n \<in> N" and "vfs_generic_finddir n name s = 0"
  shows "find (\<lambda>c. n_name (nodes s c) = name) (n_children (nodes s n)) = None"
proof (cases "find (\<lambda>c. n_name (nodes s c) = name) (n_children (nodes s n))")
  case (Some c)
  then have "c \<in> set (n_children (nodes s n))" by (auto simp: find_Some_iff)
  then have "c \<noteq> 0" using assms(1,2) heap.live_nonnull [of "fs_heap s" c] by (auto simp: dirs_ok_def)
  then show ?thesis using Some assms dirs_nonnull [OF assms(1,2)] by (simp add: vfs_generic_finddir_def)
qed

lemma find_append: "find P (xs @ ys) = (case find P xs of None \<Rightarrow> find P ys | Some x \<Rightarrow> Some x)"
  by (induction xs) auto

lemma find_grows:
  assumes "grows N s s'" and "dirs_ok names N s" and "n \<in> N"
    and "find (\<lambda>c. n_name (nodes s c) = name) (n_children (nodes s n)) = Some c"
  shows "find (\<lambda>c. n_name (nodes s' c) = name) (n_children (nodes s' n)) = Some c"
proof -
  obtain cs where cs: "n_children (nodes s' n) = n_children (nodes s n) @ cs"
    using assms(1,3) by (auto simp: grows_def)
  have "\<forall>c\<in>set (n_children (nodes s n)). n_name (nodes s' c) = n_name (nodes s c)"
    using assms(1-3) by (auto simp: grows_def dirs_ok_def)
  then have "find (\<lambda>c. n_name (nodes s' c) = name) (n_children (nodes s n)) =
      find (\<lambda>c. n_name (nodes s c) = name) (n_children (nodes s n))"
    by (intro find_cong) auto
  then show ?thesis using assms(4) by (simp add: cs find_append)
qed

lemma create_dir:
  assumes ok: "dirs_ok names N s" and n: "n \<in> N" and len: "length name < VFS_MAX_FILENAME"
    and c: "vfs_create_node name FS_DIRECTORY n 0 s = (s', child)" and nz: "child \<noteq> 0"
    and none: "vfs_generic_finddir n name s = 0"
  shows "dirs_ok names (insert child N) s'" and "grows N s s'" and "vfs_generic_finddir n name s' = child"
proof -
  have n0: "n \<noteq> 0" by (rule dirs_nonnull [OF ok n])
  obtain h where k: "kmalloc SIZEOF_VFS_NODE (fs_heap s) = (h, child)"
    using c by (auto simp: vfs_create_node_def fs_kmalloc_def Let_def split: prod.splits if_splits)
  have hi: "heap_inv (fs_heap s)" using ok by (simp add: dirs_ok_def)
  note live = heap.alloc_live [OF hi k nz]
  let ?new = "zero_node\<lparr>n_name := name, n_flags := FS_DIRECTORY, n_readdir := Generic_readdir,
    n_finddir := Generic_finddir, n_parent := n\<rparr>"
  have nc: "n \<noteq> child" using live n ok by (auto simp: dirs_ok_def)
  have s': "s' = s\<lparr>fs_heap := h, nodes := (nodes s)(child := ?new,
      n := (nodes s n)\<lparr>n_children := n_children (nodes s n) @ [child]\<rparr>)\<rparr>"
    using c k nz n0 nc len
    by (auto simp: vfs_create_node_def fs_kmalloc_def vfs_add_child_def on_node_def zero_node_def Let_def)
  have old: "child \<notin> N" "\<And>m c. m \<in> N \<Longrightarrow> c \<in> set (n_children (nodes s m)) \<Longrightarrow> c \<noteq> child"
    using ok live by (auto simp: dirs_ok_def)
  show "dirs_ok names (insert child N) s'"
    using ok live nc old by (auto simp: dirs_ok_def s' zero_node_def)
  show g: "grows N s s'"
    using live old nc by (auto simp: grows_def s')
  have "find (\<lambda>c. n_name (nodes s' c) = name) (n_children (nodes s n)) =
      find (\<lambda>c. n_name (nodes s c) = name) (n_children (nodes s n))"
    using old(2) [OF n] by (intro find_cong) (auto simp: s')
  then show "vfs_generic_finddir n name s' = child"
    using generic_finddir_none [OF ok n none] n0 nc by (simp add: vfs_generic_finddir_def s' find_append)
qed


lemma generic_finddir_child:
  assumes "dirs_ok names N s" and "n \<in> N" and "vfs_generic_finddir n name s = c" and "c \<noteq> 0" and "name \<in> names"
  shows "c \<in> N"
proof -
  have "c \<in> set (n_children (nodes s n))" "n_name (nodes s c) = name"
    using generic_finddir_some [OF assms(1-4)] by (auto simp: find_Some_iff)
  then show ?thesis using assms(1,2,5) by (auto simp: dirs_ok_def)
qed

lemma generic_finddir_grows:
  assumes "grows N s s'" and "dirs_ok names N s" and "n \<in> N" and "vfs_generic_finddir n name s = c" and "c \<noteq> 0"
  shows "vfs_generic_finddir n name s' = c"
  using find_grows [OF assms(1-3) generic_finddir_some [OF assms(2-5)]] dirs_nonnull [OF assms(2,3)]
  by (simp add: vfs_generic_finddir_def)

lemma walk_step:
  assumes "dirs_ok names N s" and "n \<in> N" and "vfs_generic_finddir n c s = child" and "child \<noteq> 0"
  shows "walk n hops (c # cs) s = walk child hops cs s"
  using assms resolve_dir [OF assms(1,2)] find_dir [OF assms(1,2)] dirs_nonnull [OF assms(1,2)] by simp

lemma mkdir_loop_walk:
  assumes "dirs_ok names N s" and "cur \<in> N" and "set (components p) \<subseteq> names"
    and "\<forall>c\<in>set (components p). length c < VFS_MAX_FILENAME"
  shows "\<exists>d s'. mkdir_loop cur p s = Some (d, s') \<and>
    (d \<noteq> 0 \<longrightarrow> (\<exists>N'. N \<subseteq> N' \<and> dirs_ok names N' s' \<and> grows N s s' \<and> d \<in> N' \<and>
       walk cur hops (components p) s' = Some (d, s')))"
  using assms
proof (induction cur p s arbitrary: N rule: mkdir_loop.induct)
  case (1 cur p s)
  obtain token rest where n: "next_token p = (token, rest)" by fastforce
  note c = next_token_components [OF 1(6) n] and ok = 1(3) and cur = 1(4)
  show ?case
  proof (cases "token = []")
    case True
    then have "components p = []" using c by simp
    moreover have "mkdir_loop cur p s = Some (cur, s)"
      using n True by (simp add: mkdir_loop.simps [of cur p s])
    ultimately show ?thesis
      using ok cur resolve_dir [OF ok cur, of hops] grows_refl by auto
  next
    case False
    then have cp: "components p = token # components rest" using c by simp
    then have names: "token \<in> names" "set (components rest) \<subseteq> names" "length token < VFS_MAX_FILENAME"
      and fits: "\<forall>c\<in>set (components rest). length c < VFS_MAX_FILENAME" using 1(5,6) by auto
    note f = find_dir [OF ok cur, of token]
    show ?thesis
    proof (cases "vfs_generic_finddir cur token s = 0")
      case False2: False
      let ?c = "vfs_generic_finddir cur token s"
      have m: "mkdir_loop cur p s = mkdir_loop ?c rest s"
        using n False False2 f by (simp add: mkdir_loop.simps [of cur p s])
      have "?c \<in> N" by (rule generic_finddir_child [OF ok cur refl False2 names(1)])
      from 1(1) [OF n [symmetric] refl False f refl False2 ok this names(2) fits]
      obtain d s' where IH: "mkdir_loop ?c rest s = Some (d, s')"
        "d \<noteq> 0 \<longrightarrow> (\<exists>N'. N \<subseteq> N' \<and> dirs_ok names N' s' \<and> grows N s s' \<and> d \<in> N' \<and>
           walk ?c hops (components rest) s' = Some (d, s'))" by blast
      have "walk cur hops (components p) s' = walk ?c hops (components rest) s'"
        if "N \<subseteq> N'" "dirs_ok names N' s'" "grows N s s'" for N'
        unfolding cp using generic_finddir_grows [OF that(3) ok cur refl False2] that(1) cur False2
        by (intro walk_step [OF that(2)]) auto
      then show ?thesis using IH m by (metis (no_types, lifting))
    next
      case True
      obtain s1 child where cr: "vfs_create_node token FS_DIRECTORY cur 0 s = (s1, child)" by fastforce
      show ?thesis
      proof (cases "child = 0")
        case c0: True
        then have "mkdir_loop cur p s = Some (0, s1)"
          using n False True f cr by (simp add: mkdir_loop.simps [of cur p s])
        then show ?thesis by simp
      next
        case c0: False
        have m: "mkdir_loop cur p s = mkdir_loop child rest s1"
          using n False True f cr c0 by (simp add: mkdir_loop.simps [of cur p s])
        note cd = create_dir [OF ok cur names(3) cr c0 True]
        have "insert child N \<supseteq> N" "child \<in> insert child N" by auto
        from 1(2) [OF n [symmetric] refl False f refl _ cr [symmetric] refl c0 cd(1) this(2) names(2) fits] True
        obtain d s' where IH: "mkdir_loop child rest s1 = Some (d, s')"
          "d \<noteq> 0 \<longrightarrow> (\<exists>N'. insert child N \<subseteq> N' \<and> dirs_ok names N' s' \<and> grows (insert child N) s1 s' \<and> d \<in> N' \<and>
             walk child hops (components rest) s' = Some (d, s'))" by blast
        have "grows N s s' \<and> walk cur hops (components p) s' = walk child hops (components rest) s'"
          if "insert child N \<subseteq> N'" "dirs_ok names N' s'" "grows (insert child N) s1 s'" for N'
          unfolding cp using generic_finddir_grows [OF that(3) cd(1) _ cd(3) c0] that(1) cur c0
            grows_trans [OF cd(2) that(3)]
          by (intro conjI walk_step [OF that(2)]) auto
        then show ?thesis using IH m by (metis (no_types, lifting) insert_subset)
      qed
    qed
  qed
qed


lemma vfs_init_dirs:
  assumes "heap_inv (fs_heap s)" and "vfs_root (vfs_init s) \<noteq> 0"
  shows "dirs_ok names {vfs_root (vfs_init s)} (vfs_init s)"
proof -
  obtain h p where k: "kmalloc SIZEOF_VFS_NODE (fs_heap s) = (h, p)" by fastforce
  then have "p \<noteq> 0" using assms(2) by (auto simp: vfs_init_def fs_kmalloc_def Let_def)
  then show ?thesis
    using heap.alloc_live [OF assms(1) k] k
    by (simp add: vfs_init_def fs_kmalloc_def Let_def dirs_ok_def zero_node_def)
qed

definition tree_demo :: fs_state where
  "tree_demo = vfs_init vfs_demo"

lemma tree_demo_root: "vfs_root tree_demo \<noteq> 0"
proof -
  obtain h p where k: "kmalloc SIZEOF_VFS_NODE heap_demo = (h, p)" by fastforce
  then have "p \<noteq> 0" using kmalloc_demo_small [of SIZEOF_VFS_NODE] by simp
  then show ?thesis using k by (simp add: tree_demo_def vfs_init_def fs_kmalloc_def vfs_demo_def Let_def)
qed

lemma dirs_ok_demo: "dirs_ok names {vfs_root tree_demo} tree_demo"
  unfolding tree_demo_def
  by (rule vfs_init_dirs) (use tree_demo_root in \<open>simp_all add: tree_demo_def vfs_demo_def\<close>)

text \<open>C30. Looking up an absolute path walks the names between its slashes from the root, one directory per name,
  following mount points, whatever the number of slashes; the token buffer is large enough when no name has more
  than 255 bytes.\<close>

theorem vfs_findnode_walk:
  assumes "\<forall>c\<in>set (components p). length c < VFS_MAX_FILENAME" and "p \<noteq> []"
  shows "vfs_findnode (0x2F # p) s = walk (vfs_root s) 0 (components p) s"
  using assms lookup_loop_walk by (simp add: vfs_findnode_def)

lemma vfs_findnode_walk_witness:
  "vfs_findnode (bytes_of ''//a/b/'') vfs_demo = walk (vfs_root vfs_demo) 0 [[0x61], [0x62]] vfs_demo"
  using vfs_findnode_walk [of "bytes_of ''/a/b/''" vfs_demo]
  by (simp add: bytes_of_def components_def of_char_def)

text \<open>
  Creating the directories of a path in a tree of directories always returns; when it does not run out of memory,
  the path then leads to the directory it returned, and every name that led somewhere before still leads to the
  same node.
\<close>

lemma mkdir_recursive_then_lookup:
  assumes "dirs_ok (set (components p)) N s" and "vfs_root s \<in> N"
    and "\<forall>c\<in>set (components p). length c < VFS_MAX_FILENAME"
  shows "\<exists>d s'. vfs_mkdir_recursive (0x2F # p) s = Some (d, s') \<and>
    (d \<noteq> 0 \<longrightarrow> vfs_findnode (0x2F # p) s' = Some (d, s') \<and>
      (\<forall>n\<in>N. \<forall>name. vfs_generic_finddir n name s \<noteq> 0 \<longrightarrow>
         vfs_generic_finddir n name s' = vfs_generic_finddir n name s))"
proof -
  obtain d s' where m: "mkdir_loop (vfs_root s) p s = Some (d, s')"
    and r: "d \<noteq> 0 \<longrightarrow> (\<exists>N'. N \<subseteq> N' \<and> dirs_ok (set (components p)) N' s' \<and> grows N s s' \<and> d \<in> N' \<and>
      walk (vfs_root s) 0 (components p) s' = Some (d, s'))"
    using mkdir_loop_walk [OF assms(1,2) subset_refl assms(3), of 0] by blast
  have "vfs_findnode (0x2F # p) s' = walk (vfs_root s) 0 (components p) s'"
    if "N \<subseteq> N'" "dirs_ok (set (components p)) N' s'" "grows N s s'" for N'
  proof (cases "p = []")
    case True
    then show ?thesis using resolve_dir [OF that(2), of "vfs_root s" 0] that(1,3) assms(2)
      by (auto simp: vfs_findnode_def grows_def)
  next
    case False
    then show ?thesis using lookup_loop_walk [OF assms(3)] that(3) by (simp add: vfs_findnode_def grows_def)
  qed
  moreover have "vfs_generic_finddir n name s' = vfs_generic_finddir n name s"
    if "grows N s s'" "n \<in> N" "vfs_generic_finddir n name s \<noteq> 0" for n name
    using generic_finddir_grows [OF that(1) assms(1) that(2) refl that(3)] .
  ultimately show ?thesis using m r by (auto simp: vfs_mkdir_recursive_def)
qed

end
