(* ===== verification/File_Spec.thy ===== *)
theory File_Spec
  imports Syscall_Spec Vfs_Spec
begin

text \<open>
  Files through the system calls of \<open>syscall.c\<close>: what \<open>write\<close> stored is what \<open>read\<close> delivers after \<open>lseek\<close>,
  and a directory that \<open>mkdir\<close> made is found by path lookup.
\<close>

unbundle bit_operations_syntax

section \<open>Writing, seeking back and reading\<close>

text \<open>
  The ways to seek back to \<open>off\<close> after a write of \<open>n\<close> bytes there, which left a file of \<open>len\<close> bytes:
  from the start, from the position and from the end.
\<close>

definition seeks_back :: "u32 \<Rightarrow> u32 \<Rightarrow> nat \<Rightarrow> regs \<Rightarrow> bool" where
  "seeks_back off n len q \<longleftrightarrow>
     edx q = 0 \<and> ecx q = off \<or> edx q = 1 \<and> ecx q = - n \<or> edx q = 2 \<and> ecx q = off - of_nat len"

lemma huge_write_refused:
  assumes "tmpfs_fd F s fds fd" and "buf \<noteq> 0" and "unat (fd_offset s fds fd) + unat sz < 2 ^ 32"
    and "unat sz > 26214400"
  shows "sys_write fd buf sz fds s = Some (- ENOSPC, s)"
proof -
  let ?n = "fd_node s fds fd"
  have d: "valid_fd fd" "fds (nat fd) \<noteq> 0" "?n \<noteq> 0" "fd_file s fds fd \<noteq> 0" "n_write (nodes s ?n) = Tmpfs_write"
    using assms(1) by (auto simp: tmpfs_fd_def Let_def)
  have "unat (fd_offset s fds fd + sz) = unat (fd_offset s fds fd) + unat sz"
    using assms(3) by (simp add: unat_word_ariths)
  then have "fd_offset s fds fd + sz > TMPFS_MAX_FILE_SIZE" using assms(4) by (simp add: word_less_nat_alt)
  then show ?thesis
    using d assms(2) by (simp add: sys_write_def node_write_def tmpfs_write_def Let_def advance_def)
qed

lemma lseek_back:
  assumes "valid_fd (sint (ebx q))" and "fds (nat (sint (ebx q))) = o1" and "o1 \<noteq> 0" and "f_node (files s o1) = n" and "n \<noteq> 0"
    and "n_size (nodes s n) = of_nat len" and "f_offset (files s o1) = off + k" and "seeks_back off k len q"
    and "unat off < 2 ^ 31"
  shows "sys_lseek_handler q fds s =
    Some (int (unat off), fds, s\<lparr>files := (files s)(o1 := (files s o1)\<lparr>f_offset := off\<rparr>)\<rparr>)"
proof -
  have so: "sint off = int (unat off)" using assms(9) by (rule sint_small)
  consider "edx q = 0" "ecx q = off" | "edx q = 1" "ecx q = - k" | "edx q = 2" "ecx q = off - of_nat len"
    using assms(8) by (auto simp: seeks_back_def)
  then show ?thesis by cases (use assms so in \<open>simp_all add: sys_lseek_handler_def Let_def\<close>)
qed

text \<open>C29. Bytes that the write call stores in a file of \<open>tmpfs\<close> are what the read call delivers from the same
  descriptor once the lseek call has gone back to where the write began, be it from the start of the file, from
  the position after the write or from the end. The write is one whose end does not pass 32 bits.\<close>

theorem write_then_read:
  assumes "tmpfs_ok F s" and "tmpfs_fd F s fds fd" and "synced s (fd_node s fds fd)"
    and "sint (ebx w) = fd" and "sint (ebx q) = fd" and "sint (ebx r) = fd"
    and "unat (fd_offset s fds fd) + unat (edx w) < 2 ^ 32"
    and "sys_write_handler w fds s = Some (ret, fds, s1)" and "0 \<le> ret"
    and "seeks_back (fd_offset s fds fd) (edx w) (length (contents s1 (fd_file s fds fd))) q"
    and "edx r = edx w" and "is_user_pointer (ecx r) (edx r)"
  shows "\<exists>s2 s3. sys_lseek_handler q fds s1 = Some (int (unat (fd_offset s fds fd)), fds, s2) \<and>
    sys_read_handler r fds s2 = Some (int (unat (edx w)), fds, s3) \<and>
    peek (kmem s3) (ecx r) (unat (edx w)) = peek (kmem s) (ecx w) (unat (edx w))"
proof -
  let ?off = "fd_offset s fds fd" and ?n = "fd_node s fds fd" and ?fp = "fd_file s fds fd" and ?o = "fds (nat fd)"
  let ?sz = "edx w"
  have w: "is_user_pointer (ecx w) ?sz" "sys_write fd (ecx w) ?sz fds s = Some (ret, s1)"
    using assms(4,8,9) by (auto simp: sys_write_handler_def split: if_splits)
  have sz: "unat ?sz \<le> 26214400"
  proof (rule ccontr)
    assume "\<not> ?thesis"
    then have "ret = - ENOSPC"
      using huge_write_refused [OF assms(2) _ assms(7)] w by (auto simp: is_user_pointer_def)
    then show False using assms(9) by simp
  qed
  then have small: "unat ?sz \<le> 0xC0000000" by simp
  have wb: "ecx w \<noteq> 0" "unat (ecx w) + unat ?sz \<le> unat KERNEL_SPACE_START"
    using w(1) is_user_pointer_range [OF small] by (auto simp: user_range_def)
  have rb: "ecx r \<noteq> 0" "unat (ecx r) + unat ?sz \<le> unat KERNEL_SPACE_START"
    using assms(11,12) is_user_pointer_range [OF small] by (auto simp: user_range_def)
  obtain ret' s' z where sw: "sys_write fd (ecx w) ?sz fds s = Some (ret', s')" "tmpfs_ok F s'" "tmpfs_fd F s' fds fd"
    "user_memory_same s s'" "\<forall>q\<in>F. q \<noteq> ?fp \<longrightarrow> contents s' q = contents s q"
    "\<forall>o'. o' \<noteq> fds (nat fd) \<longrightarrow> files s' o' = files s o'" "\<forall>n. f_node (files s' n) = f_node (files s n)"
    "nodes s' = (nodes s)(?n := (nodes s ?n)\<lparr>n_size := z\<rparr>)" "synced s ?n \<longrightarrow> synced s' ?n"
    "if unat ?off + unat ?sz > 26214400 then ret' = - ENOSPC \<and> s' = s
     else ret' = - ENOMEM \<and> s' = s \<or>
       ret' = int (unat ?sz) \<and> fd_offset s' fds fd = ?off + ?sz \<and>
       contents s' ?fp = overwrite (contents s ?fp) (unat ?off) (peek (kmem s) (ecx w) (unat ?sz))"
    using sys_write_tmpfs [OF assms(1,2) wb(1) assms(7) wb(2)] by (elim exE conjE) (rule that)
  have e: "ret' = ret" "s' = s1" using w(2) sw(1) by simp_all
  have s1: "tmpfs_ok F s1" "tmpfs_fd F s1 fds fd" "\<forall>x. f_node (files s1 x) = f_node (files s x)"
      "nodes s1 = (nodes s)(?n := (nodes s ?n)\<lparr>n_size := z\<rparr>)" "synced s1 ?n"
    using sw(2,3,7,8,9) assms(3) unfolding e by blast+
  have big: "unat ?off + unat ?sz \<le> 26214400" and o1: "fd_offset s1 fds fd = ?off + ?sz"
    and c: "contents s1 ?fp = overwrite (contents s ?fp) (unat ?off) (peek (kmem s) (ecx w) (unat ?sz))"
    using sw(10) assms(9) unfolding e by (auto split: if_splits)
  have n1: "fd_node s1 fds fd = ?n" "fd_file s1 fds fd = ?fp" by (simp_all add: s1(3,4))
  have d: "valid_fd fd" "?o \<noteq> 0" "?n \<noteq> 0" using assms(2) by (auto simp: tmpfs_fd_def Let_def)
  have len: "n_size (nodes s1 ?n) = of_nat (length (contents s1 ?fp))"
    using s1(5) n1 by (simp add: synced_def contents_def s1(4))
  let ?s2 = "s1\<lparr>files := (files s1)(?o := (files s1 ?o)\<lparr>f_offset := ?off\<rparr>)\<rparr>"
  have seek: "sys_lseek_handler q fds s1 = Some (int (unat ?off), fds, ?s2)"
    by (rule lseek_back [where len = "length (contents s1 ?fp)"])
      (use assms(5,10) d n1 len o1 big s1(3) in auto)
  have t2: "tmpfs_ok F ?s2" "tmpfs_fd F ?s2 fds fd" using s1(1,2) by (auto simp: tmpfs_ok_def tmpfs_fd_def Let_def)
  have o2: "fd_offset ?s2 fds fd = ?off" "fd_file ?s2 fds fd = ?fp" using n1 by simp_all
  have c2: "contents ?s2 ?fp = contents s1 ?fp" by (simp add: contents_def)
  obtain n s3 where r: "sys_read fd (ecx r) ?sz fds ?s2 = Some (int n, s3)"
    "n = min (unat ?sz) (length (contents ?s2 ?fp) - unat ?off)"
    "peek (kmem s3) (ecx r) n = take (unat ?sz) (drop (unat ?off) (contents ?s2 ?fp))"
    using sys_read_tmpfs [OF t2 rb(1) _ rb(2)] assms(7) unfolding o2 by blast
  have "n = unat ?sz" using r(2) unfolding c2 c by simp
  then have "sys_read_handler r fds ?s2 = Some (int (unat ?sz), fds, s3)"
    and "peek (kmem s3) (ecx r) (unat ?sz) = peek (kmem s) (ecx w) (unat ?sz)"
    using r(1,3) assms(6,11,12) overwrite_read [of "peek (kmem s) (ecx w) (unat ?sz)"]
    unfolding c2 c by (simp_all add: sys_read_handler_def)
  then show ?thesis using seek by blast
qed

definition call_frame :: "u32 \<Rightarrow> u32 \<Rightarrow> u32 \<Rightarrow> regs" where
  "call_frame b c d = regs_zero\<lparr>ebx := b, ecx := c, edx := d\<rparr>"

lemma write_then_read_witness:
  "\<exists>s1 s2 s3. sys_write_handler (call_frame 3 0x1000 5) fds_demo vfs_demo = Some (5, fds_demo, s1) \<and>
     sys_lseek_handler (call_frame 3 (- 5) 1) fds_demo s1 = Some (0, fds_demo, s2) \<and>
     sys_read_handler (call_frame 3 0x2000 5) fds_demo s2 = Some (5, fds_demo, s3) \<and>
     peek (kmem s3) 0x2000 5 = peek (kmem vfs_demo) 0x1000 5"
proof -
  obtain s1 where w: "sys_write 3 0x1000 5 fds_demo vfs_demo = Some (5, s1)" using write_demo by auto
  have "sys_write_handler (call_frame 3 0x1000 5) fds_demo vfs_demo = Some (5, fds_demo, s1)"
    using w by (simp add: sys_write_handler_def call_frame_def is_user_pointer_def)
  moreover have "synced vfs_demo (fd_node vfs_demo fds_demo 3)" "fd_offset vfs_demo fds_demo 3 = 0"
    by (simp_all add: synced_def vfs_demo_def fs_demo_node_def zero_node_def)
  ultimately show ?thesis
    using write_then_read [OF tmpfs_ok_demo tmpfs_fd_demo(1), of "call_frame 3 0x1000 5" "call_frame 3 (- 5) 1"
        "call_frame 3 0x2000 5" 5 s1]
    by (simp add: seeks_back_def call_frame_def is_user_pointer_def)
qed

section \<open>Making a directory and looking it up\<close>

text \<open>
  The part of the tree that paths over \<open>names\<close> reach: live nodes, closed under lookup of those names and under
  mounts, that find their children in their list of children or have none; those that can create nodes
  belong to \<open>tmpfs\<close>. The root is no mount point.
\<close>

definition vfs_tree :: "u8 list set \<Rightarrow> u32 set \<Rightarrow> fs_state \<Rightarrow> bool" where
  "vfs_tree names N s \<longleftrightarrow> heap_inv (fs_heap s) \<and> N \<subseteq> live_pointers (fs_heap s) \<and> vfs_root s \<in> N \<and>
     n_flags (nodes s (vfs_root s)) AND FS_MOUNTPOINT = 0 \<and>
     (\<forall>n\<in>N. (n_flags (nodes s n) AND FS_MOUNTPOINT \<noteq> 0 \<longrightarrow> n_mount (nodes s n) \<in> N) \<and>
        n_finddir (nodes s n) \<in> {Generic_finddir, No_callback} \<and> n_create (nodes s n) \<in> {Tmpfs_create, No_callback} \<and>
        (n_create (nodes s n) = Tmpfs_create \<longrightarrow> n_finddir (nodes s n) = Generic_finddir) \<and>
        (\<forall>c\<in>set (n_children (nodes s n)). c \<in> live_pointers (fs_heap s) \<and> (n_name (nodes s c) \<in> names \<longrightarrow> c \<in> N)))"

text \<open>What \<open>finddir\<close> of a node of such a tree finds.\<close>

definition child_of :: "fs_state \<Rightarrow> u32 \<Rightarrow> u8 list \<Rightarrow> u32" where
  "child_of s n name = (if n_finddir (nodes s n) = Generic_finddir then vfs_generic_finddir n name s else 0)"

lemma tree_nonnull: "vfs_tree names N s \<Longrightarrow> n \<in> N \<Longrightarrow> n \<noteq> 0"
  using heap.live_nonnull by (auto simp: vfs_tree_def)

lemma tree_finddir: "vfs_tree names N s \<Longrightarrow> n \<in> N \<Longrightarrow> node_finddir n c s = Some (child_of s n c, s)"
  using tree_nonnull [of names N s n] by (auto simp: node_finddir_def child_of_def vfs_tree_def)

lemma tree_child:
  assumes "vfs_tree names N s" and "n \<in> N" and "c \<in> names" and "child_of s n c \<noteq> 0"
  shows "child_of s n c \<in> N"
proof -
  have "find (\<lambda>x. n_name (nodes s x) = c) (n_children (nodes s n)) = Some (child_of s n c)"
    using assms(4) by (auto simp: child_of_def vfs_generic_finddir_def split: option.splits if_splits)
  then have "child_of s n c \<in> set (n_children (nodes s n))" "n_name (nodes s (child_of s n c)) = c"
    by (auto simp: find_Some_iff)
  then show ?thesis using assms(1-3) by (auto simp: vfs_tree_def)
qed

lemma resolve_tree:
  assumes "vfs_tree names N s" and "n \<in> N" and "resolve_mounts s n hops = Some (m, hops')"
  shows "m \<in> N \<and> n_flags (nodes s m) AND FS_MOUNTPOINT = 0"
  using assms
proof (induction s n hops rule: resolve_mounts.induct)
  case (1 s n hops)
  have n0: "n \<noteq> 0" using tree_nonnull 1(2,3) by blast
  show ?case
  proof (cases "n_flags (nodes s n) AND FS_MOUNTPOINT = 0")
    case True
    then show ?thesis using 1(3,4) by (simp add: resolve_mounts.simps [of s n])
  next
    case False
    then have "n_mount (nodes s n) \<in> N" using 1(2,3) by (simp add: vfs_tree_def)
    then show ?thesis using 1(1,2,4) False n0 by (simp add: resolve_mounts.simps [of s n] split: if_splits)
  qed
qed

lemma resolve_same:
  assumes "vfs_tree names N s" and "n \<in> N"
    and "\<forall>m\<in>N. n_flags (nodes s' m) = n_flags (nodes s m) \<and> n_mount (nodes s' m) = n_mount (nodes s m)"
  shows "resolve_mounts s' n hops = resolve_mounts s n hops"
  using assms
proof (induction s n hops rule: resolve_mounts.induct)
  case (1 s n hops)
  then show ?case
    by (subst (1 2) resolve_mounts.simps) (auto simp: vfs_tree_def)
qed

lemma walk_total:
  assumes "vfs_tree names N s" and "n \<in> N" and "set cs \<subseteq> names"
  shows "\<exists>m. walk n hops cs s = Some (m, s) \<and> (m \<noteq> 0 \<longrightarrow> m \<in> N \<and> n_flags (nodes s m) AND FS_MOUNTPOINT = 0)"
  using assms(2,3)
proof (induction cs arbitrary: n hops)
  case Nil
  then show ?case using resolve_tree [OF assms(1) Nil(1), of hops]
    by (cases "resolve_mounts s n hops") auto
next
  case (Cons c cs)
  show ?case
  proof (cases "resolve_mounts s n hops")
    case (Some x)
    obtain m hops' where x: "x = (m, hops')" by fastforce
    have m: "m \<in> N" using resolve_tree [OF assms(1) Cons(2)] Some x by blast
    show ?thesis
    proof (cases "child_of s m c = 0")
      case True
      then show ?thesis using Some x tree_finddir [OF assms(1) m] tree_nonnull [OF assms(1) m] by simp
    next
      case False
      then have "child_of s m c \<in> N" using tree_child [OF assms(1) m] Cons(3) by simp
      then show ?thesis
        using Cons(1,3) False Some x tree_finddir [OF assms(1) m] tree_nonnull [OF assms(1) m] by simp
    qed
  qed simp
qed

text \<open>
  The state after a directory \<open>new\<close> has been made in \<open>d\<close>: the heap has one block more, \<open>d\<close> one child more, and
  nothing else has changed.
\<close>

definition with_directory :: "heap_state \<Rightarrow> u32 \<Rightarrow> u32 \<Rightarrow> u8 list \<Rightarrow> u32 \<Rightarrow> fs_state \<Rightarrow> fs_state" where
  "with_directory h new d name mode s = s\<lparr>fs_heap := h, nodes := (nodes s)(
     new := zero_node\<lparr>n_name := name, n_flags := FS_DIRECTORY, n_permissions := mode AND 0xFFF, n_parent := d,
       n_readdir := Generic_readdir, n_finddir := Generic_finddir, n_create := Tmpfs_create, n_unlink := Tmpfs_unlink,
       n_open := Tmpfs_open, n_close := Tmpfs_close\<rparr>,
     d := (nodes s d)\<lparr>n_children := n_children (nodes s d) @ [new]\<rparr>)\<rparr>"

definition made_in :: "u8 list set \<Rightarrow> u32 set \<Rightarrow> u32 \<Rightarrow> u32 \<Rightarrow> u8 list \<Rightarrow> u32 \<Rightarrow> fs_state \<Rightarrow> fs_state \<Rightarrow> bool" where
  "made_in names N new d name mode s s' \<longleftrightarrow>
     (\<exists>h. kmalloc SIZEOF_VFS_NODE (fs_heap s) = (h, new) \<and> s' = with_directory h new d name mode s) \<and>
     new \<noteq> 0 \<and> new \<notin> live_pointers (fs_heap s) \<and> vfs_tree names (insert new N) s'"

lemma tmpfs_mkdir:
  assumes tree: "vfs_tree names N s" and d: "d \<in> N" "n_create (nodes s d) = Tmpfs_create" and len: "length name < VFS_MAX_FILENAME"
  shows "node_create d name ((mode AND 0xFFF) OR S_IFDIR) s = Some (0, s) \<or>
    (\<exists>new s'. node_create d name ((mode AND 0xFFF) OR S_IFDIR) s = Some (new, s') \<and> made_in names N new d name mode s s')"
proof -
  obtain h new where k: "kmalloc SIZEOF_VFS_NODE (fs_heap s) = (h, new)" by fastforce
  have hi: "heap_inv (fs_heap s)" and Nl: "N \<subseteq> live_pointers (fs_heap s)" using tree by (simp_all add: vfs_tree_def)
  let ?mode = "(mode AND 0xFFF) OR S_IFDIR"
  have dir: "?mode AND S_IFDIR \<noteq> 0" and perm: "?mode AND 0xFFF = mode AND 0xFFF"
  proof -
    have d: "?mode AND S_IFDIR = S_IFDIR" by (simp add: bit.conj_disj_distrib2)
    show "?mode AND S_IFDIR \<noteq> 0" unfolding d by simp
    show "?mode AND 0xFFF = mode AND 0xFFF" by (simp add: bit.conj_disj_distrib2 and.assoc)
  qed
  show ?thesis
  proof (cases "new = 0")
    case True
    then have "h = fs_heap s" using heap.alloc_null [OF hi] k by blast
    then show ?thesis using k True d by (simp add: node_create_def tmpfs_create_def fs_kmalloc_def Let_def)
  next
    case False
    note live = heap.alloc_live [OF hi k False]
    have nd: "new \<noteq> d" "new \<notin> N" using live Nl d(1) by auto
    let ?s = "with_directory h new d name mode s"
    have c: "node_create d name ?mode s = Some (new, ?s)"
      using k False d(2) dir perm len nd
      by (simp add: node_create_def tmpfs_create_def fs_kmalloc_def on_node_def with_directory_def zero_node_def Let_def)
    have old: "n_flags (nodes ?s n) = n_flags (nodes s n)" "n_mount (nodes ?s n) = n_mount (nodes s n)"
      "n_finddir (nodes ?s n) = n_finddir (nodes s n)" "n_create (nodes ?s n) = n_create (nodes s n)"
      "n_name (nodes ?s n) = n_name (nodes s n)" if "n \<noteq> new" for n
      using that by (simp_all add: with_directory_def)
    have chs: "set (n_children (nodes ?s n)) \<subseteq> insert new (set (n_children (nodes s n)))" if "n \<noteq> new" for n
      using that by (auto simp: with_directory_def)
    have fresh: "n_children (nodes ?s new) = []" "n_flags (nodes ?s new) = FS_DIRECTORY"
      "n_finddir (nodes ?s new) = Generic_finddir" "n_create (nodes ?s new) = Tmpfs_create"
      using nd(1) by (simp_all add: with_directory_def zero_node_def)
    have root: "vfs_root ?s = vfs_root s" "fs_heap ?s = h" by (simp_all add: with_directory_def)
    have closed: "x \<in> live_pointers h \<and> (n_name (nodes ?s x) \<in> names \<longrightarrow> x \<in> insert new N)"
      if "n \<in> insert new N" "x \<in> set (n_children (nodes ?s n))" for n x
    proof (cases "x = new")
      case False
      then have "n \<noteq> new" using that(2) fresh(1) by auto
      then have "n \<in> N" "x \<in> set (n_children (nodes s n))" using that chs [of n] False by auto
      then show ?thesis using tree live False old(5) [OF False] by (auto simp: vfs_tree_def)
    qed (use live in simp)
    have "vfs_tree names (insert new N) ?s"
      unfolding vfs_tree_def root
    proof (intro conjI ballI)
      fix n assume "n \<in> insert new N"
      then consider "n = new" | "n \<in> N" "n \<noteq> new" by blast
      note cases = this
      show "n_flags (nodes ?s n) AND FS_MOUNTPOINT \<noteq> 0 \<longrightarrow> n_mount (nodes ?s n) \<in> insert new N"
        by (rule cases) (use fresh old tree in \<open>auto simp: vfs_tree_def\<close>)
      show "n_finddir (nodes ?s n) \<in> {Generic_finddir, No_callback}"
        by (rule cases) (use fresh old tree in \<open>auto simp: vfs_tree_def\<close>)
      show "n_create (nodes ?s n) \<in> {Tmpfs_create, No_callback}"
        by (rule cases) (use fresh old tree in \<open>auto simp: vfs_tree_def\<close>)
      show "n_create (nodes ?s n) = Tmpfs_create \<longrightarrow> n_finddir (nodes ?s n) = Generic_finddir"
        by (rule cases) (use fresh old tree in \<open>auto simp: vfs_tree_def\<close>)
    next
      show "n_flags (nodes ?s (vfs_root s)) AND FS_MOUNTPOINT = 0"
        using tree by (subst old(1)) (use nd(2) in \<open>auto simp: vfs_tree_def\<close>)
    qed (use tree live closed Nl in \<open>auto simp: vfs_tree_def\<close>)
    then show ?thesis using c k live False by (auto simp: made_in_def)
  qed
qed

lemma made_in_nodes:
  assumes "made_in names N new d name mode s s'" and "vfs_tree names N s" and "d \<in> N" and "n \<in> N"
    and "n_finddir (nodes s d) = Generic_finddir"
  shows "n_flags (nodes s' n) = n_flags (nodes s n)" and "n_mount (nodes s' n) = n_mount (nodes s n)"
    and "child_of s n c \<noteq> 0 \<Longrightarrow> child_of s' n c = child_of s n c"
    and "child_of s d name = 0 \<Longrightarrow> child_of s' d name = new"
proof -
  obtain h where s': "s' = with_directory h new d name mode s" and nl: "new \<notin> live_pointers (fs_heap s)" "new \<noteq> 0"
    using assms(1) by (auto simp: made_in_def)
  have nN: "new \<notin> N" using nl assms(2) by (auto simp: vfs_tree_def)
  have nd: "new \<noteq> d" "new \<noteq> n" using nN assms(3,4) by auto
  show "n_flags (nodes s' n) = n_flags (nodes s n)" "n_mount (nodes s' n) = n_mount (nodes s n)"
    using nd by (simp_all add: s' with_directory_def)
  have names: "find (\<lambda>x. n_name (nodes s' x) = c) (n_children (nodes s m)) =
      find (\<lambda>x. n_name (nodes s x) = c) (n_children (nodes s m))" if "m \<in> N" for m c
    using that assms(2) nl by (intro find_cong) (auto simp: s' with_directory_def vfs_tree_def)
  have more: "\<exists>xs. n_children (nodes s' n) = n_children (nodes s n) @ xs" and more2: "n_finddir (nodes s' n) = n_finddir (nodes s n)"
    using nd by (auto simp: s' with_directory_def)
  show "child_of s' n c = child_of s n c" if c: "child_of s n c \<noteq> 0"
  proof -
    have "find (\<lambda>x. n_name (nodes s x) = c) (n_children (nodes s n)) = Some (child_of s n c)"
      using c by (auto simp: child_of_def vfs_generic_finddir_def split: option.splits if_splits)
    then have "find (\<lambda>x. n_name (nodes s' x) = c) (n_children (nodes s' n)) = Some (child_of s n c)"
      using more names [OF assms(4), of c] by (auto simp: find_append)
    then show ?thesis using c more2 by (simp add: child_of_def vfs_generic_finddir_def split: if_splits)
  qed
  have d0: "d \<noteq> 0" by (rule tree_nonnull [OF assms(2,3)])
  show "child_of s' d name = new" if none: "child_of s d name = 0"
  proof -
    have "find (\<lambda>x. n_name (nodes s x) = name) (n_children (nodes s d)) = None"
    proof (cases "find (\<lambda>x. n_name (nodes s x) = name) (n_children (nodes s d))")
      case (Some x)
      then have "x \<in> set (n_children (nodes s d))" by (auto simp: find_Some_iff)
      then have "x \<noteq> 0" using assms(2,3) heap.live_nonnull [of "fs_heap s" x] by (auto simp: vfs_tree_def)
      then show ?thesis using none Some assms(5) d0 by (simp add: child_of_def vfs_generic_finddir_def)
    qed
    then have "find (\<lambda>x. n_name (nodes s' x) = name) (n_children (nodes s' d)) = Some new"
      using names [OF assms(3), of name] nd by (simp add: find_append s' with_directory_def)
    then show ?thesis using assms(5) d0 nd by (simp add: child_of_def vfs_generic_finddir_def s' with_directory_def)
  qed
qed

lemma walk_kept:
  assumes tree: "vfs_tree names N s" and m: "made_in names N new d name mode s s'" "d \<in> N"
      "n_finddir (nodes s d) = Generic_finddir"
    and "n \<in> N" and "set cs \<subseteq> names" and "walk n hops cs s = Some (x, s)" and "x \<noteq> 0"
  shows "walk n hops cs s' = Some (x, s') \<and>
    (x = d \<longrightarrow> child_of s d name = 0 \<longrightarrow> walk n hops (cs @ [name]) s' = Some (new, s'))"
  using assms(5-)
proof (induction cs arbitrary: n hops)
  case Nil
  note same = made_in_nodes [OF m(1) tree m(2) _ m(3)]
  have tree': "vfs_tree names (insert new N) s'" using m(1) by (simp add: made_in_def)
  have r: "resolve_mounts s' n hops = resolve_mounts s n hops"
    by (rule resolve_same [OF tree Nil(1)]) (use same(1,2) in blast)
  obtain h' where h: "resolve_mounts s n hops = Some (x, h')" using Nil(3,4) by (auto split: option.splits)
  have "new \<noteq> 0" "new \<noteq> d" using m(1,2) tree by (auto simp: made_in_def vfs_tree_def)
  then have "n_flags (nodes s' new) = FS_DIRECTORY"
    using m(1) by (auto simp: made_in_def with_directory_def)
  then have new: "resolve_mounts s' new h' = Some (new, h')" by (subst resolve_mounts.simps) simp
  have "walk n hops ([] @ [name]) s' = Some (new, s')" if "x = d" "child_of s d name = 0"
  proof -
    have "node_finddir d name s' = Some (new, s')"
      using tree_finddir [OF tree', of d] m(2) same(4) [OF _ that(2)] that by auto
    then show ?thesis using h r new that \<open>new \<noteq> 0\<close> tree_nonnull [OF tree m(2)] by simp
  qed
  then show ?case using h r by simp
next
  case (Cons c cs)
  note same = made_in_nodes [OF m(1) tree m(2) _ m(3)]
  have tree': "vfs_tree names (insert new N) s'" using m(1) by (simp add: made_in_def)
  have r: "resolve_mounts s' n hops = resolve_mounts s n hops"
    by (rule resolve_same [OF tree Cons(2)]) (use same(1,2) in blast)
  obtain y h' where h: "resolve_mounts s n hops = Some (y, h')" using Cons(4,5) by (auto split: option.splits)
  have y: "y \<in> N" "y \<noteq> 0" using resolve_tree [OF tree Cons(2) h] tree_nonnull [OF tree] by auto
  have c0: "child_of s y c \<noteq> 0" and w: "walk (child_of s y c) h' cs s = Some (x, s)"
    using Cons(4,5) h y(2) tree_finddir [OF tree y(1)] by (auto split: if_splits)
  have "child_of s y c \<in> N" by (rule tree_child [OF tree y(1) _ c0]) (use Cons(3) in simp)
  note IH = Cons(1) [OF this _ w Cons(5)]
  have "node_finddir y c s' = Some (child_of s y c, s')"
    using tree_finddir [OF tree', of y] y(1) same(3) [OF y(1) c0] by simp
  then show ?case using IH Cons(3) h r y(2) c0 by simp
qed

lemma pieces_slash: "pieces (p @ 0x2F # q) = pieces p @ pieces q"
proof (induction p)
  case (Cons c p)
  then show ?case by (cases "pieces p") auto
qed simp

lemma components_append_slash: "components (p @ 0x2F # q) = components p @ components q"
  by (simp add: components_def pieces_slash)

lemma components_name: "0x2F \<notin> set name \<Longrightarrow> name \<noteq> [] \<Longrightarrow> components name = [name]"
proof -
  have "0x2F \<notin> set name \<Longrightarrow> pieces name = [name]" by (induction name) auto
  then show "0x2F \<notin> set name \<Longrightarrow> name \<noteq> [] \<Longrightarrow> components name = [name]" by (simp add: components_def)
qed

lemma pieces_length: "c \<in> set (pieces p) \<Longrightarrow> length c \<le> length p"
proof (induction p arbitrary: c)
  case (Cons b p)
  have h: "hd (pieces p) \<in> set (pieces p)" by simp
  consider "c = []" | "c = b # hd (pieces p)" | "c \<in> set (pieces p)"
    using Cons(2) by (auto split: if_splits dest: list.set_sel(2) [rotated])
  then show ?case using Cons(1) [of c] Cons(1) [OF h] by cases auto
qed simp

lemma components_length: "c \<in> set (components p) \<Longrightarrow> length c \<le> length p"
  using pieces_length by (auto simp: components_def)

lemma copy_loop_length: "copy_loop m src k dest = (0, p) \<Longrightarrow> length p < length dest + k"
  by (induction m src k dest rule: copy_loop.induct) (auto split: if_splits)

lemma copy_string_length:
  "copy_string_from_user m p 256 = (0, path) \<Longrightarrow> length path < 255"
  using copy_loop_length [of m p 255 "[]"] by (auto simp: copy_string_from_user_def split: if_splits)

text \<open>Without a mount point at the root, looking a path up is walking its names, whatever path it is.\<close>

lemma findnode_tree:
  assumes "vfs_tree names N s" and "\<forall>c\<in>set (components p). length c < VFS_MAX_FILENAME"
  shows "vfs_findnode (0x2F # p) s = walk (vfs_root s) 0 (components p) s"
proof (cases "p = []")
  case True
  then show ?thesis using assms(1) by (simp add: vfs_findnode_def vfs_tree_def resolve_mounts.simps)
qed (use lookup_loop_walk assms(2) in \<open>simp add: vfs_findnode_def\<close>)

text \<open>
  What \<open>mkdir\<close> returns when it makes nothing: the parent \<open>d\<close> is missing, no directory, protected or of a
  file system without files of its own, or the name is taken.
\<close>

definition mkdir_refusal :: "u32 \<Rightarrow> u8 list \<Rightarrow> fs_state \<Rightarrow> int option" where
  "mkdir_refusal d name s =
     (if d = 0 then Some (- ENOENT)
      else if n_flags (nodes s d) AND FS_DIRECTORY = 0 then Some (- ENOTDIR)
      else if n_flags (nodes s d) AND FS_SYSTEM \<noteq> 0 then Some (- EACCES)
      else if n_create (nodes s d) = No_callback then Some (- EPERM)
      else if vfs_generic_finddir d name s \<noteq> 0 then Some (- EEXIST)
      else None)"

lemma mkdir_split:
  assumes "copy_string_from_user (kmem s) (ebx r) 256 = (0, pp @ 0x2F # name)" and "name \<noteq> []" and "0x2F \<notin> set name"
    and "vfs_findnode (if pp = [] then [0x2F] else pp) s = Some (d, s)"
    and "d \<noteq> 0 \<longrightarrow> node_finddir d name s = Some (child_of s d name, s)"
    and "d \<noteq> 0 \<longrightarrow> n_create (nodes s d) \<noteq> No_callback \<longrightarrow> n_finddir (nodes s d) = Generic_finddir"
  shows "sys_mkdir_handler r fds s =
    (case mkdir_refusal d name s of Some e \<Rightarrow> Some (e, fds, s)
     | None \<Rightarrow> map_option (\<lambda>(new, s). (if new = 0 then - ENOMEM else 0, fds, s))
         (node_create d name ((ecx r AND 0xFFF) OR S_IFDIR) s))"
proof -
  have len: "length (pp @ 0x2F # name) < 255" by (rule copy_string_length [OF assms(1)])
  have name: "rev (takeWhile (\<lambda>c. c \<noteq> 0x2F) (rev (pp @ 0x2F # name))) = name"
  proof -
    have "takeWhile (\<lambda>c. c \<noteq> 0x2F) (rev name @ 0x2F # rev pp) = rev name @ takeWhile (\<lambda>c. c \<noteq> 0x2F) (0x2F # rev pp)"
      by (rule takeWhile_append2) (use assms(3) in auto)
    then show ?thesis by simp
  qed
  have parent: "vfs_findnode (if length (pp @ 0x2F # name) - length name - 1 = 0 then [0x2F]
      else take (length (pp @ 0x2F # name) - length name - 1) (pp @ 0x2F # name)) s = Some (d, s)"
    using assms(4) by (cases "pp = []") simp_all
  have checks: "pp @ 0x2F # name \<noteq> []" "\<not> 256 \<le> length (pp @ 0x2F # name)" "\<not> 0x2F \<notin> set (pp @ 0x2F # name)"
    using len by simp_all
  have "sys_mkdir_handler r fds s =
     (if d = 0 then Some (- ENOENT, fds, s)
      else if n_flags (nodes s d) AND FS_DIRECTORY = 0 then Some (- ENOTDIR, fds, s)
      else if n_flags (nodes s d) AND FS_SYSTEM \<noteq> 0 then Some (- EACCES, fds, s)
      else if n_create (nodes s d) = No_callback then Some (- EPERM, fds, s)
      else case node_finddir d name s of None \<Rightarrow> None
      | Some (found, s) \<Rightarrow>
        if found \<noteq> 0 then Some (- EEXIST, fds, s)
        else case node_create d name ((ecx r AND 0xFFF) OR S_IFDIR) s of None \<Rightarrow> None
        | Some (new_dir, s) \<Rightarrow> Some (if new_dir = 0 then - ENOMEM else 0, fds, s))"
    unfolding sys_mkdir_handler_def Let_def assms(1) prod.case name parent option.case
    using checks assms(2) by (simp only: if_False less_irrefl simp_thms)
  then show ?thesis
    using assms(5,6) by (simp add: mkdir_refusal_def child_of_def split: option.splits)
qed

text \<open>C31. On a path in a tree of directories of the kernel and of \<open>tmpfs\<close> the mkdir call returns the error that the
  parent directory or a taken name calls for (\<open>mkdir_refusal\<close>) and changes nothing, or ENOMEM and changes nothing,
  or it returns 0 and has made one directory: the heap has one block more, the parent one child more, no other
  node and no memory has changed, the path leads to the new directory, every path over \<open>names\<close> that led to a node
  still leads there, and the tree is again such a tree. Paths that end in a slash are not covered.\<close>

theorem mkdir_then_lookup:
  assumes "vfs_tree names N s" and "copy_string_from_user (kmem s) (ebx r) 256 = (0, pp @ 0x2F # name)"
    and "name \<noteq> []" and "0x2F \<notin> set name" and "set (components (pp @ 0x2F # name)) \<subseteq> names"
  shows "\<exists>d ret s'. vfs_findnode (if pp = [] then [0x2F] else pp) s = Some (d, s) \<and>
    sys_mkdir_handler r fds s = Some (ret, fds, s') \<and>
    (case mkdir_refusal d name s of
       Some e \<Rightarrow> ret = e \<and> s' = s
     | None \<Rightarrow> ret = - ENOMEM \<and> s' = s \<or>
         ret = 0 \<and> (\<exists>new. made_in names N new d name (ecx r) s s' \<and>
           vfs_findnode (pp @ 0x2F # name) s' = Some (new, s') \<and>
           (\<forall>p x. set (components p) \<subseteq> names \<and> (\<forall>c\<in>set (components p). length c < VFS_MAX_FILENAME) \<and>
              vfs_findnode (0x2F # p) s = Some (x, s) \<and> x \<noteq> 0 \<longrightarrow> vfs_findnode (0x2F # p) s' = Some (x, s'))))"
proof -
  have len: "length (pp @ 0x2F # name) < 255" by (rule copy_string_length [OF assms(2)])
  have root: "vfs_root s \<in> N" using assms(1) by (simp add: vfs_tree_def)
  let ?parent = "if pp = [] then [0x2F] else pp"
  obtain d where d: "vfs_findnode ?parent s = Some (d, s)" "d \<noteq> 0 \<longrightarrow> d \<in> N"
    and walk: "d \<noteq> 0 \<longrightarrow> (\<exists>p. pp @ 0x2F # name = 0x2F # p \<and> (\<exists>cs. components p = cs @ [name] \<and>
      set cs \<subseteq> names \<and> walk (vfs_root s) 0 cs s = Some (d, s)))"
  proof (cases "pp = [] \<or> hd pp = 0x2F")
    case True
    define p' where "p' = tl ?parent"
    have pp: "?parent = 0x2F # p'" using True by (cases pp) (auto simp: p'_def)
    define p where "p = tl (pp @ 0x2F # name)"
    have p: "pp @ 0x2F # name = 0x2F # p" using True by (cases pp) (auto simp: p_def)
    have cs: "components p = components p' @ [name]"
    proof -
      have "components p = components (pp @ 0x2F # name)" unfolding p by simp
      also have "\<dots> = components pp @ [name]" using components_name assms(3,4) by (simp add: components_append_slash)
      also have "components pp = components p'" using pp by (cases "pp = []") auto
      finally show ?thesis .
    qed
    have names: "set (components p') \<subseteq> names" using assms(5) cs unfolding p by simp
    have fits: "\<forall>c\<in>set (components p'). length c < VFS_MAX_FILENAME"
    proof
      fix c assume "c \<in> set (components p')"
      then have "length c \<le> length p'" by (rule components_length)
      moreover have "length p' < 255" using len by (auto simp: p'_def)
      ultimately show "length c < VFS_MAX_FILENAME" by simp
    qed
    obtain x where x: "walk (vfs_root s) 0 (components p') s = Some (x, s)" "x \<noteq> 0 \<longrightarrow> x \<in> N"
      using walk_total [OF assms(1) root names] by blast
    show thesis
      by (rule that [of x]) (use x findnode_tree [OF assms(1) fits] p cs names pp in auto)
  next
    case False
    then show thesis using that [of 0] by (simp add: vfs_findnode_def)
  qed
  have creates: "n_create (nodes s d) = Tmpfs_create" "n_finddir (nodes s d) = Generic_finddir"
    if "d \<noteq> 0" "n_create (nodes s d) \<noteq> No_callback"
    using that d(2) assms(1) by (auto simp: vfs_tree_def)
  have f: "d \<noteq> 0 \<longrightarrow> node_finddir d name s = Some (child_of s d name, s)"
    using tree_finddir [OF assms(1)] d(2) by blast
  have h: "sys_mkdir_handler r fds s =
    (case mkdir_refusal d name s of Some e \<Rightarrow> Some (e, fds, s)
     | None \<Rightarrow> map_option (\<lambda>(new, s). (if new = 0 then - ENOMEM else 0, fds, s))
         (node_create d name ((ecx r AND 0xFFF) OR S_IFDIR) s))"
    by (rule mkdir_split [OF assms(2-4) d(1) f]) (use creates in blast)
  show ?thesis
  proof (cases "mkdir_refusal d name s")
    case (Some e)
    then show ?thesis using d(1) h by auto
  next
    case None
    then have d0: "d \<noteq> 0" "n_create (nodes s d) \<noteq> No_callback" and free: "vfs_generic_finddir d name s = 0"
      by (auto simp: mkdir_refusal_def split: if_splits)
    then have dN: "d \<in> N" using d(2) by blast
    note c = creates [OF d0]
    have c0: "child_of s d name = 0" using free by (simp add: child_of_def)
    have "length name < VFS_MAX_FILENAME" using len by simp
    from tmpfs_mkdir [OF assms(1) dN c(1) this, of "ecx r"]
    show ?thesis
    proof (elim disjE exE conjE)
      assume "node_create d name ((ecx r AND 0xFFF) OR S_IFDIR) s = Some (0, s)"
      then show ?thesis using d(1) h None by auto
    next
      fix new s' assume n: "node_create d name ((ecx r AND 0xFFF) OR S_IFDIR) s = Some (new, s')"
        and m: "made_in names N new d name (ecx r) s s'"
      have tree': "vfs_tree names (insert new N) s'" and root': "vfs_root s' = vfs_root s" and "new \<noteq> 0"
        using m by (auto simp: made_in_def with_directory_def)
      note kept = walk_kept [OF assms(1) m dN c(2) root]
      obtain p cs where p: "pp @ 0x2F # name = 0x2F # p" "components p = cs @ [name]" "set cs \<subseteq> names"
        "walk (vfs_root s) 0 cs s = Some (d, s)" using walk d0(1) by blast
      have fits: "\<forall>c\<in>set (components p). length c < VFS_MAX_FILENAME"
      proof
        fix c assume "c \<in> set (components p)"
        then have "length c \<le> length p" by (rule components_length)
        moreover have "length p < 255" using len unfolding p(1) by simp
        ultimately show "length c < VFS_MAX_FILENAME" by simp
      qed
      have "vfs_findnode (pp @ 0x2F # name) s' = Some (new, s')"
        unfolding p(1) findnode_tree [OF tree' fits] root' p(2) using kept [OF p(3,4) d0(1)] c0 by blast
      moreover have "vfs_findnode (0x2F # p) s' = Some (x, s')"
        if "set (components p) \<subseteq> names" "\<forall>c\<in>set (components p). length c < VFS_MAX_FILENAME"
          "vfs_findnode (0x2F # p) s = Some (x, s)" "x \<noteq> 0" for p x
        using that(3) kept [OF that(1) _ that(4)]
        unfolding findnode_tree [OF tree' that(2)] findnode_tree [OF assms(1) that(2)] root' by blast
      ultimately show ?thesis using d(1) h None n m \<open>new \<noteq> 0\<close> by auto
    qed
  qed
qed

text \<open>A root directory that creates files, and the path \<open>/a\<close> in user memory.\<close>

definition mkdir_demo :: fs_state where
  "mkdir_demo = on_node (vfs_root tree_demo) (\<lambda>n. n\<lparr>n_create := Tmpfs_create\<rparr>)
     (tree_demo\<lparr>kmem := (\<lambda>_. 0)(0x1000 := 0x2F, 0x1001 := 0x61)\<rparr>)"

lemma tree_demo_node: "nodes tree_demo (vfs_root tree_demo) =
  zero_node\<lparr>n_name := bytes_of ''/'', n_flags := FS_DIRECTORY, n_permissions := PERM_READ_ONLY,
    n_readdir := Generic_readdir, n_finddir := Generic_finddir\<rparr>"
  using tree_demo_root by (auto simp: tree_demo_def vfs_init_def fs_kmalloc_def Let_def split: prod.splits if_splits)

lemma vfs_tree_demo: "vfs_tree UNIV {vfs_root mkdir_demo} mkdir_demo"
  using dirs_ok_demo [of UNIV]
  by (simp add: vfs_tree_def dirs_ok_def mkdir_demo_def on_node_def tree_demo_node zero_node_def)

lemma copy_loop_numeral:
  "copy_loop m src (numeral v) dest =
     (if src \<ge> KERNEL_SPACE_START then (- EFAULT, dest)
      else if m src = 0 then (0, dest)
      else copy_loop m (src + 1) (pred_numeral v) (dest @ [m src]))"
  by (simp only: numeral_eq_Suc copy_loop.simps)

lemma mkdir_then_lookup_witness:
  "\<exists>ret s'. sys_mkdir_handler (call_frame 0x1000 0x1ED 0) fds_demo mkdir_demo = Some (ret, fds_demo, s') \<and>
     (ret = - ENOMEM \<and> s' = mkdir_demo \<or>
      ret = 0 \<and> (\<exists>new. made_in UNIV {vfs_root mkdir_demo} new (vfs_root mkdir_demo) [0x61] 0x1ED mkdir_demo s' \<and>
        vfs_findnode (bytes_of ''/a'') s' = Some (new, s')))"
proof -
  have root: "vfs_findnode [0x2F] mkdir_demo = Some (vfs_root mkdir_demo, mkdir_demo)" by (simp add: vfs_findnode_def)
  have "copy_string_from_user (kmem mkdir_demo) 0x1000 256 = (0, [] @ 0x2F # [0x61])"
    by (simp add: copy_string_from_user_def mkdir_demo_def on_node_def copy_loop_numeral)
  moreover have "vfs_root mkdir_demo \<noteq> 0" using tree_demo_root by (simp add: mkdir_demo_def on_node_def)
  then have "mkdir_refusal (vfs_root mkdir_demo) [0x61] mkdir_demo = None"
    by (simp add: mkdir_refusal_def vfs_generic_finddir_def mkdir_demo_def on_node_def tree_demo_node zero_node_def)
  ultimately show ?thesis
    using mkdir_then_lookup [OF vfs_tree_demo, of "call_frame 0x1000 0x1ED 0" "[]" "[0x61]" fds_demo] root
    by (fastforce simp: call_frame_def bytes_of_def of_char_def)
qed

end
