(* ===== verification/Task_Spec.thy ===== *)
theory Task_Spec
  imports Syscall Tmpfs_Spec Paging_Spec
begin

text \<open>The circular run queue of src/task.c against an abstract ring: a list of distinct tasks, the current one first,
  in which neighbours point to each other. Adding, leaving and switching are insertion behind the current task, deletion
  and rotation; the scheduler picks the first ready task of the list; and under the timer alone a ready task is run
  after at most ten ticks per task of the ring.\<close>

section \<open>The ring\<close>

text \<open>Consecutive tasks of a list point to each other.\<close>

fun linked :: "(u32 \<Rightarrow> task) \<Rightarrow> u32 list \<Rightarrow> bool" where
  "linked ts (a # b # xs) \<longleftrightarrow> t_next (ts a) = b \<and> t_prev (ts b) = a \<and> linked ts (b # xs)"
| "linked ts xs \<longleftrightarrow> True"

text \<open>The ring of tasks, from the current one on.\<close>

definition ring :: "kernel \<Rightarrow> u32 list \<Rightarrow> bool" where
  "ring k qs \<longleftrightarrow> qs \<noteq> [] \<and> current_task k = hd qs \<and> linked (tasks k) (qs @ [hd qs]) \<and> distinct qs \<and> 0 \<notin> set qs"

lemma linked_cong:
  assumes "\<forall>a\<in>set (butlast xs). t_next (ts' a) = t_next (ts a)" and "\<forall>a\<in>set (tl xs). t_prev (ts' a) = t_prev (ts a)"
  shows "linked ts' xs = linked ts xs"
  using assms
proof (induction ts xs rule: linked.induct)
  case (1 ts a b xs)
  then show ?case by (cases xs) auto
qed auto

lemma linked_append: "linked ts (xs @ a # ys) \<longleftrightarrow> linked ts (xs @ [a]) \<and> linked ts (a # ys)"
proof (induction xs)
  case (Cons x xs)
  then show ?case by (cases xs) auto
qed auto

lemma linked_Cons: "linked ts (a # xs @ [c]) \<longleftrightarrow> t_next (ts a) = hd (xs @ [c]) \<and> t_prev (ts (hd (xs @ [c]))) = a \<and> linked ts (xs @ [c])"
  by (cases xs) auto

lemma tasks_on_task: "tasks (on_task p f k) q = (if q = p then f (tasks k p) else tasks k q)"
  by (simp add: on_task_def)

lemma on_task_simps [simp]:
  "current_task (on_task p f k) = current_task k" "dead_tasks (on_task p f k) = dead_tasks k"
  "tick_count (on_task p f k) = tick_count k"
  by (simp_all add: on_task_def)

lemma ring_nonempty: "ring k qs \<Longrightarrow> \<exists>xs. qs = current_task k # xs"
  by (cases qs) (auto simp: ring_def)

lemma task_queue_add_ring:
  assumes "ring k (c # xs)" and "p \<notin> set (c # xs)" and "p \<noteq> 0"
  shows "ring (task_queue_add p k) (c # p # xs)"
proof -
  have c: "current_task k = c" "c \<noteq> 0" using assms(1) by (auto simp: ring_def)
  have l: "linked (tasks k) (c # xs @ [c])" using assms(1) by (simp add: ring_def)
  let ?k = "task_queue_add p k"
  have cur: "current_task ?k = c" using c by (simp add: task_queue_add_def Let_def)
  show ?thesis
  proof (cases xs)
    case Nil
    then show ?thesis using c l assms cur by (auto simp: ring_def task_queue_add_def Let_def tasks_on_task)
  next
    case (Cons b ys)
    have b: "t_next (tasks k c) = b" "b \<noteq> c" "b \<noteq> p" "c \<noteq> p" using l assms Cons by (auto simp: ring_def)
    have t: "tasks ?k q = (if q = c then (tasks k c)\<lparr>t_next := p\<rparr> else if q = b then (tasks k b)\<lparr>t_prev := p\<rparr>
        else if q = p then (tasks k p)\<lparr>t_next := b, t_prev := c\<rparr> else tasks k q)" for q
      using b c by (simp add: task_queue_add_def Let_def tasks_on_task)
    have "linked (tasks ?k) (b # ys @ [c]) = linked (tasks k) (b # ys @ [c])"
      by (rule linked_cong) (use b assms Cons in \<open>auto simp: t butlast_append ring_def\<close>)
    then have "linked (tasks ?k) (c # p # b # ys @ [c])" using l b Cons by (simp add: t)
    then show ?thesis using assms b(4) Cons cur by (simp add: ring_def)
  qed
qed

text \<open>Taking a task between two others out.\<close>

lemma ring_unlink_linked:
  assumes "linked (tasks k) (A @ [a, p, b] @ B)" and "distinct (butlast (A @ [a, p, b] @ B))"
    and "distinct (tl (A @ [a, p, b] @ B))" and "a \<noteq> p" and "b \<noteq> p"
  shows "linked (tasks (ring_unlink p k)) (A @ [a, b] @ B)"
proof -
  have l: "linked (tasks k) (A @ [a])" "t_next (tasks k a) = p" "t_prev (tasks k p) = a" "t_next (tasks k p) = b"
    "t_prev (tasks k b) = p" "linked (tasks k) (b # B)"
    using assms(1) linked_append [of "tasks k" A a "p # b # B"] by auto
  let ?k = "ring_unlink p k"
  have t: "t_next (tasks ?k q) = (if q = a then b else t_next (tasks k q))"
    "t_prev (tasks ?k q) = (if q = b then a else t_prev (tasks k q))" for q
    using l(2-5) assms(4,5) by (auto simp: ring_unlink_def Let_def tasks_on_task)
  have "linked (tasks ?k) (A @ [a]) = linked (tasks k) (A @ [a])"
    by (rule linked_cong) (use assms(2,3) in \<open>auto simp: t butlast_append tl_append split: list.splits if_splits\<close>)
  moreover have "linked (tasks ?k) (b # B) = linked (tasks k) (b # B)"
    by (rule linked_cong) (use assms(2,3) in \<open>auto simp: t butlast_append tl_append split: list.splits if_splits\<close>)
  ultimately show ?thesis
    using l by (simp add: linked_append [of _ A a "b # B"] t)
qed

lemma ring_unlink_ring:
  assumes "ring k (c # xs @ p # ys)"
  shows "ring (ring_unlink p k) (c # xs @ ys)"
proof -
  have d: "distinct (c # xs @ p # ys)" and l: "linked (tasks k) ((c # xs) @ p # ys @ [c])"
    and z: "0 \<notin> set (c # xs @ p # ys)" and cur: "current_task k = c"
    using assms by (auto simp: ring_def)
  obtain A a where A: "c # xs = A @ [a]" by (cases "c # xs" rule: rev_cases) auto
  obtain b B where B: "ys @ [c] = b # B" by (cases "ys @ [c]") auto
  have l': "linked (tasks k) (A @ [a, p, b] @ B)" using l A B by simp
  have e: "A @ [a, p, b] @ B = c # xs @ p # ys @ [c]" using A B by (metis append_Cons append_assoc append_Nil)
  have "a \<in> set (c # xs)" "b \<in> set (ys @ [c])" using A B by auto
  then have "a \<noteq> p" "b \<noteq> p" using d by auto
  moreover have "distinct (butlast (c # xs @ p # ys @ [c]))" "distinct (tl (c # xs @ p # ys @ [c]))"
    using d by (auto simp: butlast_append)
  ultimately have "linked (tasks (ring_unlink p k)) (A @ [a, b] @ B)"
    using ring_unlink_linked [OF l'] unfolding e by blast
  moreover have "A @ [a, b] @ B = c # xs @ ys @ [c]" using A B by (metis append_Cons append_assoc append_Nil)
  moreover have "current_task (ring_unlink p k) = c" using cur by (simp add: ring_unlink_def Let_def)
  ultimately show ?thesis using d z by (simp add: ring_def)
qed

text \<open>The ring seen from another of its tasks.\<close>

lemma linked_rotate:
  "linked ts (c # as @ n # bs @ [c]) \<Longrightarrow> linked ts (n # bs @ c # as @ [n])"
  using linked_append [of ts "c # as" n "bs @ [c]"] linked_append [of ts "n # bs" c "as @ [n]"] by auto


section \<open>Choosing the next task\<close>

lemma pick_next_find:
  "linked ts (ns @ [c]) \<Longrightarrow> c \<notin> set ns \<Longrightarrow>
   pick_next ts c (hd (ns @ [c])) = Some (case find (\<lambda>a. runnable (t_state (ts a))) ns of None \<Rightarrow> c | Some a \<Rightarrow> a)"
proof (induction ns)
  case Nil
  then show ?case by (subst pick_next.simps) simp
next
  case (Cons a ns)
  then show ?case by (subst pick_next.simps) (auto simp: linked_Cons)
qed

text \<open>The scheduler with an empty reaper queue: the first runnable task after the current one runs.\<close>

lemma find_split: "find P xs = Some n \<Longrightarrow> \<exists>as bs. xs = as @ n # bs \<and> P n \<and> (\<forall>a\<in>set as. \<not> P a)"
proof (induction xs)
  case (Cons x xs)
  then show ?case
    by (cases "P x") (force, metis (no_types, lifting) append_Cons find.simps(2) set_ConsD)
qed simp

lemma switch_to_tasks:
  "n \<noteq> current_task k \<Longrightarrow> tasks (switch_to n k) q =
     (if q = n then (tasks k n)\<lparr>t_state := TASK_RUNNING\<rparr>
      else if q = current_task k \<and> t_state (tasks k q) = TASK_RUNNING then (tasks k q)\<lparr>t_state := TASK_READY\<rparr>
      else tasks k q)"
  by (auto simp: switch_to_def Let_def tasks_on_task)

lemma switch_to_fields:
  "current_task (switch_to n k) = n" "dead_tasks (switch_to n k) = dead_tasks k" "tick_count (switch_to n k) = tick_count k"
  by (simp_all add: switch_to_def Let_def)

lemma switch_to_linked: "n \<noteq> current_task k \<Longrightarrow> linked (tasks (switch_to n k)) xs = linked (tasks k) xs"
  by (rule linked_cong) (auto simp: switch_to_tasks)

lemma schedule_ring:
  assumes "ring k (c # xs)" and "dead_tasks k = []"
  shows "case find (\<lambda>a. runnable (t_state (tasks k a))) xs of
      None \<Rightarrow> schedule mc k = Some k
    | Some n \<Rightarrow> schedule mc k = Some (switch_to n k) \<and> n \<noteq> c"
proof -
  have r: "current_task k = c" "linked (tasks k) (c # xs @ [c])" "c \<notin> set xs" "0 \<notin> set (c # xs)"
    using assms(1) by (auto simp: ring_def)
  have l: "t_next (tasks k c) = hd (xs @ [c])" "linked (tasks k) (xs @ [c])" using r(2) by (auto simp: linked_Cons)
  have nz: "hd (xs @ [c]) \<noteq> 0" using r(4) by (cases xs) auto
  have "schedule mc k = Some (let n = (case find (\<lambda>a. runnable (t_state (tasks k a))) xs of None \<Rightarrow> c | Some a \<Rightarrow> a)
      in if n = c then k else switch_to n k)"
    using pick_next_find [OF l(2) r(3)] r(1,4) assms(2) nz by (simp add: schedule_def l(1) Let_def)
  then show ?thesis
    using r(3) find_split [of "\<lambda>a. runnable (t_state (tasks k a))" xs]
    by (auto simp: Let_def split: option.splits)
qed

lemma switch_to_ring:
  assumes "ring k (c # as @ n # bs)"
  shows "ring (switch_to n k) (n # bs @ c # as)"
proof -
  have n: "n \<noteq> current_task k" "current_task k = c" using assms by (auto simp: ring_def)
  have "linked (tasks k) (n # bs @ c # as @ [n])" using assms linked_rotate by (simp add: ring_def)
  then show ?thesis using assms n by (auto simp: ring_def switch_to_linked switch_to_fields)
qed

section \<open>The timer\<close>

lemma tasks_fold_wake:
  "distinct qs \<Longrightarrow> tasks (fold (\<lambda>q. on_task q f) qs k) p = (if p \<in> set qs then f (tasks k p) else tasks k p)"
  by (induction qs arbitrary: k) (auto simp: tasks_on_task)

lemma fold_wake_fields [simp]:
  "current_task (fold (\<lambda>q. on_task q f) qs k) = current_task k"
  "dead_tasks (fold (\<lambda>q. on_task q f) qs k) = dead_tasks k"
  "tick_count (fold (\<lambda>q. on_task q f) qs k) = tick_count k"
  by (induction qs arbitrary: k) auto

lemma wake_links [simp]: "t_next (wake now t) = t_next t" "t_prev (wake now t) = t_prev t"
  by (simp_all add: wake_def)

lemma wake_loop_fold:
  assumes "linked (tasks k) (qs @ [current_task k])" and "qs \<noteq> []" and "current_task k \<notin> set (tl qs)"
  shows "wake_loop (hd qs) k = Some (fold (\<lambda>q. on_task q (wake (tick_count k))) qs k)"
  using assms
proof (induction qs arbitrary: k)
  case (Cons a qs)
  let ?k = "on_task a (wake (tick_count k)) k"
  have l: "linked (tasks ?k) xs = linked (tasks k) xs" for xs by (rule linked_cong) (auto simp: tasks_on_task)
  have nx: "t_next (tasks ?k a) = hd (qs @ [current_task k])" and l2: "linked (tasks k) (qs @ [current_task k])"
    using Cons.prems(1) by (auto simp: linked_Cons tasks_on_task)
  show ?case
  proof (cases qs)
    case Nil
    then show ?thesis using nx by (subst wake_loop.simps) (simp add: Let_def)
  next
    case (Cons b bs)
    then have "hd qs \<noteq> current_task k" and "qs \<noteq> []" and "current_task k \<notin> set (tl qs)"
      using Cons.prems(3) by auto
    then have "wake_loop (hd qs) ?k = Some (fold (\<lambda>q. on_task q (wake (tick_count ?k))) qs ?k)"
      using l2 by (intro Cons.IH) (simp_all add: l)
    then show ?thesis
      using nx \<open>hd qs \<noteq> current_task k\<close> \<open>qs \<noteq> []\<close> by (subst wake_loop.simps) (simp add: Let_def)
  qed
qed simp

lemma wake_sleepers_ring:
  assumes "ring k qs"
  shows "wake_sleepers k = Some (fold (\<lambda>q. on_task q (wake (tick_count k))) qs k)"
proof -
  obtain xs where q: "qs = current_task k # xs" using ring_nonempty [OF assms] by blast
  then show ?thesis using assms wake_loop_fold [of k qs] by (auto simp: wake_sleepers_def ring_def)
qed

lemma wake_ring:
  assumes "ring k qs" shows "ring (fold (\<lambda>q. on_task q (wake now)) qs k) qs"
proof -
  have "distinct qs" using assms by (simp add: ring_def)
  then have "linked (tasks (fold (\<lambda>q. on_task q (wake now)) qs k)) xs = linked (tasks k) xs" for xs
    by (intro linked_cong) (auto simp: tasks_fold_wake)
  then show ?thesis using assms by (simp add: ring_def)
qed


lemma linked_neighbours:
  assumes "linked ts (xs @ [c])" and "p \<in> set xs" and "distinct xs" and "0 \<notin> set (xs @ [c])"
  shows "t_next (ts p) \<noteq> 0" and "2 \<le> length xs \<Longrightarrow> c \<notin> set (tl xs) \<Longrightarrow> t_next (ts p) \<noteq> p"
proof -
  obtain A B where x: "xs = A @ p # B" using assms(2) split_list by metis
  have "linked ts (p # B @ [c])" using assms(1) linked_append [of ts A p "B @ [c]"] by (simp add: x)
  then have n: "t_next (ts p) = hd (B @ [c])" by (simp add: linked_Cons)
  then show "t_next (ts p) \<noteq> 0" using assms(4) x by (cases B) auto
  show "t_next (ts p) \<noteq> p" if "2 \<le> length xs" "c \<notin> set (tl xs)"
  proof (cases B)
    case Nil
    then show ?thesis using n that x by (cases A) auto
  next
    case (Cons b ys)
    then show ?thesis using n assms(3) x by auto
  qed
qed

lemma linked_prev:
  assumes "linked ts (c # xs @ [c])" and "p \<in> set xs" and "0 \<notin> set (c # xs)"
  shows "t_prev (ts p) \<noteq> 0"
proof -
  obtain A B where x: "xs = A @ p # B" using assms(2) split_list by metis
  obtain A' a where a: "c # A = A' @ [a]" by (cases "c # A" rule: rev_cases) auto
  have "c # xs @ [c] = (c # A) @ p # B @ [c]" by (simp add: x)
  also have "\<dots> = A' @ a # p # B @ [c]" by (simp only: a append_assoc append_Cons append_Nil)
  finally have e: "c # xs @ [c] = A' @ a # p # B @ [c]" .
  have "linked ts (A' @ a # p # B @ [c])" using assms(1) unfolding e .
  then have "t_prev (ts p) = a" using linked_append [of ts A' a "p # B @ [c]"] by simp
  moreover have "a \<in> set (c # A)" unfolding a by simp
  then have "a \<in> set (c # xs)" using x by auto
  ultimately show ?thesis using assms(3) by auto
qed

lemma ring_leave_ring:
  assumes "ring k (c # xs @ p # ys)"
  shows "ring (ring_leave p k) (c # xs @ ys)"
proof -
  have r: "linked (tasks k) (c # (xs @ p # ys) @ [c])" "distinct (c # xs @ p # ys)" "0 \<notin> set (c # xs @ p # ys)"
    using assms by (auto simp: ring_def)
  have "t_next (tasks k p) \<noteq> 0 \<and> t_next (tasks k p) \<noteq> p"
    using linked_neighbours [of "tasks k" "c # xs @ p # ys" c p] r by auto
  moreover have "t_prev (tasks k p) \<noteq> 0" using linked_prev [OF r(1)] r(3) by auto
  ultimately have e: "ring_leave p k = on_task p (\<lambda>t. t\<lparr>t_next := p, t_prev := p\<rparr>) (ring_unlink p k)"
    by (simp add: ring_leave_def Let_def)
  have u: "ring (ring_unlink p k) (c # xs @ ys)" by (rule ring_unlink_ring [OF assms])
  have "linked (tasks (ring_leave p k)) (c # xs @ ys @ [c]) = linked (tasks (ring_unlink p k)) (c # xs @ ys @ [c])"
    unfolding e by (rule linked_cong) (use r(2) in \<open>auto simp: tasks_on_task butlast_append split: if_splits\<close>)
  then show ?thesis using u by (simp add: ring_def e)
qed

text \<open>
  The current task leaves: it is linked to itself alone, and the others close up to a ring of their own,
  which the current task no longer leads to.
\<close>

lemma ring_leave_current:
  assumes "ring k (c # xs)"
  shows "ring (ring_leave c k) [c]" and "linked (tasks (ring_leave c k)) (xs @ take 1 xs)"
proof -
  have r: "linked (tasks k) (c # xs @ [c])" "distinct (c # xs)" "0 \<notin> set (c # xs)" "current_task k = c"
    using assms by (auto simp: ring_def)
  have "ring (ring_leave c k) [c] \<and> linked (tasks (ring_leave c k)) (xs @ take 1 xs)"
  proof (cases xs)
    case Nil
    then have "ring_leave c k = k" using r(1) by (simp add: ring_leave_def Let_def)
    then show ?thesis using assms Nil by simp
  next
    case (Cons x ys)
    have "xs \<noteq> []" using Cons by simp
    then obtain B z where z: "xs = B @ [z]" by (cases xs rule: rev_cases) auto
    have "x \<in> set xs" "z \<in> set xs" using Cons by simp (simp add: z)
    then have ne: "x \<noteq> c" "z \<noteq> c" "x \<noteq> 0" "z \<noteq> 0" using r(2,3) by auto
    have nx: "t_next (tasks k c) = x" using r(1) Cons by simp
    have "linked (tasks k) ((c # B) @ z # [c])" using r(1) z by simp
    then have pv: "t_prev (tasks k c) = z" using linked_append [of "tasks k" "c # B" z "[c]"] by simp
    let ?k = "ring_leave c k"
    have t: "t_next (tasks ?k q) = (if q = c then c else if q = z then x else t_next (tasks k q))"
      "t_prev (tasks ?k q) = (if q = c then c else if q = x then z else t_prev (tasks k q))" for q
      using ne nx pv by (auto simp: ring_leave_def ring_unlink_def Let_def tasks_on_task)
    have cur: "current_task ?k = c" using r(4) by (simp add: ring_leave_def ring_unlink_def Let_def)
    have "linked (tasks k) xs" using r(1) z Cons linked_append [of "tasks k" "c # B" z "[c]"]
      by (cases B) auto
    moreover have "linked (tasks ?k) xs = linked (tasks k) xs"
    proof (rule linked_cong)
      have "\<forall>a\<in>set (butlast xs). a \<noteq> z \<and> a \<noteq> c" using r(2) z by auto
      then show "\<forall>a\<in>set (butlast xs). t_next (tasks ?k a) = t_next (tasks k a)" by (simp add: t)
      have "\<forall>a\<in>set (tl xs). a \<noteq> x \<and> a \<noteq> c" using r(2) Cons by auto
      then show "\<forall>a\<in>set (tl xs). t_prev (tasks ?k a) = t_prev (tasks k a)" by (simp add: t)
    qed
    ultimately have "linked (tasks ?k) (xs @ [x])"
      using linked_append [of "tasks ?k" B z "[x]"] z t [of z] t [of x] ne by auto
    then show ?thesis using cur t r(3) Cons by (simp add: ring_def)
  qed
  then show "ring (ring_leave c k) [c]" "linked (tasks (ring_leave c k)) (xs @ take 1 xs)" by simp_all
qed

text \<open>Freeing dead tasks other than the first process changes no task.\<close>

lemma reap_tasks:
  assumes "\<forall>d\<in>set ds. t_pid (tasks k d) \<noteq> 1"
  obtains k' where "reap mc ds k = Some k'" and "tasks k' = tasks k" and "current_task k' = current_task k"
    and "dead_tasks k' = (if ds = [] then dead_tasks k else [])"
proof -
  have "\<exists>k'. reap mc ds k = Some k' \<and> tasks k' = tasks k \<and> current_task k' = current_task k \<and>
      dead_tasks k' = (if ds = [] then dead_tasks k else [])"
    using assms
  proof (induction ds arbitrary: k)
    case (Cons d ds)
    have d: "t_pid (tasks k d) \<noteq> 1" using Cons.prems by simp
    let ?m = "if kernel_stack_virt (tasks k d) \<noteq> 0
      then vmm_free_kernel_stack (kernel_stack_virt (tasks k d)) (k_vm k) else k_vm k"
    let ?k = "k\<lparr>dead_tasks := ds, k_vm := free_page (VIRT_TO_PHYS d) ?m, task_count := task_count k - 1\<rparr>"
    have "reap mc (d # ds) k = reap mc ds ?k" using d by (simp add: Let_def)
    then show ?case using Cons.IH [of ?k] Cons.prems by (cases ds) auto
  qed simp
  then show thesis using that by blast
qed

lemma ring_cong: "tasks k' = tasks k \<Longrightarrow> current_task k' = current_task k \<Longrightarrow> ring k' qs = ring k qs"
  by (simp add: ring_def)

lemma schedule_rotates:
  assumes "ring k (c # xs)" and "\<forall>d\<in>set (dead_tasks k). t_pid (tasks k d) \<noteq> 1"
  shows "\<exists>k' n. schedule mc k = Some k' \<and> n \<le> length xs \<and> ring k' (rotate n (c # xs)) \<and> dead_tasks k' = []"
proof -
  obtain k1 where k1: "reap mc (dead_tasks k) k = Some k1" "tasks k1 = tasks k" "current_task k1 = current_task k"
    "dead_tasks k1 = (if dead_tasks k = [] then dead_tasks k else [])"
    using reap_tasks [OF assms(2), of mc] .
  have k0: "dead_tasks k1 = []" using k1(4) by (cases "dead_tasks k = []") simp_all
  have s: "schedule mc k = schedule mc k1" using k1(1) k0 by (simp add: schedule_def)
  have r: "ring k1 (c # xs)" using assms(1) ring_cong [OF k1(2,3)] by simp
  show ?thesis
  proof (cases "find (\<lambda>a. runnable (t_state (tasks k1 a))) xs")
    case None
    then show ?thesis using schedule_ring [OF r k0, of mc] r k0 s by (intro exI [of _ k1] exI [of _ 0]) simp
  next
    case (Some n)
    then have s: "schedule mc k = Some (switch_to n k1)" using schedule_ring [OF r k0, of mc] s by simp
    obtain as bs where x: "xs = as @ n # bs" using find_split [OF Some] by blast
    have "rotate (length (c # as)) ((c # as) @ (n # bs)) = n # bs @ c # as" by (subst rotate_append) simp
    then have "ring (switch_to n k1) (rotate (Suc (length as)) (c # xs))" using switch_to_ring r x by simp
    then show ?thesis using s x k0
      by (intro exI [of _ "switch_to n k1"] exI [of _ "Suc (length as)"]) (simp add: switch_to_fields)
  qed
qed

section \<open>Properties of the scheduler\<close>

text \<open>A ring of two tasks, the second ready.\<close>

definition kernel_demo :: kernel where
  "kernel_demo = \<lparr>k_fs = vfs_demo, k_vm = vm_demo,
     tasks = (\<lambda>_. zero_task)(0x10 := zero_task\<lparr>t_pid := 1, t_next := 0x20, t_prev := 0x20\<rparr>,
       0x20 := zero_task\<lparr>t_pid := 2, t_state := TASK_READY, t_next := 0x10, t_prev := 0x10\<rparr>),
     current_task = 0x10, init_task = 0x10, next_pid = 3, task_count = 2, dead_tasks = [], fpu_owner = 0,
     fpu_regs = [], task_switched = False, tss_esp0 = 0, tick_count = 5, pit_frequency = 1000\<rparr>"

definition machine_demo :: machine where
  "machine_demo = \<lparr>addr_task_exit = 0xC0100000, addr_trampoline = 0xC0100100, addr_ret_from_fork = 0xC0100200,
     addr_elf_buffers = 0xC8004000, fninit_state = replicate 512 0, fb_available = True\<rparr>"

lemma ring_demo [simp]: "ring kernel_demo [0x10, 0x20]"
  by (simp add: ring_def kernel_demo_def)

text \<open>C27. The run queue stays a well-formed doubly linked ring: a new task is linked in right after the current one;
  a task other than the current one that leaves is linked out; and the scheduler, which frees dead tasks on the
  way, only turns the ring so that the new current task comes first, as long as the first process is not among the
  dead. When the current task itself leaves, as \<open>task_exit\<close> lets the first process do, the ring falls apart: the
  current task is alone in a ring of its own and the others form one that nothing leads to.\<close>

theorem run_queue_well_formed:
  assumes "ring k (c # xs)"
  shows "(p \<notin> set (c # xs) \<and> p \<noteq> 0 \<longrightarrow> ring (task_queue_add p k) (c # p # xs)) \<and>
    (\<forall>as bs. xs = as @ p # bs \<longrightarrow> ring (ring_leave p k) (c # as @ bs)) \<and>
    (ring (ring_leave c k) [c] \<and> linked (tasks (ring_leave c k)) (xs @ take 1 xs)) \<and>
    ((\<forall>d\<in>set (dead_tasks k). t_pid (tasks k d) \<noteq> 1) \<longrightarrow>
      (\<exists>k' n. schedule mc k = Some k' \<and> n \<le> length xs \<and> ring k' (rotate n (c # xs)) \<and> dead_tasks k' = []))"
  using task_queue_add_ring [OF assms] ring_leave_ring ring_leave_current [OF assms] schedule_rotates [OF assms]
    assms by auto

lemma run_queue_well_formed_witness:
  "ring (task_queue_add 0x30 kernel_demo) [0x10, 0x30, 0x20] \<and> ring (ring_leave 0x20 kernel_demo) [0x10] \<and>
   ring (ring_leave 0x10 kernel_demo) [0x10] \<and>
   (\<exists>k'. schedule machine_demo kernel_demo = Some k' \<and> dead_tasks k' = [])"
  using run_queue_well_formed [OF ring_demo, of "0x30" machine_demo] run_queue_well_formed [OF ring_demo, of "0x20"]
  by (force simp: kernel_demo_def)

text \<open>C7. With nobody to reap, the scheduler runs the first task after the current one in the ring that is ready, and
  nobody else changes state except the task that was running, which becomes ready; if there is none it leaves the
  current task.\<close>

theorem schedule_round_robin:
  assumes "ring k (c # as @ n # bs)" and "dead_tasks k = []"
    and "\<forall>a\<in>set as. \<not> runnable (t_state (tasks k a))" and "runnable (t_state (tasks k n))"
  shows "\<exists>k'. schedule mc k = Some k' \<and> ring k' (n # bs @ c # as) \<and> t_state (tasks k' n) = TASK_RUNNING \<and>
    t_state (tasks k' c) = (if t_state (tasks k c) = TASK_RUNNING then TASK_READY else t_state (tasks k c)) \<and>
    (\<forall>q. q \<noteq> n \<and> q \<noteq> c \<longrightarrow> tasks k' q = tasks k q)"
proof -
  have "find (\<lambda>a. runnable (t_state (tasks k a))) (as @ n # bs) = Some n"
    using assms(3,4) by (induction as) auto
  then have s: "schedule mc k = Some (switch_to n k)" using schedule_ring [OF assms(1,2), of mc] by simp
  have "n \<noteq> c" "current_task k = c" using assms(1) by (auto simp: ring_def)
  then show ?thesis
    using s switch_to_ring [OF assms(1)] by (intro exI [of _ "switch_to n k"]) (auto simp: switch_to_tasks)
qed

lemma schedule_round_robin_witness:
  "\<exists>k'. schedule machine_demo kernel_demo = Some k' \<and> current_task k' = 0x20 \<and>
     t_state (tasks k' 0x10) = TASK_READY"
proof -
  have "runnable (t_state (tasks kernel_demo 0x20))" "dead_tasks kernel_demo = []"
    "t_state (tasks kernel_demo 0x10) = TASK_RUNNING"
    by (simp_all add: kernel_demo_def runnable_def zero_task_def)
  then obtain k' where "schedule machine_demo kernel_demo = Some k'" "ring k' [0x20, 0x10]"
    "t_state (tasks k' 0x10) = TASK_READY"
    using schedule_round_robin [of kernel_demo "0x10" "[]" "0x20" "[]" machine_demo] by auto
  then show ?thesis by (auto simp: ring_def)
qed


section \<open>Liveness\<close>

primrec timer_interrupts :: "machine \<Rightarrow> nat \<Rightarrow> kernel \<Rightarrow> kernel option" where
  "timer_interrupts mc 0 k = Some k"
| "timer_interrupts mc (Suc n) k = Option.bind (pit_handler mc k) (timer_interrupts mc n)"

lemma timer_interrupts_add:
  "timer_interrupts mc (m + n) k = Option.bind (timer_interrupts mc m k) (timer_interrupts mc n)"
  by (induction m arbitrary: k) (auto split: Option.bind_splits)

text \<open>A ready task at a position of the ring behind the current one.\<close>

definition waiting :: "u32 \<Rightarrow> nat \<Rightarrow> kernel \<Rightarrow> bool" where
  "waiting p i k \<longleftrightarrow> (\<exists>c as bs. ring k (c # as @ p # bs) \<and> length as = i) \<and> dead_tasks k = [] \<and>
     t_state (tasks k p) = TASK_READY"

text \<open>The number of ticks up to the next call of the scheduler.\<close>

definition ticks_left :: "u32 \<Rightarrow> nat" where
  "ticks_left t = (if unat t + (10 - unat t mod 10) < 2 ^ 32 then 10 - unat t mod 10 else 2 ^ 32 - unat t)"

lemma ticks_left_bounds: "0 < ticks_left t" "ticks_left t \<le> 10"
  using unat_u32_bound [of t] by (auto simp: ticks_left_def)

lemma ticks_left_step:
  "if ticks_left t = 1 then unat (t + 1) mod 10 = 0 else ticks_left (t + 1) = ticks_left t - 1 \<and> unat (t + 1) mod 10 \<noteq> 0"
proof (cases "unat t = 2 ^ 32 - 1")
  case True
  then have "t = - 1" by (simp add: word_unat_eq_iff)
  then have "t + 1 = 0" by simp
  then show ?thesis using True by (simp add: ticks_left_def)
next
  case False
  then have b: "unat t + 1 < 4294967296" using unat_u32_bound [of t] by simp
  then have u: "unat (t + 1) = unat t + 1" by (simp add: unat_word_ariths)
  have m: "unat t mod 10 < 10" by simp
  have s: "(unat t + 1) mod 10 = (if unat t mod 10 = 9 then 0 else unat t mod 10 + 1)" by (simp add: mod_Suc)
  show ?thesis
  proof (cases "unat t mod 10 = 9")
    case True
    then show ?thesis using b by (simp add: ticks_left_def u mod_Suc)
  next
    case False
    define a where "a = unat t mod 10"
    have a: "a < 9" using m False by (simp add: a_def)
    show ?thesis unfolding ticks_left_def u s a_def [symmetric] using a b by (auto split: if_splits)
  qed
qed


lemma ring_tick: "ring (k\<lparr>tick_count := t\<rparr>) qs = ring k qs"
  by (simp add: ring_def)

lemma schedule_waiting:
  assumes "waiting p i k"
  shows "\<exists>k'. schedule mc k = Some k' \<and> tick_count k' = tick_count k \<and>
    (current_task k' = p \<or> (\<exists>j < i. waiting p j k'))"
proof -
  obtain c as bs where r: "ring k (c # as @ p # bs)" "length as = i" and d: "dead_tasks k = []"
    and st: "t_state (tasks k p) = TASK_READY" using assms by (auto simp: waiting_def)
  have p: "runnable (t_state (tasks k p))" by (simp add: st runnable_def)
  have pc: "p \<noteq> c" "current_task k = c" using r(1) by (auto simp: ring_def)
  let ?P = "\<lambda>a. runnable (t_state (tasks k a))"
  show ?thesis
  proof (cases "find ?P as")
    case None
    then have "find ?P (as @ p # bs) = Some p" using p by (induction as) (auto split: if_splits)
    then have "schedule mc k = Some (switch_to p k)" using schedule_ring [OF r(1) d, of mc] by simp
    then show ?thesis by (simp add: switch_to_fields)
  next
    case (Some n)
    then have "find ?P (as @ p # bs) = Some n" by (induction as) (auto split: if_splits)
    then have s: "schedule mc k = Some (switch_to n k)" using schedule_ring [OF r(1) d, of mc] by simp
    obtain a1 a2 where a: "as = a1 @ n # a2" using find_split [OF Some] by blast
    have "ring (switch_to n k) (n # (a2 @ p # bs) @ c # a1)" using switch_to_ring [of k c a1 n "a2 @ p # bs"] r(1) by (simp add: a)
    then have g: "ring (switch_to n k) (n # a2 @ p # (bs @ c # a1))" by simp
    have n: "n \<noteq> c" "p \<noteq> n" using r(1) a by (auto simp: ring_def)
    then have "t_state (tasks (switch_to n k) p) = TASK_READY" using pc st by (simp add: switch_to_tasks)
    then have "waiting p (length a2) (switch_to n k)" using g d by (auto simp: waiting_def switch_to_fields)
    then show ?thesis using s r(2) a by (auto simp: switch_to_fields)
  qed
qed

lemma pit_handler_waiting:
  assumes "waiting p i k"
  shows "\<exists>k'. pit_handler mc k = Some k' \<and> tick_count k' = tick_count k + 1 \<and>
    (current_task k' = p \<or>
     (\<exists>j. waiting p j k' \<and> (if unat (tick_count k + 1) mod 10 = 0 then j < i else j = i)))"
proof -
  obtain c as bs where r: "ring k (c # as @ p # bs)" "length as = i" and d: "dead_tasks k = []"
    and st: "t_state (tasks k p) = TASK_READY" using assms by (auto simp: waiting_def)
  let ?qs = "c # as @ p # bs" and ?t = "tick_count k + 1"
  let ?k1 = "k\<lparr>tick_count := ?t\<rparr>"
  let ?k2 = "fold (\<lambda>q. on_task q (wake ?t)) ?qs ?k1"
  have r1: "ring ?k1 ?qs" using r(1) by (simp add: ring_tick)
  have w: "wake_sleepers ?k1 = Some ?k2" using wake_sleepers_ring [OF r1] by simp
  have r2: "ring ?k2 ?qs" by (rule wake_ring [OF r1])
  have "distinct ?qs" using r(1) by (simp add: ring_def)
  then have "t_state (tasks ?k2 p) = TASK_READY" using st by (subst tasks_fold_wake) (auto simp: wake_def)
  then have w2: "waiting p i ?k2" using r2 r(2) d by (simp only: waiting_def) auto
  have m: "?t mod 10 = 0 \<longleftrightarrow> unat ?t mod 10 = 0" by (simp add: word_unat_eq_iff unat_mod)
  have h: "pit_handler mc k = (if ?t mod 10 = 0 then schedule mc ?k2 else Some ?k2)"
    using w by (simp add: pit_handler_def task_timer_tick_def Let_def)
  show ?thesis
  proof (cases "unat ?t mod 10 = 0")
    case True
    then show ?thesis using schedule_waiting [OF w2, of mc] h m by auto
  next
    case False
    then show ?thesis using w2 h m by (auto simp: fold_wake_fields)
  qed
qed

lemma waiting_runs:
  "waiting p i k \<Longrightarrow> \<exists>n k'. n \<le> 10 * i + ticks_left (tick_count k) \<and> timer_interrupts mc n k = Some k' \<and> current_task k' = p"
proof (induction "10 * i + ticks_left (tick_count k)" arbitrary: i k rule: less_induct)
  case less
  obtain k' where h: "pit_handler mc k = Some k'" "tick_count k' = tick_count k + 1"
    "current_task k' = p \<or> (\<exists>j. waiting p j k' \<and> (if unat (tick_count k + 1) mod 10 = 0 then j < i else j = i))"
    using pit_handler_waiting [OF less.prems] by blast
  show ?case
  proof (cases "current_task k' = p")
    case True
    then have "timer_interrupts mc 1 k = Some k'" using h(1) by simp
    moreover have "1 \<le> 10 * i + ticks_left (tick_count k)" using ticks_left_bounds(1) [of "tick_count k"] by linarith
    ultimately show ?thesis using True by blast
  next
    case False
    then obtain j where j: "waiting p j k'" "if unat (tick_count k + 1) mod 10 = 0 then j < i else j = i" using h(3) by blast
    have lt: "10 * j + ticks_left (tick_count k') < 10 * i + ticks_left (tick_count k)"
    proof (cases "unat (tick_count k + 1) mod 10 = 0")
      case True
      then have "j < i" using j(2) by simp
      then show ?thesis
        using ticks_left_bounds(2) [of "tick_count k'"] ticks_left_bounds(1) [of "tick_count k"] by linarith
    next
      case False
      then show ?thesis using ticks_left_step [of "tick_count k"] j(2) h(2) ticks_left_bounds(1) [of "tick_count k"]
        by (auto split: if_splits)
    qed
    then obtain n k'' where n: "n \<le> 10 * j + ticks_left (tick_count k')" "timer_interrupts mc n k' = Some k''" "current_task k'' = p"
      using less.hyps [OF lt j(1)] by blast
    then have "timer_interrupts mc (Suc n) k = Some k''" using h(1) by simp
    moreover have "Suc n \<le> 10 * i + ticks_left (tick_count k)" using n(1) lt by linarith
    ultimately show ?thesis using n(3) by blast
  qed
qed

text \<open>C24. No ready task starves: while the timer ticks and nothing else happens, a ready task in the ring becomes the
  current one after at most ten ticks for each task of the ring.\<close>

theorem ready_task_runs:
  assumes "ring k (c # xs)" and "dead_tasks k = []" and "p \<in> set xs" and "t_state (tasks k p) = TASK_READY"
  shows "\<exists>n k'. n \<le> 10 * length xs \<and> timer_interrupts mc n k = Some k' \<and> current_task k' = p"
proof -
  obtain as bs where x: "xs = as @ p # bs" using assms(3) split_list by metis
  then have "waiting p (length as) k" using assms by (auto simp: waiting_def)
  then obtain n k' where n: "n \<le> 10 * length as + ticks_left (tick_count k)"
    "timer_interrupts mc n k = Some k'" "current_task k' = p" using waiting_runs by blast
  have "10 * length as + ticks_left (tick_count k) \<le> 10 * length xs"
    using x ticks_left_bounds(2) [of "tick_count k"] by simp
  then have "n \<le> 10 * length xs" using n(1) by linarith
  then show ?thesis using n by blast
qed

lemma ready_task_runs_witness:
  "\<exists>n k'. n \<le> 10 \<and> timer_interrupts machine_demo n kernel_demo = Some k' \<and> current_task k' = 0x20"
  using ready_task_runs [OF ring_demo, of "0x20" machine_demo] by (force simp: kernel_demo_def zero_task_def)

end
