(* ===== verification/Ulibc.thy ===== *)
theory Ulibc
  imports Blocks Klib_Num
begin

text \<open>
  Memory, string and number routines of the user library, \<open>user_src/user_libc.c\<close> (sections 3, 5 and 6 of the file).
  Memory is a map from addresses to bytes and pointers wrap, as in \<open>Klib\<close>; a scan that never meets a NUL is \<open>None\<close>.
  The parsers read the bytes of a string and return what is left of it, the string that \<open>*endptr\<close> is set to.
\<close>

unbundle bit_operations_syntax

section \<open>Memory\<close>

definition memset :: "mem \<Rightarrow> u32 \<Rightarrow> u32 \<Rightarrow> u32 \<Rightarrow> mem" where
  "memset m ptr v num = memset_loop m ptr (ucast v) (unat num)"

definition memcpy :: "mem \<Rightarrow> u32 \<Rightarrow> u32 \<Rightarrow> u32 \<Rightarrow> mem" where
  "memcpy m dest src num = memcpy_loop m dest src (unat num)"

definition memcmp :: "mem \<Rightarrow> u32 \<Rightarrow> u32 \<Rightarrow> u32 \<Rightarrow> int" where
  "memcmp m s1 s2 n = memcmp_loop m s1 s2 (unat n)"

text \<open>\<open>while (n--) *--d = *--s\<close>.\<close>

primrec copy_down :: "mem \<Rightarrow> u32 \<Rightarrow> u32 \<Rightarrow> nat \<Rightarrow> mem" where
  "copy_down m d s 0 = m"
| "copy_down m d s (Suc n) = copy_down (m(d - 1 := m (s - 1))) (d - 1) (s - 1) n"

definition memmove :: "mem \<Rightarrow> u32 \<Rightarrow> u32 \<Rightarrow> u32 \<Rightarrow> mem" where
  "memmove m dest src n =
     (if dest < src then memcpy_loop m dest src (unat n) else copy_down m (dest + n) (src + n) (unat n))"

section \<open>Strings\<close>

definition strlen :: "mem \<Rightarrow> u32 \<Rightarrow> u32 option" where
  "strlen m str = strlen_loop m str 0"

text \<open>The comparing loops are those of the kernel's library.\<close>

definition strcmp :: "mem \<Rightarrow> u32 \<Rightarrow> u32 \<Rightarrow> int option" where
  "strcmp m s1 s2 = k_strcmp m s1 s2"

definition strncmp :: "mem \<Rightarrow> u32 \<Rightarrow> u32 \<Rightarrow> u32 \<Rightarrow> int" where
  "strncmp m s1 s2 n = strncmp_loop m s1 s2 (unat n)"

text \<open>\<open>while ((*d++ = *src++))\<close>.\<close>

partial_function (option) copy_string :: "mem \<Rightarrow> u32 \<Rightarrow> u32 \<Rightarrow> mem option" where
  "copy_string m d src =
     (if m src \<noteq> 0 then copy_string (m(d := m src)) (d + 1) (src + 1) else Some (m(d := 0)))"

definition strcpy :: "mem \<Rightarrow> u32 \<Rightarrow> u32 \<Rightarrow> mem option" where
  "strcpy m dest src = copy_string m dest src"

definition strncpy :: "mem \<Rightarrow> u32 \<Rightarrow> u32 \<Rightarrow> u32 \<Rightarrow> mem" where
  "strncpy m dest src n = strncpy_loop m dest src (unat n)"

definition strcat :: "mem \<Rightarrow> u32 \<Rightarrow> u32 \<Rightarrow> mem option" where
  "strcat m dest src = Option.bind (strlen m dest) (\<lambda>n. copy_string m (dest + n) src)"

text \<open>\<open>for (i = 0; i < n && src[i]; i++) d[i] = src[i]; d[i] = 0\<close>.\<close>

primrec ncopy_loop :: "mem \<Rightarrow> u32 \<Rightarrow> u32 \<Rightarrow> nat \<Rightarrow> mem" where
  "ncopy_loop m d src 0 = m(d := 0)"
| "ncopy_loop m d src (Suc n) =
     (if m src \<noteq> 0 then ncopy_loop (m(d := m src)) (d + 1) (src + 1) n else m(d := 0))"

definition strncat :: "mem \<Rightarrow> u32 \<Rightarrow> u32 \<Rightarrow> u32 \<Rightarrow> mem option" where
  "strncat m dest src n = map_option (\<lambda>len. ncopy_loop m (dest + len) src (unat n)) (strlen m dest)"

text \<open>The searches return the address found, 0 for NULL.\<close>

partial_function (option) strchr_loop :: "mem \<Rightarrow> u32 \<Rightarrow> u8 \<Rightarrow> u32 option" where
  "strchr_loop m str c =
     (if m str \<noteq> 0 then (if m str = c then Some str else strchr_loop m (str + 1) c)
      else Some (if c = 0 then str else 0))"

definition strchr :: "mem \<Rightarrow> u32 \<Rightarrow> u32 \<Rightarrow> u32 option" where
  "strchr m str c = strchr_loop m str (ucast c)"

partial_function (option) strrchr_loop :: "mem \<Rightarrow> u32 \<Rightarrow> u8 \<Rightarrow> u32 \<Rightarrow> u32 option" where
  "strrchr_loop m str c found =
     (if m str \<noteq> 0 then strrchr_loop m (str + 1) c (if m str = c then str else found)
      else Some (if c = 0 then str else found))"

definition strrchr :: "mem \<Rightarrow> u32 \<Rightarrow> u32 \<Rightarrow> u32 option" where
  "strrchr m str c = strrchr_loop m str (ucast c) 0"

partial_function (option) strstr_loop :: "mem \<Rightarrow> u32 \<Rightarrow> u32 \<Rightarrow> u32 \<Rightarrow> u32 option" where
  "strstr_loop m haystack needle nlen =
     (if m haystack \<noteq> 0 then
        (if strncmp m haystack needle nlen = 0 then Some haystack else strstr_loop m (haystack + 1) needle nlen)
      else Some 0)"

definition strstr :: "mem \<Rightarrow> u32 \<Rightarrow> u32 \<Rightarrow> u32 option" where
  "strstr m haystack needle =
     Option.bind (strlen m needle) (\<lambda>nlen. if nlen = 0 then Some haystack else strstr_loop m haystack needle nlen)"

text \<open>The inner loop of \<open>strpbrk\<close>: whether the character occurs in \<open>accept\<close>.\<close>

partial_function (option) accepts :: "mem \<Rightarrow> u8 \<Rightarrow> u32 \<Rightarrow> bool option" where
  "accepts m c a = (if m a = 0 then Some False else if c = m a then Some True else accepts m c (a + 1))"

partial_function (option) strpbrk_loop :: "mem \<Rightarrow> u32 \<Rightarrow> u32 \<Rightarrow> u32 option" where
  "strpbrk_loop m s accept =
     (if m s = 0 then Some 0
      else Option.bind (accepts m (m s) accept) (\<lambda>b. if b then Some s else strpbrk_loop m (s + 1) accept))"

definition strpbrk :: "mem \<Rightarrow> u32 \<Rightarrow> u32 \<Rightarrow> u32 option" where
  "strpbrk m s accept = (if s = 0 \<or> accept = 0 then Some 0 else strpbrk_loop m s accept)"

section \<open>Numbers\<close>

definition itoa :: "u32 \<Rightarrow> u32 \<Rightarrow> u8 list option" where
  "itoa v base =
     (if v = 0 then Some [0x30]
      else let negative = (v <s 0 \<and> base = 10);
               uvalue = (if negative then 0 - v else v)
           in map_option (\<lambda>tmp. (if negative then [0x2D] else []) @ rev tmp) (digit_loop 33 base uvalue))"

definition uitoa :: "u32 \<Rightarrow> u32 \<Rightarrow> u8 list option" where
  "uitoa v base = (if v = 0 then Some [0x30] else map_option rev (digit_loop 33 base v))"

definition atoi :: "u8 list option \<Rightarrow> u32" where
  "atoi str = (case str of None \<Rightarrow> 0 | Some s \<Rightarrow>
     let (negative, s') = atoi_sign (skip_spaces s);
         uresult = atoi_digits 0 s'
     in if negative then (if uresult \<le> 0x80000000 then 0 - uresult else 0x80000000)
        else (if uresult \<le> 0x7FFFFFFF then uresult else 0x7FFFFFFF))"

text \<open>The digit a character stands for.\<close>

definition digit_of :: "u8 \<Rightarrow> nat option" where
  "digit_of c =
     (if 0x30 \<le> c \<and> c \<le> 0x39 then Some (unat c - 48)
      else if 0x61 \<le> c \<and> c \<le> 0x7A then Some (unat c - 97 + 10)
      else if 0x41 \<le> c \<and> c \<le> 0x5A then Some (unat c - 65 + 10)
      else None)"

text \<open>The prefix that goes with the base: the base to use and the string behind the prefix.\<close>

definition base_prefix :: "nat \<Rightarrow> u8 list \<Rightarrow> nat \<times> u8 list" where
  "base_prefix base s =
     (let (base, s) =
        (if base = 0 \<or> base = 16 then
           (case s of
              a # b # s' \<Rightarrow> if a = 0x30 \<and> (b = 0x78 \<or> b = 0x58) then (16, s')
                            else if base = 0 \<and> a = 0x30 then (8, s) else (base, s)
            | [a] \<Rightarrow> if base = 0 \<and> a = 0x30 then (8, s) else (base, s)
            | [] \<Rightarrow> (base, s))
         else (base, s))
      in (if base = 0 then 10 else base, s))"

fun strtoul_digits :: "nat \<Rightarrow> u32 \<Rightarrow> u8 list \<Rightarrow> u32 \<times> u8 list" where
  "strtoul_digits base result (c # cs) =
     (case digit_of c of None \<Rightarrow> (result, c # cs)
      | Some d \<Rightarrow> if d \<ge> base then (result, c # cs)
                  else strtoul_digits base (result * of_nat base + of_nat d) cs)"
| "strtoul_digits base result [] = (result, [])"

definition strtoul :: "u8 list \<Rightarrow> nat \<Rightarrow> u32 \<times> u8 list" where
  "strtoul str base = (let (base, s) = base_prefix base (skip_spaces str) in strtoul_digits base 0 s)"

definition strtol :: "u8 list \<Rightarrow> nat \<Rightarrow> u32 \<times> u8 list" where
  "strtol str base =
     (let (negative, s) = atoi_sign (skip_spaces str); (val, rest) = strtoul s base
      in (if negative then (if val \<le> 0x80000000 then 0 - val else 0x80000000)
          else (if val \<le> 0x7FFFFFFF then val else 0x7FFFFFFF), rest))"

text \<open>The 64-bit parsers saturate; the third result tells whether \<open>errno\<close> was set to \<open>ERANGE\<close>.\<close>

fun strtoull_digits :: "nat \<Rightarrow> u64 \<Rightarrow> bool \<Rightarrow> u8 list \<Rightarrow> u64 \<times> u8 list \<times> bool" where
  "strtoull_digits base result erange (c # cs) =
     (case digit_of c of None \<Rightarrow> (result, c # cs, erange)
      | Some d \<Rightarrow>
          if d \<ge> base then (result, c # cs, erange)
          else if result > (0xFFFFFFFFFFFFFFFF - of_nat d) div of_nat base
          then strtoull_digits base 0xFFFFFFFFFFFFFFFF True cs
          else strtoull_digits base (result * of_nat base + of_nat d) erange cs)"
| "strtoull_digits base result erange [] = (result, [], erange)"

definition strtoull :: "u8 list \<Rightarrow> nat \<Rightarrow> u64 \<times> u8 list \<times> bool" where
  "strtoull str base =
     (let s = skip_spaces str;
          s = (if s \<noteq> [] \<and> hd s = 0x2B then tl s else s);
          (base, s) = base_prefix base s
      in strtoull_digits base 0 False s)"

definition strtoll :: "u8 list \<Rightarrow> nat \<Rightarrow> u64 \<times> u8 list \<times> bool" where
  "strtoll str base =
     (let (negative, s) = atoi_sign (skip_spaces str); (val, rest, erange) = strtoull s base
      in if negative then
           (if val \<le> 0x8000000000000000 then (0 - val, rest, erange) else (0x8000000000000000, rest, True))
         else (if val \<le> 0x7FFFFFFFFFFFFFFF then (val, rest, erange) else (0x7FFFFFFFFFFFFFFF, rest, True)))"

section \<open>Moving and copying\<close>

text \<open>Copying upwards is safe when the destination lies below the source, copying downwards otherwise.\<close>

lemma copy_up:
  assumes "unat d \<le> unat s" and "unat s + n \<le> 2 ^ 32"
  shows "(\<forall>i < n. memcpy_loop m d s n (d + of_nat i) = m (s + of_nat i)) \<and>
    (\<forall>a. unat a < unat d \<or> unat d + n \<le> unat a \<longrightarrow> memcpy_loop m d s n a = m a)"
  using assms
proof (induction n arbitrary: d s m)
  case (Suc n)
  show ?case
  proof (cases "n = 0")
    case True
    then show ?thesis by auto
  next
    case False
    then have u: "unat (d + 1) = unat d + 1" "unat (s + 1) = unat s + 1"
      using Suc.prems unat_offset [of d 1] unat_offset [of s 1] by auto
    let ?m = "m(d := m s)"
    have "unat (d + 1) \<le> unat (s + 1)" "unat (s + 1) + n \<le> 2 ^ 32" using Suc.prems u by auto
    note IH = Suc.IH [OF this, of ?m, unfolded u(1)]
    note ih = IH [THEN conjunct1, rule_format] IH [THEN conjunct2, rule_format]
    have ne: "s + 1 + of_nat i \<noteq> d" if "i < n" for i
    proof -
      have "unat (s + of_nat (Suc i)) = unat s + Suc i" using Suc.prems that by (intro unat_offset) simp
      moreover have "s + of_nat (Suc i) = s + 1 + of_nat i" by simp
      ultimately have "unat (s + 1 + of_nat i) = unat s + Suc i" by (simp only:)
      then show ?thesis using Suc.prems(1) by auto
    qed
    show ?thesis
    proof (intro conjI allI impI)
      fix i assume i: "i < Suc n"
      show "memcpy_loop m d s (Suc n) (d + of_nat i) = m (s + of_nat i)"
      proof (cases i)
        case 0
        then show ?thesis using ih(2) [of d] by simp
      next
        case (Suc j)
        then have "j < n" using i by simp
        moreover have "d + of_nat (Suc j) = d + 1 + of_nat j" "s + of_nat (Suc j) = s + 1 + of_nat j" by simp_all
        ultimately show ?thesis
          unfolding Suc by (simp only: memcpy_loop.simps) (rule trans [OF ih(1) fun_upd_other [OF ne]])
      qed
    next
      fix a :: u32 assume a: "unat a < unat d \<or> unat d + Suc n \<le> unat a"
      then have "unat a < unat d + 1 \<or> unat d + 1 + n \<le> unat a" "a \<noteq> d" by auto
      then show "memcpy_loop m d s (Suc n) a = m a" by (simp only: memcpy_loop.simps) (rule trans [OF ih(2) fun_upd_other])
    qed
  qed
qed simp

lemma copy_down_spec:
  assumes "unat s \<le> unat d" and "unat d + n \<le> 2 ^ 32"
  shows "(\<forall>i < n. copy_down m (d + of_nat n) (s + of_nat n) n (d + of_nat i) = m (s + of_nat i)) \<and>
    (\<forall>a. unat a < unat d \<or> unat d + n \<le> unat a \<longrightarrow> copy_down m (d + of_nat n) (s + of_nat n) n a = m a)"
  using assms
proof (induction n arbitrary: m)
  case (Suc n)
  have e: "d + of_nat (Suc n) - 1 = d + of_nat n" "s + of_nat (Suc n) - 1 = s + of_nat n" by (simp_all add: algebra_simps)
  let ?m = "m(d + of_nat n := m (s + of_nat n))"
  have step: "copy_down m (d + of_nat (Suc n)) (s + of_nat (Suc n)) (Suc n) = copy_down ?m (d + of_nat n) (s + of_nat n) n"
    by (simp only: copy_down.simps e)
  have "unat d + n \<le> 2 ^ 32" using Suc.prems(2) by simp
  note IH = Suc.IH [OF Suc.prems(1) this, of ?m]
  note ih = IH [THEN conjunct1, rule_format] IH [THEN conjunct2, rule_format]
  have ud: "unat (d + of_nat n) = unat d + n" using Suc.prems by (intro unat_offset) simp
  have ne: "s + of_nat i \<noteq> d + of_nat n" if "i < n" for i
  proof -
    have "unat (s + of_nat i) = unat s + i" using Suc.prems that by (intro unat_offset) simp
    then show ?thesis using Suc.prems(1) ud that by auto
  qed
  show ?case
    unfolding step
  proof (intro conjI allI impI)
    fix i assume "i < Suc n"
    then consider "i < n" | "i = n" by linarith
    then show "copy_down ?m (d + of_nat n) (s + of_nat n) n (d + of_nat i) = m (s + of_nat i)"
    proof cases
      case 1
      then show ?thesis by (intro trans [OF ih(1) fun_upd_other [OF ne]])
    next
      case 2
      then show ?thesis using ih(2) [of "d + of_nat n"] ud by simp
    qed
  next
    fix a :: u32 assume a: "unat a < unat d \<or> unat d + Suc n \<le> unat a"
    then have "a \<noteq> d + of_nat n" "unat a < unat d \<or> unat d + n \<le> unat a" using ud by auto
    then show "copy_down ?m (d + of_nat n) (s + of_nat n) n a = m a" by (intro trans [OF ih(2) fun_upd_other])
  qed
qed simp

lemma memmove_spec:
  assumes "unat dest + unat n \<le> 2 ^ 32" and "unat src + unat n \<le> 2 ^ 32"
  shows "peek (memmove m dest src n) dest (unat n) = peek m src (unat n)"
    and "unat a < unat dest \<or> unat dest + unat n \<le> unat a \<Longrightarrow> memmove m dest src n a = m a"
proof -
  have "(\<forall>i < unat n. memmove m dest src n (dest + of_nat i) = m (src + of_nat i)) \<and>
    (\<forall>a. unat a < unat dest \<or> unat dest + unat n \<le> unat a \<longrightarrow> memmove m dest src n a = m a)"
  proof (cases "dest < src")
    case True
    then have m: "memmove m dest src n = memcpy_loop m dest src (unat n)" by (simp add: memmove_def)
    have "unat dest \<le> unat src" using True by (simp add: word_less_nat_alt)
    from copy_up [OF this assms(2), of m] show ?thesis unfolding m .
  next
    case False
    then have m: "memmove m dest src n = copy_down m (dest + n) (src + n) (unat n)" by (simp add: memmove_def)
    have "unat src \<le> unat dest" using False by (simp add: word_less_nat_alt)
    moreover have e: "dest + n = dest + of_nat (unat n)" "src + n = src + of_nat (unat n)" by simp_all
    ultimately show ?thesis unfolding m e by (intro copy_down_spec assms(1))
  qed
  then show "peek (memmove m dest src n) dest (unat n) = peek m src (unat n)"
    "unat a < unat dest \<or> unat dest + unat n \<le> unat a \<Longrightarrow> memmove m dest src n a = m a"
    by (auto simp: peek_def)
qed

section \<open>What the string routines do to C strings\<close>

lemma strlen_cstr: "cstr m p s \<Longrightarrow> strlen m p = Some (of_nat (length s))"
  unfolding strlen_def using strlen_loop_cstr [of m p 0 s] by simp

lemma strcmp_cstr:
  "cstr m p s \<Longrightarrow> cstr m q t \<Longrightarrow> \<exists>r. strcmp m p q = Some r \<and> (r = 0 \<longleftrightarrow> s = t) \<and> (r < 0 \<longleftrightarrow> s < t)"
  unfolding strcmp_def by (rule k_strcmp_cstr)

lemma cstr_append:
  "cstr m p (a @ b) \<longleftrightarrow> peek m p (length a) = a \<and> 0 \<notin> set a \<and> cstr m (p + of_nat (length a)) b"
proof (induction a arbitrary: p)
  case (Cons c a)
  have "peek m p (length (c # a)) = m p # peek m (p + 1) (length a)"
    unfolding peek_def by (simp add: map_upt_Suc add.assoc del: upt_Suc)
  moreover have "p + of_nat (length (c # a)) = p + 1 + of_nat (length a)" by simp
  ultimately show ?case using Cons.IH [of "p + 1"] by (simp only: append_Cons cstr.simps list.inject list.set) auto
qed (simp add: peek_def)

lemma cstr_cong:
  "cstr m p s \<Longrightarrow> unat p + length s < 2 ^ 32 \<Longrightarrow> (\<And>a. unat p \<le> unat a \<Longrightarrow> unat a \<le> unat p + length s \<Longrightarrow> m' a = m a) \<Longrightarrow>
    cstr m' p s"
proof (induction s arbitrary: p)
  case (Cons c s)
  have "unat (p + 1) = unat p + 1" using Cons.prems(2) unat_offset [of p 1] by simp
  then show ?case using Cons by auto
qed simp

lemma copy_string_spec:
  assumes "cstr m src s" and "unat d + length s < 2 ^ 32" and "unat src + length s < 2 ^ 32"
    and "separate d (Suc (length s)) src (Suc (length s))"
  shows "\<exists>m'. copy_string m d src = Some m' \<and> cstr m' d s \<and>
    (\<forall>a. unat a < unat d \<or> unat d + length s < unat a \<longrightarrow> m' a = m a)"
  using assms
proof (induction s arbitrary: m d src)
  case Nil
  then show ?case by (subst copy_string.simps) auto
next
  case (Cons c s)
  have u: "unat (d + 1) = unat d + 1" "unat (src + 1) = unat src + 1"
    using Cons.prems unat_offset [of d 1] unat_offset [of src 1] by auto
  let ?m = "m(d := c)"
  have sep: "unat d + Suc (Suc (length s)) \<le> unat src \<or> unat src + Suc (Suc (length s)) \<le> unat d"
    using Cons.prems(4) by (simp add: separate_def)
  have "cstr ?m (src + 1) s"
  proof (rule cstr_cong)
    show "cstr m (src + 1) s" using Cons.prems(1) by simp
    show "unat (src + 1) + length s < 2 ^ 32" using Cons.prems(3) u by simp
    fix a :: u32 assume "unat (src + 1) \<le> unat a" "unat a \<le> unat (src + 1) + length s"
    then have "a \<noteq> d" using sep u(2) by auto
    then show "?m a = m a" by simp
  qed
  moreover have "unat (d + 1) + length s < 2 ^ 32" "unat (src + 1) + length s < 2 ^ 32"
    "separate (d + 1) (Suc (length s)) (src + 1) (Suc (length s))"
    using Cons.prems(2,3) sep u by (auto simp: separate_def)
  ultimately obtain m' where m': "copy_string ?m (d + 1) (src + 1) = Some m'" "cstr m' (d + 1) s"
    "\<forall>a. unat a < unat (d + 1) \<or> unat (d + 1) + length s < unat a \<longrightarrow> m' a = ?m a"
    using Cons.IH by blast
  have "copy_string m d src = Some m'" using Cons.prems(1) m'(1) by (subst copy_string.simps) auto
  moreover have "m' d = c" using m'(3) [rule_format, of d] u by simp
  moreover have "c \<noteq> 0" using Cons.prems(1) by simp
  moreover have "m' a = m a" if "unat a < unat d \<or> unat d + length (c # s) < unat a" for a
    using m'(3) [rule_format, of a] u that by auto
  ultimately show ?case using m'(2) by (intro exI [of _ m'] conjI allI impI) simp_all
qed

lemma strcat_spec:
  assumes "cstr m dest s" and "cstr m src t" and "unat dest + length s + length t < 2 ^ 32" and "unat src + length t < 2 ^ 32"
    and "separate dest (Suc (length s + length t)) src (Suc (length t))"
  shows "\<exists>m'. strcat m dest src = Some m' \<and> cstr m' dest (s @ t) \<and>
    (\<forall>a. unat a < unat dest + length s \<or> unat dest + length s + length t < unat a \<longrightarrow> m' a = m a)"
proof -
  have u: "unat (dest + of_nat (length s)) = unat dest + length s" using assms(3) by (intro unat_offset) simp
  have "separate (dest + of_nat (length s)) (Suc (length t)) src (Suc (length t))"
    using assms(5) u by (auto simp: separate_def)
  from copy_string_spec [OF assms(2) _ assms(4) this] obtain m' where m':
    "copy_string m (dest + of_nat (length s)) src = Some m'" "cstr m' (dest + of_nat (length s)) t"
    "\<forall>a. unat a < unat dest + length s \<or> unat dest + length s + length t < unat a \<longrightarrow> m' a = m a"
    using u assms(3) by auto
  have "peek m' dest (length s) = peek m dest (length s)"
    using m'(3) assms(3) by (auto simp: peek_def unat_offset)
  moreover have "peek m dest (length s) = s \<and> 0 \<notin> set s" using cstr_append [of m dest s "[]"] assms(1) by simp
  ultimately have "cstr m' dest (s @ t)" using m'(2) by (simp add: cstr_append)
  then show ?thesis using m' strlen_cstr [OF assms(1)] by (auto simp: strcat_def)
qed

text \<open>\<open>strstr\<close> finds the first place at which the needle occurs.\<close>

lemma strstr_loop_first:
  assumes "cstr m needle t" and "t \<noteq> []" and "unat needle + length t < 2 ^ 32"
  shows "cstr m haystack s \<Longrightarrow> strstr_loop m haystack needle (of_nat (length t)) =
    Some (case find (\<lambda>i. take (length t) (drop i s) = t) [0..<length s] of None \<Rightarrow> 0 | Some i \<Rightarrow> haystack + of_nat i)"
proof (induction s arbitrary: haystack)
  case Nil
  then show ?case by (subst strstr_loop.simps) simp
next
  case (Cons c s)
  have len: "unat (of_nat (length t) :: u32) = length t" using assms(3) by (simp add: unat_of_nat)
  have hit: "strncmp m haystack needle (of_nat (length t)) = 0 \<longleftrightarrow> take (length t) (c # s) = t"
    using strncmp_loop_cstr [OF Cons.prems assms(1), of "length t"] by (simp add: strncmp_def len)
  have nz: "m haystack \<noteq> 0" and s: "cstr m (haystack + 1) s" using Cons.prems by auto
  have up: "[0..<length (c # s)] = 0 # map Suc [0..<length s]" by (simp add: map_Suc_upt upt_conv_Cons del: upt_Suc)
  have fm: "find P (map Suc xs) = map_option Suc (find (\<lambda>i. P (Suc i)) xs)" for P xs by (induction xs) auto
  show ?case
  proof (cases "take (length t) (c # s) = t")
    case True
    then show ?thesis unfolding up using nz hit by (subst strstr_loop.simps) simp
  next
    case False
    then have "strstr_loop m haystack needle (of_nat (length t)) = strstr_loop m (haystack + 1) needle (of_nat (length t))"
      using nz hit by (subst strstr_loop.simps) simp
    then show ?thesis unfolding up using Cons.IH [OF s] False by (simp add: fm split: option.splits)
  qed
qed

section \<open>What the number parsers compute\<close>

text \<open>The value of the leading digits of a base, in unbounded arithmetic, and what follows them.\<close>

fun read_digits :: "nat \<Rightarrow> nat \<Rightarrow> u8 list \<Rightarrow> nat \<times> u8 list" where
  "read_digits base n (c # cs) =
     (case digit_of c of None \<Rightarrow> (n, c # cs)
      | Some d \<Rightarrow> if d \<ge> base then (n, c # cs) else read_digits base (n * base + d) cs)"
| "read_digits base n [] = (n, [])"

lemma read_digits_mono: "0 < base \<Longrightarrow> n \<le> fst (read_digits base n s)"
proof (induction base n s rule: read_digits.induct)
  case (1 base n c cs)
  have "n \<le> n * base" using "1.prems" by simp
  then show ?case using "1.IH" "1.prems" by (cases "digit_of c") (auto intro: order_trans [of n "n * base"] order_trans [of _ "n * base + d" for d])
qed simp

lemma strtoul_digits_wraps:
  "strtoul_digits base (of_nat n) s = (of_nat (fst (read_digits base n s)), snd (read_digits base n s))"
proof (induction base n s rule: read_digits.induct)
  case (1 base n c cs)
  show ?case
  proof (cases "digit_of c")
    case (Some d)
    show ?thesis
    proof (cases "d \<ge> base")
      case False
      have "(of_nat n :: u32) * of_nat base + of_nat d = of_nat (n * base + d)" by simp
      then show ?thesis using Some False "1.IH" [OF Some False] by simp
    qed (simp add: Some)
  qed simp
qed simp

lemma strtoull_digits_saturates:
  assumes "2 \<le> base" and "base \<le> 36"
  shows "unat r = min (2 ^ 64 - 1) n \<Longrightarrow> (2 ^ 64 - 1 < n \<longrightarrow> e) \<Longrightarrow>
    \<exists>r'. strtoull_digits base r e s = (r', snd (read_digits base n s), e \<or> 2 ^ 64 - 1 < fst (read_digits base n s)) \<and>
      unat r' = min (2 ^ 64 - 1) (fst (read_digits base n s))"
proof (induction s arbitrary: r n e)
  case (Cons c cs)
  let ?M = "2 ^ 64 - 1 :: nat"
  show ?case
  proof (cases "digit_of c")
    case None
    then show ?thesis using Cons.prems by auto
  next
    case (Some d)
    show ?thesis
    proof (cases "d \<ge> base")
      case True
      then show ?thesis using Some Cons.prems by auto
    next
      case False
      then have d: "d < base" "d \<le> 35" using assms(2) by auto
      have ud: "unat (of_nat d :: u64) = d" "unat (of_nat base :: u64) = base"
        using d assms by (simp_all add: unat_of_nat)
      have "of_nat d \<le> (0xFFFFFFFFFFFFFFFF :: u64)" using d ud by (simp add: word_le_nat_alt)
      then have lim: "unat ((0xFFFFFFFFFFFFFFFF - of_nat d :: u64) div of_nat base) = (?M - d) div base"
        using ud by (simp add: unat_div unat_sub)
      show ?thesis
      proof (cases "r > (0xFFFFFFFFFFFFFFFF - of_nat d) div of_nat base")
        case True
        then have "(?M - d) div base < unat r" using lim by (simp only: word_less_nat_alt)
        then have "(?M - d) div base < n" using Cons.prems(1) by linarith
        then have big: "?M < n * base + d" using assms(1) by (simp add: div_less_iff_less_mult)
        have "unat (0xFFFFFFFFFFFFFFFF :: u64) = min ?M (n * base + d)" using big by simp
        from Cons.IH [OF this, of True]
        have "\<exists>r'. strtoull_digits base 0xFFFFFFFFFFFFFFFF True cs = (r', snd (read_digits base (n * base + d) cs), True) \<and>
            unat r' = min ?M (fst (read_digits base (n * base + d) cs))" by simp
        moreover have "?M < fst (read_digits base (n * base + d) cs)"
          using big read_digits_mono [of base "n * base + d" cs] assms(1) by linarith
        ultimately show ?thesis using Some \<open>\<not> base \<le> d\<close> True by simp
      next
        case False
        then have le: "unat r \<le> (?M - d) div base" using lim by (simp only: word_less_nat_alt not_less)
        then have r: "unat r * base \<le> ?M - d" using assms(1)
          by (metis div_times_less_eq_dividend mult_le_mono1 order_trans)
        have "n \<le> ?M"
        proof (rule ccontr)
          assume "\<not> n \<le> ?M"
          then have "unat r = ?M" using Cons.prems(1) by simp
          then have "?M * base \<le> ?M - d" using r by simp
          moreover have "?M * 2 \<le> ?M * base" using assms(1) by (intro mult_le_mono2)
          ultimately show False by simp
        qed
        then have rn: "unat r = n" using Cons.prems(1) by simp
        then have s: "n * base + d \<le> ?M" using r d by simp
        then have "unat (r * of_nat base + of_nat d) = n * base + d"
          using rn ud by (simp add: unat_word_ariths)
        then have "unat (r * of_nat base + of_nat d) = min ?M (n * base + d)" "?M < n * base + d \<longrightarrow> e" using s by auto
        from Cons.IH [OF this] show ?thesis using Some \<open>\<not> base \<le> d\<close> False by simp
      qed
    qed
  qed
qed auto

text \<open>The integer a string stands for, with the rest of the string.\<close>

definition signed_digits :: "nat \<Rightarrow> u8 list \<Rightarrow> int \<times> u8 list" where
  "signed_digits base str =
     (let (negative, s) = atoi_sign (skip_spaces str);
          s = skip_spaces s;
          (base, s) = base_prefix base (if s \<noteq> [] \<and> hd s = 0x2B then tl s else s);
          (n, rest) = read_digits base 0 s
      in (if negative then - int n else int n, rest))"

lemma base_prefix_range: "base = 0 \<or> 2 \<le> base \<and> base \<le> 36 \<Longrightarrow> base_prefix base s = (b, s') \<Longrightarrow> 2 \<le> b \<and> b \<le> 36"
  by (auto simp: base_prefix_def Let_def split: list.splits if_splits)

lemma sint_u64: "sint (w :: u64) = (if uint w < 2 ^ 63 then uint w else uint w - 2 ^ 64)"
proof -
  have b: "0 \<le> uint w" "uint w < 18446744073709551616" using unsigned_less [of w, where 'a = int] by auto
  have "sint w = (uint w + 9223372036854775808) mod 18446744073709551616 - 9223372036854775808"
    by (simp add: sint_uint signed_take_bit_eq_take_bit_shift take_bit_eq_mod)
  then show ?thesis using b by (auto simp: mod_eq_if_lt_minus)
qed

lemma strtoll_clamps:
  assumes "base = 0 \<or> 2 \<le> base \<and> base \<le> 36" and "signed_digits base str = (v, rest)"
  shows "\<exists>w. strtoll str base = (w, rest, v < - (2 ^ 63) \<or> 2 ^ 63 - 1 < v) \<and>
    sint w = max (- (2 ^ 63)) (min (2 ^ 63 - 1) v)"
proof -
  obtain neg s where s: "atoi_sign (skip_spaces str) = (neg, s)" by fastforce
  let ?s = "skip_spaces s"
  obtain b t where b: "base_prefix base (if ?s \<noteq> [] \<and> hd ?s = 0x2B then tl ?s else ?s) = (b, t)" by fastforce
  obtain n r where n: "read_digits b 0 t = (n, r)" by fastforce
  have v: "v = (if neg then - int n else int n)" "rest = r" using assms(2) by (auto simp: signed_digits_def s b n Let_def)
  have br: "2 \<le> b" "b \<le> 36" using base_prefix_range [OF assms(1) b] by auto
  obtain w where w: "strtoull_digits b 0 False t = (w, r, 2 ^ 64 - 1 < n)" "unat w = min (2 ^ 64 - 1) n"
    using strtoull_digits_saturates [OF br, of 0 0 False t] n by auto
  have "strtoull s base = (w, r, 2 ^ 64 - 1 < n)" using b w(1) by (simp add: strtoull_def Let_def)
  then have e: "strtoll str base =
      (if neg then (if w \<le> 0x8000000000000000 then (0 - w, r, 2 ^ 64 - 1 < n) else (0x8000000000000000, r, True))
       else (if w \<le> 0x7FFFFFFFFFFFFFFF then (w, r, 2 ^ 64 - 1 < n) else (0x7FFFFFFFFFFFFFFF, r, True)))"
    by (simp add: strtoll_def s)
  have uw: "uint w = min (2 ^ 64 - 1) (int n)"
  proof -
    have "int (unat w) = min (2 ^ 64 - 1) (int n)" unfolding w(2) by (simp add: min_def)
    then show ?thesis by simp
  qed
  have le: "w \<le> 0x8000000000000000 \<longleftrightarrow> int n \<le> 2 ^ 63" "w \<le> 0x7FFFFFFFFFFFFFFF \<longleftrightarrow> int n \<le> 2 ^ 63 - 1"
    using uw by (auto simp: word_le_def)
  have neg: "uint (0 - w) = (if uint w = 0 then 0 else 2 ^ 64 - uint w)"
    using unsigned_less [of w, where 'a = int] by (simp add: uint_word_ariths zmod_zminus1_eq_if)
  have big: "sint (0x8000000000000000 :: u64) = - (2 ^ 63)" "sint (0x7FFFFFFFFFFFFFFF :: u64) = 2 ^ 63 - 1" by simp_all
  consider "neg" "int n \<le> 2 ^ 63" | "neg" "2 ^ 63 < int n" | "\<not> neg" "int n \<le> 2 ^ 63 - 1" | "\<not> neg" "2 ^ 63 - 1 < int n"
    by linarith
  then show ?thesis
  proof cases
    case 1
    then have "uint w = int n" using uw by simp
    then have "sint (0 - w) = - int n" unfolding sint_u64 neg using 1 by auto
    then show ?thesis using e le 1 v by simp
  next
    case 2
    then show ?thesis using e le v big by simp
  next
    case 3
    then have "uint w = int n" using uw by simp
    then have "sint w = int n" unfolding sint_u64 using 3 by auto
    then show ?thesis using e le 3 v by simp
  next
    case 4
    then show ?thesis using e le v big by simp
  qed
qed

text \<open>The 32-bit parser does not saturate: the value wraps.\<close>

lemma strtoul_overflow: "strtoul [0x34, 0x32, 0x39, 0x34, 0x39, 0x36, 0x37, 0x32, 0x39, 0x36] 10 = (0, [])"
  by (simp add: strtoul_def base_prefix_def digit_of_def word_le_nat_alt)

lemma atoi_itoa: "map_option (\<lambda>s. atoi (Some s)) (itoa w 10) = Some w"
proof -
  have "itoa w 10 = k_itoa w 10" by (simp add: itoa_def k_itoa_def Let_def)
  moreover have "atoi = k_atoi" by (simp add: fun_eq_iff atoi_def k_atoi_def)
  ultimately show ?thesis using k_atoi_k_itoa by auto
qed

end
