(* ===== verification/Uproc.thy ===== *)
theory Uproc
  imports Task_Spec Ulibc
begin

text \<open>
  A process as its library sees it (\<open>user_src/user_libc.c\<close>, \<open>user_src/user_syscalls.h\<close>): the whole kernel behind the
  \<open>int 0x80\<close> gate, the library's own variables, the system call stubs, the low-level calls that turn a negative result into
  \<open>errno\<close>, and the bump allocator on top of \<open>sys_brk\<close>. The memory of the process is the memory of the kernel model.
\<close>

unbundle bit_operations_syntax

section \<open>State\<close>

text \<open>The fields of a \<open>FILE\<close> other than its two buffers, which lie in memory behind it.\<close>

record stream =
  s_fd :: u32
  s_eof :: bool
  s_error :: bool
  buffer_pos :: u32
  buffer_len :: u32
  write_pos :: u32

record uproc =
  u_kernel :: kernel
  u_machine :: machine
  u_frame :: u32
  u_heap_end :: u32
  u_errno :: int
  streams :: "u32 \<Rightarrow> stream"

abbreviation umem :: "uproc \<Rightarrow> mem" where
  "umem u \<equiv> kmem (k_fs (u_kernel u))"

definition set_umem :: "mem \<Rightarrow> uproc \<Rightarrow> uproc" where
  "set_umem m u = u\<lparr>u_kernel := (u_kernel u)\<lparr>k_fs := (k_fs (u_kernel u))\<lparr>kmem := m\<rparr>\<rparr>\<rparr>"

section \<open>The gate\<close>

text \<open>The registers at \<open>int 0x80\<close>: number and arguments; the kernel's calls look at no other.\<close>

definition syscall_regs :: "u32 \<Rightarrow> u32 \<Rightarrow> u32 \<Rightarrow> u32 \<Rightarrow> regs" where
  "syscall_regs num a1 a2 a3 = \<lparr>r_gs = 0x23, r_fs = 0x23, r_es = 0x23, r_ds = 0x23, edi = 0, esi = 0, ebp = 0, esp = 0,
     ebx = a1, edx = a3, ecx = a2, eax = num, int_no = 128, err_code = 0, eip = 0, r_cs = 0x1B, eflags = 0x202,
     useresp = 0, r_ss = 0x23\<rparr>"

text \<open>\<open>None\<close> where the call does not come back to the caller at once, or the kernel hangs.\<close>

definition syscall3 :: "u32 \<Rightarrow> u32 \<Rightarrow> u32 \<Rightarrow> u32 \<Rightarrow> uproc \<Rightarrow> (int \<times> uproc) option" where
  "syscall3 num a1 a2 a3 u =
     (case syscall_dispatcher (u_machine u) (u_frame u) (syscall_regs num a1 a2 a3) (u_kernel u) of
        Some (Value _, r, k) \<Rightarrow> Some (sint (eax r), u\<lparr>u_kernel := k\<rparr>)
      | _ \<Rightarrow> None)"

abbreviation (input) syscall2 :: "u32 \<Rightarrow> u32 \<Rightarrow> u32 \<Rightarrow> uproc \<Rightarrow> (int \<times> uproc) option" where
  "syscall2 num a1 a2 \<equiv> syscall3 num a1 a2 0"

abbreviation (input) syscall1 :: "u32 \<Rightarrow> u32 \<Rightarrow> uproc \<Rightarrow> (int \<times> uproc) option" where
  "syscall1 num a1 \<equiv> syscall3 num a1 0 0"

definition usys_read :: "u32 \<Rightarrow> u32 \<Rightarrow> u32 \<Rightarrow> uproc \<Rightarrow> (int \<times> uproc) option" where
  "usys_read fd buf count = syscall3 3 fd buf count"

definition usys_write :: "u32 \<Rightarrow> u32 \<Rightarrow> u32 \<Rightarrow> uproc \<Rightarrow> (int \<times> uproc) option" where
  "usys_write fd buf count = syscall3 4 fd buf count"

definition usys_open :: "u32 \<Rightarrow> u32 \<Rightarrow> u32 \<Rightarrow> uproc \<Rightarrow> (int \<times> uproc) option" where
  "usys_open path flags mode = syscall3 5 path flags mode"

definition usys_close :: "u32 \<Rightarrow> uproc \<Rightarrow> (int \<times> uproc) option" where
  "usys_close fd = syscall1 6 fd"

definition usys_unlink :: "u32 \<Rightarrow> uproc \<Rightarrow> (int \<times> uproc) option" where
  "usys_unlink path = syscall1 10 path"

definition usys_lseek :: "u32 \<Rightarrow> u32 \<Rightarrow> u32 \<Rightarrow> uproc \<Rightarrow> (int \<times> uproc) option" where
  "usys_lseek fd offset whence = syscall3 19 fd offset whence"

definition usys_fstat :: "u32 \<Rightarrow> u32 \<Rightarrow> uproc \<Rightarrow> (int \<times> uproc) option" where
  "usys_fstat fd st = syscall2 28 fd st"

definition usys_mkdir :: "u32 \<Rightarrow> u32 \<Rightarrow> uproc \<Rightarrow> (int \<times> uproc) option" where
  "usys_mkdir path mode = syscall2 39 path mode"

definition usys_dup :: "u32 \<Rightarrow> uproc \<Rightarrow> (int \<times> uproc) option" where
  "usys_dup oldfd = syscall1 41 oldfd"

definition usys_dup2 :: "u32 \<Rightarrow> u32 \<Rightarrow> uproc \<Rightarrow> (int \<times> uproc) option" where
  "usys_dup2 oldfd newfd = syscall2 63 oldfd newfd"

definition usys_brk :: "u32 \<Rightarrow> uproc \<Rightarrow> (int \<times> uproc) option" where
  "usys_brk new_brk = syscall1 45 new_brk"

section \<open>Low-level calls\<close>

text \<open>\<open>if (ret < 0) { errno = -ret; return -1; } return ret;\<close>\<close>

definition errno_result :: "(int \<times> uproc) option \<Rightarrow> (int \<times> uproc) option" where
  "errno_result r = map_option (\<lambda>(ret, u). if ret < 0 then (- 1, u\<lparr>u_errno := - ret\<rparr>) else (ret, u)) r"

text \<open>The same, with 0 for every success.\<close>

definition errno_status :: "(int \<times> uproc) option \<Rightarrow> (int \<times> uproc) option" where
  "errno_status r = map_option (\<lambda>(ret, u). if ret < 0 then (- 1, u\<lparr>u_errno := - ret\<rparr>) else (0, u)) r"

text \<open>The third argument is the variadic one.\<close>

definition open_call :: "u32 \<Rightarrow> u32 \<Rightarrow> u32 \<Rightarrow> uproc \<Rightarrow> (int \<times> uproc) option" where
  "open_call pathname flags arg u =
     errno_result (usys_open pathname flags (if flags AND O_CREAT \<noteq> 0 then arg else 0x1A4) u)"

definition close_call :: "u32 \<Rightarrow> uproc \<Rightarrow> (int \<times> uproc) option" where
  "close_call fd u = errno_status (usys_close fd u)"

definition read_call :: "u32 \<Rightarrow> u32 \<Rightarrow> u32 \<Rightarrow> uproc \<Rightarrow> (int \<times> uproc) option" where
  "read_call fd buf count u = errno_result (usys_read fd buf count u)"

definition write_call :: "u32 \<Rightarrow> u32 \<Rightarrow> u32 \<Rightarrow> uproc \<Rightarrow> (int \<times> uproc) option" where
  "write_call fd buf count u = errno_result (usys_write fd buf count u)"

definition lseek :: "u32 \<Rightarrow> u32 \<Rightarrow> u32 \<Rightarrow> uproc \<Rightarrow> (int \<times> uproc) option" where
  "lseek fd offset whence u = errno_result (usys_lseek fd offset whence u)"

definition mkdir_call :: "u32 \<Rightarrow> u32 \<Rightarrow> uproc \<Rightarrow> (int \<times> uproc) option" where
  "mkdir_call pathname mode u = errno_status (usys_mkdir pathname mode u)"

definition unlink :: "u32 \<Rightarrow> uproc \<Rightarrow> (int \<times> uproc) option" where
  "unlink pathname u = errno_status (usys_unlink pathname u)"

definition dup :: "u32 \<Rightarrow> uproc \<Rightarrow> (int \<times> uproc) option" where
  "dup oldfd u = errno_result (usys_dup oldfd u)"

definition dup2 :: "u32 \<Rightarrow> u32 \<Rightarrow> uproc \<Rightarrow> (int \<times> uproc) option" where
  "dup2 oldfd newfd u = errno_result (usys_dup2 oldfd newfd u)"

definition fstat :: "u32 \<Rightarrow> u32 \<Rightarrow> uproc \<Rightarrow> (int \<times> uproc) option" where
  "fstat fd buf u = errno_status (usys_fstat fd buf u)"

definition isatty :: "u32 \<Rightarrow> bool" where
  "isatty fd \<longleftrightarrow> fd \<in> {0, 1, 2}"

definition getcwd :: "u32 \<Rightarrow> u32 \<Rightarrow> uproc \<Rightarrow> u32 \<times> uproc" where
  "getcwd buf sz u =
     (if buf = 0 \<or> sz < 2 then (0, u\<lparr>u_errno := EINVAL\<rparr>)
      else (buf, set_umem ((umem u)(buf := 0x2F, buf + 1 := 0)) u))"

definition chdir :: "u32 \<Rightarrow> uproc \<Rightarrow> int \<times> uproc" where
  "chdir path u = (- 1, u\<lparr>u_errno := ENOSYS\<rparr>)"

section \<open>The bump allocator\<close>

abbreviation (input) MALLOC_MAGIC :: u32 where "MALLOC_MAGIC \<equiv> 0xA110CA7E"
abbreviation (input) MALLOC_HDR_SIZE :: u32 where "MALLOC_HDR_SIZE \<equiv> 8"

definition heap_init_if_needed :: "uproc \<Rightarrow> uproc option" where
  "heap_init_if_needed u =
     (if u_heap_end u = 0 then map_option (\<lambda>(ret, u). u\<lparr>u_heap_end := of_int ret\<rparr>) (usys_brk 0 u) else Some u)"

definition malloc :: "u32 \<Rightarrow> uproc \<Rightarrow> (u32 \<times> uproc) option" where
  "malloc sz u =
     (if sz = 0 then Some (0, u)
      else case heap_init_if_needed u of None \<Rightarrow> None | Some u \<Rightarrow>
        let aligned = (sz + 7) AND NOT 7;
            total = MALLOC_HDR_SIZE + aligned;
            new_end = u_heap_end u + total
        in case usys_brk new_end u of None \<Rightarrow> None | Some (ret, u) \<Rightarrow>
           if ret < 0 then Some (0, u\<lparr>u_errno := ENOMEM\<rparr>)
           else let hdr = u_heap_end u;
                    m = store_bytes hdr (bytes32 sz @ bytes32 MALLOC_MAGIC) (umem u)
                in Some (hdr + MALLOC_HDR_SIZE, (set_umem m u)\<lparr>u_heap_end := new_end\<rparr>))"

definition calloc :: "u32 \<Rightarrow> u32 \<Rightarrow> uproc \<Rightarrow> (u32 \<times> uproc) option" where
  "calloc nmemb sz u =
     (let total = nmemb * sz
      in if total = 0 then Some (0, u)
         else if nmemb \<noteq> 0 \<and> total div nmemb \<noteq> sz then Some (0, u\<lparr>u_errno := ENOMEM\<rparr>)
         else case malloc total u of None \<Rightarrow> None | Some (ptr, u) \<Rightarrow>
           Some (ptr, if ptr \<noteq> 0 then set_umem (memset (umem u) ptr 0 total) u else u))"

definition realloc :: "u32 \<Rightarrow> u32 \<Rightarrow> uproc \<Rightarrow> (u32 \<times> uproc) option" where
  "realloc ptr sz u =
     (if ptr = 0 then malloc sz u
      else if sz = 0 then Some (0, u)
      else let hdr = ptr - MALLOC_HDR_SIZE;
               old_size = (if word_at (umem u) (hdr + 4) = MALLOC_MAGIC then word_at (umem u) hdr else 0)
           in case malloc sz u of None \<Rightarrow> None | Some (new_ptr, u) \<Rightarrow>
              if new_ptr = 0 then Some (0, u)
              else let copy_size = (if old_size < sz then old_size else sz)
                   in Some (new_ptr, if copy_size > 0 then set_umem (memcpy (umem u) new_ptr ptr copy_size) u else u))"

definition free :: "u32 \<Rightarrow> uproc \<Rightarrow> uproc" where
  "free ptr u = u"

definition strdup :: "u32 \<Rightarrow> uproc \<Rightarrow> (u32 \<times> uproc) option" where
  "strdup s u =
     (if s = 0 then Some (0, u)
      else case strlen (umem u) s of None \<Rightarrow> None | Some n \<Rightarrow>
        let len = n + 1
        in case malloc len u of None \<Rightarrow> None | Some (new_s, u) \<Rightarrow>
           Some (new_s, if new_s \<noteq> 0 then set_umem (memcpy (umem u) new_s s len) u else u))"

definition strndup :: "u32 \<Rightarrow> u32 \<Rightarrow> uproc \<Rightarrow> (u32 \<times> uproc) option" where
  "strndup s n u =
     (if s = 0 then Some (0, u)
      else case strlen (umem u) s of None \<Rightarrow> None | Some len \<Rightarrow>
        let len = (if n < len then n else len)
        in case malloc (len + 1) u of None \<Rightarrow> None | Some (new_s, u) \<Rightarrow>
           Some (new_s, if new_s \<noteq> 0 then set_umem ((memcpy (umem u) new_s s len)(new_s + len := 0)) u else u))"

definition realpath :: "u32 \<Rightarrow> u32 \<Rightarrow> uproc \<Rightarrow> (u32 \<times> uproc) option" where
  "realpath path resolved_path u =
     (if path = 0 then Some (0, u\<lparr>u_errno := EINVAL\<rparr>)
      else case (if resolved_path \<noteq> 0 then Some (resolved_path, u)
                 else case strlen (umem u) path of None \<Rightarrow> None | Some n \<Rightarrow> malloc (n + 1) u) of
        None \<Rightarrow> None
      | Some (dest, u) \<Rightarrow>
          if dest = 0 then Some (0, u\<lparr>u_errno := ENOMEM\<rparr>)
          else map_option (\<lambda>m. (dest, set_umem m u)) (strcpy (umem u) dest path))"

section \<open>What the allocator promises\<close>

abbreviation brk_area :: "uproc \<Rightarrow> vma_node option" where
  "brk_area u \<equiv> heap_area (t_vmas (tasks (u_kernel u) (current_task (u_kernel u))))"

lemma umem_set_umem [simp]: "umem (set_umem m u) = m"
  by (simp add: set_umem_def)

lemma set_umem_fields [simp]:
  "brk_area (set_umem m u) = brk_area u" "u_heap_end (set_umem m u) = u_heap_end u" "u_errno (set_umem m u) = u_errno u"
  by (simp_all add: set_umem_def)

lemma usys_brk_0:
  "usys_brk 0 u = Some (sint (case brk_area u of None \<Rightarrow> USER_HEAP_START | Some v \<Rightarrow> v_end v), u)"
  by (simp add: usys_brk_def syscall3_def syscall_dispatcher_def syscall_regs_def syscall_table_def memory_call_def
      sys_brk_handler_def on_task_def)

lemma heap_area_set: "heap_area vs = Some v \<Longrightarrow> heap_area (set_heap_end e vs) = Some (v\<lparr>v_end := e\<rparr>)"
  by (induction vs) (auto simp: heap_area_def)

lemma heap_area_insert:
  "heap_area vs = None \<Longrightarrow> v_start n = USER_HEAP_START \<Longrightarrow> heap_area (vma_insert n vs) = Some n"
proof -
  have "heap_area vs = None \<Longrightarrow> v_start n = USER_HEAP_START \<Longrightarrow> heap_area (insert_walk n vs) = Some n" for vs
    by (induction vs) (auto simp: heap_area_def)
  then show "heap_area vs = None \<Longrightarrow> v_start n = USER_HEAP_START \<Longrightarrow> heap_area (vma_insert n vs) = Some n"
    by (cases vs) (auto simp: heap_area_def vma_insert_def split: if_splits)
qed

definition brk_ok :: "u32 \<Rightarrow> int \<Rightarrow> uproc \<Rightarrow> uproc \<Rightarrow> bool" where
  "brk_ok nb ret u u' \<longleftrightarrow> umem u' = umem u \<and> u_heap_end u' = u_heap_end u \<and>
     (if ret < 0 then brk_area u' = brk_area u
      else nb \<le> USER_HEAP_START + USER_HEAP_MAX_SIZE \<and>
        (\<exists>v. brk_area u' = Some v \<and> v_start v = USER_HEAP_START \<and> nb \<le> v_end v))"

lemma usys_brk_spec:
  assumes "nb \<noteq> 0"
  shows "\<exists>ret u'. usys_brk nb u = Some (ret, u') \<and> brk_ok nb ret u u'"
proof -
  let ?k = "u_kernel u" and ?c = "current_task (u_kernel u)"
  let ?vs = "t_vmas (tasks ?k ?c)"
  let ?m = "\<lparr>mm_heap = fs_heap (k_fs ?k), mm_vm = k_vm ?k, mm_pdir = t_pdir (tasks ?k ?c), mm_vmas = ?vs\<rparr>"
  let ?r = "syscall_regs 45 nb 0 0"
  have gate: "usys_brk nb u = Some (sint (of_int ret :: u32), u\<lparr>u_kernel := on_task ?c (\<lambda>t. t\<lparr>t_vmas := mm_vmas m\<rparr>)
      (?k\<lparr>k_fs := (k_fs ?k)\<lparr>fs_heap := mm_heap m\<rparr>, k_vm := mm_vm m\<rparr>)\<rparr>)" if "sys_brk_handler ?r ?m = Some (ret, m)" for ret m
    using that by (simp add: usys_brk_def syscall3_def syscall_dispatcher_def syscall_table_def memory_call_def)
      (simp add: syscall_regs_def)
  have out: ?thesis
    if "sys_brk_handler ?r ?m = Some (ret, m)" "ret = 0 \<or> ret = - 12"
      "if ret < 0 then heap_area (mm_vmas m) = heap_area ?vs
       else nb \<le> 0x14000000 \<and> (\<exists>v. heap_area (mm_vmas m) = Some v \<and> v_start v = USER_HEAP_START \<and> nb \<le> v_end v)" for ret m
    using gate [OF that(1)] that(2,3) by (auto simp: brk_ok_def on_task_def)
  have start: "v_start v = USER_HEAP_START" if "heap_area vs = Some v" for v vs
    using that by (auto simp: heap_area_def find_Some_iff)
  consider (big) "nb > 0x14000000" | (none) "nb \<le> 0x14000000" "heap_area ?vs = None"
    | (some) v where "nb \<le> 0x14000000" "heap_area ?vs = Some v" by fastforce
  then show ?thesis
  proof cases
    case big
    show ?thesis by (rule out [of "- 12" ?m]) (use big assms in \<open>simp_all add: sys_brk_handler_def syscall_regs_def Let_def\<close>)
  next
    case none
    obtain ret h vs where a: "vma_add (fs_heap (k_fs ?k)) ?vs USER_HEAP_START nb (VMA_READ OR VMA_WRITE) = (ret, h, vs)"
      by (metis prod_cases3)
    have "nb \<le> KERNEL_SPACE_START" using none(1) by (simp add: word_le_nat_alt)
    note up = page_up_kernel(2) [OF this]
    have pd: "page_down USER_HEAP_START = USER_HEAP_START" by (simp add: page_down_def)
    have "ret < 0 \<and> vs = ?vs \<or> ret = 0 \<and> (\<exists>p fl. vs = vma_insert \<lparr>v_addr = p, v_start = USER_HEAP_START, v_end = page_up nb, v_flags = fl\<rparr> ?vs)"
      using a none(1) unfolding vma_add_def by (auto simp: pd Let_def split: prod.splits if_splits simp: word_le_nat_alt word_less_nat_alt)
    then show ?thesis
    proof
      assume n: "ret < 0 \<and> vs = ?vs"
      show ?thesis
        by (rule out [of "- 12" "?m\<lparr>mm_heap := h, mm_vmas := vs\<rparr>"])
          (use none assms a n in \<open>simp_all add: sys_brk_handler_def syscall_regs_def Let_def\<close>)
    next
      assume z: "ret = 0 \<and> (\<exists>p fl. vs = vma_insert \<lparr>v_addr = p, v_start = USER_HEAP_START, v_end = page_up nb, v_flags = fl\<rparr> ?vs)"
      then obtain n where n: "vs = vma_insert n ?vs" "v_start n = USER_HEAP_START" "v_end n = page_up nb" by auto
      show ?thesis
        by (rule out [of 0 "?m\<lparr>mm_heap := h, mm_vmas := vs\<rparr>"])
          (use none assms a z n up heap_area_insert [OF none(2) n(2)] in \<open>simp_all add: sys_brk_handler_def syscall_regs_def Let_def\<close>)
    qed
  next
    case some
    note st = start [OF some(2)] and set = heap_area_set [OF some(2), of nb]
    have h: "sys_brk_handler ?r ?m = Some (- 12, ?m) \<or> sys_brk_handler ?r ?m = Some (0, ?m\<lparr>mm_vmas := set_heap_end nb ?vs\<rparr>) \<or>
        sys_brk_handler ?r ?m = Some (0, ?m) \<and> v_end v = nb"
      using some assms by (auto simp: sys_brk_handler_def syscall_regs_def Let_def)
    then show ?thesis
    proof (elim disjE conjE)
      assume "sys_brk_handler ?r ?m = Some (- 12, ?m)"
      then show ?thesis by (rule out) simp_all
    next
      assume "sys_brk_handler ?r ?m = Some (0, ?m\<lparr>mm_vmas := set_heap_end nb ?vs\<rparr>)"
      then show ?thesis by (rule out) (simp_all add: some(1) set st)
    next
      assume "sys_brk_handler ?r ?m = Some (0, ?m)" "v_end v = nb"
      then show ?thesis by (intro out [of 0 ?m]) (simp_all add: some st)
    qed
  qed
qed

text \<open>The break of the library: not asked for yet, or inside the heap area of the process.\<close>

definition heap_ok :: "uproc \<Rightarrow> bool" where
  "heap_ok u \<longleftrightarrow>
     (if u_heap_end u = 0
      then \<forall>v. brk_area u = Some v \<longrightarrow> USER_HEAP_START \<le> v_end v \<and> unat (v_end v) \<le> 0x14000000 \<and> v_end v mod 8 = 0
      else USER_HEAP_START \<le> u_heap_end u \<and> unat (u_heap_end u) \<le> 0x14000000 \<and> u_heap_end u mod 8 = 0 \<and>
        (u_heap_end u = USER_HEAP_START \<or> (\<exists>v. brk_area u = Some v \<and> u_heap_end u \<le> v_end v)))"

lemma heap_init_spec:
  assumes "heap_ok u"
  shows "\<exists>u'. heap_init_if_needed u = Some u' \<and> heap_ok u' \<and> u_heap_end u' \<noteq> 0 \<and> umem u' = umem u \<and>
    brk_area u' = brk_area u \<and> (u_heap_end u \<noteq> 0 \<longrightarrow> u' = u)"
proof (cases "u_heap_end u = 0")
  case False
  then show ?thesis using assms by (simp add: heap_init_if_needed_def)
next
  case True
  let ?e = "case brk_area u of None \<Rightarrow> USER_HEAP_START | Some v \<Rightarrow> v_end v"
  have "heap_init_if_needed u = Some (u\<lparr>u_heap_end := ?e\<rparr>)"
    using True by (simp add: heap_init_if_needed_def usys_brk_0)
  moreover have "USER_HEAP_START \<le> ?e \<and> unat ?e \<le> 0x14000000 \<and> ?e mod 8 = 0"
    using assms True by (auto simp: heap_ok_def split: option.splits)
  moreover have "?e \<noteq> 0" using calculation(2) by auto
  ultimately show ?thesis using True by (intro exI [of _ "u\<lparr>u_heap_end := ?e\<rparr>"]) (auto simp: heap_ok_def split: option.splits)
qed

text \<open>The size of a block with its header.\<close>

definition block_total :: "u32 \<Rightarrow> nat" where
  "block_total sz = 8 + (unat sz + 7) div 8 * 8"

lemma unat_and_not_7: "unat ((x :: u32) AND NOT 7) = unat x div 8 * 8"
proof -
  have m: "(7 :: u32) = mask 3" by (simp add: mask_eq_exp_minus_1)
  have "unat (x AND NOT (mask 3)) = push_bit 3 (drop_bit 3 (unat x))"
    by (rule bit_eqI) (auto simp: bit_simps dest: bit_imp_le_length)
  then show ?thesis unfolding m by (simp add: push_bit_eq_mult drop_bit_eq_div)
qed

lemma unat_total:
  assumes "unat sz < 0xE0000000"
  shows "unat (MALLOC_HDR_SIZE + ((sz + 7) AND NOT 7)) = block_total sz"
proof -
  have "unat (sz + 7) = unat sz + 7" using assms by (simp add: unat_word_ariths)
  then have "unat ((sz + 7) AND NOT 7) = (unat sz + 7) div 8 * 8" by (simp only: unat_and_not_7)
  then show ?thesis using assms by (simp add: block_total_def unat_word_ariths)
qed

lemma store_bytes_other:
  "unat p + length bs \<le> 2 ^ 32 \<Longrightarrow> unat a < unat p \<or> unat p + length bs \<le> unat a \<Longrightarrow> store_bytes p bs m a = m a"
proof (induction bs arbitrary: p m)
  case (Cons b bs)
  show ?case
  proof (cases "bs = []")
    case True
    then show ?thesis using Cons.prems by auto
  next
    case False
    then obtain b' bs' where "bs = b' # bs'" by (cases bs) auto
    then have u: "unat (p + 1) = unat p + 1" using Cons.prems(1) unat_offset [of p 1] by simp
    then have "store_bytes (p + 1) bs (m(p := b)) a = (m(p := b)) a" using Cons.prems by (intro Cons.IH) auto
    then show ?thesis using Cons.prems by auto
  qed
qed simp

text \<open>A successful allocation: the old break, a header there, the block behind it.\<close>

lemma malloc_spec:
  assumes "heap_ok u" and "sz \<noteq> 0" and "unat sz < 0xE0000000"
  shows "\<exists>p u'. malloc sz u = Some (p, u') \<and> heap_ok u' \<and> u_heap_end u' \<noteq> 0 \<and>
    (if p = 0 then u_errno u' = ENOMEM \<and> umem u' = umem u \<and> (u_heap_end u \<noteq> 0 \<longrightarrow> u_heap_end u' = u_heap_end u)
     else (u_heap_end u \<noteq> 0 \<longrightarrow> p = u_heap_end u + 8) \<and> p mod 8 = 0 \<and> 0x10000008 \<le> unat p \<and>
       unat (u_heap_end u') = unat p - 8 + block_total sz \<and> unat p + unat sz \<le> unat (u_heap_end u') \<and>
       umem u' = store_bytes (p - 8) (bytes32 sz @ bytes32 MALLOC_MAGIC) (umem u))"
proof -
  obtain u1 where u1: "heap_init_if_needed u = Some u1" "heap_ok u1" "u_heap_end u1 \<noteq> 0" "umem u1 = umem u"
    "u_heap_end u \<noteq> 0 \<longrightarrow> u1 = u" using heap_init_spec [OF assms(1)] by blast
  define e where "e = u_heap_end u1"
  have e: "USER_HEAP_START \<le> e" "unat e \<le> 0x14000000" "e mod 8 = 0" using u1(2,3) by (auto simp: heap_ok_def e_def)
  let ?total = "MALLOC_HDR_SIZE + ((sz + 7) AND NOT 7)"
  have t: "unat ?total = block_total sz" by (rule unat_total [OF assms(3)])
  have bt: "block_total sz \<le> unat sz + 15" "unat sz + 8 \<le> block_total sz" "block_total sz mod 8 = 0"
    by (auto simp: block_total_def)
  have ne: "unat (e + ?total) = unat e + block_total sz"
    using t bt(1) e(2) assms(3) by (simp add: unat_word_ariths)
  have nz: "e + ?total \<noteq> 0" using ne e(1) by (auto simp: word_le_nat_alt)
  obtain ret u2 where b: "usys_brk (e + ?total) u1 = Some (ret, u2)" "brk_ok (e + ?total) ret u1 u2"
    using usys_brk_spec [OF nz] by blast
  have mal: "malloc sz u = (if ret < 0 then Some (0, u2\<lparr>u_errno := ENOMEM\<rparr>)
      else Some (e + 8, (set_umem (store_bytes e (bytes32 sz @ bytes32 MALLOC_MAGIC) (umem u2)) u2)\<lparr>u_heap_end := e + ?total\<rparr>))"
  proof -
    have "u_heap_end u2 = e" using b(2) by (simp add: brk_ok_def e_def)
    then show ?thesis using assms(2) u1(1) b(1) by (simp add: malloc_def Let_def e_def)
  qed
  show ?thesis
  proof (cases "ret < 0")
    case True
    have "heap_ok (u2\<lparr>u_errno := ENOMEM\<rparr>)" using u1(2,3) b(2) True by (auto simp: brk_ok_def heap_ok_def)
    then show ?thesis using mal True b(2) u1 by (auto simp: brk_ok_def)
  next
    case False
    have e8: "unat e mod 8 = 0" using e(3) by (simp add: word_unat_eq_iff unat_mod)
    have up: "unat (e + 8) = unat e + 8" using e(2) by (simp add: unat_word_ariths)
    obtain v where v: "brk_area u2 = Some v" "e + ?total \<le> v_end v" and le: "e + ?total \<le> USER_HEAP_START + USER_HEAP_MAX_SIZE"
      and um: "umem u2 = umem u1" using b(2) False by (auto simp: brk_ok_def)
    have "unat (e + ?total) mod 8 = 0" unfolding ne using e8 bt(3) by (simp add: mod_add_eq [symmetric, of "unat e"])
    then have m8: "(e + ?total) mod 8 = 0" "(e + 8) mod 8 = 0" using up e8 by (simp_all add: word_unat_eq_iff unat_mod)
    have lim: "unat (e + ?total) \<le> 0x14000000" using le by (simp only: word_le_nat_alt) simp
    have lo: "USER_HEAP_START \<le> e + ?total" using ne e(1) by (simp add: word_le_nat_alt)
    let ?u = "(set_umem (store_bytes e (bytes32 sz @ bytes32 MALLOC_MAGIC) (umem u2)) u2)\<lparr>u_heap_end := e + ?total\<rparr>"
    have "brk_area ?u = brk_area u2" by (simp add: set_umem_def)
    then have ok: "heap_ok ?u" using nz lo lim m8 v by (simp add: heap_ok_def)
    have pz: "e + 8 \<noteq> 0" "0x10000008 \<le> unat (e + 8)" using up e(1) by (auto simp: word_le_nat_alt)
    have old: "u_heap_end u \<noteq> 0 \<longrightarrow> e + 8 = u_heap_end u + 8" using u1(5) by (auto simp: e_def)
    have top: "unat (e + ?total) = unat (e + 8) - 8 + block_total sz" "unat (e + 8) + unat sz \<le> unat (e + ?total)"
      unfolding ne up using bt(2) by simp_all
    have "umem ?u = store_bytes (e + 8 - 8) (bytes32 sz @ bytes32 MALLOC_MAGIC) (umem u)" by (simp add: set_umem_def um u1(4))
    moreover have "u_heap_end ?u = e + ?total" by simp
    ultimately show ?thesis using mal False ok nz pz old m8(2) top
      by (intro exI [of _ "e + 8"] exI [of _ ?u]) (simp only: if_False if_True simp_thms)
  qed
qed

text \<open>
  Runs of a program that allocates, copies strings and writes to its memory: the state, the blocks handed
  out so far and the sizes that were asked of \<open>malloc\<close>, whatever they are.
\<close>

inductive allocating :: "uproc \<Rightarrow> (u32 \<times> u32) list \<Rightarrow> u32 list \<Rightarrow> bool" where
  start: "heap_ok u \<Longrightarrow> u_heap_end u = 0 \<Longrightarrow> allocating u [] []"
| malloc: "allocating u bs rs \<Longrightarrow> malloc sz u = Some (p, u') \<Longrightarrow>
    allocating u' (if p = 0 then bs else (p, sz) # bs) (sz # rs)"
| calloc: "allocating u bs rs \<Longrightarrow> calloc nmemb sz u = Some (p, u') \<Longrightarrow>
    allocating u' (if p = 0 then bs else (p, nmemb * sz) # bs) ((nmemb * sz) # rs)"
| realloc: "allocating u bs rs \<Longrightarrow> realloc q sz u = Some (p, u') \<Longrightarrow>
    allocating u' (if p = 0 then bs else (p, sz) # bs) (sz # rs)"
| strdup: "allocating u bs rs \<Longrightarrow> strlen (umem u) q = Some n \<Longrightarrow> strdup q u = Some (p, u') \<Longrightarrow>
    allocating u' (if p = 0 then bs else (p, n + 1) # bs) ((n + 1) # rs)"
| strndup: "allocating u bs rs \<Longrightarrow> strlen (umem u) q = Some n \<Longrightarrow> strndup q k u = Some (p, u') \<Longrightarrow>
    allocating u' (if p = 0 then bs else (p, (if k < n then k else n) + 1) # bs) (((if k < n then k else n) + 1) # rs)"
| free: "allocating u bs rs \<Longrightarrow> allocating (free q u) bs rs"
| user_write: "allocating u bs rs \<Longrightarrow> allocating (set_umem m u) bs rs"

definition block_ok :: "u32 \<Rightarrow> u32 \<times> u32 \<Rightarrow> bool" where
  "block_ok e b \<longleftrightarrow> (case b of (p, sz) \<Rightarrow> 0x10000008 \<le> unat p \<and> p mod 8 = 0 \<and> unat p + unat sz \<le> unat e)"

definition blocks_ok :: "uproc \<Rightarrow> (u32 \<times> u32) list \<Rightarrow> bool" where
  "blocks_ok u bs \<longleftrightarrow> heap_ok u \<and> (bs \<noteq> [] \<longrightarrow> u_heap_end u \<noteq> 0) \<and> (\<forall>b \<in> set bs. block_ok (u_heap_end u) b) \<and>
     sorted_wrt (\<lambda>(p, sz) (q, k). unat q + unat k + 8 \<le> unat p) bs"

lemma heap_ok_set_umem [simp]: "heap_ok (set_umem m u) = heap_ok u"
  by (simp add: heap_ok_def)

lemma blocks_ok_set_umem [simp]: "blocks_ok (set_umem m u) bs = blocks_ok u bs"
  by (simp add: blocks_ok_def)

lemma blocks_ok_errno [simp]: "blocks_ok (u\<lparr>u_errno := e\<rparr>) bs = blocks_ok u bs"
  by (simp add: blocks_ok_def heap_ok_def)

lemma malloc_blocks:
  assumes "blocks_ok u bs" and "unat sz < 0xE0000000" and "malloc sz u = Some (p, u')"
  shows "blocks_ok u' (if p = 0 then bs else (p, sz) # bs)"
proof (cases "sz = 0")
  case True
  then show ?thesis using assms by (auto simp: malloc_def)
next
  case False
  note m = malloc_spec [OF _ False assms(2)] and b = assms(1) [unfolded blocks_ok_def]
  have mm: "heap_ok u' \<and> u_heap_end u' \<noteq> 0 \<and>
    (if p = 0 then u_heap_end u \<noteq> 0 \<longrightarrow> u_heap_end u' = u_heap_end u
     else (u_heap_end u \<noteq> 0 \<longrightarrow> p = u_heap_end u + 8) \<and> p mod 8 = 0 \<and> 0x10000008 \<le> unat p \<and>
       unat p + unat sz \<le> unat (u_heap_end u') \<and> unat (u_heap_end u') = unat p - 8 + block_total sz)"
    using m [of u] b assms(3) by (auto split: if_splits)
  show ?thesis
  proof (cases "p = 0")
    case True
    then show ?thesis using mm b by (auto simp: blocks_ok_def)
  next
    case False
    have above: "unat q + unat k + 8 \<le> unat p \<and> block_ok (u_heap_end u') (q, k)" if "(q, k) \<in> set bs" for q k
    proof -
      have "u_heap_end u \<noteq> 0" "block_ok (u_heap_end u) (q, k)" using b that by auto
      moreover have "unat (u_heap_end u) \<le> 0x14000000" using b calculation(1) by (auto simp: heap_ok_def)
      ultimately have "unat p = unat (u_heap_end u) + 8" using mm False unat_offset [of "u_heap_end u" 8] by simp
      then show ?thesis using \<open>block_ok (u_heap_end u) (q, k)\<close> mm False by (auto simp: block_ok_def)
    qed
    have f: "0x10000008 \<le> unat p" "p mod 8 = 0" "unat p + unat sz \<le> unat (u_heap_end u')" using mm unfolding if_not_P [OF False] by blast+
    have "block_ok (u_heap_end u') (p, sz)" unfolding block_ok_def prod.case by (intro conjI f)
    then show ?thesis using above mm b False by (auto simp: blocks_ok_def)
  qed
qed

lemma allocating_blocks: "allocating u bs rs \<Longrightarrow> \<forall>n\<in>set rs. unat n < 0xE0000000 \<Longrightarrow> blocks_ok u bs"
proof (induction rule: allocating.induct)
  case (start u)
  then show ?case by (simp add: blocks_ok_def)
next
  case (malloc u bs rs sz p u')
  then show ?case by (intro malloc_blocks) auto
next
  case (calloc u bs rs nmemb sz p u')
  then show ?case
    using malloc_blocks [of u bs "nmemb * sz"] by (auto simp: calloc_def Let_def split: if_splits option.splits)
next
  case (realloc u bs rs q sz p u')
  then show ?case
    using malloc_blocks [of u bs sz] by (auto simp: realloc_def Let_def split: if_splits option.splits)
next
  case (strdup u bs rs q n p u')
  then show ?case
    using malloc_blocks [of u bs "n + 1"] by (auto simp: strdup_def Let_def split: if_splits option.splits)
next
  case (strndup u bs rs q n k p u')
  then show ?case
    using malloc_blocks [of u bs "(if k < n then k else n) + 1"]
    by (auto simp: strndup_def Let_def split: if_splits option.splits)
next
  case (free u bs rs q)
  then show ?case by (simp add: free_def)
next
  case (user_write u bs rs m)
  then show ?case by simp
qed


section \<open>Properties\<close>

text \<open>A process as \<open>exec\<close> leaves it: an empty heap area and plenty of memory.\<close>

definition uproc_demo :: uproc where
  "uproc_demo = \<lparr>u_kernel = (on_task 0x10 (\<lambda>t. t\<lparr>t_vmas := [\<lparr>v_addr = 0xD0000008, v_start = USER_HEAP_START,
       v_end = USER_HEAP_START, v_flags = 6\<rparr>]\<rparr>) kernel_demo)\<lparr>k_vm := vm_demo\<lparr>vm_pmm := vm_demo_pmm\<lparr>total_available_pages := 100\<rparr>\<rparr>\<rparr>,
     u_machine = machine_demo, u_frame = 0xC8003FB4, u_heap_end = 0, u_errno = 0,
     streams = (\<lambda>_. \<lparr>s_fd = 0, s_eof = False, s_error = False, buffer_pos = 0, buffer_len = 0, write_pos = 0\<rparr>)\<rparr>"

lemma brk_area_demo: "brk_area uproc_demo = Some \<lparr>v_addr = 0xD0000008, v_start = USER_HEAP_START, v_end = USER_HEAP_START, v_flags = 6\<rparr>"
  by (simp add: uproc_demo_def on_task_def kernel_demo_def heap_area_def)

lemma heap_ok_demo: "heap_ok uproc_demo" "u_heap_end uproc_demo = 0"
proof -
  show e: "u_heap_end uproc_demo = 0" by (simp add: uproc_demo_def)
  show "heap_ok uproc_demo" unfolding heap_ok_def brk_area_demo e by simp
qed

lemma heap_init_demo: "heap_init_if_needed uproc_demo = Some (uproc_demo\<lparr>u_heap_end := USER_HEAP_START\<rparr>)"
  by (simp add: heap_init_if_needed_def usys_brk_0 brk_area_demo heap_ok_demo)

lemmas brk_demo_defs = usys_brk_def syscall3_def syscall_dispatcher_def syscall_regs_def syscall_table_def memory_call_def
  sys_brk_handler_def on_task_def uproc_demo_def kernel_demo_def heap_area_def vma_intersects.simps
  pmm_get_free_pages_def vm_demo_def vm_demo_pmm_def pmm_demo_def

lemma malloc_demo: "\<exists>u. malloc 24 uproc_demo = Some (0x10000008, u)"
proof -
  have "\<exists>u. usys_brk 0x10000020 (uproc_demo\<lparr>u_heap_end := USER_HEAP_START\<rparr>) = Some (0, u) \<and> u_heap_end u = USER_HEAP_START"
    by (simp add: brk_demo_defs)
  then show ?thesis by (auto simp: malloc_def heap_init_demo Let_def)
qed

text \<open>Requests near \<open>2 ^ 32\<close> wrap: one gets a block of no bytes, the other moves the break of library and kernel below
  the heap. Neither fails.\<close>

lemma malloc_size_wraps: "\<exists>u. malloc 0xFFFFFFFF uproc_demo = Some (0x10000008, u) \<and> u_heap_end u = 0x10000008"
proof -
  have "\<exists>u. usys_brk 0x10000008 (uproc_demo\<lparr>u_heap_end := USER_HEAP_START\<rparr>) = Some (0, u) \<and> u_heap_end u = USER_HEAP_START"
    by (simp add: brk_demo_defs)
  moreover have e: "(4563402760 :: u32) = 0x10000008" by simp
  ultimately show ?thesis by (auto simp: e malloc_def heap_init_demo Let_def)
qed

lemma malloc_end_wraps: "\<exists>u. malloc 0xF0000000 uproc_demo = Some (0x10000008, u) \<and> u_heap_end u = 8 \<and>
    (\<exists>v. brk_area u = Some v \<and> v_end v = 8)"
proof -
  have "\<exists>u. usys_brk 8 (uproc_demo\<lparr>u_heap_end := USER_HEAP_START\<rparr>) = Some (0, u) \<and> u_heap_end u = USER_HEAP_START \<and>
      (\<exists>v. brk_area u = Some v \<and> v_end v = 8)"
    by (simp add: brk_demo_defs)
  moreover have e: "(4294967304 :: u32) = 8" by simp
  ultimately show ?thesis by (auto simp: e malloc_def heap_init_demo Let_def set_umem_def)
qed

lemma allocating_demo: "\<exists>u. allocating u [(0x10000008, 24)] [24]"
proof -
  obtain u where "malloc 24 uproc_demo = Some (0x10000008, u)" using malloc_demo by blast
  then show ?thesis using allocating.malloc [OF allocating.start [OF heap_ok_demo], of 24 "0x10000008" u] by auto
qed

text \<open>C9. As long as a process asks for less than \<open>0xE0000000\<close> bytes at a time, whatever it allocates, copies and
  writes, its blocks never overlap each other or one another's headers, are aligned to eight bytes and lie inside
  the heap area that the kernel granted. The bound is needed: \<open>malloc_size_wraps\<close> and \<open>malloc_end_wraps\<close> show
  larger requests that succeed with a block outside the area, because the size wraps.\<close>

theorem malloc_blocks_disjoint:
  assumes "allocating u bs rs" and "\<forall>n \<in> set rs. unat n < 0xE0000000"
  shows "sorted_wrt (\<lambda>(p, sz) (q, k). unat q + unat k \<le> unat p - 8) bs \<and>
    (\<forall>(p, sz) \<in> set bs. p mod 8 = 0 \<and> 0x10000008 \<le> unat p \<and>
       (\<exists>v. brk_area u = Some v \<and> unat p + unat sz \<le> unat (v_end v)))"
proof -
  note b = allocating_blocks [OF assms, unfolded blocks_ok_def]
  have "sorted_wrt (\<lambda>(p, sz) (q, k). unat q + unat k \<le> unat p - 8) bs"
    using b by (elim conjE) (erule sorted_wrt_mono_rel [rotated], auto)
  moreover have "p mod 8 = 0 \<and> 0x10000008 \<le> unat p \<and> (\<exists>v. brk_area u = Some v \<and> unat p + unat sz \<le> unat (v_end v))"
    if "(p, sz) \<in> set bs" for p sz
  proof -
    have e: "u_heap_end u \<noteq> 0" "block_ok (u_heap_end u) (p, sz)" using b that by auto
    then have "u_heap_end u \<noteq> USER_HEAP_START" by (auto simp: block_ok_def)
    then obtain v where "brk_area u = Some v" "u_heap_end u \<le> v_end v" using b e(1) by (auto simp: heap_ok_def)
    then show ?thesis using e(2) by (auto simp: block_ok_def word_le_nat_alt)
  qed
  ultimately show ?thesis by auto
qed

lemma malloc_blocks_disjoint_witness:
  "\<exists>u v. allocating u [(0x10000008, 24)] [24] \<and> brk_area u = Some v \<and> 0x10000020 \<le> unat (v_end v)"
proof -
  obtain u where "allocating u [(0x10000008, 24)] [24]" using allocating_demo by blast
  then show ?thesis using malloc_blocks_disjoint [of u "[(0x10000008, 24)]" "[24]"] by auto
qed

end
