(* ===== verification/Ustdio.thy ===== *)
theory Ustdio
  imports Uproc
begin

text \<open>
  Buffered streams of the user library (\<open>user_src/user_libc.c\<close>, section 8). A \<open>FILE\<close> lies at an address; its two
  4096-byte buffers are memory behind it, its other fields the record \<open>stream\<close>.
\<close>

unbundle bit_operations_syntax

abbreviation (input) FILE_BUFFER_SIZE :: u32 where "FILE_BUFFER_SIZE \<equiv> 4096"
abbreviation (input) SIZEOF_FILE :: u32 where "SIZEOF_FILE \<equiv> 8216"
abbreviation (input) EOF :: int where "EOF \<equiv> - 1"

abbreviation (input) read_buffer :: "u32 \<Rightarrow> u32" where "read_buffer f \<equiv> f + 12"
abbreviation (input) write_buffer :: "u32 \<Rightarrow> u32" where "write_buffer f \<equiv> f + 4116"

definition on_stream :: "u32 \<Rightarrow> (stream \<Rightarrow> stream) \<Rightarrow> uproc \<Rightarrow> uproc" where
  "on_stream f g u = u\<lparr>streams := (streams u)(f := g (streams u f))\<rparr>"

definition new_stream :: "u32 \<Rightarrow> stream" where
  "new_stream fd = \<lparr>s_fd = fd, s_eof = False, s_error = False, buffer_pos = 0, buffer_len = 0, write_pos = 0\<rparr>"

section \<open>Opening\<close>

text \<open>The mode strings; the characters are \<open>r w a +\<close>.\<close>

definition mode_flags :: "u8 list \<Rightarrow> u32 option" where
  "mode_flags mode =
     (if mode = [0x72] then Some 0
      else if mode = [0x77] then Some (0x241)
      else if mode = [0x61] then Some (0x441)
      else if mode = [0x72, 0x2B] then Some 2
      else if mode = [0x77, 0x2B] then Some (0x242)
      else if mode = [0x61, 0x2B] then Some (0x442)
      else None)"

text \<open>A NULL mode is \<open>None\<close>.\<close>

definition fopen :: "u32 \<Rightarrow> u8 list option \<Rightarrow> uproc \<Rightarrow> (u32 \<times> uproc) option" where
  "fopen path mode u =
     (case Option.bind mode mode_flags of None \<Rightarrow> Some (0, u\<lparr>u_errno := EINVAL\<rparr>)
      | Some flags \<Rightarrow>
        (case usys_open path flags 0x1A4 u of None \<Rightarrow> None
         | Some (fd, u) \<Rightarrow>
             if fd < 0 then Some (0, u\<lparr>u_errno := - fd\<rparr>)
             else case malloc SIZEOF_FILE u of None \<Rightarrow> None
             | Some (f, u) \<Rightarrow>
                 if f = 0 then map_option (\<lambda>(_, u). (0, u\<lparr>u_errno := ENOMEM\<rparr>)) (usys_close (of_int fd) u)
                 else Some (f, on_stream f (\<lambda>_. new_stream (of_int fd)) u)))"

definition fdopen :: "u32 \<Rightarrow> uproc \<Rightarrow> (u32 \<times> uproc) option" where
  "fdopen fd u =
     (if fd <s 0 then Some (0, u\<lparr>u_errno := EINVAL\<rparr>)
      else case malloc SIZEOF_FILE u of None \<Rightarrow> None
      | Some (f, u) \<Rightarrow>
          if f = 0 then Some (0, u\<lparr>u_errno := ENOMEM\<rparr>) else Some (f, on_stream f (\<lambda>_. new_stream fd) u))"

section \<open>Writing\<close>

definition fflush_write :: "u32 \<Rightarrow> uproc \<Rightarrow> (int \<times> uproc) option" where
  "fflush_write f u =
     (if write_pos (streams u f) = 0 then Some (0, u)
      else case usys_write (s_fd (streams u f)) (write_buffer f) (write_pos (streams u f)) u of None \<Rightarrow> None
      | Some (ret, u) \<Rightarrow>
          if ret < 0 then Some (EOF, on_stream f (\<lambda>s. s\<lparr>s_error := True\<rparr>) u)
          else Some (0, on_stream f (\<lambda>s. s\<lparr>write_pos := 0\<rparr>) u))"

definition fflush :: "u32 \<Rightarrow> uproc \<Rightarrow> (int \<times> uproc) option" where
  "fflush f u = (if f = 0 then Some (EOF, u) else fflush_write f u)"

definition fclose :: "u32 \<Rightarrow> uproc \<Rightarrow> (int \<times> uproc) option" where
  "fclose f u =
     (if f = 0 then Some (EOF, u\<lparr>u_errno := EBADF\<rparr>)
      else case (if 0 <s write_pos (streams u f) then map_option snd (fflush_write f u) else Some u) of None \<Rightarrow> None
      | Some u \<Rightarrow>
          map_option (\<lambda>(ret, u). (if ret < 0 then EOF else 0, free f u)) (usys_close (s_fd (streams u f)) u))"

definition freopen :: "u32 \<Rightarrow> u8 list option \<Rightarrow> u32 \<Rightarrow> uproc \<Rightarrow> (u32 \<times> uproc) option" where
  "freopen path mode f u =
     (case (if f \<noteq> 0 then map_option snd (fclose f u) else Some u) of None \<Rightarrow> None | Some u \<Rightarrow> fopen path mode u)"

text \<open>The loop of \<open>fwrite\<close>: \<open>src\<close> is the byte to copy next, \<open>left\<close> the bytes still to be copied.\<close>

partial_function (option) fwrite_loop :: "u32 \<Rightarrow> u32 \<Rightarrow> u32 \<Rightarrow> uproc \<Rightarrow> (u32 \<times> uproc) option" where
  "fwrite_loop f src left u =
     (if left = 0 then Some (0, u)
      else Option.bind (if FILE_BUFFER_SIZE \<le>s write_pos (streams u f) then fflush_write f u else Some (0, u))
        (\<lambda>(r, u). if r = EOF then Some (left, u)
          else let available = FILE_BUFFER_SIZE - write_pos (streams u f);
                   to_copy = (if left > available then available else left);
                   u = set_umem (memcpy (umem u) (write_buffer f + write_pos (streams u f)) src to_copy) u;
                   u = on_stream f (\<lambda>s. s\<lparr>write_pos := write_pos s + to_copy\<rparr>) u
               in fwrite_loop f (src + to_copy) (left - to_copy) u))"

definition fwrite :: "u32 \<Rightarrow> u32 \<Rightarrow> u32 \<Rightarrow> u32 \<Rightarrow> uproc \<Rightarrow> (u32 \<times> uproc) option" where
  "fwrite ptr sz nmemb f u =
     (if f = 0 \<or> sz = 0 \<or> nmemb = 0 then Some (0, u)
      else let total_bytes = sz * nmemb
           in map_option (\<lambda>(left, u). ((total_bytes - left) div sz, u)) (fwrite_loop f ptr total_bytes u))"

definition fputc :: "u32 \<Rightarrow> u32 \<Rightarrow> uproc \<Rightarrow> (int \<times> uproc) option" where
  "fputc c f u =
     (if f = 0 then Some (EOF, u)
      else Option.bind (if FILE_BUFFER_SIZE \<le>s write_pos (streams u f) then fflush_write f u else Some (0, u))
        (\<lambda>(r, u). if r = EOF then Some (EOF, u)
          else Some (uint (ucast c :: u8),
                 on_stream f (\<lambda>s. s\<lparr>write_pos := write_pos s + 1\<rparr>)
                   (set_umem ((umem u)(write_buffer f + write_pos (streams u f) := ucast c)) u))))"

definition fputs :: "u32 \<Rightarrow> u32 \<Rightarrow> uproc \<Rightarrow> (int \<times> uproc) option" where
  "fputs s f u =
     (if s = 0 \<or> f = 0 then Some (EOF, u)
      else case strlen (umem u) s of None \<Rightarrow> None
      | Some len \<Rightarrow> map_option (\<lambda>(n, u). (if n = len then 0 else EOF, u)) (fwrite s 1 len f u))"

section \<open>Reading\<close>

definition fill_read_buffer :: "u32 \<Rightarrow> uproc \<Rightarrow> (int \<times> uproc) option" where
  "fill_read_buffer f u =
     (case usys_read (s_fd (streams u f)) (read_buffer f) FILE_BUFFER_SIZE u of None \<Rightarrow> None
      | Some (ret, u) \<Rightarrow>
          if ret < 0 then Some (- 1, on_stream f (\<lambda>s. s\<lparr>s_error := True, buffer_len := 0, buffer_pos := 0\<rparr>) u)
          else if ret = 0 then Some (0, on_stream f (\<lambda>s. s\<lparr>s_eof := True, buffer_len := 0, buffer_pos := 0\<rparr>) u)
          else Some (ret, on_stream f (\<lambda>s. s\<lparr>buffer_len := of_int ret, buffer_pos := 0\<rparr>) u))"

partial_function (option) fread_loop :: "u32 \<Rightarrow> u32 \<Rightarrow> u32 \<Rightarrow> uproc \<Rightarrow> (u32 \<times> uproc) option" where
  "fread_loop f dest left u =
     (if left = 0 then Some (0, u)
      else Option.bind (if buffer_len (streams u f) \<le>s buffer_pos (streams u f) then fill_read_buffer f u else Some (1, u))
        (\<lambda>(r, u). if r \<le> 0 then Some (left, u)
          else let available = buffer_len (streams u f) - buffer_pos (streams u f);
                   to_copy = (if left > available then available else left);
                   u = set_umem (memcpy (umem u) dest (read_buffer f + buffer_pos (streams u f)) to_copy) u;
                   u = on_stream f (\<lambda>s. s\<lparr>buffer_pos := buffer_pos s + to_copy\<rparr>) u
               in fread_loop f (dest + to_copy) (left - to_copy) u))"

definition fread :: "u32 \<Rightarrow> u32 \<Rightarrow> u32 \<Rightarrow> u32 \<Rightarrow> uproc \<Rightarrow> (u32 \<times> uproc) option" where
  "fread ptr sz nmemb f u =
     (if f = 0 \<or> sz = 0 \<or> nmemb = 0 then Some (0, u)
      else let total_bytes = sz * nmemb
           in map_option (\<lambda>(left, u). ((total_bytes - left) div sz, u)) (fread_loop f ptr total_bytes u))"

definition fgetc :: "u32 \<Rightarrow> uproc \<Rightarrow> (int \<times> uproc) option" where
  "fgetc f u =
     (if f = 0 then Some (EOF, u)
      else Option.bind (if buffer_len (streams u f) \<le>s buffer_pos (streams u f) then fill_read_buffer f u else Some (1, u))
        (\<lambda>(r, u). if r \<le> 0 then Some (EOF, u)
          else Some (uint (umem u (read_buffer f + buffer_pos (streams u f))),
                 on_stream f (\<lambda>s. s\<lparr>buffer_pos := buffer_pos s + 1\<rparr>) u)))"

text \<open>The loop of \<open>fgets\<close>: \<open>i\<close> bytes stored, room for \<open>n\<close> more.\<close>

fun fgets_loop :: "u32 \<Rightarrow> u32 \<Rightarrow> nat \<Rightarrow> u32 \<Rightarrow> uproc \<Rightarrow> (u32 \<times> uproc) option" where
  "fgets_loop s i 0 f u = Some (s, set_umem ((umem u)(s + i := 0)) u)"
| "fgets_loop s i (Suc n) f u =
     (case fgetc f u of None \<Rightarrow> None
      | Some (c, u) \<Rightarrow>
          if c = EOF then (if i = 0 then Some (0, u) else Some (s, set_umem ((umem u)(s + i := 0)) u))
          else let u = set_umem ((umem u)(s + i := of_int c)) u
               in if c = 0x0A then Some (s, set_umem ((umem u)(s + i + 1 := 0)) u)
                  else fgets_loop s (i + 1) n f u)"

definition fgets :: "u32 \<Rightarrow> u32 \<Rightarrow> u32 \<Rightarrow> uproc \<Rightarrow> (u32 \<times> uproc) option" where
  "fgets s sz f u = (if s = 0 \<or> sz \<le>s 0 \<or> f = 0 then Some (0, u) else fgets_loop s 0 (unat (sz - 1)) f u)"

section \<open>Position\<close>

definition fseek :: "u32 \<Rightarrow> u32 \<Rightarrow> u32 \<Rightarrow> uproc \<Rightarrow> (int \<times> uproc) option" where
  "fseek f offset whence u =
     (if f = 0 then Some (- 1, u)
      else case fflush_write f u of None \<Rightarrow> None
      | Some (_, u) \<Rightarrow>
          let u = on_stream f (\<lambda>s. s\<lparr>buffer_pos := 0, buffer_len := 0\<rparr>) u
          in case lseek (s_fd (streams u f)) offset whence u of None \<Rightarrow> None
             | Some (new_pos, u) \<Rightarrow>
                 if new_pos < 0 then Some (- 1, u) else Some (0, on_stream f (\<lambda>s. s\<lparr>s_eof := False\<rparr>) u))"

definition ftell :: "u32 \<Rightarrow> uproc \<Rightarrow> (u32 \<times> uproc) option" where
  "ftell f u =
     (if f = 0 then Some (- 1, u)
      else case fflush_write f u of None \<Rightarrow> None
      | Some (_, u) \<Rightarrow>
          (case lseek (s_fd (streams u f)) 0 1 u of None \<Rightarrow> None
           | Some (pos, u) \<Rightarrow>
               let s = streams u f
               in Some (if 0 <s buffer_len s then of_int pos - (buffer_len s - buffer_pos s) else of_int pos, u)))"

definition remove_file :: "u32 \<Rightarrow> uproc \<Rightarrow> (int \<times> uproc) option" where
  "remove_file pathname u = unlink pathname u"

definition ferror :: "u32 \<Rightarrow> uproc \<Rightarrow> bool" where
  "ferror f u \<longleftrightarrow> f \<noteq> 0 \<and> s_error (streams u f)"

definition feof :: "u32 \<Rightarrow> uproc \<Rightarrow> bool" where
  "feof f u \<longleftrightarrow> f \<noteq> 0 \<and> s_eof (streams u f)"

section \<open>Lines\<close>

text \<open>The loop of \<open>getline\<close>: the buffer, its size, the bytes stored. The results are the return value, \<open>*lineptr\<close> and \<open>*n\<close>.\<close>

partial_function (option) getline_loop :: "u32 \<Rightarrow> u32 \<Rightarrow> u32 \<Rightarrow> u32 \<Rightarrow> uproc \<Rightarrow> (int \<times> u32 \<times> u32 \<times> uproc) option" where
  "getline_loop line n pos f u =
     Option.bind (fgetc f u) (\<lambda>(c, u).
       if c = EOF then
         (let u = set_umem ((umem u)(line + pos := 0)) u
          in Some (if pos = 0 then - 1 else sint pos, line, n, u))
       else Option.bind
         (if pos + 1 \<ge> n then map_option (\<lambda>(q, u). (q, line, 2 * n, u)) (realloc line (2 * n) u) else Some (line, line, n, u))
         (\<lambda>(q, line, n, u).
           if q = 0 then Some (- 1, line, n, u\<lparr>u_errno := ENOMEM\<rparr>)
           else let line = q; u = set_umem ((umem u)(line + pos := of_int c)) u
                in if c = 0x0A then Some (sint (pos + 1), line, n, set_umem ((umem u)(line + pos + 1 := 0)) u)
                   else getline_loop line n (pos + 1) f u))"

definition getline :: "u32 \<Rightarrow> u32 \<Rightarrow> u32 \<Rightarrow> uproc \<Rightarrow> (int \<times> u32 \<times> u32 \<times> uproc) option" where
  "getline line n f u =
     (if f = 0 then Some (- 1, line, n, u\<lparr>u_errno := EINVAL\<rparr>)
      else if line = 0 then
        (case malloc 128 u of None \<Rightarrow> None
         | Some (line, u) \<Rightarrow>
             if line = 0 then Some (- 1, 0, 128, u\<lparr>u_errno := ENOMEM\<rparr>) else getline_loop line 128 0 f u)
      else getline_loop line n 0 f u)"

section \<open>Buffered writing refines writing\<close>

abbreviation ufs :: "uproc \<Rightarrow> fs_state" where
  "ufs u \<equiv> k_fs (u_kernel u)"

abbreviation ufds :: "uproc \<Rightarrow> fd_table" where
  "ufds u \<equiv> t_fds (tasks (u_kernel u) (current_task (u_kernel u)))"

definition with_fs :: "fs_state \<Rightarrow> uproc \<Rightarrow> uproc" where
  "with_fs s u = u\<lparr>u_kernel := (u_kernel u)\<lparr>k_fs := s\<rparr>\<rparr>"

lemma with_fs_simps [simp]:
  "ufs (with_fs s u) = s" "ufds (with_fs s u) = ufds u" "streams (with_fs s u) = streams u"
  "with_fs s (with_fs s' u) = with_fs s u"
  by (simp_all add: with_fs_def)

lemma set_umem_with_fs: "set_umem m u = with_fs ((ufs u)\<lparr>kmem := m\<rparr>) u"
  by (simp add: set_umem_def with_fs_def)

lemma on_stream_simps [simp]:
  "u_kernel (on_stream f g u) = u_kernel u" "streams (on_stream f g u) = (streams u)(f := g (streams u f))"
  by (simp_all add: on_stream_def)

lemma sint_of_count: "n \<le> 0x7FFFFFFF \<Longrightarrow> sint (of_int (int n) :: u32) = int n"
  by (simp add: sint_u32 unsigned_of_nat take_bit_nat_def)

lemma is_user_range: "buf \<noteq> 0 \<Longrightarrow> unat buf + unat n \<le> unat KERNEL_SPACE_START \<Longrightarrow> n \<noteq> 0 \<Longrightarrow> is_user_pointer buf n"
proof -
  assume a: "buf \<noteq> 0" "unat buf + unat n \<le> unat KERNEL_SPACE_START" "n \<noteq> 0"
  have "0 < unat n" using a(3) by (simp add: unat_gt_0)
  then have b: "unat buf < 0xC0000000" "unat n \<le> 0xC0000000" using a(2) by auto
  have "unat (USER_SPACE_END - n + 1) = 0xC0000000 - unat n" using b(2) by (simp add: unat_sub_if' unat_word_ariths)
  then show "is_user_pointer buf n" using a b by (simp add: is_user_pointer_def word_less_nat_alt word_le_nat_alt)
qed

lemma usys_write_user:
  assumes "sys_write (sint fd) buf n (ufds u) (ufs u) = Some (ret, s)" and "buf \<noteq> 0"
    and "unat buf + unat n \<le> unat KERNEL_SPACE_START" and "n \<noteq> 0"
  shows "usys_write fd buf n u = Some (sint (of_int ret :: u32), with_fs s u)"
proof -
  have "is_user_pointer buf n" using is_user_range assms(2-4) by simp
  then have "sys_write_handler (syscall_regs 4 fd buf n) (ufds u) (ufs u) = Some (ret, ufds u, s)"
    using assms(1) by (simp add: sys_write_handler_def syscall_regs_def)
  then show ?thesis
    by (simp add: usys_write_def syscall3_def syscall_dispatcher_def syscall_table_def file_call_def with_fs_def on_task_def)
      (simp add: syscall_regs_def)
qed

lemma overwrite_append:
  "overwrite (overwrite old off a) (off + length a) b = overwrite old off (a @ b)"
proof -
  have "min (length old) off + (off - length old) = off" by simp
  then show ?thesis by (simp add: overwrite_def ac_simps)
qed

lemma abs_write_append: "abs_write b (abs_write a v) = abs_write (a @ b) v"
  by (simp add: abs_write_def overwrite_append)

text \<open>Changing user memory leaves the files alone.\<close>

lemma tmpfs_ok_kmem [simp]: "tmpfs_ok F (s\<lparr>kmem := m\<rparr>) = tmpfs_ok F s"
  by (simp add: tmpfs_ok_def)

lemma tmpfs_fd_kmem [simp]: "tmpfs_fd F (s\<lparr>kmem := m\<rparr>) fds fd = tmpfs_fd F s fds fd"
  by (simp add: tmpfs_fd_def)

lemma contents_user:
  assumes "tmpfs_ok F s" and "q \<in> F" and "\<And>a. KERNEL_SPACE_START \<le> a \<Longrightarrow> m a = kmem s a"
  shows "contents (s\<lparr>kmem := m\<rparr>) q = contents s q"
proof (cases "t_data (tmpfs_files s q) = 0")
  case True
  then show ?thesis using empty_file [OF assms(1,2)] by (simp add: contents_def peek_def)
next
  case False
  let ?p = "t_data (tmpfs_files s q)" and ?n = "unat (t_size (tmpfs_files s q))"
  have hi: "heap_inv (fs_heap s)" using assms(1) by (simp add: tmpfs_ok_def)
  have l: "?p \<in> live_pointers (fs_heap s)" using file_okD(4) [OF assms(1,2) False] by blast
  note w = hblocks.room_window [OF hi l] and r = size_room [OF assms(1,2) False]
  have "m (?p + of_nat i) = kmem s (?p + of_nat i)" if "i < ?n" for i
  proof -
    have "unat ?p + i < 2 ^ 32" using w r that by simp
    then have "unat (?p + of_nat i) = unat ?p + i" by (rule unat_offset)
    then show ?thesis using w by (intro assms(3)) (simp add: word_le_nat_alt)
  qed
  then show ?thesis by (simp add: contents_def peek_def)
qed

section \<open>The logical file of a stream\<close>

abbreviation sfd :: "u32 \<Rightarrow> uproc \<Rightarrow> int" where
  "sfd f u \<equiv> sint (s_fd (streams u f))"

definition pending :: "u32 \<Rightarrow> uproc \<Rightarrow> u8 list" where
  "pending f u = peek (umem u) (write_buffer f) (unat (write_pos (streams u f)))"

definition file_view :: "u32 \<Rightarrow> uproc \<Rightarrow> afile" where
  "file_view f u = view (ufs u) (ufds u) (sfd f u)"

text \<open>The file as it will be once the buffer is written.\<close>

definition put_bytes :: "u8 list \<Rightarrow> afile \<Rightarrow> afile" where
  "put_bytes data v = (if data = [] then v else abs_write data v)"

definition logical :: "u32 \<Rightarrow> uproc \<Rightarrow> afile" where
  "logical f u = put_bytes (pending f u) (file_view f u)"

lemma put_bytes_append: "put_bytes b (put_bytes a v) = put_bytes (a @ b) v"
  by (simp add: put_bytes_def abs_write_append)

lemma pending_Nil: "pending f u = [] \<longleftrightarrow> write_pos (streams u f) = 0"
  by (metis length_0_conv length_peek pending_def unat_eq_zero)

text \<open>A stream in user memory whose descriptor is open on a file of \<open>tmpfs\<close>, within the quota.\<close>

definition stream_ok :: "u32 set \<Rightarrow> u32 \<Rightarrow> uproc \<Rightarrow> bool" where
  "stream_ok F f u \<longleftrightarrow> f \<noteq> 0 \<and> unat f + unat SIZEOF_FILE \<le> unat KERNEL_SPACE_START \<and>
     unat (write_pos (streams u f)) \<le> 4096 \<and> tmpfs_ok F (ufs u) \<and> tmpfs_fd F (ufs u) (ufds u) (sfd f u) \<and>
     unat (fd_offset (ufs u) (ufds u) (sfd f u)) \<le> 26214400"

lemma stream_okD:
  assumes "stream_ok F f u"
  shows "f \<noteq> 0" "unat f + 8216 \<le> 0xC0000000" "unat (write_pos (streams u f)) \<le> 4096" "tmpfs_ok F (ufs u)"
    "tmpfs_fd F (ufs u) (ufds u) (sfd f u)" "unat (fd_offset (ufs u) (ufds u) (sfd f u)) \<le> 26214400"
    "unat (write_buffer f) = unat f + 4116"
  using assms by (auto simp: stream_ok_def unat_word_ariths)

lemma fflush_write_spec:
  assumes "stream_ok F f u"
  shows "\<exists>r u'. fflush_write f u = Some (r, u') \<and> stream_ok F f u' \<and> user_memory_same (ufs u) (ufs u') \<and>
    s_fd (streams u' f) = s_fd (streams u f) \<and> logical f u' = logical f u \<and>
    (r = 0 \<and> write_pos (streams u' f) = 0 \<and> s_error (streams u' f) = s_error (streams u f) \<or>
     r = EOF \<and> s_error (streams u' f))"
proof (cases "write_pos (streams u f) = 0")
  case True
  then show ?thesis using assms by (auto simp: fflush_write_def user_memory_same_def)
next
  case False
  note ok = stream_okD [OF assms]
  let ?s = "ufs u" and ?fds = "ufds u" and ?fd = "sfd f u" and ?n = "write_pos (streams u f)" and ?b = "write_buffer f"
  have b0: "?b \<noteq> 0" using ok(7) by (metis unat_0 add_is_0 zero_neq_numeral)
  have lim: "unat ?b + unat ?n \<le> unat KERNEL_SPACE_START" using ok(2,3,7) by simp
  have now: "unat (fd_offset ?s ?fds ?fd) + unat ?n < 2 ^ 32" using ok(3,6) by simp
  obtain ret s' z where w: "sys_write ?fd ?b ?n ?fds ?s = Some (ret, s')" "tmpfs_ok F s'" "tmpfs_fd F s' ?fds ?fd"
    "user_memory_same ?s s'" "\<forall>n. f_node (files s' n) = f_node (files ?s n)"
    "nodes s' = (nodes ?s)(fd_node ?s ?fds ?fd := (nodes ?s (fd_node ?s ?fds ?fd))\<lparr>n_size := z\<rparr>)"
    and c: "if unat (fd_offset ?s ?fds ?fd) + unat ?n > 26214400 then ret = - ENOSPC \<and> s' = ?s
     else ret = - ENOMEM \<and> s' = ?s \<or>
       ret = int (unat ?n) \<and> fd_offset s' ?fds ?fd = fd_offset ?s ?fds ?fd + ?n \<and>
       contents s' (fd_file ?s ?fds ?fd) =
         overwrite (contents ?s (fd_file ?s ?fds ?fd)) (unat (fd_offset ?s ?fds ?fd)) (peek (kmem ?s) ?b (unat ?n))"
    using sys_write_tmpfs [OF ok(4,5) b0 now lim] by (elim exE conjE) (rule that)
  have call: "usys_write (s_fd (streams u f)) ?b ?n u = Some (sint (of_int ret :: u32), with_fs s' u)"
    by (rule usys_write_user [OF w(1) b0 lim False])
  consider "ret < 0" "s' = ?s" "ret = - 28 \<or> ret = - 12"
    | "ret = int (unat ?n)" "unat (fd_offset ?s ?fds ?fd) + unat ?n \<le> 26214400"
      "fd_offset s' ?fds ?fd = fd_offset ?s ?fds ?fd + ?n"
      "contents s' (fd_file ?s ?fds ?fd) =
         overwrite (contents ?s (fd_file ?s ?fds ?fd)) (unat (fd_offset ?s ?fds ?fd)) (peek (kmem ?s) ?b (unat ?n))"
    using c by (auto split: if_splits)
  then show ?thesis
  proof cases
    case 1
    then have neg: "sint (of_int ret :: u32) < 0" by auto
    have "with_fs s' u = u" using 1(2) by (simp add: with_fs_def)
    then have e: "fflush_write f u = Some (EOF, on_stream f (\<lambda>s. s\<lparr>s_error := True\<rparr>) u)"
      using call neg False by (simp add: fflush_write_def)
    show ?thesis
      using e assms by (auto simp: stream_ok_def logical_def pending_def file_view_def user_memory_same_def)
  next
    case 2
    have r: "sint (of_int ret :: u32) = int (unat ?n)"
      unfolding 2(1) using ok(3) by (intro sint_of_count) simp
    let ?u = "on_stream f (\<lambda>s. s\<lparr>write_pos := 0\<rparr>) (with_fs s' u)"
    have e: "fflush_write f u = Some (0, ?u)"
      using call False by (simp add: fflush_write_def r del: of_nat_unat int_unat_uint)
    have same: "fd_node s' ?fds ?fd = fd_node ?s ?fds ?fd" "n_private (nodes s' (fd_node ?s ?fds ?fd)) = fd_file ?s ?fds ?fd"
      by (simp_all add: w(5,6))
    have off: "unat (fd_offset s' ?fds ?fd) = unat (fd_offset ?s ?fds ?fd) + unat ?n"
      unfolding 2(3) using now by (simp add: unat_word_ariths)
    have "view s' ?fds ?fd = abs_write (pending f u) (file_view f u)"
      by (simp add: view_def abs_write_def pending_def file_view_def same 2(4) off)
    then have l: "logical f ?u = logical f u"
      using False pending_Nil [of f u] pending_Nil [of f ?u] by (simp add: logical_def put_bytes_def file_view_def)
    have ok': "stream_ok F f ?u" using assms w(2,3) off 2(2) by (auto simp: stream_ok_def)
    show ?thesis
      by (intro exI [of _ 0] exI [of _ ?u] conjI e ok' l) (use w(4) in simp_all)
  qed
qed

lemma buffer_full: "unat w \<le> 4096 \<Longrightarrow> FILE_BUFFER_SIZE \<le>s w \<longleftrightarrow> unat w = 4096"
proof -
  assume "unat w \<le> 4096"
  then have "int (unat w) \<le> 4096" by linarith
  then have "sint w = int (unat w)" by (simp add: sint_u32)
  then show "FILE_BUFFER_SIZE \<le>s w \<longleftrightarrow> unat w = 4096" using \<open>unat w \<le> 4096\<close>
    by (simp add: word_sle_eq del: int_unat_uint of_nat_unat)
qed

definition user_outside :: "u32 \<Rightarrow> uproc \<Rightarrow> uproc \<Rightarrow> bool" where
  "user_outside f u u' \<longleftrightarrow>
     (\<forall>a < KERNEL_SPACE_START. unat a < unat f \<or> unat f + 8216 \<le> unat a \<longrightarrow> umem u' a = umem u a)"

lemma peek_user_outside:
  assumes "user_outside f u u'" and "unat p + n \<le> 0xC0000000" and "separate p n f 8216"
  shows "peek (umem u') p n = peek (umem u) p n"
proof (rule nth_equalityI)
  fix i assume "i < length (peek (umem u') p n)"
  then have i: "i < n" by simp
  then have u: "unat (p + of_nat i) = unat p + i" using assms(2) by (intro unat_offset) simp
  then have "p + of_nat i < KERNEL_SPACE_START" using i assms(2) by (simp add: word_less_nat_alt)
  moreover have "unat (p + of_nat i) < unat f \<or> unat f + 8216 \<le> unat (p + of_nat i)"
    using u i assms(3) by (auto simp: separate_def)
  ultimately have "umem u' (p + of_nat i) = umem u (p + of_nat i)" using assms(1) unfolding user_outside_def by blast
  then show "peek (umem u') p n ! i = peek (umem u) p n ! i" using i by simp
qed simp

text \<open>One round of copying into the buffer.\<close>

lemma buffer_bytes:
  assumes ok: "stream_ok F f u" and wp: "unat (write_pos (streams u f)) + unat k \<le> 4096" and src: "unat src + unat k \<le> 0xC0000000"
    and sep: "separate src (unat k) f 8216"
  defines "u' \<equiv> on_stream f (\<lambda>s. s\<lparr>write_pos := write_pos s + k\<rparr>)
      (set_umem (memcpy (umem u) (write_buffer f + write_pos (streams u f)) src k) u)"
  shows "stream_ok F f u'" "logical f u' = put_bytes (peek (umem u) src (unat k)) (logical f u)" "user_outside f u u'"
    "s_error (streams u' f) = s_error (streams u f)"
proof -
  note o = stream_okD [OF ok]
  let ?w = "write_pos (streams u f)"
  let ?d = "write_buffer f + ?w"
  have ud: "unat ?d = unat f + 4116 + unat ?w" using o(2,3,7) by (simp add: unat_word_ariths)
  have wk: "unat (?w + k) = unat ?w + unat k" using wp by (simp add: unat_word_ariths)
  let ?m = "memcpy (umem u) ?d src k"
  have other: "?m a = umem u a" if "unat a < unat ?d \<or> unat ?d + unat k \<le> unat a" for a
    unfolding memcpy_def using that ud o(2) wp by (intro memcpy_other) auto
  have fs: "ufs u' = (ufs u)\<lparr>kmem := ?m\<rparr>" "ufds u' = ufds u" "sfd f u' = sfd f u" "write_pos (streams u' f) = ?w + k"
    by (simp_all add: u'_def set_umem_with_fs)
  have cont: "contents ((ufs u)\<lparr>kmem := ?m\<rparr>) q = contents (ufs u) q" if "q \<in> F" for q
    using that o(4) other ud o(2) wp by (intro contents_user) (auto simp: word_le_nat_alt)
  have q: "fd_file (ufs u) (ufds u) (sfd f u) \<in> F" using o(5) by (auto simp: tmpfs_fd_def Let_def)
  have v: "file_view f u' = file_view f u"
    unfolding file_view_def view_def fs using cont [OF q] by simp
  show "stream_ok F f u'" unfolding stream_ok_def fs using ok wk wp by (simp add: stream_ok_def)
  have "peek ?m (write_buffer f) (unat ?w) = pending f u"
    unfolding pending_def peek_def
  proof (rule map_cong [OF refl])
    fix i assume "i \<in> set [0..<unat ?w]"
    then have i: "i < unat ?w" by simp
    then have "unat (write_buffer f + of_nat i) = unat f + 4116 + i" using o(2,3,7) unat_offset [of "write_buffer f" i] by simp
    then show "?m (write_buffer f + of_nat i) = umem u (write_buffer f + of_nat i)" using ud i by (intro other) simp
  qed
  moreover have "peek ?m ?d (unat k) = peek (umem u) src (unat k)"
    unfolding memcpy_def using ud o(2) wp src sep by (intro peek_memcpy_same) (auto simp: separate_def)
  moreover have "peek ?m (write_buffer f) (unat ?w + unat k) = peek ?m (write_buffer f) (unat ?w) @ peek ?m ?d (unat k)"
    by (intro nth_equalityI) (auto simp: nth_append of_nat_diff add.assoc)
  ultimately have "pending f u' = pending f u @ peek (umem u) src (unat k)"
    by (simp add: pending_def fs wk)
  then show "logical f u' = put_bytes (peek (umem u) src (unat k)) (logical f u)"
    by (simp add: logical_def v put_bytes_append)
  show "user_outside f u u'" unfolding user_outside_def fs using other ud o(2) wp by auto
  show "s_error (streams u' f) = s_error (streams u f)" by (simp add: u'_def set_umem_with_fs)
qed

lemma user_outside_trans: "user_outside f u u' \<Longrightarrow> user_outside f u' u'' \<Longrightarrow> user_outside f u u''"
  by (simp add: user_outside_def)

lemma user_outside_same: "user_memory_same (ufs u) (ufs u') \<Longrightarrow> user_outside f u u'"
  by (simp add: user_outside_def user_memory_same_def)

lemma make_room:
  assumes "stream_ok F f u"
  shows "\<exists>r u'. (if FILE_BUFFER_SIZE \<le>s write_pos (streams u f) then fflush_write f u else Some (0, u)) = Some (r, u') \<and>
    stream_ok F f u' \<and> user_outside f u u' \<and> logical f u' = logical f u \<and>
    (r = 0 \<and> unat (write_pos (streams u' f)) < 4096 \<and> s_error (streams u' f) = s_error (streams u f) \<or>
     r = EOF \<and> s_error (streams u' f))"
proof (cases "FILE_BUFFER_SIZE \<le>s write_pos (streams u f)")
  case True
  obtain r u' where "fflush_write f u = Some (r, u')" "stream_ok F f u'" "user_memory_same (ufs u) (ufs u')"
    "logical f u' = logical f u" "r = 0 \<and> write_pos (streams u' f) = 0 \<and> s_error (streams u' f) = s_error (streams u f) \<or>
      r = EOF \<and> s_error (streams u' f)"
    using fflush_write_spec [OF assms] by blast
  then show ?thesis using True user_outside_same by (intro exI [of _ r] exI [of _ u']) auto
next
  case False
  then have "unat (write_pos (streams u f)) < 4096" using buffer_full stream_okD(3) [OF assms] by fastforce
  then show ?thesis using False assms by (simp add: user_outside_def)
qed

lemma fwrite_loop_spec:
  "stream_ok F f u \<Longrightarrow> unat src + unat left \<le> 0xC0000000 \<Longrightarrow> separate src (unat left) f 8216 \<Longrightarrow>
    \<exists>l u'. fwrite_loop f src left u = Some (l, u') \<and> stream_ok F f u' \<and> unat l \<le> unat left \<and>
      (l \<noteq> 0 \<longrightarrow> s_error (streams u' f)) \<and> user_outside f u u' \<and>
      logical f u' = put_bytes (peek (umem u) src (unat left - unat l)) (logical f u)"
proof (induction "unat left" arbitrary: left src u rule: less_induct)
  case less
  show ?case
  proof (cases "left = 0")
    case True
    then show ?thesis using less.prems by (subst fwrite_loop.simps) (simp add: user_outside_def put_bytes_def peek_def)
  next
    case False
    obtain r u1 where 1: "(if FILE_BUFFER_SIZE \<le>s write_pos (streams u f) then fflush_write f u else Some (0, u)) = Some (r, u1)"
      "stream_ok F f u1" "user_outside f u u1" "logical f u1 = logical f u"
      and r: "r = 0 \<and> unat (write_pos (streams u1 f)) < 4096 \<or> r = EOF \<and> s_error (streams u1 f)"
      using make_room [OF less.prems(1)] by blast
    have peek1: "peek (umem u1) p n = peek (umem u) p n" if "unat p + n \<le> 0xC0000000" "separate p n f 8216" for p n
      by (rule peek_user_outside [OF 1(3) that])
    show ?thesis
    proof (cases "r = EOF")
      case True
      then have "fwrite_loop f src left u = Some (left, u1)" using False 1(1) by (subst fwrite_loop.simps) simp
      then show ?thesis using 1 r True by (intro exI [of _ left] exI [of _ u1]) (simp add: put_bytes_def peek_def)
    next
      case False
      then have wp: "unat (write_pos (streams u1 f)) < 4096" and r0: "r = 0" using r by auto
      define av where "av = FILE_BUFFER_SIZE - write_pos (streams u1 f)"
      define k where "k = (if left > av then av else left)"
      have uav: "unat av = 4096 - unat (write_pos (streams u1 f))" using wp by (simp add: av_def unat_sub_if')
      have k: "unat k \<le> unat left" "0 < unat k" "unat (write_pos (streams u1 f)) + unat k \<le> 4096"
        using uav wp \<open>left \<noteq> 0\<close> by (auto simp: k_def word_less_nat_alt unat_gt_0)
      let ?u = "on_stream f (\<lambda>s. s\<lparr>write_pos := write_pos s + k\<rparr>)
        (set_umem (memcpy (umem u1) (write_buffer f + write_pos (streams u1 f)) src k) u1)"
      have sk: "unat src + unat k \<le> 0xC0000000" "separate src (unat k) f 8216"
        using less.prems(2,3) k(1) by (auto simp: separate_def)
      note b = buffer_bytes [OF 1(2) k(3) sk]
      have ul: "unat (left - k) = unat left - unat k" using k(1) by (simp add: unat_sub word_le_nat_alt)
      have us: "unat (src + k) = unat src + unat k" using sk(1) by (simp add: unat_word_ariths)
      have "unat (left - k) < unat left" "unat (src + k) + unat (left - k) \<le> 0xC0000000"
        "separate (src + k) (unat (left - k)) f 8216"
        using less.prems(2,3) k ul us by (auto simp: separate_def)
      from less.hyps [OF this(1) b(1) this(2,3)] obtain l u' where
        ih: "fwrite_loop f (src + k) (left - k) ?u = Some (l, u')" "stream_ok F f u'" "unat l \<le> unat (left - k)"
        "l \<noteq> 0 \<longrightarrow> s_error (streams u' f)" "user_outside f ?u u'"
        "logical f u' = put_bytes (peek (umem ?u) (src + k) (unat (left - k) - unat l)) (logical f ?u)" by blast
      have step: "fwrite_loop f src left u = Some (l, u')"
        using \<open>left \<noteq> 0\<close> 1(1) r0 ih(1) unfolding k_def
        by (subst fwrite_loop.simps) (simp only: Let_def av_def [symmetric] if_False bind.bind_lunit prod.case, simp)
      have out: "user_outside f u ?u" "user_outside f u u'"
        using user_outside_trans [OF 1(3) b(3)] user_outside_trans [OF _ ih(5)] by auto
      let ?rest = "unat left - unat k - unat l"
      have rest: "unat (src + k) + ?rest \<le> 0xC0000000" "separate (src + k) ?rest f 8216"
        using less.prems(2,3) us k by (auto simp: separate_def)
      have "logical f u' = put_bytes (peek (umem u) (src + k) ?rest) (put_bytes (peek (umem u) src (unat k)) (logical f u))"
        using ih(6) b(2) 1(4) peek1 [OF sk] peek_user_outside [OF out(1) rest] ul by simp
      also have "\<dots> = put_bytes (peek (umem u) src (unat left - unat l)) (logical f u)"
      proof -
        have n: "unat left - unat l = unat k + ?rest" using ih(3) ul k by simp
        have "peek (umem u) src (unat k + ?rest) = peek (umem u) src (unat k) @ peek (umem u) (src + k) ?rest"
          by (rule nth_equalityI) (auto simp: nth_append of_nat_diff add.assoc)
        then show ?thesis unfolding n put_bytes_append by simp
      qed
      finally show ?thesis using step ih out ul by (intro exI [of _ l] exI [of _ u']) auto
    qed
  qed
qed

lemma fwrite_spec:
  assumes "stream_ok F f u" and "sz \<noteq> 0" and "nmemb \<noteq> 0" and "unat ptr + unat sz * unat nmemb \<le> 0xC0000000"
    and "separate ptr (unat sz * unat nmemb) f 8216"
  shows "\<exists>n u'. fwrite ptr sz nmemb f u = Some (n, u') \<and> stream_ok F f u' \<and> user_outside f u u' \<and>
    (n = nmemb \<and> logical f u' = put_bytes (peek (umem u) ptr (unat sz * unat nmemb)) (logical f u) \<or>
     s_error (streams u' f))"
proof -
  have t: "unat (sz * nmemb) = unat sz * unat nmemb" using assms(4) by (simp add: unat_word_ariths)
  have f0: "f \<noteq> 0" using stream_okD(1) [OF assms(1)] .
  obtain l u' where w: "fwrite_loop f ptr (sz * nmemb) u = Some (l, u')" "stream_ok F f u'"
    "l \<noteq> 0 \<longrightarrow> s_error (streams u' f)" "user_outside f u u'"
    "logical f u' = put_bytes (peek (umem u) ptr (unat (sz * nmemb) - unat l)) (logical f u)"
    using fwrite_loop_spec [OF assms(1), of ptr "sz * nmemb"] assms(4,5) unfolding t by blast
  have "fwrite ptr sz nmemb f u = Some ((sz * nmemb - l) div sz, u')"
    using f0 assms(2,3) w(1) by (simp add: fwrite_def Let_def)
  moreover have "(sz * nmemb) div sz = nmemb"
  proof (rule word_unat_eq_iff [THEN iffD2])
    have "unat sz \<noteq> 0" using assms(2) by (simp add: unat_eq_zero)
    then show "unat (sz * nmemb div sz) = unat nmemb" by (simp add: unat_div t)
  qed
  ultimately show ?thesis using w(2,3,4,5) unfolding t by (cases "l = 0") auto
qed


text \<open>C18. Writing items to a stream and flushing it gives the file exactly those bytes, after the bytes that were
  already waiting in the buffer and at the position the descriptor had, however many times the 4096-byte buffer fills on
  the way; or the stream's error flag is set, because the file system was full.\<close>

theorem fwrite_fflush_exact:
  assumes "stream_ok F f u" and "sz \<noteq> 0" and "nmemb \<noteq> 0" and "unat ptr + unat sz * unat nmemb \<le> 0xC0000000"
    and "separate ptr (unat sz * unat nmemb) f 8216"
  shows "\<exists>n u1 r u2. fwrite ptr sz nmemb f u = Some (n, u1) \<and> fflush f u1 = Some (r, u2) \<and> stream_ok F f u2 \<and>
    (r = 0 \<and> n = nmemb \<and> write_pos (streams u2 f) = 0 \<and>
       file_view f u2 = put_bytes (peek (umem u) ptr (unat sz * unat nmemb)) (logical f u) \<or>
     s_error (streams u2 f))"
proof -
  obtain n u1 where w: "fwrite ptr sz nmemb f u = Some (n, u1)" "stream_ok F f u1"
    "n = nmemb \<and> logical f u1 = put_bytes (peek (umem u) ptr (unat sz * unat nmemb)) (logical f u) \<or> s_error (streams u1 f)"
    using fwrite_spec [OF assms] by blast
  obtain r u2 where x: "fflush_write f u1 = Some (r, u2)" "stream_ok F f u2" "logical f u2 = logical f u1"
    "r = 0 \<and> write_pos (streams u2 f) = 0 \<and> s_error (streams u2 f) = s_error (streams u1 f) \<or> r = EOF \<and> s_error (streams u2 f)"
    using fflush_write_spec [OF w(2)] by blast
  have "file_view f u2 = logical f u2" if "write_pos (streams u2 f) = 0"
    using that by (simp add: logical_def put_bytes_def pending_Nil)
  then show ?thesis using w x stream_okD(1) [OF w(2)] by (auto simp: fflush_def)
qed

definition stream_demo :: uproc where
  "stream_demo = on_stream 0x20000000 (\<lambda>_. new_stream 3)
     (with_fs vfs_demo (uproc_demo\<lparr>u_kernel := on_task 0x10 (\<lambda>t. t\<lparr>t_fds := fds_demo\<rparr>) kernel_demo\<rparr>))"

lemma stream_demo_view: "ufs stream_demo = vfs_demo" "ufds stream_demo = fds_demo" "sfd 0x20000000 stream_demo = 3"
  "streams stream_demo 0x20000000 = new_stream 3"
  by (simp_all add: stream_demo_def new_stream_def on_task_def kernel_demo_def)

lemma stream_ok_demo: "stream_ok {0x300} 0x20000000 stream_demo"
  using tmpfs_fd_demo(1)
  by (simp only: stream_ok_def stream_demo_view tmpfs_ok_demo) (simp add: new_stream_def vfs_demo_def)

lemma logical_demo: "logical 0x20000000 stream_demo = ([], 0)"
  by (simp add: logical_def put_bytes_def pending_def file_view_def stream_demo_view new_stream_def)
    (simp add: view_def contents_def peek_def vfs_demo_def)

lemma fwrite_fflush_exact_witness:
  "\<exists>n u1 r u2. fwrite 0x1000 1 5 0x20000000 stream_demo = Some (n, u1) \<and> fflush 0x20000000 u1 = Some (r, u2) \<and>
     (r = 0 \<and> n = 5 \<and> file_view 0x20000000 u2 = ([0, 1, 2, 3, 4], 5) \<or> s_error (streams u2 0x20000000))"
proof -
  have m: "peek (kmem vfs_demo) 0x1000 5 = [0, 1, 2, 3, 4]" by code_simp
  have "separate 0x1000 (unat (1::u32) * unat (5::u32)) 0x20000000 8216" by (simp add: separate_def)
  then show ?thesis
    using fwrite_fflush_exact [OF stream_ok_demo, of 1 5 "0x1000"]
    by (simp add: stream_demo_view logical_demo m put_bytes_def abs_write_def overwrite_def) (simp add: eval_nat_numeral, blast)
qed

end
