(* ===== verification/Uprintf.thy ===== *)
theory Uprintf
  imports Ustdio Klib_Printf
begin

text \<open>
  The formatted output of the user library (\<open>user_src/user_libc.c\<close>, sections 10, 13 and 15): its own formatter, which is
  not the kernel's, the calls on top of it, error texts, and the remaining thin system calls. As in \<open>Klib_Printf\<close> the text
  is the list of bytes stored since the start of the buffer, \<open>lim\<close> the bytes that fit before the closing NUL, formats and
  string arguments are the bytes of strings that the buffer does not overlap, and \<open>None\<close> is undefined behaviour.
\<close>

unbundle bit_operations_syntax

section \<open>The formatter\<close>

definition put_int :: "nat \<Rightarrow> u8 list \<Rightarrow> u32 \<Rightarrow> u32 \<Rightarrow> int \<Rightarrow> bool \<Rightarrow> bool \<Rightarrow> u8 list option" where
  "put_int lim buf v base width zeros is_signed =
     (let negative = (is_signed \<and> v <s 0);
          uval = (if negative then 0 - v else v)
      in case digits_of base uval of None \<Rightarrow> None | Some tmp \<Rightarrow>
       let pad = width - int (length tmp);
           pad_char = (if zeros then 0x30 else 0x20);
           buf = (if negative then put lim 0x2D buf else buf);
           buf = put_n lim (nat pad) pad_char buf
       in Some (put_all lim (rev tmp) buf))"

definition put_uint :: "nat \<Rightarrow> u8 list \<Rightarrow> u32 \<Rightarrow> u32 \<Rightarrow> int \<Rightarrow> bool \<Rightarrow> u8 list option" where
  "put_uint lim buf v base width zeros =
     (case digits_of base v of None \<Rightarrow> None | Some tmp \<Rightarrow>
       let pad = width - int (length tmp);
           pad_char = (if zeros then 0x30 else 0x20);
           buf = put_n lim (nat pad) pad_char buf
       in Some (put_all lim (rev tmp) buf))"

text \<open>The flags \<open>0\<close> and \<open>-\<close>, in any order and number.\<close>

fun format_flags :: "bool \<Rightarrow> bool \<Rightarrow> u8 list \<Rightarrow> bool \<times> bool \<times> u8 list" where
  "format_flags zeros left (c # cs) =
     (if c = 0x30 then format_flags True left cs
      else if c = 0x2D then format_flags zeros True cs
      else (zeros, left, c # cs))"
| "format_flags zeros left [] = (zeros, left, [])"

fun is_decimal :: "u8 \<Rightarrow> bool" where
  "is_decimal c \<longleftrightarrow> 0x30 \<le> c \<and> c \<le> 0x39"

text \<open>A precision is skipped, not used.\<close>

definition skip_precision :: "u8 list \<Rightarrow> u8 list" where
  "skip_precision fmt = (case fmt of c # cs \<Rightarrow> if c = 0x2E then dropWhile is_decimal cs else fmt | [] \<Rightarrow> [])"

definition format_str :: "nat \<Rightarrow> u8 list \<Rightarrow> u8 list option \<Rightarrow> int \<Rightarrow> bool \<Rightarrow> u8 list" where
  "format_str lim buf str width left =
     (let str = (case str of None \<Rightarrow> null_str | Some s \<Rightarrow> s);
          pad = width - int (length str);
          buf = (if \<not> left then put_n lim (nat pad) 0x20 buf else buf);
          buf = put_all lim str buf
      in if left then put_n lim (nat pad) 0x20 buf else buf)"

definition format_conv ::
  "nat \<Rightarrow> bool \<Rightarrow> bool \<Rightarrow> int \<Rightarrow> u8 \<Rightarrow> va list \<Rightarrow> u8 list \<Rightarrow> (va list \<times> u8 list) option" where
  "format_conv lim zeros left width c args buf =
     (if c = 0x64 \<or> c = 0x69 then
        (case va_int args of None \<Rightarrow> None | Some (v, args) \<Rightarrow>
           map_option (Pair args) (put_int lim buf v 10 width zeros True))
      else if c = 0x75 \<or> c = 0x78 \<or> c = 0x58 then
        (case va_int args of None \<Rightarrow> None | Some (v, args) \<Rightarrow>
           map_option (Pair args) (put_uint lim buf v (if c = 0x75 then 10 else 16) width zeros))
      else if c = 0x70 then
        (case va_int args of None \<Rightarrow> None | Some (v, args) \<Rightarrow>
           map_option (Pair args) (put_uint lim (put lim 0x78 (put lim 0x30 buf)) v 16 8 True))
      else if c = 0x73 then
        (case va_str args of None \<Rightarrow> None | Some (s, args) \<Rightarrow> Some (args, format_str lim buf s width left))
      else if c = 0x63 then
        (if length buf < lim then
           (case va_int args of None \<Rightarrow> None | Some (v, args) \<Rightarrow> Some (args, buf @ [ucast v]))
         else Some (args, buf))
      else if c = 0x25 then Some (args, put lim 0x25 buf)
      else Some (args, put lim c (put lim 0x25 buf)))"

text \<open>The width is an \<open>int\<close> whose overflow is undefined. A format that ends inside a directive ends the output.\<close>

definition format_spec :: "u8 list \<Rightarrow> (bool \<times> bool \<times> int \<times> u8 list) option" where
  "format_spec fmt =
     (let (zeros, left, fmt) = format_flags False False fmt
      in case precision_digits 0 fmt of None \<Rightarrow> None | Some (width, fmt) \<Rightarrow>
           Some (zeros, left, width, skip_length (skip_precision fmt)))"

lemma format_flags_length: "format_flags z l fmt = (z', l', fmt') \<Longrightarrow> length fmt' \<le> length fmt"
  by (induction z l fmt rule: format_flags.induct) (auto split: if_splits)

lemma skip_precision_length: "length (skip_precision fmt) \<le> length fmt"
  by (auto simp: skip_precision_def le_SucI length_dropWhile_le split: list.split)

lemma format_spec_length: "format_spec fmt = Some (z, l, w, fmt') \<Longrightarrow> length fmt' \<le> length fmt"
  using skip_length_length skip_precision_length
  by (fastforce simp: format_spec_def dest: format_flags_length precision_digits_length split: option.splits prod.splits
      intro: order_trans)

function vsnprintf_loop :: "nat \<Rightarrow> u8 list \<Rightarrow> va list \<Rightarrow> u8 list \<Rightarrow> u8 list option" where
  "vsnprintf_loop lim [] args buf = Some buf"
| "vsnprintf_loop lim (c # fmt) args buf =
     (if \<not> length buf < lim then Some buf
      else if c \<noteq> 0x25 then vsnprintf_loop lim fmt args (buf @ [c])
      else if fmt = [] then Some buf
      else case format_spec fmt of None \<Rightarrow> None
        | Some (zeros, left, width, fmt') \<Rightarrow>
            (case fmt' of [] \<Rightarrow> Some buf
             | conv # fmt'' \<Rightarrow>
                 (case format_conv lim zeros left width conv args buf of None \<Rightarrow> None
                  | Some (args', buf') \<Rightarrow> vsnprintf_loop lim fmt'' args' buf')))"
  by pat_completeness auto
termination
  by (relation "measure (\<lambda>(lim, fmt, args, buf). length fmt)") (auto dest: format_spec_length)

text \<open>\<open>end = buf + size - 1\<close> may wrap around; then nothing lies below it.\<close>

definition vsnprintf :: "mem \<Rightarrow> u32 \<Rightarrow> u32 \<Rightarrow> u8 list \<Rightarrow> va list \<Rightarrow> (u32 \<times> mem) option" where
  "vsnprintf m buf sz fmt args =
     (if sz = 0 then Some (0, m)
      else let end_ptr = buf + sz - 1; lim = (if buf < end_ptr then unat (end_ptr - buf) else 0)
           in map_option (\<lambda>out. (of_nat (length out), (store_bytes buf out m)(buf + of_nat (length out) := 0)))
                (vsnprintf_loop lim fmt args []))"

definition vsprintf :: "mem \<Rightarrow> u32 \<Rightarrow> u8 list \<Rightarrow> va list \<Rightarrow> (u32 \<times> mem) option" where
  "vsprintf m buf fmt args = vsnprintf m buf (- 1) fmt args"

text \<open>\<open>buf\<close> is the address of the local array of \<open>vfprintf\<close>.\<close>

definition vfprintf :: "u32 \<Rightarrow> u32 \<Rightarrow> u8 list \<Rightarrow> va list \<Rightarrow> uproc \<Rightarrow> (int \<times> uproc) option" where
  "vfprintf buf f fmt args u =
     (case vsnprintf (umem u) buf 1024 fmt args of None \<Rightarrow> None
      | Some (len, m) \<Rightarrow>
          let u = set_umem m u
          in if len <s 0 \<or> len = 0 then Some (sint len, u)
             else write_call (s_fd (streams u f)) buf (if len \<ge> 1024 then 1023 else len) u)"

section \<open>Truncation\<close>

text \<open>A shorter buffer receives a prefix of what a longer one does.\<close>

lemma put_int_take:
  "lim \<le> M \<Longrightarrow> put_int lim (take lim buf) v base w z sg = map_option (take lim) (put_int M buf v base w z sg)"
  by (cases "sg \<and> v <s 0") (auto simp: put_int_def Let_def bounded_stores split: option.split)

lemma put_uint_take:
  "lim \<le> M \<Longrightarrow> put_uint lim (take lim buf) v base w z = map_option (take lim) (put_uint M buf v base w z)"
  by (simp add: put_uint_def Let_def bounded_stores split: option.split)

lemma format_str_take: "lim \<le> M \<Longrightarrow> format_str lim (take lim buf) s w l = take lim (format_str M buf s w l)"
  by (simp add: format_str_def Let_def bounded_stores)

lemma format_conv_take:
  assumes "lim \<le> M" and "length buf < lim" and "format_conv M z l w c args buf = Some (args', buf')"
  shows "format_conv lim z l w c args buf = Some (args', take lim buf')"
proof -
  have tk: "take lim buf = buf" using assms(2) by simp
  note k = put_int_take [OF assms(1), where buf = buf, unfolded tk] put_uint_take [OF assms(1), where buf = buf, unfolded tk]
    put_uint_take [where buf = "put M 0x78 (put M 0x30 buf)", OF assms(1)]
    format_str_take [OF assms(1), where buf = buf, unfolded tk] put_take [OF assms(1), where buf = buf, unfolded tk]
    put_take [where buf = "put M 0x25 buf", OF assms(1)] put_take [where buf = "put M 0x30 buf", OF assms(1)]
  have "length buf < M" using assms(1,2) by simp
  then show ?thesis
    using assms(2,3) unfolding format_conv_def by (auto simp: k split: if_splits option.splits)
qed

lemma put_mono: "\<exists>xs. put M c buf = buf @ xs"
  by (simp add: put_def)

lemma put_int_mono: "put_int M buf v base w z sg = Some r \<Longrightarrow> \<exists>xs. r = buf @ xs"
  by (auto simp: put_int_def Let_def put_n_eq put_all_eq put_def split: option.splits)

lemma put_uint_mono: "put_uint M buf v base w z = Some r \<Longrightarrow> \<exists>xs. r = buf @ xs"
  by (auto simp: put_uint_def Let_def put_n_eq put_all_eq split: option.splits)

lemma format_str_mono: "\<exists>xs. format_str M buf s w l = buf @ xs"
  by (cases l) (simp_all add: format_str_def Let_def put_n_eq put_all_eq)

lemma format_conv_mono: "format_conv M z l w c args buf = Some (args', buf') \<Longrightarrow> \<exists>xs. buf' = buf @ xs"
  by (auto simp: format_conv_def put_def intro: format_str_mono dest!: put_int_mono put_uint_mono
      split: if_splits option.splits)

lemma vsnprintf_loop_mono: "vsnprintf_loop M fmt args buf = Some full \<Longrightarrow> \<exists>xs. full = buf @ xs"
proof (induction M fmt args buf rule: vsnprintf_loop.induct)
  case (2 lim c fmt args buf)
  then show ?case
    by (fastforce split: if_splits option.splits prod.splits list.splits dest: format_conv_mono)
qed simp

lemma vsnprintf_loop_full: "lim \<le> length buf \<Longrightarrow> vsnprintf_loop lim fmt args buf = Some buf"
  by (cases fmt) auto

lemma vsnprintf_loop_take:
  "vsnprintf_loop M fmt args buf = Some full \<Longrightarrow> lim \<le> M \<Longrightarrow>
   vsnprintf_loop lim fmt args (take lim buf) = Some (take lim full)"
proof (induction M fmt args buf rule: vsnprintf_loop.induct)
  case (1 M args buf)
  then show ?case by simp
next
  case (2 M c fmt args buf)
  show ?case
  proof (cases "length buf < lim")
    case False
    then have "vsnprintf_loop lim (c # fmt) args (take lim buf) = Some (take lim buf)"
      by (simp add: vsnprintf_loop_full)
    moreover obtain xs where "full = buf @ xs" using vsnprintf_loop_mono [OF "2.prems"(1)] by auto
    ultimately show ?thesis using False by simp
  next
    case True
    then have M: "length buf < M" and tk: "take lim buf = buf" using "2.prems"(2) by auto
    show ?thesis
    proof (cases "c = 0x25 \<and> fmt \<noteq> []")
      case False
      then show ?thesis using "2.IH"(1) "2.prems" M True by (cases "c = 0x25") auto
    next
      case c: True
      obtain z l w fmt1 where sp: "format_spec fmt = Some (z, l, w, fmt1)"
        using "2.prems"(1) M c by (auto split: option.splits)
      show ?thesis
      proof (cases fmt1)
        case Nil
        then show ?thesis using "2.prems"(1) M c True sp by auto
      next
        case (Cons conv fmt2)
        then obtain args3 buf3 where s: "format_conv M z l w conv args buf = Some (args3, buf3)"
          "vsnprintf_loop M fmt2 args3 buf3 = Some full"
          using "2.prems"(1) M c sp by (auto split: option.splits)
        have "vsnprintf_loop lim fmt2 args3 (take lim buf3) = Some (take lim full)"
          using "2.IH"(2) M c s sp Cons "2.prems"(2) by simp
        then show ?thesis
          using format_conv_take [OF "2.prems"(2) True s(1)] s c True tk sp Cons by simp
      qed
    qed
  qed
qed

lemma store_bytes_same:
  "unat p + length bs \<le> 2 ^ 32 \<Longrightarrow> i < length bs \<Longrightarrow> store_bytes p bs m (p + of_nat i) = bs ! i"
proof (induction bs arbitrary: p m i)
  case (Cons b bs)
  show ?case
  proof (cases i)
    case 0
    show ?thesis
    proof (cases "bs = []")
      case False
      then have "unat (p + 1) = unat p + 1" using Cons.prems(1) unat_offset [of p 1] by (cases bs) auto
      then show ?thesis using 0 Cons.prems(1) by (subst store_bytes.simps(2), subst store_bytes_other) auto
    qed (simp add: 0)
  next
    case (Suc j)
    then have u: "unat (p + 1) = unat p + 1" using Cons.prems unat_offset [of p 1] by (cases bs) auto
    have "p + of_nat i = (p + 1) + of_nat j" using Suc by simp
    then show ?thesis using Cons.IH [of "p + 1" j "m(p := b)"] Cons.prems Suc u by (simp add: add.assoc fun_upd_def)
  qed
qed simp

lemma vsnprintf_text:
  assumes "0 < sz" and "unat buf + unat sz \<le> 2 ^ 32"
    and "vsnprintf_loop lim fmt args [] = Some full" and "unat sz \<le> Suc lim"
  defines "out \<equiv> take (unat sz - 1) full"
  shows "vsnprintf m buf sz fmt args =
    Some (of_nat (length out), (store_bytes buf out m)(buf + of_nat (length out) := 0))"
proof -
  have z: "0 < unat sz" using assms(1) by (simp add: word_less_nat_alt)
  have e: "unat (buf + sz - 1) = unat buf + (unat sz - 1)"
  proof -
    have "buf + sz - 1 = buf + of_nat (unat sz - 1)" using z by (simp add: of_nat_diff)
    then show ?thesis using assms(2) z by (simp only: unat_offset)
  qed
  have "unat (buf + sz - 1 - buf) = unat sz - 1" if "buf < buf + sz - 1"
    using that e by (simp add: unat_sub word_less_nat_alt word_le_nat_alt)
  moreover have "unat sz - 1 = 0" if "\<not> buf < buf + sz - 1" using that e by (simp add: word_less_nat_alt)
  ultimately have l: "(if buf < buf + sz - 1 then unat (buf + sz - 1 - buf) else 0) = unat sz - 1" by auto
  have "vsnprintf_loop (unat sz - 1) fmt args [] = Some out"
    using vsnprintf_loop_take [OF assms(3), of "unat sz - 1"] assms(4) by (simp add: out_def)
  then show ?thesis using z l by (auto simp: vsnprintf_def Let_def)
qed

text \<open>C17. \<open>vsnprintf\<close> stores the text that an unlimited buffer would receive, cut to the bytes before the last, closes it
  with a NUL, returns its length and writes nowhere outside the \<open>sz\<close> bytes of the buffer.\<close>

theorem vsnprintf_truncates:
  assumes "0 < sz" and "unat buf + unat sz \<le> 2 ^ 32"
    and "vsnprintf_loop lim fmt args [] = Some full" and "unat sz \<le> Suc lim"
  shows "\<exists>n m'. vsnprintf m buf sz fmt args = Some (n, m') \<and> unat n = min (length full) (unat sz - 1) \<and>
    peek m' buf (unat n) = take (unat sz - 1) full \<and> m' (buf + n) = 0 \<and>
    (\<forall>a. unat a < unat buf \<or> unat buf + unat sz \<le> unat a \<longrightarrow> m' a = m a)"
proof -
  define out where "out = take (unat sz - 1) full"
  define n where "n = (of_nat (length out) :: u32)"
  have l: "length out = min (length full) (unat sz - 1)" by (simp add: out_def min.commute)
  have z: "0 < unat sz" using assms(1) by (simp add: word_less_nat_alt)
  have lz: "length out < unat sz" using l z by simp
  have n: "unat n = length out" using lz unat_u32_bound [of sz] by (simp add: n_def unat_of_nat)
  have r: "vsnprintf m buf sz fmt args = Some (n, (store_bytes buf out m)(buf + n := 0))"
    unfolding n_def out_def by (rule vsnprintf_text [OF assms])
  have e: "unat (buf + n) = unat buf + length out"
    using unat_offset [of buf "length out"] lz assms(2) by (simp add: n_def)
  have p: "peek ((store_bytes buf out m)(buf + n := 0)) buf (unat n) = out"
  proof (rule nth_equalityI)
    show "length (peek ((store_bytes buf out m)(buf + n := 0)) buf (unat n)) = length out" by (simp add: n)
    fix i assume "i < length (peek ((store_bytes buf out m)(buf + n := 0)) buf (unat n))"
    then have i: "i < length out" by (simp add: n)
    have "unat (buf + of_nat i) = unat buf + i" using unat_offset [of buf i] i lz assms(2) by simp
    then have "buf + of_nat i \<noteq> buf + n" using e i by auto
    then show "peek ((store_bytes buf out m)(buf + n := 0)) buf (unat n) ! i = out ! i"
      using store_bytes_same [of buf out i m] i lz assms(2) by (simp add: n)
  qed
  have o: "((store_bytes buf out m)(buf + n := 0)) a = m a" if "unat a < unat buf \<or> unat buf + unat sz \<le> unat a" for a
  proof -
    have "a \<noteq> buf + n" using that e lz by auto
    then show ?thesis using that lz assms(2) store_bytes_other [of buf out a m] by auto
  qed
  show ?thesis
    by (intro exI [of _ n] exI [of _ "(store_bytes buf out m)(buf + n := 0)"] conjI r)
      (use n l p o out_def in auto)
qed

lemma vsnprintf_truncates_witness:
  "\<exists>n m'. vsnprintf (\<lambda>_. 0xFF) 0x1000 4 [0x3C, 0x25, 0x78, 0x3E, 0x21] [VInt 0xAB] = Some (n, m') \<and> unat n = 3 \<and>
     peek m' 0x1000 (unat n) = [0x3C, 0x61, 0x62] \<and> m' (0x1000 + n) = 0"
proof -
  have "vsnprintf_loop 9 [0x3C, 0x25, 0x78, 0x3E, 0x21] [VInt 0xAB] [] = Some [0x3C, 0x61, 0x62, 0x3E, 0x21]"
    by code_simp
  from vsnprintf_truncates [OF _ _ this, of 4 "0x1000" "\<lambda>_. 0xFF"] show ?thesis by fastforce
qed

text \<open>Three departures from the C functions: a minus sign comes before the padding and is not counted in the width; the
  length returned is that of the cut text; and \<open>sprintf\<close>, whose limit wraps around the address space, stores nothing.\<close>

lemma minus_before_padding:
  "vsnprintf_loop 99 [0x25, 0x35, 0x64] [VInt (- 42)] [] = Some [0x2D, 0x20, 0x20, 0x20, 0x34, 0x32]"
  by code_simp

lemma vsprintf_stores_nothing:
  assumes "2 \<le> buf"
  shows "vsprintf m buf (c # fmt) args = Some (0, m(buf := 0))"
proof -
  have "buf + (- 1) - 1 = buf - 2" by simp
  moreover have "\<not> buf < buf - 2" using assms by (simp add: word_less_nat_alt unat_sub word_le_nat_alt)
  ultimately show ?thesis by (simp add: vsprintf_def vsnprintf_def)
qed

section \<open>Error texts\<close>

definition strerror :: "int \<Rightarrow> string" where
  "strerror errnum =
     (if errnum = 0 then ''Success''
      else if errnum = EPERM then ''Operation not permitted''
      else if errnum = ENOENT then ''No such file or directory''
      else if errnum = 3 then ''No such process''
      else if errnum = 4 then ''Interrupted system call''
      else if errnum = 5 then ''I/O error''
      else if errnum = 6 then ''No such device or address''
      else if errnum = 7 then ''Argument list too long''
      else if errnum = ENOEXEC then ''Exec format error''
      else if errnum = EBADF then ''Bad file descriptor''
      else if errnum = 10 then ''No child processes''
      else if errnum = 11 then ''Try again''
      else if errnum = ENOMEM then ''Out of memory''
      else if errnum = EACCES then ''Permission denied''
      else if errnum = EFAULT then ''Bad address''
      else if errnum = 15 then ''Block device required''
      else if errnum = 16 then ''Device or resource busy''
      else if errnum = EEXIST then ''File exists''
      else if errnum = 18 then ''Cross-device link''
      else if errnum = 19 then ''No such device''
      else if errnum = ENOTDIR then ''Not a directory''
      else if errnum = 21 then ''Is a directory''
      else if errnum = EINVAL then ''Invalid argument''
      else if errnum = 23 then ''File table overflow''
      else if errnum = EMFILE then ''Too many open files''
      else if errnum = ENOTTY then ''Not a typewriter''
      else if errnum = 27 then ''File too large''
      else if errnum = ENOSPC then ''No space left on device''
      else if errnum = 29 then ''Illegal seek''
      else if errnum = 30 then ''Read-only file system''
      else if errnum = 31 then ''Too many links''
      else if errnum = 32 then ''Broken pipe''
      else if errnum = 33 then ''Math argument out of domain''
      else if errnum = 34 then ''Math result not representable''
      else if errnum = ENOSYS then ''Function not implemented''
      else ''Unknown error'')"

text \<open>\<open>stderr\<close> is the address of the stream, \<open>buf\<close> that of the array of \<open>vfprintf\<close>.\<close>

definition perror :: "u32 \<Rightarrow> u32 \<Rightarrow> u8 list option \<Rightarrow> uproc \<Rightarrow> (int \<times> uproc) option" where
  "perror buf stderr s u =
     (let err = VStr (Some (bytes_of (strerror (u_errno u))))
      in if s \<noteq> None \<and> s \<noteq> Some [] then vfprintf buf stderr (bytes_of ''%s: %s'' @ [0x0A]) [VStr s, err] u
         else vfprintf buf stderr (bytes_of ''%s'' @ [0x0A]) [err] u)"

section \<open>Time, system information, memory\<close>

definition usys_readdir :: "u32 \<Rightarrow> u32 \<Rightarrow> u32 \<Rightarrow> uproc \<Rightarrow> (int \<times> uproc) option" where
  "usys_readdir fd index entry = syscall3 141 fd index entry"

definition usys_ioctl :: "u32 \<Rightarrow> u32 \<Rightarrow> u32 \<Rightarrow> uproc \<Rightarrow> (int \<times> uproc) option" where
  "usys_ioctl fd request argp = syscall3 54 fd request argp"

definition usys_gettimeofday :: "u32 \<Rightarrow> uproc \<Rightarrow> (int \<times> uproc) option" where
  "usys_gettimeofday tv = syscall1 78 tv"

definition usys_uname :: "u32 \<Rightarrow> uproc \<Rightarrow> (int \<times> uproc) option" where
  "usys_uname buf = syscall1 164 buf"

definition usys_sysinfo :: "u32 \<Rightarrow> uproc \<Rightarrow> (int \<times> uproc) option" where
  "usys_sysinfo info = syscall1 116 info"

definition usys_mprotect :: "u32 \<Rightarrow> u32 \<Rightarrow> u32 \<Rightarrow> uproc \<Rightarrow> (int \<times> uproc) option" where
  "usys_mprotect addr len prot = syscall3 125 addr len prot"

definition usys_munmap :: "u32 \<Rightarrow> u32 \<Rightarrow> uproc \<Rightarrow> (int \<times> uproc) option" where
  "usys_munmap addr len = syscall2 91 addr len"

text \<open>The only call with six arguments.\<close>

definition usys_mmap :: "u32 \<Rightarrow> u32 \<Rightarrow> u32 \<Rightarrow> u32 \<Rightarrow> u32 \<Rightarrow> u32 \<Rightarrow> uproc \<Rightarrow> (u32 \<times> uproc) option" where
  "usys_mmap addr len prot flags fd offset u =
     (case syscall_dispatcher (u_machine u) (u_frame u)
             ((syscall_regs 90 addr len prot)\<lparr>esi := flags, edi := fd, ebp := offset\<rparr>) (u_kernel u) of
        Some (Value _, r, k) \<Rightarrow> Some (eax r, u\<lparr>u_kernel := k\<rparr>)
      | _ \<Rightarrow> None)"

definition usys_getpid :: "uproc \<Rightarrow> (int \<times> uproc) option" where
  "usys_getpid = syscall3 122 0 0 0"

text \<open>These three return the negative number itself besides setting \<open>errno\<close>.\<close>

definition errno_kept :: "(int \<times> uproc) option \<Rightarrow> (int \<times> uproc) option" where
  "errno_kept = map_option (\<lambda>(ret, u). (ret, if ret < 0 then u\<lparr>u_errno := - ret\<rparr> else u))"

definition gettimeofday :: "u32 \<Rightarrow> uproc \<Rightarrow> (int \<times> uproc) option" where
  "gettimeofday tv u = errno_kept (usys_gettimeofday tv u)"

definition uname :: "u32 \<Rightarrow> uproc \<Rightarrow> (int \<times> uproc) option" where
  "uname buf u = errno_kept (usys_uname buf u)"

definition sysinfo :: "u32 \<Rightarrow> uproc \<Rightarrow> (int \<times> uproc) option" where
  "sysinfo info u = errno_kept (usys_sysinfo info u)"

text \<open>\<open>tv\<close> is the address of the local variable of the two functions; its words are the seconds and the microseconds.\<close>

definition clock :: "u32 \<Rightarrow> uproc \<Rightarrow> (u32 \<times> uproc) option" where
  "clock tv u =
     map_option (\<lambda>(_, u). (word_at (umem u) tv * 1000000 + word_at (umem u) (tv + 4), u)) (gettimeofday tv u)"

definition time_call :: "u32 \<Rightarrow> u32 \<Rightarrow> uproc \<Rightarrow> (u32 \<times> uproc) option" where
  "time_call tv tloc u =
     map_option (\<lambda>(ret, u).
       if ret < 0 then (- 1, u)
       else (word_at (umem u) tv, if tloc \<noteq> 0 then set_umem (store_bytes tloc (bytes32 (word_at (umem u) tv)) (umem u)) u else u))
     (gettimeofday tv u)"

definition ioctl :: "u32 \<Rightarrow> u32 \<Rightarrow> u32 \<Rightarrow> uproc \<Rightarrow> (int \<times> uproc) option" where
  "ioctl fd request argp u = errno_result (usys_ioctl fd request argp u)"

definition sysconf :: "u32 \<Rightarrow> int" where
  "sysconf name = (if name = 30 then 4096 else - 1)"

definition mprotect :: "u32 \<Rightarrow> u32 \<Rightarrow> u32 \<Rightarrow> uproc \<Rightarrow> (int \<times> uproc) option" where
  "mprotect addr len prot u = errno_status (usys_mprotect addr len prot u)"

definition munmap :: "u32 \<Rightarrow> u32 \<Rightarrow> uproc \<Rightarrow> (int \<times> uproc) option" where
  "munmap addr len u = errno_status (usys_munmap addr len u)"

definition mmap :: "u32 \<Rightarrow> u32 \<Rightarrow> u32 \<Rightarrow> u32 \<Rightarrow> u32 \<Rightarrow> u32 \<Rightarrow> uproc \<Rightarrow> (u32 \<times> uproc) option" where
  "mmap addr len prot flags fd offset u =
     map_option (\<lambda>(ret, u).
       if sint ret < 0 \<and> sint ret > - 4096 then (- 1, u\<lparr>u_errno := - sint ret\<rparr>) else (ret, u))
     (usys_mmap addr len prot flags fd offset u)"

end
