(* ===== verification/Usort.thy ===== *)
theory Usort
  imports Blocks Klib_Printf "HOL-Library.Multiset"
begin

text \<open>
  \<open>qsort\<close> and \<open>bsearch\<close> of the user library, \<open>user_src/user_libc.c\<close>. The array is a range of memory, an element its
  \<open>size\<close> bytes; the comparison function of the caller reads memory through the two pointers it gets. \<open>qsort\<close> is a heap
  sort in place; it refines a heap sort on lists, which is proved to sort for every strict weak order.
\<close>

unbundle bit_operations_syntax

section \<open>The code\<close>

text \<open>The comparison function; \<open>None\<close> if it does not return.\<close>

type_synonym compare_fun = "mem \<Rightarrow> u32 \<Rightarrow> u32 \<Rightarrow> int option"

primrec swap_loop :: "u32 \<Rightarrow> u32 \<Rightarrow> nat \<Rightarrow> mem \<Rightarrow> mem" where
  "swap_loop a b 0 m = m"
| "swap_loop a b (Suc n) m = swap_loop (a + 1) (b + 1) n (m(a := m b, b := m a))"

definition swap_elements :: "u32 \<Rightarrow> u32 \<Rightarrow> u32 \<Rightarrow> mem \<Rightarrow> mem" where
  "swap_elements a b sz m = swap_loop a b (unat sz) m"

text \<open>The address of an element of the array.\<close>

definition element :: "u32 \<Rightarrow> u32 \<Rightarrow> nat \<Rightarrow> u32" where
  "element arr sz i = arr + of_nat i * sz"

text \<open>\<open>None\<close> where \<open>root * 2 + 1\<close> overflows an \<open>int\<close>.\<close>

function sift_down :: "u32 \<Rightarrow> u32 \<Rightarrow> compare_fun \<Rightarrow> nat \<Rightarrow> int \<Rightarrow> mem \<Rightarrow> mem option" where
  "sift_down arr sz cmp root bound m =
     (if 2 * int root + 1 > int_max then None
      else if 2 * int root + 1 \<le> bound then
        let child = 2 * root + 1
        in case cmp m (element arr sz root) (element arr sz child) of None \<Rightarrow> None | Some r1 \<Rightarrow>
        let s = (if r1 < 0 then child else root)
        in case (if int (child + 1) \<le> bound then cmp m (element arr sz s) (element arr sz (child + 1)) else Some 0)
           of None \<Rightarrow> None | Some r2 \<Rightarrow>
        let s = (if r2 < 0 then child + 1 else s)
        in if s = root then Some m
           else sift_down arr sz cmp s bound (swap_elements (element arr sz root) (element arr sz s) sz m)
      else Some m)"
  by pat_completeness auto
termination
  by (relation "measure (\<lambda>(_, _, _, root, bound, _). nat (bound - int root))") (auto split: if_splits option.splits)

declare sift_down.simps [simp del]

text \<open>The first loop of \<open>qsort\<close>, from \<open>start\<close> down to 0, and the second one, from \<open>end\<close> down to 1.\<close>

primrec heapify :: "u32 \<Rightarrow> u32 \<Rightarrow> compare_fun \<Rightarrow> nat \<Rightarrow> int \<Rightarrow> mem \<Rightarrow> mem option" where
  "heapify arr sz cmp 0 bound m = sift_down arr sz cmp 0 bound m"
| "heapify arr sz cmp (Suc start) bound m =
     Option.bind (sift_down arr sz cmp (Suc start) bound m) (heapify arr sz cmp start bound)"

primrec extract_loop :: "u32 \<Rightarrow> u32 \<Rightarrow> compare_fun \<Rightarrow> nat \<Rightarrow> mem \<Rightarrow> mem option" where
  "extract_loop arr sz cmp 0 m = Some m"
| "extract_loop arr sz cmp (Suc e) m =
     Option.bind (sift_down arr sz cmp 0 (int e) (swap_elements arr (element arr sz (Suc e)) sz m))
       (extract_loop arr sz cmp e)"

definition qsort :: "u32 \<Rightarrow> u32 \<Rightarrow> u32 \<Rightarrow> compare_fun \<Rightarrow> mem \<Rightarrow> mem option" where
  "qsort base nmemb sz cmp m =
     (if nmemb < 2 \<or> sz = 0 then Some m
      else Option.bind (heapify base sz cmp (unat ((nmemb - 2) div 2)) (sint (nmemb - 1)) m)
             (extract_loop base sz cmp (nat (sint (nmemb - 1)))))"

lemma unat_mid:
  assumes "low < (high :: u32)"
  shows "unat (low + (high - low) div 2) = unat low + (unat high - unat low) div 2"
proof -
  have l: "unat low < unat high" using assms by (simp add: word_less_nat_alt)
  then have "unat (high - low) = unat high - unat low" by (simp add: unat_sub_if')
  moreover have "unat low + (unat high - unat low) div 2 < 2 ^ 32" using l unat_u32_bound [of high] by simp
  ultimately show ?thesis by (simp add: unat_plus_if' unat_div)
qed

function bsearch_loop :: "u32 \<Rightarrow> u32 \<Rightarrow> u32 \<Rightarrow> compare_fun \<Rightarrow> mem \<Rightarrow> u32 \<Rightarrow> u32 \<Rightarrow> u32 option" where
  "bsearch_loop key arr sz cmp m low high =
     (if low < high then
        let mid = low + (high - low) div 2; p = arr + mid * sz
        in case cmp m key p of None \<Rightarrow> None | Some res \<Rightarrow>
           if res = 0 then Some p
           else if res > 0 then bsearch_loop key arr sz cmp m (mid + 1) high
           else bsearch_loop key arr sz cmp m low mid
      else Some 0)"
  by pat_completeness auto
termination
proof (relation "measure (\<lambda>(_, _, _, _, _, low, high). unat high - unat low)")
  fix low high mid :: u32 assume l: "low < high" and m: "mid = low + (high - low) div 2"
  show "((key, arr, sz, cmp, m', mid + 1, high), (key, arr, sz, cmp, m', low, high)) \<in>
      measure (\<lambda>(_, _, _, _, _, low, high). unat high - unat low)" for key arr sz cmp m'
    using unat_mid [OF l] l unat_offset [of mid 1] unat_u32_bound [of high] unfolding m by (simp add: word_less_nat_alt)
  show "((key, arr, sz, cmp, m', low, mid), (key, arr, sz, cmp, m', low, high)) \<in>
      measure (\<lambda>(_, _, _, _, _, low, high). unat high - unat low)" for key arr sz cmp m'
    using unat_mid [OF l] l unfolding m by (simp add: word_less_nat_alt)
qed simp

declare bsearch_loop.simps [simp del]

definition bsearch :: "u32 \<Rightarrow> u32 \<Rightarrow> u32 \<Rightarrow> u32 \<Rightarrow> compare_fun \<Rightarrow> mem \<Rightarrow> u32 option" where
  "bsearch key base nmemb sz cmp m = bsearch_loop key base sz cmp m 0 nmemb"


section \<open>Heap sort on lists\<close>

definition swap_list :: "'a list \<Rightarrow> nat \<Rightarrow> nat \<Rightarrow> 'a list" where
  "swap_list xs i j = xs[i := xs ! j, j := xs ! i]"

lemma length_swap_list [simp]: "length (swap_list xs i j) = length xs"
  by (simp add: swap_list_def)

lemma nth_swap_list:
  "i < length xs \<Longrightarrow> j < length xs \<Longrightarrow> k < length xs \<Longrightarrow>
    swap_list xs i j ! k = (if k = j then xs ! i else if k = i then xs ! j else xs ! k)"
  by (simp add: swap_list_def nth_list_update)

lemma mset_swap_list [simp]: "i < length xs \<Longrightarrow> j < length xs \<Longrightarrow> mset (swap_list xs i j) = mset xs"
  by (simp add: swap_list_def mset_swap)

text \<open>The child that takes the place of the root, or the root itself.\<close>

definition larger_child :: "('a \<Rightarrow> 'a \<Rightarrow> bool) \<Rightarrow> 'a list \<Rightarrow> nat \<Rightarrow> nat \<Rightarrow> nat" where
  "larger_child lt xs root n =
     (let child = 2 * root + 1;
          s = (if lt (xs ! root) (xs ! child) then child else root)
      in if child + 1 < n \<and> lt (xs ! s) (xs ! (child + 1)) then child + 1 else s)"

lemma larger_child_cases:
  "larger_child lt xs root n \<in> {root, 2 * root + 1, 2 * root + 2}"
  "larger_child lt xs root n = 2 * root + 2 \<Longrightarrow> 2 * root + 2 < n"
  by (auto simp: larger_child_def Let_def split: if_splits)

function sift :: "('a \<Rightarrow> 'a \<Rightarrow> bool) \<Rightarrow> nat \<Rightarrow> nat \<Rightarrow> 'a list \<Rightarrow> 'a list" where
  "sift lt root n xs =
     (if 2 * root + 1 < n then let c = larger_child lt xs root n
        in if c = root then xs else sift lt c n (swap_list xs root c)
      else xs)"
  by pat_completeness auto
termination
  by (relation "measure (\<lambda>(_, root, n, _). n - root)") (use larger_child_cases in fastforce)+

declare sift.simps [simp del]

text \<open>In the positions from \<open>s\<close> up to \<open>n\<close> no element is below one of its children.\<close>

definition heaped :: "('a \<Rightarrow> 'a \<Rightarrow> bool) \<Rightarrow> nat \<Rightarrow> nat \<Rightarrow> 'a list \<Rightarrow> bool" where
  "heaped lt s n xs \<longleftrightarrow> (\<forall>j. 0 < j \<and> j < n \<and> s \<le> (j - 1) div 2 \<longrightarrow> \<not> lt (xs ! ((j - 1) div 2)) (xs ! j))"

definition heaped_but :: "('a \<Rightarrow> 'a \<Rightarrow> bool) \<Rightarrow> nat \<Rightarrow> nat \<Rightarrow> nat \<Rightarrow> 'a list \<Rightarrow> bool" where
  "heaped_but lt r s n xs \<longleftrightarrow>
     (\<forall>j. 0 < j \<and> j < n \<and> s \<le> (j - 1) div 2 \<and> (j - 1) div 2 \<noteq> r \<longrightarrow> \<not> lt (xs ! ((j - 1) div 2)) (xs ! j)) \<and>
     (\<forall>j. 0 < j \<and> j < n \<and> (j - 1) div 2 = r \<and> 0 < r \<and> s \<le> (r - 1) div 2 \<longrightarrow> \<not> lt (xs ! ((r - 1) div 2)) (xs ! j))"

text \<open>Building the heap from the last inner position, and taking its maximum out again and again.\<close>

primrec build :: "('a \<Rightarrow> 'a \<Rightarrow> bool) \<Rightarrow> nat \<Rightarrow> nat \<Rightarrow> 'a list \<Rightarrow> 'a list" where
  "build lt 0 n xs = sift lt 0 n xs"
| "build lt (Suc s) n xs = build lt s n (sift lt (Suc s) n xs)"

primrec extract_all :: "('a \<Rightarrow> 'a \<Rightarrow> bool) \<Rightarrow> nat \<Rightarrow> 'a list \<Rightarrow> 'a list" where
  "extract_all lt 0 xs = xs"
| "extract_all lt (Suc e) xs = extract_all lt e (sift lt 0 (Suc e) (swap_list xs 0 (Suc e)))"

definition heap_sort :: "('a \<Rightarrow> 'a \<Rightarrow> bool) \<Rightarrow> 'a list \<Rightarrow> 'a list" where
  "heap_sort lt xs = (if length xs < 2 then xs
     else extract_all lt (length xs - 1) (build lt ((length xs - 2) div 2) (length xs) xs))"

definition sorted_above :: "('a \<Rightarrow> 'a \<Rightarrow> bool) \<Rightarrow> nat \<Rightarrow> 'a list \<Rightarrow> bool" where
  "sorted_above lt e xs \<longleftrightarrow> (\<forall>i j. i < j \<longrightarrow> e < j \<longrightarrow> j < length xs \<longrightarrow> \<not> lt (xs ! j) (xs ! i))"

locale strict_order =
  fixes lt :: "'a \<Rightarrow> 'a \<Rightarrow> bool"
  assumes asym: "lt x y \<Longrightarrow> \<not> lt y x"
    and cotrans: "lt x z \<Longrightarrow> lt x y \<or> lt y z"
begin

lemma irrefl: "\<not> lt x x"
  using asym by blast

lemma not_lt_trans: "\<not> lt x y \<Longrightarrow> \<not> lt y z \<Longrightarrow> \<not> lt x z"
  using cotrans by blast

lemma larger_child_max:
  assumes "2 * root + 1 < n" and "c = larger_child lt xs root n"
  shows "\<not> lt (xs ! c) (xs ! root)" "\<not> lt (xs ! c) (xs ! (2 * root + 1))"
    "2 * root + 2 < n \<Longrightarrow> \<not> lt (xs ! c) (xs ! (2 * root + 2))"
proof -
  let ?l = "xs ! (2 * root + 1)" and ?r = "xs ! (2 * root + 2)" and ?x = "xs ! root"
  define d where "d = (if lt ?x ?l then 2 * root + 1 else root)"
  have d: "\<not> lt (xs ! d) ?x" "\<not> lt (xs ! d) ?l" using asym irrefl by (auto simp: d_def)
  have c: "c = (if 2 * root + 2 < n \<and> lt (xs ! d) ?r then 2 * root + 2 else d)"
    by (simp add: assms(2) larger_child_def Let_def d_def)
  show "\<not> lt (xs ! c) ?x" "\<not> lt (xs ! c) ?l"
    using d asym [of "xs ! d" ?r] not_lt_trans [of ?r "xs ! d" ?x] not_lt_trans [of ?r "xs ! d" ?l] by (auto simp: c)
  show "2 * root + 2 < n \<Longrightarrow> \<not> lt (xs ! c) ?r" using irrefl by (auto simp: c)
qed

lemma children: "0 < j \<Longrightarrow> (j - 1) div 2 = r \<longleftrightarrow> j = 2 * r + 1 \<or> j = 2 * r + (2 :: nat)"
  by presburger

lemma heaped_but_done:
  assumes "heaped_but lt r s n xs" and "\<And>j. j = 2 * r + 1 \<or> j = 2 * r + 2 \<Longrightarrow> j < n \<Longrightarrow> \<not> lt (xs ! r) (xs ! j)"
  shows "heaped lt s n xs"
  unfolding heaped_def using assms by (metis children heaped_but_def)

lemma heaped_but_swap:
  assumes h: "heaped_but lt r s n xs" and n: "n \<le> length xs" "2 * r + 1 < n"
    and c: "c = larger_child lt xs r n" "c \<noteq> r"
  shows "heaped_but lt c s n (swap_list xs r c)"
proof -
  have cr: "c = 2 * r + 1 \<or> c = 2 * r + 2" "c < n" using larger_child_cases [of lt xs r n] c n(2) by auto
  have max: "\<not> lt (xs ! c) (xs ! r)" "\<And>j. j = 2 * r + 1 \<or> j = 2 * r + 2 \<Longrightarrow> j < n \<Longrightarrow> \<not> lt (xs ! c) (xs ! j)"
    using larger_child_max [OF n(2) c(1)] by auto
  let ?ys = "swap_list xs r c"
  have ys: "\<And>k. k < n \<Longrightarrow> ?ys ! k = (if k = c then xs ! r else if k = r then xs ! c else xs ! k)"
    using n cr by (intro nth_swap_list) auto
  have pc: "(c - 1) div 2 = r" "0 < c" using cr(1) children by auto
  have h1: "\<And>j. 0 < j \<Longrightarrow> j < n \<Longrightarrow> s \<le> (j - 1) div 2 \<Longrightarrow> (j - 1) div 2 \<noteq> r \<Longrightarrow> \<not> lt (xs ! ((j - 1) div 2)) (xs ! j)"
    and h2: "\<And>j. 0 < j \<Longrightarrow> j < n \<Longrightarrow> (j - 1) div 2 = r \<Longrightarrow> 0 < r \<Longrightarrow> s \<le> (r - 1) div 2 \<Longrightarrow> \<not> lt (xs ! ((r - 1) div 2)) (xs ! j)"
    using h by (auto simp: heaped_but_def)
  have a: "\<not> lt (?ys ! ((j - 1) div 2)) (?ys ! j)"
    if j: "0 < j" "j < n" "s \<le> (j - 1) div 2" "(j - 1) div 2 \<noteq> c" for j
  proof -
    let ?p = "(j - 1) div 2"
    have p: "?p < j" "?p < n" using j(1,2) by auto
    consider "?p = r" | "?p \<noteq> r" "j = r" | "?p \<noteq> r" "j \<noteq> r" by blast
    then show ?thesis
    proof cases
      case 1
      then have "\<not> lt (xs ! c) (if j = c then xs ! r else xs ! j)"
        using max children [of j r] j by auto
      then show ?thesis using 1 j ys [OF p(2)] ys [OF j(2)] cr c(2) p by auto
    next
      case 2
      then have "\<not> lt (xs ! ((r - 1) div 2)) (xs ! c)" using h2 [of c] j pc cr(2) by auto
      then show ?thesis using 2 j ys [OF p(2)] ys [OF j(2)] cr c(2) by auto
    next
      case 3
      then have "j \<noteq> c" using pc by auto
      then show ?thesis using 3 h1 j ys [OF p(2)] ys [OF j(2)] by auto
    qed
  qed
  have b: "\<not> lt (?ys ! ((c - 1) div 2)) (?ys ! j)"
    if j: "0 < j" "j < n" "(j - 1) div 2 = c" "0 < c" "s \<le> (c - 1) div 2" for j
  proof -
    have "j \<noteq> c" "j \<noteq> r" "r \<noteq> c" using j cr by auto
    moreover have "\<not> lt (xs ! c) (xs ! j)" using h1 [of j] j pc cr by auto
    ultimately show ?thesis using pc ys [of r] ys [OF j(2)] cr by auto
  qed
  show ?thesis unfolding heaped_but_def using a b by blast
qed

lemma sift_heaped:
  "heaped_but lt r s n xs \<Longrightarrow> n \<le> length xs \<Longrightarrow>
    heaped lt s n (sift lt r n xs) \<and> mset (sift lt r n xs) = mset xs \<and>
    (\<forall>j. n \<le> j \<longrightarrow> j < length xs \<longrightarrow> sift lt r n xs ! j = xs ! j)"
proof (induction "n - r" arbitrary: r xs rule: less_induct)
  case less
  let ?c = "larger_child lt xs r n"
  consider "\<not> 2 * r + 1 < n" | "2 * r + 1 < n" "?c = r" | "2 * r + 1 < n" "?c \<noteq> r" by blast
  then show ?case
  proof cases
    case 1
    then have "heaped lt s n xs" using heaped_but_done [OF less.prems(1)] by auto
    then show ?thesis using 1 by (simp add: sift.simps [of lt r])
  next
    case 2
    then have "heaped lt s n xs" using heaped_but_done [OF less.prems(1)] larger_child_max [OF 2(1), of ?c xs] by auto
    then show ?thesis using 2 by (simp add: sift.simps [of lt r])
  next
    case 3
    have c: "r < ?c" "?c < n" using larger_child_cases [of lt xs r n] 3 by auto
    let ?ys = "swap_list xs r ?c"
    have "n - ?c < n - r" using c by auto
    then have "heaped lt s n (sift lt ?c n ?ys) \<and> mset (sift lt ?c n ?ys) = mset ?ys \<and>
        (\<forall>j. n \<le> j \<longrightarrow> j < length ?ys \<longrightarrow> sift lt ?c n ?ys ! j = ?ys ! j)"
      using less.hyps heaped_but_swap [OF less.prems 3(1) _ 3(2)] less.prems(2) by simp
    then show ?thesis using 3 c less.prems(2) by (simp add: sift.simps [of lt r] Let_def nth_swap_list)
  qed
qed

lemma heaped_extend: "heaped lt (Suc s) n xs \<Longrightarrow> heaped_but lt s s n xs"
  unfolding heaped_def heaped_but_def by auto

lemma heaped_root:
  assumes "heaped lt 0 n xs"
  shows "j < n \<Longrightarrow> \<not> lt (xs ! 0) (xs ! j)"
proof (induction j rule: less_induct)
  case (less j)
  show ?case
  proof (cases "j = 0")
    case False
    then have "(j - 1) div 2 < j" by auto
    then have "\<not> lt (xs ! 0) (xs ! ((j - 1) div 2))" using less by auto
    moreover have "\<not> lt (xs ! ((j - 1) div 2)) (xs ! j)" using assms less.prems False by (auto simp: heaped_def)
    ultimately show ?thesis by (rule not_lt_trans)
  qed (simp add: irrefl)
qed

lemma build_heap:
  "heaped lt (Suc s) n xs \<Longrightarrow> n \<le> length xs \<Longrightarrow> heaped lt 0 n (build lt s n xs) \<and> mset (build lt s n xs) = mset xs"
proof (induction s arbitrary: xs)
  case 0
  then show ?case using sift_heaped [OF heaped_extend] by auto
next
  case (Suc s)
  note h = sift_heaped [OF heaped_extend [OF Suc.prems(1)] Suc.prems(2)]
  then have "n \<le> length (sift lt (Suc s) n xs)" using Suc.prems(2) by (metis mset_eq_length)
  then show ?case using Suc.IH h by simp
qed

lemma mset_take_eq:
  assumes "mset zs = mset ys" and "\<forall>j. n \<le> j \<longrightarrow> j < length ys \<longrightarrow> zs ! j = ys ! j"
  shows "mset (take n zs) = mset (take n ys)"
proof -
  have l: "length zs = length ys" using assms(1) by (metis mset_eq_length)
  have "drop n zs = drop n ys" using assms(2) l by (intro nth_equalityI) auto
  moreover have "mset (take n zs) + mset (drop n zs) = mset (take n ys) + mset (drop n ys)"
    using assms(1) by (simp flip: mset_append)
  ultimately show ?thesis by simp
qed

lemma extract_max:
  assumes h: "heaped lt 0 (Suc (Suc e)) xs" and s: "sorted_above lt (Suc e) xs" and l: "Suc e < length xs"
    and z: "zs = sift lt 0 (Suc e) (swap_list xs 0 (Suc e))"
  shows "heaped lt 0 (Suc e) zs" "sorted_above lt e zs" "mset zs = mset xs"
proof -
  let ?ys = "swap_list xs 0 (Suc e)"
  have l0: "0 < length xs" using l by linarith
  note ys = nth_swap_list [OF l0 l]
  have "heaped_but lt 0 0 (Suc e) ?ys"
    unfolding heaped_but_def
  proof (intro conjI allI impI)
    fix j assume j: "0 < j \<and> j < Suc e \<and> 0 \<le> (j - 1) div 2 \<and> (j - 1) div 2 \<noteq> 0"
    then have "\<not> lt (xs ! ((j - 1) div 2)) (xs ! j)" using h by (auto simp: heaped_def)
    moreover have "?ys ! j = xs ! j" "?ys ! ((j - 1) div 2) = xs ! ((j - 1) div 2)"
      using j l ys [of j] ys [of "(j - 1) div 2"] by auto
    ultimately show "\<not> lt (?ys ! ((j - 1) div 2)) (?ys ! j)" by simp
  qed auto
  note sh = sift_heaped [OF this, of] and zz = z
  have S: "heaped lt 0 (Suc e) zs" "mset zs = mset ?ys" "\<forall>j. Suc e \<le> j \<longrightarrow> j < length ?ys \<longrightarrow> zs ! j = ?ys ! j"
    using sh l by (auto simp: z)
  show "heaped lt 0 (Suc e) zs" by (rule S(1))
  show "mset zs = mset xs" using S(2) mset_swap_list [OF l0 l] by (simp only:)
  then have lz: "length zs = length xs" by (metis mset_eq_length)
  have top: "zs ! Suc e = xs ! 0" using S(3) l ys [of "Suc e"] by simp
  have above: "zs ! j = xs ! j" if "Suc e < j" "j < length xs" for j using S(3) that ys [of j] by simp
  have below: "\<exists>k \<le> Suc e. zs ! i = xs ! k" if "i < Suc e" for i
  proof -
    have "zs ! i \<in> set (take (Suc e) zs)" using that l lz by (auto simp: in_set_conv_nth intro!: exI [of _ i])
    then have "zs ! i \<in> set (take (Suc e) ?ys)" using mset_take_eq [OF S(2,3)] by (metis mset_eq_setD)
    then obtain k where k: "k < Suc e" "zs ! i = ?ys ! k" using l by (auto simp: in_set_conv_nth)
    then have "zs ! i = xs ! (if k = 0 then Suc e else k)" using ys [of k] l l0 by simp
    then show ?thesis using k(1) by (intro exI [of _ "if k = 0 then Suc e else k"]) auto
  qed
  show "sorted_above lt e zs"
    unfolding sorted_above_def
  proof (intro allI impI)
    fix i j assume ij: "i < j" "e < j" "j < length zs"
    have i: "\<exists>k \<le> max i (Suc e). zs ! i = xs ! k \<and> (i > Suc e \<longrightarrow> k = i)"
    proof -
      consider "i < Suc e" | "i = Suc e" | "Suc e < i" by linarith
      then show ?thesis
      proof cases
        case 1
        then show ?thesis using below [of i] by auto
      next
        case 2
        then show ?thesis using top by auto
      next
        case 3
        then show ?thesis using above [of i] ij lz by auto
      qed
    qed
    then obtain k where k: "k \<le> max i (Suc e)" "zs ! i = xs ! k" by blast
    show "\<not> lt (zs ! j) (zs ! i)"
    proof (cases "j = Suc e")
      case True
      then show ?thesis using k ij top heaped_root [OF h, of k] by simp
    next
      case False
      then have "Suc e < j" using ij by simp
      then show ?thesis using k ij s above [of j] lz by (auto simp: sorted_above_def)
    qed
  qed
qed

lemma extract_all_sorts:
  "heaped lt 0 (Suc e) xs \<Longrightarrow> sorted_above lt e xs \<Longrightarrow> e < length xs \<Longrightarrow>
    sorted_wrt (\<lambda>x y. \<not> lt y x) (extract_all lt e xs) \<and> mset (extract_all lt e xs) = mset xs"
proof (induction e arbitrary: xs)
  case 0
  then show ?case by (auto simp: sorted_above_def sorted_wrt_iff_nth_less)
next
  case (Suc e)
  note x = extract_max [OF Suc.prems refl]
  have "e < length (sift lt 0 (Suc e) (swap_list xs 0 (Suc e)))" using x(3) Suc.prems(3) by (metis Suc_lessD mset_eq_length)
  then show ?case using Suc.IH [OF x(1,2)] x(3) by simp
qed

lemma heap_sort_sorts:
  "sorted_wrt (\<lambda>x y. \<not> lt y x) (heap_sort lt xs)" "mset (heap_sort lt xs) = mset xs"
proof -
  let ?n = "length xs"
  have "sorted_wrt (\<lambda>x y. \<not> lt y x) (heap_sort lt xs) \<and> mset (heap_sort lt xs) = mset xs"
  proof (cases "?n < 2")
    case True
    then show ?thesis by (cases xs) (auto simp: heap_sort_def)
  next
    case False
    then have "heaped lt (Suc ((?n - 2) div 2)) ?n xs" unfolding heaped_def by auto
    then have b: "heaped lt 0 ?n (build lt ((?n - 2) div 2) ?n xs)" "mset (build lt ((?n - 2) div 2) ?n xs) = mset xs"
      using build_heap by auto
    let ?ys = "build lt ((?n - 2) div 2) ?n xs"
    have "sorted_above lt (?n - 1) ?ys" "length ?ys = ?n" using b(2) by (auto simp: sorted_above_def dest: mset_eq_length)
    moreover have "Suc (?n - 1) = ?n" using False by simp
    ultimately show ?thesis using extract_all_sorts [of "?n - 1" ?ys] b False by (simp add: heap_sort_def)
  qed
  then show "sorted_wrt (\<lambda>x y. \<not> lt y x) (heap_sort lt xs)" "mset (heap_sort lt xs) = mset xs" by auto
qed

end

section \<open>The array as a list of elements\<close>

definition elements :: "mem \<Rightarrow> u32 \<Rightarrow> u32 \<Rightarrow> nat \<Rightarrow> u8 list list" where
  "elements m arr sz n = map (\<lambda>i. peek m (element arr sz i) (unat sz)) [0..<n]"

lemma length_elements [simp]: "length (elements m arr sz n) = n"
  by (simp add: elements_def)

lemma nth_elements [simp]: "i < n \<Longrightarrow> elements m arr sz n ! i = peek m (element arr sz i) (unat sz)"
  by (simp add: elements_def)

lemma swap_loop_other:
  assumes "unat a + n \<le> 2 ^ 32" "unat b + n \<le> 2 ^ 32"
    and "unat x < unat a \<or> unat a + n \<le> unat x" "unat x < unat b \<or> unat b + n \<le> unat x"
  shows "swap_loop a b n m x = m x"
  using assms
proof (induction n arbitrary: a b m)
  case (Suc n)
  show ?case
  proof (cases "n = 0")
    case True
    then show ?thesis using Suc.prems by auto
  next
    case False
    then have "unat (a + 1) = unat a + 1" "unat (b + 1) = unat b + 1"
      using Suc.prems unat_offset [of a 1] unat_offset [of b 1] by auto
    then have "swap_loop (a + 1) (b + 1) n (m(a := m b, b := m a)) x = (m(a := m b, b := m a)) x"
      using Suc.prems by (intro Suc.IH) auto
    moreover have "x \<noteq> a" "x \<noteq> b" using Suc.prems by auto
    ultimately show ?thesis by simp
  qed
qed simp

lemma swap_loop_same:
  assumes "unat a + n \<le> 2 ^ 32" "unat b + n \<le> 2 ^ 32" "separate a n b n" "i < n"
  shows "swap_loop a b n m (a + of_nat i) = m (b + of_nat i) \<and> swap_loop a b n m (b + of_nat i) = m (a + of_nat i)"
  using assms
proof (induction n arbitrary: a b m i)
  case (Suc n)
  let ?m = "m(a := m b, b := m a)"
  have ab: "a \<noteq> b" using Suc.prems(3) by (auto simp: separate_def)
  show ?case
  proof (cases "n = 0")
    case True
    then show ?thesis using Suc.prems ab by auto
  next
    case False
    then have u: "unat (a + 1) = unat a + 1" "unat (b + 1) = unat b + 1"
      using Suc.prems unat_offset [of a 1] unat_offset [of b 1] by auto
    show ?thesis
    proof (cases i)
      case 0
      have "swap_loop (a + 1) (b + 1) n ?m x = ?m x" if "x = a \<or> x = b" for x
        using that u Suc.prems(1,2,3) by (intro swap_loop_other) (auto simp: separate_def)
      then show ?thesis using 0 ab by simp
    next
      case (Suc j)
      then have j: "j < n" using Suc.prems(4) by simp
      have "unat (a + of_nat (Suc j)) = unat a + Suc j" "unat (b + of_nat (Suc j)) = unat b + Suc j"
        using Suc.prems(1,2) j by (intro unat_offset; simp)+
      then have ne: "a + of_nat (Suc j) \<noteq> a" "a + of_nat (Suc j) \<noteq> b" "b + of_nat (Suc j) \<noteq> a" "b + of_nat (Suc j) \<noteq> b"
        using Suc.prems(3) j by (auto simp: separate_def)
      have "swap_loop (a + 1) (b + 1) n ?m (a + 1 + of_nat j) = ?m (b + 1 + of_nat j) \<and>
          swap_loop (a + 1) (b + 1) n ?m (b + 1 + of_nat j) = ?m (a + 1 + of_nat j)"
        using u Suc.prems j by (intro Suc.IH) (auto simp: separate_def)
      moreover have "a + 1 + of_nat j = a + of_nat (Suc j)" "b + 1 + of_nat j = b + of_nat (Suc j)" by simp_all
      ultimately show ?thesis using ne Suc by simp
    qed
  qed
qed simp

text \<open>The array lies in memory without wrapping around and its indices are \<open>int\<close>s.\<close>

definition array_fits :: "u32 \<Rightarrow> u32 \<Rightarrow> nat \<Rightarrow> bool" where
  "array_fits arr sz n \<longleftrightarrow> unat arr + n * unat sz \<le> 2 ^ 32 \<and> n \<le> 2 ^ 30"

lemma element_room:
  assumes "array_fits arr sz n" "i < n" "sz \<noteq> 0"
  shows "unat (element arr sz i) = unat arr + i * unat sz" "unat (element arr sz i) + unat sz \<le> unat arr + n * unat sz"
proof -
  have "Suc i * unat sz \<le> n * unat sz" using assms(2) by (intro mult_le_mono1) simp
  then have b: "unat arr + i * unat sz + unat sz \<le> unat arr + n * unat sz" by simp
  moreover have "0 < unat sz" using assms(3) by (simp add: unat_gt_0)
  ultimately have l: "unat arr + i * unat sz < 2 ^ 32" using assms(1) unfolding array_fits_def by linarith
  have "of_nat i * sz = of_nat (i * unat sz)" by simp
  then show u: "unat (element arr sz i) = unat arr + i * unat sz"
    unfolding element_def using unat_offset [OF l] by simp
  show "unat (element arr sz i) + unat sz \<le> unat arr + n * unat sz" using b u by simp
qed

lemma elements_separate:
  assumes "array_fits arr sz n" "i < n" "j < n" "i \<noteq> j" "sz \<noteq> 0"
  shows "separate (element arr sz i) (unat sz) (element arr sz j) (unat sz)"
proof -
  have "Suc i * unat sz \<le> j * unat sz \<or> Suc j * unat sz \<le> i * unat sz"
    using assms(4) by (metis Suc_leI linorder_neqE_nat mult_le_mono1)
  then show ?thesis using element_room(1) [OF assms(1)] assms by (auto simp: separate_def)
qed

definition outside :: "u32 \<Rightarrow> u32 \<Rightarrow> nat \<Rightarrow> mem \<Rightarrow> mem \<Rightarrow> bool" where
  "outside arr sz n m m' \<longleftrightarrow> (\<forall>x. unat x < unat arr \<or> unat arr + n * unat sz \<le> unat x \<longrightarrow> m' x = m x)"

lemma swap_elements_list:
  assumes f: "array_fits arr sz n" and i: "i < n" and j: "j < n" and ij: "i \<noteq> j" and z: "sz \<noteq> 0"
    and m'_def: "m' = swap_elements (element arr sz i) (element arr sz j) sz m"
  shows "elements m' arr sz n = swap_list (elements m arr sz n) i j" "outside arr sz n m m'"
proof -
  let ?e = "element arr sz" and ?k = "unat sz"
  have lim: "unat (?e k) + ?k \<le> 2 ^ 32" if "k < n" for k
    using element_room(2) [OF f that z] f by (simp add: array_fits_def)
  note sep = elements_separate [OF f _ _ _ z]
  have same: "peek m' (?e i) ?k = peek m (?e j) ?k" "peek m' (?e j) ?k = peek m (?e i) ?k"
    using swap_loop_same [OF lim [OF i] lim [OF j] sep [OF i j ij]]
    by (auto simp: peek_def m'_def swap_elements_def)
  have other: "peek m' (?e k) ?k = peek m (?e k) ?k" if k: "k < n" "k \<noteq> i" "k \<noteq> j" for k
  proof -
    have "m' (?e k + of_nat l) = m (?e k + of_nat l)" if l: "l < ?k" for l
    proof -
      have "unat (?e k) + l < 2 ^ 32" using lim [OF k(1)] l by simp
      then have "unat (?e k + of_nat l) = unat (?e k) + l" by (rule unat_offset)
      then show ?thesis
        unfolding m'_def swap_elements_def using sep [OF i k(1) k(2) [symmetric]] sep [OF j k(1) k(3) [symmetric]] l
        by (intro swap_loop_other lim i j) (auto simp: separate_def)
    qed
    then show ?thesis by (auto simp: peek_def)
  qed
  show "elements m' arr sz n = swap_list (elements m arr sz n) i j"
  proof (rule nth_equalityI)
    fix k assume k: "k < length (elements m' arr sz n)"
    consider "k = i" | "k = j" | "k \<noteq> i" "k \<noteq> j" by blast
    then show "elements m' arr sz n ! k = swap_list (elements m arr sz n) i j ! k"
      using i j ij k same other [of k] by cases (simp_all add: nth_swap_list)
  qed simp
  show "outside arr sz n m m'"
    unfolding outside_def m'_def swap_elements_def
    using element_room [OF f i z] element_room [OF f j z] by (intro allI impI swap_loop_other lim i j) auto
qed

lemma outside_refl [simp]: "outside arr sz n m m"
  by (simp add: outside_def)

lemma outside_trans: "outside arr sz n m m' \<Longrightarrow> outside arr sz n m' m'' \<Longrightarrow> outside arr sz n m m''"
  by (simp add: outside_def)

text \<open>On elements with the property \<open>P\<close> the comparison function returns, and its result depends on their bytes only.\<close>

definition compares :: "u32 \<Rightarrow> compare_fun \<Rightarrow> (u8 list \<Rightarrow> u8 list \<Rightarrow> int) \<Rightarrow> (u8 list \<Rightarrow> bool) \<Rightarrow> bool" where
  "compares sz cmp c P \<longleftrightarrow> (\<forall>m p q. P (peek m p (unat sz)) \<and> P (peek m q (unat sz)) \<longrightarrow>
     cmp m p q = Some (c (peek m p (unat sz)) (peek m q (unat sz))))"

abbreviation less_by :: "(u8 list \<Rightarrow> u8 list \<Rightarrow> int) \<Rightarrow> u8 list \<Rightarrow> u8 list \<Rightarrow> bool" where
  "less_by c \<equiv> \<lambda>x y. c x y < 0"

lemma mset_sift: "r < n \<Longrightarrow> n \<le> length xs \<Longrightarrow> mset (sift lt r n xs) = mset xs"
proof (induction "n - r" arbitrary: r xs rule: less_induct)
  case less
  let ?c = "larger_child lt xs r n"
  show ?case
  proof (cases "2 * r + 1 < n \<and> ?c \<noteq> r")
    case True
    then have c: "r < ?c" "?c < n" using larger_child_cases [of lt xs r n] by auto
    then have "mset (sift lt ?c n (swap_list xs r ?c)) = mset (swap_list xs r ?c)" using less by simp
    then show ?thesis using True c less.prems by (simp add: sift.simps [of lt r] Let_def)
  qed (auto simp: sift.simps [of lt r] Let_def)
qed

lemma sift_down_list:
  assumes f: "array_fits arr sz n" and z: "sz \<noteq> 0" and c: "compares sz cmp c P"
  shows "r < n \<Longrightarrow> l \<le> n \<Longrightarrow> \<forall>x\<in>set (elements m arr sz n). P x \<Longrightarrow>
    \<exists>m'. sift_down arr sz cmp r (int l - 1) m = Some m' \<and>
    elements m' arr sz n = sift (less_by c) r l (elements m arr sz n) \<and> outside arr sz n m m'"
proof (induction "n - r" arbitrary: r m rule: less_induct)
  case less
  let ?x = "elements m arr sz n" and ?e = "element arr sz"
  have nn: "n \<le> 2 ^ 30" using f by (simp add: array_fits_def)
  then have no: "\<not> 2 * int r + 1 > int_max" using less.prems(1) by (simp add: int_max_def)
  have cmp: "cmp m (?e i) (?e j) = Some (c (?x ! i) (?x ! j))" if "i < n" "j < n" for i j
  proof -
    have "P (?x ! i)" "P (?x ! j)" using less.prems(3) that by (simp_all add: nth_mem del: nth_elements)
    then show ?thesis using that c by (simp add: compares_def)
  qed
  define k where "k = larger_child (less_by c) ?x r l"
  show ?case
  proof (cases "2 * r + 1 < l")
    case False
    then have "\<not> 2 * int r + 1 \<le> int l - 1" by linarith
    then show ?thesis using False no by (simp add: sift_down.simps [of _ _ _ r] sift.simps [of _ r])
  next
    case True
    have k: "k = r \<or> k = 2 * r + 1 \<or> k = 2 * r + 2 \<and> 2 * r + 2 < l"
      unfolding k_def using larger_child_cases [of "less_by c" ?x r l] by auto
    then have kn: "k < n" using True less.prems by auto
    define s where "s = (if c (?x ! r) (?x ! (2 * r + 1)) < 0 then 2 * r + 1 else r)"
    have sn: "s < n" "2 * r + 1 < n" using True less.prems by (auto simp: s_def)
    define r2 where "r2 = (if 2 * r + 2 < l then c (?x ! s) (?x ! (2 * r + 2)) else 0)"
    have ks: "k = (if r2 < 0 then 2 * r + 2 else s)"
      by (simp add: k_def larger_child_def Let_def s_def r2_def)
    have r2: "(if int (2 * r + 1 + 1) \<le> int l - 1 then cmp m (?e s) (?e (2 * r + 1 + 1)) else Some 0) = Some r2"
      using cmp [OF sn(1), of "2 * r + 2"] less.prems by (auto simp: r2_def)
    have le: "2 * int r + 1 \<le> int l - 1" using True by linarith
    have step: "sift_down arr sz cmp r (int l - 1) m =
        (if k = r then Some m else sift_down arr sz cmp k (int l - 1) (swap_elements (?e r) (?e k) sz m))"
      by (subst sift_down.simps)
        (simp only: no le if_False if_True Let_def cmp [OF less.prems(1) sn(2)] option.case r2 ks
          s_def [symmetric], simp)
    have lstep: "sift (less_by c) r l ?x = (if k = r then ?x else sift (less_by c) k l (swap_list ?x r k))"
      using True by (simp add: sift.simps [of _ r] Let_def k_def)
    show ?thesis
    proof (cases "k = r")
      case True
      then show ?thesis using step lstep by simp
    next
      case False
      then have lt: "n - k < n - r" using k less.prems by auto
      let ?m = "swap_elements (?e r) (?e k) sz m"
      note sw = swap_elements_list [OF f less.prems(1) kn False [symmetric] z refl, of m]
      have "mset (swap_list ?x r k) = mset ?x" using kn less.prems by (intro mset_swap_list) auto
      then have "\<forall>x\<in>set (elements ?m arr sz n). P x" using less.prems(3) sw(1) by (metis mset_eq_setD)
      from less.hyps [OF lt kn less.prems(2) this] obtain m2 where
        "sift_down arr sz cmp k (int l - 1) ?m = Some m2"
        "elements m2 arr sz n = sift (less_by c) k l (elements ?m arr sz n)" "outside arr sz n ?m m2" by blast
      then show ?thesis using sw step lstep False outside_trans [OF sw(2)] by simp
    qed
  qed
qed

lemma heapify_list:
  assumes "array_fits arr sz n" "sz \<noteq> 0" "compares sz cmp c P"
  shows "s < n \<Longrightarrow> \<forall>x\<in>set (elements m arr sz n). P x \<Longrightarrow> \<exists>m'. heapify arr sz cmp s (int n - 1) m = Some m' \<and>
    elements m' arr sz n = build (less_by c) s n (elements m arr sz n) \<and> outside arr sz n m m' \<and>
    mset (elements m' arr sz n) = mset (elements m arr sz n)"
proof (induction s arbitrary: m)
  case 0
  then show ?case using sift_down_list [OF assms, of 0 n m] mset_sift [of 0 n "elements m arr sz n" "less_by c"] by auto
next
  case (Suc s)
  obtain m1 where 1: "sift_down arr sz cmp (Suc s) (int n - 1) m = Some m1"
    "elements m1 arr sz n = sift (less_by c) (Suc s) n (elements m arr sz n)" "outside arr sz n m m1"
    using sift_down_list [OF assms Suc.prems(1) order_refl Suc.prems(2)] by blast
  moreover have ms: "mset (elements m1 arr sz n) = mset (elements m arr sz n)"
    unfolding 1(2) using Suc.prems(1) by (intro mset_sift) auto
  then have "\<forall>x\<in>set (elements m1 arr sz n). P x" using Suc.prems(2) by (metis mset_eq_setD)
  then obtain m2 where "heapify arr sz cmp s (int n - 1) m1 = Some m2"
    "elements m2 arr sz n = build (less_by c) s n (elements m1 arr sz n)" "outside arr sz n m1 m2"
    "mset (elements m2 arr sz n) = mset (elements m1 arr sz n)"
    using Suc.IH [of m1] Suc.prems by auto
  ultimately show ?case using outside_trans [OF 1(3)] ms by simp
qed

lemma extract_loop_list:
  assumes "array_fits arr sz n" "sz \<noteq> 0" "compares sz cmp c P"
  shows "e < n \<Longrightarrow> \<forall>x\<in>set (elements m arr sz n). P x \<Longrightarrow> \<exists>m'. extract_loop arr sz cmp e m = Some m' \<and>
    elements m' arr sz n = extract_all (less_by c) e (elements m arr sz n) \<and> outside arr sz n m m'"
proof (induction e arbitrary: m)
  case (Suc e)
  let ?m = "swap_elements (element arr sz 0) (element arr sz (Suc e)) sz m"
  have a: "element arr sz 0 = arr" by (simp add: element_def)
  have n: "0 < n" "e < n" using Suc.prems(1) by auto
  note sw = swap_elements_list [OF assms(1) n(1) Suc.prems(1) _ assms(2) refl, of m]
  have s: "elements ?m arr sz n = swap_list (elements m arr sz n) 0 (Suc e)" "outside arr sz n m ?m"
    using sw by auto
  have "mset (elements ?m arr sz n) = mset (elements m arr sz n)"
    unfolding s(1) using Suc.prems n by (intro mset_swap_list) auto
  then have P: "\<forall>x\<in>set (elements ?m arr sz n). P x" using Suc.prems(2) by (metis mset_eq_setD)
  obtain m1 where 1: "sift_down arr sz cmp 0 (int (Suc e) - 1) ?m = Some m1"
    "elements m1 arr sz n = sift (less_by c) 0 (Suc e) (elements ?m arr sz n)" "outside arr sz n ?m m1"
    using sift_down_list [OF assms n(1) less_imp_le [OF Suc.prems(1)] P] by blast
  have "mset (elements m1 arr sz n) = mset (elements ?m arr sz n)"
    unfolding 1(2) using Suc.prems(1) by (intro mset_sift) auto
  then have "\<forall>x\<in>set (elements m1 arr sz n). P x" using P by (metis mset_eq_setD)
  then obtain m2 where 2: "extract_loop arr sz cmp e m1 = Some m2"
    "elements m2 arr sz n = extract_all (less_by c) e (elements m1 arr sz n)" "outside arr sz n m1 m2"
    using Suc.IH [OF n(2)] by blast
  have "outside arr sz n m m2" by (rule outside_trans [OF s(2) outside_trans [OF 1(3) 2(3)]])
  then show ?case using a s 1 2 by simp
qed simp

lemma qsort_heap_sort:
  assumes f: "array_fits arr sz (unat n)" and "compares sz cmp c P"
    and "\<forall>x\<in>set (elements m arr sz (unat n)). P x"
  shows "\<exists>m'. qsort arr n sz cmp m = Some m' \<and> outside arr sz (unat n) m m' \<and>
    elements m' arr sz (unat n) = (if sz = 0 then elements m arr sz (unat n) else heap_sort (less_by c) (elements m arr sz (unat n)))"
proof (cases "n < 2 \<or> sz = 0")
  case True
  then show ?thesis by (auto simp: qsort_def heap_sort_def word_less_nat_alt)
next
  case False
  then have n: "\<not> unat n < 2" "sz \<noteq> 0" by (auto simp: word_less_nat_alt)
  have b: "unat n \<le> 2 ^ 30" using f by (simp add: array_fits_def)
  have u: "unat (n - 1) = unat n - 1" "unat (n - 2) = unat n - 2"
    using n(1) by (simp_all add: unat_sub word_le_nat_alt)
  have s: "sint (n - 1) = int (unat n) - 1"
  proof -
    have "int (unat (n - 1)) = int (unat n) - 1" using u(1) n(1) by linarith
    then have "uint (n - 1) = uint n - 1" by simp
    moreover have "unat n \<le> 1073741824" using b by simp
    then have "int (unat n) \<le> 1073741824" by linarith
    then have "uint n \<le> 1073741824" by simp
    ultimately have "uint (n - 1) = uint n - 1" "uint n \<le> 1073741824" by auto
    then show ?thesis by (simp add: sint_u32)
  qed
  have h: "unat ((n - 2) div 2) = (unat n - 2) div 2" using u by (simp add: unat_div)
  have hn: "(unat n - 2) div 2 < unat n" "unat n - 1 < unat n" using n(1) by auto
  obtain m1 where 1: "heapify arr sz cmp ((unat n - 2) div 2) (int (unat n) - 1) m = Some m1"
    "elements m1 arr sz (unat n) = build (less_by c) ((unat n - 2) div 2) (unat n) (elements m arr sz (unat n))"
    "outside arr sz (unat n) m m1"
    "mset (elements m1 arr sz (unat n)) = mset (elements m arr sz (unat n))"
    using heapify_list [OF f n(2) assms(2) hn(1) assms(3)] by blast
  have "\<forall>x\<in>set (elements m1 arr sz (unat n)). P x" using 1(4) assms(3) by (metis mset_eq_setD)
  then obtain m2 where 2: "extract_loop arr sz cmp (unat n - 1) m1 = Some m2"
    "elements m2 arr sz (unat n) = extract_all (less_by c) (unat n - 1) (elements m1 arr sz (unat n))"
    "outside arr sz (unat n) m1 m2"
    using extract_loop_list [OF f n(2) assms(2) hn(2)] by blast
  have "nat (int (unat n) - 1) = unat n - 1" by (metis nat_int nat_minus_as_int of_nat_1)
  then have "qsort arr n sz cmp m = Some m2" using False 1(1) 2(1) by (simp only: qsort_def h s if_False) simp
  then show ?thesis using 1 2 n outside_trans by (auto simp: heap_sort_def)
qed

text \<open>A comparison whose sign is a strict weak order.\<close>

definition weak_order :: "(u8 list \<Rightarrow> u8 list \<Rightarrow> int) \<Rightarrow> bool" where
  "weak_order c \<longleftrightarrow> (\<forall>x y. 0 < c x y \<longleftrightarrow> c y x < 0) \<and> (\<forall>x y z. c x z < 0 \<longrightarrow> c x y < 0 \<or> c y z < 0)"

lemma weak_order_strict: "weak_order c \<Longrightarrow> strict_order (less_by c)"
  unfolding weak_order_def by unfold_locales (metis less_asym, blast)

lemma qsort_spec:
  assumes "array_fits arr sz (unat n)" and "compares sz cmp c P" and "\<forall>x\<in>set (elements m arr sz (unat n)). P x"
    and "weak_order c"
  shows "\<exists>m'. qsort arr n sz cmp m = Some m' \<and> outside arr sz (unat n) m m' \<and>
    mset (elements m' arr sz (unat n)) = mset (elements m arr sz (unat n)) \<and>
    sorted_wrt (\<lambda>x y. c x y \<le> 0) (elements m' arr sz (unat n))"
proof -
  note so = weak_order_strict [OF assms(4)]
  have le: "(\<lambda>x y. c x y \<le> 0) = (\<lambda>x y. \<not> c y x < 0)" using assms(4) unfolding weak_order_def by (metis not_less)
  let ?xs = "elements m arr sz (unat n)"
  have z: "sorted_wrt (\<lambda>x y. \<not> c y x < 0) ?xs" if "sz = 0"
  proof -
    have "c [] [] \<ge> 0" using assms(4) unfolding weak_order_def by (metis less_asym not_less)
    then show ?thesis using that by (simp add: sorted_wrt_iff_nth_less peek_def)
  qed
  obtain m' where "qsort arr n sz cmp m = Some m'" "outside arr sz (unat n) m m'"
    "elements m' arr sz (unat n) = (if sz = 0 then ?xs else heap_sort (less_by c) ?xs)"
    using qsort_heap_sort [OF assms(1-3)] by blast
  then show ?thesis using strict_order.heap_sort_sorts [OF so, of ?xs] z unfolding le by (cases "sz = 0") auto
qed

lemma bsearch_loop_spec:
  assumes f: "array_fits arr sz n" and z: "sz \<noteq> 0" and c: "compares sz cmp c P"
    and P: "\<forall>x\<in>set (elements m arr sz n). P x" "P (peek m key (unat sz))" and w: "weak_order c"
    and s: "sorted_wrt (\<lambda>x y. c x y \<le> 0) (elements m arr sz n)"
  defines "k \<equiv> peek m key (unat sz)" and "x \<equiv> elements m arr sz n"
  shows "unat low \<le> unat high \<Longrightarrow> unat high \<le> n \<Longrightarrow> \<forall>i < unat low. 0 < c k (x ! i) \<Longrightarrow>
    \<forall>i. unat high \<le> i \<longrightarrow> i < n \<longrightarrow> c k (x ! i) < 0 \<Longrightarrow>
    (\<exists>i < n. bsearch_loop key arr sz cmp m low high = Some (element arr sz i) \<and> c k (x ! i) = 0) \<or>
    bsearch_loop key arr sz cmp m low high = Some 0 \<and> (\<forall>i < n. c k (x ! i) \<noteq> 0)"
proof (induction "unat high - unat low" arbitrary: low high rule: less_induct)
  case less
  have xl: "length x = n" by (simp add: x_def)
  show ?case
  proof (cases "low < high")
    case False
    then have "unat high \<le> unat low" by (simp add: word_less_nat_alt)
    then have "\<forall>i < n. c k (x ! i) \<noteq> 0" using less.prems by (metis less_irrefl linorder_not_less order_trans)
    then show ?thesis using False by (simp add: bsearch_loop.simps)
  next
    case True
    define mid where "mid = low + (high - low) div 2"
    have u: "unat mid = unat low + (unat high - unat low) div 2" unfolding mid_def by (rule unat_mid [OF True])
    have l: "unat low < unat high" using True by (simp add: word_less_nat_alt)
    have m: "unat low \<le> unat mid" "unat mid < unat high" "unat mid < n" using u l less.prems(2) by auto
    have m1: "unat (mid + 1) = unat mid + 1" using unat_offset [of mid 1] m(2) unat_u32_bound [of high] by simp
    have p: "arr + mid * sz = element arr sz (unat mid)" by (simp add: element_def)
    have xm: "x ! unat mid = peek m (element arr sz (unat mid)) (unat sz)" using m(3) by (simp add: x_def)
    have "P (x ! unat mid)" using P(1) m(3) xl by (simp add: x_def del: nth_elements)
    then have cm: "cmp m key (arr + mid * sz) = Some (c k (x ! unat mid))"
      using c P(2) by (simp add: compares_def p xm k_def)
    note wo = w [unfolded weak_order_def]
    have step: "bsearch_loop key arr sz cmp m low high =
        (if c k (x ! unat mid) = 0 then Some (element arr sz (unat mid))
         else if 0 < c k (x ! unat mid) then bsearch_loop key arr sz cmp m (mid + 1) high
         else bsearch_loop key arr sz cmp m low mid)"
      using True by (subst bsearch_loop.simps) (simp only: mid_def [symmetric] Let_def cm [unfolded p] p option.case if_True)
    consider "c k (x ! unat mid) = 0" | "0 < c k (x ! unat mid)" | "c k (x ! unat mid) < 0" by linarith
    then show ?thesis
    proof cases
      case 1
      then show ?thesis using step m(3) by auto
    next
      case 2
      have b: "\<forall>i < unat (mid + 1). 0 < c k (x ! i)"
      proof (intro allI impI)
        fix i assume "i < unat (mid + 1)"
        then have "i < unat mid \<or> i = unat mid" using m1 by linarith
        then have "i = unat mid \<or> c (x ! i) (x ! unat mid) \<le> 0"
          using s m(3) xl by (auto simp: x_def [symmetric] sorted_wrt_iff_nth_less)
        then show "0 < c k (x ! i)" using 2 wo by (metis not_less)
      qed
      have "unat high - unat (mid + 1) < unat high - unat low" "unat (mid + 1) \<le> unat high" using m m1 by auto
      from less.hyps [OF this less.prems(2) b less.prems(4)] show ?thesis using step 2 by simp
    next
      case 3
      have b: "\<forall>i. unat mid \<le> i \<longrightarrow> i < n \<longrightarrow> c k (x ! i) < 0"
      proof (intro allI impI)
        fix i assume i: "unat mid \<le> i" "i < n"
        then have "unat mid < i \<or> i = unat mid" by linarith
        then have "i = unat mid \<or> c (x ! unat mid) (x ! i) \<le> 0"
          using s xl i(2) by (auto simp: x_def [symmetric] sorted_wrt_iff_nth_less)
        then show "c k (x ! i) < 0" using 3 wo by (metis not_less)
      qed
      have "unat mid - unat low < unat high - unat low" "unat low \<le> unat mid" "unat mid \<le> n" using m by auto
      from less.hyps [OF this less.prems(3) b] show ?thesis using step 3 by simp
    qed
  qed
qed

lemma bsearch_spec:
  assumes "array_fits arr sz (unat n)" and "sz \<noteq> 0" and "compares sz cmp c P"
    and "\<forall>x\<in>set (elements m arr sz (unat n)). P x" "P (peek m key (unat sz))" and "weak_order c"
    and "sorted_wrt (\<lambda>x y. c x y \<le> 0) (elements m arr sz (unat n))"
  shows "(\<exists>i < unat n. bsearch key arr n sz cmp m = Some (element arr sz i) \<and>
      c (peek m key (unat sz)) (elements m arr sz (unat n) ! i) = 0) \<or>
    bsearch key arr n sz cmp m = Some 0 \<and>
      (\<forall>i < unat n. c (peek m key (unat sz)) (elements m arr sz (unat n) ! i) \<noteq> 0)"
  unfolding bsearch_def using bsearch_loop_spec [OF assms, of 0 n] by simp

end
