(* ===== verification/Shell.thy ===== *)
theory Shell
  imports Uprintf Usort "HOL-Library.Monad_Syntax"
begin

text \<open>
  The command interpreter (\<open>user_src/shell_user.c\<close>) without its line editor: splitting a command line, the commands on
  files, \<open>ls\<close> with its table, and the reports. A command works on the whole process; the addresses of its local and
  static objects are the fields of \<open>shell_frame\<close>. The state after printing is the state after the \<open>write\<close> call.
\<close>

unbundle bit_operations_syntax

section \<open>Directory entries\<close>

text \<open>An \<open>ls_entry_t\<close>: 256 bytes of name, one byte of type.\<close>

abbreviation (input) LS_NAME_MAX :: u32 where "LS_NAME_MAX \<equiv> 256"
abbreviation (input) SIZEOF_LS_ENTRY :: u32 where "SIZEOF_LS_ENTRY \<equiv> 257"
abbreviation (input) DT_DIR :: u8 where "DT_DIR \<equiv> 4"
abbreviation (input) DT_REG :: u8 where "DT_REG \<equiv> 8"

definition ls_entry_cmp :: compare_fun where
  "ls_entry_cmp m a b =
     (let ea_dir = (m (a + LS_NAME_MAX) = DT_DIR); eb_dir = (m (b + LS_NAME_MAX) = DT_DIR)
      in if ea_dir \<noteq> eb_dir then Some (if ea_dir then - 1 else 1) else strcmp m a b)"

section \<open>The order of the listing\<close>

text \<open>What \<open>strcmp\<close> returns for two strings.\<close>

fun str_diff :: "u8 list \<Rightarrow> u8 list \<Rightarrow> int" where
  "str_diff [] [] = 0"
| "str_diff [] (y # ys) = - uint y"
| "str_diff (x # xs) [] = uint x"
| "str_diff (x # xs) (y # ys) = (if x = y then str_diff xs ys else uint x - uint y)"

lemma strcmp_diff: "cstr m p s \<Longrightarrow> cstr m q t \<Longrightarrow> strcmp m p q = Some (str_diff s t)"
proof (induction s t arbitrary: p q rule: str_diff.induct)
  case (4 x xs y ys)
  then show ?case unfolding strcmp_def by (subst k_strcmp.simps) auto
qed (auto simp: strcmp_def k_strcmp.simps)

lemma str_diff_anti: "str_diff t s = - str_diff s t"
  by (induction s t rule: str_diff.induct) auto

lemma str_diff_less: "0 \<notin> set s \<Longrightarrow> 0 \<notin> set t \<Longrightarrow> str_diff s t < 0 \<longleftrightarrow> s < t"
proof (induction s t rule: str_diff.induct)
  case (2 y ys)
  then have "uint y \<noteq> 0" by (simp add: uint_0_iff)
  then show ?case using uint_lt_0 [of y] by (simp add: order_less_le)
qed (auto simp: word_less_def)

definition entry_name :: "u8 list \<Rightarrow> u8 list" where
  "entry_name x = takeWhile (\<lambda>b. b \<noteq> 0) (take 256 x)"

definition entry_dir :: "u8 list \<Rightarrow> bool" where
  "entry_dir x \<longleftrightarrow> x ! 256 = 4"

definition ls_order :: "u8 list \<Rightarrow> u8 list \<Rightarrow> int" where
  "ls_order x y =
     (if entry_dir x \<noteq> entry_dir y then (if entry_dir x then - 1 else 1) else str_diff (entry_name x) (entry_name y))"

lemma entry_name_nonzero: "0 \<notin> set (entry_name x)"
  by (auto simp: entry_name_def dest: set_takeWhileD)

lemma ls_order_less: "ls_order x y < 0 \<longleftrightarrow>
    entry_dir x \<and> \<not> entry_dir y \<or> entry_dir x = entry_dir y \<and> entry_name x < entry_name y"
  by (auto simp: ls_order_def str_diff_less entry_name_nonzero)

lemma ls_order_anti: "ls_order y x = - ls_order x y"
  by (simp add: ls_order_def str_diff_anti [of "entry_name y"])

lemma ls_order_weak: "weak_order ls_order"
  unfolding weak_order_def
proof (intro conjI allI impI)
  show "0 < ls_order x y \<longleftrightarrow> ls_order y x < 0" for x y by (simp add: ls_order_anti [of y])
  show "ls_order x y < 0 \<or> ls_order y z < 0" if "ls_order x z < 0" for x y z
    using that less_trans [of "entry_name x" "entry_name z" "entry_name y"] le_less_trans [of "entry_name y" "entry_name x" "entry_name z"]
    unfolding ls_order_less by (cases "entry_name x < entry_name y") (auto simp: not_less)
qed

interpretation ls: strict_order "\<lambda>x y. ls_order x y < 0"
  by (rule weak_order_strict [OF ls_order_weak])

lemma cstr_peek:
  "0 \<in> set (peek m p n) \<Longrightarrow> cstr m p (takeWhile (\<lambda>b. b \<noteq> 0) (peek m p n))"
proof (induction n arbitrary: p)
  case (Suc n)
  have "peek m p (Suc n) = m p # peek m (p + 1) n"
    by (simp add: peek_def map_upt_Suc add.assoc del: upt_Suc)
  then show ?case using Suc by (cases "m p = 0") auto
qed (simp add: peek_def)

text \<open>An entry as \<open>handle_ls\<close> stores it: its name ends within its 256 bytes.\<close>

definition named :: "u8 list \<Rightarrow> bool" where
  "named x \<longleftrightarrow> 0 \<in> set (take 256 x)"

lemma ls_entry_compares: "compares SIZEOF_LS_ENTRY ls_entry_cmp ls_order named"
  unfolding compares_def
proof (intro allI impI, elim conjE)
  fix m :: mem and p q :: u32
  let ?x = "peek m p (unat SIZEOF_LS_ENTRY)" and ?y = "peek m q (unat SIZEOF_LS_ENTRY)"
  assume n: "named ?x" "named ?y"
  have t: "take 256 (peek m r (unat SIZEOF_LS_ENTRY)) = peek m r 256" for r by (simp add: take_peek)
  have "cstr m p (entry_name ?x)" "cstr m q (entry_name ?y)"
    using n cstr_peek unfolding named_def entry_name_def t by auto
  from strcmp_diff [OF this] show "ls_entry_cmp m p q = Some (ls_order ?x ?y)"
    by (simp add: ls_entry_cmp_def ls_order_def entry_dir_def Let_def)
qed

text \<open>C16. \<open>ls\<close> sorts its table: a permutation of the entries, all directories before all files, each group in
  ascending order of the names, nothing changed outside the table.\<close>

theorem ls_sorted:
  assumes "array_fits entries SIZEOF_LS_ENTRY (unat n)"
    and "\<forall>x\<in>set (elements m entries SIZEOF_LS_ENTRY (unat n)). named x"
  shows "\<exists>m'. qsort entries n SIZEOF_LS_ENTRY ls_entry_cmp m = Some m' \<and>
    outside entries SIZEOF_LS_ENTRY (unat n) m m' \<and>
    mset (elements m' entries SIZEOF_LS_ENTRY (unat n)) = mset (elements m entries SIZEOF_LS_ENTRY (unat n)) \<and>
    sorted_wrt (\<lambda>x y. (entry_dir y \<longrightarrow> entry_dir x) \<and> (entry_dir x = entry_dir y \<longrightarrow> entry_name x \<le> entry_name y))
      (elements m' entries SIZEOF_LS_ENTRY (unat n))"
proof -
  have le: "(\<lambda>x y. ls_order x y \<le> 0) =
      (\<lambda>x y. (entry_dir y \<longrightarrow> entry_dir x) \<and> (entry_dir x = entry_dir y \<longrightarrow> entry_name x \<le> entry_name y))"
  proof (intro ext)
    fix x y
    have "ls_order x y \<le> 0 \<longleftrightarrow> \<not> ls_order y x < 0" by (simp add: ls_order_anti [of y] not_less)
    then show "ls_order x y \<le> 0 \<longleftrightarrow>
        (entry_dir y \<longrightarrow> entry_dir x) \<and> (entry_dir x = entry_dir y \<longrightarrow> entry_name x \<le> entry_name y)"
      unfolding ls_order_less by auto
  qed
  show ?thesis using qsort_spec [OF assms(1) ls_entry_compares assms(2) ls_order_weak] unfolding le .
qed

text \<open>A file \<open>a\<close> and a directory \<open>b\<close>.\<close>

definition ls_demo :: mem where
  "ls_demo = (\<lambda>_. 0)(0x1000 := 0x61, 0x1100 := 8, 0x1101 := 0x62, 0x1201 := 4)"

lemma ls_sorted_witness:
  "\<exists>m'. qsort 0x1000 2 SIZEOF_LS_ENTRY ls_entry_cmp ls_demo = Some m' \<and>
     entry_dir (elements m' 0x1000 SIZEOF_LS_ENTRY 2 ! 0)"
proof -
  let ?xs = "elements ls_demo 0x1000 SIZEOF_LS_ENTRY 2"
  have f: "array_fits 0x1000 SIZEOF_LS_ENTRY (unat (2 :: u32))" by (simp add: array_fits_def)
  have x: "?xs = [peek ls_demo 0x1000 257, peek ls_demo 0x1101 257]" by (simp add: elements_def element_def upt_rec)
  have "peek ls_demo 0x1000 257 ! 1 = 0" "peek ls_demo 0x1101 257 ! 1 = 0" by (simp_all add: ls_demo_def)
  then have n: "named (peek ls_demo 0x1000 257)" "named (peek ls_demo 0x1101 257)"
    unfolding named_def by (auto simp: in_set_conv_nth intro!: exI [of _ 1])
  have d: "entry_dir (peek ls_demo 0x1101 257)" by (simp add: entry_dir_def ls_demo_def)
  obtain m' where q: "qsort 0x1000 2 SIZEOF_LS_ENTRY ls_entry_cmp ls_demo = Some m'"
    "mset (elements m' 0x1000 SIZEOF_LS_ENTRY 2) = mset ?xs"
    "sorted_wrt (\<lambda>x y. (entry_dir y \<longrightarrow> entry_dir x) \<and> (entry_dir x = entry_dir y \<longrightarrow> entry_name x \<le> entry_name y))
       (elements m' 0x1000 SIZEOF_LS_ENTRY 2)"
    using ls_sorted [OF f, of ls_demo] n x by auto
  have "length (elements m' 0x1000 SIZEOF_LS_ENTRY 2) = Suc (Suc 0)" by simp
  then obtain a b where ab: "elements m' 0x1000 SIZEOF_LS_ENTRY 2 = [a, b]"
    by (simp only: length_Suc_conv length_0_conv) blast
  have "set [a, b] = set ?xs" using q(2) unfolding ab by (rule mset_eq_setD)
  then have "peek ls_demo 0x1101 257 \<in> {a, b}" unfolding x by auto
  then have "entry_dir a \<or> entry_dir b" using d by auto
  then have "entry_dir (elements m' 0x1000 SIZEOF_LS_ENTRY 2 ! 0)" using q(3) unfolding ab by auto
  then show ?thesis using q(1) by blast
qed

section \<open>Words of a command line\<close>

abbreviation (input) MAX_ARGS :: nat where "MAX_ARGS \<equiv> 16"
abbreviation (input) MAX_ARG_LEN :: nat where "MAX_ARG_LEN \<equiv> 64"

text \<open>The arguments as strings; \<open>argc\<close> is how many there are already.\<close>

function parse_args :: "nat \<Rightarrow> u8 list \<Rightarrow> u8 list list" where
  "parse_args argc ptr =
     (if ptr = [] \<or> argc \<ge> MAX_ARGS then []
      else let ptr = dropWhile (\<lambda>c. c = 0x20) ptr
           in if ptr = [] then []
              else let arg = take (MAX_ARG_LEN - 1) (takeWhile (\<lambda>c. c \<noteq> 0x20) ptr)
                   in arg # parse_args (argc + 1) (drop (length arg) ptr))"
  by pat_completeness auto
termination by (relation "measure (\<lambda>(argc, ptr). MAX_ARGS - argc)") auto

declare parse_args.simps [simp del]

text \<open>At most 16 arguments, each fitting its 64 bytes with the NUL, none empty and none with a blank.\<close>

lemma parse_args_bounds:
  "length (parse_args argc ptr) \<le> MAX_ARGS - argc \<and>
   (\<forall>a\<in>set (parse_args argc ptr). a \<noteq> [] \<and> length a < MAX_ARG_LEN \<and> 0x20 \<notin> set a)"
proof (induction argc ptr rule: parse_args.induct)
  case (1 argc ptr)
  let ?p = "dropWhile (\<lambda>c. c = 0x20) ptr"
  show ?case
  proof (cases "ptr = [] \<or> argc \<ge> MAX_ARGS \<or> ?p = []")
    case True
    then show ?thesis by (subst (1 2) parse_args.simps) (auto simp: Let_def)
  next
    case False
    let ?a = "take (MAX_ARG_LEN - 1) (takeWhile (\<lambda>c. c \<noteq> 0x20) ?p)"
    have e: "parse_args argc ptr = ?a # parse_args (argc + 1) (drop (length ?a) ?p)"
      using False by (subst parse_args.simps) (simp add: Let_def)
    have "hd ?p \<noteq> 0x20" using False hd_dropWhile [of "\<lambda>c. c = 0x20" ptr] by simp
    then have "?a \<noteq> []" using False by (cases ?p) auto
    moreover have "0x20 \<notin> set ?a" by (auto dest: in_set_takeD set_takeWhileD)
    ultimately show ?thesis using 1 [of ?p ?a] False unfolding e by auto
  qed
qed

lemma parse_args_words:
  assumes "\<forall>w\<in>set ws. w \<noteq> [] \<and> length w < MAX_ARG_LEN \<and> 0x20 \<notin> set w"
  shows "argc + length ws \<le> MAX_ARGS \<Longrightarrow> parse_args argc (concat (map (\<lambda>w. 0x20 # w) ws)) = ws"
  using assms
proof (induction ws arbitrary: argc)
  case (Cons w ws)
  let ?r = "concat (map (\<lambda>w. 0x20 # w) ws)"
  have w: "w \<noteq> []" "length w < MAX_ARG_LEN" "0x20 \<notin> set w" using Cons.prems(2) by auto
  have d: "dropWhile (\<lambda>c. c = 0x20) (0x20 # w @ ?r) = w @ ?r" using w by (cases w) auto
  have "takeWhile (\<lambda>c. c \<noteq> 0x20) (w @ ?r) = w"
  proof -
    have n: "\<And>c. c \<in> set w \<Longrightarrow> c \<noteq> 0x20" using w(3) by blast
    show ?thesis by (cases ws) (simp_all add: n takeWhile_append2)
  qed
  then show ?case using Cons w d by (subst parse_args.simps) (simp add: Let_def)
qed (simp add: parse_args.simps)

section \<open>Printing\<close>

record shell_frame =
  a_stdout :: u32
  a_stderr :: u32
  a_printf :: u32
  a_tv :: u32
  a_info :: u32
  a_uname :: u32
  a_winsize :: u32
  a_stat :: u32
  a_dirent :: u32
  a_entries :: u32
  a_single :: u32
  a_cat :: u32
  a_newline :: u32
  a_root :: u32
  a_args :: u32
  a_argv :: u32
  a_status :: u32

definition ansi :: "string \<Rightarrow> u8 list" where
  "ansi s = 0x1B # bytes_of s"

abbreviation ANSI_RESET :: "u8 list" where "ANSI_RESET \<equiv> ansi ''[0m''"
abbreviation ANSI_BOLD :: "u8 list" where "ANSI_BOLD \<equiv> ansi ''[1m''"
abbreviation ANSI_RED :: "u8 list" where "ANSI_RED \<equiv> ansi ''[31m''"
abbreviation ANSI_GREEN :: "u8 list" where "ANSI_GREEN \<equiv> ansi ''[32m''"
abbreviation ANSI_YELLOW :: "u8 list" where "ANSI_YELLOW \<equiv> ansi ''[33m''"
abbreviation ANSI_BLUE :: "u8 list" where "ANSI_BLUE \<equiv> ansi ''[34m''"
abbreviation ANSI_CYAN :: "u8 list" where "ANSI_CYAN \<equiv> ansi ''[36m''"
abbreviation ANSI_WHITE :: "u8 list" where "ANSI_WHITE \<equiv> ansi ''[37m''"

definition printf :: "shell_frame \<Rightarrow> u8 list \<Rightarrow> va list \<Rightarrow> uproc \<Rightarrow> uproc option" where
  "printf x fmt args u = map_option snd (vfprintf (a_printf x) (a_stdout x) fmt args u)"

definition eprintf :: "shell_frame \<Rightarrow> u8 list \<Rightarrow> va list \<Rightarrow> uproc \<Rightarrow> uproc option" where
  "eprintf x fmt args u = map_option snd (vfprintf (a_printf x) (a_stderr x) fmt args u)"

text \<open>The string at an address, \<open>None\<close> when it never ends.\<close>

definition string_at :: "mem \<Rightarrow> u32 \<Rightarrow> u8 list option" where
  "string_at m p = map_option (\<lambda>n. peek m p (unat n)) (strlen m p)"

definition error_text :: "uproc \<Rightarrow> va" where
  "error_text u = VStr (Some (bytes_of (strerror (u_errno u))))"

abbreviation arg :: "shell_frame \<Rightarrow> nat \<Rightarrow> u32" where
  "arg x i \<equiv> a_args x + 64 * of_nat i"

text \<open>\<open>for (i = 1; i < argc; i++)\<close> over the arguments.\<close>

primrec for_args :: "(u32 \<Rightarrow> uproc \<Rightarrow> uproc option) \<Rightarrow> shell_frame \<Rightarrow> nat \<Rightarrow> nat \<Rightarrow> uproc \<Rightarrow> uproc option" where
  "for_args f x i 0 u = Some u"
| "for_args f x i (Suc n) u = do { u \<leftarrow> f (arg x i) u; for_args f x (i + 1) n u }"

section \<open>Reports\<close>

definition handle_clear :: "shell_frame \<Rightarrow> uproc \<Rightarrow> uproc option" where
  "handle_clear x u = do {
     u \<leftarrow> printf x (ansi ''[2J'' @ ansi ''[H'') [] u;
     (_, u) \<leftarrow> fflush (a_stdout x) u;
     Some u }"

definition handle_uptime :: "shell_frame \<Rightarrow> uproc \<Rightarrow> uproc option" where
  "handle_uptime x u = do {
     (_, u) \<leftarrow> gettimeofday (a_tv x) u;
     let total_seconds = word_at (umem u) (a_tv x);
     printf x (ANSI_CYAN @ ANSI_BOLD @ bytes_of ''System Uptime: '' @ ANSI_RESET @
         bytes_of ''%u hours, %u minutes, %u seconds'' @ [0x0A])
       [VInt (total_seconds div 3600), VInt ((total_seconds mod 3600) div 60), VInt (total_seconds mod 60)] u }"

definition sysinfo_print_uptime :: "u32 \<Rightarrow> u8 list \<times> va list" where
  "sysinfo_print_uptime total_seconds =
     (let days = total_seconds div 86400; hours = (total_seconds mod 86400) div 3600;
          minutes = (total_seconds mod 3600) div 60; seconds = total_seconds mod 60
      in if days > 0 then (bytes_of ''%ud %uh %um %us'', [VInt days, VInt hours, VInt minutes, VInt seconds])
         else if hours > 0 then (bytes_of ''%uh %um %us'', [VInt hours, VInt minutes, VInt seconds])
         else if minutes > 0 then (bytes_of ''%um %us'', [VInt minutes, VInt seconds])
         else (bytes_of ''%us'', [VInt seconds]))"

definition sysinfo_print_ram :: "u32 \<Rightarrow> u8 list \<times> va list" where
  "sysinfo_print_ram bytes =
     (let kb = bytes div 1024; mb = bytes div (1024 * 1024)
      in if mb \<ge> 1024 then (bytes_of ''%u.%u GB'', [VInt (mb div 1024), VInt ((mb mod 1024) * 10 div 1024)])
         else if mb \<ge> 1 then
           (bytes_of ''%u.%u MB'', [VInt mb, VInt ((bytes mod (1024 * 1024)) * 10 div (1024 * 1024))])
         else (bytes_of ''%u KB'', [VInt kb]))"

text \<open>The pieces of the bar, one \<open>printf\<close> each.\<close>

definition sysinfo_print_bar :: "u32 \<Rightarrow> (u8 list \<times> va list) list" where
  "sysinfo_print_bar used_percent =
     (let filled = sint (used_percent * 30 div 100);
          colour = (if used_percent \<ge> 90 then ANSI_RED else if used_percent \<ge> 70 then ANSI_YELLOW else ANSI_GREEN)
      in [(bytes_of ''['', [])] @
         map (\<lambda>i. if int i < filled then (colour @ bytes_of ''#'' @ ANSI_RESET, [])
                  else (ANSI_WHITE @ bytes_of ''-'' @ ANSI_RESET, [])) [0..<30] @
         [(bytes_of ''] %u%%'', [VInt used_percent])])"

text \<open>The numbers of the report, from the words of \<open>sysinfo_t\<close>.\<close>

definition used_bytes :: "u32 \<Rightarrow> u32 \<Rightarrow> u32" where
  "used_bytes tot avail = (if tot > avail then tot - avail else 0)"

definition used_percent :: "u32 \<Rightarrow> u32 \<Rightarrow> u32" where
  "used_percent tot avail = (if tot > 0 then used_bytes tot avail * 100 div tot else 0)"

text \<open>The product wraps once more than 40 MB are in use: 50 of 100 MB are reported as 9 per cent.\<close>

lemma used_percent_wraps: "used_percent 104857600 52428800 = 9"
  by (simp add: used_percent_def used_bytes_def)

lemma used_percent_exact:
  assumes "unat (used_bytes tot avail) \<le> 42949672" and "0 < tot"
  shows "unat (used_percent tot avail) = unat (used_bytes tot avail) * 100 div unat tot"
  using assms by (simp add: used_percent_def unat_div unat_word_ariths)

primrec print_all :: "shell_frame \<Rightarrow> (u8 list \<times> va list) list \<Rightarrow> uproc \<Rightarrow> uproc option" where
  "print_all x [] u = Some u"
| "print_all x (p # ps) u = do { u \<leftarrow> printf x (fst p) (snd p) u; print_all x ps u }"

definition handle_sysinfo :: "shell_frame \<Rightarrow> uproc \<Rightarrow> uproc option" where
  "handle_sysinfo x u = do {
     (_, u) \<leftarrow> sysinfo (a_info x) u;
     (_, u) \<leftarrow> uname (a_uname x) u;
     let w = (\<lambda>off. word_at (umem u) (a_info x + off));
     let unit = (if w 40 > 0 then w 40 else 1);
     let total_bytes = w 4 * unit;
     let free_bytes = w 8 * unit;
     let used = used_bytes total_bytes free_bytes;
     let percent = used_percent total_bytes free_bytes;
     let uptime = w 0;
     let procs = w 28 AND 0xFFFF;
     sysname \<leftarrow> string_at (umem u) (a_uname x);
     nodename \<leftarrow> string_at (umem u) (a_uname x + 65);
     release \<leftarrow> string_at (umem u) (a_uname x + 130);
     version \<leftarrow> string_at (umem u) (a_uname x + 195);
     mach \<leftarrow> string_at (umem u) (a_uname x + 260);
     let label = (\<lambda>s. bytes_of ''  '' @ ANSI_BOLD @ bytes_of s @ ANSI_RESET);
     let heading = (\<lambda>s. (ANSI_YELLOW @ bytes_of s @ ANSI_RESET @ [0x0A], []));
     let newline = ([0x0A], []);
     u \<leftarrow> print_all x [
         (ANSI_CYAN @ ANSI_BOLD @ bytes_of ''=== Enclave OS '' @ [0xE2, 0x80, 0x94] @ bytes_of '' System Information ==='' @
            ANSI_RESET @ [0x0A, 0x0A], []),
         heading ''  [ Operating System ]'',
         (label ''OS:           '' @ bytes_of ''%s %s'' @ [0x0A], [VStr (Some sysname), VStr (Some release)]),
         (label ''Version:      '' @ bytes_of ''%s'' @ [0x0A], [VStr (Some version)]),
         (label ''Machine:      '' @ bytes_of ''%s'' @ [0x0A], [VStr (Some mach)]),
         (label ''Hostname:     '' @ bytes_of ''%s'' @ [0x0A], [VStr (Some nodename)]),
         newline,
         heading ''  [ Uptime ]'',
         (label ''Up:           '', []),
         sysinfo_print_uptime uptime,
         ([0x0A, 0x0A], []),
         heading ''  [ Memory ]'',
         (label ''Total:        '', []),
         sysinfo_print_ram total_bytes,
         newline,
         (label ''Free:         '', []),
         sysinfo_print_ram free_bytes,
         newline,
         (label ''Used:         '', []),
         sysinfo_print_ram used,
         (bytes_of '' (%u%%)'' @ [0x0A], [VInt percent]),
         (label ''Usage:        '', [])] u;
     u \<leftarrow> print_all x (sysinfo_print_bar percent) u;
     u \<leftarrow> print_all x [([0x0A, 0x0A], []), heading ''  [ Processes ]'',
         (label ''Total:        '' @ bytes_of ''%u'' @ [0x0A], [VInt procs])] u;
     (pid, u) \<leftarrow> usys_getpid u;
     u \<leftarrow> print_all x [(label ''Shell PID:    '' @ bytes_of ''%d'' @ [0x0A], [VInt (of_int pid)]), newline] u;
     let u = set_umem (store_bytes (a_winsize x) (bytes16 0 @ bytes16 0) (umem u)) u;
     (ret, u) \<leftarrow> ioctl 1 TIOCGWINSZ (a_winsize x) u;
     let ws_row = word_at (umem u) (a_winsize x) AND 0xFFFF;
     let ws_col = word_at (umem u) (a_winsize x + 2) AND 0xFFFF;
     if ret = 0 \<and> ws_col > 0 \<and> ws_row > 0 then
       print_all x [heading ''  [ Terminal ]'',
         (label ''Size:         '' @ bytes_of ''%u columns x %u rows'' @ [0x0A], [VInt ws_col, VInt ws_row]), newline] u
     else Some u }"

section \<open>Listing a directory\<close>

abbreviation (input) LS_MAX_ENTRIES :: u32 where "LS_MAX_ENTRIES \<equiv> 1024"

definition is_elf_name :: "u8 list \<Rightarrow> bool" where
  "is_elf_name name \<longleftrightarrow> length name > 4 \<and> drop (length name - 4) name = bytes_of ''.elf''"

definition ls_is_elf_name :: "mem \<Rightarrow> u32 \<Rightarrow> bool option" where
  "ls_is_elf_name m name = do {
     len \<leftarrow> strlen m name;
     if len > 4 then map_option is_elf_name (string_at m name) else Some False }"

definition ls_visible_len :: "mem \<Rightarrow> u32 \<Rightarrow> int option" where
  "ls_visible_len m e =
     map_option (\<lambda>len. sint len + (if m (e + LS_NAME_MAX) = DT_DIR then 1 else 0)) (strlen m e)"

definition ls_get_terminal_width :: "shell_frame \<Rightarrow> uproc \<Rightarrow> (int \<times> uproc) option" where
  "ls_get_terminal_width x u = do {
     let u = set_umem (store_bytes (a_winsize x) (replicate 8 0) (umem u)) u;
     (ret, u) \<leftarrow> ioctl 1 TIOCGWINSZ (a_winsize x) u;
     let ws_col = word_at (umem u) (a_winsize x + 2) AND 0xFFFF;
     Some (if ret = 0 \<and> ws_col > 0 then uint ws_col else 80, u) }"

primrec print_spaces :: "shell_frame \<Rightarrow> nat \<Rightarrow> uproc \<Rightarrow> uproc option" where
  "print_spaces x 0 u = Some u"
| "print_spaces x (Suc n) u = do { u \<leftarrow> printf x [0x20] [] u; print_spaces x n u }"

definition ls_print_spaces :: "shell_frame \<Rightarrow> int \<Rightarrow> uproc \<Rightarrow> uproc option" where
  "ls_print_spaces x n u = print_spaces x (nat n) u"

definition ls_print_entry :: "shell_frame \<Rightarrow> u32 \<Rightarrow> uproc \<Rightarrow> uproc option" where
  "ls_print_entry x e u = do {
     name \<leftarrow> string_at (umem u) e;
     elf \<leftarrow> ls_is_elf_name (umem u) e;
     if umem u (e + LS_NAME_MAX) = DT_DIR then
       printf x (ANSI_BLUE @ ANSI_BOLD @ bytes_of ''%s/'' @ ANSI_RESET) [VStr (Some name)] u
     else if elf then printf x (ANSI_GREEN @ ANSI_BOLD @ bytes_of ''%s'' @ ANSI_RESET) [VStr (Some name)] u
     else printf x (ANSI_WHITE @ bytes_of ''%s'' @ ANSI_RESET) [VStr (Some name)] u }"

text \<open>The loop over \<open>sys_readdir\<close>: \<open>count\<close> entries stored, whether the table was too small. The name of a \<open>dirent_t\<close>
  stands at offset 8, its type at offset 4.\<close>

partial_function (option) read_entries :: "shell_frame \<Rightarrow> u32 \<Rightarrow> u32 \<Rightarrow> u32 \<Rightarrow> uproc \<Rightarrow> (u32 \<times> bool \<times> uproc) option" where
  "read_entries x fd num index u =
     (if num \<ge> LS_MAX_ENTRIES then Some (num, True, u)
      else do {
        (res, u) \<leftarrow> usys_readdir fd index (a_dirent x) u;
        if res \<noteq> 0 then Some (num, False, u)
        else do {
          let name = a_dirent x + 8;
          text \<leftarrow> string_at (umem u) name;
          if text \<in> {[], [0x2E], [0x2E, 0x2E]} then read_entries x fd num (index + 1) u
          else do {
            let e = a_entries x + num * SIZEOF_LS_ENTRY;
            let m = strncpy (umem u) e name (LS_NAME_MAX - 1);
            let m = m(e + (LS_NAME_MAX - 1) := 0);
            let m = m(e + LS_NAME_MAX := m (a_dirent x + 4));
            read_entries x fd (num + 1) (index + 1) (set_umem m u) } } })"

primrec max_visible :: "mem \<Rightarrow> u32 \<Rightarrow> nat \<Rightarrow> int option" where
  "max_visible m entries 0 = Some 0"
| "max_visible m entries (Suc n) = do {
     best \<leftarrow> max_visible m entries n;
     len \<leftarrow> ls_visible_len m (element entries SIZEOF_LS_ENTRY n);
     Some (if len > best then len else best) }"

text \<open>The columns of the table; C division of positive numbers.\<close>

definition ls_columns :: "int \<Rightarrow> int \<Rightarrow> int \<Rightarrow> int \<times> int" where
  "ls_columns term_width max_len num =
     (let col_width = max_len + 2;
          col_width = (if col_width < 1 then 1 else col_width);
          cols = term_width div col_width;
          cols = (if cols < 1 then 1 else cols);
          cols = (if cols > num then num else cols)
      in (col_width, cols))"

text \<open>Every row of the table fits the terminal whenever a single column does.\<close>

lemma ls_columns_fit:
  assumes "ls_columns w l n = (cw, cols)" and "0 \<le> l" and "l + 2 \<le> w"
  shows "cols * cw \<le> w"
proof -
  have "(w div (l + 2)) * (l + 2) \<le> w" 
    using pos_mod_sign [of "l + 2" w] assms(2) by (simp add: minus_mod_eq_div_mult [symmetric])
  moreover have c: "cw = l + 2" "cols \<le> w div (l + 2)"
    using assms zdiv_mono1 [of "l + 2" w "l + 2"] by (auto simp: ls_columns_def Let_def split: if_splits)
  moreover have "cols * (l + 2) \<le> (w div (l + 2)) * (l + 2)"
    using c(2) assms(2) by (intro mult_right_mono) auto
  ultimately show ?thesis by simp
qed

primrec print_table :: "shell_frame \<Rightarrow> int \<Rightarrow> int \<Rightarrow> int \<Rightarrow> nat \<Rightarrow> uproc \<Rightarrow> uproc option" where
  "print_table x col_width cols i 0 u = Some u"
| "print_table x col_width cols i (Suc n) u = do {
     let e = element (a_entries x) SIZEOF_LS_ENTRY (nat i);
     u \<leftarrow> ls_print_entry x e u;
     u \<leftarrow> (if (i + 1) mod cols \<noteq> 0 then do {
              len \<leftarrow> ls_visible_len (umem u) e;
              let pad = col_width - len;
              ls_print_spaces x (if pad < 2 then 2 else pad) u }
           else printf x [0x0A] [] u);
     print_table x col_width cols (i + 1) n u }"

text \<open>A path to a file: its last component.\<close>

definition base_name :: "shell_frame \<Rightarrow> mem \<Rightarrow> u32 \<Rightarrow> u32 option" where
  "base_name x m path = do {
     base \<leftarrow> strrchr m path 0x2F;
     Some (if base = 0 then path else if m (base + 1) \<noteq> 0 then base + 1 else a_root x) }"

definition is_directory :: "shell_frame \<Rightarrow> uproc \<Rightarrow> bool" where
  "is_directory x u \<longleftrightarrow> word_at (umem u) (a_stat x + 8) AND 0xF000 = 0x4000"

definition handle_ls :: "shell_frame \<Rightarrow> nat \<Rightarrow> uproc \<Rightarrow> uproc option" where
  "handle_ls x argc u = do {
     let path = (if argc > 1 then arg x 1 else a_root x);
     (fd, u) \<leftarrow> open_call path 0 0 u;
     if fd < 0 then do {
       text \<leftarrow> string_at (umem u) path;
       eprintf x (ANSI_RED @ bytes_of ''ls: cannot access '' @ [0x27] @ bytes_of ''%s'' @ [0x27] @ bytes_of '': %s'' @
           ANSI_RESET @ [0x0A]) [VStr (Some text), error_text u] u }
     else do {
       (st, u) \<leftarrow> fstat (of_int fd) (a_stat x) u;
       if st = 0 \<and> \<not> is_directory x u then do {
         base \<leftarrow> base_name x (umem u) path;
         let m = strncpy (umem u) (a_single x) base (LS_NAME_MAX - 1);
         let m = m(a_single x + (LS_NAME_MAX - 1) := 0, a_single x + LS_NAME_MAX := DT_REG);
         u \<leftarrow> ls_print_entry x (a_single x) (set_umem m u);
         u \<leftarrow> printf x [0x0A] [] u;
         (_, u) \<leftarrow> close_call (of_int fd) u;
         map_option snd (fflush (a_stdout x) u) }
       else do {
         (num, truncated, u) \<leftarrow> read_entries x (of_int fd) 0 0 u;
         (_, u) \<leftarrow> close_call (of_int fd) u;
         if num = 0 then Some u
         else do {
           m \<leftarrow> qsort (a_entries x) num SIZEOF_LS_ENTRY ls_entry_cmp (umem u);
           (term_width, u) \<leftarrow> ls_get_terminal_width x (set_umem m u);
           max_len \<leftarrow> max_visible (umem u) (a_entries x) (unat num);
           let (col_width, cols) = ls_columns term_width max_len (uint num);
           u \<leftarrow> print_table x col_width cols 0 (unat num) u;
           u \<leftarrow> (if uint num mod cols \<noteq> 0 then printf x [0x0A] [] u else Some u);
           u \<leftarrow> (if truncated then
                    eprintf x (ANSI_YELLOW @ bytes_of ''ls: warning: too many entries, truncated to %d'' @ ANSI_RESET @ [0x0A])
                      [VInt LS_MAX_ENTRIES] u
                  else Some u);
           map_option snd (fflush (a_stdout x) u) } } } }"

section \<open>Files\<close>

text \<open>The read loop of \<open>cat\<close>: the last result of \<open>read\<close> and the last byte printed.\<close>

partial_function (option) cat_loop :: "shell_frame \<Rightarrow> u32 \<Rightarrow> u8 \<Rightarrow> uproc \<Rightarrow> (int \<times> u8 \<times> uproc) option" where
  "cat_loop x fd last_char u = do {
     (bytes_read, u) \<leftarrow> read_call fd (a_cat x) 4096 u;
     if bytes_read > 0 then do {
       (_, u) \<leftarrow> write_call 1 (a_cat x) (of_int bytes_read) u;
       cat_loop x fd (umem u (a_cat x + of_int (bytes_read - 1))) u }
     else Some (bytes_read, last_char, u) }"

definition cat_file :: "shell_frame \<Rightarrow> u32 \<Rightarrow> uproc \<Rightarrow> uproc option" where
  "cat_file x path u = do {
     name \<leftarrow> string_at (umem u) path;
     (fd, u) \<leftarrow> open_call path 0 0 u;
     if fd < 0 then eprintf x (ANSI_RED @ bytes_of ''cat: %s: %s'' @ ANSI_RESET @ [0x0A]) [VStr (Some name), error_text u] u
     else do {
       (st, u) \<leftarrow> fstat (of_int fd) (a_stat x) u;
       if st = 0 \<and> is_directory x u then do {
         u \<leftarrow> eprintf x (ANSI_RED @ bytes_of ''cat: %s: Is a directory'' @ ANSI_RESET @ [0x0A]) [VStr (Some name)] u;
         map_option snd (close_call (of_int fd) u) }
       else do {
         (bytes_read, last_char, u) \<leftarrow> cat_loop x (of_int fd) 0 u;
         u \<leftarrow> (if bytes_read < 0 then
                  eprintf x (ANSI_RED @ bytes_of ''cat: %s: read error: %s'' @ ANSI_RESET @ [0x0A])
                    [VStr (Some name), error_text u] u
                else Some u);
         u \<leftarrow> (if last_char \<noteq> 0x0A \<and> last_char \<noteq> 0 then map_option snd (write_call 1 (a_newline x) 1 u) else Some u);
         map_option snd (close_call (of_int fd) u) } } }"

definition handle_cat :: "shell_frame \<Rightarrow> nat \<Rightarrow> uproc \<Rightarrow> uproc option" where
  "handle_cat x argc u =
     (if argc < 2 then eprintf x (ANSI_RED @ bytes_of ''Usage: cat <file> [file2 ...]'' @ ANSI_RESET @ [0x0A]) [] u
      else do {
        u \<leftarrow> for_args (cat_file x) x 1 (argc - 1) u;
        map_option snd (fflush (a_stdout x) u) })"

definition handle_mkdir :: "shell_frame \<Rightarrow> nat \<Rightarrow> uproc \<Rightarrow> uproc option" where
  "handle_mkdir x argc u =
     (if argc < 2 then eprintf x (ANSI_RED @ bytes_of ''Usage: mkdir <path> [path2 ...]'' @ ANSI_RESET @ [0x0A]) [] u
      else for_args (\<lambda>path u. do {
        name \<leftarrow> string_at (umem u) path;
        (ret, u) \<leftarrow> mkdir_call path 0x1ED u;
        if ret < 0 then
          eprintf x (ANSI_RED @ bytes_of ''mkdir: cannot create directory '' @ [0x27] @ bytes_of ''%s'' @ [0x27] @
              bytes_of '': %s'' @ ANSI_RESET @ [0x0A]) [VStr (Some name), error_text u] u
        else Some u }) x 1 (argc - 1) u)"

definition handle_rm :: "shell_frame \<Rightarrow> nat \<Rightarrow> uproc \<Rightarrow> uproc option" where
  "handle_rm x argc u =
     (if argc < 2 then eprintf x (ANSI_RED @ bytes_of ''Usage: rm <path> [path2 ...]'' @ ANSI_RESET @ [0x0A]) [] u
      else for_args (\<lambda>path u. do {
        name \<leftarrow> string_at (umem u) path;
        (ret, u) \<leftarrow> unlink path u;
        if ret < 0 then
          eprintf x (ANSI_RED @ bytes_of ''rm: cannot remove '' @ [0x27] @ bytes_of ''%s'' @ [0x27] @ bytes_of '': %s'' @
              ANSI_RESET @ [0x0A]) [VStr (Some name), error_text u] u
        else Some u }) x 1 (argc - 1) u)"

section \<open>Running programs\<close>

text \<open>The process calls. \<open>syscall3\<close> is \<open>None\<close> when the caller has to wait; a successful \<open>exec\<close> replaces the caller, so
  only a failed one comes back.\<close>

definition fork :: "uproc \<Rightarrow> (int \<times> uproc) option" where
  "fork u = errno_result (syscall3 2 0 0 0 u)"

definition waitpid :: "u32 \<Rightarrow> u32 \<Rightarrow> u32 \<Rightarrow> uproc \<Rightarrow> (int \<times> uproc) option" where
  "waitpid pid status options u = errno_result (syscall3 7 pid status options u)"

definition exec :: "u32 \<Rightarrow> u32 \<Rightarrow> uproc \<Rightarrow> (int \<times> uproc) option" where
  "exec path argv u =
     (case syscall3 11 path argv 0 u of Some (ret, u) \<Rightarrow> if ret < 0 then errno_result (Some (ret, u)) else None | None \<Rightarrow> None)"

text \<open>\<open>exit\<close> of the library with no handlers registered, as in the shell.\<close>

definition exit_call :: "shell_frame \<Rightarrow> u32 \<Rightarrow> uproc \<Rightarrow> uproc option" where
  "exit_call x status u = do {
     (_, u) \<leftarrow> fflush (a_stdout x) u;
     (_, u) \<leftarrow> fflush (a_stderr x) u;
     map_option snd (syscall3 1 status 0 0 u) }"

definition handle_run :: "shell_frame \<Rightarrow> nat \<Rightarrow> uproc \<Rightarrow> uproc option" where
  "handle_run x argc u =
     (if argc < 2 then eprintf x (ANSI_RED @ bytes_of ''Usage: run <path/to/file.elf> [args...]'' @ ANSI_RESET @ [0x0A]) [] u
      else do {
        prog \<leftarrow> string_at (umem u) (arg x 1);
        u \<leftarrow> printf x (ANSI_CYAN @ bytes_of ''Executing %s...'' @ ANSI_RESET @ [0x0A]) [VStr (Some prog)] u;
        let argv = concat (map (\<lambda>i. bytes32 (arg x (i + 1))) [0..<argc - 1]) @ bytes32 0;
        (pid, u) \<leftarrow> fork (set_umem (store_bytes (a_argv x) argv (umem u)) u);
        if pid < 0 then eprintf x (ANSI_RED @ bytes_of ''fork() failed: %s'' @ ANSI_RESET @ [0x0A]) [error_text u] u
        else if pid = 0 then do {
          (_, u) \<leftarrow> exec (arg x 1) (a_argv x) u;
          u \<leftarrow> eprintf x (ANSI_RED @ bytes_of ''exec(%s) failed: %s'' @ ANSI_RESET @ [0x0A]) [VStr (Some prog), error_text u] u;
          exit_call x 127 u }
        else do {
          (_, u) \<leftarrow> waitpid (of_int pid) (a_status x) 0 u;
          let status = word_at (umem u) (a_status x);
          if status = 0 then
            printf x (ANSI_GREEN @ bytes_of ''Process exited successfully (code 0)'' @ ANSI_RESET @ [0x0A]) [] u
          else printf x (ANSI_YELLOW @ bytes_of ''Process exited with status %d'' @ ANSI_RESET @ [0x0A]) [VInt status] u } })"

text \<open>\<open>lits\<close> are the addresses of the strings \<open>tcc\<close>, \<open>-o\<close>, \<open>/tmp/a.out\<close> and \<open>/bin/tcc.elf\<close>.\<close>

definition handle_compile :: "shell_frame \<Rightarrow> u32 \<times> u32 \<times> u32 \<times> u32 \<Rightarrow> nat \<Rightarrow> uproc \<Rightarrow> uproc option" where
  "handle_compile x lits argc u =
     (let (tcc, dash_o, a_out, tcc_elf) = lits
      in if argc < 2 then
           eprintf x (ANSI_RED @ bytes_of ''Usage: compile <file.c> [output.elf]'' @ ANSI_RESET @ [0x0A]) [] u
         else do {
           let input_file = arg x 1;
           let output_file = (if argc \<ge> 3 then arg x 2 else a_out);
           inp \<leftarrow> string_at (umem u) input_file;
           out \<leftarrow> string_at (umem u) output_file;
           u \<leftarrow> printf x (ANSI_CYAN @ bytes_of ''Compiling %s -> %s using TinyCC...'' @ ANSI_RESET @ [0x0A])
                  [VStr (Some inp), VStr (Some out)] u;
           (pid, u) \<leftarrow> fork u;
           if pid < 0 then eprintf x (ANSI_RED @ bytes_of ''fork() failed: %s'' @ ANSI_RESET @ [0x0A]) [error_text u] u
           else if pid = 0 then do {
             let argv = concat (map bytes32 [tcc, input_file, dash_o, output_file, 0]);
             (_, u) \<leftarrow> exec tcc_elf (a_argv x) (set_umem (store_bytes (a_argv x) argv (umem u)) u);
             u \<leftarrow> eprintf x (ANSI_RED @ bytes_of ''exec(/bin/tcc.elf) failed: %s'' @ ANSI_RESET @ [0x0A]) [error_text u] u;
             exit_call x 127 u }
           else do {
             (_, u) \<leftarrow> waitpid (of_int pid) (a_status x) 0 u;
             let status = word_at (umem u) (a_status x);
             if status = 0 then
               printf x (ANSI_GREEN @ ANSI_BOLD @ [0xE2, 0x9C, 0x93] @ bytes_of '' Compiled successfully: %s'' @ ANSI_RESET @ [0x0A])
                 [VStr (Some out)] u
             else eprintf x (ANSI_RED @ ANSI_BOLD @ [0xE2, 0x9C, 0x97] @ bytes_of '' Compilation failed (exit code %d)'' @
                 ANSI_RESET @ [0x0A]) [VInt status] u } })"

section \<open>The dispatcher\<close>

datatype command = Help | Clear | Uptime | Sysinfo | Ls | Cat | Mkdir | Rm | Run | Compile | Exit | Unknown

definition command_of :: "u8 list \<Rightarrow> command" where
  "command_of a =
     (if a = bytes_of ''help'' then Help else if a = bytes_of ''clear'' then Clear
      else if a = bytes_of ''uptime'' then Uptime else if a = bytes_of ''sysinfo'' then Sysinfo
      else if a = bytes_of ''ls'' then Ls else if a = bytes_of ''cat'' then Cat
      else if a = bytes_of ''mkdir'' then Mkdir else if a = bytes_of ''rm'' then Rm
      else if a = bytes_of ''run'' then Run else if a = bytes_of ''compile'' then Compile
      else if a = bytes_of ''exit'' then Exit else Unknown)"

text \<open>\<open>parse_args\<close> leaves the words in the rows of \<open>args\<close>; the unused rows start with a NUL.\<close>

primrec store_args :: "shell_frame \<Rightarrow> nat \<Rightarrow> u8 list list \<Rightarrow> mem \<Rightarrow> mem" where
  "store_args x i [] m = m"
| "store_args x i (a # as) m = store_args x (i + 1) as (store_bytes (arg x i) (a @ [0]) m)"

definition print_help :: "shell_frame \<Rightarrow> uproc \<Rightarrow> uproc option" where
  "print_help x u =
     (let line = (\<lambda>c t. (bytes_of ''  '' @ ANSI_BOLD @ bytes_of c @ ANSI_RESET @ bytes_of t @ [0x0A], []))
      in print_all x [
        (ANSI_CYAN @ ANSI_BOLD @ bytes_of ''=== Enclave OS - Available Commands ==='' @ ANSI_RESET @ [0x0A], []),
        (ANSI_YELLOW @ bytes_of ''  [ General ]'' @ ANSI_RESET @ [0x0A], []),
        line ''help'' ''             - Show this help message'',
        line ''clear'' ''            - Clear the screen'',
        line ''uptime'' ''           - Show system uptime'',
        line ''sysinfo'' ''          - Show system statistics'',
        line ''exit'' ''             - Exit shell (Init will respawn it)'',
        line ''run <elf> [args]'' '' - Execute ELF binary with arguments'',
        line ''compile <c> [out]'' ''- Compile C file using TinyCC'',
        (ANSI_YELLOW @ bytes_of ''  [ File System (VFS) ]'' @ ANSI_RESET @ [0x0A], []),
        line ''ls [path]'' ''        - List directory contents'',
        line ''cat <path>'' ''       - Print file contents'',
        line ''mkdir <path>'' ''     - Create directory'',
        line ''rm <path>'' ''        - Remove file'',
        ([0x0A], [])] u)"

definition execute_command :: "shell_frame \<Rightarrow> u32 \<times> u32 \<times> u32 \<times> u32 \<Rightarrow> u8 list \<Rightarrow> uproc \<Rightarrow> uproc option" where
  "execute_command x lits buf u =
     (let args = parse_args 0 buf; argc = length args;
          m = fold (\<lambda>i m. m(arg x i := 0)) [0..<MAX_ARGS] (umem u);
          u = set_umem (store_args x 0 args m) u
      in if argc = 0 then Some u
         else case command_of (hd args) of
           Help \<Rightarrow> print_help x u
         | Clear \<Rightarrow> handle_clear x u
         | Uptime \<Rightarrow> handle_uptime x u
         | Sysinfo \<Rightarrow> handle_sysinfo x u
         | Ls \<Rightarrow> handle_ls x argc u
         | Cat \<Rightarrow> handle_cat x argc u
         | Mkdir \<Rightarrow> handle_mkdir x argc u
         | Rm \<Rightarrow> handle_rm x argc u
         | Run \<Rightarrow> handle_run x argc u
         | Compile \<Rightarrow> handle_compile x lits argc u
         | Exit \<Rightarrow> do {
             u \<leftarrow> printf x (ANSI_YELLOW @ bytes_of ''Exiting... (Init will respawn)'' @ ANSI_RESET @ [0x0A]) [] u;
             exit_call x 0 u }
         | Unknown \<Rightarrow> do {
             u \<leftarrow> eprintf x (ANSI_RED @ bytes_of ''Unknown command: %s'' @ ANSI_RESET @ [0x0A]) [VStr (Some (hd args))] u;
             eprintf x (bytes_of ''Type '' @ [0x27] @ ANSI_YELLOW @ bytes_of ''help'' @ ANSI_RESET @ [0x27] @
               bytes_of '' for available commands.'' @ [0x0A]) [] u })"

end
