(* ===== verification/Readline.thy ===== *)
theory Readline
  imports Vfs_Node
begin

text \<open>
  The line editor of the command interpreter (\<open>user_src/shell_user.c\<close>: \<open>readline\<close>, \<open>redraw_line\<close>, \<open>history_add\<close>). The
  arrays of the source are lists of their length, an access outside one is \<open>None\<close>. \<open>written\<close> collects the bytes given to
  \<open>write(STDOUT_FILENO, ...)\<close>; \<open>readline_step\<close> is the body of the loop for one byte of input. The second part states what
  the editor promises, over an abstract line with a cursor, and that the code implements it.
\<close>

unbundle bit_operations_syntax

abbreviation (input) CMD_BUFFER_SIZE :: nat where "CMD_BUFFER_SIZE \<equiv> 256"
abbreviation (input) HISTORY_SIZE :: nat where "HISTORY_SIZE \<equiv> 32"

datatype read_state = STATE_NORMAL | STATE_ESC | STATE_CSI

text \<open>The static variables of the file and the locals of \<open>readline\<close>; \<open>csi_buf\<close> holds the first \<open>csi_pos\<close> bytes.\<close>

record editor =
  history :: "u8 list list"
  history_count :: nat
  history_view :: nat
  scratch :: "u8 list"
  scratch_len :: nat
  last_drawn_len :: nat
  buffer :: "u8 list"
  cursor :: nat
  buf_len :: nat
  read_state :: read_state
  csi_buf :: "u8 list"
  written :: "u8 list"

section \<open>Strings in arrays\<close>

definition text_of :: "u8 list \<Rightarrow> u8 list" where
  "text_of a = takeWhile (\<lambda>c. c \<noteq> 0) a"

definition array_strlen :: "u8 list \<Rightarrow> nat option" where
  "array_strlen a = (if 0 \<in> set a then Some (length (text_of a)) else None)"

definition array_strcpy :: "u8 list \<Rightarrow> u8 list \<Rightarrow> u8 list option" where
  "array_strcpy dest src =
     (case array_strlen src of None \<Rightarrow> None
      | Some n \<Rightarrow> if n < length dest then Some (take (n + 1) src @ drop (n + 1) dest) else None)"

definition array_memmove :: "nat \<Rightarrow> nat \<Rightarrow> nat \<Rightarrow> u8 list \<Rightarrow> u8 list option" where
  "array_memmove d s n a =
     (if d + n \<le> length a \<and> s + n \<le> length a then Some (take d a @ take n (drop s a) @ drop (d + n) a) else None)"

definition array_store :: "nat \<Rightarrow> u8 \<Rightarrow> u8 list \<Rightarrow> u8 list option" where
  "array_store i c a = (if i < length a then Some (a[i := c]) else None)"

section \<open>History\<close>

text \<open>\<open>for (i = 0; i < HISTORY_SIZE - 1; i++) strcpy(history[i], history[i + 1])\<close>.\<close>

primrec shift_history :: "nat \<Rightarrow> nat \<Rightarrow> u8 list list \<Rightarrow> u8 list list option" where
  "shift_history i 0 h = Some h"
| "shift_history i (Suc n) h =
     (case array_strcpy (h ! i) (h ! (i + 1)) of None \<Rightarrow> None | Some a \<Rightarrow> shift_history (i + 1) n (h[i := a]))"

definition history_add :: "u8 list \<Rightarrow> editor \<Rightarrow> editor option" where
  "history_add line e =
     (if text_of line = [] then Some e
      else if history_count e > 0 \<and> text_of (history e ! (history_count e - 1)) = text_of line then Some e
      else case (if history_count e < HISTORY_SIZE then Some (history e, history_count e, history_count e + 1)
                 else map_option (\<lambda>h. (h, HISTORY_SIZE - 1, history_count e)) (shift_history 0 (HISTORY_SIZE - 1) (history e)))
           of None \<Rightarrow> None
         | Some (h, slot, n) \<Rightarrow>
             (case array_strcpy (h ! slot) line of None \<Rightarrow> None
              | Some a \<Rightarrow> Some (e\<lparr>history := h[slot := a], history_count := n, history_view := n, scratch_len := 0\<rparr>)))"

section \<open>Drawing\<close>

text \<open>\<open>in_escape\<close> is the local flag of the loop.\<close>

fun visible_len :: "bool \<Rightarrow> u8 list \<Rightarrow> nat" where
  "visible_len in_escape [] = 0"
| "visible_len in_escape (c # s) =
     (if in_escape then visible_len (\<not> (0x40 \<le> c \<and> c \<le> 0x7E)) s
      else if c = 0x1B then visible_len True s else Suc (visible_len False s))"

definition ansi_visible_len :: "u8 list \<Rightarrow> nat" where
  "ansi_visible_len s = visible_len False s"

definition redraw_line :: "u8 list \<Rightarrow> editor \<Rightarrow> editor option" where
  "redraw_line prompt e =
     (case array_strlen (buffer e) of None \<Rightarrow> None
      | Some len \<Rightarrow>
          let current_visible = ansi_visible_len prompt + len;
              spaces = last_drawn_len e - current_visible;
              spaces = (if current_visible + spaces > 200 then 200 - current_visible else spaces);
              out = [0x0D] @ prompt @ text_of (buffer e) @
                (if current_visible < last_drawn_len e then replicate spaces 0x20 else []) @
                (if cursor e < len then [0x0D] @ prompt @ take (cursor e) (buffer e) else [])
          in Some (e\<lparr>last_drawn_len := current_visible, written := written e @ out\<rparr>))"

section \<open>Editing\<close>

text \<open>How the body of the loop ends: it goes on, or \<open>readline\<close> returns.\<close>

datatype step = More editor | Return int editor

definition redraw :: "u8 list \<Rightarrow> editor \<Rightarrow> step option" where
  "redraw prompt e = map_option More (redraw_line prompt e)"

definition set_cursor :: "u8 list \<Rightarrow> bool \<Rightarrow> nat \<Rightarrow> editor \<Rightarrow> step option" where
  "set_cursor prompt moved n e = (if moved then redraw prompt (e\<lparr>cursor := n\<rparr>) else Some (More e))"

definition delete_at_cursor :: "u8 list \<Rightarrow> editor \<Rightarrow> step option" where
  "delete_at_cursor prompt e =
     (if cursor e < buf_len e then
        (case array_memmove (cursor e) (cursor e + 1) (buf_len e - cursor e) (buffer e) of None \<Rightarrow> None
         | Some b \<Rightarrow>
             (case array_store (buf_len e - 1) 0 b of None \<Rightarrow> None
              | Some b \<Rightarrow> redraw prompt (e\<lparr>buffer := b, buf_len := buf_len e - 1\<rparr>)))
      else Some (More e))"

definition history_up :: "u8 list \<Rightarrow> editor \<Rightarrow> step option" where
  "history_up prompt e =
     (if history_view e > 0 then
        (case (if history_view e = history_count e
               then map_option (\<lambda>a. (a, buf_len e)) (array_strcpy (scratch e) (buffer e))
               else Some (scratch e, scratch_len e)) of None \<Rightarrow> None
         | Some (sc, sn) \<Rightarrow>
             let view = history_view e - 1
             in case array_strcpy (buffer e) (history e ! view) of None \<Rightarrow> None
                | Some b \<Rightarrow>
                    (case array_strlen b of None \<Rightarrow> None
                     | Some n \<Rightarrow> redraw prompt (e\<lparr>scratch := sc, scratch_len := sn, history_view := view, buffer := b,
                                                     buf_len := n, cursor := n\<rparr>)))
      else Some (More e))"

definition history_down :: "u8 list \<Rightarrow> editor \<Rightarrow> step option" where
  "history_down prompt e =
     (if history_view e < history_count e then
        let view = history_view e + 1
        in case (if view = history_count e
                 then map_option (\<lambda>b. (b, scratch_len e)) (array_strcpy (buffer e) (scratch e))
                 else case array_strcpy (buffer e) (history e ! view) of None \<Rightarrow> None
                      | Some b \<Rightarrow> map_option (Pair b) (array_strlen b)) of None \<Rightarrow> None
           | Some (b, n) \<Rightarrow> redraw prompt (e\<lparr>history_view := view, buffer := b, buf_len := n, cursor := n\<rparr>)
      else Some (More e))"

text \<open>The final byte of an escape sequence.\<close>

definition csi_final :: "u8 list \<Rightarrow> u8 \<Rightarrow> editor \<Rightarrow> step option" where
  "csi_final prompt c e =
     (let csi_pos = length (csi_buf e); e = e\<lparr>read_state := STATE_NORMAL\<rparr>
      in if c = 0x41 \<and> csi_pos = 0 then history_up prompt e
         else if c = 0x42 \<and> csi_pos = 0 then history_down prompt e
         else if c = 0x43 \<and> csi_pos = 0 then set_cursor prompt (cursor e < buf_len e) (cursor e + 1) e
         else if c = 0x44 \<and> csi_pos = 0 then set_cursor prompt (cursor e > 0) (cursor e - 1) e
         else if c = 0x48 \<and> csi_pos = 0 then set_cursor prompt (cursor e \<noteq> 0) 0 e
         else if c = 0x46 \<and> csi_pos = 0 then set_cursor prompt (cursor e \<noteq> buf_len e) (buf_len e) e
         else if c = 0x7E \<and> csi_pos = 1 \<and> csi_buf e ! 0 = 0x33 then delete_at_cursor prompt e
         else Some (More e))"

definition control_key :: "u8 list \<Rightarrow> u8 \<Rightarrow> editor \<Rightarrow> step option" where
  "control_key prompt c e =
     (if c = 1 then set_cursor prompt (cursor e \<noteq> 0) 0 e
      else if c = 3 then
        (case array_store 0 0 (buffer e) of None \<Rightarrow> None
         | Some b \<Rightarrow> Some (Return 0 (e\<lparr>buffer := b, buf_len := 0, cursor := 0, history_view := history_count e,
              last_drawn_len := 0, written := written e @ bytes_of ''^C'' @ [0x0A]\<rparr>)))
      else if c = 4 then
        (if buf_len e = 0 then Some (Return (- 1) (e\<lparr>written := written e @ [0x0A]\<rparr>)) else delete_at_cursor prompt e)
      else if c = 5 then set_cursor prompt (cursor e \<noteq> buf_len e) (buf_len e) e
      else if c = 11 then
        (if cursor e < buf_len e then
           (case array_store (cursor e) 0 (buffer e) of None \<Rightarrow> None
            | Some b \<Rightarrow> redraw prompt (e\<lparr>buffer := b, buf_len := cursor e\<rparr>))
         else Some (More e))
      else if c = 12 then
        redraw prompt (e\<lparr>last_drawn_len := 0, written := written e @ 0x1B # bytes_of ''[2J'' @ 0x1B # bytes_of ''[H''\<rparr>)
      else if c = 21 then
        (if cursor e > 0 then
           (case array_memmove 0 (cursor e) (buf_len e - cursor e + 1) (buffer e) of None \<Rightarrow> None
            | Some b \<Rightarrow> redraw prompt (e\<lparr>buffer := b, buf_len := buf_len e - cursor e, cursor := 0\<rparr>))
         else Some (More e))
      else Some (More e))"

text \<open>A byte outside escape sequences; \<open>max_size\<close> is the size of the buffer that the caller passes.\<close>

definition plain_byte :: "u8 list \<Rightarrow> nat \<Rightarrow> u8 \<Rightarrow> editor \<Rightarrow> step option" where
  "plain_byte prompt max_size c e =
     (if c = 0x1B then Some (More (e\<lparr>read_state := STATE_ESC\<rparr>))
      else if c = 0x0A \<or> c = 0x0D then
        (case array_store (buf_len e) 0 (buffer e) of None \<Rightarrow> None
         | Some b \<Rightarrow> Some (Return 0 (e\<lparr>buffer := b, written := written e @ [0x0A]\<rparr>)))
      else if c = 0x08 \<or> c = 127 then
        (if cursor e > 0 then
           (case array_memmove (cursor e - 1) (cursor e) (buf_len e - cursor e + 1) (buffer e) of None \<Rightarrow> None
            | Some b \<Rightarrow> redraw prompt (e\<lparr>buffer := b, cursor := cursor e - 1, buf_len := buf_len e - 1\<rparr>))
         else Some (More e))
      else if c < 32 then control_key prompt c e
      else if c < 127 then
        (if buf_len e < max_size - 1 then
           (case array_memmove (cursor e + 1) (cursor e) (buf_len e - cursor e + 1) (buffer e) of None \<Rightarrow> None
            | Some b \<Rightarrow>
                (case array_store (cursor e) c b of None \<Rightarrow> None
                 | Some b \<Rightarrow> redraw prompt (e\<lparr>buffer := b, cursor := cursor e + 1, buf_len := buf_len e + 1\<rparr>)))
         else Some (More e))
      else Some (More e))"

definition readline_step :: "u8 list \<Rightarrow> nat \<Rightarrow> u8 \<Rightarrow> editor \<Rightarrow> step option" where
  "readline_step prompt max_size c e =
     (if read_state e = STATE_ESC then
        (if c = 0x5B then Some (More (e\<lparr>read_state := STATE_CSI, csi_buf := []\<rparr>))
         else plain_byte prompt max_size c (e\<lparr>read_state := STATE_NORMAL\<rparr>))
      else if read_state e = STATE_CSI then
        (if 0x30 \<le> c \<and> c \<le> 0x39 \<or> c = 0x3B \<or> c = 0x3F then
           Some (More (if length (csi_buf e) < 31 then e\<lparr>csi_buf := csi_buf e @ [c]\<rparr> else e))
         else if 0x40 \<le> c \<and> c \<le> 0x7E then csi_final prompt c e
         else Some (More (e\<lparr>read_state := STATE_NORMAL\<rparr>)))
      else plain_byte prompt max_size c e)"

definition readline_start :: "u8 list \<Rightarrow> editor \<Rightarrow> editor option" where
  "readline_start prompt e =
     map_option (\<lambda>b. e\<lparr>buffer := b, cursor := 0, buf_len := 0, read_state := STATE_NORMAL, csi_buf := [],
        last_drawn_len := ansi_visible_len prompt, written := written e @ prompt\<rparr>) (array_store 0 0 (buffer e))"

text \<open>The loop over the bytes that \<open>read\<close> delivers; when they run out, it waits.\<close>

fun readline_loop :: "u8 list \<Rightarrow> nat \<Rightarrow> u8 list \<Rightarrow> editor \<Rightarrow> (step \<times> u8 list) option" where
  "readline_loop prompt max_size [] e = Some (More e, [])"
| "readline_loop prompt max_size (c # input) e =
     (case readline_step prompt max_size c e of None \<Rightarrow> None
      | Some (More e) \<Rightarrow> readline_loop prompt max_size input e
      | Some (Return r e) \<Rightarrow> Some (Return r e, input))"

definition readline :: "u8 list \<Rightarrow> nat \<Rightarrow> u8 list \<Rightarrow> editor \<Rightarrow> (step \<times> u8 list) option" where
  "readline prompt max_size input e =
     (case readline_start prompt e of None \<Rightarrow> None | Some e \<Rightarrow> readline_loop prompt max_size input e)"

section \<open>What the editor promises\<close>

text \<open>A line with a cursor in it, the lines of the history, the one shown (their number for the line being typed) and the
  typed line while an older one is shown.\<close>

record aline =
  before :: "u8 list"
  after :: "u8 list"
  older :: "u8 list list"
  shown :: nat
  typed :: "u8 list"

datatype key = Insert u8 | Backspace | Delete | Cursor_left | Cursor_right | Home_key | End_key | Kill_end | Kill_start |
  Key_up | Key_down | No_key

fun edit :: "nat \<Rightarrow> key \<Rightarrow> aline \<Rightarrow> aline" where
  "edit m (Insert c) l = (if length (before l) + length (after l) < m - 1 then l\<lparr>before := before l @ [c]\<rparr> else l)"
| "edit m Backspace l = l\<lparr>before := butlast (before l)\<rparr>"
| "edit m Delete l = l\<lparr>after := tl (after l)\<rparr>"
| "edit m Cursor_left l =
     (if before l = [] then l else l\<lparr>before := butlast (before l), after := last (before l) # after l\<rparr>)"
| "edit m Cursor_right l = (if after l = [] then l else l\<lparr>before := before l @ [hd (after l)], after := tl (after l)\<rparr>)"
| "edit m Home_key l = l\<lparr>before := [], after := before l @ after l\<rparr>"
| "edit m End_key l = l\<lparr>before := before l @ after l, after := []\<rparr>"
| "edit m Kill_end l = l\<lparr>after := []\<rparr>"
| "edit m Kill_start l = l\<lparr>before := []\<rparr>"
| "edit m Key_up l =
     (if shown l = 0 then l
      else l\<lparr>before := older l ! (shown l - 1), after := [], shown := shown l - 1,
             typed := if shown l = length (older l) then before l @ after l else typed l\<rparr>)"
| "edit m Key_down l =
     (if shown l \<ge> length (older l) then l
      else let n = shown l + 1; newest = (n = length (older l))
           in l\<lparr>before := if newest then typed l else older l ! n, after := [], shown := n,
                typed := if newest then [] else typed l\<rparr>)"
| "edit m No_key l = l"

text \<open>Which key a byte completes, in each state of the parser.\<close>

definition plain_key :: "u8 \<Rightarrow> key" where
  "plain_key c =
     (if c = 0x08 \<or> c = 127 then Backspace else if c = 1 then Home_key else if c = 4 then Delete else if c = 5 then End_key
      else if c = 11 then Kill_end else if c = 21 then Kill_start else if 32 \<le> c \<and> c < 127 then Insert c else No_key)"

definition csi_key :: "u8 list \<Rightarrow> u8 \<Rightarrow> key" where
  "csi_key ps c =
     (if ps = [] then
        (if c = 0x41 then Key_up else if c = 0x42 then Key_down else if c = 0x43 then Cursor_right
         else if c = 0x44 then Cursor_left else if c = 0x48 then Home_key else if c = 0x46 then End_key else No_key)
      else if ps = [0x33] \<and> c = 0x7E then Delete else No_key)"

definition csi_param :: "u8 \<Rightarrow> bool" where
  "csi_param c \<longleftrightarrow> 0x30 \<le> c \<and> c \<le> 0x39 \<or> c = 0x3B \<or> c = 0x3F"

fun key_of :: "read_state \<times> u8 list \<Rightarrow> u8 \<Rightarrow> key" where
  "key_of (STATE_NORMAL, ps) c = plain_key c"
| "key_of (STATE_ESC, ps) c = (if c = 0x5B then No_key else plain_key c)"
| "key_of (STATE_CSI, ps) c = (if \<not> csi_param c \<and> 0x40 \<le> c \<and> c \<le> 0x7E then csi_key ps c else No_key)"

fun scan_byte :: "read_state \<times> u8 list \<Rightarrow> u8 \<Rightarrow> read_state \<times> u8 list" where
  "scan_byte (STATE_NORMAL, ps) c = (if c = 0x1B then STATE_ESC else STATE_NORMAL, ps)"
| "scan_byte (STATE_ESC, ps) c =
     (if c = 0x5B then (STATE_CSI, []) else (if c = 0x1B then STATE_ESC else STATE_NORMAL, ps))"
| "scan_byte (STATE_CSI, ps) c =
     (if csi_param c then (STATE_CSI, if length ps < 31 then ps @ [c] else ps) else (STATE_NORMAL, ps))"

text \<open>The keys that a sequence of bytes stands for, and the state it leaves the parser in.\<close>

fun keys_of :: "read_state \<times> u8 list \<Rightarrow> u8 list \<Rightarrow> key list" where
  "keys_of st [] = []"
| "keys_of st (c # cs) = key_of st c # keys_of (scan_byte st c) cs"

section \<open>The line in the buffer\<close>

text \<open>\<open>x\<close> before the cursor, \<open>y\<close> behind it, then the NUL.\<close>

definition holds :: "editor \<Rightarrow> u8 list \<Rightarrow> u8 list \<Rightarrow> bool" where
  "holds e x y \<longleftrightarrow> (\<exists>r. buffer e = x @ y @ 0 # r) \<and> length (buffer e) = 256 \<and> cursor e = length x \<and>
     buf_len e = length x + length y \<and> 0 \<notin> set x \<and> 0 \<notin> set y"

definition history_ok :: "editor \<Rightarrow> bool" where
  "history_ok e \<longleftrightarrow> length (history e) = 32 \<and> (\<forall>a\<in>set (history e). length a = 256) \<and> history_count e \<le> 32 \<and>
     (\<forall>i < history_count e. 0 \<in> set (history e ! i)) \<and> history_view e \<le> history_count e \<and> length (scratch e) = 256 \<and>
     (history_view e < history_count e \<longrightarrow> 0 \<in> set (scratch e) \<and> scratch_len e = length (text_of (scratch e)))"

definition editor_ok :: "editor \<Rightarrow> bool" where
  "editor_ok e \<longleftrightarrow> history_ok e \<and> (\<exists>x y. holds e x y)"

definition line_of :: "editor \<Rightarrow> aline" where
  "line_of e = \<lparr>before = take (cursor e) (buffer e), after = take (buf_len e - cursor e) (drop (cursor e) (buffer e)),
     older = map text_of (take (history_count e) (history e)), shown = history_view e,
     typed = (if history_view e < history_count e then text_of (scratch e) else [])\<rparr>"

abbreviation older_of :: "editor \<Rightarrow> u8 list list" where
  "older_of e \<equiv> map text_of (take (history_count e) (history e))"

abbreviation typed_of :: "editor \<Rightarrow> u8 list" where
  "typed_of e \<equiv> (if history_view e < history_count e then text_of (scratch e) else [])"

lemma line_of_holds:
  "holds e x y \<Longrightarrow> line_of e = \<lparr>before = x, after = y, older = older_of e, shown = history_view e, typed = typed_of e\<rparr>"
  by (auto simp: holds_def line_of_def)

lemma text_of_NUL [simp]: "0 \<notin> set l \<Longrightarrow> text_of (l @ 0 # r) = l"
proof -
  assume "0 \<notin> set l"
  then have "\<And>c. c \<in> set l \<Longrightarrow> c \<noteq> 0" by auto
  then show ?thesis by (simp add: text_of_def takeWhile_append2)
qed

lemma text_of_nonzero: "0 \<notin> set (text_of a)"
  by (auto simp: text_of_def dest: set_takeWhileD)

lemma text_of_split:
  assumes "0 \<in> set a" obtains r where "a = text_of a @ 0 # r"
proof -
  have n: "dropWhile (\<lambda>c. c \<noteq> 0) a \<noteq> []" using assms by auto
  then obtain c r where d: "dropWhile (\<lambda>c. c \<noteq> 0) a = c # r" by (cases "dropWhile (\<lambda>c. c \<noteq> 0) a") auto
  then have "c = 0" using hd_dropWhile [OF n] by simp
  then have "a = text_of a @ 0 # r" using d takeWhile_dropWhile_id [of "\<lambda>c. c \<noteq> 0" a] by (metis text_of_def)
  then show ?thesis by (rule that)
qed

lemma strlen_NUL [simp]: "0 \<notin> set l \<Longrightarrow> array_strlen (l @ 0 # r) = Some (length l)"
  by (simp add: array_strlen_def)

text \<open>Copying a string into an array that has room for it.\<close>

lemma strcpy_text:
  assumes "0 \<in> set src" and "length (text_of src) < length dest"
  shows "\<exists>r. array_strcpy dest src = Some (text_of src @ 0 # r) \<and> length (text_of src @ 0 # r) = length dest"
proof -
  obtain r where r: "src = text_of src @ 0 # r" using text_of_split [OF assms(1)] .
  have "take (Suc (length (text_of src))) src = take (Suc (length (text_of src))) (text_of src @ 0 # r)"
    using r by (rule arg_cong)
  then have t: "take (Suc (length (text_of src))) src = text_of src @ [0]" by simp
  have l: "array_strlen src = Some (length (text_of src))" using assms(1) by (simp add: array_strlen_def)
  show ?thesis using assms(2) by (simp add: array_strcpy_def l t)
qed

lemma text_shorter: "0 \<in> set a \<Longrightarrow> length (text_of a) < length a"
proof -
  assume "0 \<in> set a"
  then obtain r where "a = text_of a @ 0 # r" by (rule text_of_split)
  then have "length a = length (text_of a @ 0 # r)" by (rule arg_cong)
  then show ?thesis by simp
qed

section \<open>The operations\<close>

lemma redraw_ok:
  "0 \<in> set (buffer e) \<Longrightarrow> \<exists>n out. redraw prompt e = Some (More (e\<lparr>last_drawn_len := n, written := written e @ out\<rparr>))"
  unfolding redraw_def redraw_line_def array_strlen_def Let_def by (simp only: if_True option.case option.map) blast

text \<open>\<open>goes_on s e\<close>: the step goes on with \<open>e\<close>, but for what is on the screen.\<close>

definition goes_on :: "step option \<Rightarrow> editor \<Rightarrow> bool" where
  "goes_on s e \<longleftrightarrow> (\<exists>n out. s = Some (More (e\<lparr>last_drawn_len := n, written := out\<rparr>)))"

lemma goes_on_redraw: "0 \<in> set (buffer e) \<Longrightarrow> goes_on (redraw prompt e) e"
  using redraw_ok [of e prompt] by (auto simp: goes_on_def)

lemma goes_on_same: "goes_on (Some (More e)) e"
  unfolding goes_on_def by (intro exI [of _ "last_drawn_len e"] exI [of _ "written e"]) simp

lemma holds_zero: "holds e x y \<Longrightarrow> 0 \<in> set (buffer e)"
  by (auto simp: holds_def)

text \<open>The step shows the line with \<open>x\<close> and \<open>y\<close> around the cursor and leaves the history and the parser alone.\<close>

definition edits :: "editor \<Rightarrow> step option \<Rightarrow> u8 list \<Rightarrow> u8 list \<Rightarrow> bool" where
  "edits e s x y \<longleftrightarrow> (\<exists>e'. s = Some (More e') \<and> holds e' x y \<and> history e' = history e \<and> history_count e' = history_count e \<and>
     history_view e' = history_view e \<and> scratch e' = scratch e \<and> scratch_len e' = scratch_len e \<and>
     read_state e' = read_state e \<and> csi_buf e' = csi_buf e)"

lemma edits_redraw:
  assumes "holds e x y"
  shows "edits e (redraw prompt e) x y"
  using redraw_ok [OF holds_zero [OF assms], of prompt] assms by (auto simp: edits_def holds_def)

lemma edits_same: "holds e x y \<Longrightarrow> edits e (Some (More e)) x y"
  by (simp add: edits_def)

text \<open>A step on a changed buffer and cursor.\<close>

lemma edits_buffer:
  assumes "edits (e\<lparr>buffer := b, cursor := k, buf_len := n\<rparr>) s x y"
  shows "edits e s x y"
  using assms by (simp add: edits_def)

lemma holds_buffer:
  "length b = 256 \<Longrightarrow> b = x @ y @ 0 # r \<Longrightarrow> 0 \<notin> set x \<Longrightarrow> 0 \<notin> set y \<Longrightarrow>
    holds (e\<lparr>buffer := b, cursor := length x, buf_len := length x + length y\<rparr>) x y"
  by (auto simp: holds_def)

lemma set_cursor_edits:
  assumes "holds e x y" and "moved \<longleftrightarrow> n \<noteq> cursor e" and "n \<le> length (x @ y)"
  shows "edits e (set_cursor prompt moved n e) (take n (x @ y)) (drop n (x @ y))"
proof (cases "n = cursor e")
  case True
  then have "take n (x @ y) = x" "drop n (x @ y) = y" using assms(1) by (auto simp: holds_def)
  then show ?thesis using True assms by (simp add: set_cursor_def edits_same)
next
  case False
  obtain r where r: "buffer e = x @ y @ 0 # r" using assms(1) by (auto simp: holds_def)
  have "holds (e\<lparr>buffer := buffer e, cursor := length (take n (x @ y)), buf_len := length (take n (x @ y)) + length (drop n (x @ y))\<rparr>)
      (take n (x @ y)) (drop n (x @ y))"
  proof (rule holds_buffer)
    show "buffer e = take n (x @ y) @ drop n (x @ y) @ 0 # r"
      using r by (simp only: append_assoc [symmetric] append_take_drop_id)
    have "0 \<notin> set (x @ y)" using assms(1) by (simp add: holds_def)
    then show "0 \<notin> set (take n (x @ y))" "0 \<notin> set (drop n (x @ y))" by (meson in_set_takeD in_set_dropD)+
  qed (use assms(1) in \<open>simp add: holds_def\<close>)
  moreover have "length (take n (x @ y)) = n" "length (take n (x @ y)) + length (drop n (x @ y)) = buf_len e"
    using assms by (auto simp: holds_def)
  ultimately have "holds (e\<lparr>buffer := buffer e, cursor := n, buf_len := buf_len e\<rparr>) (take n (x @ y)) (drop n (x @ y))"
    by (simp only:)
  then have "holds (e\<lparr>cursor := n\<rparr>) (take n (x @ y)) (drop n (x @ y))" by simp
  from edits_redraw [OF this, of prompt] show ?thesis
    using False assms(2) by (auto simp: set_cursor_def edits_def)
qed

lemma memmove_list:
  assumes "a = p @ q @ s" and "length q = n" and "d + n \<le> length a" and "k = length p"
  shows "array_memmove d k n a = Some (take d a @ q @ drop (d + n) a)"
  using assms by (simp add: array_memmove_def)

lemma delete_edits:
  assumes "holds e x y"
  shows "edits e (delete_at_cursor prompt e) x (tl y)"
proof (cases y)
  case Nil
  then show ?thesis using assms edits_same [OF assms] by (simp add: delete_at_cursor_def holds_def)
next
  case (Cons c z)
  obtain r where r: "buffer e = x @ (c # z) @ 0 # r" using assms Cons by (auto simp: holds_def)
  have l: "length (buffer e) = 256" and k: "cursor e = length x" "buf_len e = length x + Suc (length z)"
    and nz: "0 \<notin> set x" "0 \<notin> set z" using assms Cons by (auto simp: holds_def)
  have m: "array_memmove (cursor e) (cursor e + 1) (buf_len e - cursor e) (buffer e) =
      Some (x @ (z @ [0]) @ 0 # r)"
    using l k r memmove_list [of "buffer e" "x @ [c]" "z @ [0]" r "Suc (length z)" "length x" "length x + 1"] by simp
  have st: "array_store (buf_len e - 1) 0 (x @ (z @ [0]) @ 0 # r) = Some (x @ z @ 0 # 0 # r)"
    using k by (simp add: array_store_def list_update_append)
  have "holds (e\<lparr>buffer := x @ z @ 0 # 0 # r, cursor := length x, buf_len := length x + length z\<rparr>) x z"
    using l r nz by (intro holds_buffer) auto
  from edits_redraw [OF this, of prompt]
  have "edits e (redraw prompt (e\<lparr>buffer := x @ z @ 0 # 0 # r, cursor := length x, buf_len := length x + length z\<rparr>)) x z"
    by (rule edits_buffer)
  moreover have "e\<lparr>buffer := x @ z @ 0 # 0 # r, cursor := length x, buf_len := length x + length z\<rparr> =
      e\<lparr>buffer := x @ z @ 0 # 0 # r, buf_len := buf_len e - 1\<rparr>" using k by simp
  ultimately show ?thesis using k m st Cons by (simp add: delete_at_cursor_def)
qed

lemma backspace_edits:
  assumes "holds e x y" and "0 < cursor e"
  shows "\<exists>b. array_memmove (cursor e - 1) (cursor e) (buf_len e - cursor e + 1) (buffer e) = Some b \<and>
    edits e (redraw prompt (e\<lparr>buffer := b, cursor := cursor e - 1, buf_len := buf_len e - 1\<rparr>)) (butlast x) y"
proof -
  obtain w c where x: "x = w @ [c]" using assms by (cases x rule: rev_cases) (auto simp: holds_def)
  obtain r where r: "buffer e = (w @ [c]) @ y @ 0 # r" using assms x by (auto simp: holds_def)
  have l: "length (buffer e) = 256" and k: "cursor e = Suc (length w)" "buf_len e = Suc (length w) + length y"
    and nz: "0 \<notin> set w" "0 \<notin> set y" using assms x by (auto simp: holds_def)
  have m: "array_memmove (cursor e - 1) (cursor e) (buf_len e - cursor e + 1) (buffer e) = Some (w @ y @ 0 # 0 # r)"
    using l k r memmove_list [of "buffer e" "w @ [c]" "y @ [0]" r "Suc (length y)" "length w" "Suc (length w)"]
    by (simp add: drop_Cons split: nat.split)
  have "holds (e\<lparr>buffer := w @ y @ 0 # 0 # r, cursor := length w, buf_len := length w + length y\<rparr>) w y"
    using l r nz by (intro holds_buffer) auto
  from edits_buffer [OF edits_redraw [OF this]] show ?thesis using m k x by simp
qed

lemma insert_edits:
  assumes "holds e x y" and "buf_len e < 255" and "c \<noteq> 0"
  shows "\<exists>b b'. array_memmove (cursor e + 1) (cursor e) (buf_len e - cursor e + 1) (buffer e) = Some b \<and>
    array_store (cursor e) c b = Some b' \<and>
    edits e (redraw prompt (e\<lparr>buffer := b', cursor := cursor e + 1, buf_len := buf_len e + 1\<rparr>)) (x @ [c]) y"
proof -
  obtain r where r0: "buffer e = x @ y @ 0 # r" using assms by (auto simp: holds_def)
  have l: "length (buffer e) = 256" and k: "cursor e = length x" "buf_len e = length x + length y"
    and nz: "0 \<notin> set x" "0 \<notin> set y" using assms by (auto simp: holds_def)
  have "r \<noteq> []" using r0 l k assms(2) by auto
  then obtain d r' where r: "r = d # r'" by (cases r) auto
  have t: "take (Suc (length x)) (buffer e) = x @ [hd (y @ [0])]" using r0 by (cases y) auto
  have m: "array_memmove (cursor e + 1) (cursor e) (buf_len e - cursor e + 1) (buffer e) =
      Some (x @ hd (y @ [0]) # y @ 0 # r')"
    using l k r0 r t memmove_list [of "buffer e" x "y @ [0]" r "Suc (length y)" "Suc (length x)" "length x"] by simp
  have st: "array_store (cursor e) c (x @ hd (y @ [0]) # y @ 0 # r') = Some ((x @ [c]) @ y @ 0 # r')"
    using k by (simp add: array_store_def)
  have "holds (e\<lparr>buffer := (x @ [c]) @ y @ 0 # r', cursor := length (x @ [c]), buf_len := length (x @ [c]) + length y\<rparr>) (x @ [c]) y"
    using l r0 r nz assms(3) by (intro holds_buffer) auto
  from edits_buffer [OF edits_redraw [OF this]] show ?thesis using m st k by simp
qed

lemma kill_end_edits:
  assumes "holds e x y" and "cursor e < buf_len e"
  shows "\<exists>b. array_store (cursor e) 0 (buffer e) = Some b \<and>
    edits e (redraw prompt (e\<lparr>buffer := b, buf_len := cursor e\<rparr>)) x []"
proof -
  obtain c z where y: "y = c # z" using assms by (cases y) (auto simp: holds_def)
  obtain r where r: "buffer e = x @ (c # z) @ 0 # r" using assms y by (auto simp: holds_def)
  have l: "length (buffer e) = 256" and k: "cursor e = length x" and nz: "0 \<notin> set x" using assms by (auto simp: holds_def)
  have st: "array_store (cursor e) 0 (buffer e) = Some (x @ 0 # z @ 0 # r)" using l k r by (simp add: array_store_def)
  have "holds (e\<lparr>buffer := x @ 0 # z @ 0 # r, cursor := length x, buf_len := length x + length ([] :: u8 list)\<rparr>) x []"
    using l r nz by (intro holds_buffer) auto
  from edits_buffer [OF edits_redraw [OF this, of prompt]]
  have "edits e (redraw prompt (e\<lparr>buffer := x @ 0 # z @ 0 # r, cursor := length x, buf_len := length x\<rparr>)) x []" by simp
  moreover have "e\<lparr>buffer := x @ 0 # z @ 0 # r, cursor := length x, buf_len := length x\<rparr> =
      e\<lparr>buffer := x @ 0 # z @ 0 # r, buf_len := cursor e\<rparr>" using k by simp
  ultimately show ?thesis using st by auto
qed

lemma kill_start_edits:
  assumes "holds e x y"
  shows "\<exists>b. array_memmove 0 (cursor e) (buf_len e - cursor e + 1) (buffer e) = Some b \<and>
    edits e (redraw prompt (e\<lparr>buffer := b, buf_len := buf_len e - cursor e, cursor := 0\<rparr>)) [] y"
proof -
  obtain r where r: "buffer e = x @ y @ 0 # r" using assms by (auto simp: holds_def)
  have l: "length (buffer e) = 256" and k: "cursor e = length x" "buf_len e = length x + length y" and nz: "0 \<notin> set y"
    using assms by (auto simp: holds_def)
  let ?b = "y @ 0 # drop (Suc (length y)) (buffer e)"
  have m: "array_memmove 0 (cursor e) (buf_len e - cursor e + 1) (buffer e) = Some ?b"
    using l k r memmove_list [of "buffer e" x "y @ [0]" r "Suc (length y)" 0 "length x"] by simp
  have "length ?b = 256" using l r by simp
  then have "holds (e\<lparr>buffer := ?b, cursor := length ([] :: u8 list), buf_len := length ([] :: u8 list) + length y\<rparr>) [] y"
    using nz by (intro holds_buffer) auto
  from edits_buffer [OF edits_redraw [OF this, of prompt]]
  have "edits e (redraw prompt (e\<lparr>buffer := ?b, cursor := 0, buf_len := length y\<rparr>)) [] y" by simp
  moreover have "e\<lparr>buffer := ?b, cursor := 0, buf_len := length y\<rparr> = e\<lparr>buffer := ?b, buf_len := buf_len e - cursor e, cursor := 0\<rparr>"
    using k by simp
  ultimately show ?thesis using m by auto
qed

section \<open>Every byte keeps the promise\<close>

text \<open>What a step must show: it goes on, the editor stays well-formed, its line is \<open>l\<close>, its parser at \<open>st\<close>.\<close>

definition keeps :: "step option \<Rightarrow> aline \<Rightarrow> read_state \<times> u8 list \<Rightarrow> bool" where
  "keeps s l st \<longleftrightarrow> (\<exists>e'. s = Some (More e') \<and> editor_ok e' \<and> line_of e' = l \<and> (read_state e', csi_buf e') = st)"

lemma edits_keeps:
  assumes "edits e s x y" and "history_ok e"
  shows "keeps s \<lparr>before = x, after = y, older = older_of e, shown = history_view e, typed = typed_of e\<rparr> (read_state e, csi_buf e)"
proof -
  obtain e' where e': "s = Some (More e')" "holds e' x y" "history e' = history e" "history_count e' = history_count e"
    "history_view e' = history_view e" "scratch e' = scratch e" "scratch_len e' = scratch_len e"
    "read_state e' = read_state e" "csi_buf e' = csi_buf e" using assms(1) by (auto simp: edits_def)
  have "editor_ok e'" using e' assms(2) by (auto simp: editor_ok_def history_ok_def)
  then show ?thesis using e' line_of_holds [OF e'(2)] by (auto simp: keeps_def)
qed

lemma set_cursor_keeps:
  assumes "holds e x y" and "history_ok e" and "moved \<longleftrightarrow> n \<noteq> cursor e" and "n \<le> length (x @ y)"
  shows "keeps (set_cursor prompt moved n e)
    \<lparr>before = take n (x @ y), after = drop n (x @ y), older = older_of e, shown = history_view e, typed = typed_of e\<rparr>
    (read_state e, csi_buf e)"
  by (rule edits_keeps [OF set_cursor_edits [OF assms(1,3,4)] assms(2)])

lemma older_nth: "history_ok e \<Longrightarrow> i < history_count e \<Longrightarrow> older_of e ! i = text_of (history e ! i)"
  by (simp add: history_ok_def)

lemma length_older: "history_ok e \<Longrightarrow> length (older_of e) = history_count e"
  by (simp add: history_ok_def)

lemma strcpy_line:
  assumes "length (buffer e) = 256" and "0 \<in> set src" and "length src = 256"
  shows "\<exists>b. array_strcpy (buffer e) src = Some b \<and> array_strlen b = Some (length (text_of src)) \<and>
    holds (e\<lparr>buffer := b, cursor := length (text_of src), buf_len := length (text_of src)\<rparr>) (text_of src) []"
proof -
  have "length (text_of src) < length (buffer e)" using text_shorter [OF assms(2)] assms(1,3) by simp
  then obtain r where r: "array_strcpy (buffer e) src = Some (text_of src @ 0 # r)" "length (text_of src @ 0 # r) = 256"
    using strcpy_text [OF assms(2)] assms(1) by metis
  have "holds (e\<lparr>buffer := text_of src @ 0 # r, cursor := length (text_of src),
      buf_len := length (text_of src) + length ([] :: u8 list)\<rparr>) (text_of src) []"
    using r(2) by (intro holds_buffer) (auto simp: text_of_nonzero)
  then show ?thesis using r(1) by (simp add: text_of_nonzero)
qed

lemma edit_up:
  assumes "editor_ok e" and "read_state e = STATE_NORMAL"
  shows "keeps (history_up prompt e) (edit m Key_up (line_of e)) (STATE_NORMAL, csi_buf e)"
proof -
  obtain x y where h: "holds e x y" and ho: "history_ok e" using assms(1) by (auto simp: editor_ok_def)
  note L = line_of_holds [OF h]
  show ?thesis
  proof (cases "history_view e = 0")
    case True
    then show ?thesis using edits_keeps [OF edits_same [OF h] ho] assms(2) by (simp add: history_up_def L)
  next
    case False
    let ?v = "history_view e - 1" let ?src = "history e ! ?v"
    have v: "?v < history_count e" "history_view e \<le> history_count e" using False ho by (auto simp: history_ok_def)
    then have "?v < length (history e)" using ho by (simp add: history_ok_def)
    then have src: "0 \<in> set ?src" "length ?src = 256" using ho v(1) by (auto simp: history_ok_def)
    have b256: "length (buffer e) = 256" using h by (simp add: holds_def)
    obtain b where b: "array_strcpy (buffer e) ?src = Some b" "array_strlen b = Some (length (text_of ?src))"
      and hb: "holds (e\<lparr>buffer := b, cursor := length (text_of ?src), buf_len := length (text_of ?src)\<rparr>) (text_of ?src) []"
      using strcpy_line [OF b256 src] by blast
    obtain sc sn where sc: "(if history_view e = history_count e
        then map_option (\<lambda>a. (a, buf_len e)) (array_strcpy (scratch e) (buffer e))
        else Some (scratch e, scratch_len e)) = Some (sc, sn)"
      "length sc = 256" "0 \<in> set sc" "sn = length (text_of sc)"
      "text_of sc = (if history_view e = history_count e then x @ y else text_of (scratch e))"
    proof (cases "history_view e = history_count e")
      case True
      obtain r where r: "buffer e = (x @ y) @ 0 # r" and n: "buf_len e = length (x @ y)" and nz: "0 \<notin> set (x @ y)"
        using h by (auto simp: holds_def)
      have t: "text_of (buffer e) = x @ y" unfolding r using nz by (rule text_of_NUL)
      have z: "0 \<in> set (buffer e)" using r by simp
      have "length (text_of (buffer e)) < length (scratch e)"
        using text_shorter [OF z] b256 ho by (simp add: history_ok_def)
      then obtain r' where "array_strcpy (scratch e) (buffer e) = Some ((x @ y) @ 0 # r')"
        "length ((x @ y) @ 0 # r') = 256"
        using strcpy_text [OF z, of "scratch e"] ho unfolding t by (metis history_ok_def)
      then show ?thesis using that [of "(x @ y) @ 0 # r'" "buf_len e"] True n nz text_of_NUL [OF nz, of r'] by simp
    next
      case False
      then show ?thesis using that [of "scratch e" "scratch_len e"] ho v(2) by (simp add: history_ok_def)
    qed
    let ?e = "e\<lparr>scratch := sc, scratch_len := sn, history_view := ?v\<rparr>"
    let ?e' = "?e\<lparr>buffer := b, cursor := length (text_of ?src), buf_len := length (text_of ?src)\<rparr>"
    have "holds ?e' (text_of ?src) []" using hb by (simp add: holds_def)
    from edits_buffer [OF edits_redraw [OF this, of prompt]]
    have "edits ?e (redraw prompt ?e') (text_of ?src) []" .
    moreover have "history_ok ?e" using ho v sc by (simp add: history_ok_def)
    ultimately have k: "keeps (redraw prompt ?e') \<lparr>before = text_of ?src, after = [], older = older_of ?e, shown = ?v,
        typed = typed_of ?e\<rparr> (STATE_NORMAL, csi_buf e)"
      using edits_keeps [of ?e "redraw prompt ?e'"] assms(2) by fastforce
    have s: "history_up prompt e = redraw prompt ?e'"
    proof -
      have "?e' = e\<lparr>scratch := sc, scratch_len := sn, history_view := ?v, buffer := b, buf_len := length (text_of ?src),
          cursor := length (text_of ?src)\<rparr>" by simp
      then show ?thesis using False sc(1) b by (simp only: history_up_def) (simp add: Let_def)
    qed
    have "edit m Key_up (line_of e) = \<lparr>before = text_of ?src, after = [], older = older_of ?e, shown = ?v, typed = typed_of ?e\<rparr>"
      using False v sc(5) older_nth [OF ho v(1)] length_older [OF ho] by (auto simp: L)
    then show ?thesis using k unfolding s by simp
  qed
qed

lemma edit_down:
  assumes "editor_ok e" and "read_state e = STATE_NORMAL"
  shows "keeps (history_down prompt e) (edit m Key_down (line_of e)) (STATE_NORMAL, csi_buf e)"
proof -
  obtain x y where h: "holds e x y" and ho: "history_ok e" using assms(1) by (auto simp: editor_ok_def)
  note L = line_of_holds [OF h]
  show ?thesis
  proof (cases "history_view e < history_count e")
    case False
    then show ?thesis
      using edits_keeps [OF edits_same [OF h] ho] assms(2) length_older [OF ho] by (simp add: history_down_def L)
  next
    case True
    let ?v = "history_view e + 1"
    let ?src = "if ?v = history_count e then scratch e else history e ! ?v"
    have src: "0 \<in> set ?src" "length ?src = 256"
      using ho True by (auto simp: history_ok_def)
    have b256: "length (buffer e) = 256" using h by (simp add: holds_def)
    obtain b where b: "array_strcpy (buffer e) ?src = Some b" "array_strlen b = Some (length (text_of ?src))"
      and hb: "holds (e\<lparr>buffer := b, cursor := length (text_of ?src), buf_len := length (text_of ?src)\<rparr>) (text_of ?src) []"
      using strcpy_line [OF b256 src] by blast
    let ?e = "e\<lparr>history_view := ?v\<rparr>"
    let ?e' = "?e\<lparr>buffer := b, cursor := length (text_of ?src), buf_len := length (text_of ?src)\<rparr>"
    have "holds ?e' (text_of ?src) []" using hb by (simp add: holds_def)
    from edits_buffer [OF edits_redraw [OF this, of prompt]]
    have "edits ?e (redraw prompt ?e') (text_of ?src) []" .
    moreover have "history_ok ?e" using ho True by (simp add: history_ok_def)
    ultimately have k: "keeps (redraw prompt ?e') \<lparr>before = text_of ?src, after = [], older = older_of ?e, shown = ?v,
        typed = typed_of ?e\<rparr> (STATE_NORMAL, csi_buf e)"
      using edits_keeps [of ?e "redraw prompt ?e'"] assms(2) by fastforce
    have sl: "scratch_len e = length (text_of (scratch e))" using ho True by (simp add: history_ok_def)
    have s: "history_down prompt e = redraw prompt ?e'"
    proof -
      have "?e' = e\<lparr>history_view := ?v, buffer := b, buf_len := length (text_of ?src), cursor := length (text_of ?src)\<rparr>" by simp
      then show ?thesis using True b sl by (simp only: history_down_def) (simp add: Let_def split: if_splits)
    qed
    have "edit m Key_down (line_of e) = \<lparr>before = text_of ?src, after = [], older = older_of ?e, shown = ?v, typed = typed_of ?e\<rparr>"
      using True older_nth [OF ho, of ?v] length_older [OF ho] by (auto simp: L Let_def)
    then show ?thesis using k unfolding s by simp
  qed
qed

lemma set_cursor_key:
  assumes "holds e x y" and "history_ok e" and "moved \<longleftrightarrow> n \<noteq> cursor e" and "n \<le> length (x @ y)"
    and "(read_state e, csi_buf e) = st"
    and "edit m k (line_of e) = \<lparr>before = take n (x @ y), after = drop n (x @ y), older = older_of e, shown = history_view e,
      typed = typed_of e\<rparr>"
  shows "keeps (set_cursor prompt moved n e) (edit m k (line_of e)) st"
  using set_cursor_keeps [OF assms(1-4), of prompt] assms(5,6) by simp

lemma holds_len: "holds e x y \<Longrightarrow> cursor e = length x" "holds e x y \<Longrightarrow> buf_len e = length x + length y"
  by (simp_all add: holds_def)

lemma home_keeps:
  assumes "holds e x y" and "history_ok e"
  shows "keeps (set_cursor prompt (cursor e \<noteq> 0) 0 e) (edit m Home_key (line_of e)) (read_state e, csi_buf e)"
  by (rule set_cursor_key [OF assms _ _ refl]) (auto simp: line_of_holds [OF assms(1)])

lemma end_keeps:
  assumes "holds e x y" and "history_ok e"
  shows "keeps (set_cursor prompt (cursor e \<noteq> buf_len e) (buf_len e) e) (edit m End_key (line_of e)) (read_state e, csi_buf e)"
  by (rule set_cursor_key [OF assms _ _ refl]) (auto simp: line_of_holds [OF assms(1)] holds_len [OF assms(1)])

lemma left_keeps:
  assumes "holds e x y" and "history_ok e"
  shows "keeps (set_cursor prompt (cursor e > 0) (cursor e - 1) e) (edit m Cursor_left (line_of e)) (read_state e, csi_buf e)"
proof (rule set_cursor_key [OF assms _ _ refl])
  note l = holds_len [OF assms(1)]
  show "(cursor e > 0) = (cursor e - 1 \<noteq> cursor e)" "cursor e - 1 \<le> length (x @ y)" using l by (cases x, auto)
  show "edit m Cursor_left (line_of e) = \<lparr>before = take (cursor e - 1) (x @ y), after = drop (cursor e - 1) (x @ y),
      older = older_of e, shown = history_view e, typed = typed_of e\<rparr>"
    by (cases x rule: rev_cases) (simp_all add: line_of_holds [OF assms(1)] l)
qed

lemma right_keeps:
  assumes "holds e x y" and "history_ok e"
  shows "keeps (if cursor e < buf_len e then set_cursor prompt True (cursor e + 1) e else Some (More e))
    (edit m Cursor_right (line_of e)) (read_state e, csi_buf e)"
proof (cases y)
  case Nil
  then show ?thesis using edits_keeps [OF edits_same [OF assms(1)] assms(2)] assms(1)
    by (simp add: line_of_holds) (simp add: holds_def)
next
  case (Cons c z)
  have "keeps (set_cursor prompt True (cursor e + 1) e) (edit m Cursor_right (line_of e)) (read_state e, csi_buf e)"
    by (rule set_cursor_key [OF assms _ _ refl]) (auto simp: line_of_holds [OF assms(1)] holds_len [OF assms(1)] Cons)
  then show ?thesis using assms(1) Cons by (simp add: holds_def)
qed

lemma edits_key:
  assumes "edits e s x y" and "history_ok e" and "(read_state e, csi_buf e) = st"
    and "edit m k (line_of e) = \<lparr>before = x, after = y, older = older_of e, shown = history_view e, typed = typed_of e\<rparr>"
  shows "keeps s (edit m k (line_of e)) st"
  using edits_keeps [OF assms(1,2)] assms(3,4) by simp

lemma delete_keeps:
  assumes "holds e x y" and "history_ok e"
  shows "keeps (delete_at_cursor prompt e) (edit m Delete (line_of e)) (read_state e, csi_buf e)"
  by (rule edits_key [OF delete_edits [OF assms(1)] assms(2) refl]) (simp add: line_of_holds [OF assms(1)])

lemma same_keeps:
  assumes "holds e x y" and "history_ok e"
  shows "keeps (Some (More e)) (edit m No_key (line_of e)) (read_state e, csi_buf e)"
  by (rule edits_key [OF edits_same [OF assms(1)] assms(2) refl]) (simp add: line_of_holds [OF assms(1)])

lemma control_keeps:
  assumes "editor_ok e" and "c \<noteq> 3" and "c = 4 \<longrightarrow> buf_len e \<noteq> 0" and "c < 32" and "c \<notin> {0x08, 0x0A, 0x0D}"
  shows "keeps (control_key prompt c e) (edit m (plain_key c) (line_of e)) (read_state e, csi_buf e)"
proof -
  obtain x y where h: "holds e x y" and ho: "history_ok e" using assms(1) by (auto simp: editor_ok_def)
  note L = line_of_holds [OF h]
  consider "c = 1" | "c = 4" | "c = 5" | "c = 11" | "c = 12" | "c = 21" | "c \<notin> {1, 4, 5, 11, 12, 21}" by blast
  then show ?thesis
  proof cases
    case 4
    show ?thesis
    proof (cases "cursor e < buf_len e")
      case True
      obtain b where b: "array_store (cursor e) 0 (buffer e) = Some b"
        "edits e (redraw prompt (e\<lparr>buffer := b, buf_len := cursor e\<rparr>)) x []"
        using kill_end_edits [OF h True, of prompt] by blast
      show ?thesis using 4 True b(1) edits_key [OF b(2) ho refl, of m Kill_end] by (simp add: control_key_def plain_key_def L)
    next
      case False
      then have "y = []" using h by (simp add: holds_def)
      then show ?thesis using 4 False same_keeps [OF h ho] by (simp add: control_key_def plain_key_def L)
    qed
  next
    case 5
    have "0 \<in> set (buffer e)" by (rule holds_zero [OF h])
    have h': "holds (e\<lparr>last_drawn_len := n, written := w\<rparr>) x y" for n w using h by (simp add: holds_def)
    have d: "edits e (redraw prompt (e\<lparr>last_drawn_len := n, written := w\<rparr>)) x y" for n w
      using edits_redraw [OF h', where prompt = prompt] by (simp add: edits_def)
    show ?thesis using 5 edits_key [OF d ho refl, of m No_key] by (simp add: control_key_def plain_key_def L)
  next
    case 6
    obtain b where b: "array_memmove 0 (cursor e) (buf_len e - cursor e + 1) (buffer e) = Some b"
      "edits e (redraw prompt (e\<lparr>buffer := b, buf_len := buf_len e - cursor e, cursor := 0\<rparr>)) [] y"
      using kill_start_edits [OF h, of prompt] by blast
    show ?thesis
    proof (cases "cursor e = 0")
      case True
      then have "x = []" using h by (simp add: holds_def)
      then show ?thesis using 6 True same_keeps [OF h ho] by (simp add: control_key_def plain_key_def L)
    next
      case False
      then have "control_key prompt c e = redraw prompt (e\<lparr>buffer := b, buf_len := buf_len e - cursor e, cursor := 0\<rparr>)"
        using 6 b(1) by (simp add: control_key_def)
      then show ?thesis using 6 edits_key [OF b(2) ho refl, of m Kill_start] by (simp add: plain_key_def L)
    qed
  next
    case 7
    then have "plain_key c = No_key" using assms(4,5) by (auto simp: plain_key_def word_less_nat_alt word_le_nat_alt)
    then show ?thesis using 7 assms(2) same_keeps [OF h ho] by (simp add: control_key_def)
  qed (use assms(3) h ho home_keeps end_keeps delete_keeps in \<open>auto simp: control_key_def plain_key_def\<close>)
qed

lemma plain_keeps:
  assumes "editor_ok e" and "m \<le> 256" and "c \<notin> {0x0A, 0x0D, 3}" and "c = 4 \<longrightarrow> buf_len e \<noteq> 0"
    and "read_state e = STATE_NORMAL"
  shows "keeps (plain_byte prompt m c e) (edit m (plain_key c) (line_of e))
    (if c = 0x1B then STATE_ESC else STATE_NORMAL, csi_buf e)"
proof -
  obtain x y where h: "holds e x y" and ho: "history_ok e" using assms(1) by (auto simp: editor_ok_def)
  note L = line_of_holds [OF h] and l = holds_len [OF h]
  consider "c = 0x1B" | "c = 0x08 \<or> c = 127" | "c < 32" "c \<notin> {0x1B, 0x08, 0x0A, 0x0D}" | "32 \<le> c" "c < 127" | "127 < c"
    using assms(3) linorder_not_less [of c 32] less_linear [of c 127] by blast
  then show ?thesis
  proof cases
    case 1
    have "holds (e\<lparr>read_state := STATE_ESC\<rparr>) x y" using h by (simp add: holds_def)
    then have "keeps (Some (More (e\<lparr>read_state := STATE_ESC\<rparr>))) (line_of e) (STATE_ESC, csi_buf e)"
      using ho by (auto simp: keeps_def editor_ok_def history_ok_def line_of_def)
    then show ?thesis using 1 by (simp add: plain_byte_def plain_key_def)
  next
    case 2
    then have c: "c \<noteq> 0x1B" "plain_key c = Backspace" by (auto simp: plain_key_def)
    show ?thesis
    proof (cases "cursor e > 0")
      case True
      obtain b where b: "array_memmove (cursor e - 1) (cursor e) (buf_len e - cursor e + 1) (buffer e) = Some b"
        "edits e (redraw prompt (e\<lparr>buffer := b, cursor := cursor e - 1, buf_len := buf_len e - 1\<rparr>)) (butlast x) y"
        using backspace_edits [OF h True, of prompt] by blast
      then have "plain_byte prompt m c e = redraw prompt (e\<lparr>buffer := b, cursor := cursor e - 1, buf_len := buf_len e - 1\<rparr>)"
        using True 2 by (auto simp: plain_byte_def)
      then show ?thesis using c edits_key [OF b(2) ho refl, of m Backspace] assms(5) by (simp add: L)
    next
      case False
      then have "plain_byte prompt m c e = Some (More e)" using 2 by (elim disjE) (simp_all add: plain_byte_def)
      moreover have "x = []" using False l(1) by simp
      ultimately show ?thesis
        using c edits_key [OF edits_same [OF h] ho refl, of m Backspace] assms(5) by (simp add: L)
    qed
  next
    case 3
    then have "plain_byte prompt m c e = control_key prompt c e" using assms(3) by (auto simp: plain_byte_def)
    then show ?thesis using control_keeps [of e c prompt m] assms 3 by simp
  next
    case 4
    have n: "c \<noteq> 0" "c \<noteq> 1" "c \<noteq> 4" "c \<noteq> 5" "c \<noteq> 8" "c \<noteq> 10" "c \<noteq> 11" "c \<noteq> 13" "c \<noteq> 21" "c \<noteq> 27"
      by (rule notI, use 4(1) in \<open>simp add: word_le_nat_alt\<close>)+
    have n': "c \<noteq> 127" "\<not> c < 32" using 4 by auto
    have c: "c \<noteq> 0x1B" "c \<noteq> 0" "plain_key c = Insert c" using n n' 4 by (simp_all add: plain_key_def)
    have p: "plain_byte prompt m c e =
      (if buf_len e < m - 1 then
         (case array_memmove (cursor e + 1) (cursor e) (buf_len e - cursor e + 1) (buffer e) of None \<Rightarrow> None
          | Some b \<Rightarrow>
              (case array_store (cursor e) c b of None \<Rightarrow> None
               | Some b \<Rightarrow> redraw prompt (e\<lparr>buffer := b, cursor := cursor e + 1, buf_len := buf_len e + 1\<rparr>)))
       else Some (More e))"
      using n n' 4(2) by (simp add: plain_byte_def)
    show ?thesis
    proof (cases "buf_len e < m - 1")
      case True
      then have "buf_len e < 255" using assms(2) by simp
      from insert_edits [OF h this c(2), of prompt] obtain b b' where
        b: "array_memmove (cursor e + 1) (cursor e) (buf_len e - cursor e + 1) (buffer e) = Some b"
        "array_store (cursor e) c b = Some b'"
        "edits e (redraw prompt (e\<lparr>buffer := b', cursor := cursor e + 1, buf_len := buf_len e + 1\<rparr>)) (x @ [c]) y" by blast
      have "plain_byte prompt m c e = redraw prompt (e\<lparr>buffer := b', cursor := cursor e + 1, buf_len := buf_len e + 1\<rparr>)"
        using True b(1,2) by (simp add: p)
      then show ?thesis using c True l edits_key [OF b(3) ho refl, of m "Insert c"] assms(5) by (simp add: L)
    next
      case False
      then show ?thesis
        using c l edits_key [OF edits_same [OF h] ho refl, of m "Insert c"] assms(5) by (simp add: p) (simp add: L)
    qed
  next
    case 5
    have n: "c \<noteq> 0" "c \<noteq> 1" "c \<noteq> 4" "c \<noteq> 5" "c \<noteq> 8" "c \<noteq> 10" "c \<noteq> 11" "c \<noteq> 13" "c \<noteq> 21" "c \<noteq> 27" "c \<noteq> 127"
      by (rule notI, use 5 in \<open>simp add: word_less_nat_alt\<close>)+
    have n': "\<not> c < 127" "\<not> c < 32" using 5 by (simp_all add: word_less_nat_alt)
    have "plain_byte prompt m c e = Some (More e)" "plain_key c = No_key" "c \<noteq> 0x1B"
      using n n' by (simp_all add: plain_byte_def plain_key_def)
    then show ?thesis using same_keeps [OF h ho, of m] assms(5) by simp
  qed
qed

lemma csi_keeps:
  assumes "editor_ok e"
  shows "keeps (csi_final prompt c e) (edit m (csi_key (csi_buf e) c) (line_of e)) (STATE_NORMAL, csi_buf e)"
proof -
  let ?e = "e\<lparr>read_state := STATE_NORMAL\<rparr>"
  obtain x y where h: "holds ?e x y" and ho: "history_ok ?e" using assms by (auto simp: editor_ok_def holds_def history_ok_def)
  have ok: "editor_ok ?e" using h ho by (auto simp: editor_ok_def)
  have l: "line_of ?e = line_of e" by (simp add: line_of_def)
  have r: "keeps (set_cursor prompt (cursor e < buf_len e) (cursor e + 1) ?e) (edit m Cursor_right (line_of e)) (STATE_NORMAL, csi_buf e)"
    using right_keeps [OF h ho, of prompt m] by (cases "cursor e < buf_len e") (simp_all add: set_cursor_def l)
  show ?thesis
  proof (cases "csi_buf e = []")
    case True
    consider "c = 0x41" | "c = 0x42" | "c = 0x43" | "c = 0x44" | "c = 0x48" | "c = 0x46"
      | "c \<notin> {0x41, 0x42, 0x43, 0x44, 0x48, 0x46}" by blast
    then show ?thesis
    proof cases
      case 1
      then show ?thesis using True edit_up [OF ok, of prompt m] by (simp add: csi_final_def csi_key_def l)
    next
      case 2
      then show ?thesis using True edit_down [OF ok, of prompt m] by (simp add: csi_final_def csi_key_def l)
    next
      case 3
      then show ?thesis using True r by (simp add: csi_final_def csi_key_def)
    next
      case 4
      then show ?thesis using True left_keeps [OF h ho, of prompt m] by (simp add: csi_final_def csi_key_def l)
    next
      case 5
      then show ?thesis using True home_keeps [OF h ho, of prompt m] by (simp add: csi_final_def csi_key_def l)
    next
      case 6
      then show ?thesis using True end_keeps [OF h ho, of prompt m] by (simp add: csi_final_def csi_key_def l)
    next
      case 7
      then show ?thesis using True same_keeps [OF h ho, of m] by (simp add: csi_final_def csi_key_def l)
    qed
  next
    case False
    have d: "(length (csi_buf e) = Suc 0 \<and> csi_buf e ! 0 = 0x33) = (csi_buf e = [0x33])" by (cases "csi_buf e") auto
    show ?thesis
    proof (cases "csi_buf e = [0x33] \<and> c = 0x7E")
      case True
      then show ?thesis using delete_keeps [OF h ho, of prompt m] by (simp add: csi_final_def csi_key_def l)
    next
      case no: False
      then have "csi_final prompt c e = Some (More ?e)" "csi_key (csi_buf e) c = No_key"
        using False d by (auto simp: csi_final_def csi_key_def)
      then show ?thesis using same_keeps [OF h ho, of m] by (simp add: l)
    qed
  qed
qed

lemma readline_step_keeps:
  assumes "editor_ok e" and "m \<le> 256" and "c \<notin> {0x0A, 0x0D, 3, 4}"
  shows "keeps (readline_step prompt m c e) (edit m (key_of (read_state e, csi_buf e) c) (line_of e))
    (scan_byte (read_state e, csi_buf e) c)"
proof (cases "read_state e")
  case STATE_NORMAL
  then show ?thesis using plain_keeps [OF assms(1,2)] assms(3) by (simp add: readline_step_def)
next
  case STATE_ESC
  let ?e = "e\<lparr>read_state := STATE_NORMAL\<rparr>" and ?f = "e\<lparr>read_state := STATE_CSI, csi_buf := []\<rparr>"
  have ok: "editor_ok ?e" "editor_ok ?f" and l: "line_of ?e = line_of e" "line_of ?f = line_of e"
    using assms(1) by (auto simp: editor_ok_def holds_def history_ok_def line_of_def)
  have "keeps (Some (More ?f)) (line_of e) (STATE_CSI, [])" using ok l by (simp add: keeps_def)
  then show ?thesis using STATE_ESC plain_keeps [OF ok(1) assms(2), of c prompt] assms(3) l by (simp add: readline_step_def)
next
  case STATE_CSI
  let ?e = "e\<lparr>read_state := STATE_NORMAL\<rparr>" and ?f = "e\<lparr>csi_buf := csi_buf e @ [c]\<rparr>"
  have ok: "editor_ok ?e" "editor_ok ?f" and l: "line_of ?e = line_of e" "line_of ?f = line_of e"
    using assms(1) by (auto simp: editor_ok_def holds_def history_ok_def line_of_def)
  then have "keeps (Some (More ?e)) (line_of e) (STATE_NORMAL, csi_buf e)"
    "keeps (Some (More ?f)) (line_of e) (STATE_CSI, csi_buf e @ [c])" "keeps (Some (More e)) (line_of e) (STATE_CSI, csi_buf e)"
    using assms(1) STATE_CSI by (auto simp: keeps_def)
  then show ?thesis
    using STATE_CSI csi_keeps [OF assms(1)] by (auto simp: readline_step_def csi_param_def)
qed

lemma readline_loop_keeps:
  assumes "m \<le> 256" and "set cs \<inter> {0x0A, 0x0D, 3, 4} = {}" and "editor_ok e"
  shows "\<exists>e'. (\<forall>rest. readline_loop prompt m (cs @ rest) e = readline_loop prompt m rest e') \<and> editor_ok e' \<and>
    line_of e' = fold (edit m) (keys_of (read_state e, csi_buf e) cs) (line_of e) \<and>
    (read_state e', csi_buf e') = foldl scan_byte (read_state e, csi_buf e) cs"
  using assms(2,3)
proof (induction cs arbitrary: e)
  case (Cons c cs)
  obtain e1 where e1: "readline_step prompt m c e = Some (More e1)" "editor_ok e1"
    "line_of e1 = edit m (key_of (read_state e, csi_buf e) c) (line_of e)"
    "(read_state e1, csi_buf e1) = scan_byte (read_state e, csi_buf e) c"
    using readline_step_keeps [OF Cons.prems(2) assms(1), of c prompt] Cons.prems(1) by (auto simp: keeps_def)
  then show ?case using Cons.IH [OF _ e1(2)] Cons.prems(1) by auto
qed auto

lemma readline_edits:
  assumes "history_ok e" and "length (buffer e) = 256" and "m \<le> 256"
    and "set cs \<inter> {0x0A, 0x0D, 3, 4} = {}" and "fst (foldl scan_byte (STATE_NORMAL, []) cs) \<noteq> STATE_CSI"
    and ret: "ret = 0x0A \<or> ret = 0x0D"
  shows "\<exists>e'. readline prompt m (cs @ [ret]) e = Some (Return 0 e', []) \<and> editor_ok e' \<and>
    (let l = fold (edit m) (keys_of (STATE_NORMAL, []) cs)
       \<lparr>before = [], after = [], older = older_of e, shown = history_view e, typed = typed_of e\<rparr>
     in text_of (buffer e') = before l @ after l \<and> shown l = history_view e')"
proof -
  obtain b r where b: "array_store 0 0 (buffer e) = Some b" "b = 0 # r" "length b = 256"
    using assms(2) by (cases "buffer e") (auto simp: array_store_def)
  define e0 where "e0 = e\<lparr>buffer := b, cursor := 0, buf_len := 0, read_state := STATE_NORMAL, csi_buf := [],
    last_drawn_len := ansi_visible_len prompt, written := written e @ prompt\<rparr>"
  have h: "holds e0 [] []" using b by (simp add: holds_def e0_def)
  have ok: "editor_ok e0" using assms(1) h by (auto simp: editor_ok_def history_ok_def e0_def)
  have l0: "line_of e0 = \<lparr>before = [], after = [], older = older_of e, shown = history_view e, typed = typed_of e\<rparr>"
    unfolding line_of_holds [OF h] by (simp add: e0_def)
  obtain e1 where e1: "readline_loop prompt m (cs @ [ret]) e0 = readline_loop prompt m [ret] e1" "editor_ok e1"
    "line_of e1 = fold (edit m) (keys_of (STATE_NORMAL, []) cs) (line_of e0)"
    "(read_state e1, csi_buf e1) = foldl scan_byte (STATE_NORMAL, []) cs"
    using readline_loop_keeps [OF assms(3,4) ok, of prompt] by (auto simp: e0_def)
  obtain x y where h1: "holds e1 x y" "history_ok e1" using e1(2) by (auto simp: editor_ok_def)
  obtain r' where r': "buffer e1 = x @ y @ 0 # r'" "buf_len e1 = length (x @ y)" "0 \<notin> set (x @ y)"
    using h1(1) by (auto simp: holds_def)
  have st: "array_store (buf_len e1) 0 (buffer e1) = Some (buffer e1)"
    using r' by (simp add: array_store_def list_update_append)
  have ns: "read_state e1 \<noteq> STATE_CSI" using assms(5) e1(4) by (metis fst_conv)
  have p: "plain_byte prompt m ret (e1\<lparr>read_state := STATE_NORMAL\<rparr>) =
      Some (Return 0 (e1\<lparr>read_state := STATE_NORMAL, written := written e1 @ [0x0A]\<rparr>))"
    using st ret by (auto simp: plain_byte_def)
  let ?e2 = "e1\<lparr>read_state := STATE_NORMAL, written := written e1 @ [0x0A]\<rparr>"
  have "readline_step prompt m ret e1 = Some (Return 0 ?e2)"
  proof (cases "read_state e1")
    case STATE_NORMAL
    then have eq: "e1\<lparr>read_state := STATE_NORMAL\<rparr> = e1" by (cases e1) simp
    show ?thesis using p STATE_NORMAL unfolding eq by (simp add: readline_step_def)
  qed (use p ns ret in \<open>auto simp: readline_step_def\<close>)
  then have "readline prompt m (cs @ [ret]) e = Some (Return 0 ?e2, [])"
    using e1(1) b(1) by (simp add: readline_def readline_start_def e0_def)
  moreover have "editor_ok ?e2" using h1 by (auto simp: editor_ok_def holds_def history_ok_def)
  moreover have "text_of (buffer ?e2) = x @ y" using text_of_NUL [OF r'(3), of r'] r'(1) by simp
  ultimately show ?thesis using e1(3) line_of_holds [OF h1(1)] unfolding l0 by (auto simp: Let_def dest: sym)
qed

text \<open>C15. \<open>readline\<close> implements the abstract line editor: whatever keys the input bytes stand for (characters, arrows,
  Home, End, Delete, Backspace, the kill keys, the history keys, unknown escape sequences), it never reads or writes outside
  its arrays, and Return delivers exactly the line that these keys edit.\<close>

theorem readline_edits_line:
  assumes "history_ok e" and "length (buffer e) = 256" and "m \<le> 256"
    and "set cs \<inter> {0x0A, 0x0D, 3, 4} = {}" and "fst (foldl scan_byte (STATE_NORMAL, []) cs) \<noteq> STATE_CSI"
  shows "\<exists>e'. readline prompt m (cs @ [0x0D]) e = Some (Return 0 e', []) \<and> editor_ok e' \<and>
    (let l = fold (edit m) (keys_of (STATE_NORMAL, []) cs)
       \<lparr>before = [], after = [], older = older_of e, shown = history_view e, typed = typed_of e\<rparr>
     in text_of (buffer e') = before l @ after l \<and> shown l = history_view e')"
  using assms by (intro readline_edits) simp_all

definition editor_demo :: editor where
  "editor_demo = \<lparr>history = replicate 32 (replicate 256 0), history_count = 0, history_view = 0, scratch = replicate 256 0,
     scratch_len = 0, last_drawn_len = 0, buffer = replicate 256 0, cursor = 0, buf_len = 0, read_state = STATE_NORMAL,
     csi_buf = [], written = []\<rparr>"

text \<open>\<open>lx\<close>, cursor left, \<open>s\<close>, Delete.\<close>

lemma readline_edits_line_witness:
  "\<exists>e'. readline [] 256 ([0x6C, 0x78, 0x1B, 0x5B, 0x44, 0x73, 0x1B, 0x5B, 0x33, 0x7E] @ [0x0D]) editor_demo =
      Some (Return 0 e', []) \<and> text_of (buffer e') = [0x6C, 0x73]"
proof -
  let ?cs = "[0x6C, 0x78, 0x1B, 0x5B, 0x44, 0x73, 0x1B, 0x5B, 0x33, 0x7E] :: u8 list"
  have h: "history_ok editor_demo" "length (buffer editor_demo) = 256" by (simp_all add: history_ok_def editor_demo_def)
  have k: "keys_of (STATE_NORMAL, []) ?cs =
      [Insert 0x6C, Insert 0x78, No_key, No_key, Cursor_left, Insert 0x73, No_key, No_key, No_key, Delete]"
    by (simp add: plain_key_def csi_key_def csi_param_def)
  have "fst (foldl scan_byte (STATE_NORMAL, []) ?cs) \<noteq> STATE_CSI" by (simp add: csi_param_def)
  then show ?thesis
    using readline_edits_line [OF h, of 256 ?cs "[]"] unfolding k by (simp add: Let_def) blast
qed

section \<open>The history\<close>

text \<open>Lines enter the history at its end, the oldest leaving when it is full; an empty line and a repetition of the last
  line do not enter.\<close>

lemma older_length: "history_ok e \<Longrightarrow> older_of e = [] \<longleftrightarrow> history_count e = 0"
  by (auto simp: history_ok_def)

lemma history_add_new:
  assumes "history_ok e" and "length line = 256" and "0 \<in> set line" and "text_of line \<noteq> []"
    and "history_count e < 32" and "history_count e > 0 \<longrightarrow> last (older_of e) \<noteq> text_of line"
  shows "\<exists>e'. history_add line e = Some e' \<and> history_ok e' \<and> older_of e' = older_of e @ [text_of line] \<and>
    history_view e' = history_count e'"
proof -
  let ?n = "history_count e"
  have len: "length (history e) = 32" "\<forall>a\<in>set (history e). length a = 256" using assms(1) by (auto simp: history_ok_def)
  have d: "\<not> (?n > 0 \<and> text_of (history e ! (?n - 1)) = text_of line)"
  proof
    assume a: "?n > 0 \<and> text_of (history e ! (?n - 1)) = text_of line"
    then have "last (older_of e) = older_of e ! (?n - 1)" using length_older [OF assms(1)] older_length [OF assms(1)]
      by (simp add: last_conv_nth)
    then show False using a assms(6) older_nth [OF assms(1), of "?n - 1"] by simp
  qed
  have "length (text_of line) < length (history e ! ?n)"
    using text_shorter [OF assms(3)] assms(2,5) len nth_mem [of ?n "history e"] by auto
  then obtain r where a: "array_strcpy (history e ! ?n) line = Some (text_of line @ 0 # r)"
    "length (text_of line @ 0 # r) = 256"
    using strcpy_text [OF assms(3)] len assms(5) by (metis nth_mem)
  let ?a = "text_of line @ 0 # r"
  let ?e = "e\<lparr>history := (history e)[?n := ?a], history_count := ?n + 1, history_view := ?n + 1, scratch_len := 0\<rparr>"
  have e: "history_add line e = Some ?e" using assms(4,5) d a(1) by (auto simp: history_add_def)
  have "\<forall>b\<in>set ((history e)[?n := ?a]). length b = 256"
    using len(2) a(2) set_update_subset_insert [of "history e" ?n ?a] by auto
  moreover have "\<forall>i < ?n + 1. 0 \<in> set ((history e)[?n := ?a] ! i)"
    using assms(1,5) len(1) by (auto simp: history_ok_def less_Suc_eq nth_list_update)
  ultimately have "history_ok ?e" using assms(1,5) len by (simp add: history_ok_def)
  moreover have "take (?n + 1) ((history e)[?n := ?a]) = take ?n (history e) @ [?a]"
    using assms(5) len(1) by (simp add: take_Suc_conv_app_nth)
  then have "older_of ?e = older_of e @ [text_of line]" by (simp add: text_of_nonzero)
  ultimately show ?thesis using e by auto
qed

text \<open>A repetition leaves \<open>history_view\<close> where the arrow keys moved it, so the next Up skips a line: after typing
  \<open>a\<close>, \<open>b\<close>, and recalling \<open>b\<close> with Up, Up shows \<open>a\<close> at once.\<close>

lemma repeated_line_keeps_view:
  assumes "history_count e > 0" and "text_of (history e ! (history_count e - 1)) = text_of line"
  shows "history_add line e = Some e"
  using assms by (simp add: history_add_def)

end
