(* ===== verification/Fbuf.thy ===== *)
theory Fbuf
  imports Heap Klib_Printf
begin

text \<open>
  The frame buffer driver (\<open>framebuffer.c\<close>): its state, glyph lookup, the drawing primitives with and without double
  buffering, the dirty rectangle, scrolling, and the character output with its UTF-8 decoder. The visible memory and the
  back buffer are maps from word indices to pixels (\<open>lfb\<close>, \<open>back_buffer\<close>); \<open>font_mem\<close> is the memory that the glyph and the
  Unicode table pointers point into. The invariants and the equivalence of the two modes are in \<open>Fbuf_Spec\<close>.
\<close>

unbundle bit_operations_syntax

section \<open>State\<close>

text \<open>The fallback font, 16 rows for each of the characters 32 to 126.\<close>

definition fallback_font :: "u8 list" where
  "fallback_font = [
     0x00, 0x00, 0x00, 0x00, 0x00, 0x00, 0x00, 0x00, 0x00, 0x00, 0x00, 0x00, 0x00, 0x00, 0x00, 0x00,
     0x00, 0x00, 0x18, 0x3C, 0x3C, 0x3C, 0x18, 0x18, 0x18, 0x00, 0x18, 0x18, 0x00, 0x00, 0x00, 0x00,
     0x00, 0x00, 0x66, 0x66, 0x66, 0x24, 0x00, 0x00, 0x00, 0x00, 0x00, 0x00, 0x00, 0x00, 0x00, 0x00,
     0x00, 0x00, 0x6C, 0x6C, 0xFE, 0x6C, 0x6C, 0xFE, 0x6C, 0x6C, 0x00, 0x00, 0x00, 0x00, 0x00, 0x00,
     0x18, 0x18, 0x7C, 0xC6, 0xC2, 0xC0, 0x7C, 0x06, 0x06, 0x86, 0xC6, 0x7C, 0x18, 0x18, 0x00, 0x00,
     0x00, 0x00, 0x00, 0x00, 0xC2, 0xC6, 0x0C, 0x18, 0x30, 0x60, 0xC6, 0x86, 0x00, 0x00, 0x00, 0x00,
     0x00, 0x00, 0x38, 0x6C, 0x6C, 0x38, 0x76, 0xDC, 0xCC, 0xCC, 0xCC, 0x76, 0x00, 0x00, 0x00, 0x00,
     0x00, 0x00, 0x30, 0x30, 0x30, 0x60, 0x00, 0x00, 0x00, 0x00, 0x00, 0x00, 0x00, 0x00, 0x00, 0x00,
     0x00, 0x00, 0x0C, 0x18, 0x30, 0x30, 0x30, 0x30, 0x30, 0x30, 0x18, 0x0C, 0x00, 0x00, 0x00, 0x00,
     0x00, 0x00, 0x30, 0x18, 0x0C, 0x0C, 0x0C, 0x0C, 0x0C, 0x0C, 0x18, 0x30, 0x00, 0x00, 0x00, 0x00,
     0x00, 0x00, 0x00, 0x00, 0x00, 0x66, 0x3C, 0xFF, 0x3C, 0x66, 0x00, 0x00, 0x00, 0x00, 0x00, 0x00,
     0x00, 0x00, 0x00, 0x00, 0x00, 0x18, 0x18, 0x7E, 0x18, 0x18, 0x00, 0x00, 0x00, 0x00, 0x00, 0x00,
     0x00, 0x00, 0x00, 0x00, 0x00, 0x00, 0x00, 0x00, 0x00, 0x18, 0x18, 0x18, 0x30, 0x00, 0x00, 0x00,
     0x00, 0x00, 0x00, 0x00, 0x00, 0x00, 0x00, 0x7E, 0x00, 0x00, 0x00, 0x00, 0x00, 0x00, 0x00, 0x00,
     0x00, 0x00, 0x00, 0x00, 0x00, 0x00, 0x00, 0x00, 0x00, 0x18, 0x18, 0x18, 0x00, 0x00, 0x00, 0x00,
     0x00, 0x00, 0x00, 0x00, 0x06, 0x06, 0x0C, 0x0C, 0x18, 0x18, 0x30, 0x30, 0x00, 0x00, 0x00, 0x00,
     0x00, 0x00, 0x7C, 0xC6, 0xC6, 0xCE, 0xDE, 0xF6, 0xE6, 0xC6, 0xC6, 0x7C, 0x00, 0x00, 0x00, 0x00,
     0x00, 0x00, 0x18, 0x38, 0x78, 0x18, 0x18, 0x18, 0x18, 0x18, 0x18, 0x7E, 0x00, 0x00, 0x00, 0x00,
     0x00, 0x00, 0x7C, 0xC6, 0x06, 0x0C, 0x18, 0x30, 0x60, 0xC0, 0xC6, 0xFE, 0x00, 0x00, 0x00, 0x00,
     0x00, 0x00, 0x7C, 0xC6, 0x06, 0x06, 0x3C, 0x06, 0x06, 0x06, 0xC6, 0x7C, 0x00, 0x00, 0x00, 0x00,
     0x00, 0x00, 0x0C, 0x1C, 0x3C, 0x6C, 0xCC, 0xFE, 0x0C, 0x0C, 0x0C, 0x1E, 0x00, 0x00, 0x00, 0x00,
     0x00, 0x00, 0xFE, 0xC0, 0xC0, 0xC0, 0xFC, 0x06, 0x06, 0x06, 0xC6, 0x7C, 0x00, 0x00, 0x00, 0x00,
     0x00, 0x00, 0x38, 0x60, 0xC0, 0xC0, 0xFC, 0xC6, 0xC6, 0xC6, 0xC6, 0x7C, 0x00, 0x00, 0x00, 0x00,
     0x00, 0x00, 0xFE, 0xC6, 0x06, 0x06, 0x0C, 0x18, 0x30, 0x30, 0x30, 0x30, 0x00, 0x00, 0x00, 0x00,
     0x00, 0x00, 0x7C, 0xC6, 0xC6, 0xC6, 0x7C, 0xC6, 0xC6, 0xC6, 0xC6, 0x7C, 0x00, 0x00, 0x00, 0x00,
     0x00, 0x00, 0x7C, 0xC6, 0xC6, 0xC6, 0x7E, 0x06, 0x06, 0x06, 0x0C, 0x78, 0x00, 0x00, 0x00, 0x00,
     0x00, 0x00, 0x00, 0x00, 0x18, 0x18, 0x18, 0x00, 0x00, 0x18, 0x18, 0x18, 0x00, 0x00, 0x00, 0x00,
     0x00, 0x00, 0x00, 0x00, 0x18, 0x18, 0x18, 0x00, 0x00, 0x18, 0x18, 0x18, 0x30, 0x00, 0x00, 0x00,
     0x00, 0x00, 0x00, 0x06, 0x0C, 0x18, 0x30, 0x60, 0x30, 0x18, 0x0C, 0x06, 0x00, 0x00, 0x00, 0x00,
     0x00, 0x00, 0x00, 0x00, 0x00, 0x7E, 0x00, 0x00, 0x7E, 0x00, 0x00, 0x00, 0x00, 0x00, 0x00, 0x00,
     0x00, 0x00, 0x00, 0x60, 0x30, 0x18, 0x0C, 0x06, 0x0C, 0x18, 0x30, 0x60, 0x00, 0x00, 0x00, 0x00,
     0x00, 0x00, 0x7C, 0xC6, 0xC6, 0x0C, 0x18, 0x18, 0x18, 0x00, 0x18, 0x18, 0x00, 0x00, 0x00, 0x00,
     0x00, 0x00, 0x00, 0x7C, 0xC6, 0xC6, 0xDE, 0xDE, 0xDE, 0xDC, 0xC0, 0x7C, 0x00, 0x00, 0x00, 0x00,
     0x00, 0x00, 0x10, 0x38, 0x6C, 0xC6, 0xC6, 0xFE, 0xC6, 0xC6, 0xC6, 0xC6, 0x00, 0x00, 0x00, 0x00,
     0x00, 0x00, 0xFC, 0x66, 0x66, 0x66, 0x7C, 0x66, 0x66, 0x66, 0x66, 0xFC, 0x00, 0x00, 0x00, 0x00,
     0x00, 0x00, 0x3C, 0x66, 0xC2, 0xC0, 0xC0, 0xC0, 0xC2, 0x66, 0x3C, 0x00, 0x00, 0x00, 0x00, 0x00,
     0x00, 0x00, 0xF8, 0x6C, 0x66, 0x66, 0x66, 0x66, 0x66, 0x66, 0x6C, 0xF8, 0x00, 0x00, 0x00, 0x00,
     0x00, 0x00, 0xFE, 0x66, 0x62, 0x68, 0x78, 0x68, 0x60, 0x62, 0x66, 0xFE, 0x00, 0x00, 0x00, 0x00,
     0x00, 0x00, 0xFE, 0x66, 0x62, 0x68, 0x78, 0x68, 0x60, 0x60, 0x60, 0xF0, 0x00, 0x00, 0x00, 0x00,
     0x00, 0x00, 0x3C, 0x66, 0xC2, 0xC0, 0xC0, 0xDE, 0xC6, 0xC6, 0x66, 0x3A, 0x00, 0x00, 0x00, 0x00,
     0x00, 0x00, 0xC6, 0xC6, 0xC6, 0xC6, 0xFE, 0xC6, 0xC6, 0xC6, 0xC6, 0xC6, 0x00, 0x00, 0x00, 0x00,
     0x00, 0x00, 0x3C, 0x18, 0x18, 0x18, 0x18, 0x18, 0x18, 0x18, 0x18, 0x3C, 0x00, 0x00, 0x00, 0x00,
     0x00, 0x00, 0x1E, 0x0C, 0x0C, 0x0C, 0x0C, 0x0C, 0xCC, 0xCC, 0xCC, 0x78, 0x00, 0x00, 0x00, 0x00,
     0x00, 0x00, 0xE6, 0x66, 0x66, 0x6C, 0x78, 0x78, 0x6C, 0x66, 0x66, 0xE6, 0x00, 0x00, 0x00, 0x00,
     0x00, 0x00, 0xF0, 0x60, 0x60, 0x60, 0x60, 0x60, 0x60, 0x62, 0x66, 0xFE, 0x00, 0x00, 0x00, 0x00,
     0x00, 0x00, 0xC6, 0xEE, 0xFE, 0xFE, 0xD6, 0xC6, 0xC6, 0xC6, 0xC6, 0xC6, 0x00, 0x00, 0x00, 0x00,
     0x00, 0x00, 0xC6, 0xE6, 0xF6, 0xFE, 0xDE, 0xCE, 0xC6, 0xC6, 0xC6, 0xC6, 0x00, 0x00, 0x00, 0x00,
     0x00, 0x00, 0x7C, 0xC6, 0xC6, 0xC6, 0xC6, 0xC6, 0xC6, 0xC6, 0xC6, 0x7C, 0x00, 0x00, 0x00, 0x00,
     0x00, 0x00, 0xFC, 0x66, 0x66, 0x66, 0x7C, 0x60, 0x60, 0x60, 0x60, 0xF0, 0x00, 0x00, 0x00, 0x00,
     0x00, 0x00, 0x7C, 0xC6, 0xC6, 0xC6, 0xC6, 0xC6, 0xC6, 0xD6, 0xDE, 0x7C, 0x0C, 0x0E, 0x00, 0x00,
     0x00, 0x00, 0xFC, 0x66, 0x66, 0x66, 0x7C, 0x6C, 0x66, 0x66, 0x66, 0xE6, 0x00, 0x00, 0x00, 0x00,
     0x00, 0x00, 0x7C, 0xC6, 0xC6, 0x60, 0x38, 0x0C, 0x06, 0xC6, 0xC6, 0x7C, 0x00, 0x00, 0x00, 0x00,
     0x00, 0x00, 0x7E, 0x7E, 0x5A, 0x18, 0x18, 0x18, 0x18, 0x18, 0x18, 0x3C, 0x00, 0x00, 0x00, 0x00,
     0x00, 0x00, 0xC6, 0xC6, 0xC6, 0xC6, 0xC6, 0xC6, 0xC6, 0xC6, 0xC6, 0x7C, 0x00, 0x00, 0x00, 0x00,
     0x00, 0x00, 0xC6, 0xC6, 0xC6, 0xC6, 0xC6, 0xC6, 0xC6, 0x6C, 0x38, 0x10, 0x00, 0x00, 0x00, 0x00,
     0x00, 0x00, 0xC6, 0xC6, 0xC6, 0xC6, 0xC6, 0xD6, 0xD6, 0xFE, 0xEE, 0x6C, 0x00, 0x00, 0x00, 0x00,
     0x00, 0x00, 0xC6, 0xC6, 0x6C, 0x7C, 0x38, 0x38, 0x7C, 0x6C, 0xC6, 0xC6, 0x00, 0x00, 0x00, 0x00,
     0x00, 0x00, 0x66, 0x66, 0x66, 0x66, 0x3C, 0x18, 0x18, 0x18, 0x18, 0x3C, 0x00, 0x00, 0x00, 0x00,
     0x00, 0x00, 0xFE, 0xC6, 0x86, 0x0C, 0x18, 0x30, 0x60, 0xC2, 0xC6, 0xFE, 0x00, 0x00, 0x00, 0x00,
     0x00, 0x00, 0x3C, 0x30, 0x30, 0x30, 0x30, 0x30, 0x30, 0x30, 0x30, 0x3C, 0x00, 0x00, 0x00, 0x00,
     0x00, 0x00, 0x00, 0x00, 0x60, 0x60, 0x30, 0x30, 0x18, 0x18, 0x0C, 0x0C, 0x00, 0x00, 0x00, 0x00,
     0x00, 0x00, 0x3C, 0x0C, 0x0C, 0x0C, 0x0C, 0x0C, 0x0C, 0x0C, 0x0C, 0x3C, 0x00, 0x00, 0x00, 0x00,
     0x10, 0x38, 0x6C, 0xC6, 0x00, 0x00, 0x00, 0x00, 0x00, 0x00, 0x00, 0x00, 0x00, 0x00, 0x00, 0x00,
     0x00, 0x00, 0x00, 0x00, 0x00, 0x00, 0x00, 0x00, 0x00, 0x00, 0x00, 0x00, 0xFF, 0xFF, 0x00, 0x00,
     0x30, 0x30, 0x18, 0x00, 0x00, 0x00, 0x00, 0x00, 0x00, 0x00, 0x00, 0x00, 0x00, 0x00, 0x00, 0x00,
     0x00, 0x00, 0x00, 0x00, 0x78, 0x0C, 0x7C, 0xCC, 0xCC, 0xCC, 0xCC, 0x76, 0x00, 0x00, 0x00, 0x00,
     0x00, 0x00, 0xE0, 0x60, 0x60, 0x78, 0x6C, 0x66, 0x66, 0x66, 0x66, 0x7C, 0x00, 0x00, 0x00, 0x00,
     0x00, 0x00, 0x00, 0x00, 0x7C, 0xC6, 0xC0, 0xC0, 0xC0, 0xC6, 0x7C, 0x00, 0x00, 0x00, 0x00, 0x00,
     0x00, 0x00, 0x1C, 0x0C, 0x0C, 0x3C, 0x6C, 0xCC, 0xCC, 0xCC, 0xCC, 0x76, 0x00, 0x00, 0x00, 0x00,
     0x00, 0x00, 0x00, 0x00, 0x7C, 0xC6, 0xFE, 0xC0, 0xC0, 0xC6, 0x7C, 0x00, 0x00, 0x00, 0x00, 0x00,
     0x00, 0x00, 0x1C, 0x36, 0x32, 0x30, 0x78, 0x30, 0x30, 0x30, 0x30, 0x78, 0x00, 0x00, 0x00, 0x00,
     0x00, 0x00, 0x00, 0x00, 0x76, 0xCC, 0xCC, 0xCC, 0xCC, 0x7C, 0x0C, 0xCC, 0x78, 0x00, 0x00, 0x00,
     0x00, 0x00, 0xE0, 0x60, 0x60, 0x6C, 0x76, 0x66, 0x66, 0x66, 0x66, 0xE6, 0x00, 0x00, 0x00, 0x00,
     0x00, 0x00, 0x18, 0x18, 0x00, 0x38, 0x18, 0x18, 0x18, 0x18, 0x18, 0x3C, 0x00, 0x00, 0x00, 0x00,
     0x00, 0x00, 0x06, 0x06, 0x00, 0x0E, 0x06, 0x06, 0x06, 0x06, 0x06, 0x06, 0x66, 0x66, 0x3C, 0x00,
     0x00, 0x00, 0xE0, 0x60, 0x60, 0x66, 0x6C, 0x78, 0x78, 0x6C, 0x66, 0xE6, 0x00, 0x00, 0x00, 0x00,
     0x00, 0x00, 0x38, 0x18, 0x18, 0x18, 0x18, 0x18, 0x18, 0x18, 0x18, 0x3C, 0x00, 0x00, 0x00, 0x00,
     0x00, 0x00, 0x00, 0x00, 0xEC, 0xFE, 0xD6, 0xD6, 0xD6, 0xD6, 0xC6, 0xC6, 0x00, 0x00, 0x00, 0x00,
     0x00, 0x00, 0x00, 0x00, 0xDC, 0x66, 0x66, 0x66, 0x66, 0x66, 0x66, 0x66, 0x00, 0x00, 0x00, 0x00,
     0x00, 0x00, 0x00, 0x00, 0x7C, 0xC6, 0xC6, 0xC6, 0xC6, 0xC6, 0xC6, 0x7C, 0x00, 0x00, 0x00, 0x00,
     0x00, 0x00, 0x00, 0x00, 0xDC, 0x66, 0x66, 0x66, 0x66, 0x66, 0x7C, 0x60, 0x60, 0x60, 0xF0, 0x00,
     0x00, 0x00, 0x00, 0x00, 0x76, 0xCC, 0xCC, 0xCC, 0xCC, 0xCC, 0x7C, 0x0C, 0x0C, 0x0C, 0x1E, 0x00,
     0x00, 0x00, 0x00, 0x00, 0xDC, 0x76, 0x66, 0x60, 0x60, 0x60, 0x60, 0xF0, 0x00, 0x00, 0x00, 0x00,
     0x00, 0x00, 0x00, 0x00, 0x7C, 0xC6, 0x60, 0x38, 0x0C, 0x06, 0xC6, 0x7C, 0x00, 0x00, 0x00, 0x00,
     0x00, 0x00, 0x10, 0x30, 0x30, 0xFC, 0x30, 0x30, 0x30, 0x30, 0x36, 0x1C, 0x00, 0x00, 0x00, 0x00,
     0x00, 0x00, 0x00, 0x00, 0xCC, 0xCC, 0xCC, 0xCC, 0xCC, 0xCC, 0xCC, 0x76, 0x00, 0x00, 0x00, 0x00,
     0x00, 0x00, 0x00, 0x00, 0xC6, 0xC6, 0xC6, 0xC6, 0xC6, 0x6C, 0x38, 0x10, 0x00, 0x00, 0x00, 0x00,
     0x00, 0x00, 0x00, 0x00, 0xC6, 0xC6, 0xC6, 0xD6, 0xD6, 0xD6, 0xFE, 0x6C, 0x00, 0x00, 0x00, 0x00,
     0x00, 0x00, 0x00, 0x00, 0xC6, 0xC6, 0x6C, 0x38, 0x38, 0x6C, 0xC6, 0xC6, 0x00, 0x00, 0x00, 0x00,
     0x00, 0x00, 0x00, 0x00, 0xC6, 0xC6, 0xC6, 0xC6, 0xC6, 0x7E, 0x06, 0x0C, 0xFC, 0x00, 0x00, 0x00,
     0x00, 0x00, 0x00, 0x00, 0xFE, 0xC6, 0x8C, 0x18, 0x30, 0x60, 0xC2, 0xFE, 0x00, 0x00, 0x00, 0x00,
     0x00, 0x00, 0x0E, 0x18, 0x18, 0x18, 0x70, 0x18, 0x18, 0x18, 0x18, 0x0E, 0x00, 0x00, 0x00, 0x00,
     0x00, 0x00, 0x18, 0x18, 0x18, 0x18, 0x00, 0x18, 0x18, 0x18, 0x18, 0x18, 0x00, 0x00, 0x00, 0x00,
     0x00, 0x00, 0x70, 0x18, 0x18, 0x18, 0x0E, 0x18, 0x18, 0x18, 0x18, 0x70, 0x00, 0x00, 0x00, 0x00,
     0x00, 0x00, 0x76, 0xDC, 0x00, 0x00, 0x00, 0x00, 0x00, 0x00, 0x00, 0x00, 0x00, 0x00, 0x00, 0x00]"

text \<open>\<open>fallback_addr\<close> is the address of that table in \<open>font_mem\<close>.\<close>

record fb_state =
  lfb :: "u32 \<Rightarrow> u32"
  fb_width :: u32
  fb_height :: u32
  fb_pitch :: u32
  fb_ready :: bool
  cursor_x :: u32
  cursor_y :: u32
  back_buffer :: "u32 \<Rightarrow> u32"
  double_buffering :: bool
  min_x :: u32
  min_y :: u32
  max_x :: u32
  max_y :: u32
  current_fg :: u32
  current_bg :: u32
  font_mem :: mem
  fallback_addr :: u32
  font_glyphs :: u32
  font_unicode_table :: u32
  font_glyph_count :: u32
  font_width :: u32
  font_height :: u32
  font_initialized :: bool
  utf8_state :: u32
  utf8_codepoint :: u32

section \<open>The dirty rectangle\<close>

definition reset_dirty :: "fb_state \<Rightarrow> fb_state" where
  "reset_dirty s = s\<lparr>min_x := fb_width s, min_y := fb_height s, max_x := 0, max_y := 0\<rparr>"

definition is_dirty :: "fb_state \<Rightarrow> bool" where
  "is_dirty s \<longleftrightarrow> min_x s < max_x s \<and> min_y s < max_y s"

definition mark_dirty :: "u32 \<Rightarrow> u32 \<Rightarrow> u32 \<Rightarrow> u32 \<Rightarrow> fb_state \<Rightarrow> fb_state" where
  "mark_dirty x y w h s =
     (if \<not> double_buffering s \<or> w = 0 \<or> h = 0 then s
      else s\<lparr>min_x := (if x < min_x s then x else min_x s), min_y := (if y < min_y s then y else min_y s),
             max_x := (if x + w > max_x s then x + w else max_x s),
             max_y := (if y + h > max_y s then y + h else max_y s)\<rparr>)"

section \<open>Initialisation\<close>

text \<open>\<open>info\<close> is address, width, height and pitch in bytes; \<open>None\<close> is a NULL pointer. What the memory at the address
  holds is \<open>pixels\<close>.\<close>

definition fb_init :: "(u32 \<times> u32 \<times> u32 \<times> u32) option \<Rightarrow> (u32 \<Rightarrow> u32) \<Rightarrow> fb_state \<Rightarrow> fb_state" where
  "fb_init info pixels s =
     (case info of None \<Rightarrow> s\<lparr>fb_ready := False\<rparr>
      | Some (address, width, height, pitch) \<Rightarrow>
          if address = 0 then s\<lparr>fb_ready := False\<rparr>
          else reset_dirty (s\<lparr>lfb := pixels, fb_width := width, fb_height := height, fb_pitch := pitch div 4,
                              fb_ready := True, cursor_x := 0, cursor_y := 0\<rparr>))"

definition fb_get_pitch :: "fb_state \<Rightarrow> u32" where "fb_get_pitch s = fb_pitch s * 4"
definition fb_get_cols :: "fb_state \<Rightarrow> u32" where "fb_get_cols s = fb_width s div font_width s"
definition fb_get_rows :: "fb_state \<Rightarrow> u32" where "fb_get_rows s = fb_height s div font_height s"

definition fb_set_cursor :: "u32 \<Rightarrow> u32 \<Rightarrow> fb_state \<Rightarrow> fb_state" where
  "fb_set_cursor x y s =
     s\<lparr>cursor_x := (if x < fb_get_cols s then x else cursor_x s), cursor_y := (if y < fb_get_rows s then y else cursor_y s)\<rparr>"

definition fb_set_color :: "u32 \<Rightarrow> u32 \<Rightarrow> fb_state \<Rightarrow> fb_state" where
  "fb_set_color fg bg s = s\<lparr>current_fg := fg, current_bg := bg\<rparr>"

section \<open>String instructions\<close>

text \<open>\<open>rep stosl\<close>: \<open>n\<close> words from index \<open>d\<close> on.\<close>

primrec stosl :: "nat \<Rightarrow> u32 \<Rightarrow> u32 \<Rightarrow> (u32 \<Rightarrow> u32) \<Rightarrow> u32 \<Rightarrow> u32" where
  "stosl 0 d c a = a"
| "stosl (Suc n) d c a = stosl n (d + 1) c (a(d := c))"

text \<open>\<open>rep movsl\<close> between two arrays, and within one, upwards.\<close>

primrec movsl :: "nat \<Rightarrow> u32 \<Rightarrow> u32 \<Rightarrow> (u32 \<Rightarrow> u32) \<Rightarrow> (u32 \<Rightarrow> u32) \<Rightarrow> u32 \<Rightarrow> u32" where
  "movsl 0 si di src dst = dst"
| "movsl (Suc n) si di src dst = movsl n (si + 1) (di + 1) src (dst(di := src si))"

primrec movsl_within :: "nat \<Rightarrow> u32 \<Rightarrow> u32 \<Rightarrow> (u32 \<Rightarrow> u32) \<Rightarrow> u32 \<Rightarrow> u32" where
  "movsl_within 0 si di a = a"
| "movsl_within (Suc n) si di a = movsl_within n (si + 1) (di + 1) (a(di := a si))"

section \<open>Double buffering\<close>

text \<open>\<open>fresh\<close> is what the block from the kernel heap holds; the driver fills it before any use.\<close>

definition fb_enable_double_buffering :: "(u32 \<Rightarrow> u32) \<Rightarrow> heap_state \<Rightarrow> fb_state \<Rightarrow> heap_state \<times> fb_state" where
  "fb_enable_double_buffering fresh h s =
     (if \<not> fb_ready s \<or> double_buffering s then (h, s)
      else let (h, p) = kmalloc (fb_height s * fb_pitch s * 4) h
           in if p \<noteq> 0 then
                (h, (reset_dirty (s\<lparr>double_buffering := True\<rparr>))
                      \<lparr>back_buffer := movsl (unat (fb_height s * fb_pitch s)) 0 0 (lfb s) fresh\<rparr>)
              else (h, s))"

text \<open>The loop over the rows \<open>y\<close> to \<open>max_y - 1\<close>; \<open>n\<close> rows are left.\<close>

primrec flush_rows :: "nat \<Rightarrow> u32 \<Rightarrow> fb_state \<Rightarrow> fb_state" where
  "flush_rows 0 y s = s"
| "flush_rows (Suc n) y s =
     (let off = y * fb_pitch s + min_x s
      in flush_rows n (y + 1) (s\<lparr>lfb := movsl (unat (max_x s - min_x s)) off off (back_buffer s) (lfb s)\<rparr>))"

definition fb_flush :: "fb_state \<Rightarrow> fb_state" where
  "fb_flush s =
     (if \<not> fb_ready s \<or> \<not> double_buffering s then s
      else if \<not> is_dirty s then s
      else let s = s\<lparr>max_x := (if max_x s > fb_width s then fb_width s else max_x s),
                     max_y := (if max_y s > fb_height s then fb_height s else max_y s)\<rparr>
           in reset_dirty (flush_rows (unat (max_y s) - unat (min_y s)) (min_y s) s))"

section \<open>The font\<close>

definition read16 :: "mem \<Rightarrow> u32 \<Rightarrow> u16" where
  "read16 m p = ucast (m p) OR push_bit 8 (ucast (m (p + 1)))"

definition fb_init_font :: "u32 \<Rightarrow> u32 \<Rightarrow> fb_state \<Rightarrow> fb_state" where
  "fb_init_font font_data font_size s =
     (let s = s\<lparr>font_glyphs := fallback_addr s, font_glyph_count := 95, font_height := 16, font_width := 8,
               font_initialized := True, font_unicode_table := 0\<rparr>
      in if font_data = 0 \<or> font_size < 4 then s
         else if read16 (font_mem s) font_data \<noteq> 0x0436 then s
         else let mode = font_mem s (font_data + 2);
                  s = s\<lparr>font_glyph_count := (if mode AND 1 \<noteq> 0 then 512 else 256),
                        font_height := ucast (font_mem s (font_data + 3)), font_width := 8, font_glyphs := font_data + 4\<rparr>
              in s\<lparr>font_unicode_table :=
                     (if mode AND 2 \<noteq> 0 then font_glyphs s + font_glyph_count s * font_height s else 0)\<rparr>)"

text \<open>The two nested loops of \<open>find_glyph_index\<close>; \<open>-1\<close> when the character is not in the table. They do not end on a
  table without enough terminators.\<close>

partial_function (option) glyph_scan :: "mem \<Rightarrow> u32 \<Rightarrow> u32 \<Rightarrow> u32 \<Rightarrow> u32 \<Rightarrow> int option" where
  "glyph_scan m num ch ptr glyph_index =
     (if \<not> glyph_index < num then Some (- 1)
      else let char_code = read16 m ptr
           in if char_code = 0xFFFF then glyph_scan m num ch (ptr + 2) (glyph_index + 1)
              else if char_code = 0xFFFE \<or> char_code = 0 then glyph_scan m num ch (ptr + 2) glyph_index
              else if ucast char_code = ch then Some (uint glyph_index)
              else glyph_scan m num ch (ptr + 2) glyph_index)"

definition find_glyph_index :: "u32 \<Rightarrow> fb_state \<Rightarrow> int option" where
  "find_glyph_index ch s =
     (if \<not> font_initialized s \<or> font_unicode_table s = 0 then Some (- 1)
      else glyph_scan (font_mem s) (font_glyph_count s) ch (font_unicode_table s) 0)"

section \<open>Glyphs\<close>

text \<open>Where the rows of a glyph stand.\<close>

definition glyph_address :: "u32 \<Rightarrow> fb_state \<Rightarrow> u32" where
  "glyph_address glyph_index s =
     (if font_initialized s \<and> font_unicode_table s \<noteq> 0 \<and> glyph_index < font_glyph_count s
      then font_glyphs s + glyph_index * font_height s
      else fallback_addr s + 16 * (if glyph_index \<ge> 32 \<and> glyph_index \<le> 126 then glyph_index - 32 else 0x3F - 32))"

definition glyph_pixel :: "u8 \<Rightarrow> u32 \<Rightarrow> u32 \<Rightarrow> u32 \<Rightarrow> u32" where
  "glyph_pixel bits col fg bg = (if bits AND push_bit (7 - unat col) 1 \<noteq> 0 then fg else bg)"

text \<open>One row of pixels into an array, from column \<open>col\<close> on; \<open>n\<close> columns are left.\<close>

primrec glyph_cols :: "nat \<Rightarrow> u32 \<Rightarrow> u32 \<Rightarrow> u8 \<Rightarrow> u32 \<Rightarrow> u32 \<Rightarrow> (u32 \<Rightarrow> u32) \<Rightarrow> u32 \<Rightarrow> u32" where
  "glyph_cols 0 col dst bits fg bg a = a"
| "glyph_cols (Suc n) col dst bits fg bg a =
     glyph_cols n (col + 1) dst bits fg bg (a(dst + col := glyph_pixel bits col fg bg))"

primrec glyph_rows :: "nat \<Rightarrow> u32 \<Rightarrow> u32 \<Rightarrow> u32 \<Rightarrow> u32 \<Rightarrow> u32 \<Rightarrow> u32 \<Rightarrow> fb_state \<Rightarrow> (u32 \<Rightarrow> u32) \<Rightarrow> u32 \<Rightarrow> u32" where
  "glyph_rows 0 row glyph px py fg bg s a = a"
| "glyph_rows (Suc n) row glyph px py fg bg s a =
     glyph_rows n (row + 1) glyph px py fg bg s
       (glyph_cols (unat (font_width s)) 0 ((py + row) * fb_pitch s + px) (font_mem s (glyph + row)) fg bg a)"

definition render_glyph :: "u32 \<Rightarrow> u32 \<Rightarrow> u32 \<Rightarrow> u32 \<Rightarrow> u32 \<Rightarrow> fb_state \<Rightarrow> fb_state" where
  "render_glyph glyph_index px py fg bg s =
     (if \<not> fb_ready s then s
      else let glyph = glyph_address glyph_index s; draw = glyph_rows (unat (font_height s)) 0 glyph px py fg bg s
           in if px + font_width s > fb_width s \<or> py + font_height s > fb_height s then s
              else if double_buffering s then
                mark_dirty px py (font_width s) (font_height s) (s\<lparr>back_buffer := draw (back_buffer s)\<rparr>)
              else s\<lparr>lfb := draw (lfb s)\<rparr>)"

section \<open>Drawing primitives\<close>

definition fb_put_pixel :: "u32 \<Rightarrow> u32 \<Rightarrow> u32 \<Rightarrow> fb_state \<Rightarrow> fb_state" where
  "fb_put_pixel x y color s =
     (if \<not> fb_ready s \<or> x \<ge> fb_width s \<or> y \<ge> fb_height s then s
      else if double_buffering s then
        mark_dirty x y 1 1 (s\<lparr>back_buffer := (back_buffer s)(y * fb_pitch s + x := color)\<rparr>)
      else s\<lparr>lfb := (lfb s)(y * fb_pitch s + x := color)\<rparr>)"

definition fb_clear :: "u32 \<Rightarrow> fb_state \<Rightarrow> fb_state" where
  "fb_clear color s =
     (if \<not> fb_ready s then s
      else let total_pixels = unat (fb_height s * fb_pitch s);
               s = (if double_buffering s then
                      mark_dirty 0 0 (fb_width s) (fb_height s) (s\<lparr>back_buffer := stosl total_pixels 0 color (back_buffer s)\<rparr>)
                    else s\<lparr>lfb := stosl total_pixels 0 color (lfb s)\<rparr>)
           in s\<lparr>cursor_x := 0, cursor_y := 0\<rparr>)"

primrec fill_rows :: "nat \<Rightarrow> u32 \<Rightarrow> u32 \<Rightarrow> u32 \<Rightarrow> u32 \<Rightarrow> u32 \<Rightarrow> (u32 \<Rightarrow> u32) \<Rightarrow> u32 \<Rightarrow> u32" where
  "fill_rows 0 row x w color pitch a = a"
| "fill_rows (Suc n) row x w color pitch a =
     fill_rows n (row + 1) x w color pitch (stosl (unat w) (row * pitch + x) color a)"

text \<open>The rows \<open>row\<close> with \<open>row < y + h\<close>, from \<open>y\<close> on: none when the sum wraps below \<open>y\<close>.\<close>

definition fb_fill_rect :: "u32 \<Rightarrow> u32 \<Rightarrow> u32 \<Rightarrow> u32 \<Rightarrow> u32 \<Rightarrow> fb_state \<Rightarrow> fb_state" where
  "fb_fill_rect x y w h color s =
     (if \<not> fb_ready s then s
      else if x \<ge> fb_width s \<or> y \<ge> fb_height s then s
      else let w = (if x + w > fb_width s then fb_width s - x else w);
               h = (if y + h > fb_height s then fb_height s - y else h);
               fill = fill_rows (unat (y + h) - unat y) y x w color (fb_pitch s)
           in if double_buffering s then mark_dirty x y w h (s\<lparr>back_buffer := fill (back_buffer s)\<rparr>)
              else s\<lparr>lfb := fill (lfb s)\<rparr>)"

definition fb_draw_rect :: "u32 \<Rightarrow> u32 \<Rightarrow> u32 \<Rightarrow> u32 \<Rightarrow> u32 \<Rightarrow> fb_state \<Rightarrow> fb_state" where
  "fb_draw_rect x y w h color s =
     (if \<not> fb_ready s then s
      else let s = fb_fill_rect x y w 1 color s;
               s = fb_fill_rect x (y + h - 1) w 1 color s;
               s = fb_fill_rect x (y + 1) 1 (h - 2) color s
           in fb_fill_rect (x + w - 1) (y + 1) 1 (h - 2) color s)"

section \<open>Characters\<close>

text \<open>The glyph of a character with the question mark and then glyph 0 as substitutes.\<close>

definition glyph_or_zero :: "u32 \<Rightarrow> fb_state \<Rightarrow> u32 option" where
  "glyph_or_zero unicode s =
     Option.bind (find_glyph_index unicode s) (\<lambda>i.
       if i \<ge> 0 then Some (of_int i)
       else map_option (\<lambda>i. if i < 0 then 0 else of_int i) (find_glyph_index 0x3F s))"

definition fb_put_char :: "u8 \<Rightarrow> u32 \<Rightarrow> u32 \<Rightarrow> u32 \<Rightarrow> u32 \<Rightarrow> fb_state \<Rightarrow> fb_state option" where
  "fb_put_char c x y fg bg s =
     map_option (\<lambda>g. render_glyph g (x * font_width s) (y * font_height s) fg bg s) (glyph_or_zero (ucast c) s)"

definition fb_put_unicode_char :: "u32 \<Rightarrow> u32 \<Rightarrow> u32 \<Rightarrow> u32 \<Rightarrow> u32 \<Rightarrow> fb_state \<Rightarrow> fb_state option" where
  "fb_put_unicode_char unicode x y fg bg s =
     map_option (\<lambda>g. render_glyph g (x * font_width s) (y * font_height s) fg bg s) (glyph_or_zero unicode s)"

text \<open>The next character of a string and the rest; a sequence cut off by the end of the string reads past its NUL
  (\<open>None\<close>).\<close>

definition next_char :: "u8 list \<Rightarrow> (u32 \<times> u8 list) option" where
  "next_char str =
     (case str of [] \<Rightarrow> None
      | byte # rest \<Rightarrow>
          if byte < 0x80 then Some (ucast byte, rest)
          else if byte AND 0xE0 = 0xC0 then
            (case rest of b # rest \<Rightarrow> Some (push_bit 6 (ucast (byte AND 0x1F)) OR ucast (b AND 0x3F), rest)
             | [] \<Rightarrow> None)
          else if byte AND 0xF0 = 0xE0 then
            (case rest of b # c # rest \<Rightarrow>
               Some (push_bit 12 (ucast (byte AND 0x0F)) OR push_bit 6 (ucast (b AND 0x3F)) OR ucast (c AND 0x3F), rest)
             | _ \<Rightarrow> None)
          else Some (0x3F, rest))"

lemma next_char_shorter: "next_char str = Some (u, rest) \<Longrightarrow> length rest < length str"
  by (auto simp: next_char_def split: list.splits if_splits)

function draw_string :: "u8 list \<Rightarrow> u32 \<Rightarrow> u32 \<Rightarrow> u32 \<Rightarrow> u32 \<Rightarrow> u32 \<Rightarrow> fb_state \<Rightarrow> fb_state option" where
  "draw_string str x cx cy fg bg s =
     (case str of [] \<Rightarrow> Some s
      | c # rest \<Rightarrow>
          if c = 0x0A then draw_string rest x x (cy + 1) fg bg s
          else if c = 0x0D then draw_string rest x x cy fg bg s
          else case next_char str of None \<Rightarrow> None
            | Some (unicode, rest') \<Rightarrow>
                (case glyph_or_zero unicode s of None \<Rightarrow> None
                 | Some g \<Rightarrow>
                     let s = render_glyph g (cx * font_width s) (cy * font_height s) fg bg s; cx = cx + 1
                     in if cx * font_width s \<ge> fb_width s then draw_string rest' x x (cy + 1) fg bg s
                        else draw_string rest' x cx cy fg bg s))"
  by pat_completeness auto
termination
  by (relation "measure (\<lambda>(str, x, cx, cy, fg, bg, s). length str)") (auto dest: next_char_shorter)

declare draw_string.simps [simp del]

definition fb_draw_string :: "u8 list option \<Rightarrow> u32 \<Rightarrow> u32 \<Rightarrow> u32 \<Rightarrow> u32 \<Rightarrow> fb_state \<Rightarrow> fb_state option" where
  "fb_draw_string str x y fg bg s =
     (case str of None \<Rightarrow> Some s | Some str \<Rightarrow> if \<not> fb_ready s then Some s else draw_string str x x y fg bg s)"

section \<open>Scrolling\<close>

text \<open>Without double buffering the visible columns are moved one pixel after the other: \<open>n\<close> of them from \<open>col\<close> on.\<close>

primrec copy_cols :: "nat \<Rightarrow> u32 \<Rightarrow> u32 \<Rightarrow> u32 \<Rightarrow> (u32 \<Rightarrow> u32) \<Rightarrow> u32 \<Rightarrow> u32" where
  "copy_cols 0 col dst src a = a"
| "copy_cols (Suc n) col dst src a = copy_cols n (col + 1) dst src (a(dst + col := a (src + col)))"

primrec copy_line :: "nat \<Rightarrow> u32 \<Rightarrow> u32 \<Rightarrow> u32 \<Rightarrow> fb_state \<Rightarrow> (u32 \<Rightarrow> u32) \<Rightarrow> u32 \<Rightarrow> u32" where
  "copy_line 0 row dst_y src_y s a = a"
| "copy_line (Suc n) row dst_y src_y s a =
     copy_line n (row + 1) dst_y src_y s
       (copy_cols (unat (fb_width s)) 0 ((dst_y + row) * fb_pitch s) ((src_y + row) * fb_pitch s) a)"

primrec copy_lines :: "nat \<Rightarrow> u32 \<Rightarrow> fb_state \<Rightarrow> (u32 \<Rightarrow> u32) \<Rightarrow> u32 \<Rightarrow> u32" where
  "copy_lines 0 line s a = a"
| "copy_lines (Suc n) line s a =
     copy_lines n (line + 1) s (copy_line (unat (font_height s)) 0 (line * font_height s) ((line + 1) * font_height s) s a)"

primrec clear_line :: "nat \<Rightarrow> u32 \<Rightarrow> u32 \<Rightarrow> fb_state \<Rightarrow> (u32 \<Rightarrow> u32) \<Rightarrow> u32 \<Rightarrow> u32" where
  "clear_line 0 row last_y s a = a"
| "clear_line (Suc n) row last_y s a =
     clear_line n (row + 1) last_y s (stosl (unat (fb_width s)) ((last_y + row) * fb_pitch s) (current_bg s) a)"

definition fb_scroll_up :: "fb_state \<Rightarrow> fb_state" where
  "fb_scroll_up s =
     (if \<not> fb_ready s then s
      else let font_px = font_height s; total_lines = fb_get_rows s
           in if double_buffering s then
                (let src_offset = font_px * fb_pitch s;
                     words_to_copy = (total_lines - 1) * font_px * fb_pitch s;
                     b = movsl_within (unat words_to_copy) src_offset 0 (back_buffer s);
                     last_y_offset = (total_lines - 1) * font_px * fb_pitch s;
                     line_words = font_px * fb_pitch s;
                     b = stosl (unat line_words) last_y_offset (current_bg s) b
                 in mark_dirty 0 0 (fb_width s) (fb_height s) (s\<lparr>back_buffer := b\<rparr>))
              else
                (let a = copy_lines (unat (total_lines - 1)) 0 s (lfb s);
                     last_y = (total_lines - 1) * font_px
                 in s\<lparr>lfb := clear_line (unat font_px) 0 last_y s a\<rparr>))"

section \<open>Terminal output\<close>

text \<open>\<open>if (cursor_x >= max_cols) { cursor_x = 0; cursor_y++; }\<close>.\<close>

definition wrap_cursor :: "fb_state \<Rightarrow> fb_state" where
  "wrap_cursor s =
     (if cursor_x s \<ge> fb_width s div font_width s then s\<lparr>cursor_x := 0, cursor_y := cursor_y s + 1\<rparr> else s)"

definition draw_at_cursor :: "u32 \<Rightarrow> fb_state \<Rightarrow> fb_state" where
  "draw_at_cursor glyph_index s =
     render_glyph glyph_index (cursor_x s * font_width s) (cursor_y s * font_height s) (current_fg s) (current_bg s) s"

definition print_glyph :: "u32 \<Rightarrow> fb_state \<Rightarrow> fb_state" where
  "print_glyph glyph_index s =
     (let s = draw_at_cursor glyph_index s in wrap_cursor (s\<lparr>cursor_x := cursor_x s + 1\<rparr>))"

text \<open>The glyph of a character for the terminal: here the last substitute is the code of the question mark.\<close>

definition terminal_glyph :: "u32 \<Rightarrow> u32 \<Rightarrow> fb_state \<Rightarrow> u32 option" where
  "terminal_glyph ch plain s =
     (if font_initialized s \<and> font_unicode_table s \<noteq> 0 then
        Option.bind (find_glyph_index ch s) (\<lambda>i.
          if i \<ge> 0 then Some (of_int i)
          else map_option (\<lambda>i. if i < 0 then 0x3F else of_int i) (find_glyph_index 0x3F s))
      else Some plain)"

definition putc_ascii :: "u8 \<Rightarrow> fb_state \<Rightarrow> fb_state option" where
  "putc_ascii byte s =
     (if byte = 0x0A then Some (s\<lparr>cursor_x := 0, cursor_y := cursor_y s + 1\<rparr>)
      else if byte = 0x0D then Some (s\<lparr>cursor_x := 0\<rparr>)
      else if byte = 0x09 then Some (wrap_cursor (s\<lparr>cursor_x := (cursor_x s + 4) AND NOT 3\<rparr>))
      else if byte = 0x08 then
        Some (if cursor_x s > 0 then draw_at_cursor 0x20 (s\<lparr>cursor_x := cursor_x s - 1\<rparr>) else s)
      else map_option (\<lambda>g. print_glyph g s) (terminal_glyph (ucast byte) (ucast byte) s))"

definition putc_byte :: "u8 \<Rightarrow> fb_state \<Rightarrow> fb_state option" where
  "putc_byte byte s =
     (if byte < 0x80 then putc_ascii byte s
      else if byte AND 0xE0 = 0xC0 then Some (s\<lparr>utf8_codepoint := ucast (byte AND 0x1F), utf8_state := 1\<rparr>)
      else if byte AND 0xF0 = 0xE0 then Some (s\<lparr>utf8_codepoint := ucast (byte AND 0x0F), utf8_state := 2\<rparr>)
      else if byte AND 0xF8 = 0xF0 then Some (s\<lparr>utf8_codepoint := ucast (byte AND 0x07), utf8_state := 3\<rparr>)
      else Some (print_glyph 0x3F s))"

text \<open>A byte that continues a sequence.\<close>

definition putc_continue :: "u8 \<Rightarrow> fb_state \<Rightarrow> fb_state option" where
  "putc_continue byte s =
     (let s = s\<lparr>utf8_codepoint := push_bit 6 (utf8_codepoint s) OR ucast (byte AND 0x3F), utf8_state := utf8_state s - 1\<rparr>
      in if utf8_state s = 0 then
           map_option (\<lambda>g. print_glyph g s)
             (terminal_glyph (utf8_codepoint s) (if utf8_codepoint s < 128 then utf8_codepoint s else 0x3F) s)
         else Some s)"

text \<open>\<open>while (cursor_y >= max_rows)\<close>: without end on a screen lower than one line.\<close>

partial_function (option) check_scroll :: "fb_state \<Rightarrow> fb_state option" where
  "check_scroll s =
     (if cursor_y s \<ge> fb_height s div font_height s then
        (let s = fb_scroll_up s in check_scroll (s\<lparr>cursor_y := cursor_y s - 1\<rparr>))
      else Some s)"

definition fb_putc :: "u8 \<Rightarrow> fb_state \<Rightarrow> fb_state option" where
  "fb_putc byte s =
     (if \<not> fb_ready s then Some s
      else Option.bind
        (if utf8_state s > 0 \<and> byte AND 0xC0 = 0x80 then putc_continue byte s
         else putc_byte byte (if utf8_state s > 0 then s\<lparr>utf8_state := 0\<rparr> else s))
        check_scroll)"

primrec fb_print :: "u8 list \<Rightarrow> fb_state \<Rightarrow> fb_state option" where
  "fb_print [] s = Some s"
| "fb_print (c # str) s = (if \<not> fb_ready s then Some s else Option.bind (fb_putc c s) (fb_print str))"

definition fb_printf :: "u32 \<Rightarrow> u32 \<Rightarrow> u32 \<Rightarrow> u32 \<Rightarrow> u8 list \<Rightarrow> va list \<Rightarrow> fb_state \<Rightarrow> fb_state option" where
  "fb_printf x y fg bg fmt args s =
     Option.bind (k_vsprintf fmt args) (\<lambda>out. fb_draw_string (Some (takeWhile (\<lambda>c. c \<noteq> 0) out)) x y fg bg s)"

end
