(* ===== verification/Fbuf_Spec.thy ===== *)
theory Fbuf_Spec
  imports Fbuf Blocks
begin

text \<open>
  What the frame buffer driver promises (\<open>Fbuf\<close>): nothing outside the frame is written, the cursor stays on the screen,
  and double buffering is invisible: after a flush the visible memory is what direct drawing would have made it.
\<close>

section \<open>Pixels\<close>

text \<open>The pixel at column \<open>x\<close> of row \<open>y\<close>, \<open>p\<close> words to a row.\<close>

definition pixel :: "nat \<Rightarrow> (u32 \<Rightarrow> u32) \<Rightarrow> nat \<Rightarrow> nat \<Rightarrow> u32" where
  "pixel p a x y = a (of_nat (y * p + x))"

lemma unat_of_nat_small: "n < 2 ^ 32 \<Longrightarrow> unat (of_nat n :: u32) = n"
  by (simp add: unat_of_nat)

lemma pixel_index:
  assumes "x < p" and "y < h" and "h * p < 2 ^ 32"
  shows "unat (of_nat (y * p + x) :: u32) = y * p + x" "y * p + x < h * p"
proof -
  have "Suc y * p \<le> h * p" using assms(2) by (intro mult_le_mono1) simp
  then show l: "y * p + x < h * p" using assms(1) by simp
  show "unat (of_nat (y * p + x) :: u32) = y * p + x" using l assms(3) by (intro unat_of_nat_small) simp
qed

lemma row_range:
  assumes "u < p" and "x + w \<le> p"
  shows "(y * p + x \<le> v * p + u \<and> v * p + u < y * p + x + w) = (v = y \<and> x \<le> u \<and> u < x + (w :: nat))"
proof -
  have "v * p + u < y * p" if "v < y"
  proof -
    have "Suc v * p \<le> y * p" using that by (intro mult_le_mono1) simp
    then show ?thesis using assms(1) by simp
  qed
  moreover have "y * p + x + w \<le> v * p" if "y < v"
  proof -
    have "Suc y * p \<le> v * p" using that by (intro mult_le_mono1) simp
    then show ?thesis using assms(2) by simp
  qed
  ultimately show ?thesis by (cases v y rule: linorder_cases) auto
qed

section \<open>The string instructions\<close>

lemma u_eq: "(i = (j :: u32)) = (unat i = unat j)"
  by (simp add: word_unat_eq_iff)

lemma unat_next: "unat (d :: u32) + Suc n \<le> 2 ^ 32 \<Longrightarrow> 0 < n \<Longrightarrow> unat (d + 1) = unat d + 1"
  using unat_offset [of d 1] by simp

lemma stosl_eq:
  "unat d + n \<le> 2 ^ 32 \<Longrightarrow> stosl n d c a i = (if unat d \<le> unat i \<and> unat i < unat d + n then c else a i)"
proof (induction n arbitrary: d a)
  case (Suc n)
  show ?case
  proof (cases "n = 0")
    case True
    then show ?thesis using u_eq [of i d] by auto
  next
    case False
    then have u: "unat (d + 1) = unat d + 1" using unat_next Suc.prems by blast
    then have "unat (d + 1) + n \<le> 2 ^ 32" using Suc.prems by simp
    then show ?thesis using u u_eq [of i d] by (auto simp: Suc.IH)
  qed
qed auto

lemma movsl_eq:
  "unat di + n \<le> 2 ^ 32 \<Longrightarrow> movsl n si di src dst i =
    (if unat di \<le> unat i \<and> unat i < unat di + n then src (si + (i - di)) else dst i)"
proof (induction n arbitrary: si di dst)
  case (Suc n)
  show ?case
  proof (cases "n = 0")
    case True
    then show ?thesis using u_eq [of i di] by auto
  next
    case False
    then have u: "unat (di + 1) = unat di + 1" using unat_next Suc.prems by blast
    then have "unat (di + 1) + n \<le> 2 ^ 32" using Suc.prems by simp
    moreover have "si + 1 + (i - (di + 1)) = si + (i - di)" by simp
    ultimately show ?thesis using u u_eq [of i di] by (auto simp: Suc.IH)
  qed
qed auto

lemma movsl_within_eq:
  "unat di \<le> unat si \<Longrightarrow> unat si + n \<le> 2 ^ 32 \<Longrightarrow> movsl_within n si di a i =
    (if unat di \<le> unat i \<and> unat i < unat di + n then a (i + (si - di)) else a i)"
proof (induction n arbitrary: si di a)
  case (Suc n)
  show ?case
  proof (cases "n = 0")
    case True
    then show ?thesis using u_eq [of i di] by auto
  next
    case False
    then have u: "unat (di + 1) = unat di + 1" "unat (si + 1) = unat si + 1"
      using unat_next [of di n] unat_next [of si n] Suc.prems by simp_all
    then have p: "unat (di + 1) \<le> unat (si + 1)" "unat (si + 1) + n \<le> 2 ^ 32" using Suc.prems by simp_all
    have d: "si + 1 - (di + 1) = si - di" by simp
    have o: "unat (si - di) = unat si - unat di" using Suc.prems(1) by (simp add: unat_sub word_le_nat_alt)
    have "i + (si - di) \<noteq> di" if "unat di < unat i" "unat i < unat di + Suc n"
    proof -
      have "unat (i + (si - di)) = unat i + unat (si - di)"
        using unat_offset [of i "unat (si - di)"] that Suc.prems o by simp
      then show ?thesis using that arg_cong [of "i + (si - di)" di unat] by auto
    qed
    then show ?thesis using u d u_eq [of i di] by (auto simp: Suc.IH [OF p])
  qed
qed auto


section \<open>The screen\<close>

text \<open>The geometry the driver works with: the rows are at least as long as they are visible, and at least one character
  fits.\<close>

definition geom :: "fb_state \<Rightarrow> bool" where
  "geom s \<longleftrightarrow> fb_ready s \<and> font_width s = 8 \<and> 0 < unat (font_height s) \<and> unat (font_height s) \<le> unat (fb_height s) \<and>
     8 \<le> unat (fb_width s) \<and> unat (fb_width s) \<le> unat (fb_pitch s) \<and> unat (fb_height s) * unat (fb_pitch s) < 2 ^ 31"

abbreviation at :: "fb_state \<Rightarrow> (u32 \<Rightarrow> u32) \<Rightarrow> nat \<Rightarrow> nat \<Rightarrow> u32" where
  "at s a x y \<equiv> pixel (unat (fb_pitch s)) a x y"

text \<open>What can be seen: \<open>agree s a b\<close> says that two pixel arrays have the same visible part.\<close>

definition agree :: "fb_state \<Rightarrow> (u32 \<Rightarrow> u32) \<Rightarrow> (u32 \<Rightarrow> u32) \<Rightarrow> bool" where
  "agree s a b \<longleftrightarrow> (\<forall>x y. x < unat (fb_width s) \<longrightarrow> y < unat (fb_height s) \<longrightarrow> at s a x y = at s b x y)"

lemma geom_index:
  assumes "geom s" and "x < unat (fb_pitch s)" and "y < unat (fb_height s)"
  shows "unat (of_nat (y * unat (fb_pitch s) + x) :: u32) = y * unat (fb_pitch s) + x"
    "y * unat (fb_pitch s) + x < unat (fb_height s) * unat (fb_pitch s)"
    "unat (fb_height s) * unat (fb_pitch s) < 2 ^ 31"
  using pixel_index [OF assms(2,3)] assms(1) by (simp_all add: geom_def)

text \<open>A stretch of a row.\<close>

lemma row_stretch:
  assumes "geom s" and "x + w \<le> unat (fb_pitch s)" and "y < unat (fb_height s)"
    and "u < unat (fb_pitch s)" and "v < unat (fb_height s)" and "w \<noteq> 0"
  shows "unat (of_nat (y * unat (fb_pitch s) + x) :: u32) + w \<le> 2 ^ 32"
    "(unat (of_nat (y * unat (fb_pitch s) + x) :: u32) \<le> unat (of_nat (v * unat (fb_pitch s) + u) :: u32) \<and>
      unat (of_nat (v * unat (fb_pitch s) + u) :: u32) < unat (of_nat (y * unat (fb_pitch s) + x) :: u32) + w) =
     (v = y \<and> x \<le> u \<and> u < x + w)"
proof -
  have x: "x < unat (fb_pitch s)" using assms(2,6) by simp
  note i = geom_index [OF assms(1) x assms(3)] geom_index [OF assms(1,4,5)]
  have "Suc y * unat (fb_pitch s) \<le> unat (fb_height s) * unat (fb_pitch s)" using assms(3) by (intro mult_le_mono1) simp
  then show "unat (of_nat (y * unat (fb_pitch s) + x) :: u32) + w \<le> 2 ^ 32" using i(1,3) assms(2) by simp
  show "(unat (of_nat (y * unat (fb_pitch s) + x) :: u32) \<le> unat (of_nat (v * unat (fb_pitch s) + u) :: u32) \<and>
      unat (of_nat (v * unat (fb_pitch s) + u) :: u32) < unat (of_nat (y * unat (fb_pitch s) + x) :: u32) + w) =
     (v = y \<and> x \<le> u \<and> u < x + w)"
    unfolding i(1,4) by (rule row_range [OF assms(4,2)])
qed

lemma stosl_row:
  assumes "geom s" and "x + w \<le> unat (fb_pitch s)" and "y < unat (fb_height s)"
    and "u < unat (fb_pitch s)" and "v < unat (fb_height s)"
  shows "at s (stosl w (of_nat (y * unat (fb_pitch s) + x)) c a) u v =
    (if v = y \<and> x \<le> u \<and> u < x + w then c else at s a u v)"
proof (cases "w = 0")
  case False
  note r = row_stretch [OF assms False]
  show ?thesis unfolding pixel_def stosl_eq [OF r(1)] r(2) by simp
qed auto

lemma movsl_row:
  assumes "geom s" and "x + w \<le> unat (fb_pitch s)" and "y < unat (fb_height s)"
    and "u < unat (fb_pitch s)" and "v < unat (fb_height s)"
  shows "at s (movsl w (of_nat (y * unat (fb_pitch s) + x)) (of_nat (y * unat (fb_pitch s) + x)) b a) u v =
    (if v = y \<and> x \<le> u \<and> u < x + w then at s b u v else at s a u v)"
proof (cases "w = 0")
  case False
  note r = row_stretch [OF assms False]
  have "k + (i - k) = i" for k i :: u32 by simp
  then show ?thesis unfolding pixel_def movsl_eq [OF r(1)] r(2) by simp
qed auto

lemma movsl_within_row:
  assumes "geom s" and "w \<le> unat (fb_pitch s)" and "y + k < unat (fb_height s)"
    and "u < unat (fb_pitch s)" and "v < unat (fb_height s)"
  shows "at s (movsl_within w (of_nat ((y + k) * unat (fb_pitch s))) (of_nat (y * unat (fb_pitch s))) a) u v =
    (if v = y \<and> u < w then at s a u (v + k) else at s a u v)"
proof (cases "w = 0")
  case False
  let ?P = "unat (fb_pitch s)"
  have y: "y < unat (fb_height s)" and x: "0 < ?P" using assms(3,4) by simp_all
  note r = row_stretch [OF assms(1) _ y assms(4,5) False, of 0, unfolded add_0_right add_0_left, OF assms(2)]
  note r' = row_stretch [OF assms(1) _ assms(3) assms(4,5) False, of 0, unfolded add_0_right add_0_left, OF assms(2)]
  have le: "unat (of_nat (y * ?P) :: u32) \<le> unat (of_nat ((y + k) * ?P) :: u32)"
    using geom_index(1) [OF assms(1) x y] geom_index(1) [OF assms(1) x assms(3)] by simp
  have w: "unat (of_nat ((y + k) * ?P) :: u32) + w \<le> 2 ^ 32" by (rule r'(1))
  have e: "of_nat (v * ?P + u) + (of_nat ((y + k) * ?P) - of_nat (y * ?P)) = (of_nat ((v + k) * ?P + u) :: u32)"
    by (simp add: algebra_simps)
  show ?thesis unfolding pixel_def movsl_within_eq [OF le w] e r(2) by simp
qed auto


section \<open>Glyphs\<close>

text \<open>Writing the same words to both arrays keeps them in agreement, wherever the words go.\<close>

lemma agree_upd: "agree s a b \<Longrightarrow> agree s (a(i := c)) (b(i := c))"
  by (simp add: agree_def pixel_def)

lemma agree_glyph_cols: "agree s a b \<Longrightarrow> agree s (glyph_cols n col dst bits fg bg a) (glyph_cols n col dst bits fg bg b)"
  by (induction n arbitrary: col a b) (auto intro: agree_upd)

lemma glyph_cols_other:
  "(\<And>c. c < n \<Longrightarrow> i \<noteq> dst + col + of_nat c) \<Longrightarrow> glyph_cols n col dst bits fg bg a i = a i"
proof (induction n arbitrary: col a)
  case (Suc n)
  have "i \<noteq> dst + (col + 1) + of_nat c" if "c < n" for c using Suc.prems [of "Suc c"] that by (simp add: ac_simps)
  then have "glyph_cols n (col + 1) dst bits fg bg (a(dst + col := k)) i = (a(dst + col := k)) i" for k by (rule Suc.IH)
  moreover have "i \<noteq> dst + col" using Suc.prems [of 0] by simp
  ultimately show ?case by simp
qed simp

lemma glyph_rows_other:
  "(\<And>r c. r < n \<Longrightarrow> c < unat (font_width s) \<Longrightarrow> i \<noteq> (py + row + of_nat r) * fb_pitch s + px + of_nat c) \<Longrightarrow>
    glyph_rows n row glyph px py fg bg s a i = a i"
proof (induction n arbitrary: row a)
  case (Suc n)
  have "i \<noteq> (py + (row + 1) + of_nat r) * fb_pitch s + px + of_nat c" if "r < n" "c < unat (font_width s)" for r c
    using Suc.prems [of "Suc r" c] that by (simp add: ac_simps)
  then have "glyph_rows n (row + 1) glyph px py fg bg s b i = b i" for b by (rule Suc.IH)
  moreover have "glyph_cols (unat (font_width s)) 0 ((py + row) * fb_pitch s + px) bits fg bg a i = a i" for bits
    by (rule glyph_cols_other) (use Suc.prems [of 0] in simp)
  ultimately show ?case by simp
qed simp

lemma glyph_rows_frame:
  assumes g: "geom s" and px: "unat px + 8 \<le> unat (fb_width s)" and py: "unat py + n \<le> unat (fb_height s)"
    and x: "x < unat (fb_width s)" and y: "y < unat (fb_height s)"
    and out: "\<not> (unat px \<le> x \<and> x < unat px + 8 \<and> unat py \<le> y \<and> y < unat py + n)"
  shows "at s (glyph_rows n 0 glyph px py fg bg s a) x y = at s a x y"
  unfolding pixel_def
proof (rule glyph_rows_other)
  fix r c
  assume r: "r < n" and c: "c < unat (font_width s)"
  let ?P = "unat (fb_pitch s)"
  have w: "unat (fb_width s) \<le> ?P" "unat (font_width s) = 8" using g by (simp_all add: geom_def)
  have x': "unat px + c < ?P" "x < ?P" and y': "unat py + r < unat (fb_height s)" using px py w r c x by simp_all
  note i = geom_index(1) [OF g x'(2) y] geom_index(1) [OF g x'(1) y']
  have "(py + 0 + of_nat r) * fb_pitch s + px + of_nat c = of_nat ((unat py + r) * ?P + (unat px + c))" by simp
  moreover have "(y * ?P + x \<noteq> (unat py + r) * ?P + (unat px + c))"
    using row_range [OF x'(1), of x 1 y "unat py + r"] x'(2) out r c w(2) by auto
  ultimately show "of_nat (y * ?P + x) \<noteq> (py + 0 + of_nat r) * fb_pitch s + px + of_nat c" using i by metis
qed

section \<open>Scrolling\<close>

lemma copy_cols_eq: "copy_cols n col dst src a = movsl_within n (src + col) (dst + col) a"
  by (induction n arbitrary: col a) (simp_all add: add.assoc)

text \<open>Moving the visible part of \<open>n\<close> rows up by \<open>k\<close>, from row \<open>y\<close> on.\<close>

primrec rows_up :: "nat \<Rightarrow> nat \<Rightarrow> nat \<Rightarrow> fb_state \<Rightarrow> (u32 \<Rightarrow> u32) \<Rightarrow> u32 \<Rightarrow> u32" where
  "rows_up 0 k y s a = a"
| "rows_up (Suc n) k y s a =
     rows_up n k (Suc y) s (movsl_within (unat (fb_width s)) (of_nat ((y + k) * unat (fb_pitch s))) (of_nat (y * unat (fb_pitch s))) a)"

lemma rows_up_add: "rows_up (m + n) k y s a = rows_up n k (y + m) s (rows_up m k y s a)"
  by (induction m arbitrary: y a) simp_all

lemma copy_line_up:
  "copy_line n (of_nat r) (of_nat y) (of_nat (y + k)) s a = rows_up n k (y + r) s a"
proof (induction n arbitrary: r a)
  case (Suc n)
  have e: "copy_line (Suc n) (of_nat r) (of_nat y) (of_nat (y + k)) s a =
      copy_line n (of_nat (Suc r)) (of_nat y) (of_nat (y + k)) s
        (movsl_within (unat (fb_width s)) (of_nat ((y + r + k) * unat (fb_pitch s))) (of_nat ((y + r) * unat (fb_pitch s))) a)"
    by (simp add: copy_cols_eq algebra_simps)
  show ?case unfolding e Suc.IH by simp
qed simp

lemma copy_lines_up:
  "copy_lines n (of_nat l) s a = rows_up (n * unat (font_height s)) (unat (font_height s)) (l * unat (font_height s)) s a"
proof (induction n arbitrary: l a)
  case (Suc n)
  let ?F = "unat (font_height s)"
  have "copy_lines (Suc n) (of_nat l) s a = copy_lines n (of_nat (Suc l)) s
      (copy_line ?F (of_nat 0) (of_nat (l * ?F)) (of_nat (l * ?F + ?F)) s a)"
    by (simp add: algebra_simps)
  also have "\<dots> = rows_up (Suc n * ?F) ?F (l * ?F) s a"
    unfolding Suc.IH copy_line_up using rows_up_add [of ?F "n * ?F" ?F "l * ?F" s a] by (simp add: algebra_simps)
  finally show ?case .
qed simp

lemma rows_up_eq:
  assumes "geom s"
  shows "y + n + k \<le> unat (fb_height s) \<Longrightarrow> 0 < k \<Longrightarrow> u < unat (fb_width s) \<Longrightarrow> v < unat (fb_height s) \<Longrightarrow>
    at s (rows_up n k y s a) u v = (if y \<le> v \<and> v < y + n then at s a u (v + k) else at s a u v)"
proof (induction n arbitrary: y a)
  case (Suc n)
  have w: "unat (fb_width s) \<le> unat (fb_pitch s)" using assms by (simp add: geom_def)
  then have u: "u < unat (fb_pitch s)" using Suc.prems by simp
  have y: "y + k < unat (fb_height s)" using Suc.prems by simp
  have "at s (rows_up (Suc n) k y s a) u v = (if Suc y \<le> v \<and> v < Suc y + n then
      at s (movsl_within (unat (fb_width s)) (of_nat ((y + k) * unat (fb_pitch s))) (of_nat (y * unat (fb_pitch s))) a) u (v + k)
      else at s (movsl_within (unat (fb_width s)) (of_nat ((y + k) * unat (fb_pitch s))) (of_nat (y * unat (fb_pitch s))) a) u v)"
    unfolding rows_up.simps by (rule Suc.IH) (use Suc.prems in simp_all)
  moreover have "v + k < unat (fb_height s)" if "v < Suc y + n" using that Suc.prems by simp
  ultimately show ?case using movsl_within_row [OF assms w y u] Suc.prems by auto
qed auto

lemma clear_line_eq:
  assumes "geom s"
  shows "y + r + n \<le> unat (fb_height s) \<Longrightarrow> u < unat (fb_width s) \<Longrightarrow> v < unat (fb_height s) \<Longrightarrow>
    at s (clear_line n (of_nat r) (of_nat y) s a) u v =
      (if y + r \<le> v \<and> v < y + r + n then current_bg s else at s a u v)"
proof (induction n arbitrary: r a)
  case (Suc n)
  have w: "0 + unat (fb_width s) \<le> unat (fb_pitch s)" using assms by (simp add: geom_def)
  have y: "y + r < unat (fb_height s)" and u: "u < unat (fb_pitch s)" using Suc.prems w by simp_all
  have e: "clear_line (Suc n) (of_nat r) (of_nat y) s a = clear_line n (of_nat (Suc r)) (of_nat y) s
      (stosl (unat (fb_width s)) (of_nat ((y + r) * unat (fb_pitch s) + 0)) (current_bg s) a)"
    by (simp add: algebra_simps)
  have y': "y + Suc r + n \<le> unat (fb_height s)" using Suc.prems by simp
  show ?case unfolding e Suc.IH [OF y' Suc.prems(2,3)] stosl_row [OF assms w y u Suc.prems(3)]
    using Suc.prems(2) by auto
qed auto


text \<open>What a scroll makes of the visible pixels: the lines but the first move up, the last is blank, and what is below the
  last whole line stays.\<close>

definition scrolled :: "fb_state \<Rightarrow> (u32 \<Rightarrow> u32) \<Rightarrow> nat \<Rightarrow> nat \<Rightarrow> u32" where
  "scrolled s a u v =
     (let k = unat (font_height s); lines = unat (fb_height s) div k
      in if v < (lines - 1) * k then at s a u (v + k) else if v < lines * k then current_bg s else at s a u v)"

lemma geom_lines:
  assumes "geom s"
  defines "k \<equiv> unat (font_height s)" and "lines \<equiv> unat (fb_height s) div unat (font_height s)"
  shows "fb_get_rows s = of_nat lines" "fb_get_rows s - 1 = of_nat (lines - 1)" "unat (fb_get_rows s) = lines" "unat (fb_get_rows s - 1) = lines - 1"
    "0 < lines" "(lines - 1) * k + k = lines * k" "lines * k \<le> unat (fb_height s)"
proof -
  have f: "0 < k" "k \<le> unat (fb_height s)" using assms by (simp_all add: geom_def)
  then show l: "0 < lines" unfolding lines_def k_def by (simp add: div_greater_zero_iff)
  show u: "unat (fb_get_rows s) = lines" unfolding fb_get_rows_def lines_def by (simp add: unat_div)
  show n: "fb_get_rows s = of_nat lines" unfolding u [symmetric] by simp
  show "fb_get_rows s - 1 = of_nat (lines - 1)" using n l by (simp add: of_nat_diff)
  have "fb_get_rows s \<noteq> 0" using u l by auto
  then show "unat (fb_get_rows s - 1) = lines - 1" using unat_minus_one [of "fb_get_rows s"] u by simp
  show "(lines - 1) * k + k = lines * k" using l by (metis Suc_diff_1 add.commute mult_Suc)
  show "lines * k \<le> unat (fb_height s)" unfolding lines_def k_def by simp
qed

lemma scroll_direct:
  assumes g: "geom s" and u: "u < unat (fb_width s)" and v: "v < unat (fb_height s)"
  shows "at s (clear_line (unat (font_height s)) 0 ((fb_get_rows s - 1) * font_height s) s
      (copy_lines (unat (fb_get_rows s - 1)) 0 s a)) u v = scrolled s a u v"
proof -
  let ?k = "unat (font_height s)" and ?L = "unat (fb_height s) div unat (font_height s)"
  note l = geom_lines [OF g]
  have k: "0 < ?k" using g by (simp add: geom_def)
  have last: "(fb_get_rows s - 1) * font_height s = of_nat ((?L - 1) * ?k)" unfolding l(2) by simp
  have c: "at s (copy_lines (unat (fb_get_rows s - 1)) 0 s a) u v = (if v < (?L - 1) * ?k then at s a u (v + ?k) else at s a u v)"
    using copy_lines_up [of "unat (fb_get_rows s - 1)" 0 s a] rows_up_eq [OF g, of 0 "(?L - 1) * ?k" ?k u v a] l k u v by simp
  have "(?L - 1) * ?k + 0 + ?k \<le> unat (fb_height s)" using l(6,7) by simp
  from clear_line_eq [OF g this u v] show ?thesis
    unfolding last scrolled_def Let_def using c l(6) by (simp add: algebra_simps)
qed

lemma scroll_double:
  assumes g: "geom s" and u: "u < unat (fb_width s)" and v: "v < unat (fb_height s)"
  shows "at s (stosl (unat (font_height s * fb_pitch s)) ((fb_get_rows s - 1) * font_height s * fb_pitch s) (current_bg s)
      (movsl_within (unat ((fb_get_rows s - 1) * font_height s * fb_pitch s)) (font_height s * fb_pitch s) 0 a)) u v = scrolled s a u v"
proof -
  let ?k = "unat (font_height s)" and ?L = "unat (fb_height s) div unat (font_height s)" and ?P = "unat (fb_pitch s)"
  note l = geom_lines [OF g]
  have up: "u < ?P" using g u by (simp add: geom_def)
  have "?L * ?k * ?P \<le> unat (fb_height s) * ?P" using l(7) by (rule mult_le_mono1)
  also have "\<dots> < 2 ^ 31" using g by (simp add: geom_def)
  finally have b: "(?L - 1) * ?k * ?P + ?k * ?P < 2 ^ 31" using l(6) by (metis add_mult_distrib)
  have "font_height s * fb_pitch s = of_nat (?k * ?P)" by simp
  moreover have "(fb_get_rows s - 1) * font_height s * fb_pitch s = of_nat ((?L - 1) * ?k * ?P)" unfolding l(2) by simp
  ultimately have w: "unat (font_height s * fb_pitch s) = ?k * ?P"
    "unat ((fb_get_rows s - 1) * font_height s * fb_pitch s) = (?L - 1) * ?k * ?P"
    using b unat_of_nat_small [of "?k * ?P"] unat_of_nat_small [of "(?L - 1) * ?k * ?P"] by simp_all
  have i: "unat (of_nat (v * ?P + u) :: u32) = v * ?P + u" by (rule geom_index(1) [OF g up v])
  have below: "v * ?P + u < m * ?P \<longleftrightarrow> v < m" for m
  proof
    assume "v < m"
    then have "Suc v * ?P \<le> m * ?P" by (intro mult_le_mono1) simp
    then show "v * ?P + u < m * ?P" using up by simp
  next
    assume "v * ?P + u < m * ?P"
    then have "v * ?P < m * ?P" by linarith
    then show "v < m" by simp
  qed
  then have ge: "m * ?P \<le> v * ?P + u \<longleftrightarrow> m \<le> v" for m by (metis not_less)
  have le: "unat (0 :: u32) \<le> unat (font_height s * fb_pitch s)"
    "unat (font_height s * fb_pitch s) + unat ((fb_get_rows s - 1) * font_height s * fb_pitch s) \<le> 2 ^ 32"
    using w b by simp_all
  have src: "of_nat (v * ?P + u) + (font_height s * fb_pitch s - 0) = (of_nat ((v + ?k) * ?P + u) :: u32)"
    by (simp add: algebra_simps)
  have m: "movsl_within (unat ((fb_get_rows s - 1) * font_height s * fb_pitch s)) (font_height s * fb_pitch s) 0 a (of_nat (v * ?P + u)) =
      (if v < (?L - 1) * ?k then at s a u (v + ?k) else at s a u v)"
    unfolding movsl_within_eq [OF le] src unfolding w i unsigned_0 add_0 below pixel_def by simp
  have "unat ((fb_get_rows s - 1) * font_height s * fb_pitch s) + unat (font_height s * fb_pitch s) \<le> 2 ^ 32" using w b by simp
  note st = stosl_eq [OF this]
  have e: "(?L - 1) * ?k * ?P + ?k * ?P = ?L * ?k * ?P" using l(6) by (metis add_mult_distrib)
  show ?thesis unfolding pixel_def st m unfolding w i e below ge scrolled_def Let_def pixel_def by simp
qed


section \<open>Double buffering\<close>

text \<open>A driver with a back buffer (\<open>s\<close>) beside one without (\<open>d\<close>): the back buffer shows what the other one has on the
  screen, and outside the dirty rectangle the screen is up to date.\<close>

definition same_console :: "fb_state \<Rightarrow> fb_state \<Rightarrow> bool" where
  "same_console s d \<longleftrightarrow>
     fb_ready s = fb_ready d \<and> fb_width s = fb_width d \<and> fb_height s = fb_height d \<and> fb_pitch s = fb_pitch d \<and>
     cursor_x s = cursor_x d \<and> cursor_y s = cursor_y d \<and> current_fg s = current_fg d \<and> current_bg s = current_bg d \<and>
     font_mem s = font_mem d \<and> fallback_addr s = fallback_addr d \<and> font_glyphs s = font_glyphs d \<and>
     font_unicode_table s = font_unicode_table d \<and> font_glyph_count s = font_glyph_count d \<and> font_width s = font_width d \<and>
     font_height s = font_height d \<and> font_initialized s = font_initialized d \<and> utf8_state s = utf8_state d \<and>
     utf8_codepoint s = utf8_codepoint d"

definition in_dirty :: "fb_state \<Rightarrow> nat \<Rightarrow> nat \<Rightarrow> bool" where
  "in_dirty s x y \<longleftrightarrow> unat (min_x s) \<le> x \<and> x < unat (max_x s) \<and> unat (min_y s) \<le> y \<and> y < unat (max_y s)"

definition synced :: "fb_state \<Rightarrow> bool" where
  "synced s \<longleftrightarrow> min_x s \<le> fb_width s \<and>
     (\<forall>x y. x < unat (fb_width s) \<longrightarrow> y < unat (fb_height s) \<longrightarrow> \<not> in_dirty s x y \<longrightarrow>
       at s (lfb s) x y = at s (back_buffer s) x y)"

definition sim :: "fb_state \<Rightarrow> fb_state \<Rightarrow> bool" where
  "sim s d \<longleftrightarrow> double_buffering s \<and> \<not> double_buffering d \<and> same_console s d \<and> agree s (back_buffer s) (lfb d) \<and> synced s"

lemma sim_paint:
  assumes "sim s d" and "0 < unat w" and "0 < unat h"
    and "unat x + unat w < 2 ^ 32" and "unat y + unat h < 2 ^ 32"
    and "agree s b a"
    and frame: "\<And>u v. u < unat (fb_width s) \<Longrightarrow> v < unat (fb_height s) \<Longrightarrow>
      \<not> (unat x \<le> u \<and> u < unat x + unat w \<and> unat y \<le> v \<and> v < unat y + unat h) \<Longrightarrow>
      at s b u v = at s (back_buffer s) u v"
  shows "sim (mark_dirty x y w h (s\<lparr>back_buffer := b\<rparr>)) (d\<lparr>lfb := a\<rparr>)"
proof -
  let ?s = "mark_dirty x y w h (s\<lparr>back_buffer := b\<rparr>)"
  have nz: "w \<noteq> 0" "h \<noteq> 0" using assms(2,3) by auto
  have d: "double_buffering s" using assms(1) by (simp add: sim_def)
  have ends: "unat (x + w) = unat x + unat w" "unat (y + h) = unat y + unat h"
    using assms(4,5) unat_offset [of x "unat w"] unat_offset [of y "unat h"] by simp_all
  have new: "in_dirty ?s u v" if "in_dirty s u v" for u v
    using that nz d by (auto simp: mark_dirty_def in_dirty_def word_less_nat_alt)
  have rect: "in_dirty ?s u v" if "unat x \<le> u" "u < unat x + unat w" "unat y \<le> v" "v < unat y + unat h" for u v
    using that nz d ends by (auto simp: mark_dirty_def in_dirty_def word_less_nat_alt)
  have "at s (lfb s) u v = at s b u v"
    if o: "u < unat (fb_width s)" "v < unat (fb_height s)" "\<not> in_dirty ?s u v" for u v
  proof -
    have "at s b u v = at s (back_buffer s) u v" using frame [OF o(1,2)] rect o(3) by blast
    moreover have "at s (lfb s) u v = at s (back_buffer s) u v"
      using assms(1) o new by (auto simp: sim_def synced_def)
    ultimately show ?thesis by simp
  qed
  then have "synced ?s"
    using assms(1) nz d by (auto simp: synced_def sim_def mark_dirty_def)
  moreover have "same_console ?s (d\<lparr>lfb := a\<rparr>)" using assms(1) nz d by (simp add: mark_dirty_def sim_def same_console_def)
  moreover have "agree ?s (back_buffer ?s) a" using assms(6) nz d by (simp add: mark_dirty_def agree_def)
  moreover have "double_buffering ?s" using nz d by (simp add: mark_dirty_def)
  ultimately show ?thesis using assms(1) by (simp add: sim_def)
qed

lemma sim_render:
  assumes "sim s d" and g: "geom s" and px: "unat px + 8 \<le> unat (fb_width s)"
    and py: "unat py + unat (font_height s) \<le> unat (fb_height s)"
  shows "sim (render_glyph i px py fg bg s) (render_glyph i px py fg bg d)"
proof -
  let ?b = "glyph_rows (unat (font_height s)) 0 (glyph_address i s) px py fg bg s"
  have e: "glyph_address i d = glyph_address i s" "font_height d = font_height s" "font_width d = font_width s"
    "fb_width d = fb_width s" "fb_height d = fb_height s" "fb_ready d = fb_ready s"
    using assms(1) by (simp_all add: sim_def same_console_def glyph_address_def)
  have rows: "glyph_rows n r k px py fg bg d a = glyph_rows n r k px py fg bg s a" for n r k a
    by (induction n arbitrary: r a) (use assms(1) in \<open>simp_all add: sim_def same_console_def\<close>)
  have agree_rows: "agree s a b \<Longrightarrow> agree s (glyph_rows n r k px py fg bg s a) (glyph_rows n r k px py fg bg s b)" for n r k a b
    by (induction n arbitrary: r a b) (auto intro: agree_glyph_cols)
  have f: "unat (font_width s) = 8" "0 < unat (font_height s)" "fb_ready s" "font_width s = 8" using g by (simp_all add: geom_def)
  have lt: "unat px + unat (font_width s) < 2 ^ 32" "unat py + unat (font_height s) < 2 ^ 32"
    using px py f(1) unsigned_less [of "fb_width s", where 'a = nat] unsigned_less [of "fb_height s", where 'a = nat] g
    by (simp_all add: geom_def) 
  have in_screen: "\<not> (px + font_width s > fb_width s \<or> py + font_height s > fb_height s)"
    using lt px py f(1) unat_offset [of px "unat (font_width s)"] unat_offset [of py "unat (font_height s)"]
    by (simp add: word_less_nat_alt f(4))
  have "sim (mark_dirty px py (font_width s) (font_height s) (s\<lparr>back_buffer := ?b (back_buffer s)\<rparr>)) (d\<lparr>lfb := ?b (lfb d)\<rparr>)"
    using assms(1) f lt px py
    by (intro sim_paint agree_rows glyph_rows_frame [OF g]) (auto simp: sim_def)
  then show ?thesis
    using in_screen f(3) assms(1) by (simp add: render_glyph_def Let_def e rows sim_def [of s])
qed

lemma sim_scroll:
  assumes "sim s d" and g: "geom s"
  shows "sim (fb_scroll_up s) (fb_scroll_up d)"
proof -
  have e: "fb_get_rows d = fb_get_rows s" "font_height d = font_height s" "fb_ready d" "fb_ready s" "\<not> double_buffering d"
      "double_buffering s"
    using assms by (simp_all add: sim_def same_console_def fb_get_rows_def geom_def)
  have g': "geom d" using assms by (simp add: geom_def sim_def same_console_def)
  have same: "fb_width d = fb_width s" "fb_height d = fb_height s" "fb_pitch d = fb_pitch s" "current_bg d = current_bg s"
    using assms(1) by (simp_all add: sim_def same_console_def)
  let ?b = "stosl (unat (font_height s * fb_pitch s)) ((fb_get_rows s - 1) * font_height s * fb_pitch s) (current_bg s)
      (movsl_within (unat ((fb_get_rows s - 1) * font_height s * fb_pitch s)) (font_height s * fb_pitch s) 0 (back_buffer s))"
  let ?a = "clear_line (unat (font_height d)) 0 ((fb_get_rows d - 1) * font_height d) d
      (copy_lines (unat (fb_get_rows d - 1)) 0 d (lfb d))"
  have ag: "at s (back_buffer s) u v = at s (lfb d) u v" if "u < unat (fb_width s)" "v < unat (fb_height s)" for u v
    using assms(1) that by (simp add: sim_def agree_def)
  have "agree s ?b ?a"
    unfolding agree_def
  proof (intro allI impI)
    fix u v
    assume uv: "u < unat (fb_width s)" "v < unat (fb_height s)"
    have "v + unat (font_height s) < unat (fb_height s)"
      if "v < (unat (fb_height s) div unat (font_height s) - 1) * unat (font_height s)"
      using that geom_lines(6,7) [OF g] by linarith
    then have "scrolled s (back_buffer s) u v = scrolled d (lfb d) u v"
      unfolding scrolled_def Let_def e(2) same using ag uv by auto
    then show "at s ?b u v = at s ?a u v"
      using scroll_double [OF g uv] scroll_direct [OF g', of u v] uv same by simp
  qed
  then have "sim (mark_dirty 0 0 (fb_width s) (fb_height s) (s\<lparr>back_buffer := ?b\<rparr>)) (d\<lparr>lfb := ?a\<rparr>)"
    using assms unsigned_less [of "fb_width s", where 'a = nat] unsigned_less [of "fb_height s", where 'a = nat]
    by (intro sim_paint) (auto simp: geom_def)
  then show ?thesis using e by (simp add: fb_scroll_up_def Let_def)
qed


section \<open>Terminal output\<close>

text \<open>What drawing and scrolling leave alone.\<close>

lemma render_console: "same_console (render_glyph i px py fg bg s) s"
  by (simp add: same_console_def render_glyph_def mark_dirty_def Let_def)

lemma scroll_console: "same_console (fb_scroll_up s) s"
  by (simp add: same_console_def fb_scroll_up_def mark_dirty_def Let_def)

lemma same_console_geom:
  assumes "same_console s t"
  shows "geom s = geom t" "fb_get_cols s = fb_get_cols t" "fb_get_rows s = fb_get_rows t"
    "cursor_x s = cursor_x t" "cursor_y s = cursor_y t"
  using assms by (simp_all add: same_console_def geom_def fb_get_cols_def fb_get_rows_def)

lemmas console_after = same_console_geom [OF render_console] same_console_geom [OF scroll_console]

text \<open>A state of the terminal between two bytes: \<open>pend\<close> allows the cursor to stand just below the last line, where a scroll
  is due.\<close>

definition pend :: "fb_state \<Rightarrow> fb_state \<Rightarrow> bool" where
  "pend s d \<longleftrightarrow> sim s d \<and> geom s \<and> cursor_x s < fb_get_cols s \<and> cursor_y s \<le> fb_get_rows s"

definition settled :: "fb_state \<Rightarrow> fb_state \<Rightarrow> bool" where
  "settled s d \<longleftrightarrow> sim s d \<and> geom s \<and> cursor_x s < fb_get_cols s \<and> cursor_y s < fb_get_rows s"

lemma settled_pend: "settled s d \<Longrightarrow> pend s d"
  by (auto simp: settled_def pend_def)

lemma sim_fields:
  assumes "sim s d"
  shows "cursor_x d = cursor_x s" "cursor_y d = cursor_y s" "fb_width d = fb_width s" "fb_height d = fb_height s"
    "font_width d = font_width s" "font_height d = font_height s" "utf8_state d = utf8_state s"
    "utf8_codepoint d = utf8_codepoint s" "current_fg d = current_fg s" "current_bg d = current_bg s" "fb_ready d = fb_ready s"
    "terminal_glyph ch plain d = terminal_glyph ch plain s"
proof -
  have c: "same_console s d" using assms by (simp add: sim_def)
  then have f: "find_glyph_index c d = find_glyph_index c s" for c by (simp add: same_console_def find_glyph_index_def)
  show "terminal_glyph ch plain d = terminal_glyph ch plain s"
    unfolding terminal_glyph_def f using c by (simp add: same_console_def)
qed (use assms in \<open>simp_all add: sim_def same_console_def\<close>)

lemma pixels_console [simp]:
  "agree (s\<lparr>cursor_x := a\<rparr>) = agree s" "agree (s\<lparr>cursor_y := b\<rparr>) = agree s" "agree (s\<lparr>utf8_state := u\<rparr>) = agree s"
  "agree (s\<lparr>utf8_codepoint := c\<rparr>) = agree s"
  "synced (s\<lparr>cursor_x := a\<rparr>) = synced s" "synced (s\<lparr>cursor_y := b\<rparr>) = synced s" "synced (s\<lparr>utf8_state := u\<rparr>) = synced s"
  "synced (s\<lparr>utf8_codepoint := c\<rparr>) = synced s"
  by (simp_all add: agree_def synced_def in_dirty_def fun_eq_iff)

lemma sim_cursor:
  assumes "sim s d"
  shows "sim (s\<lparr>cursor_x := a, cursor_y := b\<rparr>) (d\<lparr>cursor_x := a, cursor_y := b\<rparr>)"
    "sim (s\<lparr>cursor_x := a\<rparr>) (d\<lparr>cursor_x := a\<rparr>)"
    "sim (s\<lparr>cursor_y := b\<rparr>) (d\<lparr>cursor_y := b\<rparr>)"
    "sim (s\<lparr>utf8_state := u\<rparr>) (d\<lparr>utf8_state := u\<rparr>)"
    "sim (s\<lparr>utf8_codepoint := c, utf8_state := u\<rparr>) (d\<lparr>utf8_codepoint := c, utf8_state := u\<rparr>)"
  using assms by (simp_all add: sim_def same_console_def)

lemma geom_cursor [simp]:
  "geom (s\<lparr>cursor_x := a\<rparr>) = geom s" "geom (s\<lparr>cursor_y := b\<rparr>) = geom s" "geom (s\<lparr>utf8_state := u\<rparr>) = geom s"
  "geom (s\<lparr>utf8_codepoint := c\<rparr>) = geom s"
  "fb_get_cols (s\<lparr>cursor_x := a\<rparr>) = fb_get_cols s" "fb_get_cols (s\<lparr>cursor_y := b\<rparr>) = fb_get_cols s"
  "fb_get_cols (s\<lparr>utf8_state := u\<rparr>) = fb_get_cols s" "fb_get_cols (s\<lparr>utf8_codepoint := c\<rparr>) = fb_get_cols s"
  "fb_get_rows (s\<lparr>cursor_x := a\<rparr>) = fb_get_rows s" "fb_get_rows (s\<lparr>cursor_y := b\<rparr>) = fb_get_rows s"
  "fb_get_rows (s\<lparr>utf8_state := u\<rparr>) = fb_get_rows s" "fb_get_rows (s\<lparr>utf8_codepoint := c\<rparr>) = fb_get_rows s"
  by (simp_all add: geom_def fb_get_cols_def fb_get_rows_def)

lemma cell_fits:
  assumes "geom s" and "cx < fb_get_cols s" and "cy < fb_get_rows s"
  shows "unat (cx * font_width s) + 8 \<le> unat (fb_width s)"
    "unat (cy * font_height s) + unat (font_height s) \<le> unat (fb_height s)"
proof -
  have f: "font_width s = 8" "0 < unat (font_height s)" using assms(1) by (simp_all add: geom_def)
  have "unat cx < unat (fb_width s) div 8" using assms(2) f by (simp add: fb_get_cols_def word_less_nat_alt unat_div)
  then have x: "unat cx * 8 + 8 \<le> unat (fb_width s)" by linarith
  then have "unat (cx * 8) = unat cx * 8"
    using unat_of_nat_small [of "unat cx * 8"] unat_u32_bound [of "fb_width s"] by simp
  then show "unat (cx * font_width s) + 8 \<le> unat (fb_width s)" using x f by simp
  have "unat cy < unat (fb_height s) div unat (font_height s)"
    using assms(3) by (simp add: fb_get_rows_def word_less_nat_alt unat_div)
  then have "Suc (unat cy) * unat (font_height s) \<le> unat (fb_height s) div unat (font_height s) * unat (font_height s)"
    by (intro mult_le_mono1) simp
  also have "\<dots> \<le> unat (fb_height s)" by simp
  finally have y: "unat cy * unat (font_height s) + unat (font_height s) \<le> unat (fb_height s)" by simp
  then have "unat (cy * font_height s) = unat cy * unat (font_height s)"
    using unat_of_nat_small [of "unat cy * unat (font_height s)"] unat_u32_bound [of "fb_height s"] f by simp
  then show "unat (cy * font_height s) + unat (font_height s) \<le> unat (fb_height s)" using y by simp
qed

lemma sim_draw:
  assumes "sim s d" and "geom s" and "cursor_x s < fb_get_cols s" and "cursor_y s < fb_get_rows s"
  shows "sim (draw_at_cursor g s) (draw_at_cursor g d)"
  unfolding draw_at_cursor_def sim_fields [OF assms(1)]
  by (rule sim_render [OF assms(1,2) cell_fits [OF assms(2-4)]])

lemma draw_console:
  "geom (draw_at_cursor g s) = geom s" "fb_get_cols (draw_at_cursor g s) = fb_get_cols s"
  "fb_get_rows (draw_at_cursor g s) = fb_get_rows s" "cursor_x (draw_at_cursor g s) = cursor_x s"
  "cursor_y (draw_at_cursor g s) = cursor_y s"
  by (simp_all add: draw_at_cursor_def console_after)

lemma wrap_pend:
  assumes "sim s d" and "geom s" and "cursor_y s < fb_get_rows s"
  shows "pend (wrap_cursor s) (wrap_cursor d)"
proof -
  have "0 < fb_get_cols s"
    using assms(2) by (simp add: geom_def fb_get_cols_def word_less_nat_alt unat_div div_greater_zero_iff)
  moreover have "cursor_y s + 1 \<le> fb_get_rows s" using assms(3) by (rule inc_le)
  ultimately show ?thesis
    using assms sim_fields [OF assms(1)] sim_cursor(1) [OF assms(1)] unfolding wrap_cursor_def pend_def fb_get_cols_def [symmetric]
    by (auto simp: not_le fb_get_cols_def)
qed

lemma print_glyph_pend:
  assumes "settled s d"
  shows "pend (print_glyph g s) (print_glyph g d)"
  unfolding print_glyph_def Let_def
proof (rule wrap_pend)
  have s: "sim s d" "geom s" "cursor_x s < fb_get_cols s" "cursor_y s < fb_get_rows s"
    using assms by (simp_all add: settled_def)
  note d = sim_draw [OF s, of g]
  show "sim (draw_at_cursor g s\<lparr>cursor_x := cursor_x (draw_at_cursor g s) + 1\<rparr>)
      (draw_at_cursor g d\<lparr>cursor_x := cursor_x (draw_at_cursor g d) + 1\<rparr>)"
    using sim_cursor(2) [OF d] by (simp add: sim_fields(1) [OF d])
qed (use assms in \<open>simp_all add: draw_console settled_def\<close>)


lemma cols_nonzero: "geom s \<Longrightarrow> 0 < fb_get_cols s" "geom s \<Longrightarrow> 0 < fb_get_rows s"
  by (simp_all add: geom_def fb_get_cols_def fb_get_rows_def word_less_nat_alt unat_div div_greater_zero_iff)

abbreviation both :: "(fb_state \<Rightarrow> fb_state \<Rightarrow> bool) \<Rightarrow> fb_state option \<Rightarrow> fb_state option \<Rightarrow> bool" where
  "both \<equiv> rel_option"

lemma print_found_pend:
  assumes "settled s d"
  shows "both pend (map_option (\<lambda>g. print_glyph g s) (terminal_glyph ch plain s))
    (map_option (\<lambda>g. print_glyph g d) (terminal_glyph ch plain d))"
proof -
  have "sim s d" using assms by (simp add: settled_def)
  then show ?thesis
    unfolding sim_fields(12) [OF \<open>sim s d\<close>] by (cases "terminal_glyph ch plain s") (simp_all add: print_glyph_pend [OF assms])
qed

lemma pred_less: "0 < x \<Longrightarrow> x - 1 < (x :: u32)"
  using unat_minus_one [of x] by (cases "x = 0") (simp_all add: word_less_nat_alt)

lemma putc_ascii_pend:
  assumes "settled s d"
  shows "both pend (putc_ascii byte s) (putc_ascii byte d)"
proof -
  have s: "sim s d" "geom s" "cursor_x s < fb_get_cols s" "cursor_y s < fb_get_rows s"
    using assms by (simp_all add: settled_def)
  note f = sim_fields(1,2) [OF s(1)]
  have line: "pend (s\<lparr>cursor_x := 0, cursor_y := cursor_y s + 1\<rparr>) (d\<lparr>cursor_x := 0, cursor_y := cursor_y d + 1\<rparr>)"
    using sim_cursor(1) [OF s(1)] s cols_nonzero [OF s(2)] inc_le [OF s(4)] by (simp add: pend_def f)
  have ret: "pend (s\<lparr>cursor_x := 0\<rparr>) (d\<lparr>cursor_x := 0\<rparr>)"
    using sim_cursor(2) [OF s(1)] s cols_nonzero [OF s(2)] by (simp add: pend_def f order_less_imp_le)
  have tab: "pend (wrap_cursor (s\<lparr>cursor_x := x\<rparr>)) (wrap_cursor (d\<lparr>cursor_x := x\<rparr>))" for x
    by (rule wrap_pend) (use sim_cursor(2) [OF s(1)] s in simp_all)
  have bs: "pend (draw_at_cursor g (s\<lparr>cursor_x := cursor_x s - 1\<rparr>)) (draw_at_cursor g (d\<lparr>cursor_x := cursor_x d - 1\<rparr>))"
    if "0 < cursor_x s" for g
  proof -
    have "cursor_x s - 1 < cursor_x s" using that by (rule pred_less)
    then have "cursor_x s - 1 < fb_get_cols s" using s(3) by simp
    then show ?thesis
      using s sim_draw [OF sim_cursor(2) [OF s(1)]] by (simp add: pend_def draw_console f order_less_imp_le)
  qed
  show ?thesis
    unfolding putc_ascii_def f using line ret tab bs print_found_pend [OF assms] settled_pend [OF assms] by (simp add: f)
qed

lemma settled_fields:
  assumes "settled s d"
  shows "settled (s\<lparr>utf8_state := u\<rparr>) (d\<lparr>utf8_state := u\<rparr>)"
    "settled (s\<lparr>utf8_codepoint := c, utf8_state := u\<rparr>) (d\<lparr>utf8_codepoint := c, utf8_state := u\<rparr>)"
  using assms sim_cursor(4,5) by (simp_all add: settled_def)

lemma putc_byte_pend: "settled s d \<Longrightarrow> both pend (putc_byte byte s) (putc_byte byte d)"
  unfolding putc_byte_def
  by (simp add: putc_ascii_pend settled_pend settled_fields print_glyph_pend)

lemma putc_continue_pend:
  assumes "settled s d"
  shows "both pend (putc_continue byte s) (putc_continue byte d)"
proof -
  have f: "utf8_codepoint d = utf8_codepoint s" "utf8_state d = utf8_state s"
    using assms sim_fields by (simp_all add: settled_def)
  show ?thesis
    unfolding putc_continue_def Let_def f
    using print_found_pend [OF settled_fields(2) [OF assms]] settled_pend [OF settled_fields(2) [OF assms]] by simp
qed

lemma check_scroll_settles:
  assumes "pend s d"
  shows "both settled (check_scroll s) (check_scroll d)"
proof -
  have s: "sim s d" "geom s" "cursor_x s < fb_get_cols s" "cursor_y s \<le> fb_get_rows s"
    using assms by (simp_all add: pend_def)
  have rows: "fb_height s div font_height s = fb_get_rows s" "fb_height d div font_height d = fb_get_rows s"
    using sim_fields(4,6) [OF s(1)] by (simp_all add: fb_get_rows_def)
  show ?thesis
  proof (cases "cursor_y s < fb_get_rows s")
    case True
    then have n: "\<not> fb_get_rows s \<le> cursor_y s" by simp
    have "check_scroll s = Some s" "check_scroll d = Some d"
      by (subst check_scroll.simps, simp add: rows n sim_fields(2) [OF s(1)])+
    then show ?thesis using True s by (simp add: settled_def)
  next
    case False
    then have y: "cursor_y s = fb_get_rows s" using s(4) by simp
    let ?s = "fb_scroll_up s\<lparr>cursor_y := cursor_y s - 1\<rparr>" and ?d = "fb_scroll_up d\<lparr>cursor_y := cursor_y s - 1\<rparr>"
    have less: "cursor_y s - 1 < fb_get_rows s"
      using y cols_nonzero(2) [OF s(2)] pred_less by simp
    then have n: "\<not> fb_get_rows s \<le> cursor_y s - 1" by simp
    have sim: "sim ?s ?d" using sim_cursor(3) [OF sim_scroll [OF s(1,2)]] .
    have after: "fb_get_rows (fb_scroll_up s) = fb_get_rows s" "cursor_y (fb_scroll_up s) = cursor_y s"
      "cursor_y (fb_scroll_up d) = cursor_y s"
      using console_after sim_fields(2) [OF s(1)] by simp_all
    have st: "settled ?s ?d" using sim less s by (simp add: settled_def console_after)
    have rows': "fb_height ?s div font_height ?s = fb_get_rows s" "fb_height ?d div font_height ?d = fb_get_rows s"
      using sim_fields(4,6) [OF sim] after(1) by (simp_all add: fb_get_rows_def)
    have "check_scroll s = check_scroll ?s" "check_scroll d = check_scroll ?d"
      by (subst check_scroll.simps, simp add: rows Let_def after y sim_fields(2) [OF s(1)])+
    moreover have "check_scroll ?s = Some ?s" "check_scroll ?d = Some ?d"
      by (subst check_scroll.simps, simp only: rows', simp add: n)+
    ultimately show ?thesis using st by simp
  qed
qed


lemma bind_both:
  "both R a b \<Longrightarrow> (\<And>x y. R x y \<Longrightarrow> both Q (f x) (g y)) \<Longrightarrow> both Q (Option.bind a f) (Option.bind b g)"
  by (cases a; cases b) auto

lemma putc_settles:
  assumes "settled s d"
  shows "both settled (fb_putc byte s) (fb_putc byte d)"
proof -
  have s: "sim s d" "fb_ready s" using assms by (simp_all add: settled_def geom_def)
  have f: "fb_ready d" "utf8_state d = utf8_state s" using s sim_fields [OF s(1)] by simp_all
  show ?thesis
    unfolding fb_putc_def f
    by (simp add: s f, intro conjI impI bind_both [of pend] check_scroll_settles)
      (simp_all add: assms putc_continue_pend putc_byte_pend settled_fields)
qed

lemma print_settles: "settled s d \<Longrightarrow> both settled (fb_print str s) (fb_print str d)"
proof (induction str arbitrary: s d)
  case (Cons c str)
  then have "fb_ready s" "fb_ready d" using sim_fields(11) [of s d] by (simp_all add: settled_def geom_def)
  then show ?case using bind_both [OF putc_settles [OF Cons.prems] Cons.IH] by simp
qed simp

section \<open>Flushing\<close>

lemma flush_rows_eq:
  assumes g: "geom s" and m: "max_x s \<le> fb_width s" "min_x s \<le> max_x s" and u: "u < unat (fb_width s)" and v: "v < unat (fb_height s)"
  shows "y + n \<le> unat (fb_height s) \<Longrightarrow> at s (lfb (flush_rows n (of_nat y) (s\<lparr>lfb := a\<rparr>))) u v =
    (if y \<le> v \<and> v < y + n \<and> unat (min_x s) \<le> u \<and> u < unat (max_x s) then at s (back_buffer s) u v else at s a u v)"
proof (induction n arbitrary: y a)
  case (Suc n)
  let ?w = "unat (max_x s - min_x s)" and ?P = "unat (fb_pitch s)"
  have w: "unat (min_x s) + ?w = unat (max_x s)" using m(2) by (simp add: unat_sub word_le_nat_alt)
  have fits: "unat (min_x s) + ?w \<le> ?P" using w m(1) g by (simp add: geom_def word_le_nat_alt)
  have y: "y < unat (fb_height s)" and up: "u < ?P" using Suc.prems u g by (simp_all add: geom_def)
  have e: "flush_rows (Suc n) (of_nat y) (s\<lparr>lfb := a\<rparr>) = flush_rows n (of_nat (Suc y))
      (s\<lparr>lfb := movsl ?w (of_nat (y * ?P + unat (min_x s))) (of_nat (y * ?P + unat (min_x s))) (back_buffer s) a\<rparr>)"
    by (simp add: Let_def algebra_simps)
  have l: "Suc y + n \<le> unat (fb_height s)" using Suc.prems by simp
  show ?case unfolding e Suc.IH [OF l] movsl_row [OF g fits y up v] w by auto
qed auto

lemma flush_shows_back_buffer:
  assumes "synced s" and "double_buffering s" and g: "geom s"
  shows "agree s (lfb (fb_flush s)) (back_buffer s)"
  unfolding agree_def
proof (intro allI impI)
  fix u v
  assume u: "u < unat (fb_width s)" and v: "v < unat (fb_height s)"
  show "at s (lfb (fb_flush s)) u v = at s (back_buffer s) u v"
  proof (cases "is_dirty s")
    case False
    then have "\<not> in_dirty s u v" by (auto simp: is_dirty_def in_dirty_def word_less_nat_alt)
    then show ?thesis using assms u v False by (simp add: synced_def fb_flush_def)
  next
    case True
    let ?t = "s\<lparr>max_x := (if max_x s > fb_width s then fb_width s else max_x s),
                     max_y := (if max_y s > fb_height s then fb_height s else max_y s)\<rparr>"
    have d: "min_x s < max_x s" "min_x s \<le> fb_width s" using True assms(1) by (simp_all add: is_dirty_def synced_def)
    have t: "geom ?t" "max_x ?t \<le> fb_width ?t" "min_x ?t \<le> max_x ?t" "u < unat (fb_width ?t)" "v < unat (fb_height ?t)"
      using g d u v by (auto simp: geom_def)
    have "fb_flush s = reset_dirty (flush_rows (unat (max_y ?t) - unat (min_y s)) (min_y s) ?t)"
      using True assms by (simp add: fb_flush_def geom_def Let_def)
    then have l: "lfb (fb_flush s) = lfb (flush_rows (unat (max_y ?t) - unat (min_y s)) (of_nat (unat (min_y s))) (?t\<lparr>lfb := lfb s\<rparr>))"
      by (simp add: reset_dirty_def)
    have y: "unat (max_y ?t) \<le> unat (fb_height s)" by (simp add: word_le_nat_alt not_less)
    have "at ?t (lfb (fb_flush s)) u v = (if in_dirty s u v then at s (back_buffer s) u v else at s (lfb s) u v)"
    proof (cases "unat (min_y s) \<le> unat (max_y ?t)")
      case True
      then show ?thesis
        unfolding l by (subst flush_rows_eq [OF t]) (use y u v in \<open>auto simp: in_dirty_def word_less_nat_alt\<close>)
    next
      case False
      then show ?thesis
        unfolding l using v by (auto simp: in_dirty_def word_less_nat_alt split: if_splits)
    qed
    then show ?thesis using assms u v by (simp add: synced_def)
  qed
qed


section \<open>Printing with and without a back buffer\<close>

text \<open>Without a Unicode table every byte is printed: no glyph has to be searched.\<close>

lemma check_scroll_some:
  assumes "geom s" and "cursor_y s \<le> fb_get_rows s" and "check_scroll s = r"
  shows "\<exists>s'. r = Some s' \<and> font_unicode_table s' = font_unicode_table s"
proof (cases "fb_get_rows s \<le> cursor_y s")
  case False
  then show ?thesis using assms(3) by (subst (asm) check_scroll.simps) (auto simp: fb_get_rows_def)
next
  case True
  let ?s = "fb_scroll_up s\<lparr>cursor_y := cursor_y s - 1\<rparr>"
  have y: "cursor_y s = fb_get_rows s" using True assms(2) by simp
  have a: "fb_get_rows (fb_scroll_up s) = fb_get_rows s" "cursor_y (fb_scroll_up s) = cursor_y s" by (simp_all add: console_after)
  have n: "\<not> fb_get_rows s \<le> cursor_y s - 1" using y cols_nonzero(2) [OF assms(1)] pred_less [of "fb_get_rows s"] by (simp add: not_le)
  have "check_scroll s = check_scroll ?s"
    by (subst check_scroll.simps) (use True a in \<open>simp add: fb_get_rows_def Let_def\<close>)
  also have "\<dots> = Some ?s"
    by (subst check_scroll.simps) (use n a in \<open>simp add: fb_get_rows_def\<close>)
  finally show ?thesis using assms(3) scroll_console [of s] by (simp add: same_console_def)
qed

lemma print_glyph_table [simp]: "font_unicode_table (print_glyph g s) = font_unicode_table s"
  using render_console by (simp add: print_glyph_def draw_at_cursor_def wrap_cursor_def Let_def same_console_def)

lemma draw_table [simp]: "font_unicode_table (draw_at_cursor g s) = font_unicode_table s"
  using render_console by (simp add: draw_at_cursor_def same_console_def)

lemma putc_byte_some:
  assumes "font_unicode_table s = 0"
  shows "\<exists>s'. putc_byte byte s = Some s' \<and> font_unicode_table s' = 0"
    "\<exists>s'. putc_continue byte s = Some s' \<and> font_unicode_table s' = 0"
  using assms by (simp_all add: putc_byte_def putc_ascii_def putc_continue_def terminal_glyph_def wrap_cursor_def Let_def)

lemma putc_some:
  assumes "settled s d" and "font_unicode_table s = 0"
  shows "\<exists>s'. fb_putc byte s = Some s' \<and> font_unicode_table s' = 0"
proof -
  let ?r = "if utf8_state s > 0 \<and> byte AND 0xC0 = 0x80 then putc_continue byte s
         else putc_byte byte (if utf8_state s > 0 then s\<lparr>utf8_state := 0\<rparr> else s)"
  have r: "fb_putc byte s = Option.bind ?r check_scroll" using assms(1) by (simp add: fb_putc_def settled_def geom_def)
  have "\<exists>s1. ?r = Some s1 \<and> font_unicode_table s1 = 0" using assms(2) by (simp add: putc_byte_some)
  then obtain s1 where s1: "?r = Some s1" "font_unicode_table s1 = 0" by blast
  have "both pend ?r (if utf8_state d > 0 \<and> byte AND 0xC0 = 0x80 then putc_continue byte d
         else putc_byte byte (if utf8_state d > 0 then d\<lparr>utf8_state := 0\<rparr> else d))"
    using assms(1) sim_fields(7) [of s d]
    by (auto simp: settled_def [of s d] intro!: putc_continue_pend putc_byte_pend settled_fields)
  then have "geom s1" "cursor_y s1 \<le> fb_get_rows s1" using s1 by (auto simp: pend_def elim!: option.rel_cases)
  from check_scroll_some [OF this refl] show ?thesis using r s1 by simp
qed

lemma print_some: "settled s d \<Longrightarrow> font_unicode_table s = 0 \<Longrightarrow> fb_print str s \<noteq> None"
proof (induction str arbitrary: s d)
  case (Cons c str)
  obtain s' where s': "fb_putc c s = Some s'" "font_unicode_table s' = 0" using putc_some [OF Cons.prems] by blast
  then obtain d' where "settled s' d'" using putc_settles [OF Cons.prems(1), of c] by (auto elim: option.rel_cases)
  then show ?case using Cons.IH s' by simp
qed simp

text \<open>What can be seen of the frame buffer.\<close>

definition screen :: "fb_state \<Rightarrow> u32 list list" where
  "screen s = map (\<lambda>y. map (\<lambda>x. at s (lfb s) x y) [0..<unat (fb_width s)]) [0..<unat (fb_height s)]"

lemma enabled_settled:
  assumes "geom d" and "cursor_x d < fb_get_cols d" and "cursor_y d < fb_get_rows d" and "\<not> double_buffering d"
    and e: "fb_enable_double_buffering fresh h d = (h', s)" and "double_buffering s"
  shows "settled s d" "font_unicode_table s = font_unicode_table d"
proof -
  obtain p where p: "kmalloc (fb_height d * fb_pitch d * 4) h = (h', p)" "p \<noteq> 0"
    and s: "s = (reset_dirty (d\<lparr>double_buffering := True\<rparr>))
      \<lparr>back_buffer := movsl (unat (fb_height d * fb_pitch d)) 0 0 (lfb d) fresh\<rparr>"
    using assms by (auto simp: fb_enable_double_buffering_def geom_def split: prod.splits if_splits)
  have u: "unat (fb_height d * fb_pitch d) = unat (fb_height d) * unat (fb_pitch d)"
    using unat_of_nat_small [of "unat (fb_height d) * unat (fb_pitch d)"] assms(1) by (simp add: geom_def)
  have z: "unat (0 :: u32) + unat (fb_height d * fb_pitch d) \<le> 2 ^ 32" using u assms(1) by (simp add: geom_def)
  have m: "at d (back_buffer s) x y = at d (lfb d) x y" if "x < unat (fb_width d)" "y < unat (fb_height d)" for x y
  proof -
    have "x < unat (fb_pitch d)" using that assms(1) by (simp add: geom_def)
    from geom_index(1,2) [OF assms(1) this that(2)] show ?thesis unfolding s pixel_def by (simp add: movsl_eq [OF z [unfolded u]] u)
  qed
  have "same_console s d" by (simp add: s same_console_def reset_dirty_def)
  moreover have "synced s" using m by (simp add: s synced_def reset_dirty_def)
  moreover have "agree s (back_buffer s) (lfb d)" using m by (simp add: agree_def) (simp add: s reset_dirty_def)
  ultimately show "settled s d"
    using assms same_console_geom [of s d] by (simp add: settled_def sim_def)
  show "font_unicode_table s = font_unicode_table d" by (simp add: s reset_dirty_def)
qed

lemma settled_screen:
  assumes "settled s d"
  shows "screen (fb_flush s) = screen d"
proof -
  have s: "sim s d" "geom s" "synced s" "double_buffering s" using assms by (simp_all add: settled_def sim_def)
  have f: "fb_width d = fb_width s" "fb_height d = fb_height s" "fb_pitch d = fb_pitch s"
    using s(1) by (simp_all add: sim_def same_console_def)
  have rows: "fb_width (flush_rows n y t) = fb_width t" "fb_height (flush_rows n y t) = fb_height t"
    "fb_pitch (flush_rows n y t) = fb_pitch t" for n y t
    by (induction n arbitrary: y t) (simp_all add: Let_def)
  have g: "fb_width (fb_flush s) = fb_width s" "fb_height (fb_flush s) = fb_height s" "fb_pitch (fb_flush s) = fb_pitch s"
    by (simp_all add: fb_flush_def reset_dirty_def Let_def rows)
  have "at s (lfb (fb_flush s)) x y = at s (lfb d) x y" if "x < unat (fb_width s)" "y < unat (fb_height s)" for x y
    using flush_shows_back_buffer [OF s(3,4,2)] s(1) that by (simp add: agree_def sim_def)
  then show ?thesis by (simp add: screen_def f g)
qed

text \<open>
  C5. Double buffering cannot be seen: on a driver with a plausible geometry and its cursor on the screen, switching the
  back buffer on, printing any bytes (text, control characters, UTF-8, valid or not) and flushing leaves exactly the picture
  that printing straight to the screen gives, scrolling included; and with a font that has no Unicode table printing always
  returns.
\<close>

theorem double_buffering_invisible:
  assumes "geom d" and "cursor_x d < fb_get_cols d" and "cursor_y d < fb_get_rows d" and "\<not> double_buffering d"
    and "fb_enable_double_buffering fresh h d = (h', s)" and "double_buffering s"
  shows "map_option (screen \<circ> fb_flush) (fb_print str s) = map_option screen (fb_print str d) \<and>
    (font_unicode_table d = 0 \<longrightarrow> fb_print str s \<noteq> None)"
proof -
  note s = enabled_settled [OF assms]
  have "both settled (fb_print str s) (fb_print str d)" by (rule print_settles [OF s(1)])
  then have "map_option (screen \<circ> fb_flush) (fb_print str s) = map_option screen (fb_print str d)"
    by (cases rule: option.rel_cases) (simp_all add: settled_screen)
  then show ?thesis using print_some [OF s(1)] s(2) by simp
qed

text \<open>A small screen with the built-in font: three characters on each of two lines.\<close>

definition fb_demo :: fb_state where
  "fb_demo = fb_init_font 0 0 (fb_init (Some (0xE0000000, 24, 40, 96)) (\<lambda>_. 7)
     \<lparr>lfb = (\<lambda>_. 0), fb_width = 0, fb_height = 0, fb_pitch = 0, fb_ready = False, cursor_x = 0, cursor_y = 0,
      back_buffer = (\<lambda>_. 0), double_buffering = False, min_x = 0, min_y = 0, max_x = 0, max_y = 0,
      current_fg = 0xFFFFFF, current_bg = 0, font_mem = (\<lambda>_. 0x18), fallback_addr = 0x1000, font_glyphs = 0,
      font_unicode_table = 0, font_glyph_count = 0, font_width = 8, font_height = 16, font_initialized = False,
      utf8_state = 0, utf8_codepoint = 0\<rparr>)"

theorem double_buffering_invisible_witness:
  "map_option (screen \<circ> fb_flush) (fb_print [0x41, 0x0A, 0x42, 0x0A, 0x43] (snd (fb_enable_double_buffering (\<lambda>_. 0) heap_demo fb_demo))) =
     map_option screen (fb_print [0x41, 0x0A, 0x42, 0x0A, 0x43] fb_demo) \<and>
   fb_print [0x41, 0x0A, 0x42, 0x0A, 0x43] (snd (fb_enable_double_buffering (\<lambda>_. 0) heap_demo fb_demo)) \<noteq> None"
proof -
  have v: "fb_width fb_demo = 24" "fb_height fb_demo = 40" "fb_pitch fb_demo = 24" "font_width fb_demo = 8"
    "font_height fb_demo = 16" "fb_ready fb_demo" "cursor_x fb_demo = 0" "cursor_y fb_demo = 0"
    by (simp_all add: fb_demo_def fb_init_def fb_init_font_def reset_dirty_def)
  have d: "geom fb_demo" "cursor_x fb_demo < fb_get_cols fb_demo" "cursor_y fb_demo < fb_get_rows fb_demo"
    by (simp_all add: v geom_def fb_get_cols_def fb_get_rows_def)
  have d2: "\<not> double_buffering fb_demo" "font_unicode_table fb_demo = 0"
    by (simp_all add: fb_demo_def fb_init_def fb_init_font_def reset_dirty_def)
  have "snd (kmalloc (fb_height fb_demo * fb_pitch fb_demo * 4) heap_demo) \<noteq> 0"
    by (rule kmalloc_demo_small) (simp_all add: fb_demo_def fb_init_def fb_init_font_def reset_dirty_def)
  then have "double_buffering (snd (fb_enable_double_buffering (\<lambda>_. 0) heap_demo fb_demo))"
    using v d2 by (simp add: fb_enable_double_buffering_def geom_def split_beta reset_dirty_def)
  from double_buffering_invisible [OF d d2(1) prod.collapse [symmetric] this] show ?thesis using d2(2) by blast
qed

end
