(* ===== verification/Keyboard.thy ===== *)
theory Keyboard
  imports Prelude
begin

unbundle bit_operations_syntax

text \<open>
  The PS/2 keyboard driver (\<open>src/keyboard.c\<close>): the scan code tables, the interrupt handler that turns scan codes into bytes
  (with shift, control, caps lock and the extended keys, which become escape sequences), and the ring buffer between the
  handler and \<open>k_getchar\<close>. The buffer has one place for every value of its 8-bit indices, so it is a function on them.
  A scan code is what reading the data port gives. What is proved: the ring is a bounded queue without loss, repetition or
  reordering, whatever the interleaving of interrupts and reads.
\<close>

section \<open>State\<close>

record kbd =
  kbd_buffer :: "u8 \<Rightarrow> u8"
  kbd_head :: u8
  kbd_tail :: u8
  shift_pressed :: bool
  ctrl_pressed :: bool
  capslock_on :: bool
  extended_key :: bool

definition KEY_ESC :: u8 where "KEY_ESC = 0x01"
definition KEY_BACKSPACE :: u8 where "KEY_BACKSPACE = 0x0E"
definition KEY_TAB :: u8 where "KEY_TAB = 0x0F"
definition KEY_ENTER :: u8 where "KEY_ENTER = 0x1C"
definition KEY_LCTRL :: u8 where "KEY_LCTRL = 0x1D"
definition KEY_LSHIFT :: u8 where "KEY_LSHIFT = 0x2A"
definition KEY_RSHIFT :: u8 where "KEY_RSHIFT = 0x36"
definition KEY_CAPSLOCK :: u8 where "KEY_CAPSLOCK = 0x3A"

lemmas key_defs = KEY_ESC_def KEY_BACKSPACE_def KEY_TAB_def KEY_ENTER_def KEY_LCTRL_def KEY_LSHIFT_def KEY_RSHIFT_def
  KEY_CAPSLOCK_def

section \<open>The ring buffer\<close>

text \<open>The remainder by 256 is the wrap-around of the 8-bit index.\<close>

definition kbd_buffer_push :: "u8 \<Rightarrow> kbd \<Rightarrow> kbd" where
  "kbd_buffer_push c k =
     (let next_head = kbd_head k + 1
      in if next_head = kbd_tail k then k
         else k\<lparr>kbd_buffer := (kbd_buffer k)(kbd_head k := c), kbd_head := next_head\<rparr>)"

definition k_getchar :: "kbd \<Rightarrow> u8 \<times> kbd" where
  "k_getchar k =
     (if kbd_head k = kbd_tail k then (0, k)
      else (kbd_buffer k (kbd_tail k), k\<lparr>kbd_tail := kbd_tail k + 1\<rparr>))"

primrec kbd_push_ansi_seq :: "u8 list \<Rightarrow> kbd \<Rightarrow> kbd" where
  "kbd_push_ansi_seq [] k = k"
| "kbd_push_ansi_seq (c # seq) k = kbd_push_ansi_seq seq (kbd_buffer_push c k)"

section \<open>Translation\<close>

definition scancode_lower :: "u8 list" where
  "scancode_lower =
     [0, 0, 0x31, 0x32, 0x33, 0x34, 0x35, 0x36, 0x37, 0x38, 0x39, 0x30, 0x2D, 0x3D, 0x08, 0x09, 0x71, 0x77,
      0x65, 0x72, 0x74, 0x79, 0x75, 0x69, 0x6F, 0x70, 0x5B, 0x5D, 0x0A, 0, 0x61, 0x73, 0x64, 0x66, 0x67, 0x68,
      0x6A, 0x6B, 0x6C, 0x3B, 0x27, 0x60, 0, 0x5C, 0x7A, 0x78, 0x63, 0x76, 0x62, 0x6E, 0x6D, 0x2C, 0x2E, 0x2F,
      0, 0x2A, 0, 0x20]"

definition scancode_upper :: "u8 list" where
  "scancode_upper =
     [0, 0, 0x21, 0x40, 0x23, 0x24, 0x25, 0x5E, 0x26, 0x2A, 0x28, 0x29, 0x5F, 0x2B, 0x08, 0x09, 0x51, 0x57,
      0x45, 0x52, 0x54, 0x59, 0x55, 0x49, 0x4F, 0x50, 0x7B, 0x7D, 0x0A, 0, 0x41, 0x53, 0x44, 0x46, 0x47, 0x48,
      0x4A, 0x4B, 0x4C, 0x3A, 0x22, 0x7E, 0, 0x7C, 0x5A, 0x58, 0x43, 0x56, 0x42, 0x4E, 0x4D, 0x3C, 0x3E, 0x3F,
      0, 0x2A, 0, 0x20]"

definition translate_scancode :: "u8 \<Rightarrow> kbd \<Rightarrow> u8" where
  "translate_scancode scancode k =
     (if unat scancode \<ge> length scancode_lower then 0
      else let base_char = scancode_lower ! unat scancode;
               is_letter = (base_char \<ge> 0x61 \<and> base_char \<le> 0x7A);
               use_upper = (if capslock_on k \<and> is_letter then \<not> shift_pressed k else shift_pressed k)
           in if use_upper then scancode_upper ! unat scancode else base_char)"

section \<open>The interrupt handler\<close>

text \<open>The key after an 0xE0 prefix.\<close>

definition extended_code :: "u8 \<Rightarrow> kbd \<Rightarrow> kbd" where
  "extended_code scancode k =
     (if scancode AND 0x80 \<noteq> 0 then k
      else if scancode = 0x48 then kbd_push_ansi_seq [0x1B, 0x5B, 0x41] k
      else if scancode = 0x50 then kbd_push_ansi_seq [0x1B, 0x5B, 0x42] k
      else if scancode = 0x4D then kbd_push_ansi_seq [0x1B, 0x5B, 0x43] k
      else if scancode = 0x4B then kbd_push_ansi_seq [0x1B, 0x5B, 0x44] k
      else if scancode = 0x47 then kbd_push_ansi_seq [0x1B, 0x5B, 0x48] k
      else if scancode = 0x4F then kbd_push_ansi_seq [0x1B, 0x5B, 0x46] k
      else if scancode = 0x53 then kbd_push_ansi_seq [0x1B, 0x5B, 0x33, 0x7E] k
      else k)"

text \<open>The release of a key, the code without its highest bit.\<close>

definition break_code :: "u8 \<Rightarrow> kbd \<Rightarrow> kbd" where
  "break_code scancode k =
     (if scancode = KEY_LSHIFT \<or> scancode = KEY_RSHIFT then k\<lparr>shift_pressed := False\<rparr>
      else if scancode = KEY_LCTRL then k\<lparr>ctrl_pressed := False\<rparr> else k)"

definition character_key :: "u8 \<Rightarrow> kbd \<Rightarrow> kbd" where
  "character_key scancode k =
     (let c = translate_scancode scancode k
      in if c \<noteq> 0 then
           (if ctrl_pressed k then
              (if c \<ge> 0x61 \<and> c \<le> 0x7A then kbd_buffer_push (c - 0x61 + 1) k
               else if c \<ge> 0x41 \<and> c \<le> 0x5A then kbd_buffer_push (c - 0x41 + 1) k
               else k)
            else kbd_buffer_push c k)
         else k)"

definition keyboard_handler :: "u8 \<Rightarrow> kbd \<Rightarrow> kbd" where
  "keyboard_handler scancode k =
     (if scancode = 0xE0 then k\<lparr>extended_key := True\<rparr>
      else if extended_key k then extended_code scancode (k\<lparr>extended_key := False\<rparr>)
      else if scancode AND 0x80 \<noteq> 0 then break_code (scancode AND 0x7F) k
      else if scancode = KEY_LSHIFT \<or> scancode = KEY_RSHIFT then k\<lparr>shift_pressed := True\<rparr>
      else if scancode = KEY_LCTRL then k\<lparr>ctrl_pressed := True\<rparr>
      else if scancode = KEY_CAPSLOCK then k\<lparr>capslock_on := \<not> capslock_on k\<rparr>
      else if scancode = KEY_ESC then kbd_buffer_push 0x1B k
      else if scancode = KEY_BACKSPACE then kbd_buffer_push 0x08 k
      else if scancode = KEY_ENTER then kbd_buffer_push 0x0A k
      else if scancode = KEY_TAB then kbd_buffer_push 0x09 k
      else character_key scancode k)"

section \<open>The ring as a queue\<close>

text \<open>What waits in the ring, oldest first.\<close>

definition pending :: "kbd \<Rightarrow> u8 list" where
  "pending k = map (\<lambda>i. kbd_buffer k (kbd_tail k + of_nat i)) [0..<unat (kbd_head k - kbd_tail k)]"

definition kbd_init :: kbd where
  "kbd_init = \<lparr>kbd_buffer = (\<lambda>_. 0), kbd_head = 0, kbd_tail = 0, shift_pressed = False, ctrl_pressed = False,
     capslock_on = False, extended_key = False\<rparr>"

lemma pending_init [simp]: "pending kbd_init = []"
  by (simp add: pending_def kbd_init_def)

lemma length_pending: "length (pending k) = unat (kbd_head k - kbd_tail k)" "length (pending k) < 256"
  using unsigned_less [of "kbd_head k - kbd_tail k", where 'a = nat] by (simp_all add: pending_def)

lemma unat_next_u8: "x + 1 \<noteq> (0 :: u8) \<Longrightarrow> unat (x + 1) = Suc (unat x)"
  by (simp add: unatSuc add.commute)

text \<open>A byte is queued unless 255 bytes wait already.\<close>

lemma pending_push: "pending (kbd_buffer_push c k) = (if length (pending k) < 255 then pending k @ [c] else pending k)"
proof (cases "kbd_head k + 1 = kbd_tail k")
  case True
  have "kbd_head k - kbd_tail k = - 1" using True by (metis add_diff_cancel_left' diff_add_cancel minus_diff_eq)
  also have "- 1 = (255 :: u8)" by simp
  finally have "length (pending k) = 255" by (simp add: length_pending)
  then show ?thesis using True by (simp add: kbd_buffer_push_def)
next
  case False
  let ?d = "kbd_head k - kbd_tail k"
  have "?d + 1 \<noteq> 0" using False by (metis add.commute add_diff_eq diff_add_cancel eq_iff_diff_eq_0)
  then have u: "unat (?d + 1) = Suc (unat ?d)" by (rule unat_next_u8)
  then have l: "length (pending k) < 255" using unsigned_less [of "?d + 1", where 'a = nat] by (simp add: length_pending)
  have n: "kbd_tail k + of_nat i \<noteq> kbd_head k" if "i < unat ?d" for i
  proof
    assume "kbd_tail k + of_nat i = kbd_head k"
    then have "?d = of_nat i" by (metis add_diff_cancel_left')
    then have "unat ?d = unat (of_nat i :: u8)" by simp
    also have "\<dots> \<le> i" by (simp add: unat_of_nat)
    finally show False using that by simp
  qed
  have "unat (kbd_head k + 1 - kbd_tail k) = Suc (unat ?d)" using u by (simp add: algebra_simps)
  moreover have "kbd_tail k + of_nat (unat ?d) = kbd_head k" by simp
  ultimately have "pending (kbd_buffer_push c k) = pending k @ [c]"
    using False n by (auto simp: kbd_buffer_push_def pending_def Let_def)
  then show ?thesis using l by simp
qed

text \<open>Reading takes the oldest byte, or gives 0 when none waits.\<close>

lemma getchar_pending:
  "fst (k_getchar k) = (case pending k of [] \<Rightarrow> 0 | c # _ \<Rightarrow> c)" "pending (snd (k_getchar k)) = tl (pending k)"
proof -
  let ?d = "kbd_head k - kbd_tail k"
  have "fst (k_getchar k) = (case pending k of [] \<Rightarrow> 0 | c # _ \<Rightarrow> c) \<and> pending (snd (k_getchar k)) = tl (pending k)"
  proof (cases "kbd_head k = kbd_tail k")
    case True
    then show ?thesis by (simp add: k_getchar_def pending_def)
  next
    case False
    then have d: "?d \<noteq> 0" by simp
    then have u: "unat ?d = Suc (unat (?d - 1))" using unat_next_u8 [of "?d - 1"] by simp
    have "unat ?d = Suc (unat (kbd_head k - (kbd_tail k + 1)))" using u by (simp add: algebra_simps)
    moreover have "map (\<lambda>i. kbd_buffer k (kbd_tail k + 1 + of_nat i)) [0..<n] =
        map (\<lambda>i. kbd_buffer k (kbd_tail k + of_nat i)) [Suc 0..<Suc n]" for n
      by (simp add: map_Suc_upt [symmetric] comp_def add.assoc del: upt_Suc)
    ultimately show ?thesis
      using False by (simp add: k_getchar_def pending_def upt_conv_Cons del: upt_Suc)
  qed
  then show "fst (k_getchar k) = (case pending k of [] \<Rightarrow> 0 | c # _ \<Rightarrow> c)" "pending (snd (k_getchar k)) = tl (pending k)"
    by simp_all
qed


lemma pending_push_seq: "pending (kbd_push_ansi_seq bs k) = pending k @ take (255 - length (pending k)) bs"
proof (induction bs arbitrary: k)
  case (Cons c bs)
  show ?case
  proof (cases "length (pending k) < 255")
    case True
    then have "255 - length (pending k) = Suc (255 - Suc (length (pending k)))" by simp
    then show ?thesis using True by (simp add: Cons.IH pending_push)
  next
    case False
    then show ?thesis by (simp add: Cons.IH pending_push)
  qed
qed simp

section \<open>The handler as a decoder\<close>

text \<open>The handler split in two: what it makes of its flags, and the bytes it queues.\<close>

definition key_flags :: "u8 \<Rightarrow> kbd \<Rightarrow> kbd" where
  "key_flags s k =
     (if s = 0xE0 then k\<lparr>extended_key := True\<rparr>
      else if extended_key k then k\<lparr>extended_key := False\<rparr>
      else if s AND 0x80 \<noteq> 0 then break_code (s AND 0x7F) k
      else if s = KEY_LSHIFT \<or> s = KEY_RSHIFT then k\<lparr>shift_pressed := True\<rparr>
      else if s = KEY_LCTRL then k\<lparr>ctrl_pressed := True\<rparr>
      else if s = KEY_CAPSLOCK then k\<lparr>capslock_on := \<not> capslock_on k\<rparr>
      else k)"

definition extended_bytes :: "u8 \<Rightarrow> u8 list" where
  "extended_bytes s =
     (if s = 0x48 then [0x1B, 0x5B, 0x41] else if s = 0x50 then [0x1B, 0x5B, 0x42] else if s = 0x4D then [0x1B, 0x5B, 0x43]
      else if s = 0x4B then [0x1B, 0x5B, 0x44] else if s = 0x47 then [0x1B, 0x5B, 0x48] else if s = 0x4F then [0x1B, 0x5B, 0x46]
      else if s = 0x53 then [0x1B, 0x5B, 0x33, 0x7E] else [])"

definition character_bytes :: "u8 \<Rightarrow> bool \<Rightarrow> u8 list" where
  "character_bytes c ctrl =
     (if c = 0 then []
      else if ctrl then (if c \<ge> 0x61 \<and> c \<le> 0x7A then [c - 0x61 + 1] else if c \<ge> 0x41 \<and> c \<le> 0x5A then [c - 0x41 + 1] else [])
      else [c])"

definition key_bytes :: "u8 \<Rightarrow> kbd \<Rightarrow> u8 list" where
  "key_bytes s k =
     (if s = 0xE0 then []
      else if extended_key k then (if s AND 0x80 \<noteq> 0 then [] else extended_bytes s)
      else if s AND 0x80 \<noteq> 0 \<or> s = KEY_LSHIFT \<or> s = KEY_RSHIFT \<or> s = KEY_LCTRL \<or> s = KEY_CAPSLOCK then []
      else if s = KEY_ESC then [0x1B] else if s = KEY_BACKSPACE then [0x08] else if s = KEY_ENTER then [0x0A]
      else if s = KEY_TAB then [0x09]
      else character_bytes (translate_scancode s k) (ctrl_pressed k))"

lemma extended_code_seq: "extended_code s k = kbd_push_ansi_seq (if s AND 0x80 \<noteq> 0 then [] else extended_bytes s) k"
  unfolding extended_code_def extended_bytes_def by (simp del: kbd_push_ansi_seq.simps(2))

lemma character_key_seq: "character_key s k = kbd_push_ansi_seq (character_bytes (translate_scancode s k) (ctrl_pressed k)) k"
  by (simp add: character_key_def character_bytes_def Let_def)

lemma handler_seq: "keyboard_handler s k = kbd_push_ansi_seq (key_bytes s k) (key_flags s k)"
  unfolding keyboard_handler_def key_bytes_def key_flags_def extended_code_seq character_key_seq
  by (cases "s = 0xE0"; cases "extended_key k"; cases "s AND 0x80 = 0"; cases "s = KEY_LSHIFT \<or> s = KEY_RSHIFT";
      cases "s = KEY_LCTRL"; cases "s = KEY_CAPSLOCK"; simp)

lemma pending_update [simp]:
  "pending (k\<lparr>shift_pressed := b\<rparr>) = pending k" "pending (k\<lparr>ctrl_pressed := b\<rparr>) = pending k"
  "pending (k\<lparr>capslock_on := b\<rparr>) = pending k" "pending (k\<lparr>extended_key := b\<rparr>) = pending k"
  by (simp_all add: pending_def)

lemma pending_flags [simp]: "pending (key_flags s k) = pending k"
  unfolding key_flags_def break_code_def
  by (cases "s = 0xE0"; cases "extended_key k"; cases "s AND 0x80 = 0"; cases "s = KEY_LSHIFT \<or> s = KEY_RSHIFT";
      cases "s = KEY_LCTRL"; cases "s = KEY_CAPSLOCK"; simp)

lemma pending_handler: "pending (keyboard_handler s k) = pending k @ take (255 - length (pending k)) (key_bytes s k)"
  by (simp add: handler_seq pending_push_seq)

text \<open>What the decoder depends on.\<close>

definition same_flags :: "kbd \<Rightarrow> kbd \<Rightarrow> bool" where
  "same_flags k k' \<longleftrightarrow> shift_pressed k = shift_pressed k' \<and> ctrl_pressed k = ctrl_pressed k' \<and>
     capslock_on k = capslock_on k' \<and> extended_key k = extended_key k'"

lemma same_flags_translate: "same_flags k k' \<Longrightarrow> translate_scancode s k = translate_scancode s k'"
  unfolding translate_scancode_def Let_def by (simp add: same_flags_def)

lemma same_flags_bytes: "same_flags k k' \<Longrightarrow> key_bytes s k = key_bytes s k'"
  using same_flags_translate [of k k' s] by (simp add: same_flags_def key_bytes_def)

lemma same_flags_flags: "same_flags k k' \<Longrightarrow> same_flags (key_flags s k) (key_flags s k')"
  unfolding key_flags_def break_code_def same_flags_def
  by (cases "s = 0xE0"; cases "extended_key k'"; cases "s AND 0x80 = 0"; cases "s = KEY_LSHIFT \<or> s = KEY_RSHIFT";
      cases "s = KEY_LCTRL"; cases "s = KEY_CAPSLOCK"; simp)

lemma flags_push: "same_flags (kbd_push_ansi_seq bs k) k"
  by (induction bs arbitrary: k) (simp_all add: same_flags_def kbd_buffer_push_def Let_def)

lemma same_flags_trans: "same_flags a b \<Longrightarrow> same_flags b c \<Longrightarrow> same_flags a c"
  by (simp add: same_flags_def)

lemma flags_handler: "same_flags k k' \<Longrightarrow> same_flags (keyboard_handler s k) (key_flags s k')"
  unfolding handler_seq by (rule same_flags_trans [OF flags_push same_flags_flags])

lemma flags_getchar: "same_flags (snd (k_getchar k)) k"
  by (simp add: same_flags_def k_getchar_def)

section \<open>Interrupts and reads in any order\<close>

datatype kbd_event = Scancode u8 | Getchar

text \<open>The driver: the results of the reads, and where it ends.\<close>

fun kbd_run :: "kbd_event list \<Rightarrow> kbd \<Rightarrow> u8 list \<times> kbd" where
  "kbd_run [] k = ([], k)"
| "kbd_run (Scancode s # es) k = kbd_run es (keyboard_handler s k)"
| "kbd_run (Getchar # es) k = (let (c, k) = k_getchar k; (cs, k) = kbd_run es k in (c # cs, k))"

text \<open>The specification: a decoder without a ring in front of a queue of at most 255 bytes.\<close>

fun queue_run :: "kbd_event list \<Rightarrow> kbd \<Rightarrow> u8 list \<Rightarrow> u8 list \<times> u8 list" where
  "queue_run [] k q = ([], q)"
| "queue_run (Scancode s # es) k q = queue_run es (key_flags s k) (q @ take (255 - length q) (key_bytes s k))"
| "queue_run (Getchar # es) k q =
     (case q of [] \<Rightarrow> (let (cs, q') = queue_run es k [] in (0 # cs, q'))
      | c # q \<Rightarrow> (let (cs, q') = queue_run es k q in (c # cs, q')))"

lemma run_queue:
  "same_flags k k' \<Longrightarrow> queue_run es k' (pending k) = (fst (kbd_run es k), pending (snd (kbd_run es k)))"
proof (induction es arbitrary: k k')
  case (Cons e es)
  show ?case
  proof (cases e)
    case (Scancode s)
    have "key_bytes s k = key_bytes s k'" by (rule same_flags_bytes [OF Cons.prems])
    then show ?thesis using Cons.IH [OF flags_handler [OF Cons.prems, of s]] by (simp add: Scancode pending_handler)
  next
    case Getchar
    have "same_flags (snd (k_getchar k)) k'" by (rule same_flags_trans [OF flags_getchar Cons.prems])
    from Cons.IH [OF this] show ?thesis
      using getchar_pending [of k] by (simp add: Getchar split_beta Let_def split: list.splits)
  qed
qed simp

text \<open>
  C10. Whatever the order in which keyboard interrupts and reads come, the ring buffer is a queue of at most 255 bytes behind
  the scan code decoder: every byte is delivered once, in the order of the keys, nothing is overwritten, and a byte is lost
  only when 255 bytes wait.
\<close>

theorem keyboard_ring_is_queue:
  "queue_run es k (pending k) = (fst (kbd_run es k), pending (snd (kbd_run es k)))"
  by (rule run_queue) (simp add: same_flags_def)

end
