(* ===== verification/Keyboard_Spec.thy ===== *)
theory Keyboard_Spec
  imports Keyboard Readline
begin

text \<open>
  The keyboard in front of the shell (\<open>src/keyboard.c\<close>, \<open>src/user_src/shell_user.c\<close>): how the keys of a US keyboard are
  pressed and released, which bytes the interrupt handler queues for them, and which keys the line editor takes these bytes
  for. What is proved: what is typed is what the shell gets.
\<close>

section \<open>Pressing keys\<close>

text \<open>The scan code of a character, with or without shift; the search order is the order of the tables.\<close>

definition code_at :: "u8 list \<Rightarrow> u8 \<Rightarrow> nat" where
  "code_at table c = length (takeWhile (\<lambda>x. x \<noteq> c) table)"

definition press :: "u8 \<Rightarrow> u8 list" where
  "press s = [s, s OR 0x80]"

definition press_extended :: "u8 \<Rightarrow> u8 list" where
  "press_extended s = [0xE0, s, 0xE0, s OR 0x80]"

definition press_character :: "u8 \<Rightarrow> u8 list" where
  "press_character c =
     (if code_at scancode_lower c < length scancode_lower then press (of_nat (code_at scancode_lower c))
      else KEY_LSHIFT # press (of_nat (code_at scancode_upper c)) @ [KEY_LSHIFT OR 0x80])"

text \<open>The scan codes of the keys of the line editor; the kill keys are Ctrl-K and Ctrl-U.\<close>

fun scancodes :: "key \<Rightarrow> u8 list" where
  "scancodes (Insert c) = press_character c"
| "scancodes Backspace = press KEY_BACKSPACE"
| "scancodes Delete = press_extended 0x53"
| "scancodes Cursor_left = press_extended 0x4B"
| "scancodes Cursor_right = press_extended 0x4D"
| "scancodes Home_key = press_extended 0x47"
| "scancodes End_key = press_extended 0x4F"
| "scancodes Kill_end = KEY_LCTRL # press 0x25 @ [KEY_LCTRL OR 0x80]"
| "scancodes Kill_start = KEY_LCTRL # press 0x16 @ [KEY_LCTRL OR 0x80]"
| "scancodes Key_up = press_extended 0x48"
| "scancodes Key_down = press_extended 0x50"
| "scancodes No_key = []"

fun key_text :: "key \<Rightarrow> u8 list" where
  "key_text (Insert c) = [c]"
| "key_text Backspace = [0x08]"
| "key_text Delete = [0x1B, 0x5B, 0x33, 0x7E]"
| "key_text Cursor_left = [0x1B, 0x5B, 0x44]"
| "key_text Cursor_right = [0x1B, 0x5B, 0x43]"
| "key_text Home_key = [0x1B, 0x5B, 0x48]"
| "key_text End_key = [0x1B, 0x5B, 0x46]"
| "key_text Kill_end = [11]"
| "key_text Kill_start = [21]"
| "key_text Key_up = [0x1B, 0x5B, 0x41]"
| "key_text Key_down = [0x1B, 0x5B, 0x42]"
| "key_text No_key = []"

fun typable :: "key \<Rightarrow> bool" where
  "typable (Insert c) \<longleftrightarrow> 32 \<le> c \<and> c < 127"
| "typable _ \<longleftrightarrow> True"

section \<open>From keys to bytes\<close>

text \<open>The bytes of a sequence of scan codes and the flags behind it.\<close>

fun decode :: "u8 list \<Rightarrow> kbd \<Rightarrow> u8 list \<times> kbd" where
  "decode [] k = ([], k)"
| "decode (s # ss) k = (let (bs, k') = decode ss (key_flags s k) in (key_bytes s k @ bs, k'))"

definition idle :: "kbd \<Rightarrow> bool" where
  "idle k \<longleftrightarrow> \<not> shift_pressed k \<and> \<not> ctrl_pressed k \<and> \<not> capslock_on k \<and> \<not> extended_key k"

lemma decode_append: "decode (ss @ ts) k = (let (bs, k1) = decode ss k; (cs, k2) = decode ts k1 in (bs @ cs, k2))"
  by (induction ss arbitrary: k) (simp_all add: split_beta Let_def)

lemma decode_cong: "same_flags k k' \<Longrightarrow> fst (decode ss k) = fst (decode ss k') \<and> same_flags (snd (decode ss k)) (snd (decode ss k'))"
  by (induction ss arbitrary: k k') (simp_all add: split_beta Let_def same_flags_flags same_flags_bytes)

lemma idle_init: "idle k \<Longrightarrow> same_flags k kbd_init"
  by (simp add: idle_def same_flags_def kbd_init_def)

definition all_chars :: "u8 list" where
  "all_chars = map of_nat [32..<127]"

lemma chars_decode: "list_all (\<lambda>c. fst (decode (press_character c) kbd_init) = [c] \<and> idle (snd (decode (press_character c) kbd_init))) all_chars"
  by code_simp


lemma char_decode:
  assumes "32 \<le> c" and "c < 127"
  shows "fst (decode (press_character c) kbd_init) = [c]" "idle (snd (decode (press_character c) kbd_init))"
proof -
  have "c = of_nat (unat c)" by simp
  moreover have "unat c \<in> set [32..<127]"
    unfolding set_upt atLeastLessThan_iff using assms by (simp add: word_le_nat_alt word_less_nat_alt)
  ultimately have "c \<in> set all_chars" unfolding all_chars_def set_map by (rule image_eqI)
  then show "fst (decode (press_character c) kbd_init) = [c]" "idle (snd (decode (press_character c) kbd_init))"
    using chars_decode by (simp_all add: list_all_iff)
qed

lemma keys_decode:
  "list_all (\<lambda>x. fst (decode (scancodes x) kbd_init) = key_text x \<and> idle (snd (decode (scancodes x) kbd_init)))
    [Backspace, Delete, Cursor_left, Cursor_right, Home_key, End_key, Kill_end, Kill_start, Key_up, Key_down, No_key]"
  by code_simp

lemma key_decode:
  assumes "idle k" and "typable x"
  shows "fst (decode (scancodes x) k) = key_text x" "idle (snd (decode (scancodes x) k))"
proof -
  have "fst (decode (scancodes x) kbd_init) = key_text x \<and> idle (snd (decode (scancodes x) kbd_init))"
    using keys_decode char_decode assms(2) by (cases x) simp_all
  then show "fst (decode (scancodes x) k) = key_text x" "idle (snd (decode (scancodes x) k))"
    using decode_cong [OF idle_init [OF assms(1)], of "scancodes x"] by (auto simp: idle_def same_flags_def)
qed

lemma keys_text:
  "idle k \<Longrightarrow> list_all typable ks \<Longrightarrow>
    fst (decode (concat (map scancodes ks)) k) = concat (map key_text ks) \<and> idle (snd (decode (concat (map scancodes ks)) k))"
proof (induction ks arbitrary: k)
  case (Cons x ks)
  then show ?case
    using key_decode [of k x] Cons.IH [of "snd (decode (scancodes x) k)"] by (simp add: decode_append split_beta Let_def)
qed simp

text \<open>The interrupts queue the decoded bytes, as long as there is room.\<close>

lemma handlers_pending:
  "same_flags k k' \<Longrightarrow> length (pending k) + length (fst (decode ss k')) \<le> 255 \<Longrightarrow>
    pending (fold keyboard_handler ss k) = pending k @ fst (decode ss k')"
proof (induction ss arbitrary: k k')
  case (Cons s ss)
  have b: "key_bytes s k = key_bytes s k'" by (rule same_flags_bytes [OF Cons.prems(1)])
  then have p: "pending (keyboard_handler s k) = pending k @ key_bytes s k'"
    using Cons.prems(2) by (simp add: pending_handler split_beta Let_def)
  then show ?case
    using Cons.IH [OF flags_handler [OF Cons.prems(1), of s]] Cons.prems(2) by (simp add: split_beta Let_def)
qed simp

text \<open>Reading a number of bytes.\<close>

primrec getchars :: "nat \<Rightarrow> kbd \<Rightarrow> u8 list \<times> kbd" where
  "getchars 0 k = ([], k)"
| "getchars (Suc n) k = (let (c, k) = k_getchar k; (cs, k) = getchars n k in (c # cs, k))"

lemma getchars_pending: "n \<le> length (pending k) \<Longrightarrow> fst (getchars n k) = take n (pending k)"
proof (induction n arbitrary: k)
  case (Suc n)
  obtain c cs where c: "pending k = c # cs" using Suc.prems by (cases "pending k") auto
  then have "fst (k_getchar k) = c" "pending (snd (k_getchar k)) = cs" using getchar_pending [of k] by simp_all
  then show ?case using Suc.IH [of "snd (k_getchar k)"] Suc.prems c by (simp add: split_beta Let_def)
qed simp

section \<open>From bytes to the line\<close>

text \<open>The parser of the line editor takes the bytes of a key for that key; what precedes it is no key.\<close>

lemma key_parsed:
  assumes "typable x"
  shows "\<exists>ps'. foldl scan_byte (STATE_NORMAL, ps) (key_text x) = (STATE_NORMAL, ps') \<and>
    (\<forall>cs l. fold (edit m) (keys_of (STATE_NORMAL, ps) (key_text x @ cs)) l = fold (edit m) (keys_of (STATE_NORMAL, ps') cs) (edit m x l))"
proof (cases x)
  case (Insert c)
  then have c: "32 \<le> c" "c < 127" using assms by simp_all
  have n: "c \<noteq> 0x1B" "c \<noteq> 8" "c \<noteq> 127" "c \<noteq> 1" "c \<noteq> 4" "c \<noteq> 5" "c \<noteq> 11" "c \<noteq> 21"
    by (rule notI, use c in \<open>simp add: word_le_nat_alt word_less_nat_alt\<close>)+
  show ?thesis using c n by (simp add: Insert plain_key_def)
qed (simp_all add: plain_key_def csi_key_def csi_param_def)

lemma keys_parsed:
  "list_all typable ks \<Longrightarrow>
    fst (foldl scan_byte (STATE_NORMAL, ps) (concat (map key_text ks))) = STATE_NORMAL \<and>
    fold (edit m) (keys_of (STATE_NORMAL, ps) (concat (map key_text ks))) l = fold (edit m) ks l"
proof (induction ks arbitrary: ps l)
  case (Cons x ks)
  obtain ps' where p: "foldl scan_byte (STATE_NORMAL, ps) (key_text x) = (STATE_NORMAL, ps')"
    "\<And>cs l. fold (edit m) (keys_of (STATE_NORMAL, ps) (key_text x @ cs)) l = fold (edit m) (keys_of (STATE_NORMAL, ps') cs) (edit m x l)"
    using key_parsed [of x ps m] Cons.prems by auto
  show ?case using Cons.IH [of ps' "edit m x l"] Cons.prems p by simp
qed simp

lemma key_text_plain: "typable x \<Longrightarrow> set (key_text x) \<inter> {0x0A, 0x0D, 3, 4} = {}"
  by (cases x) (auto simp: word_le_nat_alt)


text \<open>
  C4. What is typed is what the shell gets: when the ring is empty, pressing and releasing the keys of any sequence
  (printable characters with the shift they need, arrows, Home, End, Delete, Backspace, Ctrl-K, Ctrl-U) of fewer than 255
  bytes and then Return makes \<open>readline\<close>, reading the ring, return exactly the line that these keys edit.
\<close>

theorem typed_keys_edit_line:
  assumes "idle k" and "pending k = []" and "history_ok e" and "length (buffer e) = 256" and "m \<le> 256"
    and "list_all typable ks" and "length (concat (map key_text ks)) < 255"
  shows "\<exists>e'. readline prompt m
      (fst (getchars (Suc (length (concat (map key_text ks))))
        (fold keyboard_handler (concat (map scancodes ks) @ press KEY_ENTER) k))) e = Some (Return 0 e', []) \<and> editor_ok e' \<and>
    (let l = fold (edit m) ks
       \<lparr>before = [], after = [], older = older_of e, shown = history_view e, typed = typed_of e\<rparr>
     in text_of (buffer e') = before l @ after l \<and> shown l = history_view e')"
proof -
  let ?cs = "concat (map key_text ks)" and ?ss = "concat (map scancodes ks) @ press KEY_ENTER"
  note d = keys_text [OF assms(1,6)]
  then have "fst (decode (press KEY_ENTER) (snd (decode (concat (map scancodes ks)) k))) = [0x0A]"
    by (simp add: press_def key_bytes_def key_flags_def idle_def key_defs Let_def)
  then have b: "fst (decode ?ss k) = ?cs @ [0x0A]" using d by (simp add: decode_append split_beta Let_def)
  have "pending (fold keyboard_handler ?ss k) = pending k @ fst (decode ?ss k)"
    by (rule handlers_pending) (use assms(2,7) b in \<open>simp_all add: same_flags_def\<close>)
  then have g: "fst (getchars (Suc (length ?cs)) (fold keyboard_handler ?ss k)) = ?cs @ [0x0A]"
    using assms(2) b by (subst getchars_pending) simp_all
  note p = keys_parsed [OF assms(6), of "[]"]
  have "set ?cs \<inter> {0x0A, 0x0D, 3, 4} = {}" using key_text_plain assms(6) by (fastforce simp: list_all_iff)
  moreover have "fst (foldl scan_byte (STATE_NORMAL, []) ?cs) \<noteq> STATE_CSI" using p by simp
  moreover have "(0x0A :: u8) = 0x0A \<or> (0x0A :: u8) = 0x0D" by simp
  ultimately show ?thesis using readline_edits [OF assms(3-5)] p unfolding g by metis
qed

text \<open>\<open>Ls\<close>, cursor left twice, \<open>#\<close>.\<close>

theorem typed_keys_edit_line_witness:
  "\<exists>e'. readline [] 256
      (fst (getchars 10 (fold keyboard_handler
        (concat (map scancodes [Insert 0x4C, Insert 0x73, Cursor_left, Cursor_left, Insert 0x23]) @ press KEY_ENTER) kbd_init)))
      editor_demo = Some (Return 0 e', []) \<and> text_of (buffer e') = [0x23, 0x4C, 0x73]"
proof -
  have h: "history_ok editor_demo" "length (buffer editor_demo) = 256" by (simp_all add: history_ok_def editor_demo_def)
  have i: "idle kbd_init" by (simp add: idle_def kbd_init_def)
  let ?ks = "[Insert 0x4C, Insert 0x73, Cursor_left, Cursor_left, Insert 0x23]"
  have n: "Suc (length (concat (map key_text ?ks))) = 10" and t: "list_all typable ?ks" "length (concat (map key_text ?ks)) < 255"
    by simp_all
  have l: "before (fold (edit 256) ?ks \<lparr>before = [], after = [], older = os, shown = v, typed = w\<rparr>) = [0x23]"
    "after (fold (edit 256) ?ks \<lparr>before = [], after = [], older = os, shown = v, typed = w\<rparr>) = [0x4C, 0x73]" for os v w
    by simp_all
  have v: "[0x23] @ [0x4C, 0x73] = [0x23, 0x4C, 0x73 :: u8]" by simp
  show ?thesis
    using typed_keys_edit_line [OF i pending_init h order_refl t, of "[]"] unfolding n Let_def l v by blast
qed

end
