(* ===== verification/Vga.thy ===== *)
theory Vga
  imports Prelude
begin

unbundle bit_operations_syntax

text \<open>
  The VGA text console (\<open>src/vga.c\<close>): 80 by 50 character cells at 0xB8000, the colour, the cursor and its hardware
  counterpart, the 8x8 font and the registers of the text mode. An access outside the 4000 cells is \<open>None\<close>. The registers
  of the controller are reached through index and data ports: the port 0x3C4, 0x3CE or 0x3D4 selects the register that the
  next port reads and writes, as the hardware documents it. What is proved: the console is a grid of rows that scrolls, its
  cursor never leaves the screen, no store misses the cells, and the hardware cursor follows.
\<close>

section \<open>State\<close>

definition VGA_WIDTH :: nat where "VGA_WIDTH = 80"
definition VGA_HEIGHT :: nat where "VGA_HEIGHT = 50"

lemmas vga_size = VGA_WIDTH_def VGA_HEIGHT_def

record vga_state =
  vga_buffer :: "u16 list"
  current_color :: u8
  vga_x :: u8
  vga_y :: u8
  port_index :: "u16 \<Rightarrow> u8"
  port_register :: "u16 \<Rightarrow> u8 \<Rightarrow> u8"
  plane2 :: "nat \<Rightarrow> u8"

definition outb :: "u16 \<Rightarrow> u8 \<Rightarrow> vga_state \<Rightarrow> vga_state" where
  "outb port val s =
     (if port \<in> {0x3C4, 0x3CE, 0x3D4} then s\<lparr>port_index := (port_index s)(port := val)\<rparr>
      else s\<lparr>port_register := (port_register s)(port - 1 := (port_register s (port - 1))(port_index s (port - 1) := val))\<rparr>)"

definition inb :: "u16 \<Rightarrow> vga_state \<Rightarrow> u8" where
  "inb port s = port_register s (port - 1) (port_index s (port - 1))"

section \<open>Cells\<close>

definition vga_cell :: "u8 \<Rightarrow> vga_state \<Rightarrow> u16" where
  "vga_cell c s = ucast c OR push_bit 8 (ucast (current_color s))"

definition vga_offset :: "vga_state \<Rightarrow> nat" where
  "vga_offset s = unat (vga_y s) * VGA_WIDTH + unat (vga_x s)"

definition vga_store :: "nat \<Rightarrow> u8 \<Rightarrow> vga_state \<Rightarrow> vga_state option" where
  "vga_store off c s =
     (if off < length (vga_buffer s) then Some (s\<lparr>vga_buffer := (vga_buffer s)[off := vga_cell c s]\<rparr>) else None)"

section \<open>Scrolling and the cursor\<close>

text \<open>The first loop of \<open>vga_scroll\<close>: \<open>n\<close> cells are left, from \<open>i\<close> on.\<close>

primrec scroll_cells :: "nat \<Rightarrow> nat \<Rightarrow> u16 list \<Rightarrow> u16 list option" where
  "scroll_cells 0 i b = Some b"
| "scroll_cells (Suc n) i b =
     (if i + VGA_WIDTH < length b then scroll_cells n (Suc i) (b[i := b ! (i + VGA_WIDTH)]) else None)"

text \<open>A loop that blanks \<open>n\<close> cells from \<open>i\<close> on.\<close>

primrec blank_cells :: "nat \<Rightarrow> nat \<Rightarrow> vga_state \<Rightarrow> vga_state option" where
  "blank_cells 0 i s = Some s"
| "blank_cells (Suc n) i s = Option.bind (vga_store i 0x20 s) (blank_cells n (Suc i))"

definition vga_scroll :: "vga_state \<Rightarrow> vga_state option" where
  "vga_scroll s =
     Option.bind (scroll_cells ((VGA_HEIGHT - 1) * VGA_WIDTH) 0 (vga_buffer s)) (\<lambda>b.
       map_option (\<lambda>s. s\<lparr>vga_y := of_nat (VGA_HEIGHT - 1)\<rparr>)
         (blank_cells VGA_WIDTH ((VGA_HEIGHT - 1) * VGA_WIDTH) (s\<lparr>vga_buffer := b\<rparr>)))"

definition vga_update_hw_cursor :: "vga_state \<Rightarrow> vga_state" where
  "vga_update_hw_cursor s =
     (let pos = (of_nat (vga_offset s) :: u16)
      in outb 0x3D5 (ucast (pos AND 0xFF)) (outb 0x3D4 0x0F
          (outb 0x3D5 (ucast (drop_bit 8 pos AND 0xFF)) (outb 0x3D4 0x0E s))))"

section \<open>Output\<close>

text \<open>A cell at the cursor, which then moves on.\<close>

definition put_cell :: "u8 \<Rightarrow> vga_state \<Rightarrow> vga_state option" where
  "put_cell c s =
     map_option (\<lambda>s. let s = s\<lparr>vga_x := vga_x s + 1\<rparr>
         in if unat (vga_x s) \<ge> VGA_WIDTH then s\<lparr>vga_x := 0, vga_y := vga_y s + 1\<rparr> else s)
       (vga_store (vga_offset s) c s)"

primrec put_blanks :: "nat \<Rightarrow> vga_state \<Rightarrow> vga_state option" where
  "put_blanks 0 s = Some s"
| "put_blanks (Suc n) s = Option.bind (put_cell 0x20 s) (put_blanks n)"

definition vga_putc :: "u8 \<Rightarrow> vga_state \<Rightarrow> vga_state option" where
  "vga_putc c s =
     Option.bind
       (if c = 0x0A then Some (s\<lparr>vga_x := 0, vga_y := vga_y s + 1\<rparr>)
        else if c = 0x0D then Some (s\<lparr>vga_x := 0\<rparr>)
        else if c = 0x08 then
          (if vga_x s > 0 then (let s = s\<lparr>vga_x := vga_x s - 1\<rparr> in vga_store (vga_offset s) 0x20 s) else Some s)
        else if c = 0x09 then put_blanks (4 - unat (vga_x s) mod 4) s
        else put_cell c s)
       (\<lambda>s. map_option vga_update_hw_cursor (if unat (vga_y s) \<ge> VGA_HEIGHT then vga_scroll s else Some s))"

definition vga_clear :: "vga_state \<Rightarrow> vga_state option" where
  "vga_clear s =
     map_option (\<lambda>s. vga_update_hw_cursor (s\<lparr>vga_x := 0, vga_y := 0\<rparr>)) (blank_cells (VGA_WIDTH * VGA_HEIGHT) 0 s)"

definition vga_set_color :: "u8 \<Rightarrow> u8 \<Rightarrow> vga_state \<Rightarrow> vga_state" where
  "vga_set_color fg bg s = s\<lparr>current_color := fg OR push_bit 4 bg\<rparr>"

definition vga_set_cursor :: "int \<Rightarrow> int \<Rightarrow> vga_state \<Rightarrow> vga_state" where
  "vga_set_cursor row col s =
     (let row = (if row < 0 then 0 else row); row = (if row \<ge> int VGA_HEIGHT then int VGA_HEIGHT - 1 else row);
          col = (if col < 0 then 0 else col); col = (if col \<ge> int VGA_WIDTH then int VGA_WIDTH - 1 else col)
      in vga_update_hw_cursor (s\<lparr>vga_y := of_int row, vga_x := of_int col\<rparr>))"

section \<open>Font and mode\<close>

text \<open>The glyphs of the characters 32 to 126.\<close>

definition glyph_rows_8x8 :: "u8 list list" where
  "glyph_rows_8x8 =
     [[0, 0, 0, 0, 0, 0, 0, 0],
      [0x18, 0x18, 0x18, 0x18, 0x18, 0, 0x18, 0],
      [0x6C, 0x6C, 0x24, 0, 0, 0, 0, 0],
      [0, 0x6C, 0x6C, 0xFE, 0x6C, 0xFE, 0x6C, 0x6C],
      [0x18, 0x3E, 0x60, 0x3C, 0x06, 0x7C, 0x18, 0],
      [0, 0xC6, 0xCC, 0x18, 0x30, 0x66, 0xC6, 0],
      [0x38, 0x6C, 0x38, 0x76, 0xDC, 0xCC, 0x76, 0],
      [0x18, 0x18, 0x30, 0, 0, 0, 0, 0],
      [0x0C, 0x18, 0x30, 0x30, 0x30, 0x18, 0x0C, 0],
      [0x30, 0x18, 0x0C, 0x0C, 0x0C, 0x18, 0x30, 0],
      [0, 0x66, 0x3C, 0xFF, 0x3C, 0x66, 0, 0],
      [0, 0x18, 0x18, 0x7E, 0x18, 0x18, 0, 0],
      [0, 0, 0, 0, 0, 0x18, 0x18, 0x30],
      [0, 0, 0, 0x7E, 0, 0, 0, 0],
      [0, 0, 0, 0, 0, 0x18, 0x18, 0],
      [0x06, 0x0C, 0x18, 0x30, 0x60, 0xC0, 0x80, 0],
      [0x7C, 0xC6, 0xCE, 0xDE, 0xF6, 0xE6, 0x7C, 0],
      [0x18, 0x38, 0x18, 0x18, 0x18, 0x18, 0x7E, 0],
      [0x7C, 0xC6, 0x06, 0x1C, 0x30, 0x66, 0xFE, 0],
      [0x7C, 0xC6, 0x06, 0x3C, 0x06, 0xC6, 0x7C, 0],
      [0x1C, 0x3C, 0x6C, 0xCC, 0xFE, 0x0C, 0x1E, 0],
      [0xFE, 0xC0, 0xFC, 0x06, 0x06, 0xC6, 0x7C, 0],
      [0x38, 0x60, 0xC0, 0xFC, 0xC6, 0xC6, 0x7C, 0],
      [0xFE, 0xC6, 0x0C, 0x18, 0x30, 0x30, 0x30, 0],
      [0x7C, 0xC6, 0xC6, 0x7C, 0xC6, 0xC6, 0x7C, 0],
      [0x7C, 0xC6, 0xC6, 0x7E, 0x06, 0x0C, 0x78, 0],
      [0, 0x18, 0x18, 0, 0, 0x18, 0x18, 0],
      [0, 0x18, 0x18, 0, 0, 0x18, 0x18, 0x30],
      [0x0C, 0x18, 0x30, 0x60, 0x30, 0x18, 0x0C, 0],
      [0, 0, 0x7E, 0, 0x7E, 0, 0, 0],
      [0x60, 0x30, 0x18, 0x0C, 0x18, 0x30, 0x60, 0],
      [0x7C, 0xC6, 0x0C, 0x18, 0x18, 0, 0x18, 0],
      [0x7C, 0xC6, 0xDE, 0xDE, 0xDE, 0xC0, 0x78, 0],
      [0x38, 0x6C, 0xC6, 0xC6, 0xFE, 0xC6, 0xC6, 0],
      [0xFC, 0x66, 0x66, 0x7C, 0x66, 0x66, 0xFC, 0],
      [0x3C, 0x66, 0xC0, 0xC0, 0xC0, 0x66, 0x3C, 0],
      [0xF8, 0x6C, 0x66, 0x66, 0x66, 0x6C, 0xF8, 0],
      [0xFE, 0x62, 0x68, 0x78, 0x68, 0x62, 0xFE, 0],
      [0xFE, 0x62, 0x68, 0x78, 0x68, 0x60, 0xF0, 0],
      [0x3C, 0x66, 0xC0, 0xC0, 0xCE, 0x66, 0x3E, 0],
      [0xC6, 0xC6, 0xC6, 0xFE, 0xC6, 0xC6, 0xC6, 0],
      [0x3C, 0x18, 0x18, 0x18, 0x18, 0x18, 0x3C, 0],
      [0x1E, 0x0C, 0x0C, 0x0C, 0xCC, 0xCC, 0x78, 0],
      [0xE6, 0x66, 0x6C, 0x78, 0x6C, 0x66, 0xE6, 0],
      [0xF0, 0x60, 0x60, 0x60, 0x62, 0x66, 0xFE, 0],
      [0xC6, 0xEE, 0xFE, 0xFE, 0xD6, 0xC6, 0xC6, 0],
      [0xC6, 0xE6, 0xF6, 0xDE, 0xCE, 0xC6, 0xC6, 0],
      [0x7C, 0xC6, 0xC6, 0xC6, 0xC6, 0xC6, 0x7C, 0],
      [0xFC, 0x66, 0x66, 0x7C, 0x60, 0x60, 0xF0, 0],
      [0x7C, 0xC6, 0xC6, 0xC6, 0xD6, 0xDE, 0x7C, 0x0E],
      [0xFC, 0x66, 0x66, 0x7C, 0x6C, 0x66, 0xE6, 0],
      [0x7C, 0xC6, 0x60, 0x38, 0x0C, 0xC6, 0x7C, 0],
      [0x7E, 0x7E, 0x5A, 0x18, 0x18, 0x18, 0x3C, 0],
      [0xC6, 0xC6, 0xC6, 0xC6, 0xC6, 0xC6, 0x7C, 0],
      [0xC6, 0xC6, 0xC6, 0xC6, 0x6C, 0x38, 0x10, 0],
      [0xC6, 0xC6, 0xC6, 0xD6, 0xFE, 0xEE, 0xC6, 0],
      [0xC6, 0xC6, 0x6C, 0x38, 0x6C, 0xC6, 0xC6, 0],
      [0x66, 0x66, 0x66, 0x3C, 0x18, 0x18, 0x3C, 0],
      [0xFE, 0xC6, 0x8C, 0x18, 0x32, 0x66, 0xFE, 0],
      [0x3C, 0x30, 0x30, 0x30, 0x30, 0x30, 0x3C, 0],
      [0xC0, 0x60, 0x30, 0x18, 0x0C, 0x06, 0x02, 0],
      [0x3C, 0x0C, 0x0C, 0x0C, 0x0C, 0x0C, 0x3C, 0],
      [0x10, 0x38, 0x6C, 0xC6, 0, 0, 0, 0],
      [0, 0, 0, 0, 0, 0, 0, 0xFF],
      [0x30, 0x18, 0x0C, 0, 0, 0, 0, 0],
      [0, 0, 0x78, 0x0C, 0x7C, 0xCC, 0x76, 0],
      [0xE0, 0x60, 0x60, 0x7C, 0x66, 0x66, 0xDC, 0],
      [0, 0, 0x7C, 0xC6, 0xC0, 0xC6, 0x7C, 0],
      [0x1C, 0x0C, 0x0C, 0x7C, 0xCC, 0xCC, 0x76, 0],
      [0, 0, 0x7C, 0xC6, 0xFE, 0xC0, 0x7C, 0],
      [0x38, 0x6C, 0x60, 0xF0, 0x60, 0x60, 0xF0, 0],
      [0, 0, 0x76, 0xCC, 0xCC, 0x7C, 0x0C, 0xF8],
      [0xE0, 0x60, 0x6C, 0x76, 0x66, 0x66, 0xE6, 0],
      [0x18, 0, 0x38, 0x18, 0x18, 0x18, 0x3C, 0],
      [0x0C, 0, 0x0C, 0x0C, 0x0C, 0x0C, 0xCC, 0x78],
      [0xE0, 0x60, 0x66, 0x6C, 0x78, 0x6C, 0xE6, 0],
      [0x38, 0x18, 0x18, 0x18, 0x18, 0x18, 0x3C, 0],
      [0, 0, 0xEC, 0xFE, 0xD6, 0xD6, 0xC6, 0],
      [0, 0, 0xDC, 0x66, 0x66, 0x66, 0x66, 0],
      [0, 0, 0x7C, 0xC6, 0xC6, 0xC6, 0x7C, 0],
      [0, 0, 0xDC, 0x66, 0x66, 0x7C, 0x60, 0xF0],
      [0, 0, 0x76, 0xCC, 0xCC, 0x7C, 0x0C, 0x1E],
      [0, 0, 0xDC, 0x76, 0x60, 0x60, 0xF0, 0],
      [0, 0, 0x7C, 0xC0, 0x7C, 0x06, 0xFC, 0],
      [0x10, 0x30, 0x7C, 0x30, 0x30, 0x34, 0x18, 0],
      [0, 0, 0xCC, 0xCC, 0xCC, 0xCC, 0x76, 0],
      [0, 0, 0xC6, 0xC6, 0xC6, 0x6C, 0x38, 0],
      [0, 0, 0xC6, 0xC6, 0xD6, 0xFE, 0x6C, 0],
      [0, 0, 0xC6, 0x6C, 0x38, 0x6C, 0xC6, 0],
      [0, 0, 0xC6, 0xC6, 0xC6, 0x7E, 0x06, 0xFC],
      [0, 0, 0xFE, 0x8C, 0x18, 0x32, 0xFE, 0],
      [0x0E, 0x18, 0x18, 0x70, 0x18, 0x18, 0x0E, 0],
      [0x18, 0x18, 0x18, 0, 0x18, 0x18, 0x18, 0],
      [0x70, 0x18, 0x18, 0x0E, 0x18, 0x18, 0x70, 0],
      [0x76, 0xDC, 0, 0, 0, 0, 0, 0]]"

definition font8x8 :: "u8 list list" where
  "font8x8 = replicate 32 (replicate 8 0) @ glyph_rows_8x8 @ replicate 129 (replicate 8 0)"

primrec load_rows :: "nat \<Rightarrow> nat \<Rightarrow> nat \<Rightarrow> (nat \<Rightarrow> u8) \<Rightarrow> nat \<Rightarrow> u8" where
  "load_rows 0 i j p = p"
| "load_rows (Suc n) i j p = load_rows n i (Suc j) (p(i * 32 + j := font8x8 ! i ! j))"

primrec load_glyphs :: "nat \<Rightarrow> nat \<Rightarrow> (nat \<Rightarrow> u8) \<Rightarrow> nat \<Rightarrow> u8" where
  "load_glyphs 0 i p = p"
| "load_glyphs (Suc n) i p = load_glyphs n (Suc i) (load_rows 8 i 0 p)"

definition set_register :: "u16 \<Rightarrow> u8 \<Rightarrow> u8 \<Rightarrow> vga_state \<Rightarrow> vga_state" where
  "set_register port n val s = outb (port + 1) val (outb port n s)"

definition vga_load_font :: "vga_state \<Rightarrow> vga_state" where
  "vga_load_font s =
     (let s = set_register 0x3CE 0x05 0x00 s; s = set_register 0x3CE 0x06 0x04 s;
          s = set_register 0x3C4 0x02 0x04 s; s = set_register 0x3C4 0x04 0x06 s;
          s = s\<lparr>plane2 := load_glyphs 256 0 (plane2 s)\<rparr>;
          s = set_register 0x3C4 0x02 0x03 s; s = set_register 0x3C4 0x04 0x02 s;
          s = set_register 0x3CE 0x05 0x10 s
      in set_register 0x3CE 0x06 0x0E s)"

definition vga_set_80x50 :: "vga_state \<Rightarrow> vga_state" where
  "vga_set_80x50 s =
     (let s = outb 0x3D4 0x11 s; s = outb 0x3D5 (inb 0x3D5 s AND 0x7F) s;
          s = outb 0x3D4 0x09 s; s = outb 0x3D5 ((inb 0x3D5 s AND 0xE0) OR 0x07) s;
          s = set_register 0x3D4 0x0A 0x06 s; s = set_register 0x3D4 0x0B 0x07 s;
          s = outb 0x3C4 0x01 s; clk = inb 0x3C5 s; s = outb 0x3C5 (clk OR 0x20) s;
          s = set_register 0x3D4 0x14 0x08 s;
          s = outb 0x3C4 0x01 s
      in outb 0x3C5 (clk AND NOT 0x20) s)"

definition vga_init :: "vga_state \<Rightarrow> vga_state option" where
  "vga_init s = vga_clear (vga_set_80x50 (vga_load_font (vga_set_color 7 0 s)))"

section \<open>The screen as a grid\<close>

text \<open>The specification: a grid of rows, a position, and one operation per character.\<close>

record screen =
  grid :: "u16 list list"
  row :: nat
  col :: nat
  color :: u8

definition screen_cell :: "u8 \<Rightarrow> screen \<Rightarrow> u16" where
  "screen_cell c t = ucast c OR push_bit 8 (ucast (color t))"

text \<open>The row below the last one makes room: the first row leaves.\<close>

definition settle :: "screen \<Rightarrow> screen" where
  "settle t =
     (if row t < 50 then t else t\<lparr>grid := tl (grid t) @ [replicate 80 (screen_cell 0x20 t)], row := 49\<rparr>)"

definition set_cell :: "u8 \<Rightarrow> screen \<Rightarrow> screen" where
  "set_cell c t = t\<lparr>grid := (grid t)[row t := (grid t ! row t)[col t := screen_cell c t]]\<rparr>"

definition advance :: "screen \<Rightarrow> screen" where
  "advance t = (if col t < 79 then t\<lparr>col := col t + 1\<rparr> else t\<lparr>col := 0, row := row t + 1\<rparr>)"

definition screen_putc :: "u8 \<Rightarrow> screen \<Rightarrow> screen" where
  "screen_putc c t = settle
     (if c = 0x0A then t\<lparr>col := 0, row := row t + 1\<rparr>
      else if c = 0x0D then t\<lparr>col := 0\<rparr>
      else if c = 0x08 then (if col t = 0 then t else set_cell 0x20 (t\<lparr>col := col t - 1\<rparr>))
      else if c = 0x09 then ((\<lambda>t. advance (set_cell 0x20 t)) ^^ (4 - col t mod 4)) t
      else advance (set_cell c t))"

text \<open>The grid in the cells.\<close>

definition grid_of :: "u16 list \<Rightarrow> u16 list list" where
  "grid_of b = map (\<lambda>r. map (\<lambda>c. b ! (r * 80 + c)) [0..<80]) [0..<50]"

definition screen_of :: "vga_state \<Rightarrow> screen" where
  "screen_of s = \<lparr>grid = grid_of (vga_buffer s), row = unat (vga_y s), col = unat (vga_x s), color = current_color s\<rparr>"

definition vga_ok :: "vga_state \<Rightarrow> bool" where
  "vga_ok s \<longleftrightarrow> length (vga_buffer s) = 4000 \<and> unat (vga_x s) < 80 \<and> unat (vga_y s) < 50"

section \<open>Cells and the grid\<close>

lemma length_grid [simp]: "length (grid_of b) = 50"
  by (simp add: grid_of_def)

lemma grid_nth: "r < 50 \<Longrightarrow> c < 80 \<Longrightarrow> grid_of b ! r ! c = b ! (r * 80 + c)"
  by (simp add: grid_of_def)

lemma grid_row_length: "r < 50 \<Longrightarrow> length (grid_of b ! r) = 80"
  by (simp add: grid_of_def)

lemma grid_eqI:
  assumes "length g = 50" and "\<And>r. r < 50 \<Longrightarrow> length (g ! r) = 80"
    and "\<And>r c. r < 50 \<Longrightarrow> c < 80 \<Longrightarrow> b ! (r * 80 + c) = g ! r ! c"
  shows "grid_of b = g"
  using assms by (intro nth_equalityI) (simp_all add: grid_nth grid_row_length)

lemma cell_index:
  assumes "c < 80" and "c' < 80"
  shows "(r * 80 + c = r' * 80 + c') = (r = r' \<and> c = (c' :: nat))"
proof -
  have "(r * 80 + c) div 80 = r" "(r' * 80 + c') div 80 = r'" using assms by simp_all
  then show ?thesis by fastforce
qed

lemma grid_update:
  assumes "length b = 4000" and "r < 50" and "c < 80"
  shows "grid_of (b[r * 80 + c := v]) = (grid_of b)[r := (grid_of b ! r)[c := v]]"
proof (rule grid_eqI)
  fix r' c' :: nat
  assume "r' < 50" "c' < 80"
  then show "b[r * 80 + c := v] ! (r' * 80 + c') = (grid_of b)[r := (grid_of b ! r)[c := v]] ! r' ! c'"
    using assms cell_index [of c c' r r'] by (auto simp: nth_list_update grid_nth grid_row_length)
qed (use assms in \<open>auto simp: nth_list_update grid_row_length\<close>)

lemma scroll_cells_some:
  assumes "i + n + 80 \<le> length b"
  shows "\<exists>b'. scroll_cells n i b = Some b' \<and> length b' = length b \<and>
    (\<forall>j < length b. b' ! j = (if i \<le> j \<and> j < i + n then b ! (j + 80) else b ! j))"
  using assms
proof (induction n arbitrary: i b)
  case (Suc n)
  then obtain b' where b': "scroll_cells n (Suc i) (b[i := b ! (i + 80)]) = Some b'" "length b' = length b"
    "\<forall>j < length b. b' ! j = (if Suc i \<le> j \<and> j < Suc i + n then b[i := b ! (i + 80)] ! (j + 80) else b[i := b ! (i + 80)] ! j)"
    using Suc.IH [of "Suc i" "b[i := b ! (i + 80)]"] by auto
  moreover have "i + VGA_WIDTH < length b" using Suc.prems by (simp add: vga_size)
  ultimately show ?case by (auto simp: vga_size nth_list_update)
qed auto

lemma blank_cells_some:
  assumes "i + n \<le> length (vga_buffer s)"
  shows "\<exists>b. blank_cells n i s = Some (s\<lparr>vga_buffer := b\<rparr>) \<and> length b = length (vga_buffer s) \<and>
    (\<forall>j < length b. b ! j = (if i \<le> j \<and> j < i + n then vga_cell 0x20 s else vga_buffer s ! j))"
  using assms
proof (induction n arbitrary: i s)
  case 0
  show ?case by (rule exI [of _ "vga_buffer s"]) auto
next
  case (Suc n)
  let ?s = "s\<lparr>vga_buffer := (vga_buffer s)[i := vga_cell 0x20 s]\<rparr>"
  obtain b where "blank_cells n (Suc i) ?s = Some (?s\<lparr>vga_buffer := b\<rparr>)" "length b = length (vga_buffer ?s)"
    "\<forall>j < length b. b ! j = (if Suc i \<le> j \<and> j < Suc i + n then vga_cell 0x20 ?s else vga_buffer ?s ! j)"
    using Suc.IH [of "Suc i" ?s] Suc.prems by auto
  moreover have "vga_store i 0x20 s = Some ?s" using Suc.prems by (simp add: vga_store_def)
  moreover have "vga_cell 0x20 ?s = vga_cell 0x20 s" by (simp add: vga_cell_def)
  ultimately show ?case by (intro exI [of _ b]) (auto simp: nth_list_update)
qed

lemma scroll_screen:
  assumes "length (vga_buffer s) = 4000" and "unat (vga_y s) = 50" and "unat (vga_x s) < 80"
  shows "\<exists>s'. vga_scroll s = Some s' \<and> vga_ok s' \<and> screen_of s' = settle (screen_of s)"
proof -
  obtain b where b: "scroll_cells 3920 0 (vga_buffer s) = Some b" "length b = 4000"
    "\<forall>j < 4000. b ! j = (if j < 3920 then vga_buffer s ! (j + 80) else vga_buffer s ! j)"
    using scroll_cells_some [of 0 3920 "vga_buffer s"] assms by auto
  let ?s = "s\<lparr>vga_buffer := b\<rparr>"
  obtain b' where b': "blank_cells 80 3920 ?s = Some (?s\<lparr>vga_buffer := b'\<rparr>)" "length b' = 4000"
    "\<forall>j < 4000. b' ! j = (if 3920 \<le> j \<and> j < 4000 then vga_cell 0x20 ?s else b ! j)"
    using blank_cells_some [of 3920 80 ?s] b(2) by auto
  let ?s' = "?s\<lparr>vga_buffer := b', vga_y := 49\<rparr>"
  have e: "vga_scroll s = Some ?s'" using b(1) b'(1) by (simp add: vga_scroll_def vga_size)
  have c: "vga_cell 0x20 ?s = screen_cell 0x20 (screen_of s)" by (simp add: vga_cell_def screen_cell_def screen_of_def)
  have "grid_of b' = tl (grid_of (vga_buffer s)) @ [replicate 80 (screen_cell 0x20 (screen_of s))]"
  proof (rule grid_eqI)
    fix r k :: nat
    assume rk: "r < 50" "k < 80"
    then have j: "r * 80 + k < 4000" "r * 80 + k < 3920 \<longleftrightarrow> r < 49" by auto
    show "b' ! (r * 80 + k) = (tl (grid_of (vga_buffer s)) @ [replicate 80 (screen_cell 0x20 (screen_of s))]) ! r ! k"
    proof (cases "r < 49")
      case True
      have n: "r * 80 + k + 80 = Suc r * 80 + k" by simp
      have "b' ! (r * 80 + k) = vga_buffer s ! (Suc r * 80 + k)" using b(3) b'(3) j True unfolding n [symmetric] by auto
      also have "\<dots> = grid_of (vga_buffer s) ! Suc r ! k" using True rk by (intro grid_nth [symmetric]) simp_all
      finally show ?thesis using True by (simp add: nth_append nth_tl)
    next
      case False
      then have "r = 49" using rk by simp
      then show ?thesis using b'(3) j rk c by (simp add: nth_append)
    qed
  qed (auto simp: nth_append nth_tl grid_row_length)
  then show ?thesis using e b'(2) assms
    by (intro exI [of _ ?s']) (simp add: vga_ok_def screen_of_def settle_def screen_cell_def)
qed


section \<open>One character\<close>

text \<open>The state inside an operation: the cursor may stand just below the last row.\<close>

definition vga_mid :: "vga_state \<Rightarrow> bool" where
  "vga_mid s \<longleftrightarrow> length (vga_buffer s) = 4000 \<and> unat (vga_x s) < 80 \<and> unat (vga_y s) \<le> 50"

lemma vga_ok_mid: "vga_ok s \<Longrightarrow> vga_mid s"
  by (simp add: vga_ok_def vga_mid_def)

lemma unat_inc_u8: "unat (x :: u8) < 200 \<Longrightarrow> unat (x + 1) = unat x + 1"
  using unat_plus_if_size [of x 1] by (simp add: word_size)

lemma store_refines:
  assumes "vga_ok s"
  shows "\<exists>s'. vga_store (vga_offset s) c s = Some s' \<and> vga_ok s' \<and> vga_x s' = vga_x s \<and> vga_y s' = vga_y s \<and>
    screen_of s' = set_cell c (screen_of s)"
proof -
  have "unat (vga_y s) * 80 + unat (vga_x s) < 4000" using assms by (simp add: vga_ok_def)
  moreover have "vga_cell c s = screen_cell c (screen_of s)" by (simp add: vga_cell_def screen_cell_def screen_of_def)
  ultimately show ?thesis
    using assms grid_update [of "vga_buffer s" "unat (vga_y s)" "unat (vga_x s)" "vga_cell c s"]
    by (simp add: vga_store_def vga_offset_def vga_size vga_ok_def screen_of_def set_cell_def)
qed

lemma put_cell_refines:
  assumes "vga_ok s"
  shows "\<exists>s'. put_cell c s = Some s' \<and> vga_mid s' \<and> screen_of s' = advance (set_cell c (screen_of s)) \<and>
    (unat (vga_x s) < 79 \<longrightarrow> vga_ok s' \<and> unat (vga_x s') = unat (vga_x s) + 1)"
proof -
  obtain s1 where s1: "vga_store (vga_offset s) c s = Some s1" "vga_ok s1" "vga_x s1 = vga_x s" "vga_y s1 = vga_y s"
    "screen_of s1 = set_cell c (screen_of s)"
    using store_refines [OF assms] by blast
  have n: "unat (vga_x s + 1) = unat (vga_x s) + 1" "unat (vga_y s + 1) = unat (vga_y s) + 1"
    using assms unat_inc_u8 [of "vga_x s"] unat_inc_u8 [of "vga_y s"] by (simp_all add: vga_ok_def)
  have "advance (screen_of s1) = (if unat (vga_x s) < 79
      then screen_of (s1\<lparr>vga_x := vga_x s1 + 1\<rparr>) else screen_of (s1\<lparr>vga_x := 0, vga_y := vga_y s1 + 1\<rparr>))"
    using n s1(3,4) by (simp add: advance_def screen_of_def)
  then show ?thesis
    using s1 n assms by (auto simp: put_cell_def Let_def vga_size vga_ok_def vga_mid_def)
qed

lemma put_blanks_refines:
  "vga_ok s \<Longrightarrow> n \<le> 80 - unat (vga_x s) \<Longrightarrow>
    \<exists>s'. put_blanks n s = Some s' \<and> vga_mid s' \<and> screen_of s' = ((\<lambda>t. advance (set_cell 0x20 t)) ^^ n) (screen_of s)"
proof (induction n arbitrary: s)
  case 0
  then show ?case using vga_ok_mid by simp
next
  case (Suc n)
  obtain s1 where s1: "put_cell 0x20 s = Some s1" "vga_mid s1" "screen_of s1 = advance (set_cell 0x20 (screen_of s))"
    "unat (vga_x s) < 79 \<Longrightarrow> vga_ok s1 \<and> unat (vga_x s1) = unat (vga_x s) + 1"
    using put_cell_refines [OF Suc.prems(1)] by blast
  show ?case
  proof (cases "unat (vga_x s) < 79")
    case True
    then show ?thesis using Suc.IH [of s1] s1 Suc.prems(2) by (simp add: funpow_Suc_right del: funpow.simps)
  next
    case False
    then have "n = 0" using Suc.prems by (simp add: vga_ok_def)
    then show ?thesis using s1 by simp
  qed
qed

text \<open>The position that the cursor registers hold.\<close>

definition hw_cursor :: "vga_state \<Rightarrow> nat" where
  "hw_cursor s = unat (port_register s 0x3D4 0x0E) * 256 + unat (port_register s 0x3D4 0x0F)"

lemma two_bytes:
  "unat (ucast (drop_bit 8 w AND 0xFF) :: u8) * 256 + unat (ucast (w AND 0xFF) :: u8) = unat (w :: u16)"
proof -
  have m: "(0xFF :: u16) = mask 8" by (simp add: mask_eq_exp_minus_1)
  have b: "unat w < 65536" using unsigned_less [of w, where 'a = nat] by simp
  have l: "unat (ucast (w AND 0xFF) :: u8) = unat w mod 256"
    unfolding m take_bit_eq_mask [symmetric] unsigned_ucast_eq unsigned_take_bit_eq by (simp add: take_bit_eq_mod)
  have "unat (ucast (drop_bit 8 w AND 0xFF) :: u8) = unat w div 256 mod 256"
    unfolding m take_bit_eq_mask [symmetric] unsigned_ucast_eq unsigned_take_bit_eq unsigned_drop_bit_eq
    using b by (simp add: take_bit_eq_mod drop_bit_eq_div)
  also have "\<dots> = unat w div 256" using b by simp
  finally show ?thesis unfolding l by (simp add: mult.commute)
qed

lemma hw_cursor_update:
  assumes "vga_ok s"
  shows "hw_cursor (vga_update_hw_cursor s) = unat (vga_y s) * 80 + unat (vga_x s)"
    "vga_ok (vga_update_hw_cursor s)" "screen_of (vga_update_hw_cursor s) = screen_of s"
proof -
  let ?p = "of_nat (vga_offset s) :: u16"
  have "vga_offset s < 65536" using assms by (simp add: vga_ok_def vga_offset_def vga_size)
  then have "unat ?p = vga_offset s" unfolding unat_of_nat by (simp add: take_bit_nat_eq_self)
  moreover have "hw_cursor (vga_update_hw_cursor s) = unat (ucast (drop_bit 8 ?p AND 0xFF) :: u8) * 256 + unat (ucast (?p AND 0xFF) :: u8)"
    unfolding hw_cursor_def vga_update_hw_cursor_def outb_def Let_def by simp
  ultimately show "hw_cursor (vga_update_hw_cursor s) = unat (vga_y s) * 80 + unat (vga_x s)"
    unfolding two_bytes by (simp add: vga_offset_def vga_size)
  show "vga_ok (vga_update_hw_cursor s)" "screen_of (vga_update_hw_cursor s) = screen_of s"
    using assms by (simp_all add: vga_update_hw_cursor_def outb_def vga_ok_def screen_of_def Let_def)
qed

text \<open>The end of an operation: the scroll that may be due and the cursor.\<close>

lemma finish_refines:
  assumes "vga_mid s"
  shows "\<exists>s'. map_option vga_update_hw_cursor (if unat (vga_y s) \<ge> VGA_HEIGHT then vga_scroll s else Some s) = Some s' \<and>
    vga_ok s' \<and> screen_of s' = settle (screen_of s) \<and> hw_cursor s' = row (screen_of s') * 80 + col (screen_of s')"
proof -
  obtain s1 where s1: "(if unat (vga_y s) \<ge> VGA_HEIGHT then vga_scroll s else Some s) = Some s1" "vga_ok s1"
    "screen_of s1 = settle (screen_of s)"
  proof (cases "unat (vga_y s) < 50")
    case True
    then show ?thesis using assms by (intro that [of s]) (simp_all add: vga_size vga_mid_def vga_ok_def settle_def screen_of_def)
  next
    case False
    then have "unat (vga_y s) = 50" using assms by (simp add: vga_mid_def)
    then show ?thesis using scroll_screen [of s] assms that by (auto simp: vga_mid_def vga_size)
  qed
  have rc: "row (screen_of s1) = unat (vga_y s1)" "col (screen_of s1) = unat (vga_x s1)" by (simp_all add: screen_of_def)
  show ?thesis
    using hw_cursor_update [OF s1(2)] s1 rc by (intro exI [of _ "vga_update_hw_cursor s1"]) simp
qed

text \<open>
  C19. The text console implements a grid of 50 rows of 80 cells: every character (text, newline, return, backspace, tab, or
  any other byte) has exactly the effect of the grid operation, scrolling included; no store leaves the 4000 cells, the
  cursor stays on the screen, and the cursor registers of the controller hold its position.
\<close>

theorem vga_putc_refines:
  assumes "vga_ok s"
  shows "\<exists>s'. vga_putc c s = Some s' \<and> vga_ok s' \<and> screen_of s' = screen_putc c (screen_of s) \<and>
    hw_cursor s' = row (screen_of s') * 80 + col (screen_of s')"
proof -
  let ?r = "if c = 0x0A then Some (s\<lparr>vga_x := 0, vga_y := vga_y s + 1\<rparr>)
        else if c = 0x0D then Some (s\<lparr>vga_x := 0\<rparr>)
        else if c = 0x08 then
          (if vga_x s > 0 then (let s = s\<lparr>vga_x := vga_x s - 1\<rparr> in vga_store (vga_offset s) 0x20 s) else Some s)
        else if c = 0x09 then put_blanks (4 - unat (vga_x s) mod 4) s
        else put_cell c s"
  let ?t = "screen_of s"
  let ?t' = "if c = 0x0A then ?t\<lparr>col := 0, row := row ?t + 1\<rparr>
      else if c = 0x0D then ?t\<lparr>col := 0\<rparr>
      else if c = 0x08 then (if col ?t = 0 then ?t else set_cell 0x20 (?t\<lparr>col := col ?t - 1\<rparr>))
      else if c = 0x09 then ((\<lambda>t. advance (set_cell 0x20 t)) ^^ (4 - col ?t mod 4)) ?t
      else advance (set_cell c ?t)"
  have y: "unat (vga_y s + 1) = unat (vga_y s) + 1" using assms unat_inc_u8 [of "vga_y s"] by (simp add: vga_ok_def)
  have "\<exists>s1. ?r = Some s1 \<and> vga_mid s1 \<and> screen_of s1 = ?t'"
  proof -
    have nl: "vga_mid (s\<lparr>vga_x := 0, vga_y := vga_y s + 1\<rparr>)"
      "screen_of (s\<lparr>vga_x := 0, vga_y := vga_y s + 1\<rparr>) = ?t\<lparr>col := 0, row := row ?t + 1\<rparr>"
      using assms y by (simp_all add: vga_mid_def vga_ok_def screen_of_def)
    have cr: "vga_mid (s\<lparr>vga_x := 0\<rparr>)" "screen_of (s\<lparr>vga_x := 0\<rparr>) = ?t\<lparr>col := 0\<rparr>"
      using assms by (simp_all add: vga_mid_def vga_ok_def screen_of_def)
    have bs: "\<exists>s1. vga_store (vga_offset (s\<lparr>vga_x := vga_x s - 1\<rparr>)) 0x20 (s\<lparr>vga_x := vga_x s - 1\<rparr>) = Some s1 \<and> vga_mid s1 \<and>
        screen_of s1 = set_cell 0x20 (?t\<lparr>col := col ?t - 1\<rparr>)" if "vga_x s > 0"
    proof -
      have "unat (vga_x s - 1) = unat (vga_x s) - 1" using that unat_minus_one [of "vga_x s"] by auto
      then have "vga_ok (s\<lparr>vga_x := vga_x s - 1\<rparr>)" "screen_of (s\<lparr>vga_x := vga_x s - 1\<rparr>) = ?t\<lparr>col := col ?t - 1\<rparr>"
        using assms by (auto simp: vga_ok_def screen_of_def)
      then show ?thesis using store_refines [of "s\<lparr>vga_x := vga_x s - 1\<rparr>"] vga_ok_mid by metis
    qed
    have z: "(col ?t = 0) = (\<not> vga_x s > 0)" by (simp add: screen_of_def unat_eq_0 word_gt_0)
    have "4 - unat (vga_x s) mod 4 \<le> 80 - unat (vga_x s)" using assms by (simp add: vga_ok_def) presburger
    from put_blanks_refines [OF assms this] have tab: "\<exists>s1. put_blanks (4 - unat (vga_x s) mod 4) s = Some s1 \<and> vga_mid s1 \<and>
        screen_of s1 = ((\<lambda>t. advance (set_cell 0x20 t)) ^^ (4 - col ?t mod 4)) ?t" by (simp add: screen_of_def)
    show ?thesis
      using nl cr bs tab put_cell_refines [OF assms] vga_ok_mid [OF assms] unfolding z Let_def by auto
  qed
  then obtain s1 where s1: "?r = Some s1" "vga_mid s1" "screen_of s1 = ?t'" by blast
  have "vga_putc c s = map_option vga_update_hw_cursor (if unat (vga_y s1) \<ge> VGA_HEIGHT then vga_scroll s1 else Some s1)"
    unfolding vga_putc_def s1(1) by simp
  moreover have "screen_putc c ?t = settle (screen_of s1)" unfolding screen_putc_def s1(3) ..
  ultimately show ?thesis using finish_refines [OF s1(2)] by simp
qed


definition vga_demo :: vga_state where
  "vga_demo = \<lparr>vga_buffer = replicate 4000 0, current_color = 7, vga_x = 78, vga_y = 49, port_index = (\<lambda>_. 0),
     port_register = (\<lambda>_ _. 0), plane2 = (\<lambda>_. 0)\<rparr>"

text \<open>A tab at the end of the last row scrolls.\<close>

theorem vga_putc_refines_witness:
  "\<exists>s'. vga_putc 0x09 vga_demo = Some s' \<and> vga_ok s' \<and> hw_cursor s' = 49 * 80"
proof -
  have ok: "vga_ok vga_demo" by (simp add: vga_ok_def vga_demo_def)
  have t: "row (screen_of vga_demo) = 49" "col (screen_of vga_demo) = 78" by (simp_all add: screen_of_def vga_demo_def)
  have "row (screen_putc 0x09 (screen_of vga_demo)) = 49" "col (screen_putc 0x09 (screen_of vga_demo)) = 0"
    by (simp_all add: screen_putc_def settle_def advance_def set_cell_def t numeral_2_eq_2)
  then show ?thesis using vga_putc_refines [OF ok, of "0x09"] by auto
qed

end
