(* ===== verification/Interrupts.thy ===== *)
theory Interrupts
  imports Prelude
begin

unbundle bit_operations_syntax

text \<open>
  Segments, gates and interrupt lines: \<open>src/gdt.c\<close>, \<open>src/tss.c\<close>, \<open>src/idt.c\<close>, \<open>src/isr.c\<close>, \<open>src/pic.c\<close>, \<open>src/timer.c\<close>
  and \<open>src/serial.c\<close>. Descriptors have the fields of the C structures; what the processor reads in them is decoded as its
  manual says. The tables are functions of the index, the addresses of the assembly stubs and of the tables are parameters,
  handlers are values of a type \<open>'h\<close>. Port output is a list of writes, oldest first; port input is a function. What is proved:
  the installed segments are flat with the right privileges, of all gates only the system call gate is open to user code,
  masking an interrupt line changes its bit only, and serial text is the text with a return in front of every newline.
\<close>

type_synonym port_write = "u16 \<times> u8"

section \<open>Segment descriptors\<close>

record gdt_entry =
  limit_low :: u16
  gdt_base_low :: u16
  base_middle :: u8
  access :: u8
  granularity :: u8
  gdt_base_high :: u8

definition GDT_ENTRIES :: nat where "GDT_ENTRIES = 6"

definition gdt_descriptor :: "u32 \<Rightarrow> u32 \<Rightarrow> u8 \<Rightarrow> u8 \<Rightarrow> gdt_entry" where
  "gdt_descriptor base limit acc gran =
     \<lparr>limit_low = ucast (limit AND 0xFFFF), gdt_base_low = ucast (base AND 0xFFFF),
      base_middle = ucast (drop_bit 16 base AND 0xFF), access = acc,
      granularity = ucast (drop_bit 16 limit AND 0x0F) OR (gran AND 0xF0),
      gdt_base_high = ucast (drop_bit 24 base AND 0xFF)\<rparr>"

definition gdt_set_gate :: "nat \<Rightarrow> u32 \<Rightarrow> u32 \<Rightarrow> u8 \<Rightarrow> u8 \<Rightarrow> gdt_entry list \<Rightarrow> gdt_entry list option" where
  "gdt_set_gate num base limit acc gran gdt =
     (if num < length gdt then Some (gdt[num := gdt_descriptor base limit acc gran]) else None)"

text \<open>The pointer for \<open>lgdt\<close> and the table.\<close>

definition gdt_install :: "u32 \<Rightarrow> gdt_entry list \<Rightarrow> ((u16 \<times> u32) \<times> gdt_entry list) option" where
  "gdt_install addr_gdt gdt =
     map_option (\<lambda>g. ((of_nat (8 * GDT_ENTRIES - 1), addr_gdt), g))
       (Option.bind (gdt_set_gate 0 0 0 0 0 gdt) (\<lambda>gdt.
        Option.bind (gdt_set_gate 1 0 0xFFFFFFFF 0x9A 0xCF gdt) (\<lambda>gdt.
        Option.bind (gdt_set_gate 2 0 0xFFFFFFFF 0x92 0xCF gdt) (\<lambda>gdt.
        Option.bind (gdt_set_gate 3 0 0xFFFFFFFF 0xFA 0xCF gdt) (\<lambda>gdt.
          gdt_set_gate 4 0 0xFFFFFFFF 0xF2 0xCF gdt)))))"

section \<open>The task state segment\<close>

record tss_entry =
  prev_tss :: u32
  esp0 :: u32
  ss0 :: u32
  tss_rest :: "u32 list"
  tss_trap :: u16
  iomap_base :: u16

definition SIZEOF_TSS :: nat where "SIZEOF_TSS = 104"

text \<open>The 22 registers between \<open>ss0\<close> and \<open>trap\<close> stay zero.\<close>

definition tss_install :: "u32 \<Rightarrow> u32 \<Rightarrow> gdt_entry list \<Rightarrow> (tss_entry \<times> gdt_entry list) option" where
  "tss_install addr_tss stack_top gdt =
     map_option (Pair \<lparr>prev_tss = 0, esp0 = stack_top, ss0 = 0x10, tss_rest = replicate 22 0, tss_trap = 0,
         iomap_base = of_nat SIZEOF_TSS\<rparr>)
       (gdt_set_gate 5 addr_tss (of_nat (SIZEOF_TSS - 1)) 0x89 0x00 gdt)"

definition tss_set_kernel_stack :: "u32 \<Rightarrow> u32 \<Rightarrow> tss_entry \<Rightarrow> tss_entry" where
  "tss_set_kernel_stack s e tss = tss\<lparr>ss0 := s, esp0 := e\<rparr>"

section \<open>Gates and handlers\<close>

record idt_entry =
  idt_base_low :: u16
  sel :: u16
  always0 :: u8
  flags :: u8
  idt_base_high :: u16

record 'h idt_state =
  idt :: "u8 \<Rightarrow> idt_entry"
  isr_handlers :: "u8 \<Rightarrow> 'h option"
  irq_handlers :: "nat \<Rightarrow> 'h option"

definition idt_set_gate :: "u8 \<Rightarrow> u32 \<Rightarrow> u16 \<Rightarrow> u8 \<Rightarrow> 'h idt_state \<Rightarrow> 'h idt_state" where
  "idt_set_gate num base s f t =
     t\<lparr>idt := (idt t)(num := \<lparr>idt_base_low = ucast (base AND 0xFFFF), sel = s, always0 = 0, flags = f,
        idt_base_high = ucast (drop_bit 16 base AND 0xFFFF)\<rparr>)\<rparr>"

definition isr_register_handler :: "u8 \<Rightarrow> 'h \<Rightarrow> 'h idt_state \<Rightarrow> 'h idt_state" where
  "isr_register_handler n h t = t\<lparr>isr_handlers := (isr_handlers t)(n := Some h)\<rparr>"

definition irq_register_handler :: "u8 \<Rightarrow> 'h \<Rightarrow> 'h idt_state \<Rightarrow> 'h idt_state" where
  "irq_register_handler n h t = (if n < 16 then t\<lparr>irq_handlers := (irq_handlers t)(unat n := Some h)\<rparr> else t)"

text \<open>A run of gates: the stubs of the vectors \<open>v\<close>, \<open>v + 1\<close>, ...\<close>

primrec set_gates :: "nat \<Rightarrow> u32 list \<Rightarrow> 'h idt_state \<Rightarrow> 'h idt_state" where
  "set_gates v [] t = t"
| "set_gates v (stub # stubs) t = set_gates (Suc v) stubs (idt_set_gate (of_nat v) stub 0x08 0x8E t)"

definition isr_install :: "u32 list \<Rightarrow> 'h \<Rightarrow> 'h idt_state \<Rightarrow> 'h idt_state" where
  "isr_install isrs exception_handler t =
     fold (\<lambda>i. isr_register_handler (of_nat i) exception_handler) [0..<32] (set_gates 0 isrs t)"

text \<open>\<open>inb\<close> gives the masks found.\<close>

definition pic_remap :: "(u16 \<Rightarrow> u8) \<Rightarrow> port_write list" where
  "pic_remap inb =
     [(0x20, 0x11), (0xA0, 0x11), (0x21, 0x20), (0xA1, 0x28), (0x21, 0x04), (0xA1, 0x02), (0x21, 0x01), (0xA1, 0x01),
      (0x21, inb 0x21), (0xA1, inb 0xA1)]"

definition irq_install :: "(u16 \<Rightarrow> u8) \<Rightarrow> u32 list \<Rightarrow> 'h idt_state \<Rightarrow> port_write list \<times> 'h idt_state" where
  "irq_install inb irqs t = (pic_remap inb, set_gates 32 irqs t)"

definition idt_install :: "(u16 \<Rightarrow> u8) \<Rightarrow> u32 list \<Rightarrow> u32 list \<Rightarrow> 'h \<Rightarrow> 'h idt_state \<Rightarrow> port_write list \<times> 'h idt_state" where
  "idt_install inb isrs irqs exception_handler t =
     irq_install inb irqs (isr_install isrs exception_handler (t\<lparr>isr_handlers := (\<lambda>_. None), irq_handlers := (\<lambda>_. None)\<rparr>))"

text \<open>The system call gate of \<open>syscall_init\<close>; \<open>stub\<close> is \<open>isr128\<close>.\<close>

definition syscall_gate :: "u32 \<Rightarrow> 'h \<Rightarrow> 'h idt_state \<Rightarrow> 'h idt_state" where
  "syscall_gate stub syscall_dispatcher t =
     isr_register_handler 128 syscall_dispatcher (idt_set_gate 128 stub 0x08 0xEE t)"

text \<open>Which handler runs; \<open>None\<close> is the halt of the kernel.\<close>

definition isr_handler :: "u32 \<Rightarrow> 'h idt_state \<Rightarrow> 'h option" where
  "isr_handler int_no t = isr_handlers t (ucast int_no)"

text \<open>The end of interrupt goes out first, then the handler runs, if there is one.\<close>

definition irq_handler :: "u32 \<Rightarrow> 'h idt_state \<Rightarrow> port_write list \<times> 'h option" where
  "irq_handler int_no t =
     (let irq_num = sint int_no - 32
      in ((if irq_num \<ge> 8 then [(0xA0, 0x20)] else []) @ [(0x20, 0x20)], irq_handlers t (nat irq_num)))"

section \<open>Interrupt lines\<close>

definition irq_set_mask :: "(u16 \<Rightarrow> u8) \<Rightarrow> u8 \<Rightarrow> port_write" where
  "irq_set_mask inb line =
     (let (p, line) = (if line < 8 then (0x21, line) else (0xA1, line - 8)) in (p, inb p OR push_bit (unat line) 1))"

definition irq_clear_mask :: "(u16 \<Rightarrow> u8) \<Rightarrow> u8 \<Rightarrow> port_write" where
  "irq_clear_mask inb line =
     (let (p, line) = (if line < 8 then (0x21, line) else (0xA1, line - 8)) in (p, inb p AND NOT (push_bit (unat line) 1)))"

section \<open>The timer\<close>

definition PIT_BASE_FREQ :: u32 where "PIT_BASE_FREQ = 1193182"

definition timer_init :: "(u16 \<Rightarrow> u8) \<Rightarrow> u32 \<Rightarrow> 'h \<Rightarrow> 'h idt_state \<Rightarrow> (port_write list \<times> 'h idt_state) option" where
  "timer_init inb freq pit_handler t =
     (if freq = 0 then None
      else let divisor = PIT_BASE_FREQ div freq
           in Some ([(0x43, 0x36), (0x40, ucast (divisor AND 0xFF)), (0x40, ucast (drop_bit 8 divisor AND 0xFF)),
                     irq_clear_mask inb 0], irq_register_handler 0 pit_handler t))"

definition keyboard_install :: "(u16 \<Rightarrow> u8) \<Rightarrow> 'h \<Rightarrow> 'h idt_state \<Rightarrow> port_write list \<times> 'h idt_state" where
  "keyboard_install inb keyboard_handler t = ([irq_clear_mask inb 1], irq_register_handler 1 keyboard_handler t)"

text \<open>\<open>k_sleep\<close> over the values that \<open>tick_count\<close> takes, one per interrupt: how many interrupts it waits for.\<close>

fun sleep_loop :: "u32 \<Rightarrow> u32 list \<Rightarrow> nat option" where
  "sleep_loop target [] = None"
| "sleep_loop target (tick # ticks) = (if tick < target then map_option Suc (sleep_loop target ticks) else Some 0)"

definition k_sleep :: "u32 \<Rightarrow> u32 list \<Rightarrow> nat option" where
  "k_sleep ms ticks = (case ticks of [] \<Rightarrow> None | start # _ \<Rightarrow> sleep_loop (start + ms) ticks)"

section \<open>The serial line\<close>

definition COM1 :: u16 where "COM1 = 0x3F8"

definition serial_init :: "port_write list" where
  "serial_init = [(COM1 + 1, 0x00), (COM1 + 3, 0x80), (COM1 + 0, 0x03), (COM1 + 1, 0x00), (COM1 + 3, 0x03), (COM1 + 2, 0xC7),
     (COM1 + 4, 0x0B)]"

text \<open>\<open>status\<close> is what the reads of the line status register give: the byte goes out at the first that says ready.\<close>

fun serial_putc :: "u8 \<Rightarrow> u8 list \<Rightarrow> (port_write \<times> u8 list) option" where
  "serial_putc c [] = None"
| "serial_putc c (st # status) = (if st AND 0x20 = 0 then serial_putc c status else Some ((COM1, c), status))"

fun serial_print :: "u8 list \<Rightarrow> u8 list \<Rightarrow> (port_write list \<times> u8 list) option" where
  "serial_print [] status = Some ([], status)"
| "serial_print (c # str) status =
     Option.bind (if c = 0x0A then map_option (\<lambda>(w, status). ([w], status)) (serial_putc 0x0D status) else Some ([], status))
       (\<lambda>(ws, status). Option.bind (serial_putc c status)
       (\<lambda>(w, status). map_option (\<lambda>(ws', status). (ws @ w # ws', status)) (serial_print str status)))"

section \<open>What the processor reads\<close>

definition seg_base :: "gdt_entry \<Rightarrow> u32" where
  "seg_base e = ucast (gdt_base_low e) OR push_bit 16 (ucast (base_middle e)) OR push_bit 24 (ucast (gdt_base_high e))"

definition seg_limit :: "gdt_entry \<Rightarrow> u32" where
  "seg_limit e =
     (let l = ucast (limit_low e) OR push_bit 16 (ucast (granularity e) AND 0x0F)
      in if bit (granularity e) 7 then push_bit 12 l OR 0xFFF else l)"

definition dpl :: "u8 \<Rightarrow> u8" where "dpl a = drop_bit 5 a AND 3"
definition present :: "u8 \<Rightarrow> bool" where "present a = bit a 7"
definition executable :: "u8 \<Rightarrow> bool" where "executable a = bit a 3"

definition gate_offset :: "idt_entry \<Rightarrow> u32" where
  "gate_offset e = ucast (idt_base_low e) OR push_bit 16 (ucast (idt_base_high e))"

section \<open>Segments\<close>

lemma masks: "(0xFF :: u32) = mask 8" "(0xFFFF :: u32) = mask 16" "(0x0F :: u32) = mask 4" "(0xFFFFF :: u32) = mask 20"
  "(0xFFF :: u32) = mask 12"
  by (simp_all add: mask_eq_exp_minus_1)

lemma seg_base_descriptor: "seg_base (gdt_descriptor base limit acc gran) = base"
  unfolding seg_base_def gdt_descriptor_def masks
proof (rule bit_word_eqI, goal_cases)
  case (1 n)
  then show ?case by (cases "n < 16"; cases "n < 24") (auto simp: bit_simps)
qed

lemma granularity_low:
  "ucast (granularity (gdt_descriptor base limit acc gran)) AND (0x0F :: u32) = drop_bit 16 limit AND 0x0F"
proof -
  have "(ucast (gran AND 0xF0) :: u32) AND 0x0F = 0"
  proof -
    have f: "(0xF0 :: u8) = push_bit 4 (mask 4)" by (simp add: mask_eq_exp_minus_1)
    show ?thesis unfolding masks f by (rule bit_word_eqI) (auto simp: bit_simps)
  qed
  moreover have "(ucast (ucast (drop_bit 16 limit AND 0x0F) :: u8) :: u32) AND 0x0F = drop_bit 16 limit AND 0x0F"
    unfolding masks by (rule bit_word_eqI) (auto simp: bit_simps)
  ultimately show ?thesis
    by (simp add: gdt_descriptor_def unsigned_or_eq bit.conj_disj_distrib2)
qed

lemma seg_limit_descriptor:
  "seg_limit (gdt_descriptor base limit acc gran) =
    (if bit gran 7 then push_bit 12 (limit AND 0xFFFFF) OR 0xFFF else limit AND 0xFFFFF)"
proof -
  have "bit (granularity (gdt_descriptor base limit acc gran)) 7 = bit gran 7"
  proof -
    have f: "(0xF0 :: u8) = push_bit 4 (mask 4)" by (simp add: mask_eq_exp_minus_1)
    show ?thesis unfolding gdt_descriptor_def f masks by (simp add: bit_simps)
  qed
  moreover have "ucast (limit_low (gdt_descriptor base limit acc gran)) OR
      push_bit 16 (ucast (granularity (gdt_descriptor base limit acc gran)) AND 0x0F) = limit AND 0xFFFFF"
    unfolding granularity_low unfolding gdt_descriptor_def masks
  proof (rule bit_word_eqI, goal_cases)
    case (1 n)
    then show ?case by (cases "n < 16") (auto simp: bit_simps)
  qed
  ultimately show ?thesis by (simp add: seg_limit_def Let_def)
qed

lemma access_descriptor: "access (gdt_descriptor base limit acc gran) = acc"
  by (simp add: gdt_descriptor_def)

text \<open>
  C22. What the processor reads in the installed table: four flat segments of 4 GB that are present, the first two for the
  kernel (privilege 0), the other two for user code (privilege 3), code executable and data not; and behind them the task
  state segment at its address, of its size, for the kernel only, whose stack for interrupts from user code is the kernel's.
\<close>

theorem segments_flat_and_protected:
  "length gdt = 6 \<Longrightarrow> \<exists>g p tss g'. gdt_install addr gdt = Some (p, g) \<and> tss_install addr_tss stack_top g = Some (tss, g') \<and>
    (\<forall>i\<in>{1, 2, 3, 4}. seg_base (g' ! i) = 0 \<and> seg_limit (g' ! i) = 0xFFFFFFFF \<and> present (access (g' ! i)) \<and>
      executable (access (g' ! i)) = odd i \<and> dpl (access (g' ! i)) = (if i \<le> 2 then 0 else 3)) \<and>
    seg_base (g' ! 5) = addr_tss \<and> seg_limit (g' ! 5) = 103 \<and> present (access (g' ! 5)) \<and> dpl (access (g' ! 5)) = 0 \<and>
    esp0 tss = stack_top \<and> ss0 tss = 0x10 \<and> unat (iomap_base tss) > unat (seg_limit (g' ! 5))"
  by (simp add: gdt_install_def gdt_set_gate_def tss_install_def nth_list_update seg_base_descriptor seg_limit_descriptor
      access_descriptor present_def executable_def dpl_def SIZEOF_TSS_def)

text \<open>The table of zeros that the C program starts with.\<close>

definition gdt_demo :: "gdt_entry list" where
  "gdt_demo = replicate 6 \<lparr>limit_low = 0, gdt_base_low = 0, base_middle = 0, access = 0, granularity = 0, gdt_base_high = 0\<rparr>"

theorem segments_flat_and_protected_witness:
  "\<exists>g p tss g'. gdt_install 0xC0104000 gdt_demo = Some (p, g) \<and> tss_install 0xC0105000 0xC0110000 g = Some (tss, g') \<and>
    dpl (access (g' ! 3)) = 3 \<and> seg_base (g' ! 5) = 0xC0105000 \<and> seg_limit (g' ! 5) = 103"
  using segments_flat_and_protected [of gdt_demo "0xC0104000" "0xC0105000" "0xC0110000"] by (auto simp: gdt_demo_def)

section \<open>Gates\<close>

lemma set_gates_idt:
  "v + length stubs \<le> 256 \<Longrightarrow> idt (set_gates v stubs t) w =
    (if v \<le> unat w \<and> unat w < v + length stubs
     then \<lparr>idt_base_low = ucast (stubs ! (unat w - v) AND 0xFFFF), sel = 0x08, always0 = 0, flags = 0x8E,
           idt_base_high = ucast (drop_bit 16 (stubs ! (unat w - v)) AND 0xFFFF)\<rparr>
     else idt t w)"
proof (induction stubs arbitrary: v t)
  case (Cons stub stubs)
  have "(w = of_nat v) = (unat w = v)"
    using Cons.prems unat_of_nat [of v, where 'a = 8] by (auto simp: take_bit_nat_eq_self)
  then show ?case
    using Cons.IH [of "Suc v"] Cons.prems by (auto simp: idt_set_gate_def nth_Cons' Suc_diff_Suc)
qed auto


lemma gate_offset_split:
  "gate_offset \<lparr>idt_base_low = ucast (a AND 0xFFFF), sel = s, always0 = z, flags = f, idt_base_high = ucast (drop_bit 16 a AND 0xFFFF)\<rparr> = a"
  unfolding gate_offset_def masks
proof (rule bit_word_eqI, goal_cases)
  case (1 n)
  then show ?case by (cases "n < 16") (auto simp: bit_simps)
qed

lemma fold_register:
  "idt (fold (\<lambda>i. isr_register_handler (of_nat i) h) is t) = idt t"
  "irq_handlers (fold (\<lambda>i. isr_register_handler (of_nat i) h) is t) = irq_handlers t"
  "isr_handlers (fold (\<lambda>i. isr_register_handler (of_nat i) h) is t) v =
    (if v \<in> of_nat ` set is then Some h else isr_handlers t v)"
  by (induction "is" arbitrary: t) (auto simp: isr_register_handler_def)

lemma set_gates_handlers [simp]:
  "isr_handlers (set_gates v stubs t) = isr_handlers t" "irq_handlers (set_gates v stubs t) = irq_handlers t"
  by (induction stubs arbitrary: v t) (simp_all add: idt_set_gate_def)

lemma small_vector: "(v \<in> of_nat ` {0..<32}) = (unat (v :: u8) < 32)"
proof
  assume "v \<in> of_nat ` {0..<32}"
  then obtain i where "v = of_nat i" "i < 32" by auto
  then show "unat v < 32" by (simp add: unat_of_nat take_bit_nat_eq_self)
next
  assume "unat v < 32"
  then show "v \<in> of_nat ` {0..<32}" by (intro image_eqI [of _ _ "unat v"]) simp_all
qed

lemma gates_installed:
  fixes t :: "'h idt_state"
  assumes "length isrs = 32" and "length irqs = 16" and "\<And>v. flags (idt t v) = 0"
    and "t' = syscall_gate stub dispatcher (snd (idt_install inb isrs irqs exception_handler t))"
  shows "present (flags (idt t' v)) = (unat v < 48 \<or> v = 128)"
    and "present (flags (idt t' v)) \<Longrightarrow> sel (idt t' v) = 0x08 \<and>
      gate_offset (idt t' v) = (if v = 128 then stub else (isrs @ irqs) ! unat v)"
    and "present (flags (idt t' v)) \<Longrightarrow> dpl (flags (idt t' v)) = 3 \<longleftrightarrow> v = 128"
    and "unat v < 32 \<Longrightarrow> isr_handler (ucast v) t' = Some exception_handler"
    and "isr_handler 128 t' = Some dispatcher"
proof -
  have g: "idt t' v =
      (if v = 128 then \<lparr>idt_base_low = ucast (stub AND 0xFFFF), sel = 0x08, always0 = 0, flags = 0xEE,
           idt_base_high = ucast (drop_bit 16 stub AND 0xFFFF)\<rparr>
       else if unat v < 48 then \<lparr>idt_base_low = ucast ((isrs @ irqs) ! unat v AND 0xFFFF), sel = 0x08, always0 = 0, flags = 0x8E,
           idt_base_high = ucast (drop_bit 16 ((isrs @ irqs) ! unat v) AND 0xFFFF)\<rparr>
       else idt t v)"
    using assms(1,2)
    by (simp add: assms(4) syscall_gate_def idt_install_def irq_install_def isr_install_def isr_register_handler_def
        idt_set_gate_def [of 128] set_gates_idt fold_register nth_append)
  have n: "unat (128 :: u8) = 128" by simp
  show "present (flags (idt t' v)) = (unat v < 48 \<or> v = 128)" using assms(3) by (simp add: g present_def)
  show "present (flags (idt t' v)) \<Longrightarrow> sel (idt t' v) = 0x08 \<and>
      gate_offset (idt t' v) = (if v = 128 then stub else (isrs @ irqs) ! unat v)"
    using assms(3) [of v] by (auto simp: g present_def gate_offset_split)
  show "present (flags (idt t' v)) \<Longrightarrow> dpl (flags (idt t' v)) = 3 \<longleftrightarrow> v = 128"
    using assms(3) [of v] by (auto simp: g present_def dpl_def)
  have h: "isr_handlers t' w = (if w = 128 then Some dispatcher else if unat w < 32 then Some exception_handler else None)" for w
    by (simp add: assms(4) syscall_gate_def idt_install_def irq_install_def isr_install_def isr_register_handler_def
        [of 128] idt_set_gate_def [of 128] fold_register small_vector atLeast0LessThan [symmetric])
  show "isr_handler 128 t' = Some dispatcher" by (simp add: isr_handler_def h)
  show "isr_handler (ucast v) t' = Some exception_handler" if "unat v < 32"
  proof -
    have "ucast (ucast v :: u32) = v" by (rule bit_word_eqI) (auto simp: bit_simps)
    then show ?thesis using n that by (auto simp: isr_handler_def h)
  qed
qed

text \<open>
  C20. After the installation every exception, every hardware interrupt and the system call have a gate to their own stub in
  the kernel code segment; no other vector has one; user code can enter the kernel through the system call gate only; and
  each exception has a handler, so that none of them meets an empty slot.
\<close>

theorem only_system_call_open_to_user:
  assumes "length isrs = 32" and "length irqs = 16" and "\<And>v. flags (idt t v) = 0"
  shows "let t' = syscall_gate stub dispatcher (snd (idt_install inb isrs irqs exception_handler t)) in
    (\<forall>v. present (flags (idt t' v)) = (unat v < 48 \<or> v = 128)) \<and>
    (\<forall>v. present (flags (idt t' v)) \<longrightarrow> sel (idt t' v) = 0x08 \<and> (dpl (flags (idt t' v)) = 3 \<longleftrightarrow> v = 128) \<and>
      gate_offset (idt t' v) = (if v = 128 then stub else (isrs @ irqs) ! unat v)) \<and>
    (\<forall>v :: u8. unat v < 32 \<longrightarrow> isr_handler (ucast v) t' = Some exception_handler) \<and> isr_handler 128 t' = Some dispatcher"
proof -
  define t' where "t' = syscall_gate stub dispatcher (snd (idt_install inb isrs irqs exception_handler t))"
  note g = gates_installed [OF assms t'_def]
  show ?thesis
    unfolding Let_def t'_def [symmetric]
    by (intro conjI allI impI; (rule g(1) | erule g(2) [THEN conjunct1] | erule g(3) | erule g(2) [THEN conjunct2] | erule g(4) | rule g(5)))
qed

definition idt_demo :: "nat idt_state" where
  "idt_demo = \<lparr>idt = (\<lambda>_. \<lparr>idt_base_low = 0, sel = 0, always0 = 0, flags = 0, idt_base_high = 0\<rparr>),
     isr_handlers = (\<lambda>_. None), irq_handlers = (\<lambda>_. None)\<rparr>"

theorem only_system_call_open_to_user_witness:
  "gate_offset (idt (syscall_gate 0xC0100880 2 (snd (idt_install (\<lambda>_. 0) (map (\<lambda>i. 0xC0100000 + 16 * of_nat i) [0..<32])
      (map (\<lambda>i. 0xC0100200 + 16 * of_nat i) [0..<16]) 1 idt_demo))) 33) = 0xC0100210"
proof -
  have "length (map (\<lambda>i. 0xC0100000 + 16 * of_nat i :: u32) [0..<32]) = 32"
    "length (map (\<lambda>i. 0xC0100200 + 16 * of_nat i :: u32) [0..<16]) = 16" "\<And>v. flags (idt idt_demo v) = 0"
    by (simp_all add: idt_demo_def)
  note f = only_system_call_open_to_user [where stub = "0xC0100880" and dispatcher = 2 and inb = "\<lambda>_. 0" and
    exception_handler = 1, OF this, unfolded Let_def]
  have p: "present (flags (idt (syscall_gate 0xC0100880 2 (snd (idt_install (\<lambda>_. 0) (map (\<lambda>i. 0xC0100000 + 16 * of_nat i) [0..<32])
      (map (\<lambda>i. 0xC0100200 + 16 * of_nat i) [0..<16]) 1 idt_demo))) 33))"
    by (rule iffD2 [OF spec [OF conjunct1 [OF f]]]) simp
  note conjunct2 [OF conjunct2 [OF mp [OF spec [OF conjunct1 [OF conjunct2 [OF f]]] p]]]
  also have "(if (33 :: u8) = 128 then 0xC0100880 else (map (\<lambda>i. 0xC0100000 + 16 * of_nat i) [0..<32] @
      map (\<lambda>i. 0xC0100200 + 16 * of_nat i) [0..<16]) ! unat (33 :: u8)) = (0xC0100210 :: u32)"
    by (simp add: nth_append del: upt_Suc upt_rec_numeral)
  finally show ?thesis .
qed

section \<open>Lines, time and text\<close>

text \<open>Masking a line changes its bit in its controller only.\<close>

lemma mask_bit:
  assumes "unat line < 16"
  defines "p \<equiv> (if line < 8 then 0x21 else 0xA1 :: u16)" and "k \<equiv> unat line mod 8"
  shows "fst (irq_set_mask inb line) = p" "bit (snd (irq_set_mask inb line)) i = (bit (inb p) i \<or> i = k)"
    "fst (irq_clear_mask inb line) = p" "bit (snd (irq_clear_mask inb line)) i = (bit (inb p) i \<and> i \<noteq> k)"
proof -
  have k: "unat (if line < 8 then line else line - 8) = k"
    using assms(1) by (auto simp: k_def word_less_nat_alt unat_sub word_le_nat_alt le_mod_geq)
  have "k < 8" by (simp add: k_def)
  then show "fst (irq_set_mask inb line) = p" "bit (snd (irq_set_mask inb line)) i = (bit (inb p) i \<or> i = k)"
    "fst (irq_clear_mask inb line) = p" "bit (snd (irq_clear_mask inb line)) i = (bit (inb p) i \<and> i \<noteq> k)"
    using k bit_imp_le_length [of "inb p" i]
    by (auto simp: irq_set_mask_def irq_clear_mask_def p_def bit_simps split: if_splits)
qed

text \<open>Near the wrap-around of the tick counter a sleep does not wait.\<close>

lemma k_sleep_wraps: "k_sleep 10 (0xFFFFFFFA # ticks) = Some 0"
  by (simp add: k_sleep_def)

text \<open>Serial text, when the line is always ready.\<close>

lemma serial_text:
  "2 * length str \<le> n \<Longrightarrow> \<exists>k. serial_print str (replicate n 0x20) =
    Some (map (Pair COM1) (concat (map (\<lambda>c. if c = 0x0A then [0x0D, 0x0A] else [c]) str)), replicate k 0x20)"
proof (induction str arbitrary: n)
  case (Cons c str)
  then obtain n' where n: "n = Suc (Suc n')" "2 * length str \<le> n'" by (cases n; cases "n - 1") auto
  then have "2 * length str \<le> Suc n'" by simp
  then show ?case using Cons.IH [of n'] Cons.IH [of "Suc n'"] n by auto
qed auto

end
