(* ===== verification/Boot.thy ===== *)
theory Boot
  imports Task_Spec
begin

text \<open>
  The boot of the kernel, \<open>kernel.c\<close>: memory management, file systems and tasks are initialised in
  order, then the first user process is loaded from \<open>/sbin/init.elf\<close> and queued, and the boot
  thread idles. \<open>None\<close> is a kernel that stops (\<open>cli; hlt\<close>). The devices that boot also sets up
  (segments, gates, timer, keyboard, screen, disk) have their own theories and states; the messages
  are left out.
\<close>

unbundle bit_operations_syntax

section \<open>The phases\<close>

text \<open>
  What the linker and the boot loader fix: the bounds of the kernel image, the boot information, the
  structures of the page tables, and the first boot module.
\<close>

record boot_info =
  multiboot_magic_val :: u32
  bi_kernel_start :: u32
  bi_kernel_end :: u32
  bi_multiboot :: "multiboot_info option"
  bi_structures :: "(u32 \<times> u32) list"
  bi_module :: "(u32 \<times> u32) option"

definition init_memory_management :: "boot_info \<Rightarrow> kernel \<Rightarrow> kernel option" where
  "init_memory_management b k =
     (let m = (k_vm k)\<lparr>vm_pmm := pmm_init (bi_kernel_start b) (bi_kernel_end b) (bi_multiboot b) (vm_pmm (k_vm k))\<rparr>
      in case paging_init (bi_structures b) m of None \<Rightarrow> None
         | Some m \<Rightarrow> Some (k\<lparr>k_vm := m, k_fs := (k_fs k)\<lparr>fs_heap := heap_init (fs_heap (k_fs k))\<rparr>\<rparr>))"

text \<open>Of the storage phase only the partition table read from the disk is state; the identification is printed.\<close>

definition init_storage :: "kernel \<Rightarrow> kernel" where
  "init_storage k = k\<lparr>k_fs := (k_fs k)\<lparr>ata := snd (partition_scan (ata (k_fs k)))\<rparr>\<rparr>"

definition init_subsystems :: "boot_info \<Rightarrow> kernel \<Rightarrow> kernel option" where
  "init_subsystems b k =
     Option.bind (devfs_init (vfs_init (k_fs k))) (\<lambda>s.
     Option.bind (initrd_init (bi_module b) s) (\<lambda>s.
     Option.bind (fat32_init s) (\<lambda>s.
     Option.bind (tmpfs_init s) (\<lambda>s.
     Option.bind (tasking_init (k\<lparr>k_fs := s\<rparr>)) (\<lambda>k.
     Some (k\<lparr>pit_frequency := 1000\<rparr>))))))"

section \<open>The first process\<close>

text \<open>Its image in a new address space: entry point, directory and what the loader leaves.\<close>

definition load_init_image :: "machine \<Rightarrow> kernel \<Rightarrow> (u32 \<times> u32 \<times> load_state) option" where
  "load_init_image mc k =
     (case vfs_findnode (bytes_of ''/sbin/init.elf'') (k_fs k) of None \<Rightarrow> None
      | Some (init_node, s) \<Rightarrow>
        if init_node = 0 then None
        else let (m, init_pdir) = vmm_create_address_space (k_vm k)
             in if init_pdir = 0 then None
                else case elf_load init_node init_pdir (addr_elf_buffers mc) \<lparr>l_fs = s, l_vm = m, l_vmas = []\<rparr> of
                       None \<Rightarrow> None
                     | Some (entry, l) \<Rightarrow> if entry = 0 then None else Some (entry, init_pdir, l))"

text \<open>The areas of its stack and of its empty heap.\<close>

definition add_init_areas :: "load_state \<Rightarrow> load_state option" where
  "add_init_areas l =
     (let (ok, h, vs) = add_areas [(USER_STACK_VIRT_TOP - USER_STACK_SIZE, USER_STACK_VIRT_TOP),
            (USER_HEAP_START, USER_HEAP_START)] (fs_heap (l_fs l)) (l_vmas l)
      in if ok then Some (l\<lparr>l_fs := (l_fs l)\<lparr>fs_heap := h\<rparr>, l_vmas := vs\<rparr>) else None)"

definition start_init :: "machine \<Rightarrow> u32 \<Rightarrow> u32 \<Rightarrow> load_state \<Rightarrow> kernel \<Rightarrow> kernel option" where
  "start_init mc entry dirp l k =
     (case task_create mc (bytes_of ''/sbin/init.elf'') entry True (USER_STACK_VIRT_TOP - 16) dirp
             (k\<lparr>k_fs := l_fs l, k_vm := l_vm l\<rparr>) of None \<Rightarrow> None
      | Some (new_init, k) \<Rightarrow>
          if new_init = 0 then None
          else Some ((on_task new_init (\<lambda>t. t\<lparr>t_vmas := l_vmas l, t_pid := 1, orphan_on_exit := False,
                 monitor_children := True\<rparr>) k)\<lparr>init_task := new_init\<rparr>))"

definition launch_init :: "machine \<Rightarrow> kernel \<Rightarrow> kernel option" where
  "launch_init mc k =
     (case load_init_image mc k of None \<Rightarrow> None
      | Some (entry, dirp, l) \<Rightarrow>
          (case add_init_areas l of None \<Rightarrow> None | Some l \<Rightarrow> start_init mc entry dirp l k))"

definition kernel_main :: "machine \<Rightarrow> boot_info \<Rightarrow> kernel \<Rightarrow> kernel option" where
  "kernel_main mc b k =
     (if multiboot_magic_val b \<noteq> 0x2BADB002 then None
      else Option.bind (init_memory_management b k) (\<lambda>k.
           Option.bind (init_subsystems b (init_storage k)) (launch_init mc)))"

section \<open>What the first process starts with\<close>

lemma push_words_fields [simp]:
  "tasks (snd (push_words sp ws k)) = tasks k" "current_task (snd (push_words sp ws k)) = current_task k"
  "next_pid (snd (push_words sp ws k)) = next_pid k" "dead_tasks (snd (push_words sp ws k)) = dead_tasks k"
  "task_count (snd (push_words sp ws k)) = task_count k"
  by (induction sp ws k rule: push_words.induct) (simp_all add: put_word_def)

lemma add_init_areas_areas:
  assumes "add_init_areas l = Some l'"
  shows "\<exists>v \<in> set (l_vmas l'). v_start v = page_down (USER_STACK_VIRT_TOP - USER_STACK_SIZE) \<and>
           v_end v = page_up USER_STACK_VIRT_TOP \<and> v_flags v = (VMA_READ OR VMA_WRITE)"
    and "\<exists>v \<in> set (l_vmas l'). v_start v = page_down USER_HEAP_START \<and> v_end v = page_up USER_HEAP_START \<and>
           v_flags v = (VMA_READ OR VMA_WRITE)"
proof -
  have walk: "set (insert_walk v vs) = insert v (set vs)" for v vs
    by (induction v vs rule: insert_walk.induct) auto
  have ins: "set (vma_insert v vs) = insert v (set vs)" for v vs
    by (auto simp: vma_insert_def walk split: list.split)
  have add: "\<exists>p. set vs' = insert \<lparr>v_addr = p, v_start = page_down s, v_end = page_up e, v_flags = fl\<rparr> (set vs)"
    if "vma_add h vs s e fl = (ret, h', vs')" "\<not> ret < 0" for h vs s e fl ret h' vs'
  proof (cases "s \<ge> KERNEL_SPACE_START \<or> e > KERNEL_SPACE_START")
    case True
    then show ?thesis using that by (auto simp: vma_add_def)
  next
    case False
    obtain h1 p where k: "kmalloc VMA_NODE_SIZE h = (h1, p)" by fastforce
    have "p \<noteq> 0 \<and> vs' = vma_insert \<lparr>v_addr = p, v_start = page_down s, v_end = page_up e, v_flags = fl\<rparr> vs"
      using that False by (cases "p = 0") (simp_all only: vma_add_def k Let_def prod.case if_False if_True, auto)
    then show ?thesis using ins by blast
  qed
  obtain r1 h1 vs1 where a: "vma_add (fs_heap (l_fs l)) (l_vmas l) (USER_STACK_VIRT_TOP - USER_STACK_SIZE)
      USER_STACK_VIRT_TOP (VMA_READ OR VMA_WRITE) = (r1, h1, vs1)" by (metis prod_cases3)
  obtain r2 h2 vs2 where b: "vma_add h1 vs1 USER_HEAP_START USER_HEAP_START (VMA_READ OR VMA_WRITE) = (r2, h2, vs2)"
    by (metis prod_cases3)
  have ok: "\<not> r1 < 0" "\<not> r2 < 0" "l_vmas l' = vs2"
    using assms a b by (auto simp: add_init_areas_def add_areas_def split: if_splits)
  obtain p q where "set vs1 = insert \<lparr>v_addr = p, v_start = page_down (USER_STACK_VIRT_TOP - USER_STACK_SIZE),
      v_end = page_up USER_STACK_VIRT_TOP, v_flags = VMA_READ OR VMA_WRITE\<rparr> (set (l_vmas l))"
    "set vs2 = insert \<lparr>v_addr = q, v_start = page_down USER_HEAP_START, v_end = page_up USER_HEAP_START,
      v_flags = VMA_READ OR VMA_WRITE\<rparr> (set vs1)"
    using add [OF a ok(1)] add [OF b ok(2)] by blast
  then show "\<exists>v \<in> set (l_vmas l'). v_start v = page_down (USER_STACK_VIRT_TOP - USER_STACK_SIZE) \<and>
           v_end v = page_up USER_STACK_VIRT_TOP \<and> v_flags v = (VMA_READ OR VMA_WRITE)"
    and "\<exists>v \<in> set (l_vmas l'). v_start v = page_down USER_HEAP_START \<and> v_end v = page_up USER_HEAP_START \<and>
           v_flags v = (VMA_READ OR VMA_WRITE)"
    by (simp_all add: ok(3))
qed

lemma task_create_new:
  assumes "task_create mc nm entry True usp dirp k = Some (p, k')" and "p \<noteq> 0" and "dirp \<noteq> 0"
    and "current_task k \<noteq> 0" and "p \<noteq> current_task k"
  shows "t_state (tasks k' p) = TASK_READY" and "t_pdir (tasks k' p) = dirp" and "t_parent (tasks k' p) = current_task k"
    and "t_next (tasks k' (current_task k)) = p" and "current_task k' = current_task k"
    and "dead_tasks k' = dead_tasks k" and "task_count k' = task_count k + 1"
    and "p \<in> set (t_children (tasks k' (current_task k)))"
proof -
  obtain m st where s: "vmm_alloc_kernel_stack (k_vm k) = Some (m, st)" "st \<noteq> 0"
    using assms(1,2) by (auto simp: task_create_def split: option.splits prod.splits if_splits)
  obtain m' phys where al: "alloc_page m = (m', phys)" by fastforce
  have ph: "phys \<noteq> 0" "p = PHYS_TO_VIRT phys"
    using assms(1,2,3) s al by (auto simp: task_create_def Let_def split: prod.splits if_splits)
  let ?k0 = "k\<lparr>next_pid := next_pid k + 1, k_vm := m'\<rparr>"
  obtain sp kk where pw: "push_words st (initial_stack mc usp True entry) ?k0 = (sp, kk)" by fastforce
  have kk: "tasks kk = tasks k" "current_task kk = current_task k" "dead_tasks kk = dead_tasks k" "task_count kk = task_count k"
    using push_words_fields [of st "initial_stack mc usp True entry" ?k0] by (simp_all add: pw)
  define t where "t = zero_task\<lparr>t_pid := next_pid k, t_state := TASK_READY, t_name := take 31 nm, t_pdir := dirp,
     kernel_stack_virt := st, t_esp := sp, t_parent := current_task k, orphan_on_exit := True\<rparr>"
  define k1 where "k1 = on_task (current_task k) (\<lambda>t. t\<lparr>t_children := p # t_children t\<rparr>) (kk\<lparr>tasks := (tasks kk)(p := t)\<rparr>)"
  have k': "k' = (task_queue_add p k1)\<lparr>task_count := task_count (task_queue_add p k1) + 1\<rparr>"
    using assms s al ph pw by (auto simp: task_create_def Let_def k1_def t_def kk)
  have c: "current_task k1 = current_task k" "dead_tasks k1 = dead_tasks k" "task_count k1 = task_count k"
    by (simp_all add: k1_def on_task_def kk)
  have q: "tasks k1 p = t" "t_children (tasks k1 (current_task k)) = p # t_children (tasks k (current_task k))"
    using assms(5) by (simp_all add: k1_def on_task_def kk)
  note d = task_queue_add_def c tasks_on_task assms(4,5) q Let_def on_task_def
  show "t_state (tasks k' p) = TASK_READY" "t_pdir (tasks k' p) = dirp" "t_parent (tasks k' p) = current_task k"
    "t_next (tasks k' (current_task k)) = p" "current_task k' = current_task k" "dead_tasks k' = dead_tasks k"
    "task_count k' = task_count k + 1" "p \<in> set (t_children (tasks k' (current_task k)))"
    using assms(5) by (auto simp: k' d t_def)
qed

text \<open>
  A launch that succeeds leaves process 1 ready behind the boot thread in the queue, with its stack and
  heap areas and the policy of the first process, and the first call of the scheduler runs it.
\<close>

theorem launched_init_runs:
  assumes "launch_init mc k = Some k'" and "current_task k \<noteq> 0" and "init_task k' \<noteq> current_task k"
    and "dead_tasks k = []"
  defines "p \<equiv> init_task k'"
  shows "t_pid (tasks k' p) = 1 \<and> t_state (tasks k' p) = TASK_READY \<and> \<not> orphan_on_exit (tasks k' p) \<and>
      monitor_children (tasks k' p) \<and> task_count k' = task_count k + 1 \<and>
      (\<exists>v \<in> set (t_vmas (tasks k' p)). v_start v = page_down (USER_STACK_VIRT_TOP - USER_STACK_SIZE) \<and>
         v_end v = page_up USER_STACK_VIRT_TOP) \<and>
      (\<exists>v \<in> set (t_vmas (tasks k' p)). v_start v = page_down USER_HEAP_START) \<and>
      (\<exists>k''. schedule mc k' = Some k'' \<and> current_task k'' = p)"
proof -
  obtain entry dirp l l' where i: "load_init_image mc k = Some (entry, dirp, l)" "add_init_areas l = Some l'"
    "start_init mc entry dirp l' k = Some k'"
    using assms(1) by (auto simp: launch_init_def split: option.splits)
  have pd: "dirp \<noteq> 0" using i(1) by (auto simp: load_init_image_def split: option.splits prod.splits if_splits)
  let ?k = "k\<lparr>k_fs := l_fs l', k_vm := l_vm l'\<rparr>"
  obtain q k1 where c: "task_create mc (bytes_of ''/sbin/init.elf'') entry True (USER_STACK_VIRT_TOP - 16) dirp ?k = Some (q, k1)"
    "q \<noteq> 0" "k' = (on_task q (\<lambda>t. t\<lparr>t_vmas := l_vmas l', t_pid := 1, orphan_on_exit := False,
                 monitor_children := True\<rparr>) k1)\<lparr>init_task := q\<rparr>"
    using i(3) by (auto simp: start_init_def split: option.splits if_splits)
  have q: "p = q" "q \<noteq> current_task ?k" using assms(3) by (simp_all add: p_def c(3))
  note n = task_create_new [OF c(1,2) pd _ q(2), simplified, OF assms(2)]
  have nx: "t_next (tasks k' (current_task k')) = q" "current_task k' = current_task k" "dead_tasks k' = []"
    using n q assms(4) by (simp_all add: c(3) on_task_def)
  have st: "t_state (tasks k' q) = TASK_READY" using n by (simp add: c(3) on_task_def)
  have "pick_next (tasks k') (current_task k') q = Some q"
    by (subst pick_next.simps) (simp add: st runnable_def)
  then have "schedule mc k' = Some (switch_to q k')"
    using nx q c(2) assms(2) by (simp add: schedule_def)
  moreover have "current_task (switch_to q k') = q" by (simp add: switch_to_fields)
  ultimately show ?thesis
    using add_init_areas_areas [OF i(2)] n by (auto simp: q(1) c(3) on_task_def)
qed

end
