(* ===== verification/Arm_Pmm.thy ===== *)
theory Arm_Pmm
  imports Pmm
begin

text \<open>
  The physical memory manager of the ARM port, \<open>arch/arm/arm_pmm.c\<close>: a bitmap with one bit per 4 KiB
  page (set = in use or reserved) and four counters, no reference counts. Addresses are physical
  and 0 is the failure value of the allocator. The operations run with interrupts off
  (\<open>hal_irq_save\<close>) and are atomic here; the messages on the serial line are left out.
\<close>

unbundle bit_operations_syntax

section \<open>State\<close>

abbreviation (input) ARM_PMM_MAX_PAGES :: u32 where "ARM_PMM_MAX_PAGES \<equiv> 131072"
abbreviation (input) ATAG_NONE :: u32 where "ATAG_NONE \<equiv> 0"
abbreviation (input) ATAG_MEM :: u32 where "ATAG_MEM \<equiv> 0x54410002"

record arm_pmm =
  abitmap :: "nat \<Rightarrow> u8"
  atotal_pages :: u32
  afree_pages :: u32
  aallocs :: u32
  afrees :: u32

text \<open>The counters before \<open>arm_pmm_init\<close> runs; the bitmap is in \<open>.bss\<close> and holds zeros.\<close>

definition arm_pmm_boot :: arm_pmm where
  "arm_pmm_boot = \<lparr>abitmap = (\<lambda>_. 0), atotal_pages = 0, afree_pages = 0, aallocs = 0, afrees = 0\<rparr>"

definition arm_page_used :: "arm_pmm \<Rightarrow> nat \<Rightarrow> bool" where
  "arm_page_used s page = (abitmap s (page div 8) AND push_bit (page mod 8) 1 \<noteq> 0)"

definition arm_set_bit :: "nat \<Rightarrow> arm_pmm \<Rightarrow> arm_pmm" where
  "arm_set_bit page s = s\<lparr>abitmap := (abitmap s)
     (page div 8 := abitmap s (page div 8) OR push_bit (page mod 8) 1)\<rparr>"

definition arm_clear_bit :: "nat \<Rightarrow> arm_pmm \<Rightarrow> arm_pmm" where
  "arm_clear_bit page s = s\<lparr>abitmap := (abitmap s)
     (page div 8 := abitmap s (page div 8) AND NOT (push_bit (page mod 8) 1))\<rparr>"

text \<open>The count of trailing zeros without the instruction ARMv6 lacks.\<close>

definition ctz32 :: "u32 \<Rightarrow> u32" where
  "ctz32 x =
     (let n = 0;
          (n, x) = (if x AND 0x0000FFFF = 0 then (n + 16, drop_bit 16 x) else (n, x));
          (n, x) = (if x AND 0x000000FF = 0 then (n + 8, drop_bit 8 x) else (n, x));
          (n, x) = (if x AND 0x0000000F = 0 then (n + 4, drop_bit 4 x) else (n, x));
          (n, x) = (if x AND 0x00000003 = 0 then (n + 2, drop_bit 2 x) else (n, x))
      in if x AND 0x00000001 = 0 then n + 1 else n)"

section \<open>Initialisation\<close>

text \<open>
  The list of tags the boot loader leaves in memory, which \<open>word\<close> reads: each tag is its length in
  words, its kind, and its data. Printing the start address of the memory tag shifts it out of the
  tag itself, so the walk also returns the memory it leaves. A tag list that runs into itself makes
  the walk endless, which is \<open>None\<close>.
\<close>

partial_function (option) atags_walk ::
    "(u32 \<Rightarrow> u32) \<Rightarrow> u32 \<Rightarrow> u32 \<Rightarrow> (u32 \<times> (u32 \<Rightarrow> u32)) option" where
  "atags_walk word atag fallback_size =
     (if word (atag + 4) \<noteq> ATAG_NONE \<and> word atag \<noteq> 0
      then if word (atag + 4) = ATAG_MEM
           then Some (word (atag + 8), word(atag + 12 := 0))
           else atags_walk word (atag + word atag * 4) fallback_size
      else Some (fallback_size, word))"

definition parse_atags ::
    "(u32 \<Rightarrow> u32) \<Rightarrow> u32 \<Rightarrow> u32 \<Rightarrow> (u32 \<times> (u32 \<Rightarrow> u32)) option" where
  "parse_atags word atags_addr fallback_size =
     (if atags_addr = 0 then Some (fallback_size, word)
      else atags_walk word atags_addr fallback_size)"

definition arm_init_free :: "nat \<Rightarrow> arm_pmm \<Rightarrow> arm_pmm" where
  "arm_init_free page s = (let s = arm_clear_bit page s in s\<lparr>afree_pages := afree_pages s + 1\<rparr>)"

definition arm_pmm_setup :: "u32 \<Rightarrow> arm_pmm \<Rightarrow> arm_pmm" where
  "arm_pmm_setup ram_size s =
     (let total = ram_size div 4096;
          total = (if total > ARM_PMM_MAX_PAGES then ARM_PMM_MAX_PAGES else total);
          s = s\<lparr>atotal_pages := total, abitmap := (\<lambda>i. if i < 16384 then 0xFF else abitmap s i)\<rparr>;
          start_page = 0x00100000 div (4096 :: u32)
      in fold arm_init_free [unat start_page ..< unat total] s)"

definition arm_pmm_init ::
    "(u32 \<Rightarrow> u32) \<Rightarrow> u32 \<Rightarrow> u32 \<Rightarrow> arm_pmm \<Rightarrow> (arm_pmm \<times> (u32 \<Rightarrow> u32)) option" where
  "arm_pmm_init word atags_addr fallback_size s =
     (case parse_atags word atags_addr fallback_size of
        None \<Rightarrow> None
      | Some (ram_size, word') \<Rightarrow> Some (arm_pmm_setup ram_size s, word'))"

section \<open>Reservation, allocation, release\<close>

definition arm_reserve_one :: "nat \<Rightarrow> arm_pmm \<Rightarrow> arm_pmm" where
  "arm_reserve_one page s =
     (if \<not> arm_page_used s page
      then let s = arm_set_bit page s
           in if afree_pages s > 0 then s\<lparr>afree_pages := afree_pages s - 1\<rparr> else s
      else s)"

definition arm_pmm_reserve_range :: "u32 \<Rightarrow> u32 \<Rightarrow> arm_pmm \<Rightarrow> arm_pmm" where
  "arm_pmm_reserve_range start sz s =
     (let start = (if start mod 4096 \<noteq> 0 then start AND NOT 4095 else start);
          sz = (sz + 4095) AND NOT 4095;
          start_page = start div 4096;
          end_page = (start + sz) div 4096;
          end_page = (if end_page > atotal_pages s then atotal_pages s else end_page)
      in fold arm_reserve_one [unat start_page ..< unat end_page] s)"

function arm_alloc_scan :: "nat \<Rightarrow> nat \<Rightarrow> arm_pmm \<Rightarrow> arm_pmm \<times> u32" where
  "arm_alloc_scan i n s =
     (if i < n
      then if abitmap s i \<noteq> 0xFF
           then let b = ctz32 (NOT (ucast (abitmap s i)))
                in if b < 8
                   then let page = of_nat i * 8 + b
                        in if page < atotal_pages s
                           then (s\<lparr>abitmap := (abitmap s)(i := abitmap s i OR push_bit (unat b) 1),
                                   afree_pages := afree_pages s - 1, aallocs := aallocs s + 1\<rparr>,
                                 page * 4096)
                           else arm_alloc_scan (i + 1) n s
                   else arm_alloc_scan (i + 1) n s
           else arm_alloc_scan (i + 1) n s
      else (s, 0))"
  by pat_completeness auto
termination by (relation "measure (\<lambda>(i, n, s). n - i)") auto

declare arm_alloc_scan.simps [simp del]

definition arm_pmm_alloc_page :: "arm_pmm \<Rightarrow> arm_pmm \<times> u32" where
  "arm_pmm_alloc_page s =
     (if afree_pages s = 0 then (s, 0)
      else arm_alloc_scan 0 (unat ((atotal_pages s + 7) div 8)) s)"

definition arm_pmm_free_page :: "u32 \<Rightarrow> arm_pmm \<Rightarrow> arm_pmm" where
  "arm_pmm_free_page phys_addr s =
     (if phys_addr mod 4096 \<noteq> 0 then s
      else let page = phys_addr div 4096
           in if page \<ge> atotal_pages s then s
              else if arm_page_used s (unat page)
                   then let s = arm_clear_bit (unat page) s
                        in s\<lparr>afree_pages := afree_pages s + 1, afrees := afrees s + 1\<rparr>
                   else s)"

section \<open>The bitmap\<close>

lemma byte_bit_test: "(b :: u8) AND push_bit n 1 \<noteq> 0 \<longleftrightarrow> bit b n"
  by (simp only: bit_iff_and_push_bit_not_eq_0)

lemma arm_page_used_bit: "arm_page_used s i \<longleftrightarrow> bit (abitmap s (i div 8)) (i mod 8)"
  by (simp only: arm_page_used_def byte_bit_test)

lemma arm_used_set [simp]: "arm_page_used (arm_set_bit i s) j \<longleftrightarrow> j = i \<or> arm_page_used s j"
  using div_mod_eq_iff [of j 8 i]
  by (auto simp: arm_page_used_bit arm_set_bit_def bit_simps bit_exp_u8)

lemma arm_used_clear [simp]: "arm_page_used (arm_clear_bit i s) j \<longleftrightarrow> j \<noteq> i \<and> arm_page_used s j"
  using div_mod_eq_iff [of j 8 i]
  by (auto simp: arm_page_used_bit arm_clear_bit_def bit_simps bit_exp_u8)

lemma arm_bit_simps [simp]:
  "atotal_pages (arm_set_bit i s) = atotal_pages s" "afree_pages (arm_set_bit i s) = afree_pages s"
  "aallocs (arm_set_bit i s) = aallocs s" "afrees (arm_set_bit i s) = afrees s"
  "atotal_pages (arm_clear_bit i s) = atotal_pages s"
  "afree_pages (arm_clear_bit i s) = afree_pages s"
  "aallocs (arm_clear_bit i s) = aallocs s" "afrees (arm_clear_bit i s) = afrees s"
  by (simp_all add: arm_set_bit_def arm_clear_bit_def)

lemma arm_page_used_cong [simp]:
  "arm_page_used (s\<lparr>afree_pages := x\<rparr>) = arm_page_used s"
  "arm_page_used (s\<lparr>aallocs := x\<rparr>) = arm_page_used s"
  "arm_page_used (s\<lparr>afrees := x\<rparr>) = arm_page_used s"
  "arm_page_used (s\<lparr>atotal_pages := x\<rparr>) = arm_page_used s"
  by (simp_all add: arm_page_used_def fun_eq_iff)

definition low_clear :: "u8 \<Rightarrow> nat" where
  "low_clear b = length (takeWhile (bit b) [0..<8])"

lemma ctz32_all: "list_all (\<lambda>k. k = 255 \<or>
   ctz32 (NOT (ucast (word_of_nat k :: u8))) = word_of_nat (low_clear (word_of_nat k)) \<and>
   low_clear (word_of_nat k) < 8) [0..<256]"
  by code_simp

lemma ctz32_lowest:
  assumes "b \<noteq> 0xFF"
  obtains k where "ctz32 (NOT (ucast (b :: u8))) = of_nat k" "k < 8" "\<not> bit b k" "\<forall>j<k. bit b j"
proof
  let ?P = "\<lambda>k. k = 255 \<or> ctz32 (NOT (ucast (word_of_nat k :: u8))) =
     word_of_nat (low_clear (word_of_nat k)) \<and> low_clear (word_of_nat k) < 8"
  have u: "unat b < 256" using unat_lt_exp [of b] by simp
  have "unat b \<noteq> 255" using assms by (simp add: word_unat_eq_iff)
  moreover have "\<forall>k\<in>set [0..<256]. ?P k" using ctz32_all by (simp only: list_all_iff)
  then have "?P (unat b)" by (rule bspec) (use u in auto)
  ultimately show "ctz32 (NOT (ucast b)) = of_nat (low_clear b)" and l: "low_clear b < 8" by simp_all
  have "\<not> bit b ([0..<8] ! low_clear b)"
    using l nth_length_takeWhile [of "bit b" "[0..<8]"] by (simp only: low_clear_def length_upt) simp
  then show "\<not> bit b (low_clear b)" using l by simp
  show "\<forall>j<low_clear b. bit b j"
  proof (intro allI impI)
    fix j assume j: "j < low_clear b"
    then have "takeWhile (bit b) [0..<8] ! j = [0..<8] ! j" by (simp only: low_clear_def takeWhile_nth)
    moreover have "takeWhile (bit b) [0..<8] ! j \<in> set (takeWhile (bit b) [0..<8])"
      using j by (simp only: low_clear_def nth_mem)
    ultimately show "bit b j" using j l by (auto dest: set_takeWhileD)
  qed
qed

section \<open>Free pages and the accounting invariant\<close>

definition arm_free_set :: "arm_pmm \<Rightarrow> nat set" where
  "arm_free_set s = {i. i < unat (atotal_pages s) \<and> \<not> arm_page_used s i}"

definition arm_pmm_inv :: "arm_pmm \<Rightarrow> bool" where
  "arm_pmm_inv s \<longleftrightarrow> unat (atotal_pages s) \<le> 131072 \<and>
     unat (afree_pages s) = card (arm_free_set s) \<and> 0 \<notin> arm_free_set s"

lemma finite_arm_free_set [simp]: "finite (arm_free_set s)"
  by (rule finite_subset [of _ "{..<unat (atotal_pages s)}"]) (auto simp: arm_free_set_def)

definition arm_take :: "nat \<Rightarrow> arm_pmm \<Rightarrow> arm_pmm" where
  "arm_take i s = (arm_set_bit i s)\<lparr>afree_pages := afree_pages s - 1, aallocs := aallocs s + 1\<rparr>"

definition arm_drop :: "nat \<Rightarrow> arm_pmm \<Rightarrow> arm_pmm" where
  "arm_drop i s = (arm_clear_bit i s)\<lparr>afree_pages := afree_pages s + 1, afrees := afrees s + 1\<rparr>"

lemma arm_free_take: "arm_free_set (arm_take i s) = arm_free_set s - {i}"
  by (auto simp: arm_free_set_def arm_take_def)

lemma arm_free_drop:
  "i < unat (atotal_pages s) \<Longrightarrow> arm_free_set (arm_drop i s) = insert i (arm_free_set s)"
  by (auto simp: arm_free_set_def arm_drop_def)

lemma arm_scan_spec:
  assumes "unat (atotal_pages s) \<le> 131072" and "n = (unat (atotal_pages s) + 7) div 8"
    and "\<forall>j<8 * i. j \<notin> arm_free_set s"
  shows "arm_alloc_scan i n s =
    (if arm_free_set s = {} then (s, 0)
     else let page = Min (arm_free_set s) in (arm_take page s, of_nat page * 4096))"
  using assms
proof (induction i n s rule: arm_alloc_scan.induct)
  case (1 i n s)
  show ?case
  proof (cases "i < n")
    case False
    then have "unat (atotal_pages s) \<le> 8 * i" using "1.prems"(2) by linarith
    then have "arm_free_set s = {}" using "1.prems"(3) by (auto simp: arm_free_set_def)
    then show ?thesis using False by (simp add: arm_alloc_scan.simps)
  next
    case i: True
    have test: "arm_page_used s (8 * i + b) \<longleftrightarrow> bit (abitmap s i) b" if "b < 8" for b
      using that by (simp add: arm_page_used_bit)
    have split: "j < 8 * i \<or> (\<exists>b<8. j = 8 * i + b)" if "j < 8 * (i + 1)" for j
      using that by (cases "j < 8 * i") (auto intro: exI [of _ "j - 8 * i"])
    show ?thesis
    proof (cases "abitmap s i = 0xFF")
      case True
      have "bit (0xFF :: u8) b" if "b < 8" for b
        using that mask_eq_exp_minus_1 [where 'a = u8, of 8] bit_mask_iff [where 'a = u8, of 8 b] by simp
      then have "\<forall>b<8. arm_page_used s (8 * i + b)" using test True by simp
      then have "\<forall>j<8 * (i + 1). j \<notin> arm_free_set s"
        using "1.prems"(3) split unfolding arm_free_set_def by blast
      then show ?thesis using "1.IH"(3) [OF i _ "1.prems"(1,2)] True i
        by (subst arm_alloc_scan.simps) simp
    next
      case byte: False
      obtain k where k: "ctz32 (NOT (ucast (abitmap s i))) = of_nat k" "k < 8"
        "\<not> bit (abitmap s i) k" "\<forall>j<k. bit (abitmap s i) j" using ctz32_lowest [OF byte] .
      have "unat (of_nat k :: u32) = k" using k(2) by (simp add: of_nat_u32)
      then have k8: "(of_nat k :: u32) < 8" using k(2) by (simp add: word_less_nat_alt)
      have i14: "i < 16384" using i "1.prems" by linarith
      then have idx: "unat (of_nat i * 8 + of_nat k :: u32) = 8 * i + k"
        using k(2) by (simp add: unat_word_ariths of_nat_u32)
      have low: "j \<notin> arm_free_set s" if "j < 8 * i + k" for j
      proof (cases "j < 8 * i")
        case False
        then obtain b where "j = 8 * i + b" using le_Suc_ex not_less by blast
        then show ?thesis using that k(2,4) test [of b] by (auto simp: arm_free_set_def)
      qed (use "1.prems"(3) in blast)
      show ?thesis
      proof (cases "8 * i + k < unat (atotal_pages s)")
        case True
        then have f: "8 * i + k \<in> arm_free_set s" using k test by (simp add: arm_free_set_def)
        have "Min (arm_free_set s) = 8 * i + k"
          using f low by (intro Min_eqI finite_arm_free_set) (auto simp: not_less [symmetric])
        moreover have "arm_free_set s \<noteq> {}" using f by auto
        moreover have "of_nat i * 8 + of_nat k < atotal_pages s"
          using True idx by (simp add: word_less_nat_alt)
        moreover have "arm_take (8 * i + k) s = s\<lparr>abitmap := (abitmap s)(i := abitmap s i OR push_bit k 1),
            afree_pages := afree_pages s - 1, aallocs := aallocs s + 1\<rparr>"
          using k(2) by (simp add: arm_take_def arm_set_bit_def)
        ultimately show ?thesis using i byte k8 k(1,2)
          by (subst arm_alloc_scan.simps) (simp add: Let_def of_nat_u32 mult.commute)
      next
        case False
        then have "arm_free_set s = {}" using low by (auto simp: arm_free_set_def)
        moreover have "\<not> of_nat i * 8 + of_nat k < atotal_pages s"
          using False idx by (simp add: word_less_nat_alt)
        moreover have "\<forall>j<8 * (i + 1). j \<notin> arm_free_set s" using calculation by simp
        ultimately show ?thesis using "1.IH"(1) [OF i byte refl _ refl _ "1.prems"(1,2)] k8 k(1) i byte
          by (subst arm_alloc_scan.simps) (simp add: Let_def)
      qed
    qed
  qed
qed

lemma arm_pmm_alloc_page_eq:
  assumes "arm_pmm_inv s"
  shows "arm_pmm_alloc_page s =
    (if arm_free_set s = {} then (s, 0)
     else let page = Min (arm_free_set s) in (arm_take page s, of_nat page * 4096))"
proof (cases "afree_pages s = 0")
  case True
  then have "arm_free_set s = {}" using assms by (simp add: arm_pmm_inv_def)
  then show ?thesis using True by (simp add: arm_pmm_alloc_page_def)
next
  case False
  have m: "unat (atotal_pages s) \<le> 131072" using assms by (simp add: arm_pmm_inv_def)
  then have "unat ((atotal_pages s + 7) div 8) = (unat (atotal_pages s) + 7) div 8"
    by (simp add: unat_div unat_word_ariths)
  from arm_scan_spec [OF m this, of 0] False show ?thesis by (simp add: arm_pmm_alloc_page_def)
qed

section \<open>Every operation keeps the invariant\<close>

lemma arm_free_lt: "i \<in> arm_free_set s \<Longrightarrow> i < unat (atotal_pages s)"
  by (simp add: arm_free_set_def)

lemma arm_card_free: "card (arm_free_set s) \<le> unat (atotal_pages s)"
proof -
  have "arm_free_set s \<subseteq> {..<unat (atotal_pages s)}" by (auto simp: arm_free_set_def)
  from card_mono [OF _ this] show ?thesis by simp
qed

lemma unat_pred_u32: "0 < unat (x :: u32) \<Longrightarrow> unat (x - 1) = unat x - 1"
  by (rule unat_minus_one_nonzero) auto

lemma arm_inv_take:
  assumes "arm_pmm_inv s" and "i \<in> arm_free_set s"
  shows "arm_pmm_inv (arm_take i s)"
proof -
  have "0 < card (arm_free_set s)" using assms(2) by (auto simp: card_gt_0_iff)
  then have "unat (afree_pages s - 1) = card (arm_free_set s) - 1"
    using assms(1) by (simp add: arm_pmm_inv_def unat_pred_u32)
  moreover have "afree_pages (arm_take i s) = afree_pages s - 1"
    "atotal_pages (arm_take i s) = atotal_pages s" by (simp_all add: arm_take_def)
  ultimately show ?thesis using assms by (simp add: arm_pmm_inv_def arm_free_take card_Diff_singleton)
qed

lemma arm_inv_drop:
  assumes "arm_pmm_inv s" and "i < unat (atotal_pages s)" "i \<notin> arm_free_set s" and "i \<noteq> 0"
  shows "arm_pmm_inv (arm_drop i s)"
proof -
  have "card (arm_free_set s) \<le> 131072"
    using assms(1) arm_card_free [of s] by (simp add: arm_pmm_inv_def)
  then have "unat (afree_pages s + 1) = card (arm_free_set s) + 1"
    using assms(1) by (simp add: arm_pmm_inv_def unat_suc_u32)
  moreover have "afree_pages (arm_drop i s) = afree_pages s + 1"
    "atotal_pages (arm_drop i s) = atotal_pages s" by (simp_all add: arm_drop_def)
  ultimately show ?thesis using assms by (simp add: arm_pmm_inv_def arm_free_drop)
qed

lemma arm_pmm_free_page_eq:
  assumes "unat p = 4096 * i"
  shows "arm_pmm_free_page p s =
    (if i < unat (atotal_pages s) \<and> i \<notin> arm_free_set s then arm_drop i s else s)"
  using frame_addr [OF assms]
  by (auto simp: arm_pmm_free_page_def Let_def arm_drop_def arm_free_set_def word_le_nat_alt)

section \<open>The contract of a page source\<close>

text \<open>
  What the translation tables and the program loader rely on: \<open>alloc\<close> takes a free page or reports
  failure by address 0, \<open>release\<close> returns a page that is in use.
\<close>

locale page_source =
  fixes inv :: "'s \<Rightarrow> bool" and free :: "'s \<Rightarrow> nat set" and limit :: "'s \<Rightarrow> nat"
    and alloc :: "'s \<Rightarrow> 's \<times> u32" and release :: "u32 \<Rightarrow> 's \<Rightarrow> 's"
  assumes free_limit: "inv s \<Longrightarrow> i \<in> free s \<Longrightarrow> 0 < i \<and> i < limit s"
    and limit_bound: "inv s \<Longrightarrow> limit s \<le> 131072"
    and alloc_none: "inv s \<Longrightarrow> free s = {} \<Longrightarrow> alloc s = (s, 0)"
    and alloc_some: "inv s \<Longrightarrow> free s \<noteq> {} \<Longrightarrow> alloc s = (s', p) \<Longrightarrow>
      \<exists>i. i \<in> free s \<and> unat p = 4096 * i \<and> inv s' \<and> free s' = free s - {i} \<and> limit s' = limit s"
    and release_used: "inv s \<Longrightarrow> unat p = 4096 * i \<Longrightarrow> 0 < i \<Longrightarrow> i < limit s \<Longrightarrow> i \<notin> free s \<Longrightarrow>
      inv (release p s) \<and> free (release p s) = insert i (free s) \<and> limit (release p s) = limit s"
begin

lemma alloc_page:
  assumes "inv s" and "alloc s = (s', p)" and "p \<noteq> 0"
  obtains i where "unat p = 4096 * i" and "i \<in> free s" and "0 < i" and "i < limit s" and "inv s'"
    and "free s' = free s - {i}" and "limit s' = limit s"
proof -
  have "free s \<noteq> {}" using alloc_none assms by auto
  from alloc_some [OF assms(1) this assms(2)] free_limit [OF assms(1)] that show thesis by blast
qed

lemma alloc_fail:
  assumes "inv s" and "alloc s = (s', p)"
  shows "p = 0 \<longleftrightarrow> free s = {}" and "p = 0 \<Longrightarrow> s' = s"
proof -
  show *: "p = 0 \<longleftrightarrow> free s = {}"
  proof (cases "free s = {}")
    case False
    from alloc_some [OF assms(1) False assms(2)] free_limit [OF assms(1)] False show ?thesis
      by fastforce
  qed (use alloc_none assms in auto)
  show "s' = s" if "p = 0" using that * alloc_none assms by auto
qed

text \<open>A page that was taken and returned leaves the set of free pages as it was.\<close>

lemma alloc_release:
  assumes "inv s" and "alloc s = (s', p)" and "p \<noteq> 0"
  shows "inv (release p s') \<and> free (release p s') = free s \<and> limit (release p s') = limit s"
proof -
  obtain i where i: "unat p = 4096 * i" "i \<in> free s" "0 < i" "i < limit s" "inv s'"
    "free s' = free s - {i}" "limit s' = limit s" using alloc_page [OF assms] .
  from release_used [OF i(5,1,3)] i show ?thesis by auto
qed

end

interpretation arm_pages: page_source arm_pmm_inv arm_free_set "\<lambda>s. unat (atotal_pages s)"
  arm_pmm_alloc_page arm_pmm_free_page
proof
  fix s :: arm_pmm and i assume "arm_pmm_inv s" "i \<in> arm_free_set s"
  then show "0 < i \<and> i < unat (atotal_pages s)"
    by (metis arm_free_lt arm_pmm_inv_def bot_nat_0.not_eq_extremum)
next
  fix s :: arm_pmm assume "arm_pmm_inv s"
  then show "unat (atotal_pages s) \<le> 131072" by (simp add: arm_pmm_inv_def)
next
  fix s :: arm_pmm assume "arm_pmm_inv s" "arm_free_set s = {}"
  then show "arm_pmm_alloc_page s = (s, 0)" by (simp add: arm_pmm_alloc_page_eq)
next
  fix s s' :: arm_pmm and p
  assume a: "arm_pmm_inv s" "arm_free_set s \<noteq> {}" "arm_pmm_alloc_page s = (s', p)"
  define i where "i = Min (arm_free_set s)"
  have i: "i \<in> arm_free_set s" using a(2) by (simp add: i_def)
  have s': "s' = arm_take i s" "p = of_nat i * 4096"
    using a arm_pmm_alloc_page_eq [OF a(1)] by (simp_all add: Let_def i_def)
  have "i < 131072" using arm_free_lt [OF i] a(1) by (simp add: arm_pmm_inv_def)
  then have "unat p = 4096 * i" by (simp add: s' unat_word_ariths of_nat_u32)
  moreover have "unat (atotal_pages s') = unat (atotal_pages s)" by (simp add: s' arm_take_def)
  ultimately show "\<exists>i. i \<in> arm_free_set s \<and> unat p = 4096 * i \<and> arm_pmm_inv s' \<and>
      arm_free_set s' = arm_free_set s - {i} \<and> unat (atotal_pages s') = unat (atotal_pages s)"
    using i s'(1) arm_inv_take [OF a(1) i] arm_free_take by blast
next
  fix s :: arm_pmm and p :: u32 and i
  assume a: "arm_pmm_inv s" "unat p = 4096 * i" "0 < i" "i < unat (atotal_pages s)"
    "i \<notin> arm_free_set s"
  then have "arm_pmm_free_page p s = arm_drop i s" by (simp add: arm_pmm_free_page_eq)
  moreover have "atotal_pages (arm_drop i s) = atotal_pages s" by (simp add: arm_drop_def)
  ultimately show "arm_pmm_inv (arm_pmm_free_page p s) \<and>
      arm_free_set (arm_pmm_free_page p s) = insert i (arm_free_set s) \<and>
      unat (atotal_pages (arm_pmm_free_page p s)) = unat (atotal_pages s)"
    using arm_inv_drop [OF a(1,4,5)] arm_free_drop a by simp
qed

section \<open>The pages that boot leaves free\<close>

lemma arm_reserve_one_spec:
  assumes "arm_pmm_inv s" and "i < unat (atotal_pages s)"
  shows "arm_pmm_inv (arm_reserve_one i s) \<and> arm_free_set (arm_reserve_one i s) = arm_free_set s - {i} \<and>
    atotal_pages (arm_reserve_one i s) = atotal_pages s"
proof (cases "arm_page_used s i")
  case True
  then show ?thesis using assms by (auto simp: arm_reserve_one_def arm_free_set_def)
next
  case False
  then have i: "i \<in> arm_free_set s" using assms(2) by (simp add: arm_free_set_def)
  then have "0 < card (arm_free_set s)" by (auto simp: card_gt_0_iff)
  then have "afree_pages s > 0" using assms(1) by (simp add: arm_pmm_inv_def word_less_nat_alt)
  then have eq: "arm_reserve_one i s = (arm_take i s)\<lparr>aallocs := aallocs s\<rparr>"
    using False by (simp add: arm_reserve_one_def arm_take_def Let_def arm_set_bit_def)
  have f: "arm_free_set (arm_reserve_one i s) = arm_free_set (arm_take i s)"
    unfolding eq by (simp add: arm_free_set_def)
  moreover have "arm_pmm_inv (arm_reserve_one i s)"
    using arm_inv_take [OF assms(1) i] f unfolding arm_pmm_inv_def by (simp add: eq)
  moreover have "atotal_pages (arm_reserve_one i s) = atotal_pages s" by (simp add: eq arm_take_def)
  ultimately show ?thesis by (simp add: arm_free_take)
qed

lemma fold_arm_reserve_one:
  assumes "arm_pmm_inv s" and "\<forall>i\<in>set xs. i < unat (atotal_pages s)"
  shows "arm_pmm_inv (fold arm_reserve_one xs s) \<and>
    arm_free_set (fold arm_reserve_one xs s) = arm_free_set s - set xs \<and>
    atotal_pages (fold arm_reserve_one xs s) = atotal_pages s"
  using assms
proof (induction xs arbitrary: s)
  case (Cons i xs)
  from Cons.prems have "i < unat (atotal_pages s)" by simp
  note one = arm_reserve_one_spec [OF Cons.prems(1) this]
  show ?case using Cons.IH [of "arm_reserve_one i s"] one Cons.prems by auto
qed simp

text \<open>The pages that the bytes \<open>[a, a + n)\<close> touch.\<close>

definition pages_of_range :: "u32 \<times> u32 \<Rightarrow> nat set" where
  "pages_of_range r = {i. unat (fst r) < 4096 * (i + 1) \<and> 4096 * i < unat (fst r) + unat (snd r)}"

lemma arm_reserve_range_spec:
  assumes "arm_pmm_inv s" and "unat a mod 4096 = 0" and "unat a + unat n + 4095 < 2 ^ 32"
  shows "arm_pmm_inv (arm_pmm_reserve_range a n s) \<and>
    arm_free_set (arm_pmm_reserve_range a n s) = arm_free_set s - pages_of_range (a, n) \<and>
    atotal_pages (arm_pmm_reserve_range a n s) = atotal_pages s"
proof -
  have m: "a mod 4096 = 0" using assms(2) by (simp add: word_unat_eq_iff unat_mod)
  have mask: "(NOT 4095 :: u32) = 0xFFFFF000" by simp
  define sz where "sz = (n + 4095) AND NOT 4095"
  have "sz = page_up n" unfolding sz_def page_up_def mask by simp
  then have sz: "unat sz = (unat n + 4095) div 4096 * 4096"
    using assms(3) by (simp add: unat_page_up)
  define ep where "ep = (a + sz) div 4096"
  define e where "e = (if ep > atotal_pages s then atotal_pages s else ep)"
  have "unat a + unat sz < 2 ^ 32" using div_times_less_eq_dividend [of "unat n + 4095" 4096] assms(3) unfolding sz by linarith
  then have "unat (a + sz) = unat a + unat sz" by (simp add: unat_word_ariths)
  then have ep: "unat ep = unat a div 4096 + (unat n + 4095) div 4096"
    unfolding ep_def using sz assms(2) by (auto simp: unat_div)
  have e: "unat e = min (unat (atotal_pages s)) (unat ep)"
    by (auto simp: e_def min_def word_less_nat_alt word_le_nat_alt)
  have d: "unat (a div 4096) = unat a div 4096" by (simp add: unat_div)
  have eq: "arm_pmm_reserve_range a n s = fold arm_reserve_one [unat a div 4096 ..< unat e] s"
    unfolding arm_pmm_reserve_range_def Let_def
    by (simp only: m d simp_thms if_False flip: sz_def ep_def e_def)
  have "\<forall>i\<in>set [unat a div 4096 ..< unat e]. i < unat (atotal_pages s)" using e by auto
  note r = fold_arm_reserve_one [OF assms(1) this]
  have "unat a div 4096 \<le> i \<and> i < unat ep \<longleftrightarrow> i \<in> pages_of_range (a, n)" for i
    using assms(2) unfolding ep pages_of_range_def by (auto simp: mod_eq_0_iff_dvd)
  then have "arm_free_set s - set [unat a div 4096 ..< unat e] = arm_free_set s - pages_of_range (a, n)"
    unfolding e using arm_free_lt [of _ s] by fastforce
  then show ?thesis using r unfolding eq by simp
qed

lemma fold_arm_init_free:
  assumes "distinct xs" and "\<forall>i\<in>set xs. i < unat (atotal_pages s) \<and> arm_page_used s i"
    and "unat (afree_pages s) + length xs < 2 ^ 32"
  shows "arm_free_set (fold arm_init_free xs s) = arm_free_set s \<union> set xs \<and>
    unat (afree_pages (fold arm_init_free xs s)) = unat (afree_pages s) + length xs \<and>
    atotal_pages (fold arm_init_free xs s) = atotal_pages s"
  using assms
proof (induction xs arbitrary: s)
  case (Cons i xs)
  let ?s = "arm_init_free i s"
  have t: "atotal_pages ?s = atotal_pages s" by (simp add: arm_init_free_def Let_def)
  have u: "arm_page_used ?s j \<longleftrightarrow> j \<noteq> i \<and> arm_page_used s j" for j
    by (simp add: arm_init_free_def Let_def)
  have f: "arm_free_set ?s = insert i (arm_free_set s)"
    using Cons.prems(2) by (auto simp: arm_free_set_def t u)
  have "afree_pages ?s = afree_pages s + 1" by (simp add: arm_init_free_def Let_def)
  then have c: "unat (afree_pages ?s) = unat (afree_pages s) + 1"
    using Cons.prems(3) by (simp add: unat_suc_u32)
  have "\<forall>j\<in>set xs. j < unat (atotal_pages ?s) \<and> arm_page_used ?s j"
    using Cons.prems(1,2) by (auto simp: t u)
  from Cons.IH [OF _ this] Cons.prems(1,3) show ?case by (simp add: f c t)
qed simp

lemma arm_pmm_setup_spec:
  assumes "afree_pages s = 0"
  shows "arm_pmm_inv (arm_pmm_setup ram s)"
    and "arm_free_set (arm_pmm_setup ram s) = {256 ..< min (unat ram div 4096) 131072}"
    and "unat (atotal_pages (arm_pmm_setup ram s)) = min (unat ram div 4096) 131072"
proof -
  define total where "total = (if ram div 4096 > ARM_PMM_MAX_PAGES then ARM_PMM_MAX_PAGES else ram div 4096)"
  have total: "unat total = min (unat ram div 4096) 131072"
    by (auto simp: total_def word_less_nat_alt word_le_nat_alt unat_div)
  define s0 where "s0 = s\<lparr>atotal_pages := total, abitmap := (\<lambda>i. if i < 16384 then 0xFF else abitmap s i)\<rparr>"
  have eq: "arm_pmm_setup ram s = fold arm_init_free [256 ..< unat total] s0"
    unfolding arm_pmm_setup_def Let_def total_def [symmetric] s0_def [symmetric] by simp
  have ff: "bit (0xFF :: u8) b" if "b < 8" for b
    using that mask_eq_exp_minus_1 [where 'a = u8, of 8] bit_mask_iff [where 'a = u8, of 8 b] by simp
  have used: "arm_page_used s0 i" if "i < 131072" for i
    using that ff [of "i mod 8"] by (simp add: arm_page_used_bit s0_def less_mult_imp_div_less)
  have t0: "atotal_pages s0 = total" "afree_pages s0 = 0" using assms by (simp_all add: s0_def)
  have "\<forall>i\<in>set [256 ..< unat total]. i < unat (atotal_pages s0) \<and> arm_page_used s0 i"
    using total used by (auto simp: t0)
  note r = fold_arm_init_free [OF _ this]
  have e: "arm_free_set s0 = {}" using used total by (auto simp: arm_free_set_def t0)
  have r: "arm_free_set (arm_pmm_setup ram s) = {256 ..< unat total}"
    "unat (afree_pages (arm_pmm_setup ram s)) = unat total - 256"
    "atotal_pages (arm_pmm_setup ram s) = total"
    using r total unfolding eq by (simp_all add: e t0)
  then show "arm_pmm_inv (arm_pmm_setup ram s)" using total by (simp add: arm_pmm_inv_def)
  show "arm_free_set (arm_pmm_setup ram s) = {256 ..< min (unat ram div 4096) 131072}"
    "unat (atotal_pages (arm_pmm_setup ram s)) = min (unat ram div 4096) 131072"
    using r total by simp_all
qed

lemma fold_arm_reserve_range:
  assumes "arm_pmm_inv s" and "\<forall>(a, n)\<in>set rs. unat a mod 4096 = 0 \<and> unat a + unat n + 4095 < 2 ^ 32"
  shows "arm_pmm_inv (fold (\<lambda>(a, n). arm_pmm_reserve_range a n) rs s) \<and>
    arm_free_set (fold (\<lambda>(a, n). arm_pmm_reserve_range a n) rs s) =
      arm_free_set s - \<Union> (pages_of_range ` set rs)"
  using assms
proof (induction rs arbitrary: s)
  case (Cons r rs)
  obtain a n where r: "r = (a, n)" by (cases r)
  have "unat a mod 4096 = 0" "unat a + unat n + 4095 < 2 ^ 32" using Cons.prems(2) r by auto
  note one = arm_reserve_range_spec [OF Cons.prems(1) this]
  show ?case using Cons.IH [of "arm_pmm_reserve_range a n s"] one Cons.prems(2) by (auto simp: r)
qed simp

text \<open>C33. After \<open>arm_pmm_init\<close> and the reservations of the boot code, the free pages are exactly the
  pages of memory above 1 MiB (below the 512 MiB the bitmap covers) that no reserved range touches,
  and the count of free pages is their number.\<close>

theorem arm_boot_free_pages:
  assumes "arm_pmm_init word atags_addr fallback_size arm_pmm_boot = Some (s, word')"
    and "parse_atags word atags_addr fallback_size = Some (ram_size, word')"
    and "\<forall>(a, n)\<in>set rs. unat a mod 4096 = 0 \<and> unat a + unat n + 4095 < 2 ^ 32"
  defines "s' \<equiv> fold (\<lambda>(a, n). arm_pmm_reserve_range a n) rs s"
  shows "arm_free_set s' = {i. 256 \<le> i \<and> i < min (unat ram_size div 4096) 131072 \<and>
           (\<forall>r\<in>set rs. i \<notin> pages_of_range r)} \<and>
         unat (afree_pages s') = card (arm_free_set s') \<and> arm_pmm_inv s'"
proof -
  have s: "s = arm_pmm_setup ram_size arm_pmm_boot" using assms(1,2) by (simp add: arm_pmm_init_def)
  have "afree_pages arm_pmm_boot = 0" by (simp add: arm_pmm_boot_def)
  note b = arm_pmm_setup_spec [OF this, of ram_size, folded s]
  have r: "arm_pmm_inv s'" "arm_free_set s' = arm_free_set s - \<Union> (pages_of_range ` set rs)"
    using fold_arm_reserve_range [OF b(1) assms(3)] by (simp_all add: s'_def)
  then have "unat (afree_pages s') = card (arm_free_set s')" by (simp add: arm_pmm_inv_def)
  then show ?thesis using r b(2) by auto
qed

lemma arm_boot_free_pages_witness:
  "256 \<in> arm_free_set (fold (\<lambda>(a, n). arm_pmm_reserve_range a n) [(0x101000, 0x3FF000)]
     (arm_pmm_setup 0x1000000 arm_pmm_boot))"
proof -
  have "parse_atags (\<lambda>_. 0) 0 0x1000000 = Some (0x1000000, \<lambda>_. 0)" by (simp add: parse_atags_def)
  moreover from this have "arm_pmm_init (\<lambda>_. 0) 0 0x1000000 arm_pmm_boot =
      Some (arm_pmm_setup 0x1000000 arm_pmm_boot, \<lambda>_. 0)" by (simp add: arm_pmm_init_def)
  ultimately show ?thesis
    using arm_boot_free_pages [where word = "\<lambda>_. 0" and atags_addr = 0 and fallback_size = "0x1000000"
      and ram_size = "0x1000000" and rs = "[(0x101000, 0x3FF000)]"] by (simp add: pages_of_range_def)
qed

text \<open>Allocation returns the lowest free page and takes nothing else, or fails when no page is
  free; a page that is returned to the allocator is free again and the counters balance.\<close>

theorem arm_pmm_alloc_page_lowest:
  assumes "arm_pmm_inv s" and "arm_pmm_alloc_page s = (s', p)"
  shows "if arm_free_set s = {} then p = 0 \<and> s' = s
    else unat p = 4096 * Min (arm_free_set s) \<and> arm_pmm_inv s' \<and>
      arm_free_set s' = arm_free_set s - {Min (arm_free_set s)} \<and> aallocs s' = aallocs s + 1 \<and>
      (\<forall>page. arm_page_used s' page \<longleftrightarrow> page = Min (arm_free_set s) \<or> arm_page_used s page) \<and>
      arm_free_set (arm_pmm_free_page p s') = arm_free_set s \<and>
      arm_pmm_inv (arm_pmm_free_page p s') \<and> afrees (arm_pmm_free_page p s') = afrees s + 1"
proof (cases "arm_free_set s = {}")
  case False
  define i where "i = Min (arm_free_set s)"
  have i: "i \<in> arm_free_set s" using False by (simp add: i_def)
  have s': "s' = arm_take i s" "p = of_nat i * 4096"
    using False assms arm_pmm_alloc_page_eq [OF assms(1)] by (simp_all add: Let_def i_def)
  have lt: "i < unat (atotal_pages s)" "i < 131072"
    using arm_free_lt [OF i] assms(1) by (simp_all add: arm_pmm_inv_def)
  then have p: "unat p = 4096 * i" by (simp add: s' unat_word_ariths of_nat_u32)
  have "i \<noteq> 0" using i assms(1) by (metis arm_pmm_inv_def)
  then have "p \<noteq> 0" using p by auto
  note rel = arm_pages.alloc_release [OF assms this]
  have "i \<notin> arm_free_set s'" "i < unat (atotal_pages s')"
    using lt by (simp_all add: s' arm_free_take) (simp add: arm_take_def)
  then have "arm_pmm_free_page p s' = arm_drop i s'" using p by (simp add: arm_pmm_free_page_eq)
  then have "afrees (arm_pmm_free_page p s') = afrees s + 1"
    by (simp add: arm_drop_def s' arm_take_def)
  moreover have "aallocs s' = aallocs s + 1" "arm_page_used s' page \<longleftrightarrow> page = i \<or> arm_page_used s page" for page
    by (simp_all add: s' arm_take_def)
  ultimately show ?thesis
    using rel p arm_inv_take [OF assms(1) i] arm_free_take [of i s] False
    by (simp add: s' i_def [symmetric])
qed (use assms arm_pmm_alloc_page_eq [OF assms(1)] in simp)

definition arm_pmm_demo :: arm_pmm where
  "arm_pmm_demo = \<lparr>abitmap = (\<lambda>i. if i = 1 then 0xF7 else 0xFF), atotal_pages = 16,
     afree_pages = 1, aallocs = 0, afrees = 0\<rparr>"

lemma arm_free_set_demo: "arm_free_set arm_pmm_demo = {11}"
proof -
  have "arm_free_set arm_pmm_demo = {i \<in> set [0..<16]. \<not> arm_page_used arm_pmm_demo i}"
    by (auto simp: arm_free_set_def arm_pmm_demo_def)
  also have "\<dots> = set (filter (\<lambda>i. \<not> arm_page_used arm_pmm_demo i) [0..<16])" by simp
  also have "filter (\<lambda>i. \<not> arm_page_used arm_pmm_demo i) [0..<16] = [11]" by code_simp
  finally show ?thesis by simp
qed

lemma arm_pmm_demo_inv: "arm_pmm_inv arm_pmm_demo"
  unfolding arm_pmm_inv_def arm_free_set_demo by (simp add: arm_pmm_demo_def)

lemma arm_pmm_alloc_page_lowest_witness:
  "snd (arm_pmm_alloc_page arm_pmm_demo) = 0xB000 \<and>
   arm_free_set (fst (arm_pmm_alloc_page arm_pmm_demo)) = {}"
  using arm_pmm_alloc_page_lowest [OF arm_pmm_demo_inv, of "fst (arm_pmm_alloc_page arm_pmm_demo)"
      "snd (arm_pmm_alloc_page arm_pmm_demo)"]
  by (simp add: arm_free_set_demo word_unat_eq_iff)

text \<open>
  \<open>arm_pmm_free_page\<close> takes page 0 like any other. The next allocation then hands it out, and its
  address is the failure value: the caller sees \<open>out of memory\<close> and the page is lost.
\<close>

lemma arm_free_page_zero:
  "arm_pmm_alloc_page (arm_pmm_free_page 0 (arm_pmm_demo\<lparr>afree_pages := 0, abitmap := (\<lambda>_. 0xFF)\<rparr>)) =
    (s, p) \<Longrightarrow> p = 0 \<and> aallocs s = 1 \<and> afree_pages s = 0"
proof -
  let ?r = "arm_pmm_alloc_page (arm_pmm_free_page 0 (arm_pmm_demo\<lparr>afree_pages := 0, abitmap := (\<lambda>_. 0xFF)\<rparr>))"
  have "snd ?r = 0 \<and> aallocs (fst ?r) = 1 \<and> afree_pages (fst ?r) = 0" by code_simp
  then show "?r = (s, p) \<Longrightarrow> p = 0 \<and> aallocs s = 1 \<and> afree_pages s = 0" by simp
qed

end
