(* ===== verification/Arm_Vmm.thy ===== *)
theory Arm_Vmm
  imports Arm_Pmm
begin

text \<open>
  The virtual memory manager of the ARM port, \<open>arch/arm/arm_vmm.c\<close>, which implements the contract of
  \<open>include/hal/hal_mmu.h\<close>: first-level tables of 4096 words from a static pool of eight, second-level
  tables of 256 words on pages of the page allocator. Memory is a function from the address of an
  aligned word to its value; a table is named by the address of its first entry in the kernel's
  direct map, as in C. \<open>ttbr0\<close> is the translation table register; the TLB is not modelled, and the
  messages on the serial line are left out. The functions that only report \<open>stub\<close> have no model.
\<close>

unbundle bit_operations_syntax

section \<open>Constants\<close>

abbreviation (input) HAL_PAGE_PRESENT :: u32 where "HAL_PAGE_PRESENT \<equiv> 1"
abbreviation (input) HAL_PAGE_WRITE :: u32 where "HAL_PAGE_WRITE \<equiv> 2"
abbreviation (input) HAL_PAGE_USER :: u32 where "HAL_PAGE_USER \<equiv> 4"
abbreviation (input) HAL_PAGE_EXEC :: u32 where "HAL_PAGE_EXEC \<equiv> 8"
abbreviation (input) HAL_PAGE_NOCACHE :: u32 where "HAL_PAGE_NOCACHE \<equiv> 16"
abbreviation (input) HAL_PAGE_GLOBAL :: u32 where "HAL_PAGE_GLOBAL \<equiv> 64"
abbreviation (input) HAL_PAGE_USER_DATA :: u32 where "HAL_PAGE_USER_DATA \<equiv> 7"

abbreviation (input) ARM_VMM_MAX_SPACES :: nat where "ARM_VMM_MAX_SPACES \<equiv> 8"
abbreviation (input) ARM_TTBR0_ENTRIES :: nat where "ARM_TTBR0_ENTRIES \<equiv> 4096"
abbreviation (input) ARM_L1_TYPE_FAULT :: u32 where "ARM_L1_TYPE_FAULT \<equiv> 0"
abbreviation (input) ARM_L1_TYPE_COARSE :: u32 where "ARM_L1_TYPE_COARSE \<equiv> 1"
abbreviation (input) ARM_L2_TYPE_FAULT :: u32 where "ARM_L2_TYPE_FAULT \<equiv> 0"
abbreviation (input) ARM_L2_TYPE_SMALL_PAGE :: u32 where "ARM_L2_TYPE_SMALL_PAGE \<equiv> 2"
abbreviation (input) ARM_L2_SMALL_XN :: u32 where "ARM_L2_SMALL_XN \<equiv> 1"
abbreviation (input) ARM_L2_SMALL_B :: u32 where "ARM_L2_SMALL_B \<equiv> 4"
abbreviation (input) ARM_L2_SMALL_C :: u32 where "ARM_L2_SMALL_C \<equiv> 8"
abbreviation (input) ARM_L2_SMALL_NG :: u32 where "ARM_L2_SMALL_NG \<equiv> 0x800"
abbreviation (input) ARM_AP_KERNEL_RW :: u32 where "ARM_AP_KERNEL_RW \<equiv> 1"
abbreviation (input) ARM_AP_KERNEL_RW_USER_RO :: u32 where "ARM_AP_KERNEL_RW_USER_RO \<equiv> 2"
abbreviation (input) ARM_AP_KERNEL_RW_USER_RW :: u32 where "ARM_AP_KERNEL_RW_USER_RW \<equiv> 3"
abbreviation (input) ARM_DOMAIN_KERNEL :: u32 where "ARM_DOMAIN_KERNEL \<equiv> 0"
abbreviation (input) ARM_DOMAIN_USER :: u32 where "ARM_DOMAIN_USER \<equiv> 1"

definition ARM_L2_SMALL_AP :: "u32 \<Rightarrow> u32" where "ARM_L2_SMALL_AP ap = push_bit 4 (ap AND 3)"
definition ARM_L2_SMALL_TEX :: "u32 \<Rightarrow> u32" where "ARM_L2_SMALL_TEX t = push_bit 6 (t AND 7)"
definition ARM_L1_SECTION_DOMAIN :: "u32 \<Rightarrow> u32" where
  "ARM_L1_SECTION_DOMAIN d = push_bit 5 (d AND 15)"

section \<open>State\<close>

record arm_vmm =
  vpmm :: arm_pmm
  vmem :: "u32 \<Rightarrow> u32"
  vmm_l1_pool :: u32
  vmm_l1_used :: "nat \<Rightarrow> u8"
  vmm_boot_ttbr0_phys :: u32
  ttbr0 :: u32

definition table_read :: "arm_vmm \<Rightarrow> u32 \<Rightarrow> nat \<Rightarrow> u32" where
  "table_read s t i = vmem s (t + 4 * of_nat i)"

definition table_write :: "u32 \<Rightarrow> nat \<Rightarrow> u32 \<Rightarrow> arm_vmm \<Rightarrow> arm_vmm" where
  "table_write t i v s = s\<lparr>vmem := (vmem s)(t + 4 * of_nat i := v)\<rparr>"

text \<open>The address of \<open>vmm_l1_pool[slot].entries\<close>.\<close>

definition l1_table :: "arm_vmm \<Rightarrow> nat \<Rightarrow> u32" where
  "l1_table s slot = vmm_l1_pool s + 16384 * of_nat slot"

section \<open>Descriptors\<close>

definition hal_mmu_check_wx :: "u32 \<Rightarrow> bool" where
  "hal_mmu_check_wx flags = (\<not> (flags AND HAL_PAGE_WRITE \<noteq> 0 \<and> flags AND HAL_PAGE_EXEC \<noteq> 0))"

definition hal_flags_to_l2 :: "u32 \<Rightarrow> u32" where
  "hal_flags_to_l2 flags =
     (let desc = ARM_L2_TYPE_SMALL_PAGE;
          desc = (if flags AND HAL_PAGE_NOCACHE \<noteq> 0 then desc OR ARM_L2_SMALL_B
                  else desc OR (ARM_L2_SMALL_TEX 1 OR ARM_L2_SMALL_C OR ARM_L2_SMALL_B));
          desc = (if flags AND HAL_PAGE_USER \<noteq> 0
                  then if flags AND HAL_PAGE_WRITE \<noteq> 0
                       then desc OR ARM_L2_SMALL_AP ARM_AP_KERNEL_RW_USER_RW
                       else desc OR ARM_L2_SMALL_AP ARM_AP_KERNEL_RW_USER_RO
                  else desc OR ARM_L2_SMALL_AP ARM_AP_KERNEL_RW);
          desc = (if flags AND HAL_PAGE_EXEC = 0 then desc OR ARM_L2_SMALL_XN else desc)
      in if flags AND HAL_PAGE_GLOBAL = 0 then desc OR ARM_L2_SMALL_NG else desc)"

definition l1_type :: "u32 \<Rightarrow> u32" where "l1_type entry = entry AND 3"
definition l2_phys_from_l1 :: "u32 \<Rightarrow> u32" where "l2_phys_from_l1 l1_entry = l1_entry AND 0xFFFFFC00"
definition l2_index :: "u32 \<Rightarrow> nat" where "l2_index va = unat (drop_bit 12 va AND 0xFF)"

section \<open>Address spaces\<close>

definition arm_vmm_init :: "arm_vmm \<Rightarrow> arm_vmm" where
  "arm_vmm_init s = s\<lparr>vmm_boot_ttbr0_phys := ttbr0 s AND 0xFFFFC000,
     vmm_l1_used := (\<lambda>i. if i < ARM_VMM_MAX_SPACES then 0 else vmm_l1_used s i)\<rparr>"

definition arm_vmm_teardown_identity :: "arm_vmm \<Rightarrow> arm_vmm" where
  "arm_vmm_teardown_identity s =
     fold (\<lambda>i. table_write (PHYS_TO_VIRT (vmm_boot_ttbr0_phys s)) i ARM_L1_TYPE_FAULT) [0..<512] s"

definition copy_entry :: "u32 \<Rightarrow> u32 \<Rightarrow> nat \<Rightarrow> arm_vmm \<Rightarrow> arm_vmm" where
  "copy_entry l1 boot_l1 i s = table_write l1 i (table_read s boot_l1 i) s"

definition hal_mmu_create_space :: "arm_vmm \<Rightarrow> arm_vmm \<times> u32" where
  "hal_mmu_create_space s =
     (case find (\<lambda>i. vmm_l1_used s i = 0) [0..<ARM_VMM_MAX_SPACES] of
        None \<Rightarrow> (s, 0)
      | Some slot \<Rightarrow>
          let s = s\<lparr>vmm_l1_used := (vmm_l1_used s)(slot := 1)\<rparr>;
              l1 = l1_table s slot;
              s = fold (\<lambda>i. table_write l1 i ARM_L1_TYPE_FAULT) [0..<ARM_TTBR0_ENTRIES] s;
              boot_l1 = PHYS_TO_VIRT (vmm_boot_ttbr0_phys s);
              s = fold (copy_entry l1 boot_l1) [3072..<4096] s
          in (s, l1))"

definition free_l2 :: "u32 \<Rightarrow> nat \<Rightarrow> arm_vmm \<Rightarrow> arm_vmm" where
  "free_l2 space i s =
     (if l1_type (table_read s space i) = ARM_L1_TYPE_COARSE
      then s\<lparr>vpmm := arm_pmm_free_page (l2_phys_from_l1 (table_read s space i)) (vpmm s)\<rparr>
      else s)"

definition hal_mmu_destroy_space :: "u32 \<Rightarrow> arm_vmm \<Rightarrow> arm_vmm" where
  "hal_mmu_destroy_space space s =
     (if space = 0 then s
      else case find (\<lambda>i. l1_table s i = space) [0..<ARM_VMM_MAX_SPACES] of
             None \<Rightarrow> s
           | Some slot \<Rightarrow>
               let s = fold (free_l2 space) [0..<3072] s
               in s\<lparr>vmm_l1_used := (vmm_l1_used s)(slot := 0)\<rparr>)"

definition hal_mmu_switch_space :: "u32 \<Rightarrow> arm_vmm \<Rightarrow> arm_vmm" where
  "hal_mmu_switch_space phys_space s = s\<lparr>ttbr0 := phys_space\<rparr>"

section \<open>Mapping\<close>

definition ensure_l2 :: "u32 \<Rightarrow> nat \<Rightarrow> u32 \<Rightarrow> arm_vmm \<Rightarrow> (arm_vmm \<times> bool)" where
  "ensure_l2 space l1_idx flags s =
     (if l1_type (table_read s space l1_idx) = ARM_L1_TYPE_FAULT
      then let (pm, l2_pa) = arm_pmm_alloc_page (vpmm s);
               s = s\<lparr>vpmm := pm\<rparr>
           in if l2_pa = 0 then (s, False)
              else let s = fold (\<lambda>i. table_write (PHYS_TO_VIRT l2_pa) i ARM_L2_TYPE_FAULT) [0..<256] s;
                       domain = (if flags AND HAL_PAGE_USER \<noteq> 0 then ARM_DOMAIN_USER
                                 else ARM_DOMAIN_KERNEL)
                   in (table_write space l1_idx ((l2_pa AND 0xFFFFFC00) OR
                         ARM_L1_SECTION_DOMAIN domain OR ARM_L1_TYPE_COARSE) s, True)
      else (s, True))"

definition hal_mmu_map_page_in_space :: "u32 \<Rightarrow> u32 \<Rightarrow> u32 \<Rightarrow> u32 \<Rightarrow> arm_vmm \<Rightarrow> arm_vmm \<times> int" where
  "hal_mmu_map_page_in_space space virt phys flags s =
     (if space = 0 then (s, -1)
      else if virt AND 0xFFF \<noteq> 0 then (s, -1)
      else if phys AND 0xFFF \<noteq> 0 then (s, -1)
      else if \<not> hal_mmu_check_wx flags then (s, -1)
      else let l1_idx = unat (drop_bit 20 virt)
           in if l1_idx \<ge> 3072 then (s, -1)
              else case ensure_l2 space l1_idx flags s of
                     (s, False) \<Rightarrow> (s, -1)
                   | (s, True) \<Rightarrow>
                       if l1_type (table_read s space l1_idx) \<noteq> ARM_L1_TYPE_COARSE then (s, -1)
                       else let l2_pa = l2_phys_from_l1 (table_read s space l1_idx)
                            in (table_write (PHYS_TO_VIRT l2_pa) (l2_index virt)
                                  ((phys AND 0xFFFFF000) OR hal_flags_to_l2 flags) s, 0))"

definition hal_mmu_map_page :: "u32 \<Rightarrow> u32 \<Rightarrow> u32 \<Rightarrow> arm_vmm \<Rightarrow> arm_vmm" where
  "hal_mmu_map_page virt phys flags s =
     fst (hal_mmu_map_page_in_space (PHYS_TO_VIRT (ttbr0 s AND 0xFFFFC000)) virt phys flags s)"

definition hal_mmu_unmap_page_in_space :: "u32 \<Rightarrow> u32 \<Rightarrow> arm_vmm \<Rightarrow> arm_vmm" where
  "hal_mmu_unmap_page_in_space space virt s =
     (if space = 0 then s
      else let l1_idx = unat (drop_bit 20 virt)
           in if l1_idx \<ge> 3072 then s
              else if l1_type (table_read s space l1_idx) \<noteq> ARM_L1_TYPE_COARSE then s
              else let l2_pa = l2_phys_from_l1 (table_read s space l1_idx)
                   in table_write (PHYS_TO_VIRT l2_pa) (l2_index virt) ARM_L2_TYPE_FAULT s)"

definition hal_mmu_unmap_page :: "u32 \<Rightarrow> arm_vmm \<Rightarrow> arm_vmm" where
  "hal_mmu_unmap_page virt s =
     hal_mmu_unmap_page_in_space (PHYS_TO_VIRT (ttbr0 s AND 0xFFFFC000)) virt s"

section \<open>Fault information\<close>

record hal_fault_info =
  fault_addr :: u32
  fault_type :: u32
  is_write :: int
  is_exec :: int
  is_user :: int
  is_present :: int

abbreviation (input) HAL_FAULT_READ :: u32 where "HAL_FAULT_READ \<equiv> 0"
abbreviation (input) HAL_FAULT_WRITE :: u32 where "HAL_FAULT_WRITE \<equiv> 1"

text \<open>\<open>far\<close> is what the fault address register reads.\<close>

definition hal_mmu_get_fault_info :: "u32 \<Rightarrow> u32 \<Rightarrow> hal_fault_info" where
  "hal_mmu_get_fault_info far code =
     (let w = uint (drop_bit 11 code AND 1);
          fs = (code AND 0xF) OR push_bit 4 (drop_bit 10 code AND 1)
      in \<lparr>fault_addr = far, fault_type = (if w \<noteq> 0 then HAL_FAULT_WRITE else HAL_FAULT_READ),
          is_write = w, is_exec = 0, is_user = 0,
          is_present = (if fs = 0x05 \<or> fs = 0x07 then 0
                        else if fs = 0x0D \<or> fs = 0x0F then 1 else 0)\<rparr>)"

section \<open>Where the tables lie\<close>

text \<open>
  The pool of first-level tables takes the 32 pages from \<open>pool_page\<close> on, the boot table the four
  from \<open>boot_page\<close> on; a second-level table lies at the start of a page of its own.
\<close>

definition pool_page :: "arm_vmm \<Rightarrow> nat" where
  "pool_page s = (unat (vmm_l1_pool s) - 3221225472) div 4096"

definition boot_page :: "arm_vmm \<Rightarrow> nat" where
  "boot_page s = unat (vmm_boot_ttbr0_phys s) div 4096"

definition pool_pages :: "arm_vmm \<Rightarrow> nat set" where
  "pool_pages s = {pool_page s ..< pool_page s + 32}"

definition boot_pages :: "arm_vmm \<Rightarrow> nat set" where
  "boot_pages s = {boot_page s ..< boot_page s + 4}"

definition arm_geometry :: "arm_vmm \<Rightarrow> bool" where
  "arm_geometry s \<longleftrightarrow> unat (vmm_l1_pool s) = 3221225472 + 4096 * pool_page s \<and> 0 < pool_page s \<and>
     pool_page s + 32 \<le> 131072 \<and> unat (vmm_boot_ttbr0_phys s) = 4096 * boot_page s \<and>
     boot_page s + 4 \<le> 131072 \<and> pool_pages s \<inter> boot_pages s = {}"

definition slot_entry :: "arm_vmm \<Rightarrow> nat \<Rightarrow> nat \<Rightarrow> u32" where
  "slot_entry s slot i = table_read s (l1_table s slot) i"

definition boot_entry :: "arm_vmm \<Rightarrow> nat \<Rightarrow> u32" where
  "boot_entry s i = table_read s (PHYS_TO_VIRT (vmm_boot_ttbr0_phys s)) i"

definition l2_table :: "nat \<Rightarrow> u32" where
  "l2_table j = PHYS_TO_VIRT (of_nat (4096 * j))"

definition l2_entry :: "arm_vmm \<Rightarrow> nat \<Rightarrow> nat \<Rightarrow> u32" where
  "l2_entry s j k = table_read s (l2_table j) k"

lemma table_write_simps [simp]:
  "vpmm (table_write t i v s) = vpmm s" "vmm_l1_pool (table_write t i v s) = vmm_l1_pool s"
  "vmm_l1_used (table_write t i v s) = vmm_l1_used s"
  "vmm_boot_ttbr0_phys (table_write t i v s) = vmm_boot_ttbr0_phys s"
  "ttbr0 (table_write t i v s) = ttbr0 s"
  "l1_table (table_write t i v s) = l1_table s" "pool_page (table_write t i v s) = pool_page s"
  "boot_page (table_write t i v s) = boot_page s" "pool_pages (table_write t i v s) = pool_pages s"
  "boot_pages (table_write t i v s) = boot_pages s"
  "arm_geometry (table_write t i v s) = arm_geometry s"
  by (simp_all add: table_write_def l1_table_def pool_page_def boot_page_def pool_pages_def
      boot_pages_def arm_geometry_def fun_eq_iff)

lemma table_read_write: "table_read (table_write t i v s) t' i' =
    (if t' + 4 * of_nat i' = t + 4 * of_nat i then v else table_read s t' i')"
  by (simp add: table_read_def table_write_def)

lemma table_address:
  assumes "unat t = 3221225472 + 4096 * k" and "k \<le> 131072" and "i < 4096"
  shows "unat (t + 4 * of_nat i :: u32) = 3221225472 + 4096 * k + 4 * i"
proof -
  have "unat (of_nat i :: u32) = i" using assms(3) by (simp add: of_nat_u32)
  then have "unat (4 * of_nat i :: u32) = 4 * i" using assms(3) by (simp add: unat_word_ariths)
  then show ?thesis using assms by (simp add: unat_word_ariths)
qed

lemma index_pair_eq:
  fixes a b i i' m :: nat
  assumes "i < m" "i' < m"
  shows "m * a + i = m * b + i' \<longleftrightarrow> a = b \<and> i = i'"
proof
  assume e: "m * a + i = m * b + i'"
  have "(m * a + i) div m = a" "(m * b + i') div m = b" using assms by simp_all
  then show "a = b \<and> i = i'" using e by auto
qed auto

lemma table_address_eq:
  assumes "unat t = 3221225472 + 4096 * k" "k \<le> 131072" "i < 4096"
    and "unat t' = 3221225472 + 4096 * k'" "k' \<le> 131072" "i' < 4096"
  shows "t + 4 * of_nat i = (t' + 4 * of_nat i' :: u32) \<longleftrightarrow> 1024 * k + i = 1024 * k' + i'"
proof -
  have "4096 * k + 4 * i = 4 * (1024 * k + i)" "4096 * k' + 4 * i' = 4 * (1024 * k' + i')" by simp_all
  then have "4096 * k + 4 * i = 4096 * k' + 4 * i' \<longleftrightarrow> 1024 * k + i = 1024 * k' + i'" by linarith
  then show ?thesis
    using table_address [OF assms(1-3)] table_address [OF assms(4-6)] by (simp add: word_unat_eq_iff)
qed

lemma unat_phys_to_virt: "unat p < 2 ^ 29 \<Longrightarrow> unat (PHYS_TO_VIRT p) = 3221225472 + unat p"
  by (simp add: PHYS_TO_VIRT_def unat_word_ariths)

lemma unat_l2_table: "j < 131072 \<Longrightarrow> unat (l2_table j) = 3221225472 + 4096 * j"
proof -
  assume j: "j < 131072"
  then have "4096 * j < 2 ^ 32" by simp
  then have "unat (of_nat (4096 * j) :: u32) = 4096 * j" by (rule of_nat_u32)
  then show ?thesis using j unat_phys_to_virt [of "of_nat (4096 * j)"] by (simp add: l2_table_def)
qed

lemma unat_l1_table:
  assumes "arm_geometry s" and "slot < 8"
  shows "unat (l1_table s slot) = 3221225472 + 4096 * (pool_page s + 4 * slot)"
proof -
  have "unat (of_nat slot :: u32) = slot" using assms(2) by (simp add: of_nat_u32)
  then have "unat (16384 * of_nat slot :: u32) = 16384 * slot" using assms(2) by (simp add: unat_word_ariths)
  then show ?thesis using assms by (simp add: l1_table_def arm_geometry_def unat_word_ariths)
qed

lemma unat_boot_table:
  "arm_geometry s \<Longrightarrow> unat (PHYS_TO_VIRT (vmm_boot_ttbr0_phys s)) = 3221225472 + 4096 * boot_page s"
  using unat_phys_to_virt [of "vmm_boot_ttbr0_phys s"] by (simp add: arm_geometry_def)

text \<open>A write to one table is seen in that entry of that table only.\<close>

lemma slot_entry_write_slot:
  assumes "arm_geometry s" "slot < 8" "slot' < 8" "i < 4096" "i' < 4096"
  shows "slot_entry (table_write (l1_table s slot) i v s) slot' i' =
    (if slot' = slot \<and> i' = i then v else slot_entry s slot' i')"
proof -
  have k: "pool_page s + 4 * slot \<le> 131072" "pool_page s + 4 * slot' \<le> 131072"
    using assms(1-3) by (auto simp: arm_geometry_def)
  have "1024 * (pool_page s + 4 * slot') + i' = 1024 * (pool_page s + 4 * slot) + i \<longleftrightarrow>
      slot' = slot \<and> i' = i" using index_pair_eq [of i' 4096 i slot' slot] assms(4,5) by simp
  then show ?thesis
    using table_address_eq [OF unat_l1_table [OF assms(1,3)] k(2) assms(5) unat_l1_table [OF assms(1,2)] k(1) assms(4)]
    by (simp add: slot_entry_def table_read_write)
qed

lemma l2_entry_write_slot:
  assumes "arm_geometry s" "slot < 8" "i < 4096" "j < 131072" "j \<notin> pool_pages s" "k < 1024"
  shows "l2_entry (table_write (l1_table s slot) i v s) j k = l2_entry s j k"
proof -
  have b: "pool_page s + 4 * slot \<le> 131072" "j \<le> 131072" "k < 4096"
    using assms by (auto simp: arm_geometry_def)
  have "j < pool_page s \<or> pool_page s + 32 \<le> j" using assms(5) by (auto simp: pool_pages_def)
  then have "1024 * j + k \<noteq> 1024 * (pool_page s + 4 * slot) + i" using assms(2,3,6) by auto
  then show ?thesis
    using table_address_eq [OF unat_l2_table [OF assms(4)] b(2,3) unat_l1_table [OF assms(1,2)] b(1) assms(3)]
    by (simp add: l2_entry_def table_read_write)
qed

lemma boot_entry_write_slot:
  assumes "arm_geometry s" "slot < 8" "i < 4096" "i' < 4096"
  shows "boot_entry (table_write (l1_table s slot) i v s) i' = boot_entry s i'"
proof -
  have b: "pool_page s + 4 * slot \<le> 131072" "boot_page s \<le> 131072"
    using assms by (auto simp: arm_geometry_def)
  have d: "pool_pages s \<inter> boot_pages s = {}" using assms(1) by (simp add: arm_geometry_def)
  have "boot_page s + 4 \<le> pool_page s \<or> pool_page s + 32 \<le> boot_page s"
  proof (rule ccontr)
    assume "\<not> ?thesis"
    then have "max (boot_page s) (pool_page s) \<in> pool_pages s \<inter> boot_pages s"
      by (auto simp: pool_pages_def boot_pages_def max_def)
    then show False using d by simp
  qed
  then have "1024 * boot_page s + i' \<noteq> 1024 * (pool_page s + 4 * slot) + i" using assms(2-4) by auto
  then show ?thesis
    using table_address_eq [OF unat_boot_table [OF assms(1)] b(2) assms(4) unat_l1_table [OF assms(1,2)] b(1) assms(3)]
    by (simp add: boot_entry_def table_read_write)
qed

lemma l2_entry_write_l2:
  assumes "j < 131072" "j' < 131072" "k < 1024" "k' < 1024"
  shows "l2_entry (table_write (l2_table j) k v s) j' k' =
    (if j' = j \<and> k' = k then v else l2_entry s j' k')"
proof -
  have "1024 * j' + k' = 1024 * j + k \<longleftrightarrow> j' = j \<and> k' = k"
    using index_pair_eq [of k' 1024 k j' j] assms(3,4) by simp
  then show ?thesis
    using table_address_eq [OF unat_l2_table [OF assms(2)] _ _ unat_l2_table [OF assms(1)], of k' k] assms
    by (simp add: l2_entry_def table_read_write)
qed

lemma slot_entry_write_l2:
  assumes "arm_geometry s" "slot < 8" "i < 4096" "j < 131072" "j \<notin> pool_pages s" "k < 1024"
  shows "slot_entry (table_write (l2_table j) k v s) slot i = slot_entry s slot i"
proof -
  have b: "pool_page s + 4 * slot \<le> 131072" "j \<le> 131072" "k < 4096"
    using assms by (auto simp: arm_geometry_def)
  have "j < pool_page s \<or> pool_page s + 32 \<le> j" using assms(5) by (auto simp: pool_pages_def)
  then have "1024 * j + k \<noteq> 1024 * (pool_page s + 4 * slot) + i" using assms(2,3,6) by auto
  then show ?thesis
    using table_address_eq [OF unat_l2_table [OF assms(4)] b(2,3) unat_l1_table [OF assms(1,2)] b(1) assms(3)]
    by (auto simp: slot_entry_def table_read_write)
qed

lemma boot_entry_write_l2:
  assumes "arm_geometry s" "i < 4096" "j < 131072" "j \<notin> boot_pages s" "k < 1024"
  shows "boot_entry (table_write (l2_table j) k v s) i = boot_entry s i"
proof -
  have b: "boot_page s \<le> 131072" "j \<le> 131072" "k < 4096"
    using assms by (auto simp: arm_geometry_def)
  have "j < boot_page s \<or> boot_page s + 4 \<le> j" using assms(4) by (auto simp: boot_pages_def)
  then have "1024 * j + k \<noteq> 1024 * boot_page s + i" using assms(2,5) by auto
  then show ?thesis
    using table_address_eq [OF unat_l2_table [OF assms(3)] b(2,3) unat_boot_table [OF assms(1)] b(1) assms(2)]
    by (auto simp: boot_entry_def table_read_write)
qed

section \<open>The invariant of the address spaces\<close>

definition live_slot :: "arm_vmm \<Rightarrow> nat \<Rightarrow> bool" where
  "live_slot s slot \<longleftrightarrow> slot < 8 \<and> vmm_l1_used s slot \<noteq> 0"

definition has_l2 :: "arm_vmm \<Rightarrow> nat \<Rightarrow> nat \<Rightarrow> bool" where
  "has_l2 s slot i \<longleftrightarrow> l1_type (slot_entry s slot i) = ARM_L1_TYPE_COARSE"

definition l2_page :: "arm_vmm \<Rightarrow> nat \<Rightarrow> nat \<Rightarrow> nat" where
  "l2_page s slot i = unat (l2_phys_from_l1 (slot_entry s slot i)) div 4096"

definition arm_limit :: "arm_vmm \<Rightarrow> nat" where
  "arm_limit s = unat (atotal_pages (vpmm s))"

text \<open>A page that may hold a second-level table: in use, and neither of the pool nor of the boot table.\<close>

definition l2_home :: "arm_vmm \<Rightarrow> nat \<Rightarrow> bool" where
  "l2_home s j \<longleftrightarrow> 0 < j \<and> j < arm_limit s \<and> j \<notin> arm_free_set (vpmm s) \<and> j \<notin> pool_pages s \<and>
     j \<notin> boot_pages s"

definition user_entry_ok :: "arm_vmm \<Rightarrow> nat \<Rightarrow> nat \<Rightarrow> bool" where
  "user_entry_ok s slot i \<longleftrightarrow>
     l1_type (slot_entry s slot i) = ARM_L1_TYPE_FAULT \<or>
     has_l2 s slot i \<and> unat (l2_phys_from_l1 (slot_entry s slot i)) = 4096 * l2_page s slot i \<and>
     l2_home s (l2_page s slot i)"

definition arm_vmm_inv :: "arm_vmm \<Rightarrow> bool" where
  "arm_vmm_inv s \<longleftrightarrow> arm_geometry s \<and> arm_pmm_inv (vpmm s) \<and>
     pool_pages s \<inter> arm_free_set (vpmm s) = {} \<and> boot_pages s \<inter> arm_free_set (vpmm s) = {} \<and>
     (\<forall>slot i. live_slot s slot \<longrightarrow> i < 3072 \<longrightarrow> user_entry_ok s slot i) \<and>
     (\<forall>slot i. live_slot s slot \<longrightarrow> 3072 \<le> i \<longrightarrow> i < 4096 \<longrightarrow> slot_entry s slot i = boot_entry s i) \<and>
     (\<forall>slot slot' i i'. live_slot s slot \<longrightarrow> live_slot s slot' \<longrightarrow> i < 3072 \<longrightarrow> i' < 3072 \<longrightarrow>
        has_l2 s slot i \<longrightarrow> has_l2 s slot' i' \<longrightarrow> l2_page s slot i = l2_page s slot' i' \<longrightarrow>
        slot = slot' \<and> i = i')"

text \<open>
  What the hardware finds for a user address: the descriptor of its page, if one is mapped. The rights of
  the access are not those of the descriptor alone, see \<open>arm_unchecked\<close>.
\<close>

definition arm_walk :: "arm_vmm \<Rightarrow> u32 \<Rightarrow> u32 \<Rightarrow> u32 option" where
  "arm_walk s space va =
     (let e = table_read s space (unat (drop_bit 20 va))
      in if l1_type e = ARM_L1_TYPE_COARSE
         then let d = table_read s (PHYS_TO_VIRT (l2_phys_from_l1 e)) (l2_index va)
              in if d AND 3 = 0 then None else Some d
         else None)"

text \<open>
  \<open>arm_boot.S\<close> sets the domain access control register to 7: domain 0 is Manager, for which the hardware does
  not check the rights of the descriptor, domain 1 is Client, for which it does. The domain is in bits 5 to 8
  of the first-level entry.
\<close>

definition arm_unchecked :: "u32 \<Rightarrow> bool" where
  "arm_unchecked e \<longleftrightarrow> drop_bit (2 * unat (drop_bit 5 e AND 15)) (7 :: u32) AND 3 = 3"

text \<open>A descriptor whose own rights let user code write and do not forbid execution.\<close>

definition user_write_exec :: "u32 \<Rightarrow> bool" where
  "user_write_exec d \<longleftrightarrow> d AND 0x30 = 0x30 \<and> d AND ARM_L2_SMALL_XN = 0"

text \<open>User code can write and execute at the address: it is mapped, and its rights allow it or are not checked.\<close>

definition user_can_write_exec :: "arm_vmm \<Rightarrow> u32 \<Rightarrow> u32 \<Rightarrow> bool" where
  "user_can_write_exec s space va \<longleftrightarrow>
     (case arm_walk s space va of None \<Rightarrow> False
      | Some d \<Rightarrow> arm_unchecked (table_read s space (unat (drop_bit 20 va))) \<or> user_write_exec d)"

lemma arm_walk_eq:
  assumes "user_entry_ok s slot (unat (drop_bit 20 va))"
  shows "arm_walk s (l1_table s slot) va =
    (if has_l2 s slot (unat (drop_bit 20 va))
     then let d = l2_entry s (l2_page s slot (unat (drop_bit 20 va))) (l2_index va)
          in if d AND 3 = 0 then None else Some d
     else None)"
proof (cases "has_l2 s slot (unat (drop_bit 20 va))")
  case True
  let ?e = "slot_entry s slot (unat (drop_bit 20 va))"
  have "unat (l2_phys_from_l1 ?e) = 4096 * l2_page s slot (unat (drop_bit 20 va))"
    using assms True by (auto simp: user_entry_ok_def has_l2_def)
  moreover have "l2_phys_from_l1 ?e = of_nat (unat (l2_phys_from_l1 ?e))" by simp
  ultimately have "l2_phys_from_l1 ?e = of_nat (4096 * l2_page s slot (unat (drop_bit 20 va)))"
    by (simp only:)
  then show ?thesis using True
    by (simp add: arm_walk_def slot_entry_def has_l2_def l2_entry_def l2_table_def Let_def)
qed (simp add: arm_walk_def slot_entry_def has_l2_def)

lemma l2_index_lt [simp]: "l2_index va < 256"
proof -
  have "(0xFF :: u32) = mask 8" by (simp add: mask_eq_exp_minus_1)
  then have "l2_index va = unat (drop_bit 12 va) mod 256"
    by (simp only: l2_index_def flip: take_bit_eq_mask) (simp add: take_bit_eq_mod unat_mod)
  then show ?thesis by simp
qed

lemma same_page_iff:
  "unat (drop_bit 20 va :: u32) = unat (drop_bit 20 vb :: u32) \<and> l2_index va = l2_index vb \<longleftrightarrow>
   unat va div 4096 = unat vb div 4096"
proof -
  have "(0xFF :: u32) = mask 8" by (simp add: mask_eq_exp_minus_1)
  then have l2: "l2_index v = unat v div 4096 mod 256" for v
    by (simp only: l2_index_def flip: take_bit_eq_mask)
      (simp add: take_bit_eq_mod unat_mod drop_bit_eq_div unat_div)
  have l1: "unat (drop_bit 20 v :: u32) = unat v div 4096 div 256" for v :: u32
    by (simp add: drop_bit_eq_div unat_div div_mult2_eq [symmetric])
  show ?thesis unfolding l1 l2 by (metis div_mult_mod_eq)
qed

lemma user_index: "va < 0xC0000000 \<longleftrightarrow> unat (drop_bit 20 va :: u32) < 3072"
  by (simp add: word_less_nat_alt drop_bit_eq_div unat_div) linarith

lemma wx_bits:
  assumes "hal_mmu_check_wx flags"
  shows "hal_flags_to_l2 flags AND 3 \<noteq> 0"
    and "hal_flags_to_l2 flags AND 0x30 = 0x30 \<Longrightarrow> hal_flags_to_l2 flags AND 1 \<noteq> 0"
    and "hal_flags_to_l2 flags AND 0xFFFFF000 = 0"
  using assms
  by (auto simp: hal_flags_to_l2_def hal_mmu_check_wx_def Let_def ARM_L2_SMALL_AP_def
      ARM_L2_SMALL_TEX_def split: if_splits)

lemma l1_coarse_fields:
  assumes "d = 0 \<or> d = 1" and "j < 131072"
  defines "e \<equiv> (of_nat (4096 * j) AND 0xFFFFFC00) OR ARM_L1_SECTION_DOMAIN d OR ARM_L1_TYPE_COARSE"
  shows "l1_type e = ARM_L1_TYPE_COARSE" and "unat (l2_phys_from_l1 e) = 4096 * j"
    and "arm_unchecked e \<longleftrightarrow> d = 0"
proof -
  have p: "(of_nat (4096 * j) :: u32) = push_bit 12 (of_nat j)" by (simp add: push_bit_eq_mult)
  have m: "(0xFFFFFC00 :: u32) = NOT (mask 10)" "(3 :: u32) = mask 2" by (simp_all add: mask_eq_exp_minus_1)
  have d: "ARM_L1_SECTION_DOMAIN d OR 1 = 1 \<or> ARM_L1_SECTION_DOMAIN d OR 1 = 33"
    using assms(1) by (auto simp: ARM_L1_SECTION_DOMAIN_def)
  have low: "(x :: u32) AND NOT (mask 10) = 0" if "x = 1 \<or> x = 33" for x
    using that by (auto simp: mask_eq_exp_minus_1)
  have q: "push_bit 12 (x :: u32) AND NOT (mask 10) = push_bit 12 x" "push_bit 12 x AND mask 2 = 0" for x
    by (rule bit_word_eqI; auto simp: bit_simps)+
  have e: "e = push_bit 12 (of_nat j) OR (ARM_L1_SECTION_DOMAIN d OR 1)"
    unfolding e_def p m q by (simp only: or.assoc)
  have "(ARM_L1_SECTION_DOMAIN d OR 1) AND mask 2 = 1"
    using d by (auto simp: mask_eq_exp_minus_1)
  then show "l1_type e = ARM_L1_TYPE_COARSE"
    unfolding l1_type_def e m by (simp only: bit.conj_disj_distrib2 q) simp
  have "l2_phys_from_l1 e = push_bit 12 (of_nat j)"
    unfolding l2_phys_from_l1_def e m using low [OF d]
    by (simp only: bit.conj_disj_distrib2 q) simp
  moreover have "4096 * j < 2 ^ 32" using assms(2) by simp
  ultimately show "unat (l2_phys_from_l1 e) = 4096 * j" by (metis p of_nat_u32)
  have high: "drop_bit 5 (push_bit 12 (x :: u32)) AND 15 = 0" for x
  proof -
    have "drop_bit 5 (push_bit 12 x) AND mask 4 = 0" by (rule bit_word_eqI) (auto simp: bit_simps)
    then show ?thesis by (simp add: mask_eq_exp_minus_1)
  qed
  have "drop_bit 5 e AND 15 = drop_bit 5 (ARM_L1_SECTION_DOMAIN d OR 1) AND 15"
    unfolding e drop_bit_or bit.conj_disj_distrib2 high by simp
  also have "\<dots> = d" using assms(1) by (auto simp: ARM_L1_SECTION_DOMAIN_def)
  finally show "arm_unchecked e \<longleftrightarrow> d = 0" using assms(1) by (auto simp: arm_unchecked_def)
qed

section \<open>A second-level table for an entry\<close>

lemma vpmm_update_simps [simp]:
  "l1_table (s\<lparr>vpmm := x\<rparr>) = l1_table s" "pool_page (s\<lparr>vpmm := x\<rparr>) = pool_page s"
  "boot_page (s\<lparr>vpmm := x\<rparr>) = boot_page s" "pool_pages (s\<lparr>vpmm := x\<rparr>) = pool_pages s"
  "boot_pages (s\<lparr>vpmm := x\<rparr>) = boot_pages s" "arm_geometry (s\<lparr>vpmm := x\<rparr>) = arm_geometry s"
  "slot_entry (s\<lparr>vpmm := x\<rparr>) = slot_entry s" "boot_entry (s\<lparr>vpmm := x\<rparr>) = boot_entry s"
  "l2_entry (s\<lparr>vpmm := x\<rparr>) = l2_entry s" "live_slot (s\<lparr>vpmm := x\<rparr>) = live_slot s"
  by (simp_all add: l1_table_def pool_page_def boot_page_def pool_pages_def boot_pages_def
      arm_geometry_def slot_entry_def boot_entry_def l2_entry_def table_read_def live_slot_def fun_eq_iff)

lemma live_slot_write [simp]: "live_slot (table_write t i v s) = live_slot s"
  by (simp add: live_slot_def fun_eq_iff)

lemma fold_table_write_simps [simp]:
  "vpmm (fold (\<lambda>i. table_write t i (f i)) xs s) = vpmm s"
  "vmm_l1_used (fold (\<lambda>i. table_write t i (f i)) xs s) = vmm_l1_used s"
  "vmm_l1_pool (fold (\<lambda>i. table_write t i (f i)) xs s) = vmm_l1_pool s"
  "vmm_boot_ttbr0_phys (fold (\<lambda>i. table_write t i (f i)) xs s) = vmm_boot_ttbr0_phys s"
  "ttbr0 (fold (\<lambda>i. table_write t i (f i)) xs s) = ttbr0 s"
  "l1_table (fold (\<lambda>i. table_write t i (f i)) xs s) = l1_table s"
  "pool_pages (fold (\<lambda>i. table_write t i (f i)) xs s) = pool_pages s"
  "boot_pages (fold (\<lambda>i. table_write t i (f i)) xs s) = boot_pages s"
  "live_slot (fold (\<lambda>i. table_write t i (f i)) xs s) = live_slot s"
  "arm_geometry (fold (\<lambda>i. table_write t i (f i)) xs s) = arm_geometry s"
  by (induction xs arbitrary: s) simp_all

lemma zero_l2_spec:
  assumes "j < 131072" "j \<notin> pool_pages s" "j \<notin> boot_pages s" "arm_geometry s" "n \<le> 1024"
  defines "s' \<equiv> fold (\<lambda>i. table_write (l2_table j) i 0) [0..<n] s"
  shows "j' < 131072 \<Longrightarrow> k < 1024 \<Longrightarrow>
           l2_entry s' j' k = (if j' = j \<and> k < n then 0 else l2_entry s j' k)"
    and "slot < 8 \<Longrightarrow> i < 4096 \<Longrightarrow> slot_entry s' slot i = slot_entry s slot i"
    and "i < 4096 \<Longrightarrow> boot_entry s' i = boot_entry s i"
  using assms(5) unfolding s'_def
proof (induction n)
  case (Suc n)
  { case 1 then show ?case using Suc assms(1) by (auto simp: l2_entry_write_l2 less_Suc_eq) }
  { case 2 then show ?case using Suc assms(1-4) by (simp add: slot_entry_write_l2) }
  { case 3 then show ?case using Suc assms(1-4) by (simp add: boot_entry_write_l2) }
qed simp_all

lemma arm_inv_entry:
  assumes "arm_vmm_inv s" and "live_slot s slot" and "i < 3072"
  shows "user_entry_ok s slot i"
  using assms by (simp add: arm_vmm_inv_def)

lemma arm_inv_home:
  assumes "arm_vmm_inv s" and "live_slot s slot" and "i < 3072" and "has_l2 s slot i"
  shows "l2_home s (l2_page s slot i)"
    and "unat (l2_phys_from_l1 (slot_entry s slot i)) = 4096 * l2_page s slot i"
  using arm_inv_entry [OF assms(1-3)] assms(4) by (auto simp: user_entry_ok_def has_l2_def)

lemma arm_limit_bound: "arm_vmm_inv s \<Longrightarrow> l2_home s j \<Longrightarrow> j < 131072"
  using arm_pages.limit_bound [of "vpmm s"] by (simp add: arm_vmm_inv_def l2_home_def arm_limit_def)

lemma arm_inv_injective:
  assumes "arm_vmm_inv s" and "live_slot s slot" "live_slot s slot'" and "i < 3072" "i' < 3072"
    and "has_l2 s slot i" "has_l2 s slot' i'" and "l2_page s slot i = l2_page s slot' i'"
  shows "slot = slot'" and "i = i'"
  using assms unfolding arm_vmm_inv_def by blast+

text \<open>What an entry of the first level says depends on that entry alone.\<close>

lemma slot_entry_cong:
  assumes "slot_entry s' slot i = slot_entry s slot i"
  shows "has_l2 s' slot i = has_l2 s slot i" and "l2_page s' slot i = l2_page s slot i"
  using assms by (simp_all add: has_l2_def l2_page_def)

lemma new_l2_entry:
  assumes inv: "arm_vmm_inv s" and slot: "live_slot s slot" and i: "i < 3072"
    and fault: "l1_type (slot_entry s slot i) = ARM_L1_TYPE_FAULT"
    and pm: "arm_pmm_inv pm" "arm_free_set pm = arm_free_set (vpmm s) - {j}" "j \<in> arm_free_set (vpmm s)"
      "unat (atotal_pages pm) = arm_limit s" "0 < j" "j < arm_limit s"
    and s': "vpmm s' = pm" "pool_pages s' = pool_pages s" "boot_pages s' = boot_pages s"
      "arm_geometry s' = arm_geometry s" "live_slot s' = live_slot s"
    and e: "l1_type e = ARM_L1_TYPE_COARSE" "unat (l2_phys_from_l1 e) = 4096 * j"
    and se: "\<And>slot' i'. slot' < 8 \<Longrightarrow> i' < 4096 \<Longrightarrow>
      slot_entry s' slot' i' = (if slot' = slot \<and> i' = i then e else slot_entry s slot' i')"
    and be: "\<And>i'. i' < 4096 \<Longrightarrow> boot_entry s' i' = boot_entry s i'"
  shows "arm_vmm_inv s'" and "has_l2 s' slot i" and "l2_page s' slot i = j"
proof -
  have sl: "slot < 8" using slot by (simp add: live_slot_def)
  have new: "slot_entry s' slot i = e" using se [of slot i] sl i by simp
  show h: "has_l2 s' slot i" "l2_page s' slot i = j" using e new by (simp_all add: has_l2_def l2_page_def)
  have nj: "j \<notin> pool_pages s" "j \<notin> boot_pages s"
    using inv pm(3) by (auto simp: arm_vmm_inv_def)
  have lim: "arm_limit s' = arm_limit s" using pm(4) by (simp add: arm_limit_def s')
  have home: "l2_home s' x \<longleftrightarrow> l2_home s x \<or> x = j" for x
    using pm(2,3,5,6) nj lim by (auto simp: l2_home_def s')
  have old: "has_l2 s' slot' i' = has_l2 s slot' i' \<and> l2_page s' slot' i' = l2_page s slot' i' \<and>
      slot_entry s' slot' i' = slot_entry s slot' i'"
    if "slot' < 8" "i' < 4096" "\<not> (slot' = slot \<and> i' = i)" for slot' i'
    using se [OF that(1,2)] that(3) slot_entry_cong [of s' slot' i' s] by auto
  have ok: "user_entry_ok s' slot' i'" if "live_slot s' slot'" "i' < 3072" for slot' i'
  proof (cases "slot' = slot \<and> i' = i")
    case True
    then show ?thesis using h new e(2) home by (simp add: user_entry_ok_def)
  next
    case False
    have "slot' < 8" using that(1) by (simp add: live_slot_def)
    then show ?thesis
      using old [of slot' i'] False that arm_inv_entry [OF inv, of slot' i'] home
      by (auto simp: user_entry_ok_def s')
  qed
  have fresh: "l2_page s slot' i' \<noteq> j" if "live_slot s slot'" "i' < 3072" "has_l2 s slot' i'" for slot' i'
    using arm_inv_home(1) [OF inv that] pm(3) by (auto simp: l2_home_def)
  have inj: "a = b \<and> x = y"
    if l: "live_slot s' a" "live_slot s' b" "x < 3072" "y < 3072"
      and hh: "has_l2 s' a x" "has_l2 s' b y" "l2_page s' a x = l2_page s' b y" for a b x y
  proof -
    have ab: "a < 8" "b < 8" "live_slot s a" "live_slot s b" using l(1,2) by (auto simp: live_slot_def s')
    have oa: "\<not> (a = slot \<and> x = i) \<Longrightarrow> has_l2 s a x \<and> l2_page s' a x = l2_page s a x \<and> l2_page s a x \<noteq> j"
      using old [of a x] ab l(3) hh(1) fresh [of a x] by auto
    have ob: "\<not> (b = slot \<and> y = i) \<Longrightarrow> has_l2 s b y \<and> l2_page s' b y = l2_page s b y \<and> l2_page s b y \<noteq> j"
      using old [of b y] ab l(4) hh(2) fresh [of b y] by auto
    show ?thesis
      using oa ob hh(3) h(2) arm_inv_injective [OF inv ab(3,4) l(3,4)] by (metis (no_types))
  qed
  have kern: "slot_entry s' slot' i' = boot_entry s' i'"
    if "live_slot s' slot'" "3072 \<le> i'" "i' < 4096" for slot' i'
    using that i inv old [of slot' i'] be [of i'] by (auto simp: arm_vmm_inv_def live_slot_def s')
  show "arm_vmm_inv s'"
    using inv pm(1,2) ok inj kern unfolding arm_vmm_inv_def s' by blast
qed

lemma ensure_l2_spec:
  assumes inv: "arm_vmm_inv s" and slot: "live_slot s slot" and i: "i < 3072"
    and run: "ensure_l2 (l1_table s slot) i flags s = (s', ok)"
  shows "ok \<longleftrightarrow> has_l2 s slot i \<or> arm_free_set (vpmm s) \<noteq> {}"
    and "\<not> ok \<Longrightarrow> s' = s"
    and "ok \<Longrightarrow> arm_vmm_inv s' \<and> has_l2 s' slot i \<and> l1_table s' = l1_table s \<and>
           vmm_l1_used s' = vmm_l1_used s \<and> (\<forall>i<4096. boot_entry s' i = boot_entry s i)"
    and "ok \<Longrightarrow> live_slot s slot' \<Longrightarrow> va < 0xC0000000 \<Longrightarrow>
           arm_walk s' (l1_table s slot') va = arm_walk s (l1_table s slot') va"
    and "ok \<Longrightarrow> a < 8 \<Longrightarrow> x < 4096 \<Longrightarrow> \<not> (a = slot \<and> x = i) \<Longrightarrow> slot_entry s' a x = slot_entry s a x"
    and "ok \<Longrightarrow> arm_unchecked (slot_entry s' slot i) \<longleftrightarrow>
           (if has_l2 s slot i then arm_unchecked (slot_entry s slot i) else flags AND HAL_PAGE_USER = 0)"
proof -
  have "(ok \<longleftrightarrow> has_l2 s slot i \<or> arm_free_set (vpmm s) \<noteq> {}) \<and> (\<not> ok \<longrightarrow> s' = s) \<and>
    (ok \<longrightarrow> arm_vmm_inv s' \<and> has_l2 s' slot i \<and> l1_table s' = l1_table s \<and>
           vmm_l1_used s' = vmm_l1_used s \<and> (\<forall>i<4096. boot_entry s' i = boot_entry s i) \<and>
     (\<forall>slot' va. live_slot s slot' \<longrightarrow> va < 0xC0000000 \<longrightarrow>
           arm_walk s' (l1_table s slot') va = arm_walk s (l1_table s slot') va) \<and>
     (\<forall>a x. a < 8 \<longrightarrow> x < 4096 \<longrightarrow> \<not> (a = slot \<and> x = i) \<longrightarrow> slot_entry s' a x = slot_entry s a x) \<and>
     (arm_unchecked (slot_entry s' slot i) \<longleftrightarrow>
        (if has_l2 s slot i then arm_unchecked (slot_entry s slot i) else flags AND HAL_PAGE_USER = 0)))"
  proof (cases "has_l2 s slot i")
    case True
    then have "s' = s" "ok" using run by (auto simp: ensure_l2_def has_l2_def slot_entry_def)
    then show ?thesis using inv True by simp
  next
    case False
    then have fault: "l1_type (slot_entry s slot i) = ARM_L1_TYPE_FAULT"
      using arm_inv_entry [OF inv slot i] by (simp add: user_entry_ok_def)
    have pinv: "arm_pmm_inv (vpmm s)" and geo: "arm_geometry s" using inv by (simp_all add: arm_vmm_inv_def)
    obtain pm p where al: "arm_pmm_alloc_page (vpmm s) = (pm, p)" by fastforce
    show ?thesis
    proof (cases "p = 0")
      case True
      then have "arm_free_set (vpmm s) = {}" "pm = vpmm s" using arm_pages.alloc_fail [OF pinv al] by auto
      moreover have "s' = s\<lparr>vpmm := pm\<rparr>" "\<not> ok"
        using run fault al True by (auto simp: ensure_l2_def slot_entry_def)
      ultimately show ?thesis using False by simp
    next
      case p: False
      obtain j where j: "unat p = 4096 * j" "j \<in> arm_free_set (vpmm s)" "0 < j"
        "j < unat (atotal_pages (vpmm s))" "arm_pmm_inv pm" "arm_free_set pm = arm_free_set (vpmm s) - {j}"
        "unat (atotal_pages pm) = unat (atotal_pages (vpmm s))"
        using arm_pages.alloc_page [OF pinv al p] .
      have jb: "j < 131072" using j(4) arm_pages.limit_bound [OF pinv] by simp
      have nj: "j \<notin> pool_pages s" "j \<notin> boot_pages s" using inv j(2) by (auto simp: arm_vmm_inv_def)
      have "p = of_nat (unat p)" by simp
      then have pj: "p = of_nat (4096 * j)" by (simp only: j(1))
      then have lt: "PHYS_TO_VIRT p = l2_table j" by (simp add: l2_table_def)
      define d where "d = (if flags AND HAL_PAGE_USER \<noteq> 0 then ARM_DOMAIN_USER else ARM_DOMAIN_KERNEL)"
      define e where "e = (p AND 0xFFFFFC00) OR ARM_L1_SECTION_DOMAIN d OR ARM_L1_TYPE_COARSE"
      have d: "d = 0 \<or> d = 1" by (simp add: d_def)
      have e: "l1_type e = ARM_L1_TYPE_COARSE" "unat (l2_phys_from_l1 e) = 4096 * j"
        and ed: "arm_unchecked e \<longleftrightarrow> d = 0"
        using l1_coarse_fields [OF d jb] by (simp_all only: e_def pj)
      define z where "z = fold (\<lambda>i. table_write (l2_table j) i 0) [0..<256] (s\<lparr>vpmm := pm\<rparr>)"
      have s': "s' = table_write (l1_table s slot) i e z" "ok"
        using run fault al p by (auto simp: ensure_l2_def slot_entry_def Let_def z_def e_def d_def lt)
      have zs [simp]: "vpmm z = pm" "l1_table z = l1_table s" "pool_pages z = pool_pages s"
        "boot_pages z = boot_pages s" "live_slot z = live_slot s" "arm_geometry z = arm_geometry s"
        "vmm_l1_used z = vmm_l1_used s" by (simp_all add: z_def)
      have ze: "j' < 131072 \<Longrightarrow> k < 1024 \<Longrightarrow> l2_entry z j' k = (if j' = j \<and> k < 256 then 0 else l2_entry s j' k)"
        "a < 8 \<Longrightarrow> x < 4096 \<Longrightarrow> slot_entry z a x = slot_entry s a x"
        "x < 4096 \<Longrightarrow> boot_entry z x = boot_entry s x" for j' k a x
        using zero_l2_spec [of j "s\<lparr>vpmm := pm\<rparr>" 256] jb nj geo by (simp_all add: z_def)
      have gz: "arm_geometry z" using geo by simp
      have sl: "slot < 8" using slot by (simp add: live_slot_def)
      have lz: "l1_table s slot = l1_table z slot" by simp
      have se: "slot_entry s' a x = (if a = slot \<and> x = i then e else slot_entry s a x)"
        if "a < 8" "x < 4096" for a x
        using slot_entry_write_slot [OF gz sl that(1) _ that(2), of i e] i ze(2) [OF that] by (simp add: s')
      have be: "boot_entry s' x = boot_entry s x" if "x < 4096" for x
        using boot_entry_write_slot [OF gz sl _ that, of i e] i ze(3) [OF that] by (simp add: s')
      have le: "l2_entry s' j' k = (if j' = j \<and> k < 256 then 0 else l2_entry s j' k)"
        if "j' < 131072" "j' \<notin> pool_pages s" "k < 1024" for j' k
        using l2_entry_write_slot [OF gz sl _ that(1) _ that(3), of i e] that i ze(1) [OF that(1,3)]
        by (simp add: s')
      have lim: "unat (atotal_pages pm) = arm_limit s" "j < arm_limit s" using j by (simp_all add: arm_limit_def)
      have s3: "vpmm s' = pm" "pool_pages s' = pool_pages s" "boot_pages s' = boot_pages s"
        "arm_geometry s' = arm_geometry s" "live_slot s' = live_slot s" "l1_table s' = l1_table s"
        "vmm_l1_used s' = vmm_l1_used s"
        by (simp_all add: s')
      note new = new_l2_entry [OF inv slot i fault j(5,6,2) lim(1) j(3) lim(2) s3(1-5) e se be]
      have walk: "arm_walk s' (l1_table s a) va = arm_walk s (l1_table s a) va"
        if a: "live_slot s a" and va: "va < 0xC0000000" for a va
      proof -
        let ?x = "unat (drop_bit 20 va)"
        have x: "?x < 3072" using va user_index by blast
        have a8: "a < 8" using a by (simp add: live_slot_def)
        have a': "live_slot s' a" using a by (simp add: s3)
        have w': "arm_walk s' (l1_table s a) va = (if has_l2 s' a ?x then
            let d = l2_entry s' (l2_page s' a ?x) (l2_index va) in if d AND 3 = 0 then None else Some d else None)"
          using arm_walk_eq [OF arm_inv_entry [OF new(1) a' x]] by (simp add: s3)
        note w = arm_walk_eq [OF arm_inv_entry [OF inv a x]]
        have "l2_index va < 256" by simp
        then have k: "l2_index va < 1024" by linarith
        show ?thesis
        proof (cases "a = slot \<and> ?x = i")
          case True
          have "l2_entry s' j (l2_index va) = 0" using le [OF jb nj(1) k] by simp
          then show ?thesis using w w' True new(2,3) False by (simp add: Let_def)
        next
          case False
          have "?x < 4096" using x by linarith
          from se [OF a8 this] False have eq: "slot_entry s' a ?x = slot_entry s a ?x" by auto
          show ?thesis
          proof (cases "has_l2 s a ?x")
            case True
            note home = arm_inv_home(1) [OF inv a x True]
            then have "l2_page s a ?x \<noteq> j" "l2_page s a ?x \<notin> pool_pages s" using j(2) by (auto simp: l2_home_def)
            then have "l2_entry s' (l2_page s a ?x) (l2_index va) = l2_entry s (l2_page s a ?x) (l2_index va)"
              using le [OF arm_limit_bound [OF inv home] _ k] by simp
            then show ?thesis using w w' slot_entry_cong [OF eq] by simp
          qed (use w w' slot_entry_cong [OF eq] in simp)
        qed
      qed
      have "i < 4096" using i by simp
      from se [OF sl this] have "arm_unchecked (slot_entry s' slot i) \<longleftrightarrow> flags AND HAL_PAGE_USER = 0"
        using ed by (simp add: d_def)
      moreover have "\<forall>a x. a < 8 \<longrightarrow> x < 4096 \<longrightarrow> \<not> (a = slot \<and> x = i) \<longrightarrow> slot_entry s' a x = slot_entry s a x"
        using se by auto
      ultimately show ?thesis using False new(1,2) walk be s'(2) j(2) s3(6,7) by auto
    qed
  qed
  then show "ok \<longleftrightarrow> has_l2 s slot i \<or> arm_free_set (vpmm s) \<noteq> {}"
    and "\<not> ok \<Longrightarrow> s' = s"
    and "ok \<Longrightarrow> arm_vmm_inv s' \<and> has_l2 s' slot i \<and> l1_table s' = l1_table s \<and>
           vmm_l1_used s' = vmm_l1_used s \<and> (\<forall>i<4096. boot_entry s' i = boot_entry s i)"
    and "ok \<Longrightarrow> live_slot s slot' \<Longrightarrow> va < 0xC0000000 \<Longrightarrow>
           arm_walk s' (l1_table s slot') va = arm_walk s (l1_table s slot') va"
    and "ok \<Longrightarrow> a < 8 \<Longrightarrow> x < 4096 \<Longrightarrow> \<not> (a = slot \<and> x = i) \<Longrightarrow> slot_entry s' a x = slot_entry s a x"
    and "ok \<Longrightarrow> arm_unchecked (slot_entry s' slot i) \<longleftrightarrow>
           (if has_l2 s slot i then arm_unchecked (slot_entry s slot i) else flags AND HAL_PAGE_USER = 0)"
    by blast+
qed

section \<open>Mapping and unmapping change one translation\<close>

lemma arm_vmm_inv_cong:
  assumes "arm_vmm_inv s" and "vpmm s' = vpmm s" "pool_pages s' = pool_pages s"
    and "boot_pages s' = boot_pages s" "arm_geometry s' = arm_geometry s" "live_slot s' = live_slot s"
    and se: "\<And>slot i. slot < 8 \<Longrightarrow> i < 4096 \<Longrightarrow> slot_entry s' slot i = slot_entry s slot i"
    and be: "\<And>i. i < 4096 \<Longrightarrow> boot_entry s' i = boot_entry s i"
  shows "arm_vmm_inv s'"
proof -
  have home: "l2_home s' = l2_home s" using assms(2-4) by (simp add: l2_home_def arm_limit_def fun_eq_iff)
  have eq: "slot_entry s' a x = slot_entry s a x" "has_l2 s' a x = has_l2 s a x"
    "l2_page s' a x = l2_page s a x" if "live_slot s a" "x < 4096" for a x
    using se [of a x] that slot_entry_cong [of s' a x s] by (auto simp: live_slot_def)
  have ok: "user_entry_ok s' a x" if "live_slot s' a" "x < 3072" for a x
    using arm_inv_entry [OF assms(1), of a x] that eq [of a x] by (simp add: user_entry_ok_def home assms(6))
  have kern: "slot_entry s' a x = boot_entry s' x" if "live_slot s' a" "3072 \<le> x" "x < 4096" for a x
    using that assms(1) eq [of a x] be [of x] by (simp add: arm_vmm_inv_def assms(6))
  have inj: "a = b \<and> x = y" if "live_slot s' a" "live_slot s' b" "x < 3072" "y < 3072"
    "has_l2 s' a x" "has_l2 s' b y" "l2_page s' a x = l2_page s' b y" for a b x y
    using that eq [of a x] eq [of b y] arm_inv_injective [OF assms(1), of a b x y] by (simp add: assms(6))
  show ?thesis using assms(1) ok kern inj unfolding arm_vmm_inv_def assms(2-5) by blast
qed

lemma l2_write_spec:
  fixes v :: u32
  assumes inv: "arm_vmm_inv s" and slot: "live_slot s slot" and i: "i < 3072"
    and l2: "has_l2 s slot i" and k: "k < 256"
  defines "s' \<equiv> table_write (l2_table (l2_page s slot i)) k v s"
  shows "arm_vmm_inv s'"
    and "x < 4096 \<Longrightarrow> boot_entry s' x = boot_entry s x"
    and "live_slot s a \<Longrightarrow> va < 0xC0000000 \<Longrightarrow> arm_walk s' (l1_table s a) va =
      (if a = slot \<and> unat (drop_bit 20 va) = i \<and> l2_index va = k
       then (if v AND 3 = 0 then None else Some v) else arm_walk s (l1_table s a) va)"
    and "live_slot s a \<Longrightarrow> x < 4096 \<Longrightarrow> slot_entry s' a x = slot_entry s a x"
proof -
  let ?j = "l2_page s slot i"
  note home = arm_inv_home(1) [OF inv slot i l2]
  have j: "?j < 131072" "?j \<notin> pool_pages s" "?j \<notin> boot_pages s"
    using arm_limit_bound [OF inv home] home by (simp_all add: l2_home_def)
  have geo: "arm_geometry s" using inv by (simp add: arm_vmm_inv_def)
  have k4: "k < 1024" using k by simp
  have se: "slot_entry s' a x = slot_entry s a x" if "a < 8" "x < 4096" for a x
    using slot_entry_write_l2 [OF geo that j(1,2) k4] by (simp add: s'_def)
  have be: "boot_entry s' x = boot_entry s x" if "x < 4096" for x
    using boot_entry_write_l2 [OF geo that j(1,3) k4] by (simp add: s'_def)
  show inv': "arm_vmm_inv s'" by (rule arm_vmm_inv_cong [OF inv _ _ _ _ _ se be]) (simp_all add: s'_def)
  show "boot_entry s' x = boot_entry s x" if "x < 4096" using be that .
  show "slot_entry s' a x = slot_entry s a x" if "live_slot s a" "x < 4096"
    using se that by (simp add: live_slot_def)
  assume a: "live_slot s a" and va: "va < 0xC0000000"
  let ?x = "unat (drop_bit 20 va)"
  have x: "?x < 3072" using va user_index by blast
  then have x4: "?x < 4096" by linarith
  have a8: "a < 8" using a by (simp add: live_slot_def)
  have s'l: "live_slot s' a" "l1_table s' = l1_table s" using a by (simp_all add: s'_def)
  note w = arm_walk_eq [OF arm_inv_entry [OF inv a x]]
  note w' = arm_walk_eq [OF arm_inv_entry [OF inv' s'l(1) x], unfolded s'l(2) slot_entry_cong [OF se [OF a8 x4]]]
  have ki: "l2_index va < 1024" using l2_index_lt [of va] by linarith
  show "arm_walk s' (l1_table s a) va =
      (if a = slot \<and> ?x = i \<and> l2_index va = k
       then (if v AND 3 = 0 then None else Some v) else arm_walk s (l1_table s a) va)"
  proof (cases "has_l2 s a ?x")
    case True
    note h = arm_inv_home(1) [OF inv a x True]
    have "l2_entry s' (l2_page s a ?x) (l2_index va) =
        (if l2_page s a ?x = ?j \<and> l2_index va = k then v else l2_entry s (l2_page s a ?x) (l2_index va))"
      unfolding s'_def by (rule l2_entry_write_l2 [OF j(1) arm_limit_bound [OF inv h] k4 ki])
    moreover have "l2_page s a ?x = ?j \<longleftrightarrow> a = slot \<and> ?x = i"
      using arm_inv_injective [OF inv a slot x i True l2] by auto
    ultimately show ?thesis using w w' True by (auto simp: Let_def)
  next
    case False
    then have "\<not> (a = slot \<and> ?x = i)" using l2 by auto
    then show ?thesis using w w' False by auto
  qed
qed

lemma page_aligned_mask: "(p :: u32) AND 0xFFF = 0 \<Longrightarrow> p AND 0xFFFFF000 = p"
proof -
  assume a: "p AND 0xFFF = 0"
  have m: "(0xFFF :: u32) = mask 12" "(0xFFFFF000 :: u32) = NOT (mask 12)" by (simp_all add: mask_eq_exp_minus_1)
  show ?thesis
  proof (rule bit_word_eqI)
    fix n assume "n < LENGTH(32)"
    have "\<not> bit (p AND mask 12) n" using a by (simp only: m) simp
    then show "bit (p AND 0xFFFFF000) n = bit p n"
      using \<open>n < LENGTH(32)\<close> unfolding m by (auto simp: bit_simps)
  qed
qed

lemma new_descriptor:
  assumes "phys AND 0xFFF = 0" and "hal_mmu_check_wx flags"
  defines "d \<equiv> (phys AND 0xFFFFF000) OR hal_flags_to_l2 flags"
  shows "d AND 3 \<noteq> 0" and "d AND 0xFFFFF000 = phys" and "\<not> user_write_exec d"
    and "d = phys OR hal_flags_to_l2 flags"
proof -
  note wx = wx_bits [OF assms(2)]
  have p: "phys AND 0xFFFFF000 = phys" by (rule page_aligned_mask [OF assms(1)])
  have low: "phys AND m = 0" if "0xFFF AND m = m" for m
  proof -
    have "phys AND m = phys AND (0xFFF AND m)" using that by simp
    also have "\<dots> = (phys AND 0xFFF) AND m" by (simp only: and.assoc)
    finally show ?thesis by (simp only: assms(1)) simp
  qed
  have l: "d AND m = hal_flags_to_l2 flags AND m" if "0xFFF AND m = m" for m
    unfolding d_def p using low [OF that] by (simp add: bit.conj_disj_distrib2)
  show "d AND 3 \<noteq> 0" using l [where m = 3] wx(1) by simp
  show "\<not> user_write_exec d" using l [where m = "0x30"] l [where m = 1] wx(2) by (simp add: user_write_exec_def)
  show "d AND 0xFFFFF000 = phys" unfolding d_def p using wx(3) p by (simp add: bit.conj_disj_distrib2)
  show "d = phys OR hal_flags_to_l2 flags" unfolding d_def p ..
qed

lemma l1_table_nonzero: "arm_geometry s \<Longrightarrow> slot < 8 \<Longrightarrow> l1_table s slot \<noteq> 0"
  using unat_l1_table [of s slot] by (auto simp: word_unat_eq_iff)

text \<open>The rights of the pages after a mapping, from the entries of the first-level table.\<close>

lemma map_rights:
  fixes virt :: u32
  defines "i \<equiv> unat (drop_bit 20 virt)"
  assumes "arm_walk s' (l1_table s a) va =
      (if a = slot \<and> unat va div 4096 = unat virt div 4096 then Some d else arm_walk s (l1_table s a) va)"
    and "\<not> user_write_exec d"
    and "table_read s' (l1_table s a) (unat (drop_bit 20 va)) = slot_entry s1 a (unat (drop_bit 20 va))"
    and "\<not> (a = slot \<and> unat (drop_bit 20 va) = i) \<Longrightarrow>
      slot_entry s1 a (unat (drop_bit 20 va)) = slot_entry s a (unat (drop_bit 20 va))"
    and "has_l2 s slot i \<Longrightarrow> slot_entry s1 slot i = slot_entry s slot i"
    and "arm_unchecked (slot_entry s1 slot i) \<longleftrightarrow>
      (if has_l2 s slot i then arm_unchecked (slot_entry s slot i) else flags AND HAL_PAGE_USER = 0)"
  shows "user_can_write_exec s' (l1_table s a) va =
    (if a = slot \<and> unat va div 4096 = unat virt div 4096
     then (if has_l2 s slot i then arm_unchecked (slot_entry s slot i) else flags AND HAL_PAGE_USER = 0)
     else user_can_write_exec s (l1_table s a) va)"
proof (cases "a = slot \<and> unat va div 4096 = unat virt div 4096")
  case True
  then have "unat (drop_bit 20 va) = i" using same_page_iff [of va virt] by (simp add: i_def)
  then show ?thesis using True assms by (simp add: user_can_write_exec_def)
next
  case False
  then have w: "arm_walk s' (l1_table s a) va = arm_walk s (l1_table s a) va" using assms(2) by auto
  show ?thesis
  proof (cases "a = slot \<and> unat (drop_bit 20 va) = i \<and> \<not> has_l2 s slot i")
    case True
    then have "arm_walk s (l1_table s a) va = None" by (simp add: arm_walk_def has_l2_def slot_entry_def)
    then show ?thesis using w by (simp only: user_can_write_exec_def False if_False) simp
  next
    case other: False
    then have "slot_entry s1 a (unat (drop_bit 20 va)) = slot_entry s a (unat (drop_bit 20 va))"
      using assms(5,6) by blast
    then have "table_read s' (l1_table s a) (unat (drop_bit 20 va)) = table_read s (l1_table s a) (unat (drop_bit 20 va))"
      using assms(4) by (simp only: slot_entry_def)
    then show ?thesis using False w by (simp only: user_can_write_exec_def if_False)
  qed
qed

text \<open>C11. Mapping a page into an address space succeeds exactly when both addresses are aligned, the
  flags respect write-xor-execute, the page is in user space and a second-level table exists or can
  be allocated. Then exactly one translation of exactly one address space changes, the kernel half
  and the invariant are kept, and the new descriptor does not grant user code writing and execution together.
  The hardware holds to the descriptor only in domain 1: user code can write and execute the page exactly when the
  table of its megabyte is of domain 0, which a first mapping without \<open>HAL_PAGE_USER\<close> makes it. For every other page
  of every address space the answer is as before. On failure the state is as before.\<close>

theorem arm_map_page_exact:
  assumes "arm_vmm_inv s" and "live_slot s slot"
    and "hal_mmu_map_page_in_space (l1_table s slot) virt phys flags s = (s', r)"
  shows "(r = 0 \<longleftrightarrow> virt AND 0xFFF = 0 \<and> phys AND 0xFFF = 0 \<and> hal_mmu_check_wx flags \<and>
            virt < 0xC0000000 \<and>
            (has_l2 s slot (unat (drop_bit 20 virt)) \<or> arm_free_set (vpmm s) \<noteq> {})) \<and>
     (r \<noteq> 0 \<longrightarrow> r = -1 \<and> s' = s) \<and>
     (r = 0 \<longrightarrow> arm_vmm_inv s' \<and> (\<forall>i<4096. boot_entry s' i = boot_entry s i) \<and>
        \<not> user_write_exec (phys OR hal_flags_to_l2 flags) \<and>
        (\<forall>a va. live_slot s a \<longrightarrow> va < 0xC0000000 \<longrightarrow> arm_walk s' (l1_table s a) va =
           (if a = slot \<and> unat va div 4096 = unat virt div 4096
            then Some (phys OR hal_flags_to_l2 flags) else arm_walk s (l1_table s a) va)) \<and>
        (\<forall>a va. live_slot s a \<longrightarrow> va < 0xC0000000 \<longrightarrow> user_can_write_exec s' (l1_table s a) va =
           (if a = slot \<and> unat va div 4096 = unat virt div 4096
            then (if has_l2 s slot (unat (drop_bit 20 virt))
                  then arm_unchecked (slot_entry s slot (unat (drop_bit 20 virt))) else flags AND HAL_PAGE_USER = 0)
            else user_can_write_exec s (l1_table s a) va)))"
proof -
  have geo: "arm_geometry s" and sl: "slot < 8"
    using assms(1,2) by (simp_all add: arm_vmm_inv_def live_slot_def)
  note nz = l1_table_nonzero [OF geo sl]
  let ?i = "unat (drop_bit 20 virt)"
  show ?thesis
  proof (cases "virt AND 0xFFF = 0 \<and> phys AND 0xFFF = 0 \<and> hal_mmu_check_wx flags \<and> ?i < 3072")
    case False
    then have "s' = s \<and> r = -1"
      using assms(3) nz by (auto simp: hal_mmu_map_page_in_space_def Let_def split: if_splits)
    moreover have "\<not> (virt AND 0xFFF = 0 \<and> phys AND 0xFFF = 0 \<and> hal_mmu_check_wx flags \<and>
        virt < 0xC0000000)" using False user_index by blast
    ultimately show ?thesis by auto
  next
    case True
    then have i: "?i < 3072" by simp
    obtain s1 ok where en: "ensure_l2 (l1_table s slot) ?i flags s = (s1, ok)" by fastforce
    note e = ensure_l2_spec [OF assms(1,2) i en]
    show ?thesis
    proof (cases ok)
      case False
      then have "s' = s \<and> r = -1"
        using assms(3) nz True en e(2) by (auto simp: hal_mmu_map_page_in_space_def Let_def not_le)
      then show ?thesis using False e(1) by auto
    next
      case ok: True
      define d where "d = (phys AND 0xFFFFF000) OR hal_flags_to_l2 flags"
      have dd: "d AND 3 \<noteq> 0" "\<not> user_write_exec d" "d = phys OR hal_flags_to_l2 flags"
        using new_descriptor [of phys flags] True by (simp_all only: d_def) auto
      have s1: "arm_vmm_inv s1" "has_l2 s1 slot ?i" "l1_table s1 = l1_table s"
        "\<And>i. i < 4096 \<Longrightarrow> boot_entry s1 i = boot_entry s i" and used: "vmm_l1_used s1 = vmm_l1_used s"
        using e(3) [OF ok] by auto
      have lv: "live_slot s1 = live_slot s" by (simp add: live_slot_def fun_eq_iff used)
      then have lv1: "live_slot s1 slot" using assms(2) by simp
      have "l2_phys_from_l1 (slot_entry s1 slot ?i) = of_nat (unat (l2_phys_from_l1 (slot_entry s1 slot ?i)))"
        by simp
      then have pt: "PHYS_TO_VIRT (l2_phys_from_l1 (table_read s1 (l1_table s slot) ?i)) =
          l2_table (l2_page s1 slot ?i)"
        using arm_inv_home(2) [OF s1(1) lv1 i s1(2)] by (simp only: l2_table_def) (simp add: slot_entry_def s1(3))
      have co: "l1_type (table_read s1 (l1_table s slot) ?i) = ARM_L1_TYPE_COARSE"
        using s1(2) by (simp add: has_l2_def slot_entry_def s1(3))
      have run: "s' = table_write (l2_table (l2_page s1 slot ?i)) (l2_index virt) d s1" "r = 0"
        using assms(3) nz True en ok co
        by (simp_all add: hal_mmu_map_page_in_space_def Let_def not_le pt d_def)
      note w = l2_write_spec [OF s1(1) lv1 i s1(2) l2_index_lt [of virt], where v = d, folded run(1)]
      have walk: "arm_walk s' (l1_table s a) va =
           (if a = slot \<and> unat va div 4096 = unat virt div 4096 then Some d else arm_walk s (l1_table s a) va)"
        if "live_slot s a" "va < 0xC0000000" for a va
        using w(3) [of a va] that lv e(4) [OF ok that] dd(1) same_page_iff [of va virt] by (auto simp: s1(3))
      have ent: "table_read s' (l1_table s a) x = slot_entry s1 a x" if "live_slot s a" "x < 4096" for a x
        using w(4) [of a x] that lv run(1) by (simp add: slot_entry_def s1(3))
      have rights: "user_can_write_exec s' (l1_table s a) va =
           (if a = slot \<and> unat va div 4096 = unat virt div 4096
            then (if has_l2 s slot ?i then arm_unchecked (slot_entry s slot ?i) else flags AND HAL_PAGE_USER = 0)
            else user_can_write_exec s (l1_table s a) va)" if a: "live_slot s a" and va: "va < 0xC0000000" for a va
      proof (rule map_rights [where d = d])
        have x: "unat (drop_bit 20 va) < 4096" using va user_index [of va] by linarith
        show "table_read s' (l1_table s a) (unat (drop_bit 20 va)) = slot_entry s1 a (unat (drop_bit 20 va))"
          by (rule ent [OF a x])
        have "a < 8" using a by (simp add: live_slot_def)
        then show "\<not> (a = slot \<and> unat (drop_bit 20 va) = ?i) \<Longrightarrow>
            slot_entry s1 a (unat (drop_bit 20 va)) = slot_entry s a (unat (drop_bit 20 va))"
          using e(5) [OF ok _ x] by blast
        show "has_l2 s slot ?i \<Longrightarrow> slot_entry s1 slot ?i = slot_entry s slot ?i"
          using en by (auto simp: ensure_l2_def has_l2_def slot_entry_def)
      qed (use walk [OF a va] e(6) [OF ok] dd(2) in auto)
      have be: "\<forall>x<4096. boot_entry s' x = boot_entry s x" using w(2) s1(4) by simp
      have u: "virt < 0xC0000000" using i user_index by blast
      show ?thesis
        using run(2) True u ok e(1) w(1) walk rights be dd(2) unfolding dd(3) [symmetric] by auto
    qed
  qed
qed

text \<open>Unmapping removes exactly one translation and touches no other address space.\<close>

theorem arm_unmap_page_exact:
  assumes "arm_vmm_inv s" and "live_slot s slot" and "virt < 0xC0000000"
  defines "s' \<equiv> hal_mmu_unmap_page_in_space (l1_table s slot) virt s"
  shows "arm_vmm_inv s' \<and> vpmm s' = vpmm s \<and>
    (\<forall>a va. live_slot s a \<longrightarrow> va < 0xC0000000 \<longrightarrow> arm_walk s' (l1_table s a) va =
       (if a = slot \<and> unat va div 4096 = unat virt div 4096 then None else arm_walk s (l1_table s a) va))"
proof -
  have geo: "arm_geometry s" and sl: "slot < 8"
    using assms(1,2) by (simp_all add: arm_vmm_inv_def live_slot_def)
  note nz = l1_table_nonzero [OF geo sl]
  let ?i = "unat (drop_bit 20 virt)"
  have i: "?i < 3072" using assms(3) user_index by blast
  show ?thesis
  proof (cases "has_l2 s slot ?i")
    case True
    have "l2_phys_from_l1 (slot_entry s slot ?i) = of_nat (unat (l2_phys_from_l1 (slot_entry s slot ?i)))"
      by simp
    then have pt: "PHYS_TO_VIRT (l2_phys_from_l1 (table_read s (l1_table s slot) ?i)) =
        l2_table (l2_page s slot ?i)"
      using arm_inv_home(2) [OF assms(1,2) i True] by (simp only: l2_table_def) (simp add: slot_entry_def)
    have co: "l1_type (table_read s (l1_table s slot) ?i) = ARM_L1_TYPE_COARSE"
      using True by (simp add: has_l2_def slot_entry_def)
    have run: "s' = table_write (l2_table (l2_page s slot ?i)) (l2_index virt) 0 s"
      using nz i co by (simp add: s'_def hal_mmu_unmap_page_in_space_def Let_def not_le pt)
    note w = l2_write_spec [OF assms(1,2) i True l2_index_lt [of virt], where v = 0, folded run]
    have "vpmm s' = vpmm s" by (simp add: run)
    then show ?thesis using w(1,3) same_page_iff [of _ virt] by auto
  next
    case False
    then have s': "s' = s"
      using nz i by (auto simp: s'_def hal_mmu_unmap_page_in_space_def has_l2_def slot_entry_def)
    have "arm_walk s (l1_table s slot) va = None" if "unat va div 4096 = unat virt div 4096" for va
      using False that same_page_iff [of va virt] by (auto simp: arm_walk_def has_l2_def slot_entry_def)
    then show ?thesis using assms(1) by (auto simp: s')
  qed
qed

section \<open>Creating an address space\<close>

lemma clear_l1_spec:
  assumes "arm_geometry s" "slot < 8" "n \<le> 4096"
  defines "s' \<equiv> fold (\<lambda>i. table_write (l1_table s slot) i 0) [0..<n] s"
  shows "a < 8 \<Longrightarrow> x < 4096 \<Longrightarrow> slot_entry s' a x = (if a = slot \<and> x < n then 0 else slot_entry s a x)"
    and "x < 4096 \<Longrightarrow> boot_entry s' x = boot_entry s x"
    and "j < 131072 \<Longrightarrow> j \<notin> pool_pages s \<Longrightarrow> k < 1024 \<Longrightarrow> l2_entry s' j k = l2_entry s j k"
  using assms(3) unfolding s'_def
proof (induction n)
  case (Suc n)
  let ?f = "fold (\<lambda>i. table_write (l1_table s slot) i 0) [0..<n] s"
  have g: "arm_geometry ?f" "l1_table s slot = l1_table ?f slot" using assms(1) by simp_all
  { case 1 then show ?case
      using Suc assms(2) slot_entry_write_slot [OF g(1) assms(2) 1(1) _ 1(2), of n 0]
      by (auto simp: less_Suc_eq) }
  { case 2 then show ?case
      using Suc boot_entry_write_slot [OF g(1) assms(2) _ 2(1), of n 0] by simp }
  { case 3 then show ?case
      using Suc l2_entry_write_slot [OF g(1) assms(2) _ 3(1) _ 3(3), of n 0] by simp }
qed simp_all

lemma copy_entry_simps [simp]:
  "vpmm (fold (copy_entry t b) xs s) = vpmm s"
  "vmm_l1_used (fold (copy_entry t b) xs s) = vmm_l1_used s"
  "vmm_boot_ttbr0_phys (fold (copy_entry t b) xs s) = vmm_boot_ttbr0_phys s"
  "l1_table (fold (copy_entry t b) xs s) = l1_table s"
  "pool_pages (fold (copy_entry t b) xs s) = pool_pages s"
  "boot_pages (fold (copy_entry t b) xs s) = boot_pages s"
  "arm_geometry (fold (copy_entry t b) xs s) = arm_geometry s"
  by (induction xs arbitrary: s) (simp_all add: copy_entry_def)

lemma copy_l1_spec:
  assumes "arm_geometry s" "slot < 8" "3072 + n \<le> 4096"
  defines "s' \<equiv> fold (copy_entry (l1_table s slot) (PHYS_TO_VIRT (vmm_boot_ttbr0_phys s))) [3072..<3072 + n] s"
  shows "a < 8 \<Longrightarrow> x < 4096 \<Longrightarrow> slot_entry s' a x =
           (if a = slot \<and> 3072 \<le> x \<and> x < 3072 + n then boot_entry s x else slot_entry s a x)"
    and "x < 4096 \<Longrightarrow> boot_entry s' x = boot_entry s x"
    and "j < 131072 \<Longrightarrow> j \<notin> pool_pages s \<Longrightarrow> k < 1024 \<Longrightarrow> l2_entry s' j k = l2_entry s j k"
  using assms(3) unfolding s'_def
proof (induction n arbitrary: a x j k)
  case (Suc n)
  let ?b = "PHYS_TO_VIRT (vmm_boot_ttbr0_phys s)"
  let ?f = "fold (copy_entry (l1_table s slot) ?b) [3072..<3072 + n] s"
  have g: "arm_geometry ?f" "l1_table s slot = l1_table ?f slot" using assms(1) by simp_all
  have step: "fold (copy_entry (l1_table s slot) ?b) [3072..<3072 + Suc n] s =
      table_write (l1_table ?f slot) (3072 + n) (boot_entry s (3072 + n)) ?f" if n: "3072 + n < 4096"
  proof -
    have "boot_entry ?f (3072 + n) = boot_entry s (3072 + n)" using Suc n by simp
    moreover have "[3072..<3072 + Suc n] = [3072..<3072 + n] @ [3072 + n]"
      by (simp only: add_Suc_right upt_Suc_append le_add1)
    ultimately show ?thesis by (simp only: fold_append o_apply) (simp add: copy_entry_def boot_entry_def)
  qed
  { case 1 then have n: "3072 + n < 4096" by simp
    show ?case
      unfolding step [OF n] using 1 Suc slot_entry_write_slot [OF g(1) assms(2) 1(1) n 1(2)]
      by (auto simp: less_Suc_eq) }
  { case 2 then have n: "3072 + n < 4096" by simp
    show ?case
      unfolding step [OF n] using 2 Suc boot_entry_write_slot [OF g(1) assms(2) n 2(1)] by simp }
  { case 3 then have n: "3072 + n < 4096" by simp
    show ?case
      unfolding step [OF n] using 3 Suc l2_entry_write_slot [OF g(1) assms(2) n 3(1) _ 3(3)] by simp }
qed auto

lemma used_update_simps [simp]:
  "l1_table (s\<lparr>vmm_l1_used := u\<rparr>) = l1_table s" "pool_pages (s\<lparr>vmm_l1_used := u\<rparr>) = pool_pages s"
  "boot_pages (s\<lparr>vmm_l1_used := u\<rparr>) = boot_pages s" "arm_geometry (s\<lparr>vmm_l1_used := u\<rparr>) = arm_geometry s"
  "slot_entry (s\<lparr>vmm_l1_used := u\<rparr>) = slot_entry s" "boot_entry (s\<lparr>vmm_l1_used := u\<rparr>) = boot_entry s"
  "l2_entry (s\<lparr>vmm_l1_used := u\<rparr>) = l2_entry s"
  by (simp_all add: l1_table_def pool_page_def boot_page_def pool_pages_def boot_pages_def
      arm_geometry_def slot_entry_def boot_entry_def l2_entry_def table_read_def fun_eq_iff)

lemma create_space_entries:
  assumes "arm_geometry s" and "find (\<lambda>i. vmm_l1_used s i = 0) [0..<8] = Some slot"
    and "hal_mmu_create_space s = (s', l1)"
  shows "l1 = l1_table s slot" and "slot < 8" and "vmm_l1_used s slot = 0"
    and "vpmm s' = vpmm s" "l1_table s' = l1_table s" "pool_pages s' = pool_pages s"
      "boot_pages s' = boot_pages s" "arm_geometry s' = arm_geometry s"
      "vmm_l1_used s' = (vmm_l1_used s)(slot := 1)"
    and "a < 8 \<Longrightarrow> x < 4096 \<Longrightarrow> slot_entry s' a x =
      (if a = slot then (if x < 3072 then 0 else boot_entry s x) else slot_entry s a x)"
    and "x < 4096 \<Longrightarrow> boot_entry s' x = boot_entry s x"
    and "j < 131072 \<Longrightarrow> j \<notin> pool_pages s \<Longrightarrow> k < 1024 \<Longrightarrow> l2_entry s' j k = l2_entry s j k"
proof -
  from assms(2) have "slot \<in> set [0..<8]" and u: "vmm_l1_used s slot = 0"
    by (auto simp: find_Some_iff)
  then show sl: "slot < 8" and "vmm_l1_used s slot = 0" by simp_all
  define s0 where "s0 = s\<lparr>vmm_l1_used := (vmm_l1_used s)(slot := 1)\<rparr>"
  define z where "z = fold (\<lambda>i. table_write (l1_table s0 slot) i 0) [0..<4096] s0"
  define b where "b = PHYS_TO_VIRT (vmm_boot_ttbr0_phys z)"
  have s': "s' = fold (copy_entry (l1_table z slot) b) [3072..<3072 + 1024] z" "l1 = l1_table s slot"
    using assms(2,3) by (auto simp: hal_mmu_create_space_def Let_def s0_def z_def b_def
        simp del: upt_rec_numeral)
  have geo: "arm_geometry s0" "arm_geometry z"
    using assms(1) by (simp_all add: s0_def z_def del: upt_rec_numeral)
  note c = clear_l1_spec [OF geo(1) sl order_refl, folded z_def]
  note k = copy_l1_spec [OF geo(2) sl, where n = 1024, folded b_def, folded s'(1)]
  show "l1 = l1_table s slot" by (fact s'(2))
  show "vpmm s' = vpmm s" "l1_table s' = l1_table s" "pool_pages s' = pool_pages s"
      "boot_pages s' = boot_pages s" "arm_geometry s' = arm_geometry s"
      "vmm_l1_used s' = (vmm_l1_used s)(slot := 1)" 
    unfolding s'(1) z_def s0_def by (simp_all del: upt_rec_numeral)
  show "slot_entry s' a x = (if a = slot then (if x < 3072 then 0 else boot_entry s x) else slot_entry s a x)"
    if "a < 8" "x < 4096"
    using k(1) [OF _ that] c(1) [OF that] c(2) [OF that(2)] that by (auto simp: s0_def)
  show "boot_entry s' x = boot_entry s x" if "x < 4096"
    using k(2) [OF _ that] c(2) [OF that] by (simp add: s0_def)
  show "l2_entry s' j k = l2_entry s j k" if "j < 131072" "j \<notin> pool_pages s" "k < 1024"
    using k(3) [OF _ that(1) _ that(3)] c(3) [OF that(1) _ that(3)] that by (simp add: s0_def z_def del: upt_rec_numeral)
qed

lemma arm_walk_cong:
  assumes "user_entry_ok s a (unat (drop_bit 20 va))" and "user_entry_ok s' a (unat (drop_bit 20 va))"
    and "slot_entry s' a (unat (drop_bit 20 va)) = slot_entry s a (unat (drop_bit 20 va))"
    and "has_l2 s a (unat (drop_bit 20 va)) \<Longrightarrow>
      l2_entry s' (l2_page s a (unat (drop_bit 20 va))) (l2_index va) =
      l2_entry s (l2_page s a (unat (drop_bit 20 va))) (l2_index va)"
    and "l1_table s' = l1_table s"
  shows "arm_walk s' (l1_table s a) va = arm_walk s (l1_table s a) va"
  using arm_walk_eq [OF assms(1)] arm_walk_eq [OF assms(2)] slot_entry_cong [OF assms(3)] assms(4,5)
  by (simp add: Let_def)

text \<open>C32. A new address space takes a free slot of the pool, maps nothing in user space, shares the
  kernel half of the boot table, and changes no other address space; with all slots in use the call
  fails without effect.\<close>

theorem arm_create_space_fresh:
  assumes "arm_vmm_inv s" and "hal_mmu_create_space s = (s', l1)"
  shows "if \<forall>slot<8. live_slot s slot then l1 = 0 \<and> s' = s
    else \<exists>slot<8. l1 = l1_table s slot \<and> \<not> live_slot s slot \<and>
      (\<forall>a. live_slot s' a \<longleftrightarrow> a = slot \<or> live_slot s a) \<and>
      arm_vmm_inv s' \<and> vpmm s' = vpmm s \<and> l1_table s' = l1_table s \<and>
      (\<forall>va<0xC0000000. arm_walk s' l1 va = None) \<and>
      (\<forall>i. 3072 \<le> i \<longrightarrow> i < 4096 \<longrightarrow> slot_entry s' slot i = boot_entry s i) \<and>
      (\<forall>a va. live_slot s a \<longrightarrow> va < 0xC0000000 \<longrightarrow>
         arm_walk s' (l1_table s a) va = arm_walk s (l1_table s a) va)"
proof (cases "find (\<lambda>i. vmm_l1_used s i = 0) [0..<8]")
  case None
  then have "\<forall>slot<8. live_slot s slot" by (auto simp: find_None_iff live_slot_def)
  then show ?thesis using None assms(2) by (simp add: hal_mmu_create_space_def)
next
  case (Some slot)
  have geo: "arm_geometry s" using assms(1) by (simp add: arm_vmm_inv_def)
  note c = create_space_entries [OF geo Some assms(2)]
  have live: "live_slot s' a \<longleftrightarrow> a = slot \<or> live_slot s a" for a
    using c(2,9) by (auto simp: live_slot_def)
  have nl: "\<not> live_slot s slot" using c(3) by (simp add: live_slot_def)
  have new: "slot_entry s' slot x = (if x < 3072 then 0 else boot_entry s x)" if "x < 4096" for x
    using c(10) [OF c(2) that] by simp
  have old: "slot_entry s' a x = slot_entry s a x" "has_l2 s' a x = has_l2 s a x"
    "l2_page s' a x = l2_page s a x" if "live_slot s a" "x < 4096" for a x
  proof -
    show *: "slot_entry s' a x = slot_entry s a x" using c(10) [of a x] that nl by (auto simp: live_slot_def)
    show "has_l2 s' a x = has_l2 s a x" "l2_page s' a x = l2_page s a x"
      using slot_entry_cong [OF *] by simp_all
  qed
  have nh: "\<not> has_l2 s' slot x" if "x < 3072" for x using new [of x] that by (simp add: has_l2_def l1_type_def)
  have home: "l2_home s' = l2_home s" using c by (simp add: l2_home_def arm_limit_def fun_eq_iff)
  have ok: "user_entry_ok s' a x" if "live_slot s' a" "x < 3072" for a x
  proof (cases "a = slot")
    case True
    then show ?thesis using new [of x] that(2) by (simp add: user_entry_ok_def l1_type_def)
  next
    case False
    then have la: "live_slot s a" using that(1) live by simp
    show ?thesis using arm_inv_entry [OF assms(1) la that(2)] old [OF la, of x] that(2)
      by (simp add: user_entry_ok_def home)
  qed
  have kern: "slot_entry s' a x = boot_entry s' x" if "live_slot s' a" "3072 \<le> x" "x < 4096" for a x
  proof (cases "a = slot")
    case False
    then have la: "live_slot s a" using that(1) live by simp
    show ?thesis using la assms(1) old(1) [OF la that(3)] c(11) [OF that(3)] that
      by (simp add: arm_vmm_inv_def)
  qed (use new that c(11) in simp)
  have inj: "a = b \<and> x = y" if "live_slot s' a" "live_slot s' b" "x < 3072" "y < 3072"
    "has_l2 s' a x" "has_l2 s' b y" "l2_page s' a x = l2_page s' b y" for a b x y
  proof -
    have "a \<noteq> slot" "b \<noteq> slot" using nh that by auto
    then have "live_slot s a" "live_slot s b" using that live by auto
    then show ?thesis
      using that old [of a x] old [of b y] arm_inv_injective [OF assms(1), of a b x y] by simp
  qed
  have inv': "arm_vmm_inv s'"
    using assms(1) ok kern inj unfolding arm_vmm_inv_def c(4,6,7,8) by blast
  have none: "arm_walk s' l1 va = None" if "va < 0xC0000000" for va
  proof -
    have x: "unat (drop_bit 20 va) < 3072" using that user_index by blast
    then have "user_entry_ok s' slot (unat (drop_bit 20 va))" using ok live by simp
    then show ?thesis using arm_walk_eq [of s' slot va] nh [OF x] c(1,5) by simp
  qed
  have walk: "arm_walk s' (l1_table s a) va = arm_walk s (l1_table s a) va"
    if a: "live_slot s a" and va: "va < 0xC0000000" for a va
  proof -
    have x: "unat (drop_bit 20 va) < 3072" using va user_index by blast
    then have x4: "unat (drop_bit 20 va) < 4096" by linarith
    have a': "live_slot s' a" using a live by simp
    have k: "l2_index va < 1024" using l2_index_lt [of va] by linarith
    show ?thesis
    proof (rule arm_walk_cong [OF arm_inv_entry [OF assms(1) a x] ok [OF a' x] old(1) [OF a x4] _ c(5)])
      assume h: "has_l2 s a (unat (drop_bit 20 va))"
      note hm = arm_inv_home(1) [OF assms(1) a x h]
      then have "l2_page s a (unat (drop_bit 20 va)) \<notin> pool_pages s" by (simp add: l2_home_def)
      from c(12) [OF arm_limit_bound [OF assms(1) hm] this k]
      show "l2_entry s' (l2_page s a (unat (drop_bit 20 va))) (l2_index va) =
        l2_entry s (l2_page s a (unat (drop_bit 20 va))) (l2_index va)" .
    qed
  qed
  show ?thesis
    using nl c(1,2,4,5) live inv' none walk new by auto
qed

section \<open>Destroying an address space\<close>

definition l2_pages :: "arm_vmm \<Rightarrow> nat \<Rightarrow> nat set" where
  "l2_pages s slot = {l2_page s slot i |i. i < 3072 \<and> has_l2 s slot i}"

lemma free_l2_fold:
  assumes inv: "arm_vmm_inv s" and slot: "live_slot s slot" and n: "n \<le> 3072"
  shows "\<exists>pm. fold (free_l2 (l1_table s slot)) [0..<n] s = s\<lparr>vpmm := pm\<rparr> \<and> arm_pmm_inv pm \<and>
    arm_free_set pm = arm_free_set (vpmm s) \<union> {l2_page s slot i |i. i < n \<and> has_l2 s slot i} \<and>
    unat (atotal_pages pm) = arm_limit s"
  using n
proof (induction n)
  case 0
  have "s = s\<lparr>vpmm := vpmm s\<rparr>" by simp
  then show ?case using inv by (auto simp: arm_vmm_inv_def arm_limit_def intro!: exI [of _ "vpmm s"])
next
  case (Suc n)
  then obtain pm where f: "fold (free_l2 (l1_table s slot)) [0..<n] s = s\<lparr>vpmm := pm\<rparr>" and pi: "arm_pmm_inv pm"
    and pf: "arm_free_set pm = arm_free_set (vpmm s) \<union> {l2_page s slot i |i. i < n \<and> has_l2 s slot i}"
    and pl: "unat (atotal_pages pm) = arm_limit s" by auto
  have step: "fold (free_l2 (l1_table s slot)) [0..<Suc n] s = free_l2 (l1_table s slot) n (s\<lparr>vpmm := pm\<rparr>)"
    by (simp add: f)
  have rd: "table_read (s\<lparr>vpmm := pm\<rparr>) (l1_table s slot) n = slot_entry s slot n"
    by (simp add: slot_entry_def table_read_def)
  have n: "n < 3072" using Suc.prems by simp
  show ?case
  proof (cases "has_l2 s slot n")
    case False
    have "fold (free_l2 (l1_table s slot)) [0..<Suc n] s = s\<lparr>vpmm := pm\<rparr>"
      unfolding step free_l2_def rd using False by (simp add: has_l2_def)
    moreover have "{l2_page s slot i |i. i < Suc n \<and> has_l2 s slot i} =
        {l2_page s slot i |i. i < n \<and> has_l2 s slot i}" using False by (auto simp: less_Suc_eq)
    ultimately show ?thesis using pi pf pl by (intro exI [of _ pm]) simp
  next
    case True
    let ?p = "l2_phys_from_l1 (slot_entry s slot n)" and ?j = "l2_page s slot n"
    note home = arm_inv_home [OF inv slot n True]
    have "l2_page s slot i \<noteq> ?j" if "i < n" "has_l2 s slot i" for i
    proof
      assume e: "l2_page s slot i = ?j"
      have "i < 3072" using that(1) n by simp
      from arm_inv_injective(2) [OF inv slot slot this n that(2) True e] that(1) show False by simp
    qed
    then have "?j \<notin> {l2_page s slot i |i. i < n \<and> has_l2 s slot i}" by fastforce
    then have nf: "?j \<notin> arm_free_set pm" using home(1) unfolding pf l2_home_def by blast
    have "0 < ?j" "?j < unat (atotal_pages pm)" using home(1) pl by (simp_all add: l2_home_def)
    note rel = arm_pages.release_used [OF pi home(2) this nf]
    have r: "arm_pmm_inv (arm_pmm_free_page ?p pm)"
      "arm_free_set (arm_pmm_free_page ?p pm) = insert ?j (arm_free_set pm)"
      "unat (atotal_pages (arm_pmm_free_page ?p pm)) = arm_limit s"
      using rel pl by simp_all
    have "fold (free_l2 (l1_table s slot)) [0..<Suc n] s = s\<lparr>vpmm := arm_pmm_free_page ?p pm\<rparr>"
      unfolding step free_l2_def rd using True by (simp add: has_l2_def)
    moreover have "{l2_page s slot i |i. i < Suc n \<and> has_l2 s slot i} =
        insert ?j {l2_page s slot i |i. i < n \<and> has_l2 s slot i}" using True by (auto simp: less_Suc_eq)
    ultimately show ?thesis using r pf by (intro exI [of _ "arm_pmm_free_page ?p pm"]) simp
  qed
qed

lemma find_slot:
  assumes "arm_geometry s" and "slot < 8"
  shows "find (\<lambda>i. l1_table s i = l1_table s slot) [0..<8] = Some slot"
proof -
  have "l1_table s i = l1_table s slot \<longleftrightarrow> i = slot" if "i < 8" for i
    using unat_l1_table [OF assms(1) that] unat_l1_table [OF assms] by (auto simp: word_unat_eq_iff)
  then have "find (\<lambda>i. l1_table s i = l1_table s slot) [0..<8] = find (\<lambda>i. i = slot) [0..<8]"
    by (intro find_cong) auto
  also have "\<dots> = Some slot"
    unfolding find_Some_iff using assms(2)
    by (intro exI [of _ slot] conjI allI impI) (simp_all add: nth_upt del: upt_rec_numeral)
  finally show ?thesis .
qed

text \<open>C14. Destroying an address space gives exactly the pages of its second-level tables back, frees
  its slot, and leaves every other address space translating as before.\<close>

theorem arm_destroy_space_exact:
  assumes "arm_vmm_inv s" and "live_slot s slot"
  defines "s' \<equiv> hal_mmu_destroy_space (l1_table s slot) s"
  shows "arm_vmm_inv s' \<and> (\<forall>a. live_slot s' a \<longleftrightarrow> live_slot s a \<and> a \<noteq> slot) \<and>
    arm_free_set (vpmm s') = arm_free_set (vpmm s) \<union> l2_pages s slot \<and>
    l2_pages s slot \<inter> arm_free_set (vpmm s) = {} \<and>
    (\<forall>a va. live_slot s a \<longrightarrow> a \<noteq> slot \<longrightarrow> va < 0xC0000000 \<longrightarrow>
       arm_walk s' (l1_table s a) va = arm_walk s (l1_table s a) va)"
proof -
  have geo: "arm_geometry s" and sl: "slot < 8"
    using assms(1,2) by (simp_all add: arm_vmm_inv_def live_slot_def)
  obtain pm where f: "fold (free_l2 (l1_table s slot)) [0..<3072] s = s\<lparr>vpmm := pm\<rparr>" and pi: "arm_pmm_inv pm"
    and pf: "arm_free_set pm = arm_free_set (vpmm s) \<union> l2_pages s slot"
    and pl: "unat (atotal_pages pm) = arm_limit s"
    using free_l2_fold [OF assms(1,2) order_refl] by (auto simp: l2_pages_def)
  have s': "s' = s\<lparr>vpmm := pm, vmm_l1_used := (vmm_l1_used s)(slot := 0)\<rparr>"
    using l1_table_nonzero [OF geo sl] find_slot [OF geo sl]
    by (simp add: s'_def hal_mmu_destroy_space_def Let_def f del: upt_rec_numeral)
  have live: "live_slot s' a \<longleftrightarrow> live_slot s a \<and> a \<noteq> slot" for a by (auto simp: live_slot_def s')
  have same: "slot_entry s' = slot_entry s" "boot_entry s' = boot_entry s" "l2_entry s' = l2_entry s"
    "pool_pages s' = pool_pages s" "boot_pages s' = boot_pages s" "arm_geometry s' = arm_geometry s"
    "l1_table s' = l1_table s" "vpmm s' = pm"
    by (simp_all add: s')
  have eq: "has_l2 s' = has_l2 s" "l2_page s' = l2_page s"
    by (simp_all add: has_l2_def l2_page_def same fun_eq_iff)
  have pages: "l2_home s j" if "j \<in> l2_pages s slot" for j
    using that arm_inv_home(1) [OF assms(1,2)] by (auto simp: l2_pages_def)
  have other: "l2_page s a x \<notin> l2_pages s slot" if "live_slot s a" "a \<noteq> slot" "x < 3072" "has_l2 s a x" for a x
    using that arm_inv_injective(1) [OF assms(1) that(1) assms(2) that(3) _ that(4)]
    by (auto simp: l2_pages_def)
  have ok: "user_entry_ok s' a x" if "live_slot s' a" "x < 3072" for a x
    using that arm_inv_entry [OF assms(1), of a x] other [of a x]
    by (auto simp: user_entry_ok_def live same eq l2_home_def arm_limit_def pl pf)
  have disj: "pool_pages s \<inter> arm_free_set pm = {}" "boot_pages s \<inter> arm_free_set pm = {}"
    using assms(1) pages by (auto simp: arm_vmm_inv_def pf l2_home_def)
  have kern: "slot_entry s' a x = boot_entry s' x" if "live_slot s' a" "3072 \<le> x" "x < 4096" for a x
    using that assms(1) by (simp add: arm_vmm_inv_def same live)
  have inj: "a = b \<and> x = y" if "live_slot s' a" "live_slot s' b" "x < 3072" "y < 3072"
    "has_l2 s' a x" "has_l2 s' b y" "l2_page s' a x = l2_page s' b y" for a b x y
    using that arm_inv_injective [OF assms(1), of a b x y] by (simp add: live eq)
  have inv': "arm_vmm_inv s'"
    using geo pi disj ok kern inj unfolding arm_vmm_inv_def same by blast
  have walk: "arm_walk s' (l1_table s a) va = arm_walk s (l1_table s a) va"
    if "live_slot s a" "a \<noteq> slot" "va < 0xC0000000" for a va
  proof -
    have x: "unat (drop_bit 20 va) < 3072" using that(3) user_index by blast
    have "live_slot s' a" using that live by simp
    then show ?thesis
      by (intro arm_walk_cong arm_inv_entry [OF assms(1) that(1) x] ok x) (simp_all add: same)
  qed
  have "l2_pages s slot \<inter> arm_free_set (vpmm s) = {}" using pages by (auto simp: l2_home_def)
  then show ?thesis using inv' live walk pf by (simp add: same)
qed

section \<open>Concrete address spaces\<close>

text \<open>One free page (page 11), slot 0 in use and empty; then the same with a table on page 11 and the
  page at \<open>0x1000\<close> mapped.\<close>

definition arm_vmm_demo :: arm_vmm where
  "arm_vmm_demo = \<lparr>vpmm = arm_pmm_demo, vmem = (\<lambda>_. 0), vmm_l1_pool = 0xC0020000,
     vmm_l1_used = (\<lambda>i. if i = 0 then 1 else 0), vmm_boot_ttbr0_phys = 0x40000, ttbr0 = 0x40000\<rparr>"

definition arm_vmm_mapped :: arm_vmm where
  "arm_vmm_mapped = (let s = fst (ensure_l2 (l1_table arm_vmm_demo 0) 0 HAL_PAGE_USER_DATA arm_vmm_demo)
     in table_write (l2_table (l2_page s 0 0)) 1 0x7E7F s)"

lemma arm_vmm_demo_inv: "arm_vmm_inv arm_vmm_demo" "live_slot arm_vmm_demo 0"
proof -
  have e: "slot_entry arm_vmm_demo a x = 0" "boot_entry arm_vmm_demo x = 0" for a x
    by (simp_all add: slot_entry_def boot_entry_def table_read_def arm_vmm_demo_def)
  have p: "pool_page arm_vmm_demo = 32" "boot_page arm_vmm_demo = 64" "vpmm arm_vmm_demo = arm_pmm_demo"
    by (simp_all add: pool_page_def boot_page_def arm_vmm_demo_def)
  have g: "arm_geometry arm_vmm_demo"
    unfolding arm_geometry_def pool_pages_def boot_pages_def p by (simp add: arm_vmm_demo_def)
  have h: "\<not> has_l2 arm_vmm_demo a x" "user_entry_ok arm_vmm_demo a x" for a x
    by (simp_all add: has_l2_def user_entry_ok_def e l1_type_def)
  show "arm_vmm_inv arm_vmm_demo"
    using g h arm_pmm_demo_inv unfolding arm_vmm_inv_def pool_pages_def boot_pages_def p arm_free_set_demo
    by (simp add: e)
  show "live_slot arm_vmm_demo 0" by (simp add: live_slot_def arm_vmm_demo_def)
qed

lemma arm_vmm_mapped_inv:
  "arm_vmm_inv arm_vmm_mapped" "live_slot arm_vmm_mapped 0"
  "arm_walk arm_vmm_mapped (l1_table arm_vmm_mapped 0) 0x1000 = Some 0x7E7F"
  "vmm_l1_used arm_vmm_mapped = vmm_l1_used arm_vmm_demo"
proof -
  obtain s ok where en: "ensure_l2 (l1_table arm_vmm_demo 0) 0 HAL_PAGE_USER_DATA arm_vmm_demo = (s, ok)"
    by fastforce
  have z: "(0 :: nat) < 3072" by simp
  note e = ensure_l2_spec [OF arm_vmm_demo_inv z en]
  have "arm_free_set (vpmm arm_vmm_demo) \<noteq> {}" by (simp add: arm_vmm_demo_def arm_free_set_demo)
  then have ok: ok using e(1) by simp
  have lv: "live_slot s 0" using e(3) [OF ok] arm_vmm_demo_inv(2) by (simp add: live_slot_def)
  have inv: "arm_vmm_inv s" "has_l2 s 0 0" using e(3) [OF ok] by simp_all
  have one: "(1 :: nat) < 256" by simp
  have m: "arm_vmm_mapped = table_write (l2_table (l2_page s 0 0)) 1 0x7E7F s"
    by (simp add: arm_vmm_mapped_def en)
  note w = l2_write_spec [OF inv(1) lv z inv(2) one, where v = "0x7E7F", folded m]
  have idx: "l2_index 0x1000 = 1" "unat (drop_bit 20 (0x1000 :: u32)) = 0" by (simp_all add: l2_index_def)
  have l: "l1_table arm_vmm_mapped = l1_table s" by (simp add: m)
  show "arm_vmm_inv arm_vmm_mapped" by (fact w(1))
  show "live_slot arm_vmm_mapped 0" using lv by (simp add: m)
  show "vmm_l1_used arm_vmm_mapped = vmm_l1_used arm_vmm_demo" using e(3) [OF ok] by (simp add: m)
  have "arm_walk arm_vmm_mapped (l1_table s 0) 0x1000 = Some 0x7E7F"
    using w(3) [OF lv, of "0x1000"] idx by simp
  then show "arm_walk arm_vmm_mapped (l1_table arm_vmm_mapped 0) 0x1000 = Some 0x7E7F" by (simp add: l)
qed

lemma arm_map_page_exact_witness:
  "\<exists>s'. hal_mmu_map_page_in_space (l1_table arm_vmm_demo 0) 0x2000 0x7000 HAL_PAGE_USER_DATA arm_vmm_demo =
     (s', 0) \<and> arm_walk s' (l1_table arm_vmm_demo 0) 0x2FFC = Some 0x787F \<and>
     \<not> user_can_write_exec s' (l1_table arm_vmm_demo 0) 0x2FFC"
proof -
  obtain s' r where run: "hal_mmu_map_page_in_space (l1_table arm_vmm_demo 0) 0x2000 0x7000
      HAL_PAGE_USER_DATA arm_vmm_demo = (s', r)" by fastforce
  note m = arm_map_page_exact [OF arm_vmm_demo_inv run]
  have "arm_free_set (vpmm arm_vmm_demo) \<noteq> {}" by (simp add: arm_vmm_demo_def arm_free_set_demo)
  moreover have "hal_mmu_check_wx 7" "(0x7000 :: u32) OR hal_flags_to_l2 7 = 0x787F" by code_simp+
  moreover have "\<not> has_l2 arm_vmm_demo 0 0"
    by (simp add: has_l2_def slot_entry_def table_read_def arm_vmm_demo_def l1_type_def)
  ultimately show ?thesis using m run arm_vmm_demo_inv(2) by auto
qed

lemma arm_unmap_page_exact_witness:
  "arm_walk arm_vmm_mapped (l1_table arm_vmm_mapped 0) 0x1000 = Some 0x7E7F \<and>
   arm_walk (hal_mmu_unmap_page_in_space (l1_table arm_vmm_mapped 0) 0x1000 arm_vmm_mapped)
     (l1_table arm_vmm_mapped 0) 0x1000 = None"
proof -
  have v: "(0x1000 :: u32) < 0xC0000000" by simp
  from arm_unmap_page_exact [OF arm_vmm_mapped_inv(1,2) v] arm_vmm_mapped_inv show ?thesis by auto
qed

lemma arm_create_space_fresh_witness:
  "live_slot (fst (hal_mmu_create_space arm_vmm_mapped)) 1 \<and>
   arm_walk (fst (hal_mmu_create_space arm_vmm_mapped)) (l1_table arm_vmm_mapped 0) 0x1000 = Some 0x7E7F"
proof -
  obtain s' l1 where run: "hal_mmu_create_space arm_vmm_mapped = (s', l1)" by fastforce
  have u: "vmm_l1_used arm_vmm_mapped = (\<lambda>i. if i = 0 then 1 else 0)"
    by (simp add: arm_vmm_mapped_inv(4) arm_vmm_demo_def)
  then have "\<not> live_slot arm_vmm_mapped 1" by (simp add: live_slot_def)
  then have "\<not> (\<forall>slot<8. live_slot arm_vmm_mapped slot)" by fastforce
  with arm_create_space_fresh [OF arm_vmm_mapped_inv(1) run]
  have "arm_walk s' (l1_table arm_vmm_mapped 0) 0x1000 = Some 0x7E7F"
    using arm_vmm_mapped_inv(2,3) by auto
  moreover have "find (\<lambda>i. vmm_l1_used arm_vmm_mapped i = 0) [0..<8] = Some 1"
    unfolding u by code_simp
  moreover have "arm_geometry arm_vmm_mapped" using arm_vmm_mapped_inv(1) by (simp add: arm_vmm_inv_def)
  ultimately show ?thesis using create_space_entries(9) [OF _ _ run] run by (simp add: live_slot_def)
qed

lemma arm_destroy_space_exact_witness:
  "\<not> live_slot (hal_mmu_destroy_space (l1_table arm_vmm_mapped 0) arm_vmm_mapped) 0 \<and>
   arm_free_set (vpmm (hal_mmu_destroy_space (l1_table arm_vmm_mapped 0) arm_vmm_mapped)) =
     arm_free_set (vpmm arm_vmm_mapped) \<union> l2_pages arm_vmm_mapped 0"
  using arm_destroy_space_exact [OF arm_vmm_mapped_inv(1,2)] by simp

end
