(* ===== verification/Arm_Task.thy ===== *)
theory Arm_Task
  imports Arm_Vmm
begin

text \<open>
  Tasks, scheduler, timer tick and system calls of the ARM port (\<open>arch/arm/arm_main.c\<close>,
  \<open>arm_timer.c\<close>, \<open>arm_syscall.c\<close>). The table has four entries of which \<open>num_tasks\<close> are in use; task 0
  is the idle task. A context switch stores the stack pointer of the task that leaves, which is an
  argument of the operations, and loads stack pointer and translation table of the next one. A
  halt (\<open>for (;;) hal_halt()\<close>) is the value \<open>None\<close>. What is sent to the serial line by \<open>write\<close> is
  kept in \<open>auart\<close>; the diagnostic messages are left out.
\<close>

unbundle bit_operations_syntax

section \<open>State\<close>

datatype arm_task_state = ARM_FREE | ARM_READY | ARM_RUNNING | ARM_SLEEPING

record arm_task =
  ts_sp :: u32
  ts_ttbr0 :: u32
  ts_space :: u32
  ts_pid :: int
  ts_name :: "u8 list"
  ts_state :: arm_task_state
  ts_wakeup :: u64

record arm_sched =
  atasks :: "nat \<Rightarrow> arm_task"
  acurrent :: nat
  anum :: nat
  atick :: u64
  aquantum :: u32
  auart :: "u8 list"
  acpu_sp :: u32
  acpu_ttbr0 :: u32

definition arm_on_task :: "nat \<Rightarrow> (arm_task \<Rightarrow> arm_task) \<Rightarrow> arm_sched \<Rightarrow> arm_sched" where
  "arm_on_task i f s = s\<lparr>atasks := (atasks s)(i := f (atasks s i))\<rparr>"

definition arm_state :: "arm_sched \<Rightarrow> nat \<Rightarrow> arm_task_state" where
  "arm_state s i = ts_state (atasks s i)"

section \<open>The scheduler\<close>

definition arm_context_switch :: "nat \<Rightarrow> nat \<Rightarrow> u32 \<Rightarrow> arm_sched \<Rightarrow> arm_sched" where
  "arm_context_switch prev nxt saved_sp s =
     (let s = arm_on_task prev (\<lambda>t. t\<lparr>ts_sp := saved_sp\<rparr>) s
      in s\<lparr>acpu_sp := ts_sp (atasks s nxt), acpu_ttbr0 := ts_ttbr0 (atasks s nxt)\<rparr>)"

definition arm_pick :: "arm_sched \<Rightarrow> nat option" where
  "arm_pick s = find (\<lambda>c. arm_state s c = ARM_READY)
     (map (\<lambda>i. (acurrent s + 1 + i) mod anum s) [0..<anum s])"

definition arm_switch_to :: "nat \<Rightarrow> u32 \<Rightarrow> arm_sched \<Rightarrow> arm_sched option" where
  "arm_switch_to nxt saved_sp s =
     (if nxt = acurrent s then Some (arm_on_task nxt (\<lambda>t. t\<lparr>ts_state := ARM_RUNNING\<rparr>) s)
      else if ts_sp (atasks s nxt) = 0 then None
      else let prev = acurrent s;
               s = arm_on_task nxt (\<lambda>t. t\<lparr>ts_state := ARM_RUNNING\<rparr>) s;
               s = s\<lparr>acurrent := nxt\<rparr>
           in Some (arm_context_switch prev nxt saved_sp s))"

definition arm_schedule :: "u32 \<Rightarrow> arm_sched \<Rightarrow> arm_sched option" where
  "arm_schedule saved_sp s =
     (let cur = acurrent s;
          s = (if arm_state s cur = ARM_RUNNING
               then arm_on_task cur (\<lambda>t. t\<lparr>ts_state := ARM_READY\<rparr>) s else s)
      in case arm_pick s of
           Some nxt \<Rightarrow> arm_switch_to nxt saved_sp s
         | None \<Rightarrow>
             if cur \<noteq> 0 \<and> arm_state s 0 \<noteq> ARM_FREE \<and> arm_state s 0 \<noteq> ARM_SLEEPING
             then arm_switch_to 0 saved_sp (arm_on_task 0 (\<lambda>t. t\<lparr>ts_state := ARM_READY\<rparr>) s)
             else if arm_state s cur = ARM_READY
             then Some (arm_on_task cur (\<lambda>t. t\<lparr>ts_state := ARM_RUNNING\<rparr>) s)
             else Some s)"

section \<open>Operations on tasks\<close>

definition arm_idle_ready :: "arm_sched \<Rightarrow> arm_sched" where
  "arm_idle_ready s =
     (if arm_state s 0 \<noteq> ARM_RUNNING then arm_on_task 0 (\<lambda>t. t\<lparr>ts_state := ARM_READY\<rparr>) s else s)"

definition arm_task_exit :: "u32 \<Rightarrow> arm_sched \<Rightarrow> arm_sched option" where
  "arm_task_exit saved_sp s =
     (if acurrent s = 0 then Some s
      else arm_schedule saved_sp
             (arm_idle_ready (arm_on_task (acurrent s) (\<lambda>t. t\<lparr>ts_state := ARM_FREE\<rparr>) s)))"

definition arm_task_set_sleep :: "u32 \<Rightarrow> u32 \<Rightarrow> arm_sched \<Rightarrow> arm_sched option" where
  "arm_task_set_sleep ms saved_sp s =
     (if ms = 0 then Some s
      else if ms > 0x7FFFFFFF then Some s
      else arm_schedule saved_sp (arm_on_task (acurrent s)
             (\<lambda>t. t\<lparr>ts_wakeup := atick s + ucast ms, ts_state := ARM_SLEEPING\<rparr>) s))"

definition arm_wake_one :: "u64 \<Rightarrow> nat \<Rightarrow> arm_sched \<Rightarrow> arm_sched" where
  "arm_wake_one current_tick i s =
     (if arm_state s i = ARM_SLEEPING \<and> current_tick \<ge> ts_wakeup (atasks s i)
      then arm_on_task i (\<lambda>t. t\<lparr>ts_state := ARM_READY\<rparr>) s else s)"

definition arm_task_check_wakeup :: "u64 \<Rightarrow> arm_sched \<Rightarrow> arm_sched" where
  "arm_task_check_wakeup current_tick s = fold (arm_wake_one current_tick) [0..<anum s] s"

text \<open>A fault of a user task. The task that the scheduler leaves must not come back here.\<close>

definition arm_task_fault_kill :: "u32 \<Rightarrow> arm_sched \<Rightarrow> arm_sched option" where
  "arm_task_fault_kill saved_sp s =
     (if acurrent s = 0 \<or> acurrent s \<ge> anum s then None
      else let dead = acurrent s
           in case arm_schedule saved_sp
                     (arm_idle_ready (arm_on_task dead (\<lambda>t. t\<lparr>ts_state := ARM_FREE\<rparr>) s)) of
                None \<Rightarrow> None
              | Some s' \<Rightarrow> if acurrent s' = dead then None else Some s')"

text \<open>The stack a new user task starts from: the ten words that the context switch pops.\<close>

abbreviation (input) ARM_CPSR_SVC_IRQ_DISABLED :: u32 where "ARM_CPSR_SVC_IRQ_DISABLED \<equiv> 0x93"

definition arm_task_create_user ::
    "u32 \<Rightarrow> nat \<Rightarrow> int \<Rightarrow> u8 list \<Rightarrow> u32 \<Rightarrow> u32 \<Rightarrow> u32 \<Rightarrow> u32 \<Rightarrow> (u32 \<Rightarrow> u32) \<times> arm_sched \<Rightarrow> (u32 \<Rightarrow> u32) \<times> arm_sched"
  where
  "arm_task_create_user trampoline i pid nm user_pc user_sp kstack_base kstack_bytes ms =
     (let (mem, s) = ms;
          stack_top = (kstack_base + kstack_bytes) AND NOT 7;
          mem = mem(stack_top - 4 := trampoline, stack_top - 8 := ARM_CPSR_SVC_IRQ_DISABLED,
                    stack_top - 12 := 0, stack_top - 16 := 0, stack_top - 20 := 0,
                    stack_top - 24 := 0, stack_top - 28 := 0, stack_top - 32 := stack_top,
                    stack_top - 36 := user_sp, stack_top - 40 := user_pc)
      in (mem, arm_on_task i (\<lambda>t. t\<lparr>ts_sp := stack_top - 40, ts_pid := pid, ts_name := nm,
                                    ts_state := ARM_READY\<rparr>) s))"

section \<open>The timer\<close>

abbreviation (input) ARM_QUANTUM_TICKS :: u32 where "ARM_QUANTUM_TICKS \<equiv> 10"

definition hal_timer_tick :: "u32 \<Rightarrow> arm_sched \<Rightarrow> arm_sched option" where
  "hal_timer_tick saved_sp s =
     (let s = arm_task_check_wakeup (atick s) s;
          s = s\<lparr>aquantum := aquantum s + 1\<rparr>
      in if aquantum s \<ge> ARM_QUANTUM_TICKS then arm_schedule saved_sp (s\<lparr>aquantum := 0\<rparr>) else Some s)"

definition timer_irq_handler :: "u32 \<Rightarrow> arm_sched \<Rightarrow> arm_sched option" where
  "timer_irq_handler saved_sp s = hal_timer_tick saved_sp (s\<lparr>atick := atick s + 1\<rparr>)"

section \<open>System calls\<close>

text \<open>The registers of the user frame the handler reads, and the result register it sets.\<close>

record arm_user_frame =
  fr_r0 :: u32
  fr_r1 :: u32
  fr_r2 :: u32
  fr_r7 :: u32

definition arm_is_user_buffer :: "u32 \<Rightarrow> u32 \<Rightarrow> bool" where
  "arm_is_user_buffer addr n =
     (if n = 0 then True
      else let e = addr + n
           in if e < addr then False else if addr \<ge> KERNEL_SPACE_START then False else True)"

definition arm_putc :: "u8 \<Rightarrow> arm_sched \<Rightarrow> arm_sched" where
  "arm_putc c s = s\<lparr>auart := auart s @ (if c = 10 then [c, 13] else [c])\<rparr>"

definition arm_sys_write :: "(u32 \<Rightarrow> u8) \<Rightarrow> u32 \<Rightarrow> u32 \<Rightarrow> u32 \<Rightarrow> arm_sched \<Rightarrow> int \<times> arm_sched" where
  "arm_sys_write um fd buf n s =
     (if fd \<noteq> 1 \<and> fd \<noteq> 2 then (- EBADF, s)
      else if n > 4096 then (- EINVAL, s)
      else if \<not> arm_is_user_buffer buf n then (- EFAULT, s)
      else (int (unat n), fold (\<lambda>i. arm_putc (um (buf + of_nat i))) [0..<unat n] s))"

definition arm_sys_sleep :: "u32 \<Rightarrow> u32 \<Rightarrow> arm_sched \<Rightarrow> (int \<times> arm_sched) option" where
  "arm_sys_sleep ms saved_sp s =
     (if ms > 0x7FFFFFFF then Some (- EINVAL, s)
      else map_option (\<lambda>s. (0, s)) (arm_task_set_sleep ms saved_sp s))"

definition arm_syscall_entry ::
    "(u32 \<Rightarrow> u8) \<Rightarrow> u32 \<Rightarrow> arm_user_frame \<times> arm_sched \<Rightarrow> (arm_user_frame \<times> arm_sched) option" where
  "arm_syscall_entry um saved_sp fs =
     (let (frame, s) = fs; num = fr_r7 frame
      in case (if num = 1 then map_option (\<lambda>s. (0, s)) (arm_task_exit saved_sp s)
               else if num = 4 then Some (arm_sys_write um (fr_r0 frame) (fr_r1 frame) (fr_r2 frame) s)
               else if num = 122 then Some (int (acurrent s), s)
               else if num = 158 then map_option (\<lambda>s. (0, s)) (arm_schedule saved_sp s)
               else if num = 230 then arm_sys_sleep (fr_r0 frame) saved_sp s
               else Some (- ENOSYS, s)) of
           None \<Rightarrow> None
         | Some (ret, s) \<Rightarrow> Some (frame\<lparr>fr_r0 := word_of_int ret\<rparr>, s))"

section \<open>The invariant\<close>

text \<open>
  One task runs and it is the current one, the idle task is never lost, and every task that waits
  to run has a stack pointer. Between the change of the current task's state and the switch away
  from it the current task need not be running, which is \<open>arm_sched_pre\<close>.
\<close>

definition arm_sched_pre :: "arm_sched \<Rightarrow> bool" where
  "arm_sched_pre s \<longleftrightarrow> 0 < anum s \<and> anum s \<le> 4 \<and> acurrent s < anum s \<and>
     (\<forall>i<anum s. arm_state s i = ARM_RUNNING \<longrightarrow> i = acurrent s) \<and>
     arm_state s 0 \<in> {ARM_READY, ARM_RUNNING} \<and>
     (\<forall>i<anum s. i \<noteq> acurrent s \<longrightarrow> arm_state s i \<in> {ARM_READY, ARM_SLEEPING} \<longrightarrow> ts_sp (atasks s i) \<noteq> 0)"

definition arm_sched_inv :: "arm_sched \<Rightarrow> bool" where
  "arm_sched_inv s \<longleftrightarrow> arm_sched_pre s \<and> arm_state s (acurrent s) = ARM_RUNNING"

definition arm_runnable :: "arm_sched \<Rightarrow> nat \<Rightarrow> bool" where
  "arm_runnable s i \<longleftrightarrow> arm_state s i \<in> {ARM_READY, ARM_RUNNING}"

definition arm_candidate :: "arm_sched \<Rightarrow> nat \<Rightarrow> nat" where
  "arm_candidate s d = (acurrent s + 1 + d) mod anum s"

lemma arm_on_task_simps [simp]:
  "acurrent (arm_on_task i f s) = acurrent s" "anum (arm_on_task i f s) = anum s"
  "atick (arm_on_task i f s) = atick s" "aquantum (arm_on_task i f s) = aquantum s"
  "atasks (arm_on_task i f s) j = (if j = i then f (atasks s i) else atasks s j)"
  "arm_state (arm_on_task i f s) j = (if j = i then ts_state (f (atasks s i)) else arm_state s j)"
  by (simp_all add: arm_on_task_def arm_state_def)

lemma arm_state_simps [simp]:
  "arm_state (s\<lparr>acurrent := c\<rparr>) = arm_state s" "arm_state (s\<lparr>aquantum := q\<rparr>) = arm_state s"
  "arm_state (s\<lparr>anum := m\<rparr>) = arm_state s"
  "arm_state (s\<lparr>atick := t\<rparr>) = arm_state s" "arm_state (s\<lparr>auart := u\<rparr>) = arm_state s"
  by (simp_all add: arm_state_def fun_eq_iff)

lemma arm_candidate_lt: "0 < anum s \<Longrightarrow> arm_candidate s d < anum s"
  by (simp add: arm_candidate_def)

lemma arm_candidate_cover:
  assumes "acurrent s < anum s" and "x < anum s"
  obtains d where "d < anum s" and "arm_candidate s d = x"
proof (cases "acurrent s < x")
  case True
  then have "arm_candidate s (x - acurrent s - 1) = x" using assms by (simp add: arm_candidate_def)
  then show thesis using that [of "x - acurrent s - 1"] assms by simp
next
  case False
  let ?d = "x + anum s - acurrent s - 1"
  have "acurrent s + 1 + ?d = x + anum s" using assms by simp
  then have "arm_candidate s ?d = x" unfolding arm_candidate_def using assms by simp
  then show thesis using that [of ?d] assms False by simp
qed

lemma arm_pick_some:
  assumes "acurrent s < anum s" and "arm_state s 0 = ARM_READY"
  obtains d where "d < anum s" and "arm_pick s = Some (arm_candidate s d)"
    and "arm_state s (arm_candidate s d) = ARM_READY"
    and "\<forall>e<d. arm_state s (arm_candidate s e) \<noteq> ARM_READY"
proof -
  have eq: "arm_pick s = find (\<lambda>c. arm_state s c = ARM_READY) (map (arm_candidate s) [0..<anum s])"
  proof -
    have "(\<lambda>i. (acurrent s + 1 + i) mod anum s) = arm_candidate s" by (simp add: arm_candidate_def fun_eq_iff)
    then show ?thesis by (simp only: arm_pick_def)
  qed
  have "0 < anum s" using assms(1) by simp
  then obtain d0 where "d0 < anum s" "arm_candidate s d0 = 0" using arm_candidate_cover [OF assms(1)] by blast
  then have "0 \<in> set (map (arm_candidate s) [0..<anum s])" by force
  then have "arm_pick s \<noteq> None" using assms(2) unfolding eq find_None_iff by blast
  then obtain c where c: "arm_pick s = Some c" by blast
  then obtain d where "d < anum s" "c = arm_candidate s d" "arm_state s c = ARM_READY"
    "\<forall>e<d. arm_state s (arm_candidate s e) \<noteq> ARM_READY"
    unfolding eq find_Some_iff by auto
  then show thesis using that c by simp
qed

lemma arm_schedule_picks:
  assumes pre: "arm_sched_pre s" and sp: "saved_sp \<noteq> 0"
  obtains s' d where "arm_schedule saved_sp s = Some s'" and "d < anum s"
    and "acurrent s' = arm_candidate s d" and "arm_runnable s (arm_candidate s d)"
    and "\<forall>e<d. \<not> arm_runnable s (arm_candidate s e)" and "arm_sched_inv s'" and "anum s' = anum s"
    and "\<forall>i. i \<noteq> acurrent s \<longrightarrow> i \<noteq> acurrent s' \<longrightarrow> atasks s' i = atasks s i"
    and "acurrent s' \<noteq> acurrent s \<Longrightarrow> ts_sp (atasks s' (acurrent s)) = saved_sp \<and>
      acpu_sp s' = ts_sp (atasks s (acurrent s')) \<and> acpu_ttbr0 s' = ts_ttbr0 (atasks s (acurrent s')) \<and>
      arm_state s' (acurrent s) =
        (if arm_state s (acurrent s) = ARM_RUNNING then ARM_READY else arm_state s (acurrent s))"
    and "\<forall>i. ts_wakeup (atasks s' i) = ts_wakeup (atasks s i)" and "atick s' = atick s"
proof -
  let ?cur = "acurrent s"
  define s1 where "s1 = (if arm_state s ?cur = ARM_RUNNING
               then arm_on_task ?cur (\<lambda>t. t\<lparr>ts_state := ARM_READY\<rparr>) s else s)"
  have b: "0 < anum s" "anum s \<le> 4" "?cur < anum s" using pre by (auto simp: arm_sched_pre_def)
  have f1: "acurrent s1 = ?cur" "anum s1 = anum s" "atick s1 = atick s" by (simp_all add: s1_def)
  have cd: "arm_candidate s1 = arm_candidate s" by (simp add: arm_candidate_def f1 fun_eq_iff)
  have st: "arm_state s1 i = (if arm_state s i = ARM_RUNNING \<and> i = ?cur then ARM_READY else arm_state s i)" for i
    by (simp add: s1_def)
  have ready: "arm_state s1 i = ARM_READY \<longleftrightarrow> arm_runnable s i" if "i < anum s" for i
    using pre that by (auto simp: st arm_runnable_def arm_sched_pre_def)
  have nr: "arm_state s1 i \<noteq> ARM_RUNNING" if "i < anum s" for i
    using pre that by (auto simp: st arm_sched_pre_def)
  have z: "arm_state s1 0 = ARM_READY" using pre b by (auto simp: ready arm_runnable_def arm_sched_pre_def)
  obtain d where d: "d < anum s" "arm_pick s1 = Some (arm_candidate s d)"
    "arm_state s1 (arm_candidate s d) = ARM_READY" "\<forall>e<d. arm_state s1 (arm_candidate s e) \<noteq> ARM_READY"
    using arm_pick_some [of s1] z b f1 cd by metis
  let ?n = "arm_candidate s d"
  have n: "?n < anum s" using b(1) by (rule arm_candidate_lt)
  have run: "arm_schedule saved_sp s = arm_switch_to ?n saved_sp s1"
    unfolding arm_schedule_def Let_def s1_def [symmetric] by (simp add: d(2))
  have r: "arm_runnable s ?n" "\<forall>e<d. \<not> arm_runnable s (arm_candidate s e)"
    using d(3,4) ready arm_candidate_lt [OF b(1)] by auto
  have tk: "ts_sp (atasks s1 i) = ts_sp (atasks s i)" "ts_ttbr0 (atasks s1 i) = ts_ttbr0 (atasks s i)"
    "ts_wakeup (atasks s1 i) = ts_wakeup (atasks s i)" "i \<noteq> ?cur \<Longrightarrow> atasks s1 i = atasks s i" for i
    by (simp_all add: s1_def)
  show thesis
  proof (cases "?n = ?cur")
    case True
    define s' where "s' = arm_on_task ?n (\<lambda>t. t\<lparr>ts_state := ARM_RUNNING\<rparr>) s1"
    have run': "arm_schedule saved_sp s = Some s'" using True by (simp add: run arm_switch_to_def f1 s'_def)
    have st': "arm_state s' i = (if i = ?n then ARM_RUNNING else arm_state s1 i)" for i
      by (simp add: s'_def)
    have sp': "ts_sp (atasks s' i) = ts_sp (atasks s i)" for i by (simp add: s'_def tk)
    have f': "acurrent s' = ?cur" "anum s' = anum s" by (simp_all add: s'_def f1)
    have inv': "arm_sched_inv s'"
      using pre b nr z unfolding arm_sched_inv_def arm_sched_pre_def f' sp' st'
      by (auto simp: True st)
    show thesis
      by (rule that [OF run' d(1) _ r inv']) (auto simp: s'_def f1 True tk)
  next
    case False
    then have sn: "ts_sp (atasks s ?n) \<noteq> 0"
      using pre n r(1) ready [OF n] d(3) by (auto simp: arm_sched_pre_def arm_runnable_def)
    define s' where "s' = arm_context_switch ?cur ?n saved_sp
      ((arm_on_task ?n (\<lambda>t. t\<lparr>ts_state := ARM_RUNNING\<rparr>) s1)\<lparr>acurrent := ?n\<rparr>)"
    have run': "arm_schedule saved_sp s = Some s'"
      using False sn by (simp add: run arm_switch_to_def f1 s'_def tk Let_def)
    have f': "acurrent s' = ?n" "anum s' = anum s" "atick s' = atick s"
      by (simp_all add: s'_def arm_context_switch_def f1)
    have st': "arm_state s' i = (if i = ?n then ARM_RUNNING else arm_state s1 i)" for i
      using False by (simp add: s'_def arm_context_switch_def arm_state_def arm_on_task_def)
    have sp': "ts_sp (atasks s' i) = (if i = ?cur then saved_sp else ts_sp (atasks s i))" for i
      using False by (simp add: s'_def arm_context_switch_def arm_on_task_def tk)
    have one: "\<forall>i<anum s. arm_state s' i = ARM_RUNNING \<longrightarrow> i = ?n" using nr by (simp add: st')
    have idle: "arm_state s' 0 \<in> {ARM_READY, ARM_RUNNING}" using z by (simp add: st')
    have sps: "ts_sp (atasks s' i) \<noteq> 0"
      if "i < anum s" "i \<noteq> ?n" "arm_state s' i \<in> {ARM_READY, ARM_SLEEPING}" for i
    proof (cases "i = ?cur")
      case False
      then have "arm_state s i \<in> {ARM_READY, ARM_SLEEPING}" using that(2,3) by (simp add: st' st)
      then show ?thesis using pre that(1) False by (auto simp: sp' arm_sched_pre_def)
    qed (simp add: sp' sp)
    have "arm_state s' ?n = ARM_RUNNING" by (simp add: st')
    then have inv': "arm_sched_inv s'"
      using b n one idle sps unfolding arm_sched_inv_def arm_sched_pre_def f' by blast
    have o: "\<forall>i. i \<noteq> ?cur \<longrightarrow> i \<noteq> acurrent s' \<longrightarrow> atasks s' i = atasks s i"
      unfolding f' using tk(4) by (simp add: s'_def arm_context_switch_def arm_on_task_def)
    have w: "\<forall>i. ts_wakeup (atasks s' i) = ts_wakeup (atasks s i)"
      by (simp add: s'_def arm_context_switch_def arm_on_task_def tk)
    have c: "acpu_sp s' = ts_sp (atasks s ?n)" "acpu_ttbr0 s' = ts_ttbr0 (atasks s ?n)"
      using False by (simp_all add: s'_def arm_context_switch_def arm_on_task_def tk)
    have l: "ts_sp (atasks s' ?cur) = saved_sp \<and> acpu_sp s' = ts_sp (atasks s (acurrent s')) \<and>
        acpu_ttbr0 s' = ts_ttbr0 (atasks s (acurrent s')) \<and> arm_state s' ?cur =
        (if arm_state s ?cur = ARM_RUNNING then ARM_READY else arm_state s ?cur)"
      unfolding f' c using False by (simp add: sp' st' st)
    show thesis by (rule that [OF run' d(1) f'(1) r inv' f'(2) o l w f'(3)])
  qed
qed

section \<open>Every event keeps the invariant and none halts\<close>

lemma arm_wake_one_simps [simp]:
  "acurrent (arm_wake_one t i s) = acurrent s" "anum (arm_wake_one t i s) = anum s"
  "atick (arm_wake_one t i s) = atick s" "aquantum (arm_wake_one t i s) = aquantum s"
  "ts_sp (atasks (arm_wake_one t i s) j) = ts_sp (atasks s j)"
  "ts_wakeup (atasks (arm_wake_one t i s) j) = ts_wakeup (atasks s j)"
  "arm_state (arm_wake_one t i s) j =
     (if j = i \<and> arm_state s i = ARM_SLEEPING \<and> t \<ge> ts_wakeup (atasks s i) then ARM_READY else arm_state s j)"
  by (simp_all add: arm_wake_one_def)

lemma fold_wake_spec:
  "acurrent (fold (arm_wake_one t) [0..<n] s) = acurrent s"
  "anum (fold (arm_wake_one t) [0..<n] s) = anum s"
  "atick (fold (arm_wake_one t) [0..<n] s) = atick s"
  "ts_sp (atasks (fold (arm_wake_one t) [0..<n] s) j) = ts_sp (atasks s j)"
  "ts_wakeup (atasks (fold (arm_wake_one t) [0..<n] s) j) = ts_wakeup (atasks s j)"
  "arm_state (fold (arm_wake_one t) [0..<n] s) j =
     (if j < n \<and> arm_state s j = ARM_SLEEPING \<and> t \<ge> ts_wakeup (atasks s j) then ARM_READY else arm_state s j)"
  by (induction n) (auto simp: less_Suc_eq)

lemma arm_inv_wake:
  assumes "arm_sched_inv s"
  shows "arm_sched_inv (arm_task_check_wakeup t s)"
  using assms unfolding arm_sched_inv_def arm_sched_pre_def arm_task_check_wakeup_def fold_wake_spec
  by auto

lemma arm_inv_update [simp]:
  "arm_sched_inv (s\<lparr>atick := x\<rparr>) = arm_sched_inv s" "arm_sched_inv (s\<lparr>aquantum := y\<rparr>) = arm_sched_inv s"
  "arm_sched_inv (s\<lparr>auart := z\<rparr>) = arm_sched_inv s"
  by (simp_all add: arm_sched_inv_def arm_sched_pre_def)

lemma arm_schedule_inv:
  assumes "arm_sched_pre s" and "saved_sp \<noteq> 0"
  obtains s' where "arm_schedule saved_sp s = Some s'" and "arm_sched_inv s'"
    and "arm_runnable s (acurrent s')" and "anum s' = anum s"
  using arm_schedule_picks [OF assms] by metis

lemma arm_timer_inv:
  assumes "arm_sched_inv s" and "saved_sp \<noteq> 0"
  obtains s' where "timer_irq_handler saved_sp s = Some s'" and "arm_sched_inv s'"
proof -
  let ?w = "arm_task_check_wakeup (atick s + 1) (s\<lparr>atick := atick s + 1\<rparr>)"
  have w: "arm_sched_inv (?w\<lparr>aquantum := x\<rparr>)" for x using assms(1) by (simp add: arm_inv_wake)
  then have p: "arm_sched_pre (?w\<lparr>aquantum := x\<rparr>)" for x by (simp add: arm_sched_inv_def)
  show thesis
  proof (cases "aquantum ?w + 1 \<ge> 10")
    case True
    obtain s' where "arm_schedule saved_sp (?w\<lparr>aquantum := 0\<rparr>) = Some s'" "arm_sched_inv s'"
      using arm_schedule_inv [OF p [of 0] assms(2)] by blast
    then show thesis using that [of s'] True by (simp add: timer_irq_handler_def hal_timer_tick_def Let_def)
  next
    case False
    then show thesis using that [of "?w\<lparr>aquantum := aquantum ?w + 1\<rparr>"] w
      by (simp add: timer_irq_handler_def hal_timer_tick_def Let_def)
  qed
qed

lemma arm_pre_leave:
  assumes "arm_sched_inv s" and "acurrent s \<noteq> 0" and "st \<noteq> ARM_RUNNING"
    and "\<And>t. ts_state (f t) = st"
  shows "arm_sched_pre (arm_on_task (acurrent s) f s)"
  using assms unfolding arm_sched_inv_def arm_sched_pre_def by auto

lemma arm_idle_ready_id:
  assumes "arm_sched_pre s"
  shows "arm_sched_pre (arm_idle_ready s)"
proof (cases "arm_state s 0 = ARM_RUNNING")
  case False
  then have z: "arm_state s 0 = ARM_READY" using assms by (auto simp: arm_sched_pre_def)
  have st: "arm_state (arm_idle_ready s) i = arm_state s i" "ts_sp (atasks (arm_idle_ready s) i) = ts_sp (atasks s i)"
    "acurrent (arm_idle_ready s) = acurrent s" "anum (arm_idle_ready s) = anum s" for i
    using z by (simp_all add: arm_idle_ready_def)
  show ?thesis using assms unfolding arm_sched_pre_def st .
qed (use assms in \<open>simp add: arm_idle_ready_def\<close>)

lemma arm_exit_inv:
  assumes "arm_sched_inv s" and "acurrent s \<noteq> 0" and "saved_sp \<noteq> 0"
  obtains s' where "arm_task_exit saved_sp s = Some s'" and "arm_sched_inv s'" and "acurrent s' \<noteq> acurrent s"
    and "arm_task_fault_kill saved_sp s = Some s'"
proof -
  let ?s = "arm_on_task (acurrent s) (\<lambda>t. t\<lparr>ts_state := ARM_FREE\<rparr>) s"
  have "arm_sched_pre (arm_idle_ready ?s)"
    using arm_idle_ready_id [OF arm_pre_leave [OF assms(1,2)], of ARM_FREE] by simp
  then obtain s' where s': "arm_schedule saved_sp (arm_idle_ready ?s) = Some s'" "arm_sched_inv s'"
    "arm_runnable (arm_idle_ready ?s) (acurrent s')" using arm_schedule_inv assms(3) by blast
  have "arm_state (arm_idle_ready ?s) (acurrent s) = ARM_FREE" using assms(2) by (simp add: arm_idle_ready_def)
  then have ne: "acurrent s' \<noteq> acurrent s" using s'(3) by (auto simp: arm_runnable_def)
  have "acurrent s < anum s" using assms(1) by (simp add: arm_sched_inv_def arm_sched_pre_def)
  then show thesis
    using that [OF _ s'(2) ne] s'(1) ne assms(2) by (simp add: arm_task_exit_def arm_task_fault_kill_def)
qed

lemma arm_putc_fold: "\<exists>u. fold (\<lambda>i. arm_putc (f i)) xs s = s\<lparr>auart := u\<rparr>"
proof (induction xs arbitrary: s)
  case Nil
  show ?case by (intro exI [of _ "auart s"]) simp
next
  case (Cons x xs)
  obtain u where h: "fold (\<lambda>i. arm_putc (f i)) xs (arm_putc (f x) s) = (arm_putc (f x) s)\<lparr>auart := u\<rparr>"
    using Cons.IH by blast
  show ?case by (intro exI [of _ u]) (simp add: h, simp add: arm_putc_def)
qed

lemma arm_syscall_inv:
  assumes inv: "arm_sched_inv s" and cur: "acurrent s \<noteq> 0" and sp: "saved_sp \<noteq> 0"
  obtains fr' s' where "arm_syscall_entry um saved_sp (fr, s) = Some (fr', s')" and "arm_sched_inv s'"
proof -
  have pre: "arm_sched_pre s" using inv by (simp add: arm_sched_inv_def)
  consider "fr_r7 fr = 1" | "fr_r7 fr = 4" | "fr_r7 fr = 122" | "fr_r7 fr = 158" | "fr_r7 fr = 230"
    | "fr_r7 fr \<notin> {1, 4, 122, 158, 230}" by blast
  then show thesis
  proof cases
    case 1
    obtain s' where s': "arm_task_exit saved_sp s = Some s'" "arm_sched_inv s'"
      using arm_exit_inv [OF inv cur sp] by blast
    show thesis by (rule that [OF _ s'(2)]) (simp add: arm_syscall_entry_def 1 s'(1))
  next
    case 2
    obtain u where u: "fold (\<lambda>i. arm_putc (um (fr_r1 fr + of_nat i))) [0..<unat (fr_r2 fr)] s = s\<lparr>auart := u\<rparr>"
      using arm_putc_fold [of "\<lambda>i. um (fr_r1 fr + of_nat i)"] by blast
    obtain ret s' where w: "arm_sys_write um (fr_r0 fr) (fr_r1 fr) (fr_r2 fr) s = (ret, s')" by fastforce
    then have "arm_sched_inv s'" using inv by (auto simp: arm_sys_write_def u split: if_splits)
    then show thesis by (rule that [rotated]) (simp add: arm_syscall_entry_def 2 w)
  next
    case 4
    obtain s' where s': "arm_schedule saved_sp s = Some s'" "arm_sched_inv s'"
      using arm_schedule_inv [OF pre sp] by blast
    show thesis by (rule that [OF _ s'(2)]) (simp add: arm_syscall_entry_def 4 s'(1))
  next
    case 5
    have "arm_sched_pre (arm_on_task (acurrent s)
        (\<lambda>t. t\<lparr>ts_wakeup := atick s + ucast (fr_r0 fr), ts_state := ARM_SLEEPING\<rparr>) s)"
      by (rule arm_pre_leave [OF inv cur, of ARM_SLEEPING]) simp_all
    from arm_schedule_inv [OF this sp] obtain s' where s': "arm_schedule saved_sp (arm_on_task (acurrent s)
        (\<lambda>t. t\<lparr>ts_wakeup := atick s + ucast (fr_r0 fr), ts_state := ARM_SLEEPING\<rparr>) s) = Some s'"
      "arm_sched_inv s'" by blast
    then show thesis using that 5 inv
      by (cases "fr_r0 fr > 0x7FFFFFFF"; cases "fr_r0 fr = 0")
        (auto simp: arm_syscall_entry_def arm_sys_sleep_def arm_task_set_sleep_def)
  qed (use that inv in \<open>auto simp: arm_syscall_entry_def\<close>)
qed

section \<open>All runs\<close>

abbreviation (input) ARM_USER_CODE_VA_4K :: u32 where "ARM_USER_CODE_VA_4K \<equiv> 0x1000"
abbreviation (input) ARM_USER_STACK_VA_4K :: u32 where "ARM_USER_STACK_VA_4K \<equiv> 0x3000"

text \<open>The three tasks the kernel starts with; \<open>fst sp\<close> is the state of memory, where the stacks lie.\<close>

definition arm_create_tasks ::
    "u32 \<Rightarrow> u32 \<Rightarrow> u32 \<Rightarrow> u32 \<Rightarrow> u32 \<Rightarrow> u32 \<Rightarrow> (u32 \<Rightarrow> u32) \<times> arm_sched \<Rightarrow> (u32 \<Rightarrow> u32) \<times> arm_sched" where
  "arm_create_tasks trampoline boot_ttbr0 space_a space_b kstack_a kstack_b ms =
     (let (mem, s) = ms;
          s = arm_on_task 0 (\<lambda>t. t\<lparr>ts_sp := 0, ts_ttbr0 := boot_ttbr0, ts_space := 0, ts_pid := 0,
                                  ts_name := map (word_of_nat :: nat \<Rightarrow> u8) [105, 100, 108, 101],
                                  ts_state := ARM_RUNNING\<rparr>) s;
          s = s\<lparr>acurrent := 0, anum := 3\<rparr>;
          s = arm_on_task 1 (\<lambda>t. t\<lparr>ts_ttbr0 := space_a, ts_space := PHYS_TO_VIRT space_a\<rparr>) s;
          ms = arm_task_create_user trampoline 1 1 (map word_of_nat [117, 115, 101, 114, 95, 97])
                 ARM_USER_CODE_VA_4K ARM_USER_STACK_VA_4K kstack_a 4096 (mem, s);
          ms = (fst ms, arm_on_task 2 (\<lambda>t. t\<lparr>ts_ttbr0 := space_b, ts_space := PHYS_TO_VIRT space_b\<rparr>) (snd ms))
      in arm_task_create_user trampoline 2 2 (map word_of_nat [117, 115, 101, 114, 95, 98])
           ARM_USER_CODE_VA_4K ARM_USER_STACK_VA_4K kstack_b 4096 ms)"

text \<open>
  What can happen: a timer interrupt at any time, and, while a user task runs, a system call with any
  registers and any user memory, or a fault. Each names the stack pointer a switch would store.
\<close>

datatype arm_event =
  Arm_Tick u32
| Arm_Syscall "u32 \<Rightarrow> u8" u32 arm_user_frame
| Arm_Fault u32

definition arm_event_sp :: "arm_event \<Rightarrow> u32" where
  "arm_event_sp e = (case e of Arm_Tick sp \<Rightarrow> sp | Arm_Syscall _ sp _ \<Rightarrow> sp | Arm_Fault sp \<Rightarrow> sp)"

definition arm_possible :: "arm_event \<Rightarrow> arm_sched \<Rightarrow> bool" where
  "arm_possible e s \<longleftrightarrow> arm_event_sp e \<noteq> 0 \<and> (case e of Arm_Tick _ \<Rightarrow> True | _ \<Rightarrow> acurrent s \<noteq> 0)"

definition arm_handle :: "arm_event \<Rightarrow> arm_sched \<Rightarrow> arm_sched option" where
  "arm_handle e s =
     (case e of
        Arm_Tick sp \<Rightarrow> timer_irq_handler sp s
      | Arm_Syscall um sp fr \<Rightarrow> map_option snd (arm_syscall_entry um sp (fr, s))
      | Arm_Fault sp \<Rightarrow> arm_task_fault_kill sp s)"

inductive arm_reachable :: "arm_sched \<Rightarrow> arm_sched \<Rightarrow> bool" for s0 where
  arm_start: "arm_reachable s0 s0"
| arm_next: "arm_reachable s0 s \<Longrightarrow> arm_possible e s \<Longrightarrow> arm_handle e s = Some s' \<Longrightarrow> arm_reachable s0 s'"

inductive_cases arm_reachable_cases: "arm_reachable s0 s"

lemma arm_handle_inv:
  assumes "arm_sched_inv s" and "arm_possible e s"
  obtains s' where "arm_handle e s = Some s'" and "arm_sched_inv s'"
proof (cases e)
  case (Arm_Tick sp)
  then show thesis using arm_timer_inv [OF assms(1), of sp] assms(2) that
    by (auto simp: arm_possible_def arm_event_sp_def arm_handle_def)
next
  case (Arm_Syscall um sp fr)
  then have "acurrent s \<noteq> 0" "sp \<noteq> 0" using assms(2) by (simp_all add: arm_possible_def arm_event_sp_def)
  from arm_syscall_inv [OF assms(1) this, of um fr] Arm_Syscall that show thesis
    by (auto simp: arm_handle_def)
next
  case (Arm_Fault sp)
  then have "acurrent s \<noteq> 0" "sp \<noteq> 0" using assms(2) by (simp_all add: arm_possible_def arm_event_sp_def)
  from arm_exit_inv [OF assms(1) this] Arm_Fault that show thesis
    by (auto simp: arm_handle_def)
qed

lemma arm_reachable_inv: "arm_reachable s0 s \<Longrightarrow> arm_sched_inv s0 \<Longrightarrow> arm_sched_inv s"
proof (induction rule: arm_reachable.induct)
  case (arm_next s e s')
  then show ?case using arm_handle_inv [of s e] by (metis option.inject)
qed

lemma arm_create_tasks_inv:
  assumes "(kstack_a + 4096) AND NOT 7 \<noteq> 40" and "(kstack_b + 4096) AND NOT 7 \<noteq> 40"
  shows "arm_sched_inv (snd (arm_create_tasks tr bt sa sb kstack_a kstack_b ms))"
proof -
  obtain mem s where ms: "ms = (mem, s)" by (cases ms)
  have three: "i = 0 \<or> i = 1 \<or> i = 2" if "i < 3" for i :: nat using that by linarith
  have "(x :: u32) - 40 = 0 \<longleftrightarrow> x = 40" for x by (simp add: algebra_simps)
  then show ?thesis using assms
    unfolding arm_sched_inv_def arm_sched_pre_def ms arm_create_tasks_def arm_task_create_user_def Let_def
    by (auto dest!: three)
qed

text \<open>C12. From the tasks the kernel starts with, under any sequence of timer interrupts, system calls
  and user faults, every event is handled without a halt, exactly the current task is running, the
  idle task is ready or running, and every task waiting for the processor has a saved stack.\<close>

theorem arm_scheduler_safe:
  assumes "(kstack_a + 4096) AND NOT 7 \<noteq> 40" and "(kstack_b + 4096) AND NOT 7 \<noteq> 40"
    and "arm_reachable (snd (arm_create_tasks tr bt sa sb kstack_a kstack_b ms)) s" and "arm_possible e s"
  shows "arm_handle e s \<noteq> None \<and> acurrent s < anum s \<and>
    (\<forall>i<anum s. arm_state s i = ARM_RUNNING \<longleftrightarrow> i = acurrent s) \<and>
    arm_state s 0 \<in> {ARM_READY, ARM_RUNNING} \<and>
    (\<forall>i<anum s. i \<noteq> acurrent s \<longrightarrow> arm_state s i \<in> {ARM_READY, ARM_SLEEPING} \<longrightarrow> ts_sp (atasks s i) \<noteq> 0)"
proof -
  have inv: "arm_sched_inv s" by (rule arm_reachable_inv [OF assms(3) arm_create_tasks_inv [OF assms(1,2)]])
  then have "arm_handle e s \<noteq> None" using arm_handle_inv [OF inv assms(4)] by auto
  then show ?thesis using inv by (auto simp: arm_sched_inv_def arm_sched_pre_def)
qed

definition arm_sched_zero :: arm_sched where
  "arm_sched_zero = \<lparr>atasks = (\<lambda>_. \<lparr>ts_sp = 0, ts_ttbr0 = 0, ts_space = 0, ts_pid = 0, ts_name = [],
     ts_state = ARM_FREE, ts_wakeup = 0\<rparr>), acurrent = 0, anum = 0, atick = 0, aquantum = 0,
     auart = [], acpu_sp = 0, acpu_ttbr0 = 0\<rparr>"

definition arm_sched_demo :: arm_sched where
  "arm_sched_demo = snd (arm_create_tasks 0xC0010000 0x4000 0x100000 0x104000 0xC0020000 0xC0021000
     (\<lambda>_. 0, arm_sched_zero))"

lemma arm_scheduler_safe_witness:
  "arm_handle (Arm_Tick 0xC0030000) arm_sched_demo \<noteq> None \<and> acurrent arm_sched_demo < anum arm_sched_demo"
proof -
  have "arm_possible (Arm_Tick 0xC0030000) arm_sched_demo" by (simp add: arm_possible_def arm_event_sp_def)
  moreover have "(0xC0020000 + 4096 :: u32) AND NOT 7 \<noteq> 40" "(0xC0021000 + 4096 :: u32) AND NOT 7 \<noteq> 40"
    by code_simp+
  ultimately show ?thesis
    using arm_scheduler_safe [of "0xC0020000" "0xC0021000" "0xC0010000" "0x4000" "0x100000" "0x104000"
        "(\<lambda>_. 0, arm_sched_zero)" arm_sched_demo "Arm_Tick 0xC0030000"] arm_start [of arm_sched_demo]
    by (simp only: arm_sched_demo_def [symmetric] simp_thms)
qed

lemma arm_sched_demo_inv: "arm_sched_inv arm_sched_demo"
  unfolding arm_sched_demo_def by (rule arm_create_tasks_inv) code_simp+

text \<open>The scheduler gives the processor to the first runnable task behind the current one, in the
  cyclic order of the table; it stores the stack of the task it leaves, loads stack and translation
  table of the task it enters, and touches no third task.\<close>

theorem arm_schedule_round_robin:
  assumes "arm_sched_pre s" and "saved_sp \<noteq> 0" and "arm_schedule saved_sp s = Some s'"
  shows "\<exists>d<anum s. acurrent s' = arm_candidate s d \<and> arm_runnable s (acurrent s') \<and>
      (\<forall>e<d. \<not> arm_runnable s (arm_candidate s e)) \<and> arm_state s' (acurrent s') = ARM_RUNNING \<and>
      (\<forall>i. i \<noteq> acurrent s \<longrightarrow> i \<noteq> acurrent s' \<longrightarrow> atasks s' i = atasks s i) \<and>
      (acurrent s' \<noteq> acurrent s \<longrightarrow> ts_sp (atasks s' (acurrent s)) = saved_sp \<and>
         acpu_sp s' = ts_sp (atasks s (acurrent s')) \<and> acpu_ttbr0 s' = ts_ttbr0 (atasks s (acurrent s')) \<and>
         arm_state s' (acurrent s) =
           (if arm_state s (acurrent s) = ARM_RUNNING then ARM_READY else arm_state s (acurrent s)))"
proof -
  obtain t d where t: "arm_schedule saved_sp s = Some t" "d < anum s" "acurrent t = arm_candidate s d"
    "arm_runnable s (arm_candidate s d)" "\<forall>e<d. \<not> arm_runnable s (arm_candidate s e)" "arm_sched_inv t"
    "\<forall>i. i \<noteq> acurrent s \<longrightarrow> i \<noteq> acurrent t \<longrightarrow> atasks t i = atasks s i"
    "acurrent t \<noteq> acurrent s \<Longrightarrow> ts_sp (atasks t (acurrent s)) = saved_sp \<and>
      acpu_sp t = ts_sp (atasks s (acurrent t)) \<and> acpu_ttbr0 t = ts_ttbr0 (atasks s (acurrent t)) \<and>
      arm_state t (acurrent s) =
        (if arm_state s (acurrent s) = ARM_RUNNING then ARM_READY else arm_state s (acurrent s))"
    using arm_schedule_picks [OF assms(1,2)] by metis
  have "t = s'" using t(1) assms(3) by simp
  moreover have "arm_state t (acurrent t) = ARM_RUNNING" using t(6) by (simp add: arm_sched_inv_def)
  ultimately show ?thesis using t(2-5,7,8) by auto
qed

lemma arm_schedule_round_robin_witness:
  "\<exists>s'. arm_schedule 0xC0030000 arm_sched_demo = Some s' \<and> acurrent s' = 1 \<and> acpu_ttbr0 s' = 0x100000 \<and>
     ts_sp (atasks s' 0) = 0xC0030000"
proof -
  have pre: "arm_sched_pre arm_sched_demo" using arm_sched_demo_inv by (simp add: arm_sched_inv_def)
  have "(0xC0030000 :: u32) \<noteq> 0" by simp
  note inv = arm_schedule_inv [OF pre this]
  obtain s' where s': "arm_schedule 0xC0030000 arm_sched_demo = Some s'" using inv by blast
  have "(0xC0030000 :: u32) \<noteq> 0" by simp
  from arm_schedule_round_robin [OF pre this s'] obtain d where d: "d < anum arm_sched_demo"
    "acurrent s' = arm_candidate arm_sched_demo d" "\<forall>e<d. \<not> arm_runnable arm_sched_demo (arm_candidate arm_sched_demo e)"
    "acurrent s' \<noteq> acurrent arm_sched_demo \<longrightarrow> ts_sp (atasks s' (acurrent arm_sched_demo)) = 0xC0030000 \<and>
         acpu_ttbr0 s' = ts_ttbr0 (atasks arm_sched_demo (acurrent s'))" by blast
  have "arm_state arm_sched_demo 1 = ARM_READY" "arm_candidate arm_sched_demo 0 = 1"
    "acurrent arm_sched_demo = 0" "ts_ttbr0 (atasks arm_sched_demo 1) = 0x100000" by code_simp+
  then have "d = 0" using d(3) by (auto simp: arm_runnable_def)
  then show ?thesis using d s' \<open>arm_candidate arm_sched_demo 0 = 1\<close> \<open>acurrent arm_sched_demo = 0\<close>
    \<open>ts_ttbr0 (atasks arm_sched_demo 1) = 0x100000\<close> by auto
qed

text \<open>C34. A sleeping task wakes with the first timer interrupt at or after its time and not before:
  behind each interrupt the sleepers are those whose time has not come.\<close>

theorem arm_sleep_until_tick:
  assumes "arm_sched_inv s" and "saved_sp \<noteq> 0" and "timer_irq_handler saved_sp s = Some s'" and "i < anum s"
  shows "atick s' = atick s + 1 \<and> ts_wakeup (atasks s' i) = ts_wakeup (atasks s i) \<and>
    (arm_state s' i = ARM_SLEEPING \<longleftrightarrow>
     arm_state s i = ARM_SLEEPING \<and> atick s' < ts_wakeup (atasks s i))"
proof -
  let ?w = "arm_task_check_wakeup (atick s + 1) (s\<lparr>atick := atick s + 1\<rparr>)"
  have i: "i < anum s" by fact
  have st: "arm_state ?w i = (if arm_state s i = ARM_SLEEPING \<and> atick s + 1 \<ge> ts_wakeup (atasks s i)
      then ARM_READY else arm_state s i)" "ts_wakeup (atasks ?w i) = ts_wakeup (atasks s i)" "atick ?w = atick s + 1"
    using i by (simp_all add: arm_task_check_wakeup_def fold_wake_spec)
  have w: "arm_sched_inv (?w\<lparr>aquantum := 0\<rparr>)" using assms(1) by (simp add: arm_inv_wake)
  show ?thesis
  proof (cases "aquantum ?w + 1 \<ge> 10")
    case False
    then have "s' = ?w\<lparr>aquantum := aquantum ?w + 1\<rparr>"
      using assms(3) by (simp add: timer_irq_handler_def hal_timer_tick_def Let_def)
    then show ?thesis using st by (auto simp: not_le)
  next
    case True
    then have run: "arm_schedule saved_sp (?w\<lparr>aquantum := 0\<rparr>) = Some s'"
      using assms(3) by (simp add: timer_irq_handler_def hal_timer_tick_def Let_def)
    let ?q = "?w\<lparr>aquantum := 0\<rparr>"
    have pre: "arm_sched_pre ?q" using w by (simp add: arm_sched_inv_def)
    obtain t d where t: "arm_schedule saved_sp ?q = Some t" and "d < anum ?q"
      and ct: "acurrent t = arm_candidate ?q d" and rt: "arm_runnable ?q (arm_candidate ?q d)"
      and "\<forall>e<d. \<not> arm_runnable ?q (arm_candidate ?q e)" and ti: "arm_sched_inv t" and "anum t = anum ?q"
      and other: "\<forall>j. j \<noteq> acurrent ?q \<longrightarrow> j \<noteq> acurrent t \<longrightarrow> atasks t j = atasks ?q j"
      and left: "acurrent t \<noteq> acurrent ?q \<Longrightarrow> ts_sp (atasks t (acurrent ?q)) = saved_sp \<and>
        acpu_sp t = ts_sp (atasks ?q (acurrent t)) \<and> acpu_ttbr0 t = ts_ttbr0 (atasks ?q (acurrent t)) \<and>
        arm_state t (acurrent ?q) =
        (if arm_state ?q (acurrent ?q) = ARM_RUNNING then ARM_READY else arm_state ?q (acurrent ?q))"
      and wk: "\<forall>j. ts_wakeup (atasks t j) = ts_wakeup (atasks ?q j)" and tt: "atick t = atick ?q"
      by (rule arm_schedule_picks [OF pre assms(2)]) (rule that)
    have ts: "t = s'" using t run by simp
    have c: "arm_state ?q (acurrent ?q) = ARM_RUNNING" using w unfolding arm_sched_inv_def by blast
    have r: "arm_state t (acurrent t) = ARM_RUNNING" using ti by (simp add: arm_sched_inv_def)
    have "arm_state t i = ARM_SLEEPING \<longleftrightarrow> arm_state ?q i = ARM_SLEEPING"
    proof (cases "i = acurrent t")
      case True
      then show ?thesis using r rt unfolding True ct by (auto simp: arm_runnable_def)
    next
      case False
      show ?thesis
      proof (cases "i = acurrent ?q")
        case True
        then have "acurrent t \<noteq> acurrent ?q" using False by simp
        then show ?thesis using left c unfolding True by simp
      next
        case neq: False
        have "arm_state t i = arm_state ?q i" using other neq False by (simp add: arm_state_def)
        then show ?thesis by simp
      qed
    qed
    then show ?thesis using st wk tt unfolding ts by (auto simp: not_le)
  qed
qed

definition arm_sleep_demo :: arm_sched where
  "arm_sleep_demo = arm_on_task 2 (\<lambda>t. t\<lparr>ts_state := ARM_SLEEPING, ts_wakeup := 1\<rparr>) arm_sched_demo"

lemma arm_sleep_until_tick_witness:
  "arm_state arm_sleep_demo 2 = ARM_SLEEPING \<and>
   (\<exists>s'. timer_irq_handler 0xC0030000 arm_sleep_demo = Some s' \<and> arm_state s' 2 \<noteq> ARM_SLEEPING)"
proof -
  have v: "acurrent arm_sched_demo = 0" "anum arm_sched_demo = 3" "ts_sp (atasks arm_sched_demo 2) \<noteq> 0"
    "atick arm_sched_demo = 0" by code_simp+
  have inv: "arm_sched_inv arm_sleep_demo"
    using arm_sched_demo_inv v unfolding arm_sched_inv_def arm_sched_pre_def arm_sleep_demo_def by auto
  have sp: "(0xC0030000 :: u32) \<noteq> 0" by simp
  obtain s' where s': "timer_irq_handler 0xC0030000 arm_sleep_demo = Some s'" using arm_timer_inv [OF inv sp] by blast
  have "2 < anum arm_sleep_demo" by (simp add: arm_sleep_demo_def v)
  from arm_sleep_until_tick [OF inv sp s' this] have "arm_state s' 2 \<noteq> ARM_SLEEPING"
    by (simp add: arm_sleep_demo_def v)
  then show ?thesis using s' by (simp add: arm_sleep_demo_def)
qed

text \<open>
  \<open>is_user_buffer\<close> looks at the first byte only: a buffer that begins at the last byte of user space
  passes and \<open>write\<close> sends kernel memory to the serial line.
\<close>

lemma arm_user_buffer_reaches_kernel:
  "arm_is_user_buffer 0xBFFFFFFF 4096 \<and> 0xBFFFFFFF + 1 \<ge> KERNEL_SPACE_START"
  by code_simp

end
