(* ===== verification/Arm_Irq.thy ===== *)
theory Arm_Irq
  imports Arm_Task
begin

text \<open>
  The interrupt controller and the exception entries of the ARM port (\<open>arch/arm/arm_irq.c\<close>), with the setup
  of the system timer (\<open>arch/arm/arm_timer.c\<close>). A handler is named by its address, 0 is none; what a call of it
  does is an argument \<open>call\<close> of the operations, \<open>None\<close> when it halts. Writes to device registers are kept in
  order, as pairs of physical address and value; what a register reads is an argument. A handler may
  switch tasks: the loop of the entry then goes on when its task runs again, and what other tasks did
  in between is part of the effect of the call.
\<close>

unbundle bit_operations_syntax

section \<open>Registers and state\<close>

abbreviation (input) BCM2835_IRQ_FIQ_CTRL :: u32 where "BCM2835_IRQ_FIQ_CTRL \<equiv> 0x2000B20C"
abbreviation (input) BCM2835_IRQ_ENABLE1 :: u32 where "BCM2835_IRQ_ENABLE1 \<equiv> 0x2000B210"
abbreviation (input) BCM2835_IRQ_ENABLE2 :: u32 where "BCM2835_IRQ_ENABLE2 \<equiv> 0x2000B214"
abbreviation (input) BCM2835_IRQ_ENABLE_BASIC :: u32 where "BCM2835_IRQ_ENABLE_BASIC \<equiv> 0x2000B218"
abbreviation (input) BCM2835_IRQ_DISABLE1 :: u32 where "BCM2835_IRQ_DISABLE1 \<equiv> 0x2000B21C"
abbreviation (input) BCM2835_IRQ_DISABLE2 :: u32 where "BCM2835_IRQ_DISABLE2 \<equiv> 0x2000B220"
abbreviation (input) BCM2835_IRQ_DISABLE_BASIC :: u32 where "BCM2835_IRQ_DISABLE_BASIC \<equiv> 0x2000B224"
abbreviation (input) BCM2835_ST_CS :: u32 where "BCM2835_ST_CS \<equiv> 0x20003000"
abbreviation (input) BCM2835_ST_C1 :: u32 where "BCM2835_ST_C1 \<equiv> 0x20003010"
abbreviation (input) BCM2835_ST_FREQUENCY :: u32 where "BCM2835_ST_FREQUENCY \<equiv> 1000000"
abbreviation (input) BCM2835_IRQ_TIMER1 :: u32 where "BCM2835_IRQ_TIMER1 \<equiv> 1"
abbreviation (input) HAL_IRQ_BASIC_BASE :: u32 where "HAL_IRQ_BASIC_BASE \<equiv> 64"
abbreviation (input) HAL_MAX_IRQ_LINES :: u32 where "HAL_MAX_IRQ_LINES \<equiv> 72"
abbreviation (input) ARM_MODE_USR :: u32 where "ARM_MODE_USR \<equiv> 0x10"

record arm_irq =
  irq_handlers :: "nat \<Rightarrow> u32"
  exception_handlers :: "nat \<Rightarrow> u32"
  mmio_writes :: "(u32 \<times> u32) list"
  timer_hz :: u32
  timer_interval_us :: u32

definition mmio_write :: "u32 \<Rightarrow> u32 \<Rightarrow> arm_irq \<Rightarrow> arm_irq" where
  "mmio_write phys_addr val q = q\<lparr>mmio_writes := mmio_writes q @ [(phys_addr, val)]\<rparr>"

section \<open>The controller\<close>

definition hal_irq_init :: "arm_irq \<Rightarrow> arm_irq" where
  "hal_irq_init q =
     (let q = mmio_write BCM2835_IRQ_DISABLE1 0xFFFFFFFF q;
          q = mmio_write BCM2835_IRQ_DISABLE2 0xFFFFFFFF q;
          q = mmio_write BCM2835_IRQ_DISABLE_BASIC 0xFF q;
          q = mmio_write BCM2835_IRQ_FIQ_CTRL 0 q
      in q\<lparr>irq_handlers := (\<lambda>i. if i < 72 then 0 else irq_handlers q i),
           exception_handlers := (\<lambda>i. if i < 8 then 0 else exception_handlers q i)\<rparr>)"

definition hal_irq_register :: "u32 \<Rightarrow> u32 \<Rightarrow> arm_irq \<Rightarrow> int \<times> arm_irq" where
  "hal_irq_register line handler q =
     (if line \<ge> HAL_MAX_IRQ_LINES then (- 1, q)
      else if handler = 0 then (- 1, q)
      else (0, q\<lparr>irq_handlers := (irq_handlers q)(unat line := handler)\<rparr>))"

definition hal_irq_enable_line :: "u32 \<Rightarrow> arm_irq \<Rightarrow> arm_irq" where
  "hal_irq_enable_line line q =
     (if line < 32 then mmio_write BCM2835_IRQ_ENABLE1 (push_bit (unat line) 1) q
      else if line < 64 then mmio_write BCM2835_IRQ_ENABLE2 (push_bit (unat (line - 32)) 1) q
      else if line < HAL_MAX_IRQ_LINES
      then mmio_write BCM2835_IRQ_ENABLE_BASIC (push_bit (unat (line - HAL_IRQ_BASIC_BASE)) 1) q
      else q)"

definition hal_irq_disable_line :: "u32 \<Rightarrow> arm_irq \<Rightarrow> arm_irq" where
  "hal_irq_disable_line line q =
     (if line < 32 then mmio_write BCM2835_IRQ_DISABLE1 (push_bit (unat line) 1) q
      else if line < 64 then mmio_write BCM2835_IRQ_DISABLE2 (push_bit (unat (line - 32)) 1) q
      else if line < HAL_MAX_IRQ_LINES
      then mmio_write BCM2835_IRQ_DISABLE_BASIC (push_bit (unat (line - HAL_IRQ_BASIC_BASE)) 1) q
      else q)"

definition hal_exception_register :: "u32 \<Rightarrow> u32 \<Rightarrow> arm_irq \<Rightarrow> int \<times> arm_irq" where
  "hal_exception_register vector handler q =
     (let i = unat (vector div 4)
      in if i \<ge> 8 then (- 1, q) else if handler = 0 then (- 1, q)
         else (0, q\<lparr>exception_handlers := (exception_handlers q)(i := handler)\<rparr>))"

section \<open>Dispatch\<close>

definition hal_irq_dispatch :: "(u32 \<Rightarrow> u32 \<Rightarrow> 's \<Rightarrow> 's option) \<Rightarrow> arm_irq \<Rightarrow> u32 \<Rightarrow> 's \<Rightarrow> 's option" where
  "hal_irq_dispatch call q line s =
     (if line < HAL_MAX_IRQ_LINES \<and> irq_handlers q (unat line) \<noteq> 0
      then call (irq_handlers q (unat line)) line s else Some s)"

text \<open>One of the three loops of the entry: the lowest pending bit is cleared and its line dispatched.\<close>

partial_function (option) pending_loop ::
    "(u32 \<Rightarrow> u32 \<Rightarrow> 's \<Rightarrow> 's option) \<Rightarrow> arm_irq \<Rightarrow> u32 \<Rightarrow> u32 \<Rightarrow> 's \<Rightarrow> 's option" where
  "pending_loop call q base pend s =
     (if pend = 0 then Some s
      else let b = ctz32 pend; pend = pend AND NOT (push_bit (unat b) 1)
           in Option.bind (hal_irq_dispatch call q (base + b) s) (pending_loop call q base pend))"

definition arm_irq_entry ::
    "(u32 \<Rightarrow> u32 \<Rightarrow> 's \<Rightarrow> 's option) \<Rightarrow> arm_irq \<Rightarrow> u32 \<Rightarrow> u32 \<Rightarrow> u32 \<Rightarrow> 's \<Rightarrow> 's option" where
  "arm_irq_entry call q pend1 pend2 basic s =
     Option.bind (pending_loop call q 0 pend1 s) (\<lambda>s.
     Option.bind (pending_loop call q 32 pend2 s) (\<lambda>s.
     pending_loop call q HAL_IRQ_BASIC_BASE (basic AND 0xFF) s))"

section \<open>The timer\<close>

text \<open>\<open>clo\<close> is what the counter reads and \<open>handler\<close> the address of \<open>timer_irq_handler\<close>.\<close>

definition hal_timer_init :: "u32 \<Rightarrow> u32 \<Rightarrow> u32 \<Rightarrow> arm_irq \<Rightarrow> arm_irq" where
  "hal_timer_init clo handler hz q =
     (if hz = 0 then q
      else let q = q\<lparr>timer_hz := hz, timer_interval_us := BCM2835_ST_FREQUENCY div hz\<rparr>;
               q = snd (hal_irq_register BCM2835_IRQ_TIMER1 handler q);
               q = mmio_write BCM2835_ST_C1 (clo + timer_interval_us q) q;
               q = mmio_write BCM2835_ST_CS (push_bit (unat BCM2835_IRQ_TIMER1) 1) q
           in hal_irq_enable_line BCM2835_IRQ_TIMER1 q)"

definition hal_timer_get_ms :: "arm_irq \<Rightarrow> arm_sched \<Rightarrow> u64" where
  "hal_timer_get_ms q s = (if timer_hz q = 0 then 0 else atick s * 1000 div ucast (timer_hz q))"

section \<open>Faults\<close>

text \<open>
  A fault from user mode kills the current task, with the processor status of the saved frame, if there
  is one, checked first; a fault of the kernel halts (after a registered handler, if any, has run).
\<close>

definition arm_user_fault_entry :: "u32 option \<Rightarrow> u32 \<Rightarrow> arm_sched \<Rightarrow> arm_sched option" where
  "arm_user_fault_entry frame_cpsr saved_sp s =
     (case frame_cpsr of None \<Rightarrow> None
      | Some cpsr \<Rightarrow> if cpsr AND 0x1F \<noteq> ARM_MODE_USR then None else arm_task_fault_kill saved_sp s)"

definition arm_kernel_fault_entry :: "(u32 \<Rightarrow> u32 \<Rightarrow> 's \<Rightarrow> 's option) \<Rightarrow> arm_irq \<Rightarrow> u32 \<Rightarrow> 's \<Rightarrow> 's option" where
  "arm_kernel_fault_entry call q vector s =
     (let i = unat (vector div 4)
      in Option.bind (if i < 8 \<and> exception_handlers q i \<noteq> 0 then call (exception_handlers q i) vector s else Some s)
           (\<lambda>s. None))"

section \<open>The lowest pending line\<close>

text \<open>One step of the search: if the low \<open>w\<close> bits are clear they are skipped.\<close>

definition ctz_step :: "nat \<Rightarrow> u32 \<times> u32 \<Rightarrow> u32 \<times> u32" where
  "ctz_step w nx = (if take_bit w (snd nx) = 0 then (fst nx + of_nat w, drop_bit w (snd nx)) else nx)"

definition ctz_state :: "u32 \<Rightarrow> nat \<Rightarrow> u32 \<times> u32 \<Rightarrow> bool" where
  "ctz_state p w nx \<longleftrightarrow> (\<exists>k. fst nx = of_nat k \<and> k + w \<le> 32 \<and> (\<forall>j<k. \<not> bit p j) \<and> snd nx = drop_bit k p \<and>
     take_bit w (snd nx) \<noteq> 0)"

lemma ctz_step_state:
  assumes "ctz_state p (2 * w) nx" and "0 < w"
  shows "ctz_state p w (ctz_step w nx)"
proof (cases "take_bit w (snd nx) = 0")
  case True
  obtain k where k: "fst nx = of_nat k" "k + 2 * w \<le> 32" "\<forall>j<k. \<not> bit p j" "snd nx = drop_bit k p"
    "take_bit (2 * w) (snd nx) \<noteq> 0" using assms(1) by (auto simp: ctz_state_def)
  have low: "\<not> bit p j" if "k \<le> j" "j < k + w" for j
  proof -
    have "\<not> bit (take_bit w (drop_bit k p)) (j - k)" using True k(4) by simp
    then show ?thesis using that k(2) by (simp add: bit_simps)
  qed
  obtain b where "bit (take_bit (2 * w) (drop_bit k p)) b"
    using k(4,5) bit_eq_iff [of "take_bit (2 * w) (drop_bit k p)" 0] by auto
  then have b: "b < 2 * w" "bit p (k + b)" by (simp_all add: bit_simps)
  have "w \<le> b" using low [of "k + b"] b(2) by (cases "b < w") auto
  then have "bit (take_bit w (drop_bit (k + w) p)) (b - w)" using b by (simp add: bit_simps)
  then have "take_bit w (drop_bit (k + w) p) \<noteq> 0" by auto
  moreover have "\<forall>j<k + w. \<not> bit p j" using low k(3) by (meson not_le)
  ultimately show ?thesis using True k
    by (auto simp: ctz_state_def ctz_step_def drop_bit_drop_bit add.commute intro!: exI [of _ "k + w"])
next
  case False
  then show ?thesis using assms by (auto simp: ctz_state_def ctz_step_def)
qed

lemma ctz32_steps:
  "ctz32 p = fst (ctz_step 1 (ctz_step 2 (ctz_step 4 (ctz_step 8 (ctz_step 16 (0, p))))))"
proof -
  have m: "(0x0000FFFF :: u32) = mask 16" "(0x000000FF :: u32) = mask 8" "(0x0000000F :: u32) = mask 4"
    "(0x00000003 :: u32) = mask 2" "(0x00000001 :: u32) = mask 1" by (simp_all add: mask_eq_exp_minus_1)
  have e: "x AND 0x0000FFFF = take_bit 16 x" "x AND 0x000000FF = take_bit 8 x" "x AND 0x0000000F = take_bit 4 x"
    "x AND 0x00000003 = take_bit 2 x" "x AND 0x00000001 = take_bit 1 x" for x :: u32
    by (simp_all only: m take_bit_eq_mask)
  show ?thesis
    by (simp only: ctz32_def e ctz_step_def Let_def) (auto split: prod.splits)
qed

lemma ctz32_bit:
  assumes "p \<noteq> 0"
  shows "unat (ctz32 p) < 32" and "bit p (unat (ctz32 p))" and "\<forall>j<unat (ctz32 p). \<not> bit p j"
proof -
  have "take_bit 32 p = p" by (rule take_bit_word_eq_self) simp
  then have "ctz_state p 32 (0, p)" using assms by (simp add: ctz_state_def)
  then have "ctz_state p 1 (ctz_step 1 (ctz_step 2 (ctz_step 4 (ctz_step 8 (ctz_step 16 (0, p))))))"
    using ctz_step_state [of p 1] ctz_step_state [of p 2] ctz_step_state [of p 4] ctz_step_state [of p 8]
      ctz_step_state [of p 16] by simp
  then obtain k where k: "ctz32 p = of_nat k" "k + 1 \<le> 32" "\<forall>j<k. \<not> bit p j" "take_bit 1 (drop_bit k p) \<noteq> 0"
    unfolding ctz_state_def ctz32_steps [symmetric] by auto
  have "bit p k" using k(4) by (simp add: take_bit_Suc bit_iff_odd_drop_bit odd_iff_mod_2_eq_one split: if_splits)
  then show "unat (ctz32 p) < 32" "bit p (unat (ctz32 p))" "\<forall>j<unat (ctz32 p). \<not> bit p j"
    using k by (simp_all add: of_nat_u32)
qed

section \<open>Each pending line is served once\<close>

text \<open>The lines in a list, one after the other.\<close>

primrec serve_lines :: "(u32 \<Rightarrow> u32 \<Rightarrow> 's \<Rightarrow> 's option) \<Rightarrow> arm_irq \<Rightarrow> nat list \<Rightarrow> 's \<Rightarrow> 's option" where
  "serve_lines call q [] s = Some s"
| "serve_lines call q (l # ls) s =
     Option.bind (if irq_handlers q l \<noteq> 0 then call (irq_handlers q l) (of_nat l) s else Some s)
       (serve_lines call q ls)"

lemma serve_lines_append:
  "serve_lines call q (xs @ ys) s = Option.bind (serve_lines call q xs s) (serve_lines call q ys)"
proof (induction xs arbitrary: s)
  case (Cons x xs)
  have "serve_lines call q (xs @ ys) = (\<lambda>s. Option.bind (serve_lines call q xs s) (serve_lines call q ys))"
    using Cons.IH by (rule ext)
  then show ?case by simp
qed simp

definition pending_bits :: "nat \<Rightarrow> u32 \<Rightarrow> nat list" where
  "pending_bits base p = map (\<lambda>i. base + i) (filter (bit p) [0..<32])"

lemma filter_lowest:
  assumes "k < n" and "P k" and "\<forall>j<k. \<not> P j"
  shows "filter P [0..<n] = k # filter (\<lambda>i. P i \<and> i \<noteq> k) [0..<n]"
proof -
  have "[0..<n] = [0..<k] @ k # [Suc k..<n]"
    using assms(1) upt_add_eq_append [of 0 k "n - k"] upt_conv_Cons [of k n] by simp
  moreover have "filter P [0..<k] = []" "filter (\<lambda>i. P i \<and> i \<noteq> k) [0..<k] = []"
    using assms(3) by (auto simp: filter_empty_conv)
  moreover have "filter P [Suc k..<n] = filter (\<lambda>i. P i \<and> i \<noteq> k) [Suc k..<n]"
    by (rule filter_cong) auto
  ultimately show ?thesis using assms(2) by simp
qed

lemma pending_loop_serves:
  assumes "base + 32 \<le> 72 \<or> base \<le> 72 \<and> (\<forall>i. bit p i \<longrightarrow> base + i < 72)"
  shows "pending_loop call q (of_nat base) p s = serve_lines call q (pending_bits base p) s"
  using assms
proof (induction "length (filter (bit p) [0..<32])" arbitrary: p s rule: less_induct)
  case less
  show ?case
  proof (cases "p = 0")
    case True
    then show ?thesis by (subst pending_loop.simps) (simp add: pending_bits_def)
  next
    case False
    define k where "k = unat (ctz32 p)"
    define p' where "p' = p AND NOT (push_bit k 1)"
    have k: "k < 32" "bit p k" "\<forall>j<k. \<not> bit p j" using ctz32_bit [OF False] by (simp_all add: k_def)
    have b': "bit p' i \<longleftrightarrow> bit p i \<and> i \<noteq> k" for i
      by (auto simp: p'_def bit_simps intro: bit_imp_le_length dest: bit_imp_le_length)
    have f: "filter (bit p) [0..<32] = k # filter (bit p') [0..<32]"
      using filter_lowest [OF k] b' by (simp cong: filter_cong)
    have bk: "base + k < 72" using less.prems k by auto
    have c: "ctz32 p = of_nat k" by (simp add: k_def)
    have l: "of_nat base + of_nat k = (of_nat (base + k) :: u32)" by simp
    have u: "unat (of_nat (base + k) :: u32) = base + k" using bk by (intro of_nat_u32) simp
    have lt: "(of_nat (base + k) :: u32) < 72" using u bk by (simp add: word_less_nat_alt)
    have d: "hal_irq_dispatch call q (of_nat base + of_nat k) s =
        (if irq_handlers q (base + k) \<noteq> 0 then call (irq_handlers q (base + k)) (of_nat (base + k)) s else Some s)"
      unfolding l by (simp only: hal_irq_dispatch_def u) (simp only: lt simp_thms)
    have ih: "pending_loop call q (of_nat base) p' s' = serve_lines call q (pending_bits base p') s'" for s'
      by (rule less.hyps) (use f less.prems b' in auto)
    have pb: "pending_bits base p = (base + k) # pending_bits base p'" by (simp add: pending_bits_def f)
    have step: "pending_loop call q (of_nat base) p s =
        Option.bind (hal_irq_dispatch call q (of_nat base + of_nat k) s) (pending_loop call q (of_nat base) p')"
      using False by (subst pending_loop.simps) (simp add: Let_def p'_def k_def)
    show ?thesis unfolding step pb d ih serve_lines.simps ..
  qed
qed

text \<open>The lines that the pending registers name, in ascending order.\<close>

definition pending_lines :: "u32 \<Rightarrow> u32 \<Rightarrow> u32 \<Rightarrow> nat list" where
  "pending_lines pend1 pend2 basic =
     filter (\<lambda>l. if l < 32 then bit pend1 l else if l < 64 then bit pend2 (l - 32) else bit basic (l - 64)) [0..<72]"

lemma pending_lines_banks:
  "pending_lines p1 p2 b = pending_bits 0 p1 @ pending_bits 32 p2 @ pending_bits 64 (b AND 0xFF)"
proof -
  let ?P = "\<lambda>l. if l < 32 then bit p1 l else if l < 64 then bit p2 (l - 32) else bit b (l - 64)"
  have u: "[0..<72] = [0..<32] @ map (\<lambda>i. i + 32) [0..<32] @ map (\<lambda>i. i + 64) [0..<8]"
    using upt_add_eq_append [of 0 32 40] upt_add_eq_append [of 32 64 8]
    by (simp add: map_add_upt del: upt_rec_numeral)
  have m: "(0xFF :: u32) = mask 8" by (simp add: mask_eq_exp_minus_1)
  have r: "[0..<32] = [0..<8] @ [8..<32]" using upt_add_eq_append [of 0 8 24] by (simp del: upt_rec_numeral)
  have b: "filter (bit (b AND 0xFF)) [0..<32] = filter (bit b) [0..<8]"
  proof -
    have "filter (bit (b AND mask 8)) [0..<8] = filter (bit b) [0..<8]"
      by (rule filter_cong) (auto simp: bit_simps)
    moreover have "filter (bit (b AND mask 8)) [8..<32] = []" by (auto simp: filter_empty_conv bit_simps)
    ultimately show ?thesis using r unfolding m by (simp del: upt_rec_numeral)
  qed
  have f: "filter ?P [0..<32] = filter (bit p1) [0..<32]"
    "filter (?P \<circ> (\<lambda>i. i + 32)) [0..<32] = filter (bit p2) [0..<32]"
    "filter (?P \<circ> (\<lambda>i. i + 64)) [0..<8] = filter (bit b) [0..<8]"
    by (rule filter_cong; auto)+
  have z: "map (\<lambda>i. 0 + i) xs = xs" for xs :: "nat list" by (induction xs) simp_all
  have c: "(\<lambda>i. 32 + i) = (\<lambda>i::nat. i + 32)" "(\<lambda>i. 64 + i) = (\<lambda>i::nat. i + 64)"
    by (simp_all add: fun_eq_iff)
  show ?thesis unfolding pending_lines_def pending_bits_def b u filter_append filter_map f z c ..
qed

lemma irq_entry_serves:
  "arm_irq_entry call q pend1 pend2 basic s =
    serve_lines call q (pending_bits 0 pend1 @ pending_bits 32 pend2 @ pending_bits 64 (basic AND 0xFF)) s"
proof -
  have m: "(0xFF :: u32) = mask 8" by (simp add: mask_eq_exp_minus_1)
  have "64 + i < 72" if "bit (basic AND 0xFF) i" for i using that unfolding m by (simp add: bit_simps)
  moreover have "serve_lines call q (xs @ ys) = (\<lambda>s. Option.bind (serve_lines call q xs s) (serve_lines call q ys))"
    for xs ys by (rule ext) (rule serve_lines_append)
  ultimately show ?thesis
    using pending_loop_serves [of 0 pend1 call q] pending_loop_serves [of 32 pend2 call q]
      pending_loop_serves [of 64 "basic AND 0xFF" call q]
    by (simp add: arm_irq_entry_def)
qed

section \<open>The timer interrupt\<close>

lemma serve_lines_one:
  assumes "distinct ls" and "\<forall>l \<in> set ls. l \<noteq> k \<longrightarrow> irq_handlers q l = 0" and "irq_handlers q k \<noteq> 0"
  shows "serve_lines call q ls s = (if k \<in> set ls then call (irq_handlers q k) (of_nat k) s else Some s)"
  using assms
proof (induction ls arbitrary: s)
  case (Cons l ls)
  then have ih: "serve_lines call q ls = (\<lambda>s. if k \<in> set ls then call (irq_handlers q k) (of_nat k) s else Some s)"
    by (intro ext) simp
  show ?case using Cons.prems by (cases "l = k") (auto simp: ih Option.bind_rzero split: Option.bind_split)
qed simp

text \<open>
  After the controller and the timer are set up, only the timer's line is enabled and has a handler,
  and an interrupt runs the tick exactly once if that line is pending and does nothing otherwise.
\<close>

theorem timer_interrupt_ticks_once:
  fixes q :: arm_irq and clo :: u32
  assumes "handler \<noteq> 0" and "hz \<noteq> 0"
  defines "q' \<equiv> hal_timer_init clo handler hz (hal_irq_init q)"
  shows "arm_irq_entry (\<lambda>h line. if h = handler then timer_irq_handler saved_sp else Some) q' pend1 pend2 basic s =
      (if bit pend1 1 then timer_irq_handler saved_sp s else Some s)"
    and "filter (\<lambda>(a, v). a \<in> {BCM2835_IRQ_ENABLE1, BCM2835_IRQ_ENABLE2, BCM2835_IRQ_ENABLE_BASIC})
        (drop (length (mmio_writes q)) (mmio_writes q')) = [(BCM2835_IRQ_ENABLE1, 2)]"
proof -
  have h: "irq_handlers q' l = (if l = 1 then handler else 0)" if "l < 72" for l
    using assms(1,2) that by (simp add: q'_def hal_timer_init_def hal_irq_register_def hal_irq_enable_line_def
        mmio_write_def hal_irq_init_def Let_def word_le_nat_alt)
  have p: "distinct (pending_lines pend1 pend2 basic)" "1 \<in> set (pending_lines pend1 pend2 basic) \<longleftrightarrow> bit pend1 1"
    "\<forall>l \<in> set (pending_lines pend1 pend2 basic). l < 72" by (simp_all add: pending_lines_def del: upt_rec_numeral)
  show "arm_irq_entry (\<lambda>h line. if h = handler then timer_irq_handler saved_sp else Some) q' pend1 pend2 basic s =
      (if bit pend1 1 then timer_irq_handler saved_sp s else Some s)"
    unfolding irq_entry_serves pending_lines_banks [symmetric]
    by (subst serve_lines_one [where k = 1]) (use p h assms(1) in simp_all)
  show "filter (\<lambda>(a, v). a \<in> {BCM2835_IRQ_ENABLE1, BCM2835_IRQ_ENABLE2, BCM2835_IRQ_ENABLE_BASIC})
        (drop (length (mmio_writes q)) (mmio_writes q')) = [(BCM2835_IRQ_ENABLE1, 2)]"
    using assms(1,2) by (simp add: q'_def hal_timer_init_def hal_irq_register_def hal_irq_enable_line_def
        mmio_write_def hal_irq_init_def Let_def)
qed

text \<open>C21. An interrupt calls the handler of each pending line that has one exactly once, in ascending order
  of the lines, and nothing else, whatever the pending registers read; the loops over them end.\<close>

theorem irq_entry_serves_each_line:
  "arm_irq_entry call q pend1 pend2 basic s = serve_lines call q (pending_lines pend1 pend2 basic) s"
  by (simp only: irq_entry_serves pending_lines_banks)

end
