(* ===== verification/Spec2Isabelle.thy ===== *)
theory Spec2Isabelle
  imports Klib_Printf Pmm Heap Vma Paging_Spec File_Spec Task_Spec Shell Readline Fbuf_Spec Keyboard_Spec Vga Interrupts Syscall_Spec Boot Arm_Task Arm_Irq
begin

text \<open>
  Verification development for Enclave OS, a small 32-bit kernel in C with its user library and shell
  (paths below are under \<open>src/\<close>). The i386 kernel is the main line; \<open>arch/arm\<close> holds a port with its own
  memory management and scheduler.

  \<^bold>\<open>The program.\<close> At the bottom lie a support library (\<open>klib.c\<close>), a bitmap of physical frames with reference
  counts (\<open>pmm.c\<close>), a buddy heap (\<open>heap.c\<close>) and the page tables with copy-on-write and demand paging
  (\<open>paging.c\<close>), which take frames from the first and consult the memory areas of a task (\<open>vma.c\<close>), whose
  records live on the heap. Above them a virtual file system (\<open>vfs.c\<close>) keeps a tree of nodes on the heap and
  calls into three file systems, files in memory (\<open>tmpfs.c\<close>), the boot archive (\<open>initrd.c\<close>) and FAT32
  (\<open>fat32.c\<close> on \<open>ata.c\<close>), and into the console device (\<open>devfs.c\<close>). Tasks (\<open>task.c\<close>) form a ring that the timer
  rotates; the loader (\<open>elf.c\<close>) fills their address spaces; system calls (\<open>syscall.c\<close>) are the only way in.
  The drivers are the frame buffer, the text console, keyboard, timer and interrupt controller. The user
  library (\<open>user_src/user_libc.c\<close>) builds an allocator, sorting, buffered streams and formatted output on the
  system calls, and the shell (\<open>user_src/shell_user.c\<close>) with its line editor runs on that.

  \<^bold>\<open>Conventions.\<close> Machine integers are \<open>32 word\<close>, \<open>8 word\<close> and so on, so arithmetic wraps as in C; signed
  results are \<open>int\<close> where the code cannot overflow them, with the error numbers of \<open>kerrno.h\<close> negative. A C
  structure is a \<open>record\<close>; structures reached through pointers are kept in a map from addresses, so that
  aliasing is visible. State is passed explicitly. A fallible or possibly endless piece of code returns
  \<open>option\<close>: \<open>None\<close> is a kernel that has stopped (\<open>cli; hlt\<close>) or a loop that does not return, and a theorem
  that the code returns is stated as an equation with \<open>Some\<close>. Interrupts are off in the kernel's critical
  sections, so an operation is one step; where interrupts do interleave (keyboard ring, timer, ARM scheduler)
  the interleaving is an explicit list of events or an inductive relation.

  \<^bold>\<open>Theories and what their lemmas show.\<close>

  \<^item> \<open>Prelude\<close>: word types, the constants of \<open>config.h\<close> and \<open>kerrno.h\<close>, facts on bits, words, lists and maps
    and the collections that the component proofs use.

  \<^item> \<open>Klib\<close>, \<open>Klib_Num\<close>, \<open>Klib_Printf\<close> (\<open>klib.c\<close>): memory and string routines over a byte map, number parsing
    against the value of the digits, the bounded formatter against an unbounded one.

  \<^item> \<open>Pmm\<close> (\<open>pmm.c\<close>): bitmap, counts and statistics. The invariant \<open>pmm_inv\<close> relates them; the locale
    \<open>frame_allocator\<close> states the contract of taking, sharing and releasing a frame and is interpreted on the
    model. \<open>Heap\<close> (\<open>heap.c\<close>): the buddy arrays against a tree of blocks (\<open>heap_inv\<close>); the locale
    \<open>memory_allocator\<close> states that live blocks are disjoint and is interpreted on \<open>kmalloc\<close> and \<open>kfree\<close>.
    \<open>Blocks\<close> extends it (\<open>block_allocator\<close>) with the contents of blocks, for the clients of the heap.

  \<^item> \<open>Vma\<close> (\<open>vma.c\<close>): the sorted list of areas; each operation against the set of addresses and flags it
    promises, with the atomicity of a failed removal.

  \<^item> \<open>Paging\<close>, \<open>Paging_Spec\<close> (\<open>paging.c\<close>): page directories and tables as maps of words; exact effect of mapping
    and protection on the translation of every address, private copies on write, zeroed demand pages, and the
    decision of the fault handler.

  \<^item> \<open>Vfs_Node\<close>, \<open>Vfs\<close>, \<open>Vfs_Spec\<close> (\<open>vfs.c\<close>), \<open>Tmpfs\<close>, \<open>Tmpfs_Spec\<close> (\<open>tmpfs.c\<close>), \<open>Initrd\<close> (\<open>initrd.c\<close>), \<open>Fat32\<close>
    (\<open>fat32.c\<close>, partition scan of \<open>ata.c\<close>), \<open>Console\<close> (\<open>devfs.c\<close>): nodes, callbacks as constructors of one
    datatype that the dispatch functions interpret, descriptors with reference counts. Path lookup equals a
    walk along the components, reads and writes refine an abstract file with a position, a FAT32 read gives
    the bytes of the cluster chain, the escape parser never overruns its buffer.

  \<^item> \<open>Elf\<close> (\<open>elf.c\<close>), \<open>Task\<close>, \<open>Task_Spec\<close> (\<open>task.c\<close>): loader, task ring, creation, exit, fork, wait, respawn of the
    first process. The ring is abstracted to a list that queueing, leaving and switching insert into, delete
    from and rotate, and that a leaving current task splits; scheduling is fair. \<open>Syscall_File\<close>, \<open>Syscall_Mem\<close>, \<open>Syscall\<close>, \<open>Syscall_Spec\<close>
    (\<open>syscall.c\<close>): every handler and the dispatcher; invalid arguments give an error and no effect, up to the
    sizes that the check of user buffers handles. \<open>File_Spec\<close>: write, lseek and read on one descriptor, and mkdir
    with the lookup of the new path. \<open>Boot\<close>
    (\<open>kernel.c\<close>): the order of the initialisation and the launch of the first process, which the scheduler
    then runs.

  \<^item> \<open>Fbuf\<close>, \<open>Fbuf_Spec\<close> (\<open>framebuffer.c\<close>), \<open>Vga\<close> (\<open>vga.c\<close>), \<open>Keyboard\<close>, \<open>Keyboard_Spec\<close> (\<open>keyboard.c\<close>), \<open>Interrupts\<close>
    (\<open>gdt.c\<close>, \<open>idt.c\<close>, \<open>isr.c\<close>, \<open>pic.c\<close>, \<open>timer.c\<close>, \<open>tss.c\<close>, \<open>serial.c\<close>): double buffering shows what direct
    drawing shows; the text console is a scrolling grid; the keyboard ring is a bounded queue and what is
    typed reaches the line editor; the gates and segments have the intended privileges.

  \<^item> \<open>Ulibc\<close>, \<open>Usort\<close>, \<open>Uprintf\<close>, \<open>Ustdio\<close>, \<open>Uproc\<close> (\<open>user_src/user_libc.c\<close>, \<open>user_syscalls.h\<close>): string routines,
    sorting with a comparison function as a parameter (locale \<open>strict_order\<close>, interpreted on the order of the
    shell's \<open>ls\<close>), the formatter and its truncation, streams that keep the order of the bytes, and a process
    as the library sees it: the whole kernel behind the system calls, with the break allocator on top.
    \<open>Shell\<close>, \<open>Readline\<close> (\<open>user_src/shell_user.c\<close>): commands, completion, history and the line editor against an
    abstract editor.

  \<^item> \<open>Arm_Pmm\<close>, \<open>Arm_Vmm\<close>, \<open>Arm_Task\<close>, \<open>Arm_Irq\<close> (\<open>arch/arm\<close>): frames (locale
    \<open>page_source\<close>, interpreted on the bitmap and used by the tables), two-level tables with their permission bits and domains, and a fixed
    table of tasks with sleeping, exits and faults as events of a reachability relation. An interrupt
    serves each pending line that has a handler once, in ascending order.

  \<^bold>\<open>Bounds and fuel.\<close> No model uses fuel. Loops over arrays of fixed size recurse on a list of indices or a
  \<open>nat\<close> counter of that size (the words of a bitmap, the entries of a table, the cells of a screen). Loops that follow memory or
  links the code does not bound (string scans, cluster chains, the boot archive, the ring) are
  \<open>partial_function (option)\<close>: \<open>None\<close> means that the C loop does not end, and the theorems that need an
  answer prove that one exists.

  \<^bold>\<open>Not modelled.\<close> The TLB, the caches and CR3: the model walks the tables of the address space concerned, and
  user memory in system calls is the one flat byte map of the current address space, while the page tables of
  \<open>Paging\<close> keep frames as words. Log and diagnostic messages, the dump of an exception and the
  status reports. Floating point (parsers of \<open>strtod\<close>, the state of the FPU beyond its lazy switching), stubs
  for dynamic linking, \<open>setjmp\<close>. Port I/O of the ATA driver: a disk is a function from sectors to bytes.
  The assembly sources: the context switch, entry stubs, start-up code and the return to user mode. The
  glyph data of \<open>univga_font.h\<close>, the shipped headers and example of \<open>initrd_src\<close>, and of the ARM port
  the loader, the frame buffer and the serial line.
  The manifest lists these parts with the reason for each.
\<close>

end
